(* ===== verification/Xgl_Prelude.thy ===== *)
theory Xgl_Prelude
  imports Main "HOL-Library.Word"
begin

unbundle bit_operations_syntax

text \<open>
  Shared material of the xgen-link development: the machine types the C code uses, the
  error codes of \<^verbatim>\<open>include/xgl/xgl_error.h\<close>, byte buffers as lists with the reads and
  writes that \<^verbatim>\<open>memcpy\<close> and indexed stores perform, and the generic locales that several
  components interpret (a stateful machine with an invariant, a byte checksum).

  Conventions used by every component theory:
  \<^item> a pointer parameter that the caller may pass as NULL is an \<open>option\<close>, with \<open>None\<close> for NULL;
    the component's own state (\<open>self\<close> pointers such as \<^verbatim>\<open>window\<close>, \<^verbatim>\<open>queue\<close>, \<^verbatim>\<open>manager\<close>) and
    out-parameters are passed and returned by value;
  \<^item> a function that returns \<^verbatim>\<open>xgl_error_t\<close> and a result through out-parameters yields a sum,
    \<open>Inl\<close> the error and \<open>Inr\<close> the results; one that changes state yields the error code and
    the new state;
  \<^item> fixed-width integers are words of that width, so that \<open>+\<close> and \<open>-\<close> wrap as in C;
    \<^verbatim>\<open>size_t\<close> quantities are naturals, bounded by the sizes of the buffers they index.
\<close>

section \<open>Machine types and error codes\<close>

type_synonym u8 = "8 word"
type_synonym u16 = "16 word"
type_synonym u32 = "32 word"
type_synonym u64 = "64 word"
type_synonym bytes = "u8 list"

lemma unat_u8_less: "unat (x :: u8) < 256"
  using unsigned_less [of x] by simp

lemma unat_u16_less: "unat (x :: u16) < 65536"
  using unsigned_less [of x] by simp

lemma unat_u32_less: "unat (x :: u32) < 4294967296"
  using unsigned_less [of x] by simp

lemma unat_u64_less: "unat (x :: u64) < 18446744073709551616"
  using unsigned_less [of x] by simp

text \<open>\<^verbatim>\<open>xgl_error_t\<close>, with the source's constructor names.\<close>

datatype xgl_error =
    XGL_OK
  | XGL_ERR_INVALID_PARAM
  | XGL_ERR_NULL_POINTER
  | XGL_ERR_NOT_INITIALIZED
  | XGL_ERR_ALREADY_INITIALIZED
  | XGL_ERR_NOT_FOUND
  | XGL_ERR_NO_MEMORY
  | XGL_ERR_POOL_EXHAUSTED
  | XGL_ERR_BUFFER_TOO_SMALL
  | XGL_ERR_ROUTE_NOT_FOUND
  | XGL_ERR_TX_FAILED
  | XGL_ERR_TIMEOUT
  | XGL_ERR_ACK_TIMEOUT
  | XGL_ERR_TTL_EXPIRED
  | XGL_ERR_INVALID_FRAME
  | XGL_ERR_CRC_FAILED
  | XGL_ERR_INVALID_VERSION
  | XGL_ERR_INVALID_DATA_TYPE
  | XGL_ERR_SEQUENCE_ERROR
  | XGL_ERR_BUSY
  | XGL_ERR_QUEUE_FULL
  | XGL_ERR_WINDOW_FULL


section \<open>Byte buffers\<close>

text \<open>
  A buffer is the list of its bytes. \<open>mem_read b off n\<close> is what \<^verbatim>\<open>memcpy(_, &b[off], n)\<close> reads,
  \<open>mem_write b off bs\<close> is \<open>b\<close> after \<^verbatim>\<open>memcpy(&b[off], bs, len)\<close>.
\<close>

definition mem_read :: "'a list \<Rightarrow> nat \<Rightarrow> nat \<Rightarrow> 'a list" where
  "mem_read b off n = take n (drop off b)"

definition mem_write :: "'a list \<Rightarrow> nat \<Rightarrow> 'a list \<Rightarrow> 'a list" where
  "mem_write b off bs = take off b @ bs @ drop (off + length bs) b"

named_theorems mem_simps "reads and writes of buffers"

lemma length_mem_write [simp]:
  "off + length bs \<le> length b \<Longrightarrow> length (mem_write b off bs) = length b"
  by (simp add: mem_write_def)

lemma length_mem_read [simp]:
  "off + n \<le> length b \<Longrightarrow> length (mem_read b off n) = n"
  by (simp add: mem_read_def)

lemma nth_mem_read [mem_simps]:
  "off + n \<le> length b \<Longrightarrow> i < n \<Longrightarrow> mem_read b off n ! i = b ! (off + i)"
  by (simp add: mem_read_def)

lemma nth_mem_write [mem_simps]:
  "off + length bs \<le> length b \<Longrightarrow> i < length b \<Longrightarrow>
   mem_write b off bs ! i = (if off \<le> i \<and> i < off + length bs then bs ! (i - off) else b ! i)"
  by (auto simp: mem_write_def nth_append min_def)

lemma nth_mem_write_before [mem_simps]:
  "i < off \<Longrightarrow> off \<le> length b \<Longrightarrow> mem_write b off bs ! i = b ! i"
  by (simp add: mem_write_def nth_append)

lemma mem_read_write_same [mem_simps]:
  "off + length bs \<le> length b \<Longrightarrow> n = length bs \<Longrightarrow> mem_read (mem_write b off bs) off n = bs"
  by (simp add: mem_read_def mem_write_def)

lemma mem_read_write_before [mem_simps]:
  "off + length bs \<le> length b \<Longrightarrow> o' + n \<le> off \<Longrightarrow>
   mem_read (mem_write b off bs) o' n = mem_read b o' n"
  by (rule nth_equalityI) (auto simp: mem_simps)

lemma mem_read_write_after [mem_simps]:
  "off + length bs \<le> o' \<Longrightarrow> o' + n \<le> length b \<Longrightarrow>
   mem_read (mem_write b off bs) o' n = mem_read b o' n"
  by (rule nth_equalityI) (auto simp: mem_simps)

lemma take_eq_mem_read: "take n b = mem_read b 0 n"
  by (simp add: mem_read_def)

lemma mem_read_append:
  "mem_read b off (m + n) = mem_read b off m @ mem_read b (off + m) n"
  by (simp add: mem_read_def take_add add.commute)

lemma mem_read_full [simp]: "n = length b \<Longrightarrow> mem_read b 0 n = b"
  by (simp add: mem_read_def)

lemma mem_read_snoc:
  "i < length b \<Longrightarrow> off \<le> i \<Longrightarrow> mem_read b off (Suc (i - off)) = mem_read b off (i - off) @ [b ! i]"
  by (simp add: mem_read_def take_Suc_conv_app_nth)

section \<open>Machines with an invariant\<close>

text \<open>
  A component that is driven by a sequence of events: one step consumes an event, returns an
  output and the next state. \<open>run\<close> drives it over a list of events and collects the outputs.
  A component interprets this locale on its own step function and invariant.
\<close>

locale invariant_machine =
  fixes step :: "'s \<Rightarrow> 'e \<Rightarrow> 'o \<times> 's"
    and inv :: "'s \<Rightarrow> bool"
  assumes step_inv: "inv s \<Longrightarrow> inv (snd (step s e))"
begin

primrec run :: "'s \<Rightarrow> 'e list \<Rightarrow> 'o list \<times> 's" where
  "run s [] = ([], s)"
| "run s (e # es) = (case step s e of (r, s') \<Rightarrow> case run s' es of (rs, s'') \<Rightarrow> (r # rs, s''))"

lemma run_inv: "inv s \<Longrightarrow> inv (snd (run s es))"
  by (induction es arbitrary: s) (auto simp: case_prod_beta dest: step_inv)

lemma run_append:
  "run s (es @ fs) = (case run s es of (rs, s') \<Rightarrow> case run s' fs of (rs', s'') \<Rightarrow> (rs @ rs', s''))"
  by (induction es arbitrary: s) (auto split: prod.splits)

lemma length_run [simp]: "length (fst (run s es)) = length es"
  by (induction es arbitrary: s) (auto simp: case_prod_beta)

end

text \<open>
  A component that implements an abstract one: as long as every call is allowed in the abstract state, the calls
  keep the two states related. What a client may call is part of the interface.
\<close>

locale guarded_refinement =
  fixes step :: "'s \<Rightarrow> 'c \<Rightarrow> 's"
    and astep :: "'a \<Rightarrow> 'c \<Rightarrow> 'a"
    and rel :: "'a \<Rightarrow> 's \<Rightarrow> bool"
    and guard :: "'a \<Rightarrow> 'c \<Rightarrow> bool"
  assumes refines: "rel a s \<Longrightarrow> guard a c \<Longrightarrow> rel (astep a c) (step s c)"
begin

primrec allowed :: "'a \<Rightarrow> 'c list \<Rightarrow> bool" where
  "allowed a [] \<longleftrightarrow> True"
| "allowed a (c # cs) \<longleftrightarrow> guard a c \<and> allowed (astep a c) cs"

lemma foldl_refines: "rel a s \<Longrightarrow> allowed a cs \<Longrightarrow> rel (foldl astep a cs) (foldl step s cs)"
  by (induction cs arbitrary: a s) (auto intro: refines)

end

section \<open>Byte checksums\<close>

text \<open>
  A checksum register updated byte by byte, injective in the register and in the byte. Two
  messages of the same length that differ in exactly one byte then have different checksums.
\<close>

locale byte_checksum =
  fixes upd :: "'c \<Rightarrow> u8 \<Rightarrow> 'c"
  assumes upd_inj_reg: "upd c b = upd c' b \<Longrightarrow> c = c'"
    and upd_inj_byte: "upd c b = upd c b' \<Longrightarrow> b = b'"
begin

lemma foldl_upd_inj: "foldl upd c bs = foldl upd c' bs \<Longrightarrow> c = c'"
  by (induction bs arbitrary: c c') (auto dest: upd_inj_reg)

lemma foldl_upd_detects:
  assumes "i < length bs" and "x \<noteq> bs ! i"
  shows "foldl upd c (bs[i := x]) \<noteq> foldl upd c bs"
proof
  assume eq: "foldl upd c (bs[i := x]) = foldl upd c bs"
  have "foldl upd (upd (foldl upd c (take i bs)) x) (drop (Suc i) bs) =
        foldl upd (upd (foldl upd c (take i bs)) (bs ! i)) (drop (Suc i) bs)"
    using eq assms(1) id_take_nth_drop [OF assms(1)]
    by (metis foldl_Cons foldl_append upd_conv_take_nth_drop)
  then have "x = bs ! i"
    by (blast dest: foldl_upd_inj upd_inj_byte)
  with assms(2) show False ..
qed

end

text \<open>
  A register at least two bytes wide can also be injective in two consecutive bytes; it then
  detects every error burst that stays within two neighbouring bytes.
\<close>

locale pair_checksum = byte_checksum +
  assumes upd_inj_pair: "upd (upd c a) b = upd (upd c a') b' \<Longrightarrow> a = a' \<and> b = b'"
begin

lemma foldl_upd_burst:
  assumes "foldl upd c (pre @ a # b # post) = foldl upd c (pre @ a' # b' # post)"
  shows "a = a' \<and> b = b'"
proof -
  have "upd (upd (foldl upd c pre) a) b = upd (upd (foldl upd c pre) a') b'"
    using assms by (auto dest: foldl_upd_inj)
  then show ?thesis by (rule upd_inj_pair)
qed

end

end
