(* ===== verification/Xgl_Serialize.thy ===== *)
theory Xgl_Serialize
  imports Xgl_Prelude
begin

text \<open>
  Little-endian integers in byte buffers: \<^verbatim>\<open>src/wire/xgl_serialize.c\<close> and the 64-bit helpers of
  \<^verbatim>\<open>src/wire/xgl_wire_ext.c\<close>. A C pointer \<^verbatim>\<open>&buffer[off]\<close> into a buffer is the pair of the
  buffer and the offset; it is never NULL, so the other components call the bodies
  \<open>put_u16_le\<close>, \<open>get_u16_le\<close> and so on, and the exported functions add the NULL test.
\<close>

section \<open>The code\<close>

definition put_u16_le :: "bytes \<Rightarrow> nat \<Rightarrow> u16 \<Rightarrow> bytes" where
  "put_u16_le b off v = b[off := ucast (v AND 0xFF), off + 1 := ucast (drop_bit 8 v AND 0xFF)]"

definition get_u16_le :: "bytes \<Rightarrow> nat \<Rightarrow> u16" where
  "get_u16_le b off = ucast (b ! off) OR push_bit 8 (ucast (b ! (off + 1)))"

definition put_u32_le :: "bytes \<Rightarrow> nat \<Rightarrow> u32 \<Rightarrow> bytes" where
  "put_u32_le b off v =
     b[off := ucast (v AND 0xFF),
       off + 1 := ucast (drop_bit 8 v AND 0xFF),
       off + 2 := ucast (drop_bit 16 v AND 0xFF),
       off + 3 := ucast (drop_bit 24 v AND 0xFF)]"

definition get_u32_le :: "bytes \<Rightarrow> nat \<Rightarrow> u32" where
  "get_u32_le b off =
     ucast (b ! off) OR push_bit 8 (ucast (b ! (off + 1)))
     OR push_bit 16 (ucast (b ! (off + 2))) OR push_bit 24 (ucast (b ! (off + 3)))"

definition xgl_serialize_u16_le :: "bytes option \<Rightarrow> u16 \<Rightarrow> bytes option" where
  "xgl_serialize_u16_le buffer v = map_option (\<lambda>b. put_u16_le b 0 v) buffer"

definition xgl_deserialize_u16_le :: "bytes option \<Rightarrow> u16" where
  "xgl_deserialize_u16_le buffer = (case buffer of None \<Rightarrow> 0 | Some b \<Rightarrow> get_u16_le b 0)"

definition xgl_serialize_u32_le :: "bytes option \<Rightarrow> u32 \<Rightarrow> bytes option" where
  "xgl_serialize_u32_le buffer v = map_option (\<lambda>b. put_u32_le b 0 v) buffer"

definition xgl_deserialize_u32_le :: "bytes option \<Rightarrow> u32" where
  "xgl_deserialize_u32_le buffer = (case buffer of None \<Rightarrow> 0 | Some b \<Rightarrow> get_u32_le b 0)"

text \<open>The two loops over \<open>i = 0, \<dots>, 7\<close> of \<^verbatim>\<open>wire_serialize_u64_le\<close> and \<^verbatim>\<open>wire_deserialize_u64_le\<close>.\<close>

definition wire_serialize_u64_le :: "bytes \<Rightarrow> nat \<Rightarrow> u64 \<Rightarrow> bytes" where
  "wire_serialize_u64_le b off v =
     foldl (\<lambda>b i. b[off + i := ucast (drop_bit (8 * i) v AND 0xFF)]) b [0..<8]"

definition wire_deserialize_u64_le :: "bytes \<Rightarrow> nat \<Rightarrow> u64" where
  "wire_deserialize_u64_le b off =
     foldl (\<lambda>v i. v OR push_bit (8 * i) (ucast (b ! (off + i)))) 0 [0..<8]"

section \<open>Bytes written and values read\<close>

text \<open>The images of the integers as lists of bytes, in which the round trips are stated.\<close>

definition le16 :: "u16 \<Rightarrow> bytes" where
  "le16 v = [ucast v, ucast (drop_bit 8 v)]"

definition le32 :: "u32 \<Rightarrow> bytes" where
  "le32 v = [ucast v, ucast (drop_bit 8 v), ucast (drop_bit 16 v), ucast (drop_bit 24 v)]"

definition le64 :: "u64 \<Rightarrow> bytes" where
  "le64 v = map (\<lambda>i. ucast (drop_bit (8 * i) v)) [0..<8]"

lemma length_le [simp]: "length (le16 a) = 2" "length (le32 b) = 4" "length (le64 c) = 8"
  by (simp_all add: le16_def le32_def le64_def)

lemma bit_0xFF: "bit (0xFF :: 'c::len word) n \<longleftrightarrow> n < 8 \<and> n < LENGTH('c)"
proof -
  have "(0xFF :: 'c word) = mask 8" by (simp add: mask_eq_exp_minus_1)
  then show ?thesis by (simp only: bit_mask_iff) auto
qed

lemma ucast_and_mask8 [simp]: "(ucast (x AND 0xFF) :: u8) = ucast (x :: 'c::len word)"
  by (rule bit_word_eqI)
    (simp only: bit_unsigned_iff bit_and_iff bit_0xFF, auto dest: bit_imp_le_length)

lemma put_u16_le_write:
  "off + 2 \<le> length b \<Longrightarrow> put_u16_le b off v = mem_write b off (le16 v)"
  by (rule nth_equalityI)
    (auto simp: put_u16_le_def le16_def mem_simps nth_list_update nth_Cons less_Suc_eq)

lemma put_u32_le_write:
  "off + 4 \<le> length b \<Longrightarrow> put_u32_le b off v = mem_write b off (le32 v)"
  by (rule nth_equalityI)
    (auto simp: put_u32_le_def le32_def mem_simps nth_list_update nth_Cons less_Suc_eq
      numeral_eq_Suc)

lemma foldl_update_write:
  "off + n \<le> length b \<Longrightarrow>
   foldl (\<lambda>b i. b[off + i := f i]) b [0..<n] = mem_write b off (map f [0..<n])"
proof (induction n)
  case 0
  then show ?case by (simp add: mem_write_def)
next
  case (Suc n)
  then show ?case
    by (intro nth_equalityI) (auto simp: mem_simps nth_list_update nth_append less_Suc_eq)
qed

lemma wire_serialize_u64_le_write:
  "off + 8 \<le> length b \<Longrightarrow> wire_serialize_u64_le b off v = mem_write b off (le64 v)"
  by (simp only: wire_serialize_u64_le_def le64_def foldl_update_write ucast_and_mask8)

lemma get_u16_le_at: "off + 2 \<le> length b \<Longrightarrow> mem_read b off 2 = le16 v \<Longrightarrow> get_u16_le b off = v"
proof -
  assume len: "off + 2 \<le> length b" and eq: "mem_read b off 2 = le16 v"
  have "b ! off = ucast v" "b ! (off + 1) = ucast (drop_bit 8 v)"
    using nth_mem_read [OF len, of 0] nth_mem_read [OF len, of 1] by (simp_all add: eq le16_def)
  then show "get_u16_le b off = v"
    by (simp add: get_u16_le_def) (rule bit_word_eqI, auto simp: bit_simps dest: bit_imp_le_length)
qed

lemma take_bit_add_byte:
  "take_bit n v OR push_bit n (ucast (ucast (drop_bit n v) :: u8)) = take_bit (n + 8) (v :: 'c::len word)"
  by (rule bit_word_eqI) (auto simp: bit_simps dest: bit_imp_le_length)

lemma ucast_byte_take_bit: "ucast (ucast v :: u8) = take_bit 8 (v :: 'c::len word)"
  by (rule bit_word_eqI) (auto simp: bit_simps dest: bit_imp_le_length)

lemma get_u32_le_at: "off + 4 \<le> length b \<Longrightarrow> mem_read b off 4 = le32 v \<Longrightarrow> get_u32_le b off = v"
proof -
  assume len: "off + 4 \<le> length b" and eq: "mem_read b off 4 = le32 v"
  have "b ! off = ucast v" "b ! (off + 1) = ucast (drop_bit 8 v)"
    "b ! (off + 2) = ucast (drop_bit 16 v)" "b ! (off + 3) = ucast (drop_bit 24 v)"
    using nth_mem_read [OF len, of 0] nth_mem_read [OF len, of 1]
      nth_mem_read [OF len, of 2] nth_mem_read [OF len, of 3]
    by (simp_all add: eq le32_def)
  then show "get_u32_le b off = v"
    using take_bit_add_byte [of 8 v] take_bit_add_byte [of 16 v] take_bit_add_byte [of 24 v]
    by (simp only: get_u32_le_def ucast_byte_take_bit or.assoc [symmetric])
      (simp add: take_bit_word_eq_self)
qed

lemma wire_deserialize_u64_le_at:
  "off + 8 \<le> length b \<Longrightarrow> mem_read b off 8 = le64 v \<Longrightarrow> wire_deserialize_u64_le b off = v"
proof -
  assume len: "off + 8 \<le> length b" and eq: "mem_read b off 8 = le64 v"
  have byte: "b ! (off + i) = ucast (drop_bit (8 * i) v)" if "i < 8" for i
    using nth_mem_read [OF len that] that by (simp add: eq le64_def)
  have "n \<le> 8 \<Longrightarrow> foldl (\<lambda>v i. v OR push_bit (8 * i) (ucast (b ! (off + i)))) 0 [0..<n] = take_bit (8 * n) v" for n
    by (induction n) (use byte take_bit_add_byte in \<open>simp_all add: add.commute [of 8]\<close>)
  from this [of 8] show "wire_deserialize_u64_le b off = v"
    by (simp add: wire_deserialize_u64_le_def take_bit_word_eq_self)
qed

lemmas put_le_write = put_u16_le_write put_u32_le_write wire_serialize_u64_le_write
lemmas get_le_at = get_u16_le_at get_u32_le_at wire_deserialize_u64_le_at

lemma length_put_le [simp]:
  "length (put_u16_le b off x) = length b" "length (put_u32_le b off y) = length b"
  by (simp_all add: put_u16_le_def put_u32_le_def)

lemma length_put_u64_le [simp]: "length (wire_serialize_u64_le b off z) = length b"
proof -
  have "length (foldl (\<lambda>b i. b[off + i := f i]) b is) = length b" for f :: "nat \<Rightarrow> u8" and "is"
    by (induction "is" arbitrary: b) auto
  then show ?thesis by (simp only: wire_serialize_u64_le_def)
qed

lemma take_put_u16 [simp]: "n \<le> off \<Longrightarrow> take n (put_u16_le b off v) = take n b"
  by (simp add: put_u16_le_def)

section \<open>Reading back what was written\<close>

text \<open>The law that an integer codec obeys, stated once for the three widths.\<close>

locale int_codec =
  fixes put :: "bytes \<Rightarrow> nat \<Rightarrow> 'v \<Rightarrow> bytes"
    and get :: "bytes \<Rightarrow> nat \<Rightarrow> 'v"
    and le :: "'v \<Rightarrow> bytes"
    and width :: nat
  assumes length_le_width: "length (le v) = width"
    and put_writes: "off + width \<le> length b \<Longrightarrow> put b off v = mem_write b off (le v)"
    and get_reads: "off + width \<le> length b \<Longrightarrow> mem_read b off width = le v \<Longrightarrow> get b off = v"
begin

lemma get_put: "off + width \<le> length b \<Longrightarrow> get (put b off v) off = v"
  by (rule get_reads) (simp_all add: put_writes length_le_width mem_simps)

lemma get_put_other:
  assumes "off + width \<le> length b" and "o' + width \<le> off \<or> off + width \<le> o'"
    and "o' + width \<le> length b" and "mem_read b o' width = le w"
  shows "get (put b off v) o' = w"
  using assms by (intro get_reads) (auto simp: put_writes length_le_width mem_simps)

lemma put_append:
  "length pre = off \<Longrightarrow> length mid = width \<Longrightarrow> put (pre @ mid @ post) off v = pre @ le v @ post"
  by (simp add: put_writes length_le_width mem_write_def)

lemma put_zeros:
  "length pre = off \<Longrightarrow> m = width + n \<Longrightarrow>
   put (pre @ replicate m 0 @ post) off v = (pre @ le v) @ replicate n 0 @ post"
  using put_append [of pre off "replicate width 0" "replicate n 0 @ post"]
  by (simp add: replicate_add)

lemma get_append: "length pre = off \<Longrightarrow> get (pre @ le v @ post) off = v"
  by (rule get_reads) (simp_all add: length_le_width mem_read_def)

end

interpretation u16_codec: int_codec put_u16_le get_u16_le le16 2
  by unfold_locales (simp_all add: put_le_write get_le_at)

interpretation u32_codec: int_codec put_u32_le get_u32_le le32 4
  by unfold_locales (simp_all add: put_le_write get_le_at)

interpretation u64_codec: int_codec wire_serialize_u64_le wire_deserialize_u64_le le64 8
  by unfold_locales (simp_all add: put_le_write get_le_at)

section \<open>Properties\<close>

text \<open>
  little-endian integers survive a write and a read at any offset that fits in the buffer, for
  the 16-, 32- and 64-bit routines.
\<close>

theorem serialize_roundtrip:
  assumes "off + 8 \<le> length b"
  shows "get_u16_le (put_u16_le b off x) off = x
       \<and> get_u32_le (put_u32_le b off y) off = y
       \<and> wire_deserialize_u64_le (wire_serialize_u64_le b off z) off = z"
  using assms by (simp add: u16_codec.get_put u32_codec.get_put u64_codec.get_put)

theorem serialize_roundtrip_witness:
  "get_u16_le (put_u16_le (replicate 9 0) 1 0xBEEF) 1 = 0xBEEF
   \<and> get_u32_le (put_u32_le (replicate 9 0) 1 0xDEADBEEF) 1 = 0xDEADBEEF
   \<and> wire_deserialize_u64_le (wire_serialize_u64_le (replicate 9 0) 1 0x0123456789ABCDEF) 1 = 0x0123456789ABCDEF"
  by (rule serialize_roundtrip) simp

end
