(* ===== verification/Xgl_Crc.thy ===== *)
theory Xgl_Crc
  imports Xgl_Prelude
begin

text \<open>
  The checksums of \<^verbatim>\<open>src/wire/xgl_crc.c\<close>: the two lookup tables and the table-driven updates,
  a bit-serial reference for each polynomial, the proof that the tables are the reference, and
  the error-detection facts the frame format rests on (one corrupted byte, or two consecutive
  ones, always change the CRC16).
\<close>

section \<open>The table-driven code\<close>

definition crc8_maxim_table :: "u8 list" where
  "crc8_maxim_table = [
    0x00, 0x5E, 0xBC, 0xE2, 0x61, 0x3F, 0xDD, 0x83,
    0xC2, 0x9C, 0x7E, 0x20, 0xA3, 0xFD, 0x1F, 0x41,
    0x9D, 0xC3, 0x21, 0x7F, 0xFC, 0xA2, 0x40, 0x1E,
    0x5F, 0x01, 0xE3, 0xBD, 0x3E, 0x60, 0x82, 0xDC,
    0x23, 0x7D, 0x9F, 0xC1, 0x42, 0x1C, 0xFE, 0xA0,
    0xE1, 0xBF, 0x5D, 0x03, 0x80, 0xDE, 0x3C, 0x62,
    0xBE, 0xE0, 0x02, 0x5C, 0xDF, 0x81, 0x63, 0x3D,
    0x7C, 0x22, 0xC0, 0x9E, 0x1D, 0x43, 0xA1, 0xFF,
    0x46, 0x18, 0xFA, 0xA4, 0x27, 0x79, 0x9B, 0xC5,
    0x84, 0xDA, 0x38, 0x66, 0xE5, 0xBB, 0x59, 0x07,
    0xDB, 0x85, 0x67, 0x39, 0xBA, 0xE4, 0x06, 0x58,
    0x19, 0x47, 0xA5, 0xFB, 0x78, 0x26, 0xC4, 0x9A,
    0x65, 0x3B, 0xD9, 0x87, 0x04, 0x5A, 0xB8, 0xE6,
    0xA7, 0xF9, 0x1B, 0x45, 0xC6, 0x98, 0x7A, 0x24,
    0xF8, 0xA6, 0x44, 0x1A, 0x99, 0xC7, 0x25, 0x7B,
    0x3A, 0x64, 0x86, 0xD8, 0x5B, 0x05, 0xE7, 0xB9,
    0x8C, 0xD2, 0x30, 0x6E, 0xED, 0xB3, 0x51, 0x0F,
    0x4E, 0x10, 0xF2, 0xAC, 0x2F, 0x71, 0x93, 0xCD,
    0x11, 0x4F, 0xAD, 0xF3, 0x70, 0x2E, 0xCC, 0x92,
    0xD3, 0x8D, 0x6F, 0x31, 0xB2, 0xEC, 0x0E, 0x50,
    0xAF, 0xF1, 0x13, 0x4D, 0xCE, 0x90, 0x72, 0x2C,
    0x6D, 0x33, 0xD1, 0x8F, 0x0C, 0x52, 0xB0, 0xEE,
    0x32, 0x6C, 0x8E, 0xD0, 0x53, 0x0D, 0xEF, 0xB1,
    0xF0, 0xAE, 0x4C, 0x12, 0x91, 0xCF, 0x2D, 0x73,
    0xCA, 0x94, 0x76, 0x28, 0xAB, 0xF5, 0x17, 0x49,
    0x08, 0x56, 0xB4, 0xEA, 0x69, 0x37, 0xD5, 0x8B,
    0x57, 0x09, 0xEB, 0xB5, 0x36, 0x68, 0x8A, 0xD4,
    0x95, 0xCB, 0x29, 0x77, 0xF4, 0xAA, 0x48, 0x16,
    0xE9, 0xB7, 0x55, 0x0B, 0x88, 0xD6, 0x34, 0x6A,
    0x2B, 0x75, 0x97, 0xC9, 0x4A, 0x14, 0xF6, 0xA8,
    0x74, 0x2A, 0xC8, 0x96, 0x15, 0x4B, 0xA9, 0xF7,
    0xB6, 0xE8, 0x0A, 0x54, 0xD7, 0x89, 0x6B, 0x35]"

definition crc16_modbus_table :: "u16 list" where
  "crc16_modbus_table = [
    0x0000, 0xC0C1, 0xC181, 0x0140, 0xC301, 0x03C0, 0x0280, 0xC241,
    0xC601, 0x06C0, 0x0780, 0xC741, 0x0500, 0xC5C1, 0xC481, 0x0440,
    0xCC01, 0x0CC0, 0x0D80, 0xCD41, 0x0F00, 0xCFC1, 0xCE81, 0x0E40,
    0x0A00, 0xCAC1, 0xCB81, 0x0B40, 0xC901, 0x09C0, 0x0880, 0xC841,
    0xD801, 0x18C0, 0x1980, 0xD941, 0x1B00, 0xDBC1, 0xDA81, 0x1A40,
    0x1E00, 0xDEC1, 0xDF81, 0x1F40, 0xDD01, 0x1DC0, 0x1C80, 0xDC41,
    0x1400, 0xD4C1, 0xD581, 0x1540, 0xD701, 0x17C0, 0x1680, 0xD641,
    0xD201, 0x12C0, 0x1380, 0xD341, 0x1100, 0xD1C1, 0xD081, 0x1040,
    0xF001, 0x30C0, 0x3180, 0xF141, 0x3300, 0xF3C1, 0xF281, 0x3240,
    0x3600, 0xF6C1, 0xF781, 0x3740, 0xF501, 0x35C0, 0x3480, 0xF441,
    0x3C00, 0xFCC1, 0xFD81, 0x3D40, 0xFF01, 0x3FC0, 0x3E80, 0xFE41,
    0xFA01, 0x3AC0, 0x3B80, 0xFB41, 0x3900, 0xF9C1, 0xF881, 0x3840,
    0x2800, 0xE8C1, 0xE981, 0x2940, 0xEB01, 0x2BC0, 0x2A80, 0xEA41,
    0xEE01, 0x2EC0, 0x2F80, 0xEF41, 0x2D00, 0xEDC1, 0xEC81, 0x2C40,
    0xE401, 0x24C0, 0x2580, 0xE541, 0x2700, 0xE7C1, 0xE681, 0x2640,
    0x2200, 0xE2C1, 0xE381, 0x2340, 0xE101, 0x21C0, 0x2080, 0xE041,
    0xA001, 0x60C0, 0x6180, 0xA141, 0x6300, 0xA3C1, 0xA281, 0x6240,
    0x6600, 0xA6C1, 0xA781, 0x6740, 0xA501, 0x65C0, 0x6480, 0xA441,
    0x6C00, 0xACC1, 0xAD81, 0x6D40, 0xAF01, 0x6FC0, 0x6E80, 0xAE41,
    0xAA01, 0x6AC0, 0x6B80, 0xAB41, 0x6900, 0xA9C1, 0xA881, 0x6840,
    0x7800, 0xB8C1, 0xB981, 0x7940, 0xBB01, 0x7BC0, 0x7A80, 0xBA41,
    0xBE01, 0x7EC0, 0x7F80, 0xBF41, 0x7D00, 0xBDC1, 0xBC81, 0x7C40,
    0xB401, 0x74C0, 0x7580, 0xB541, 0x7700, 0xB7C1, 0xB681, 0x7640,
    0x7200, 0xB2C1, 0xB381, 0x7340, 0xB101, 0x71C0, 0x7080, 0xB041,
    0x5000, 0x90C1, 0x9181, 0x5140, 0x9301, 0x53C0, 0x5280, 0x9241,
    0x9601, 0x56C0, 0x5780, 0x9741, 0x5500, 0x95C1, 0x9481, 0x5440,
    0x9C01, 0x5CC0, 0x5D80, 0x9D41, 0x5F00, 0x9FC1, 0x9E81, 0x5E40,
    0x5A00, 0x9AC1, 0x9B81, 0x5B40, 0x9901, 0x59C0, 0x5880, 0x9841,
    0x8801, 0x48C0, 0x4980, 0x8941, 0x4B00, 0x8BC1, 0x8A81, 0x4A40,
    0x4E00, 0x8EC1, 0x8F81, 0x4F40, 0x8D01, 0x4DC0, 0x4C80, 0x8C41,
    0x4400, 0x84C1, 0x8581, 0x4540, 0x8701, 0x47C0, 0x4680, 0x8641,
    0x8201, 0x42C0, 0x4380, 0x8341, 0x4100, 0x81C1, 0x8081, 0x4040]"

definition crc8_maxim_step :: "u8 \<Rightarrow> u8 \<Rightarrow> u8" where
  "crc8_maxim_step crc d = crc8_maxim_table ! unat (crc XOR d)"

definition xgl_crc8_maxim_update :: "u8 \<Rightarrow> bytes option \<Rightarrow> nat \<Rightarrow> u8" where
  "xgl_crc8_maxim_update crc data len =
     (case data of None \<Rightarrow> crc | Some d \<Rightarrow> foldl crc8_maxim_step crc (take len d))"

definition xgl_crc8_maxim :: "bytes option \<Rightarrow> nat \<Rightarrow> u8" where
  "xgl_crc8_maxim data len = xgl_crc8_maxim_update 0x00 data len"

definition crc16_modbus_step :: "u16 \<Rightarrow> u8 \<Rightarrow> u16" where
  "crc16_modbus_step crc d =
     (let index = (ucast (crc XOR ucast d) :: u8)
      in drop_bit 8 crc XOR crc16_modbus_table ! unat index)"

definition xgl_crc16_modbus_update :: "u16 \<Rightarrow> bytes option \<Rightarrow> nat \<Rightarrow> u16" where
  "xgl_crc16_modbus_update crc data len =
     (case data of None \<Rightarrow> crc | Some d \<Rightarrow> foldl crc16_modbus_step crc (take len d))"

definition xgl_crc16_modbus :: "bytes option \<Rightarrow> nat \<Rightarrow> u16" where
  "xgl_crc16_modbus data len = xgl_crc16_modbus_update 0xFFFF data len"

section \<open>The bit-serial reference\<close>

text \<open>
  One shift of a reflected CRC register: the bit shifted out decides whether the reflected
  polynomial is added (0xA001 is 0x8005 reflected, 0x8C is 0x31 reflected).
\<close>

definition crc16_shift :: "u16 \<Rightarrow> u16" where
  "crc16_shift x = drop_bit 1 x XOR (if bit x 0 then 0xA001 else 0)"

definition crc8_shift :: "u8 \<Rightarrow> u8" where
  "crc8_shift x = drop_bit 1 x XOR (if bit x 0 then 0x8C else 0)"

definition crc16_byte :: "u16 \<Rightarrow> u8 \<Rightarrow> u16" where
  "crc16_byte crc d = (crc16_shift ^^ 8) (crc XOR ucast d)"

definition crc8_byte :: "u8 \<Rightarrow> u8 \<Rightarrow> u8" where
  "crc8_byte crc d = (crc8_shift ^^ 8) (crc XOR d)"

section \<open>Tables of linear functions\<close>

text \<open>
  A table of a function that is linear over exclusive-or is determined by its values at the
  powers of two: doubling the table adds one such value to every entry.
\<close>

definition xor_double :: "'c::len word list \<Rightarrow> 'c word \<Rightarrow> 'c word list" where
  "xor_double xs v = xs @ map (\<lambda>x. x XOR v) xs"

lemma word_of_nat_add_exp:
  "i < 2 ^ n \<Longrightarrow> (word_of_nat (i + 2 ^ n) :: 'c::len word) = word_of_nat i XOR word_of_nat (2 ^ n)"
proof -
  assume "i < 2 ^ n"
  then have "\<not> bit i n"
    by (metis bit_take_bit_iff less_irrefl take_bit_nat_eq_self)
  then have "i AND 2 ^ n = 0"
    by (auto intro!: bit_eqI simp: bit_and_iff bit_exp_iff)
  then have "i + 2 ^ n = i XOR 2 ^ n"
    by (metis disjunctive_xor_eq_or disjunctive_add_eq_or)
  then show ?thesis by (simp only: of_nat_xor_eq)
qed

lemma map_linear_double:
  assumes lin: "\<And>x y. f (x XOR y) = f x XOR (f y :: 'c::len word)"
  shows "map (\<lambda>i. f (word_of_nat i :: 'c word)) [0..<2 ^ Suc n] =
         xor_double (map (\<lambda>i. f (word_of_nat i)) [0..<2 ^ n]) (f (word_of_nat (2 ^ n)))"
proof -
  have "[0..<2 ^ Suc n] = [0..<2 ^ n] @ map (\<lambda>i. i + 2 ^ n) [0..<(2::nat) ^ n]"
    by (simp add: upt_add_eq_append [of 0 "2^n" "2^n", simplified] map_add_upt mult_2)
  then show ?thesis
    by (simp add: xor_double_def word_of_nat_add_exp lin del: upt_Suc of_nat_add of_nat_power)
qed

lemma map_linear_table:
  assumes lin: "\<And>x y. f (x XOR y) = f x XOR (f y :: 'c::len word)"
  shows "map (\<lambda>i. f (word_of_nat i :: 'c word)) [0..<2 ^ n] =
         foldl xor_double [0] (map (\<lambda>k. f (word_of_nat (2 ^ k))) [0..<n])"
proof (induction n)
  case 0
  have "f 0 = 0" using lin [of 0 0] by simp
  then show ?case by simp
next
  case (Suc n)
  have "map (\<lambda>i. f (word_of_nat i)) [0..<2 ^ Suc n] =
        xor_double (map (\<lambda>i. f (word_of_nat i)) [0..<2 ^ n]) (f (word_of_nat (2 ^ n)))"
    by (rule map_linear_double) (rule lin)
  with Suc show ?case by (simp del: power_Suc of_nat_power)
qed

lemma word_eq_0_by_shift:
  fixes x :: "'c::len word"
  assumes b0: "\<not> bit x 0" and "drop_bit 1 x = 0"
  shows "x = 0"
proof (rule bit_word_eqI)
  fix n
  have "bit x (Suc m) = bit (drop_bit 1 x) m" for m
    by (simp add: bit_drop_bit_eq)
  with assms have "\<not> bit x (Suc m)" for m by simp
  with b0 show "bit x n = bit 0 n" by (cases n) simp_all
qed

lemma word_xor_eq_0D: "(x :: 'c::len word) XOR y = 0 \<Longrightarrow> x = y"
proof -
  assume eq: "x XOR y = 0"
  have "x = (x XOR y) XOR y" by (simp add: xor.assoc)
  also have "\<dots> = y" by (simp only: eq) simp
  finally show "x = y" .
qed

section \<open>Linear shift registers\<close>

text \<open>
  What the two CRC registers share: one shift is linear over exclusive-or and loses no
  information. Everything about repeated shifts follows.
\<close>

locale shift_register =
  fixes shift :: "'c::len word \<Rightarrow> 'c word"
  assumes shift_xor: "shift (x XOR y) = shift x XOR shift y"
    and shift_eq_0: "shift x = 0 \<Longrightarrow> x = 0"
begin

lemma shift_pow_xor: "(shift ^^ n) (x XOR y) = (shift ^^ n) x XOR (shift ^^ n) y"
  by (induction n) (simp_all add: shift_xor)

lemma shift_pow_eq_0: "(shift ^^ n) x = 0 \<Longrightarrow> x = 0"
  by (induction n) (auto dest: shift_eq_0)

lemma shift_pow_inj: "(shift ^^ n) x = (shift ^^ n) y \<Longrightarrow> x = y"
proof -
  assume "(shift ^^ n) x = (shift ^^ n) y"
  then have "(shift ^^ n) (x XOR y) = 0" by (simp add: shift_pow_xor)
  then show "x = y" by (rule word_xor_eq_0D [OF shift_pow_eq_0])
qed

lemma shift_pow_table:
  "map (\<lambda>i. (shift ^^ m) (word_of_nat i)) [0..<2 ^ n] =
   foldl xor_double [0] (map (\<lambda>k. (shift ^^ m) (word_of_nat (2 ^ k))) [0..<n])"
  by (rule map_linear_table) (rule shift_pow_xor)

end

lemma crc16_shift_top: "bit (crc16_shift x) 15 = bit x 0"
  by (auto simp: crc16_shift_def bit_simps dest: bit_imp_le_length)

lemma crc8_shift_top: "bit (crc8_shift x) 7 = bit x 0"
  by (auto simp: crc8_shift_def bit_simps dest: bit_imp_le_length)

interpretation crc16: shift_register crc16_shift
proof
  show "crc16_shift (x XOR y) = crc16_shift x XOR crc16_shift y" for x y
    by (auto simp: crc16_shift_def bit_simps xor.assoc xor.left_commute)
  show "x = 0" if "crc16_shift x = 0" for x
  proof -
    have b0: "\<not> bit x 0" using that crc16_shift_top [of x] by simp
    with that have "drop_bit 1 x = 0" by (simp add: crc16_shift_def)
    with b0 show "x = 0" by (rule word_eq_0_by_shift)
  qed
qed

interpretation crc8: shift_register crc8_shift
proof
  show "crc8_shift (x XOR y) = crc8_shift x XOR crc8_shift y" for x y
    by (auto simp: crc8_shift_def bit_simps xor.assoc xor.left_commute)
  show "x = 0" if "crc8_shift x = 0" for x
  proof -
    have b0: "\<not> bit x 0" using that crc8_shift_top [of x] by simp
    with that have "drop_bit 1 x = 0" by (simp add: crc8_shift_def)
    with b0 show "x = 0" by (rule word_eq_0_by_shift)
  qed
qed

section \<open>The tables are the reference\<close>

lemma crc16_shift_pow_high: "(crc16_shift ^^ 8) (push_bit 8 (ucast (b::u8))) = ucast b"
proof -
  have step: "crc16_shift (push_bit (Suc k) (x::u16)) = push_bit k x" if "k < 8" "x = ucast (b::u8)" for k x
    by (rule bit_word_eqI)
      (use that in \<open>auto simp: crc16_shift_def bit_simps Suc_diff_le simp del: push_bit_Suc dest: bit_imp_le_length\<close>)
  show ?thesis by (simp add: numeral_eq_Suc step del: push_bit_Suc)
qed


lemma crc16_modbus_table_double:
  "crc16_modbus_table =
     foldl xor_double [0] [0xC0C1, 0xC181, 0xC301, 0xC601, 0xCC01, 0xD801, 0xF001, 0xA001]"
  by (simp add: crc16_modbus_table_def xor_double_def)

lemma crc16_shift_powers:
  "map (\<lambda>k. (crc16_shift ^^ 8) (word_of_nat (2 ^ k))) [0..<8] =
     [0xC0C1, 0xC181, 0xC301, 0xC601, 0xCC01, 0xD801, 0xF001, 0xA001]"
  by code_simp

lemma crc8_maxim_table_double:
  "crc8_maxim_table =
     foldl xor_double [0] [0x5E, 0xBC, 0x61, 0xC2, 0x9D, 0x23, 0x46, 0x8C]"
  by (simp add: crc8_maxim_table_def xor_double_def)

lemma crc8_shift_powers:
  "map (\<lambda>k. (crc8_shift ^^ 8) (word_of_nat (2 ^ k))) [0..<8] =
     [0x5E, 0xBC, 0x61, 0xC2, 0x9D, 0x23, 0x46, 0x8C]"
  by code_simp

lemma crc16_table_eq: "crc16_modbus_table = map (\<lambda>i. (crc16_shift ^^ 8) (word_of_nat i)) [0..<2 ^ 8]"
  by (simp only: crc16.shift_pow_table crc16_shift_powers crc16_modbus_table_double)

lemma crc8_table_eq: "crc8_maxim_table = map (\<lambda>i. (crc8_shift ^^ 8) (word_of_nat i)) [0..<2 ^ 8]"
  by (simp only: crc8.shift_pow_table crc8_shift_powers crc8_maxim_table_double)

lemma crc16_table_nth: "crc16_modbus_table ! unat (i :: u8) = (crc16_shift ^^ 8) (ucast i)"
  using unat_u8_less [of i] by (simp add: crc16_table_eq unsigned_ucast_eq del: funpow.simps upt_Suc)

lemma crc8_table_nth: "crc8_maxim_table ! unat i = (crc8_shift ^^ 8) i"
  using unat_u8_less [of i] by (simp add: crc8_table_eq del: funpow.simps upt_Suc)

lemma word16_split:
  "(x :: u16) = push_bit 8 (ucast (ucast (drop_bit 8 x) :: u8)) XOR ucast (ucast x :: u8)"
  by (rule bit_word_eqI) (auto simp: bit_simps)

lemma crc16_modbus_step_eq: "crc16_modbus_step crc d = crc16_byte crc d"
proof -
  let ?x = "crc XOR ucast d :: u16"
  let ?h = "ucast (drop_bit 8 ?x) :: u8" and ?l = "ucast ?x :: u8"
  have "crc16_byte crc d = (crc16_shift ^^ 8) (push_bit 8 (ucast ?h) XOR ucast ?l)"
    by (simp only: crc16_byte_def word16_split [symmetric])
  also have "\<dots> = ucast ?h XOR crc16_modbus_table ! unat ?l"
    by (simp only: crc16.shift_pow_xor crc16_shift_pow_high crc16_table_nth)
  also have "(ucast ?h :: u16) = drop_bit 8 crc"
    by (rule bit_word_eqI) (auto simp: bit_simps dest: bit_imp_le_length)
  finally show ?thesis by (simp add: crc16_modbus_step_def)
qed

lemma crc8_maxim_step_eq: "crc8_maxim_step crc d = crc8_byte crc d"
  by (simp only: crc8_maxim_step_def crc8_byte_def crc8_table_nth)

section \<open>Error detection\<close>

lemma crc16_byte_pair:
  "crc16_byte (crc16_byte c a) b = (crc16_shift ^^ 16) (c XOR (ucast a XOR push_bit 8 (ucast b)))"
proof -
  have "(crc16_shift ^^ 8) (ucast b) = (crc16_shift ^^ 8) ((crc16_shift ^^ 8) (push_bit 8 (ucast b)))"
    by (simp only: crc16_shift_pow_high)
  also have "\<dots> = (crc16_shift ^^ 16) (push_bit 8 (ucast b))"
    using funpow_add [of 8 8 crc16_shift] by (simp add: comp_def)
  finally have b: "(crc16_shift ^^ 8) (ucast b) = (crc16_shift ^^ 16) (push_bit 8 (ucast b))" .
  have a: "(crc16_shift ^^ 8) ((crc16_shift ^^ 8) x) = (crc16_shift ^^ 16) x" for x
    using funpow_add [of 8 8 crc16_shift] by (simp add: comp_def)
  show ?thesis
    by (simp only: crc16_byte_def crc16.shift_pow_xor a b xor.assoc)
qed

lemma word16_pair_inj:
  fixes a b a' b' :: u8
  assumes "(ucast a XOR push_bit 8 (ucast b) :: u16) = ucast a' XOR push_bit 8 (ucast b')"
  shows "a = a' \<and> b = b'"
proof -
  have lo: "ucast (ucast x XOR push_bit 8 (ucast y) :: u16) = x" for x y :: u8
    by (rule bit_word_eqI) (auto simp: bit_simps)
  have hi: "ucast (drop_bit 8 (ucast x XOR push_bit 8 (ucast y) :: u16)) = y" for x y :: u8
    by (rule bit_word_eqI) (auto simp: bit_simps dest: bit_imp_le_length)
  show ?thesis
    using lo [of a b] lo [of a' b'] hi [of a b] hi [of a' b'] assms by simp
qed

lemma word_xor_left_cancel: "(c :: 'c::len word) XOR x = c XOR y \<longleftrightarrow> x = y"
proof
  assume "c XOR x = c XOR y"
  then have "c XOR (c XOR x) = c XOR (c XOR y)" by simp
  then show "x = y" by (simp only: xor.assoc [symmetric] xor_self_eq) simp
qed simp

lemma word_xor_right_cancel: "(x :: 'c::len word) XOR c = y XOR c \<longleftrightarrow> x = y"
  by (simp only: xor.commute [of _ c] word_xor_left_cancel)

interpretation crc16_sum: pair_checksum crc16_byte
proof
  show "c = c'" if "crc16_byte c b = crc16_byte c' b" for c c' b
    using crc16.shift_pow_inj [OF that [unfolded crc16_byte_def]]
    by (simp only: word_xor_right_cancel)
  show pair: "a = a' \<and> b = b'"
    if "crc16_byte (crc16_byte c a) b = crc16_byte (crc16_byte c a') b'" for c a b a' b'
    using crc16.shift_pow_inj [OF that [unfolded crc16_byte_pair]]
    by (simp only: word_xor_left_cancel word16_pair_inj)
  show "b = b'" if "crc16_byte c b = crc16_byte c b'" for c b b'
    using pair [of c b 0 b' 0] that by simp
qed

interpretation crc8_sum: byte_checksum crc8_byte
proof
  show "c = c'" if "crc8_byte c b = crc8_byte c' b" for c c' b
    using crc8.shift_pow_inj [OF that [unfolded crc8_byte_def]]
    by (simp only: word_xor_right_cancel)
  show "b = b'" if "crc8_byte c b = crc8_byte c b'" for c b b'
    using crc8.shift_pow_inj [OF that [unfolded crc8_byte_def]]
    by (simp only: word_xor_left_cancel)
qed

lemma crc16_modbus_step_fun: "crc16_modbus_step = crc16_byte"
  by (rule ext)+ (rule crc16_modbus_step_eq)

lemma crc8_maxim_step_fun: "crc8_maxim_step = crc8_byte"
  by (rule ext)+ (rule crc8_maxim_step_eq)

lemma xgl_crc16_modbus_full:
  "n = length d \<Longrightarrow> xgl_crc16_modbus (Some d) n = foldl crc16_byte 0xFFFF d"
  by (simp add: xgl_crc16_modbus_def xgl_crc16_modbus_update_def crc16_modbus_step_fun)

section \<open>Properties\<close>

text \<open>
  C25: the table-driven CRC16 of the code is the bit-serial MODBUS CRC (reflected polynomial
  0xA001, eight shifts per byte) on every buffer, every length and every starting register, and
  the table-driven CRC8 is the bit-serial MAXIM CRC (reflected polynomial 0x8C).
\<close>

theorem crc_tables_compute_reference:
  "xgl_crc16_modbus_update crc (Some d) n = foldl crc16_byte crc (take n d)
   \<and> xgl_crc8_maxim_update crc' (Some d) n = foldl crc8_byte crc' (take n d)"
  by (simp add: xgl_crc16_modbus_update_def crc16_modbus_step_fun
      xgl_crc8_maxim_update_def crc8_maxim_step_fun)

text \<open>
  C24: error detection. Two messages of the same length that differ only within two neighbouring
  bytes never have the same CRC16, whatever surrounds those bytes.
\<close>

theorem crc16_detects_two_byte_burst:
  assumes "(a, b) \<noteq> (a', b')" and "n = length pre + 2 + length post"
  shows "xgl_crc16_modbus (Some (pre @ a # b # post)) n \<noteq>
         xgl_crc16_modbus (Some (pre @ a' # b' # post)) n"
  using crc16_sum.foldl_upd_burst [of "0xFFFF" pre a b post a' b'] assms
  by (auto simp: xgl_crc16_modbus_full)

theorem crc16_detects_two_byte_burst_witness:
  "xgl_crc16_modbus (Some [0x31, 0x32, 0x33, 0x34]) 4 \<noteq> xgl_crc16_modbus (Some [0x31, 0xFF, 0x00, 0x34]) 4
   \<and> xgl_crc16_modbus (Some [0x31, 0x32, 0x33, 0x34, 0x35, 0x36, 0x37, 0x38, 0x39]) 9 = 0x4B37"
proof
  have ne: "(0x32 :: u8, 0x33 :: u8) \<noteq> (0xFF, 0x00)" by simp
  show "xgl_crc16_modbus (Some [0x31, 0x32, 0x33, 0x34]) 4 \<noteq> xgl_crc16_modbus (Some [0x31, 0xFF, 0x00, 0x34]) 4"
    using crc16_detects_two_byte_burst [OF ne, of 4 "[0x31]" "[0x34]"] by simp
  show "xgl_crc16_modbus (Some [0x31, 0x32, 0x33, 0x34, 0x35, 0x36, 0x37, 0x38, 0x39]) 9 = 0x4B37"
    by code_simp
qed

end
