(* ===== verification/Xgl_Wire.thy ===== *)
theory Xgl_Wire
  imports Xgl_Serialize Xgl_Crc
begin

text \<open>
  The wire format: the fixed 24-byte header, the type-length-value extensions behind it, the
  values of the extensions, and the authentication trailer. Models
  \<^verbatim>\<open>include/xgl/internal/xgl_wire.h\<close>, \<^verbatim>\<open>src/wire/xgl_wire.c\<close>, \<^verbatim>\<open>src/wire/xgl_wire_ext.c\<close>
  and \<^verbatim>\<open>src/wire/xgl_wire_ack_ext.c\<close>.

  An encoder takes the buffer with its size and returns the buffer after the writes (with the
  number of bytes written, when the code reports it). The authentication provider is the
  application's: a record of its two callbacks and its tag length. \<open>sign\<close> gets the key, the
  associated data, the payload and the room left for the tag, and returns an error or the tag;
  \<open>verify\<close> returns the error code and the validity flag.
\<close>

section \<open>Constants and data\<close>

abbreviation (input) "XGL_WIRE_MAGIC_0 \<equiv> (0xA5 :: u8)"
abbreviation (input) "XGL_WIRE_MAGIC_1 \<equiv> (0x5A :: u8)"
abbreviation (input) "XGL_WIRE_VERSION \<equiv> (2 :: u8)"
abbreviation (input) "XGL_WIRE_BASE_HEADER_SIZE \<equiv> (24 :: nat)"
abbreviation (input) "XGL_WIRE_EXT_HEADER_SIZE \<equiv> (2 :: nat)"
abbreviation (input) "XGL_FRAGMENT_EXT_VALUE_SIZE \<equiv> (12 :: nat)"
abbreviation (input) "XGL_FRAGMENT_EXT_SIZE \<equiv> (14 :: nat)"
abbreviation (input) "XGL_SESSION_EXT_VALUE_SIZE \<equiv> (12 :: nat)"
abbreviation (input) "XGL_SESSION_EXT_SIZE \<equiv> (14 :: nat)"
abbreviation (input) "XGL_AUTH_TAG_MAX_LEN \<equiv> (32 :: nat)"

abbreviation (input) "XGL_PACKET_TYPE_INVALID \<equiv> (0 :: u8)"
abbreviation (input) "XGL_PACKET_TYPE_DATA \<equiv> (1 :: u8)"
abbreviation (input) "XGL_PACKET_TYPE_ACK \<equiv> (2 :: u8)"
abbreviation (input) "XGL_PACKET_TYPE_CONTROL \<equiv> (3 :: u8)"
abbreviation (input) "XGL_PACKET_TYPE_HANDSHAKE \<equiv> (4 :: u8)"
abbreviation (input) "XGL_PACKET_TYPE_ROUTE \<equiv> (5 :: u8)"
abbreviation (input) "XGL_PACKET_TYPE_PROBE \<equiv> (6 :: u8)"
abbreviation (input) "XGL_PACKET_TYPE_CLOSE \<equiv> (7 :: u8)"

abbreviation (input) "XGL_WIRE_FLAG_ACK_ELICITING \<equiv> (0x01 :: u8)"
abbreviation (input) "XGL_WIRE_FLAG_HAS_EXTENSIONS \<equiv> (0x02 :: u8)"
abbreviation (input) "XGL_WIRE_FLAG_FRAGMENTED \<equiv> (0x04 :: u8)"
abbreviation (input) "XGL_WIRE_FLAG_ENCRYPTED \<equiv> (0x08 :: u8)"
abbreviation (input) "XGL_WIRE_FLAG_AUTHENTICATED \<equiv> (0x10 :: u8)"
abbreviation (input) "XGL_WIRE_FLAG_CONTROL \<equiv> (0x20 :: u8)"

abbreviation (input) "XGL_WIRE_EXT_SESSION \<equiv> (1 :: u8)"
abbreviation (input) "XGL_WIRE_EXT_ACK_RANGE \<equiv> (2 :: u8)"
abbreviation (input) "XGL_WIRE_EXT_SACK \<equiv> (3 :: u8)"
abbreviation (input) "XGL_WIRE_EXT_FRAGMENT \<equiv> (4 :: u8)"
abbreviation (input) "XGL_WIRE_EXT_SECURITY \<equiv> (5 :: u8)"
abbreviation (input) "XGL_WIRE_EXT_ROUTE \<equiv> (6 :: u8)"
abbreviation (input) "XGL_WIRE_EXT_TIMESTAMP \<equiv> (7 :: u8)"
abbreviation (input) "XGL_WIRE_EXT_DATA_TYPE \<equiv> (8 :: u8)"

record xgl_wire_header =
  wh_version :: u8
  wh_header_len :: u8
  wh_packet_type :: u8
  wh_flags :: u8
  wh_ttl :: u8
  wh_traffic_class :: u8
  wh_source_id :: u16
  wh_target_id :: u16
  wh_connection_id :: u32
  wh_packet_number :: u32
  wh_payload_len :: u16
  wh_header_crc16 :: u16

text \<open>\<^verbatim>\<open>ext.value\<close> points into the buffer of the cursor; here it is the bytes it points to.\<close>

record xgl_wire_ext =
  ext_type :: u8
  ext_len :: nat
  ext_value :: bytes
  ext_valid :: bool

record xgl_wire_ack_range =
  ar_gap :: u16
  ar_length :: u16

record xgl_wire_ext_cursor =
  cur_buffer :: bytes
  cur_len :: nat
  cur_offset :: nat

record xgl_auth_provider =
  ap_sign :: "(u32 \<Rightarrow> bytes \<Rightarrow> bytes \<Rightarrow> nat \<Rightarrow> xgl_error + bytes) option"
  ap_verify :: "(u32 \<Rightarrow> bytes \<Rightarrow> bytes \<Rightarrow> bytes \<Rightarrow> xgl_error \<times> bool) option"
  ap_tag_len :: nat

section \<open>The header\<close>

definition wire_header_crc16 :: "bytes \<Rightarrow> u16" where
  "wire_header_crc16 buffer =
     (let crc_input = (take XGL_WIRE_BASE_HEADER_SIZE buffer)[22 := 0, 23 := 0]
      in xgl_crc16_modbus (Some crc_input) XGL_WIRE_BASE_HEADER_SIZE)"

definition wire_packet_type_valid :: "u8 \<Rightarrow> bool" where
  "wire_packet_type_valid packet_type \<longleftrightarrow>
     packet_type > XGL_PACKET_TYPE_INVALID \<and> packet_type \<le> XGL_PACKET_TYPE_CLOSE"

text \<open>The test that both directions apply to the header's fields.\<close>

definition wire_header_fields_valid :: "xgl_wire_header \<Rightarrow> bool" where
  "wire_header_fields_valid h \<longleftrightarrow>
     \<not> (wh_version h \<noteq> XGL_WIRE_VERSION
        \<or> unat (wh_header_len h) < XGL_WIRE_BASE_HEADER_SIZE
        \<or> \<not> wire_packet_type_valid (wh_packet_type h)
        \<or> wh_source_id h = 0
        \<or> wh_target_id h = 0)"

definition wire_header_store :: "bytes \<Rightarrow> xgl_wire_header \<Rightarrow> bytes" where
  "wire_header_store buffer h =
     (let b = mem_write buffer 0 (replicate XGL_WIRE_BASE_HEADER_SIZE 0);
          b = b[0 := XGL_WIRE_MAGIC_0, 1 := XGL_WIRE_MAGIC_1, 2 := wh_version h,
                3 := wh_header_len h, 4 := wh_packet_type h, 5 := wh_flags h,
                6 := wh_ttl h, 7 := wh_traffic_class h];
          b = put_u16_le b 8 (wh_source_id h);
          b = put_u16_le b 10 (wh_target_id h);
          b = put_u32_le b 12 (wh_connection_id h);
          b = put_u32_le b 16 (wh_packet_number h);
          b = put_u16_le b 20 (wh_payload_len h)
      in put_u16_le b 22 (wire_header_crc16 b))"

definition xgl_wire_encode_header ::
  "bytes option \<Rightarrow> nat \<Rightarrow> xgl_wire_header option \<Rightarrow> xgl_error + bytes" where
  "xgl_wire_encode_header buffer buffer_size header =
     (case (buffer, header) of
        (Some b, Some h) \<Rightarrow>
          if buffer_size < XGL_WIRE_BASE_HEADER_SIZE then Inl XGL_ERR_BUFFER_TOO_SMALL
          else if \<not> wire_header_fields_valid h then Inl XGL_ERR_INVALID_PARAM
          else Inr (wire_header_store b h)
      | _ \<Rightarrow> Inl XGL_ERR_NULL_POINTER)"

definition wire_header_load :: "bytes \<Rightarrow> xgl_wire_header" where
  "wire_header_load b =
     \<lparr> wh_version = b ! 2, wh_header_len = b ! 3, wh_packet_type = b ! 4, wh_flags = b ! 5,
       wh_ttl = b ! 6, wh_traffic_class = b ! 7,
       wh_source_id = get_u16_le b 8, wh_target_id = get_u16_le b 10,
       wh_connection_id = get_u32_le b 12, wh_packet_number = get_u32_le b 16,
       wh_payload_len = get_u16_le b 20, wh_header_crc16 = get_u16_le b 22 \<rparr>"

definition xgl_wire_decode_header :: "bytes option \<Rightarrow> nat \<Rightarrow> xgl_error + xgl_wire_header" where
  "xgl_wire_decode_header buffer buffer_size =
     (case buffer of
        None \<Rightarrow> Inl XGL_ERR_NULL_POINTER
      | Some b \<Rightarrow>
          if buffer_size < XGL_WIRE_BASE_HEADER_SIZE then Inl XGL_ERR_BUFFER_TOO_SMALL
          else if b ! 0 \<noteq> XGL_WIRE_MAGIC_0 \<or> b ! 1 \<noteq> XGL_WIRE_MAGIC_1
          then Inl XGL_ERR_INVALID_FRAME
          else
            let expected_crc = wire_header_crc16 b; actual_crc = get_u16_le b 22
            in if expected_crc \<noteq> actual_crc then Inl XGL_ERR_CRC_FAILED
               else
                 let header = wire_header_load b
                 in if \<not> wire_header_fields_valid header then Inl XGL_ERR_INVALID_FRAME
                    else Inr header)"

section \<open>Extensions\<close>

definition xgl_wire_encode_ext ::
  "bytes option \<Rightarrow> nat \<Rightarrow> u8 \<Rightarrow> bytes option \<Rightarrow> nat \<Rightarrow> xgl_error + bytes \<times> nat" where
  "xgl_wire_encode_ext buffer buffer_size type value value_len =
     (case buffer of
        None \<Rightarrow> Inl XGL_ERR_NULL_POINTER
      | Some b \<Rightarrow>
          if type = 0 \<or> value_len > 255 then Inl XGL_ERR_INVALID_PARAM
          else if value_len > 0 \<and> value = None then Inl XGL_ERR_NULL_POINTER
          else
            let required_size = XGL_WIRE_EXT_HEADER_SIZE + value_len
            in if buffer_size < required_size then Inl XGL_ERR_BUFFER_TOO_SMALL
               else
                 let b = b[0 := type, 1 := word_of_nat value_len];
                     b = (if value_len > 0 then mem_write b 2 (take value_len (the value)) else b)
                 in Inr (b, required_size))"

definition xgl_wire_ext_cursor_init :: "bytes option \<Rightarrow> nat \<Rightarrow> xgl_error + xgl_wire_ext_cursor" where
  "xgl_wire_ext_cursor_init buffer len =
     (if buffer = None \<and> len > 0 then Inl XGL_ERR_NULL_POINTER
      else Inr \<lparr> cur_buffer = (case buffer of None \<Rightarrow> [] | Some b \<Rightarrow> b), cur_len = len, cur_offset = 0 \<rparr>)"

definition xgl_wire_ext_cursor_next ::
  "xgl_wire_ext_cursor \<Rightarrow> xgl_error + xgl_wire_ext \<times> xgl_wire_ext_cursor" where
  "xgl_wire_ext_cursor_next cursor =
     (if cur_offset cursor = cur_len cursor then Inl XGL_ERR_NOT_FOUND
      else if cur_len cursor - cur_offset cursor < XGL_WIRE_EXT_HEADER_SIZE
      then Inl XGL_ERR_INVALID_FRAME
      else
        let type = cur_buffer cursor ! cur_offset cursor;
            value_len = cur_buffer cursor ! (cur_offset cursor + 1);
            ext_len = XGL_WIRE_EXT_HEADER_SIZE + unat value_len
        in if type = 0 \<or> ext_len > cur_len cursor - cur_offset cursor
           then Inl XGL_ERR_INVALID_FRAME
           else Inr (\<lparr> ext_type = type, ext_len = unat value_len,
                       ext_value = mem_read (cur_buffer cursor)
                         (cur_offset cursor + XGL_WIRE_EXT_HEADER_SIZE) (unat value_len),
                       ext_valid = True \<rparr>,
                     cursor \<lparr> cur_offset := cur_offset cursor + ext_len \<rparr>))"

text \<open>
  The loop \<^verbatim>\<open>while ((err = xgl_wire_ext_cursor_next(&cursor, &ext)) == XGL_OK) { body }\<close> that several
  components run: \<open>body\<close> either returns from the enclosing function (\<open>Inl\<close>) or goes on with new
  locals (\<open>Inr\<close>); the loop ends with the cursor's error code and the locals. A cursor step
  consumes at least two bytes of what is left, so it ends on every buffer.
\<close>

function ext_while ::
  "(xgl_wire_ext \<Rightarrow> 's \<Rightarrow> 'r + 's) \<Rightarrow> xgl_wire_ext_cursor \<Rightarrow> 's \<Rightarrow> 'r + xgl_error \<times> 's" where
  "ext_while body cursor s =
     (case xgl_wire_ext_cursor_next cursor of
        Inl err \<Rightarrow> Inr (err, s)
      | Inr (ext, cursor') \<Rightarrow>
          (case body ext s of
             Inl r \<Rightarrow> Inl r
           | Inr s' \<Rightarrow> ext_while body cursor' s'))"
  by pat_completeness auto
termination
  by (relation "measure (\<lambda>(body, cursor, s). cur_len cursor - cur_offset cursor)")
    (auto simp: xgl_wire_ext_cursor_next_def Let_def split: if_splits)

declare ext_while.simps [simp del]

section \<open>Extension values\<close>

definition xgl_wire_encode_fragment_ext_value ::
  "bytes option \<Rightarrow> nat \<Rightarrow> u32 \<Rightarrow> u32 \<Rightarrow> u32 \<Rightarrow> xgl_error + bytes \<times> nat" where
  "xgl_wire_encode_fragment_ext_value buffer buffer_size message_id fragment_offset message_len =
     (case buffer of
        None \<Rightarrow> Inl XGL_ERR_NULL_POINTER
      | Some b \<Rightarrow>
          if buffer_size < XGL_FRAGMENT_EXT_VALUE_SIZE then Inl XGL_ERR_BUFFER_TOO_SMALL
          else Inr (put_u32_le (put_u32_le (put_u32_le b 0 message_id) 4 fragment_offset) 8 message_len,
                    XGL_FRAGMENT_EXT_VALUE_SIZE))"

definition xgl_wire_decode_fragment_ext_value ::
  "bytes option \<Rightarrow> nat \<Rightarrow> xgl_error + u32 \<times> u32 \<times> u32" where
  "xgl_wire_decode_fragment_ext_value buffer buffer_size =
     (case buffer of
        None \<Rightarrow> Inl XGL_ERR_NULL_POINTER
      | Some b \<Rightarrow>
          if buffer_size \<noteq> XGL_FRAGMENT_EXT_VALUE_SIZE then Inl XGL_ERR_INVALID_FRAME
          else Inr (get_u32_le b 0, get_u32_le b 4, get_u32_le b 8))"

definition xgl_wire_encode_session_ext_value ::
  "bytes option \<Rightarrow> nat \<Rightarrow> u32 \<Rightarrow> u64 \<Rightarrow> xgl_error + bytes \<times> nat" where
  "xgl_wire_encode_session_ext_value buffer buffer_size session_epoch incarnation_id =
     (case buffer of
        None \<Rightarrow> Inl XGL_ERR_NULL_POINTER
      | Some b \<Rightarrow>
          if buffer_size < XGL_SESSION_EXT_VALUE_SIZE then Inl XGL_ERR_BUFFER_TOO_SMALL
          else Inr (wire_serialize_u64_le (put_u32_le b 0 session_epoch) 4 incarnation_id,
                    XGL_SESSION_EXT_VALUE_SIZE))"

definition xgl_wire_decode_session_ext_value :: "bytes option \<Rightarrow> nat \<Rightarrow> xgl_error + u32 \<times> u64" where
  "xgl_wire_decode_session_ext_value buffer buffer_size =
     (case buffer of
        None \<Rightarrow> Inl XGL_ERR_NULL_POINTER
      | Some b \<Rightarrow>
          if buffer_size \<noteq> XGL_SESSION_EXT_VALUE_SIZE then Inl XGL_ERR_INVALID_FRAME
          else Inr (get_u32_le b 0, wire_deserialize_u64_le b 4))"

definition xgl_wire_encode_security_ext_value ::
  "bytes option \<Rightarrow> nat \<Rightarrow> u32 \<Rightarrow> u64 \<Rightarrow> u8 \<Rightarrow> xgl_error + bytes \<times> nat" where
  "xgl_wire_encode_security_ext_value buffer buffer_size key_id nonce_id tag_len =
     (case buffer of
        None \<Rightarrow> Inl XGL_ERR_NULL_POINTER
      | Some b \<Rightarrow>
          if tag_len = 0 then Inl XGL_ERR_INVALID_PARAM
          else if buffer_size < 13 then Inl XGL_ERR_BUFFER_TOO_SMALL
          else Inr ((wire_serialize_u64_le (put_u32_le b 0 key_id) 4 nonce_id)[12 := tag_len], 13))"

definition xgl_wire_decode_security_ext_value ::
  "bytes option \<Rightarrow> nat \<Rightarrow> xgl_error + u32 \<times> u64 \<times> u8" where
  "xgl_wire_decode_security_ext_value buffer buffer_size =
     (case buffer of
        None \<Rightarrow> Inl XGL_ERR_NULL_POINTER
      | Some b \<Rightarrow>
          if buffer_size \<noteq> 13 then Inl XGL_ERR_INVALID_FRAME
          else if b ! 12 = 0 then Inl XGL_ERR_INVALID_FRAME
          else Inr (get_u32_le b 0, wire_deserialize_u64_le b 4, b ! 12))"

definition xgl_wire_encode_route_ext_value ::
  "bytes option \<Rightarrow> nat \<Rightarrow> u16 \<Rightarrow> u16 \<Rightarrow> u32 \<Rightarrow> u16 \<Rightarrow> xgl_error + bytes \<times> nat" where
  "xgl_wire_encode_route_ext_value buffer buffer_size previous_hop next_hop route_epoch metric =
     (case buffer of
        None \<Rightarrow> Inl XGL_ERR_NULL_POINTER
      | Some b \<Rightarrow>
          if buffer_size < 10 then Inl XGL_ERR_BUFFER_TOO_SMALL
          else Inr (put_u16_le (put_u32_le (put_u16_le (put_u16_le b 0 previous_hop) 2 next_hop)
                      4 route_epoch) 8 metric, 10))"

definition xgl_wire_decode_route_ext_value ::
  "bytes option \<Rightarrow> nat \<Rightarrow> xgl_error + u16 \<times> u16 \<times> u32 \<times> u16" where
  "xgl_wire_decode_route_ext_value buffer buffer_size =
     (case buffer of
        None \<Rightarrow> Inl XGL_ERR_NULL_POINTER
      | Some b \<Rightarrow>
          if buffer_size \<noteq> 10 then Inl XGL_ERR_INVALID_FRAME
          else Inr (get_u16_le b 0, get_u16_le b 2, get_u32_le b 4, get_u16_le b 8))"

text \<open>The loop that stores the ranges from \<^verbatim>\<open>offset = 9\<close> on, and the one that loads them.\<close>

fun ack_ranges_store :: "bytes \<Rightarrow> nat \<Rightarrow> xgl_wire_ack_range list \<Rightarrow> bytes" where
  "ack_ranges_store b offset [] = b"
| "ack_ranges_store b offset (r # rs) =
     ack_ranges_store (put_u16_le (put_u16_le b offset (ar_gap r)) (offset + 2) (ar_length r)) (offset + 4) rs"

fun ack_ranges_load :: "bytes \<Rightarrow> nat \<Rightarrow> nat \<Rightarrow> xgl_wire_ack_range list" where
  "ack_ranges_load b offset 0 = []"
| "ack_ranges_load b offset (Suc n) =
     \<lparr> ar_gap = get_u16_le b offset, ar_length = get_u16_le b (offset + 2) \<rparr>
       # ack_ranges_load b (offset + 4) n"

definition xgl_wire_encode_ack_range_ext_value ::
  "bytes option \<Rightarrow> nat \<Rightarrow> u32 \<Rightarrow> u32 \<Rightarrow> xgl_wire_ack_range list option \<Rightarrow> nat \<Rightarrow> xgl_error + bytes \<times> nat" where
  "xgl_wire_encode_ack_range_ext_value buffer buffer_size largest_ack ack_delay_us ranges range_count =
     (case buffer of
        None \<Rightarrow> Inl XGL_ERR_NULL_POINTER
      | Some b \<Rightarrow>
          if range_count > 0 \<and> ranges = None then Inl XGL_ERR_NULL_POINTER
          else
            let required_size = 9 + range_count * 4
            in if required_size > 255 then Inl XGL_ERR_INVALID_PARAM
               else if buffer_size < required_size then Inl XGL_ERR_BUFFER_TOO_SMALL
               else
                 let b = put_u32_le b 0 largest_ack;
                     b = put_u32_le b 4 ack_delay_us;
                     b = b[8 := word_of_nat range_count];
                     rs = (case ranges of None \<Rightarrow> [] | Some rs \<Rightarrow> take range_count rs)
                 in Inr (ack_ranges_store b 9 rs, required_size))"

text \<open>
  \<open>have_ranges\<close> says whether the caller passed an array for the ranges; the array's contents
  after the call are the list of loaded ranges.
\<close>

definition xgl_wire_decode_ack_range_ext_value ::
  "bytes option \<Rightarrow> nat \<Rightarrow> bool \<Rightarrow> nat \<Rightarrow> xgl_error + u32 \<times> u32 \<times> xgl_wire_ack_range list" where
  "xgl_wire_decode_ack_range_ext_value buffer buffer_size have_ranges range_capacity =
     (case buffer of
        None \<Rightarrow> Inl XGL_ERR_NULL_POINTER
      | Some b \<Rightarrow>
          if buffer_size < 9 then Inl XGL_ERR_INVALID_FRAME
          else
            let encoded_count = unat (b ! 8);
                required_size = 9 + encoded_count * 4
            in if required_size \<noteq> buffer_size then Inl XGL_ERR_INVALID_FRAME
               else if encoded_count > 0 \<and> \<not> have_ranges then Inl XGL_ERR_NULL_POINTER
               else if range_capacity < encoded_count then Inl XGL_ERR_BUFFER_TOO_SMALL
               else Inr (get_u32_le b 0, get_u32_le b 4, ack_ranges_load b 9 encoded_count))"

definition xgl_wire_encode_sack_ext_value ::
  "bytes option \<Rightarrow> nat \<Rightarrow> u32 \<Rightarrow> bytes option \<Rightarrow> nat \<Rightarrow> xgl_error + bytes \<times> nat" where
  "xgl_wire_encode_sack_ext_value buffer buffer_size base_packet bitmap bitmap_len =
     (case buffer of
        None \<Rightarrow> Inl XGL_ERR_NULL_POINTER
      | Some b \<Rightarrow>
          if bitmap_len > 0 \<and> bitmap = None then Inl XGL_ERR_NULL_POINTER
          else
            let required_size = 5 + bitmap_len
            in if bitmap_len > 255 \<or> required_size > 255 then Inl XGL_ERR_INVALID_PARAM
               else if buffer_size < required_size then Inl XGL_ERR_BUFFER_TOO_SMALL
               else
                 let b = put_u32_le b 0 base_packet;
                     b = b[4 := word_of_nat bitmap_len];
                     b = (if bitmap_len > 0 then mem_write b 5 (take bitmap_len (the bitmap)) else b)
                 in Inr (b, required_size))"

definition xgl_wire_decode_sack_ext_value ::
  "bytes option \<Rightarrow> nat \<Rightarrow> bool \<Rightarrow> nat \<Rightarrow> xgl_error + u32 \<times> bytes" where
  "xgl_wire_decode_sack_ext_value buffer buffer_size have_bitmap bitmap_capacity =
     (case buffer of
        None \<Rightarrow> Inl XGL_ERR_NULL_POINTER
      | Some b \<Rightarrow>
          if buffer_size < 5 then Inl XGL_ERR_INVALID_FRAME
          else
            let encoded_bitmap_len = unat (b ! 4)
            in if 5 + encoded_bitmap_len \<noteq> buffer_size then Inl XGL_ERR_INVALID_FRAME
               else if encoded_bitmap_len > 0 \<and> \<not> have_bitmap then Inl XGL_ERR_NULL_POINTER
               else if bitmap_capacity < encoded_bitmap_len then Inl XGL_ERR_BUFFER_TOO_SMALL
               else Inr (get_u32_le b 0, mem_read b 5 encoded_bitmap_len))"

section \<open>Authentication trailer\<close>

definition wire_auth_aad_has_frame_header :: "bytes \<Rightarrow> nat \<Rightarrow> bool" where
  "wire_auth_aad_has_frame_header aad aad_len \<longleftrightarrow>
     aad_len \<ge> XGL_WIRE_BASE_HEADER_SIZE \<and> aad ! 0 = XGL_WIRE_MAGIC_0 \<and> aad ! 1 = XGL_WIRE_MAGIC_1"

text \<open>
  The result is what \<^verbatim>\<open>prepared_aad\<close> points to, \<open>aad_len\<close> bytes: the frame's own bytes, or the copy
  with the fields that change on the way (the TTL and the header checksum) set to zero.
\<close>

definition wire_auth_canonical_aad :: "bytes \<Rightarrow> nat \<Rightarrow> nat \<Rightarrow> xgl_error + bytes" where
  "wire_auth_canonical_aad aad aad_len canonical_size =
     (if \<not> wire_auth_aad_has_frame_header aad aad_len then Inr (take aad_len aad)
      else if aad_len > canonical_size then Inl XGL_ERR_BUFFER_TOO_SMALL
      else Inr ((take aad_len aad)[6 := 0, 22 := 0, 23 := 0]))"

definition xgl_wire_append_auth_trailer ::
  "bytes option \<Rightarrow> nat \<Rightarrow> nat \<Rightarrow> nat \<Rightarrow> u32 \<Rightarrow> xgl_auth_provider option \<Rightarrow> xgl_error + bytes \<times> nat" where
  "xgl_wire_append_auth_trailer buffer buffer_size aad_len payload_len key_id provider =
     (case (buffer, provider, Option.bind provider ap_sign) of
        (Some b, Some p, Some sign) \<Rightarrow>
          if ap_tag_len p = 0 \<or> ap_tag_len p > XGL_AUTH_TAG_MAX_LEN then Inl XGL_ERR_INVALID_PARAM
          else
            let tag_offset = aad_len + payload_len
            in if tag_offset > buffer_size then Inl XGL_ERR_BUFFER_TOO_SMALL
               else if buffer_size - tag_offset < ap_tag_len p then Inl XGL_ERR_BUFFER_TOO_SMALL
               else
                 (case wire_auth_canonical_aad b aad_len 255 of
                    Inl err \<Rightarrow> Inl err
                  | Inr signing_aad \<Rightarrow>
                      (case sign key_id signing_aad (mem_read b aad_len payload_len)
                              (buffer_size - tag_offset) of
                         Inl err \<Rightarrow> Inl err
                       | Inr tag \<Rightarrow>
                           if length tag \<noteq> ap_tag_len p then Inl XGL_ERR_INVALID_FRAME
                           else if length tag = 0 \<or> tag_offset + length tag > buffer_size
                           then Inl XGL_ERR_BUFFER_TOO_SMALL
                           else Inr (mem_write b tag_offset tag, tag_offset + length tag)))
      | _ \<Rightarrow> Inl XGL_ERR_NULL_POINTER)"

definition xgl_wire_verify_auth_trailer ::
  "bytes option \<Rightarrow> nat \<Rightarrow> nat \<Rightarrow> nat \<Rightarrow> u32 \<Rightarrow> xgl_auth_provider option \<Rightarrow> xgl_error \<times> bool" where
  "xgl_wire_verify_auth_trailer buffer frame_len aad_len payload_len key_id provider =
     (case (buffer, provider, Option.bind provider ap_verify) of
        (Some b, Some p, Some verify) \<Rightarrow>
          if ap_tag_len p = 0 \<or> ap_tag_len p > XGL_AUTH_TAG_MAX_LEN then (XGL_ERR_INVALID_PARAM, False)
          else
            let tag_offset = aad_len + payload_len
            in if tag_offset \<ge> frame_len then (XGL_ERR_INVALID_FRAME, False)
               else if frame_len - tag_offset \<noteq> ap_tag_len p then (XGL_ERR_INVALID_FRAME, False)
               else
                 (case wire_auth_canonical_aad b aad_len 255 of
                    Inl err \<Rightarrow> (err, False)
                  | Inr verifying_aad \<Rightarrow>
                      verify key_id verifying_aad (mem_read b aad_len payload_len)
                        (mem_read b tag_offset (frame_len - tag_offset)))
      | _ \<Rightarrow> (XGL_ERR_NULL_POINTER, False))"

section \<open>The image of a header\<close>

definition wire_header_prefix :: "xgl_wire_header \<Rightarrow> bytes" where
  "wire_header_prefix h =
     [XGL_WIRE_MAGIC_0, XGL_WIRE_MAGIC_1, wh_version h, wh_header_len h, wh_packet_type h,
      wh_flags h, wh_ttl h, wh_traffic_class h]
     @ le16 (wh_source_id h) @ le16 (wh_target_id h) @ le32 (wh_connection_id h)
     @ le32 (wh_packet_number h) @ le16 (wh_payload_len h)"

definition wire_header_image :: "xgl_wire_header \<Rightarrow> bytes" where
  "wire_header_image h =
     wire_header_prefix h @ le16 (xgl_crc16_modbus (Some (wire_header_prefix h @ [0, 0])) 24)"

lemma length_wire_header_prefix [simp]: "length (wire_header_prefix h) = 22"
  by (simp add: wire_header_prefix_def)

lemma length_wire_header_image [simp]: "length (wire_header_image h) = 24"
  by (simp add: wire_header_image_def)

lemma wire_header_store_image:
  assumes "24 \<le> length b"
  shows "wire_header_store b h = wire_header_image h @ drop 24 b"
proof -
  have fill: "mem_write b 0 (replicate 24 0) = replicate 24 0 @ drop 24 b"
    by (simp add: mem_write_def)
  have crc: "wire_header_crc16 (wire_header_prefix h @ 0 # 0 # z) =
             xgl_crc16_modbus (Some (wire_header_prefix h @ [0, 0])) 24" for z
    by (simp add: wire_header_crc16_def list_update_append)
  have head: "(replicate 24 0 @ z)[0 := XGL_WIRE_MAGIC_0, 1 := XGL_WIRE_MAGIC_1, 2 := wh_version h,
                3 := wh_header_len h, 4 := wh_packet_type h, 5 := wh_flags h,
                6 := wh_ttl h, 7 := wh_traffic_class h] =
             [XGL_WIRE_MAGIC_0, XGL_WIRE_MAGIC_1, wh_version h, wh_header_len h, wh_packet_type h,
              wh_flags h, wh_ttl h, wh_traffic_class h] @ replicate 16 0 @ z" for z :: bytes
    using replicate_add [of 8 16 "0 :: u8"] by (simp add: numeral_eq_Suc)
  note step16 = u16_codec.put_zeros and step32 = u32_codec.put_zeros
  have "put_u16_le (put_u32_le (put_u32_le (put_u16_le (put_u16_le
          ((mem_write b 0 (replicate 24 0))[0 := XGL_WIRE_MAGIC_0, 1 := XGL_WIRE_MAGIC_1, 2 := wh_version h,
                3 := wh_header_len h, 4 := wh_packet_type h, 5 := wh_flags h,
                6 := wh_ttl h, 7 := wh_traffic_class h])
          8 (wh_source_id h)) 10 (wh_target_id h)) 12 (wh_connection_id h))
          16 (wh_packet_number h)) 20 (wh_payload_len h) = wire_header_prefix h @ [0, 0] @ drop 24 b"
    unfolding fill head
    by (simp add: step16 [where n = 14] step16 [where n = 12] step32 [where n = 8]
          step32 [where n = 4] step16 [where n = 2] wire_header_prefix_def
        del: append.simps append_assoc)
      (simp add: numeral_2_eq_2)
  moreover have "put_u16_le (wire_header_prefix h @ [0, 0] @ drop 24 b) 22 v =
      wire_header_prefix h @ le16 v @ drop 24 b" for v
    by (simp add: put_u16_le_def list_update_append le16_def)
  ultimately show ?thesis
    by (simp add: wire_header_store_def Let_def crc wire_header_image_def)
qed

lemmas wire_image_defs = wire_header_image_def wire_header_prefix_def

lemma wire_header_load_image:
  "wire_header_load (wire_header_image h @ r) =
   h \<lparr> wh_header_crc16 := xgl_crc16_modbus (Some (wire_header_prefix h @ [0, 0])) 24 \<rparr>"
proof -
  let ?b = "wire_header_image h @ r"
  have "get_u16_le ?b 8 = wh_source_id h" "get_u16_le ?b 10 = wh_target_id h"
    "get_u32_le ?b 12 = wh_connection_id h" "get_u32_le ?b 16 = wh_packet_number h"
    "get_u16_le ?b 20 = wh_payload_len h"
    "get_u16_le ?b 22 = xgl_crc16_modbus (Some (wire_header_prefix h @ [0, 0])) 24"
    by (rule u16_codec.get_reads u32_codec.get_reads; simp add: wire_image_defs mem_read_def)+
  moreover have "?b ! 2 = wh_version h" "?b ! 3 = wh_header_len h" "?b ! 4 = wh_packet_type h"
    "?b ! 5 = wh_flags h" "?b ! 6 = wh_ttl h" "?b ! 7 = wh_traffic_class h"
    by (simp_all add: wire_image_defs)
  ultimately show ?thesis by (simp add: wire_header_load_def)
qed

lemma wire_header_crc16_image:
  "wire_header_crc16 (wire_header_image h @ r) = xgl_crc16_modbus (Some (wire_header_prefix h @ [0, 0])) 24"
  by (simp add: wire_header_crc16_def wire_header_image_def list_update_append le16_def)

lemma get_crc_load: "get_u16_le b 22 = wh_header_crc16 (wire_header_load b)"
  by (simp add: wire_header_load_def)

lemma wire_header_fields_valid_crc [simp]:
  "wire_header_fields_valid (h \<lparr> wh_header_crc16 := c \<rparr>) = wire_header_fields_valid h"
  by (simp add: wire_header_fields_valid_def)

lemma wire_header_image_magic [simp]:
  "(wire_header_image h @ r) ! 0 = XGL_WIRE_MAGIC_0" "(wire_header_image h @ r) ! 1 = XGL_WIRE_MAGIC_1"
  "(wire_header_image h @ r) ! Suc 0 = XGL_WIRE_MAGIC_1"
  by (simp_all add: wire_image_defs)

lemma wire_decode_image:
  "wire_header_fields_valid h \<Longrightarrow> 24 \<le> n \<Longrightarrow>
   xgl_wire_decode_header (Some (wire_header_image h @ r)) n =
     Inr (h \<lparr> wh_header_crc16 := xgl_crc16_modbus (Some (wire_header_prefix h @ [0, 0])) 24 \<rparr>)"
  by (simp add: xgl_wire_decode_header_def wire_header_crc16_image get_crc_load wire_header_load_image)

lemma wire_decode_header_OkD:
  assumes "xgl_wire_decode_header (Some b) n = Inr h"
  shows "24 \<le> n" "b ! 0 = XGL_WIRE_MAGIC_0" "b ! 1 = XGL_WIRE_MAGIC_1"
    "wire_header_crc16 b = get_u16_le b 22" "h = wire_header_load b" "wire_header_fields_valid h"
  using assms by (auto simp: xgl_wire_decode_header_def Let_def split: if_splits)

lemma wire_header_crc16_cong: "take 24 b = take 24 b' \<Longrightarrow> wire_header_crc16 b = wire_header_crc16 b'"
  by (simp add: wire_header_crc16_def)

lemma wire_header_crc16_update:
  assumes "24 \<le> length b" "i < 22" "x \<noteq> b ! i"
  shows "wire_header_crc16 (b[i := x]) \<noteq> wire_header_crc16 b"
proof -
  let ?in = "(take 24 b)[22 := 0, 23 := 0]"
  have "(take 24 (b[i := x]))[22 := 0, 23 := 0] = ?in[i := x]"
    using assms by (simp add: take_update_swap list_update_swap [of i 22] list_update_swap [of i 23])
  moreover have "foldl crc16_byte 0xFFFF (?in[i := x]) \<noteq> foldl crc16_byte 0xFFFF ?in"
    using assms by (intro crc16_sum.foldl_upd_detects) (simp_all add: min_def)
  ultimately show ?thesis
    using assms by (simp add: wire_header_crc16_def xgl_crc16_modbus_full)
qed

lemma wire_header_crc16_update_crc:
  assumes "24 \<le> length b" "i = 22 \<or> i = 23"
  shows "wire_header_crc16 (b[i := x]) = wire_header_crc16 b"
  using assms by (auto simp: wire_header_crc16_def take_update_swap list_update_swap [of 23 22])

lemma get_u16_le_inj:
  assumes "get_u16_le b off = get_u16_le b' off"
  shows "b ! off = b' ! off \<and> b ! (off + 1) = b' ! (off + 1)"
proof -
  have "ucast (get_u16_le c off) = c ! off" "ucast (drop_bit 8 (get_u16_le c off)) = c ! (off + 1)" for c
    unfolding get_u16_le_def
    by (rule bit_word_eqI, auto simp: bit_simps dest: bit_imp_le_length)+
  with assms show ?thesis by metis
qed

lemma get_u16_le_update_other:
  "i \<noteq> off \<Longrightarrow> i \<noteq> off + 1 \<Longrightarrow> get_u16_le (b[i := x]) off = get_u16_le b off"
  by (simp add: get_u16_le_def)

section \<open>Type-length-value extensions\<close>

definition tlv_image :: "u8 \<Rightarrow> bytes \<Rightarrow> bytes" where
  "tlv_image type value = type # word_of_nat (length value) # value"

lemma length_tlv_image [simp]: "length (tlv_image t v) = 2 + length v"
  by (simp add: tlv_image_def)

lemma xgl_wire_encode_ext_image:
  assumes "t \<noteq> 0" "length v \<le> 255" "2 + length v \<le> n" "n \<le> length b" "m = length v"
  shows "xgl_wire_encode_ext (Some b) n t (Some v) m =
         Inr (tlv_image t v @ drop (2 + length v) b, 2 + length v)"
proof -
  obtain x y zs where b: "b = x # y # zs"
    using assms by (metis Suc_le_length_iff add_2_eq_Suc le_trans)
  show ?thesis
    using assms by (auto simp: xgl_wire_encode_ext_def b tlv_image_def mem_write_def Let_def)
qed

lemma unat_word_of_nat_byte [simp]: "n \<le> 255 \<Longrightarrow> unat (word_of_nat n :: u8) = n"
  by (simp add: unsigned_of_nat take_bit_nat_eq_self)

lemma nth_append_at: "i = length pre \<Longrightarrow> (pre @ x # xs) ! i = x"
  by simp

lemma xgl_wire_ext_cursor_next_image:
  assumes "t \<noteq> 0" "length v \<le> 255" "off = length pre" "off + 2 + length v \<le> n"
  shows "xgl_wire_ext_cursor_next \<lparr> cur_buffer = pre @ tlv_image t v @ post, cur_len = n, cur_offset = off \<rparr> =
    Inr (\<lparr> ext_type = t, ext_len = length v, ext_value = v, ext_valid = True \<rparr>,
         \<lparr> cur_buffer = pre @ tlv_image t v @ post, cur_len = n, cur_offset = off + 2 + length v \<rparr>)"
  using assms nth_append [of "pre @ [t]" "word_of_nat (length v) # v @ post" "Suc (length pre)"]
  by (simp add: xgl_wire_ext_cursor_next_def tlv_image_def mem_read_def Let_def)

text \<open>
  What a cursor step guarantees on any buffer, well formed or not: it stays inside the buffer and
  moves forward by at least the two bytes of an extension header.
\<close>

definition cursor_ok :: "xgl_wire_ext_cursor \<Rightarrow> bool" where
  "cursor_ok c \<longleftrightarrow> cur_offset c \<le> cur_len c \<and> cur_len c \<le> length (cur_buffer c)"

lemma xgl_wire_ext_cursor_next_ok:
  assumes "cursor_ok c" "xgl_wire_ext_cursor_next c = Inr (e, c')"
  shows "cursor_ok c'" "cur_buffer c' = cur_buffer c" "cur_len c' = cur_len c"
    "cur_offset c' = cur_offset c + 2 + ext_len e" "length (ext_value e) = ext_len e"
    "ext_len e \<le> 255" "ext_type e \<noteq> 0" "ext_valid e"
    "ext_value e = mem_read (cur_buffer c) (cur_offset c + 2) (ext_len e)"
    "cur_offset c + 2 + ext_len e \<le> cur_len c"
  using assms unat_u8_less [of "cur_buffer c ! Suc (cur_offset c)"]
  by (auto simp: xgl_wire_ext_cursor_next_def cursor_ok_def Let_def mem_read_def split: if_splits)

section \<open>Extension value codecs\<close>

text \<open>
  The interface of an extension value: \<open>image v\<close> is its encoding. The encoder writes the image and
  reports its length, or refuses a buffer that is too small; the decoder, given exactly the
  image, returns the value. Its client is the extension walk: a value that is encoded, wrapped
  in a type-length-value record, stepped over by the cursor and decoded comes back.
\<close>

locale ext_value_codec =
  fixes enc :: "bytes option \<Rightarrow> nat \<Rightarrow> 'v \<Rightarrow> xgl_error + bytes \<times> nat"
    and dec :: "bytes option \<Rightarrow> nat \<Rightarrow> xgl_error + 'v"
    and ok :: "'v \<Rightarrow> bool"
    and image :: "'v \<Rightarrow> bytes"
  assumes image_fits: "ok v \<Longrightarrow> length (image v) \<le> 255"
    and enc_image: "ok v \<Longrightarrow> length (image v) \<le> n \<Longrightarrow> n \<le> length b \<Longrightarrow>
          enc (Some b) n v = Inr (image v @ drop (length (image v)) b, length (image v))"
    and enc_small: "ok v \<Longrightarrow> n < length (image v) \<Longrightarrow> enc (Some b) n v = Inl XGL_ERR_BUFFER_TOO_SMALL"
    and dec_image: "ok v \<Longrightarrow> dec (Some (image v @ r)) (length (image v)) = Inr v"
begin

lemma enc_total:
  assumes "ok v" "255 \<le> n" "n \<le> length b"
  shows "\<exists>b' m. enc (Some b) n v = Inr (b', m) \<and> dec (Some b') m = Inr v"
  using assms enc_image [of v n b] dec_image [of v] image_fits [of v] by auto

lemma ext_walk:
  assumes "ok v" "t \<noteq> 0" "length pre + 2 + length (image v) \<le> n"
  shows "\<exists>e c'. xgl_wire_ext_cursor_next
            \<lparr> cur_buffer = pre @ tlv_image t (image v) @ post, cur_len = n, cur_offset = length pre \<rparr> = Inr (e, c')
          \<and> ext_type e = t \<and> dec (Some (ext_value e)) (ext_len e) = Inr v
          \<and> cur_offset c' = length pre + 2 + length (image v)"
  using assms image_fits [OF assms(1)] dec_image [OF assms(1), of "[]"]
  by (simp add: xgl_wire_ext_cursor_next_image)

end

definition fragment_image :: "u32 \<times> u32 \<times> u32 \<Rightarrow> bytes" where
  "fragment_image = (\<lambda>(message_id, fragment_offset, message_len).
     le32 message_id @ le32 fragment_offset @ le32 message_len)"

definition session_image :: "u32 \<times> u64 \<Rightarrow> bytes" where
  "session_image = (\<lambda>(session_epoch, incarnation_id). le32 session_epoch @ le64 incarnation_id)"

definition security_image :: "u32 \<times> u64 \<times> u8 \<Rightarrow> bytes" where
  "security_image = (\<lambda>(key_id, nonce_id, tag_len). le32 key_id @ le64 nonce_id @ [tag_len])"

definition route_image :: "u16 \<times> u16 \<times> u32 \<times> u16 \<Rightarrow> bytes" where
  "route_image = (\<lambda>(previous_hop, next_hop, route_epoch, metric).
     le16 previous_hop @ le16 next_hop @ le32 route_epoch @ le16 metric)"

definition sack_image :: "u32 \<times> bytes \<Rightarrow> bytes" where
  "sack_image = (\<lambda>(base, bitmap). le32 base @ [word_of_nat (length bitmap)] @ bitmap)"

definition ack_range_bytes :: "xgl_wire_ack_range \<Rightarrow> bytes" where
  "ack_range_bytes r = le16 (ar_gap r) @ le16 (ar_length r)"

definition ack_range_image :: "u32 \<times> u32 \<times> xgl_wire_ack_range list \<Rightarrow> bytes" where
  "ack_range_image = (\<lambda>(largest, delay, ranges).
     le32 largest @ le32 delay @ [word_of_nat (length ranges)] @ concat (map ack_range_bytes ranges))"

lemmas image_defs = fragment_image_def session_image_def security_image_def route_image_def
  sack_image_def ack_range_image_def

text \<open>
  A buffer of at least \<open>n\<close> bytes, cut where the writes fall: writing a field at the position of a
  prefix replaces the next bytes.
\<close>

lemma split_at_le: "n \<le> length b \<Longrightarrow> \<exists>x y. b = x @ y \<and> length x = n"
  by (metis append_take_drop_id length_take min.absorb2)

lemma put_u16_le_drop:
  "length pre = off \<Longrightarrow> 2 \<le> length z \<Longrightarrow> put_u16_le (pre @ z) off v = pre @ le16 v @ drop 2 z"
  using u16_codec.put_append [of pre off "take 2 z" "drop 2 z"] by simp

lemma put_u32_le_drop:
  "length pre = off \<Longrightarrow> 4 \<le> length z \<Longrightarrow> put_u32_le (pre @ z) off v = pre @ le32 v @ drop 4 z"
  using u32_codec.put_append [of pre off "take 4 z" "drop 4 z"] by simp

lemma put_u64_le_drop:
  "length pre = off \<Longrightarrow> 8 \<le> length z \<Longrightarrow> wire_serialize_u64_le (pre @ z) off v = pre @ le64 v @ drop 8 z"
  using u64_codec.put_append [of pre off "take 8 z" "drop 8 z"] by simp

lemma list_update_drop:
  "length pre = off \<Longrightarrow> 1 \<le> length z \<Longrightarrow> (pre @ z)[off := v] = pre @ [v] @ drop 1 z"
  by (cases z) auto

lemmas put_le_drop = put_u16_le_drop put_u32_le_drop put_u64_le_drop list_update_drop

interpretation fragment_codec: ext_value_codec
  "\<lambda>b n (i, f, l). xgl_wire_encode_fragment_ext_value b n i f l"
  xgl_wire_decode_fragment_ext_value "\<lambda>_. True" fragment_image
proof (unfold_locales, goal_cases)
  case (2 v n b)
  then show ?case
    using put_u32_le_drop [of "[]" 0 b]
    by (cases v) (simp add: image_defs xgl_wire_encode_fragment_ext_value_def
       put_u32_le_drop [of "le32 _" 4] put_u32_le_drop [of "le32 _ @ le32 _" 8, simplified])
next
  case (4 v r)
  then show ?case
    by (cases v) (auto simp: image_defs xgl_wire_decode_fragment_ext_value_def mem_read_def
        intro!: u32_codec.get_reads)
qed (auto simp: image_defs xgl_wire_encode_fragment_ext_value_def)

interpretation session_codec: ext_value_codec
  "\<lambda>b n (e, i). xgl_wire_encode_session_ext_value b n e i"
  xgl_wire_decode_session_ext_value "\<lambda>_. True" session_image
proof (unfold_locales, goal_cases)
  case (2 v n b)
  then show ?case
    using put_u32_le_drop [of "[]" 0 b]
    by (cases v) (simp add: image_defs xgl_wire_encode_session_ext_value_def
       put_u64_le_drop [of "le32 _" 4])
next
  case (4 v r)
  then show ?case
    by (cases v) (auto simp: image_defs xgl_wire_decode_session_ext_value_def mem_read_def
        intro!: u32_codec.get_reads u64_codec.get_reads)
qed (auto simp: image_defs xgl_wire_encode_session_ext_value_def)

interpretation security_codec: ext_value_codec
  "\<lambda>b n (k, i, t). xgl_wire_encode_security_ext_value b n k i t"
  xgl_wire_decode_security_ext_value "\<lambda>(k, i, t). t \<noteq> 0" security_image
proof (unfold_locales, goal_cases)
  case (2 v n b)
  then show ?case
    using put_u32_le_drop [of "[]" 0 b]
    by (cases v) (simp add: image_defs xgl_wire_encode_security_ext_value_def
       put_u64_le_drop [of "le32 _" 4] list_update_drop [of "le32 _ @ le64 _" 12, simplified])
next
  case (4 v r)
  then show ?case
    by (cases v) (auto simp: image_defs xgl_wire_decode_security_ext_value_def mem_read_def nth_append
        intro!: u32_codec.get_reads u64_codec.get_reads)
qed (auto simp: image_defs xgl_wire_encode_security_ext_value_def)

interpretation route_codec: ext_value_codec
  "\<lambda>b n (p, h, e, m). xgl_wire_encode_route_ext_value b n p h e m"
  xgl_wire_decode_route_ext_value "\<lambda>_. True" route_image
proof (unfold_locales, goal_cases)
  case (2 v n b)
  then show ?case
    using put_u16_le_drop [of "[]" 0 b]
    by (cases v) (simp add: image_defs xgl_wire_encode_route_ext_value_def
       put_u16_le_drop [of "le16 _" 2] put_u32_le_drop [of "le16 _ @ le16 _" 4, simplified]
       put_u16_le_drop [of "le16 _ @ le16 _ @ le32 _" 8, simplified])
next
  case (4 v r)
  then show ?case
    by (cases v) (auto simp: image_defs xgl_wire_decode_route_ext_value_def mem_read_def
        intro!: u16_codec.get_reads u32_codec.get_reads)
qed (auto simp: image_defs xgl_wire_encode_route_ext_value_def)

interpretation sack_codec: ext_value_codec
  "\<lambda>b n (p, m). xgl_wire_encode_sack_ext_value b n p (Some m) (length m)"
  "\<lambda>b n. xgl_wire_decode_sack_ext_value b n True 250" "\<lambda>(p, m). length m \<le> 250" sack_image
proof (unfold_locales, goal_cases)
  case (2 v n b)
  obtain p m where v: "v = (p, m)" by (cases v)
  show ?case
    using 2 put_u32_le_drop [of "[]" 0 b]
    by (simp add: v image_defs xgl_wire_encode_sack_ext_value_def Let_def
       list_update_drop [of "le32 _" 4] mem_write_def add.commute)
next
  case (4 v r)
  then show ?case
    by (cases v) (auto simp: image_defs xgl_wire_decode_sack_ext_value_def mem_read_def nth_append
        intro!: u32_codec.get_reads)
qed (auto simp: image_defs xgl_wire_encode_sack_ext_value_def Let_def)

lemma length_ack_range_bytes [simp]: "length (ack_range_bytes r) = 4"
  by (simp add: ack_range_bytes_def)

lemma length_concat_ack_ranges [simp]: "length (concat (map ack_range_bytes rs)) = 4 * length rs"
  by (induction rs) auto

lemma ack_ranges_store_append:
  assumes "4 * length rs \<le> length z"
  shows "ack_ranges_store (pre @ z) (length pre) rs =
         pre @ concat (map ack_range_bytes rs) @ drop (4 * length rs) z"
  using assms
proof (induction rs arbitrary: pre z)
  case (Cons r rs)
  have "put_u16_le (put_u16_le (pre @ z) (length pre) (ar_gap r)) (length pre + 2) (ar_length r) =
        (pre @ ack_range_bytes r) @ drop 4 z"
    using Cons.prems put_u16_le_drop [of "pre @ le16 (ar_gap r)" "length pre + 2"]
    by (simp add: put_u16_le_drop ack_range_bytes_def)
  then show ?case
    using Cons.prems Cons.IH [of "drop 4 z" "pre @ ack_range_bytes r"]
    by (simp add: add.commute)
qed simp

lemma ack_ranges_load_append:
  "ack_ranges_load (pre @ concat (map ack_range_bytes rs) @ post) (length pre) (length rs) = rs"
proof (induction rs arbitrary: pre)
  case (Cons r rs)
  have "get_u16_le (pre @ ack_range_bytes r @ z) (length pre) = ar_gap r"
    "get_u16_le (pre @ ack_range_bytes r @ z) (length pre + 2) = ar_length r" for z
    using u16_codec.get_append [of pre] u16_codec.get_append [of "pre @ le16 (ar_gap r)"]
    by (simp_all add: ack_range_bytes_def)
  then show ?case
    using Cons.IH [of "pre @ ack_range_bytes r"] by (simp add: add.commute)
qed simp

interpretation ack_range_codec: ext_value_codec
  "\<lambda>b n (l, d, rs). xgl_wire_encode_ack_range_ext_value b n l d (Some rs) (length rs)"
  "\<lambda>b n. xgl_wire_decode_ack_range_ext_value b n True 61" "\<lambda>(l, d, rs). length rs \<le> 61" ack_range_image
proof (unfold_locales, goal_cases)
  case (2 v n b)
  obtain l d rs where v: "v = (l, d, rs)" by (cases v)
  show ?case
    using 2 put_u32_le_drop [of "[]" 0 b]
      ack_ranges_store_append [of rs "drop 9 b" "le32 l @ le32 d @ [word_of_nat (length rs)]"]
    by (simp add: v image_defs xgl_wire_encode_ack_range_ext_value_def Let_def
       put_u32_le_drop [of "le32 _" 4]
       list_update_drop [of "le32 _ @ le32 _" 8, simplified] add.commute mult.commute)
next
  case (4 v r)
  obtain l d rs where v: "v = (l, d, rs)" by (cases v)
  show ?case
    using 4 ack_ranges_load_append [of "le32 l @ le32 d @ [word_of_nat (length rs)]" rs r]
    by (auto simp: v image_defs xgl_wire_decode_ack_range_ext_value_def mem_read_def nth_append Let_def
        intro!: u32_codec.get_reads)
qed (auto simp: image_defs xgl_wire_encode_ack_range_ext_value_def Let_def)

section \<open>Authentication over mutable fields\<close>

text \<open>
  What the code relies on in the application's provider: a tag that \<open>sign\<close> made for some associated
  data and payload is accepted by \<open>verify\<close> for the same key, data and payload.
\<close>

definition provider_agrees :: "xgl_auth_provider \<Rightarrow> bool" where
  "provider_agrees p \<longleftrightarrow>
     (case (ap_sign p, ap_verify p) of
        (Some sign, Some verify) \<Rightarrow>
          (\<forall>key aad payload room tag. sign key aad payload room = Inr tag \<longrightarrow>
             verify key aad payload tag = (XGL_OK, True))
      | _ \<Rightarrow> False)"

text \<open>A provider that produces a tag of its declared length whenever there is room for it.\<close>

definition provider_signs :: "xgl_auth_provider \<Rightarrow> bool" where
  "provider_signs p \<longleftrightarrow>
     (case ap_sign p of
        None \<Rightarrow> False
      | Some sign \<Rightarrow> (\<forall>key aad payload room. ap_tag_len p \<le> room \<longrightarrow>
          (\<exists>tag. sign key aad payload room = Inr tag \<and> length tag = ap_tag_len p)))"

lemma provider_signsD:
  assumes "provider_signs p" "ap_tag_len p \<le> room"
  shows "\<exists>sign. ap_sign p = Some sign \<and>
    (\<forall>key aad payload. \<exists>tag. sign key aad payload room = Inr tag \<and> length tag = ap_tag_len p)"
  using assms by (auto simp: provider_signs_def split: option.splits)

lemma provider_agreesE:
  assumes "provider_agrees p"
  obtains sign verify where "ap_sign p = Some sign" "ap_verify p = Some verify"
    "\<And>key aad payload room tag. sign key aad payload room = Inr tag \<Longrightarrow>
       verify key aad payload tag = (XGL_OK, True)"
  using assms by (auto simp: provider_agrees_def split: option.splits)

lemma wire_auth_canonical_aad_mutable:
  assumes "wire_auth_aad_has_frame_header b n" "n \<le> length b" "i \<in> {6, 22, 23}"
  shows "wire_auth_canonical_aad (b[i := x]) n m = wire_auth_canonical_aad b n m"
  using assms
  by (auto simp: wire_auth_canonical_aad_def wire_auth_aad_has_frame_header_def take_update_swap
      list_update_swap [of 22 6] list_update_swap [of 23 6] list_update_swap [of 23 22])

lemma wire_auth_header_mutable:
  assumes "wire_auth_aad_has_frame_header b n" "i \<in> {6, 22, 23}"
  shows "wire_auth_aad_has_frame_header (b[i := x]) n"
  using assms by (auto simp: wire_auth_aad_has_frame_header_def)

lemma mem_read_update_before: "i < off \<Longrightarrow> mem_read (b[i := x]) off n = mem_read b off n"
  by (simp add: mem_read_def)

lemma verify_auth_trailer_mutable:
  assumes "wire_auth_aad_has_frame_header b aad" "aad \<le> length b" "i \<in> {6, 22, 23}"
  shows "xgl_wire_verify_auth_trailer (Some (b[i := x])) len aad pl key p =
         xgl_wire_verify_auth_trailer (Some b) len aad pl key p"
proof -
  have "24 \<le> aad" "i < 24" using assms by (auto simp: wire_auth_aad_has_frame_header_def)
  then show ?thesis
    by (auto simp: xgl_wire_verify_auth_trailer_def wire_auth_canonical_aad_mutable [OF assms]
        mem_read_update_before Let_def split: option.splits sum.splits)
qed

lemma append_auth_trailerE:
  assumes "xgl_wire_append_auth_trailer (Some b) n aad pl key (Some p) = Inr (b', len)"
  obtains sign signed tag where "ap_sign p = Some sign"
    "0 < ap_tag_len p" "ap_tag_len p \<le> 32" "aad + pl + ap_tag_len p \<le> n"
    "wire_auth_canonical_aad b aad 255 = Inr signed"
    "sign key signed (mem_read b aad pl) (n - (aad + pl)) = Inr tag"
    "length tag = ap_tag_len p" "b' = mem_write b (aad + pl) tag" "len = aad + pl + length tag"
  using assms
  by (auto simp: xgl_wire_append_auth_trailer_def Let_def split: option.splits if_splits sum.splits)

lemma wire_auth_canonical_aad_cong:
  assumes "take n b = take n b'" "24 \<le> n \<longrightarrow> n \<le> length b \<and> n \<le> length b'"
  shows "wire_auth_canonical_aad b n m = wire_auth_canonical_aad b' n m"
proof -
  have "wire_auth_aad_has_frame_header b n = wire_auth_aad_has_frame_header b' n"
    using assms nth_take [of 0 n b] nth_take [of 1 n b] nth_take [of 0 n b'] nth_take [of 1 n b']
    by (auto simp: wire_auth_aad_has_frame_header_def)
  then show ?thesis using assms by (simp add: wire_auth_canonical_aad_def)
qed

lemma verify_appended_trailer:
  assumes p: "provider_agrees p"
    and app: "xgl_wire_append_auth_trailer (Some b) n aad pl key (Some p) = Inr (b', len)"
    and n: "n \<le> length b"
  shows "xgl_wire_verify_auth_trailer (Some b') len aad pl key (Some p) = (XGL_OK, True)"
proof -
  from app obtain sign signed tag where s: "ap_sign p = Some sign"
    "0 < ap_tag_len p" "ap_tag_len p \<le> 32" "aad + pl + ap_tag_len p \<le> n"
    "wire_auth_canonical_aad b aad 255 = Inr signed"
    "sign key signed (mem_read b aad pl) (n - (aad + pl)) = Inr tag"
    "length tag = ap_tag_len p" "b' = mem_write b (aad + pl) tag" "len = aad + pl + length tag"
    by (rule append_auth_trailerE)
  from p s(1) obtain verify where v: "ap_verify p = Some verify"
    "verify key signed (mem_read b aad pl) tag = (XGL_OK, True)"
    using s(6) by (auto elim!: provider_agreesE)
  have fits: "aad + pl + length tag \<le> length b" using s n by simp
  have "wire_auth_canonical_aad b' aad 255 = Inr signed"
    using s(5) fits wire_auth_canonical_aad_cong [of aad b b' 255] by (simp add: s(8) mem_write_def)
  moreover have "mem_read b' aad pl = mem_read b aad pl"
    unfolding s(8) by (rule mem_read_write_before) (use fits in simp_all)
  moreover have "mem_read b' (aad + pl) (length tag) = tag"
    unfolding s(8) by (rule mem_read_write_same) (use fits in simp_all)
  ultimately show ?thesis
    using s(2,3,7,9) v by (simp add: xgl_wire_verify_auth_trailer_def Let_def)
qed

section \<open>Properties\<close>

text \<open>
  every header with valid fields is encoded into the first 24 bytes of a buffer that has room,
  the rest of the buffer is untouched, and decoding gives the header back with its checksum
  filled in. A header with invalid fields is refused.
\<close>

theorem wire_header_roundtrip:
  assumes "24 \<le> n" "n \<le> length b"
  shows "if wire_header_fields_valid h
         then \<exists>b'. xgl_wire_encode_header (Some b) n (Some h) = Inr b'
                \<and> length b' = length b \<and> drop 24 b' = drop 24 b
                \<and> xgl_wire_decode_header (Some b') n = Inr (h \<lparr> wh_header_crc16 := wire_header_crc16 b' \<rparr>)
         else xgl_wire_encode_header (Some b) n (Some h) = Inl XGL_ERR_INVALID_PARAM"
  using assms
  by (simp add: xgl_wire_encode_header_def wire_header_store_image wire_decode_image
      wire_header_crc16_image)

definition sample_header :: xgl_wire_header where
  "sample_header =
     \<lparr> wh_version = 2, wh_header_len = 24, wh_packet_type = 1, wh_flags = 1, wh_ttl = 8,
       wh_traffic_class = 0, wh_source_id = 1, wh_target_id = 0x0102, wh_connection_id = 7,
       wh_packet_number = 0xFFFFFFFF, wh_payload_len = 300, wh_header_crc16 = 0 \<rparr>"

lemma sample_header_valid: "wire_header_fields_valid sample_header"
  by (simp add: wire_header_fields_valid_def sample_header_def wire_packet_type_valid_def)

theorem wire_header_roundtrip_witness:
  "\<exists>b'. xgl_wire_encode_header (Some (replicate 30 0)) 30 (Some sample_header) = Inr b'
      \<and> xgl_wire_decode_header (Some b') 30 = Inr (sample_header \<lparr> wh_header_crc16 := wire_header_crc16 b' \<rparr>)"
  using wire_header_roundtrip [of 30 "replicate 30 0" sample_header] sample_header_valid by auto

text \<open>
  changing any single byte of an accepted header, whatever byte and whatever value, makes the
  decoder refuse it.
\<close>

theorem wire_header_corruption_refused:
  assumes "xgl_wire_decode_header (Some b) n = Inr h" "n \<le> length b" "i < 24" "x \<noteq> b ! i"
  shows "xgl_wire_decode_header (Some (b[i := x])) n \<in> {Inl XGL_ERR_INVALID_FRAME, Inl XGL_ERR_CRC_FAILED}"
proof -
  note ok = wire_decode_header_OkD [OF assms(1)]
  have "wire_header_crc16 (b[i := x]) \<noteq> get_u16_le (b[i := x]) 22"
  proof (cases "i < 22")
    case True
    then show ?thesis
      using wire_header_crc16_update [of b i x] assms ok
      by (auto simp: get_u16_le_update_other)
  next
    case False
    then have i: "i = 22 \<or> i = 23" using assms by auto
    show ?thesis
    proof
      assume "wire_header_crc16 (b[i := x]) = get_u16_le (b[i := x]) 22"
      then have "get_u16_le b 22 = get_u16_le (b[i := x]) 22"
        using wire_header_crc16_update_crc [of b i x] i assms ok by auto
      from get_u16_le_inj [OF this] show False using i assms ok by auto
    qed
  qed
  then show ?thesis using ok(1) by (auto simp: xgl_wire_decode_header_def Let_def)
qed

theorem wire_header_corruption_refused_witness:
  "xgl_wire_decode_header (Some ((wire_header_image sample_header)[20 := 0])) 24
     \<in> {Inl XGL_ERR_INVALID_FRAME, Inl XGL_ERR_CRC_FAILED}"
proof (rule wire_header_corruption_refused)
  show "xgl_wire_decode_header (Some (wire_header_image sample_header)) 24 =
    Inr (sample_header \<lparr> wh_header_crc16 := xgl_crc16_modbus (Some (wire_header_prefix sample_header @ [0, 0])) 24 \<rparr>)"
    using wire_decode_image [OF sample_header_valid, of 24 "[]"] by simp
qed (simp_all add: wire_image_defs sample_header_def le16_def le32_def)

text \<open>
  a cursor step on any buffer, well formed or hostile, stays within the extension area, moves
  forward by at least two bytes and yields a nonzero type, so a walk over the extensions reads
  only bytes of the area and ends.
\<close>

theorem wire_cursor_progress:
  assumes "cursor_ok c" "xgl_wire_ext_cursor_next c = Inr (e, c')"
  shows "cursor_ok c' \<and> cur_buffer c' = cur_buffer c \<and> cur_len c' = cur_len c
       \<and> cur_offset c + 2 \<le> cur_offset c' \<and> cur_offset c' \<le> cur_len c
       \<and> ext_type e \<noteq> 0 \<and> length (ext_value e) = ext_len e
       \<and> ext_value e = mem_read (cur_buffer c) (cur_offset c + 2) (ext_len e)"
  using xgl_wire_ext_cursor_next_ok [OF assms] by simp

theorem wire_cursor_progress_witness:
  "\<exists>e c'. xgl_wire_ext_cursor_next \<lparr> cur_buffer = [8, 1, 3], cur_len = 3, cur_offset = 0 \<rparr> = Inr (e, c')
        \<and> cursor_ok c' \<and> cur_offset c' \<le> 3 \<and> ext_value e = [3]"
proof -
  let ?c = "\<lparr> cur_buffer = [8, 1, 3], cur_len = 3, cur_offset = 0 \<rparr> :: xgl_wire_ext_cursor"
  have step: "xgl_wire_ext_cursor_next ?c =
      Inr (\<lparr> ext_type = 8, ext_len = 1, ext_value = [3], ext_valid = True \<rparr>, ?c \<lparr> cur_offset := 3 \<rparr>)"
    using xgl_wire_ext_cursor_next_image [of 8 "[3]" 0 "[]" 3 "[]"] by (simp add: tlv_image_def)
  have "cursor_ok ?c" by (simp add: cursor_ok_def)
  from wire_cursor_progress [OF this step] step show ?thesis by simp
qed

text \<open>
  Every extension value the protocol defines survives its codec: in a buffer of 255 bytes or more
  (the most a type-length-value record holds) each encoder succeeds, and the decoder applied to
  what it wrote returns the value.
\<close>

theorem wire_ext_values_roundtrip:
  assumes "255 \<le> n" "n \<le> length b" "tag_len \<noteq> 0" "length bitmap \<le> 250" "length ranges \<le> 61"
  shows "(\<exists>b' m. xgl_wire_encode_fragment_ext_value (Some b) n mid foff mlen = Inr (b', m)
             \<and> xgl_wire_decode_fragment_ext_value (Some b') m = Inr (mid, foff, mlen))
       \<and> (\<exists>b' m. xgl_wire_encode_session_ext_value (Some b) n epoch inc = Inr (b', m)
             \<and> xgl_wire_decode_session_ext_value (Some b') m = Inr (epoch, inc))
       \<and> (\<exists>b' m. xgl_wire_encode_security_ext_value (Some b) n key nonce tag_len = Inr (b', m)
             \<and> xgl_wire_decode_security_ext_value (Some b') m = Inr (key, nonce, tag_len))
       \<and> (\<exists>b' m. xgl_wire_encode_route_ext_value (Some b) n prev next repoch metric = Inr (b', m)
             \<and> xgl_wire_decode_route_ext_value (Some b') m = Inr (prev, next, repoch, metric))
       \<and> (\<exists>b' m. xgl_wire_encode_sack_ext_value (Some b) n base (Some bitmap) (length bitmap) = Inr (b', m)
             \<and> xgl_wire_decode_sack_ext_value (Some b') m True 250 = Inr (base, bitmap))
       \<and> (\<exists>b' m. xgl_wire_encode_ack_range_ext_value (Some b) n largest delay (Some ranges) (length ranges) = Inr (b', m)
             \<and> xgl_wire_decode_ack_range_ext_value (Some b') m True 61 = Inr (largest, delay, ranges))"
  using assms
    fragment_codec.enc_total [where v = "(mid, foff, mlen)"] session_codec.enc_total [where v = "(epoch, inc)"]
    security_codec.enc_total [where v = "(key, nonce, tag_len)"]
    route_codec.enc_total [where v = "(prev, next, repoch, metric)"]
    sack_codec.enc_total [where v = "(base, bitmap)"]
    ack_range_codec.enc_total [where v = "(largest, delay, ranges)"]
  by simp

theorem wire_ext_values_roundtrip_witness:
  "\<exists>b' m. xgl_wire_encode_sack_ext_value (Some (replicate 255 0)) 255 9 (Some [5, 1]) (length [5, 1 :: u8]) = Inr (b', m)
      \<and> xgl_wire_decode_sack_ext_value (Some b') m True 250 = Inr (9, [5, 1])"
proof -
  have "255 \<le> length (replicate 255 (0 :: u8))" "(1 :: u8) \<noteq> 0" "length [5, 1 :: u8] \<le> 250"
    "length ([] :: xgl_wire_ack_range list) \<le> 61" by simp_all
  then show ?thesis
    by (rule wire_ext_values_roundtrip [OF order_refl _ _ _ _, THEN conjunct2, THEN conjunct2, THEN conjunct2,
          THEN conjunct2, THEN conjunct1])
qed

text \<open>
  a type-length-value record written by \<^verbatim>\<open>xgl_wire_encode_ext\<close> is what the cursor reads back: a cursor
  over the bytes written finds exactly that type and value, and then the end.
\<close>

theorem wire_ext_record_roundtrip:
  assumes "t \<noteq> 0" "length v \<le> 255" "2 + length v \<le> n" "n \<le> length b"
  shows "\<exists>b' m c c'. xgl_wire_encode_ext (Some b) n t (Some v) (length v) = Inr (b', m)
           \<and> xgl_wire_ext_cursor_init (Some b') m = Inr c
           \<and> xgl_wire_ext_cursor_next c =
               Inr (\<lparr> ext_type = t, ext_len = length v, ext_value = v, ext_valid = True \<rparr>, c')
           \<and> xgl_wire_ext_cursor_next c' = Inl XGL_ERR_NOT_FOUND"
proof -
  have "xgl_wire_encode_ext (Some b) n t (Some v) (length v) =
        Inr (tlv_image t v @ drop (2 + length v) b, 2 + length v)"
    using assms by (simp add: xgl_wire_encode_ext_image)
  then show ?thesis
    using assms xgl_wire_ext_cursor_next_image [of t v 0 "[]" "2 + length v" "drop (2 + length v) b"]
    by (simp add: xgl_wire_ext_cursor_init_def xgl_wire_ext_cursor_next_def)
qed

theorem wire_ext_record_roundtrip_witness:
  "\<exists>b' m c c'. xgl_wire_encode_ext (Some (replicate 8 0)) 8 5 (Some [1, 2, 3]) (length [1, 2, 3 :: u8]) = Inr (b', m)
           \<and> xgl_wire_ext_cursor_init (Some b') m = Inr c
           \<and> xgl_wire_ext_cursor_next c =
               Inr (\<lparr> ext_type = 5, ext_len = length [1, 2, 3 :: u8], ext_value = [1, 2, 3], ext_valid = True \<rparr>, c')
           \<and> xgl_wire_ext_cursor_next c' = Inl XGL_ERR_NOT_FOUND"
  by (rule wire_ext_record_roundtrip) simp_all

text \<open>
  with a provider whose \<open>verify\<close> accepts what its \<open>sign\<close> produced, a frame signed by the sender is
  accepted by the receiver, also after a router rewrote the time-to-live and the header checksum.
\<close>

theorem auth_trailer_survives_forwarding:
  assumes "provider_agrees p" "n \<le> length b" "wire_auth_aad_has_frame_header b aad"
    and "xgl_wire_append_auth_trailer (Some b) n aad pl key (Some p) = Inr (b', len)"
  shows "xgl_wire_verify_auth_trailer (Some (b'[6 := ttl, 22 := c0, 23 := c1])) len aad pl key (Some p) = (XGL_OK, True)"
proof -
  from assms(4) have fits: "aad + pl + ap_tag_len p \<le> n" and b': "\<exists>tag. b' = mem_write b (aad + pl) tag \<and> length tag = ap_tag_len p"
    by (auto elim!: append_auth_trailerE)
  then have "aad \<le> length b'" "wire_auth_aad_has_frame_header b' aad"
    using assms(2,3)
    by (auto simp: wire_auth_aad_has_frame_header_def nth_mem_write_before)
  then show ?thesis
    using verify_appended_trailer [OF assms(1) assms(4) assms(2)]
    by (simp add: verify_auth_trailer_mutable wire_auth_header_mutable)
qed

text \<open>A provider for the witnesses: the tag is the checksum of the data, and is checked by recomputing it.\<close>

definition demo_provider :: xgl_auth_provider where
  "demo_provider =
     \<lparr> ap_sign = Some (\<lambda>key aad payload room. Inr (le16 (foldl crc16_byte 0xFFFF (le32 key @ aad @ payload)))),
       ap_verify = Some (\<lambda>key aad payload tag.
         (XGL_OK, tag = le16 (foldl crc16_byte 0xFFFF (le32 key @ aad @ payload)))),
       ap_tag_len = 2 \<rparr>"

lemma demo_provider_agrees: "provider_agrees demo_provider"
  by (simp add: provider_agrees_def demo_provider_def)

theorem auth_trailer_survives_forwarding_witness:
  "\<exists>b' len. xgl_wire_append_auth_trailer (Some (wire_header_image sample_header @ [1, 2, 3] @ replicate 4 0)) 31 24 3 7
               (Some demo_provider) = Inr (b', len)
     \<and> xgl_wire_verify_auth_trailer (Some (b'[6 := 3, 22 := 1, 23 := 2])) len 24 3 7 (Some demo_provider) = (XGL_OK, True)"
proof -
  let ?b = "wire_header_image sample_header @ [1, 2, 3] @ replicate 4 0"
  have hd: "wire_auth_aad_has_frame_header ?b 24"
    using wire_header_image_magic [of sample_header] by (simp add: wire_auth_aad_has_frame_header_def)
  obtain b' len where "xgl_wire_append_auth_trailer (Some ?b) 31 24 3 7 (Some demo_provider) = Inr (b', len)"
    using hd by (simp add: xgl_wire_append_auth_trailer_def demo_provider_def wire_auth_canonical_aad_def)
  with auth_trailer_survives_forwarding [OF demo_provider_agrees _ hd this] show ?thesis by auto
qed

end
