(* ===== verification/Xgl_Frame.thy ===== *)
theory Xgl_Frame
  imports Xgl_Wire
begin

text \<open>
  Frames: header, extensions, payload, optional authentication tag, CRC16. Models
  \<^verbatim>\<open>include/xgl/internal/xgl_frame.h\<close>, \<^verbatim>\<open>src/wire/xgl_frame.c\<close>, \<^verbatim>\<open>src/wire/xgl_frame_auth.c\<close> and
  \<^verbatim>\<open>src/wire/xgl_frame_zerocopy.c\<close>, and gives the byte image that each serializer produces.
\<close>

section \<open>Constants and data\<close>

abbreviation (input) "XGL_CRC16_SIZE \<equiv> (2 :: nat)"
abbreviation (input) "XGL_FRAME_HEADER_SIZE \<equiv> (24 :: nat)"
abbreviation (input) "XGL_DATA_TYPE_EXT_SIZE \<equiv> (3 :: nat)"
abbreviation (input) "XGL_SECURITY_EXT_VALUE_SIZE \<equiv> (13 :: nat)"
abbreviation (input) "XGL_SECURITY_EXT_SIZE \<equiv> (15 :: nat)"
abbreviation (input) "XGL_FRAME_DEFAULT_TTL \<equiv> (8 :: u8)"
abbreviation (input) "XGL_RELIABILITY_CLASS_MASK \<equiv> 0xC0"
abbreviation (input) "XGL_RELIABILITY_NONE \<equiv> (0x00 :: u8)"
abbreviation (input) "XGL_RELIABILITY_ACK_ELICITING \<equiv> (0x40 :: u8)"
abbreviation (input) "XGL_RELIABILITY_ACK_ONLY \<equiv> (0x80 :: u8)"
abbreviation (input) "XGL_TRAFFIC_FRAGMENTED_MASK \<equiv> 0x20"
abbreviation (input) "XGL_TRAFFIC_PRIORITY_MASK \<equiv> 0x07"

record xgl_frame =
  fr_header :: xgl_wire_header
  fr_extensions :: "bytes option"
  fr_extensions_len :: nat
  fr_payload :: "bytes option"
  fr_payload_len :: nat
  fr_crc16 :: u16

record xgl_frame_params =
  fp_source_id :: u16
  fp_target_id :: u16
  fp_data_type :: u8
  fp_packet_type :: u8
  fp_flags :: u8
  fp_traffic_class :: u8
  fp_connection_id :: u32
  fp_packet_number :: u32
  fp_session_epoch :: u32
  fp_extensions :: "bytes option"
  fp_extensions_len :: nat
  fp_payload :: "bytes option"
  fp_payload_len :: nat
  fp_reliable :: bool
  fp_reliability_class :: u8
  fp_fragment :: bool
  fp_priority :: u8
  fp_session_id :: u16
  fp_ttl :: u8

section \<open>Sizes\<close>

definition xgl_frame_calculate_size :: "nat \<Rightarrow> nat" where
  "xgl_frame_calculate_size payload_len = XGL_FRAME_HEADER_SIZE + payload_len + XGL_CRC16_SIZE"

definition xgl_frame_auth_overhead :: "nat \<Rightarrow> nat" where
  "xgl_frame_auth_overhead auth_tag_len =
     (if auth_tag_len > 0 then XGL_SECURITY_EXT_SIZE + auth_tag_len else 0)"

definition xgl_frame_serialized_size :: "nat \<Rightarrow> nat \<Rightarrow> nat \<Rightarrow> nat" where
  "xgl_frame_serialized_size payload_len extensions_len auth_tag_len =
     XGL_WIRE_BASE_HEADER_SIZE + extensions_len + xgl_frame_auth_overhead auth_tag_len
       + payload_len + XGL_CRC16_SIZE"

text \<open>\<open>None\<close> for a result of \<^verbatim>\<open>false\<close>.\<close>

definition xgl_frame_payload_budget :: "nat \<Rightarrow> nat \<Rightarrow> nat \<Rightarrow> nat option" where
  "xgl_frame_payload_budget max_frame_size extensions_len auth_tag_len =
     (let overhead = XGL_WIRE_BASE_HEADER_SIZE + extensions_len
                     + xgl_frame_auth_overhead auth_tag_len + XGL_CRC16_SIZE
      in if max_frame_size < overhead then None else Some (max_frame_size - overhead))"

section \<open>Traffic-class bits\<close>

definition xgl_frame_set_reliability :: "u8 \<Rightarrow> bool \<Rightarrow> u8" where
  "xgl_frame_set_reliability traffic_class reliable =
     (let reliable_bits = if reliable then XGL_RELIABILITY_ACK_ELICITING else XGL_RELIABILITY_NONE
      in ucast ((ucast traffic_class AND NOT (XGL_RELIABILITY_CLASS_MASK :: u32)) OR ucast reliable_bits))"

definition xgl_frame_set_reliability_class :: "u8 \<Rightarrow> u8 \<Rightarrow> u8" where
  "xgl_frame_set_reliability_class traffic_class reliability_class =
     ucast ((ucast traffic_class AND NOT (XGL_RELIABILITY_CLASS_MASK :: u32))
            OR (ucast reliability_class AND XGL_RELIABILITY_CLASS_MASK))"

definition xgl_frame_set_fragmented :: "u8 \<Rightarrow> bool \<Rightarrow> u8" where
  "xgl_frame_set_fragmented traffic_class fragment =
     (if fragment then ucast (ucast traffic_class OR (XGL_TRAFFIC_FRAGMENTED_MASK :: u32))
      else ucast (ucast traffic_class AND NOT (XGL_TRAFFIC_FRAGMENTED_MASK :: u32)))"

definition xgl_frame_set_priority :: "u8 \<Rightarrow> u8 \<Rightarrow> u8" where
  "xgl_frame_set_priority traffic_class priority =
     ucast ((ucast traffic_class AND NOT (XGL_TRAFFIC_PRIORITY_MASK :: u32))
            OR (ucast priority AND XGL_TRAFFIC_PRIORITY_MASK))"

definition xgl_frame_get_reliability :: "u8 \<Rightarrow> u8" where
  "xgl_frame_get_reliability traffic_class =
     ucast (drop_bit 6 (ucast traffic_class AND (XGL_RELIABILITY_CLASS_MASK :: u32)))"

definition xgl_frame_get_priority :: "u8 \<Rightarrow> u8" where
  "xgl_frame_get_priority traffic_class = traffic_class AND XGL_TRAFFIC_PRIORITY_MASK"

section \<open>Building\<close>

definition frame_traffic_class_bits :: "xgl_frame_params \<Rightarrow> u8" where
  "frame_traffic_class_bits params =
     (let bits = (if fp_reliability_class params \<noteq> XGL_RELIABILITY_NONE
                  then xgl_frame_set_reliability_class 0 (fp_reliability_class params)
                  else xgl_frame_set_reliability 0 (fp_reliable params));
          bits = xgl_frame_set_fragmented bits (fp_fragment params)
      in xgl_frame_set_priority bits (fp_priority params))"

definition xgl_frame_build :: "xgl_frame_params option \<Rightarrow> xgl_error + xgl_frame" where
  "xgl_frame_build params_ptr =
     (case params_ptr of
        None \<Rightarrow> Inl XGL_ERR_NULL_POINTER
      | Some params \<Rightarrow>
          if fp_payload_len params > 65535 then Inl XGL_ERR_BUFFER_TOO_SMALL
          else
            let traffic_class_bits = frame_traffic_class_bits params;
                flags = fp_flags params;
                reliable = traffic_class_bits AND XGL_RELIABILITY_CLASS_MASK;
                flags = (if reliable = XGL_RELIABILITY_ACK_ELICITING
                         then flags OR XGL_WIRE_FLAG_ACK_ELICITING else flags);
                flags = (if traffic_class_bits AND XGL_TRAFFIC_FRAGMENTED_MASK \<noteq> 0
                         then flags OR (XGL_WIRE_FLAG_FRAGMENTED OR XGL_WIRE_FLAG_HAS_EXTENSIONS)
                         else flags);
                flags = (if fp_extensions params \<noteq> None \<and> fp_extensions_len params > 0
                         then flags OR XGL_WIRE_FLAG_HAS_EXTENSIONS else flags);
                packet_type = fp_packet_type params;
                packet_type = (if packet_type = XGL_PACKET_TYPE_INVALID then XGL_PACKET_TYPE_DATA
                               else packet_type);
                packet_type = (if reliable = XGL_RELIABILITY_ACK_ONLY then XGL_PACKET_TYPE_ACK
                               else packet_type);
                flags = (if packet_type = XGL_PACKET_TYPE_CONTROL
                         then flags OR XGL_WIRE_FLAG_CONTROL else flags)
            in Inr \<lparr> fr_header =
                       \<lparr> wh_version = XGL_WIRE_VERSION,
                         wh_header_len = 24,
                         wh_packet_type = packet_type,
                         wh_flags = flags,
                         wh_ttl = fp_ttl params,
                         wh_traffic_class = (if fp_traffic_class params \<noteq> 0 then fp_traffic_class params
                                             else traffic_class_bits),
                         wh_source_id = fp_source_id params,
                         wh_target_id = fp_target_id params,
                         wh_connection_id = (if fp_connection_id params \<noteq> 0 then fp_connection_id params
                                             else ucast (fp_session_id params)),
                         wh_packet_number = fp_packet_number params,
                         wh_payload_len = word_of_nat (fp_payload_len params),
                         wh_header_crc16 = 0 \<rparr>,
                     fr_extensions = fp_extensions params,
                     fr_extensions_len = fp_extensions_len params,
                     fr_payload = fp_payload params,
                     fr_payload_len = fp_payload_len params,
                     fr_crc16 = 0 \<rparr>)"

section \<open>Serialization\<close>

text \<open>\<^verbatim>\<open>if (p != NULL && n > 0) memcpy(&b[off], p, n)\<close>.\<close>

definition copy_part :: "bytes \<Rightarrow> nat \<Rightarrow> bytes option \<Rightarrow> nat \<Rightarrow> bytes" where
  "copy_part b off p n = (if p \<noteq> None \<and> n > 0 then mem_write b off (take n (the p)) else b)"

definition frame_wire_header :: "xgl_frame \<Rightarrow> nat \<Rightarrow> u8 \<Rightarrow> xgl_wire_header" where
  "frame_wire_header frame produced_header_len flags =
     (fr_header frame) \<lparr> wh_version := XGL_WIRE_VERSION,
       wh_header_len := word_of_nat produced_header_len,
       wh_flags := flags,
       wh_payload_len := word_of_nat (fr_payload_len frame),
       wh_header_crc16 := 0 \<rparr>"

definition encode_frame_wire_header ::
  "bytes \<Rightarrow> nat \<Rightarrow> xgl_frame \<Rightarrow> nat \<Rightarrow> u8 \<Rightarrow> xgl_error + bytes \<times> nat" where
  "encode_frame_wire_header buffer buffer_size frame extension_len extra_flags =
     (if extension_len > 255 - XGL_WIRE_BASE_HEADER_SIZE then Inl XGL_ERR_BUFFER_TOO_SMALL
      else
        let produced_header_len = XGL_WIRE_BASE_HEADER_SIZE + extension_len;
            flags = wh_flags (fr_header frame) OR extra_flags;
            flags = (if extension_len > 0 then flags OR XGL_WIRE_FLAG_HAS_EXTENSIONS else flags)
        in case xgl_wire_encode_header (Some buffer) buffer_size
                  (Some (frame_wire_header frame produced_header_len flags)) of
             Inl err \<Rightarrow> Inl err
           | Inr b \<Rightarrow> Inr (b, produced_header_len))"

definition xgl_frame_serialize :: "bytes option \<Rightarrow> nat \<Rightarrow> xgl_frame option \<Rightarrow> xgl_error + bytes \<times> nat" where
  "xgl_frame_serialize buffer buffer_size frame_ptr =
     (case (buffer, frame_ptr) of
        (Some b, Some frame) \<Rightarrow>
          if fr_extensions_len frame > 255 - XGL_WIRE_BASE_HEADER_SIZE then Inl XGL_ERR_BUFFER_TOO_SMALL
          else
            let required_size = XGL_FRAME_HEADER_SIZE + fr_extensions_len frame
                                + fr_payload_len frame + XGL_CRC16_SIZE
            in if buffer_size < required_size then Inl XGL_ERR_BUFFER_TOO_SMALL
               else
                 (case encode_frame_wire_header b buffer_size frame (fr_extensions_len frame) 0 of
                    Inl err \<Rightarrow> Inl err
                  | Inr (b, header_len) \<Rightarrow>
                      let offset = header_len;
                          b = copy_part b XGL_WIRE_BASE_HEADER_SIZE (fr_extensions frame) (fr_extensions_len frame);
                          b = copy_part b offset (fr_payload frame) (fr_payload_len frame);
                          offset = (if fr_payload frame \<noteq> None \<and> fr_payload_len frame > 0
                                    then offset + fr_payload_len frame else offset);
                          crc16 = xgl_crc16_modbus (Some b) offset;
                          b = put_u16_le b offset crc16
                      in Inr (b, offset + XGL_CRC16_SIZE))
      | _ \<Rightarrow> Inl XGL_ERR_NULL_POINTER)"

definition encode_authenticated_header ::
  "bytes \<Rightarrow> nat \<Rightarrow> xgl_frame \<Rightarrow> u32 \<Rightarrow> u8 \<Rightarrow> xgl_error + bytes \<times> nat" where
  "encode_authenticated_header b buffer_size frame key_id tag_len =
     (let base_ext_len = fr_extensions_len frame
      in if base_ext_len > 255 - XGL_WIRE_BASE_HEADER_SIZE then Inl XGL_ERR_BUFFER_TOO_SMALL
         else if buffer_size < XGL_WIRE_BASE_HEADER_SIZE + base_ext_len + XGL_WIRE_EXT_HEADER_SIZE + 13
         then Inl XGL_ERR_BUFFER_TOO_SMALL
         else
           let b = copy_part b XGL_WIRE_BASE_HEADER_SIZE (fr_extensions frame) base_ext_len
           in case xgl_wire_encode_security_ext_value (Some (replicate 13 0)) 13 key_id
                     (ucast (wh_packet_number (fr_header frame))) tag_len of
                Inl err \<Rightarrow> Inl err
              | Inr (security_value, security_value_len) \<Rightarrow>
                  (case xgl_wire_encode_ext (Some (drop (XGL_WIRE_BASE_HEADER_SIZE + base_ext_len) b))
                          (buffer_size - XGL_WIRE_BASE_HEADER_SIZE - base_ext_len)
                          XGL_WIRE_EXT_SECURITY (Some security_value) security_value_len of
                     Inl err \<Rightarrow> Inl err
                   | Inr (b', security_ext_len) \<Rightarrow>
                       let b = take (XGL_WIRE_BASE_HEADER_SIZE + base_ext_len) b @ b';
                           produced_header_len = XGL_WIRE_BASE_HEADER_SIZE + base_ext_len + security_ext_len
                       in if produced_header_len > 255 then Inl XGL_ERR_BUFFER_TOO_SMALL
                          else
                            (case xgl_wire_encode_header (Some b) buffer_size
                                    (Some (frame_wire_header frame produced_header_len
                                       (wh_flags (fr_header frame) OR XGL_WIRE_FLAG_HAS_EXTENSIONS
                                        OR XGL_WIRE_FLAG_AUTHENTICATED))) of
                               Inl err \<Rightarrow> Inl err
                             | Inr b \<Rightarrow> Inr (b, produced_header_len))))"

definition xgl_frame_serialize_authenticated ::
  "bytes option \<Rightarrow> nat \<Rightarrow> xgl_frame option \<Rightarrow> u32 \<Rightarrow> xgl_auth_provider option \<Rightarrow> xgl_error + bytes \<times> nat" where
  "xgl_frame_serialize_authenticated buffer buffer_size frame_ptr key_id provider =
     (case (buffer, frame_ptr, provider, Option.bind provider ap_sign) of
        (Some b, Some frame, Some p, Some _) \<Rightarrow>
          if fr_payload_len frame > 65535 then Inl XGL_ERR_BUFFER_TOO_SMALL
          else if ap_tag_len p = 0 \<or> ap_tag_len p > XGL_AUTH_TAG_MAX_LEN then Inl XGL_ERR_INVALID_PARAM
          else
            (case encode_authenticated_header b buffer_size frame key_id (word_of_nat (ap_tag_len p)) of
               Inl err \<Rightarrow> Inl err
             | Inr (b, header_len) \<Rightarrow>
                 if buffer_size < header_len + fr_payload_len frame + ap_tag_len p + XGL_CRC16_SIZE
                 then Inl XGL_ERR_BUFFER_TOO_SMALL
                 else
                   let b = copy_part b header_len (fr_payload frame) (fr_payload_len frame)
                   in case xgl_wire_append_auth_trailer (Some b) (buffer_size - XGL_CRC16_SIZE) header_len
                             (fr_payload_len frame) key_id (Some p) of
                        Inl err \<Rightarrow> Inl err
                      | Inr (b, frame_len_without_crc) \<Rightarrow>
                          if frame_len_without_crc \<noteq> header_len + fr_payload_len frame + ap_tag_len p
                             \<or> frame_len_without_crc + XGL_CRC16_SIZE > buffer_size
                          then Inl XGL_ERR_BUFFER_TOO_SMALL
                          else
                            let crc16 = xgl_crc16_modbus (Some b) frame_len_without_crc
                            in Inr (put_u16_le b frame_len_without_crc crc16,
                                    frame_len_without_crc + XGL_CRC16_SIZE))
      | _ \<Rightarrow> Inl XGL_ERR_NULL_POINTER)"

definition xgl_frame_build_zerocopy ::
  "bytes option \<Rightarrow> nat \<Rightarrow> nat \<Rightarrow> nat \<Rightarrow> u16 \<Rightarrow> u16 \<Rightarrow> u8 \<Rightarrow> u32 \<Rightarrow> bool \<Rightarrow> u8 \<Rightarrow> xgl_error + bytes \<times> nat" where
  "xgl_frame_build_zerocopy buffer buffer_size data_offset data_len source_id target_id data_type
       packet_number reliable priority =
     (case buffer of
        None \<Rightarrow> Inl XGL_ERR_NULL_POINTER
      | Some b \<Rightarrow>
          if data_len > 65535 then Inl XGL_ERR_BUFFER_TOO_SMALL
          else
            let app_type_ext_len = (if data_type \<noteq> 0 then XGL_DATA_TYPE_EXT_SIZE else 0);
                header_len = XGL_WIRE_BASE_HEADER_SIZE + app_type_ext_len
            in if header_len > 255 \<or> data_offset \<noteq> header_len then Inl XGL_ERR_INVALID_PARAM
               else
                 let required_size = data_offset + data_len + XGL_CRC16_SIZE
                 in if buffer_size < required_size then Inl XGL_ERR_BUFFER_TOO_SMALL
                    else
                      let flags = (if reliable then XGL_WIRE_FLAG_ACK_ELICITING else 0);
                          ext =
                            (if app_type_ext_len > 0
                             then (case xgl_wire_encode_ext (Some (drop XGL_WIRE_BASE_HEADER_SIZE b))
                                          (buffer_size - XGL_WIRE_BASE_HEADER_SIZE)
                                          XGL_WIRE_EXT_DATA_TYPE (Some [data_type]) 1 of
                                     Inl err \<Rightarrow> Inl err
                                   | Inr (b', app_ext_written) \<Rightarrow>
                                       if app_ext_written \<noteq> app_type_ext_len
                                       then Inl XGL_ERR_INVALID_FRAME
                                       else Inr (take XGL_WIRE_BASE_HEADER_SIZE b @ b',
                                                 flags OR XGL_WIRE_FLAG_HAS_EXTENSIONS))
                             else Inr (b, flags))
                      in case ext of
                           Inl err \<Rightarrow> Inl err
                         | Inr (b, flags) \<Rightarrow>
                             (case xgl_wire_encode_header (Some b) XGL_WIRE_BASE_HEADER_SIZE
                                (Some \<lparr> wh_version = XGL_WIRE_VERSION,
                                        wh_header_len = word_of_nat header_len,
                                        wh_packet_type = XGL_PACKET_TYPE_DATA,
                                        wh_flags = flags,
                                        wh_ttl = XGL_FRAME_DEFAULT_TTL,
                                        wh_traffic_class =
                                          (if reliable then XGL_RELIABILITY_ACK_ELICITING else 0)
                                          OR (priority AND XGL_TRAFFIC_PRIORITY_MASK),
                                        wh_source_id = source_id,
                                        wh_target_id = target_id,
                                        wh_connection_id = 0,
                                        wh_packet_number = packet_number,
                                        wh_payload_len = word_of_nat data_len,
                                        wh_header_crc16 = 0 \<rparr>) of
                                Inl err \<Rightarrow> Inl err
                              | Inr b \<Rightarrow>
                                  let crc_offset = data_offset + data_len;
                                      crc16 = xgl_crc16_modbus (Some b) crc_offset
                                  in Inr (put_u16_le b crc_offset crc16, required_size)))"

section \<open>Frame images\<close>

text \<open>A sequence of bytes followed by its CRC16, and the frame made of a header, extensions and body.\<close>

definition sealed :: "bytes \<Rightarrow> bytes" where
  "sealed body = body @ le16 (xgl_crc16_modbus (Some body) (length body))"

definition frame_image :: "xgl_wire_header \<Rightarrow> bytes \<Rightarrow> bytes \<Rightarrow> bytes" where
  "frame_image h ext body = sealed (wire_header_image h @ ext @ body)"

lemma length_sealed [simp]: "length (sealed body) = length body + 2"
  by (simp add: sealed_def)

lemma length_frame_image [simp]: "length (frame_image h ext body) = 26 + length ext + length body"
  by (simp add: frame_image_def)

lemma crc16_prefix: "n = length body \<Longrightarrow> xgl_crc16_modbus (Some (body @ r)) n = xgl_crc16_modbus (Some body) n"
  by (simp add: xgl_crc16_modbus_def xgl_crc16_modbus_update_def)

lemma seal_in_place:
  assumes "n = length body" "2 \<le> length r"
  shows "put_u16_le (body @ r) n (xgl_crc16_modbus (Some (body @ r)) n) = sealed body @ drop 2 r"
  using assms by (simp add: crc16_prefix put_u16_le_drop sealed_def)

text \<open>The parts of a frame: what its pointers and lengths designate.\<close>

definition part_of :: "bytes option \<Rightarrow> nat \<Rightarrow> bytes" where
  "part_of p n = (case p of None \<Rightarrow> [] | Some b \<Rightarrow> take n b)"

definition part_ok :: "bytes option \<Rightarrow> nat \<Rightarrow> bool" where
  "part_ok p n \<longleftrightarrow> (case p of None \<Rightarrow> n = 0 | Some b \<Rightarrow> n \<le> length b)"

abbreviation frame_ext :: "xgl_frame \<Rightarrow> bytes" where
  "frame_ext f \<equiv> part_of (fr_extensions f) (fr_extensions_len f)"

abbreviation frame_payload :: "xgl_frame \<Rightarrow> bytes" where
  "frame_payload f \<equiv> part_of (fr_payload f) (fr_payload_len f)"

definition frame_wf :: "xgl_frame \<Rightarrow> bool" where
  "frame_wf f \<longleftrightarrow> part_ok (fr_extensions f) (fr_extensions_len f)
     \<and> part_ok (fr_payload f) (fr_payload_len f) \<and> fr_payload_len f \<le> 65535"

lemma length_part_of [simp]: "part_ok p n \<Longrightarrow> length (part_of p n) = n"
  by (auto simp: part_ok_def part_of_def split: option.splits)

lemma copy_part_append:
  assumes "part_ok p n" "length pre = off" "n \<le> length z"
  shows "copy_part (pre @ z) off p n = pre @ part_of p n @ drop n z"
  using assms by (auto simp: copy_part_def part_ok_def part_of_def mem_write_def split: option.splits)

definition serialized_header :: "xgl_frame \<Rightarrow> xgl_wire_header" where
  "serialized_header f = frame_wire_header f (24 + fr_extensions_len f)
     (if fr_extensions_len f > 0 then wh_flags (fr_header f) OR XGL_WIRE_FLAG_HAS_EXTENSIONS
      else wh_flags (fr_header f))"

lemma serialized_header_valid:
  "fr_extensions_len f \<le> 231 \<Longrightarrow>
   wire_header_fields_valid (serialized_header f) \<longleftrightarrow>
     wire_packet_type_valid (wh_packet_type (fr_header f))
     \<and> wh_source_id (fr_header f) \<noteq> 0 \<and> wh_target_id (fr_header f) \<noteq> 0"
  using unat_word_of_nat_byte [of "24 + fr_extensions_len f"]
  by (auto simp: wire_header_fields_valid_def serialized_header_def frame_wire_header_def)

lemma xgl_frame_serialize_image:
  assumes wf: "frame_wf f" and ext: "fr_extensions_len f \<le> 231"
    and valid: "wire_header_fields_valid (serialized_header f)"
    and tot: "tot = 26 + fr_extensions_len f + fr_payload_len f"
    and room: "tot \<le> n" "n \<le> length b"
  shows "xgl_frame_serialize (Some b) n (Some f) =
         Inr (frame_image (serialized_header f) (frame_ext f) (frame_payload f) @ drop tot b, tot)"
proof -
  let ?h = "serialized_header f" and ?e = "fr_extensions_len f" and ?p = "fr_payload_len f"
  have oks: "part_ok (fr_extensions f) ?e" "part_ok (fr_payload f) ?p"
    using wf by (simp_all add: frame_wf_def)
  have enc: "encode_frame_wire_header b n f ?e 0 = Inr (wire_header_image ?h @ drop 24 b, 24 + ?e)"
    using ext valid tot room
    by (simp add: encode_frame_wire_header_def xgl_wire_encode_header_def Let_def
        serialized_header_def wire_header_store_image)
  have e: "copy_part (wire_header_image ?h @ drop 24 b) 24 (fr_extensions f) ?e =
           wire_header_image ?h @ frame_ext f @ drop (24 + ?e) b"
    using copy_part_append [OF oks(1), of "wire_header_image ?h" 24 "drop 24 b"] tot room
    by (simp add: add.commute)
  have p: "copy_part (wire_header_image ?h @ frame_ext f @ drop (24 + ?e) b) (24 + ?e) (fr_payload f) ?p =
           (wire_header_image ?h @ frame_ext f @ frame_payload f) @ drop (24 + ?e + ?p) b"
    using copy_part_append [OF oks(2), of "wire_header_image ?h @ frame_ext f" "24 + ?e" "drop (24 + ?e) b"] tot room oks
    by (simp add: add.commute)
  have off: "(if fr_payload f \<noteq> None \<and> ?p > 0 then 24 + ?e + ?p else 24 + ?e) = 24 + ?e + ?p"
    using oks by (auto simp: part_ok_def)
  have "put_u16_le ((wire_header_image ?h @ frame_ext f @ frame_payload f) @ drop (24 + ?e + ?p) b) (24 + ?e + ?p)
          (xgl_crc16_modbus (Some ((wire_header_image ?h @ frame_ext f @ frame_payload f) @ drop (24 + ?e + ?p) b)) (24 + ?e + ?p)) =
        frame_image ?h (frame_ext f) (frame_payload f) @ drop tot b"
    using tot room oks by (subst seal_in_place) (simp_all add: frame_image_def ac_simps)
  then show ?thesis
    using tot room ext
    by (simp add: xgl_frame_serialize_def enc Let_def e p off del: append_assoc not_None_eq)
qed

text \<open>The authenticated frame: a SECURITY extension behind the others, and the tag behind the payload.\<close>

definition authenticated_header :: "xgl_frame \<Rightarrow> xgl_wire_header" where
  "authenticated_header f = frame_wire_header f (39 + fr_extensions_len f)
     (wh_flags (fr_header f) OR XGL_WIRE_FLAG_HAS_EXTENSIONS OR XGL_WIRE_FLAG_AUTHENTICATED)"

definition authenticated_ext :: "xgl_frame \<Rightarrow> u32 \<Rightarrow> u8 \<Rightarrow> bytes" where
  "authenticated_ext f key tag_len = frame_ext f @ tlv_image XGL_WIRE_EXT_SECURITY
     (security_image (key, ucast (wh_packet_number (fr_header f)), tag_len))"

lemma length_authenticated_ext [simp]:
  "frame_wf f \<Longrightarrow> length (authenticated_ext f key t) = 15 + fr_extensions_len f"
  by (simp add: authenticated_ext_def frame_wf_def security_image_def)

lemma authenticated_header_valid:
  "fr_extensions_len f \<le> 216 \<Longrightarrow>
   wire_header_fields_valid (authenticated_header f) \<longleftrightarrow>
     wire_packet_type_valid (wh_packet_type (fr_header f))
     \<and> wh_source_id (fr_header f) \<noteq> 0 \<and> wh_target_id (fr_header f) \<noteq> 0"
  using unat_word_of_nat_byte [of "39 + fr_extensions_len f"]
  by (auto simp: wire_header_fields_valid_def authenticated_header_def frame_wire_header_def)

lemma encode_authenticated_header_image:
  assumes wf: "frame_wf f" and e: "fr_extensions_len f \<le> 216" and t: "t \<noteq> 0"
    and valid: "wire_header_fields_valid (authenticated_header f)"
    and hl: "hl = 39 + fr_extensions_len f" and room: "hl \<le> n" "n \<le> length b"
  shows "encode_authenticated_header b n f key t =
         Inr (wire_header_image (authenticated_header f) @ authenticated_ext f key t @ drop hl b, hl)"
proof -
  let ?e = "fr_extensions_len f"
  let ?v = "security_image (key, ucast (wh_packet_number (fr_header f)), t)"
  have ok: "part_ok (fr_extensions f) ?e" using wf by (simp add: frame_wf_def)
  have len: "length ?v = 13" by (simp add: security_image_def)
  have copy: "copy_part b 24 (fr_extensions f) ?e = (take 24 b @ frame_ext f) @ drop (24 + ?e) b"
    using copy_part_append [OF ok, of "take 24 b" 24 "drop 24 b"] hl room by (simp add: add.commute)
  have sec: "xgl_wire_encode_security_ext_value (Some (replicate 13 0)) 13 key
      (ucast (wh_packet_number (fr_header f))) t = Inr (?v, 13)"
    using security_codec.enc_image [of "(key, ucast (wh_packet_number (fr_header f)), t)" 13 "replicate 13 0"] t
    by (simp add: len)
  have ext: "xgl_wire_encode_ext (Some (drop (24 + ?e) b)) (n - 24 - ?e) XGL_WIRE_EXT_SECURITY (Some ?v) 13 =
      Inr (tlv_image XGL_WIRE_EXT_SECURITY ?v @ drop hl b, 15)"
  proof (subst xgl_wire_encode_ext_image)
    show "2 + length ?v \<le> n - 24 - ?e" "n - 24 - ?e \<le> length (drop (24 + ?e) b)"
      using hl room by (simp_all add: len)
    have "drop (2 + length ?v) (drop (24 + ?e) b) = drop hl b" by (simp add: len hl)
    then show "Inr (tlv_image XGL_WIRE_EXT_SECURITY ?v @ drop (2 + length ?v) (drop (24 + ?e) b), 2 + length ?v) =
      Inr (tlv_image XGL_WIRE_EXT_SECURITY ?v @ drop hl b, 15)" by (simp add: len)
  qed (simp_all add: len)
  have enc: "xgl_wire_encode_header (Some ((take 24 b @ frame_ext f) @ tlv_image XGL_WIRE_EXT_SECURITY ?v @ drop hl b)) n
        (Some (authenticated_header f)) =
      Inr (wire_header_image (authenticated_header f) @ authenticated_ext f key t @ drop hl b)"
    using hl room valid
    by (simp add: xgl_wire_encode_header_def wire_header_store_image authenticated_ext_def)
  have cut: "take (24 + ?e) ((take 24 b @ frame_ext f) @ z) = take 24 b @ frame_ext f"
    "drop (24 + ?e) ((take 24 b @ frame_ext f) @ z) = z" for z
    using hl room ok by simp_all
  have hdr: "frame_wire_header f (24 + ?e + 15) (wh_flags (fr_header f) OR XGL_WIRE_FLAG_HAS_EXTENSIONS OR
      XGL_WIRE_FLAG_AUTHENTICATED) = authenticated_header f"
    by (simp add: authenticated_header_def add.commute)
  show ?thesis
    unfolding encode_authenticated_header_def Let_def copy sec
    using e hl room enc
    by (simp only: cut ext sum.case prod.case hdr if_False not_less) simp
qed

lemma xgl_frame_serialize_authenticated_image:
  assumes wf: "frame_wf f" and e: "fr_extensions_len f \<le> 216"
    and valid: "wire_header_fields_valid (authenticated_header f)"
    and p: "ap_sign p = Some sign" "0 < ap_tag_len p" "ap_tag_len p \<le> 32"
    and hl: "hl = 39 + fr_extensions_len f"
    and tot: "tot = hl + fr_payload_len f + ap_tag_len p + 2" and room: "tot \<le> n" "n \<le> length b"
    and hdr: "hdr = wire_header_image (authenticated_header f) @ authenticated_ext f key (word_of_nat (ap_tag_len p))"
    and sign: "sign key (hdr[6 := 0, 22 := 0, 23 := 0]) (frame_payload f) (n - 2 - (hl + fr_payload_len f)) = Inr tag"
    and tag: "length tag = ap_tag_len p"
  shows "xgl_frame_serialize_authenticated (Some b) n (Some f) key (Some p) =
         Inr (sealed (hdr @ frame_payload f @ tag) @ drop tot b, tot)"
proof -
  let ?p = "fr_payload_len f"
  have ok: "part_ok (fr_payload f) ?p" "?p \<le> 65535" using wf by (simp_all add: frame_wf_def)
  have t: "(word_of_nat (ap_tag_len p) :: u8) \<noteq> 0"
  proof
    assume "(word_of_nat (ap_tag_len p) :: u8) = 0"
    then have "unat (word_of_nat (ap_tag_len p) :: u8) = 0" by simp
    then show False using p by simp
  qed
  have len: "length hdr = hl" using wf hl by (simp add: hdr)
  have magic: "wire_auth_aad_has_frame_header (hdr @ z) hl" for z
    using wire_header_image_magic [of "authenticated_header f"] hl
    by (simp add: hdr wire_auth_aad_has_frame_header_def)
  have enc: "encode_authenticated_header b n f key (word_of_nat (ap_tag_len p)) = Inr (hdr @ drop hl b, hl)"
    using encode_authenticated_header_image [OF wf e t valid hl] room tot by (simp add: hdr)
  have copy: "copy_part (hdr @ drop hl b) hl (fr_payload f) ?p = hdr @ frame_payload f @ drop (hl + ?p) b"
    using copy_part_append [OF ok(1) len] tot room by (simp add: add.commute)
  have canon: "wire_auth_canonical_aad (hdr @ z) hl 255 = Inr (hdr[6 := 0, 22 := 0, 23 := 0])" for z
    using hl e magic by (simp add: wire_auth_canonical_aad_def len)
  have app: "xgl_wire_append_auth_trailer (Some (hdr @ frame_payload f @ drop (hl + ?p) b)) (n - 2) hl ?p key (Some p) =
      Inr ((hdr @ frame_payload f @ tag) @ drop (hl + ?p + ap_tag_len p) b, hl + ?p + ap_tag_len p)"
    using p tot room tag ok sign
    by (simp add: xgl_wire_append_auth_trailer_def canon mem_read_def mem_write_def len Let_def add.commute add.left_commute) arith
  have "put_u16_le ((hdr @ frame_payload f @ tag) @ drop (hl + ?p + ap_tag_len p) b) (hl + ?p + ap_tag_len p)
      (xgl_crc16_modbus (Some ((hdr @ frame_payload f @ tag) @ drop (hl + ?p + ap_tag_len p) b)) (hl + ?p + ap_tag_len p)) =
      sealed (hdr @ frame_payload f @ tag) @ drop tot b"
    using tot room ok by (subst seal_in_place) (simp_all add: len tag add.commute)
  then show ?thesis
    using p tot room ok
    by (simp add: xgl_frame_serialize_authenticated_def enc copy app Let_def del: append_assoc)
qed

definition zerocopy_ext :: "u8 \<Rightarrow> bytes" where
  "zerocopy_ext data_type = (if data_type \<noteq> 0 then tlv_image XGL_WIRE_EXT_DATA_TYPE [data_type] else [])"

definition zerocopy_header :: "nat \<Rightarrow> u16 \<Rightarrow> u16 \<Rightarrow> u8 \<Rightarrow> u32 \<Rightarrow> bool \<Rightarrow> u8 \<Rightarrow> xgl_wire_header" where
  "zerocopy_header len src dst data_type pn reliable priority =
     \<lparr> wh_version = 2, wh_header_len = (if data_type \<noteq> 0 then 27 else 24), wh_packet_type = 1,
       wh_flags = (if data_type \<noteq> 0 then (if reliable then 1 else 0) OR 2 else if reliable then 1 else 0),
       wh_ttl = 8,
       wh_traffic_class = (if reliable then 0x40 else 0) OR (priority AND 7),
       wh_source_id = src, wh_target_id = dst, wh_connection_id = 0, wh_packet_number = pn,
       wh_payload_len = word_of_nat len, wh_header_crc16 = 0 \<rparr>"

lemma zerocopy_ext_0 [simp]: "zerocopy_ext 0 = []"
  by (simp add: zerocopy_ext_def)

lemma length_zerocopy_ext: "length (zerocopy_ext t) = (if t \<noteq> 0 then 3 else 0)"
  by (simp add: zerocopy_ext_def)

lemma zerocopy_header_valid:
  "wire_header_fields_valid (zerocopy_header len src dst t pn r p) \<longleftrightarrow> src \<noteq> 0 \<and> dst \<noteq> 0"
  by (simp add: wire_header_fields_valid_def zerocopy_header_def wire_packet_type_valid_def)

lemma xgl_frame_build_zerocopy_image:
  assumes "src \<noteq> 0" "dst \<noteq> 0" "len \<le> 65535" and off: "off = 24 + length (zerocopy_ext t)"
    and room: "off + len + 2 \<le> n" "n \<le> length b"
  shows "xgl_frame_build_zerocopy (Some b) n off len src dst t pn r p =
         Inr (frame_image (zerocopy_header len src dst t pn r p) (zerocopy_ext t) (mem_read b off len)
                @ drop (off + len + 2) b, off + len + 2)"
proof -
  let ?h = "zerocopy_header len src dst t pn r p" and ?z = "zerocopy_ext t"
  let ?B = "take 24 b @ ?z @ drop off b"
  let ?flags = "if t \<noteq> 0 then (if r then 1 else 0) OR 2 else if r then 1 else (0 :: u8)"
  have ext: "(if (if t \<noteq> 0 then 3 else 0 :: nat) > 0
     then (case xgl_wire_encode_ext (Some (drop 24 b)) (n - 24) 8 (Some [t]) 1 of
             Inl err \<Rightarrow> Inl err
           | Inr (b', w) \<Rightarrow> if w \<noteq> (if t \<noteq> 0 then 3 else 0) then Inl XGL_ERR_INVALID_FRAME
                            else Inr (take 24 b @ b', (if r then 1 else 0) OR 2))
     else Inr (b, if r then 1 else 0)) = Inr (?B, ?flags)"
  proof (cases "t = 0")
    case False
    then have "xgl_wire_encode_ext (Some (drop 24 b)) (n - 24) 8 (Some [t]) 1 =
        Inr (tlv_image 8 [t] @ drop 27 b, 3)"
      using off room by (subst xgl_wire_encode_ext_image) (simp_all add: length_zerocopy_ext)
    with False off show ?thesis by (simp add: zerocopy_ext_def)
  qed (simp add: zerocopy_ext_def off)
  have enc: "xgl_wire_encode_header (Some ?B) 24 (Some ?h) = Inr (wire_header_image ?h @ ?z @ drop off b)"
    using assms by (simp add: xgl_wire_encode_header_def zerocopy_header_valid wire_header_store_image)
  have body: "wire_header_image ?h @ ?z @ drop off b = (wire_header_image ?h @ ?z @ mem_read b off len) @ drop (off + len) b"
    by (simp add: mem_read_def drop_drop [symmetric] add.commute del: drop_drop)
  have seal: "put_u16_le (wire_header_image ?h @ ?z @ drop off b) (off + len)
      (xgl_crc16_modbus (Some (wire_header_image ?h @ ?z @ drop off b)) (off + len)) =
      frame_image ?h ?z (mem_read b off len) @ drop (off + len + 2) b"
    unfolding body using off room by (subst seal_in_place) (simp_all add: frame_image_def mem_read_def add.commute)
  have hdr: "\<lparr> wh_version = 2, wh_header_len = word_of_nat (24 + (if t \<noteq> 0 then 3 else 0)), wh_packet_type = 1,
      wh_flags = ?flags, wh_ttl = 8, wh_traffic_class = (if r then 0x40 else 0) OR (p AND 7),
      wh_source_id = src, wh_target_id = dst, wh_connection_id = 0, wh_packet_number = pn,
      wh_payload_len = word_of_nat len, wh_header_crc16 = 0 \<rparr> = ?h"
    by (simp add: zerocopy_header_def)
  have guards: "\<not> len > 65535" "\<not> (24 + (if t \<noteq> 0 then 3 else 0 :: nat) > 255 \<or> off \<noteq> 24 + (if t \<noteq> 0 then 3 else 0))"
    "\<not> n < off + len + 2"
    using assms by (auto simp: length_zerocopy_ext)
  show ?thesis
    unfolding xgl_frame_build_zerocopy_def Let_def
    by (simp only: option.case guards if_False ext sum.case prod.case hdr enc seal)
qed

lemma traffic_class_bits_eq:
  "xgl_frame_set_priority (xgl_frame_set_fragmented (xgl_frame_set_reliability 0 r) False) p =
   (if r then 0x40 else 0) OR (p AND 7)"
proof -
  have "(ucast (x OR y :: u32) :: u8) = ucast x OR ucast y" for x y
    by (rule bit_word_eqI) (auto simp: bit_simps)
  moreover have "(ucast (ucast p AND (mask 3) :: u32) :: u8) = p AND mask 3"
    by (rule bit_word_eqI) (auto simp: bit_simps)
  then have "(ucast (ucast p AND 7 :: u32) :: u8) = p AND 7"
    by (simp add: mask_eq_exp_minus_1)
  ultimately show ?thesis
    by (cases r) (simp_all add: xgl_frame_set_priority_def xgl_frame_set_fragmented_def xgl_frame_set_reliability_def)
qed


text \<open>The parameters that describe the frame \<^verbatim>\<open>xgl_frame_build_zerocopy\<close> makes.\<close>

definition zerocopy_params :: "bytes \<Rightarrow> u16 \<Rightarrow> u16 \<Rightarrow> u8 \<Rightarrow> u32 \<Rightarrow> bool \<Rightarrow> u8 \<Rightarrow> xgl_frame_params" where
  "zerocopy_params payload src dst data_type pn reliable priority =
     \<lparr> fp_source_id = src, fp_target_id = dst, fp_data_type = data_type, fp_packet_type = XGL_PACKET_TYPE_DATA,
       fp_flags = 0, fp_traffic_class = 0, fp_connection_id = 0, fp_packet_number = pn, fp_session_epoch = 0,
       fp_extensions = Some (zerocopy_ext data_type), fp_extensions_len = length (zerocopy_ext data_type),
       fp_payload = Some payload, fp_payload_len = length payload, fp_reliable = reliable,
       fp_reliability_class = XGL_RELIABILITY_NONE, fp_fragment = False, fp_priority = priority,
       fp_session_id = 0, fp_ttl = XGL_FRAME_DEFAULT_TTL \<rparr>"

lemma traffic_class_reliability:
  "((if r then 0x40 else 0) OR (p AND 7) :: u8) AND 0xC0 = (if r then 0x40 else 0)"
  "((if r then 0x40 else 0) OR (p AND 7) :: u8) AND 0x20 = 0"
  by (simp_all add: bit.conj_disj_distrib2 and.assoc)

lemma zerocopy_params_build:
  assumes "length payload \<le> 65535"
  shows "\<exists>f. xgl_frame_build (Some (zerocopy_params payload src dst t pn r p)) = Inr f
           \<and> frame_wf f \<and> fr_extensions_len f = length (zerocopy_ext t) \<and> fr_payload_len f = length payload
           \<and> frame_ext f = zerocopy_ext t \<and> frame_payload f = payload
           \<and> serialized_header f = zerocopy_header (length payload) src dst t pn r p"
proof -
  have "frame_traffic_class_bits (zerocopy_params payload src dst t pn r p) = (if r then 0x40 else 0) OR (p AND 7)"
    by (simp add: frame_traffic_class_bits_def zerocopy_params_def traffic_class_bits_eq Let_def)
  then show ?thesis
    using assms
    by (cases "t = 0"; cases r)
      (simp_all add: xgl_frame_build_def zerocopy_params_def Let_def traffic_class_reliability [of True, simplified]
        traffic_class_reliability [of False, simplified]
        frame_wf_def part_ok_def part_of_def serialized_header_def frame_wire_header_def zerocopy_header_def
        length_zerocopy_ext)
qed

section \<open>Properties\<close>

text \<open>
  the zero-copy builder is equivalent to the ordinary path. For every payload already placed in
  the buffer behind the header space, it succeeds and emits, byte for byte, the frame that
  building from parameters and serializing into any other large enough buffer emits.
\<close>

theorem zerocopy_equals_serialize:
  assumes "src \<noteq> 0" "dst \<noteq> 0" "length payload \<le> 65535" "off = 24 + (if t \<noteq> 0 then 3 else 0)"
    and "mem_read b off (length payload) = payload"
    and "off + length payload + 2 \<le> n" "n \<le> length b"
    and "off + length payload + 2 \<le> m" "m \<le> length c"
  shows "\<exists>f b' c' k. xgl_frame_build (Some (zerocopy_params payload src dst t pn r p)) = Inr f
           \<and> xgl_frame_serialize (Some c) m (Some f) = Inr (c', k)
           \<and> xgl_frame_build_zerocopy (Some b) n off (length payload) src dst t pn r p = Inr (b', k)
           \<and> take k b' = take k c'"
proof -
  obtain f where f: "xgl_frame_build (Some (zerocopy_params payload src dst t pn r p)) = Inr f"
    "frame_wf f" "fr_extensions_len f = length (zerocopy_ext t)" "fr_payload_len f = length payload"
    "frame_ext f = zerocopy_ext t" "frame_payload f = payload"
    "serialized_header f = zerocopy_header (length payload) src dst t pn r p"
    using zerocopy_params_build [OF assms(3)] by blast
  let ?F = "frame_image (zerocopy_header (length payload) src dst t pn r p) (zerocopy_ext t) payload"
  have off: "off = 24 + length (zerocopy_ext t)" using assms by (simp add: length_zerocopy_ext)
  have z: "xgl_frame_build_zerocopy (Some b) n off (length payload) src dst t pn r p =
        Inr (?F @ drop (off + length payload + 2) b, off + length payload + 2)"
    using xgl_frame_build_zerocopy_image [OF assms(1,2,3) off assms(6,7)] assms(5) by simp
  have s: "xgl_frame_serialize (Some c) m (Some f) =
        Inr (?F @ drop (off + length payload + 2) c, off + length payload + 2)"
    using xgl_frame_serialize_image [of f "off + length payload + 2" m c] f off assms
    by (simp add: zerocopy_header_valid length_zerocopy_ext)
  show ?thesis using f(1) z s off by simp
qed

theorem zerocopy_equals_serialize_witness:
  "\<exists>f b' c' k. xgl_frame_build (Some (zerocopy_params [1, 2, 3] 5 6 9 77 True 4)) = Inr f
           \<and> xgl_frame_serialize (Some (replicate 64 0)) 64 (Some f) = Inr (c', k)
           \<and> xgl_frame_build_zerocopy (Some (replicate 27 0 @ [1, 2, 3] @ replicate 2 0)) 32 27
               (length [1, 2, 3 :: u8]) 5 6 9 77 True 4 = Inr (b', k)
           \<and> take k b' = take k c'"
  by (rule zerocopy_equals_serialize) (simp_all add: mem_read_def)

text \<open>
  The payload budget is exact: a payload fits in a frame of at most \<open>m\<close> bytes, with the given
  extensions and tag, if and only if a budget exists and the payload is within it.
\<close>

lemma payload_budget_exact:
  "xgl_frame_serialized_size len ext tag \<le> m \<longleftrightarrow>
     (\<exists>budget. xgl_frame_payload_budget m ext tag = Some budget \<and> len \<le> budget)"
  by (auto simp: xgl_frame_serialized_size_def xgl_frame_payload_budget_def Let_def)

text \<open>
  The size formula is what the authenticated serializer produces. For a well-formed frame whose
  extensions leave room for the SECURITY extension, and a provider that returns tags of its
  declared length, serialization into a large enough buffer succeeds, the number of bytes is
  \<^verbatim>\<open>xgl_frame_serialized_size\<close>, and the receiver's check of the trailer accepts the result.
\<close>

theorem authenticated_frame_verifies:
  assumes wf: "frame_wf f" and e: "fr_extensions_len f \<le> 216"
    and hdr: "wire_packet_type_valid (wh_packet_type (fr_header f))"
      "wh_source_id (fr_header f) \<noteq> 0" "wh_target_id (fr_header f) \<noteq> 0"
    and p: "provider_agrees p" "0 < ap_tag_len p" "ap_tag_len p \<le> 32"
    and signs: "provider_signs p"
    and sz: "sz = xgl_frame_serialized_size (fr_payload_len f) (fr_extensions_len f) (ap_tag_len p)"
      "sz \<le> n" "n \<le> length b"
  shows "\<exists>b'. xgl_frame_serialize_authenticated (Some b) n (Some f) key (Some p) = Inr (b', sz)
          \<and> xgl_wire_verify_auth_trailer (Some b') (sz - 2) (39 + fr_extensions_len f) (fr_payload_len f)
               key (Some p) = (XGL_OK, True)"
proof -
  let ?hl = "39 + fr_extensions_len f" and ?pl = "fr_payload_len f"
  obtain sign verify where sv: "ap_sign p = Some sign" "ap_verify p = Some verify"
    "\<And>k aad pl room tag. sign k aad pl room = Inr tag \<Longrightarrow> verify k aad pl tag = (XGL_OK, True)"
    using p(1) by (rule provider_agreesE) blast
  have sz': "sz = ?hl + ?pl + ap_tag_len p + 2"
    using sz(1) p(2) by (simp add: xgl_frame_serialized_size_def xgl_frame_auth_overhead_def)
  define hd where "hd = wire_header_image (authenticated_header f) @ authenticated_ext f key (word_of_nat (ap_tag_len p))"
  have len: "length hd = ?hl" using wf by (simp add: hd_def)
  have pl: "length (frame_payload f) = ?pl" using wf by (simp add: frame_wf_def)
  have "ap_tag_len p \<le> n - 2 - (?hl + ?pl)" using sz sz' by simp
  then obtain tag where tag: "sign key (hd[6 := 0, 22 := 0, 23 := 0]) (frame_payload f) (n - 2 - (?hl + ?pl)) = Inr tag"
    "length tag = ap_tag_len p"
    using signs sv(1) by (simp only: provider_signs_def option.case) blast
  have ser: "xgl_frame_serialize_authenticated (Some b) n (Some f) key (Some p) =
      Inr (sealed (hd @ frame_payload f @ tag) @ drop sz b, sz)"
    using xgl_frame_serialize_authenticated_image [OF wf e _ sv(1) p(2,3) refl sz' sz(2,3) hd_def tag] hdr e
    by (simp add: authenticated_header_valid)
  have canon: "wire_auth_canonical_aad (hd @ z) ?hl 255 = Inr (hd[6 := 0, 22 := 0, 23 := 0])" for z
    using wire_header_image_magic [of "authenticated_header f"] len e
    by (simp add: wire_auth_canonical_aad_def wire_auth_aad_has_frame_header_def hd_def)
  have "xgl_wire_verify_auth_trailer (Some (sealed (hd @ frame_payload f @ tag) @ drop sz b)) (sz - 2) ?hl ?pl key (Some p) = (XGL_OK, True)"
    using p(2,3) sz' sv(2) sv(3) [OF tag(1)]
    by (simp add: xgl_wire_verify_auth_trailer_def sealed_def canon mem_read_def len pl tag(2))
  with ser show ?thesis by blast
qed

definition sample_frame :: xgl_frame where
  "sample_frame = \<lparr> fr_header = sample_header, fr_extensions = Some [8, 1, 3], fr_extensions_len = 3,
     fr_payload = Some [1, 2, 3, 4], fr_payload_len = 4, fr_crc16 = 0 \<rparr>"

lemma demo_provider_signs: "provider_signs demo_provider"
  by (simp add: provider_signs_def demo_provider_def)

theorem authenticated_frame_verifies_witness:
  "\<exists>b'. xgl_frame_serialize_authenticated (Some (replicate 64 0)) 64 (Some sample_frame) 7 (Some demo_provider) = Inr (b', 50)
          \<and> xgl_wire_verify_auth_trailer (Some b') (50 - 2) (39 + fr_extensions_len sample_frame)
               (fr_payload_len sample_frame) 7 (Some demo_provider) = (XGL_OK, True)"
  by (rule authenticated_frame_verifies)
    (simp_all add: demo_provider_agrees demo_provider_signs, simp_all add: sample_frame_def sample_header_def
      frame_wf_def part_ok_def wire_packet_type_valid_def demo_provider_def xgl_frame_serialized_size_def
      xgl_frame_auth_overhead_def)

end
