(* ===== verification/Xgl_Parser.thy ===== *)
theory Xgl_Parser
  imports Xgl_Frame "HOL-Library.Sublist"
begin

text \<open>
  The receive parser, \<^verbatim>\<open>src/wire/xgl_parser.c\<close> and \<^verbatim>\<open>src/wire/xgl_parser_extensions.c\<close>: a state
  machine fed one byte at a time that collects a frame in a cache. \<open>frame_valid\<close> says which byte
  strings are frames; the theorems show that the parser completes on exactly those (what it
  completes on is a valid frame, and every valid frame that fits is completed), that its
  indices never leave the cache, and that what the serializers emit is valid.
\<close>

section \<open>The code\<close>

datatype xgl_parse_state = XGL_PARSE_MAGIC | XGL_PARSE_HEADER | XGL_PARSE_PAYLOAD | XGL_PARSE_CRC

datatype xgl_parse_result =
    XGL_PARSE_RESULT_INCOMPLETE
  | XGL_PARSE_RESULT_COMPLETE
  | XGL_PARSE_RESULT_ERROR

record xgl_parser =
  ps_state :: xgl_parse_state
  ps_cache :: bytes
  ps_cache_size :: nat
  ps_cache_len :: nat
  ps_index :: nat
  ps_timestamp :: u32
  ps_expected_header_len :: nat
  ps_expected_payload_len :: u16
  ps_expected_auth_tag_len :: u8

definition xgl_parser_init :: "bytes option \<Rightarrow> nat \<Rightarrow> xgl_error + xgl_parser" where
  "xgl_parser_init cache_buffer cache_size =
     (case cache_buffer of
        None \<Rightarrow> Inl XGL_ERR_NULL_POINTER
      | Some cache \<Rightarrow>
          if cache_size < XGL_FRAME_HEADER_SIZE + XGL_CRC16_SIZE then Inl XGL_ERR_BUFFER_TOO_SMALL
          else Inr \<lparr> ps_state = XGL_PARSE_MAGIC, ps_cache = cache, ps_cache_size = cache_size,
                     ps_cache_len = 0, ps_index = 0, ps_timestamp = 0, ps_expected_header_len = 0,
                     ps_expected_payload_len = 0, ps_expected_auth_tag_len = 0 \<rparr>)"

definition xgl_parser_reset :: "xgl_parser \<Rightarrow> xgl_parser" where
  "xgl_parser_reset parser =
     parser \<lparr> ps_state := XGL_PARSE_MAGIC, ps_cache_len := 0, ps_index := 0, ps_timestamp := 0,
              ps_expected_header_len := 0, ps_expected_payload_len := 0, ps_expected_auth_tag_len := 0 \<rparr>"

text \<open>
  The body of the loop in \<^verbatim>\<open>xgl_parser_validate_header_extensions\<close>; its local is the tag length
  seen so far, and the early return is the rejection.
\<close>

definition parser_ext_body :: "xgl_wire_ext \<Rightarrow> u8 \<Rightarrow> unit + u8" where
  "parser_ext_body ext tag =
     (if ext_type ext = XGL_WIRE_EXT_SECURITY
      then (case xgl_wire_decode_security_ext_value (Some (ext_value ext)) (ext_len ext) of
              Inl _ \<Rightarrow> Inl ()
            | Inr (key_id, nonce_id, tag_len) \<Rightarrow> if tag_len = 0 then Inl () else Inr tag_len)
      else Inr tag)"

definition xgl_parser_validate_header_extensions :: "xgl_parser \<Rightarrow> xgl_parse_result \<times> xgl_parser" where
  "xgl_parser_validate_header_extensions parser =
     (let parser = parser \<lparr> ps_expected_auth_tag_len := 0 \<rparr>;
          ext_len = ps_expected_header_len parser - XGL_WIRE_BASE_HEADER_SIZE
      in if ext_len = 0 then (XGL_PARSE_RESULT_INCOMPLETE, parser)
         else
           case xgl_wire_decode_header (Some (ps_cache parser)) XGL_WIRE_BASE_HEADER_SIZE of
             Inl _ \<Rightarrow> (XGL_PARSE_RESULT_ERROR, xgl_parser_reset parser)
           | Inr header \<Rightarrow>
               (case xgl_wire_ext_cursor_init (Some (drop XGL_WIRE_BASE_HEADER_SIZE (ps_cache parser))) ext_len of
                  Inl _ \<Rightarrow> (XGL_PARSE_RESULT_ERROR, xgl_parser_reset parser)
                | Inr cursor \<Rightarrow>
                    (case ext_while parser_ext_body cursor 0 of
                       Inl _ \<Rightarrow> (XGL_PARSE_RESULT_ERROR, xgl_parser_reset parser)
                     | Inr (err, tag_len) \<Rightarrow>
                         let parser = parser \<lparr> ps_expected_auth_tag_len := tag_len \<rparr>
                         in if err \<noteq> XGL_ERR_NOT_FOUND
                            then (XGL_PARSE_RESULT_ERROR, xgl_parser_reset parser)
                            else if wh_flags header AND XGL_WIRE_FLAG_AUTHENTICATED \<noteq> 0
                                    \<and> ps_expected_auth_tag_len parser = 0
                            then (XGL_PARSE_RESULT_ERROR, xgl_parser_reset parser)
                            else (XGL_PARSE_RESULT_INCOMPLETE, parser))))"

text \<open>\<^verbatim>\<open>parser->cache[parser->cache_len++] = byte\<close>.\<close>

definition parser_store :: "xgl_parser \<Rightarrow> u8 \<Rightarrow> xgl_parser" where
  "parser_store parser byte =
     parser \<lparr> ps_cache := (ps_cache parser)[ps_cache_len parser := byte],
              ps_cache_len := ps_cache_len parser + 1 \<rparr>"

definition parser_feed_header :: "xgl_parser \<Rightarrow> u8 \<Rightarrow> xgl_parse_result \<times> xgl_parser" where
  "parser_feed_header parser byte =
     (let parser = parser_store parser byte
      in if ps_cache_len parser = 2 \<and> ps_cache parser ! 1 \<noteq> XGL_WIRE_MAGIC_1
         then (XGL_PARSE_RESULT_INCOMPLETE,
               if byte = XGL_WIRE_MAGIC_0
               then parser \<lparr> ps_cache := (ps_cache parser)[0 := byte], ps_cache_len := 1,
                             ps_state := XGL_PARSE_HEADER \<rparr>
               else xgl_parser_reset parser)
         else if ps_cache_len parser \<ge> XGL_WIRE_BASE_HEADER_SIZE
         then
           (case xgl_wire_decode_header (Some (ps_cache parser)) XGL_WIRE_BASE_HEADER_SIZE of
              Inl _ \<Rightarrow> (XGL_PARSE_RESULT_ERROR, xgl_parser_reset parser)
            | Inr header \<Rightarrow>
                let parser = parser \<lparr> ps_expected_header_len := unat (wh_header_len header),
                                      ps_expected_payload_len := wh_payload_len header \<rparr>
                in if ps_cache_len parser < ps_expected_header_len parser
                   then (XGL_PARSE_RESULT_INCOMPLETE, parser)
                   else
                     (case xgl_parser_validate_header_extensions parser of
                        (ext_result, parser) \<Rightarrow>
                          if ext_result = XGL_PARSE_RESULT_ERROR then (ext_result, parser)
                          else
                            let total_frame_size = ps_expected_header_len parser
                                  + unat (ps_expected_payload_len parser)
                                  + unat (ps_expected_auth_tag_len parser) + XGL_CRC16_SIZE
                            in if total_frame_size > ps_cache_size parser
                               then (XGL_PARSE_RESULT_ERROR, xgl_parser_reset parser)
                               else (XGL_PARSE_RESULT_INCOMPLETE,
                                     parser \<lparr> ps_state :=
                                       (if ps_expected_payload_len parser > 0
                                           \<or> ps_expected_auth_tag_len parser > 0
                                        then XGL_PARSE_PAYLOAD else XGL_PARSE_CRC) \<rparr>)))
         else (XGL_PARSE_RESULT_INCOMPLETE, parser))"

definition parser_feed_crc :: "xgl_parser \<Rightarrow> u8 \<Rightarrow> xgl_parse_result \<times> xgl_parser" where
  "parser_feed_crc parser byte =
     (let parser = parser_store parser byte;
          parser = parser \<lparr> ps_index := ps_index parser + 1 \<rparr>
      in if ps_index parser \<ge> XGL_CRC16_SIZE
         then
           let crc_offset = ps_cache_len parser - XGL_CRC16_SIZE;
               calculated_crc = xgl_crc16_modbus (Some (ps_cache parser)) crc_offset;
               received_crc = get_u16_le (ps_cache parser) crc_offset
           in if calculated_crc \<noteq> received_crc
              then (XGL_PARSE_RESULT_ERROR, xgl_parser_reset parser)
              else (XGL_PARSE_RESULT_COMPLETE, parser)
         else (XGL_PARSE_RESULT_INCOMPLETE, parser))"

definition xgl_parser_feed_byte :: "xgl_parser \<Rightarrow> u8 \<Rightarrow> u32 \<Rightarrow> xgl_parse_result \<times> xgl_parser" where
  "xgl_parser_feed_byte parser byte current_time_ms =
     (if ps_cache_len parser \<ge> ps_cache_size parser
      then (XGL_PARSE_RESULT_ERROR, xgl_parser_reset parser)
      else
        case ps_state parser of
          XGL_PARSE_MAGIC \<Rightarrow>
            (XGL_PARSE_RESULT_INCOMPLETE,
             if byte = XGL_WIRE_MAGIC_0
             then parser \<lparr> ps_cache := (ps_cache parser)[0 := byte], ps_cache_len := 1, ps_index := 0,
                           ps_timestamp := current_time_ms, ps_state := XGL_PARSE_HEADER \<rparr>
             else parser)
        | XGL_PARSE_HEADER \<Rightarrow> parser_feed_header parser byte
        | XGL_PARSE_PAYLOAD \<Rightarrow>
            (let parser = parser_store parser byte;
                 body_received = ps_cache_len parser - ps_expected_header_len parser;
                 expected_body_len = unat (ps_expected_payload_len parser)
                                     + unat (ps_expected_auth_tag_len parser)
             in (XGL_PARSE_RESULT_INCOMPLETE,
                 if body_received \<ge> expected_body_len
                 then parser \<lparr> ps_state := XGL_PARSE_CRC, ps_index := 0 \<rparr> else parser))
        | XGL_PARSE_CRC \<Rightarrow> parser_feed_crc parser byte)"

definition xgl_parser_check_timeout :: "xgl_parser \<Rightarrow> u32 \<Rightarrow> u32 \<Rightarrow> bool" where
  "xgl_parser_check_timeout parser current_time_ms timeout_ms \<longleftrightarrow>
     (if ps_state parser = XGL_PARSE_MAGIC then False
      else current_time_ms - ps_timestamp parser \<ge> timeout_ms)"

definition xgl_parser_get_frame :: "xgl_parser \<Rightarrow> xgl_error + bytes \<times> nat" where
  "xgl_parser_get_frame parser =
     (if ps_state parser \<noteq> XGL_PARSE_CRC \<or> ps_cache_len parser = 0 then Inl XGL_ERR_INVALID_FRAME
      else Inr (ps_cache parser, ps_cache_len parser))"

section \<open>Valid frames\<close>

text \<open>
  The tag length that the extensions of a complete header announce, \<open>None\<close> when the extension area is
  malformed or an authenticated header has no SECURITY extension.
\<close>

definition header_tag :: "bytes \<Rightarrow> xgl_wire_header \<Rightarrow> u8 option" where
  "header_tag b h =
     (let ext_len = unat (wh_header_len h) - 24
      in if ext_len = 0 then Some 0
         else case ext_while parser_ext_body \<lparr> cur_buffer = drop 24 b, cur_len = ext_len, cur_offset = 0 \<rparr> 0 of
                Inl _ \<Rightarrow> None
              | Inr (err, tag) \<Rightarrow>
                  if err \<noteq> XGL_ERR_NOT_FOUND then None
                  else if wh_flags h AND XGL_WIRE_FLAG_AUTHENTICATED \<noteq> 0 \<and> tag = 0 then None
                  else Some tag)"

text \<open>Length of the frame that a header and its tag length announce.\<close>

definition announced_len :: "xgl_wire_header \<Rightarrow> u8 \<Rightarrow> nat" where
  "announced_len h tag = unat (wh_header_len h) + unat (wh_payload_len h) + unat tag + 2"

definition frame_valid :: "bytes \<Rightarrow> bool" where
  "frame_valid fr \<longleftrightarrow>
     24 \<le> length fr \<and>
     (case xgl_wire_decode_header (Some fr) 24 of
        Inl _ \<Rightarrow> False
      | Inr h \<Rightarrow>
          unat (wh_header_len h) \<le> length fr \<and>
          (case header_tag fr h of
             None \<Rightarrow> False
           | Some tag \<Rightarrow>
               length fr = announced_len h tag
               \<and> xgl_crc16_modbus (Some fr) (length fr - 2) = get_u16_le fr (length fr - 2)))"

lemma frame_validE:
  assumes "frame_valid fr"
  obtains h tag where "xgl_wire_decode_header (Some fr) 24 = Inr h" "header_tag fr h = Some tag"
    "length fr = announced_len h tag"
    "xgl_crc16_modbus (Some fr) (length fr - 2) = get_u16_le fr (length fr - 2)"
  using assms by (auto simp: frame_valid_def split: sum.splits option.splits)

section \<open>Prefixes decide\<close>

lemma get_u16_le_take: "off + 2 \<le> n \<Longrightarrow> get_u16_le (take n b) off = get_u16_le b off"
  by (simp add: get_u16_le_def)

lemma get_u32_le_take: "off + 4 \<le> n \<Longrightarrow> get_u32_le (take n b) off = get_u32_le b off"
  by (simp add: get_u32_le_def)

lemma xgl_wire_decode_header_take:
  "24 \<le> n \<Longrightarrow> xgl_wire_decode_header (Some (take n b)) 24 = xgl_wire_decode_header (Some b) 24"
  by (simp add: xgl_wire_decode_header_def wire_header_crc16_def wire_header_load_def
      get_u16_le_take get_u32_le_take min_def)

lemma xgl_wire_decode_header_cong:
  "take 24 b = take 24 b' \<Longrightarrow> xgl_wire_decode_header (Some b) 24 = xgl_wire_decode_header (Some b') 24"
  by (metis order_refl xgl_wire_decode_header_take)

lemma xgl_wire_ext_cursor_next_take:
  assumes "n \<le> length b"
  shows "xgl_wire_ext_cursor_next \<lparr> cur_buffer = take n b, cur_len = n, cur_offset = k \<rparr> =
         (case xgl_wire_ext_cursor_next \<lparr> cur_buffer = b, cur_len = n, cur_offset = k \<rparr> of
            Inl e \<Rightarrow> Inl e | Inr (e, c) \<Rightarrow> Inr (e, c \<lparr> cur_buffer := take n b \<rparr>))"
  using assms
  by (auto simp: xgl_wire_ext_cursor_next_def Let_def mem_read_def drop_take min_def)

lemma ext_while_take:
  assumes "n \<le> length b"
  shows "ext_while body \<lparr> cur_buffer = take n b, cur_len = n, cur_offset = k \<rparr> s =
         ext_while body \<lparr> cur_buffer = b, cur_len = n, cur_offset = k \<rparr> s"
proof (induction "n - k" arbitrary: k s rule: less_induct)
  case less
  show ?case
  proof (cases "xgl_wire_ext_cursor_next \<lparr> cur_buffer = b, cur_len = n, cur_offset = k \<rparr>")
    case (Inl e)
    then show ?thesis
      by (subst (1 2) ext_while.simps) (simp add: xgl_wire_ext_cursor_next_take [OF assms])
  next
    case (Inr ec)
    obtain e c where ec: "ec = (e, c)" by (cases ec)
    obtain k' where c: "c = \<lparr> cur_buffer = b, cur_len = n, cur_offset = k' \<rparr>" "n - k' < n - k"
      using Inr ec by (auto simp: xgl_wire_ext_cursor_next_def Let_def split: if_splits)
    show ?thesis
      by (subst (1 2) ext_while.simps)
        (simp add: xgl_wire_ext_cursor_next_take [OF assms] Inr ec c less [OF c(2)] split: sum.splits)
  qed
qed

lemma header_tag_cong:
  assumes "take n b = take n b'" "n \<le> length b" "n \<le> length b'" "n = unat (wh_header_len h)"
  shows "header_tag b h = header_tag b' h"
proof (cases "n \<le> 24")
  case False
  have "ext_while parser_ext_body \<lparr> cur_buffer = drop 24 c, cur_len = n - 24, cur_offset = 0 \<rparr> 0 =
        ext_while parser_ext_body \<lparr> cur_buffer = drop 24 (take n c), cur_len = n - 24, cur_offset = 0 \<rparr> 0"
    if "n \<le> length c" for c
    using ext_while_take [of "n - 24" "drop 24 c" parser_ext_body 0 0] that by (simp add: drop_take)
  from this [of b] this [of b'] show ?thesis
    using assms by (simp add: header_tag_def)
qed (use assms in \<open>simp add: header_tag_def\<close>)

lemma xgl_parser_validate_eq:
  assumes "xgl_wire_decode_header (Some (ps_cache p)) 24 = Inr h"
    and "ps_expected_header_len p = unat (wh_header_len h)"
  shows "xgl_parser_validate_header_extensions p =
         (case header_tag (ps_cache p) h of
            None \<Rightarrow> (XGL_PARSE_RESULT_ERROR, xgl_parser_reset p)
          | Some tag \<Rightarrow> (XGL_PARSE_RESULT_INCOMPLETE, p \<lparr> ps_expected_auth_tag_len := tag \<rparr>))"
  using assms
  by (auto simp: xgl_parser_validate_header_extensions_def header_tag_def Let_def
      xgl_wire_ext_cursor_init_def xgl_parser_reset_def split: sum.splits)

section \<open>What the parser has seen\<close>

text \<open>
  \<open>parser_tracks p w\<close>: the parser has collected exactly the bytes \<open>w\<close>, its state is the one these
  bytes determine, and a frame they may begin fits in the cache.
\<close>

definition header_done :: "xgl_parser \<Rightarrow> bytes \<Rightarrow> bool" where
  "header_done p w \<longleftrightarrow>
     (\<exists>h. xgl_wire_decode_header (Some w) 24 = Inr h
        \<and> ps_expected_header_len p = unat (wh_header_len h)
        \<and> ps_expected_payload_len p = wh_payload_len h
        \<and> unat (wh_header_len h) \<le> length w
        \<and> header_tag w h = Some (ps_expected_auth_tag_len p)
        \<and> announced_len h (ps_expected_auth_tag_len p) \<le> ps_cache_size p)"

definition parser_body_end :: "xgl_parser \<Rightarrow> nat" where
  "parser_body_end p = ps_expected_header_len p + unat (ps_expected_payload_len p) + unat (ps_expected_auth_tag_len p)"

definition parser_bounds :: "xgl_parser \<Rightarrow> bool" where
  "parser_bounds p \<longleftrightarrow> ps_cache_len p \<le> ps_cache_size p \<and> ps_cache_size p \<le> length (ps_cache p) \<and> 26 \<le> ps_cache_size p"

definition parser_tracks :: "xgl_parser \<Rightarrow> bytes \<Rightarrow> bool" where
  "parser_tracks p w \<longleftrightarrow>
     parser_bounds p \<and> w = take (ps_cache_len p) (ps_cache p) \<and>
     (case ps_state p of
        XGL_PARSE_MAGIC \<Rightarrow> w = []
      | XGL_PARSE_HEADER \<Rightarrow>
          w \<noteq> [] \<and> w ! 0 = XGL_WIRE_MAGIC_0 \<and> (2 \<le> length w \<longrightarrow> w ! 1 = XGL_WIRE_MAGIC_1) \<and> ps_index p = 0
          \<and> (24 \<le> length w \<longrightarrow>
              (\<exists>h. xgl_wire_decode_header (Some w) 24 = Inr h \<and> length w < unat (wh_header_len h)))
      | XGL_PARSE_PAYLOAD \<Rightarrow>
          header_done p w \<and> length w < parser_body_end p \<and> ps_index p = 0
      | XGL_PARSE_CRC \<Rightarrow>
          header_done p w \<and> length w = parser_body_end p + ps_index p \<and> ps_index p \<le> 1)"

lemma parser_tracks_length:
  "parser_tracks p w \<Longrightarrow> length w = ps_cache_len p"
  by (simp add: parser_tracks_def parser_bounds_def)

lemma parser_reset_tracks: "parser_bounds p \<Longrightarrow> parser_tracks (xgl_parser_reset p) []"
  by (simp add: parser_tracks_def parser_bounds_def xgl_parser_reset_def)

lemma parser_store_bounds:
  "parser_bounds p \<Longrightarrow> ps_cache_len p < ps_cache_size p \<Longrightarrow> parser_bounds (parser_store p b)"
  by (simp add: parser_bounds_def parser_store_def)

lemma parser_store_take:
  assumes "parser_tracks p w" "ps_cache_len p < ps_cache_size p"
  shows "take (Suc (length w)) (ps_cache (parser_store p b)) = w @ [b]"
  using assms
  by (simp add: parser_tracks_def parser_bounds_def parser_store_def take_Suc_conv_app_nth take_update_cancel)

lemma parser_store_sel [simp]:
  "ps_state (parser_store p b) = ps_state p" "ps_cache_size (parser_store p b) = ps_cache_size p"
  "ps_cache_len (parser_store p b) = Suc (ps_cache_len p)" "ps_index (parser_store p b) = ps_index p"
  "ps_expected_header_len (parser_store p b) = ps_expected_header_len p"
  "ps_expected_payload_len (parser_store p b) = ps_expected_payload_len p"
  "ps_expected_auth_tag_len (parser_store p b) = ps_expected_auth_tag_len p"
  by (simp_all add: parser_store_def)

lemma decoded_header_len: "xgl_wire_decode_header (Some b) n = Inr h \<Longrightarrow> 24 \<le> unat (wh_header_len h)"
  using wire_decode_header_OkD(6) [of b n h] by (simp add: wire_header_fields_valid_def)

lemma header_done_extend:
  assumes "header_done p w"
  shows "header_done p (w @ z)"
proof -
  from assms obtain h where h: "xgl_wire_decode_header (Some w) 24 = Inr h"
    "ps_expected_header_len p = unat (wh_header_len h)" "ps_expected_payload_len p = wh_payload_len h"
    "unat (wh_header_len h) \<le> length w" "header_tag w h = Some (ps_expected_auth_tag_len p)"
    "announced_len h (ps_expected_auth_tag_len p) \<le> ps_cache_size p"
    by (auto simp: header_done_def)
  have "24 \<le> unat (wh_header_len h)"
    using h(1) by (rule decoded_header_len)
  then have "xgl_wire_decode_header (Some (w @ z)) 24 = Inr h"
    using h(1,4) xgl_wire_decode_header_cong [of "w @ z" w] by simp
  moreover have "header_tag (w @ z) h = header_tag w h"
    using h(4) by (intro header_tag_cong [of "unat (wh_header_len h)"]) simp_all
  ultimately show ?thesis using h by (auto simp: header_done_def)
qed

lemma header_done_valid:
  assumes "header_done p w" "length w = parser_body_end p + 2"
  shows "frame_valid w \<longleftrightarrow> xgl_crc16_modbus (Some w) (length w - 2) = get_u16_le w (length w - 2)"
  using assms
  by (auto simp: header_done_def frame_valid_def announced_len_def parser_body_end_def
      dest: decoded_header_len)

text \<open>The header state in terms of the bytes collected so far.\<close>

lemma parser_feed_header_eq:
  assumes p: "parser_tracks p w" "ps_cache_len p < ps_cache_size p" "ps_state p = XGL_PARSE_HEADER"
    and q: "q = parser_store p b" and w': "w' = w @ [b]"
  shows "parser_feed_header p b =
    (if length w' = 2 \<and> b \<noteq> XGL_WIRE_MAGIC_1
     then (XGL_PARSE_RESULT_INCOMPLETE,
           if b = XGL_WIRE_MAGIC_0
           then q \<lparr> ps_cache := (ps_cache q)[0 := b], ps_cache_len := 1, ps_state := XGL_PARSE_HEADER \<rparr>
           else xgl_parser_reset q)
     else if length w' < 24 then (XGL_PARSE_RESULT_INCOMPLETE, q)
     else case xgl_wire_decode_header (Some w') 24 of
            Inl _ \<Rightarrow> (XGL_PARSE_RESULT_ERROR, xgl_parser_reset q)
          | Inr h \<Rightarrow>
              let r = q \<lparr> ps_expected_header_len := unat (wh_header_len h), ps_expected_payload_len := wh_payload_len h \<rparr>
              in if length w' < unat (wh_header_len h) then (XGL_PARSE_RESULT_INCOMPLETE, r)
                 else case header_tag w' h of
                        None \<Rightarrow> (XGL_PARSE_RESULT_ERROR, xgl_parser_reset r)
                      | Some tag \<Rightarrow>
                          if announced_len h tag > ps_cache_size p then (XGL_PARSE_RESULT_ERROR, xgl_parser_reset r)
                          else (XGL_PARSE_RESULT_INCOMPLETE,
                                r \<lparr> ps_expected_auth_tag_len := tag,
                                    ps_state := (if wh_payload_len h > 0 \<or> tag > 0 then XGL_PARSE_PAYLOAD else XGL_PARSE_CRC) \<rparr>))"
proof -
  have bounds: "parser_bounds q" using p by (simp add: q parser_tracks_def parser_store_bounds)
  have len: "ps_cache_len q = length w'" using parser_tracks_length [OF p(1)] by (simp add: q w')
  have take: "take (length w') (ps_cache q) = w'" using parser_store_take [OF p(1,2)] by (simp add: q w')
  have size: "ps_cache_size q = ps_cache_size p" "length w' \<le> length (ps_cache q)"
    using bounds len by (simp_all add: q parser_bounds_def)
  have nth: "ps_cache q ! 1 = b" if "length w' = 2"
    using that take nth_take [of 1 "length w'" "ps_cache q"] by (simp add: w' nth_append)
  have dec: "xgl_wire_decode_header (Some (ps_cache q)) 24 = xgl_wire_decode_header (Some w') 24" if "24 \<le> length w'"
    using take xgl_wire_decode_header_take [OF that, of "ps_cache q"] by simp
  have tag: "header_tag (ps_cache q) h = header_tag w' h" if "unat (wh_header_len h) \<le> length w'" for h
  proof (rule header_tag_cong [OF _ _ that refl])
    show "take (unat (wh_header_len h)) (ps_cache q) = take (unat (wh_header_len h)) w'"
      using that take_take [of "unat (wh_header_len h)" "length w'" "ps_cache q"] by (simp add: take min_def)
  qed (use that size in simp)
  show ?thesis
  proof (cases "length w' < 24")
    case True
    then show ?thesis using len nth by (auto simp: parser_feed_header_def q [symmetric] Let_def)
  next
    case False
    then have dec': "xgl_wire_decode_header (Some (ps_cache q)) 24 = xgl_wire_decode_header (Some w') 24" using dec by simp
    show ?thesis
      using False len
      by (auto simp: parser_feed_header_def q [symmetric] Let_def dec' xgl_parser_validate_eq tag size announced_len_def
          xgl_parser_reset_def split: sum.splits option.splits)
  qed
qed


lemma parser_tracks_header:
  assumes "parser_bounds q" "w = take (ps_cache_len q) (ps_cache q)" "ps_state q = XGL_PARSE_HEADER"
    "w \<noteq> []" "w ! 0 = XGL_WIRE_MAGIC_0" "2 \<le> length w \<Longrightarrow> w ! 1 = XGL_WIRE_MAGIC_1" "ps_index q = 0"
    "24 \<le> length w \<Longrightarrow> \<exists>h. xgl_wire_decode_header (Some w) 24 = Inr h \<and> length w < unat (wh_header_len h)"
  shows "parser_tracks q w"
  using assms by (simp add: parser_tracks_def)

lemma parser_tracks_restart:
  assumes "parser_bounds q" "ps_cache r = (ps_cache q)[0 := XGL_WIRE_MAGIC_0]" "ps_cache_size r = ps_cache_size q"
    "ps_cache_len r = 1" "ps_state r = XGL_PARSE_HEADER" "ps_index r = 0"
  shows "parser_tracks r [XGL_WIRE_MAGIC_0]"
  using assms by (cases "ps_cache q") (auto simp: parser_tracks_def parser_bounds_def)

section \<open>The abstract collector\<close>

text \<open>
  What the parser computes, without its states, indices and expected lengths: the bytes collected so
  far and one more byte give a result and the bytes kept.
\<close>

definition collect :: "nat \<Rightarrow> bytes \<Rightarrow> u8 \<Rightarrow> xgl_parse_result \<times> bytes" where
  "collect sz w b =
     (let w' = w @ [b]
      in if length w \<ge> sz then (XGL_PARSE_RESULT_ERROR, [])
         else if w = [] \<or> length w' = 2 \<and> b \<noteq> XGL_WIRE_MAGIC_1
         then (XGL_PARSE_RESULT_INCOMPLETE, if b = XGL_WIRE_MAGIC_0 then [b] else [])
         else if length w' < 24 then (XGL_PARSE_RESULT_INCOMPLETE, w')
         else case xgl_wire_decode_header (Some w') 24 of
                Inl _ \<Rightarrow> (XGL_PARSE_RESULT_ERROR, [])
              | Inr h \<Rightarrow>
                  if length w' < unat (wh_header_len h) then (XGL_PARSE_RESULT_INCOMPLETE, w')
                  else case header_tag w' h of
                         None \<Rightarrow> (XGL_PARSE_RESULT_ERROR, [])
                       | Some tag \<Rightarrow>
                           if announced_len h tag > sz then (XGL_PARSE_RESULT_ERROR, [])
                           else if length w' < announced_len h tag then (XGL_PARSE_RESULT_INCOMPLETE, w')
                           else if frame_valid w' then (XGL_PARSE_RESULT_COMPLETE, w')
                           else (XGL_PARSE_RESULT_ERROR, []))"

lemma announced_len_more: "unat (wh_header_len h) + 2 \<le> announced_len h tag"
  by (simp add: announced_len_def)

lemma parser_feed_header_refines:
  assumes p: "parser_tracks p w" "ps_cache_len p < ps_cache_size p" "ps_state p = XGL_PARSE_HEADER"
    and feed: "parser_feed_header p b = (r, p')"
  shows "\<exists>v. collect (ps_cache_size p) w b = (r, v) \<and> r \<noteq> XGL_PARSE_RESULT_COMPLETE \<and> parser_tracks p' v"
proof -
  define q where "q = parser_store p b"
  define w' where "w' = w @ [b]"
  note eq = parser_feed_header_eq [OF p q_def w'_def]
  have bounds: "parser_bounds q" using p by (simp add: q_def parser_tracks_def parser_store_bounds)
  have len: "ps_cache_len q = length w'" using parser_tracks_length [OF p(1)] by (simp add: q_def w'_def)
  have take: "take (length w') (ps_cache q) = w'" using parser_store_take [OF p(1,2)] by (simp add: q_def w'_def)
  have h: "w \<noteq> []" "w ! 0 = XGL_WIRE_MAGIC_0" "2 \<le> length w \<longrightarrow> w ! 1 = XGL_WIRE_MAGIC_1" "ps_index p = 0"
    using p by (auto simp: parser_tracks_def)
  then have h': "w' \<noteq> []" "w' ! 0 = XGL_WIRE_MAGIC_0" "ps_index q = 0" "ps_state q = XGL_PARSE_HEADER"
    using p(3) by (simp_all add: w'_def q_def nth_append)
  have m1: "w' ! 1 = XGL_WIRE_MAGIC_1" if "\<not> (length w' = 2 \<and> b \<noteq> XGL_WIRE_MAGIC_1)" "2 \<le> length w'"
    using that h by (cases "length w = 1") (auto simp: w'_def nth_append)
  have c: "length w < ps_cache_size p" using p parser_tracks_length [OF p(1)] by simp
  note spec = collect_def [of "ps_cache_size p" w b, folded w'_def, unfolded Let_def]
  have reset: "parser_tracks (xgl_parser_reset s) []" if "parser_bounds s" for s
    using that by (rule parser_reset_tracks)
  consider (magic) "length w' = 2" "b \<noteq> XGL_WIRE_MAGIC_1"
    | (short) "\<not> (length w' = 2 \<and> b \<noteq> XGL_WIRE_MAGIC_1)" "length w' < 24"
    | (long) "\<not> (length w' = 2 \<and> b \<noteq> XGL_WIRE_MAGIC_1)" "24 \<le> length w'"
    by linarith
  then show ?thesis
  proof cases
    case magic
    have "parser_tracks (q \<lparr> ps_cache := (ps_cache q)[0 := b], ps_cache_len := 1, ps_state := XGL_PARSE_HEADER \<rparr>) [b]"
      if "b = XGL_WIRE_MAGIC_0"
      using parser_tracks_restart [OF bounds] that h' by simp
    with magic eq feed reset [OF bounds] c spec show ?thesis by (auto split: if_splits)
  next
    case short
    have "parser_tracks q w'"
      using bounds h' m1 short take len by (intro parser_tracks_header) simp_all
    with short eq feed c spec h(1) show ?thesis by auto
  next
    case long
    show ?thesis
    proof (cases "xgl_wire_decode_header (Some w') 24")
      case (Inl e)
      with long eq feed reset [OF bounds] c spec h(1) show ?thesis by auto
    next
      case (Inr h)
      define s where "s = q \<lparr> ps_expected_header_len := unat (wh_header_len h), ps_expected_payload_len := wh_payload_len h \<rparr>"
      have s: "parser_bounds s" "ps_cache_len s = length w'" "ps_cache s = ps_cache q" "ps_index s = 0"
        using bounds len h' by (simp_all add: s_def parser_bounds_def)
      note eq' = eq [unfolded Inr sum.case Let_def, folded s_def]
      show ?thesis
      proof (cases "length w' < unat (wh_header_len h)")
        case True
        have "parser_tracks s w'"
          using s bounds h' m1 long True take len Inr by (intro parser_tracks_header) (simp_all add: s_def)
        with True long eq' feed c spec h(1) Inr show ?thesis by auto
      next
        case False
        then show ?thesis
        proof (cases "header_tag w' h")
          case None
          with False long eq' feed reset [OF s(1)] c spec h(1) Inr show ?thesis by auto
        next
          case (Some tag)
          show ?thesis
          proof (cases "announced_len h tag > ps_cache_size p")
            case True
            with Some False long eq' feed reset [OF s(1)] c spec h(1) Inr show ?thesis by auto
          next
            case fits: False
            define u where "u = s \<lparr> ps_expected_auth_tag_len := tag,
              ps_state := (if wh_payload_len h > 0 \<or> tag > 0 then XGL_PARSE_PAYLOAD else XGL_PARSE_CRC) \<rparr>"
            have "length w' \<le> unat (wh_header_len h)"
            proof (cases "24 \<le> length w")
              case True
              then have "xgl_wire_decode_header (Some w) 24 = Inr h"
                using Inr xgl_wire_decode_header_cong [of w' w] by (simp add: w'_def)
              with True p(1,3) show ?thesis by (auto simp: parser_tracks_def w'_def)
            qed (use decoded_header_len [OF Inr] in \<open>simp add: w'_def\<close>)
            then have hl: "length w' = unat (wh_header_len h)" using False by simp
            have sz: "ps_cache_size s = ps_cache_size p" by (simp add: s_def q_def)
            have u: "parser_bounds u" "w' = take (ps_cache_len u) (ps_cache u)" "ps_index u = 0" "header_done u w'"
              using s take fits Some Inr hl sz by (simp_all add: u_def header_done_def parser_bounds_def) (simp_all add: s_def)
            have "parser_body_end u = length w' + unat (wh_payload_len h) + unat tag"
              by (simp add: parser_body_end_def u_def s_def hl)
            with u have "parser_tracks u w'"
              by (auto simp: parser_tracks_def u_def word_gt_0 unat_gt_0 split: if_splits)
            with fits Some False long eq' feed c spec h(1) Inr hl announced_len_more [of h tag] show ?thesis by (auto simp: u_def)
          qed
        qed
      qed
    qed
  qed
qed

lemma crc16_take: "n \<le> m \<Longrightarrow> xgl_crc16_modbus (Some (take m b)) n = xgl_crc16_modbus (Some b) n"
  by (simp add: xgl_crc16_modbus_def xgl_crc16_modbus_update_def min_def)

lemma header_done_collect:
  assumes "header_done p w" "length w < parser_body_end p + 2" "w' = w @ [b]"
  shows "collect (ps_cache_size p) w b =
    (if length w' < parser_body_end p + 2 then (XGL_PARSE_RESULT_INCOMPLETE, w')
     else if frame_valid w' then (XGL_PARSE_RESULT_COMPLETE, w') else (XGL_PARSE_RESULT_ERROR, []))"
proof -
  from header_done_extend [OF assms(1), of "[b]"] obtain h where h: "xgl_wire_decode_header (Some w') 24 = Inr h"
    "ps_expected_header_len p = unat (wh_header_len h)" "ps_expected_payload_len p = wh_payload_len h"
    "header_tag w' h = Some (ps_expected_auth_tag_len p)"
    "announced_len h (ps_expected_auth_tag_len p) \<le> ps_cache_size p"
    using assms(3) by (auto simp: header_done_def)
  have hl: "24 \<le> ps_expected_header_len p" "ps_expected_header_len p \<le> length w"
    using decoded_header_len [OF h(1)] h(2) assms(1) by (auto simp: header_done_def)
  have "announced_len h (ps_expected_auth_tag_len p) = parser_body_end p + 2"
    by (simp add: announced_len_def parser_body_end_def h)
  with h hl assms(2,3) show ?thesis
    by (auto simp: collect_def Let_def)
qed

lemma header_done_cong:
  assumes "header_done p w" "ps_expected_header_len q = ps_expected_header_len p"
    "ps_expected_payload_len q = ps_expected_payload_len p" "ps_expected_auth_tag_len q = ps_expected_auth_tag_len p"
    "ps_cache_size q = ps_cache_size p"
  shows "header_done q w"
  using assms by (simp add: header_done_def)

text \<open>
  What a step must do: give the collector's result, and leave a state that tracks the bytes the
  collector keeps; on completion they are in the cache and \<^verbatim>\<open>xgl_parser_get_frame\<close> returns them.
\<close>

definition step_refines :: "xgl_parser \<Rightarrow> bytes \<Rightarrow> u8 \<Rightarrow> xgl_parse_result \<times> xgl_parser \<Rightarrow> bool" where
  "step_refines p w b = (\<lambda>(r, p').
     \<exists>v. collect (ps_cache_size p) w b = (r, v)
       \<and> (if r = XGL_PARSE_RESULT_COMPLETE
          then parser_bounds p' \<and> xgl_parser_get_frame p' = Inr (ps_cache p', length v)
               \<and> take (length v) (ps_cache p') = v
          else parser_tracks p' v))"

lemma parser_store_tracked:
  assumes "parser_tracks p w" "ps_cache_len p < ps_cache_size p"
  shows "parser_bounds (parser_store p b)" "take (Suc (length w)) (ps_cache (parser_store p b)) = w @ [b]"
    "ps_cache_len (parser_store p b) = Suc (length w)"
  using assms parser_store_take [OF assms, of b]
  by (auto simp: parser_store_bounds parser_tracks_length) (auto simp: parser_tracks_def parser_store_bounds)

lemma parser_feed_magic_refines:
  assumes p: "parser_tracks p w" "ps_cache_len p < ps_cache_size p" "ps_state p = XGL_PARSE_MAGIC"
  shows "step_refines p w b (xgl_parser_feed_byte p b t)"
proof -
  have w: "w = []" and bounds: "parser_bounds p" using p by (auto simp: parser_tracks_def)
  have l: "ps_cache_len p = 0" using parser_tracks_length [OF p(1)] w by simp
  show ?thesis
  proof (cases "b = XGL_WIRE_MAGIC_0")
    case True
    show ?thesis
      using p w l True parser_tracks_restart [OF bounds]
      by (simp add: step_refines_def xgl_parser_feed_byte_def collect_def)
  next
    case False
    then show ?thesis
      using p w l by (simp add: step_refines_def xgl_parser_feed_byte_def collect_def)
  qed
qed

lemma parser_feed_payload_refines:
  assumes p: "parser_tracks p w" "ps_cache_len p < ps_cache_size p" "ps_state p = XGL_PARSE_PAYLOAD"
  shows "step_refines p w b (xgl_parser_feed_byte p b t)"
proof -
  define q where "q = parser_store p b"
  note st = parser_store_tracked [OF p(1,2), of b, folded q_def]
  have dn: "header_done p w" "length w < parser_body_end p" "ps_index p = 0"
    using p by (auto simp: parser_tracks_def)
  have hl: "ps_expected_header_len p \<le> length w" using dn(1) by (auto simp: header_done_def)
  have sel: "ps_expected_header_len q = ps_expected_header_len p" "ps_expected_payload_len q = ps_expected_payload_len p"
    "ps_expected_auth_tag_len q = ps_expected_auth_tag_len p" "ps_cache_size q = ps_cache_size p" "ps_state q = XGL_PARSE_PAYLOAD"
    "ps_index q = 0"
    using p dn by (simp_all add: q_def)
  define s where "s = (if parser_body_end p \<le> Suc (length w) then q \<lparr> ps_state := XGL_PARSE_CRC, ps_index := 0 \<rparr> else q)"
  have "header_done s (w @ [b])"
    by (rule header_done_cong [OF header_done_extend [OF dn(1)]]) (simp_all add: s_def sel)
  moreover have "parser_body_end s = parser_body_end p" by (simp add: s_def parser_body_end_def sel)
  ultimately have "parser_tracks s (w @ [b])"
    using st dn by (auto simp: parser_tracks_def s_def parser_bounds_def sel)
  moreover have "collect (ps_cache_size p) w b = (XGL_PARSE_RESULT_INCOMPLETE, w @ [b])"
    using header_done_collect [OF dn(1) _ refl] dn(2) by simp
  moreover have "xgl_parser_feed_byte p b t = (XGL_PARSE_RESULT_INCOMPLETE, s)"
  proof -
    have "(unat (ps_expected_payload_len p) + unat (ps_expected_auth_tag_len p) \<le> Suc (length w) - ps_expected_header_len p) \<longleftrightarrow>
        parser_body_end p \<le> Suc (length w)"
      using hl by (auto simp: parser_body_end_def)
    then show ?thesis
      using p by (simp add: xgl_parser_feed_byte_def Let_def s_def sel st flip: q_def)
  qed
  ultimately show ?thesis by (simp add: step_refines_def)
qed

lemma parser_feed_crc_refines:
  assumes p: "parser_tracks p w" "ps_cache_len p < ps_cache_size p" "ps_state p = XGL_PARSE_CRC"
  shows "step_refines p w b (xgl_parser_feed_byte p b t)"
proof -
  define q where "q = (parser_store p b) \<lparr> ps_index := Suc (ps_index p) \<rparr>"
  define w' where "w' = w @ [b]"
  have q: "parser_bounds q" "take (length w') (ps_cache q) = w'" "ps_cache_len q = length w'" "ps_state q = XGL_PARSE_CRC"
    using parser_store_tracked [OF p(1,2), of b] p(3) by (simp_all add: q_def parser_bounds_def w'_def)
  have dn: "header_done p w" "length w = parser_body_end p + ps_index p" "ps_index p \<le> 1"
    using p by (auto simp: parser_tracks_def)
  have dn': "header_done q w'" "parser_body_end q = parser_body_end p"
    unfolding w'_def
    by (rule header_done_cong [OF header_done_extend [OF dn(1)]]) (simp_all add: q_def parser_body_end_def)
  have feed: "xgl_parser_feed_byte p b t = parser_feed_crc p b"
    using p by (simp add: xgl_parser_feed_byte_def)
  note col = header_done_collect [OF dn(1) _ w'_def]
  show ?thesis
  proof (cases "ps_index p = 0")
    case True
    then have "parser_feed_crc p b = (XGL_PARSE_RESULT_INCOMPLETE, q)"
      by (simp add: parser_feed_crc_def q_def)
    moreover have "parser_tracks q w'"
      using q dn' dn True by (simp add: parser_tracks_def w'_def) (simp add: q_def)
    ultimately show ?thesis
      using col dn True by (simp add: step_refines_def feed w'_def)
  next
    case False
    then have i: "ps_index p = 1" using dn(3) by simp
    have crc: "xgl_crc16_modbus (Some (ps_cache q)) (length w' - 2) = xgl_crc16_modbus (Some w') (length w' - 2)"
      using q(2) crc16_take [of "length w' - 2" "length w'" "ps_cache q"] by simp
    have rd: "get_u16_le (ps_cache q) (length w' - 2) = get_u16_le w' (length w' - 2)"
      using q(2) get_u16_le_take [of "length w' - 2" "length w'" "ps_cache q"] dn(2) i by (simp add: w'_def)
    have "frame_valid w' \<longleftrightarrow> xgl_crc16_modbus (Some w') (length w' - 2) = get_u16_le w' (length w' - 2)"
      using header_done_valid [OF dn'(1)] dn dn'(2) i by (simp add: w'_def)
    then have "parser_feed_crc p b =
        (if frame_valid w' then (XGL_PARSE_RESULT_COMPLETE, q) else (XGL_PARSE_RESULT_ERROR, xgl_parser_reset q))"
      using i q(3) crc rd by (simp add: parser_feed_crc_def Let_def q_def)
    moreover have "xgl_parser_get_frame q = Inr (ps_cache q, length w')"
      using q by (simp add: xgl_parser_get_frame_def w'_def)
    ultimately show ?thesis
      using col dn i parser_reset_tracks [OF q(1)] q(1,2) by (simp add: step_refines_def feed w'_def)
  qed
qed

lemma xgl_parser_feed_byte_refines:
  assumes p: "parser_tracks p w"
  shows "step_refines p w b (xgl_parser_feed_byte p b t)"
proof (cases "ps_cache_len p < ps_cache_size p")
  case False
  moreover have "parser_bounds p" using p by (simp add: parser_tracks_def)
  ultimately show ?thesis
    using parser_reset_tracks [of p] parser_tracks_length [OF p]
    by (simp add: step_refines_def xgl_parser_feed_byte_def collect_def)
next
  case True
  show ?thesis
  proof (cases "ps_state p")
    case XGL_PARSE_HEADER
    obtain r p' where f: "parser_feed_header p b = (r, p')" by fastforce
    then have "xgl_parser_feed_byte p b t = (r, p')"
      using True XGL_PARSE_HEADER by (simp add: xgl_parser_feed_byte_def)
    with parser_feed_header_refines [OF p True XGL_PARSE_HEADER f] show ?thesis
      by (auto simp: step_refines_def)
  qed (use p True parser_feed_magic_refines parser_feed_payload_refines parser_feed_crc_refines in auto)
qed

section \<open>Byte streams\<close>

lemma parser_bounds_update [simp]:
  "parser_bounds (p \<lparr> ps_state := st \<rparr>) = parser_bounds p"
  "parser_bounds (p \<lparr> ps_index := i \<rparr>) = parser_bounds p"
  "parser_bounds (p \<lparr> ps_timestamp := ts \<rparr>) = parser_bounds p"
  "parser_bounds (p \<lparr> ps_expected_header_len := a \<rparr>) = parser_bounds p"
  "parser_bounds (p \<lparr> ps_expected_payload_len := c \<rparr>) = parser_bounds p"
  "parser_bounds (p \<lparr> ps_expected_auth_tag_len := d \<rparr>) = parser_bounds p"
  by (simp_all add: parser_bounds_def)

lemma parser_bounds_restart:
  "parser_bounds p \<Longrightarrow> parser_bounds (p \<lparr> ps_cache := (ps_cache p)[0 := b], ps_cache_len := 1 \<rparr>)"
  by (simp add: parser_bounds_def)

lemma parser_bounds_reset: "parser_bounds p \<Longrightarrow> parser_bounds (xgl_parser_reset p)"
  by (simp add: parser_bounds_def xgl_parser_reset_def)

lemma parser_reset_size [simp]: "ps_cache_size (xgl_parser_reset p) = ps_cache_size p"
  by (simp add: xgl_parser_reset_def)

lemma parser_validate_keeps:
  "ps_cache_size (snd (xgl_parser_validate_header_extensions p)) = ps_cache_size p"
  "parser_bounds p \<Longrightarrow> parser_bounds (snd (xgl_parser_validate_header_extensions p))"
  by (auto simp: xgl_parser_validate_header_extensions_def Let_def parser_bounds_reset split: sum.split)

lemma parser_feed_header_keeps:
  "ps_cache_size (snd (parser_feed_header p b)) = ps_cache_size p"
  "parser_bounds (parser_store p b) \<Longrightarrow> parser_bounds (snd (parser_feed_header p b))"
  by (auto simp: parser_feed_header_def Let_def case_prod_beta parser_validate_keeps parser_bounds_reset
      intro: parser_bounds_restart [simplified] split: sum.split)

lemma parser_feed_crc_keeps:
  "ps_cache_size (snd (parser_feed_crc p b)) = ps_cache_size p"
  "parser_bounds (parser_store p b) \<Longrightarrow> parser_bounds (snd (parser_feed_crc p b))"
  by (auto simp: parser_feed_crc_def Let_def parser_bounds_reset)

lemma xgl_parser_feed_byte_size [simp]:
  "ps_cache_size (snd (xgl_parser_feed_byte p b t)) = ps_cache_size p"
  by (simp add: xgl_parser_feed_byte_def Let_def parser_feed_header_keeps parser_feed_crc_keeps
      split: xgl_parse_state.split)

lemma xgl_parser_feed_byte_bounds:
  assumes "parser_bounds p"
  shows "parser_bounds (snd (xgl_parser_feed_byte p b t))"
  using assms parser_store_bounds [OF assms, of b] parser_bounds_restart [OF assms, of b]
  by (cases "ps_state p"; cases "ps_cache_len p < ps_cache_size p")
    (auto simp: xgl_parser_feed_byte_def Let_def parser_feed_header_keeps parser_feed_crc_keeps parser_bounds_reset)

interpretation parser: invariant_machine "\<lambda>p (b, t). xgl_parser_feed_byte p b t" parser_bounds
  by unfold_locales (auto intro: xgl_parser_feed_byte_bounds)

lemma collect_valid:
  assumes "frame_valid (w @ b # z)" "length w + 1 + length z \<le> sz"
  shows "collect sz w b = (if z = [] then XGL_PARSE_RESULT_COMPLETE else XGL_PARSE_RESULT_INCOMPLETE, w @ [b])"
proof -
  let ?fr = "w @ b # z" and ?w = "w @ [b]"
  from assms(1) obtain h tag where h: "xgl_wire_decode_header (Some ?fr) 24 = Inr h" "header_tag ?fr h = Some tag"
    "length ?fr = announced_len h tag"
    by (rule frame_validE)
  have m: "?fr ! 0 = XGL_WIRE_MAGIC_0" "?fr ! 1 = XGL_WIRE_MAGIC_1" and hl: "24 \<le> unat (wh_header_len h)"
    using wire_decode_header_OkD [OF h(1)] decoded_header_len [OF h(1)] by auto
  have sz: "announced_len h tag \<le> sz" "length w < sz" using h(3) assms(2) by simp_all
  have magic: "w = [] \<Longrightarrow> b = XGL_WIRE_MAGIC_0" "length w = 1 \<Longrightarrow> b = XGL_WIRE_MAGIC_1"
    using m by (auto simp: nth_append)
  have pre: "take n ?w = take n ?fr" if "n \<le> length ?w" for n
    using that by (cases "n - length w") auto
  have dec: "xgl_wire_decode_header (Some ?w) 24 = Inr h" if "24 \<le> length ?w"
    using h(1) xgl_wire_decode_header_cong [OF pre [OF that]] by simp
  have tag: "header_tag ?w h = Some tag" if "unat (wh_header_len h) \<le> length ?w"
    using that h(2) header_tag_cong [OF pre [OF that], of h] by simp
  have len: "length ?w < announced_len h tag \<longleftrightarrow> z \<noteq> []" using h(3) by (cases z) auto
  have last: "frame_valid ?w" if "z = []" using that assms(1) by simp
  have long: "24 \<le> length ?w" "unat (wh_header_len h) \<le> length ?w" if "z = []"
    using that h(3) hl announced_len_more [of h tag] by simp_all
  consider (empty) "w = []" | (short) "w \<noteq> []" "length ?w < 24"
    | (header) "24 \<le> length ?w" "length ?w < unat (wh_header_len h)"
    | (body) "24 \<le> length ?w" "unat (wh_header_len h) \<le> length ?w"
    by linarith
  then show ?thesis
  proof cases
    case empty
    then show ?thesis using magic long sz by (auto simp: collect_def)
  next
    case short
    then show ?thesis using magic long sz by (auto simp: collect_def Let_def)
  next
    case header
    then show ?thesis using dec long sz by (auto simp: collect_def Let_def)
  next
    case body
    then show ?thesis
      using dec tag len last sz by (auto simp: collect_def Let_def)
  qed
qed

lemma collect_complete:
  "collect sz w b = (XGL_PARSE_RESULT_COMPLETE, v) \<Longrightarrow> v = w @ [b] \<and> frame_valid v"
  by (auto simp: collect_def Let_def split: if_splits sum.splits option.splits)

lemma feed_valid_frame:
  assumes "parser_tracks p w" "frame_valid (w @ map fst es)" "es \<noteq> []" "length w + length es \<le> ps_cache_size p"
  shows "fst (parser.run p es) = replicate (length es - 1) XGL_PARSE_RESULT_INCOMPLETE @ [XGL_PARSE_RESULT_COMPLETE]
       \<and> (\<exists>c. xgl_parser_get_frame (snd (parser.run p es)) = Inr (c, length w + length es)
            \<and> take (length w + length es) c = w @ map fst es)"
  using assms
proof (induction es arbitrary: p w)
  case (Cons e es)
  obtain b t where e: "e = (b, t)" by (cases e)
  obtain r p' where f: "xgl_parser_feed_byte p b t = (r, p')" by fastforce
  have col: "collect (ps_cache_size p) w b =
      (if es = [] then XGL_PARSE_RESULT_COMPLETE else XGL_PARSE_RESULT_INCOMPLETE, w @ [b])"
    using collect_valid [of w b "map fst es" "ps_cache_size p"] Cons.prems by (simp add: e)
  have ref: "step_refines p w b (r, p')"
    using xgl_parser_feed_byte_refines [OF Cons.prems(1), of b t] by (simp add: f)
  show ?case
  proof (cases "es = []")
    case True
    then show ?thesis using ref col by (auto simp: e f step_refines_def)
  next
    case False
    then have r: "r = XGL_PARSE_RESULT_INCOMPLETE" "parser_tracks p' (w @ [b])"
      using ref col by (auto simp: step_refines_def)
    have "ps_cache_size p' = ps_cache_size p"
      using xgl_parser_feed_byte_size [of p b t] by (simp add: f)
    then have "fst (parser.run p' es) = replicate (length es - 1) XGL_PARSE_RESULT_INCOMPLETE @ [XGL_PARSE_RESULT_COMPLETE]
       \<and> (\<exists>c. xgl_parser_get_frame (snd (parser.run p' es)) = Inr (c, length (w @ [b]) + length es)
            \<and> take (length (w @ [b]) + length es) c = (w @ [b]) @ map fst es)"
      using Cons.prems False e by (intro Cons.IH [OF r(2)]) simp_all
    moreover have "replicate (length es) XGL_PARSE_RESULT_INCOMPLETE = XGL_PARSE_RESULT_INCOMPLETE # replicate (length es - 1) XGL_PARSE_RESULT_INCOMPLETE"
      using False by (cases es) simp_all
    moreover obtain rs s where "parser.run p' es = (rs, s)" by fastforce
    ultimately show ?thesis by (auto simp: e f r(1))
  qed
qed simp

section \<open>Serialized frames are valid\<close>

text \<open>A list of extensions as \<open>(type, value)\<close> pairs and its image; the walk over it.\<close>

definition exts_image :: "(u8 \<times> bytes) list \<Rightarrow> bytes" where
  "exts_image es = concat (map (\<lambda>(t, v). tlv_image t v) es)"

definition exts_ok :: "(u8 \<times> bytes) list \<Rightarrow> bool" where
  "exts_ok es \<longleftrightarrow> list_all (\<lambda>(t, v). t \<noteq> 0 \<and> length v \<le> 255) es"

primrec exts_fold :: "(xgl_wire_ext \<Rightarrow> 's \<Rightarrow> 'r + 's) \<Rightarrow> (u8 \<times> bytes) list \<Rightarrow> 's \<Rightarrow> 'r + xgl_error \<times> 's" where
  "exts_fold body [] s = Inr (XGL_ERR_NOT_FOUND, s)"
| "exts_fold body (e # es) s =
     (case body \<lparr> ext_type = fst e, ext_len = length (snd e), ext_value = snd e, ext_valid = True \<rparr> s of
        Inl r \<Rightarrow> Inl r | Inr s' \<Rightarrow> exts_fold body es s')"

lemma ext_while_exts:
  assumes "exts_ok es" "n = length pre + length (exts_image es)"
  shows "ext_while body \<lparr> cur_buffer = pre @ exts_image es @ post, cur_len = n, cur_offset = length pre \<rparr> s =
         exts_fold body es s"
  using assms
proof (induction es arbitrary: pre s)
  case Nil
  then show ?case by (subst ext_while.simps) (simp add: exts_image_def xgl_wire_ext_cursor_next_def)
next
  case (Cons e es)
  obtain t v where e: "e = (t, v)" by (cases e)
  have img: "exts_image (e # es) = tlv_image t v @ exts_image es" by (simp add: exts_image_def e)
  have nxt: "xgl_wire_ext_cursor_next \<lparr> cur_buffer = pre @ exts_image (e # es) @ post, cur_len = n, cur_offset = length pre \<rparr> =
    Inr (\<lparr> ext_type = t, ext_len = length v, ext_value = v, ext_valid = True \<rparr>,
         \<lparr> cur_buffer = (pre @ tlv_image t v) @ exts_image es @ post, cur_len = n, cur_offset = length (pre @ tlv_image t v) \<rparr>)"
    using Cons.prems(1) Cons.prems(2) [unfolded img]
      xgl_wire_ext_cursor_next_image [of t v "length pre" pre n "exts_image es @ post"]
    by (simp add: img exts_ok_def e [symmetric]) (simp add: e)
  have rest: "ext_while body \<lparr> cur_buffer = (pre @ tlv_image t v) @ exts_image es @ post, cur_len = n,
      cur_offset = length (pre @ tlv_image t v) \<rparr> s' = exts_fold body es s'" for s'
    using Cons.prems(1) Cons.prems(2) [unfolded img] by (intro Cons.IH) (simp_all add: exts_ok_def)
  have "fst e = t" "snd e = v" by (simp_all add: e)
  then show ?case
    by (subst ext_while.simps) (simp only: nxt sum.case prod.case rest exts_fold.simps split: sum.split, simp)
qed

lemma exts_fold_append:
  "exts_fold body (es @ fs) s =
     (case exts_fold body es s of Inl r \<Rightarrow> Inl r | Inr (_, s') \<Rightarrow> exts_fold body fs s')"
  by (induction es arbitrary: s) (auto split: sum.splits)

lemma parser_ext_fold_plain:
  assumes "list_all (\<lambda>(t, v). t \<noteq> XGL_WIRE_EXT_SECURITY) es"
  shows "exts_fold parser_ext_body es tag = Inr (XGL_ERR_NOT_FOUND, tag)"
  using assms by (induction es) (auto simp: parser_ext_body_def)

lemma header_tag_exts:
  assumes "exts_ok es" "unat (wh_header_len h) = 24 + length (exts_image es)" "length pre = 24"
    "exts_fold parser_ext_body es 0 = Inr (XGL_ERR_NOT_FOUND, tag)"
    "es = [] \<or> wh_flags h AND XGL_WIRE_FLAG_AUTHENTICATED = 0 \<or> tag \<noteq> 0"
  shows "header_tag (pre @ exts_image es @ post) h = Some tag"
proof (cases "exts_image es = []")
  case True
  then have "es = []"
    by (cases es) (auto simp: exts_image_def tlv_image_def case_prod_beta)
  with assms show ?thesis by (simp add: header_tag_def exts_image_def)
next
  case False
  have "ext_while parser_ext_body \<lparr> cur_buffer = exts_image es @ post, cur_len = length (exts_image es), cur_offset = 0 \<rparr> 0 =
      Inr (XGL_ERR_NOT_FOUND, tag)"
    using ext_while_exts [OF assms(1), of _ "[]" parser_ext_body post 0] assms(4) by simp
  with False assms show ?thesis by (auto simp: header_tag_def exts_image_def)
qed

lemma frame_image_valid:
  assumes valid: "wire_header_fields_valid h" and es: "exts_ok es"
    and hl: "unat (wh_header_len h) = 24 + length (exts_image es)"
    and fold: "exts_fold parser_ext_body es 0 = Inr (XGL_ERR_NOT_FOUND, tag)"
    and auth: "es = [] \<or> wh_flags h AND XGL_WIRE_FLAG_AUTHENTICATED = 0 \<or> tag \<noteq> 0"
    and len: "length body = unat (wh_payload_len h) + unat tag"
  shows "frame_valid (frame_image h (exts_image es) body)"
proof -
  let ?d = "wire_header_image h @ exts_image es @ body"
  let ?c = "xgl_crc16_modbus (Some ?d) (length ?d)"
  let ?h = "h \<lparr> wh_header_crc16 := xgl_crc16_modbus (Some (wire_header_prefix h @ [0, 0])) 24 \<rparr>"
  have fr: "frame_image h (exts_image es) body = ?d @ le16 ?c" by (simp add: frame_image_def sealed_def)
  have dec: "xgl_wire_decode_header (Some (?d @ le16 ?c)) 24 = Inr ?h"
    using wire_decode_image [OF valid, of 24 "exts_image es @ body @ le16 ?c"] by simp
  have tag: "header_tag (?d @ le16 ?c) ?h = Some tag"
    using header_tag_exts [OF es, of ?h "wire_header_image h" tag "body @ le16 ?c"] hl fold auth by simp
  have "xgl_crc16_modbus (Some (?d @ le16 ?c)) (length ?d) = ?c" by (rule crc16_prefix) simp
  moreover have "get_u16_le (?d @ le16 ?c) (length ?d) = ?c"
    using u16_codec.get_append [of ?d "length ?d" ?c "[]"] by simp
  moreover have "length (?d @ le16 ?c) - 2 = length ?d" by simp
  ultimately show ?thesis
    unfolding fr frame_valid_def dec using tag hl len
    by (simp add: announced_len_def del: append_assoc)
qed

text \<open>What the two serializers write, as the image of a header, a list of extensions and a body.\<close>

lemma serialized_frame_image:
  assumes "frame_wf f" "fr_extensions_len f \<le> 231" "frame_ext f = exts_image exts" "exts_ok exts"
    and "list_all (\<lambda>(t, v). t \<noteq> XGL_WIRE_EXT_SECURITY) exts"
    and "wh_flags (fr_header f) AND XGL_WIRE_FLAG_AUTHENTICATED = 0"
    and "wire_packet_type_valid (wh_packet_type (fr_header f))"
      "wh_source_id (fr_header f) \<noteq> 0" "wh_target_id (fr_header f) \<noteq> 0"
    and "k = 26 + fr_extensions_len f + fr_payload_len f" "k \<le> m" "m \<le> length b"
  shows "xgl_frame_serialize (Some b) m (Some f) =
      Inr (frame_image (serialized_header f) (exts_image exts) (frame_payload f) @ drop k b, k)"
    and "frame_valid (frame_image (serialized_header f) (exts_image exts) (frame_payload f))"
    and "length (frame_image (serialized_header f) (exts_image exts) (frame_payload f)) = k"
proof -
  let ?h = "serialized_header f"
  have valid: "wire_header_fields_valid ?h" using assms by (simp add: serialized_header_valid)
  let ?F = "frame_image ?h (exts_image exts) (frame_payload f)"
  show "xgl_frame_serialize (Some b) m (Some f) = Inr (?F @ drop k b, k)"
    unfolding assms(3) [symmetric] using assms valid by (intro xgl_frame_serialize_image) simp_all
  have parts: "length (frame_ext f) = fr_extensions_len f" "length (frame_payload f) = fr_payload_len f" "fr_payload_len f \<le> 65535"
    using assms(1) by (simp_all add: frame_wf_def)
  have flags: "wh_flags ?h AND XGL_WIRE_FLAG_AUTHENTICATED = 0"
    using assms(6) by (simp add: serialized_header_def frame_wire_header_def bit.conj_disj_distrib2)
  show "frame_valid ?F"
  proof (rule frame_image_valid [OF valid assms(4), where tag = 0])
    show "unat (wh_header_len ?h) = 24 + length (exts_image exts)"
      using assms(2,3) parts unat_word_of_nat_byte [of "24 + fr_extensions_len f"]
      by (simp add: serialized_header_def frame_wire_header_def)
    have "unat (word_of_nat (fr_payload_len f) :: u16) = fr_payload_len f"
      using parts by (simp add: unsigned_of_nat take_bit_nat_eq_self)
    then show "length (frame_payload f) = unat (wh_payload_len ?h) + unat (0 :: u8)"
      using parts by (simp add: serialized_header_def frame_wire_header_def)
  qed (use assms flags parser_ext_fold_plain in auto)
  show "length ?F = k" using parts assms by simp
qed

abbreviation security_exts :: "xgl_frame \<Rightarrow> u32 \<Rightarrow> xgl_auth_provider \<Rightarrow> (u8 \<times> bytes) list \<Rightarrow> (u8 \<times> bytes) list" where
  "security_exts f key pr exts \<equiv>
     exts @ [(XGL_WIRE_EXT_SECURITY,
              security_image (key, ucast (wh_packet_number (fr_header f)), word_of_nat (ap_tag_len pr)))]"

lemma authenticated_frame_image:
  assumes "frame_wf f" "fr_extensions_len f \<le> 216" "frame_ext f = exts_image exts" "exts_ok exts"
    and "list_all (\<lambda>(t, v). t \<noteq> XGL_WIRE_EXT_SECURITY) exts"
    and "wire_packet_type_valid (wh_packet_type (fr_header f))"
      "wh_source_id (fr_header f) \<noteq> 0" "wh_target_id (fr_header f) \<noteq> 0"
    and "provider_signs pr" "0 < ap_tag_len pr" "ap_tag_len pr \<le> 32"
    and "k = xgl_frame_serialized_size (fr_payload_len f) (fr_extensions_len f) (ap_tag_len pr)" "k \<le> m" "m \<le> length b"
  obtains sign room tag where
    "xgl_frame_serialize_authenticated (Some b) m (Some f) key (Some pr) =
       Inr (frame_image (authenticated_header f) (exts_image (security_exts f key pr exts)) (frame_payload f @ tag) @ drop k b, k)"
    "frame_valid (frame_image (authenticated_header f) (exts_image (security_exts f key pr exts)) (frame_payload f @ tag))"
    "length (frame_image (authenticated_header f) (exts_image (security_exts f key pr exts)) (frame_payload f @ tag)) = k"
    "length tag = ap_tag_len pr" "ap_sign pr = Some sign"
    "sign key ((wire_header_image (authenticated_header f) @ exts_image (security_exts f key pr exts))[6 := 0, 22 := 0, 23 := 0])
       (frame_payload f) room = Inr tag"
proof -
  let ?h = "authenticated_header f" and ?t = "word_of_nat (ap_tag_len pr) :: u8"
  let ?x = "security_exts f key pr exts" and ?hl = "39 + fr_extensions_len f"
  have valid: "wire_header_fields_valid ?h" using assms by (simp add: authenticated_header_valid)
  have parts: "length (frame_ext f) = fr_extensions_len f" "length (frame_payload f) = fr_payload_len f" "fr_payload_len f \<le> 65535"
    using assms(1) by (simp_all add: frame_wf_def)
  have t: "unat ?t = ap_tag_len pr" using assms by simp
  then have t0: "?t \<noteq> 0" using assms(10) by (metis less_irrefl unsigned_0)
  have k: "k = ?hl + fr_payload_len f + ap_tag_len pr + 2"
    using assms by (simp add: xgl_frame_serialized_size_def xgl_frame_auth_overhead_def)
  have img: "authenticated_ext f key ?t = exts_image ?x"
    by (simp add: authenticated_ext_def assms(3) exts_image_def)
  define hd where "hd = wire_header_image ?h @ authenticated_ext f key ?t"
  have room: "ap_tag_len pr \<le> m - 2 - (?hl + fr_payload_len f)" using k assms(13) by simp
  obtain sign tag where s: "ap_sign pr = Some sign"
    "sign key (hd[6 := 0, 22 := 0, 23 := 0]) (frame_payload f) (m - 2 - (?hl + fr_payload_len f)) = Inr tag"
    "length tag = ap_tag_len pr"
    using provider_signsD [OF assms(9) room] by blast
  let ?F = "frame_image ?h (exts_image ?x) (frame_payload f @ tag)"
  have ser: "xgl_frame_serialize_authenticated (Some b) m (Some f) key (Some pr) = Inr (?F @ drop k b, k)"
    using xgl_frame_serialize_authenticated_image [OF assms(1,2) valid s(1) assms(10,11) refl k assms(13,14) hd_def s(2,3)]
    by (simp add: hd_def img frame_image_def)
  have ok: "frame_valid ?F"
  proof (rule frame_image_valid [OF valid, where tag = ?t])
    show "exts_ok ?x" using assms(4) by (simp add: exts_ok_def security_image_def)
    show "unat (wh_header_len ?h) = 24 + length (exts_image ?x)"
      using assms(1,2) unat_word_of_nat_byte [of ?hl]
      by (simp add: img [symmetric]) (simp add: authenticated_header_def frame_wire_header_def)
    have "unat (word_of_nat (fr_payload_len f) :: u16) = fr_payload_len f"
      using parts by (simp add: unsigned_of_nat take_bit_nat_eq_self)
    then show "length (frame_payload f @ tag) = unat (wh_payload_len ?h) + unat ?t"
      using parts s(3) t by (simp add: authenticated_header_def frame_wire_header_def)
    show "exts_fold parser_ext_body ?x 0 = Inr (XGL_ERR_NOT_FOUND, ?t)"
      using parser_ext_fold_plain [OF assms(5)] t0
        security_codec.dec_image [of "(key, ucast (wh_packet_number (fr_header f)), ?t)" "[]"]
      by (simp add: exts_fold_append parser_ext_body_def)
  qed (use t0 in simp)
  have len: "length ?F = k" using parts k s(3) assms(1) by (simp add: img [symmetric])
  show thesis by (rule that [OF ser ok len s(3,1) s(2) [unfolded hd_def img]])
qed

section \<open>Driving the parser\<close>

text \<open>
  How the data link drives the parser over a stream of timestamped bytes: a completed frame is taken
  from the cache and the parser is reset.
\<close>

fun drive_parser :: "xgl_parser \<Rightarrow> (u8 \<times> u32) list \<Rightarrow> bytes list \<times> xgl_parser" where
  "drive_parser p [] = ([], p)"
| "drive_parser p ((b, t) # es) =
     (case xgl_parser_feed_byte p b t of
        (XGL_PARSE_RESULT_COMPLETE, p') \<Rightarrow>
          (case xgl_parser_get_frame p' of
             Inr (c, n) \<Rightarrow> (case drive_parser (xgl_parser_reset p') es of (fs, q) \<Rightarrow> (take n c # fs, q))
           | Inl _ \<Rightarrow> drive_parser (xgl_parser_reset p') es)
      | (_, p') \<Rightarrow> drive_parser p' es)"

lemma collect_suffix:
  assumes "collect sz w b = (r, v)"
  shows "suffix v (w @ [b])"
proof -
  have "suffix [b] (w @ [b])" by (simp add: suffix_def)
  with assms show ?thesis
    by (auto simp: collect_def Let_def split: if_splits sum.splits option.splits)
qed

lemma suffix_snoc: "suffix w s \<Longrightarrow> suffix (w @ [b]) (s @ [b])"
  by (auto simp: suffix_def)

lemma drive_parser_frames:
  assumes "parser_tracks p w" "suffix w seen" "fr \<in> set (fst (drive_parser p es))"
  shows "frame_valid fr \<and> sublist fr (seen @ map fst es) \<and> length fr \<le> ps_cache_size p"
  using assms
proof (induction es arbitrary: p w seen)
  case (Cons e es)
  obtain b t where e: "e = (b, t)" by (cases e)
  obtain r p' where f: "xgl_parser_feed_byte p b t = (r, p')" by fastforce
  have sz: "ps_cache_size p' = ps_cache_size p" using xgl_parser_feed_byte_size [of p b t] by (simp add: f)
  have ref: "step_refines p w b (r, p')"
    using xgl_parser_feed_byte_refines [OF Cons.prems(1), of b t] by (simp add: f)
  then obtain v where v: "collect (ps_cache_size p) w b = (r, v)" by (auto simp: step_refines_def)
  have suf: "suffix v (seen @ [b])"
    using collect_suffix [OF v] suffix_snoc [OF Cons.prems(2)] by (rule suffix_order.trans)
  show ?case
  proof (cases "r = XGL_PARSE_RESULT_COMPLETE")
    case True
    then have c: "parser_bounds p'" "xgl_parser_get_frame p' = Inr (ps_cache p', length v)" "take (length v) (ps_cache p') = v"
      using ref v by (auto simp: step_refines_def)
    have "frame_valid v" using collect_complete v True by blast
    moreover have "sublist v (seen @ map fst (e # es))"
    proof -
      obtain zs where zs: "seen @ [b] = zs @ v" using suf by (auto simp: suffix_def)
      have "seen @ map fst (e # es) = (seen @ [b]) @ map fst es" by (simp add: e)
      then have "seen @ map fst (e # es) = zs @ v @ map fst es" by (simp only: zs append_assoc)
      then show ?thesis unfolding sublist_def by blast
    qed
    moreover have "length v \<le> ps_cache_size p"
      using c(1,2) sz by (auto simp: parser_bounds_def xgl_parser_get_frame_def split: if_splits)
    moreover have "frame_valid fr \<and> sublist fr ((seen @ [b]) @ map fst es) \<and> length fr \<le> ps_cache_size (xgl_parser_reset p')"
      if "fr \<in> set (fst (drive_parser (xgl_parser_reset p') es))"
      using that c(1) by (intro Cons.IH [OF parser_reset_tracks]) (simp_all)
    ultimately show ?thesis
      using Cons.prems(3) True c sz by (auto simp: e f case_prod_beta)
  next
    case False
    then have tr: "parser_tracks p' v" using ref v by (auto simp: step_refines_def)
    have "fr \<in> set (fst (drive_parser p' es))"
      using Cons.prems(3) False by (cases r) (simp_all add: e f)
    from Cons.IH [OF tr suf this] show ?thesis by (simp add: e sz)
  qed
qed simp

lemma drive_parser_valid_frame:
  assumes "parser_tracks p w" "frame_valid (w @ map fst es)" "es \<noteq> []" "length w + length es \<le> ps_cache_size p"
  shows "drive_parser p (es @ fs) =
    (case drive_parser (xgl_parser_reset (snd (parser.run p es))) fs of (frs, q) \<Rightarrow> ((w @ map fst es) # frs, q))
    \<and> parser_tracks (xgl_parser_reset (snd (parser.run p es))) []
    \<and> ps_cache_size (snd (parser.run p es)) = ps_cache_size p"
  using assms
proof (induction es arbitrary: p w)
  case (Cons e es)
  obtain b t where e: "e = (b, t)" by (cases e)
  obtain r p' where f: "xgl_parser_feed_byte p b t = (r, p')" by fastforce
  have sz: "ps_cache_size p' = ps_cache_size p" using xgl_parser_feed_byte_size [of p b t] by (simp add: f)
  have col: "collect (ps_cache_size p) w b =
      (if es = [] then XGL_PARSE_RESULT_COMPLETE else XGL_PARSE_RESULT_INCOMPLETE, w @ [b])"
    using collect_valid [of w b "map fst es" "ps_cache_size p"] Cons.prems by (simp add: e)
  have ref: "step_refines p w b (r, p')"
    using xgl_parser_feed_byte_refines [OF Cons.prems(1), of b t] by (simp add: f)
  show ?case
  proof (cases "es = []")
    case True
    then show ?thesis using ref col sz parser_reset_tracks [of p'] by (auto simp: e f step_refines_def)
  next
    case False
    then have r: "r = XGL_PARSE_RESULT_INCOMPLETE" "parser_tracks p' (w @ [b])"
      using ref col by (auto simp: step_refines_def)
    obtain rs s where run: "parser.run p' es = (rs, s)" by fastforce
    show ?thesis
      using Cons.IH [OF r(2)] Cons.prems False sz run by (simp add: e f r(1))
  qed
qed simp

lemma drive_parser_one_frame:
  assumes "parser_tracks p []" "frame_valid fr" "length ts = length fr" "length fr \<le> ps_cache_size p"
  shows "fst (drive_parser p (zip fr ts)) = [fr]"
proof -
  have "zip fr ts \<noteq> []" using assms(2,3) by (cases fr; cases ts) (auto simp: frame_valid_def)
  then show ?thesis
    using drive_parser_valid_frame [of p "[]" "zip fr ts" "[]"] assms by (simp add: case_prod_beta)
qed

lemma parser_init_tracks:
  "xgl_parser_init (Some c) n = Inr p \<Longrightarrow> n \<le> length c \<Longrightarrow> parser_tracks p [] \<and> ps_cache_size p = n"
  by (auto simp: xgl_parser_init_def parser_tracks_def parser_bounds_def split: if_splits)

section \<open>Properties\<close>

text \<open>A small frame and parser for the witnesses.\<close>

definition sample_parser :: xgl_parser where
  "sample_parser =
     \<lparr> ps_state = XGL_PARSE_MAGIC, ps_cache = replicate 64 0, ps_cache_size = 64, ps_cache_len = 0, ps_index = 0,
       ps_timestamp = 0, ps_expected_header_len = 0, ps_expected_payload_len = 0, ps_expected_auth_tag_len = 0 \<rparr>"

abbreviation sample_bytes :: bytes where
  "sample_bytes \<equiv> frame_image (serialized_header sample_frame) (exts_image [(8, [3])]) [1, 2, 3, 4]"

lemma sample_parser_init: "xgl_parser_init (Some (replicate 64 0)) 64 = Inr sample_parser"
  by (simp add: xgl_parser_init_def sample_parser_def)

lemma sample_exts: "exts_image [(8, [3])] = [8, 1, 3]" "exts_ok [(8, [3])]"
  by (simp_all add: exts_image_def exts_ok_def tlv_image_def)

lemma sample_frame_ok:
  "frame_wf sample_frame" "fr_extensions_len sample_frame = 3" "fr_payload_len sample_frame = 4"
  "frame_ext sample_frame = exts_image [(8, [3])]" "frame_payload sample_frame = [1, 2, 3, 4]"
  "wh_flags (fr_header sample_frame) AND XGL_WIRE_FLAG_AUTHENTICATED = 0"
  "wire_packet_type_valid (wh_packet_type (fr_header sample_frame))"
  "wh_source_id (fr_header sample_frame) \<noteq> 0" "wh_target_id (fr_header sample_frame) \<noteq> 0"
  by (simp_all add: sample_frame_def sample_header_def frame_wf_def part_ok_def part_of_def sample_exts wire_packet_type_valid_def)

lemma sample_bytes_valid: "frame_valid sample_bytes"
proof (rule frame_image_valid [where tag = 0])
  show "wire_header_fields_valid (serialized_header sample_frame)"
    using sample_frame_ok by (simp add: serialized_header_valid)
qed (simp_all add: sample_exts parser_ext_body_def, simp_all add: serialized_header_def frame_wire_header_def sample_frame_def sample_header_def)

text \<open>
  C15: memory safety. Whatever bytes arrive at whatever times, the parser started on a cache never
  stores outside it: the number of bytes collected stays within the cache size after every
  stream.
\<close>

theorem parser_never_leaves_cache:
  assumes "xgl_parser_init (Some cache) n = Inr p" "n \<le> length cache"
  shows "ps_cache_len (snd (parser.run p es)) \<le> n \<and> length (fst (parser.run p es)) = length es"
proof -
  have "parser_bounds p" "ps_cache_size p = n"
    using parser_init_tracks [OF assms] by (auto simp: parser_tracks_def)
  moreover have "ps_cache_size (snd (parser.run p es)) = ps_cache_size p" for p
  proof (induction es arbitrary: p)
    case (Cons e es)
    obtain b t r q rs s where "e = (b, t)" "xgl_parser_feed_byte p b t = (r, q)" "parser.run q es = (rs, s)"
      by (metis surj_pair)
    then show ?case
      using Cons [of q] xgl_parser_feed_byte_size [of p b t] by simp
  qed simp
  ultimately show ?thesis
    using parser.run_inv [of p es] by (auto simp: parser_bounds_def)
qed

theorem parser_never_leaves_cache_witness:
  "ps_cache_len (snd (parser.run sample_parser (replicate 100 (0xA5, 0)))) \<le> 64"
  by (rule parser_never_leaves_cache [OF sample_parser_init, THEN conjunct1]) simp

text \<open>
  C14: soundness. Every frame the data link takes from the parser, on any stream of bytes, is a valid
  frame (header accepted, extensions well formed, announced length equal to its length, CRC16
  correct) and is a contiguous part of the stream.
\<close>

theorem parser_delivers_only_valid_frames:
  assumes "xgl_parser_init (Some cache) n = Inr p" "n \<le> length cache"
    and "fr \<in> set (fst (drive_parser p es))"
  shows "frame_valid fr \<and> sublist fr (map fst es) \<and> length fr \<le> n"
  using drive_parser_frames [of p "[]" "[]" fr es] parser_init_tracks [OF assms(1,2)] assms(3) by simp

theorem parser_delivers_only_valid_frames_witness:
  "sample_bytes \<in> set (fst (drive_parser sample_parser (zip sample_bytes (replicate 33 7))))
   \<and> frame_valid sample_bytes \<and> length sample_bytes \<le> 64"
proof -
  have "parser_tracks sample_parser []" "ps_cache_size sample_parser = 64"
    using parser_init_tracks [OF sample_parser_init] by simp_all
  then have "sample_bytes \<in> set (fst (drive_parser sample_parser (zip sample_bytes (replicate 33 7))))"
    using drive_parser_one_frame [of sample_parser sample_bytes "replicate 33 7"] sample_bytes_valid
    by (simp add: sample_exts)
  with parser_delivers_only_valid_frames [OF sample_parser_init _ this] show ?thesis by simp
qed

text \<open>
  Completeness. A valid frame that fits in the cache, arriving at a parser between frames, is
  delivered exactly as sent, and the rest of the stream is parsed as if it came to a fresh
  parser.
\<close>

theorem parser_delivers_valid_frame:
  assumes "xgl_parser_init (Some cache) n = Inr p" "n \<le> length cache"
    and "frame_valid fr" "length fr \<le> n" "length ts = length fr"
  shows "\<exists>q. drive_parser p (zip fr ts @ rest) = (fr # fst (drive_parser q rest), snd (drive_parser q rest))
          \<and> parser_tracks q [] \<and> ps_cache_size q = n"
proof -
  have p: "parser_tracks p []" "ps_cache_size p = n" using parser_init_tracks [OF assms(1,2)] by simp_all
  have "fr \<noteq> []" using assms(3) by (auto simp: frame_valid_def)
  then have "zip fr ts \<noteq> []" using assms(5) by (cases fr; cases ts) simp_all
  then show ?thesis
    using drive_parser_valid_frame [OF p(1), of "zip fr ts" rest] assms p by (auto simp: case_prod_beta)
qed

theorem parser_delivers_valid_frame_witness:
  "\<exists>q. drive_parser sample_parser (zip sample_bytes (replicate 33 7) @ [(0xA5, 9)]) =
     (sample_bytes # fst (drive_parser q [(0xA5, 9)]), snd (drive_parser q [(0xA5, 9)]))
     \<and> parser_tracks q [] \<and> ps_cache_size q = 64"
  by (rule parser_delivers_valid_frame [OF sample_parser_init _ sample_bytes_valid]) (simp_all add: sample_exts)

text \<open>
  what the sender serializes the receiver delivers: a well-formed frame with valid addresses,
  packet type and extensions, serialized into a buffer, is a valid frame; fed byte by byte to a
  parser whose cache can hold it, it is delivered unchanged.
\<close>

theorem serialized_frame_is_parsed:
  assumes "frame_wf f" "fr_extensions_len f \<le> 231" "frame_ext f = exts_image exts" "exts_ok exts"
    and "list_all (\<lambda>(t, v). t \<noteq> XGL_WIRE_EXT_SECURITY) exts"
    and "wh_flags (fr_header f) AND XGL_WIRE_FLAG_AUTHENTICATED = 0"
    and "wire_packet_type_valid (wh_packet_type (fr_header f))"
      "wh_source_id (fr_header f) \<noteq> 0" "wh_target_id (fr_header f) \<noteq> 0"
    and "k = 26 + fr_extensions_len f + fr_payload_len f" "k \<le> m" "m \<le> length b"
    and "xgl_parser_init (Some cache) n = Inr p" "n \<le> length cache" "k \<le> n" "length ts = k"
  shows "\<exists>b'. xgl_frame_serialize (Some b) m (Some f) = Inr (b', k)
           \<and> fst (drive_parser p (zip (take k b') ts)) = [take k b']"
proof -
  let ?F = "frame_image (serialized_header f) (exts_image exts) (frame_payload f)"
  note ser = serialized_frame_image [OF assms(1-12)]
  have "fst (drive_parser p (zip ?F ts)) = [?F]"
    using parser_init_tracks [OF assms(13,14)] assms(15,16) ser by (intro drive_parser_one_frame) simp_all
  then show ?thesis using ser by simp
qed

theorem serialized_frame_is_parsed_witness:
  "\<exists>b'. xgl_frame_serialize (Some (replicate 40 0)) 40 (Some sample_frame) = Inr (b', 33)
           \<and> fst (drive_parser sample_parser (zip (take 33 b') (replicate 33 7))) = [take 33 b']"
  by (rule serialized_frame_is_parsed [OF sample_frame_ok(1) _ sample_frame_ok(4) sample_exts(2)
        _ sample_frame_ok(6-9) _ _ _ sample_parser_init]) (simp_all add: sample_frame_ok)

text \<open>
  authenticated frames too: what \<^verbatim>\<open>xgl_frame_serialize_authenticated\<close> writes with a provider that
  signs is delivered unchanged by the parser, which finds the tag length in the SECURITY
  extension.
\<close>

theorem authenticated_frame_is_parsed:
  assumes "frame_wf f" "fr_extensions_len f \<le> 216" "frame_ext f = exts_image exts" "exts_ok exts"
    and "list_all (\<lambda>(t, v). t \<noteq> XGL_WIRE_EXT_SECURITY) exts"
    and "wire_packet_type_valid (wh_packet_type (fr_header f))"
      "wh_source_id (fr_header f) \<noteq> 0" "wh_target_id (fr_header f) \<noteq> 0"
    and "provider_signs pr" "0 < ap_tag_len pr" "ap_tag_len pr \<le> 32"
    and "k = xgl_frame_serialized_size (fr_payload_len f) (fr_extensions_len f) (ap_tag_len pr)" "k \<le> m" "m \<le> length b"
    and "xgl_parser_init (Some cache) n = Inr p" "n \<le> length cache" "k \<le> n" "length ts = k"
  shows "\<exists>b'. xgl_frame_serialize_authenticated (Some b) m (Some f) key (Some pr) = Inr (b', k)
           \<and> fst (drive_parser p (zip (take k b') ts)) = [take k b']"
  using assms(1-14)
proof (rule authenticated_frame_image [where key = key])
  fix sign room tag
  let ?F = "frame_image (authenticated_header f) (exts_image (security_exts f key pr exts)) (frame_payload f @ tag)"
  assume ser: "xgl_frame_serialize_authenticated (Some b) m (Some f) key (Some pr) = Inr (?F @ drop k b, k)"
    and F: "frame_valid ?F" "length ?F = k"
  have "fst (drive_parser p (zip ?F ts)) = [?F]"
    using parser_init_tracks [OF assms(15,16)] assms(17,18) F by (intro drive_parser_one_frame) simp_all
  then show ?thesis using ser F(2) by simp
qed

theorem authenticated_frame_is_parsed_witness:
  "\<exists>b'. xgl_frame_serialize_authenticated (Some (replicate 60 0)) 60 (Some sample_frame) 5 (Some demo_provider) = Inr (b', 50)
           \<and> fst (drive_parser sample_parser (zip (take 50 b') (replicate 50 7))) = [take 50 b']"
  by (rule authenticated_frame_is_parsed [OF sample_frame_ok(1) _ sample_frame_ok(4) sample_exts(2)
        _ sample_frame_ok(7-9) demo_provider_signs _ _ _ _ _ sample_parser_init])
    (simp_all add: sample_frame_ok demo_provider_def xgl_frame_serialized_size_def xgl_frame_auth_overhead_def)

text \<open>
  C26: \<^verbatim>\<open>xgl_parser_get_frame\<close> says it checks that the frame is complete, but it tests only for the CRC
  state, which begins before the checksum has arrived. For every header and body, after all bytes
  but the two checksum bytes, it already returns the bytes collected, although they are not a
  valid frame.
\<close>

theorem parser_get_frame_before_crc:
  assumes "parser_tracks p w" "ps_state p = XGL_PARSE_CRC"
  shows "xgl_parser_get_frame p = Inr (ps_cache p, length w) \<and> \<not> frame_valid w"
proof -
  have hd: "header_done p w" "length w = parser_body_end p + ps_index p" "ps_index p \<le> 1"
    and len: "length w = ps_cache_len p"
    using assms parser_tracks_length [OF assms(1)] by (auto simp: parser_tracks_def)
  have "24 \<le> length w" using hd(1) by (auto simp: header_done_def dest: decoded_header_len)
  moreover have "\<not> frame_valid w"
    using hd by (auto simp: header_done_def frame_valid_def announced_len_def parser_body_end_def)
  ultimately show ?thesis using assms(2) len by (auto simp: xgl_parser_get_frame_def)
qed

theorem parser_get_frame_before_crc_witness:
  "\<exists>p h. parser_tracks p (wire_header_image h)
     \<and> xgl_parser_get_frame p = Inr (ps_cache p, length (wire_header_image h)) \<and> \<not> frame_valid (wire_header_image h)"
proof -
  let ?h = "sample_header \<lparr> wh_payload_len := 0 \<rparr>"
  let ?w = "wire_header_image ?h"
  let ?p = "sample_parser \<lparr> ps_state := XGL_PARSE_CRC, ps_cache := ?w @ replicate 40 0, ps_cache_len := 24,
    ps_expected_header_len := 24 \<rparr>"
  have "wire_header_fields_valid ?h"
    using sample_header_valid by (simp add: wire_header_fields_valid_def)
  then have "xgl_wire_decode_header (Some ?w) 24 =
      Inr (?h \<lparr> wh_header_crc16 := xgl_crc16_modbus (Some (wire_header_prefix ?h @ [0, 0])) 24 \<rparr>)"
    using wire_decode_image [of ?h 24 "[]"] by simp
  then have "header_done ?p ?w"
    by (simp add: header_done_def header_tag_def announced_len_def sample_parser_def sample_header_def)
  then have tr: "parser_tracks ?p ?w"
    by (simp add: parser_tracks_def parser_bounds_def parser_body_end_def sample_parser_def)
  have "ps_state ?p = XGL_PARSE_CRC" by simp
  from parser_get_frame_before_crc [OF tr this] tr show ?thesis by blast
qed

text \<open>
  Parser timeouts. While a frame is being received the timeout test fires exactly when at least
  \<open>timeout\<close> milliseconds have passed since its first byte, also when the 32-bit clock wrapped in
  between; an idle parser never times out.
\<close>

lemma parser_timeout_wraps:
  assumes "d < 2 ^ 32" "ps_timestamp p = word_of_nat t0"
  shows "xgl_parser_check_timeout p (word_of_nat (t0 + d)) timeout \<longleftrightarrow>
         ps_state p \<noteq> XGL_PARSE_MAGIC \<and> unat timeout \<le> d"
proof -
  have "(word_of_nat (t0 + d) :: u32) - word_of_nat t0 = word_of_nat d" by simp
  moreover have "unat (word_of_nat d :: u32) = d"
    using assms by (simp add: unsigned_of_nat take_bit_nat_eq_self)
  ultimately show ?thesis
    using assms(2) by (simp add: xgl_parser_check_timeout_def word_le_nat_alt)
qed

lemma parser_timeout_wraps_witness:
  "xgl_parser_check_timeout (sample_parser \<lparr> ps_state := XGL_PARSE_HEADER, ps_timestamp := word_of_nat 4294967290 \<rparr>)
     (word_of_nat (4294967290 + 1000)) 1000"
  by (subst parser_timeout_wraps) simp_all

end
