(* ===== verification/Xgl_Window.thy ===== *)
theory Xgl_Window
  imports Xgl_Prelude
begin

text \<open>
  The sender's sliding window, \<^verbatim>\<open>src/transport/xgl_window.c\<close>. The bitmap pointer may be NULL (before
  initialization and after destruction), so it is an option; whether the allocator can serve a
  request of a given size is a parameter of the initialization.
\<close>

section \<open>The code\<close>

record xgl_sliding_window =
  sw_window_size :: u8
  sw_send_base_packet_number :: u32
  sw_next_packet_number :: u32
  sw_ack_received :: "bool list option"

definition xgl_window_init_with_allocator ::
  "xgl_sliding_window option \<Rightarrow> u8 \<Rightarrow> (nat \<Rightarrow> bool) \<Rightarrow> xgl_error \<times> xgl_sliding_window option" where
  "xgl_window_init_with_allocator window window_size can_alloc =
     (case window of
        None \<Rightarrow> (XGL_ERR_NULL_POINTER, None)
      | Some w \<Rightarrow>
          if window_size = 0 \<or> window_size > 128 then (XGL_ERR_INVALID_PARAM, Some w)
          else if \<not> can_alloc (unat window_size)
          then (XGL_ERR_NO_MEMORY, Some (w \<lparr> sw_ack_received := None \<rparr>))
          else (XGL_OK, Some \<lparr> sw_window_size = window_size, sw_send_base_packet_number = 0,
                               sw_next_packet_number = 0,
                               sw_ack_received = Some (replicate (unat window_size) False) \<rparr>))"

definition xgl_window_destroy :: "xgl_sliding_window \<Rightarrow> xgl_sliding_window" where
  "xgl_window_destroy window = window \<lparr> sw_ack_received := None \<rparr>"

definition xgl_window_get_usage :: "xgl_sliding_window option \<Rightarrow> u8" where
  "xgl_window_get_usage window =
     (case window of
        None \<Rightarrow> 0
      | Some w \<Rightarrow>
          let usage = sw_next_packet_number w - sw_send_base_packet_number w
          in if usage > 255 then 255 else ucast usage)"

definition xgl_window_reset :: "xgl_sliding_window \<Rightarrow> xgl_sliding_window" where
  "xgl_window_reset window =
     (case sw_ack_received window of
        None \<Rightarrow> window
      | Some acks \<Rightarrow>
          window \<lparr> sw_ack_received := Some (mem_write acks 0 (replicate (unat (sw_window_size window)) False)),
                   sw_send_base_packet_number := 0, sw_next_packet_number := 0 \<rparr>)"

definition xgl_window_can_send_packet_number :: "xgl_sliding_window option \<Rightarrow> bool" where
  "xgl_window_can_send_packet_number window =
     (case window of
        None \<Rightarrow> False
      | Some w \<Rightarrow> sw_next_packet_number w - sw_send_base_packet_number w < ucast (sw_window_size w))"

definition xgl_window_can_send :: "xgl_sliding_window option \<Rightarrow> bool" where
  "xgl_window_can_send window = xgl_window_can_send_packet_number window"

definition xgl_window_get_next_packet_number :: "xgl_sliding_window option \<Rightarrow> u32" where
  "xgl_window_get_next_packet_number window =
     (case window of None \<Rightarrow> 0 | Some w \<Rightarrow> sw_next_packet_number w)"

definition xgl_window_advance_next_packet_number :: "xgl_sliding_window \<Rightarrow> xgl_sliding_window" where
  "xgl_window_advance_next_packet_number window =
     window \<lparr> sw_next_packet_number := sw_next_packet_number window + 1 \<rparr>"

definition xgl_window_is_in_window_packet_number :: "xgl_sliding_window \<Rightarrow> u32 \<Rightarrow> bool" where
  "xgl_window_is_in_window_packet_number window packet_number =
     (if packet_number < sw_send_base_packet_number window then False
      else packet_number - sw_send_base_packet_number window < ucast (sw_window_size window))"

definition xgl_window_mark_ack_packet_number ::
  "xgl_sliding_window \<Rightarrow> u32 \<Rightarrow> xgl_error \<times> xgl_sliding_window" where
  "xgl_window_mark_ack_packet_number window packet_number =
     (case sw_ack_received window of
        None \<Rightarrow> (XGL_ERR_NOT_INITIALIZED, window)
      | Some acks \<Rightarrow>
          if \<not> xgl_window_is_in_window_packet_number window packet_number
          then (XGL_ERR_SEQUENCE_ERROR, window)
          else
            let index = packet_number - sw_send_base_packet_number window
            in (XGL_OK, window \<lparr> sw_ack_received := Some (acks[unat index := True]) \<rparr>))"

text \<open>The inner loop of \<^verbatim>\<open>xgl_window_advance_base_packet_number\<close>: shift the bitmap down by one.\<close>

definition window_shift_acks :: "nat \<Rightarrow> bool list \<Rightarrow> bool list" where
  "window_shift_acks sz acks =
     (foldl (\<lambda>a i. a[i - 1 := a ! i]) acks [1..<sz])[sz - 1 := False]"

function window_advance_loop :: "nat \<Rightarrow> bool list \<Rightarrow> u32 \<Rightarrow> nat \<Rightarrow> bool list \<times> u32 \<times> nat" where
  "window_advance_loop sz acks base advanced =
     (if advanced < sz \<and> acks ! 0
      then window_advance_loop sz (window_shift_acks sz acks) (base + 1) (advanced + 1)
      else (acks, base, advanced))"
  by pat_completeness auto
termination
  by (relation "measure (\<lambda>(sz, acks, base, advanced). sz - advanced)") auto

definition xgl_window_advance_base_packet_number :: "xgl_sliding_window \<Rightarrow> u8 \<times> xgl_sliding_window" where
  "xgl_window_advance_base_packet_number window =
     (case sw_ack_received window of
        None \<Rightarrow> (0, window)
      | Some acks \<Rightarrow>
          (case window_advance_loop (unat (sw_window_size window)) acks
                  (sw_send_base_packet_number window) 0 of
             (acks, base, advanced) \<Rightarrow>
               (word_of_nat advanced,
                window \<lparr> sw_ack_received := Some acks, sw_send_base_packet_number := base \<rparr>)))"

definition xgl_window_advance_base :: "xgl_sliding_window \<Rightarrow> u8 \<times> xgl_sliding_window" where
  "xgl_window_advance_base window = xgl_window_advance_base_packet_number window"

section \<open>Invariant\<close>

definition window_inv :: "xgl_sliding_window \<Rightarrow> bool" where
  "window_inv w \<longleftrightarrow> 1 \<le> unat (sw_window_size w) \<and> unat (sw_window_size w) \<le> 128 \<and>
     (case sw_ack_received w of None \<Rightarrow> False | Some acks \<Rightarrow> length acks = unat (sw_window_size w))"

lemma window_invE:
  assumes "window_inv w"
  obtains acks where "sw_ack_received w = Some acks" "length acks = unat (sw_window_size w)"
    "1 \<le> unat (sw_window_size w)" "unat (sw_window_size w) \<le> 128"
  using assms by (auto simp: window_inv_def split: option.splits)

lemma window_init_inv:
  "xgl_window_init_with_allocator (Some w0) n can_alloc = (XGL_OK, Some w) \<Longrightarrow> window_inv w"
  by (auto simp: xgl_window_init_with_allocator_def window_inv_def word_le_nat_alt word_less_nat_alt
      unat_eq_0 [symmetric] split: if_splits)

section \<open>Advancing the base\<close>

lemma foldl_shift_down:
  "n \<le> length xs \<Longrightarrow> foldl (\<lambda>a i. a[i - 1 := a ! i]) xs [1..<n] =
     (if n \<le> 1 then xs else take (n - 1) (tl xs) @ drop (n - 1) xs)"
proof (induction n)
  case (Suc n)
  show ?case
  proof (cases "n \<le> 1")
    case True
    then consider "n = 0" | "n = 1" by linarith
    then show ?thesis
    proof cases
      case 2
      then obtain a b zs where "xs = a # b # zs"
        using Suc.prems by (cases xs; cases "tl xs") auto
      then show ?thesis using 2 by simp
    qed simp
  next
    case False
    let ?b = "take (n - 1) (tl xs) @ drop (n - 1) xs"
    have len: "length (take (n - 1) (tl xs)) = n - 1" using Suc.prems by simp
    have "?b ! n = xs ! n" using False Suc.prems len by (auto simp: nth_append)
    moreover have "drop (n - 1) xs = xs ! (n - 1) # drop n xs"
      using False Suc.prems Cons_nth_drop_Suc [of "n - 1" xs] by simp
    moreover have "take n (tl xs) = take (n - 1) (tl xs) @ [xs ! n]"
      using False Suc.prems take_Suc_conv_app_nth [of "n - 1" "tl xs"] by (simp add: nth_tl)
    ultimately have "?b[n - 1 := ?b ! n] = take n (tl xs) @ drop n xs"
      using len by (simp add: list_update_append)
    then show ?thesis using Suc False by simp
  qed
qed simp

lemma window_shift_acks_eq:
  assumes "length acks = sz" "1 \<le> sz"
  shows "window_shift_acks sz acks = tl acks @ [False]"
proof (cases "sz = 1")
  case True
  then show ?thesis using assms by (cases acks) (auto simp: window_shift_acks_def)
next
  case False
  then have "drop (sz - 1) acks = [acks ! (sz - 1)]"
    using assms Cons_nth_drop_Suc [of "sz - 1" acks] by simp
  with False show ?thesis
    using assms foldl_shift_down [of sz acks] by (simp add: window_shift_acks_def list_update_append)
qed

text \<open>The loop removes the leading acknowledged packets, and only them.\<close>

lemma window_advance_loop_eq:
  assumes "length acks = sz" "1 \<le> sz" "k = length (takeWhile (\<lambda>a. a) acks)" "advanced + k \<le> sz"
    and "drop (sz - advanced) acks = replicate advanced False"
  shows "window_advance_loop sz acks base advanced =
         (drop k acks @ replicate k False, base + word_of_nat k, advanced + k)"
  using assms
proof (induction k arbitrary: acks base advanced)
  case 0
  then have "\<not> acks ! 0" by (cases acks) (auto split: if_splits)
  then show ?case by (subst window_advance_loop.simps) simp
next
  case (Suc k)
  then obtain xs where acks: "acks = True # xs" by (cases acks) (auto split: if_splits)
  have tw: "takeWhile (\<lambda>a. a) (xs @ [False]) = takeWhile (\<lambda>a. a) xs" by (induction xs) simp_all
  have k: "k = length (takeWhile (\<lambda>a. a) (xs @ [False]))" using Suc.prems(3) acks tw by simp
  have "k \<le> length xs" using k tw length_takeWhile_le [of "\<lambda>a. a" xs] by simp
  moreover have "drop (sz - Suc advanced) (xs @ [False]) = replicate (Suc advanced) False"
    using Suc.prems acks by (cases "sz - advanced") (auto simp: replicate_append_same Suc_diff_le)
  then have "window_advance_loop sz (xs @ [False]) (base + 1) (Suc advanced) =
      (drop k (xs @ [False]) @ replicate k False, base + 1 + word_of_nat k, Suc advanced + k)"
    using Suc.prems acks k by (intro Suc.IH) simp_all
  ultimately show ?case
    using Suc.prems acks
    by (subst window_advance_loop.simps) (simp add: window_shift_acks_eq replicate_append_same)
qed

lemma xgl_window_advance_base_eq:
  assumes "window_inv w" "sw_ack_received w = Some acks" "k = length (takeWhile (\<lambda>a. a) acks)"
  shows "xgl_window_advance_base_packet_number w =
         (word_of_nat k,
          w \<lparr> sw_ack_received := Some (drop k acks @ replicate k False),
              sw_send_base_packet_number := sw_send_base_packet_number w + word_of_nat k \<rparr>)"
proof -
  have "length acks = unat (sw_window_size w)" "1 \<le> unat (sw_window_size w)"
    using assms by (auto elim: window_invE)
  then have "window_advance_loop (unat (sw_window_size w)) acks (sw_send_base_packet_number w) 0 =
      (drop k acks @ replicate k False, sw_send_base_packet_number w + word_of_nat k, 0 + k)"
    using assms(3) length_takeWhile_le [of "\<lambda>a. a" acks] by (intro window_advance_loop_eq) simp_all
  then show ?thesis
    using assms(2) by (simp add: xgl_window_advance_base_packet_number_def)
qed

section \<open>The acknowledged packets\<close>

text \<open>
  The abstract view: the set of acknowledged packets of the window, as distances from the base.
\<close>

definition window_acked :: "xgl_sliding_window \<Rightarrow> nat set" where
  "window_acked w = (case sw_ack_received w of None \<Rightarrow> {} | Some acks \<Rightarrow> {i. i < length acks \<and> acks ! i})"

lemma takeWhile_least:
  assumes "k = length (takeWhile (\<lambda>a. a) xs)"
  shows "(\<forall>i<k. xs ! i) \<and> (k < length xs \<longrightarrow> \<not> xs ! k)"
proof (intro conjI allI impI)
  fix i
  assume i: "i < k"
  then have "takeWhile (\<lambda>a. a) xs ! i \<in> set (takeWhile (\<lambda>a. a) xs)" using assms by simp
  then have "takeWhile (\<lambda>a. a) xs ! i" by (rule set_takeWhileD [THEN conjunct2])
  then show "xs ! i" using i assms by (simp add: takeWhile_nth)
qed (use assms nth_length_takeWhile [of "\<lambda>a. a" xs] in simp)

lemma ucast_less_nat: "(x :: u32) < ucast (s :: u8) \<longleftrightarrow> unat x < unat s"
  by (simp add: word_less_nat_alt unsigned_ucast_eq take_bit_nat_eq_self less_trans [OF unsigned_less])

text \<open>The operations as events of a machine, for the invariant over histories.\<close>

datatype window_op = Win_Send | Win_Mark u32 | Win_Advance | Win_Reset

fun window_step :: "xgl_sliding_window \<Rightarrow> window_op \<Rightarrow> xgl_error \<times> xgl_sliding_window" where
  "window_step w Win_Send =
     (if xgl_window_can_send_packet_number (Some w)
      then (XGL_OK, xgl_window_advance_next_packet_number w) else (XGL_ERR_WINDOW_FULL, w))"
| "window_step w (Win_Mark pn) = xgl_window_mark_ack_packet_number w pn"
| "window_step w Win_Advance = (XGL_OK, snd (xgl_window_advance_base_packet_number w))"
| "window_step w Win_Reset = (XGL_OK, xgl_window_reset w)"

lemma window_inv_keeps:
  assumes "window_inv w"
  shows "window_inv (xgl_window_advance_next_packet_number w)"
    "window_inv (snd (xgl_window_mark_ack_packet_number w pn))"
    "window_inv (snd (xgl_window_advance_base_packet_number w))"
    "window_inv (xgl_window_reset w)"
proof -
  obtain acks where a: "sw_ack_received w = Some acks" "length acks = unat (sw_window_size w)"
    "1 \<le> unat (sw_window_size w)" "unat (sw_window_size w) \<le> 128"
    using assms by (rule window_invE)
  show "window_inv (xgl_window_advance_next_packet_number w)"
    using a by (simp add: window_inv_def xgl_window_advance_next_packet_number_def)
  show "window_inv (snd (xgl_window_mark_ack_packet_number w pn))"
    using a by (simp add: window_inv_def xgl_window_mark_ack_packet_number_def Let_def)
  show "window_inv (snd (xgl_window_advance_base_packet_number w))"
    using a xgl_window_advance_base_eq [OF assms a(1) refl] length_takeWhile_le [of "\<lambda>a. a" acks]
    by (simp add: window_inv_def)
  show "window_inv (xgl_window_reset w)"
    using a by (simp add: window_inv_def xgl_window_reset_def)
qed

interpretation window: invariant_machine window_step window_inv
proof
  show "window_inv (snd (window_step w e))" if "window_inv w" for w e
    using that window_inv_keeps [OF that] by (cases e) simp_all
qed

section \<open>Properties\<close>

text \<open>
  The acknowledgement bitmap always has exactly as many entries as the window, between 1 and 128,
  whatever sequence of sends, acknowledgements, advances and resets the transport performs, so
  the bitmap index of \<^verbatim>\<open>xgl_window_mark_ack_packet_number\<close> never leaves it.
\<close>

theorem window_bitmap_invariant:
  assumes "xgl_window_init_with_allocator (Some w0) n can_alloc = (XGL_OK, Some w)"
  shows "window_inv (snd (window.run w ops))"
  by (rule window.run_inv) (rule window_init_inv [OF assms])

theorem window_bitmap_invariant_witness:
  "window_inv (snd (window.run \<lparr> sw_window_size = 4, sw_send_base_packet_number = 0, sw_next_packet_number = 0,
     sw_ack_received = Some (replicate 4 False) \<rparr> [Win_Send, Win_Send, Win_Mark 1, Win_Mark 0, Win_Advance]))"
  by (rule window_bitmap_invariant [of undefined 4 "\<lambda>_. True"])
    (simp add: xgl_window_init_with_allocator_def)

text \<open>
  C28: advancing the base removes exactly the longest acknowledged prefix: it moves the base by its
  length, reports that length, leaves the first packet of the window unacknowledged (unless the
  whole window was), and keeps the acknowledgement state of every later packet.
\<close>

theorem window_advance_base_exact:
  assumes "window_inv w" "xgl_window_advance_base_packet_number w = (k, w')"
  shows "(\<forall>i < unat k. i \<in> window_acked w)
       \<and> (unat k < unat (sw_window_size w) \<longrightarrow> unat k \<notin> window_acked w)
       \<and> sw_send_base_packet_number w' = sw_send_base_packet_number w + ucast k
       \<and> window_acked w' = {i. i + unat k \<in> window_acked w}"
proof -
  obtain acks where a: "sw_ack_received w = Some acks" "length acks = unat (sw_window_size w)"
    "1 \<le> unat (sw_window_size w)" "unat (sw_window_size w) \<le> 128"
    using assms(1) by (rule window_invE)
  define n where "n = length (takeWhile (\<lambda>a. a) acks)"
  have n: "n \<le> length acks" "n \<le> 128"
    using length_takeWhile_le [of "\<lambda>a. a" acks] a by (simp_all add: n_def)
  have k: "unat k = n" "(ucast k :: u32) = word_of_nat n"
    and w': "w' = w \<lparr> sw_ack_received := Some (drop n acks @ replicate n False),
              sw_send_base_packet_number := sw_send_base_packet_number w + word_of_nat n \<rparr>"
    using xgl_window_advance_base_eq [OF assms(1) a(1) n_def] assms(2) n
    by (auto simp: unsigned_of_nat take_bit_nat_eq_self)
  have "(drop n acks @ replicate n False) ! i \<longleftrightarrow> i + n < length acks \<and> acks ! (i + n)" if "i < length acks" for i
    using that n by (cases "i + n < length acks") (auto simp: nth_append add.commute)
  then have "window_acked w' = {i. i + n \<in> window_acked w}"
    using n a by (auto simp: window_acked_def w')
  then show ?thesis
    using takeWhile_least [OF n_def] k w' a n by (auto simp: window_acked_def)
qed

theorem window_advance_base_exact_witness:
  "\<exists>k w'. xgl_window_advance_base_packet_number
       \<lparr> sw_window_size = 3, sw_send_base_packet_number = 9, sw_next_packet_number = 12,
         sw_ack_received = Some [True, False, True] \<rparr> = (k, w')
     \<and> sw_send_base_packet_number w' = 9 + ucast k \<and> window_acked w' = {i. i + unat k \<in> {0, 2}}"
proof -
  let ?w = "\<lparr> sw_window_size = 3, sw_send_base_packet_number = 9, sw_next_packet_number = 12,
         sw_ack_received = Some [True, False, True] \<rparr> :: xgl_sliding_window"
  have inv: "window_inv ?w" by (simp add: window_inv_def)
  obtain k w' where s: "xgl_window_advance_base_packet_number ?w = (k, w')" by fastforce
  have "window_acked ?w = {0, 2}"
    by (auto simp: window_acked_def less_Suc_eq numeral_3_eq_3 numeral_2_eq_2)
  with window_advance_base_exact [OF inv s] s show ?thesis by auto
qed

text \<open>
  An acknowledgement is accepted only for a packet inside the window, marks exactly that packet and
  changes nothing else; otherwise the window is unchanged and the error is a sequence error.
\<close>

lemma window_mark_ack_exact:
  assumes "window_inv w"
  shows "if xgl_window_is_in_window_packet_number w pn
         then fst (xgl_window_mark_ack_packet_number w pn) = XGL_OK
            \<and> unat (pn - sw_send_base_packet_number w) < unat (sw_window_size w)
            \<and> window_acked (snd (xgl_window_mark_ack_packet_number w pn)) =
                insert (unat (pn - sw_send_base_packet_number w)) (window_acked w)
         else xgl_window_mark_ack_packet_number w pn = (XGL_ERR_SEQUENCE_ERROR, w)"
proof -
  obtain acks where a: "sw_ack_received w = Some acks" "length acks = unat (sw_window_size w)"
    using assms by (rule window_invE)
  then show ?thesis
    by (auto simp: xgl_window_mark_ack_packet_number_def xgl_window_is_in_window_packet_number_def
        Let_def ucast_less_nat window_acked_def nth_list_update split: if_splits)
qed

lemma window_mark_ack_exact_witness:
  "fst (xgl_window_mark_ack_packet_number \<lparr> sw_window_size = 3, sw_send_base_packet_number = 9,
     sw_next_packet_number = 12, sw_ack_received = Some [False, False, False] \<rparr> 10) = XGL_OK"
  using window_mark_ack_exact [of "\<lparr> sw_window_size = 3, sw_send_base_packet_number = 9,
     sw_next_packet_number = 12, sw_ack_received = Some [False, False, False] \<rparr>" 10]
  by (simp add: window_inv_def xgl_window_is_in_window_packet_number_def)

text \<open>
  C29: the window test compares the packet number with the base before subtracting, so it is not aware
  of the wrap of the 32-bit packet numbers, although the send test and the usage count are: of the
  packets in flight, exactly those beyond the wrap are refused.
\<close>

theorem window_refuses_acks_across_wrap:
  assumes "d < unat (sw_window_size w)"
  shows "xgl_window_is_in_window_packet_number w (sw_send_base_packet_number w + word_of_nat d) \<longleftrightarrow>
         unat (sw_send_base_packet_number w) + d < 2 ^ 32"
proof -
  let ?b = "sw_send_base_packet_number w"
  have d: "d < 256" using assms unat_u8_less [of "sw_window_size w"] by simp
  then have ud: "unat (word_of_nat d :: u32) = d" by (simp add: unsigned_of_nat take_bit_nat_eq_self)
  have "?b \<le> ?b + word_of_nat d \<longleftrightarrow> unat ?b + d < 2 ^ 32"
    using ud unat_u32_less [of ?b] d
    by (auto simp: word_le_nat_alt unat_word_ariths mod_if)
  then show ?thesis
    using assms ud by (auto simp: xgl_window_is_in_window_packet_number_def ucast_less_nat not_less)
qed

theorem window_refuses_acks_across_wrap_witness:
  "\<not> xgl_window_is_in_window_packet_number
     \<lparr> sw_window_size = 4, sw_send_base_packet_number = 0xFFFFFFFE, sw_next_packet_number = 1,
       sw_ack_received = Some (replicate 4 False) \<rparr> (0xFFFFFFFE + word_of_nat 2)
   \<and> xgl_window_get_usage (Some \<lparr> sw_window_size = 4, sw_send_base_packet_number = 0xFFFFFFFE,
       sw_next_packet_number = 1, sw_ack_received = Some (replicate 4 False) \<rparr>) = 3"
  using window_refuses_acks_across_wrap [of 2 "\<lparr> sw_window_size = 4, sw_send_base_packet_number = 0xFFFFFFFE,
     sw_next_packet_number = 1, sw_ack_received = Some (replicate 4 False) \<rparr>"]
  by (simp add: xgl_window_get_usage_def)

end
