(* ===== verification/Xgl_Rtt.thy ===== *)
theory Xgl_Rtt
  imports Xgl_Prelude
begin

text \<open>
  The round-trip estimator, \<^verbatim>\<open>src/transport/xgl_rtt.c\<close>. Its fields are 32-bit signed integers; they are
  modelled as unbounded integers, with the arithmetic shift \<^verbatim>\<open>>>\<close> as division rounding down, and
  a property gives the range of measurements for which no intermediate value leaves 32 bits.
\<close>

section \<open>The code\<close>

abbreviation (input) "XGL_MIN_RTO_MS \<equiv> (100 :: int)"
abbreviation (input) "XGL_MAX_RTO_MS \<equiv> (5000 :: int)"
abbreviation (input) "XGL_DEFAULT_RTO_MS \<equiv> (1000 :: int)"
abbreviation (input) "XGL_RTT_ALPHA_SHIFT \<equiv> (3 :: nat)"
abbreviation (input) "XGL_RTT_BETA_SHIFT \<equiv> (2 :: nat)"
abbreviation (input) "XGL_RTO_K_FACTOR \<equiv> (4 :: int)"

record xgl_rtt_estimator =
  rtt_srtt :: int
  rtt_rttvar :: int
  rtt_rto :: int
  rtt_initialized :: bool

definition abs_int32 :: "int \<Rightarrow> int" where
  "abs_int32 v = (if v < 0 then - v else v)"

definition clamp_int32 :: "int \<Rightarrow> int \<Rightarrow> int \<Rightarrow> int" where
  "clamp_int32 v mn mx = (if v < mn then mn else if v > mx then mx else v)"

definition xgl_rtt_init :: xgl_rtt_estimator where
  "xgl_rtt_init = \<lparr> rtt_srtt = 0, rtt_rttvar = 0, rtt_rto = XGL_DEFAULT_RTO_MS, rtt_initialized = False \<rparr>"

definition xgl_rtt_update :: "xgl_rtt_estimator \<Rightarrow> int \<Rightarrow> xgl_rtt_estimator" where
  "xgl_rtt_update est measured_rtt0 =
     (let measured_rtt = (if measured_rtt0 < 0 then 0 else measured_rtt0);
          (srtt, rttvar) =
            (if \<not> rtt_initialized est then (measured_rtt, measured_rtt div 2 ^ 1)
             else
               let err = measured_rtt - rtt_srtt est;
                   srtt = rtt_srtt est + err div 2 ^ XGL_RTT_ALPHA_SHIFT;
                   abs_error = abs_int32 err;
                   rttvar_delta = abs_error - rtt_rttvar est
               in (srtt, rtt_rttvar est + rttvar_delta div 2 ^ XGL_RTT_BETA_SHIFT));
          rto = srtt + XGL_RTO_K_FACTOR * rttvar
      in \<lparr> rtt_srtt = srtt, rtt_rttvar = rttvar,
           rtt_rto = clamp_int32 rto XGL_MIN_RTO_MS XGL_MAX_RTO_MS, rtt_initialized = True \<rparr>)"

definition xgl_rtt_get_rto :: "xgl_rtt_estimator option \<Rightarrow> int" where
  "xgl_rtt_get_rto est = (case est of None \<Rightarrow> XGL_DEFAULT_RTO_MS | Some e \<Rightarrow> rtt_rto e)"

definition xgl_rtt_get_srtt :: "xgl_rtt_estimator option \<Rightarrow> int" where
  "xgl_rtt_get_srtt est = (case est of None \<Rightarrow> 0 | Some e \<Rightarrow> if \<not> rtt_initialized e then 0 else rtt_srtt e)"

definition xgl_rtt_get_rttvar :: "xgl_rtt_estimator option \<Rightarrow> int" where
  "xgl_rtt_get_rttvar est = (case est of None \<Rightarrow> 0 | Some e \<Rightarrow> if \<not> rtt_initialized e then 0 else rtt_rttvar e)"

definition xgl_rtt_reset :: xgl_rtt_estimator where
  "xgl_rtt_reset = xgl_rtt_init"

definition xgl_rtt_is_initialized :: "xgl_rtt_estimator option \<Rightarrow> bool" where
  "xgl_rtt_is_initialized est = (case est of None \<Rightarrow> False | Some e \<Rightarrow> rtt_initialized e)"

section \<open>Invariant\<close>

text \<open>
  All measurements so far lie between \<open>lo\<close> and \<open>hi\<close>: the smoothed time lies between them too, the
  variation between 0 and \<open>hi\<close>, and the timeout within its limits.
\<close>

definition rtt_inv :: "int \<Rightarrow> int \<Rightarrow> xgl_rtt_estimator \<Rightarrow> bool" where
  "rtt_inv lo hi e \<longleftrightarrow>
     XGL_MIN_RTO_MS \<le> rtt_rto e \<and> rtt_rto e \<le> XGL_MAX_RTO_MS
     \<and> (rtt_initialized e \<longrightarrow> lo \<le> rtt_srtt e \<and> rtt_srtt e \<le> hi \<and> 0 \<le> rtt_rttvar e \<and> rtt_rttvar e \<le> hi)"

lemma div_shift_between:
  fixes x y :: int
  assumes "0 < k"
  shows "min x y \<le> x + (y - x) div k" "x + (y - x) div k \<le> max x y"
proof -
  show "min x y \<le> x + (y - x) div k"
  proof (cases "x \<le> y")
    case True
    then have "0 \<le> (y - x) div k" using assms by (simp add: pos_imp_zdiv_nonneg_iff)
    then show ?thesis using True by simp
  next
    case False
    have "(y - x) div 1 \<le> (y - x) div k"
      using False assms by (intro zdiv_mono2_neg) auto
    then show ?thesis using False by simp
  qed
  show "x + (y - x) div k \<le> max x y"
  proof (cases "x \<le> y")
    case True
    have "(y - x) div k \<le> (y - x) div 1"
      using True assms by (intro zdiv_mono2) auto
    then show ?thesis using True by simp
  next
    case False
    then have "(y - x) div k \<le> 0" using assms by (simp add: div_neg_pos_less0 less_imp_le)
    then show ?thesis using False by simp
  qed
qed

lemma rtt_update_inv:
  assumes "rtt_inv lo hi e" "0 \<le> lo" "lo \<le> r" "r \<le> hi"
  shows "rtt_inv lo hi (xgl_rtt_update e r)"
proof (cases "rtt_initialized e")
  case False
  then show ?thesis
    using assms by (auto simp: rtt_inv_def xgl_rtt_update_def Let_def clamp_int32_def)
next
  case True
  have i: "lo \<le> rtt_srtt e" "rtt_srtt e \<le> hi" "0 \<le> rtt_rttvar e" "rtt_rttvar e \<le> hi"
    using assms(1) True by (simp_all add: rtt_inv_def)
  have a: "0 \<le> abs_int32 (r - rtt_srtt e)" "abs_int32 (r - rtt_srtt e) \<le> hi"
    using i assms by (auto simp: abs_int32_def)
  show ?thesis
    using True i a assms div_shift_between [of 8 "rtt_srtt e" r]
      div_shift_between [of 4 "rtt_rttvar e" "abs_int32 (r - rtt_srtt e)"]
    by (auto simp: rtt_inv_def xgl_rtt_update_def Let_def clamp_int32_def)
qed

section \<open>Properties\<close>



text \<open>
  No 32-bit overflow: if every measurement is at most 429496729 milliseconds (about five days), every
  value \<^verbatim>\<open>xgl_rtt_update\<close> computes, the error, the differences, four times the variation and the
  unclamped timeout included, fits in a signed 32-bit integer.
\<close>

lemma rtt_update_no_overflow:
  assumes "rtt_inv 0 hi e" "0 \<le> r" "r \<le> hi" "hi \<le> 429496729"
  defines "e' \<equiv> xgl_rtt_update e r"
  shows "rtt_inv 0 hi e'
       \<and> \<bar>r - rtt_srtt e\<bar> * of_bool (rtt_initialized e) < 2 ^ 31
       \<and> \<bar>abs_int32 (r - rtt_srtt e) - rtt_rttvar e\<bar> * of_bool (rtt_initialized e) < 2 ^ 31
       \<and> 0 \<le> XGL_RTO_K_FACTOR * rtt_rttvar e' \<and> XGL_RTO_K_FACTOR * rtt_rttvar e' < 2 ^ 31
       \<and> rtt_srtt e' + XGL_RTO_K_FACTOR * rtt_rttvar e' < 2 ^ 31"
proof -
  have inv: "rtt_inv 0 hi e'" unfolding e'_def using assms by (intro rtt_update_inv) simp_all
  have "rtt_initialized e'" by (simp add: e'_def xgl_rtt_update_def Let_def split: prod.split)
  with inv have b: "0 \<le> rtt_srtt e'" "rtt_srtt e' \<le> hi" "0 \<le> rtt_rttvar e'" "rtt_rttvar e' \<le> hi"
    by (simp_all add: rtt_inv_def)
  have "rtt_initialized e \<Longrightarrow> \<bar>r - rtt_srtt e\<bar> < 2 ^ 31 \<and> \<bar>abs_int32 (r - rtt_srtt e) - rtt_rttvar e\<bar> < 2 ^ 31"
    using assms(1-4) by (auto simp: rtt_inv_def abs_int32_def)
  with inv b assms(4) show ?thesis by (cases "rtt_initialized e") auto
qed

lemma rtt_update_no_overflow_witness:
  "rtt_srtt (xgl_rtt_update xgl_rtt_init 429496729) + 4 * rtt_rttvar (xgl_rtt_update xgl_rtt_init 429496729) < 2 ^ 31"
  using rtt_update_no_overflow [of 429496729 xgl_rtt_init 429496729]
  by (simp add: rtt_inv_def xgl_rtt_init_def)

end
