(* ===== verification/Xgl_Security.thy ===== *)
theory Xgl_Security
  imports Xgl_Prelude
begin

text \<open>
  The replay window, \<^verbatim>\<open>src/security/xgl_security.c\<close>: a 64-bit bitmap of the packet numbers received
  below the largest one. The theorems relate it to the plain set of the numbers accepted so far.
\<close>

section \<open>The code\<close>

record xgl_replay_window =
  rw_source_id :: u16
  rw_connection_id :: u32
  rw_session_epoch :: u32
  rw_largest_packet_number :: u32
  rw_received_bitmap :: u64
  rw_window_size :: u8
  rw_has_largest :: bool

datatype xgl_replay_result = XGL_REPLAY_REJECT | XGL_REPLAY_ACCEPT_NEW | XGL_REPLAY_ACCEPT_DUPLICATE

definition xgl_replay_window_init ::
  "u16 \<Rightarrow> u32 \<Rightarrow> u32 \<Rightarrow> u8 \<Rightarrow> xgl_error + xgl_replay_window" where
  "xgl_replay_window_init source_id connection_id session_epoch window_size =
     (if source_id = 0 \<or> window_size = 0 \<or> window_size > 64 then Inl XGL_ERR_INVALID_PARAM
      else Inr \<lparr> rw_source_id = source_id, rw_connection_id = connection_id,
                 rw_session_epoch = session_epoch, rw_largest_packet_number = 0,
                 rw_received_bitmap = 0, rw_window_size = window_size, rw_has_largest = False \<rparr>)"

definition xgl_replay_window_check ::
  "xgl_replay_window \<Rightarrow> u16 \<Rightarrow> u32 \<Rightarrow> u32 \<Rightarrow> u32 \<Rightarrow> xgl_replay_result \<times> xgl_replay_window" where
  "xgl_replay_window_check window source_id connection_id session_epoch packet_number =
     (if source_id \<noteq> rw_source_id window \<or> connection_id \<noteq> rw_connection_id window
         \<or> session_epoch \<noteq> rw_session_epoch window
      then (XGL_REPLAY_REJECT, window)
      else if \<not> rw_has_largest window
      then (XGL_REPLAY_ACCEPT_NEW,
            window \<lparr> rw_largest_packet_number := packet_number, rw_received_bitmap := 1,
                     rw_has_largest := True \<rparr>)
      else if packet_number > rw_largest_packet_number window
      then
        let diff = packet_number - rw_largest_packet_number window;
            bitmap = (if diff \<ge> 64 then 1
                      else push_bit (unat diff) (rw_received_bitmap window) OR 1)
        in (XGL_REPLAY_ACCEPT_NEW,
            window \<lparr> rw_received_bitmap := bitmap, rw_largest_packet_number := packet_number \<rparr>)
      else
        let offset = rw_largest_packet_number window - packet_number
        in if offset \<ge> ucast (rw_window_size window) \<or> offset \<ge> 64 then (XGL_REPLAY_REJECT, window)
           else
             let b = push_bit (unat offset) (1 :: u64)
             in if rw_received_bitmap window AND b \<noteq> 0 then (XGL_REPLAY_ACCEPT_DUPLICATE, window)
                else (XGL_REPLAY_ACCEPT_NEW,
                      window \<lparr> rw_received_bitmap := rw_received_bitmap window OR b \<rparr>))"

definition xgl_replay_window_accept ::
  "xgl_replay_window \<Rightarrow> u16 \<Rightarrow> u32 \<Rightarrow> u32 \<Rightarrow> u32 \<Rightarrow> bool \<times> xgl_replay_window" where
  "xgl_replay_window_accept window source_id connection_id session_epoch packet_number =
     (case xgl_replay_window_check window source_id connection_id session_epoch packet_number of
        (r, w) \<Rightarrow> (r = XGL_REPLAY_ACCEPT_NEW, w))"

section \<open>The set of accepted numbers\<close>

text \<open>
  The specification: for the window's own context, a number is new unless it was seen, and is
  refused when it lies too far below the largest one.
\<close>

definition replay_spec :: "nat \<Rightarrow> nat set \<Rightarrow> nat \<Rightarrow> xgl_replay_result" where
  "replay_spec sz S n =
     (if S \<noteq> {} \<and> n + sz \<le> Max S then XGL_REPLAY_REJECT
      else if n \<in> S then XGL_REPLAY_ACCEPT_DUPLICATE else XGL_REPLAY_ACCEPT_NEW)"

definition replay_represents :: "xgl_replay_window \<Rightarrow> nat set \<Rightarrow> bool" where
  "replay_represents w S \<longleftrightarrow>
     finite S \<and> 1 \<le> unat (rw_window_size w) \<and> unat (rw_window_size w) \<le> 64
     \<and> (rw_has_largest w \<longleftrightarrow> S \<noteq> {})
     \<and> (rw_has_largest w \<longrightarrow> Max S = unat (rw_largest_packet_number w)
          \<and> (\<forall>i<64. bit (rw_received_bitmap w) i \<longleftrightarrow> i \<le> Max S \<and> Max S - i \<in> S))"

lemma replay_init_represents:
  "xgl_replay_window_init s c e n = Inr w \<Longrightarrow> replay_represents w {}"
  by (auto simp: xgl_replay_window_init_def replay_represents_def word_le_nat_alt word_less_nat_alt
      unat_eq_0 [symmetric] split: if_splits)

lemma and_push_bit_1: "(x :: u64) AND push_bit n 1 \<noteq> 0 \<longleftrightarrow> bit x n"
  by (metis bit_iff_and_push_bit_not_eq_0)

lemma and_exp_1: "(x :: u64) AND 2 ^ n = 0 \<longleftrightarrow> \<not> bit x n"
  using and_push_bit_1 [of x n] by simp blast

lemma unat_minus_le: "y \<le> (x :: u32) \<Longrightarrow> unat (x - y) = unat x - unat y"
  by (simp add: word_le_nat_alt unat_sub_if')

lemma unat_ucast_u8 [simp]: "unat (ucast (s :: u8) :: u32) = unat s"
  by (simp add: unsigned_ucast_eq take_bit_nat_eq_self less_trans [OF unsigned_less])

text \<open>The three branches that accept a number or look it up.\<close>

lemma replay_newer_represents:
  assumes rep: "replay_represents w S" and has: "rw_has_largest w"
    and gt: "rw_largest_packet_number w < pn"
    and bm: "bm = (if pn - rw_largest_packet_number w \<ge> 64 then 1
                  else push_bit (unat (pn - rw_largest_packet_number w)) (rw_received_bitmap w) OR 1)"
  shows "replay_represents (w \<lparr> rw_received_bitmap := bm, rw_largest_packet_number := pn \<rparr>) (insert (unat pn) S)"
proof -
  have S: "finite S" "S \<noteq> {}" "Max S = unat (rw_largest_packet_number w)"
    and bits: "\<And>i. i < 64 \<Longrightarrow> bit (rw_received_bitmap w) i \<longleftrightarrow> i \<le> Max S \<and> Max S - i \<in> S"
    using rep has by (auto simp: replay_represents_def)
  have lt: "Max S < unat pn" using gt S by (simp add: word_less_nat_alt)
  have max: "Max (insert (unat pn) S) = unat pn" using S lt by simp
  define d where "d = unat pn - Max S"
  have d: "unat (pn - rw_largest_packet_number w) = d" "0 < d"
    using gt S lt by (simp_all add: unat_minus_le less_imp_le d_def)
  have out: "x \<notin> S" if "Max S < x" for x using that S(1) Max_ge leD by blast
  have "bit bm i \<longleftrightarrow> i \<le> unat pn \<and> unat pn - i \<in> insert (unat pn) S" if i: "i < 64" for i
  proof (cases "i = 0")
    case True
    then show ?thesis using bm by (simp add: bit_1_iff bit_or_iff)
  next
    case False
    have eq: "unat pn - i = Max S - (i - d)" if "d \<le> i" using that lt by (simp add: d_def)
    have "unat pn - i \<in> S \<longleftrightarrow> d \<le> i \<and> Max S - (i - d) \<in> S"
    proof (cases "d \<le> i")
      case False
      then have "Max S < unat pn - i" by (simp add: d_def)
      then show ?thesis using out False by simp
    qed (simp add: eq)
    moreover have "bit bm i \<longleftrightarrow> d \<le> i \<and> bit (rw_received_bitmap w) (i - d)"
      using False i d by (auto simp: bm bit_simps word_le_nat_alt)
    ultimately show ?thesis
      using False bits [of "i - d"] i lt by (auto simp: d_def)
  qed
  then show ?thesis using rep has S max by (auto simp: replay_represents_def)
qed

lemma replay_older_represents:
  assumes rep: "replay_represents w S" and has: "rw_has_largest w"
    and le: "pn \<le> rw_largest_packet_number w"
    and off: "k = unat (rw_largest_packet_number w - pn)" "k < 64"
  shows "bit (rw_received_bitmap w) k \<longleftrightarrow> unat pn \<in> S"
    and "replay_represents (w \<lparr> rw_received_bitmap := rw_received_bitmap w OR push_bit k 1 \<rparr>) (insert (unat pn) S)"
proof -
  have S: "finite S" "S \<noteq> {}" "Max S = unat (rw_largest_packet_number w)"
    and bits: "\<And>i. i < 64 \<Longrightarrow> bit (rw_received_bitmap w) i \<longleftrightarrow> i \<le> Max S \<and> Max S - i \<in> S"
    using rep has by (auto simp: replay_represents_def)
  have k: "k = Max S - unat pn" "unat pn \<le> Max S"
    using le off S by (simp_all add: unat_minus_le word_le_nat_alt)
  show "bit (rw_received_bitmap w) k \<longleftrightarrow> unat pn \<in> S" using bits [OF off(2)] k by simp
  have max: "Max (insert (unat pn) S) = Max S" using S k by simp
  have "bit (rw_received_bitmap w OR push_bit k 1) i \<longleftrightarrow> i \<le> Max S \<and> Max S - i \<in> insert (unat pn) S"
    if "i < 64" for i
    using bits [OF that] k that by (auto simp: bit_simps)
  then show "replay_represents (w \<lparr> rw_received_bitmap := rw_received_bitmap w OR push_bit k 1 \<rparr>) (insert (unat pn) S)"
    using rep has S max by (auto simp: replay_represents_def)
qed

text \<open>The refinement step: the bitmap answers as the set does, and then represents the new set.\<close>

definition replay_next :: "nat \<Rightarrow> nat set \<Rightarrow> nat \<Rightarrow> nat set" where
  "replay_next sz S n = (if replay_spec sz S n = XGL_REPLAY_ACCEPT_NEW then insert n S else S)"

lemma replay_check_refines:
  assumes rep: "replay_represents w S"
    and ctx: "src = rw_source_id w" "conn = rw_connection_id w" "epoch = rw_session_epoch w"
  shows "fst (xgl_replay_window_check w src conn epoch pn) = replay_spec (unat (rw_window_size w)) S (unat pn)"
    and "replay_represents (snd (xgl_replay_window_check w src conn epoch pn))
           (replay_next (unat (rw_window_size w)) S (unat pn))"
proof -
  let ?sz = "unat (rw_window_size w)" and ?l = "rw_largest_packet_number w"
  have sz: "1 \<le> ?sz" "?sz \<le> 64" "finite S" using rep by (simp_all add: replay_represents_def)
  have goal: "fst (xgl_replay_window_check w src conn epoch pn) = replay_spec ?sz S (unat pn)
    \<and> replay_represents (snd (xgl_replay_window_check w src conn epoch pn)) (replay_next ?sz S (unat pn))"
  proof (cases "rw_has_largest w")
    case False
    then have "S = {}" using rep by (simp add: replay_represents_def)
    then show ?thesis
      using False ctx sz
      by (auto simp: xgl_replay_window_check_def replay_spec_def replay_next_def replay_represents_def bit_1_iff)
  next
    case has: True
    then have S: "S \<noteq> {}" "Max S = unat ?l" using rep by (auto simp: replay_represents_def)
    show ?thesis
    proof (cases "?l < pn")
      case True
      then have "Max S < unat pn" using S by (simp add: word_less_nat_alt)
      moreover from this have "unat pn \<notin> S" using sz(3) Max_ge leD by blast
      ultimately have "replay_spec ?sz S (unat pn) = XGL_REPLAY_ACCEPT_NEW" by (simp add: replay_spec_def)
      then show ?thesis
        using has True ctx replay_newer_represents [OF rep has True refl]
        by (simp add: xgl_replay_window_check_def replay_next_def Let_def)
    next
      case notgt: False
      then have le: "pn \<le> ?l" by simp
      define k where "k = unat (?l - pn)"
      have k: "k = Max S - unat pn" "unat pn \<le> Max S" using le S by (simp_all add: k_def unat_minus_le word_le_nat_alt)
      have far: "(?l - pn \<ge> ucast (rw_window_size w) \<or> ?l - pn \<ge> 64) \<longleftrightarrow> ?sz \<le> k"
        using sz by (auto simp: word_le_nat_alt k_def)
      show ?thesis
      proof (cases "?sz \<le> k")
        case True
        then have "replay_spec ?sz S (unat pn) = XGL_REPLAY_REJECT" using S(1) k by (simp add: replay_spec_def)
        then show ?thesis
          using has notgt ctx far True rep by (simp add: xgl_replay_window_check_def replay_next_def)
      next
        case near: False
        then have "k < 64" using sz by simp
        note old = replay_older_represents [OF rep has le k_def this]
        have "replay_spec ?sz S (unat pn) =
            (if unat pn \<in> S then XGL_REPLAY_ACCEPT_DUPLICATE else XGL_REPLAY_ACCEPT_NEW)"
          using near k by (auto simp: replay_spec_def)
        then show ?thesis
          using has notgt ctx far near old rep
          by (simp add: xgl_replay_window_check_def replay_next_def Let_def and_exp_1 flip: k_def)
      qed
    qed
  qed
  show "fst (xgl_replay_window_check w src conn epoch pn) = replay_spec ?sz S (unat pn)"
    and "replay_represents (snd (xgl_replay_window_check w src conn epoch pn)) (replay_next ?sz S (unat pn))"
    using goal by simp_all
qed

lemma replay_check_keeps:
  "rw_source_id (snd (xgl_replay_window_check w src conn epoch pn)) = rw_source_id w"
  "rw_connection_id (snd (xgl_replay_window_check w src conn epoch pn)) = rw_connection_id w"
  "rw_session_epoch (snd (xgl_replay_window_check w src conn epoch pn)) = rw_session_epoch w"
  "rw_window_size (snd (xgl_replay_window_check w src conn epoch pn)) = rw_window_size w"
  by (simp_all add: xgl_replay_window_check_def Let_def)

lemma replay_check_foreign:
  "src \<noteq> rw_source_id w \<or> conn \<noteq> rw_connection_id w \<or> epoch \<noteq> rw_session_epoch w \<Longrightarrow>
   xgl_replay_window_check w src conn epoch pn = (XGL_REPLAY_REJECT, w)"
  by (auto simp: xgl_replay_window_check_def)

text \<open>A packet as the window sees it, and the machine driven by packets.\<close>

type_synonym replay_packet = "u16 \<times> u32 \<times> u32 \<times> u32"

definition replay_step :: "xgl_replay_window \<Rightarrow> replay_packet \<Rightarrow> xgl_replay_result \<times> xgl_replay_window" where
  "replay_step w = (\<lambda>(src, conn, epoch, pn). xgl_replay_window_check w src conn epoch pn)"

interpretation replay: invariant_machine replay_step "\<lambda>w. \<exists>S. replay_represents w S"
proof
  show "\<exists>S. replay_represents (snd (replay_step w e)) S" if "\<exists>S. replay_represents w S" for w e
  proof -
    obtain src conn epoch pn where e: "e = (src, conn, epoch, pn)" by (cases e)
    from that obtain S where S: "replay_represents w S" ..
    show ?thesis
    proof (cases "src = rw_source_id w \<and> conn = rw_connection_id w \<and> epoch = rw_session_epoch w")
      case True
      then have "src = rw_source_id w" "conn = rw_connection_id w" "epoch = rw_session_epoch w" by simp_all
      from replay_check_refines(2) [OF S this] show ?thesis by (auto simp: replay_step_def e)
    next
      case False
      then show ?thesis using S replay_check_foreign [of src w conn epoch pn] by (auto simp: replay_step_def e)
    qed
  qed
qed

text \<open>The packet numbers a run accepted as new, in order.\<close>

definition replay_accepted :: "xgl_replay_window \<Rightarrow> replay_packet list \<Rightarrow> u32 list" where
  "replay_accepted w es =
     map (\<lambda>(r, (_, _, _, pn)). pn)
       (filter (\<lambda>(r, _). r = XGL_REPLAY_ACCEPT_NEW) (zip (fst (replay.run w es)) es))"

lemma replay_accepted_Cons:
  "replay_accepted w ((s, c, e, pn) # es) =
     (case xgl_replay_window_check w s c e pn of
        (r, w') \<Rightarrow> (if r = XGL_REPLAY_ACCEPT_NEW then [pn] else []) @ replay_accepted w' es)"
  by (auto simp: replay_accepted_def replay_step_def split: prod.splits)

lemma replay_accepted_fresh:
  assumes "replay_represents w S"
  shows "distinct (replay_accepted w es) \<and> (\<forall>pn \<in> set (replay_accepted w es). unat pn \<notin> S)"
  using assms
proof (induction es arbitrary: w S)
  case Nil
  show ?case by (simp add: replay_accepted_def)
next
  case (Cons p es)
  obtain s c e pn where p: "p = (s, c, e, pn)" by (cases p)
  obtain r w' where chk: "xgl_replay_window_check w s c e pn = (r, w')" by fastforce
  show ?case
  proof (cases "s = rw_source_id w \<and> c = rw_connection_id w \<and> e = rw_session_epoch w")
    case False
    then have "r = XGL_REPLAY_REJECT" "w' = w" using replay_check_foreign [of s w c e pn] chk by auto
    then show ?thesis using Cons by (simp add: p replay_accepted_Cons chk)
  next
    case True
    then have ctx: "s = rw_source_id w" "c = rw_connection_id w" "e = rw_session_epoch w" by simp_all
    let ?sz = "unat (rw_window_size w)"
    have r: "r = replay_spec ?sz S (unat pn)" and rep: "replay_represents w' (replay_next ?sz S (unat pn))"
      using replay_check_refines [OF Cons.prems ctx, of pn] chk by simp_all
    have IH: "distinct (replay_accepted w' es) \<and> (\<forall>q \<in> set (replay_accepted w' es). unat q \<notin> replay_next ?sz S (unat pn))"
      by (rule Cons.IH [OF rep])
    have new: "r = XGL_REPLAY_ACCEPT_NEW \<Longrightarrow> unat pn \<notin> S" using r by (auto simp: replay_spec_def split: if_splits)
    show ?thesis
      using IH new r by (auto simp: p replay_accepted_Cons chk replay_next_def split: if_splits)
  qed
qed

section \<open>Properties\<close>

text \<open>
  C23: the 64-bit window refines the set of accepted numbers: for packets of its own context the answer
  is the specification's (refuse below the window, duplicate if already accepted, new otherwise),
  and the bitmap then represents the set with the number added when it was new; packets of any
  other source, connection or epoch are refused and change nothing.
\<close>

theorem replay_window_refines_set:
  assumes "replay_represents w S"
  shows "if src = rw_source_id w \<and> conn = rw_connection_id w \<and> epoch = rw_session_epoch w
         then fst (xgl_replay_window_check w src conn epoch pn) = replay_spec (unat (rw_window_size w)) S (unat pn)
            \<and> replay_represents (snd (xgl_replay_window_check w src conn epoch pn))
                (replay_next (unat (rw_window_size w)) S (unat pn))
         else xgl_replay_window_check w src conn epoch pn = (XGL_REPLAY_REJECT, w)"
  using replay_check_refines [OF assms, of src conn epoch pn] replay_check_foreign [of src w conn epoch pn]
  by auto

lemma sample_replay_window:
  "xgl_replay_window_init 5 1 2 64 = Inr \<lparr> rw_source_id = 5, rw_connection_id = 1, rw_session_epoch = 2,
     rw_largest_packet_number = 0, rw_received_bitmap = 0, rw_window_size = 64, rw_has_largest = False \<rparr>"
  by (simp add: xgl_replay_window_init_def)

theorem replay_window_refines_set_witness:
  "replay_represents (snd (xgl_replay_window_check \<lparr> rw_source_id = 5, rw_connection_id = 1, rw_session_epoch = 2,
     rw_largest_packet_number = 0, rw_received_bitmap = 0, rw_window_size = 64, rw_has_largest = False \<rparr> 5 1 2 9))
     (replay_next 64 {} 9)"
  using replay_window_refines_set [OF replay_init_represents [OF sample_replay_window], of 5 1 2 9] by simp

text \<open>
  No replay. In any history of checks, with any packets from any contexts in any order, no packet
  number is accepted as new twice.
\<close>

theorem replay_never_accepts_twice:
  assumes "xgl_replay_window_init src conn epoch n = Inr w"
  shows "distinct (replay_accepted w es)"
  using replay_accepted_fresh [OF replay_init_represents [OF assms]] by blast

theorem replay_never_accepts_twice_witness:
  "distinct (replay_accepted \<lparr> rw_source_id = 5, rw_connection_id = 1, rw_session_epoch = 2,
     rw_largest_packet_number = 0, rw_received_bitmap = 0, rw_window_size = 64, rw_has_largest = False \<rparr>
     [(5, 1, 2, 9), (5, 1, 2, 7), (5, 1, 2, 9), (6, 1, 2, 8), (5, 1, 2, 7)])"
  by (rule replay_never_accepts_twice [OF sample_replay_window])

end
