(* ===== verification/Xgl_Hashtable.thy ===== *)
theory Xgl_Hashtable
  imports Xgl_Prelude
begin

text \<open>
  The chained hash table of \<^verbatim>\<open>src/core/xgl_hashtable.c\<close>, keyed by 16-bit node identifiers. A bucket's
  chain of entries is a list; the bucket array is an option because destroying the table leaves
  it NULL. The allocator's answers to the coming requests are a list of booleans that the
  operations consume, an exhausted list meaning that the request fails.
\<close>

section \<open>The code\<close>

record 'v xgl_hashtable =
  ht_buckets :: "(u16 \<times> 'v) list list option"
  ht_size :: nat
  ht_count :: nat

definition take_alloc :: "bool list \<Rightarrow> bool \<times> bool list" where
  "take_alloc allocs = (case allocs of [] \<Rightarrow> (False, []) | a # as \<Rightarrow> (a, as))"

definition xgl_hash :: "u16 \<Rightarrow> nat \<Rightarrow> nat" where
  "xgl_hash key sz = unat key AND (sz - 1)"

definition xgl_is_power_of_2 :: "nat \<Rightarrow> bool" where
  "xgl_is_power_of_2 n \<longleftrightarrow> n > 0 \<and> n AND (n - 1) = 0"

definition xgl_hashtable_init ::
  "'v xgl_hashtable option \<Rightarrow> nat \<Rightarrow> bool list \<Rightarrow> xgl_error \<times> 'v xgl_hashtable option \<times> bool list" where
  "xgl_hashtable_init table sz allocs =
     (case table of
        None \<Rightarrow> (XGL_ERR_NULL_POINTER, None, allocs)
      | Some t \<Rightarrow>
          if \<not> xgl_is_power_of_2 sz then (XGL_ERR_INVALID_PARAM, Some t, allocs)
          else
            (case take_alloc allocs of
               (False, allocs) \<Rightarrow>
                 (XGL_ERR_NO_MEMORY, Some \<lparr> ht_buckets = None, ht_size = sz, ht_count = 0 \<rparr>, allocs)
             | (True, allocs) \<Rightarrow>
                 (XGL_OK, Some \<lparr> ht_buckets = Some (replicate sz []), ht_size = sz, ht_count = 0 \<rparr>, allocs)))"

definition xgl_hashtable_destroy :: "'v xgl_hashtable \<Rightarrow> 'v xgl_hashtable" where
  "xgl_hashtable_destroy table =
     (case ht_buckets table of
        None \<Rightarrow> table
      | Some _ \<Rightarrow> table \<lparr> ht_buckets := None, ht_size := 0, ht_count := 0 \<rparr>)"

text \<open>The search along a chain, and the update of the entry it finds.\<close>

fun chain_lookup :: "(u16 \<times> 'v) list \<Rightarrow> u16 \<Rightarrow> 'v option" where
  "chain_lookup [] key = None"
| "chain_lookup ((k, v) # es) key = (if k = key then Some v else chain_lookup es key)"

fun chain_update :: "(u16 \<times> 'v) list \<Rightarrow> u16 \<Rightarrow> 'v \<Rightarrow> (u16 \<times> 'v) list option" where
  "chain_update [] key value = None"
| "chain_update ((k, v) # es) key value =
     (if k = key then Some ((k, value) # es) else map_option (\<lambda>es'. (k, v) # es') (chain_update es key value))"

text \<open>Unlinking the first entry with the key (\<^verbatim>\<open>prev->next = entry->next\<close>).\<close>

fun chain_remove :: "(u16 \<times> 'v) list \<Rightarrow> u16 \<Rightarrow> (u16 \<times> 'v) list option" where
  "chain_remove [] key = None"
| "chain_remove ((k, v) # es) key =
     (if k = key then Some es else map_option (\<lambda>es'. (k, v) # es') (chain_remove es key))"

definition xgl_hashtable_insert ::
  "'v xgl_hashtable \<Rightarrow> u16 \<Rightarrow> 'v option \<Rightarrow> bool list \<Rightarrow> xgl_error \<times> 'v xgl_hashtable \<times> bool list" where
  "xgl_hashtable_insert table key value_ptr allocs =
     (case ht_buckets table of
        None \<Rightarrow> (XGL_ERR_NULL_POINTER, table, allocs)
      | Some buckets \<Rightarrow>
          (case value_ptr of
             None \<Rightarrow> (XGL_ERR_INVALID_PARAM, table, allocs)
           | Some v \<Rightarrow>
               let index = xgl_hash key (ht_size table)
               in (case chain_update (buckets ! index) key v of
                     Some chain \<Rightarrow> (XGL_OK, table \<lparr> ht_buckets := Some (buckets[index := chain]) \<rparr>, allocs)
                   | None \<Rightarrow>
                       (case take_alloc allocs of
                          (False, allocs) \<Rightarrow> (XGL_ERR_NO_MEMORY, table, allocs)
                        | (True, allocs) \<Rightarrow>
                            (XGL_OK, table \<lparr> ht_buckets := Some (buckets[index := (key, v) # buckets ! index]),
                                             ht_count := ht_count table + 1 \<rparr>, allocs)))))"

definition xgl_hashtable_lookup :: "'v xgl_hashtable \<Rightarrow> u16 \<Rightarrow> 'v option" where
  "xgl_hashtable_lookup table key =
     (case ht_buckets table of
        None \<Rightarrow> None
      | Some buckets \<Rightarrow> chain_lookup (buckets ! xgl_hash key (ht_size table)) key)"

definition xgl_hashtable_remove :: "'v xgl_hashtable \<Rightarrow> u16 \<Rightarrow> xgl_error \<times> 'v xgl_hashtable" where
  "xgl_hashtable_remove table key =
     (case ht_buckets table of
        None \<Rightarrow> (XGL_ERR_NULL_POINTER, table)
      | Some buckets \<Rightarrow>
          let index = xgl_hash key (ht_size table)
          in (case chain_remove (buckets ! index) key of
                Some chain \<Rightarrow> (XGL_OK, table \<lparr> ht_buckets := Some (buckets[index := chain]),
                                               ht_count := ht_count table - 1 \<rparr>)
              | None \<Rightarrow> (XGL_ERR_ROUTE_NOT_FOUND, table)))"

definition xgl_hashtable_clear :: "'v xgl_hashtable \<Rightarrow> 'v xgl_hashtable" where
  "xgl_hashtable_clear table =
     (case ht_buckets table of
        None \<Rightarrow> table
      | Some buckets \<Rightarrow> table \<lparr> ht_buckets := Some (map (\<lambda>_. []) buckets), ht_count := 0 \<rparr>)"

section \<open>Invariant\<close>

text \<open>
  Every bucket exists, holds only keys that hash to it, holds no key twice, and the count is the number of
  entries.
\<close>

definition hashtable_inv :: "'v xgl_hashtable \<Rightarrow> bool" where
  "hashtable_inv t \<longleftrightarrow>
     (\<exists>m. ht_size t = 2 ^ m) \<and>
     (case ht_buckets t of
        None \<Rightarrow> False
      | Some bs \<Rightarrow>
          length bs = ht_size t
          \<and> (\<forall>i < length bs. distinct (map fst (bs ! i)) \<and> (\<forall>k \<in> fst ` set (bs ! i). xgl_hash k (ht_size t) = i))
          \<and> ht_count t = sum_list (map length bs))"

lemma hashtable_invE:
  assumes "hashtable_inv t"
  obtains bs m where "ht_buckets t = Some bs" "ht_size t = 2 ^ m" "length bs = ht_size t"
    "\<forall>i < length bs. distinct (map fst (bs ! i)) \<and> (\<forall>k \<in> fst ` set (bs ! i). xgl_hash k (ht_size t) = i)"
    "ht_count t = sum_list (map length bs)"
  using assms unfolding hashtable_inv_def by (cases "ht_buckets t") auto

lemma xgl_hash_mod: "xgl_hash k (2 ^ m) = unat k mod 2 ^ m"
proof -
  have "unat k AND (2 ^ m - 1) = take_bit m (unat k)"
    by (simp add: take_bit_eq_mask mask_eq_exp_minus_1)
  then show ?thesis by (simp add: xgl_hash_def take_bit_eq_mod)
qed

lemma xgl_hash_less [simp]: "xgl_hash k (2 ^ m) < 2 ^ m"
  by (simp add: xgl_hash_mod)

lemma power_of_2_exp:
  assumes "xgl_is_power_of_2 n"
  shows "\<exists>m. n = 2 ^ m"
  using assms
proof (induction n rule: less_induct)
  case (less n)
  show ?case
  proof (cases "n = 1")
    case True
    then show ?thesis by (intro exI [of _ 0]) simp
  next
    case False
    then have n: "n > 1" using less.prems by (simp add: xgl_is_power_of_2_def)
    have "even n"
    proof (rule ccontr)
      assume "odd n"
      then have "n AND (n - 1) = n - 1"
        by (subst and_rec) (auto elim!: oddE)
      with less.prems n show False by (simp add: xgl_is_power_of_2_def)
    qed
    then obtain h where h: "n = 2 * h" by (rule evenE)
    have "(2 * h) AND (2 * h - 1) = 2 * (h AND (h - 1))"
      using n h by (subst and_rec) (cases h; simp)
    then have "h AND (h - 1) = 0" using less.prems h by (simp add: xgl_is_power_of_2_def)
    then have "\<exists>m. h = 2 ^ m" using n h by (intro less.IH) (simp_all add: xgl_is_power_of_2_def)
    then show ?thesis using h power_Suc by metis
  qed
qed

section \<open>The table as a map\<close>

lemma chain_lookup_map_of: "chain_lookup es k = map_of es k"
  by (induction es k rule: chain_lookup.induct) auto

lemma chain_update_None: "chain_update es k v = None \<longleftrightarrow> k \<notin> fst ` set es"
  by (induction es k v rule: chain_update.induct) auto

lemma chain_update_Some:
  "chain_update es k v = Some es' \<Longrightarrow> map_of es' = (map_of es)(k \<mapsto> v) \<and> map fst es' = map fst es \<and> k \<in> fst ` set es"
  by (induction es k v arbitrary: es' rule: chain_update.induct) (auto split: if_splits simp: fun_upd_twist)

lemma chain_remove_None: "chain_remove es k = None \<longleftrightarrow> k \<notin> fst ` set es"
  by (induction es k rule: chain_remove.induct) auto

lemma chain_remove_filter:
  "distinct (map fst es) \<Longrightarrow> k \<in> fst ` set es \<Longrightarrow> chain_remove es k = Some (filter (\<lambda>e. fst e \<noteq> k) es)"
proof (induction es k rule: chain_remove.induct)
  case (2 k v es key)
  show ?case
  proof (cases "k = key")
    case True
    then have "\<forall>e \<in> set es. fst e \<noteq> key" using 2(2) by (auto simp: image_iff)
    then show ?thesis using True by (simp add: filter_id_conv)
  qed (use 2 in auto)
qed simp

lemma map_of_filter_key: "map_of (filter (\<lambda>e. fst e \<noteq> k) es) = (map_of es)(k := None)"
  by (induction es) auto

lemma length_filter_key:
  "distinct (map fst es) \<Longrightarrow> k \<in> fst ` set es \<Longrightarrow> length es = Suc (length (filter (\<lambda>e. fst e \<noteq> k) es))"
proof (induction es)
  case (Cons e es)
  show ?case
  proof (cases "fst e = k")
    case True
    then have "\<forall>e \<in> set es. fst e \<noteq> k" using Cons.prems(1) by (auto simp: image_iff)
    then show ?thesis using True by (simp add: filter_id_conv)
  qed (use Cons in auto)
qed simp

text \<open>Replacing one bucket by a chain whose keys belong there.\<close>

lemma hashtable_inv_bucket:
  assumes "hashtable_inv t" "ht_buckets t = Some bs" "i = xgl_hash k (ht_size t)"
    and "distinct (map fst chain)" "fst ` set chain \<subseteq> insert k (fst ` set (bs ! i))"
    and "c + length (bs ! i) = ht_count t + length chain"
  shows "hashtable_inv (t \<lparr> ht_buckets := Some (bs[i := chain]), ht_count := c \<rparr>)"
proof -
  obtain m where inv: "ht_size t = 2 ^ m" "length bs = ht_size t"
    "\<forall>i < length bs. distinct (map fst (bs ! i)) \<and> (\<forall>k \<in> fst ` set (bs ! i). xgl_hash k (ht_size t) = i)"
    "ht_count t = sum_list (map length bs)"
    using assms(1,2) by (auto elim: hashtable_invE)
  have i: "i < length bs" using inv assms(3) by (simp add: xgl_hash_less)
  have keys: "\<forall>k' \<in> fst ` set chain. xgl_hash k' (ht_size t) = i"
  proof
    fix k' assume "k' \<in> fst ` set chain"
    then have "k' = k \<or> k' \<in> fst ` set (bs ! i)" using assms(5) by blast
    then show "xgl_hash k' (ht_size t) = i"
    proof
      assume "k' = k"
      then show ?thesis by (simp only: assms(3))
    next
      assume "k' \<in> fst ` set (bs ! i)"
      then show ?thesis using inv(3) i by blast
    qed
  qed
  have "sum_list (map length (bs[i := chain])) = sum_list (map length bs) + length chain - length (bs ! i)"
    using i by (simp add: map_update sum_list_update)
  then have "c = sum_list (map length (bs[i := chain]))" using assms(6) inv(4) by simp
  then show ?thesis
    using inv i keys assms(4) unfolding hashtable_inv_def
    by (simp add: nth_list_update)
qed

lemma hashtable_lookup_bucket:
  assumes "hashtable_inv t" "ht_buckets t = Some bs" "i = xgl_hash k (ht_size t)"
    and "map_of chain = (map_of (bs ! i))(k := v)"
  shows "xgl_hashtable_lookup (t \<lparr> ht_buckets := Some (bs[i := chain]), ht_count := c \<rparr>) = (xgl_hashtable_lookup t)(k := v)"
proof (rule ext)
  fix k'
  obtain m where inv: "ht_size t = 2 ^ m" "length bs = ht_size t"
    using assms(1,2) by (auto elim: hashtable_invE)
  have i: "i < length bs" using inv assms(3) by (simp add: xgl_hash_less)
  show "xgl_hashtable_lookup (t \<lparr> ht_buckets := Some (bs[i := chain]), ht_count := c \<rparr>) k' = ((xgl_hashtable_lookup t)(k := v)) k'"
    using assms i inv by (auto simp: xgl_hashtable_lookup_def chain_lookup_map_of nth_list_update)
qed

section \<open>The interface of a keyed map\<close>

text \<open>
  What a client of the table relies on: the table is a finite map; storing under an existing key needs no
  memory; storing under a new key may fail, and then nothing has changed; removal succeeds exactly
  on the keys present. The route table is such a client: after it has moved its route array it
  stores new pointers under all its keys (\<open>put_all\<close>).
\<close>

locale key_map =
  fixes inv :: "'t \<Rightarrow> bool"
    and look :: "'t \<Rightarrow> u16 \<Rightarrow> 'v option"
    and put :: "'t \<Rightarrow> u16 \<Rightarrow> 'v option \<Rightarrow> bool list \<Rightarrow> xgl_error \<times> 't \<times> bool list"
    and del :: "'t \<Rightarrow> u16 \<Rightarrow> xgl_error \<times> 't"
  assumes put_ok: "inv t \<Longrightarrow> put t k (Some v) as = (XGL_OK, t', as') \<Longrightarrow> inv t' \<and> look t' = (look t)(k \<mapsto> v)"
    and put_present: "inv t \<Longrightarrow> look t k \<noteq> None \<Longrightarrow> \<exists>t'. put t k (Some v) as = (XGL_OK, t', as)"
    and put_fails: "inv t \<Longrightarrow> put t k (Some v) as = (e, t', as') \<Longrightarrow> e \<noteq> XGL_OK \<Longrightarrow> e = XGL_ERR_NO_MEMORY \<and> t' = t"
    and del_present: "inv t \<Longrightarrow> look t k \<noteq> None \<Longrightarrow>
          \<exists>t'. del t k = (XGL_OK, t') \<and> inv t' \<and> look t' = (look t)(k := None)"
    and del_absent: "inv t \<Longrightarrow> look t k = None \<Longrightarrow> del t k = (XGL_ERR_ROUTE_NOT_FOUND, t)"
begin

fun put_all :: "'t \<Rightarrow> (u16 \<times> 'v) list \<Rightarrow> bool list \<Rightarrow> 't \<times> bool list" where
  "put_all t [] as = (t, as)"
| "put_all t ((k, v) # kvs) as = (case put t k (Some v) as of (_, t', as') \<Rightarrow> put_all t' kvs as')"

lemma put_all_present:
  assumes "inv t" "\<forall>k \<in> fst ` set kvs. look t k \<noteq> None"
  shows "\<exists>t'. put_all t kvs as = (t', as) \<and> inv t' \<and> look t' = look t ++ map_of (rev kvs)"
  using assms
proof (induction kvs arbitrary: t)
  case (Cons kv kvs)
  obtain k v where kv: "kv = (k, v)" by (cases kv)
  have "look t k \<noteq> None" using Cons.prems(2) by (auto simp: kv)
  then obtain t' where t': "put t k (Some v) as = (XGL_OK, t', as)"
    using put_present [OF Cons.prems(1)] by blast
  then have inv': "inv t'" "look t' = (look t)(k \<mapsto> v)" using put_ok [OF Cons.prems(1)] by auto
  have "\<exists>t''. put_all t' kvs as = (t'', as) \<and> inv t'' \<and> look t'' = look t' ++ map_of (rev kvs)"
    using Cons.prems(2) inv' by (intro Cons.IH) (auto simp: kv)
  then show ?case
    using t' by (auto simp: kv inv'(2) map_add_assoc)
qed simp

end

interpretation ht: key_map hashtable_inv xgl_hashtable_lookup xgl_hashtable_insert xgl_hashtable_remove
proof (unfold_locales, goal_cases)
  case (1 t k v as t' as')
  obtain bs where bs: "ht_buckets t = Some bs" "\<forall>i < length bs. distinct (map fst (bs ! i))" "xgl_hash k (ht_size t) < length bs"
    using 1(1) by (auto elim!: hashtable_invE simp: xgl_hash_less)
  define i where "i = xgl_hash k (ht_size t)"
  have d: "distinct (map fst (bs ! i))" using bs by (simp add: i_def)
  show ?case
  proof (cases "chain_update (bs ! i) k v")
    case (Some chain)
    note c = chain_update_Some [OF Some]
    have t': "t' = t \<lparr> ht_buckets := Some (bs[i := chain]), ht_count := ht_count t \<rparr>"
      using 1(2) bs(1) Some by (cases t) (auto simp: xgl_hashtable_insert_def i_def Let_def)
    have "length chain = length (bs ! i)" using c by (metis length_map)
    moreover have "fst ` set chain = fst ` set (bs ! i)" using c by (metis set_map)
    ultimately show ?thesis
      unfolding t' using c d
      by (intro conjI hashtable_inv_bucket [OF 1(1) bs(1) i_def] hashtable_lookup_bucket [OF 1(1) bs(1) i_def]) auto
  next
    case None
    then have new: "k \<notin> fst ` set (bs ! i)" by (simp add: chain_update_None)
    have t': "t' = t \<lparr> ht_buckets := Some (bs[i := (k, v) # bs ! i]), ht_count := ht_count t + 1 \<rparr>"
      using 1(2) bs(1) None by (auto simp: xgl_hashtable_insert_def i_def Let_def split: prod.splits bool.splits)
    show ?thesis
      unfolding t' using new d
      by (intro conjI hashtable_inv_bucket [OF 1(1) bs(1) i_def] hashtable_lookup_bucket [OF 1(1) bs(1) i_def]) auto
  qed
next
  case (2 t k v as)
  then obtain bs where bs: "ht_buckets t = Some bs" by (auto elim: hashtable_invE)
  then have "chain_update (bs ! xgl_hash k (ht_size t)) k v \<noteq> None"
    using 2(2) by (simp add: xgl_hashtable_lookup_def chain_lookup_map_of chain_update_None map_of_eq_None_iff)
  then show ?case using bs by (auto simp: xgl_hashtable_insert_def Let_def)
next
  case (3 t k v as e t' as')
  then obtain bs where "ht_buckets t = Some bs" by (auto elim: hashtable_invE)
  then show ?case
    using 3(2,3) by (auto simp: xgl_hashtable_insert_def Let_def split: option.splits prod.splits bool.splits)
next
  case (4 t k)
  obtain bs where bs: "ht_buckets t = Some bs" "\<forall>i < length bs. distinct (map fst (bs ! i))" "xgl_hash k (ht_size t) < length bs"
    "ht_count t = sum_list (map length bs)"
    using 4(1) by (auto elim!: hashtable_invE simp: xgl_hash_less)
  define i where "i = xgl_hash k (ht_size t)"
  have d: "distinct (map fst (bs ! i))" using bs by (simp add: i_def)
  have k: "k \<in> fst ` set (bs ! i)"
    using 4(2) bs(1) by (simp add: xgl_hashtable_lookup_def chain_lookup_map_of map_of_eq_None_iff i_def)
  let ?c = "filter (\<lambda>e. fst e \<noteq> k) (bs ! i)"
  let ?t = "t \<lparr> ht_buckets := Some (bs[i := ?c]), ht_count := ht_count t - 1 \<rparr>"
  have "xgl_hashtable_remove t k = (XGL_OK, ?t)"
    using bs(1) chain_remove_filter [OF d k] by (simp add: xgl_hashtable_remove_def i_def Let_def)
  moreover have "length (bs ! i) \<le> ht_count t"
    using bs member_le_sum_list [of "length (bs ! i)" "map length bs"] by (simp add: i_def)
  then have "hashtable_inv ?t"
    using d k length_filter_key [OF d k]
    by (intro hashtable_inv_bucket [OF 4(1) bs(1) i_def]) (auto simp: distinct_map_filter)
  moreover have "xgl_hashtable_lookup ?t = (xgl_hashtable_lookup t)(k := None)"
    by (intro hashtable_lookup_bucket [OF 4(1) bs(1) i_def]) (rule map_of_filter_key)
  ultimately show ?case by blast
next
  case (5 t k)
  then obtain bs where bs: "ht_buckets t = Some bs" by (auto elim: hashtable_invE)
  then have "chain_remove (bs ! xgl_hash k (ht_size t)) k = None"
    using 5(2) by (simp add: xgl_hashtable_lookup_def chain_lookup_map_of chain_remove_None map_of_eq_None_iff)
  then show ?case using bs by (simp add: xgl_hashtable_remove_def Let_def)
qed

lemma hashtable_init_inv:
  assumes "xgl_hashtable_init (Some t0) sz allocs = (XGL_OK, Some t, as')"
  shows "hashtable_inv t \<and> xgl_hashtable_lookup t = (\<lambda>_. None)"
proof -
  have p2: "xgl_is_power_of_2 sz" and t: "t = \<lparr> ht_buckets = Some (replicate sz []), ht_size = sz, ht_count = 0 \<rparr>"
    using assms by (auto simp: xgl_hashtable_init_def split: if_splits prod.splits bool.splits)
  obtain m where m: "sz = 2 ^ m" using power_of_2_exp [OF p2] ..
  then show ?thesis by (auto simp: t hashtable_inv_def xgl_hashtable_lookup_def fun_eq_iff)
qed

lemma hashtable_clear_inv:
  assumes "hashtable_inv t"
  shows "hashtable_inv (xgl_hashtable_clear t) \<and> xgl_hashtable_lookup (xgl_hashtable_clear t) = (\<lambda>_. None)"
proof -
  obtain bs m where "ht_buckets t = Some bs" "ht_size t = 2 ^ m" "length bs = ht_size t"
    using assms by (rule hashtable_invE)
  then show ?thesis
    by (auto simp: hashtable_inv_def xgl_hashtable_clear_def xgl_hashtable_lookup_def fun_eq_iff comp_def
        map_replicate_const)
qed

section \<open>Properties\<close>

text \<open>
  the hash table is a map. Lookup after a successful insert finds the new value under that key and the
  old values under all others; a failed insert changes nothing; removal forgets exactly the key,
  and fails exactly when the key is absent; every operation keeps the invariant (each key in its
  bucket, once, and the count right).
\<close>

theorem hashtable_is_a_map:
  assumes "hashtable_inv t"
  shows "(case xgl_hashtable_insert t k (Some v) allocs of
            (e, t', _) \<Rightarrow> hashtable_inv t' \<and>
              (if e = XGL_OK then xgl_hashtable_lookup t' = (xgl_hashtable_lookup t)(k \<mapsto> v)
               else e = XGL_ERR_NO_MEMORY \<and> t' = t))
       \<and> (case xgl_hashtable_remove t k of
            (e, t') \<Rightarrow> hashtable_inv t' \<and>
              (if xgl_hashtable_lookup t k = None then e = XGL_ERR_ROUTE_NOT_FOUND \<and> t' = t
               else e = XGL_OK \<and> xgl_hashtable_lookup t' = (xgl_hashtable_lookup t)(k := None)))"
proof
  obtain e t' as' where ins: "xgl_hashtable_insert t k (Some v) allocs = (e, t', as')" by (metis surj_pair)
  show "case xgl_hashtable_insert t k (Some v) allocs of
            (e, t', _) \<Rightarrow> hashtable_inv t' \<and>
              (if e = XGL_OK then xgl_hashtable_lookup t' = (xgl_hashtable_lookup t)(k \<mapsto> v)
               else e = XGL_ERR_NO_MEMORY \<and> t' = t)"
    using ht.put_ok [OF assms, of k v allocs t' as'] ht.put_fails [OF assms ins] assms ins by auto
  show "case xgl_hashtable_remove t k of
            (e, t') \<Rightarrow> hashtable_inv t' \<and>
              (if xgl_hashtable_lookup t k = None then e = XGL_ERR_ROUTE_NOT_FOUND \<and> t' = t
               else e = XGL_OK \<and> xgl_hashtable_lookup t' = (xgl_hashtable_lookup t)(k := None))"
    using ht.del_present [OF assms, of k] ht.del_absent [OF assms, of k] assms by auto
qed

theorem hashtable_is_a_map_witness:
  "\<exists>t. xgl_hashtable_init (Some \<lparr> ht_buckets = None, ht_size = 0, ht_count = 0 \<rparr>) 16 [True] = (XGL_OK, Some t, [])
     \<and> (case xgl_hashtable_insert t 17 (Some (3 :: nat)) [True] of
            (e, t', _) \<Rightarrow> hashtable_inv t')"
proof -
  let ?t = "\<lparr> ht_buckets = Some (replicate 16 []), ht_size = 16, ht_count = 0 \<rparr> :: nat xgl_hashtable"
  have init: "xgl_hashtable_init (Some \<lparr> ht_buckets = None, ht_size = 0, ht_count = 0 \<rparr>) 16 [True] = (XGL_OK, Some ?t, [])"
    by (simp add: xgl_hashtable_init_def take_alloc_def xgl_is_power_of_2_def)
  then have "hashtable_inv ?t" using hashtable_init_inv by blast
  from hashtable_is_a_map [OF this, of 17 3 "[True]"] init show ?thesis by (auto split: prod.splits)
qed

end
