(* ===== verification/Xgl_Route.thy ===== *)
theory Xgl_Route
  imports Xgl_Hashtable
begin

text \<open>
  The route table, \<^verbatim>\<open>src/network/xgl_route*.c\<close>: an array of routes and a hash table from target identifiers
  to pointers into that array. The array is reallocated when it grows, so a pointer is modelled as
  the generation of the array it points into and an index; a pointer of an old generation dangles.
  The theorems show that the hash table never holds a dangling or misplaced pointer, and that the
  table as a whole is a map from targets to routes.
\<close>

section \<open>The code\<close>

abbreviation (input) "XGL_ROUTE_TABLE_DEFAULT_SIZE \<equiv> (16 :: nat)"

text \<open>A physical interface is known by a number; \<open>None\<close> is the NULL pointer.\<close>

record xgl_route_item =
  ri_target_id :: u16
  ri_phy :: "nat option"
  ri_max_frame_size :: u16
  ri_read_freq_hz :: u32
  ri_metric :: u8

type_synonym route_ptr = "nat \<times> nat"

record xgl_route_table =
  rt_hashtable :: "route_ptr xgl_hashtable"
  rt_routes :: "xgl_route_item list"
  rt_generation :: nat
  rt_route_count :: nat
  rt_route_capacity :: nat

definition zero_route :: xgl_route_item where
  "zero_route = \<lparr> ri_target_id = 0, ri_phy = None, ri_max_frame_size = 0, ri_read_freq_hz = 0, ri_metric = 0 \<rparr>"

definition xgl_route_table_init :: "nat \<Rightarrow> bool list \<Rightarrow> xgl_error \<times> xgl_route_table \<times> bool list" where
  "xgl_route_table_init initial_capacity allocs =
     (let zero = \<lparr> rt_hashtable = \<lparr> ht_buckets = None, ht_size = 0, ht_count = 0 \<rparr>, rt_routes = [],
                   rt_generation = 0, rt_route_count = 0, rt_route_capacity = 0 \<rparr>
      in case xgl_hashtable_init (Some (rt_hashtable zero)) XGL_ROUTE_TABLE_DEFAULT_SIZE allocs of
           (err, h, allocs) \<Rightarrow>
             let table = zero \<lparr> rt_hashtable := the h \<rparr>
             in if err \<noteq> XGL_OK then (err, table, allocs)
                else if initial_capacity > 0
                then (case take_alloc allocs of
                        (False, allocs) \<Rightarrow>
                          (XGL_ERR_NO_MEMORY,
                           table \<lparr> rt_hashtable := xgl_hashtable_destroy (rt_hashtable table) \<rparr>, allocs)
                      | (True, allocs) \<Rightarrow>
                          (XGL_OK, table \<lparr> rt_routes := replicate initial_capacity zero_route,
                                           rt_generation := 1, rt_route_capacity := initial_capacity \<rparr>, allocs))
                else (XGL_OK, table, allocs))"

definition xgl_route_table_destroy :: "xgl_route_table \<Rightarrow> xgl_route_table" where
  "xgl_route_table_destroy table =
     table \<lparr> rt_hashtable := xgl_hashtable_destroy (rt_hashtable table), rt_routes := [],
             rt_route_count := 0, rt_route_capacity := 0 \<rparr>"

text \<open>The loop of \<^verbatim>\<open>xgl_route_find_index\<close>; \<open>None\<close> for -1.\<close>

definition xgl_route_find_index :: "xgl_route_table \<Rightarrow> u16 \<Rightarrow> nat option" where
  "xgl_route_find_index table target_id =
     List.find (\<lambda>i. ri_target_id (rt_routes table ! i) = target_id) [0..<rt_route_count table]"

text \<open>
  The loops that store a fresh pointer for every route from index \<open>i\<close> up to \<open>n\<close>; the code ignores the results of
  these inserts.
\<close>

function route_reinsert ::
  "route_ptr xgl_hashtable \<Rightarrow> nat \<Rightarrow> xgl_route_item list \<Rightarrow> nat \<Rightarrow> nat \<Rightarrow> bool list \<Rightarrow> route_ptr xgl_hashtable \<times> bool list" where
  "route_reinsert h gen routes i n allocs =
     (if i < n
      then (case xgl_hashtable_insert h (ri_target_id (routes ! i)) (Some (gen, i)) allocs of
              (_, h, allocs) \<Rightarrow> route_reinsert h gen routes (i + 1) n allocs)
      else (h, allocs))"
  by pat_completeness auto
termination
  by (relation "measure (\<lambda>(h, gen, routes, i, n, allocs). n - i)") auto

declare route_reinsert.simps [simp del]

definition xgl_route_grow_capacity :: "xgl_route_table \<Rightarrow> bool list \<Rightarrow> xgl_error \<times> xgl_route_table \<times> bool list" where
  "xgl_route_grow_capacity table allocs =
     (let new_capacity = rt_route_capacity table * 2;
          new_capacity = (if new_capacity = 0 then XGL_ROUTE_TABLE_DEFAULT_SIZE else new_capacity)
      in case take_alloc allocs of
           (False, allocs) \<Rightarrow> (XGL_ERR_NO_MEMORY, table, allocs)
         | (True, allocs) \<Rightarrow>
             let new_routes = mem_write (replicate new_capacity zero_route) 0
                                (take (rt_route_count table) (rt_routes table));
                 gen = rt_generation table + 1
             in (case route_reinsert (rt_hashtable table) gen new_routes 0 (rt_route_count table) allocs of
                   (h, allocs) \<Rightarrow>
                     (XGL_OK, table \<lparr> rt_hashtable := h, rt_routes := new_routes, rt_generation := gen,
                                      rt_route_capacity := new_capacity \<rparr>, allocs)))"

definition xgl_route_table_add ::
  "xgl_route_table \<Rightarrow> u16 \<Rightarrow> nat option \<Rightarrow> u16 \<Rightarrow> u32 \<Rightarrow> u8 \<Rightarrow> bool list
     \<Rightarrow> xgl_error \<times> xgl_route_table \<times> bool list" where
  "xgl_route_table_add table target_id phy max_frame_size read_freq_hz metric allocs =
     (if phy = None then (XGL_ERR_INVALID_PARAM, table, allocs)
      else
        case xgl_route_find_index table target_id of
          Some i \<Rightarrow>
            let route = (rt_routes table ! i) \<lparr> ri_phy := phy, ri_max_frame_size := max_frame_size,
                          ri_read_freq_hz := read_freq_hz, ri_metric := metric \<rparr>;
                table = table \<lparr> rt_routes := (rt_routes table)[i := route] \<rparr>
            in (case xgl_hashtable_insert (rt_hashtable table) target_id (Some (rt_generation table, i)) allocs of
                  (err, h, allocs) \<Rightarrow> (err, table \<lparr> rt_hashtable := h \<rparr>, allocs))
        | None \<Rightarrow>
            (case (if rt_route_count table \<ge> rt_route_capacity table then xgl_route_grow_capacity table allocs
                   else (XGL_OK, table, allocs)) of
               (err, table, allocs) \<Rightarrow>
                 if err \<noteq> XGL_OK then (err, table, allocs)
                 else
                   let i = rt_route_count table;
                       route = \<lparr> ri_target_id = target_id, ri_phy = phy, ri_max_frame_size = max_frame_size,
                                 ri_read_freq_hz = read_freq_hz, ri_metric = metric \<rparr>;
                       table = table \<lparr> rt_routes := (rt_routes table)[i := route] \<rparr>
                   in (case xgl_hashtable_insert (rt_hashtable table) target_id (Some (rt_generation table, i)) allocs of
                         (err, h, allocs) \<Rightarrow>
                           let table = table \<lparr> rt_hashtable := h \<rparr>
                           in if err \<noteq> XGL_OK then (err, table, allocs)
                              else (XGL_OK, table \<lparr> rt_route_count := rt_route_count table + 1 \<rparr>, allocs))))"

definition xgl_route_table_remove ::
  "xgl_route_table \<Rightarrow> u16 \<Rightarrow> bool list \<Rightarrow> xgl_error \<times> xgl_route_table \<times> bool list" where
  "xgl_route_table_remove table target_id allocs =
     (case xgl_route_find_index table target_id of
        None \<Rightarrow> (XGL_ERR_ROUTE_NOT_FOUND, table, allocs)
      | Some route_index \<Rightarrow>
          (case xgl_hashtable_remove (rt_hashtable table) target_id of
             (err, h) \<Rightarrow>
               let table = table \<lparr> rt_hashtable := h \<rparr>
               in if err \<noteq> XGL_OK then (err, table, allocs)
                  else
                    let n = rt_route_count table;
                        (table, allocs) =
                          (if route_index < n - 1
                           then
                             let routes = mem_write (rt_routes table) route_index
                                            (mem_read (rt_routes table) (route_index + 1) (n - route_index - 1))
                             in (case route_reinsert (rt_hashtable table) (rt_generation table) routes
                                        route_index (n - 1) allocs of
                                   (h, allocs) \<Rightarrow> (table \<lparr> rt_hashtable := h, rt_routes := routes \<rparr>, allocs))
                           else (table, allocs))
                    in (XGL_OK, table \<lparr> rt_route_count := n - 1 \<rparr>, allocs)))"

definition xgl_route_table_clear :: "xgl_route_table \<Rightarrow> xgl_route_table" where
  "xgl_route_table_clear table =
     table \<lparr> rt_hashtable := xgl_hashtable_clear (rt_hashtable table), rt_route_count := 0 \<rparr>"

definition xgl_route_table_lookup :: "xgl_route_table \<Rightarrow> u16 \<Rightarrow> route_ptr option" where
  "xgl_route_table_lookup table target_id = xgl_hashtable_lookup (rt_hashtable table) target_id"

text \<open>\<^verbatim>\<open>route->metric = metric\<close>: the write goes through the pointer, into the array it points to.\<close>

definition xgl_route_table_update_metric :: "xgl_route_table \<Rightarrow> u16 \<Rightarrow> u8 \<Rightarrow> xgl_error \<times> xgl_route_table" where
  "xgl_route_table_update_metric table target_id metric =
     (case xgl_route_table_lookup table target_id of
        None \<Rightarrow> (XGL_ERR_ROUTE_NOT_FOUND, table)
      | Some (gen, i) \<Rightarrow>
          if gen = rt_generation table
          then (XGL_OK, table \<lparr> rt_routes := (rt_routes table)[i := (rt_routes table ! i) \<lparr> ri_metric := metric \<rparr>] \<rparr>)
          else (XGL_OK, table))"

fun route_table_load_loop ::
  "xgl_route_table \<Rightarrow> xgl_route_item list \<Rightarrow> bool list \<Rightarrow> xgl_error \<times> xgl_route_table \<times> bool list" where
  "route_table_load_loop table [] allocs = (XGL_OK, table, allocs)"
| "route_table_load_loop table (r # rs) allocs =
     (case xgl_route_table_add table (ri_target_id r) (ri_phy r) (ri_max_frame_size r) (ri_read_freq_hz r)
             (ri_metric r) allocs of
        (err, table, allocs) \<Rightarrow>
          if err \<noteq> XGL_OK then (err, table, allocs) else route_table_load_loop table rs allocs)"

definition xgl_route_table_load ::
  "xgl_route_table \<Rightarrow> xgl_route_item list option \<Rightarrow> nat \<Rightarrow> bool list \<Rightarrow> xgl_error \<times> xgl_route_table \<times> bool list" where
  "xgl_route_table_load table routes count allocs =
     (if routes = None \<and> count > 0 then (XGL_ERR_INVALID_PARAM, table, allocs)
      else
        let table = xgl_route_table_clear table
        in route_table_load_loop table (case routes of None \<Rightarrow> [] | Some rs \<Rightarrow> take count rs) allocs)"

section \<open>Invariant\<close>

text \<open>
  The hash table maps exactly the targets of the routes in use to pointers into the current array, at the index
  that holds the route.
\<close>

definition route_inv :: "xgl_route_table \<Rightarrow> bool" where
  "route_inv T \<longleftrightarrow>
     hashtable_inv (rt_hashtable T) \<and> length (rt_routes T) = rt_route_capacity T
     \<and> rt_route_count T \<le> rt_route_capacity T
     \<and> (\<forall>k p. xgl_hashtable_lookup (rt_hashtable T) k = Some p \<longleftrightarrow>
          (\<exists>i < rt_route_count T. ri_target_id (rt_routes T ! i) = k \<and> p = (rt_generation T, i)))"

text \<open>The table as a map from targets to routes: what dereferencing the looked-up pointer yields.\<close>

definition route_map :: "xgl_route_table \<Rightarrow> u16 \<Rightarrow> xgl_route_item option" where
  "route_map T k = map_option (\<lambda>(gen, i). rt_routes T ! i) (xgl_route_table_lookup T k)"

lemma route_map_eq:
  assumes "route_inv T"
  shows "route_map T k = Some r \<longleftrightarrow> (\<exists>i < rt_route_count T. ri_target_id (rt_routes T ! i) = k \<and> r = rt_routes T ! i)"
  using assms by (auto simp: route_inv_def route_map_def xgl_route_table_lookup_def)

lemma route_inv_lookup:
  assumes "route_inv T" "i < rt_route_count T"
  shows "xgl_hashtable_lookup (rt_hashtable T) (ri_target_id (rt_routes T ! i)) = Some (rt_generation T, i)"
  using assms unfolding route_inv_def by blast

lemma route_inv_inj:
  assumes "route_inv T" "i < rt_route_count T" "j < rt_route_count T"
    "ri_target_id (rt_routes T ! i) = ri_target_id (rt_routes T ! j)"
  shows "i = j"
  using route_inv_lookup [OF assms(1,2)] unfolding assms(4) route_inv_lookup [OF assms(1,3)] by simp

lemma find_index_Some:
  "xgl_route_find_index T k = Some i \<Longrightarrow> i < rt_route_count T \<and> ri_target_id (rt_routes T ! i) = k"
  by (auto simp: xgl_route_find_index_def find_Some_iff)

lemma find_index_None:
  "xgl_route_find_index T k = None \<longleftrightarrow> (\<forall>i < rt_route_count T. ri_target_id (rt_routes T ! i) \<noteq> k)"
  by (auto simp: xgl_route_find_index_def find_None_iff)

lemma find_index_cong:
  assumes "rt_route_count T' = rt_route_count T" "\<And>i. i < rt_route_count T \<Longrightarrow> rt_routes T' ! i = rt_routes T ! i"
  shows "xgl_route_find_index T' k = xgl_route_find_index T k"
  unfolding xgl_route_find_index_def assms(1) by (rule find_cong) (simp_all add: assms(2))

lemma route_inv_cong:
  assumes "route_inv T" "hashtable_inv (rt_hashtable T')" "xgl_hashtable_lookup (rt_hashtable T') = xgl_hashtable_lookup (rt_hashtable T)"
    "rt_generation T' = rt_generation T" "rt_route_count T' = rt_route_count T" "length (rt_routes T') = length (rt_routes T)"
    "rt_route_capacity T' = rt_route_capacity T"
    "\<And>i. i < rt_route_count T \<Longrightarrow> ri_target_id (rt_routes T' ! i) = ri_target_id (rt_routes T ! i)"
  shows "route_inv T'"
proof -
  have "(\<exists>i < rt_route_count T'. ri_target_id (rt_routes T' ! i) = k \<and> p = (rt_generation T', i)) \<longleftrightarrow>
        (\<exists>i < rt_route_count T. ri_target_id (rt_routes T ! i) = k \<and> p = (rt_generation T, i))" for k p
    using assms(8) unfolding assms(4,5) by metis
  then show ?thesis
    using assms(1) unfolding route_inv_def assms(3,5,6,7) by (intro conjI assms(2)) simp_all
qed

lemma route_inv_iff:
  "route_inv T \<Longrightarrow> xgl_hashtable_lookup (rt_hashtable T) k = Some p \<longleftrightarrow>
     (\<exists>i < rt_route_count T. ri_target_id (rt_routes T ! i) = k \<and> p = (rt_generation T, i))"
  unfolding route_inv_def by blast

lemma map_eqI: "(\<And>k v. m k = Some v \<longleftrightarrow> m' k = Some v) \<Longrightarrow> m = m'"
  by (rule ext) (metis not_None_eq)

lemma route_map_cong:
  assumes "route_inv T'" "route_inv T" "rt_route_count T' = rt_route_count T"
    "\<And>i. i < rt_route_count T \<Longrightarrow> rt_routes T' ! i = rt_routes T ! i"
  shows "route_map T' = route_map T"
  by (rule map_eqI) (metis assms route_map_eq)

section \<open>Storing fresh pointers\<close>

lemma route_reinsert_put_all:
  "route_reinsert h gen routes i n as = ht.put_all h (map (\<lambda>j. (ri_target_id (routes ! j), (gen, j))) [i..<n]) as"
proof (induction "n - i" arbitrary: i h as)
  case 0
  then show ?case by (subst route_reinsert.simps) simp
next
  case (Suc x)
  then have "i < n" "x = n - (i + 1)" by simp_all
  then show ?case
    using Suc.hyps(1) by (subst route_reinsert.simps) (auto simp: upt_conv_Cons split: prod.splits)
qed

lemma route_reinsert_spec:
  assumes "hashtable_inv h" "\<forall>j. i \<le> j \<and> j < n \<longrightarrow> xgl_hashtable_lookup h (ri_target_id (routes ! j)) \<noteq> None"
    and inj: "\<forall>j j'. i \<le> j \<and> j < n \<and> i \<le> j' \<and> j' < n \<and> ri_target_id (routes ! j) = ri_target_id (routes ! j') \<longrightarrow> j = j'"
  shows "\<exists>h'. route_reinsert h gen routes i n as = (h', as) \<and> hashtable_inv h'
     \<and> (\<forall>k p. xgl_hashtable_lookup h' k = Some p \<longleftrightarrow>
          (\<exists>j. i \<le> j \<and> j < n \<and> ri_target_id (routes ! j) = k \<and> p = (gen, j))
          \<or> ((\<forall>j. i \<le> j \<and> j < n \<longrightarrow> ri_target_id (routes ! j) \<noteq> k) \<and> xgl_hashtable_lookup h k = Some p))"
proof -
  let ?kvs = "map (\<lambda>j. (ri_target_id (routes ! j), (gen, j))) [i..<n]"
  obtain h' where h': "route_reinsert h gen routes i n as = (h', as)" "hashtable_inv h'"
    "xgl_hashtable_lookup h' = xgl_hashtable_lookup h ++ map_of (rev ?kvs)"
    using ht.put_all_present [OF assms(1), of ?kvs as] assms(2) by (auto simp: route_reinsert_put_all)
  have "distinct (map fst (rev ?kvs))"
    using inj by (auto simp: rev_map [symmetric] comp_def distinct_map inj_on_def)
  then have in_map: "map_of (rev ?kvs) k = Some p \<longleftrightarrow> (\<exists>j. i \<le> j \<and> j < n \<and> ri_target_id (routes ! j) = k \<and> p = (gen, j))" for k p
    by (subst map_of_eq_Some_iff) (auto simp: image_iff)
  have no_map: "map_of (rev ?kvs) k = None \<longleftrightarrow> (\<forall>j. i \<le> j \<and> j < n \<longrightarrow> ri_target_id (routes ! j) \<noteq> k)" for k
    by (auto simp: map_of_eq_None_iff image_iff)
  have "xgl_hashtable_lookup h' k = Some p \<longleftrightarrow> map_of (rev ?kvs) k = Some p \<or> map_of (rev ?kvs) k = None \<and> xgl_hashtable_lookup h k = Some p" for k p
    by (auto simp: h'(3) map_add_Some_iff)
  then show ?thesis using h' in_map no_map by blast
qed

section \<open>Operations keep the invariant\<close>

lemma route_init_inv:
  assumes "xgl_route_table_init cap allocs = (XGL_OK, T, as')"
  shows "route_inv T \<and> route_map T = (\<lambda>_. None)"
proof -
  obtain e h as1 where h: "xgl_hashtable_init (Some (\<lparr> ht_buckets = None, ht_size = 0, ht_count = 0 \<rparr> :: route_ptr xgl_hashtable)) 16 allocs = (e, h, as1)"
    by (metis surj_pair)
  then have e: "e = XGL_OK"
    using assms by (auto simp: xgl_route_table_init_def Let_def split: if_splits)
  then obtain t where t: "h = Some t"
    using h by (auto simp: xgl_hashtable_init_def split: if_splits prod.splits bool.splits)
  then have inv: "hashtable_inv t" "xgl_hashtable_lookup t = (\<lambda>_. None)" using hashtable_init_inv h e by blast+
  show ?thesis
    using assms h e t inv
    by (auto simp: xgl_route_table_init_def Let_def route_inv_def route_map_def xgl_route_table_lookup_def
        split: if_splits prod.splits bool.splits)
qed

lemma route_clear_inv:
  assumes "route_inv T"
  shows "route_inv (xgl_route_table_clear T) \<and> route_map (xgl_route_table_clear T) = (\<lambda>_. None)"
  using assms hashtable_clear_inv [of "rt_hashtable T"]
  by (auto simp: route_inv_def xgl_route_table_clear_def route_map_def xgl_route_table_lookup_def)

lemma route_grow_inv:
  assumes inv: "route_inv T" and full: "rt_route_count T \<ge> rt_route_capacity T"
    and grow: "xgl_route_grow_capacity T as = (e, T', as')"
  shows "if e = XGL_OK
         then route_inv T' \<and> route_map T' = route_map T \<and> rt_route_count T' = rt_route_count T
            \<and> rt_route_count T' < rt_route_capacity T' \<and> (\<forall>k. xgl_route_find_index T' k = xgl_route_find_index T k)
         else e = XGL_ERR_NO_MEMORY \<and> T' = T"
proof (cases "take_alloc as")
  case (Pair ok as1)
  let ?n = "rt_route_count T" and ?g = "rt_generation T + 1"
  define cap where "cap = (if rt_route_capacity T * 2 = 0 then 16 else rt_route_capacity T * 2)"
  define routes where "routes = mem_write (replicate cap zero_route) 0 (take ?n (rt_routes T))"
  have T: "length (rt_routes T) = rt_route_capacity T" "?n = rt_route_capacity T" "hashtable_inv (rt_hashtable T)"
    using inv full by (simp_all add: route_inv_def)
  have cap: "?n < cap" "length routes = cap" using T by (auto simp: cap_def routes_def)
  have same: "routes ! i = rt_routes T ! i" if "i < ?n" for i
    using that T cap by (simp add: routes_def nth_mem_write)
  have look: "xgl_hashtable_lookup (rt_hashtable T) k = Some p \<longleftrightarrow> (\<exists>i < ?n. ri_target_id (rt_routes T ! i) = k \<and> p = (rt_generation T, i))" for k p
    by (rule route_inv_iff [OF inv])
  have pre: "\<forall>j. 0 \<le> j \<and> j < ?n \<longrightarrow> xgl_hashtable_lookup (rt_hashtable T) (ri_target_id (routes ! j)) \<noteq> None"
    using route_inv_lookup [OF inv] same by simp
  have inj: "\<forall>j j'. 0 \<le> j \<and> j < ?n \<and> 0 \<le> j' \<and> j' < ?n \<and> ri_target_id (routes ! j) = ri_target_id (routes ! j') \<longrightarrow> j = j'"
    using same route_inv_inj [OF inv] by auto
  obtain h where h: "route_reinsert (rt_hashtable T) ?g routes 0 ?n as1 = (h, as1)" "hashtable_inv h"
    "\<forall>k p. xgl_hashtable_lookup h k = Some p \<longleftrightarrow>
        (\<exists>j. 0 \<le> j \<and> j < ?n \<and> ri_target_id (routes ! j) = k \<and> p = (?g, j))
        \<or> ((\<forall>j. 0 \<le> j \<and> j < ?n \<longrightarrow> ri_target_id (routes ! j) \<noteq> k) \<and> xgl_hashtable_lookup (rt_hashtable T) k = Some p)"
    using route_reinsert_spec [OF T(3) pre inj, of ?g as1] by (elim exE conjE) (rule that)
  have look': "xgl_hashtable_lookup h k = Some p \<longleftrightarrow> (\<exists>i < ?n. ri_target_id (routes ! i) = k \<and> p = (?g, i))" for k p
  proof -
    have "\<not> ((\<forall>j<?n. ri_target_id (routes ! j) \<noteq> k) \<and> xgl_hashtable_lookup (rt_hashtable T) k = Some p)"
    proof
      assume *: "(\<forall>j<?n. ri_target_id (routes ! j) \<noteq> k) \<and> xgl_hashtable_lookup (rt_hashtable T) k = Some p"
      then obtain i where "i < ?n" "ri_target_id (rt_routes T ! i) = k" using look [of k p] by blast
      then show False using * same [of i] by metis
    qed
    then show ?thesis using h(3) [rule_format, of k p] by simp blast
  qed
  show ?thesis
  proof (cases ok)
    case False
    then show ?thesis using grow Pair by (simp add: xgl_route_grow_capacity_def)
  next
    case True
    have e: "e = XGL_OK" "T' = T \<lparr> rt_hashtable := h, rt_routes := routes, rt_generation := ?g, rt_route_capacity := cap \<rparr>"
      using grow Pair True h(1) by (auto simp: xgl_route_grow_capacity_def Let_def cap_def routes_def)
    have inv': "route_inv T'"
      using cap by (simp add: route_inv_def e(2) h(2) look')
    moreover have "route_map T' = route_map T"
      by (rule route_map_cong [OF inv' inv]) (simp_all add: e(2) same)
    moreover have "xgl_route_find_index T' k = xgl_route_find_index T k" for k
      by (rule find_index_cong) (simp_all add: e(2) same)
    ultimately show ?thesis
      using e cap by simp
  qed
qed

lemma route_update_existing:
  assumes inv: "route_inv T" and i: "i < rt_route_count T" and r: "ri_target_id r = ri_target_id (rt_routes T ! i)"
  shows "route_inv (T \<lparr> rt_routes := (rt_routes T)[i := r] \<rparr>)
       \<and> route_map (T \<lparr> rt_routes := (rt_routes T)[i := r] \<rparr>) = (route_map T)(ri_target_id r \<mapsto> r)"
proof -
  let ?T = "T \<lparr> rt_routes := (rt_routes T)[i := r] \<rparr>"
  have len: "i < length (rt_routes T)" using inv i by (simp add: route_inv_def)
  have ids: "ri_target_id ((rt_routes T)[i := r] ! j) = ri_target_id (rt_routes T ! j)" for j
    using r len by (cases "j = i") simp_all
  have inv': "route_inv ?T"
    using inv by (intro route_inv_cong [OF inv]) (simp_all add: ids route_inv_def)
  have "route_map ?T k = Some v \<longleftrightarrow> ((route_map T)(ri_target_id r \<mapsto> r)) k = Some v" for k v
  proof (cases "k = ri_target_id r")
    case True
    then have "(j < rt_route_count T \<and> ri_target_id (rt_routes T ! j) = k) \<longleftrightarrow> j = i" for j
      using route_inv_inj [OF inv _ i, of j] i r by auto
    then have "route_map ?T k = Some v \<longleftrightarrow> v = r"
      using len by (simp add: route_map_eq [OF inv'] ids conj_assoc [symmetric])
    then show ?thesis using True by auto
  next
    case False
    then have "ri_target_id (rt_routes T ! j) = k \<Longrightarrow> (rt_routes T)[i := r] ! j = rt_routes T ! j" for j
      using r by (cases "j = i") auto
    then have "route_map ?T k = Some v \<longleftrightarrow> route_map T k = Some v"
      unfolding route_map_eq [OF inv'] route_map_eq [OF inv] by (simp add: ids cong: conj_cong)
    then show ?thesis using False by simp
  qed
  then have "route_map ?T = (route_map T)(ri_target_id r \<mapsto> r)" by (rule map_eqI)
  then show ?thesis using inv' by simp
qed

lemma route_append:
  assumes inv: "route_inv T" and room: "rt_route_count T < rt_route_capacity T"
    and fresh: "xgl_route_find_index T (ri_target_id r) = None"
    and ins: "xgl_hashtable_insert (rt_hashtable T) (ri_target_id r) (Some (rt_generation T, rt_route_count T)) as = (e, h, as')"
  shows "if e = XGL_OK
         then route_inv (T \<lparr> rt_routes := (rt_routes T)[rt_route_count T := r], rt_hashtable := h,
                            rt_route_count := rt_route_count T + 1 \<rparr>)
            \<and> route_map (T \<lparr> rt_routes := (rt_routes T)[rt_route_count T := r], rt_hashtable := h,
                            rt_route_count := rt_route_count T + 1 \<rparr>) = (route_map T)(ri_target_id r \<mapsto> r)
         else e = XGL_ERR_NO_MEMORY
            \<and> route_inv (T \<lparr> rt_routes := (rt_routes T)[rt_route_count T := r], rt_hashtable := h \<rparr>)
            \<and> route_map (T \<lparr> rt_routes := (rt_routes T)[rt_route_count T := r], rt_hashtable := h \<rparr>) = route_map T"
proof -
  let ?n = "rt_route_count T" and ?rs = "(rt_routes T)[rt_route_count T := r]"
  have len: "?n < length (rt_routes T)" and hinv: "hashtable_inv (rt_hashtable T)"
    using inv room by (simp_all add: route_inv_def)
  have look: "xgl_hashtable_lookup (rt_hashtable T) k = Some p \<longleftrightarrow> (\<exists>i < ?n. ri_target_id (rt_routes T ! i) = k \<and> p = (rt_generation T, i))" for k p
    by (rule route_inv_iff [OF inv])
  have old: "?rs ! j = rt_routes T ! j" if "j < ?n" for j using that by simp
  have absent: "ri_target_id (rt_routes T ! j) \<noteq> ri_target_id r" if "j < ?n" for j
    using fresh that by (simp add: find_index_None)
  show ?thesis
  proof (cases "e = XGL_OK")
    case True
    let ?T = "T \<lparr> rt_routes := ?rs, rt_hashtable := h, rt_route_count := ?n + 1 \<rparr>"
    have h: "hashtable_inv h" "xgl_hashtable_lookup h = (xgl_hashtable_lookup (rt_hashtable T))(ri_target_id r \<mapsto> (rt_generation T, ?n))"
      using ht.put_ok [OF hinv] ins True by blast+
    have "xgl_hashtable_lookup h k = Some p \<longleftrightarrow> (\<exists>i < ?n + 1. ri_target_id (?rs ! i) = k \<and> p = (rt_generation T, i))" for k p
      using absent len by (cases "k = ri_target_id r") (auto simp: h(2) less_Suc_eq look)
    then have inv': "route_inv ?T"
      using h(1) room inv by (simp add: route_inv_def)
    have upd: "((route_map T)(ri_target_id r \<mapsto> r)) k = Some v \<longleftrightarrow>
        k = ri_target_id r \<and> v = r \<or> k \<noteq> ri_target_id r \<and> route_map T k = Some v" for k v by auto
    have "route_map ?T k = Some v \<longleftrightarrow> ((route_map T)(ri_target_id r \<mapsto> r)) k = Some v" for k v
      unfolding upd route_map_eq [OF inv'] route_map_eq [OF inv]
      using absent len by (auto simp: less_Suc_eq)
    then have "route_map ?T = (route_map T)(ri_target_id r \<mapsto> r)" by (rule map_eqI)
    then show ?thesis using True inv' by simp
  next
    case False
    then have h: "e = XGL_ERR_NO_MEMORY" "h = rt_hashtable T" using ht.put_fails [OF hinv ins] by simp_all
    have inv': "route_inv (T \<lparr> rt_routes := ?rs, rt_hashtable := h \<rparr>)"
      by (rule route_inv_cong [OF inv]) (simp_all add: h(2) hinv)
    then show ?thesis
      using route_map_cong [OF inv' inv] False h by simp
  qed
qed

lemma hashtable_put_same:
  assumes "hashtable_inv h" "xgl_hashtable_lookup h k = Some v"
  shows "\<exists>h'. xgl_hashtable_insert h k (Some v) as = (XGL_OK, h', as) \<and> hashtable_inv h' \<and> xgl_hashtable_lookup h' = xgl_hashtable_lookup h"
proof -
  obtain h' where h': "xgl_hashtable_insert h k (Some v) as = (XGL_OK, h', as)"
    using ht.put_present [OF assms(1), of k v as] assms(2) by auto
  have "hashtable_inv h' \<and> xgl_hashtable_lookup h' = (xgl_hashtable_lookup h)(k \<mapsto> v)"
    by (rule ht.put_ok [OF assms(1) h'])
  then show ?thesis using h' assms(2) by auto
qed

text \<open>What one successful or failing call of \<^verbatim>\<open>xgl_route_table_add\<close> does to the map.\<close>

lemma route_add_spec:
  assumes inv: "route_inv T" and r: "ri_phy r \<noteq> None"
    and add: "xgl_route_table_add T (ri_target_id r) (ri_phy r) (ri_max_frame_size r) (ri_read_freq_hz r) (ri_metric r) as = (e, T', as')"
  shows "route_inv T' \<and> (e = XGL_OK \<and> route_map T' = (route_map T)(ri_target_id r \<mapsto> r)
                       \<or> e = XGL_ERR_NO_MEMORY \<and> route_map T' = route_map T)"
proof (cases "xgl_route_find_index T (ri_target_id r)")
  case (Some i)
  then have i: "i < rt_route_count T" "ri_target_id (rt_routes T ! i) = ri_target_id r" using find_index_Some by auto
  have r_eq: "(rt_routes T ! i) \<lparr> ri_phy := ri_phy r, ri_max_frame_size := ri_max_frame_size r,
      ri_read_freq_hz := ri_read_freq_hz r, ri_metric := ri_metric r \<rparr> = r"
    using i(2) by simp
  let ?T = "T \<lparr> rt_routes := (rt_routes T)[i := r] \<rparr>"
  have T: "route_inv ?T" "route_map ?T = (route_map T)(ri_target_id r \<mapsto> r)"
    using route_update_existing [OF inv i(1), of r] i(2) by simp_all
  obtain h where h: "xgl_hashtable_insert (rt_hashtable T) (ri_target_id r) (Some (rt_generation T, i)) as = (XGL_OK, h, as)"
    "hashtable_inv h" "xgl_hashtable_lookup h = xgl_hashtable_lookup (rt_hashtable T)"
    using hashtable_put_same [of "rt_hashtable T" "ri_target_id r" "(rt_generation T, i)" as] route_inv_lookup [OF inv i(1)]
      inv i(2) unfolding route_inv_def by auto
  have res: "e = XGL_OK" "T' = ?T \<lparr> rt_hashtable := h \<rparr>"
    using add r Some h(1) by (simp_all add: xgl_route_table_add_def r_eq)
  have inv': "route_inv T'" by (rule route_inv_cong [OF T(1)]) (simp_all add: res h)
  have "route_map T' = route_map ?T" by (rule route_map_cong [OF inv' T(1)]) (simp_all add: res)
  then show ?thesis using res(1) inv' T(2) by simp
next
  case None
  obtain e1 T1 as1 where g: "(if rt_route_count T \<ge> rt_route_capacity T then xgl_route_grow_capacity T as else (XGL_OK, T, as)) = (e1, T1, as1)"
    by (metis surj_pair)
  have g_ok: "if e1 = XGL_OK then route_inv T1 \<and> route_map T1 = route_map T \<and> rt_route_count T1 < rt_route_capacity T1
       \<and> xgl_route_find_index T1 (ri_target_id r) = None else e1 = XGL_ERR_NO_MEMORY \<and> T1 = T"
    using g route_grow_inv [OF inv, of as e1 T1 as1] inv None by (simp split: if_splits)
  obtain e2 h as2 where ins: "xgl_hashtable_insert (rt_hashtable T1) (ri_target_id r) (Some (rt_generation T1, rt_route_count T1)) as1 = (e2, h, as2)"
    by (metis surj_pair)
  show ?thesis
  proof (cases "e1 = XGL_OK")
    case False
    then show ?thesis using add r None g g_ok inv by (simp add: xgl_route_table_add_def)
  next
    case True
    have r_eq: "\<lparr> ri_target_id = ri_target_id r, ri_phy = ri_phy r, ri_max_frame_size = ri_max_frame_size r,
        ri_read_freq_hz = ri_read_freq_hz r, ri_metric = ri_metric r \<rparr> = r" by simp
    have "e = e2 \<and> T' = (let T2 = T1 \<lparr> rt_routes := (rt_routes T1)[rt_route_count T1 := r], rt_hashtable := h \<rparr>
        in if e2 = XGL_OK then T2 \<lparr> rt_route_count := rt_route_count T1 + 1 \<rparr> else T2)"
      using add r None g True ins by (auto simp: xgl_route_table_add_def Let_def r_eq split: if_splits)
    then show ?thesis
      using route_append [of T1 r as1 e2 h as2] ins g_ok True by (auto simp: Let_def split: if_splits)
  qed
qed

text \<open>The array after \<^verbatim>\<open>memmove\<close> has closed the gap at \<open>i\<close>.\<close>

lemma nth_close_gap:
  assumes "i < n" "n \<le> length rs" "j < n - 1"
  shows "mem_write rs i (mem_read rs (i + 1) (n - i - 1)) ! j = (if j < i then rs ! j else rs ! (j + 1))"
  using assms by (auto simp: nth_mem_write nth_mem_read Suc_leI)

lemma ex_close_gap:
  assumes "i < (n :: nat)"
  shows "(\<exists>j < n - 1. P (if j < i then j else j + 1) j) \<longleftrightarrow> (\<exists>m < n. m \<noteq> i \<and> P m (if m < i then m else m - 1))"
proof
  assume "\<exists>j < n - 1. P (if j < i then j else j + 1) j"
  then obtain j where j: "j < n - 1" "P (if j < i then j else j + 1) j" by blast
  then show "\<exists>m < n. m \<noteq> i \<and> P m (if m < i then m else m - 1)"
    by (intro exI [of _ "if j < i then j else j + 1"]) (auto split: if_splits)
next
  assume "\<exists>m < n. m \<noteq> i \<and> P m (if m < i then m else m - 1)"
  then obtain m where m: "m < n" "m \<noteq> i" "P m (if m < i then m else m - 1)" by blast
  then show "\<exists>j < n - 1. P (if j < i then j else j + 1) j"
    using assms by (intro exI [of _ "if m < i then m else m - 1"]) (auto split: if_splits)
qed

text \<open>Storing the pointers of the routes behind a closed gap makes the hash table right again.\<close>

lemma route_reinsert_closed:
  fixes T :: xgl_route_table
  defines "n \<equiv> rt_route_count T" and "g \<equiv> rt_generation T"
  assumes inv: "route_inv T" and i: "i < n" and h: "hashtable_inv h"
    and hk: "\<And>k p. xgl_hashtable_lookup h k = Some p \<longleftrightarrow> (\<exists>m < n. m \<noteq> i \<and> ri_target_id (rt_routes T ! m) = k \<and> p = (g, m))"
    and rs: "\<And>j. j < n - 1 \<Longrightarrow> rs ! j = rt_routes T ! (if j < i then j else j + 1)"
  shows "\<exists>h'. route_reinsert h g rs i (n - 1) as = (h', as) \<and> hashtable_inv h'
     \<and> (\<forall>k p. xgl_hashtable_lookup h' k = Some p \<longleftrightarrow> (\<exists>j < n - 1. ri_target_id (rs ! j) = k \<and> p = (g, j)))"
proof -
  have pre: "\<forall>j. i \<le> j \<and> j < n - 1 \<longrightarrow> xgl_hashtable_lookup h (ri_target_id (rs ! j)) \<noteq> None"
  proof (intro allI impI)
    fix j assume "i \<le> j \<and> j < n - 1"
    then have "xgl_hashtable_lookup h (ri_target_id (rs ! j)) = Some (g, j + 1)"
      unfolding hk using rs [of j] by (intro exI [of _ "j + 1"]) auto
    then show "xgl_hashtable_lookup h (ri_target_id (rs ! j)) \<noteq> None" by simp
  qed
  have inj: "\<forall>j j'. i \<le> j \<and> j < n - 1 \<and> i \<le> j' \<and> j' < n - 1 \<and> ri_target_id (rs ! j) = ri_target_id (rs ! j') \<longrightarrow> j = j'"
  proof (intro allI impI)
    fix j j' assume j: "i \<le> j \<and> j < n - 1 \<and> i \<le> j' \<and> j' < n - 1 \<and> ri_target_id (rs ! j) = ri_target_id (rs ! j')"
    then have "j + 1 = j' + 1" using rs by (intro route_inv_inj [OF inv, folded n_def]) auto
    then show "j = j'" by simp
  qed
  obtain h' where h': "route_reinsert h g rs i (n - 1) as = (h', as)" "hashtable_inv h'"
    "\<forall>k' p. xgl_hashtable_lookup h' k' = Some p \<longleftrightarrow>
        (\<exists>j. i \<le> j \<and> j < n - 1 \<and> ri_target_id (rs ! j) = k' \<and> p = (g, j))
        \<or> ((\<forall>j. i \<le> j \<and> j < n - 1 \<longrightarrow> ri_target_id (rs ! j) \<noteq> k') \<and> xgl_hashtable_lookup h k' = Some p)"
    using route_reinsert_spec [OF h pre inj, of g as] by (elim exE conjE) (rule that)
  have "xgl_hashtable_lookup h' k' = Some p \<longleftrightarrow> (\<exists>j < n - 1. ri_target_id (rs ! j) = k' \<and> p = (g, j))" for k' p
  proof
    assume "xgl_hashtable_lookup h' k' = Some p"
    then consider j where "i \<le> j" "j < n - 1" "ri_target_id (rs ! j) = k'" "p = (g, j)"
      | m where "\<forall>j. i \<le> j \<and> j < n - 1 \<longrightarrow> ri_target_id (rs ! j) \<noteq> k'" "m < n" "m \<noteq> i" "ri_target_id (rt_routes T ! m) = k'" "p = (g, m)"
      using h'(3) [rule_format, of k' p] hk [of k' p] by blast
    then show "\<exists>j < n - 1. ri_target_id (rs ! j) = k' \<and> p = (g, j)"
    proof cases
      case 2
      have "\<not> i < m"
      proof
        assume "i < m"
        then obtain m' where m': "m = m' + 1" "i \<le> m'" by (cases m) auto
        then show False using 2(1) [rule_format, of m'] 2(2,4) rs [of m'] by simp
      qed
      then show ?thesis using 2 rs [of m] i by (intro exI [of _ m]) auto
    qed auto
  next
    assume "\<exists>j < n - 1. ri_target_id (rs ! j) = k' \<and> p = (g, j)"
    then obtain j where j: "j < n - 1" "ri_target_id (rs ! j) = k'" "p = (g, j)" by blast
    show "xgl_hashtable_lookup h' k' = Some p"
    proof (cases "i \<le> j")
      case True
      then show ?thesis using j h'(3) [rule_format, of k' p] by blast
    next
      case False
      then have tj: "ri_target_id (rt_routes T ! j) = k'" using j rs [of j] by simp
      then have "xgl_hashtable_lookup h k' = Some p" unfolding hk using False j by (intro exI [of _ j]) auto
      moreover have "ri_target_id (rs ! m) \<noteq> k'" if "i \<le> m \<and> m < n - 1" for m
      proof
        assume "ri_target_id (rs ! m) = k'"
        then have "m + 1 = j" using that tj j rs [of m] by (intro route_inv_inj [OF inv, folded n_def]) auto
        then show False using that False by simp
      qed
      ultimately show ?thesis using h'(3) [rule_format, of k' p] by blast
    qed
  qed
  then show ?thesis using h' by blast
qed

lemma route_remove_spec:
  assumes inv: "route_inv T" and rem: "xgl_route_table_remove T k as = (e, T', as')"
  shows "if route_map T k = None then e = XGL_ERR_ROUTE_NOT_FOUND \<and> T' = T
         else e = XGL_OK \<and> route_inv T' \<and> route_map T' = (route_map T)(k := None)"
proof (cases "xgl_route_find_index T k")
  case None
  then have "route_map T k \<noteq> Some r" for r
    by (auto simp: route_map_eq [OF inv] find_index_None)
  then show ?thesis using rem None by (auto simp: xgl_route_table_remove_def)
next
  case (Some i)
  let ?n = "rt_route_count T" and ?g = "rt_generation T"
  have i: "i < ?n" "ri_target_id (rt_routes T ! i) = k" using find_index_Some [OF Some] by simp_all
  have len: "?n \<le> length (rt_routes T)" and hinv: "hashtable_inv (rt_hashtable T)"
    using inv by (simp_all add: route_inv_def)
  define rs where "rs = mem_write (rt_routes T) i (mem_read (rt_routes T) (i + 1) (?n - i - 1))"
  have lrs: "length rs = length (rt_routes T)" using i(1) len by (simp add: rs_def)
  have rs: "rs ! j = rt_routes T ! (if j < i then j else j + 1)" if "j < ?n - 1" for j
    using nth_close_gap [OF i(1) len that] by (simp add: rs_def)
  have present: "xgl_hashtable_lookup (rt_hashtable T) k \<noteq> None" using route_inv_lookup [OF inv i(1)] i(2) by simp
  obtain h where h: "xgl_hashtable_remove (rt_hashtable T) k = (XGL_OK, h)" "hashtable_inv h"
    "xgl_hashtable_lookup h = (xgl_hashtable_lookup (rt_hashtable T))(k := None)"
    using ht.del_present [OF hinv present] by blast
  have hk: "xgl_hashtable_lookup h k' = Some p \<longleftrightarrow> (\<exists>m < ?n. m \<noteq> i \<and> ri_target_id (rt_routes T ! m) = k' \<and> p = (?g, m))" for k' p
    using route_inv_iff [OF inv, of k' p] route_inv_inj [OF inv _ i(1)] i(2)
    unfolding h(3) by (cases "k' = k") auto
  have closed: "\<exists>h'. route_reinsert h ?g rs i (?n - 1) as = (h', as) \<and> hashtable_inv h'
     \<and> (\<forall>k p. xgl_hashtable_lookup h' k = Some p \<longleftrightarrow> (\<exists>j < ?n - 1. ri_target_id (rs ! j) = k \<and> p = (?g, j)))"
    by (rule route_reinsert_closed [OF inv i(1) h(2) hk]) (rule rs)
  obtain h' where h': "route_reinsert h ?g rs i (?n - 1) as = (h', as)" "hashtable_inv h'"
    and look': "\<forall>k' p. xgl_hashtable_lookup h' k' = Some p \<longleftrightarrow> (\<exists>j < ?n - 1. ri_target_id (rs ! j) = k' \<and> p = (?g, j))"
    using closed by (elim exE conjE) (rule that)
  have T': "e = XGL_OK \<and> T' = (if i < ?n - 1 then T \<lparr> rt_hashtable := h', rt_routes := rs, rt_route_count := ?n - 1 \<rparr>
      else T \<lparr> rt_hashtable := h, rt_route_count := ?n - 1 \<rparr>)"
    using rem Some h(1) h'(1) unfolding xgl_route_table_remove_def Let_def
    by (auto simp: rs_def [simplified] split: if_splits)
  have last: "h' = h" if "\<not> i < ?n - 1"
    using that h'(1) by (simp add: route_reinsert.simps [of h])
  have res: "e = XGL_OK" "rt_hashtable T' = h'" "rt_generation T' = ?g" "rt_route_count T' = ?n - 1"
    "rt_route_capacity T' = rt_route_capacity T" "length (rt_routes T') = length (rt_routes T)"
    using T' last lrs by simp_all
  have res7: "rt_routes T' ! j = rs ! j" if "j < ?n - 1" for j
    using T' that rs [OF that] i(1) by simp
  have "xgl_hashtable_lookup h' k' = Some p \<longleftrightarrow> (\<exists>j < ?n - 1. ri_target_id (rt_routes T' ! j) = k' \<and> p = (?g, j))" for k' p
    using look' [rule_format, of k' p] by (simp add: res7 cong: conj_cong)
  then have inv': "route_inv T'"
    using h'(2) inv unfolding route_inv_def by (simp add: res le_diff_conv trans_le_add1)
  have "route_map T' k' = Some r \<longleftrightarrow> ((route_map T)(k := None)) k' = Some r" for k' r
  proof -
    have "route_map T' k' = Some r \<longleftrightarrow> (\<exists>j < ?n - 1. ri_target_id (rs ! j) = k' \<and> r = rs ! j)"
      unfolding route_map_eq [OF inv'] res(4) by (simp add: res7 cong: conj_cong)
    also have "\<dots> \<longleftrightarrow> (\<exists>j < ?n - 1. ri_target_id (rt_routes T ! (if j < i then j else j + 1)) = k' \<and> r = rt_routes T ! (if j < i then j else j + 1))"
      by (simp only: rs cong: conj_cong)
    also have "\<dots> \<longleftrightarrow> (\<exists>m < ?n. m \<noteq> i \<and> ri_target_id (rt_routes T ! m) = k' \<and> r = rt_routes T ! m)"
      by (rule ex_close_gap [OF i(1)])
    also have "\<dots> \<longleftrightarrow> k' \<noteq> k \<and> route_map T k' = Some r"
      unfolding route_map_eq [OF inv] using route_inv_inj [OF inv _ i(1)] i(2) by metis
    finally show ?thesis by simp
  qed
  then have "route_map T' = (route_map T)(k := None)" by (rule map_eqI)
  moreover have "route_map T k \<noteq> None"
    using route_map_eq [OF inv, of k "rt_routes T ! i"] i by auto
  ultimately show ?thesis using inv' res(1) by auto
qed

lemma route_update_metric_spec:
  assumes inv: "route_inv T" and upd: "xgl_route_table_update_metric T k m = (e, T')"
  shows "route_inv T' \<and> (case route_map T k of None \<Rightarrow> e = XGL_ERR_ROUTE_NOT_FOUND \<and> T' = T
           | Some r \<Rightarrow> e = XGL_OK \<and> route_map T' = (route_map T)(k \<mapsto> r \<lparr> ri_metric := m \<rparr>))"
proof (cases "xgl_hashtable_lookup (rt_hashtable T) k")
  case None
  then show ?thesis
    using upd inv by (simp add: xgl_route_table_update_metric_def xgl_route_table_lookup_def route_map_def)
next
  case (Some p)
  then obtain i where i: "i < rt_route_count T" "ri_target_id (rt_routes T ! i) = k" "p = (rt_generation T, i)"
    using route_inv_iff [OF inv, of k p] by blast
  then show ?thesis
    using Some upd route_update_existing [OF inv i(1), of "(rt_routes T ! i) \<lparr> ri_metric := m \<rparr>"]
    by (auto simp: xgl_route_table_update_metric_def xgl_route_table_lookup_def route_map_def)
qed

lemma route_load_loop_spec:
  assumes "route_inv T" "\<forall>r \<in> set rs. ri_phy r \<noteq> None" "route_table_load_loop T rs as = (e, T', as')"
  shows "route_inv T' \<and> (e = XGL_OK \<and> route_map T' = route_map T ++ map_of (rev (map (\<lambda>r. (ri_target_id r, r)) rs))
           \<or> e = XGL_ERR_NO_MEMORY)"
  using assms
proof (induction rs arbitrary: T as)
  case (Cons r rs)
  obtain e1 T1 as1 where add: "xgl_route_table_add T (ri_target_id r) (ri_phy r) (ri_max_frame_size r)
      (ri_read_freq_hz r) (ri_metric r) as = (e1, T1, as1)"
    by (metis surj_pair)
  note spec = route_add_spec [OF Cons.prems(1) _ add]
  show ?case
  proof (cases "e1 = XGL_OK")
    case True
    then show ?thesis
      using Cons.IH [of T1 as1] Cons.prems spec add by (auto simp: map_add_assoc)
  next
    case False
    then show ?thesis using Cons.prems spec add by auto
  qed
qed simp

lemma route_lookup_pointer:
  assumes inv: "route_inv T"
  shows "case xgl_route_table_lookup T k of
            None \<Rightarrow> route_map T k = None
          | Some (gen, i) \<Rightarrow> gen = rt_generation T \<and> i < rt_route_count T \<and> i < length (rt_routes T)
              \<and> ri_target_id (rt_routes T ! i) = k \<and> route_map T k = Some (rt_routes T ! i)"
proof (cases "xgl_route_table_lookup T k")
  case (Some p)
  then show ?thesis
    using route_inv_iff [OF inv, of k p] inv by (auto simp: xgl_route_table_lookup_def route_map_def route_inv_def)
qed (simp add: route_map_def)

section \<open>Properties\<close>

text \<open>
  C27: The route table is a map from targets to routes, whatever the allocator answers. Starting from a table in
  its invariant, in which the pointers of the hash table point at the routes of the current array and at nothing
  else, adding a route with an interface binds it (replacing a route to the same target) or fails with
  NO_MEMORY and leaves every lookup as it was; removing unbinds exactly the target, although the routes behind it
  move in the array; updating a metric changes that one route; and a pointer that a lookup returns never dangles:
  it is into the current array, below the route count, at a route to the target looked up.
\<close>

theorem route_table_is_a_map:
  assumes inv: "route_inv T" and r: "ri_phy r \<noteq> None"
  shows "(case xgl_route_table_add T (ri_target_id r) (ri_phy r) (ri_max_frame_size r) (ri_read_freq_hz r) (ri_metric r) allocs of
            (e, T', _) \<Rightarrow> route_inv T' \<and> (e = XGL_OK \<and> route_map T' = (route_map T)(ri_target_id r \<mapsto> r)
                                       \<or> e = XGL_ERR_NO_MEMORY \<and> route_map T' = route_map T))
       \<and> (case xgl_route_table_remove T k allocs of
            (e, T', _) \<Rightarrow> route_inv T' \<and> route_map T' = (route_map T)(k := None)
                        \<and> e = (if route_map T k = None then XGL_ERR_ROUTE_NOT_FOUND else XGL_OK))
       \<and> (case xgl_route_table_update_metric T k m of
            (e, T') \<Rightarrow> route_inv T' \<and> route_map T' = (route_map T)(k := map_option (\<lambda>r. r \<lparr> ri_metric := m \<rparr>) (route_map T k))
                     \<and> e = (if route_map T k = None then XGL_ERR_ROUTE_NOT_FOUND else XGL_OK))
       \<and> (case xgl_route_table_lookup T k of
            None \<Rightarrow> route_map T k = None
          | Some (gen, i) \<Rightarrow> gen = rt_generation T \<and> i < rt_route_count T \<and> i < length (rt_routes T)
              \<and> ri_target_id (rt_routes T ! i) = k \<and> route_map T k = Some (rt_routes T ! i))"
proof (intro conjI)
  show "case xgl_route_table_add T (ri_target_id r) (ri_phy r) (ri_max_frame_size r) (ri_read_freq_hz r) (ri_metric r) allocs of
            (e, T', _) \<Rightarrow> route_inv T' \<and> (e = XGL_OK \<and> route_map T' = (route_map T)(ri_target_id r \<mapsto> r)
                                       \<or> e = XGL_ERR_NO_MEMORY \<and> route_map T' = route_map T)"
    using route_add_spec [OF inv r] by (auto split: prod.split)
  show "case xgl_route_table_remove T k allocs of
            (e, T', _) \<Rightarrow> route_inv T' \<and> route_map T' = (route_map T)(k := None)
                        \<and> e = (if route_map T k = None then XGL_ERR_ROUTE_NOT_FOUND else XGL_OK)"
    using route_remove_spec [OF inv, of k allocs] inv by (fastforce split: prod.split if_splits)
  show "case xgl_route_table_update_metric T k m of
            (e, T') \<Rightarrow> route_inv T' \<and> route_map T' = (route_map T)(k := map_option (\<lambda>r. r \<lparr> ri_metric := m \<rparr>) (route_map T k))
                     \<and> e = (if route_map T k = None then XGL_ERR_ROUTE_NOT_FOUND else XGL_OK)"
    using route_update_metric_spec [OF inv, of k m] by (fastforce split: prod.split option.splits)
  show "case xgl_route_table_lookup T k of
            None \<Rightarrow> route_map T k = None
          | Some (gen, i) \<Rightarrow> gen = rt_generation T \<and> i < rt_route_count T \<and> i < length (rt_routes T)
              \<and> ri_target_id (rt_routes T ! i) = k \<and> route_map T k = Some (rt_routes T ! i)"
    by (rule route_lookup_pointer [OF inv])
qed

definition route_to :: "u16 \<Rightarrow> xgl_route_item" where
  "route_to k = \<lparr> ri_target_id = k, ri_phy = Some 0, ri_max_frame_size = 256, ri_read_freq_hz = 100, ri_metric = 1 \<rparr>"

definition sample_table :: xgl_route_table where
  "sample_table = fst (snd (xgl_route_table_init 1 [True, True]))"

theorem route_table_is_a_map_witness:
  "case xgl_route_table_add sample_table 5 (Some 0) 256 100 1 [True] of
     (e, T, _) \<Rightarrow> e = XGL_OK \<and> route_inv T \<and> route_map T 5 = Some (route_to 5)"
proof -
  have "xgl_route_table_init 1 [True, True] = (XGL_OK, sample_table, [])"
    by code_simp
  then have "route_inv sample_table" using route_init_inv by blast
  from route_table_is_a_map [OF this, of "route_to 5" "[True]", THEN conjunct1]
  have "case xgl_route_table_add sample_table 5 (Some 0) 256 100 1 [True] of (e, T, _) \<Rightarrow> route_inv T \<and>
     (e = XGL_OK \<and> route_map T = (route_map sample_table)(5 \<mapsto> route_to 5) \<or> e = XGL_ERR_NO_MEMORY \<and> route_map T = route_map sample_table)"
    by (simp add: route_to_def)
  moreover have "fst (xgl_route_table_add sample_table 5 (Some 0) 256 100 1 [True]) = XGL_OK"
    by code_simp
  ultimately show ?thesis by (auto split: prod.splits)
qed

end
