(* ===== verification/Xgl_Reliable.thy ===== *)
theory Xgl_Reliable
  imports Xgl_Hashtable Xgl_Wire
begin

text \<open>
  The queue of packets that wait for an acknowledgement, \<^verbatim>\<open>src/transport/xgl_reliable*.c\<close>. Packets live in a
  store that maps addresses to packets; the wait list and the chains of the lookup index are
  lists of addresses, so that the two structures share packets as they do in the code, and
  freeing a packet removes its address from the store. The theorems show that list, index and
  store always agree, which packets an acknowledgement removes, and what a timeout pass does.
\<close>

section \<open>The code\<close>

abbreviation (input) "XGL_RELIABLE_INDEX_BUCKETS \<equiv> (32 :: nat)"

record xgl_reliable_packet =
  rp_data :: bytes
  rp_source_id :: u16
  rp_target_id :: u16
  rp_packet_number :: u32
  rp_session_id :: u16
  rp_connection_id :: u32
  rp_session_epoch :: u32
  rp_data_type :: u8
  rp_packet_type :: u8
  rp_flags :: u8
  rp_fragment :: bool
  rp_priority :: u8
  rp_extensions :: "bytes option"
  rp_retry_count :: u8
  rp_send_timestamp :: u32
  rp_timeout_ms :: int
  rp_initial_timeout_ms :: int
  rp_phy :: "nat option"

record xgl_reliable_queue =
  rq_wait_ack_list :: "nat list"
  rq_index_buckets :: "nat list list"
  rq_max_retry_count :: u8
  rq_heap :: "nat \<rightharpoonup> xgl_reliable_packet"
  rq_next_addr :: nat

definition xgl_reliable_init :: "u8 \<Rightarrow> xgl_reliable_queue" where
  "xgl_reliable_init max_retry_count =
     \<lparr> rq_wait_ack_list = [], rq_index_buckets = replicate XGL_RELIABLE_INDEX_BUCKETS [],
       rq_max_retry_count = max_retry_count, rq_heap = Map.empty, rq_next_addr = 0 \<rparr>"

definition reliable_index_bucket :: "u16 \<Rightarrow> u32 \<Rightarrow> nat" where
  "reliable_index_bucket target_id packet_number =
     (let mixed = packet_number XOR (ucast target_id * 2654435761) in unat (mixed mod 32))"

text \<open>The packet at an address of the store.\<close>

abbreviation packet_at :: "xgl_reliable_queue \<Rightarrow> nat \<Rightarrow> xgl_reliable_packet" where
  "packet_at q a \<equiv> the (rq_heap q a)"

definition packet_bucket :: "xgl_reliable_packet \<Rightarrow> nat" where
  "packet_bucket p = reliable_index_bucket (rp_target_id p) (rp_packet_number p)"

definition reliable_index_packet :: "xgl_reliable_queue \<Rightarrow> nat \<Rightarrow> xgl_reliable_queue" where
  "reliable_index_packet q a =
     (let bucket = packet_bucket (packet_at q a)
      in q \<lparr> rq_index_buckets := (rq_index_buckets q)[bucket := a # rq_index_buckets q ! bucket] \<rparr>)"

definition reliable_unindex_packet :: "xgl_reliable_queue \<Rightarrow> nat \<Rightarrow> xgl_reliable_queue" where
  "reliable_unindex_packet q a =
     (let bucket = packet_bucket (packet_at q a)
      in q \<lparr> rq_index_buckets := (rq_index_buckets q)[bucket := remove1 a (rq_index_buckets q ! bucket)] \<rparr>)"

definition reliable_free_packet :: "xgl_reliable_queue \<Rightarrow> nat \<Rightarrow> xgl_reliable_queue" where
  "reliable_free_packet q a = q \<lparr> rq_heap := (rq_heap q)(a := None) \<rparr>"

definition reliable_list_remove :: "xgl_reliable_queue \<Rightarrow> nat \<Rightarrow> xgl_reliable_queue" where
  "reliable_list_remove q a = q \<lparr> rq_wait_ack_list := remove1 a (rq_wait_ack_list q) \<rparr>"

definition xgl_reliable_find_packet_number :: "xgl_reliable_queue \<Rightarrow> u32 \<Rightarrow> u16 \<Rightarrow> nat option" where
  "xgl_reliable_find_packet_number q packet_number target_id =
     List.find (\<lambda>a. rp_packet_number (packet_at q a) = packet_number \<and> rp_target_id (packet_at q a) = target_id)
       (rq_index_buckets q ! reliable_index_bucket target_id packet_number)"

definition xgl_reliable_add_packet_number ::
  "xgl_reliable_queue \<Rightarrow> bytes option \<Rightarrow> nat \<Rightarrow> u16 \<Rightarrow> u16 \<Rightarrow> u32 \<Rightarrow> u8 \<Rightarrow> u8 \<Rightarrow> int \<Rightarrow> nat option \<Rightarrow> bool list
     \<Rightarrow> xgl_error \<times> xgl_reliable_queue \<times> bool list" where
  "xgl_reliable_add_packet_number q data data_len source_id target_id packet_number data_type priority timeout_ms phy allocs =
     (case data of
        None \<Rightarrow> (XGL_ERR_INVALID_PARAM, q, allocs)
      | Some d \<Rightarrow>
          if data_len = 0 then (XGL_ERR_INVALID_PARAM, q, allocs)
          else
            (case take_alloc allocs of
               (False, allocs) \<Rightarrow> (XGL_ERR_NO_MEMORY, q, allocs)
             | (True, allocs) \<Rightarrow>
                 (case take_alloc allocs of
                    (False, allocs) \<Rightarrow> (XGL_ERR_NO_MEMORY, q, allocs)
                  | (True, allocs) \<Rightarrow>
                      let packet =
                            \<lparr> rp_data = mem_read d 0 data_len, rp_source_id = source_id, rp_target_id = target_id,
                              rp_packet_number = packet_number, rp_session_id = 0, rp_connection_id = 0,
                              rp_session_epoch = 0, rp_data_type = data_type,
                              rp_packet_type = XGL_PACKET_TYPE_DATA, rp_flags = 0, rp_fragment = False,
                              rp_priority = priority, rp_extensions = None, rp_retry_count = 0,
                              rp_send_timestamp = 0, rp_timeout_ms = timeout_ms,
                              rp_initial_timeout_ms = timeout_ms, rp_phy = phy \<rparr>;
                          a = rq_next_addr q;
                          q = q \<lparr> rq_heap := (rq_heap q)(a \<mapsto> packet), rq_next_addr := a + 1 \<rparr>;
                          q = q \<lparr> rq_wait_ack_list := rq_wait_ack_list q @ [a] \<rparr>
                      in (XGL_OK, reliable_index_packet q a, allocs))))"

definition xgl_reliable_remove_packet_number ::
  "xgl_reliable_queue \<Rightarrow> u32 \<Rightarrow> u16 \<Rightarrow> xgl_error \<times> xgl_reliable_queue" where
  "xgl_reliable_remove_packet_number q packet_number target_id =
     (case xgl_reliable_find_packet_number q packet_number target_id of
        Some a \<Rightarrow> (XGL_OK, reliable_free_packet (reliable_list_remove (reliable_unindex_packet q a) a) a)
      | None \<Rightarrow> (XGL_ERR_SEQUENCE_ERROR, q))"

definition xgl_reliable_get_count :: "xgl_reliable_queue \<Rightarrow> nat" where
  "xgl_reliable_get_count q = length (rq_wait_ack_list q)"

definition xgl_reliable_is_empty :: "xgl_reliable_queue \<Rightarrow> bool" where
  "xgl_reliable_is_empty q \<longleftrightarrow> rq_wait_ack_list q = []"

function reliable_clear_loop :: "xgl_reliable_queue \<Rightarrow> xgl_reliable_queue" where
  "reliable_clear_loop q =
     (case rq_wait_ack_list q of
        [] \<Rightarrow> q
      | a # as \<Rightarrow>
          reliable_clear_loop
            (reliable_free_packet (reliable_unindex_packet (q \<lparr> rq_wait_ack_list := as \<rparr>) a) a))"
  by pat_completeness auto
termination
  by (relation "measure (\<lambda>q. length (rq_wait_ack_list q))")
     (auto simp: reliable_free_packet_def reliable_unindex_packet_def Let_def)

declare reliable_clear_loop.simps [simp del]

definition xgl_reliable_clear :: "xgl_reliable_queue \<Rightarrow> xgl_reliable_queue" where
  "xgl_reliable_clear q =
     reliable_clear_loop q \<lparr> rq_index_buckets := replicate XGL_RELIABLE_INDEX_BUCKETS [] \<rparr>"

text \<open>The packet is known by its address; its old extensions are freed before the new ones are stored.\<close>

definition xgl_reliable_set_packet_extensions ::
  "xgl_reliable_queue \<Rightarrow> nat option \<Rightarrow> bytes option \<Rightarrow> nat \<Rightarrow> bool list \<Rightarrow> xgl_error \<times> xgl_reliable_queue \<times> bool list" where
  "xgl_reliable_set_packet_extensions q packet extensions extensions_len allocs =
     (case packet of
        None \<Rightarrow> (XGL_ERR_NULL_POINTER, q, allocs)
      | Some a \<Rightarrow>
          if extensions = None \<and> extensions_len > 0 then (XGL_ERR_INVALID_PARAM, q, allocs)
          else
            let store = (\<lambda>e. q \<lparr> rq_heap := (rq_heap q)(a \<mapsto> packet_at q a \<lparr> rp_extensions := e \<rparr>) \<rparr>)
            in if extensions_len = 0 then (XGL_OK, store None, allocs)
               else (case take_alloc allocs of
                       (False, allocs) \<Rightarrow> (XGL_ERR_NO_MEMORY, store None, allocs)
                     | (True, allocs) \<Rightarrow> (XGL_OK, store (Some (mem_read (the extensions) 0 extensions_len)), allocs)))"

text \<open>
  The loop from \<open>packet_number\<close> down to \<open>low\<close>. The 64-bit counters stay below \<open>2 ^ 32\<close>, so
  they are naturals; the conversion of the counter to 32 bits is kept. The loop is entered with
  \<open>low \<le> packet_number\<close>, so that \<open>packet_number \<le> low\<close> is the code's test for equality.
\<close>

function remove_range_loop ::
  "xgl_reliable_queue \<Rightarrow> u16 \<Rightarrow> nat \<Rightarrow> nat \<Rightarrow> nat \<Rightarrow> nat \<times> xgl_reliable_queue" where
  "remove_range_loop q target_id packet_number low removed =
     (case xgl_reliable_remove_packet_number q (word_of_nat packet_number) target_id of
        (err, q) \<Rightarrow>
          let removed = (if err = XGL_OK then removed + 1 else removed)
          in if packet_number \<le> low then (removed, q)
             else remove_range_loop q target_id (packet_number - 1) low removed)"
  by pat_completeness auto
termination
  by (relation "measure (\<lambda>(q, target_id, packet_number, low, removed). packet_number - low)") auto

declare remove_range_loop.simps [simp del]

fun remove_ack_ranges_loop ::
  "xgl_reliable_queue \<Rightarrow> u16 \<Rightarrow> nat \<Rightarrow> nat \<Rightarrow> nat \<Rightarrow> xgl_wire_ack_range list \<Rightarrow> nat \<times> xgl_reliable_queue" where
  "remove_ack_ranges_loop q target_id i next_high removed [] = (removed, q)"
| "remove_ack_ranges_loop q target_id i next_high removed (r # rs) =
     (if ar_length r = 0 then remove_ack_ranges_loop q target_id (i + 1) next_high removed rs
      else
        let skip = unat (ar_gap r) + 1
        in if i > 0 \<and> next_high < skip then (removed, q)
           else
             let high = (if i > 0 then next_high - skip else next_high);
                 low = (if high + 1 > unat (ar_length r) then high - unat (ar_length r) + 1 else 0)
             in (case remove_range_loop q target_id high low removed of
                   (removed, q) \<Rightarrow> remove_ack_ranges_loop q target_id (i + 1) low removed rs))"

definition xgl_reliable_remove_ack_ranges ::
  "xgl_reliable_queue \<Rightarrow> u16 \<Rightarrow> u32 \<Rightarrow> xgl_wire_ack_range list option \<Rightarrow> nat \<Rightarrow> nat \<times> xgl_reliable_queue" where
  "xgl_reliable_remove_ack_ranges q target_id largest_ack ranges range_count =
     (case ranges of
        None \<Rightarrow> (0, q)
      | Some rs \<Rightarrow> remove_ack_ranges_loop q target_id 0 (unat largest_ack) 0 (take range_count rs))"

text \<open>Timeouts are 32-bit signed integers, modelled as integers (see the property on the backoff).\<close>

fun backoff_loop :: "nat \<Rightarrow> int \<Rightarrow> int" where
  "backoff_loop 0 backoff = backoff"
| "backoff_loop (Suc n) backoff =
     (let backoff = backoff * 2 in if backoff > 30000 then 30000 else backoff_loop n backoff)"

definition xgl_reliable_calc_backoff :: "int \<Rightarrow> u8 \<Rightarrow> int" where
  "xgl_reliable_calc_backoff initial_timeout_ms retry_count =
     backoff_loop (unat (if retry_count > 10 then 10 else retry_count)) initial_timeout_ms"

text \<open>
  The timeout pass. \<open>has_tx\<close> tells which physical interfaces have a \<^verbatim>\<open>tx\<close> function; the transmissions are
  returned as a list. \<open>want\<close> says whether the caller passed a place for an exhausted packet.
\<close>

fun process_timeouts_loop ::
  "(nat \<Rightarrow> bool) \<Rightarrow> bool \<Rightarrow> u32 \<Rightarrow> nat list \<Rightarrow> xgl_reliable_queue \<Rightarrow> nat option \<Rightarrow> (nat \<times> bytes) list
     \<Rightarrow> xgl_reliable_queue \<times> nat option \<times> (nat \<times> bytes) list" where
  "process_timeouts_loop has_tx want now [] q exhausted sent = (q, exhausted, sent)"
| "process_timeouts_loop has_tx want now (a # as) q exhausted sent =
     (let packet = packet_at q a
      in if rp_send_timestamp packet = 0 then process_timeouts_loop has_tx want now as q exhausted sent
         else if now - rp_send_timestamp packet \<ge> word_of_int (rp_timeout_ms packet)
         then if rp_retry_count packet \<ge> rq_max_retry_count q
              then let q = reliable_unindex_packet (reliable_list_remove q a) a
                   in if want \<and> exhausted = None then process_timeouts_loop has_tx want now as q (Some a) sent
                      else process_timeouts_loop has_tx want now as (reliable_free_packet q a) exhausted sent
              else let retry_count = rp_retry_count packet + 1;
                       packet = packet \<lparr> rp_retry_count := retry_count,
                                  rp_timeout_ms := xgl_reliable_calc_backoff (rp_initial_timeout_ms packet) retry_count,
                                  rp_send_timestamp := now \<rparr>;
                       q = q \<lparr> rq_heap := (rq_heap q)(a \<mapsto> packet) \<rparr>
                   in (case rp_phy packet of
                         Some phy \<Rightarrow> if has_tx phy
                           then process_timeouts_loop has_tx want now as q exhausted (sent @ [(phy, rp_data packet)])
                           else process_timeouts_loop has_tx want now as q exhausted sent
                       | None \<Rightarrow> process_timeouts_loop has_tx want now as q exhausted sent)
         else process_timeouts_loop has_tx want now as q exhausted sent)"

definition xgl_reliable_process_timeouts ::
  "(nat \<Rightarrow> bool) \<Rightarrow> xgl_reliable_queue \<Rightarrow> u32 \<Rightarrow> bool
     \<Rightarrow> u32 \<times> xgl_reliable_queue \<times> nat option \<times> (nat \<times> bytes) list" where
  "xgl_reliable_process_timeouts has_tx q current_time_ms want =
     (case process_timeouts_loop has_tx want current_time_ms (rq_wait_ack_list q) q None [] of
        (q, exhausted, sent) \<Rightarrow> (word_of_nat (length sent), q, exhausted, sent))"

section \<open>Invariant: list, index and store agree\<close>

definition rq_inv :: "xgl_reliable_queue \<Rightarrow> bool" where
  "rq_inv q \<longleftrightarrow>
     distinct (rq_wait_ack_list q) \<and> set (rq_wait_ack_list q) \<subseteq> dom (rq_heap q)
     \<and> length (rq_index_buckets q) = XGL_RELIABLE_INDEX_BUCKETS
     \<and> (\<forall>b < XGL_RELIABLE_INDEX_BUCKETS. distinct (rq_index_buckets q ! b)
          \<and> set (rq_index_buckets q ! b) = {a \<in> set (rq_wait_ack_list q). packet_bucket (packet_at q a) = b})
     \<and> (\<forall>a \<in> dom (rq_heap q). a < rq_next_addr q)"

lemmas rq_unlink_defs = reliable_unindex_packet_def reliable_list_remove_def reliable_free_packet_def Let_def

lemma packet_bucket_less [simp]: "packet_bucket p < 32"
proof -
  have "unat (x mod 32) < 32" for x :: u32 by (simp add: unat_mod)
  then show ?thesis by (simp add: packet_bucket_def reliable_index_bucket_def Let_def)
qed

lemma rq_invD:
  assumes "rq_inv q"
  shows "distinct (rq_wait_ack_list q)" "length (rq_index_buckets q) = 32"
    "\<And>a. a \<in> set (rq_wait_ack_list q) \<Longrightarrow> \<exists>p. rq_heap q a = Some p"
    "\<And>b. b < 32 \<Longrightarrow> distinct (rq_index_buckets q ! b)"
    "\<And>b. b < 32 \<Longrightarrow> set (rq_index_buckets q ! b) = {a \<in> set (rq_wait_ack_list q). packet_bucket (packet_at q a) = b}"
    "\<And>a p. rq_heap q a = Some p \<Longrightarrow> a < rq_next_addr q"
  using assms by (auto simp: rq_inv_def dom_def)

lemma rq_init_inv: "rq_inv (xgl_reliable_init n)"
  by (simp add: rq_inv_def xgl_reliable_init_def)

text \<open>Taking a packet out of the list and the index, in either order, keeps the invariant.\<close>

definition unlinked :: "xgl_reliable_queue \<Rightarrow> nat \<Rightarrow> xgl_reliable_queue" where
  "unlinked q a = reliable_list_remove (reliable_unindex_packet q a) a"

lemma unlink_comm: "reliable_unindex_packet (reliable_list_remove q a) a = unlinked q a"
  by (simp add: unlinked_def rq_unlink_defs)

lemma unlinked_simps [simp]:
  "rq_heap (unlinked q a) = rq_heap q" "rq_next_addr (unlinked q a) = rq_next_addr q"
  "rq_max_retry_count (unlinked q a) = rq_max_retry_count q"
  "rq_wait_ack_list (unlinked q a) = remove1 a (rq_wait_ack_list q)"
  by (simp_all add: unlinked_def rq_unlink_defs)

lemma freed_simps [simp]:
  "rq_heap (reliable_free_packet q a) = (rq_heap q)(a := None)" "rq_next_addr (reliable_free_packet q a) = rq_next_addr q"
  "rq_max_retry_count (reliable_free_packet q a) = rq_max_retry_count q"
  "rq_wait_ack_list (reliable_free_packet q a) = rq_wait_ack_list q"
  "rq_index_buckets (reliable_free_packet q a) = rq_index_buckets q"
  by (simp_all add: reliable_free_packet_def)

lemma unlinked_inv:
  assumes inv: "rq_inv q"
  shows "rq_inv (unlinked q a)"
proof -
  note D = rq_invD [OF inv]
  let ?b = "packet_bucket (packet_at q a)"
  have buckets: "rq_index_buckets (unlinked q a) = (rq_index_buckets q)[?b := remove1 a (rq_index_buckets q ! ?b)]"
    by (simp add: unlinked_def rq_unlink_defs)
  have "distinct (rq_index_buckets (unlinked q a) ! b) \<and>
      set (rq_index_buckets (unlinked q a) ! b) = {x \<in> set (remove1 a (rq_wait_ack_list q)). packet_bucket (packet_at q x) = b}"
    if "b < 32" for b
    using D(4) [OF that] D(5) [OF that] D(1,2) by (cases "b = ?b") (auto simp: buckets set_remove1_eq)
  then show ?thesis
    using inv set_remove1_subset [of a "rq_wait_ack_list q"] by (auto simp: rq_inv_def buckets)
qed

lemma freed_inv:
  assumes "rq_inv q" "a \<notin> set (rq_wait_ack_list q)"
  shows "rq_inv (reliable_free_packet q a)"
  using assms by (fastforce simp: rq_inv_def)

lemma rq_update_inv:
  assumes inv: "rq_inv q" and p: "rq_heap q a = Some p" "packet_bucket p' = packet_bucket p"
  shows "rq_inv (q \<lparr> rq_heap := (rq_heap q)(a \<mapsto> p') \<rparr>)"
proof -
  have "packet_bucket (the (((rq_heap q)(a \<mapsto> p')) x)) = packet_bucket (packet_at q x)" for x
    using p by simp
  then show ?thesis
    using inv p(1) by (auto simp: rq_inv_def)
qed

lemma rq_add_inv:
  assumes inv: "rq_inv q"
    and q': "q' = reliable_index_packet (q \<lparr> rq_heap := (rq_heap q)(rq_next_addr q \<mapsto> p), rq_next_addr := rq_next_addr q + 1,
                   rq_wait_ack_list := rq_wait_ack_list q @ [rq_next_addr q] \<rparr>) (rq_next_addr q)"
  shows "rq_inv q' \<and> rq_wait_ack_list q' = rq_wait_ack_list q @ [rq_next_addr q]
     \<and> rq_heap q' = (rq_heap q)(rq_next_addr q \<mapsto> p) \<and> rq_max_retry_count q' = rq_max_retry_count q
     \<and> rq_next_addr q \<notin> set (rq_wait_ack_list q)"
proof -
  note D = rq_invD [OF inv]
  define a where "a = rq_next_addr q"
  have "rq_heap q a = None" using D(6) [of a] by (cases "rq_heap q a") (auto simp: a_def)
  then have new: "a \<notin> set (rq_wait_ack_list q)" using D(3) by fastforce
  have f: "rq_wait_ack_list q' = rq_wait_ack_list q @ [a]" "rq_heap q' = (rq_heap q)(a \<mapsto> p)"
      "rq_next_addr q' = a + 1" "rq_max_retry_count q' = rq_max_retry_count q"
      "rq_index_buckets q' = (rq_index_buckets q)[packet_bucket p := a # rq_index_buckets q ! packet_bucket p]"
    by (simp_all add: q' reliable_index_packet_def Let_def a_def)
  have old: "set (rq_index_buckets q ! b) = {x \<in> set (rq_wait_ack_list q). packet_bucket (the (((rq_heap q)(a \<mapsto> p)) x)) = b}"
    if "b < 32" for b
    unfolding D(5) [OF that] using new by auto
  have "distinct (rq_index_buckets q' ! b) \<and>
      set (rq_index_buckets q' ! b) = {x \<in> set (rq_wait_ack_list q @ [a]). packet_bucket (packet_at q' x) = b}"
    if b: "b < 32" for b
  proof (cases "b = packet_bucket p")
    case True
    then have "rq_index_buckets q' ! b = a # rq_index_buckets q ! b" using D(2) by (simp add: f)
    then show ?thesis using D(4) [OF b] old [OF b] new True by (auto simp: f)
  next
    case False
    then have "rq_index_buckets q' ! b = rq_index_buckets q ! b" by (simp add: f)
    then show ?thesis using D(4) [OF b] old [OF b] False by (auto simp: f)
  qed
  then have "rq_inv q'"
    using inv new unfolding rq_inv_def f(1) by (auto simp: f(2-) a_def less_Suc_eq)
  then show ?thesis using f new by (simp add: a_def)
qed

section \<open>Finding and removing one packet\<close>

definition packet_key :: "xgl_reliable_packet \<Rightarrow> u16 \<times> u32" where
  "packet_key p = (rp_target_id p, rp_packet_number p)"

text \<open>No two waiting packets have the same target and number.\<close>

definition rq_unique :: "xgl_reliable_queue \<Rightarrow> bool" where
  "rq_unique q \<longleftrightarrow> inj_on (\<lambda>a. packet_key (packet_at q a)) (set (rq_wait_ack_list q))"

lemma packet_bucket_key: "packet_key p = (t, n) \<Longrightarrow> packet_bucket p = reliable_index_bucket t n"
  by (auto simp: packet_key_def packet_bucket_def)

lemma find_packet_iff:
  "xgl_reliable_find_packet_number q n t =
     List.find (\<lambda>a. packet_key (packet_at q a) = (t, n)) (rq_index_buckets q ! reliable_index_bucket t n)"
  by (simp add: xgl_reliable_find_packet_number_def packet_key_def conj_commute)

lemma find_packet_Some:
  assumes "rq_inv q" "xgl_reliable_find_packet_number q n t = Some a"
  shows "a \<in> set (rq_wait_ack_list q) \<and> packet_key (packet_at q a) = (t, n)"
proof -
  have a: "a \<in> set (rq_index_buckets q ! reliable_index_bucket t n)" "packet_key (packet_at q a) = (t, n)"
    using assms(2) by (auto simp: find_packet_iff find_Some_iff)
  then have "reliable_index_bucket t n < 32" using packet_bucket_less [of "packet_at q a"] packet_bucket_key by simp
  then show ?thesis using a rq_invD(5) [OF assms(1)] by blast
qed

lemma find_packet_None:
  assumes "rq_inv q" "xgl_reliable_find_packet_number q n t = None" "a \<in> set (rq_wait_ack_list q)"
  shows "packet_key (packet_at q a) \<noteq> (t, n)"
proof
  assume k: "packet_key (packet_at q a) = (t, n)"
  then have b: "packet_bucket (packet_at q a) = reliable_index_bucket t n" by (rule packet_bucket_key)
  then have "reliable_index_bucket t n < 32" using packet_bucket_less [of "packet_at q a"] by simp
  then have "a \<in> set (rq_index_buckets q ! reliable_index_bucket t n)"
    using rq_invD(5) [OF assms(1)] b assms(3) by blast
  then show False using assms(2) k by (auto simp: find_packet_iff find_None_iff)
qed

text \<open>\<open>removed_keys q S q'\<close>: the queue \<open>q'\<close> is \<open>q\<close> without the packets whose key is in \<open>S\<close>, which are freed.\<close>

definition removed_keys :: "xgl_reliable_queue \<Rightarrow> (u16 \<times> u32) set \<Rightarrow> xgl_reliable_queue \<Rightarrow> bool" where
  "removed_keys q S q' \<longleftrightarrow>
     rq_inv q' \<and> rq_unique q' \<and> rq_max_retry_count q' = rq_max_retry_count q
     \<and> rq_wait_ack_list q' = filter (\<lambda>a. packet_key (packet_at q a) \<notin> S) (rq_wait_ack_list q)
     \<and> rq_heap q' = (\<lambda>a. if a \<in> set (rq_wait_ack_list q) \<and> packet_key (packet_at q a) \<in> S then None else rq_heap q a)"

lemma removed_keys_empty: "rq_inv q \<Longrightarrow> rq_unique q \<Longrightarrow> removed_keys q {} q"
  by (simp add: removed_keys_def)

lemma removed_keys_trans:
  assumes "removed_keys q S q1" "removed_keys q1 S' q2"
  shows "removed_keys q (S \<union> S') q2"
proof -
  have at: "packet_at q1 a = packet_at q a" if "a \<in> set (rq_wait_ack_list q)" "packet_key (packet_at q a) \<notin> S" for a
    using assms(1) that by (simp add: removed_keys_def)
  have "rq_wait_ack_list q2 = filter (\<lambda>a. packet_key (packet_at q a) \<notin> S \<union> S') (rq_wait_ack_list q)"
    using assms at unfolding removed_keys_def by (auto intro!: filter_cong)
  moreover have "rq_heap q2 = (\<lambda>a. if a \<in> set (rq_wait_ack_list q) \<and> packet_key (packet_at q a) \<in> S \<union> S' then None else rq_heap q a)"
    using assms at unfolding removed_keys_def by auto
  ultimately show ?thesis using assms unfolding removed_keys_def by simp
qed

lemma removed_keys_length: "removed_keys q S q' \<Longrightarrow> length (rq_wait_ack_list q') \<le> length (rq_wait_ack_list q)"
  by (simp add: removed_keys_def)

lemma remove_packet_spec:
  assumes inv: "rq_inv q" and uniq: "rq_unique q" and rem: "xgl_reliable_remove_packet_number q n t = (e, q')"
  shows "removed_keys q {(t, n)} q'
       \<and> length (rq_wait_ack_list q) = length (rq_wait_ack_list q') + (if e = XGL_OK then 1 else 0)"
proof (cases "xgl_reliable_find_packet_number q n t")
  case None
  then have q': "q' = q" "e = XGL_ERR_SEQUENCE_ERROR" using rem by (simp_all add: xgl_reliable_remove_packet_number_def)
  have "removed_keys q {(t, n)} q"
    unfolding removed_keys_def using find_packet_None [OF inv None] inv uniq
    by (intro conjI ext) (auto simp: filter_id_conv)
  then show ?thesis by (simp add: q')
next
  case (Some a)
  note a = find_packet_Some [OF inv Some]
  have q': "q' = reliable_free_packet (unlinked q a) a" "e = XGL_OK"
    using rem Some by (simp_all add: xgl_reliable_remove_packet_number_def unlinked_def)
  have other: "packet_key (packet_at q x) = (t, n) \<longleftrightarrow> x = a" if "x \<in> set (rq_wait_ack_list q)" for x
    using uniq a that unfolding rq_unique_def by (metis inj_onD)
  have dist: "distinct (rq_wait_ack_list q)" by (rule rq_invD(1) [OF inv])
  then have "a \<notin> set (rq_wait_ack_list (unlinked q a))" by simp
  then have inv': "rq_inv q'" unfolding q'(1) by (rule freed_inv [OF unlinked_inv [OF inv]])
  have "rq_unique q'"
    using uniq dist unfolding rq_unique_def by (auto simp: q' inj_on_def)
  moreover have "rq_wait_ack_list q' = filter (\<lambda>x. packet_key (packet_at q x) \<noteq> (t, n)) (rq_wait_ack_list q)"
    using other dist by (auto simp: q' distinct_remove1_removeAll removeAll_filter_not_eq intro!: filter_cong)
  moreover have "rq_heap q' = (\<lambda>x. if x \<in> set (rq_wait_ack_list q) \<and> packet_key (packet_at q x) \<in> {(t, n)} then None else rq_heap q x)"
    using other a by (intro ext) (auto simp: q')
  moreover have "rq_max_retry_count q' = rq_max_retry_count q" by (simp add: q')
  ultimately have "removed_keys q {(t, n)} q'"
    using inv' by (simp add: removed_keys_def)
  then show ?thesis
    using a length_pos_if_in_set [of a "rq_wait_ack_list q"] by (simp add: q' length_remove1)
qed

section \<open>Acknowledged ranges\<close>

definition range_keys :: "u16 \<Rightarrow> nat \<Rightarrow> nat \<Rightarrow> (u16 \<times> u32) set" where
  "range_keys t low high = {(t', n). t' = t \<and> low \<le> unat n \<and> unat n \<le> high}"

lemma range_keys_single: "k < 2 ^ 32 \<Longrightarrow> range_keys t k k = {(t, word_of_nat k)}"
proof -
  assume k: "k < 2 ^ 32"
  have "k \<le> unat n \<and> unat n \<le> k \<longleftrightarrow> n = word_of_nat k" for n :: u32
    using k by (auto simp: unat_of_nat take_bit_nat_eq_self word_eq_iff_unsigned)
  then show ?thesis by (auto simp: range_keys_def)
qed

lemma range_keys_split: "low < high \<Longrightarrow> high < 2 ^ 32 \<Longrightarrow>
    range_keys t low high = {(t, word_of_nat high)} \<union> range_keys t low (high - 1)"
  by (subst range_keys_single [symmetric]) (auto simp: range_keys_def)

lemma remove_range_spec:
  assumes "rq_inv q" "rq_unique q" "low \<le> high" "high < 2 ^ 32" "remove_range_loop q t high low r = (r', q')"
  shows "removed_keys q (range_keys t low high) q'
       \<and> r' + length (rq_wait_ack_list q') = r + length (rq_wait_ack_list q)"
  using assms
proof (induction "high - low" arbitrary: high q r)
  case 0
  then show ?case
    using remove_packet_spec [of q "word_of_nat high" t] range_keys_single [of high t]
    by (subst (asm) remove_range_loop.simps) (auto simp: Let_def split: prod.splits if_splits)
next
  case (Suc d)
  obtain e q1 where q1: "xgl_reliable_remove_packet_number q (word_of_nat high) t = (e, q1)" by fastforce
  note s1 = remove_packet_spec [OF Suc.prems(1,2) q1]
  let ?r = "if e = XGL_OK then r + 1 else r"
  have rest: "remove_range_loop q1 t (high - 1) low ?r = (r', q')"
    using Suc.prems(5) Suc.hyps(2) q1 by (subst (asm) remove_range_loop.simps) (simp add: Let_def not_le [symmetric] split: if_splits)
  have ih: "removed_keys q1 (range_keys t low (high - 1)) q'
       \<and> r' + length (rq_wait_ack_list q') = ?r + length (rq_wait_ack_list q1)"
    using s1 Suc.prems Suc.hyps(2) by (intro Suc.hyps(1) rest) (auto simp: removed_keys_def)
  have "removed_keys q ({(t, word_of_nat high)} \<union> range_keys t low (high - 1)) q'"
    using removed_keys_trans s1 ih by blast
  moreover have "range_keys t low high = {(t, word_of_nat high)} \<union> range_keys t low (high - 1)"
    using Suc.hyps(2) Suc.prems(4) by (intro range_keys_split) simp_all
  ultimately show ?case using s1 ih by auto
qed

text \<open>
  What a list of ranges means: descending intervals of packet numbers, each written as how many numbers lie
  between it and the interval before, and how many it has. \<open>intervals_ok\<close> says that both fit 16 bits.
\<close>

fun ranges_from :: "nat \<Rightarrow> (nat \<times> nat) list \<Rightarrow> xgl_wire_ack_range list" where
  "ranges_from prev [] = []"
| "ranges_from prev ((high, low) # ivs) =
     \<lparr> ar_gap = word_of_nat (prev - high - 1), ar_length = word_of_nat (high - low + 1) \<rparr> # ranges_from low ivs"

fun intervals_ok :: "nat \<Rightarrow> (nat \<times> nat) list \<Rightarrow> bool" where
  "intervals_ok prev [] \<longleftrightarrow> True"
| "intervals_ok prev ((high, low) # ivs) \<longleftrightarrow>
     low \<le> high \<and> high < prev \<and> prev - high - 1 < 65536 \<and> high - low + 1 < 65536 \<and> intervals_ok low ivs"

definition interval_keys :: "u16 \<Rightarrow> (nat \<times> nat) list \<Rightarrow> (u16 \<times> u32) set" where
  "interval_keys t ivs = (\<Union>(high, low) \<in> set ivs. range_keys t low high)"

lemma interval_keys_simps [simp]:
  "interval_keys t [] = {}"
  "interval_keys t ((high, low) # ivs) = range_keys t low high \<union> interval_keys t ivs"
  by (simp_all add: interval_keys_def)

lemma unat_u16_of_nat: "n < 65536 \<Longrightarrow> unat (word_of_nat n :: u16) = n"
  by (simp add: unat_of_nat take_bit_nat_eq_self)

lemma u16_of_nat_0: "0 < n \<Longrightarrow> n < 65536 \<Longrightarrow> (word_of_nat n :: u16) \<noteq> 0"
  using unat_u16_of_nat [of n] by (metis neq0_conv unat_0)

text \<open>One round of the loop over the ranges, for a range that describes the interval from \<open>high\<close> to \<open>low\<close>.\<close>

lemma remove_ack_ranges_round:
  assumes "low \<le> high" "high - low + 1 < 65536" "ar_length r = word_of_nat (high - low + 1)"
    "i > 0 \<Longrightarrow> high < prev \<and> prev - high - 1 < 65536 \<and> ar_gap r = word_of_nat (prev - high - 1)"
    "i = 0 \<Longrightarrow> high = prev"
  shows "remove_ack_ranges_loop q t i prev n (r # rs) =
     (case remove_range_loop q t high low n of (n, q) \<Rightarrow> remove_ack_ranges_loop q t (i + 1) low n rs)"
proof -
  have len: "unat (ar_length r) = high - low + 1" "ar_length r \<noteq> 0"
    unfolding assms(3) by (rule unat_u16_of_nat u16_of_nat_0; use assms(2) in simp)+
  have "(if i > 0 then prev - (unat (ar_gap r) + 1) else prev) = high" "\<not> (i > 0 \<and> prev < unat (ar_gap r) + 1)"
    using assms(4,5) unat_u16_of_nat [of "prev - high - 1"] by auto
  moreover have "(if high + 1 > unat (ar_length r) then high - unat (ar_length r) + 1 else 0) = low"
    using assms(1) by (auto simp: len(1))
  ultimately show ?thesis using len(2) by (simp only: remove_ack_ranges_loop.simps Let_def if_False)
qed

lemma remove_intervals_spec:
  assumes "rq_inv q" "rq_unique q" "intervals_ok prev ivs" "prev \<le> 2 ^ 32" "i > 0"
    "remove_ack_ranges_loop q t i prev n (ranges_from prev ivs) = (n', q')"
  shows "removed_keys q (interval_keys t ivs) q' \<and> n' + length (rq_wait_ack_list q') = n + length (rq_wait_ack_list q)"
  using assms
proof (induction prev ivs arbitrary: q i n rule: ranges_from.induct)
  case (1 prev)
  then show ?case by (simp add: removed_keys_empty)
next
  case (2 prev high low ivs)
  obtain n1 q1 where q1: "remove_range_loop q t high low n = (n1, q1)" by fastforce
  have s1: "removed_keys q (range_keys t low high) q1 \<and> n1 + length (rq_wait_ack_list q1) = n + length (rq_wait_ack_list q)"
    using 2(2-5) by (intro remove_range_spec [OF _ _ _ _ q1]) auto
  have "remove_ack_ranges_loop q1 t (i + 1) low n1 (ranges_from low ivs) = (n', q')"
    using 2(7) 2(4,6) q1 unfolding ranges_from.simps by (subst (asm) remove_ack_ranges_round [of low high]) auto
  then have "removed_keys q1 (interval_keys t ivs) q' \<and> n' + length (rq_wait_ack_list q') = n1 + length (rq_wait_ack_list q1)"
    using s1 2(4,5) by (intro 2(1) [of q1 "i + 1" n1]) (auto simp: removed_keys_def)
  then show ?case using s1 removed_keys_trans by auto
qed

text \<open>
  C21: An acknowledgement removes from the queue exactly the packets it acknowledges. Let an ACK describe, by its
  largest number and its gap and length pairs, the intervals \<open>(high, low) # ivs\<close> of packet numbers. Then
  \<^verbatim>\<open>xgl_reliable_remove_ack_ranges\<close> removes and frees the waiting packets to that target whose number lies in one
  of the intervals, keeps all others in their order, and returns how many it removed.
\<close>

theorem reliable_ack_ranges_exact:
  assumes "rq_inv q" "rq_unique q" "low \<le> high" "high < 2 ^ 32" "high - low + 1 < 65536" "intervals_ok low ivs"
    and rem: "xgl_reliable_remove_ack_ranges q t (word_of_nat high)
           (Some (\<lparr> ar_gap = 0, ar_length = word_of_nat (high - low + 1) \<rparr> # ranges_from low ivs)) (Suc (length ivs)) = (n, q')"
  shows "rq_inv q' \<and> rq_unique q'
       \<and> rq_wait_ack_list q' = filter (\<lambda>a. packet_key (packet_at q a) \<notin> interval_keys t ((high, low) # ivs)) (rq_wait_ack_list q)
       \<and> rq_heap q' = (\<lambda>a. if a \<in> set (rq_wait_ack_list q) \<and> packet_key (packet_at q a) \<in> interval_keys t ((high, low) # ivs)
                           then None else rq_heap q a)
       \<and> n = length (rq_wait_ack_list q) - length (rq_wait_ack_list q')"
proof -
  obtain n1 q1 where q1: "remove_range_loop q t high low 0 = (n1, q1)" by fastforce
  note s1 = remove_range_spec [OF assms(1-4) q1]
  have "length (ranges_from low ivs) = length ivs" by (induction low ivs rule: ranges_from.induct) auto
  then have "remove_ack_ranges_loop q1 t 1 low n1 (ranges_from low ivs) = (n, q')"
    using rem assms(3-5) q1
    by (simp add: xgl_reliable_remove_ack_ranges_def unat_of_nat take_bit_nat_eq_self
        remove_ack_ranges_round [of low high] del: remove_ack_ranges_loop.simps(2))
  then have s2: "removed_keys q1 (interval_keys t ivs) q' \<and> n + length (rq_wait_ack_list q') = n1 + length (rq_wait_ack_list q1)"
    using s1 assms(3-6) by (intro remove_intervals_spec [where i = 1 and prev = low]) (auto simp: removed_keys_def)
  then have "removed_keys q (interval_keys t ((high, low) # ivs)) q'"
    using s1 removed_keys_trans unfolding interval_keys_simps by blast
  then show ?thesis using s1 s2 unfolding removed_keys_def by auto
qed

section \<open>Adding a packet\<close>

lemma add_packet_spec:
  assumes inv: "rq_inv q"
    and add: "xgl_reliable_add_packet_number q data len src t n ty prio tmo phy as = (e, q', as')"
  shows "rq_inv q' \<and> (if e = XGL_OK
     then rq_wait_ack_list q' = rq_wait_ack_list q @ [rq_next_addr q] \<and> rq_next_addr q \<notin> set (rq_wait_ack_list q)
       \<and> (\<exists>p. rq_heap q' = (rq_heap q)(rq_next_addr q \<mapsto> p) \<and> packet_key p = (t, n) \<and> rp_data p = mem_read (the data) 0 len)
     else q' = q)"
  using add inv rq_add_inv [OF inv refl]
  by (auto simp: xgl_reliable_add_packet_number_def Let_def packet_key_def split: option.splits prod.splits bool.splits if_splits)

lemma add_packet_unique:
  assumes inv: "rq_inv q" and uniq: "rq_unique q"
    and add: "xgl_reliable_add_packet_number q data len src t n ty prio tmo phy as = (XGL_OK, q', as')"
    and new: "\<forall>a \<in> set (rq_wait_ack_list q). packet_key (packet_at q a) \<noteq> (t, n)"
  shows "rq_unique q'"
proof -
  let ?a = "rq_next_addr q" and ?W = "set (rq_wait_ack_list q)"
  obtain p where p: "rq_wait_ack_list q' = rq_wait_ack_list q @ [?a]" "?a \<notin> ?W"
    "rq_heap q' = (rq_heap q)(?a \<mapsto> p)" "packet_key p = (t, n)"
    using add_packet_spec [OF inv add] by auto
  have same: "packet_key (packet_at q' x) = packet_key (packet_at q x)" if "x \<in> ?W" for x
    using p(2,3) that by auto
  then have "inj_on (\<lambda>x. packet_key (packet_at q' x)) ?W"
    using uniq unfolding rq_unique_def inj_on_def by simp
  moreover have "packet_key (packet_at q' ?a) = (t, n)" using p(3,4) by simp
  ultimately show ?thesis
    using same new p(2) by (auto simp: rq_unique_def p(1) image_iff)
qed

definition sample_queue :: xgl_reliable_queue where
  "sample_queue = fst (snd (xgl_reliable_add_packet_number (xgl_reliable_init 3) (Some [1]) 1 1 7 5 0 0 1000 None [True, True]))"

lemma sample_queue_ok: "rq_inv sample_queue" "rq_unique sample_queue"
proof -
  let ?add = "xgl_reliable_add_packet_number (xgl_reliable_init 3) (Some [1]) 1 1 7 5 0 0 1000 None [True, True]"
  have u: "rq_unique (xgl_reliable_init 3)" by (simp add: rq_unique_def xgl_reliable_init_def)
  have "?add = (XGL_OK, sample_queue, [])"
    by (simp add: sample_queue_def xgl_reliable_add_packet_number_def take_alloc_def Let_def)
  then show "rq_inv sample_queue" "rq_unique sample_queue"
    using add_packet_spec [OF rq_init_inv] add_packet_unique [OF rq_init_inv u] by (auto simp: xgl_reliable_init_def)
qed

theorem reliable_ack_ranges_exact_witness:
  "\<exists>n q'. xgl_reliable_remove_ack_ranges sample_queue 7 6
           (Some (\<lparr> ar_gap = 0, ar_length = 2 \<rparr> # ranges_from 5 [(3, 1)])) 2 = (n, q') \<and> rq_inv q' \<and> rq_wait_ack_list q' = [] \<and> n = 1"
proof -
  obtain n q' where rem: "xgl_reliable_remove_ack_ranges sample_queue 7 6
           (Some (\<lparr> ar_gap = 0, ar_length = 2 \<rparr> # ranges_from 5 [(3, 1)])) 2 = (n, q')" by fastforce
  have wait: "rq_wait_ack_list sample_queue = [0]" "packet_key (packet_at sample_queue 0) = (7, 5)"
    by code_simp+
  have "xgl_reliable_remove_ack_ranges sample_queue 7 (word_of_nat 6)
      (Some (\<lparr> ar_gap = 0, ar_length = word_of_nat (6 - 5 + 1) \<rparr> # ranges_from 5 [(3, 1)])) (Suc (length [(3 :: nat, 1 :: nat)])) = (n, q')"
    using rem by (simp add: numeral_2_eq_2)
  note res = reliable_ack_ranges_exact [OF sample_queue_ok _ _ _ _ this]
  have "rq_inv q' \<and> rq_wait_ack_list q' = filter (\<lambda>a. packet_key (packet_at sample_queue a) \<notin> interval_keys 7 [(6, 5), (3, 1)]) (rq_wait_ack_list sample_queue)
       \<and> n = length (rq_wait_ack_list sample_queue) - length (rq_wait_ack_list q')"
    using res by simp
  then show ?thesis using rem wait by (simp add: range_keys_def)
qed

section \<open>Clearing\<close>

lemma clear_loop_spec:
  assumes "rq_inv q"
  shows "rq_inv (reliable_clear_loop q) \<and> rq_wait_ack_list (reliable_clear_loop q) = []
       \<and> rq_heap (reliable_clear_loop q) = rq_heap q |` (- set (rq_wait_ack_list q))"
  using assms
proof (induction q rule: reliable_clear_loop.induct)
  case (1 q)
  show ?case
  proof (cases "rq_wait_ack_list q")
    case Nil
    then show ?thesis using 1(2) by (simp add: reliable_clear_loop.simps [of q])
  next
    case (Cons a as)
    have eq: "reliable_unindex_packet (q \<lparr> rq_wait_ack_list := as \<rparr>) a = unlinked q a"
      using Cons by (simp add: unlinked_def rq_unlink_defs)
    have "a \<notin> set as" using rq_invD(1) [OF 1(2)] Cons by simp
    then have inv: "rq_inv (reliable_free_packet (unlinked q a) a)"
      using Cons by (intro freed_inv unlinked_inv [OF 1(2)]) simp
    have step: "reliable_clear_loop q = reliable_clear_loop (reliable_free_packet (unlinked q a) a)"
      using Cons eq by (simp add: reliable_clear_loop.simps [of q])
    have m1: "rq_heap (reliable_free_packet (unlinked q a) a) |` (- set as) = rq_heap q |` (- set (rq_wait_ack_list q))"
      using Cons by (intro ext) (auto simp: restrict_map_def)
    have m2: "rq_wait_ack_list (reliable_free_packet (unlinked q a) a) = as" using Cons by simp
    show ?thesis
      using 1(1) [OF Cons, unfolded eq, OF inv] unfolding step by (simp only: m1 m2)
  qed
qed

lemma clear_inv:
  assumes "rq_inv q"
  shows "rq_inv (xgl_reliable_clear q) \<and> rq_wait_ack_list (xgl_reliable_clear q) = []"
  using clear_loop_spec [OF assms] by (auto simp: xgl_reliable_clear_def rq_inv_def)

section \<open>The timeout pass\<close>

definition timed_out :: "u32 \<Rightarrow> xgl_reliable_packet \<Rightarrow> bool" where
  "timed_out now p \<longleftrightarrow> rp_send_timestamp p \<noteq> 0 \<and> now - rp_send_timestamp p \<ge> word_of_int (rp_timeout_ms p)"

definition given_up :: "xgl_reliable_queue \<Rightarrow> u32 \<Rightarrow> nat \<Rightarrow> bool" where
  "given_up q now a \<longleftrightarrow> timed_out now (packet_at q a) \<and> rp_retry_count (packet_at q a) \<ge> rq_max_retry_count q"

definition retried :: "u32 \<Rightarrow> xgl_reliable_packet \<Rightarrow> xgl_reliable_packet" where
  "retried now p =
     (if timed_out now p
      then p \<lparr> rp_retry_count := rp_retry_count p + 1,
               rp_timeout_ms := xgl_reliable_calc_backoff (rp_initial_timeout_ms p) (rp_retry_count p + 1),
               rp_send_timestamp := now \<rparr>
      else p)"

definition transmission :: "(nat \<Rightarrow> bool) \<Rightarrow> xgl_reliable_packet \<Rightarrow> (nat \<times> bytes) list" where
  "transmission has_tx p = (case rp_phy p of None \<Rightarrow> [] | Some phy \<Rightarrow> if has_tx phy then [(phy, rp_data p)] else [])"

text \<open>The result of the pass over the addresses \<open>as\<close>, computed from the state before the pass.\<close>

definition timeouts_done ::
  "(nat \<Rightarrow> bool) \<Rightarrow> bool \<Rightarrow> u32 \<Rightarrow> nat list \<Rightarrow> xgl_reliable_queue \<Rightarrow> nat option \<Rightarrow> (nat \<times> bytes) list
     \<Rightarrow> xgl_reliable_queue \<times> nat option \<times> (nat \<times> bytes) list \<Rightarrow> bool" where
  "timeouts_done has_tx want now as q ex sent = (\<lambda>(q', ex', sent').
     rq_inv q' \<and> rq_max_retry_count q' = rq_max_retry_count q
     \<and> rq_wait_ack_list q' = filter (\<lambda>a. \<not> (a \<in> set as \<and> given_up q now a)) (rq_wait_ack_list q)
     \<and> ex' = (case ex of Some a \<Rightarrow> Some a | None \<Rightarrow> if want then List.find (given_up q now) as else None)
     \<and> sent' = sent @ concat (map (\<lambda>a. transmission has_tx (packet_at q a))
                 (filter (\<lambda>a. timed_out now (packet_at q a) \<and> \<not> given_up q now a) as))
     \<and> (\<forall>a. rq_heap q' a =
          (if a \<notin> set as then rq_heap q a
           else if given_up q now a then (if ex = None \<and> ex' = Some a then rq_heap q a else None)
           else Some (retried now (packet_at q a)))))"

lemma retried_bucket [simp]: "packet_bucket (retried now p) = packet_bucket p"
  by (simp add: retried_def packet_bucket_def)

text \<open>One step of the pass: giving a packet up, or updating one.\<close>

lemma give_up_inv:
  assumes "rq_inv q"
  shows "rq_inv (unlinked q a)" "rq_inv (reliable_free_packet (unlinked q a) a)"
proof -
  show *: "rq_inv (unlinked q a)" by (rule unlinked_inv [OF assms])
  show "rq_inv (reliable_free_packet (unlinked q a) a)"
    by (rule freed_inv [OF *]) (use rq_invD(1) [OF assms] in simp)
qed

lemma timeouts_step:
  "process_timeouts_loop has_tx want now (a # as) q ex sent =
     (if given_up q now a
      then if want \<and> ex = None then process_timeouts_loop has_tx want now as (unlinked q a) (Some a) sent
           else process_timeouts_loop has_tx want now as (reliable_free_packet (unlinked q a) a) ex sent
      else if timed_out now (packet_at q a)
      then process_timeouts_loop has_tx want now as (q \<lparr> rq_heap := (rq_heap q)(a \<mapsto> retried now (packet_at q a)) \<rparr>) ex
             (sent @ transmission has_tx (packet_at q a))
      else process_timeouts_loop has_tx want now as q ex sent)"
  by (simp add: Let_def given_up_def timed_out_def retried_def transmission_def unlink_comm split: option.split)

text \<open>
  The states before and after a step agree on the addresses still to come, so the pass over those can be described
  by the state before.
\<close>

lemma timeouts_done_Cons:
  assumes prev: "timeouts_done has_tx want now as q1 exn sentn res"
    and same: "\<forall>x \<in> set as. rq_heap q1 x = rq_heap q x" "rq_max_retry_count q1 = rq_max_retry_count q" and a: "a \<notin> set as"
    and wait: "rq_wait_ack_list q1 = filter (\<lambda>x. \<not> (x = a \<and> given_up q now a)) (rq_wait_ack_list q)"
    and heap: "\<forall>x. x \<noteq> a \<longrightarrow> rq_heap q1 x = rq_heap q x"
      "rq_heap q1 a = (if given_up q now a then (if ex = None \<and> want then rq_heap q a else None) else Some (retried now (packet_at q a)))"
    and ex: "exn = (if given_up q now a \<and> want \<and> ex = None then Some a else ex)"
    and sent: "sentn = sent @ (if timed_out now (packet_at q a) \<and> \<not> given_up q now a then transmission has_tx (packet_at q a) else [])"
  shows "timeouts_done has_tx want now (a # as) q ex sent res"
proof -
  obtain q' ex' sent' where res: "res = (q', ex', sent')" by (cases res)
  have gu: "given_up q1 now x = given_up q now x" "packet_at q1 x = packet_at q x" if "x \<in> set as" for x
    using same that by (simp_all add: given_up_def)
  note D = prev [unfolded timeouts_done_def res prod.case]
  have "rq_wait_ack_list q' = filter (\<lambda>x. \<not> (x \<in> set (a # as) \<and> given_up q now x)) (rq_wait_ack_list q)"
    using D gu a by (auto simp: wait intro!: filter_cong)
  moreover have "List.find (given_up q1 now) as = List.find (given_up q now) as"
    by (rule find_cong) (simp_all add: gu)
  then have ex': "ex' = (case ex of Some x \<Rightarrow> Some x | None \<Rightarrow> if want then List.find (given_up q now) (a # as) else None)"
    using D by (auto simp: ex split: option.splits)
  moreover have "sent' = sent @ concat (map (\<lambda>x. transmission has_tx (packet_at q x))
      (filter (\<lambda>x. timed_out now (packet_at q x) \<and> \<not> given_up q now x) (a # as)))"
  proof -
    have f: "filter (\<lambda>x. timed_out now (packet_at q1 x) \<and> \<not> given_up q1 now x) as = filter (\<lambda>x. timed_out now (packet_at q x) \<and> \<not> given_up q now x) as"
      by (rule filter_cong) (simp_all add: gu)
    have m: "map (\<lambda>x. transmission has_tx (packet_at q1 x)) (filter (\<lambda>x. timed_out now (packet_at q x) \<and> \<not> given_up q now x) as) =
       map (\<lambda>x. transmission has_tx (packet_at q x)) (filter (\<lambda>x. timed_out now (packet_at q x) \<and> \<not> given_up q now x) as)"
      by (rule map_cong) (simp_all add: gu)
    have "sent' = sentn @ concat (map (\<lambda>x. transmission has_tx (packet_at q x)) (filter (\<lambda>x. timed_out now (packet_at q x) \<and> \<not> given_up q now x) as))"
      using D unfolding f m by blast
    then show ?thesis by (simp add: sent)
  qed
  moreover have "rq_heap q' x = (if x \<notin> set (a # as) then rq_heap q x
           else if given_up q now x then (if ex = None \<and> ex' = Some x then rq_heap q x else None)
           else Some (retried now (packet_at q x)))" for x
  proof (cases "x = a")
    case True
    have "rq_heap q' a = rq_heap q1 a" using D a by auto
    then show ?thesis using True heap(2) ex' by (auto split: option.splits)
  next
    case False
    have "rq_heap q' x = (if x \<notin> set as then rq_heap q1 x
           else if given_up q1 now x then (if exn = None \<and> ex' = Some x then rq_heap q1 x else None)
           else Some (retried now (packet_at q1 x)))" using D by blast
    then show ?thesis using False heap(1) gu ex ex' by (auto split: option.splits if_splits)
  qed
  ultimately show ?thesis using D same(2) unfolding timeouts_done_def res prod.case by auto
qed

lemma process_timeouts_loop_spec:
  assumes "rq_inv q" "distinct as" "set as \<subseteq> set (rq_wait_ack_list q)"
  shows "timeouts_done has_tx want now as q ex sent (process_timeouts_loop has_tx want now as q ex sent)"
  using assms
proof (induction as arbitrary: q ex sent)
  case Nil
  then show ?case by (auto simp: timeouts_done_def split: option.split)
next
  case (Cons a as)
  have a: "a \<notin> set as" "distinct as" "set as \<subseteq> set (rq_wait_ack_list q)" using Cons.prems by auto
  obtain p where p: "rq_heap q a = Some p" using rq_invD(3) [OF Cons.prems(1)] Cons.prems(3) by auto
  have rem: "remove1 a (rq_wait_ack_list q) = filter (\<lambda>x. x \<noteq> a) (rq_wait_ack_list q)"
    using distinct_remove1_removeAll [OF rq_invD(1) [OF Cons.prems(1)], of a] by (simp add: removeAll_filter_not_eq eq_commute)
  have sub: "set as \<subseteq> set (remove1 a (rq_wait_ack_list q))" using a by (auto simp: rem)
  show ?case
  proof (cases "given_up q now a")
    case True
    show ?thesis
    proof (cases "want \<and> ex = None")
      case w: True
      have ih: "timeouts_done has_tx want now as (unlinked q a) (Some a) sent
          (process_timeouts_loop has_tx want now as (unlinked q a) (Some a) sent)"
        using Cons.prems(1) a(2) sub by (intro Cons.IH give_up_inv) simp_all
      have "timeouts_done has_tx want now (a # as) q ex sent
          (process_timeouts_loop has_tx want now as (unlinked q a) (Some a) sent)"
        by (rule timeouts_done_Cons [OF ih]) (use True w a(1) in \<open>auto simp: rem\<close>)
      then show ?thesis using True w unfolding timeouts_step by auto
    next
      case w: False
      have ih: "timeouts_done has_tx want now as (reliable_free_packet (unlinked q a) a) ex sent
          (process_timeouts_loop has_tx want now as (reliable_free_packet (unlinked q a) a) ex sent)"
        using Cons.prems(1) a(2) sub by (intro Cons.IH give_up_inv) simp_all
      have "timeouts_done has_tx want now (a # as) q ex sent
          (process_timeouts_loop has_tx want now as (reliable_free_packet (unlinked q a) a) ex sent)"
        by (rule timeouts_done_Cons [OF ih]) (use True w a(1) in \<open>auto simp: rem\<close>)
      then show ?thesis using True w unfolding timeouts_step by auto
    qed
  next
    case False
    show ?thesis
    proof (cases "timed_out now (packet_at q a)")
      case True
      let ?q = "q \<lparr> rq_heap := (rq_heap q)(a \<mapsto> retried now (packet_at q a)) \<rparr>"
      have ih: "timeouts_done has_tx want now as ?q ex (sent @ transmission has_tx (packet_at q a))
          (process_timeouts_loop has_tx want now as ?q ex (sent @ transmission has_tx (packet_at q a)))"
        using Cons.prems(1) a p by (intro Cons.IH rq_update_inv) simp_all
      have "timeouts_done has_tx want now (a # as) q ex sent
          (process_timeouts_loop has_tx want now as ?q ex (sent @ transmission has_tx (packet_at q a)))"
        by (rule timeouts_done_Cons [OF ih]) (use True False a(1) in \<open>auto\<close>)
      then show ?thesis using True False unfolding timeouts_step by simp
    next
      case nt: False
      have ih: "timeouts_done has_tx want now as q ex sent (process_timeouts_loop has_tx want now as q ex sent)"
        using Cons.prems(1) a by (intro Cons.IH)
      have "timeouts_done has_tx want now (a # as) q ex sent (process_timeouts_loop has_tx want now as q ex sent)"
        by (rule timeouts_done_Cons [OF ih]) (use nt False a(1) p in \<open>auto simp: retried_def\<close>)
      then show ?thesis using nt False unfolding timeouts_step by simp
    qed
  qed
qed



section \<open>Backoff\<close>

text \<open>The values the loop passes through, the product before the cap included.\<close>

fun backoff_values :: "nat \<Rightarrow> int \<Rightarrow> int list" where
  "backoff_values 0 b = [b]"
| "backoff_values (Suc n) b = b # b * 2 # (if b * 2 > 30000 then [30000] else backoff_values n (b * 2))"

lemma backoff_loop_eq:
  "0 \<le> b \<Longrightarrow> b \<le> 30000 \<Longrightarrow> backoff_loop n b = min 30000 (b * 2 ^ n)"
proof (induction n arbitrary: b)
  case (Suc n)
  have "b * 2 * 1 \<le> b * 2 * 2 ^ n" using Suc.prems(1) by (intro mult_left_mono) simp_all
  then show ?case using Suc.IH [of "b * 2"] Suc.prems by (auto simp: Let_def mult.assoc)
qed simp

lemma backoff_values_bounded:
  "0 \<le> b \<Longrightarrow> b < 2 ^ 30 \<Longrightarrow> v \<in> set (backoff_values n b) \<Longrightarrow> 0 \<le> v \<and> v < 2 ^ 31"
  by (induction n b rule: backoff_values.induct) (auto split: if_splits)

text \<open>
  The backed-off timeout of a packet doubles with every retry, up to the tenth, and is capped at 30000
  ms; for every initial timeout from 0 up to \<open>2 ^ 30 - 1\<close> ms no value of the computation leaves the range of a
  32-bit signed integer.
\<close>

theorem reliable_backoff_doubles:
  assumes "0 \<le> initial" "initial < 2 ^ 30"
  shows "xgl_reliable_calc_backoff initial n =
           (if n = 0 then initial else min 30000 (initial * 2 ^ min 10 (unat n)))
       \<and> (\<forall>v \<in> set (backoff_values (min 10 (unat n)) initial). 0 \<le> v \<and> v < 2 ^ 31)"
proof -
  have cap: "unat (if n > 10 then 10 else n) = min 10 (unat n)"
    by (auto simp: word_less_nat_alt min_def)
  have "backoff_loop (Suc m) initial = min 30000 (initial * 2 ^ Suc m)" for m
  proof (cases "initial \<le> 30000")
    case False
    then have "30000 * 1 \<le> initial * 2 ^ Suc m" by (intro mult_mono one_le_power) simp_all
    then show ?thesis using False by (simp add: Let_def)
  qed (rule backoff_loop_eq [OF assms(1)])
  moreover have "n \<noteq> 0 \<Longrightarrow> \<exists>m. min 10 (unat n) = Suc m"
    using unat_gt_0 [of n] by (intro not0_implies_Suc) auto
  ultimately have "xgl_reliable_calc_backoff initial n =
      (if n = 0 then initial else min 30000 (initial * 2 ^ min 10 (unat n)))"
    by (auto simp: xgl_reliable_calc_backoff_def cap)
  then show ?thesis using backoff_values_bounded [OF assms] by blast
qed

theorem reliable_backoff_doubles_witness:
  "xgl_reliable_calc_backoff 1000 3 = 8000 \<and> xgl_reliable_calc_backoff 1000 200 = 30000"
  using reliable_backoff_doubles [of 1000 3] reliable_backoff_doubles [of 1000 200] by simp

section \<open>Every operation keeps the invariant\<close>

lemma remove_packet_inv:
  assumes "rq_inv q"
  shows "rq_inv (snd (xgl_reliable_remove_packet_number q n t))"
  using give_up_inv(2) [OF assms] assms
  by (auto simp: xgl_reliable_remove_packet_number_def unlinked_def [symmetric] split: option.splits)

lemma remove_range_inv: "rq_inv q \<Longrightarrow> rq_inv (snd (remove_range_loop q t high low r))"
proof (induction q t high low r rule: remove_range_loop.induct)
  case (1 q t high low r)
  obtain e q1 where q1: "xgl_reliable_remove_packet_number q (word_of_nat high) t = (e, q1)" by fastforce
  then have "rq_inv q1" using remove_packet_inv [OF 1(2), of "word_of_nat high" t] by simp
  then show ?case
    using 1(1) [OF q1 [symmetric] refl] q1 by (subst remove_range_loop.simps) (simp add: Let_def not_le)
qed

lemma remove_ack_ranges_inv: "rq_inv q \<Longrightarrow> rq_inv (snd (remove_ack_ranges_loop q t i h r rs))"
proof (induction q t i h r rs rule: remove_ack_ranges_loop.induct)
  case (2 q t i h r x rs)
  then show ?case
    using remove_range_inv [OF 2(3)] by (auto simp: Let_def split: prod.split) (metis snd_conv)+
qed simp

lemma set_extensions_inv:
  assumes "rq_inv q" "rq_heap q a = Some p"
  shows "rq_inv (fst (snd (xgl_reliable_set_packet_extensions q (Some a) x n as)))"
proof -
  have "rq_inv (q \<lparr> rq_heap := (rq_heap q)(a \<mapsto> p \<lparr> rp_extensions := y \<rparr>) \<rparr>)" for y
    by (rule rq_update_inv [OF assms]) (simp add: packet_bucket_def)
  then show ?thesis
    using assms by (auto simp: xgl_reliable_set_packet_extensions_def Let_def split: prod.split bool.split)
qed

text \<open>The calls the transport layer makes on a queue.\<close>

datatype reliable_call =
    Add "bytes option" nat u16 u16 u32 u8 u8 int "nat option" "bool list"
  | Remove u32 u16
  | Ack_ranges u16 u32 "xgl_wire_ack_range list option" nat
  | Set_extensions u32 u16 "bytes option" nat "bool list"
  | Timeouts "nat \<Rightarrow> bool" u32 bool
  | Clear

fun reliable_step :: "xgl_reliable_queue \<Rightarrow> reliable_call \<Rightarrow> unit \<times> xgl_reliable_queue" where
  "reliable_step q (Add d len src t n ty prio tmo phy as) =
     ((), fst (snd (xgl_reliable_add_packet_number q d len src t n ty prio tmo phy as)))"
| "reliable_step q (Remove n t) = ((), snd (xgl_reliable_remove_packet_number q n t))"
| "reliable_step q (Ack_ranges t largest rs k) = ((), snd (xgl_reliable_remove_ack_ranges q t largest rs k))"
| "reliable_step q (Set_extensions n t x len as) =
     ((), fst (snd (xgl_reliable_set_packet_extensions q (xgl_reliable_find_packet_number q n t) x len as)))"
| "reliable_step q (Timeouts has_tx now want) = ((), fst (snd (xgl_reliable_process_timeouts has_tx q now want)))"
| "reliable_step q Clear = ((), xgl_reliable_clear q)"

interpretation reliable: invariant_machine reliable_step rq_inv
proof
  fix q c
  assume inv: "rq_inv q"
  show "rq_inv (snd (reliable_step q c))"
  proof (cases c)
    case (Add d len src t n ty prio tmo phy as)
    then show ?thesis using add_packet_spec [OF inv] by (auto split: prod.splits) (metis prod.collapse)
  next
    case (Set_extensions n t x len as)
    then show ?thesis
      using inv find_packet_Some [OF inv] rq_invD(3) [OF inv] set_extensions_inv [OF inv]
      by (cases "xgl_reliable_find_packet_number q n t") (fastforce simp: xgl_reliable_set_packet_extensions_def)+
  next
    case (Timeouts has_tx now want)
    then show ?thesis
      using process_timeouts_loop_spec [OF inv rq_invD(1) [OF inv] order_refl, of has_tx want now None "[]"]
      by (auto simp: xgl_reliable_process_timeouts_def timeouts_done_def split: prod.splits)
  qed (use inv in \<open>auto simp: remove_packet_inv clear_inv xgl_reliable_remove_ack_ranges_def remove_ack_ranges_inv split: option.split\<close>)
qed

text \<open>
  C20: After any sequence of calls on a queue, its three structures agree: the list, the 32 hash chains and the
  store of packets. In particular a lookup by packet number and target, which searches one chain, finds a packet
  exactly when one waits in the list, and what it finds has that number and target and has not been freed.
\<close>

theorem reliable_lookup_is_exact:
  "case reliable.run (xgl_reliable_init retries) calls of
     (_, q) \<Rightarrow> rq_inv q \<and>
       (case xgl_reliable_find_packet_number q n t of
          None \<Rightarrow> \<not> (\<exists>a \<in> set (rq_wait_ack_list q). packet_key (packet_at q a) = (t, n))
        | Some a \<Rightarrow> a \<in> set (rq_wait_ack_list q) \<and> (\<exists>p. rq_heap q a = Some p \<and> packet_key p = (t, n)))"
proof -
  obtain r q where run: "reliable.run (xgl_reliable_init retries) calls = (r, q)" by fastforce
  then have inv: "rq_inv q" using reliable.run_inv [OF rq_init_inv, of retries calls] by simp
  show ?thesis
    using run inv find_packet_None [OF inv, of n t] find_packet_Some [OF inv, of n t] rq_invD(3) [OF inv]
    by (fastforce split: option.split)
qed

end
