(* ===== verification/Xgl_Fragment.thy ===== *)
theory Xgl_Fragment
  imports Xgl_Hashtable
begin

text \<open>
  Reassembly of fragmented messages, \<^verbatim>\<open>src/transport/xgl_fragment*.c\<close>. The manager's list of reassembly buffers is a
  list of records; a byte that the allocator has not initialised is \<open>None\<close>. The active prefix of a buffer's range
  array is a list, so the loops that shift ranges are insertion into and deletion from it. The
  theorems show that a message that is handed up is byte for byte the message that was cut
  up, for any interleaving, repetition and reordering of the fragments of any number of messages, and
  that the memory budget holds.
\<close>

section \<open>The code\<close>

abbreviation (input) "XGL_FRAGMENT_MAX_RECEIVED_RANGES \<equiv> (16 :: nat)"

record xgl_reassembly_buffer =
  rb_source_id :: u16
  rb_data_type :: u8
  rb_connection_id :: u32
  rb_session_epoch :: u32
  rb_message_id :: u32
  rb_received_bytes :: nat
  rb_received_ranges :: "(nat \<times> nat) list"
  rb_data :: "u8 option list"
  rb_data_len :: nat
  rb_buffer_size :: nat
  rb_reserved_size :: nat
  rb_first_fragment_time :: u32
  rb_timeout_ms :: u32

record xgl_fragment_manager =
  fm_next_message_id :: u32
  fm_reassembly_list :: "xgl_reassembly_buffer list"
  fm_max_reassembly_buffers :: nat
  fm_reassembly_timeout_ms :: u32
  fm_max_message_size :: nat
  fm_max_reassembly_bytes :: nat
  fm_current_reassembly_bytes :: nat

definition xgl_fragment_init :: "nat \<Rightarrow> u32 \<Rightarrow> xgl_fragment_manager" where
  "xgl_fragment_init max_reassembly_buffers reassembly_timeout_ms =
     \<lparr> fm_next_message_id = 0, fm_reassembly_list = [], fm_max_reassembly_buffers = max_reassembly_buffers,
       fm_reassembly_timeout_ms = reassembly_timeout_ms, fm_max_message_size = 0, fm_max_reassembly_bytes = 0,
       fm_current_reassembly_bytes = 0 \<rparr>"

definition xgl_fragment_set_limits :: "xgl_fragment_manager \<Rightarrow> nat \<Rightarrow> nat \<Rightarrow> xgl_error \<times> xgl_fragment_manager" where
  "xgl_fragment_set_limits m max_message_size max_reassembly_bytes =
     (if max_reassembly_bytes \<noteq> 0 \<and> max_message_size > max_reassembly_bytes then (XGL_ERR_INVALID_PARAM, m)
      else (XGL_OK, m \<lparr> fm_max_message_size := max_message_size, fm_max_reassembly_bytes := max_reassembly_bytes \<rparr>))"

subsection \<open>Received ranges\<close>

definition fragment_range_overlaps :: "nat \<times> nat \<Rightarrow> nat \<Rightarrow> nat \<Rightarrow> bool" where
  "fragment_range_overlaps r start end = (start < snd r \<and> end > fst r)"

definition fragment_remove_range_at :: "(nat \<times> nat) list \<Rightarrow> nat \<Rightarrow> (nat \<times> nat) list" where
  "fragment_remove_range_at ranges index =
     (if index \<ge> length ranges then ranges else take index ranges @ drop (index + 1) ranges)"

definition fragment_insert_received_range ::
  "(nat \<times> nat) list \<Rightarrow> nat \<Rightarrow> nat \<Rightarrow> xgl_error \<times> (nat \<times> nat) list" where
  "fragment_insert_received_range ranges start end =
     (if start \<ge> end then (XGL_ERR_INVALID_PARAM, ranges)
      else if list_ex (\<lambda>r. fragment_range_overlaps r start end) ranges then (XGL_ERR_BUSY, ranges)
      else
        let n = length ranges;
            k = length (takeWhile (\<lambda>r. fst r < start) ranges)
        in if k > 0 \<and> snd (ranges ! (k - 1)) = start
           then let ranges = ranges[k - 1 := (fst (ranges ! (k - 1)), end)]
                in if k < n \<and> fst (ranges ! k) = end
                   then (XGL_OK, fragment_remove_range_at
                                   (ranges[k - 1 := (fst (ranges ! (k - 1)), snd (ranges ! k))]) k)
                   else (XGL_OK, ranges)
           else if k < n \<and> fst (ranges ! k) = end then (XGL_OK, ranges[k := (start, snd (ranges ! k))])
           else if n \<ge> XGL_FRAGMENT_MAX_RECEIVED_RANGES then (XGL_ERR_NO_MEMORY, ranges)
           else (XGL_OK, take k ranges @ [(start, end)] @ drop k ranges))"

subsection \<open>Reassembly buffers\<close>

definition release_budget :: "xgl_fragment_manager \<Rightarrow> xgl_reassembly_buffer \<Rightarrow> xgl_fragment_manager" where
  "release_budget m buffer =
     (if rb_reserved_size buffer \<le> fm_current_reassembly_bytes m
      then m \<lparr> fm_current_reassembly_bytes := fm_current_reassembly_bytes m - rb_reserved_size buffer \<rparr>
      else m)"

definition fragment_free_reassembly_buffer :: "xgl_fragment_manager \<Rightarrow> xgl_reassembly_buffer \<Rightarrow> xgl_fragment_manager" where
  "fragment_free_reassembly_buffer m buffer = release_budget m buffer"

text \<open>The buffer found is known by its position in the list.\<close>

definition fragment_find_reassembly_buffer ::
  "xgl_fragment_manager \<Rightarrow> u16 \<Rightarrow> u32 \<Rightarrow> u32 \<Rightarrow> u32 \<Rightarrow> nat option" where
  "fragment_find_reassembly_buffer m source_id connection_id session_epoch message_id =
     List.find (\<lambda>i. let b = fm_reassembly_list m ! i
                    in rb_source_id b = source_id \<and> rb_connection_id b = connection_id
                       \<and> rb_session_epoch b = session_epoch \<and> rb_message_id b = message_id)
       [0..<length (fm_reassembly_list m)]"

definition fragment_create_reassembly_buffer ::
  "xgl_fragment_manager \<Rightarrow> u16 \<Rightarrow> u32 \<Rightarrow> u32 \<Rightarrow> u8 \<Rightarrow> u32 \<Rightarrow> u32 \<Rightarrow> bool list
     \<Rightarrow> (xgl_error + nat) \<times> xgl_fragment_manager \<times> bool list" where
  "fragment_create_reassembly_buffer m source_id connection_id session_epoch data_type message_id message_len allocs =
     (if length (fm_reassembly_list m) \<ge> fm_max_reassembly_buffers m then (Inl XGL_ERR_NO_MEMORY, m, allocs)
      else if fm_max_message_size m \<noteq> 0 \<and> unat message_len > fm_max_message_size m
      then (Inl XGL_ERR_BUFFER_TOO_SMALL, m, allocs)
      else if fm_max_reassembly_bytes m \<noteq> 0 \<and>
              (fm_current_reassembly_bytes m > fm_max_reassembly_bytes m \<or>
               unat message_len > fm_max_reassembly_bytes m - fm_current_reassembly_bytes m)
      then (Inl XGL_ERR_NO_MEMORY, m, allocs)
      else
        (case take_alloc allocs of
           (False, allocs) \<Rightarrow> (Inl XGL_ERR_NO_MEMORY, m, allocs)
         | (True, allocs) \<Rightarrow>
             (case take_alloc allocs of
                (False, allocs) \<Rightarrow> (Inl XGL_ERR_NO_MEMORY, m, allocs)
              | (True, allocs) \<Rightarrow>
                  let buffer =
                        \<lparr> rb_source_id = source_id, rb_data_type = data_type, rb_connection_id = connection_id,
                          rb_session_epoch = session_epoch, rb_message_id = message_id, rb_received_bytes = 0,
                          rb_received_ranges = [], rb_data = replicate (unat message_len) None,
                          rb_data_len = unat message_len, rb_buffer_size = unat message_len,
                          rb_reserved_size = unat message_len, rb_first_fragment_time = 0,
                          rb_timeout_ms = fm_reassembly_timeout_ms m \<rparr>
                  in (Inr (length (fm_reassembly_list m)),
                      m \<lparr> fm_current_reassembly_bytes := fm_current_reassembly_bytes m + rb_reserved_size buffer,
                          fm_reassembly_list := fm_reassembly_list m @ [buffer] \<rparr>, allocs))))"

definition remove_buffer_at :: "xgl_fragment_manager \<Rightarrow> nat \<Rightarrow> xgl_fragment_manager" where
  "remove_buffer_at m i =
     m \<lparr> fm_reassembly_list := take i (fm_reassembly_list m) @ drop (i + 1) (fm_reassembly_list m) \<rparr>"

definition fragment_complete_reassembly ::
  "xgl_fragment_manager \<Rightarrow> nat \<Rightarrow> (u8 option list \<times> nat) \<times> xgl_fragment_manager" where
  "fragment_complete_reassembly m i =
     (let buffer = fm_reassembly_list m ! i
      in ((rb_data buffer, rb_data_len buffer), release_budget (remove_buffer_at m i) buffer))"

subsection \<open>Processing a fragment\<close>

definition fragment_validate_ext_input :: "u32 \<Rightarrow> u32 \<Rightarrow> nat \<Rightarrow> xgl_error" where
  "fragment_validate_ext_input fragment_offset message_len fragment_payload_len =
     (if message_len = 0 \<or> fragment_offset > message_len \<or>
         fragment_payload_len > unat message_len - unat fragment_offset
      then XGL_ERR_INVALID_FRAME else XGL_OK)"

text \<open>
  \<open>clock\<close> is the value \<^verbatim>\<open>xgl_time_ms()\<close> returns. The result carries the complete message, if there is
  one, as the code does through \<^verbatim>\<open>complete_data\<close> and \<^verbatim>\<open>complete_len\<close>.
\<close>

definition xgl_fragment_process_ext ::
  "xgl_fragment_manager \<Rightarrow> u16 \<Rightarrow> u32 \<Rightarrow> u32 \<Rightarrow> u8 \<Rightarrow> u32 \<Rightarrow> u32 \<Rightarrow> u32 \<Rightarrow> bytes option \<Rightarrow> nat \<Rightarrow> u32 \<Rightarrow> u32 \<Rightarrow> bool list
     \<Rightarrow> xgl_error \<times> (u8 option list \<times> nat) option \<times> xgl_fragment_manager \<times> bool list" where
  "xgl_fragment_process_ext m source_id connection_id session_epoch data_type message_id fragment_offset message_len
       fragment_payload fragment_payload_len current_time_ms clock allocs =
     (if fragment_payload = None \<or> fragment_payload_len = 0 then (XGL_ERR_INVALID_PARAM, None, m, allocs)
      else
        let err = fragment_validate_ext_input fragment_offset message_len fragment_payload_len
        in if err \<noteq> XGL_OK then (err, None, m, allocs)
           else
             (case (case fragment_find_reassembly_buffer m source_id connection_id session_epoch message_id of
                      Some i \<Rightarrow> (Inr i, m, allocs)
                    | None \<Rightarrow> fragment_create_reassembly_buffer m source_id connection_id session_epoch data_type
                                message_id message_len allocs) of
                (Inl err, m, allocs) \<Rightarrow> (err, None, m, allocs)
              | (Inr i, m, allocs) \<Rightarrow>
                  let buffer = fm_reassembly_list m ! i
                  in if rb_data_type buffer \<noteq> data_type \<or> rb_buffer_size buffer \<noteq> unat message_len
                     then (XGL_ERR_INVALID_FRAME, None, m, allocs)
                     else
                       let start = unat fragment_offset;
                           end = start + fragment_payload_len
                       in (case fragment_insert_received_range (rb_received_ranges buffer) start end of
                             (range_err, ranges) \<Rightarrow>
                               if range_err \<noteq> XGL_OK then (range_err, None, m, allocs)
                               else
                                 let is_first = (rb_received_bytes buffer = 0);
                                     buffer = buffer \<lparr> rb_received_ranges := ranges,
                                       rb_data := mem_write (rb_data buffer) start
                                         (map Some (mem_read (the fragment_payload) 0 fragment_payload_len)),
                                       rb_received_bytes := rb_received_bytes buffer + fragment_payload_len \<rparr>;
                                     buffer = (if is_first
                                       then buffer \<lparr> rb_first_fragment_time :=
                                              (if current_time_ms = 0 then clock else current_time_ms) \<rparr>
                                       else buffer);
                                     m = m \<lparr> fm_reassembly_list := (fm_reassembly_list m)[i := buffer] \<rparr>
                                 in if rb_received_bytes buffer = rb_buffer_size buffer
                                    then (case fragment_complete_reassembly m i of
                                            (complete, m) \<Rightarrow> (XGL_OK, Some complete, m, allocs))
                                    else (XGL_ERR_BUSY, None, m, allocs))))"

subsection \<open>Maintenance\<close>

text \<open>
  The loops over the list that drop the buffers with some property; the list is rebuilt from the buffers kept.
\<close>

fun fragment_drop_loop ::
  "(xgl_reassembly_buffer \<Rightarrow> bool) \<Rightarrow> xgl_reassembly_buffer list \<Rightarrow> xgl_fragment_manager \<Rightarrow> nat
     \<Rightarrow> nat \<times> xgl_reassembly_buffer list \<times> xgl_fragment_manager" where
  "fragment_drop_loop P [] m n = (n, [], m)"
| "fragment_drop_loop P (b # bs) m n =
     (if P b then fragment_drop_loop P bs (fragment_free_reassembly_buffer m b) (n + 1)
      else case fragment_drop_loop P bs m n of (n, kept, m) \<Rightarrow> (n, b # kept, m))"

definition fragment_drop :: "(xgl_reassembly_buffer \<Rightarrow> bool) \<Rightarrow> xgl_fragment_manager \<Rightarrow> nat \<times> xgl_fragment_manager" where
  "fragment_drop P m =
     (case fragment_drop_loop P (fm_reassembly_list m) m 0 of
        (n, kept, m) \<Rightarrow> (n, m \<lparr> fm_reassembly_list := kept \<rparr>))"

definition xgl_fragment_process_timeouts :: "xgl_fragment_manager \<Rightarrow> u32 \<Rightarrow> u32 \<times> xgl_fragment_manager" where
  "xgl_fragment_process_timeouts m current_time_ms =
     (case fragment_drop (\<lambda>b. rb_first_fragment_time b \<noteq> 0 \<and>
                              current_time_ms - rb_first_fragment_time b \<ge> rb_timeout_ms b) m of
        (n, m) \<Rightarrow> (word_of_nat n, m))"

definition xgl_fragment_get_reassembly_count :: "xgl_fragment_manager \<Rightarrow> nat" where
  "xgl_fragment_get_reassembly_count m = length (fm_reassembly_list m)"

definition xgl_fragment_clear_reassembly :: "xgl_fragment_manager \<Rightarrow> xgl_fragment_manager" where
  "xgl_fragment_clear_reassembly m = snd (fragment_drop (\<lambda>_. True) m)"

definition xgl_fragment_clear_reassembly_scope ::
  "xgl_fragment_manager \<Rightarrow> u16 \<Rightarrow> u32 \<Rightarrow> u32 \<Rightarrow> nat \<times> xgl_fragment_manager" where
  "xgl_fragment_clear_reassembly_scope m source_id connection_id session_epoch =
     fragment_drop (\<lambda>b. rb_source_id b = source_id \<and> rb_connection_id b = connection_id
                        \<and> rb_session_epoch b = session_epoch) m"

definition xgl_fragment_destroy :: "xgl_fragment_manager \<Rightarrow> xgl_fragment_manager" where
  "xgl_fragment_destroy m = xgl_fragment_clear_reassembly m"

section \<open>Ranges\<close>

text \<open>The ranges are sorted, not empty, within the message, and never touch each other.\<close>

definition ranges_ok :: "nat \<Rightarrow> (nat \<times> nat) list \<Rightarrow> bool" where
  "ranges_ok n rs \<longleftrightarrow> sorted_wrt (\<lambda>r s. snd r < fst s) rs \<and> (\<forall>r \<in> set rs. fst r < snd r \<and> snd r \<le> n)"

definition covered :: "(nat \<times> nat) list \<Rightarrow> nat set" where
  "covered rs = (\<Union>r \<in> set rs. {fst r..<snd r})"

definition range_bytes :: "(nat \<times> nat) list \<Rightarrow> nat" where
  "range_bytes rs = sum_list (map (\<lambda>r. snd r - fst r) rs)"

lemma covered_simps [simp]:
  "covered [] = {}" "covered (r # rs) = {fst r..<snd r} \<union> covered rs" "covered (rs @ ss) = covered rs \<union> covered ss"
  by (simp_all add: covered_def)

lemma range_bytes_simps [simp]:
  "range_bytes [] = 0" "range_bytes (r # rs) = (snd r - fst r) + range_bytes rs"
  "range_bytes (rs @ ss) = range_bytes rs + range_bytes ss"
  by (simp_all add: range_bytes_def)

lemma ranges_ok_Nil [simp]: "ranges_ok n []"
  by (simp add: ranges_ok_def)

lemma ranges_ok_Cons:
  "ranges_ok n (r # rs) \<longleftrightarrow> fst r < snd r \<and> snd r \<le> n \<and> (\<forall>s \<in> set rs. snd r < fst s) \<and> ranges_ok n rs"
  by (auto simp: ranges_ok_def)

lemma ranges_ok_append:
  "ranges_ok n (rs @ ss) \<longleftrightarrow> ranges_ok n rs \<and> ranges_ok n ss \<and> (\<forall>r \<in> set rs. \<forall>s \<in> set ss. snd r < fst s)"
  by (auto simp: ranges_ok_def sorted_wrt_append)

lemma covered_finite [simp]: "finite (covered rs)"
  by (simp add: covered_def)

lemma covered_card:
  assumes "ranges_ok n rs"
  shows "card (covered rs) = range_bytes rs \<and> covered rs \<subseteq> {..<n}"
  using assms
proof (induction rs)
  case (Cons r rs)
  have "{fst r..<snd r} \<inter> covered rs = {}"
    using Cons.prems by (fastforce simp: ranges_ok_Cons covered_def)
  then have "card (covered (r # rs)) = (snd r - fst r) + card (covered rs)"
    by (simp add: card_Un_disjoint)
  then show ?case using Cons by (auto simp: ranges_ok_Cons)
qed simp

text \<open>As many bytes as the message has: then all of them.\<close>

lemma covered_all:
  assumes "ranges_ok n rs" "range_bytes rs = n"
  shows "covered rs = {..<n}"
  using covered_card [OF assms(1)] assms(2) by (intro card_subset_eq) auto

text \<open>
  The insertion in terms of the ranges before (\<open>A\<close>) and after (\<open>B\<close>) the place of insertion: it extends the last of
  \<open>A\<close>, the first of \<open>B\<close>, joins the two, or puts a new range between them.
\<close>

lemma ranges_split:
  assumes ok: "ranges_ok n rs" and free: "\<not> list_ex (\<lambda>r. fragment_range_overlaps r start end) rs" and less: "start < end"
  obtains A B where "rs = A @ B" "length (takeWhile (\<lambda>r. fst r < start) rs) = length A"
    "\<forall>r \<in> set A. snd r \<le> start" "\<forall>r \<in> set B. end \<le> fst r"
proof
  let ?A = "takeWhile (\<lambda>r. fst r < start) rs" and ?B = "dropWhile (\<lambda>r. fst r < start) rs"
  show rs: "rs = ?A @ ?B" "length ?A = length ?A" by simp_all
  have "\<not> fragment_range_overlaps r start end" if "r \<in> set rs" for r
    using free that by (auto simp: list_ex_iff)
  then have free': "snd r \<le> start \<or> end \<le> fst r" if "r \<in> set rs" for r
    using that by (auto simp: fragment_range_overlaps_def not_less)
  show "\<forall>r \<in> set ?A. snd r \<le> start"
    using free' set_takeWhileD less by fastforce
  have sorted: "sorted_wrt (\<lambda>r s. snd r < fst s) ?B" "\<forall>r \<in> set ?B. fst r < snd r"
    using ok rs(1) unfolding ranges_ok_def by (metis sorted_wrt_append, metis set_dropWhileD)
  have "start \<le> fst r" if "r \<in> set ?B" for r
  proof (cases ?B)
    case (Cons s ss)
    then have "\<not> fst s < start" using dropWhile_eq_Cons_conv by metis
    then show ?thesis using that sorted unfolding Cons by fastforce
  next
    case Nil
    then show ?thesis using that unfolding Nil by simp
  qed
  then show "\<forall>r \<in> set ?B. end \<le> fst r"
    using sorted(2) free' set_dropWhileD by fastforce
qed

definition range_added :: "nat \<Rightarrow> (nat \<times> nat) list \<Rightarrow> nat \<Rightarrow> nat \<Rightarrow> (nat \<times> nat) list \<Rightarrow> bool" where
  "range_added n rs start end rs' \<longleftrightarrow>
     ranges_ok n rs' \<and> covered rs' = covered rs \<union> {start..<end} \<and> covered rs \<inter> {start..<end} = {}
     \<and> range_bytes rs' = range_bytes rs + (end - start)"

lemma range_added_cases:
  assumes ok: "ranges_ok n (A @ B)" and b: "\<forall>r \<in> set A. snd r \<le> start" "\<forall>r \<in> set B. end \<le> fst r" "start < end" "end \<le> n"
  shows "(\<forall>r \<in> set A. snd r < start) \<Longrightarrow> (\<forall>r \<in> set B. end < fst r) \<Longrightarrow> range_added n (A @ B) start end (A @ (start, end) # B)"
    and "A = A' @ [(a, start)] \<Longrightarrow> (\<forall>r \<in> set B. end < fst r) \<Longrightarrow> range_added n (A @ B) start end (A' @ (a, end) # B)"
    and "(\<forall>r \<in> set A. snd r < start) \<Longrightarrow> B = (end, d) # B' \<Longrightarrow> range_added n (A @ B) start end (A @ (start, d) # B')"
    and "A = A' @ [(a, start)] \<Longrightarrow> B = (end, d) # B' \<Longrightarrow> range_added n (A @ B) start end (A' @ (a, d) # B')"
proof -
  have disj: "covered (A @ B) \<inter> {start..<end} = {}"
    using b by (fastforce simp: covered_def)
  show "range_added n (A @ B) start end (A @ (start, end) # B)"
    if "\<forall>r \<in> set A. snd r < start" "\<forall>r \<in> set B. end < fst r"
    using ok that b disj by (auto simp: range_added_def ranges_ok_append ranges_ok_Cons)
  show "range_added n (A @ B) start end (A' @ (a, end) # B)"
    if "A = A' @ [(a, start)]" "\<forall>r \<in> set B. end < fst r"
    using ok that b disj by (auto simp: range_added_def ranges_ok_append ranges_ok_Cons)
  show "range_added n (A @ B) start end (A @ (start, d) # B')"
    if "\<forall>r \<in> set A. snd r < start" "B = (end, d) # B'"
    using ok that b disj by (auto simp: range_added_def ranges_ok_append ranges_ok_Cons)
  show "range_added n (A @ B) start end (A' @ (a, d) # B')"
    if "A = A' @ [(a, start)]" "B = (end, d) # B'"
    using ok that b disj by (auto simp: range_added_def ranges_ok_append ranges_ok_Cons)
qed

lemma ranges_before:
  assumes "ranges_ok n A" "\<forall>r \<in> set A. snd r \<le> start"
  obtains (touch) A' a where "A = A' @ [(a, start)]" | (apart) "\<forall>r \<in> set A. snd r < start" "A = [] \<or> snd (last A) \<noteq> start"
proof (cases A rule: rev_cases)
  case Nil
  then show ?thesis using apart by simp
next
  case (snoc A' x)
  show ?thesis
  proof (cases "snd x = start")
    case True
    then show ?thesis using touch [of A' "fst x"] snoc by (cases x) simp
  next
    case False
    then have "\<forall>r \<in> set A. snd r < start"
      using assms snoc by (fastforce simp: ranges_ok_append ranges_ok_Cons)
    then show ?thesis using apart False snoc by simp
  qed
qed

lemma ranges_after:
  assumes "ranges_ok n B" "\<forall>r \<in> set B. end \<le> fst r"
  obtains (touch) d B' where "B = (end, d) # B'" | (apart) "\<forall>r \<in> set B. end < fst r" "B = [] \<or> fst (hd B) \<noteq> end"
proof (cases B)
  case Nil
  then show ?thesis using apart by simp
next
  case (Cons x B')
  show ?thesis
  proof (cases "fst x = end")
    case True
    then show ?thesis using touch [of "snd x" B'] Cons by (cases x) simp
  next
    case False
    then have "\<forall>r \<in> set B. end < fst r"
      using assms Cons by (fastforce simp: ranges_ok_Cons)
    then show ?thesis using apart False Cons by simp
  qed
qed

lemma insert_range_spec:
  assumes ok: "ranges_ok n rs" and "start < end" "end \<le> n" "length rs \<le> 16"
    and ins: "fragment_insert_received_range rs start end = (e, rs')"
  shows "(e = XGL_OK \<and> range_added n rs start end rs' \<and> length rs' \<le> 16) \<or>
         (rs' = rs \<and> e = XGL_ERR_BUSY \<and> covered rs \<inter> {start..<end} \<noteq> {}) \<or>
         (rs' = rs \<and> e = XGL_ERR_NO_MEMORY \<and> length rs = 16)"
proof (cases "list_ex (\<lambda>r. fragment_range_overlaps r start end) rs")
  case True
  then obtain r where r: "r \<in> set rs" "start < snd r" "fst r < end"
    by (auto simp: list_ex_iff fragment_range_overlaps_def)
  moreover have "fst r < snd r" using ok r(1) by (auto simp: ranges_ok_def)
  ultimately have "max start (fst r) \<in> covered rs \<inter> {start..<end}"
    using assms(2) by (auto simp: covered_def intro!: bexI [of _ r])
  then show ?thesis using ins True assms(2) by (auto simp: fragment_insert_received_range_def)
next
  case False
  obtain A B where AB: "rs = A @ B" "length (takeWhile (\<lambda>r. fst r < start) rs) = length A"
    "\<forall>r \<in> set A. snd r \<le> start" "\<forall>r \<in> set B. end \<le> fst r"
    by (rule ranges_split [OF ok False assms(2)])
  have okA: "ranges_ok n A" and okB: "ranges_ok n B" using ok AB(1) by (simp_all add: ranges_ok_append)
  note add = range_added_cases [OF ok [unfolded AB(1)] AB(3,4) assms(2,3)]
  have less: "\<not> end \<le> start" using assms(2) by simp
  note ins' = ins [unfolded fragment_insert_received_range_def AB(2) Let_def if_not_P [OF False] if_not_P [OF less], unfolded AB(1)]
  show ?thesis
  proof (rule ranges_before [OF okA AB(3)])
    fix A' a assume A: "A = A' @ [(a, start)]"
    show ?thesis
    proof (rule ranges_after [OF okB AB(4)])
      fix d B' assume B: "B = (end, d) # B'"
      have "e = XGL_OK \<and> rs' = A' @ (a, d) # B'"
        using ins' unfolding A B
        by (auto simp: Let_def nth_append list_update_append fragment_remove_range_at_def)
      then show ?thesis using add(4) [OF A B] assms(4) AB(1) A B by simp
    next
      assume B: "\<forall>r \<in> set B. end < fst r" "B = [] \<or> fst (hd B) \<noteq> end"
      have "e = XGL_OK \<and> rs' = A' @ (a, end) # B"
        using ins' B(2) unfolding A
        by (cases B) (auto simp: Let_def nth_append list_update_append)
      then show ?thesis using add(2) [OF A B(1)] assms(4) AB(1) A by simp
    qed
  next
    assume A: "\<forall>r \<in> set A. snd r < start" "A = [] \<or> snd (last A) \<noteq> start"
    have A': "\<not> (length A > 0 \<and> snd ((A @ B) ! (length A - 1)) = start)"
      using A(2) by (auto simp: nth_append last_conv_nth)
    show ?thesis
    proof (rule ranges_after [OF okB AB(4)])
      fix d B' assume B: "B = (end, d) # B'"
      have "e = XGL_OK \<and> rs' = A @ (start, d) # B'"
        using ins' A' unfolding B
        by (auto simp: Let_def nth_append list_update_append)
      then show ?thesis using add(3) [OF A(1) B] assms(4) AB(1) B by simp
    next
      assume B: "\<forall>r \<in> set B. end < fst r" "B = [] \<or> fst (hd B) \<noteq> end"
      have "if length (A @ B) \<ge> 16 then e = XGL_ERR_NO_MEMORY \<and> rs' = rs else e = XGL_OK \<and> rs' = A @ (start, end) # B"
        using ins' A' B(2) unfolding AB(1)
        by (cases B) (auto simp: Let_def nth_append)
      then show ?thesis using add(1) [OF A(1) B(1)] assms(4) AB(1) by (auto split: if_splits)
    qed
  qed
qed

section \<open>Buffers and the manager\<close>

type_synonym message_key = "u16 \<times> u32 \<times> u32 \<times> u32"

definition buffer_key :: "xgl_reassembly_buffer \<Rightarrow> message_key" where
  "buffer_key b = (rb_source_id b, rb_connection_id b, rb_session_epoch b, rb_message_id b)"

definition buffer_ok :: "xgl_reassembly_buffer \<Rightarrow> bool" where
  "buffer_ok b \<longleftrightarrow>
     ranges_ok (rb_buffer_size b) (rb_received_ranges b) \<and> length (rb_received_ranges b) \<le> XGL_FRAGMENT_MAX_RECEIVED_RANGES
     \<and> range_bytes (rb_received_ranges b) = rb_received_bytes b \<and> rb_received_bytes b < rb_buffer_size b
     \<and> length (rb_data b) = rb_buffer_size b \<and> rb_data_len b = rb_buffer_size b \<and> rb_reserved_size b = rb_buffer_size b"

text \<open>
  Every byte received so far satisfies \<open>Q\<close>, a relation between the message's key, the byte's position and its value: for
  instance, that it is the byte of a given message at that position.
\<close>

type_synonym provenance = "message_key \<Rightarrow> nat \<Rightarrow> u8 \<Rightarrow> bool"

definition holds_bytes :: "provenance \<Rightarrow> message_key \<Rightarrow> u8 option list \<Rightarrow> nat set \<Rightarrow> bool" where
  "holds_bytes Q key data I \<longleftrightarrow> (\<forall>i \<in> I. \<exists>x. data ! i = Some x \<and> Q key i x)"

definition buffer_holds :: "provenance \<Rightarrow> xgl_reassembly_buffer \<Rightarrow> bool" where
  "buffer_holds Q b \<longleftrightarrow> holds_bytes Q (buffer_key b) (rb_data b) (covered (rb_received_ranges b))"

definition fragment_inv :: "provenance \<Rightarrow> xgl_fragment_manager \<Rightarrow> bool" where
  "fragment_inv Q m \<longleftrightarrow>
     (\<forall>b \<in> set (fm_reassembly_list m). buffer_ok b \<and> buffer_holds Q b)
     \<and> distinct (map buffer_key (fm_reassembly_list m))
     \<and> fm_current_reassembly_bytes m = sum_list (map rb_reserved_size (fm_reassembly_list m))
     \<and> length (fm_reassembly_list m) \<le> fm_max_reassembly_buffers m
     \<and> (fm_max_reassembly_bytes m \<noteq> 0 \<longrightarrow> fm_current_reassembly_bytes m \<le> fm_max_reassembly_bytes m)"

lemma fragment_invD:
  assumes "fragment_inv Q m" "i < length (fm_reassembly_list m)"
  shows "buffer_ok (fm_reassembly_list m ! i)" "buffer_holds Q (fm_reassembly_list m ! i)"
  using assms by (simp_all add: fragment_inv_def)

lemma find_buffer_Some:
  "fragment_find_reassembly_buffer m s c e k = Some i \<Longrightarrow>
     i < length (fm_reassembly_list m) \<and> buffer_key (fm_reassembly_list m ! i) = (s, c, e, k)"
  by (auto simp: fragment_find_reassembly_buffer_def find_Some_iff buffer_key_def Let_def)

lemma find_buffer_None:
  "fragment_find_reassembly_buffer m s c e k = None \<Longrightarrow> (s, c, e, k) \<notin> buffer_key ` set (fm_reassembly_list m)"
  by (auto simp: fragment_find_reassembly_buffer_def find_None_iff buffer_key_def Let_def in_set_conv_nth)

lemma sum_list_remove_nth:
  "i < length xs \<Longrightarrow> sum_list (xs :: nat list) = xs ! i + sum_list (take i xs @ drop (Suc i) xs)"
  by (metis (no_types) add.left_commute id_take_nth_drop sum_list.Cons sum_list_append)

lemma remove_buffer_inv:
  assumes inv: "fragment_inv Q m" and i: "i < length (fm_reassembly_list m)"
    and size: "rb_reserved_size b = rb_reserved_size (fm_reassembly_list m ! i)"
  shows "fragment_inv Q (release_budget (remove_buffer_at m i) b)"
proof -
  let ?bs = "fm_reassembly_list m" and ?cs = "take i (fm_reassembly_list m) @ drop (i + 1) (fm_reassembly_list m)"
  have sum: "sum_list (map rb_reserved_size ?bs) = rb_reserved_size b + sum_list (map rb_reserved_size ?cs)"
    using sum_list_remove_nth [of i "map rb_reserved_size ?bs"] i by (simp add: size take_map drop_map)
  have sub: "set ?cs \<subseteq> set ?bs" by (auto dest: in_set_takeD in_set_dropD)
  have "distinct (map buffer_key ?bs)" using inv by (simp add: fragment_inv_def)
  then have "distinct (map buffer_key ?cs)"
    using set_take_disj_set_drop_if_distinct [of "map buffer_key ?bs" i "i + 1"]
    by (simp add: take_map [symmetric] drop_map [symmetric])
  then show ?thesis
    using inv sum sub i by (auto simp: fragment_inv_def release_budget_def remove_buffer_at_def)
qed

lemma replace_buffer_inv:
  assumes inv: "fragment_inv Q m" and i: "i < length (fm_reassembly_list m)"
    and b: "buffer_ok b" "buffer_holds Q b" "buffer_key b = buffer_key (fm_reassembly_list m ! i)"
    "rb_reserved_size b = rb_reserved_size (fm_reassembly_list m ! i)"
  shows "fragment_inv Q (m \<lparr> fm_reassembly_list := (fm_reassembly_list m)[i := b] \<rparr>)"
proof -
  have "map buffer_key ((fm_reassembly_list m)[i := b]) = map buffer_key (fm_reassembly_list m)"
    "map rb_reserved_size ((fm_reassembly_list m)[i := b]) = map rb_reserved_size (fm_reassembly_list m)"
    using i b(3,4) by (simp_all add: map_update list_update_same_conv)
  then show ?thesis
    using inv b(1,2) by (auto simp: fragment_inv_def dest!: set_update_subset_insert [THEN subsetD])
qed

lemma create_buffer_inv:
  assumes inv: "fragment_inv Q m" and len: "len \<noteq> 0"
    and none: "fragment_find_reassembly_buffer m s c e k = None"
    and create: "fragment_create_reassembly_buffer m s c e ty k len as = (r, m', as')"
  shows "fragment_inv Q m' \<and> fm_max_reassembly_buffers m' = fm_max_reassembly_buffers m
     \<and> fm_max_reassembly_bytes m' = fm_max_reassembly_bytes m \<and> (case r of Inl err \<Rightarrow> err \<noteq> XGL_OK \<and> m' = m
     | Inr i \<Rightarrow> i < length (fm_reassembly_list m') \<and> buffer_key (fm_reassembly_list m' ! i) = (s, c, e, k))"
proof -
  let ?b = "\<lparr> rb_source_id = s, rb_data_type = ty, rb_connection_id = c, rb_session_epoch = e, rb_message_id = k,
      rb_received_bytes = 0, rb_received_ranges = [], rb_data = replicate (unat len) None, rb_data_len = unat len,
      rb_buffer_size = unat len, rb_reserved_size = unat len, rb_first_fragment_time = 0,
      rb_timeout_ms = fm_reassembly_timeout_ms m \<rparr>"
  let ?m = "m \<lparr> fm_current_reassembly_bytes := fm_current_reassembly_bytes m + unat len, fm_reassembly_list := fm_reassembly_list m @ [?b] \<rparr>"
  have b: "buffer_ok ?b" "buffer_holds Q ?b" "buffer_key ?b = (s, c, e, k)"
    using len unat_gt_0 [of len] by (auto simp: buffer_ok_def buffer_holds_def holds_bytes_def buffer_key_def unat_gt_0)
  have inv': "fragment_inv Q ?m"
    if "length (fm_reassembly_list m) < fm_max_reassembly_buffers m"
      "fm_max_reassembly_bytes m \<noteq> 0 \<longrightarrow> fm_current_reassembly_bytes m \<le> fm_max_reassembly_bytes m \<and> unat len \<le> fm_max_reassembly_bytes m - fm_current_reassembly_bytes m"
    using inv b that find_buffer_None [OF none] by (auto simp: fragment_inv_def)
  consider "\<exists>err. r = Inl err \<and> err \<noteq> XGL_OK \<and> m' = m"
    | "r = Inr (length (fm_reassembly_list m)) \<and> m' = ?m" "length (fm_reassembly_list m) < fm_max_reassembly_buffers m"
      "fm_max_reassembly_bytes m \<noteq> 0 \<longrightarrow> fm_current_reassembly_bytes m \<le> fm_max_reassembly_bytes m \<and> unat len \<le> fm_max_reassembly_bytes m - fm_current_reassembly_bytes m"
    using create unfolding fragment_create_reassembly_buffer_def
    by (auto simp: Let_def not_le not_less split: if_splits prod.splits bool.splits)
  then show ?thesis using inv inv' b(3) by cases auto
qed

section \<open>Storing a fragment\<close>

definition stored :: "xgl_reassembly_buffer \<Rightarrow> nat \<Rightarrow> bytes \<Rightarrow> (nat \<times> nat) list \<Rightarrow> xgl_reassembly_buffer" where
  "stored b start bs rs = b \<lparr> rb_received_ranges := rs, rb_data := mem_write (rb_data b) start (map Some bs),
     rb_received_bytes := rb_received_bytes b + length bs \<rparr>"

text \<open>A new range of bytes that satisfy the relation leaves the buffer right, and complete when all bytes are there.\<close>

lemma stored_spec:
  assumes ok: "buffer_ok b" and holds: "buffer_holds Q b" and len: "bs \<noteq> []" "start + length bs \<le> rb_buffer_size b"
    and bs: "\<forall>j < length bs. Q (buffer_key b) (start + j) (bs ! j)"
    and ins: "fragment_insert_received_range (rb_received_ranges b) start (start + length bs) = (XGL_OK, rs)"
  shows "(rb_received_bytes (stored b start bs rs) < rb_buffer_size b \<longrightarrow> buffer_ok (stored b start bs rs))
       \<and> buffer_holds Q (stored b start bs rs)
       \<and> (rb_received_bytes (stored b start bs rs) = rb_buffer_size b \<longrightarrow> holds_bytes Q (buffer_key b) (rb_data (stored b start bs rs)) {..<rb_buffer_size b})
       \<and> rb_received_bytes (stored b start bs rs) \<le> rb_buffer_size b"
proof -
  let ?b = "stored b start bs rs" and ?n = "rb_buffer_size b" and ?key = "buffer_key b"
  have D: "ranges_ok ?n (rb_received_ranges b)" "length (rb_received_ranges b) \<le> 16" "range_bytes (rb_received_ranges b) = rb_received_bytes b"
    "length (rb_data b) = ?n" "\<forall>i \<in> covered (rb_received_ranges b). \<exists>x. rb_data b ! i = Some x \<and> Q ?key i x"
    using ok holds by (auto simp: buffer_ok_def buffer_holds_def holds_bytes_def)
  have add: "range_added ?n (rb_received_ranges b) start (start + length bs) rs" "length rs \<le> 16"
    using insert_range_spec [OF D(1) _ len(2) D(2) ins] len(1) by auto
  then have R: "ranges_ok ?n rs" "covered rs = covered (rb_received_ranges b) \<union> {start..<start + length bs}"
    "range_bytes rs = rb_received_bytes ?b"
    by (auto simp: range_added_def stored_def D(3))
  have data: "length (rb_data ?b) = ?n" using len(2) D(4) by (simp add: stored_def)
  have nth: "\<exists>x. rb_data ?b ! i = Some x \<and> Q ?key i x" if "i \<in> covered rs" for i
  proof -
    have i: "i < ?n" using covered_card [OF R(1)] that by auto
    show ?thesis
    proof (cases "start \<le> i \<and> i < start + length bs")
      case True
      then have d: "i - start < length bs" by auto
      then have "Q ?key i (bs ! (i - start))" using bs [rule_format, OF d] True by simp
      then show ?thesis using True i d len(2) D(4) by (simp add: stored_def nth_mem_write)
    next
      case False
      then have "i \<in> covered (rb_received_ranges b)" using that R(2) by auto
      then show ?thesis using False i len(2) D(4,5) by (auto simp: stored_def nth_mem_write)
    qed
  qed
  have key: "buffer_key ?b = buffer_key b" "rb_buffer_size ?b = ?n" "rb_received_ranges ?b = rs"
    by (simp_all add: stored_def buffer_key_def)
  have le: "rb_received_bytes ?b \<le> ?n"
    using covered_card [OF R(1)] card_mono [of "{..<?n}" "covered rs"] R(3) by simp
  have "holds_bytes Q ?key (rb_data ?b) {..<?n}" if "rb_received_bytes ?b = ?n"
    using covered_all [OF R(1)] R(3) that nth by (simp add: holds_bytes_def)
  moreover have "buffer_holds Q ?b" using nth by (simp add: buffer_holds_def holds_bytes_def key)
  moreover have "rb_received_bytes ?b < ?n \<longrightarrow> buffer_ok ?b"
    using R add(2) data ok by (simp add: buffer_ok_def key) (simp add: stored_def)
  ultimately show ?thesis using le by blast
qed

section \<open>Processing fragments\<close>

text \<open>A fragment whose bytes satisfy the relation.\<close>

definition fragment_of :: "provenance \<Rightarrow> message_key \<Rightarrow> u32 \<Rightarrow> bytes option \<Rightarrow> nat \<Rightarrow> bool" where
  "fragment_of Q key offset payload n \<longleftrightarrow>
     (case payload of None \<Rightarrow> True | Some p \<Rightarrow> n \<le> length p \<and> (\<forall>j < n. Q key (unat offset + j) (p ! j)))"

definition stamped :: "bool \<Rightarrow> u32 \<Rightarrow> xgl_reassembly_buffer \<Rightarrow> xgl_reassembly_buffer" where
  "stamped first t b = (if first then b \<lparr> rb_first_fragment_time := t \<rparr> else b)"

lemma stamped_simps [simp]:
  "buffer_key (stamped f t b) = buffer_key b" "rb_received_bytes (stamped f t b) = rb_received_bytes b"
  "rb_buffer_size (stamped f t b) = rb_buffer_size b" "rb_reserved_size (stamped f t b) = rb_reserved_size b"
  "rb_data (stamped f t b) = rb_data b" "rb_data_len (stamped f t b) = rb_data_len b"
  "buffer_ok (stamped f t b) = buffer_ok b" "buffer_holds Q (stamped f t b) = buffer_holds Q b"
  by (simp_all add: stamped_def buffer_key_def buffer_ok_def buffer_holds_def)

lemma stored_simps [simp]:
  "buffer_key (stored b start bs rs) = buffer_key b" "rb_buffer_size (stored b start bs rs) = rb_buffer_size b"
  "rb_reserved_size (stored b start bs rs) = rb_reserved_size b" "rb_data_len (stored b start bs rs) = rb_data_len b"
  by (simp_all add: stored_def buffer_key_def)

text \<open>The second half of \<^verbatim>\<open>xgl_fragment_process_ext\<close>, once the buffer is known.\<close>

lemma process_fragment_found:
  assumes "(case fragment_find_reassembly_buffer m s c e k of Some i \<Rightarrow> (Inr i, m, as)
      | None \<Rightarrow> fragment_create_reassembly_buffer m s c e ty k len as) = (Inr i, mf, af)"
    and "payload = Some p" "n > 0"
    and "fragment_insert_received_range (rb_received_ranges (fm_reassembly_list mf ! i)) (unat off) (unat off + n) = (re, rs)"
    and "length (mem_read p 0 n) = n"
    and "fragment_validate_ext_input off len n = XGL_OK"
  shows "xgl_fragment_process_ext m s c e ty k off len payload n now clock as =
     (let b = fm_reassembly_list mf ! i;
          b' = stamped (rb_received_bytes b = 0) (if now = 0 then clock else now) (stored b (unat off) (mem_read p 0 n) rs);
          m2 = mf \<lparr> fm_reassembly_list := (fm_reassembly_list mf)[i := b'] \<rparr>
      in if rb_data_type b \<noteq> ty \<or> rb_buffer_size b \<noteq> unat len then (XGL_ERR_INVALID_FRAME, None, mf, af)
         else if re \<noteq> XGL_OK then (re, None, mf, af)
         else if rb_received_bytes b' = rb_buffer_size b
         then (case fragment_complete_reassembly m2 i of (x, m3) \<Rightarrow> (XGL_OK, Some x, m3, af))
         else (XGL_ERR_BUSY, None, m2, af))"
  using assms(2,3,6)
  by (simp add: xgl_fragment_process_ext_def assms(1,4,5) Let_def stamped_def stored_def cong: if_cong)

lemma process_fragment_spec:
  assumes inv: "fragment_inv Q m" and frag: "fragment_of Q (s, c, e, k) off payload n"
    and run: "xgl_fragment_process_ext m s c e ty k off len payload n now clock as = (err, complete, m', as')"
  shows "fragment_inv Q m' \<and> fm_max_reassembly_buffers m' = fm_max_reassembly_buffers m
       \<and> fm_max_reassembly_bytes m' = fm_max_reassembly_bytes m
       \<and> (case complete of None \<Rightarrow> err \<noteq> XGL_OK
           | Some (d, l) \<Rightarrow> err = XGL_OK \<and> l = unat len \<and> length d = unat len \<and> holds_bytes Q (s, c, e, k) d {..<unat len})"
proof (cases "payload = None \<or> n = 0 \<or> fragment_validate_ext_input off len n \<noteq> XGL_OK")
  case True
  then show ?thesis using run inv by (auto simp: xgl_fragment_process_ext_def Let_def split: if_splits)
next
  case False
  then obtain p where p: "payload = Some p" "n > 0" and valid: "len \<noteq> 0" "unat off \<le> unat len" "n \<le> unat len - unat off"
    by (auto simp: fragment_validate_ext_input_def word_le_nat_alt not_less split: if_splits)
  let ?key = "(s, c, e, k)" and ?start = "unat off"
  have bytes: "n \<le> length p" "\<forall>j < n. Q ?key (?start + j) (p ! j)"
    using frag p(1) by (simp_all add: fragment_of_def)
  then have n: "length (mem_read p 0 n) = n" by simp
  then have ne: "mem_read p 0 n \<noteq> []" using p(2) by (metis list.size(3) less_irrefl)
  define found where "found = (case fragment_find_reassembly_buffer m s c e k of Some i \<Rightarrow> (Inr i, m, as)
      | None \<Rightarrow> fragment_create_reassembly_buffer m s c e ty k len as)"
  obtain r m1 as1 where r: "found = (r, m1, as1)" by (cases found)
  have m1: "fragment_inv Q m1 \<and> fm_max_reassembly_buffers m1 = fm_max_reassembly_buffers m
      \<and> fm_max_reassembly_bytes m1 = fm_max_reassembly_bytes m \<and> (case r of Inl err \<Rightarrow> err \<noteq> XGL_OK
        | Inr i \<Rightarrow> i < length (fm_reassembly_list m1) \<and> buffer_key (fm_reassembly_list m1 ! i) = ?key)"
  proof (cases "fragment_find_reassembly_buffer m s c e k")
    case None
    then show ?thesis
      using create_buffer_inv [OF inv valid(1) None, of ty as r m1 as1] r by (auto simp: found_def split: sum.splits)
  next
    case (Some i)
    then show ?thesis using find_buffer_Some [OF Some] inv r by (auto simp: found_def)
  qed
  show ?thesis
  proof (cases r)
    case (Inl x)
    then show ?thesis
      using run r m1 False p by (auto simp: xgl_fragment_process_ext_def Let_def found_def [symmetric])
  next
    case (Inr i)
    then have i: "i < length (fm_reassembly_list m1)" "buffer_key (fm_reassembly_list m1 ! i) = ?key" and inv1: "fragment_inv Q m1"
      using m1 by auto
    let ?b = "fm_reassembly_list m1 ! i" and ?bs = "mem_read p 0 n"
    note b = fragment_invD [OF inv1 i(1)]
    obtain re rs where ins: "fragment_insert_received_range (rb_received_ranges ?b) ?start (?start + n) = (re, rs)" by fastforce
    have v: "fragment_validate_ext_input off len n = XGL_OK" using False by simp
    note val = process_fragment_found [OF r [unfolded Inr found_def] p ins n v, of now clock]
    show ?thesis
    proof (cases "rb_data_type ?b \<noteq> ty \<or> rb_buffer_size ?b \<noteq> unat len \<or> re \<noteq> XGL_OK")
      case True
      have "complete = None \<and> m' = m1 \<and> err \<noteq> XGL_OK"
        using True val [unfolded run Let_def] by (simp split: if_splits)
      then show ?thesis using m1 by simp
    next
      case ok: False
      then have size': "rb_buffer_size ?b = unat len" by simp
      have S: "(rb_received_bytes (stored ?b ?start ?bs rs) < rb_buffer_size ?b \<longrightarrow> buffer_ok (stored ?b ?start ?bs rs))
       \<and> buffer_holds Q (stored ?b ?start ?bs rs)
       \<and> (rb_received_bytes (stored ?b ?start ?bs rs) = rb_buffer_size ?b \<longrightarrow> holds_bytes Q (buffer_key ?b) (rb_data (stored ?b ?start ?bs rs)) {..<rb_buffer_size ?b})
       \<and> rb_received_bytes (stored ?b ?start ?bs rs) \<le> rb_buffer_size ?b"
        using ok ins n ne valid bytes i(2) size' by (intro stored_spec [OF b]) (auto simp: mem_read_def)
      let ?b' = "stamped (rb_received_bytes ?b = 0) (if now = 0 then clock else now) (stored ?b ?start ?bs rs)"
      let ?m2 = "m1 \<lparr> fm_reassembly_list := (fm_reassembly_list m1)[i := ?b'] \<rparr>"
      show ?thesis
      proof (cases "rb_received_bytes (stored ?b ?start ?bs rs) = rb_buffer_size ?b")
        case full: True
        have "remove_buffer_at ?m2 i = remove_buffer_at m1 i" using i(1) by (simp add: remove_buffer_at_def)
        then have res: "err = XGL_OK" "complete = Some (rb_data (stored ?b ?start ?bs rs), unat len)" "m' = release_budget (remove_buffer_at m1 i) ?b'"
          using val [unfolded run Let_def] ok full size' b(1) i
          by (auto simp: fragment_complete_reassembly_def buffer_ok_def)
        have "fragment_inv Q m'" unfolding res(3) by (rule remove_buffer_inv [OF inv1 i(1)]) simp
        moreover have "length (rb_data (stored ?b ?start ?bs rs)) = unat len"
          using b(1) n valid size' by (simp add: stored_def buffer_ok_def)
        ultimately show ?thesis using res m1 S full size' i(2) by (auto simp: release_budget_def remove_buffer_at_def)
      next
        case part: False
        have res: "err = XGL_ERR_BUSY" "complete = None" "m' = ?m2"
          using val [unfolded run Let_def] ok part size' by auto
        have "fragment_inv Q m'" unfolding res(3)
          by (rule replace_buffer_inv [OF inv1 i(1)]) (use S part in simp_all)
        then show ?thesis using res m1 by simp
      qed
    qed
  qed
qed

section \<open>Maintenance\<close>

lemma drop_loop_eq:
  assumes "sum_list (map rb_reserved_size (filter P bs)) \<le> fm_current_reassembly_bytes m"
  shows "fragment_drop_loop P bs m n =
     (n + length (filter P bs), filter (\<lambda>b. \<not> P b) bs,
      m \<lparr> fm_current_reassembly_bytes := fm_current_reassembly_bytes m - sum_list (map rb_reserved_size (filter P bs)) \<rparr>)"
  using assms
  by (induction bs arbitrary: m n) (auto simp: fragment_free_reassembly_buffer_def release_budget_def)

lemma sum_list_filter_split:
  "sum_list (map f (filter P bs)) + sum_list (map f (filter (\<lambda>b. \<not> P b) bs)) = (sum_list (map f bs) :: nat)"
  by (induction bs) auto

lemma fragment_drop_spec:
  assumes inv: "fragment_inv Q m" and run: "fragment_drop P m = (n, m')"
  shows "fragment_inv Q m' \<and> fm_reassembly_list m' = filter (\<lambda>b. \<not> P b) (fm_reassembly_list m)
       \<and> n = length (filter P (fm_reassembly_list m))
       \<and> fm_max_reassembly_buffers m' = fm_max_reassembly_buffers m \<and> fm_max_reassembly_bytes m' = fm_max_reassembly_bytes m"
proof -
  let ?bs = "fm_reassembly_list m"
  note split = sum_list_filter_split [of rb_reserved_size P ?bs]
  have cur: "fm_current_reassembly_bytes m = sum_list (map rb_reserved_size ?bs)" using inv by (simp add: fragment_inv_def)
  have res: "n = length (filter P ?bs)" "m' = m \<lparr> fm_current_reassembly_bytes := sum_list (map rb_reserved_size (filter (\<lambda>b. \<not> P b) ?bs)),
      fm_reassembly_list := filter (\<lambda>b. \<not> P b) ?bs \<rparr>"
    using run drop_loop_eq [of P ?bs m 0] split cur by (auto simp: fragment_drop_def)
  have "distinct (map buffer_key (filter (\<lambda>b. \<not> P b) ?bs))"
    using inv by (auto simp: fragment_inv_def distinct_map_filter)
  moreover have "length (filter (\<lambda>b. \<not> P b) ?bs) \<le> fm_max_reassembly_buffers m"
    using inv le_trans [OF length_filter_le] by (auto simp: fragment_inv_def)
  ultimately show ?thesis using inv split cur by (auto simp: res fragment_inv_def)
qed

section \<open>Any sequence of events\<close>

text \<open>
  What the manager is asked to do: a fragment arrives (key, data type, offset, message length, payload, time, clock
  and the allocator's answers), time passes, a scope is reset, or everything is cleared.
\<close>

datatype fragment_event =
    Fragment message_key u8 u32 u32 bytes u32 u32 "bool list"
  | Expire u32
  | Reset_scope u16 u32 u32
  | Clear_all

fun fragment_step ::
  "xgl_fragment_manager \<Rightarrow> fragment_event \<Rightarrow> (xgl_error \<times> (u8 option list \<times> nat) option) \<times> xgl_fragment_manager" where
  "fragment_step m (Fragment (s, c, e, k) ty off len p now clock as) =
     (case xgl_fragment_process_ext m s c e ty k off len (Some p) (length p) now clock as of
        (err, complete, m', _) \<Rightarrow> ((err, complete), m'))"
| "fragment_step m (Expire now) = ((XGL_OK, None), snd (xgl_fragment_process_timeouts m now))"
| "fragment_step m (Reset_scope s c e) = ((XGL_OK, None), snd (xgl_fragment_clear_reassembly_scope m s c e))"
| "fragment_step m Clear_all = ((XGL_OK, None), xgl_fragment_clear_reassembly m)"

text \<open>The fragments of the event carry only bytes that satisfy \<open>Q\<close>.\<close>

fun event_of :: "provenance \<Rightarrow> fragment_event \<Rightarrow> bool" where
  "event_of Q (Fragment key ty off len p now clock as) \<longleftrightarrow> fragment_of Q key off (Some p) (length p)"
| "event_of Q _ \<longleftrightarrow> True"

text \<open>A message handed up is of the announced length and consists of bytes that satisfy \<open>Q\<close>.\<close>

fun output_of :: "provenance \<Rightarrow> fragment_event \<Rightarrow> xgl_error \<times> (u8 option list \<times> nat) option \<Rightarrow> bool" where
  "output_of Q (Fragment key ty off len p now clock as) (err, complete) \<longleftrightarrow>
     (case complete of None \<Rightarrow> err \<noteq> XGL_OK
      | Some (d, l) \<Rightarrow> err = XGL_OK \<and> l = unat len \<and> length d = l \<and> holds_bytes Q key d {..<l})"
| "output_of Q _ (err, complete) \<longleftrightarrow> complete = None"

lemma fragment_step_spec:
  assumes inv: "fragment_inv Q m" and ev: "event_of Q ev"
  shows "case fragment_step m ev of (out, m') \<Rightarrow> fragment_inv Q m' \<and> output_of Q ev out
       \<and> fm_max_reassembly_buffers m' = fm_max_reassembly_buffers m \<and> fm_max_reassembly_bytes m' = fm_max_reassembly_bytes m"
proof (cases ev)
  case (Fragment key ty off len p now clock as)
  obtain s c e k where key: "key = (s, c, e, k)" by (cases key)
  obtain err complete m' as' where
    run: "xgl_fragment_process_ext m s c e ty k off len (Some p) (length p) now clock as = (err, complete, m', as')"
    by (metis prod_cases4)
  have "fragment_of Q (s, c, e, k) off (Some p) (length p)" using ev Fragment key by simp
  from process_fragment_spec [OF inv this run] show ?thesis
    using run by (auto simp: Fragment key split: option.splits)
qed (use inv fragment_drop_spec [OF inv surjective_pairing] in \<open>auto simp: xgl_fragment_process_timeouts_def
      xgl_fragment_clear_reassembly_scope_def xgl_fragment_clear_reassembly_def case_prod_beta\<close>)

lemma fragment_of_True [simp]: "event_of (\<lambda>_ _ _. True) ev"
  by (cases ev) (simp_all add: fragment_of_def)

interpretation fragments: invariant_machine fragment_step "fragment_inv (\<lambda>_ _ _. True)"
proof
  fix m ev
  assume "fragment_inv (\<lambda>_ _ _. True) m"
  from fragment_step_spec [OF this fragment_of_True [of ev]]
  show "fragment_inv (\<lambda>_ _ _. True) (snd (fragment_step m ev))" by (simp add: case_prod_beta)
qed

lemma fragments_run_spec:
  assumes "fragment_inv Q m" "\<forall>ev \<in> set evs. event_of Q ev" "fragments.run m evs = (outs, m')"
  shows "fragment_inv Q m' \<and> list_all2 (output_of Q) evs outs
       \<and> fm_max_reassembly_buffers m' = fm_max_reassembly_buffers m \<and> fm_max_reassembly_bytes m' = fm_max_reassembly_bytes m"
  using assms
proof (induction evs arbitrary: m outs)
  case (Cons ev evs)
  obtain out m1 where s: "fragment_step m ev = (out, m1)" by fastforce
  obtain outs1 where r: "fragments.run m1 evs = (outs1, m')" "outs = out # outs1"
    using Cons.prems(3) s by (auto split: prod.splits)
  have "fragment_inv Q m1 \<and> output_of Q ev out \<and> fm_max_reassembly_buffers m1 = fm_max_reassembly_buffers m
      \<and> fm_max_reassembly_bytes m1 = fm_max_reassembly_bytes m"
    using fragment_step_spec [OF Cons.prems(1), of ev] Cons.prems(2) s by simp
  then show ?case using Cons.IH [OF _ _ r(1)] Cons.prems(2) r(2) by simp
qed simp

text \<open>Where a byte comes from: some fragment of the message carried it at that position.\<close>

fun carries :: "fragment_event \<Rightarrow> provenance" where
  "carries (Fragment key ty off len p now clock as) key' i x \<longleftrightarrow> key' = key \<and> (\<exists>j < length p. i = unat off + j \<and> x = p ! j)"
| "carries _ key' i x \<longleftrightarrow> False"

definition carried :: "fragment_event list \<Rightarrow> provenance" where
  "carried evs key i x \<longleftrightarrow> (\<exists>ev \<in> set evs. carries ev key i x)"

lemma carried_events: "ev \<in> set evs \<Longrightarrow> event_of (carried evs) ev"
proof (cases ev)
  case (Fragment key ty off len p now clock as)
  assume "ev \<in> set evs"
  then show ?thesis unfolding Fragment by (force simp: fragment_of_def carried_def)
qed simp_all

lemma fragment_init_inv:
  assumes "xgl_fragment_set_limits (xgl_fragment_init bufs tmo) max_msg max_bytes = (e, m)"
  shows "fragment_inv Q m \<and> fm_max_reassembly_buffers m = bufs \<and> (e = XGL_OK \<longrightarrow> fm_max_reassembly_bytes m = max_bytes)"
  using assms by (auto simp: xgl_fragment_set_limits_def xgl_fragment_init_def fragment_inv_def split: if_splits)

text \<open>
  C18: Reassembly is safe against any peer. After any sequence of fragments (of any number of messages, overlapping,
  contradicting each other, repeated, in any order), timeouts and resets, with any answers of the allocator: a message that is handed up has the announced length, every byte of
  it is initialised and was carried by a fragment of that message at exactly that position; the number of
  buffers and the bytes reserved for them stay within the configured limits, the byte counter is exact, no buffer has
  more than 16 ranges, and the ranges lie inside the buffer.
\<close>

theorem reassembly_is_safe:
  assumes m0: "xgl_fragment_set_limits (xgl_fragment_init bufs tmo) max_msg max_bytes = (XGL_OK, m0)"
    and run: "fragments.run m0 evs = (outs, m)"
  shows "list_all2 (output_of (carried evs)) evs outs
       \<and> length (fm_reassembly_list m) \<le> bufs
       \<and> fm_current_reassembly_bytes m = sum_list (map rb_buffer_size (fm_reassembly_list m))
       \<and> (max_bytes \<noteq> 0 \<longrightarrow> fm_current_reassembly_bytes m \<le> max_bytes)
       \<and> (\<forall>b \<in> set (fm_reassembly_list m). length (rb_received_ranges b) \<le> 16
            \<and> (\<forall>(start, end) \<in> set (rb_received_ranges b). start < end \<and> end \<le> length (rb_data b)))"
proof -
  have init: "fragment_inv (carried evs) m0" "fm_max_reassembly_buffers m0 = bufs" "fm_max_reassembly_bytes m0 = max_bytes"
    using fragment_init_inv [OF m0] by auto
  note spec = fragments_run_spec [OF init(1) _ run]
  then have inv: "fragment_inv (carried evs) m" "list_all2 (output_of (carried evs)) evs outs"
    "fm_max_reassembly_buffers m = bufs" "fm_max_reassembly_bytes m = max_bytes"
    using carried_events init(2,3) by auto
  have ok: "buffer_ok b" if "b \<in> set (fm_reassembly_list m)" for b using inv(1) that by (simp add: fragment_inv_def)
  have "sum_list (map rb_reserved_size (fm_reassembly_list m)) = sum_list (map rb_buffer_size (fm_reassembly_list m))"
    using ok by (intro arg_cong [of _ _ sum_list] map_cong) (auto simp: buffer_ok_def)
  moreover have "fm_current_reassembly_bytes m = sum_list (map rb_reserved_size (fm_reassembly_list m))"
    "length (fm_reassembly_list m) \<le> bufs" "max_bytes \<noteq> 0 \<longrightarrow> fm_current_reassembly_bytes m \<le> max_bytes"
    using inv(1,3,4) by (auto simp: fragment_inv_def)
  moreover have "length (rb_received_ranges b) \<le> 16 \<and> (\<forall>(start, end) \<in> set (rb_received_ranges b). start < end \<and> end \<le> length (rb_data b))"
    if "b \<in> set (fm_reassembly_list m)" for b
    using ok [OF that] by (auto simp: buffer_ok_def ranges_ok_def)
  ultimately show ?thesis using inv(2) by simp
qed

definition sample_fragments :: "fragment_event list" where
  "sample_fragments = [Fragment (1, 2, 0, 9) 3 2 3 [30] 5 0 [True, True], Fragment (1, 2, 0, 9) 3 0 3 [10, 20] 6 0 []]"

theorem reassembly_is_safe_witness:
  "\<exists>m0 m. xgl_fragment_set_limits (xgl_fragment_init 2 100) 8 16 = (XGL_OK, m0)
     \<and> fragments.run m0 sample_fragments = ([(XGL_ERR_BUSY, None), (XGL_OK, Some ([Some 10, Some 20, Some 30], 3))], m)
     \<and> fm_current_reassembly_bytes m \<le> 16"
proof -
  define m0 where "m0 = xgl_fragment_init 2 100 \<lparr> fm_max_message_size := 8, fm_max_reassembly_bytes := 16 \<rparr>"
  have lim: "xgl_fragment_set_limits (xgl_fragment_init 2 100) 8 16 = (XGL_OK, m0)"
    by (simp add: xgl_fragment_set_limits_def m0_def)
  have "fst (fragments.run m0 sample_fragments) = [(XGL_ERR_BUSY, None), (XGL_OK, Some ([Some 10, Some 20, Some 30], 3))]"
    unfolding fragments.run_def m0_def sample_fragments_def by code_simp
  then obtain m where run: "fragments.run m0 sample_fragments = ([(XGL_ERR_BUSY, None), (XGL_OK, Some ([Some 10, Some 20, Some 30], 3))], m)"
    by (metis prod.collapse)
  have "fm_current_reassembly_bytes m \<le> 16" using reassembly_is_safe [OF lim run] by simp
  then show ?thesis using lim run by blast
qed

section \<open>A message cut into fragments comes back\<close>

text \<open>The fragments of a message with the given lengths, from an offset on; only the first one may need memory.\<close>

fun fragments_from :: "message_key \<Rightarrow> u8 \<Rightarrow> bytes \<Rightarrow> u32 \<Rightarrow> u32 \<Rightarrow> bool list \<Rightarrow> nat \<Rightarrow> nat list \<Rightarrow> fragment_event list" where
  "fragments_from key ty msg now clock as off [] = []"
| "fragments_from key ty msg now clock as off (n # ns) =
     Fragment key ty (word_of_nat off) (word_of_nat (length msg)) (mem_read msg off n) now clock as
     # fragments_from key ty msg now clock as (off + n) ns"

text \<open>The buffer of the message holds its first \<open>n\<close> bytes.\<close>

definition receiving :: "message_key \<Rightarrow> u8 \<Rightarrow> bytes \<Rightarrow> nat \<Rightarrow> xgl_fragment_manager \<Rightarrow> bool" where
  "receiving key ty msg n m \<longleftrightarrow>
     (\<exists>b \<in> set (fm_reassembly_list m). buffer_key b = key \<and> rb_data_type b = ty \<and> rb_buffer_size b = length msg
        \<and> rb_received_ranges b = [(0, n)] \<and> rb_received_bytes b = n)"

text \<open>There is room for the message: a free buffer, and its length within the limits.\<close>

definition has_room :: "xgl_fragment_manager \<Rightarrow> nat \<Rightarrow> bool" where
  "has_room m len \<longleftrightarrow> length (fm_reassembly_list m) < fm_max_reassembly_buffers m
     \<and> (fm_max_message_size m \<noteq> 0 \<longrightarrow> len \<le> fm_max_message_size m)
     \<and> (fm_max_reassembly_bytes m \<noteq> 0 \<longrightarrow> fm_current_reassembly_bytes m + len \<le> fm_max_reassembly_bytes m)"

lemma unat_u32_of_nat: "n < 2 ^ 32 \<Longrightarrow> unat (word_of_nat n :: u32) = n"
  by (simp add: unat_of_nat take_bit_nat_eq_self)

lemma validate_piece:
  assumes "length msg < 2 ^ 32" "off + n \<le> length msg" "0 < n"
  shows "fragment_validate_ext_input (word_of_nat off) (word_of_nat (length msg)) n = XGL_OK"
    "unat (word_of_nat off :: u32) = off" "unat (word_of_nat (length msg) :: u32) = length msg"
  using assms unat_u32_of_nat [of off] unat_u32_of_nat [of "length msg"]
  by (auto simp: fragment_validate_ext_input_def word_less_nat_alt word_eq_iff_unsigned unat_eq_0 dest: arg_cong [of _ _ unat])

lemma insert_first: "0 < n \<Longrightarrow> fragment_insert_received_range [] 0 n = (XGL_OK, [(0, n)])"
  by (simp add: fragment_insert_received_range_def)

lemma insert_next: "0 < off \<Longrightarrow> 0 < n \<Longrightarrow> fragment_insert_received_range [(0, off)] off (off + n) = (XGL_OK, [(0, off + n)])"
  by (simp add: fragment_insert_received_range_def fragment_range_overlaps_def)

lemma piece_spec:
  assumes inv: "fragment_inv (\<lambda>_ _ _. True) m" and msg: "length msg < 2 ^ 32" "off + n \<le> length msg" "0 < n"
    and state: "if off = 0 then key \<notin> buffer_key ` set (fm_reassembly_list m) \<and> has_room m (length msg) \<and> (\<exists>as'. as = True # True # as')
                else receiving key ty msg off m"
    and step: "fragment_step m (Fragment key ty (word_of_nat off) (word_of_nat (length msg)) (mem_read msg off n) now clock as) = (out, m')"
  shows "if off + n < length msg then out = (XGL_ERR_BUSY, None) \<and> receiving key ty msg (off + n) m'
         else fst out = XGL_OK"
proof -
  obtain s c e k where key: "key = (s, c, e, k)" by (cases key)
  note v = validate_piece [OF msg]
  let ?p = "mem_read msg off n" and ?off = "word_of_nat off :: u32" and ?len = "word_of_nat (length msg) :: u32"
  have p: "length ?p = n" "mem_read ?p 0 n = ?p" using msg by simp_all
  have "\<exists>i m1 as1. (case fragment_find_reassembly_buffer m s c e k of Some i \<Rightarrow> (Inr i, m, as)
      | None \<Rightarrow> fragment_create_reassembly_buffer m s c e ty k ?len as) = (Inr i, m1, as1)
      \<and> i < length (fm_reassembly_list m1) \<and> buffer_key (fm_reassembly_list m1 ! i) = key
      \<and> rb_data_type (fm_reassembly_list m1 ! i) = ty \<and> rb_buffer_size (fm_reassembly_list m1 ! i) = length msg
      \<and> rb_received_bytes (fm_reassembly_list m1 ! i) = off
      \<and> fragment_insert_received_range (rb_received_ranges (fm_reassembly_list m1 ! i)) off (off + n) = (XGL_OK, [(0, off + n)])"
    (is "\<exists>i m1 as1. ?found i m1 as1")
  proof (cases "off = 0")
    case True
    have none: "fragment_find_reassembly_buffer m s c e k = None"
    proof (cases "fragment_find_reassembly_buffer m s c e k")
      case (Some a)
      have "key \<in> buffer_key ` set (fm_reassembly_list m)"
        using find_buffer_Some [OF Some] by (auto simp: key intro!: image_eqI [of _ _ "fm_reassembly_list m ! a"])
      then show ?thesis using state True by simp
    qed
    then show ?thesis
      using state True insert_first [OF msg(3)] v(3)
      by (auto simp: fragment_create_reassembly_buffer_def has_room_def Let_def take_alloc_def buffer_key_def key)
  next
    case False
    then obtain j where j: "j < length (fm_reassembly_list m)" "buffer_key (fm_reassembly_list m ! j) = key"
      "rb_data_type (fm_reassembly_list m ! j) = ty" "rb_buffer_size (fm_reassembly_list m ! j) = length msg"
      "rb_received_ranges (fm_reassembly_list m ! j) = [(0, off)]" "rb_received_bytes (fm_reassembly_list m ! j) = off"
      using state by (auto simp: receiving_def in_set_conv_nth)
    have "fragment_find_reassembly_buffer m s c e k \<noteq> None"
      using find_buffer_None [of m s c e k] j(1,2) key by (metis nth_mem rev_image_eqI)
    then obtain i where i: "fragment_find_reassembly_buffer m s c e k = Some i" by blast
    have "distinct (map buffer_key (fm_reassembly_list m))" using inv by (simp add: fragment_inv_def)
    then have "i = j"
      using find_buffer_Some [OF i] j(1,2) key nth_eq_iff_index_eq [of "map buffer_key (fm_reassembly_list m)" i j] by simp
    then show ?thesis using i j False insert_next [of off n] msg(3) by auto
  qed
  then obtain i m1 as1 where f: "?found i m1 as1" by blast
  let ?b' = "stamped (off = 0) (if now = 0 then clock else now) (stored (fm_reassembly_list m1 ! i) off ?p [(0, off + n)])"
  have val: "xgl_fragment_process_ext m s c e ty k ?off ?len (Some ?p) n now clock as =
      (let m2 = m1 \<lparr> fm_reassembly_list := (fm_reassembly_list m1)[i := ?b'] \<rparr>
       in if off + n = length msg
          then (case fragment_complete_reassembly m2 i of (x, m3) \<Rightarrow> (XGL_OK, Some x, m3, as1))
          else (XGL_ERR_BUSY, None, m2, as1))"
    using f v p by (subst process_fragment_found [where i = i and mf = m1 and af = as1 and p = ?p and re = XGL_OK and rs = "[(0, off + n)]"])
       (auto simp: msg(3) Let_def stored_def)
  show ?thesis
  proof (cases "off + n < length msg")
    case True
    then have res: "out = (XGL_ERR_BUSY, None)" "m' = m1 \<lparr> fm_reassembly_list := (fm_reassembly_list m1)[i := ?b'] \<rparr>"
      using step val p(1) unfolding key by (auto simp: Let_def)
    have "?b' \<in> set (fm_reassembly_list m')" using f by (simp add: res(2) set_update_memI)
    moreover have "buffer_key ?b' = key" using f by simp
    moreover have "rb_data_type ?b' = ty" "rb_buffer_size ?b' = length msg"
        "rb_received_ranges ?b' = [(0, off + n)]" "rb_received_bytes ?b' = off + n"
      using f p(1) by (simp_all add: stored_def stamped_def)
    ultimately have "receiving key ty msg (off + n) m'" unfolding receiving_def by blast
    then show ?thesis using True res(1) by simp
  next
    case False
    then have "off + n = length msg" using msg(2) by simp
    then show ?thesis using step val p(1) unfolding key by (auto simp: Let_def split: prod.splits)
  qed
qed

lemma pieces_run:
  assumes "fragment_inv (\<lambda>_ _ _. True) m" "length msg < 2 ^ 32" "\<forall>n \<in> set ns. 0 < n" "ns \<noteq> []" "off + sum_list ns = length msg"
    and "if off = 0 then key \<notin> buffer_key ` set (fm_reassembly_list m) \<and> has_room m (length msg) \<and> (\<exists>as'. as = True # True # as')
         else receiving key ty msg off m"
    and "fragments.run m (fragments_from key ty msg now clock as off ns) = (outs, m')"
  shows "\<exists>x. outs = replicate (length ns - 1) (XGL_ERR_BUSY, None) @ [(XGL_OK, x)]"
  using assms
proof (induction ns arbitrary: m off outs)
  case (Cons n ns)
  let ?ev = "Fragment key ty (word_of_nat off) (word_of_nat (length msg)) (mem_read msg off n) now clock as"
  obtain out m1 where s: "fragment_step m ?ev = (out, m1)" by fastforce
  obtain outs1 where r: "fragments.run m1 (fragments_from key ty msg now clock as (off + n) ns) = (outs1, m')" "outs = out # outs1"
    using Cons.prems(7) s by (auto split: prod.splits)
  have inv1: "fragment_inv (\<lambda>_ _ _. True) m1"
    using fragments.step_inv [OF Cons.prems(1), of ?ev] s by simp
  note piece = piece_spec [OF Cons.prems(1,2) _ _ Cons.prems(6) s]
  show ?case
  proof (cases ns)
    case Nil
    then have "fst out = XGL_OK" using piece Cons.prems(3,5) by auto
    then show ?thesis using Nil r by (cases out) auto
  next
    case (Cons n' ns')
    then have "off + n < length msg" "off + n \<noteq> 0" using Cons.prems(3,5) by auto
    then have "out = (XGL_ERR_BUSY, None)" "receiving key ty msg (off + n) m1"
      using piece Cons.prems(3,5) by auto
    then show ?thesis
      using Cons.IH [OF inv1 Cons.prems(2) _ _ _ _ r(1)] Cons.prems(3,5) \<open>off + n \<noteq> 0\<close> r(2) Cons by simp
  qed
qed simp

definition only_message :: "message_key \<Rightarrow> bytes \<Rightarrow> provenance" where
  "only_message key msg key' i x \<longleftrightarrow> key' = key \<longrightarrow> i < length msg \<and> x = msg ! i"

lemma fragments_from_of_message:
  "off + sum_list ns \<le> length msg \<Longrightarrow> length msg < 2 ^ 32 \<Longrightarrow>
   \<forall>ev \<in> set (fragments_from key ty msg now clock as off ns). event_of (only_message key msg) ev"
proof (induction ns arbitrary: off)
  case (Cons n ns)
  then have "off + n + sum_list ns \<le> length msg" by simp
  then show ?case
    using Cons.IH [of "off + n"] Cons.prems by (auto simp: fragment_of_def only_message_def nth_mem_read unat_u32_of_nat)
qed simp

text \<open>One fragment of the message in its turn: the state it leaves, and at the end the message itself.\<close>

lemma fragment_inv_any: "fragment_inv Q m \<Longrightarrow> fragment_inv (\<lambda>_ _ _. True) m"
  by (fastforce simp: fragment_inv_def buffer_holds_def holds_bytes_def)

lemma fragment_inv_fresh:
  "fragment_inv (\<lambda>_ _ _. True) m \<Longrightarrow> key \<notin> buffer_key ` set (fm_reassembly_list m) \<Longrightarrow> fragment_inv (only_message key msg) m"
  by (fastforce simp: fragment_inv_def buffer_holds_def holds_bytes_def only_message_def)

lemma holds_message: "length d = length msg \<Longrightarrow> holds_bytes (only_message key msg) key d {..<length msg} \<Longrightarrow> d = map Some msg"
  by (intro nth_equalityI) (auto simp: holds_bytes_def only_message_def)

lemma piece_step:
  assumes inv: "fragment_inv (only_message key msg) m" and msg: "length msg < 2 ^ 32" "off + n \<le> length msg" "0 < n"
    and state: "if off = 0 then key \<notin> buffer_key ` set (fm_reassembly_list m) \<and> has_room m (length msg) \<and> (\<exists>as'. as = True # True # as')
                else receiving key ty msg off m"
    and step: "fragment_step m (Fragment key ty (word_of_nat off) (word_of_nat (length msg)) (mem_read msg off n) now clock as) = (out, m')"
  shows "fragment_inv (only_message key msg) m'"
    "if off + n < length msg then out = (XGL_ERR_BUSY, None) \<and> receiving key ty msg (off + n) m'
     else out = (XGL_OK, Some (map Some msg, length msg))"
proof -
  let ?ev = "Fragment key ty (word_of_nat off) (word_of_nat (length msg)) (mem_read msg off n) now clock as"
  have "event_of (only_message key msg) ?ev"
    using msg by (auto simp: fragment_of_def only_message_def nth_mem_read unat_u32_of_nat)
  from fragment_step_spec [OF inv this] step
  have F: "fragment_inv (only_message key msg) m'" "output_of (only_message key msg) ?ev out" by simp_all
  show "fragment_inv (only_message key msg) m'" by (rule F(1))
  have "out = (XGL_OK, Some (map Some msg, length msg))" if "fst out = XGL_OK"
    using F(2) that msg(1) by (cases out) (auto simp: unat_u32_of_nat split: option.splits dest: holds_message)
  then show "if off + n < length msg then out = (XGL_ERR_BUSY, None) \<and> receiving key ty msg (off + n) m'
     else out = (XGL_OK, Some (map Some msg, length msg))"
    using piece_spec [OF fragment_inv_any [OF inv] msg state step] by (simp split: if_splits)
qed

lemma mem_read_prefix: "mem_read (take n d) 0 n = mem_read d 0 n"
  by (simp add: mem_read_def)

lemma process_ext_prefix:
  "xgl_fragment_process_ext m s c e ty k off len (Some d) n now clock as =
   xgl_fragment_process_ext m s c e ty k off len (Some (take n d)) n now clock as"
  unfolding xgl_fragment_process_ext_def option.sel by (simp only: mem_read_prefix option.distinct)

lemma fragments_from_snoc:
  "ns \<noteq> [] \<Longrightarrow> \<exists>evs off' p. fragments_from key ty msg now clock as off ns =
     evs @ [Fragment key ty off' (word_of_nat (length msg)) p now clock as]"
proof (induction ns arbitrary: off)
  case (Cons n ns)
  show ?case
  proof (cases ns)
    case Nil
    then show ?thesis by (intro exI [of _ "[]"]) simp
  next
    case Cons': (Cons n' ns')
    then obtain evs off' p where "fragments_from key ty msg now clock as (off + n) ns =
        evs @ [Fragment key ty off' (word_of_nat (length msg)) p now clock as]"
      using Cons.IH [of "off + n"] by auto
    then show ?thesis
      by (intro exI [of _ "Fragment key ty (word_of_nat off) (word_of_nat (length msg)) (mem_read msg off n) now clock as # evs"]
          exI [of _ off'] exI [of _ p]) simp
  qed
qed simp

text \<open>
  C19: A message cut into any number of non-empty fragments, delivered in order, is put together again. If the
  manager has a free buffer and the message is within the limits, every fragment but the last is answered
  BUSY and the last one with OK and exactly the message, whatever other messages are being reassembled.
\<close>

theorem fragments_roundtrip:
  assumes inv: "fragment_inv (\<lambda>_ _ _. True) m" and fresh: "key \<notin> buffer_key ` set (fm_reassembly_list m)"
    and room: "has_room m (length msg)" and len: "length msg < 2 ^ 32"
    and ns: "\<forall>n \<in> set ns. 0 < n" "ns \<noteq> []" "sum_list ns = length msg"
  shows "fst (fragments.run m (fragments_from key ty msg now clock [True, True] 0 ns)) =
     replicate (length ns - 1) (XGL_ERR_BUSY, None) @ [(XGL_OK, Some (map Some msg, length msg))]"
proof -
  obtain outs m' where run: "fragments.run m (fragments_from key ty msg now clock [True, True] 0 ns) = (outs, m')" by fastforce
  obtain x where outs: "outs = replicate (length ns - 1) (XGL_ERR_BUSY, None) @ [(XGL_OK, x)]"
    using pieces_run [OF inv len ns(1,2) _ _ run] ns(3) fresh room by auto
  have all: "list_all2 (output_of (only_message key msg)) (fragments_from key ty msg now clock [True, True] 0 ns) outs"
    using fragments_run_spec [OF fragment_inv_fresh [OF inv fresh] fragments_from_of_message run] ns(3) len by simp
  obtain evs off' p where evs: "fragments_from key ty msg now clock [True, True] 0 ns =
      evs @ [Fragment key ty off' (word_of_nat (length msg)) p now clock [True, True]]"
    using fragments_from_snoc [OF ns(2)] by blast
  have "output_of (only_message key msg) (Fragment key ty off' (word_of_nat (length msg)) p now clock [True, True]) (XGL_OK, x)"
    using all unfolding evs outs by (auto simp: list_all2_append1 list_all2_Cons1 dest!: append_eq_append_conv [THEN iffD1, rotated])
  then obtain d where d: "x = Some (d, length msg)" "length d = length msg" "holds_bytes (only_message key msg) key d {..<length msg}"
    using len by (auto simp: unat_u32_of_nat split: option.splits)
  then have "d = map Some msg" by (intro holds_message)
  then show ?thesis using run outs d(1) by simp
qed

theorem fragments_roundtrip_witness:
  "fst (fragments.run (xgl_fragment_init 2 100) (fragments_from (1, 2, 0, 9) 3 [10, 20, 30, 40, 50] 5 0 [True, True] 0 [2, 2, 1])) =
     [(XGL_ERR_BUSY, None), (XGL_ERR_BUSY, None), (XGL_OK, Some ([Some 10, Some 20, Some 30, Some 40, Some 50], 5))]"
proof -
  have "fragment_inv (\<lambda>_ _ _. True) (xgl_fragment_init 2 100)"
    by (simp add: fragment_inv_def xgl_fragment_init_def)
  from fragments_roundtrip [OF this, of "(1, 2, 0, 9)" "[10, 20, 30, 40, 50]" "[2, 2, 1]" 3 5 0]
  show ?thesis by (simp add: xgl_fragment_init_def has_room_def del: fragments.run.simps fragments_from.simps)
qed

end
