(* ===== verification/Xgl_Datalink.thy ===== *)
theory Xgl_Datalink
  imports Xgl_Parser Xgl_Security Xgl_Hashtable
begin

text \<open>
  The data link layer, \<^verbatim>\<open>src/datalink/xgl_datalink*.c\<close>: frames out through a physical interface, bytes in through
  the parser, validation of received frames (checksums, extensions, authentication, replay) and
  delivery to the network layer. The physical interface and the layer above are outside the component: what
  \<^verbatim>\<open>phy->rx\<close> and \<^verbatim>\<open>phy->tx\<close> return are arguments, and transmissions, deliveries and error callbacks are
  outputs, in order. Counters are 64-bit and wrap.
\<close>

section \<open>The code\<close>

abbreviation (input) "XGL_DATALINK_REPLAY_WINDOW_COUNT \<equiv> (16 :: nat)"
abbreviation (input) "XGL_DATALINK_REPLAY_WINDOW_SIZE \<equiv> (64 :: u8)"
abbreviation (input) "XGL_DATALINK_MAX_FRAME_SIZE \<equiv> (2048 :: nat)"
abbreviation (input) "XGL_DATALINK_STACK_BUFFER_SIZE \<equiv> (512 :: nat)"
abbreviation (input) "XGL_DATALINK_RX_CHUNK_SIZE \<equiv> (128 :: nat)"

record xgl_layer_stats =
  ls_tx_packets :: u64
  ls_tx_bytes :: u64
  ls_tx_errors :: u64
  ls_rx_packets :: u64
  ls_rx_bytes :: u64
  ls_rx_errors :: u64
  ls_rx_dropped :: u64

text \<open>What a layer does to its surroundings.\<close>

datatype layer_output =
    Deliver bytes          \<comment> \<open>\<^verbatim>\<open>upper_layer->receive\<close> with a frame\<close>
  | Transmit nat bytes     \<comment> \<open>\<^verbatim>\<open>phy->tx\<close>\<close>
  | Report xgl_error       \<comment> \<open>\<^verbatim>\<open>error_callback\<close>\<close>

record xgl_datalink_ctx =
  dl_parser :: xgl_parser
  dl_stats :: "xgl_layer_stats option"
  dl_rx_header_crc_errors :: "u64 option"
  dl_rx_crc16_errors :: "u64 option"
  dl_error_callback :: bool
  dl_source_id :: u16
  dl_auth_required :: bool
  dl_auth_key_id :: u32
  dl_auth_provider :: "xgl_auth_provider option"
  dl_replay_windows :: "xgl_replay_window list"
  dl_replay_window_used :: "bool list"
  dl_upper_layer :: bool

record xgl_datalink_config =
  dc_rx_cache :: "bytes option"
  dc_rx_cache_size :: nat
  dc_source_id :: u16
  dc_stats :: "xgl_layer_stats option"
  dc_rx_header_crc_errors :: "u64 option"
  dc_rx_crc16_errors :: "u64 option"
  dc_upper_layer :: bool
  dc_error_callback :: bool
  dc_auth_required :: bool
  dc_auth_key_id :: u32
  dc_auth_provider :: "xgl_auth_provider option"

definition zero_replay_window :: xgl_replay_window where
  "zero_replay_window = \<lparr> rw_source_id = 0, rw_connection_id = 0, rw_session_epoch = 0, rw_largest_packet_number = 0,
     rw_received_bitmap = 0, rw_window_size = 0, rw_has_largest = False \<rparr>"

definition xgl_datalink_init :: "xgl_datalink_config option \<Rightarrow> xgl_error + xgl_datalink_ctx" where
  "xgl_datalink_init config =
     (case config of
        None \<Rightarrow> Inl XGL_ERR_NULL_POINTER
      | Some c \<Rightarrow>
          if dc_rx_cache c = None \<or> dc_stats c = None then Inl XGL_ERR_NULL_POINTER
          else
            (case xgl_parser_init (dc_rx_cache c) (dc_rx_cache_size c) of
               Inl err \<Rightarrow> Inl err
             | Inr parser \<Rightarrow>
                 Inr \<lparr> dl_parser = parser, dl_stats = dc_stats c, dl_rx_header_crc_errors = dc_rx_header_crc_errors c,
                       dl_rx_crc16_errors = dc_rx_crc16_errors c, dl_error_callback = dc_error_callback c,
                       dl_source_id = dc_source_id c, dl_auth_required = dc_auth_required c,
                       dl_auth_key_id = dc_auth_key_id c, dl_auth_provider = dc_auth_provider c,
                       dl_replay_windows = replicate XGL_DATALINK_REPLAY_WINDOW_COUNT zero_replay_window,
                       dl_replay_window_used = replicate XGL_DATALINK_REPLAY_WINDOW_COUNT False,
                       dl_upper_layer = dc_upper_layer c \<rparr>))"

subsection \<open>Received frames\<close>

record xgl_datalink_rx_metadata =
  md_header :: xgl_wire_header
  md_auth_tag_len :: u8
  md_has_security_ext :: bool
  md_authenticated :: bool
  md_should_verify_auth :: bool
  md_header_crc_failed :: bool
  md_frame_crc_failed :: bool
  md_auth_key_rejected :: bool
  md_auth_key_id :: u32
  md_session_epoch :: u32
  md_payload_len :: nat

definition zero_wire_header :: xgl_wire_header where
  "zero_wire_header = \<lparr> wh_version = 0, wh_header_len = 0, wh_packet_type = 0, wh_flags = 0, wh_ttl = 0,
     wh_traffic_class = 0, wh_source_id = 0, wh_target_id = 0, wh_connection_id = 0, wh_packet_number = 0,
     wh_payload_len = 0, wh_header_crc16 = 0 \<rparr>"

definition zero_rx_metadata :: xgl_datalink_rx_metadata where
  "zero_rx_metadata = \<lparr> md_header = zero_wire_header, md_auth_tag_len = 0, md_has_security_ext = False,
     md_authenticated = False, md_should_verify_auth = False, md_header_crc_failed = False,
     md_frame_crc_failed = False, md_auth_key_rejected = False, md_auth_key_id = 0, md_session_epoch = 0,
     md_payload_len = 0 \<rparr>"

text \<open>The body of the loop over the extensions; \<open>Inl\<close> is the early return of INVALID_FRAME.\<close>

definition datalink_ext_body ::
  "bool \<Rightarrow> u32 \<Rightarrow> xgl_wire_ext \<Rightarrow> xgl_datalink_rx_metadata \<Rightarrow> xgl_datalink_rx_metadata + xgl_datalink_rx_metadata" where
  "datalink_ext_body auth_required required_auth_key_id ext metadata =
     (if ext_type ext = XGL_WIRE_EXT_SECURITY
      then (case xgl_wire_decode_security_ext_value (Some (ext_value ext)) (ext_len ext) of
              Inl _ \<Rightarrow> Inl metadata
            | Inr (key_id, nonce_id, tag_len) \<Rightarrow>
                let metadata = metadata \<lparr> md_auth_key_id := key_id \<rparr>
                in if tag_len = 0 then Inl metadata
                   else if auth_required \<and> key_id \<noteq> required_auth_key_id
                   then Inl (metadata \<lparr> md_auth_key_rejected := True \<rparr>)
                   else Inr (metadata \<lparr> md_auth_tag_len := tag_len, md_has_security_ext := True \<rparr>))
      else if ext_type ext = XGL_WIRE_EXT_SESSION
      then (case xgl_wire_decode_session_ext_value (Some (ext_value ext)) (ext_len ext) of
              Inl _ \<Rightarrow> Inl metadata
            | Inr (session_epoch, incarnation_id) \<Rightarrow> Inr (metadata \<lparr> md_session_epoch := session_epoch \<rparr>))
      else Inr metadata)"

definition datalink_decode_rx_extensions ::
  "bytes \<Rightarrow> xgl_wire_header \<Rightarrow> bool \<Rightarrow> u32 \<Rightarrow> xgl_datalink_rx_metadata \<Rightarrow> xgl_error \<times> xgl_datalink_rx_metadata" where
  "datalink_decode_rx_extensions frame_buffer header auth_required required_auth_key_id metadata =
     (if unat (wh_header_len header) \<le> XGL_WIRE_BASE_HEADER_SIZE then (XGL_OK, metadata)
      else
        case xgl_wire_ext_cursor_init (Some (drop XGL_WIRE_BASE_HEADER_SIZE frame_buffer))
               (unat (wh_header_len header) - XGL_WIRE_BASE_HEADER_SIZE) of
          Inl _ \<Rightarrow> (XGL_ERR_INVALID_FRAME, metadata)
        | Inr cursor \<Rightarrow>
            (case ext_while (datalink_ext_body auth_required required_auth_key_id) cursor metadata of
               Inl metadata \<Rightarrow> (XGL_ERR_INVALID_FRAME, metadata)
             | Inr (err, metadata) \<Rightarrow>
                 (if err = XGL_ERR_NOT_FOUND then XGL_OK else XGL_ERR_INVALID_FRAME, metadata)))"

definition xgl_datalink_decode_rx_metadata ::
  "bytes \<Rightarrow> nat \<Rightarrow> bool \<Rightarrow> u32 \<Rightarrow> xgl_error \<times> xgl_datalink_rx_metadata" where
  "xgl_datalink_decode_rx_metadata frame_buffer frame_len auth_required required_auth_key_id =
     (let metadata = zero_rx_metadata;
          min_frame_size = XGL_FRAME_HEADER_SIZE + XGL_CRC16_SIZE
      in if frame_len < min_frame_size \<or> frame_len > XGL_DATALINK_MAX_FRAME_SIZE
         then (XGL_ERR_INVALID_FRAME, metadata)
         else if frame_buffer ! 0 \<noteq> XGL_WIRE_MAGIC_0 \<or> frame_buffer ! 1 \<noteq> XGL_WIRE_MAGIC_1
         then (XGL_ERR_INVALID_FRAME, metadata)
         else
           case xgl_wire_decode_header (Some frame_buffer) frame_len of
             Inl _ \<Rightarrow> (XGL_ERR_CRC_FAILED, metadata \<lparr> md_header_crc_failed := True \<rparr>)
           | Inr header \<Rightarrow>
               (case datalink_decode_rx_extensions frame_buffer header auth_required required_auth_key_id
                       (metadata \<lparr> md_header := header \<rparr>) of
                  (err, metadata) \<Rightarrow>
                    if err \<noteq> XGL_OK then (err, metadata)
                    else
                      let authenticated = (wh_flags header AND XGL_WIRE_FLAG_AUTHENTICATED \<noteq> 0);
                          metadata = metadata \<lparr> md_authenticated := authenticated,
                            md_should_verify_auth := (authenticated \<or> md_has_security_ext metadata) \<rparr>;
                          crc_offset = frame_len - XGL_CRC16_SIZE;
                          calculated_crc = xgl_crc16_modbus (Some frame_buffer) crc_offset;
                          received_crc = get_u16_le frame_buffer crc_offset
                      in if calculated_crc \<noteq> received_crc
                         then (XGL_ERR_CRC_FAILED, metadata \<lparr> md_frame_crc_failed := True \<rparr>)
                         else
                           let metadata = metadata \<lparr> md_payload_len := unat (wh_payload_len header) \<rparr>;
                               expected_frame_len = unat (wh_header_len header) + md_payload_len metadata
                                 + unat (md_auth_tag_len metadata) + XGL_CRC16_SIZE
                           in (if frame_len \<noteq> expected_frame_len then XGL_ERR_INVALID_FRAME else XGL_OK, metadata)))"

text \<open>
  The loop over the 16 slots returns at the first window in use for the context; it remembers the first free slot.
\<close>

definition datalink_check_replay ::
  "xgl_datalink_ctx \<Rightarrow> u16 \<Rightarrow> u32 \<Rightarrow> u32 \<Rightarrow> u32 \<Rightarrow> xgl_replay_result \<times> xgl_datalink_ctx" where
  "datalink_check_replay ctx source_id connection_id session_epoch packet_number =
     (let slots = [0..<XGL_DATALINK_REPLAY_WINDOW_COUNT];
          check = (\<lambda>ctx i. case xgl_replay_window_check (dl_replay_windows ctx ! i) source_id connection_id
                                  session_epoch packet_number of
                             (r, w) \<Rightarrow> (r, ctx \<lparr> dl_replay_windows := (dl_replay_windows ctx)[i := w] \<rparr>))
      in case List.find (\<lambda>i. dl_replay_window_used ctx ! i \<and> rw_source_id (dl_replay_windows ctx ! i) = source_id
                             \<and> rw_connection_id (dl_replay_windows ctx ! i) = connection_id
                             \<and> rw_session_epoch (dl_replay_windows ctx ! i) = session_epoch) slots of
           Some i \<Rightarrow> check ctx i
         | None \<Rightarrow>
             (case List.find (\<lambda>i. \<not> dl_replay_window_used ctx ! i) slots of
                None \<Rightarrow> (XGL_REPLAY_REJECT, ctx)
              | Some i \<Rightarrow>
                  (case xgl_replay_window_init source_id connection_id session_epoch XGL_DATALINK_REPLAY_WINDOW_SIZE of
                     Inl _ \<Rightarrow> (XGL_REPLAY_REJECT, ctx)
                   | Inr w \<Rightarrow>
                       check (ctx \<lparr> dl_replay_windows := (dl_replay_windows ctx)[i := w],
                                    dl_replay_window_used := (dl_replay_window_used ctx)[i := True] \<rparr>) i)))"

definition datalink_is_ack_eliciting :: "xgl_wire_header \<Rightarrow> bool" where
  "datalink_is_ack_eliciting wire_header \<longleftrightarrow>
     wh_traffic_class wire_header AND XGL_RELIABILITY_CLASS_MASK = XGL_RELIABILITY_ACK_ELICITING \<or>
     wh_flags wire_header AND XGL_WIRE_FLAG_ACK_ELICITING \<noteq> 0"

text \<open>The counter updates \<^verbatim>\<open>if (ctx->stats != NULL) ctx->stats->... \<close>.\<close>

definition dl_count :: "(xgl_layer_stats \<Rightarrow> xgl_layer_stats) \<Rightarrow> xgl_datalink_ctx \<Rightarrow> xgl_datalink_ctx" where
  "dl_count f ctx = ctx \<lparr> dl_stats := map_option f (dl_stats ctx) \<rparr>"

definition count_rx_error :: "xgl_layer_stats \<Rightarrow> xgl_layer_stats" where
  "count_rx_error s = s \<lparr> ls_rx_errors := ls_rx_errors s + 1 \<rparr>"

definition count_rx_dropped :: "xgl_layer_stats \<Rightarrow> xgl_layer_stats" where
  "count_rx_dropped s = s \<lparr> ls_rx_dropped := ls_rx_dropped s + 1 \<rparr>"

definition count_rx_frame :: "nat \<Rightarrow> xgl_layer_stats \<Rightarrow> xgl_layer_stats" where
  "count_rx_frame n s = s \<lparr> ls_rx_packets := ls_rx_packets s + 1, ls_rx_bytes := ls_rx_bytes s + word_of_nat n \<rparr>"

definition count_tx_error :: "xgl_layer_stats \<Rightarrow> xgl_layer_stats" where
  "count_tx_error s = s \<lparr> ls_tx_errors := ls_tx_errors s + 1 \<rparr>"

definition count_tx_frame :: "nat \<Rightarrow> xgl_layer_stats \<Rightarrow> xgl_layer_stats" where
  "count_tx_frame n s = s \<lparr> ls_tx_packets := ls_tx_packets s + 1, ls_tx_bytes := ls_tx_bytes s + word_of_nat n \<rparr>"

definition dl_report :: "xgl_datalink_ctx \<Rightarrow> xgl_error \<Rightarrow> layer_output list" where
  "dl_report ctx err = (if dl_error_callback ctx then [Report err] else [])"

definition xgl_datalink_process_frame ::
  "xgl_datalink_ctx \<Rightarrow> bytes option \<Rightarrow> nat \<Rightarrow> xgl_error \<times> layer_output list \<times> xgl_datalink_ctx" where
  "xgl_datalink_process_frame ctx frame_ptr frame_len =
     (case frame_ptr of
        None \<Rightarrow> (XGL_ERR_NULL_POINTER, [], ctx)
      | Some frame_buffer \<Rightarrow>
          (case xgl_datalink_decode_rx_metadata frame_buffer frame_len (dl_auth_required ctx) (dl_auth_key_id ctx) of
             (err, metadata) \<Rightarrow>
               if err \<noteq> XGL_OK
               then
                 let ctx = dl_count count_rx_error ctx;
                     ctx = (if md_auth_key_rejected metadata then dl_count count_rx_dropped ctx else ctx);
                     ctx = (if md_header_crc_failed metadata
                            then ctx \<lparr> dl_rx_header_crc_errors := map_option (\<lambda>n. n + 1) (dl_rx_header_crc_errors ctx) \<rparr>
                            else ctx);
                     ctx = (if md_frame_crc_failed metadata
                            then ctx \<lparr> dl_rx_crc16_errors := map_option (\<lambda>n. n + 1) (dl_rx_crc16_errors ctx) \<rparr>
                            else ctx)
                 in (err,
                     (if md_frame_crc_failed metadata then dl_report ctx XGL_ERR_CRC_FAILED else [])
                     @ (if frame_len > XGL_DATALINK_MAX_FRAME_SIZE then dl_report ctx XGL_ERR_INVALID_FRAME else []),
                     ctx)
               else
                 let drop_frame = (\<lambda>ctx. (XGL_ERR_INVALID_FRAME, [], dl_count (count_rx_dropped \<circ> count_rx_error) ctx));
                     deliver = (\<lambda>ctx. (XGL_OK,
                                       if dl_upper_layer ctx then [Deliver (take frame_len frame_buffer)] else [],
                                       dl_count (count_rx_frame frame_len) ctx))
                 in if (dl_auth_required ctx \<or> md_should_verify_auth metadata) \<and>
                       (\<not> md_authenticated metadata \<or> \<not> md_has_security_ext metadata \<or>
                        Option.bind (dl_auth_provider ctx) ap_verify = None)
                    then drop_frame ctx
                    else if md_should_verify_auth metadata
                    then
                      (case xgl_wire_verify_auth_trailer (Some frame_buffer) (frame_len - XGL_CRC16_SIZE)
                              (unat (wh_header_len (md_header metadata))) (md_payload_len metadata)
                              (md_auth_key_id metadata) (dl_auth_provider ctx) of
                         (auth_err, auth_valid) \<Rightarrow>
                           if auth_err \<noteq> XGL_OK \<or> \<not> auth_valid then drop_frame ctx
                           else
                             (case datalink_check_replay ctx (wh_source_id (md_header metadata))
                                     (wh_connection_id (md_header metadata)) (md_session_epoch metadata)
                                     (wh_packet_number (md_header metadata)) of
                                (replay_result, ctx) \<Rightarrow>
                                  if replay_result = XGL_REPLAY_REJECT \<or>
                                     replay_result = XGL_REPLAY_ACCEPT_DUPLICATE \<and>
                                       \<not> datalink_is_ack_eliciting (md_header metadata)
                                  then drop_frame ctx
                                  else deliver ctx))
                    else deliver ctx))"

text \<open>The loop over the bytes that \<^verbatim>\<open>phy->rx\<close> returned.\<close>

fun datalink_feed ::
  "xgl_datalink_ctx \<Rightarrow> bytes \<Rightarrow> u32 \<Rightarrow> layer_output list \<times> xgl_datalink_ctx" where
  "datalink_feed ctx [] now = ([], ctx)"
| "datalink_feed ctx (b # bs) now =
     (case xgl_parser_feed_byte (dl_parser ctx) b now of
        (result, parser) \<Rightarrow>
          let ctx = ctx \<lparr> dl_parser := parser \<rparr>;
              (out, ctx) =
                (case result of
                   XGL_PARSE_RESULT_COMPLETE \<Rightarrow>
                     (case (case xgl_parser_get_frame (dl_parser ctx) of
                              Inl _ \<Rightarrow> (XGL_OK, [], ctx)
                            | Inr (frame_buffer, frame_len) \<Rightarrow>
                                xgl_datalink_process_frame ctx (Some frame_buffer) frame_len) of
                        (_, out, ctx) \<Rightarrow> (out, ctx \<lparr> dl_parser := xgl_parser_reset (dl_parser ctx) \<rparr>))
                 | XGL_PARSE_RESULT_ERROR \<Rightarrow> ([], dl_count count_rx_error ctx)
                 | XGL_PARSE_RESULT_INCOMPLETE \<Rightarrow> ([], ctx))
          in (case datalink_feed ctx bs now of (out', ctx) \<Rightarrow> (out @ out', ctx)))"

text \<open>
  \<open>has_rx\<close> says whether the interface has a receive function; \<open>rx\<close> is what it returns, with the bytes it wrote into
  the chunk buffer.
\<close>

definition xgl_datalink_receive ::
  "xgl_datalink_ctx \<Rightarrow> bool \<Rightarrow> xgl_error \<times> bytes \<Rightarrow> u32 \<Rightarrow> u32 \<Rightarrow> xgl_error \<times> layer_output list \<times> xgl_datalink_ctx" where
  "xgl_datalink_receive ctx has_rx rx current_time_ms timeout_ms =
     (if \<not> has_rx then (XGL_ERR_INVALID_PARAM, [], ctx)
      else
        let (out, ctx) =
              (if xgl_parser_check_timeout (dl_parser ctx) current_time_ms timeout_ms
               then (dl_report ctx XGL_ERR_TIMEOUT,
                     dl_count count_rx_error (ctx \<lparr> dl_parser := xgl_parser_reset (dl_parser ctx) \<rparr>))
               else ([], ctx));
            (err, rx_buffer) = rx
        in if err \<noteq> XGL_OK then (err, out, ctx)
           else (case datalink_feed ctx rx_buffer current_time_ms of
                   (out', ctx) \<Rightarrow> (XGL_OK, out @ out', ctx)))"

subsection \<open>Sending\<close>

definition datalink_auth_tag_len :: "xgl_datalink_ctx \<Rightarrow> xgl_error + nat" where
  "datalink_auth_tag_len ctx =
     (if \<not> dl_auth_required ctx then Inr 0
      else case dl_auth_provider ctx of
             None \<Rightarrow> Inl XGL_ERR_INVALID_PARAM
           | Some p \<Rightarrow>
               if ap_sign p = None \<or> ap_tag_len p = 0 \<or> ap_tag_len p > XGL_AUTH_TAG_MAX_LEN
               then Inl XGL_ERR_INVALID_PARAM else Inr (ap_tag_len p))"

text \<open>
  The frame buffer is on the stack or, when the frame is larger than 512 bytes, allocated; the bytes that are
  transmitted are all written by the serializer. \<open>tx\<close> is the result of \<^verbatim>\<open>phy->tx\<close>.
\<close>

definition xgl_datalink_send ::
  "xgl_datalink_ctx \<Rightarrow> nat option \<Rightarrow> bool \<Rightarrow> xgl_frame option \<Rightarrow> xgl_error \<Rightarrow> bool list
     \<Rightarrow> xgl_error \<times> layer_output list \<times> xgl_datalink_ctx \<times> bool list" where
  "xgl_datalink_send ctx phy_ptr has_tx frame_ptr tx allocs =
     (case (phy_ptr, frame_ptr) of
        (Some phy, Some frame) \<Rightarrow>
          if \<not> has_tx then (XGL_ERR_INVALID_PARAM, [], ctx, allocs)
          else
            (case datalink_auth_tag_len ctx of
               Inl err \<Rightarrow> (err, [], dl_count count_tx_error ctx, allocs)
             | Inr auth_tag_len \<Rightarrow>
                 let frame_size = xgl_frame_serialized_size (fr_payload_len frame) (fr_extensions_len frame) auth_tag_len;
                     use_heap = (frame_size > XGL_DATALINK_STACK_BUFFER_SIZE);
                     (got, allocs) = (if use_heap then take_alloc allocs else (True, allocs));
                     buffer = replicate (if use_heap then frame_size else XGL_DATALINK_STACK_BUFFER_SIZE) 0
                 in if \<not> got
                    then (XGL_ERR_NO_MEMORY, dl_report ctx XGL_ERR_NO_MEMORY, dl_count count_tx_error ctx, allocs)
                    else
                      (case (if dl_auth_required ctx
                             then xgl_frame_serialize_authenticated (Some buffer) frame_size (Some frame)
                                    (dl_auth_key_id ctx) (dl_auth_provider ctx)
                             else xgl_frame_serialize (Some buffer) frame_size (Some frame)) of
                         Inl err \<Rightarrow> (err, dl_report ctx err, dl_count count_tx_error ctx, allocs)
                       | Inr (frame_buffer, bytes_written) \<Rightarrow>
                           let sent = Transmit phy (take bytes_written frame_buffer)
                           in if tx \<noteq> XGL_OK
                              then (tx, sent # dl_report ctx tx, dl_count count_tx_error ctx, allocs)
                              else (XGL_OK, [sent], dl_count (count_tx_frame bytes_written) ctx, allocs)))
      | _ \<Rightarrow> (XGL_ERR_NULL_POINTER, [], ctx, allocs))"

definition xgl_datalink_send_raw ::
  "xgl_datalink_ctx \<Rightarrow> nat option \<Rightarrow> bool \<Rightarrow> bytes option \<Rightarrow> nat \<Rightarrow> xgl_error
     \<Rightarrow> xgl_error \<times> layer_output list \<times> xgl_datalink_ctx" where
  "xgl_datalink_send_raw ctx phy_ptr has_tx frame_ptr frame_len tx =
     (case (phy_ptr, frame_ptr) of
        (Some phy, Some frame_buffer) \<Rightarrow>
          if \<not> has_tx \<or> frame_len = 0 then (XGL_ERR_INVALID_PARAM, [], ctx)
          else
            let sent = Transmit phy (take frame_len frame_buffer)
            in if tx \<noteq> XGL_OK then (tx, sent # dl_report ctx tx, dl_count count_tx_error ctx)
               else (XGL_OK, [sent], dl_count (count_tx_frame frame_len) ctx)
      | _ \<Rightarrow> (XGL_ERR_NULL_POINTER, [], ctx))"

text \<open>The entry points handed to the network layer.\<close>

definition datalink_send_impl ::
  "xgl_datalink_ctx \<Rightarrow> (xgl_frame option \<times> nat option) option \<Rightarrow> bool \<Rightarrow> xgl_error \<Rightarrow> bool list
     \<Rightarrow> xgl_error \<times> layer_output list \<times> xgl_datalink_ctx \<times> bool list" where
  "datalink_send_impl ctx data has_tx tx allocs =
     (case data of
        Some (Some frame, Some phy) \<Rightarrow> xgl_datalink_send ctx (Some phy) has_tx (Some frame) tx allocs
      | _ \<Rightarrow> (XGL_ERR_NULL_POINTER, [], ctx, allocs))"

definition datalink_receive_impl :: "xgl_datalink_ctx \<Rightarrow> xgl_error" where
  "datalink_receive_impl ctx = XGL_ERR_INVALID_PARAM"

definition datalink_report_error_impl :: "xgl_datalink_ctx \<Rightarrow> xgl_error option \<Rightarrow> xgl_error \<times> layer_output list" where
  "datalink_report_error_impl ctx error_info =
     (case error_info of None \<Rightarrow> (XGL_ERR_NULL_POINTER, []) | Some err \<Rightarrow> (XGL_OK, dl_report ctx err))"

section \<open>What a delivered frame has passed\<close>

lemma ext_while_invariant:
  assumes "P s" "\<And>e s s'. P s \<Longrightarrow> body e s = Inr s' \<Longrightarrow> P s'" "ext_while body c s = Inr (err, t)"
  shows "P t"
  using assms
proof (induction body c s rule: ext_while.induct)
  case (1 body c s)
  have inv: "\<And>e s s'. P s \<Longrightarrow> body e s = Inr s' \<Longrightarrow> P s'" by (fact 1)
  show ?case
  proof (cases "xgl_wire_ext_cursor_next c")
    case (Inl e)
    then show ?thesis using 1(2,4) by (simp add: ext_while.simps [of body c])
  next
    case (Inr r)
    obtain e c' where r: "r = (e, c')" by (cases r)
    obtain s' where s': "body e s = Inr s'" "ext_while body c' s' = Inr (err, t)"
      using 1(4) Inr r by (auto simp: ext_while.simps [of body c] split: sum.splits)
    show ?thesis by (rule "1.IH" [OF Inr r [symmetric] s'(1) inv [OF 1(2) s'(1)] inv s'(2)])
  qed
qed

text \<open>
  The checks a frame has to pass, over the frame's bytes alone: sealed with its CRC, a decodable header, and the
  length that header, payload and tag add up to.
\<close>

definition sound_frame :: "bytes \<Rightarrow> xgl_wire_header \<Rightarrow> u8 \<Rightarrow> bool" where
  "sound_frame fr h tag_len \<longleftrightarrow>
     length fr \<le> XGL_DATALINK_MAX_FRAME_SIZE \<and> xgl_wire_decode_header (Some fr) (length fr) = Inr h \<and>
     xgl_crc16_modbus (Some fr) (length fr - 2) = get_u16_le fr (length fr - 2) \<and>
     length fr = announced_len h tag_len"

definition authentic_frame :: "u32 \<Rightarrow> xgl_auth_provider option \<Rightarrow> bytes \<Rightarrow> bool" where
  "authentic_frame key provider fr \<longleftrightarrow>
     (\<exists>h tag_len. sound_frame fr h tag_len \<and> tag_len \<noteq> 0 \<and> wh_flags h AND XGL_WIRE_FLAG_AUTHENTICATED \<noteq> 0 \<and>
        xgl_wire_verify_auth_trailer (Some fr) (length fr - 2) (unat (wh_header_len h)) (unat (wh_payload_len h))
          key provider = (XGL_OK, True))"

lemma xgl_wire_decode_header_size: "24 \<le> n \<Longrightarrow> xgl_wire_decode_header b n = xgl_wire_decode_header b 24"
  by (cases b) (simp_all add: xgl_wire_decode_header_def)

lemma verify_auth_trailer_take:
  assumes "m \<le> n" "n \<le> length b" "hl + pl \<le> m" "24 \<le> hl"
  shows "xgl_wire_verify_auth_trailer (Some (take n b)) m hl pl key p = xgl_wire_verify_auth_trailer (Some b) m hl pl key p"
proof -
  have "wire_auth_canonical_aad (take n b) hl 255 = wire_auth_canonical_aad b hl 255"
    using assms by (intro wire_auth_canonical_aad_cong) (simp_all add: min_def)
  moreover have "mem_read (take n b) off k = mem_read b off k" if "off + k \<le> n" for off k
    using that by (simp add: mem_read_def drop_take min_def)
  ultimately show ?thesis
    using assms by (auto simp: xgl_wire_verify_auth_trailer_def Let_def split: option.splits sum.splits)
qed

lemma decode_rx_extensions_security:
  assumes "datalink_decode_rx_extensions b h req key md = (XGL_OK, md')"
    and "\<not> md_has_security_ext md" "md_auth_tag_len md = 0"
  shows "md_has_security_ext md' \<longleftrightarrow> md_auth_tag_len md' \<noteq> 0"
    and "req \<Longrightarrow> md_has_security_ext md' \<Longrightarrow> md_auth_key_id md' = key"
    and "md_header md' = md_header md"
proof -
  let ?P = "\<lambda>m. (md_has_security_ext m \<longleftrightarrow> md_auth_tag_len m \<noteq> 0) \<and>
    (req \<longrightarrow> md_has_security_ext m \<longrightarrow> md_auth_key_id m = key) \<and> md_header m = md_header md"
  have "?P md'"
  proof (cases "unat (wh_header_len h) \<le> 24")
    case True
    then show ?thesis using assms by (simp add: datalink_decode_rx_extensions_def)
  next
    case False
    then obtain err c where "ext_while (datalink_ext_body req key) c md = Inr (err, md')"
      using assms(1)
      by (auto simp: datalink_decode_rx_extensions_def xgl_wire_ext_cursor_init_def split: sum.splits prod.splits if_splits)
    then show ?thesis
    proof (rule ext_while_invariant [where P = ?P, rotated 2])
      show "?P s'" if "?P s" "datalink_ext_body req key e s = Inr s'" for e s s'
        using that by (auto simp: datalink_ext_body_def Let_def split: if_splits sum.splits prod.splits)
    qed (use assms in simp)
  qed
  then show "md_has_security_ext md' \<longleftrightarrow> md_auth_tag_len md' \<noteq> 0"
    and "req \<Longrightarrow> md_has_security_ext md' \<Longrightarrow> md_auth_key_id md' = key"
    and "md_header md' = md_header md" by simp_all
qed

lemma decode_rx_metadata_OkE:
  assumes "xgl_datalink_decode_rx_metadata b n req key = (XGL_OK, md)" "n \<le> length b"
  obtains "sound_frame (take n b) (md_header md) (md_auth_tag_len md)" "24 \<le> unat (wh_header_len (md_header md))"
    "md_payload_len md = unat (wh_payload_len (md_header md))"
    "md_authenticated md \<longleftrightarrow> wh_flags (md_header md) AND XGL_WIRE_FLAG_AUTHENTICATED \<noteq> 0"
    "md_should_verify_auth md \<longleftrightarrow> md_authenticated md \<or> md_has_security_ext md"
    "md_has_security_ext md \<longleftrightarrow> md_auth_tag_len md \<noteq> 0"
    "req \<Longrightarrow> md_has_security_ext md \<Longrightarrow> md_auth_key_id md = key"
proof -
  let ?md = "\<lambda>h. zero_rx_metadata \<lparr> md_header := h \<rparr>"
  obtain h md' where d: "26 \<le> n" "n \<le> 2048" "xgl_wire_decode_header (Some b) n = Inr h"
    "datalink_decode_rx_extensions b h req key (?md h) = (XGL_OK, md')"
    "xgl_crc16_modbus (Some b) (n - 2) = get_u16_le b (n - 2)"
    "n = unat (wh_header_len h) + unat (wh_payload_len h) + unat (md_auth_tag_len md') + 2"
    "md = md' \<lparr> md_authenticated := (wh_flags h AND XGL_WIRE_FLAG_AUTHENTICATED \<noteq> 0),
       md_should_verify_auth := (wh_flags h AND XGL_WIRE_FLAG_AUTHENTICATED \<noteq> 0) \<or> md_has_security_ext md',
       md_payload_len := unat (wh_payload_len h) \<rparr>"
    using assms(1)
    by (auto simp: xgl_datalink_decode_rx_metadata_def Let_def split: if_splits sum.splits prod.splits)
  have sec: "md_has_security_ext md' \<longleftrightarrow> md_auth_tag_len md' \<noteq> 0"
    "req \<Longrightarrow> md_has_security_ext md' \<Longrightarrow> md_auth_key_id md' = key" "md_header md' = h"
    using decode_rx_extensions_security [OF d(4)] by (simp_all add: zero_rx_metadata_def)
  have dec: "xgl_wire_decode_header (Some (take n b)) n = Inr h"
    using d(1,3) xgl_wire_decode_header_take [of n b]
    by (simp add: xgl_wire_decode_header_size [of n])
  show thesis
  proof (rule that)
    show "sound_frame (take n b) (md_header md) (md_auth_tag_len md)"
      using d sec dec assms(2)
      by (simp add: sound_frame_def announced_len_def crc16_take get_u16_le_take)
    show "24 \<le> unat (wh_header_len (md_header md))"
      using d(3,7) sec(3) decoded_header_len by simp
  qed (use d(7) sec in auto)
qed

lemma process_frame_deliverE:
  assumes "xgl_datalink_process_frame ctx (Some b) n = (err, out, ctx')" "Deliver fr \<in> set out"
  obtains md where "xgl_datalink_decode_rx_metadata b n (dl_auth_required ctx) (dl_auth_key_id ctx) = (XGL_OK, md)"
    "fr = take n b" "err = XGL_OK" "out = [Deliver fr]"
    "md_should_verify_auth md \<or> dl_auth_required ctx \<Longrightarrow>
       md_authenticated md \<and> md_has_security_ext md \<and> md_should_verify_auth md"
    "md_should_verify_auth md \<Longrightarrow>
       xgl_wire_verify_auth_trailer (Some b) (n - 2) (unat (wh_header_len (md_header md))) (md_payload_len md)
         (md_auth_key_id md) (dl_auth_provider ctx) = (XGL_OK, True)"
proof -
  obtain e md where e: "xgl_datalink_decode_rx_metadata b n (dl_auth_required ctx) (dl_auth_key_id ctx) = (e, md)"
    by fastforce
  have "e = XGL_OK"
  proof (rule ccontr)
    assume "e \<noteq> XGL_OK"
    then show False using assms by (auto simp: xgl_datalink_process_frame_def Let_def dl_report_def e split: if_splits)
  qed
  note md = e [unfolded this]
  have "md_should_verify_auth md \<longleftrightarrow> md_authenticated md \<or> md_has_security_ext md"
    using md by (auto simp: xgl_datalink_decode_rx_metadata_def Let_def split: if_splits sum.splits prod.splits)
  then show thesis
    using that [OF md] assms
    by (auto simp: xgl_datalink_process_frame_def md Let_def split: if_splits prod.splits)
qed

lemma process_frame_authentic:
  assumes "xgl_datalink_process_frame ctx (Some b) n = (err, out, ctx')" "Deliver fr \<in> set out" "n \<le> length b"
    and "dl_auth_required ctx"
  shows "authentic_frame (dl_auth_key_id ctx) (dl_auth_provider ctx) fr"
  using assms(1,2)
proof (rule process_frame_deliverE)
  fix md
  assume md: "xgl_datalink_decode_rx_metadata b n (dl_auth_required ctx) (dl_auth_key_id ctx) = (XGL_OK, md)"
    and fr: "fr = take n b"
    and ok: "md_should_verify_auth md \<or> dl_auth_required ctx \<Longrightarrow>
       md_authenticated md \<and> md_has_security_ext md \<and> md_should_verify_auth md"
    and v: "md_should_verify_auth md \<Longrightarrow>
       xgl_wire_verify_auth_trailer (Some b) (n - 2) (unat (wh_header_len (md_header md))) (md_payload_len md)
         (md_auth_key_id md) (dl_auth_provider ctx) = (XGL_OK, True)"
  have auth: "md_authenticated md" "md_has_security_ext md" "md_should_verify_auth md" using ok assms(4) by blast+
  show ?thesis
    using md assms(3)
  proof (rule decode_rx_metadata_OkE)
    let ?h = "md_header md"
    assume s: "sound_frame (take n b) ?h (md_auth_tag_len md)" "24 \<le> unat (wh_header_len ?h)"
      "md_payload_len md = unat (wh_payload_len ?h)"
      "md_authenticated md \<longleftrightarrow> wh_flags ?h AND XGL_WIRE_FLAG_AUTHENTICATED \<noteq> 0"
      "md_has_security_ext md \<longleftrightarrow> md_auth_tag_len md \<noteq> 0"
      "dl_auth_required ctx \<Longrightarrow> md_has_security_ext md \<Longrightarrow> md_auth_key_id md = dl_auth_key_id ctx"
    have "unat (wh_header_len ?h) + unat (wh_payload_len ?h) \<le> n - 2"
      using s(1) assms(3) by (simp add: sound_frame_def announced_len_def)
    then have "xgl_wire_verify_auth_trailer (Some fr) (n - 2) (unat (wh_header_len ?h)) (unat (wh_payload_len ?h))
         (dl_auth_key_id ctx) (dl_auth_provider ctx) = (XGL_OK, True)"
      using v auth s(2,3,6) assms(3,4) verify_auth_trailer_take [of "n - 2" n b] by (simp add: fr)
    then show ?thesis
      using s(1,4,5) auth assms(3) unfolding authentic_frame_def fr
      by (intro exI [of _ ?h] exI [of _ "md_auth_tag_len md"]) simp
  qed
qed

section \<open>The bank of replay windows\<close>

text \<open>
  The specification of the sixteen windows: for each context (source, connection, epoch) the set of packet numbers
  accepted so far. A used slot holds the window of its context, no two slots share one, and
  a context with an accepted number has a slot.
\<close>

type_synonym replay_context = "u16 \<times> u32 \<times> u32"

definition window_context :: "xgl_replay_window \<Rightarrow> replay_context" where
  "window_context w = (rw_source_id w, rw_connection_id w, rw_session_epoch w)"

definition replay_bank :: "xgl_datalink_ctx \<Rightarrow> (replay_context \<Rightarrow> nat set) \<Rightarrow> bool" where
  "replay_bank ctx A \<longleftrightarrow>
     length (dl_replay_windows ctx) = 16 \<and> length (dl_replay_window_used ctx) = 16 \<and>
     (\<forall>i<16. dl_replay_window_used ctx ! i \<longrightarrow>
        replay_represents (dl_replay_windows ctx ! i) (A (window_context (dl_replay_windows ctx ! i)))
        \<and> rw_window_size (dl_replay_windows ctx ! i) = 64) \<and>
     (\<forall>i<16. \<forall>j<16. dl_replay_window_used ctx ! i \<longrightarrow> dl_replay_window_used ctx ! j \<longrightarrow>
        window_context (dl_replay_windows ctx ! i) = window_context (dl_replay_windows ctx ! j) \<longrightarrow> i = j) \<and>
     (\<forall>k. A k \<noteq> {} \<longrightarrow> (\<exists>i<16. dl_replay_window_used ctx ! i \<and> window_context (dl_replay_windows ctx ! i) = k))"

lemma replay_bank_slots:
  assumes "replay_bank ctx A"
  shows "length (dl_replay_windows ctx) = 16" "length (dl_replay_window_used ctx) = 16"
    and "i < 16 \<Longrightarrow> dl_replay_window_used ctx ! i \<Longrightarrow>
      replay_represents (dl_replay_windows ctx ! i) (A (window_context (dl_replay_windows ctx ! i)))
      \<and> rw_window_size (dl_replay_windows ctx ! i) = 64"
    and "i < 16 \<Longrightarrow> j < 16 \<Longrightarrow> dl_replay_window_used ctx ! i \<Longrightarrow> dl_replay_window_used ctx ! j \<Longrightarrow>
      window_context (dl_replay_windows ctx ! i) = window_context (dl_replay_windows ctx ! j) \<Longrightarrow> i = j"
    and "A k \<noteq> {} \<Longrightarrow> \<exists>i<16. dl_replay_window_used ctx ! i \<and> window_context (dl_replay_windows ctx ! i) = k"
  using assms unfolding replay_bank_def by blast+

lemma replay_bankI:
  assumes "length (dl_replay_windows ctx) = 16" "length (dl_replay_window_used ctx) = 16"
    and "\<And>i. i < 16 \<Longrightarrow> dl_replay_window_used ctx ! i \<Longrightarrow>
      replay_represents (dl_replay_windows ctx ! i) (A (window_context (dl_replay_windows ctx ! i)))
      \<and> rw_window_size (dl_replay_windows ctx ! i) = 64"
    and "\<And>i j. i < 16 \<Longrightarrow> j < 16 \<Longrightarrow> dl_replay_window_used ctx ! i \<Longrightarrow> dl_replay_window_used ctx ! j \<Longrightarrow>
      window_context (dl_replay_windows ctx ! i) = window_context (dl_replay_windows ctx ! j) \<Longrightarrow> i = j"
    and "\<And>k. A k \<noteq> {} \<Longrightarrow> \<exists>i<16. dl_replay_window_used ctx ! i \<and> window_context (dl_replay_windows ctx ! i) = k"
  shows "replay_bank ctx A"
  using assms unfolding replay_bank_def by blast

lemma datalink_init_bank:
  "xgl_datalink_init config = Inr ctx \<Longrightarrow> replay_bank ctx (\<lambda>_. {})"
  by (auto simp: xgl_datalink_init_def replay_bank_def split: option.splits if_splits sum.splits)

lemma window_context_check [simp]:
  "window_context (snd (xgl_replay_window_check w s c e pn)) = window_context w"
  by (simp add: window_context_def replay_check_keeps)

text \<open>Checking a number in the slot that holds its context.\<close>

lemma replay_bank_check:
  assumes bank: "replay_bank ctx A" and i: "i < 16" "dl_replay_window_used ctx ! i"
    and k: "window_context (dl_replay_windows ctx ! i) = (s, c, e)"
    and w: "xgl_replay_window_check (dl_replay_windows ctx ! i) s c e pn = (r, w)"
  shows "r = replay_spec 64 (A (s, c, e)) (unat pn)"
    and "replay_bank (ctx \<lparr> dl_replay_windows := (dl_replay_windows ctx)[i := w] \<rparr>)
           (A((s, c, e) := replay_next 64 (A (s, c, e)) (unat pn)))"
proof -
  let ?w = "dl_replay_windows ctx ! i"
  have rep: "replay_represents ?w (A (s, c, e))" "rw_window_size ?w = 64"
    using bank i k by (auto simp: replay_bank_def)
  have "s = rw_source_id ?w" "c = rw_connection_id ?w" "e = rw_session_epoch ?w"
    using k by (simp_all add: window_context_def)
  note ref = replay_check_refines [OF rep(1) this, of pn]
  show "r = replay_spec 64 (A (s, c, e)) (unat pn)" using ref(1) rep(2) w by simp
  have new: "replay_represents w (replay_next 64 (A (s, c, e)) (unat pn))" "rw_window_size w = 64"
    "window_context w = (s, c, e)"
    using ref(2) rep(2) w k replay_check_keeps(4) [of ?w s c e pn] window_context_check [of ?w s c e pn] by simp_all
  have other: "window_context (dl_replay_windows ctx ! j) \<noteq> (s, c, e)"
    if "j < 16" "dl_replay_window_used ctx ! j" "j \<noteq> i" for j
    using bank that i k by (auto simp: replay_bank_def)
  have ctxs: "window_context ((dl_replay_windows ctx)[i := w] ! j) = window_context (dl_replay_windows ctx ! j)"
    if "j < 16" for j
    using that bank new(3) k i(1) by (auto simp: replay_bank_def nth_list_update)
  let ?ctx = "ctx \<lparr> dl_replay_windows := (dl_replay_windows ctx)[i := w] \<rparr>"
    and ?A = "A((s, c, e) := replay_next 64 (A (s, c, e)) (unat pn))"
  note slots = replay_bank_slots [OF bank]
  show "replay_bank ?ctx ?A"
  proof (rule replay_bankI)
    show "replay_represents (dl_replay_windows ?ctx ! j) (?A (window_context (dl_replay_windows ?ctx ! j)))
      \<and> rw_window_size (dl_replay_windows ?ctx ! j) = 64" if j: "j < 16" "dl_replay_window_used ?ctx ! j" for j
    proof (cases "j = i")
      case True
      then show ?thesis using new slots(1) i by simp
    next
      case False
      then show ?thesis using other [of j] slots(3) [of j] j by simp
    qed
    show "\<exists>j<16. dl_replay_window_used ?ctx ! j \<and> window_context (dl_replay_windows ?ctx ! j) = k'"
      if k': "?A k' \<noteq> {}" for k'
    proof (cases "k' = (s, c, e)")
      case True
      then show ?thesis using i k ctxs [of i] by (intro exI [of _ i]) simp
    next
      case False
      then obtain j where "j < 16" "dl_replay_window_used ctx ! j" "window_context (dl_replay_windows ctx ! j) = k'"
        using k' slots(5) [of k'] by auto
      then show ?thesis using ctxs [of j] by (intro exI [of _ j]) simp
    qed
    show "j = l" if "j < 16" "l < 16" "dl_replay_window_used ?ctx ! j" "dl_replay_window_used ?ctx ! l"
      "window_context (dl_replay_windows ?ctx ! j) = window_context (dl_replay_windows ?ctx ! l)" for j l
      using that slots(4) [of j l] ctxs by simp
  qed (use slots(1,2) in simp_all)
qed

text \<open>Opening a free slot for a context that has none.\<close>

lemma replay_bank_open:
  assumes bank: "replay_bank ctx A" and i: "i < 16" "\<not> dl_replay_window_used ctx ! i"
    and k: "\<And>j. j < 16 \<Longrightarrow> dl_replay_window_used ctx ! j \<Longrightarrow> window_context (dl_replay_windows ctx ! j) \<noteq> (s, c, e)"
    and w: "xgl_replay_window_init s c e 64 = Inr w"
  shows "replay_bank (ctx \<lparr> dl_replay_windows := (dl_replay_windows ctx)[i := w],
           dl_replay_window_used := (dl_replay_window_used ctx)[i := True] \<rparr>) A" (is "replay_bank ?ctx A")
    and "window_context w = (s, c, e)" and "A (s, c, e) = {}"
proof -
  show wc: "window_context w = (s, c, e)"
    using w by (auto simp: xgl_replay_window_init_def window_context_def split: if_splits)
  have sz: "rw_window_size w = 64" using w by (auto simp: xgl_replay_window_init_def split: if_splits)
  show empty: "A (s, c, e) = {}" using bank k unfolding replay_bank_def by blast
  have "\<exists>j<16. dl_replay_window_used ?ctx ! j \<and> window_context (dl_replay_windows ?ctx ! j) = k'" if k': "A k' \<noteq> {}" for k'
  proof -
    obtain j where "j < 16" "dl_replay_window_used ctx ! j" "window_context (dl_replay_windows ctx ! j) = k'"
      using bank k' unfolding replay_bank_def by blast
    then show ?thesis using i by (intro exI [of _ j]) (cases "j = i"; simp)
  qed
  moreover note slots = replay_bank_slots [OF bank]
  have "replay_represents (dl_replay_windows ?ctx ! j) (A (window_context (dl_replay_windows ?ctx ! j)))
      \<and> rw_window_size (dl_replay_windows ?ctx ! j) = 64" if j: "j < 16" "dl_replay_window_used ?ctx ! j" for j
    using wc sz empty replay_init_represents [OF w] slots(1,2) slots(3) [of j] j i by (cases "j = i") simp_all
  moreover have "j = l" if "j < 16" "l < 16" "dl_replay_window_used ?ctx ! j" "dl_replay_window_used ?ctx ! l"
    "window_context (dl_replay_windows ?ctx ! j) = window_context (dl_replay_windows ?ctx ! l)" for j l
    using that slots(1,2) slots(4) [of j l] k [of j] k [of l] wc i by (cases "j = i"; cases "l = i") auto
  ultimately show "replay_bank ?ctx A" using slots(1,2) by (intro replay_bankI) simp_all
qed

lemma find_slot:
  "List.find P [0..<n] = Some i \<Longrightarrow> i < n \<and> P i"
  "List.find P [0..<n] = None \<Longrightarrow> i < n \<Longrightarrow> \<not> P i"
  by (auto simp: find_Some_iff find_None_iff)

text \<open>
  One lookup in the bank: accepted numbers are new, a duplicate was accepted before, and the bank then represents
  the sets with the accepted number added.
\<close>

lemma check_replay_refines:
  assumes bank: "replay_bank ctx A" and chk: "datalink_check_replay ctx s c e pn = (r, ctx')"
  shows "replay_bank ctx' (if r = XGL_REPLAY_ACCEPT_NEW then A((s, c, e) := insert (unat pn) (A (s, c, e))) else A)"
    and "r = XGL_REPLAY_ACCEPT_NEW \<Longrightarrow> unat pn \<notin> A (s, c, e)"
    and "r = XGL_REPLAY_ACCEPT_DUPLICATE \<Longrightarrow> unat pn \<in> A (s, c, e)"
proof -
  let ?mine = "\<lambda>i. dl_replay_window_used ctx ! i \<and> rw_source_id (dl_replay_windows ctx ! i) = s
      \<and> rw_connection_id (dl_replay_windows ctx ! i) = c \<and> rw_session_epoch (dl_replay_windows ctx ! i) = e"
  let ?goal = "replay_bank ctx' (if r = XGL_REPLAY_ACCEPT_NEW then A((s, c, e) := insert (unat pn) (A (s, c, e))) else A)
    \<and> (r = XGL_REPLAY_ACCEPT_NEW \<longrightarrow> unat pn \<notin> A (s, c, e)) \<and> (r = XGL_REPLAY_ACCEPT_DUPLICATE \<longrightarrow> unat pn \<in> A (s, c, e))"
  have step: ?goal if st: "replay_bank ct A" "i < 16" "dl_replay_window_used ct ! i"
      "window_context (dl_replay_windows ct ! i) = (s, c, e)"
      "(case xgl_replay_window_check (dl_replay_windows ct ! i) s c e pn of
          (r, w) \<Rightarrow> (r, ct \<lparr> dl_replay_windows := (dl_replay_windows ct)[i := w] \<rparr>)) = (r, ctx')" for ct i
  proof -
    obtain w where w: "xgl_replay_window_check (dl_replay_windows ct ! i) s c e pn = (r, w)"
      "ctx' = ct \<lparr> dl_replay_windows := (dl_replay_windows ct)[i := w] \<rparr>"
      using st(5) by (auto split: prod.splits)
    from replay_bank_check [OF st(1-4) w(1)] show ?thesis
      by (auto simp: w(2) replay_next_def replay_spec_def split: if_splits)
  qed
  have ?goal
  proof (cases "List.find ?mine [0..<16]")
    case (Some i)
    show ?thesis
    proof (rule step [OF bank])
      show "i < 16" "dl_replay_window_used ctx ! i" "window_context (dl_replay_windows ctx ! i) = (s, c, e)"
        using find_slot(1) [OF Some] by (simp_all add: window_context_def)
    qed (use chk Some in \<open>simp add: datalink_check_replay_def\<close>)
  next
    case none: None
    have free: "window_context (dl_replay_windows ctx ! j) \<noteq> (s, c, e)" if "j < 16" "dl_replay_window_used ctx ! j" for j
      using find_slot(2) [OF none that(1)] that(2) by (auto simp: window_context_def)
    show ?thesis
    proof (cases "List.find (\<lambda>i. \<not> dl_replay_window_used ctx ! i) [0..<16]")
      case None
      then show ?thesis using chk none bank by (simp add: datalink_check_replay_def)
    next
      case (Some i)
      note i = find_slot(1) [OF Some]
      show ?thesis
      proof (cases "xgl_replay_window_init s c e 64")
        case (Inl err)
        then show ?thesis using chk none Some bank by (simp add: datalink_check_replay_def)
      next
        case (Inr w)
        note open_slot = replay_bank_open [OF bank _ _ free Inr, of i]
        show ?thesis
        proof (rule step [OF open_slot(1)])
          show "(case xgl_replay_window_check (dl_replay_windows (ctx \<lparr> dl_replay_windows := (dl_replay_windows ctx)[i := w],
              dl_replay_window_used := (dl_replay_window_used ctx)[i := True] \<rparr>) ! i) s c e pn of
            (r, wa) \<Rightarrow> (r, ctx \<lparr> dl_replay_windows := (dl_replay_windows ctx)[i := w],
              dl_replay_window_used := (dl_replay_window_used ctx)[i := True] \<rparr> \<lparr> dl_replay_windows :=
              (dl_replay_windows (ctx \<lparr> dl_replay_windows := (dl_replay_windows ctx)[i := w],
              dl_replay_window_used := (dl_replay_window_used ctx)[i := True] \<rparr>))[i := wa] \<rparr>)) = (r, ctx')"
            using chk none Some Inr by (simp add: datalink_check_replay_def)
        qed (use i bank open_slot(2) in \<open>auto simp: replay_bank_def\<close>)
      qed
    qed
  qed
  then show "replay_bank ctx' (if r = XGL_REPLAY_ACCEPT_NEW then A((s, c, e) := insert (unat pn) (A (s, c, e))) else A)"
    and "r = XGL_REPLAY_ACCEPT_NEW \<Longrightarrow> unat pn \<notin> A (s, c, e)"
    and "r = XGL_REPLAY_ACCEPT_DUPLICATE \<Longrightarrow> unat pn \<in> A (s, c, e)" by simp_all
qed

section \<open>Streams of received bytes\<close>

definition deliveries :: "layer_output list \<Rightarrow> bytes list" where
  "deliveries out = concat (map (\<lambda>x. case x of Deliver fr \<Rightarrow> [fr] | _ \<Rightarrow> []) out)"

lemma deliveries_simps [simp]:
  "deliveries [] = []" "deliveries (Deliver fr # out) = fr # deliveries out"
  "deliveries (Transmit p fr # out) = deliveries out" "deliveries (Report e # out) = deliveries out"
  "deliveries (out @ out') = deliveries out @ deliveries out'"
  by (simp_all add: deliveries_def)

lemma deliveries_report [simp]: "deliveries (dl_report ctx e) = []"
  by (simp add: dl_report_def)

lemma set_deliveries: "fr \<in> set (deliveries out) \<longleftrightarrow> Deliver fr \<in> set out"
  by (induction out) (auto simp: deliveries_def split: layer_output.splits)

text \<open>How a frame identifies itself: its packet number in its context, as the receive path decodes it.\<close>

definition frame_metadata :: "u32 \<Rightarrow> bytes \<Rightarrow> xgl_datalink_rx_metadata" where
  "frame_metadata key fr = snd (xgl_datalink_decode_rx_metadata fr (length fr) True key)"

definition frame_id :: "u32 \<Rightarrow> bytes \<Rightarrow> replay_packet" where
  "frame_id key fr =
     (let md = frame_metadata key fr
      in (wh_source_id (md_header md), wh_connection_id (md_header md), md_session_epoch md, wh_packet_number (md_header md)))"

definition frame_eliciting :: "u32 \<Rightarrow> bytes \<Rightarrow> bool" where
  "frame_eliciting key fr = datalink_is_ack_eliciting (md_header (frame_metadata key fr))"

lemma decode_rx_extensions_take:
  assumes "unat (wh_header_len h) \<le> n" "n \<le> length b"
  shows "datalink_decode_rx_extensions (take n b) h req key md = datalink_decode_rx_extensions b h req key md"
proof (cases "unat (wh_header_len h) \<le> 24")
  case False
  let ?m = "unat (wh_header_len h) - 24"
  have cut: "take ?m (drop 24 (take n b)) = take ?m (drop 24 b)"
    using assms by (simp add: drop_take min_def)
  have "ext_while body \<lparr> cur_buffer = drop 24 (take n b), cur_len = ?m, cur_offset = 0 \<rparr> md =
        ext_while body \<lparr> cur_buffer = drop 24 b, cur_len = ?m, cur_offset = 0 \<rparr> md" for body :: "xgl_wire_ext \<Rightarrow> xgl_datalink_rx_metadata \<Rightarrow> xgl_datalink_rx_metadata + xgl_datalink_rx_metadata"
    using ext_while_take [of ?m "drop 24 (take n b)" body 0 md] ext_while_take [of ?m "drop 24 b" body 0 md] assms
    by (simp only: cut) simp
  then show ?thesis
    by (simp add: datalink_decode_rx_extensions_def xgl_wire_ext_cursor_init_def)
qed (simp add: datalink_decode_rx_extensions_def)

lemma decode_rx_metadata_prefix:
  assumes "26 \<le> n" "n \<le> length b" "\<And>h. xgl_wire_decode_header (Some b) n = Inr h \<Longrightarrow> unat (wh_header_len h) \<le> n"
  shows "xgl_datalink_decode_rx_metadata (take n b) n req key = xgl_datalink_decode_rx_metadata b n req key"
proof -
  have dec: "xgl_wire_decode_header (Some (take n b)) n = xgl_wire_decode_header (Some b) n"
    using assms(1) xgl_wire_decode_header_take [of n b] by (simp add: xgl_wire_decode_header_size [of n])
  show ?thesis
  proof (cases "xgl_wire_decode_header (Some b) n")
    case (Inl e)
    then show ?thesis using assms(1) by (simp add: xgl_datalink_decode_rx_metadata_def dec)
  next
    case (Inr h)
    obtain e md where x: "datalink_decode_rx_extensions b h req key (zero_rx_metadata \<lparr> md_header := h \<rparr>) = (e, md)"
      by fastforce
    have "get_u16_le (take n b) (n - 2) = get_u16_le b (n - 2)" by (rule get_u16_le_take) (use assms(1) in simp)
    then show ?thesis
      using assms(1) decode_rx_extensions_take [OF assms(3) [OF Inr] assms(2)] Inr
      by (cases "e = XGL_OK") (simp_all add: xgl_datalink_decode_rx_metadata_def dec x crc16_take Let_def)
  qed
qed

lemma decode_rx_metadata_take:
  assumes "xgl_datalink_decode_rx_metadata b n req key = (XGL_OK, md)" "n \<le> length b"
  shows "xgl_datalink_decode_rx_metadata (take n b) n req key = (XGL_OK, md)"
proof -
  obtain h where h: "26 \<le> n" "xgl_wire_decode_header (Some b) n = Inr h" "unat (wh_header_len h) \<le> n"
    using assms(1)
    by (auto simp: xgl_datalink_decode_rx_metadata_def Let_def split: if_splits sum.splits prod.splits)
  then show ?thesis using assms decode_rx_metadata_prefix [of n b] by simp
qed

text \<open>
  A stretch of deliveries that takes the set \<open>S\<close> of accepted packets to \<open>S'\<close>: only an ACK-eliciting frame
  may repeat a packet.
\<close>

definition no_replay :: "u32 \<Rightarrow> bytes list \<Rightarrow> bool" where
  "no_replay key frs = sorted_wrt (\<lambda>f g. frame_id key f = frame_id key g \<longrightarrow> frame_eliciting key g) frs"

definition admits :: "u32 \<Rightarrow> replay_packet set \<Rightarrow> bytes list \<Rightarrow> replay_packet set \<Rightarrow> bool" where
  "admits key S frs S' \<longleftrightarrow>
     no_replay key frs \<and> (\<forall>f \<in> set frs. frame_id key f \<in> S \<longrightarrow> frame_eliciting key f)
     \<and> (\<forall>f \<in> set frs. frame_id key f \<in> S') \<and> S \<subseteq> S'"

lemma admits_Nil [simp]: "admits key S [] S' \<longleftrightarrow> S \<subseteq> S'"
  by (simp add: admits_def no_replay_def)

lemma admits_append: "admits key S fs S' \<Longrightarrow> admits key S' gs S'' \<Longrightarrow> admits key S (fs @ gs) S''"
  by (fastforce simp: admits_def no_replay_def sorted_wrt_append)

definition packets_of :: "(replay_context \<Rightarrow> nat set) \<Rightarrow> replay_packet set" where
  "packets_of A = {(s, c, e, pn). unat pn \<in> A (s, c, e)}"

definition dl_settings :: "xgl_datalink_ctx \<Rightarrow> bool \<times> u32 \<times> xgl_auth_provider option \<times> bool" where
  "dl_settings ctx = (dl_auth_required ctx, dl_auth_key_id ctx, dl_auth_provider ctx, dl_upper_layer ctx)"

lemma replay_bank_count [simp]:
  "replay_bank (dl_count f ctx) A = replay_bank ctx A"
  "replay_bank (ctx \<lparr> dl_parser := q \<rparr>) A = replay_bank ctx A"
  "replay_bank (ctx \<lparr> dl_rx_header_crc_errors := x \<rparr>) A = replay_bank ctx A"
  "replay_bank (ctx \<lparr> dl_rx_crc16_errors := x \<rparr>) A = replay_bank ctx A"
  by (simp_all add: replay_bank_def dl_count_def)

lemma dl_settings_simps [simp]:
  "dl_settings (dl_count f ctx) = dl_settings ctx" "dl_settings (ctx \<lparr> dl_parser := q \<rparr>) = dl_settings ctx"
  "dl_settings (ctx \<lparr> dl_rx_header_crc_errors := x \<rparr>) = dl_settings ctx"
  "dl_settings (ctx \<lparr> dl_rx_crc16_errors := x \<rparr>) = dl_settings ctx"
  "dl_parser (dl_count f ctx) = dl_parser ctx"
  by (simp_all add: dl_settings_def dl_count_def)

lemma check_replay_settings:
  "datalink_check_replay ctx s c e pn = (r, ctx') \<Longrightarrow> dl_settings ctx' = dl_settings ctx \<and> dl_parser ctx' = dl_parser ctx"
  by (auto simp: datalink_check_replay_def dl_settings_def Let_def split: option.splits sum.splits prod.splits)

lemma process_frame_settings:
  "xgl_datalink_process_frame ctx p n = (err, out, ctx') \<Longrightarrow> dl_settings ctx' = dl_settings ctx \<and> dl_parser ctx' = dl_parser ctx"
  by (auto simp: xgl_datalink_process_frame_def Let_def split: option.splits if_splits prod.splits dest: check_replay_settings)

lemma process_frame_admits:
  assumes bank: "replay_bank ctx A" and req: "dl_auth_required ctx" and n: "n \<le> length b"
    and run: "xgl_datalink_process_frame ctx (Some b) n = (err, out, ctx')"
  shows "\<exists>A'. replay_bank ctx' A' \<and> admits (dl_auth_key_id ctx) (packets_of A) (deliveries out) (packets_of A')"
proof -
  let ?key = "dl_auth_key_id ctx"
  obtain e md where dec: "xgl_datalink_decode_rx_metadata b n True ?key = (e, md)" by fastforce
  let ?h = "md_header md" let ?k = "(wh_source_id ?h, wh_connection_id ?h, md_session_epoch md)"
  consider "e \<noteq> XGL_OK" | "e = XGL_OK" "\<not> md_should_verify_auth md" | "e = XGL_OK" "md_should_verify_auth md" by blast
  then show ?thesis
  proof cases
    case 1
    then have "replay_bank ctx' A" "deliveries out = []"
      using run bank by (auto simp: xgl_datalink_process_frame_def dec req Let_def)
    then show ?thesis by auto
  next
    case 2
    have "md_should_verify_auth md \<longleftrightarrow> md_authenticated md \<or> md_has_security_ext md"
      using decode_rx_metadata_OkE [OF dec [unfolded 2(1)] n] by blast
    then have "replay_bank ctx' A" "deliveries out = []"
      using run bank 2 by (auto simp: xgl_datalink_process_frame_def dec req Let_def split: if_splits)
    then show ?thesis by auto
  next
    case 3
    obtain r cr where chk: "datalink_check_replay ctx (wh_source_id ?h) (wh_connection_id ?h) (md_session_epoch md)
        (wh_packet_number ?h) = (r, cr)" by fastforce
    define A' where "A' = (if r = XGL_REPLAY_ACCEPT_NEW then A(?k := insert (unat (wh_packet_number ?h)) (A ?k)) else A)"
    note ref = check_replay_refines [OF bank chk, folded A'_def]
    have sub: "packets_of A \<subseteq> packets_of A'" by (auto simp: packets_of_def A'_def)
    let ?drop = "deliveries out = [] \<and> replay_bank ctx' A \<or> deliveries out = [] \<and> replay_bank ctx' A'"
    have "?drop \<or> deliveries out = [take n b] \<and> replay_bank ctx' A' \<and> r \<noteq> XGL_REPLAY_REJECT
        \<and> (r = XGL_REPLAY_ACCEPT_DUPLICATE \<longrightarrow> datalink_is_ack_eliciting ?h)"
      using run bank 3 ref(1)
      by (auto simp: xgl_datalink_process_frame_def dec req Let_def chk split: if_splits prod.splits)
    then show ?thesis
    proof
      assume ?drop
      then show ?thesis using sub by auto
    next
      assume d: "deliveries out = [take n b] \<and> replay_bank ctx' A' \<and> r \<noteq> XGL_REPLAY_REJECT
        \<and> (r = XGL_REPLAY_ACCEPT_DUPLICATE \<longrightarrow> datalink_is_ack_eliciting ?h)"
      have "frame_metadata ?key (take n b) = md"
        using decode_rx_metadata_take [of b n True ?key md] dec 3(1) n by (simp add: frame_metadata_def min_def)
      then have id: "frame_id ?key (take n b) = (wh_source_id ?h, wh_connection_id ?h, md_session_epoch md, wh_packet_number ?h)"
        "frame_eliciting ?key (take n b) = datalink_is_ack_eliciting ?h"
        by (simp_all add: frame_id_def frame_eliciting_def)
      have "r = XGL_REPLAY_ACCEPT_NEW \<or> r = XGL_REPLAY_ACCEPT_DUPLICATE" using d by (cases r) auto
      then have "admits ?key (packets_of A) (deliveries out) (packets_of A')"
        using d ref(2,3) sub unfolding admits_def no_replay_def
        by (auto simp: id packets_of_def A'_def)
      then show ?thesis using d by blast
    qed
  qed
qed

text \<open>The receive path as a machine: what each chunk of bytes makes it do.\<close>

definition datalink_inv :: "xgl_datalink_ctx \<Rightarrow> bool" where
  "datalink_inv ctx \<longleftrightarrow> parser_bounds (dl_parser ctx) \<and> (\<exists>A. replay_bank ctx A)"

text \<open>What holds of the deliveries from a context on, with its settings and its bank fixed by the caller.\<close>

definition link_guarantee :: "xgl_datalink_ctx \<Rightarrow> layer_output list \<Rightarrow> xgl_datalink_ctx \<Rightarrow> bool" where
  "link_guarantee ctx out ctx' \<longleftrightarrow>
     dl_settings ctx' = dl_settings ctx \<and> parser_bounds (dl_parser ctx') \<and>
     (dl_auth_required ctx \<longrightarrow>
        (\<forall>fr \<in> set (deliveries out). authentic_frame (dl_auth_key_id ctx) (dl_auth_provider ctx) fr) \<and>
        (\<forall>A. replay_bank ctx A \<longrightarrow>
           (\<exists>A'. replay_bank ctx' A' \<and> admits (dl_auth_key_id ctx) (packets_of A) (deliveries out) (packets_of A'))))"

lemma link_guarantee_refl: "parser_bounds (dl_parser ctx) \<Longrightarrow> link_guarantee ctx [] ctx"
  by (auto simp: link_guarantee_def)

lemma link_guarantee_trans:
  assumes "link_guarantee ctx out ctx'" "link_guarantee ctx' out' ctx''"
  shows "link_guarantee ctx (out @ out') ctx''"
proof -
  have set: "dl_auth_required ctx' = dl_auth_required ctx" "dl_auth_key_id ctx' = dl_auth_key_id ctx"
    "dl_auth_provider ctx' = dl_auth_provider ctx" "dl_settings ctx'' = dl_settings ctx" "parser_bounds (dl_parser ctx'')"
    using assms by (auto simp: link_guarantee_def dl_settings_def)
  have "\<exists>A'. replay_bank ctx'' A' \<and> admits (dl_auth_key_id ctx) (packets_of A) (deliveries out @ deliveries out') (packets_of A')"
    if "dl_auth_required ctx" "replay_bank ctx A" for A
    using assms that set admits_append unfolding link_guarantee_def by metis
  then show ?thesis using assms set by (auto simp: link_guarantee_def)
qed

lemma link_guarantee_quiet:
  assumes "link_guarantee ctx out ctx'" "deliveries out' = deliveries out" "parser_bounds (dl_parser ctx'')"
    "dl_settings ctx'' = dl_settings ctx'" "\<And>A. replay_bank ctx' A \<Longrightarrow> replay_bank ctx'' A"
  shows "link_guarantee ctx out' ctx''"
  using assms unfolding link_guarantee_def by metis

lemma process_frame_guarantee:
  assumes "xgl_datalink_process_frame ctx (Some b) n = (err, out, ctx')" "n \<le> length b" "parser_bounds (dl_parser ctx)"
  shows "link_guarantee ctx out ctx'"
  using assms process_frame_settings [OF assms(1)] process_frame_authentic [OF assms(1) _ assms(2)]
    process_frame_admits [OF _ _ assms(2) assms(1)]
  by (auto simp: link_guarantee_def set_deliveries)

lemma feed_guarantee:
  assumes "datalink_feed ctx bs now = (out, ctx')" "parser_bounds (dl_parser ctx)"
  shows "link_guarantee ctx out ctx'"
  using assms
proof (induction bs arbitrary: ctx out)
  case Nil
  then show ?case by (simp add: link_guarantee_refl)
next
  case (Cons b bs)
  obtain r q where f: "xgl_parser_feed_byte (dl_parser ctx) b now = (r, q)" by fastforce
  have q: "parser_bounds q" using xgl_parser_feed_byte_bounds [OF Cons.prems(2), of b now] f by simp
  let ?c = "ctx \<lparr> dl_parser := q \<rparr>"
  have c: "link_guarantee ctx [] ?c"
    using q by (intro link_guarantee_quiet [OF link_guarantee_refl [OF Cons.prems(2)]]) simp_all
  have "\<exists>o1 c1 o2. datalink_feed c1 bs now = (o2, ctx') \<and> out = o1 @ o2 \<and> link_guarantee ?c o1 c1 \<and> parser_bounds (dl_parser c1)"
  proof (cases r)
    case XGL_PARSE_RESULT_INCOMPLETE
    obtain o2 where "datalink_feed ?c bs now = (o2, ctx')" "out = [] @ o2"
      using Cons.prems(1) f XGL_PARSE_RESULT_INCOMPLETE by (auto split: prod.splits)
    then show ?thesis using link_guarantee_refl [of ?c] q by fastforce
  next
    case XGL_PARSE_RESULT_ERROR
    obtain o2 where "datalink_feed (dl_count count_rx_error ?c) bs now = (o2, ctx')" "out = [] @ o2"
      using Cons.prems(1) f XGL_PARSE_RESULT_ERROR by (auto split: prod.splits)
    moreover have "link_guarantee ?c [] (dl_count count_rx_error ?c)"
      using q by (intro link_guarantee_quiet [OF link_guarantee_refl]) simp_all
    ultimately show ?thesis using q by fastforce
  next
    case XGL_PARSE_RESULT_COMPLETE
    let ?p = "case xgl_parser_get_frame q of Inl _ \<Rightarrow> (XGL_OK, [], ?c)
      | Inr (frame_buffer, frame_len) \<Rightarrow> xgl_datalink_process_frame ?c (Some frame_buffer) frame_len"
    obtain e o1 c1 where p: "?p = (e, o1, c1)" by (metis prod.exhaust)
    have g: "link_guarantee ?c o1 c1 \<and> parser_bounds (dl_parser c1)"
    proof (cases "xgl_parser_get_frame q")
      case (Inl x)
      then show ?thesis using p q link_guarantee_refl [of ?c] by auto
    next
      case (Inr x)
      then obtain n where n: "x = (ps_cache q, n)" "n \<le> length (ps_cache q)"
        using q by (auto simp: xgl_parser_get_frame_def parser_bounds_def split: if_splits)
      then have "link_guarantee ?c o1 c1"
        using p Inr q by (intro process_frame_guarantee [of _ "ps_cache q" n e]) simp_all
      then show ?thesis by (simp add: link_guarantee_def)
    qed
    let ?r = "c1 \<lparr> dl_parser := xgl_parser_reset (dl_parser c1) \<rparr>"
    obtain o2 where "datalink_feed ?r bs now = (o2, ctx')" "out = o1 @ o2"
      using Cons.prems(1) f p XGL_PARSE_RESULT_COMPLETE by (auto split: prod.splits)
    moreover have "link_guarantee ?c o1 ?r"
      using g parser_bounds_reset [of "dl_parser c1"] by (auto intro: link_guarantee_quiet [of ?c o1 c1 o1])
    moreover have "parser_bounds (dl_parser ?r)" using g parser_bounds_reset by simp
    ultimately show ?thesis by blast
  qed
  then obtain o1 c1 o2 where st: "datalink_feed c1 bs now = (o2, ctx')" "out = o1 @ o2" "link_guarantee ?c o1 c1" "parser_bounds (dl_parser c1)"
    by blast
  have "link_guarantee ctx ([] @ o1 @ o2) ctx'"
    using link_guarantee_trans [OF c link_guarantee_trans [OF st(3) Cons.IH [OF st(1,4)]]] .
  then show ?case using st(2) by simp
qed

lemma receive_guarantee:
  assumes "xgl_datalink_receive ctx has_rx rx now timeout = (err, out, ctx')" "parser_bounds (dl_parser ctx)"
  shows "link_guarantee ctx out ctx'"
proof -
  let ?t = "xgl_parser_check_timeout (dl_parser ctx) now timeout"
  define o1 where "o1 = (if ?t then dl_report ctx XGL_ERR_TIMEOUT else [])"
  define c1 where "c1 = (if ?t then dl_count count_rx_error (ctx \<lparr> dl_parser := xgl_parser_reset (dl_parser ctx) \<rparr>) else ctx)"
  have g: "link_guarantee ctx o1 c1" "parser_bounds (dl_parser c1)"
    using assms(2) parser_bounds_reset
    by (auto simp: o1_def c1_def intro!: link_guarantee_quiet [OF link_guarantee_refl [OF assms(2)]])
  obtain e bs where rx: "rx = (e, bs)" by (cases rx)
  obtain o2 c2 where f: "datalink_feed c1 bs now = (o2, c2)" by fastforce
  have "xgl_datalink_receive ctx has_rx rx now timeout =
    (if \<not> has_rx then (XGL_ERR_INVALID_PARAM, [], ctx) else if e \<noteq> XGL_OK then (e, o1, c1) else (XGL_OK, o1 @ o2, c2))"
    using f by (cases ?t) (simp_all add: xgl_datalink_receive_def o1_def c1_def rx)
  then show ?thesis
    using assms(1) g link_guarantee_refl [OF assms(2)] link_guarantee_trans [OF g(1) feed_guarantee [OF f g(2)]]
    by (auto split: if_splits)
qed

text \<open>
  The machine over any sequence of polls: each event says whether the interface has a receive function, what it
  returned with which bytes, the time and the parser timeout.
\<close>

type_synonym link_poll = "bool \<times> (xgl_error \<times> bytes) \<times> u32 \<times> u32"

definition datalink_poll :: "xgl_datalink_ctx \<Rightarrow> link_poll \<Rightarrow> layer_output list \<times> xgl_datalink_ctx" where
  "datalink_poll ctx = (\<lambda>(has_rx, rx, now, timeout). snd (xgl_datalink_receive ctx has_rx rx now timeout))"

lemma poll_guarantee:
  "datalink_poll ctx e = (out, ctx') \<Longrightarrow> parser_bounds (dl_parser ctx) \<Longrightarrow> link_guarantee ctx out ctx'"
  by (cases e) (auto simp: datalink_poll_def prod_eq_iff intro: receive_guarantee [of ctx _ _ _ _ "fst (xgl_datalink_receive ctx _ _ _ _)"])

interpretation link: invariant_machine datalink_poll "\<lambda>ctx. parser_bounds (dl_parser ctx)"
proof
  show "parser_bounds (dl_parser (snd (datalink_poll ctx e)))" if "parser_bounds (dl_parser ctx)" for ctx e
    using poll_guarantee [OF surjective_pairing that] by (simp add: link_guarantee_def)
qed

lemma link_run_guarantee:
  "parser_bounds (dl_parser ctx) \<Longrightarrow> link_guarantee ctx (concat (fst (link.run ctx es))) (snd (link.run ctx es))"
proof (induction es arbitrary: ctx)
  case Nil
  then show ?case by (simp add: link_guarantee_refl)
next
  case (Cons e es)
  obtain out c where p: "datalink_poll ctx e = (out, c)" by fastforce
  obtain os c' where r: "link.run c es = (os, c')" by fastforce
  have g: "link_guarantee ctx out c" by (rule poll_guarantee [OF p Cons.prems])
  then have "parser_bounds (dl_parser c)" by (simp add: link_guarantee_def)
  from link_guarantee_trans [OF g Cons.IH [OF this]] show ?case by (simp add: p r)
qed

lemma datalink_init_parser:
  assumes "xgl_datalink_init (Some config) = Inr ctx" "dc_rx_cache config = Some cache" "dc_rx_cache_size config \<le> length cache"
  shows "parser_tracks (dl_parser ctx) []" "ps_cache_size (dl_parser ctx) = dc_rx_cache_size config"
    "dl_auth_required ctx = dc_auth_required config" "dl_auth_key_id ctx = dc_auth_key_id config"
    "dl_auth_provider ctx = dc_auth_provider config" "dl_upper_layer ctx = dc_upper_layer config"
  using assms parser_init_tracks [of cache "dc_rx_cache_size config"]
  by (auto simp: xgl_datalink_init_def split: if_splits sum.splits)

section \<open>A frame arriving in chunks\<close>

lemma feed_byte_timestamp:
  assumes "xgl_parser_feed_byte p b t = (r, q)" "ps_state q \<noteq> XGL_PARSE_MAGIC"
  shows "ps_timestamp q = (if ps_state p = XGL_PARSE_MAGIC then t else ps_timestamp p)"
  using assms
  by (auto simp: xgl_parser_feed_byte_def parser_feed_header_def parser_feed_crc_def xgl_parser_reset_def
      xgl_parser_validate_header_extensions_def parser_store_def Let_def
      split: if_splits xgl_parse_state.splits sum.splits prod.splits)

lemma parser_tracks_state: "parser_tracks p w \<Longrightarrow> ps_state p = XGL_PARSE_MAGIC \<longleftrightarrow> w = []"
  by (cases "ps_state p") (auto simp: parser_tracks_def header_done_def dest: decoded_header_len)

lemma datalink_feed_append:
  "datalink_feed ctx (xs @ ys) now =
     (case datalink_feed ctx xs now of (o1, c1) \<Rightarrow> case datalink_feed c1 ys now of (o2, c2) \<Rightarrow> (o1 @ o2, c2))"
  by (induction xs arbitrary: ctx) (auto simp: Let_def case_prod_beta split: prod.split xgl_parse_result.split)

lemma feed_valid_prefix:
  assumes "parser_tracks (dl_parser ctx) w" "frame_valid (w @ bs @ z)" "z \<noteq> []"
    "length (w @ bs @ z) \<le> ps_cache_size (dl_parser ctx)"
  shows "\<exists>q. datalink_feed ctx bs now = ([], ctx \<lparr> dl_parser := q \<rparr>) \<and> parser_tracks q (w @ bs)
      \<and> ps_cache_size q = ps_cache_size (dl_parser ctx)
      \<and> (bs \<noteq> [] \<longrightarrow> ps_timestamp q = (if w = [] then now else ps_timestamp (dl_parser ctx)))"
  using assms
proof (induction bs arbitrary: ctx w)
  case Nil
  then show ?case by (intro exI [of _ "dl_parser ctx"]) simp
next
  case (Cons b bs)
  obtain r p where f: "xgl_parser_feed_byte (dl_parser ctx) b now = (r, p)" by fastforce
  have sz: "ps_cache_size p = ps_cache_size (dl_parser ctx)" using xgl_parser_feed_byte_size [of "dl_parser ctx" b now] f by simp
  have "step_refines (dl_parser ctx) w b (r, p)"
    using xgl_parser_feed_byte_refines [OF Cons.prems(1), of b now] by (simp add: f)
  then have st: "r = XGL_PARSE_RESULT_INCOMPLETE" "parser_tracks p (w @ [b])"
    using collect_valid [of w b "bs @ z" "ps_cache_size (dl_parser ctx)"] Cons.prems by (auto simp: step_refines_def)
  have ts: "ps_timestamp p = (if w = [] then now else ps_timestamp (dl_parser ctx))"
    using feed_byte_timestamp [OF f] parser_tracks_state [OF st(2)] parser_tracks_state [OF Cons.prems(1)] by simp
  let ?c = "ctx \<lparr> dl_parser := p \<rparr>"
  have "\<exists>q. datalink_feed ?c bs now = ([], ?c \<lparr> dl_parser := q \<rparr>) \<and> parser_tracks q ((w @ [b]) @ bs)
      \<and> ps_cache_size q = ps_cache_size (dl_parser ?c)
      \<and> (bs \<noteq> [] \<longrightarrow> ps_timestamp q = (if w @ [b] = [] then now else ps_timestamp (dl_parser ?c)))"
    using Cons.prems st sz by (intro Cons.IH) simp_all
  then obtain q where q: "datalink_feed ?c bs now = ([], ?c \<lparr> dl_parser := q \<rparr>)" "parser_tracks q ((w @ [b]) @ bs)"
    "ps_cache_size q = ps_cache_size p" "bs \<noteq> [] \<longrightarrow> ps_timestamp q = ps_timestamp p"
    by auto
  have "ps_timestamp q = ps_timestamp p"
  proof (cases "bs = []")
    case True
    then have "dl_parser ?c = dl_parser (?c \<lparr> dl_parser := q \<rparr>)" using q(1) by simp
    then show ?thesis by simp
  qed (use q(4) in simp)
  then show ?case using q ts sz by (intro exI [of _ q]) (simp add: f st(1))
qed

lemma feed_valid_end:
  assumes "parser_tracks (dl_parser ctx) w" "frame_valid (w @ bs)" "bs \<noteq> []" "length (w @ bs) \<le> ps_cache_size (dl_parser ctx)"
  obtains q where "parser_bounds q" "take (length (w @ bs)) (ps_cache q) = w @ bs" "length (w @ bs) \<le> length (ps_cache q)"
    "ps_cache_size q = ps_cache_size (dl_parser ctx)"
    "datalink_feed ctx bs now =
       (case xgl_datalink_process_frame (ctx \<lparr> dl_parser := q \<rparr>) (Some (ps_cache q)) (length (w @ bs)) of
          (_, out, c) \<Rightarrow> (out, c \<lparr> dl_parser := xgl_parser_reset q \<rparr>))"
proof -
  obtain b us where bs: "bs = us @ [b]" using assms(3) by (metis append_butlast_last_id)
  obtain p where p: "datalink_feed ctx us now = ([], ctx \<lparr> dl_parser := p \<rparr>)" "parser_tracks p (w @ us)"
    "ps_cache_size p = ps_cache_size (dl_parser ctx)"
    using feed_valid_prefix [OF assms(1), of us "[b]" now] assms(2,4) bs by auto
  obtain r q where f: "xgl_parser_feed_byte p b now = (r, q)" by fastforce
  have sz: "ps_cache_size q = ps_cache_size p" using xgl_parser_feed_byte_size [of p b now] f by simp
  have "step_refines p (w @ us) b (r, q)" using xgl_parser_feed_byte_refines [OF p(2), of b now] by (simp add: f)
  then have st: "r = XGL_PARSE_RESULT_COMPLETE" "parser_bounds q" "xgl_parser_get_frame q = Inr (ps_cache q, length (w @ bs))"
    "take (length (w @ bs)) (ps_cache q) = w @ bs"
    using collect_valid [of "w @ us" b "[]" "ps_cache_size p"] assms(2,4) p(3) by (auto simp: step_refines_def bs)
  have len: "length (w @ bs) \<le> length (ps_cache q)"
    using st(2,3) by (auto simp: parser_bounds_def xgl_parser_get_frame_def split: if_splits)
  obtain e out c where pf: "xgl_datalink_process_frame (ctx \<lparr> dl_parser := q \<rparr>) (Some (ps_cache q)) (length (w @ bs)) = (e, out, c)"
    by (metis prod.exhaust)
  have "dl_parser c = q" using process_frame_settings [OF pf] by simp
  then have "datalink_feed ctx bs now = (out, c \<lparr> dl_parser := xgl_parser_reset q \<rparr>)"
    by (simp only: bs datalink_feed_append p(1) prod.case) (simp add: f st(1,3) pf [simplified])
  then show thesis using st len sz p(3) pf by (intro that [of q]) simp_all
qed

text \<open>
  The polls that read a frame in timed chunks. \<open>timely\<close>: no chunk comes later than the parser timeout after
  the first, which is where the frame begins.
\<close>

definition polls :: "u32 \<Rightarrow> (bytes \<times> u32) list \<Rightarrow> link_poll list" where
  "polls timeout cs = map (\<lambda>(c, t). (True, (XGL_OK, c), t, timeout)) cs"

definition timely :: "u32 \<Rightarrow> u32 \<Rightarrow> (bytes \<times> u32) list \<Rightarrow> bool" where
  "timely timeout start cs \<longleftrightarrow> list_all (\<lambda>(c, t). t - start < timeout) cs"

lemma poll_feed:
  assumes "ps_state (dl_parser ctx) = XGL_PARSE_MAGIC \<or> now - ps_timestamp (dl_parser ctx) < timeout"
  shows "datalink_poll ctx (True, (XGL_OK, c), now, timeout) = datalink_feed ctx c now"
  using assms by (auto simp: datalink_poll_def xgl_datalink_receive_def xgl_parser_check_timeout_def case_prod_beta)

lemma polls_idle:
  "parser_tracks (dl_parser ctx) [] \<Longrightarrow> list_all (\<lambda>(c, t). c = []) cs \<Longrightarrow>
   concat (fst (link.run ctx (polls timeout cs))) = [] \<and> snd (link.run ctx (polls timeout cs)) = ctx"
  by (induction cs) (auto simp: polls_def poll_feed parser_tracks_state case_prod_beta)

lemma polls_valid_frame:
  assumes "parser_tracks (dl_parser ctx) w" "frame_valid (w @ concat (map fst cs))" "concat (map fst cs) \<noteq> []"
    and "length (w @ concat (map fst cs)) \<le> ps_cache_size (dl_parser ctx)" "timely timeout start cs"
    and "if w = [] then \<exists>c cs'. cs = (c, start) # cs' \<and> c \<noteq> [] else ps_timestamp (dl_parser ctx) = start"
  shows "\<exists>q. parser_bounds q \<and> take (length (w @ concat (map fst cs))) (ps_cache q) = w @ concat (map fst cs)
    \<and> length (w @ concat (map fst cs)) \<le> length (ps_cache q) \<and> ps_cache_size q = ps_cache_size (dl_parser ctx)
    \<and> (case xgl_datalink_process_frame (ctx \<lparr> dl_parser := q \<rparr>) (Some (ps_cache q)) (length (w @ concat (map fst cs))) of
         (_, out, c) \<Rightarrow> concat (fst (link.run ctx (polls timeout cs))) = out
           \<and> snd (link.run ctx (polls timeout cs)) = c \<lparr> dl_parser := xgl_parser_reset q \<rparr>)"
  using assms
proof (induction cs arbitrary: ctx w)
  case (Cons x cs)
  obtain c t where x: "x = (c, t)" by (cases x)
  let ?z = "concat (map fst cs)"
  have "ps_state (dl_parser ctx) = XGL_PARSE_MAGIC \<or> t - ps_timestamp (dl_parser ctx) < timeout"
    using Cons.prems(5,6) parser_tracks_state [OF Cons.prems(1)] by (auto simp: timely_def x split: if_splits)
  then have poll: "datalink_poll ctx (True, (XGL_OK, c), t, timeout) = datalink_feed ctx c t" by (rule poll_feed)
  have run: "link.run ctx (polls timeout (x # cs)) =
      (case datalink_feed ctx c t of (o1, c1) \<Rightarrow> case link.run c1 (polls timeout cs) of (os, c2) \<Rightarrow> (o1 # os, c2))"
    by (simp add: polls_def x poll)
  show ?case
  proof (cases "?z = []")
    case True
    then have idle: "list_all (\<lambda>(c, t). c = []) cs" by (auto simp: list_all_iff)
    have c: "frame_valid (w @ c)" "c \<noteq> []" "length (w @ c) \<le> ps_cache_size (dl_parser ctx)"
      using Cons.prems(2-4) True by (simp_all add: x)
    obtain q where q: "parser_bounds q" "take (length (w @ c)) (ps_cache q) = w @ c" "length (w @ c) \<le> length (ps_cache q)"
      "ps_cache_size q = ps_cache_size (dl_parser ctx)"
      "datalink_feed ctx c t =
       (case xgl_datalink_process_frame (ctx \<lparr> dl_parser := q \<rparr>) (Some (ps_cache q)) (length (w @ c)) of
          (_, out, c) \<Rightarrow> (out, c \<lparr> dl_parser := xgl_parser_reset q \<rparr>))"
      using feed_valid_end [OF Cons.prems(1) c] by metis
    obtain e out d where pf: "xgl_datalink_process_frame (ctx \<lparr> dl_parser := q \<rparr>) (Some (ps_cache q)) (length (w @ c)) = (e, out, d)"
      by (metis prod.exhaust)
    let ?d = "d \<lparr> dl_parser := xgl_parser_reset q \<rparr>"
    have "parser_tracks (dl_parser ?d) []" using parser_reset_tracks [OF q(1)] by simp
    note rest = polls_idle [OF this idle, of timeout]
    have all: "w @ concat (map fst (x # cs)) = w @ c" using True by (simp add: x)
    show ?thesis
      unfolding all run using q pf rest by (intro exI [of _ q]) (simp add: case_prod_beta)
  next
    case False
    have v: "frame_valid (w @ c @ ?z)" "length (w @ c @ ?z) \<le> ps_cache_size (dl_parser ctx)"
      using Cons.prems(2,4) by (simp_all add: x)
    obtain p where p: "datalink_feed ctx c t = ([], ctx \<lparr> dl_parser := p \<rparr>)" "parser_tracks p (w @ c)"
      "ps_cache_size p = ps_cache_size (dl_parser ctx)"
      "c \<noteq> [] \<longrightarrow> ps_timestamp p = (if w = [] then t else ps_timestamp (dl_parser ctx))"
      using feed_valid_prefix [OF Cons.prems(1) v(1) False v(2), of t] by blast
    have ts: "w @ c \<noteq> [] \<and> ps_timestamp p = start"
    proof (cases "c = []")
      case True
      then have "ctx = ctx \<lparr> dl_parser := p \<rparr>" "w \<noteq> []"
        using p(1) Cons.prems(6) x by (auto split: if_splits)
      then show ?thesis using Cons.prems(6) by (metis append_is_Nil_conv xgl_datalink_ctx.select_convs(1) xgl_datalink_ctx.surjective xgl_datalink_ctx.update_convs(1))
    qed (use p(4) Cons.prems(6) x in \<open>auto split: if_splits\<close>)
    have ih: "\<exists>q. parser_bounds q \<and> take (length ((w @ c) @ ?z)) (ps_cache q) = (w @ c) @ ?z
      \<and> length ((w @ c) @ ?z) \<le> length (ps_cache q) \<and> ps_cache_size q = ps_cache_size (dl_parser (ctx \<lparr> dl_parser := p \<rparr>))
      \<and> (case xgl_datalink_process_frame (ctx \<lparr> dl_parser := p \<rparr> \<lparr> dl_parser := q \<rparr>) (Some (ps_cache q)) (length ((w @ c) @ ?z)) of
         (_, out, d) \<Rightarrow> concat (fst (link.run (ctx \<lparr> dl_parser := p \<rparr>) (polls timeout cs))) = out
           \<and> snd (link.run (ctx \<lparr> dl_parser := p \<rparr>) (polls timeout cs)) = d \<lparr> dl_parser := xgl_parser_reset q \<rparr>)"
      using p(2,3) v False ts Cons.prems(5) by (intro Cons.IH) (auto simp: timely_def)
    have all: "w @ concat (map fst (x # cs)) = (w @ c) @ ?z" by (simp add: x)
    show ?thesis unfolding all run using ih p(1,3) by (simp add: case_prod_beta)
  qed
qed simp

section \<open>Frames of the sender at the receiver\<close>

text \<open>The extensions a sender may attach: none is a SECURITY extension, and a SESSION extension has its size.\<close>

definition link_ext_ok :: "u8 \<times> bytes \<Rightarrow> bool" where
  "link_ext_ok = (\<lambda>(t, v). t \<noteq> XGL_WIRE_EXT_SECURITY \<and> (t = XGL_WIRE_EXT_SESSION \<longrightarrow> length v = 12))"

lemma datalink_ext_fold_plain:
  "list_all link_ext_ok es \<Longrightarrow>
   \<exists>ep. exts_fold (datalink_ext_body req key) es md = Inr (XGL_ERR_NOT_FOUND, md \<lparr> md_session_epoch := ep \<rparr>)"
proof (induction es arbitrary: md)
  case Nil
  show ?case by (intro exI [of _ "md_session_epoch md"]) simp
next
  case (Cons e es)
  obtain t v where e: "e = (t, v)" by (cases e)
  define ep where "ep = (if t = XGL_WIRE_EXT_SESSION then get_u32_le v 0 else md_session_epoch md)"
  have "datalink_ext_body req key \<lparr> ext_type = t, ext_len = length v, ext_value = v, ext_valid = True \<rparr> md =
      Inr (md \<lparr> md_session_epoch := ep \<rparr>)"
    using Cons.prems by (simp add: e ep_def link_ext_ok_def datalink_ext_body_def xgl_wire_decode_session_ext_value_def)
  with Cons.IH [of "md \<lparr> md_session_epoch := ep \<rparr>"] Cons.prems show ?case by (simp add: e)
qed

lemma image_rx_metadata:
  assumes valid: "wire_header_fields_valid h" and es: "exts_ok es"
    and hl: "unat (wh_header_len h) = 24 + length (exts_image es)"
    and len: "length body = unat (wh_payload_len h) + unat (md_auth_tag_len m)"
    and h': "h' = h \<lparr> wh_header_crc16 := xgl_crc16_modbus (Some (wire_header_prefix h @ [0, 0])) 24 \<rparr>"
    and fold: "exts_fold (datalink_ext_body req key) es (zero_rx_metadata \<lparr> md_header := h' \<rparr>) = Inr (XGL_ERR_NOT_FOUND, m)"
    and fr: "fr = frame_image h (exts_image es) body" "n = length fr" "n \<le> 2048"
  shows "xgl_datalink_decode_rx_metadata fr n req key =
    (XGL_OK, m \<lparr> md_authenticated := (wh_flags h AND XGL_WIRE_FLAG_AUTHENTICATED \<noteq> 0),
       md_should_verify_auth := (wh_flags h AND XGL_WIRE_FLAG_AUTHENTICATED \<noteq> 0) \<or> md_has_security_ext m,
       md_payload_len := unat (wh_payload_len h) \<rparr>)"
proof -
  let ?d = "wire_header_image h @ exts_image es @ body"
  let ?c = "xgl_crc16_modbus (Some ?d) (length ?d)"
  have F: "fr = ?d @ le16 ?c" by (simp add: fr frame_image_def sealed_def)
  have n: "26 \<le> n" "n - 2 = length ?d" using fr(2) by (simp_all add: F)
  have dec: "xgl_wire_decode_header (Some fr) n = Inr h'"
    using wire_decode_image [OF valid, of n "exts_image es @ body @ le16 ?c"] n by (simp add: F h')
  have ext: "datalink_decode_rx_extensions fr h' req key (zero_rx_metadata \<lparr> md_header := h' \<rparr>) = (XGL_OK, m)"
  proof (cases "es = []")
    case True
    then show ?thesis using fold hl by (simp add: datalink_decode_rx_extensions_def h' exts_image_def)
  next
    case False
    then have "exts_image es \<noteq> []" by (cases es) (auto simp: exts_image_def tlv_image_def case_prod_beta)
    then show ?thesis
      using ext_while_exts [OF es, of _ "[]" "datalink_ext_body req key" "body @ le16 ?c" "zero_rx_metadata \<lparr> md_header := h' \<rparr>"] fold hl
      by (simp add: datalink_decode_rx_extensions_def xgl_wire_ext_cursor_init_def h' F)
  qed
  have "xgl_crc16_modbus (Some fr) (n - 2) = ?c" unfolding F n(2) by (rule crc16_prefix) simp
  moreover have "get_u16_le fr (n - 2) = ?c" unfolding F n(2) using u16_codec.get_append [of ?d "length ?d" ?c "[]"] by simp
  moreover have "fr ! 0 = XGL_WIRE_MAGIC_0" "fr ! 1 = XGL_WIRE_MAGIC_1" by (simp_all add: F)
  moreover have "wh_flags h' = wh_flags h" "wh_payload_len h' = wh_payload_len h" by (simp_all add: h')
  ultimately have "xgl_datalink_decode_rx_metadata fr n req key =
    (if n \<noteq> unat (wh_header_len h') + unat (wh_payload_len h) + unat (md_auth_tag_len m) + 2 then XGL_ERR_INVALID_FRAME else XGL_OK,
     m \<lparr> md_authenticated := (wh_flags h AND XGL_WIRE_FLAG_AUTHENTICATED \<noteq> 0),
       md_should_verify_auth := (wh_flags h AND XGL_WIRE_FLAG_AUTHENTICATED \<noteq> 0) \<or> md_has_security_ext m,
       md_payload_len := unat (wh_payload_len h) \<rparr>)"
    using n(1) fr(3) by (simp add: xgl_datalink_decode_rx_metadata_def dec ext Let_def)
  moreover have "n = unat (wh_header_len h') + unat (wh_payload_len h) + unat (md_auth_tag_len m) + 2"
    using hl len by (simp add: fr h')
  ultimately show ?thesis by (simp only: if_False simp_thms)
qed

lemma image_prefix_metadata:
  assumes "wire_header_fields_valid h" "unat (wh_header_len h) = 24 + length (exts_image es)"
    and "fr = frame_image h (exts_image es) body" "n = length fr" "take n b = fr" "n \<le> length b"
  shows "xgl_datalink_decode_rx_metadata b n req key = xgl_datalink_decode_rx_metadata fr n req key"
proof -
  have n: "26 \<le> n" using assms(3,4) by simp
  have "xgl_wire_decode_header (Some b) n = xgl_wire_decode_header (Some fr) n"
    using n assms(5) xgl_wire_decode_header_take [of n b] by (simp add: xgl_wire_decode_header_size [of n])
  also have "\<dots> = Inr (h \<lparr> wh_header_crc16 := xgl_crc16_modbus (Some (wire_header_prefix h @ [0, 0])) 24 \<rparr>)"
    using wire_decode_image [OF assms(1)] n by (simp add: assms(3) frame_image_def sealed_def)
  finally have dec: "xgl_wire_decode_header (Some b) n = Inr (h \<lparr> wh_header_crc16 := xgl_crc16_modbus (Some (wire_header_prefix h @ [0, 0])) 24 \<rparr>)" .
  have "unat (wh_header_len h) \<le> n" using assms(2,3,4) by simp
  then show ?thesis
    using decode_rx_metadata_prefix [OF n assms(6)] assms(5) dec by auto
qed

lemma process_plain_image:
  assumes "wire_header_fields_valid h" "exts_ok es" "unat (wh_header_len h) = 24 + length (exts_image es)"
    and "list_all link_ext_ok es" "wh_flags h AND XGL_WIRE_FLAG_AUTHENTICATED = 0" "length body = unat (wh_payload_len h)"
    and "fr = frame_image h (exts_image es) body" "n = length fr" "n \<le> 2048" "take n b = fr" "n \<le> length b"
    and "\<not> dl_auth_required ctx" "dl_upper_layer ctx"
  shows "xgl_datalink_process_frame ctx (Some b) n = (XGL_OK, [Deliver fr], dl_count (count_rx_frame n) ctx)"
proof -
  let ?h' = "h \<lparr> wh_header_crc16 := xgl_crc16_modbus (Some (wire_header_prefix h @ [0, 0])) 24 \<rparr>"
  obtain ep where fold: "exts_fold (datalink_ext_body False (dl_auth_key_id ctx)) es (zero_rx_metadata \<lparr> md_header := ?h' \<rparr>) =
      Inr (XGL_ERR_NOT_FOUND, zero_rx_metadata \<lparr> md_header := ?h', md_session_epoch := ep \<rparr>)"
    using datalink_ext_fold_plain [OF assms(4)] by blast
  have md: "\<exists>md. xgl_datalink_decode_rx_metadata fr n False (dl_auth_key_id ctx) = (XGL_OK, md) \<and> \<not> md_should_verify_auth md"
    using image_rx_metadata [OF assms(1-3) _ refl fold assms(7,8,9)] assms(5,6) by (simp add: zero_rx_metadata_def)
  have "xgl_datalink_decode_rx_metadata b n False (dl_auth_key_id ctx) = xgl_datalink_decode_rx_metadata fr n False (dl_auth_key_id ctx)"
    using image_prefix_metadata [OF assms(1,3,7,8,10,11)] .
  with md show ?thesis
    using assms(10,12,13) by (auto simp: xgl_datalink_process_frame_def Let_def)
qed

lemma check_replay_fresh:
  assumes "replay_bank ctx A" "\<And>i. i < 16 \<Longrightarrow> \<not> dl_replay_window_used ctx ! i" "s \<noteq> 0"
  shows "fst (datalink_check_replay ctx s c e pn) = XGL_REPLAY_ACCEPT_NEW"
proof -
  have "List.find (\<lambda>i. dl_replay_window_used ctx ! i \<and> P i) [0..<16] = None" for P
    using assms(2) by (auto simp: find_None_iff)
  moreover have "List.find (\<lambda>i. \<not> dl_replay_window_used ctx ! i) [0..<16] = Some 0"
    using assms(2) [of 0] by (simp add: upt_rec [of 0])
  ultimately show ?thesis
    using assms(1,3)
    by (simp add: datalink_check_replay_def xgl_replay_window_init_def xgl_replay_window_check_def replay_bank_def)
qed

lemma verify_authenticated_image:
  assumes "provider_agrees pr" "ap_sign pr = Some sign" "0 < ap_tag_len pr" "ap_tag_len pr \<le> 32"
    and "length tag = ap_tag_len pr" "hdr = wire_header_image h @ exts_image es" "hl = length hdr" "hl \<le> 255"
    and "sign key (hdr[6 := 0, 22 := 0, 23 := 0]) payload room = Inr tag"
    and "fr = frame_image h (exts_image es) (payload @ tag)" "n = length fr"
  shows "xgl_wire_verify_auth_trailer (Some fr) (n - 2) hl (length payload) key (Some pr) = (XGL_OK, True)"
proof -
  obtain verify where v: "ap_verify pr = Some verify" "verify key (hdr[6 := 0, 22 := 0, 23 := 0]) payload tag = (XGL_OK, True)"
    using assms(1,2,9) by (auto elim!: provider_agreesE)
  have F: "fr = hdr @ payload @ tag @ le16 (xgl_crc16_modbus (Some (hdr @ payload @ tag)) (length (hdr @ payload @ tag)))"
    by (simp add: assms(6,10) frame_image_def sealed_def)
  have "wire_auth_canonical_aad fr hl 255 = Inr (hdr[6 := 0, 22 := 0, 23 := 0])"
    using wire_header_image_magic [of h] assms(6-8) by (simp add: wire_auth_canonical_aad_def wire_auth_aad_has_frame_header_def F)
  moreover have "mem_read fr hl (length payload) = payload" "mem_read fr (hl + length payload) (length tag) = tag"
    by (simp_all add: F assms(7) mem_read_def)
  moreover have "n - 2 = hl + length payload + length tag" by (simp add: assms(7,11) F)
  ultimately show ?thesis using assms(3-5) v by (simp add: xgl_wire_verify_auth_trailer_def)
qed

lemma process_authenticated_image:
  assumes f: "wire_header_fields_valid h" "exts_ok es" "list_all link_ext_ok es" "wh_flags h AND XGL_WIRE_FLAG_AUTHENTICATED \<noteq> 0"
      "length payload = unat (wh_payload_len h)"
    and x: "x = es @ [(XGL_WIRE_EXT_SECURITY, security_image (key, nonce, word_of_nat (ap_tag_len pr)))]"
      "unat (wh_header_len h) = 24 + length (exts_image x)"
    and pr: "provider_agrees pr" "ap_sign pr = Some sign" "0 < ap_tag_len pr" "ap_tag_len pr \<le> 32" "length tag = ap_tag_len pr"
      "sign key ((wire_header_image h @ exts_image x)[6 := 0, 22 := 0, 23 := 0]) payload room = Inr tag"
    and fr: "fr = frame_image h (exts_image x) (payload @ tag)" "n = length fr" "n \<le> 2048" "take n b = fr" "n \<le> length b"
    and ctx: "dl_auth_required ctx" "dl_auth_key_id ctx = key" "dl_auth_provider ctx = Some pr" "dl_upper_layer ctx"
      "replay_bank ctx A" "\<And>i. i < 16 \<Longrightarrow> \<not> dl_replay_window_used ctx ! i"
  shows "\<exists>c. xgl_datalink_process_frame ctx (Some b) n = (XGL_OK, [Deliver fr], c)"
proof -
  let ?h' = "h \<lparr> wh_header_crc16 := xgl_crc16_modbus (Some (wire_header_prefix h @ [0, 0])) 24 \<rparr>"
  let ?t = "word_of_nat (ap_tag_len pr) :: u8"
  have t: "unat ?t = ap_tag_len pr" using pr by simp
  then have t0: "?t \<noteq> 0" using pr(3) by (metis less_irrefl unsigned_0)
  have xs: "exts_ok x" using f(2) by (simp add: x exts_ok_def security_image_def)
  obtain ep where ep: "exts_fold (datalink_ext_body True key) es (zero_rx_metadata \<lparr> md_header := ?h' \<rparr>) =
      Inr (XGL_ERR_NOT_FOUND, zero_rx_metadata \<lparr> md_header := ?h', md_session_epoch := ep \<rparr>)"
    using datalink_ext_fold_plain [OF f(3)] by blast
  let ?m = "zero_rx_metadata \<lparr> md_header := ?h', md_session_epoch := ep, md_auth_key_id := key, md_auth_tag_len := ?t, md_has_security_ext := True \<rparr>"
  have fold: "exts_fold (datalink_ext_body True key) x (zero_rx_metadata \<lparr> md_header := ?h' \<rparr>) = Inr (XGL_ERR_NOT_FOUND, ?m)"
    using ep t0 security_codec.dec_image [of "(key, nonce, ?t)" "[]"]
    by (simp add: x exts_fold_append datalink_ext_body_def)
  obtain md where md: "xgl_datalink_decode_rx_metadata fr n True key = (XGL_OK, md)" "md_should_verify_auth md" "md_authenticated md"
    "md_has_security_ext md" "md_header md = ?h'" "md_payload_len md = length payload" "md_auth_key_id md = key"
    using image_rx_metadata [OF f(1) xs x(2) _ refl fold fr(1,2,3)] f(4,5) t pr(5) by simp
  have same: "xgl_datalink_decode_rx_metadata b n True key = xgl_datalink_decode_rx_metadata fr n True key"
    using image_prefix_metadata [OF f(1) x(2) fr(1,2,4,5)] .
  have hl: "unat (wh_header_len h) \<le> 255" using unat_u8_less [of "wh_header_len h"] by simp
  have "xgl_wire_verify_auth_trailer (Some fr) (n - 2) (unat (wh_header_len h)) (length payload) key (Some pr) = (XGL_OK, True)"
    using verify_authenticated_image [OF pr(1-5) refl _ _ pr(6) fr(1,2)] x(2) hl by simp
  then have v: "xgl_wire_verify_auth_trailer (Some b) (n - 2) (unat (wh_header_len h)) (length payload) key (Some pr) = (XGL_OK, True)"
    using verify_auth_trailer_take [of "n - 2" n b "unat (wh_header_len h)" "length payload"] fr x(2) by simp
  have new: "fst (datalink_check_replay ctx (wh_source_id h) c e pn) = XGL_REPLAY_ACCEPT_NEW" for c e pn
    using check_replay_fresh [OF ctx(5,6)] f(1) by (simp add: wire_header_fields_valid_def)
  have ver: "\<exists>v. ap_verify pr = Some v" using pr(1) by (auto elim: provider_agreesE)
  have up: "dl_upper_layer (snd (datalink_check_replay ctx s c e pn))" for s c e pn
    using check_replay_settings [OF surjective_pairing, of ctx s c e pn] ctx(4) by (simp add: dl_settings_def)
  show ?thesis
    using new ver up by (auto simp: xgl_datalink_process_frame_def same md ctx(1-3) v fr(4) Let_def case_prod_beta)
qed

text \<open>Sending: what the physical interface is given.\<close>

definition link_tag_len :: "xgl_datalink_ctx \<Rightarrow> nat" where
  "link_tag_len ctx = (if dl_auth_required ctx then (case dl_auth_provider ctx of None \<Rightarrow> 0 | Some p \<Rightarrow> ap_tag_len p) else 0)"

text \<open>
  A frame the link can carry: parts of their announced sizes, a valid packet type and addresses, well-formed
  extensions none of which is the link's own, and not marked as authenticated by the layer above.
\<close>

definition link_frame_ok :: "xgl_frame \<Rightarrow> (u8 \<times> bytes) list \<Rightarrow> bool" where
  "link_frame_ok f exts \<longleftrightarrow>
     frame_wf f \<and> fr_extensions_len f \<le> 216 \<and> frame_ext f = exts_image exts \<and> exts_ok exts \<and> list_all link_ext_ok exts \<and>
     wh_flags (fr_header f) AND XGL_WIRE_FLAG_AUTHENTICATED = 0 \<and> wire_packet_type_valid (wh_packet_type (fr_header f)) \<and>
     wh_source_id (fr_header f) \<noteq> 0 \<and> wh_target_id (fr_header f) \<noteq> 0"

definition provider_ok :: "xgl_auth_provider option \<Rightarrow> bool" where
  "provider_ok p = (case p of None \<Rightarrow> False
     | Some pr \<Rightarrow> provider_agrees pr \<and> provider_signs pr \<and> 0 < ap_tag_len pr \<and> ap_tag_len pr \<le> 32)"

lemma link_ext_ok_plain: "list_all link_ext_ok es \<Longrightarrow> list_all (\<lambda>(t, v). t \<noteq> XGL_WIRE_EXT_SECURITY) es"
  by (auto simp: list_all_iff link_ext_ok_def)

lemma frame_header_len:
  "frame_wf f \<Longrightarrow> fr_extensions_len f \<le> 216 \<Longrightarrow> frame_ext f = exts_image exts \<Longrightarrow>
     unat (wh_header_len (serialized_header f)) = 24 + length (exts_image exts)"
  "frame_wf f \<Longrightarrow> fr_extensions_len f \<le> 216 \<Longrightarrow> frame_ext f = exts_image exts \<Longrightarrow>
     unat (wh_header_len (authenticated_header f)) = 24 + length (exts_image (security_exts f key pr exts))"
  "frame_wf f \<Longrightarrow> unat (wh_payload_len (serialized_header f)) = length (frame_payload f)"
  "frame_wf f \<Longrightarrow> unat (wh_payload_len (authenticated_header f)) = length (frame_payload f)"
proof -
  assume wf: "frame_wf f"
  then have "unat (word_of_nat (fr_payload_len f) :: u16) = fr_payload_len f"
    by (simp add: frame_wf_def unsigned_of_nat take_bit_nat_eq_self)
  then show "unat (wh_payload_len (serialized_header f)) = length (frame_payload f)"
    and "unat (wh_payload_len (authenticated_header f)) = length (frame_payload f)"
    using wf by (simp_all add: serialized_header_def authenticated_header_def frame_wire_header_def frame_wf_def)
  assume e: "fr_extensions_len f \<le> 216" "frame_ext f = exts_image exts"
  have len: "length (exts_image exts) = fr_extensions_len f" using wf e(2) [symmetric] by (simp add: frame_wf_def)
  show "unat (wh_header_len (serialized_header f)) = 24 + length (exts_image exts)"
    using e(1) len unat_word_of_nat_byte [of "24 + fr_extensions_len f"] by (simp add: serialized_header_def frame_wire_header_def)
  have "length (exts_image (security_exts f key pr exts)) = fr_extensions_len f + 15"
    using len by (simp add: exts_image_def security_image_def)
  then show "unat (wh_header_len (authenticated_header f)) = 24 + length (exts_image (security_exts f key pr exts))"
    using e(1) unat_word_of_nat_byte [of "39 + fr_extensions_len f"] by (simp add: authenticated_header_def frame_wire_header_def)
qed

text \<open>
  What the bytes on the wire carry of a frame: its header, but for the length, the checksum and the flags that the link
  itself sets; its extensions, with at most a SECURITY extension behind them; its payload, with a tag behind it.
\<close>

definition header_carries :: "xgl_wire_header \<Rightarrow> xgl_wire_header \<Rightarrow> bool" where
  "header_carries h g \<longleftrightarrow>
     wh_packet_type h = wh_packet_type g \<and> wh_ttl h = wh_ttl g \<and> wh_traffic_class h = wh_traffic_class g \<and>
     wh_source_id h = wh_source_id g \<and> wh_target_id h = wh_target_id g \<and> wh_connection_id h = wh_connection_id g \<and>
     wh_packet_number h = wh_packet_number g \<and>
     (\<forall>m. m AND (XGL_WIRE_FLAG_HAS_EXTENSIONS OR XGL_WIRE_FLAG_AUTHENTICATED) = 0 \<longrightarrow> wh_flags h AND m = wh_flags g AND m)"

definition frame_carries :: "bytes \<Rightarrow> xgl_frame \<Rightarrow> (u8 \<times> bytes) list \<Rightarrow> bool" where
  "frame_carries fr f exts \<longleftrightarrow>
     (\<exists>h x t. fr = frame_image h (exts_image x) (frame_payload f @ t) \<and> wire_header_fields_valid h \<and> exts_ok x \<and>
        unat (wh_header_len h) = 24 + length (exts_image x) \<and> unat (wh_payload_len h) = length (frame_payload f) \<and>
        (x = exts \<or> (\<exists>v. x = exts @ [(XGL_WIRE_EXT_SECURITY, v)])) \<and> header_carries h (fr_header f))"

lemma flags_or_carry:
  assumes "(m :: u8) AND c = 0" "d AND c = d"
  shows "(f OR d) AND m = f AND m"
proof -
  have "(d AND c) AND m = d AND (m AND c)" by (simp add: ac_simps)
  then have "d AND m = 0" by (simp only: assms and_zero_eq)
  then show ?thesis by (simp add: bit.conj_disj_distrib2)
qed

lemma serialized_header_carries: "header_carries (serialized_header f) (fr_header f)"
  unfolding header_carries_def serialized_header_def frame_wire_header_def
  by (auto intro!: flags_or_carry [where c = "XGL_WIRE_FLAG_HAS_EXTENSIONS OR XGL_WIRE_FLAG_AUTHENTICATED"])

lemma authenticated_header_carries: "header_carries (authenticated_header f) (fr_header f)"
  unfolding header_carries_def authenticated_header_def frame_wire_header_def or.assoc
  by (auto intro!: flags_or_carry [where c = "XGL_WIRE_FLAG_HAS_EXTENSIONS OR XGL_WIRE_FLAG_AUTHENTICATED"])

lemma datalink_send_transmits:
  assumes "datalink_auth_tag_len S = Inr t" "k = xgl_frame_serialized_size (fr_payload_len f) (fr_extensions_len f) t"
    and "k \<le> 512 \<or> (\<exists>as. allocs = True # as)" "buf = replicate (if k > 512 then k else 512) 0"
    and "(if dl_auth_required S
          then xgl_frame_serialize_authenticated (Some buf) k (Some f) (dl_auth_key_id S) (dl_auth_provider S)
          else xgl_frame_serialize (Some buf) k (Some f)) = Inr (fr @ r, k)" "length fr = k"
  shows "\<exists>as. xgl_datalink_send S (Some phy) True (Some f) XGL_OK allocs =
           (XGL_OK, [Transmit phy fr], dl_count (count_tx_frame k) S, as)"
proof (cases "k > 512")
  case True
  then obtain as where as: "take_alloc allocs = (True, as)" using assms(3) by (auto simp: take_alloc_def)
  show ?thesis
    using True as assms(5) [unfolded assms(4)] assms(6)
    by (simp add: xgl_datalink_send_def assms(1) Let_def assms(2) [symmetric])
next
  case False
  then show ?thesis
    using assms(5) [unfolded assms(4)] assms(6) by (simp add: xgl_datalink_send_def assms(1) Let_def assms(2) [symmetric])
qed

text \<open>
  What the sender transmits is a valid frame, and the receiver's processing of it in a cache delivers it.
\<close>

lemma send_then_process:
  assumes f: "link_frame_ok f exts"
    and k: "k = xgl_frame_serialized_size (fr_payload_len f) (fr_extensions_len f) (link_tag_len S)" "k \<le> 2048"
    and alloc: "k \<le> 512 \<or> (\<exists>as. allocs = True # as)"
    and S: "dl_auth_required S \<Longrightarrow> provider_ok (dl_auth_provider S)"
    and R: "dl_settings R = (dl_auth_required S, dl_auth_key_id S, dl_auth_provider S, True)"
      "replay_bank R A" "\<And>i. i < 16 \<Longrightarrow> \<not> dl_replay_window_used R ! i"
  shows "\<exists>fr. fst (xgl_datalink_send S (Some phy) True (Some f) XGL_OK allocs) = XGL_OK
     \<and> fst (snd (xgl_datalink_send S (Some phy) True (Some f) XGL_OK allocs)) = [Transmit phy fr]
     \<and> frame_valid fr \<and> length fr = k \<and> frame_carries fr f exts
     \<and> (\<forall>b q. take k b = fr \<longrightarrow> k \<le> length b \<longrightarrow>
          (\<exists>c. xgl_datalink_process_frame (R \<lparr> dl_parser := q \<rparr>) (Some b) k = (XGL_OK, [Deliver fr], c)))"
proof -
  note ok = f [unfolded link_frame_ok_def]
  note plain = link_ext_ok_plain
  let ?buf = "replicate (if k > 512 then k else 512) (0 :: u8)"
  have room: "k \<le> length ?buf" by simp
  show ?thesis
  proof (cases "dl_auth_required S")
    case False
    let ?F = "frame_image (serialized_header f) (exts_image exts) (frame_payload f)"
    have k': "k = 26 + fr_extensions_len f + fr_payload_len f"
      using k False by (simp add: xgl_frame_serialized_size_def link_tag_len_def xgl_frame_auth_overhead_def)
    have ser: "xgl_frame_serialize (Some ?buf) k (Some f) = Inr (?F @ drop k ?buf, k)" "frame_valid ?F" "length ?F = k"
      using ok plain by (intro serialized_frame_image [OF _ _ _ _ _ _ _ _ _ k' order_refl room]; simp)+
    have "wh_flags (serialized_header f) AND XGL_WIRE_FLAG_AUTHENTICATED = 0" "wire_header_fields_valid (serialized_header f)"
      using ok by (simp_all add: serialized_header_valid) (simp add: serialized_header_def frame_wire_header_def bit.conj_disj_distrib2)
    then have "\<exists>c. xgl_datalink_process_frame (R \<lparr> dl_parser := q \<rparr>) (Some b) k = (XGL_OK, [Deliver ?F], c)"
      if "take k b = ?F" "k \<le> length b" for b q
      using process_plain_image [of "serialized_header f" exts "frame_payload f" ?F k b "R \<lparr> dl_parser := q \<rparr>"]
        ok frame_header_len(1) [of f exts] frame_header_len(3) [of f] ser(3) k(2) that R(1) False
      by (simp add: dl_settings_def)
    moreover have "\<exists>as. xgl_datalink_send S (Some phy) True (Some f) XGL_OK allocs = (XGL_OK, [Transmit phy ?F], dl_count (count_tx_frame k) S, as)"
      using ser(1,3) False k(1) by (intro datalink_send_transmits [OF _ _ alloc refl]) (simp_all add: datalink_auth_tag_len_def link_tag_len_def)
    moreover have "frame_carries ?F f exts"
      unfolding frame_carries_def using ok serialized_header_valid [of f] serialized_header_carries [of f] frame_header_len(1) [of f exts]
        frame_header_len(3) [of f]
      by (intro exI [of _ "serialized_header f"] exI [of _ exts] exI [of _ "[]"]) simp
    ultimately show ?thesis using ser(2,3) by (intro exI [of _ ?F]) auto
  next
    case True
    then obtain pr where pr: "dl_auth_provider S = Some pr" "provider_agrees pr" "provider_signs pr" "0 < ap_tag_len pr" "ap_tag_len pr \<le> 32"
      using S by (auto simp: provider_ok_def split: option.splits)
    have k': "k = xgl_frame_serialized_size (fr_payload_len f) (fr_extensions_len f) (ap_tag_len pr)"
      using k(1) True pr(1) by (simp add: link_tag_len_def)
    let ?h = "authenticated_header f" and ?x = "security_exts f (dl_auth_key_id S) pr exts"
    show ?thesis
    proof (rule authenticated_frame_image [OF _ _ _ _ _ _ _ _ pr(3-5) k' order_refl room, of exts "dl_auth_key_id S"])
      fix sign room tag
      let ?F = "frame_image ?h (exts_image ?x) (frame_payload f @ tag)"
      assume ser: "xgl_frame_serialize_authenticated (Some ?buf) k (Some f) (dl_auth_key_id S) (Some pr) = Inr (?F @ drop k ?buf, k)"
        and F: "frame_valid ?F" "length ?F = k" and t: "length tag = ap_tag_len pr" "ap_sign pr = Some sign"
          "sign (dl_auth_key_id S) ((wire_header_image ?h @ exts_image ?x)[6 := 0, 22 := 0, 23 := 0]) (frame_payload f) room = Inr tag"
      have h: "wire_header_fields_valid ?h" using ok by (simp add: authenticated_header_valid)
      have fl: "wh_flags ?h AND XGL_WIRE_FLAG_AUTHENTICATED \<noteq> 0"
        by (simp add: authenticated_header_def frame_wire_header_def bit.conj_disj_distrib2)
      have "\<exists>c. xgl_datalink_process_frame (R \<lparr> dl_parser := q \<rparr>) (Some b) k = (XGL_OK, [Deliver ?F], c)"
        if "take k b = ?F" "k \<le> length b" for b q
        using ok frame_header_len(2) [of f exts] frame_header_len(4) [of f] that R True F(2) k(2) pr(1)
        by (intro process_authenticated_image [OF h _ _ fl _ refl _ pr(2) t(2) pr(4,5) t(1,3) refl, where A = A])
          (simp_all add: dl_settings_def)
      moreover have "\<exists>as. xgl_datalink_send S (Some phy) True (Some f) XGL_OK allocs = (XGL_OK, [Transmit phy ?F], dl_count (count_tx_frame k) S, as)"
        using ser F(2) True k' pr(1,4,5) t(2)
        by (intro datalink_send_transmits [OF _ _ alloc refl]) (simp_all add: datalink_auth_tag_len_def)
      moreover have "frame_carries ?F f exts"
        unfolding frame_carries_def using ok h authenticated_header_carries [of f] frame_header_len(2) [of f exts "dl_auth_key_id S" pr]
          frame_header_len(4) [of f]
        by (intro exI [of _ ?h] exI [of _ ?x] exI [of _ tag]) (simp add: exts_ok_def security_image_def)
      ultimately show ?thesis using F by (intro exI [of _ ?F]) auto
    qed (use ok plain in simp_all)
  qed
qed

section \<open>Properties\<close>

text \<open>A link for the witnesses.\<close>

definition sample_link_config :: xgl_datalink_config where
  "sample_link_config =
     \<lparr> dc_rx_cache = Some (replicate 64 0), dc_rx_cache_size = 64, dc_source_id = 9,
       dc_stats = Some \<lparr> ls_tx_packets = 0, ls_tx_bytes = 0, ls_tx_errors = 0, ls_rx_packets = 0, ls_rx_bytes = 0,
                          ls_rx_errors = 0, ls_rx_dropped = 0 \<rparr>,
       dc_rx_header_crc_errors = None, dc_rx_crc16_errors = None, dc_upper_layer = True, dc_error_callback = False,
       dc_auth_required = True, dc_auth_key_id = 5, dc_auth_provider = Some demo_provider \<rparr>"

definition sample_link :: xgl_datalink_ctx where
  "sample_link = projr (xgl_datalink_init (Some sample_link_config))"

lemma sample_link_init: "xgl_datalink_init (Some sample_link_config) = Inr sample_link"
  by (simp add: sample_link_def) (simp add: xgl_datalink_init_def sample_link_config_def xgl_parser_init_def)

lemma sample_link_settings: "dl_settings sample_link = (True, 5, Some demo_provider, True)"
  by (simp add: sample_link_def xgl_datalink_init_def sample_link_config_def xgl_parser_init_def dl_settings_def)

lemma sample_link_ok:
  "link_frame_ok sample_frame [(8, [3])]" "provider_ok (Some demo_provider)"
  "xgl_frame_serialized_size (fr_payload_len sample_frame) (fr_extensions_len sample_frame) (link_tag_len sample_link) = 50"
  using sample_frame_ok sample_exts demo_provider_agrees demo_provider_signs sample_link_settings
  by (simp_all add: link_frame_ok_def link_ext_ok_def provider_ok_def dl_settings_def link_tag_len_def
      xgl_frame_serialized_size_def xgl_frame_auth_overhead_def demo_provider_def)

lemma sample_link_facts:
  "50 \<le> (2048 :: nat)" "50 \<le> (512 :: nat) \<or> (\<exists>as. ([] :: bool list) = True # as)"
  "50 \<le> dc_rx_cache_size sample_link_config" "dc_upper_layer sample_link_config"
  "dl_auth_required sample_link \<Longrightarrow> provider_ok (dl_auth_provider sample_link)"
  "dc_auth_required sample_link_config = dl_auth_required sample_link"
  "dc_auth_key_id sample_link_config = dl_auth_key_id sample_link"
  "dc_auth_provider sample_link_config = dl_auth_provider sample_link"
  "dc_rx_cache sample_link_config = Some (replicate 64 0)" "dc_rx_cache_size sample_link_config \<le> length (replicate 64 (0 :: u8))"
  using sample_link_settings sample_link_ok(2) by (simp_all add: sample_link_config_def dl_settings_def)

lemma datalink_init_unused:
  "xgl_datalink_init config = Inr ctx \<Longrightarrow> i < 16 \<Longrightarrow> \<not> dl_replay_window_used ctx ! i"
  by (auto simp: xgl_datalink_init_def split: option.splits if_splits sum.splits)

lemma roundtrip_through_link:
  assumes f: "link_frame_ok f exts"
    and k: "k = xgl_frame_serialized_size (fr_payload_len f) (fr_extensions_len f) (link_tag_len S)" "k \<le> 2048"
    and alloc: "k \<le> 512 \<or> (\<exists>as. allocs = True # as)"
    and S: "dl_auth_required S \<Longrightarrow> provider_ok (dl_auth_provider S)"
    and R: "xgl_datalink_init (Some config) = Inr R" "dc_rx_cache config = Some cache" "dc_rx_cache_size config \<le> length cache"
      "k \<le> dc_rx_cache_size config" "dc_upper_layer config" "dc_auth_required config = dl_auth_required S"
      "dc_auth_key_id config = dl_auth_key_id S" "dc_auth_provider config = dl_auth_provider S"
  obtains fr where "fst (xgl_datalink_send S (Some phy) True (Some f) XGL_OK allocs) = XGL_OK"
    "fst (snd (xgl_datalink_send S (Some phy) True (Some f) XGL_OK allocs)) = [Transmit phy fr]" "length fr = k" "frame_carries fr f exts"
    "\<And>c t cs timeout. concat (map fst ((c, t) # cs)) = fr \<Longrightarrow> c \<noteq> [] \<Longrightarrow> timely timeout t ((c, t) # cs) \<Longrightarrow>
       concat (fst (link.run R (polls timeout ((c, t) # cs)))) = [Deliver fr]"
proof -
  note init = datalink_init_parser [OF R(1-3)]
  have set: "dl_settings R = (dl_auth_required S, dl_auth_key_id S, dl_auth_provider S, True)"
    using init R by (simp add: dl_settings_def)
  obtain fr where fr: "fst (xgl_datalink_send S (Some phy) True (Some f) XGL_OK allocs) = XGL_OK"
    "fst (snd (xgl_datalink_send S (Some phy) True (Some f) XGL_OK allocs)) = [Transmit phy fr]"
    "frame_valid fr" "length fr = k" "frame_carries fr f exts"
    "\<And>b q. take k b = fr \<Longrightarrow> k \<le> length b \<Longrightarrow>
       \<exists>c. xgl_datalink_process_frame (R \<lparr> dl_parser := q \<rparr>) (Some b) k = (XGL_OK, [Deliver fr], c)"
    using send_then_process [OF f k alloc S set datalink_init_bank [OF R(1)] datalink_init_unused [OF R(1)]] by blast
  have "concat (fst (link.run R (polls timeout ((c, t) # cs)))) = [Deliver fr]"
    if c: "concat (map fst ((c, t) # cs)) = fr" "c \<noteq> []" "timely timeout t ((c, t) # cs)" for c t cs timeout
  proof -
    have "\<exists>q. parser_bounds q \<and> take (length fr) (ps_cache q) = fr \<and> length fr \<le> length (ps_cache q)
      \<and> ps_cache_size q = ps_cache_size (dl_parser R)
      \<and> (case xgl_datalink_process_frame (R \<lparr> dl_parser := q \<rparr>) (Some (ps_cache q)) (length fr) of
         (_, out, d) \<Rightarrow> concat (fst (link.run R (polls timeout ((c, t) # cs)))) = out
           \<and> snd (link.run R (polls timeout ((c, t) # cs))) = d \<lparr> dl_parser := xgl_parser_reset q \<rparr>)"
      using polls_valid_frame [OF init(1), of "(c, t) # cs" timeout t, unfolded c(1) append_Nil] fr(3,4) R(4) init(2) c by auto
    then obtain q where q: "take k (ps_cache q) = fr" "k \<le> length (ps_cache q)"
      "case xgl_datalink_process_frame (R \<lparr> dl_parser := q \<rparr>) (Some (ps_cache q)) k of
         (_, out, d) \<Rightarrow> concat (fst (link.run R (polls timeout ((c, t) # cs)))) = out
           \<and> snd (link.run R (polls timeout ((c, t) # cs))) = d \<lparr> dl_parser := xgl_parser_reset q \<rparr>"
      unfolding fr(4) by (elim exE conjE) (rule that; assumption)
    obtain d where "xgl_datalink_process_frame (R \<lparr> dl_parser := q \<rparr>) (Some (ps_cache q)) k = (XGL_OK, [Deliver fr], d)"
      using fr(6) [OF q(1,2)] by blast
    with q(3) show ?thesis by (simp only: prod.case)
  qed
  then show thesis using fr(1,2,4,5) by (intro that)
qed



text \<open>
  C7: a link that requires authentication delivers nothing else. Whatever bytes arrive, in whatever chunks and
  whatever the interface returns, every frame handed to the network layer has a correct header checksum and frame
  CRC, the length its header and tag announce (at most 2048 bytes), carries the AUTHENTICATED flag, and
  its trailer verifies under the key the link was configured with.
\<close>

theorem link_delivers_only_authentic:
  assumes "xgl_datalink_init (Some config) = Inr ctx" "dc_rx_cache config = Some cache" "dc_rx_cache_size config \<le> length cache"
    and "dc_auth_required config"
    and "Deliver fr \<in> set (concat (fst (link.run ctx es)))"
  shows "authentic_frame (dc_auth_key_id config) (dc_auth_provider config) fr"
proof -
  note init = datalink_init_parser [OF assms(1-3)]
  have "parser_bounds (dl_parser ctx)" using init(1) by (simp add: parser_tracks_def)
  from link_run_guarantee [OF this, of es] show ?thesis
    using assms(4,5) init(3-5) unfolding link_guarantee_def by (auto simp only: simp_thms set_deliveries)
qed

theorem link_delivers_only_authentic_witness:
  "\<exists>fr. Deliver fr \<in> set (concat (fst (link.run sample_link (polls 100 [(fr, 7)])))) \<and> authentic_frame 5 (Some demo_provider) fr"
proof (rule roundtrip_through_link [OF sample_link_ok(1) sample_link_ok(3) [symmetric] sample_link_facts(1,2,5) sample_link_init
      sample_link_facts(9,10,3,4,6-8), of 0])
  have key: "dc_auth_key_id sample_link_config = 5" "dc_auth_provider sample_link_config = Some demo_provider"
    "dc_auth_required sample_link_config"
    by (simp_all add: sample_link_config_def)
  fix fr
  assume fr: "length fr = 50" and run: "\<And>c t cs timeout. concat (map fst ((c, t) # cs)) = fr \<Longrightarrow> c \<noteq> [] \<Longrightarrow>
      timely timeout t ((c, t) # cs) \<Longrightarrow> concat (fst (link.run sample_link (polls timeout ((c, t) # cs)))) = [Deliver fr]"
  have "concat (fst (link.run sample_link (polls 100 [(fr, 7)]))) = [Deliver fr]"
    by (rule run) (use fr in \<open>auto simp: timely_def\<close>)
  then have d: "Deliver fr \<in> set (concat (fst (link.run sample_link (polls 100 [(fr, 7)]))))" by (simp only: list.set insertI1)
  from d link_delivers_only_authentic [OF sample_link_init sample_link_facts(9,10) key(3) d, unfolded key(1,2)] show ?thesis
    by blast
qed



end
