(* ===== verification/Xgl_Network.thy ===== *)
theory Xgl_Network
  imports Xgl_Datalink Xgl_Route
begin

text \<open>
  The network layer, \<^verbatim>\<open>src/network/xgl_network*.c\<close>: packets of the transport become frames for the data link, received
  frames are decoded and either handed up or forwarded to the next hop with a smaller time-to-live. The layers around
  it are outside: what a call into the layer below or above returns is an argument, and the calls
  themselves are outputs, in order.
\<close>

section \<open>The code\<close>

abbreviation (input) "XGL_PROTOCOL_VERSION \<equiv> (2 :: u8)"
abbreviation (input) "XGL_BROADCAST_ID \<equiv> (0xFFFF :: u16)"
abbreviation (input) "XGL_DEFAULT_TTL \<equiv> (8 :: u8)"
abbreviation (input) "XGL_NETWORK_FORWARD_STACK_BUFFER_SIZE \<equiv> (512 :: nat)"

text \<open>Packets: what the layers hand to each other. A NULL data pointer is \<open>None\<close>.\<close>

record xgl_packet_data =
  pd_data :: "bytes option"
  pd_data_len :: nat

record xgl_packet =
  pk_source_id :: u16
  pk_target_id :: u16
  pk_session_id :: u16
  pk_connection_id :: u32
  pk_packet_number :: u32
  pk_session_epoch :: u32
  pk_version :: u8
  pk_packet_type :: u8
  pk_flags :: u8
  pk_data_type :: u8
  pk_reliable :: u8
  pk_fragment :: u8
  pk_encrypt :: u8
  pk_priority :: u8
  pk_ttl :: u8
  pk_traffic_class :: u8
  pk_compress :: u8
  pk_data :: "xgl_packet_data option"
  pk_extensions :: "bytes option"
  pk_extensions_len :: nat
  pk_phy :: "nat option"

datatype network_output =
    ToTransport xgl_packet                \<comment> \<open>\<^verbatim>\<open>upper_layer->receive\<close>\<close>
  | ToLink xgl_frame "nat option"         \<comment> \<open>\<^verbatim>\<open>lower_layer->send\<close> with the frame and its egress\<close>
  | Forward nat bytes                     \<comment> \<open>\<^verbatim>\<open>route->phy->tx\<close>\<close>
  | NetReport xgl_error                   \<comment> \<open>\<^verbatim>\<open>error_callback\<close>\<close>

record xgl_network_ctx =
  nw_local_id :: u16
  nw_route_table :: xgl_route_table
  nw_upper_layer :: bool
  nw_lower_layer :: bool
  nw_error_callback :: bool
  nw_stats :: "xgl_layer_stats option"
  nw_auth_required :: bool
  nw_auth_key_id :: u32
  nw_auth_provider :: "xgl_auth_provider option"

record xgl_network_config =
  nc_local_id :: u16
  nc_route_table :: "xgl_route_table option"
  nc_upper_layer :: bool
  nc_lower_layer :: bool
  nc_error_callback :: bool
  nc_stats :: "xgl_layer_stats option"
  nc_auth_required :: bool
  nc_auth_key_id :: u32
  nc_auth_provider :: "xgl_auth_provider option"

definition xgl_network_init :: "xgl_network_config option \<Rightarrow> xgl_error + xgl_network_ctx" where
  "xgl_network_init config =
     (case config of
        None \<Rightarrow> Inl XGL_ERR_NULL_POINTER
      | Some c \<Rightarrow>
          (case nc_route_table c of
             None \<Rightarrow> Inl XGL_ERR_INVALID_PARAM
           | Some table \<Rightarrow>
               Inr \<lparr> nw_local_id = nc_local_id c, nw_route_table = table, nw_upper_layer = nc_upper_layer c,
                     nw_lower_layer = nc_lower_layer c, nw_error_callback = nc_error_callback c, nw_stats = nc_stats c,
                     nw_auth_required = nc_auth_required c, nw_auth_key_id = nc_auth_key_id c,
                     nw_auth_provider = nc_auth_provider c \<rparr>))"

definition xgl_network_validate_address :: "u16 \<Rightarrow> u16 \<Rightarrow> bool" where
  "xgl_network_validate_address target_id source_id \<longleftrightarrow>
     source_id \<noteq> XGL_BROADCAST_ID \<and> source_id \<noteq> 0 \<and> \<not> (source_id = target_id \<and> target_id \<noteq> XGL_BROADCAST_ID)"

definition xgl_network_is_local :: "xgl_network_ctx \<Rightarrow> u16 \<Rightarrow> bool" where
  "xgl_network_is_local ctx target_id \<longleftrightarrow> target_id = nw_local_id ctx \<or> target_id = XGL_BROADCAST_ID"

definition nw_count :: "(xgl_layer_stats \<Rightarrow> xgl_layer_stats) \<Rightarrow> xgl_network_ctx \<Rightarrow> xgl_network_ctx" where
  "nw_count f ctx = ctx \<lparr> nw_stats := map_option f (nw_stats ctx) \<rparr>"

definition nw_report :: "xgl_network_ctx \<Rightarrow> xgl_error \<Rightarrow> network_output list" where
  "nw_report ctx err = (if nw_error_callback ctx then [NetReport err] else [])"

definition xgl_network_report_error ::
  "xgl_network_ctx \<Rightarrow> xgl_error \<Rightarrow> network_output list \<times> xgl_network_ctx" where
  "xgl_network_report_error ctx err = (nw_report ctx err, nw_count count_tx_error ctx)"

text \<open>A route is read through the pointer that the lookup returns.\<close>

definition network_route :: "xgl_network_ctx \<Rightarrow> u16 \<Rightarrow> xgl_route_item option" where
  "network_route ctx target_id = route_map (nw_route_table ctx) target_id"

subsection \<open>Metadata of a received frame\<close>

record xgl_network_ext_metadata =
  em_data_type :: u8
  em_data_type_found :: bool
  em_session_epoch :: u32
  em_session_epoch_found :: bool

definition zero_ext_metadata :: xgl_network_ext_metadata where
  "zero_ext_metadata = \<lparr> em_data_type = 0, em_data_type_found = False, em_session_epoch = 0, em_session_epoch_found = False \<rparr>"

text \<open>The body of the loop over the extensions; \<open>Inl\<close> is an early return.\<close>

definition network_ext_body ::
  "xgl_wire_ext \<Rightarrow> xgl_network_ext_metadata \<Rightarrow> xgl_error + xgl_network_ext_metadata" where
  "network_ext_body ext metadata =
     (if ext_type ext = XGL_WIRE_EXT_DATA_TYPE
      then if em_data_type_found metadata \<or> ext_len ext \<noteq> 1 then Inl XGL_ERR_INVALID_FRAME
           else Inr (metadata \<lparr> em_data_type := ext_value ext ! 0, em_data_type_found := True \<rparr>)
      else if ext_type ext = XGL_WIRE_EXT_SESSION
      then if em_session_epoch_found metadata then Inl XGL_ERR_INVALID_FRAME
           else (case xgl_wire_decode_session_ext_value (Some (ext_value ext)) (ext_len ext) of
                   Inl err \<Rightarrow> Inl err
                 | Inr (session_epoch, incarnation_id) \<Rightarrow>
                     Inr (metadata \<lparr> em_session_epoch := session_epoch, em_session_epoch_found := True \<rparr>))
      else Inr metadata)"

definition xgl_network_decode_ext_metadata ::
  "bytes option \<Rightarrow> nat \<Rightarrow> xgl_error + xgl_network_ext_metadata" where
  "xgl_network_decode_ext_metadata extensions extensions_len =
     (if extensions = None \<or> extensions_len = 0 then Inr zero_ext_metadata
      else case xgl_wire_ext_cursor_init extensions extensions_len of
             Inl err \<Rightarrow> Inl err
           | Inr cursor \<Rightarrow>
               (case ext_while network_ext_body cursor zero_ext_metadata of
                  Inl err \<Rightarrow> Inl err
                | Inr (err, metadata) \<Rightarrow> if err = XGL_ERR_NOT_FOUND then Inr metadata else Inl err))"

record xgl_network_frame_metadata =
  nm_header :: xgl_wire_header
  nm_data_type :: u8
  nm_session_epoch :: u32
  nm_extensions :: "bytes option"
  nm_extensions_len :: nat
  nm_payload :: bytes
  nm_payload_len :: nat
  nm_reliable :: u8
  nm_fragment :: u8
  nm_priority :: u8

definition xgl_network_decode_frame_metadata ::
  "bytes option \<Rightarrow> nat \<Rightarrow> xgl_error + xgl_network_frame_metadata" where
  "xgl_network_decode_frame_metadata frame_ptr frame_len =
     (case frame_ptr of
        None \<Rightarrow> Inl XGL_ERR_NULL_POINTER
      | Some frame_buf \<Rightarrow>
          if frame_len < XGL_FRAME_HEADER_SIZE + XGL_CRC16_SIZE then Inl XGL_ERR_INVALID_FRAME
          else
            case xgl_wire_decode_header (Some frame_buf) frame_len of
              Inl _ \<Rightarrow> Inl XGL_ERR_INVALID_FRAME
            | Inr header \<Rightarrow>
                let has_ext = unat (wh_header_len header) > XGL_WIRE_BASE_HEADER_SIZE;
                    extensions = (if has_ext then Some (drop XGL_WIRE_BASE_HEADER_SIZE frame_buf) else None);
                    extensions_len = (if has_ext then unat (wh_header_len header) - XGL_WIRE_BASE_HEADER_SIZE else 0)
                in (case xgl_network_decode_ext_metadata extensions extensions_len of
                      Inl err \<Rightarrow> Inl err
                    | Inr ext_metadata \<Rightarrow>
                        let payload_len = unat (wh_payload_len header)
                        in if frame_len < unat (wh_header_len header) + payload_len + XGL_CRC16_SIZE
                           then Inl XGL_ERR_INVALID_FRAME
                           else
                             let traffic_reliability = wh_traffic_class header AND XGL_RELIABILITY_CLASS_MASK
                             in Inr \<lparr> nm_header = header, nm_data_type = em_data_type ext_metadata,
                                      nm_session_epoch = em_session_epoch ext_metadata, nm_extensions = extensions,
                                      nm_extensions_len = extensions_len,
                                      nm_payload = drop (unat (wh_header_len header)) frame_buf,
                                      nm_payload_len = payload_len,
                                      nm_reliable =
                                        (if traffic_reliability = XGL_RELIABILITY_ACK_ELICITING \<or>
                                            wh_flags header AND XGL_WIRE_FLAG_ACK_ELICITING \<noteq> 0
                                         then XGL_RELIABILITY_ACK_ELICITING
                                         else if traffic_reliability = XGL_RELIABILITY_ACK_ONLY \<or>
                                                 wh_packet_type header = XGL_PACKET_TYPE_ACK
                                         then XGL_RELIABILITY_ACK_ONLY else 0),
                                      nm_fragment = (if wh_flags header AND XGL_WIRE_FLAG_FRAGMENTED \<noteq> 0 then 1 else 0),
                                      nm_priority = wh_traffic_class header AND XGL_TRAFFIC_PRIORITY_MASK \<rparr>))"

subsection \<open>Receiving\<close>

definition network_rx_packet :: "xgl_network_frame_metadata \<Rightarrow> xgl_packet" where
  "network_rx_packet metadata =
     (let header = nm_header metadata
      in \<lparr> pk_source_id = wh_source_id header, pk_target_id = wh_target_id header,
           pk_session_id = ucast (wh_connection_id header AND 0xFFFF), pk_connection_id = wh_connection_id header,
           pk_packet_number = wh_packet_number header, pk_session_epoch = nm_session_epoch metadata, pk_version = 0,
           pk_packet_type = wh_packet_type header, pk_flags = wh_flags header, pk_data_type = nm_data_type metadata,
           pk_reliable = nm_reliable metadata, pk_fragment = nm_fragment metadata, pk_encrypt = 0,
           pk_priority = nm_priority metadata, pk_ttl = wh_ttl header, pk_traffic_class = wh_traffic_class header,
           pk_compress = 0,
           pk_data = Some \<lparr> pd_data = Some (nm_payload metadata), pd_data_len = nm_payload_len metadata \<rparr>,
           pk_extensions = nm_extensions metadata, pk_extensions_len = nm_extensions_len metadata, pk_phy = None \<rparr>)"

text \<open>\<open>up\<close> is what \<^verbatim>\<open>upper_layer->receive\<close> returns.\<close>

definition network_deliver_local ::
  "xgl_network_ctx \<Rightarrow> xgl_network_frame_metadata \<Rightarrow> xgl_error \<Rightarrow> xgl_error \<times> network_output list \<times> xgl_network_ctx" where
  "network_deliver_local ctx metadata up =
     (let ctx = nw_count (count_rx_frame (nm_payload_len metadata)) ctx
      in if \<not> nw_upper_layer ctx then (XGL_OK, [], ctx)
         else (up, [ToTransport (network_rx_packet metadata)], ctx))"

definition network_lookup_forward_route ::
  "xgl_network_ctx \<Rightarrow> u16 \<Rightarrow> xgl_route_item option \<times> network_output list \<times> xgl_network_ctx" where
  "network_lookup_forward_route ctx target_id =
     (case network_route ctx target_id of
        Some route \<Rightarrow> (Some route, [], ctx)
      | None \<Rightarrow> (None, nw_report ctx XGL_ERR_ROUTE_NOT_FOUND, nw_count count_rx_dropped ctx))"

definition network_validate_forward_ttl ::
  "xgl_network_ctx \<Rightarrow> u8 \<Rightarrow> xgl_error \<times> network_output list \<times> xgl_network_ctx" where
  "network_validate_forward_ttl ctx ttl =
     (if ttl > 1 then (XGL_OK, [], ctx)
      else (XGL_ERR_TTL_EXPIRED, nw_report ctx XGL_ERR_TTL_EXPIRED, nw_count count_rx_dropped ctx))"

definition network_validate_forward_size ::
  "xgl_network_ctx \<Rightarrow> xgl_route_item \<Rightarrow> nat \<Rightarrow> xgl_error \<times> xgl_network_ctx" where
  "network_validate_forward_size ctx route frame_len =
     (if frame_len > XGL_DATALINK_MAX_FRAME_SIZE \<or> frame_len > unat (ri_max_frame_size route)
      then (XGL_ERR_BUFFER_TOO_SMALL, nw_count count_rx_dropped ctx) else (XGL_OK, ctx))"

definition network_rewrite_forward_frame ::
  "xgl_network_ctx \<Rightarrow> bytes \<Rightarrow> nat \<Rightarrow> xgl_wire_header \<Rightarrow> bytes \<Rightarrow> (xgl_error \<times> xgl_network_ctx) + bytes" where
  "network_rewrite_forward_frame ctx frame_buf frame_len incoming_header forward_buf =
     (let forward_buf = mem_write forward_buf 0 (take frame_len frame_buf);
          wire_header = incoming_header \<lparr> wh_ttl := wh_ttl incoming_header - 1 \<rparr>
      in case xgl_wire_encode_header (Some forward_buf) frame_len (Some wire_header) of
           Inl _ \<Rightarrow> Inl (XGL_ERR_INVALID_FRAME, nw_count count_rx_dropped ctx)
         | Inr forward_buf \<Rightarrow>
             let forward_crc = xgl_crc16_modbus (Some forward_buf) (frame_len - XGL_CRC16_SIZE)
             in Inr (put_u16_le forward_buf (frame_len - XGL_CRC16_SIZE) forward_crc))"

text \<open>
  \<open>has_tx phy\<close> says whether the interface has a transmit function, \<open>tx\<close> is what it returns. A copy larger than 512 bytes
  is allocated.
\<close>

definition network_forward_remote ::
  "xgl_network_ctx \<Rightarrow> bytes \<Rightarrow> nat \<Rightarrow> xgl_network_frame_metadata \<Rightarrow> (nat \<Rightarrow> bool) \<Rightarrow> xgl_error \<Rightarrow> bool list
     \<Rightarrow> xgl_error \<times> network_output list \<times> xgl_network_ctx \<times> bool list" where
  "network_forward_remote ctx frame_buf frame_len metadata has_tx tx allocs =
     (case network_lookup_forward_route ctx (wh_target_id (nm_header metadata)) of
        (None, out, ctx) \<Rightarrow> (XGL_ERR_ROUTE_NOT_FOUND, out, ctx, allocs)
      | (Some route, _, ctx) \<Rightarrow>
          (case network_validate_forward_ttl ctx (wh_ttl (nm_header metadata)) of
             (err, out, ctx) \<Rightarrow>
               if err \<noteq> XGL_OK then (err, out, ctx, allocs)
               else
                 let ctx = nw_count (count_tx_frame (nm_payload_len metadata)) ctx
                 in (case network_validate_forward_size ctx route frame_len of
                       (err, ctx) \<Rightarrow>
                         if err \<noteq> XGL_OK then (err, [], ctx, allocs)
                         else
                           let use_heap = (frame_len > XGL_NETWORK_FORWARD_STACK_BUFFER_SIZE);
                               (got, allocs) = (if use_heap then take_alloc allocs else (True, allocs));
                               forward_buf = replicate (if use_heap then frame_len else XGL_NETWORK_FORWARD_STACK_BUFFER_SIZE) 0
                           in if \<not> got
                              then (XGL_ERR_NO_MEMORY, [], nw_count (count_tx_error \<circ> count_rx_dropped) ctx, allocs)
                              else
                                (case network_rewrite_forward_frame ctx frame_buf frame_len (nm_header metadata) forward_buf of
                                   Inl (err, ctx) \<Rightarrow> (err, [], ctx, allocs)
                                 | Inr forward_buf \<Rightarrow>
                                     (case ri_phy route of
                                        None \<Rightarrow> (XGL_OK, [], ctx, allocs)
                                      | Some phy \<Rightarrow>
                                          if \<not> has_tx phy then (XGL_OK, [], ctx, allocs)
                                          else if tx \<noteq> XGL_OK
                                          then (XGL_ERR_TX_FAILED, [Forward phy (take frame_len forward_buf)],
                                                nw_count count_tx_error ctx, allocs)
                                          else (XGL_OK, [Forward phy (take frame_len forward_buf)], ctx, allocs))))))"

definition xgl_network_receive ::
  "xgl_network_ctx \<Rightarrow> bytes option \<Rightarrow> nat \<Rightarrow> xgl_error \<Rightarrow> (nat \<Rightarrow> bool) \<Rightarrow> xgl_error \<Rightarrow> bool list
     \<Rightarrow> xgl_error \<times> network_output list \<times> xgl_network_ctx \<times> bool list" where
  "xgl_network_receive ctx frame_ptr frame_len up has_tx tx allocs =
     (case frame_ptr of
        None \<Rightarrow> (XGL_ERR_NULL_POINTER, [], ctx, allocs)
      | Some frame_buf \<Rightarrow>
          (case xgl_network_decode_frame_metadata (Some frame_buf) frame_len of
             Inl err \<Rightarrow> (err, [], nw_count count_rx_error ctx, allocs)
           | Inr metadata \<Rightarrow>
               if \<not> xgl_network_validate_address (wh_target_id (nm_header metadata)) (wh_source_id (nm_header metadata))
               then (XGL_ERR_INVALID_PARAM, [], nw_count count_rx_dropped ctx, allocs)
               else if xgl_network_is_local ctx (wh_target_id (nm_header metadata))
               then (case network_deliver_local ctx metadata up of (err, out, ctx) \<Rightarrow> (err, out, ctx, allocs))
               else network_forward_remote ctx frame_buf frame_len metadata has_tx tx allocs))"

subsection \<open>Sending\<close>

definition network_append_data_type_ext :: "bytes \<Rightarrow> nat \<Rightarrow> nat \<Rightarrow> u8 \<Rightarrow> xgl_error + bytes \<times> nat" where
  "network_append_data_type_ext extensions extensions_capacity extensions_len data_type =
     (if data_type = 0 then Inr (extensions, extensions_len)
      else if extensions_len > extensions_capacity then Inl XGL_ERR_BUFFER_TOO_SMALL
      else case xgl_wire_encode_ext (Some (drop extensions_len extensions)) (extensions_capacity - extensions_len)
                  XGL_WIRE_EXT_DATA_TYPE (Some [data_type]) 1 of
             Inl err \<Rightarrow> Inl err
           | Inr (written, bytes_written) \<Rightarrow>
               Inr (take extensions_len extensions @ written, extensions_len + bytes_written))"

definition network_copy_packet_extensions :: "bytes \<Rightarrow> nat \<Rightarrow> xgl_packet \<Rightarrow> xgl_error + bytes \<times> nat" where
  "network_copy_packet_extensions extensions extensions_capacity packet =
     (let copies = (pk_extensions packet \<noteq> None \<and> pk_extensions_len packet > 0)
      in if copies \<and> pk_extensions_len packet > extensions_capacity then Inl XGL_ERR_BUFFER_TOO_SMALL
         else
           let extensions = (if copies
                             then mem_write extensions 0 (take (pk_extensions_len packet) (the (pk_extensions packet)))
                             else extensions);
               extensions_len = (if copies then pk_extensions_len packet else 0)
           in case xgl_network_decode_ext_metadata (Some extensions) extensions_len of
                Inl err \<Rightarrow> Inl err
              | Inr metadata \<Rightarrow>
                  if em_data_type_found metadata
                  then if pk_data_type packet \<noteq> 0 \<and> pk_data_type packet \<noteq> em_data_type metadata
                       then Inl XGL_ERR_INVALID_PARAM else Inr (extensions, extensions_len)
                  else network_append_data_type_ext extensions extensions_capacity extensions_len (pk_data_type packet))"

definition network_reliability_class :: "xgl_packet \<Rightarrow> u8" where
  "network_reliability_class packet =
     (if pk_reliable packet = XGL_RELIABILITY_ACK_ONLY then XGL_RELIABILITY_ACK_ONLY
      else if pk_reliable packet \<noteq> 0 then XGL_RELIABILITY_ACK_ELICITING else XGL_RELIABILITY_NONE)"

definition network_tx_params :: "xgl_packet \<Rightarrow> xgl_packet_data \<Rightarrow> bytes \<Rightarrow> nat \<Rightarrow> xgl_frame_params" where
  "network_tx_params packet data extensions extensions_len =
     \<lparr> fp_source_id = pk_source_id packet, fp_target_id = pk_target_id packet, fp_data_type = pk_data_type packet,
       fp_packet_type = pk_packet_type packet, fp_flags = pk_flags packet, fp_traffic_class = pk_traffic_class packet,
       fp_connection_id = pk_connection_id packet, fp_packet_number = pk_packet_number packet,
       fp_session_epoch = pk_session_epoch packet,
       fp_extensions = (if extensions_len > 0 then Some extensions else None), fp_extensions_len = extensions_len,
       fp_payload = pd_data data, fp_payload_len = pd_data_len data, fp_reliable = (pk_reliable packet \<noteq> 0),
       fp_reliability_class = network_reliability_class packet, fp_fragment = (pk_fragment packet \<noteq> 0),
       fp_priority = pk_priority packet, fp_session_id = pk_session_id packet, fp_ttl = XGL_DEFAULT_TTL \<rparr>"

definition network_build_tx_frame ::
  "xgl_packet \<Rightarrow> xgl_packet_data \<Rightarrow> bytes \<Rightarrow> nat \<Rightarrow> xgl_error + xgl_frame" where
  "network_build_tx_frame packet data extensions extensions_capacity =
     (case network_copy_packet_extensions extensions extensions_capacity packet of
        Inl err \<Rightarrow> Inl err
      | Inr (extensions, extensions_len) \<Rightarrow>
          xgl_frame_build (Some (network_tx_params packet data extensions extensions_len)))"

definition network_validate_auth_tx_budget ::
  "xgl_network_ctx \<Rightarrow> xgl_frame \<Rightarrow> xgl_route_item \<Rightarrow> xgl_error" where
  "network_validate_auth_tx_budget ctx frame route =
     (case (if \<not> nw_auth_required ctx then Inr 0
            else case nw_auth_provider ctx of
                   None \<Rightarrow> Inl XGL_ERR_INVALID_PARAM
                 | Some p \<Rightarrow>
                     if ap_sign p = None \<or> ap_tag_len p = 0 \<or> ap_tag_len p > XGL_AUTH_TAG_MAX_LEN
                     then Inl XGL_ERR_INVALID_PARAM else Inr (ap_tag_len p)) of
        Inl err \<Rightarrow> err
      | Inr auth_tag_len \<Rightarrow>
          if xgl_frame_serialized_size (fr_payload_len frame) (fr_extensions_len frame) auth_tag_len
               > unat (ri_max_frame_size route)
          then XGL_ERR_BUFFER_TOO_SMALL else XGL_OK)"

text \<open>\<open>down\<close> is what \<^verbatim>\<open>lower_layer->send\<close> returns.\<close>

definition network_send_frame_to_lower ::
  "xgl_network_ctx \<Rightarrow> xgl_packet \<Rightarrow> xgl_frame \<Rightarrow> xgl_error \<Rightarrow> xgl_error \<times> network_output list \<times> xgl_network_ctx" where
  "network_send_frame_to_lower ctx packet frame down =
     (if \<not> nw_lower_layer ctx then (XGL_ERR_INVALID_PARAM, [], nw_count count_tx_error ctx)
      else (down, [ToLink frame (pk_phy packet)], if down \<noteq> XGL_OK then nw_count count_tx_error ctx else ctx))"

text \<open>The packet is updated in place; its new value is the last component.\<close>

definition xgl_network_send_with_handle ::
  "xgl_network_ctx \<Rightarrow> xgl_packet option \<Rightarrow> xgl_error
     \<Rightarrow> xgl_error \<times> network_output list \<times> xgl_network_ctx \<times> xgl_packet option" where
  "xgl_network_send_with_handle ctx packet_ptr down =
     (case packet_ptr of
        None \<Rightarrow> (XGL_ERR_NULL_POINTER, [], ctx, None)
      | Some packet \<Rightarrow>
          (case pk_data packet of
             None \<Rightarrow> (XGL_ERR_INVALID_PARAM, [], ctx, Some packet)
           | Some data \<Rightarrow>
               (case network_route ctx (pk_target_id packet) of
                  None \<Rightarrow> (XGL_ERR_ROUTE_NOT_FOUND, nw_report ctx XGL_ERR_ROUTE_NOT_FOUND, nw_count count_tx_error ctx,
                           Some packet)
                | Some route \<Rightarrow>
                    let packet = packet \<lparr> pk_phy := ri_phy route,
                          pk_source_id := (if pk_source_id packet = 0 then nw_local_id ctx else pk_source_id packet),
                          pk_version := XGL_PROTOCOL_VERSION \<rparr>;
                        ctx = nw_count (count_tx_frame (pd_data_len data)) ctx
                    in (case network_build_tx_frame packet data (replicate 231 0) 231 of
                          Inl err \<Rightarrow> (err, [], nw_count count_tx_error ctx, Some packet)
                        | Inr frame \<Rightarrow>
                            let err = network_validate_auth_tx_budget ctx frame route
                            in if err \<noteq> XGL_OK then (err, [], nw_count count_tx_error ctx, Some packet)
                               else (case network_send_frame_to_lower ctx packet frame down of
                                       (err, out, ctx) \<Rightarrow> (err, out, ctx, Some packet))))))"

definition xgl_network_send ::
  "xgl_network_ctx \<Rightarrow> xgl_packet option \<Rightarrow> xgl_error
     \<Rightarrow> xgl_error \<times> network_output list \<times> xgl_network_ctx \<times> xgl_packet option" where
  "xgl_network_send ctx packet down = xgl_network_send_with_handle ctx packet down"

text \<open>The entry points handed to the neighbouring layers.\<close>

definition network_send_impl ::
  "xgl_network_ctx \<Rightarrow> xgl_packet option \<Rightarrow> xgl_error
     \<Rightarrow> xgl_error \<times> network_output list \<times> xgl_network_ctx \<times> xgl_packet option" where
  "network_send_impl ctx packet down = xgl_network_send_with_handle ctx packet down"

definition network_receive_impl ::
  "xgl_network_ctx \<Rightarrow> (bytes option \<times> nat) option \<Rightarrow> xgl_error \<Rightarrow> (nat \<Rightarrow> bool) \<Rightarrow> xgl_error \<Rightarrow> bool list
     \<Rightarrow> xgl_error \<times> network_output list \<times> xgl_network_ctx \<times> bool list" where
  "network_receive_impl ctx data up has_tx tx allocs =
     (case data of
        None \<Rightarrow> (XGL_ERR_NULL_POINTER, [], ctx, allocs)
      | Some (frame_buf, frame_len) \<Rightarrow> xgl_network_receive ctx frame_buf frame_len up has_tx tx allocs)"

definition network_report_error_impl :: "xgl_network_ctx \<Rightarrow> xgl_error option \<Rightarrow> xgl_error \<times> network_output list" where
  "network_report_error_impl ctx error_info =
     (case error_info of None \<Rightarrow> (XGL_ERR_NULL_POINTER, []) | Some err \<Rightarrow> (XGL_OK, nw_report ctx err))"

section \<open>What forwarding does to a frame\<close>

text \<open>
  The specification of a hop, on the bytes: the time-to-live is one less, the header checksum and the frame CRC are
  those of the new bytes, everything else is as it was.
\<close>

definition hop_prefix :: "bytes \<Rightarrow> bytes" where
  "hop_prefix fr = (take 22 fr)[6 := fr ! 6 - 1]"

definition hop :: "bytes \<Rightarrow> bytes" where
  "hop fr = sealed (hop_prefix fr @ le16 (xgl_crc16_modbus (Some (hop_prefix fr @ [0, 0])) 24) @ mem_read fr 24 (length fr - 26))"

lemma le16_get: "le16 (get_u16_le b i) = [b ! i, b ! (i + 1)]"
  by (simp add: le16_def get_u16_le_def) (intro conjI bit_word_eqI; auto simp: bit_simps dest: bit_imp_le_length)

lemma le32_get: "le32 (get_u32_le b i) = [b ! i, b ! (i + 1), b ! (i + 2), b ! (i + 3)]"
  by (simp add: le32_def get_u32_le_def) (intro conjI bit_word_eqI; auto simp: bit_simps dest: bit_imp_le_length)

lemma take_22_nth:
  "24 \<le> length b \<Longrightarrow> take 22 b = map ((!) b) [0, 1, 2, 3, 4, 5, 6, 7, 8, 9, 10, 11, 12, 13, 14, 15, 16, 17, 18, 19, 20, 21]"
  by (rule nth_equalityI) (auto simp: less_Suc_eq numeral_eq_Suc)

lemma decoded_prefix:
  assumes "xgl_wire_decode_header (Some b) n = Inr h" "24 \<le> length b"
  shows "wire_header_prefix (h \<lparr> wh_ttl := x \<rparr>) = (take 22 b)[6 := x]"
  using wire_decode_header_OkD(2,3,5) [OF assms(1)] unfolding take_22_nth [OF assms(2)]
  by (simp add: wire_header_prefix_def wire_header_load_def le16_get le32_get)

lemma length_hop_prefix [simp]: "24 \<le> length fr \<Longrightarrow> length (hop_prefix fr) = 22"
  by (simp add: hop_prefix_def)

lemma length_hop [simp]: "26 \<le> length fr \<Longrightarrow> length (hop fr) = length fr"
  by (simp add: hop_def)

lemma hop_image:
  assumes "xgl_wire_decode_header (Some fr) n = Inr h" "26 \<le> length fr"
  shows "hop fr = sealed (wire_header_image (h \<lparr> wh_ttl := wh_ttl h - 1 \<rparr>) @ mem_read fr 24 (length fr - 26))"
proof -
  have "wh_ttl h = fr ! 6" using wire_decode_header_OkD(5) [OF assms(1)] by (simp add: wire_header_load_def)
  then show ?thesis
    using decoded_prefix [OF assms(1), of "wh_ttl h - 1"] assms(2) by (simp add: hop_def hop_prefix_def wire_header_image_def)
qed

lemma rewrite_forward_frame:
  assumes h: "xgl_wire_decode_header (Some b) n = Inr h" "26 \<le> n" "n \<le> length b" "n \<le> length buf"
  shows "network_rewrite_forward_frame ctx b n h buf = Inr (hop (take n b) @ drop n buf)"
proof -
  let ?h = "h \<lparr> wh_ttl := wh_ttl h - 1 \<rparr>" and ?mid = "mem_read (take n b) 24 (n - 26)"
  have dec: "xgl_wire_decode_header (Some (take n b)) n = Inr h"
    using h xgl_wire_decode_header_take [of n b] by (simp add: xgl_wire_decode_header_size [of n])
  have valid: "wire_header_fields_valid ?h"
    using wire_decode_header_OkD(6) [OF h(1)] by (simp add: wire_header_fields_valid_def)
  have copy: "mem_write buf 0 (take n b) = take n b @ drop n buf" using h by (simp add: mem_write_def)
  have "drop 24 (take n b) = ?mid @ drop (n - 2) (take n b)"
    using h(2,3) append_take_drop_id [of "n - 26" "drop 24 (take n b)"] by (simp add: mem_read_def)
  then have enc: "xgl_wire_encode_header (Some (take n b @ drop n buf)) n (Some ?h) =
      Inr ((wire_header_image ?h @ ?mid) @ drop (n - 2) (take n b) @ drop n buf)"
    using h(2,3) valid by (simp add: xgl_wire_encode_header_def wire_header_store_image)
  have len: "n - 2 = length (wire_header_image ?h @ ?mid)" "2 \<le> length (drop (n - 2) (take n b) @ drop n buf)"
    "drop 2 (drop (n - 2) (take n b) @ drop n buf) = drop n buf"
    using h(2,3) by simp_all
  have hop: "hop (take n b) = sealed (wire_header_image ?h @ ?mid)"
    using hop_image [OF dec] h(2,3) by (simp add: min_def)
  show ?thesis
    unfolding network_rewrite_forward_frame_def Let_def copy enc sum.case hop
    using seal_in_place [OF len(1,2)] len(3) by (simp only:)
qed

lemma hop_header:
  assumes "xgl_wire_decode_header (Some fr) n = Inr h" "26 \<le> length fr" "24 \<le> m"
  shows "\<exists>c. xgl_wire_decode_header (Some (hop fr)) m = Inr (h \<lparr> wh_ttl := wh_ttl h - 1, wh_header_crc16 := c \<rparr>)"
proof -
  let ?h = "h \<lparr> wh_ttl := wh_ttl h - 1 \<rparr>"
  have "wire_header_fields_valid ?h"
    using wire_decode_header_OkD(6) [OF assms(1)] by (simp add: wire_header_fields_valid_def)
  from wire_decode_image [OF this assms(3)] show ?thesis
    using hop_image [OF assms(1,2)] by (simp add: sealed_def) blast
qed

lemma hop_crc:
  assumes "26 \<le> length fr"
  shows "xgl_crc16_modbus (Some (hop fr)) (length fr - 2) = get_u16_le (hop fr) (length fr - 2)"
proof -
  let ?d = "hop_prefix fr @ le16 (xgl_crc16_modbus (Some (hop_prefix fr @ [0, 0])) 24) @ mem_read fr 24 (length fr - 26)"
  let ?c = "xgl_crc16_modbus (Some ?d) (length ?d)"
  have d: "length ?d = length fr - 2" using assms by simp
  have "hop fr = ?d @ le16 ?c" by (simp only: hop_def sealed_def)
  then show ?thesis
    using u16_codec.get_append [of ?d "length ?d" ?c "[]"] crc16_prefix [of "length fr - 2" ?d "le16 ?c"] d by simp
qed

text \<open>The bytes behind the header, and the fields that authentication covers.\<close>

lemma hop_drop_24:
  assumes "26 \<le> length fr" "k + m \<le> length fr - 2" "24 \<le> k"
  shows "mem_read (hop fr) k m = mem_read fr k m"
proof (rule nth_equalityI)
  have d: "hop fr ! i = fr ! i" if i: "24 \<le> i" "i < length fr - 2" for i
  proof -
    have "i - 24 < length fr - 26" "\<not> i - 22 < 2" using i assms(1) by arith+
    then show ?thesis using i assms(1) by (simp add: hop_def sealed_def nth_append mem_simps)
  qed
  show "mem_read (hop fr) k m ! i = mem_read fr k m ! i" if "i < length (mem_read (hop fr) k m)" for i
    using that assms d by (simp add: mem_simps)
qed (use assms in simp)

lemma hop_prefix_nth:
  assumes "26 \<le> length fr" "i < 22" "i \<noteq> 6"
  shows "hop fr ! i = fr ! i"
  using assms by (simp add: hop_def sealed_def nth_append hop_prefix_def)

lemma hop_canonical_aad:
  assumes "26 \<le> length fr" "n \<le> length fr - 2" "24 \<le> n" "wire_auth_aad_has_frame_header fr n"
  shows "wire_auth_canonical_aad (hop fr) n m = wire_auth_canonical_aad fr n m"
proof -
  have hd: "wire_auth_aad_has_frame_header (hop fr) n"
    using assms hop_prefix_nth [of fr 0] hop_prefix_nth [of fr 1] by (simp add: wire_auth_aad_has_frame_header_def)
  have "(take n (hop fr))[6 := 0, 22 := 0, 23 := 0] = (take n fr)[6 := 0, 22 := 0, 23 := 0]"
  proof (rule nth_equalityI)
    fix i
    assume "i < length ((take n (hop fr))[6 := 0, 22 := 0, 23 := 0])"
    then have i: "i < n" using assms by simp
    have "hop fr ! i = fr ! i" if "i \<noteq> 6" "i \<noteq> 22" "i \<noteq> 23"
    proof (cases "i < 22")
      case True
      then show ?thesis using hop_prefix_nth [OF assms(1)] that by blast
    next
      case False
      then have "24 \<le> i" using that by simp
      then show ?thesis
        using hop_drop_24 [OF assms(1), of i 1] i assms nth_mem_read [of i 1 "hop fr" 0] nth_mem_read [of i 1 fr 0] by simp
    qed
    then show "(take n (hop fr))[6 := 0, 22 := 0, 23 := 0] ! i = (take n fr)[6 := 0, 22 := 0, 23 := 0] ! i"
      using i assms by (simp add: nth_list_update)
  qed (use assms in simp)
  then show ?thesis using hd assms(4) by (simp add: wire_auth_canonical_aad_def)
qed

text \<open>A hop keeps a frame valid, sound and authentic.\<close>

lemma ext_while_mem_read:
  assumes "mem_read b off m = mem_read c off m" "off + m \<le> length b" "off + m \<le> length c"
  shows "ext_while body \<lparr> cur_buffer = drop off b, cur_len = m, cur_offset = 0 \<rparr> s =
         ext_while body \<lparr> cur_buffer = drop off c, cur_len = m, cur_offset = 0 \<rparr> s"
  using ext_while_take [of m "drop off b" body 0 s] ext_while_take [of m "drop off c" body 0 s] assms
  by (simp add: mem_read_def)

lemma hop_valid:
  assumes "frame_valid fr"
  shows "frame_valid (hop fr)"
  using assms
proof (rule frame_validE)
  fix h tag
  assume h: "xgl_wire_decode_header (Some fr) 24 = Inr h" "header_tag fr h = Some tag" "length fr = announced_len h tag"
  have hl: "24 \<le> unat (wh_header_len h)" by (rule decoded_header_len [OF h(1)])
  then have len: "26 \<le> length fr" "unat (wh_header_len h) + 2 \<le> length fr"
    using h(3) by (simp_all add: announced_len_def)
  obtain c where dec: "xgl_wire_decode_header (Some (hop fr)) 24 = Inr (h \<lparr> wh_ttl := wh_ttl h - 1, wh_header_crc16 := c \<rparr>)"
    using hop_header [OF h(1) len(1)] by blast
  have "mem_read (hop fr) 24 (unat (wh_header_len h) - 24) = mem_read fr 24 (unat (wh_header_len h) - 24)"
    using len hl by (intro hop_drop_24) simp_all
  then have "ext_while parser_ext_body \<lparr> cur_buffer = drop 24 (hop fr), cur_len = unat (wh_header_len h) - 24, cur_offset = 0 \<rparr> 0 =
      ext_while parser_ext_body \<lparr> cur_buffer = drop 24 fr, cur_len = unat (wh_header_len h) - 24, cur_offset = 0 \<rparr> 0"
    using len hl by (intro ext_while_mem_read) simp_all
  moreover have "wh_header_len (h \<lparr> wh_ttl := wh_ttl h - 1, wh_header_crc16 := c \<rparr>) = wh_header_len h"
    "wh_flags (h \<lparr> wh_ttl := wh_ttl h - 1, wh_header_crc16 := c \<rparr>) = wh_flags h" by simp_all
  ultimately have "header_tag (hop fr) (h \<lparr> wh_ttl := wh_ttl h - 1, wh_header_crc16 := c \<rparr>) = header_tag fr h"
    unfolding header_tag_def Let_def by (simp only:)
  then show ?thesis
    using dec h(2,3) hop_crc [OF len(1)] len by (simp add: frame_valid_def announced_len_def del: add_2_eq_Suc')
qed

lemma hop_authentic:
  assumes "authentic_frame key p fr"
  shows "authentic_frame key p (hop fr)"
proof -
  obtain h t where s: "sound_frame fr h t" "t \<noteq> 0" "wh_flags h AND XGL_WIRE_FLAG_AUTHENTICATED \<noteq> 0"
    "xgl_wire_verify_auth_trailer (Some fr) (length fr - 2) (unat (wh_header_len h)) (unat (wh_payload_len h)) key p = (XGL_OK, True)"
    using assms by (auto simp: authentic_frame_def)
  let ?hl = "unat (wh_header_len h)" and ?pl = "unat (wh_payload_len h)"
  have h: "xgl_wire_decode_header (Some fr) (length fr) = Inr h" "length fr = ?hl + ?pl + unat t + 2" "length fr \<le> 2048"
    using s(1) unfolding sound_frame_def announced_len_def by blast+
  have hl: "24 \<le> ?hl" "26 \<le> length fr" using decoded_header_len [OF h(1)] h(2) by simp_all
  obtain c where dec: "xgl_wire_decode_header (Some (hop fr)) (length fr) = Inr (h \<lparr> wh_ttl := wh_ttl h - 1, wh_header_crc16 := c \<rparr>)"
    using hop_header [OF h(1) hl(2)] hl(2) by fastforce
  have "wire_auth_aad_has_frame_header fr ?hl"
    using wire_decode_header_OkD(2,3) [OF h(1)] hl by (simp add: wire_auth_aad_has_frame_header_def)
  then have "wire_auth_canonical_aad (hop fr) ?hl 255 = wire_auth_canonical_aad fr ?hl 255"
    using hl h(2) by (intro hop_canonical_aad) simp_all
  moreover have "mem_read (hop fr) ?hl ?pl = mem_read fr ?hl ?pl"
    "mem_read (hop fr) (?hl + ?pl) (length fr - 2 - (?hl + ?pl)) = mem_read fr (?hl + ?pl) (length fr - 2 - (?hl + ?pl))"
    using hl h(2) by (intro hop_drop_24; simp)+
  ultimately have "xgl_wire_verify_auth_trailer (Some (hop fr)) (length fr - 2) ?hl ?pl key p =
      xgl_wire_verify_auth_trailer (Some fr) (length fr - 2) ?hl ?pl key p"
    unfolding xgl_wire_verify_auth_trailer_def Let_def prod.case option.case by (simp only:)
  moreover have "sound_frame (hop fr) (h \<lparr> wh_ttl := wh_ttl h - 1, wh_header_crc16 := c \<rparr>) t"
    unfolding sound_frame_def announced_len_def length_hop [OF hl(2)] using dec h(2,3) hop_crc [OF hl(2)] by simp
  ultimately show ?thesis
    using s(2-4) hl(2) unfolding authentic_frame_def
    by (intro exI [of _ "h \<lparr> wh_ttl := wh_ttl h - 1, wh_header_crc16 := c \<rparr>"] exI [of _ t]) simp
qed

section \<open>What is forwarded\<close>

lemma nw_count_simps [simp]:
  "nw_local_id (nw_count f ctx) = nw_local_id ctx" "nw_upper_layer (nw_count f ctx) = nw_upper_layer ctx"
  "nw_lower_layer (nw_count f ctx) = nw_lower_layer ctx" "nw_route_table (nw_count f ctx) = nw_route_table ctx"
  "nw_auth_required (nw_count f ctx) = nw_auth_required ctx" "nw_auth_provider (nw_count f ctx) = nw_auth_provider ctx"
  by (simp_all add: nw_count_def)

lemma decode_frame_metadata_OkD:
  assumes "xgl_network_decode_frame_metadata (Some b) n = Inr md"
  shows "26 \<le> n" "xgl_wire_decode_header (Some b) n = Inr (nm_header md)"
    "unat (wh_header_len (nm_header md)) + unat (wh_payload_len (nm_header md)) + 2 \<le> n"
  using assms by (auto simp: xgl_network_decode_frame_metadata_def Let_def split: if_splits sum.splits)

lemma Forward_not_report [simp]: "Forward p x \<notin> set (nw_report ctx e)"
  by (simp add: nw_report_def)

lemma receive_forwardE:
  assumes "xgl_network_receive ctx (Some b) n up has_tx tx allocs = (err, out, ctx', allocs')" "Forward phy x \<in> set out" "n \<le> length b"
  obtains h r where "xgl_wire_decode_header (Some b) n = Inr h" "26 \<le> n" "out = [Forward phy x]"
    "x = hop (take n b)" "1 < wh_ttl h" "\<not> xgl_network_is_local ctx (wh_target_id h)"
    "network_route ctx (wh_target_id h) = Some r" "ri_phy r = Some phy" "n \<le> unat (ri_max_frame_size r)" "n \<le> 2048"
proof -
  obtain md where md: "xgl_network_decode_frame_metadata (Some b) n = Inr md"
    using assms(1,2) by (auto simp: xgl_network_receive_def split: sum.splits)
  let ?h = "nm_header md"
  have remote: "\<not> xgl_network_is_local ctx (wh_target_id ?h)"
    "network_forward_remote ctx b n md has_tx tx allocs = (err, out, ctx', allocs')"
    using assms(1,2) md
    by (auto simp: xgl_network_receive_def network_deliver_local_def Let_def split: if_splits)
  note dec = decode_frame_metadata_OkD [OF md]
  obtain r where r: "network_route ctx (wh_target_id ?h) = Some r"
    using remote(2) assms(2)
    by (auto simp: network_forward_remote_def network_lookup_forward_route_def split: option.splits)
  have ttl: "1 < wh_ttl ?h"
    using remote(2) assms(2) r
    by (auto simp: network_forward_remote_def network_lookup_forward_route_def network_validate_forward_ttl_def split: if_splits)
  have size: "n \<le> 2048" "n \<le> unat (ri_max_frame_size r)"
    using remote(2) assms(2) r ttl
    by (auto simp: network_forward_remote_def network_lookup_forward_route_def network_validate_forward_ttl_def
        network_validate_forward_size_def Let_def split: if_splits)
  have rw: "network_rewrite_forward_frame c b n ?h (replicate (if 512 < n then n else 512) 0) =
      Inr (hop (take n b) @ drop n (replicate (if 512 < n then n else 512) 0))" for c
    by (rule rewrite_forward_frame [OF dec(2,1) assms(3)]) simp
  have len: "length (hop (take n b)) = n" using dec(1) assms(3) by simp
  have "out = [Forward phy x] \<and> x = hop (take n b) \<and> ri_phy r = Some phy"
    using remote(2) assms(2) r ttl size rw len
    by (auto simp: network_forward_remote_def network_lookup_forward_route_def network_validate_forward_ttl_def
        network_validate_forward_size_def Let_def split: if_splits option.splits prod.splits)
  then show thesis using that [OF dec(2,1)] ttl remote(1) r size by blast
qed

text \<open>
  A frame under way: each hop is a router, with any state and any environment, that received the bytes the hop before
  transmitted and transmits others.
\<close>

inductive travels :: "bytes \<Rightarrow> nat \<Rightarrow> bytes \<Rightarrow> bool" where
  travels_start: "travels fr 0 fr"
| travels_hop: "travels fr (Suc k) fr''" if "travels fr k fr'"
    "xgl_network_receive ctx (Some fr') (length fr') up has_tx tx allocs = (err, out, ctx', allocs')"
    "Forward phy fr'' \<in> set out"

inductive_cases travels_SucE: "travels fr (Suc k) fr''"

lemma hop_ttl: "26 \<le> length fr \<Longrightarrow> hop fr ! 6 = fr ! 6 - 1"
  by (simp add: hop_def sealed_def nth_append hop_prefix_def)

lemma travels_hop_facts:
  assumes "xgl_network_receive ctx (Some fr) (length fr) up has_tx tx allocs = (err, out, ctx', allocs')" "Forward phy x \<in> set out"
  shows "x = hop fr" "1 < unat (fr ! 6)" "unat (x ! 6) = unat (fr ! 6) - 1" "length x = length fr" "26 \<le> length fr"
    "24 \<le> unat (fr ! 3)"
proof -
  obtain h where h: "xgl_wire_decode_header (Some fr) (length fr) = Inr h" "26 \<le> length fr" "x = hop fr" "1 < wh_ttl h"
    using assms by (rule receive_forwardE) (simp, simp)
  have f: "wh_ttl h = fr ! 6" "wh_header_len h = fr ! 3"
    using wire_decode_header_OkD(5) [OF h(1)] by (simp_all add: wire_header_load_def)
  show "x = hop fr" "length x = length fr" "26 \<le> length fr" using h by simp_all
  show gt: "1 < unat (fr ! 6)" using h(4) f by (simp add: word_less_nat_alt)
  show "unat (x ! 6) = unat (fr ! 6) - 1"
    using hop_ttl [OF h(2)] gt h(3) by (simp add: unat_sub word_le_nat_alt)
  show "24 \<le> unat (fr ! 3)" using decoded_header_len [OF h(1)] f by simp
qed

lemma travels_invariant:
  assumes "travels fr k fr'"
  shows "unat (fr' ! 6) + k = unat (fr ! 6)" "k = 0 \<or> 0 < unat (fr' ! 6) \<and> 26 \<le> length fr" "length fr' = length fr"
    "0 < k \<Longrightarrow> mem_read fr' 24 (length fr - 26) = mem_read fr 24 (length fr - 26)"
    "frame_valid fr \<Longrightarrow> frame_valid fr'" "authentic_frame key p fr \<Longrightarrow> authentic_frame key p fr'"
  using assms
proof (induction rule: travels.induct)
  case (travels_hop fr k fr' ctx up has_tx tx allocs err out ctx' allocs' phy fr'')
  note f = travels_hop_facts [OF travels_hop.hyps(2,3)]
  {
    case 1
    show ?case using f travels_hop.IH(1) by simp
  next
    case 2
    show ?case using f travels_hop.IH(3) by simp
  next
    case 3
    show ?case using f travels_hop.IH(3) by simp
  next
    case 4
    have "mem_read (hop fr') 24 (length fr - 26) = mem_read fr' 24 (length fr - 26)"
      using f travels_hop.IH(3) by (intro hop_drop_24) simp_all
    moreover have "mem_read fr' 24 (length fr - 26) = mem_read fr 24 (length fr - 26)"
    proof (cases k)
      case 0
      then show ?thesis using travels_hop.hyps(1) by (auto elim: travels.cases)
    qed (use travels_hop.IH(4) in simp)
    ultimately show ?case using f(1) by simp
  next
    case 5
    then show ?case using f(1) travels_hop.IH(5) hop_valid by simp
  next
    case 6
    then show ?case using f(1) travels_hop.IH(6) hop_authentic by simp
  }
qed simp_all

section \<open>Packets across the wire\<close>

text \<open>Decoding the bytes that carry a frame.\<close>

lemma ext_metadata_exts:
  assumes "exts_ok x" "exts_fold network_ext_body x zero_ext_metadata = Inr (XGL_ERR_NOT_FOUND, em)"
  shows "xgl_network_decode_ext_metadata (Some (exts_image x @ r)) (length (exts_image x)) = Inr em"
proof (cases "exts_image x = []")
  case True
  then have "x = []" by (cases x) (auto simp: exts_image_def tlv_image_def case_prod_beta)
  then show ?thesis using assms(2) by (simp add: xgl_network_decode_ext_metadata_def exts_image_def)
next
  case False
  then show ?thesis
    using ext_while_exts [OF assms(1), of _ "[]" network_ext_body r zero_ext_metadata] assms(2)
    by (simp add: xgl_network_decode_ext_metadata_def xgl_wire_ext_cursor_init_def)
qed

lemma network_fold_security:
  assumes "exts_fold network_ext_body exts em0 = Inr (XGL_ERR_NOT_FOUND, em)" "x = exts \<or> (\<exists>v. x = exts @ [(XGL_WIRE_EXT_SECURITY, v)])"
  shows "exts_fold network_ext_body x em0 = Inr (XGL_ERR_NOT_FOUND, em)"
  using assms by (auto simp: exts_fold_append network_ext_body_def)

text \<open>The extensions of a received packet: those that were sent, followed by that of the data link where the frame is authenticated.\<close>

definition carried_exts :: "(u8 \<times> bytes) list \<Rightarrow> bytes option \<Rightarrow> nat \<Rightarrow> bool" where
  "carried_exts exts e n \<longleftrightarrow> part_ok e n \<and>
     (\<exists>x. exts_ok x \<and> (x = exts \<or> (\<exists>v. x = exts @ [(XGL_WIRE_EXT_SECURITY, v)])) \<and> part_of e n = exts_image x)"

lemma carried_metadata:
  assumes fr: "frame_carries fr f exts" and fold: "exts_fold network_ext_body exts zero_ext_metadata = Inr (XGL_ERR_NOT_FOUND, em)"
  obtains md where "xgl_network_decode_frame_metadata (Some fr) (length fr) = Inr md" "header_carries (nm_header md) (fr_header f)"
    "nm_data_type md = em_data_type em" "nm_session_epoch md = em_session_epoch em"
    "nm_priority md = wh_traffic_class (fr_header f) AND XGL_TRAFFIC_PRIORITY_MASK"
    "nm_fragment md = (if wh_flags (fr_header f) AND XGL_WIRE_FLAG_FRAGMENTED \<noteq> 0 then 1 else 0)"
    "nm_reliable md = (if wh_traffic_class (fr_header f) AND XGL_RELIABILITY_CLASS_MASK = XGL_RELIABILITY_ACK_ELICITING \<or>
         wh_flags (fr_header f) AND XGL_WIRE_FLAG_ACK_ELICITING \<noteq> 0 then XGL_RELIABILITY_ACK_ELICITING
       else if wh_traffic_class (fr_header f) AND XGL_RELIABILITY_CLASS_MASK = XGL_RELIABILITY_ACK_ONLY \<or>
         wh_packet_type (fr_header f) = XGL_PACKET_TYPE_ACK then XGL_RELIABILITY_ACK_ONLY else 0)"
    "nm_payload_len md = length (frame_payload f)" "part_of (Some (nm_payload md)) (nm_payload_len md) = frame_payload f"
    "carried_exts exts (nm_extensions md) (nm_extensions_len md)"
proof -
  obtain h x t where F: "fr = frame_image h (exts_image x) (frame_payload f @ t)" "wire_header_fields_valid h" "exts_ok x"
    "unat (wh_header_len h) = 24 + length (exts_image x)" "unat (wh_payload_len h) = length (frame_payload f)"
    "x = exts \<or> (\<exists>v. x = exts @ [(XGL_WIRE_EXT_SECURITY, v)])" "header_carries h (fr_header f)"
    using fr by (auto simp: frame_carries_def)
  let ?h = "h \<lparr> wh_header_crc16 := xgl_crc16_modbus (Some (wire_header_prefix h @ [0, 0])) 24 \<rparr>"
  define r where "r = le16 (xgl_crc16_modbus (Some (wire_header_image h @ exts_image x @ frame_payload f @ t))
     (length (wire_header_image h @ exts_image x @ frame_payload f @ t)))"
  have bytes: "fr = wire_header_image h @ exts_image x @ frame_payload f @ t @ r"
    by (simp add: F(1) frame_image_def sealed_def r_def)
  have len: "length fr = 26 + length (exts_image x) + length (frame_payload f) + length t" by (simp add: F(1))
  have dec: "xgl_wire_decode_header (Some fr) (length fr) = Inr ?h"
    using wire_decode_image [OF F(2)] len by (simp add: bytes)
  note em = ext_metadata_exts [OF F(3) network_fold_security [OF fold F(6)]]
  let ?e = "if unat (wh_header_len h) > 24 then Some (drop 24 fr) else None"
  have ext: "xgl_network_decode_ext_metadata ?e (if unat (wh_header_len h) > 24 then unat (wh_header_len h) - 24 else 0) = Inr em"
    using em [of "[]"] em [of "frame_payload f @ t @ r"] F(4)
    by (cases "exts_image x = []") (simp_all add: xgl_network_decode_ext_metadata_def bytes)
  have sz: "unat (wh_header_len h) + unat (wh_payload_len h) + 2 \<le> length fr" "26 \<le> length fr" using len F(4,5) by simp_all
  define md where "md = projr (xgl_network_decode_frame_metadata (Some fr) (length fr))"
  have md: "xgl_network_decode_frame_metadata (Some fr) (length fr) = Inr md" "nm_header md = ?h"
    "nm_data_type md = em_data_type em" "nm_session_epoch md = em_session_epoch em"
    "nm_priority md = wh_traffic_class h AND XGL_TRAFFIC_PRIORITY_MASK"
    "nm_fragment md = (if wh_flags h AND XGL_WIRE_FLAG_FRAGMENTED \<noteq> 0 then 1 else 0)"
    "nm_reliable md = (if wh_traffic_class h AND XGL_RELIABILITY_CLASS_MASK = XGL_RELIABILITY_ACK_ELICITING \<or>
         wh_flags h AND XGL_WIRE_FLAG_ACK_ELICITING \<noteq> 0 then XGL_RELIABILITY_ACK_ELICITING
       else if wh_traffic_class h AND XGL_RELIABILITY_CLASS_MASK = XGL_RELIABILITY_ACK_ONLY \<or>
         wh_packet_type h = XGL_PACKET_TYPE_ACK then XGL_RELIABILITY_ACK_ONLY else 0)"
    "nm_payload_len md = unat (wh_payload_len h)" "nm_payload md = drop (unat (wh_header_len h)) fr"
    "nm_extensions md = ?e" "nm_extensions_len md = (if unat (wh_header_len h) > 24 then unat (wh_header_len h) - 24 else 0)"
    using sz dec ext by (cases "24 < unat (wh_header_len h)"; simp add: md_def xgl_network_decode_frame_metadata_def Let_def)+
  note same = F(7) [unfolded header_carries_def]
  have flags: "wh_flags h AND XGL_WIRE_FLAG_ACK_ELICITING = wh_flags (fr_header f) AND XGL_WIRE_FLAG_ACK_ELICITING"
    "wh_flags h AND XGL_WIRE_FLAG_FRAGMENTED = wh_flags (fr_header f) AND XGL_WIRE_FLAG_FRAGMENTED"
    using same by simp_all
  have "part_of (Some (nm_payload md)) (nm_payload_len md) = frame_payload f"
    using F(4,5) by (simp add: md bytes part_of_def [of "Some _"])
  moreover have "header_carries (nm_header md) (fr_header f)" using F(7) by (simp add: md header_carries_def)
  moreover have "part_ok ?e (length (exts_image x)) \<and> part_of ?e (length (exts_image x)) = exts_image x"
    using F(4) by (simp add: bytes part_of_def part_ok_def)
  then have "carried_exts exts (nm_extensions md) (nm_extensions_len md)"
    using F(3,4,6) unfolding carried_exts_def md(10,11) by (cases "exts_image x = []") auto
  ultimately show thesis
    using md(3-8) F(5) same flags by (intro that [OF md(1)]) simp_all
qed

text \<open>The packet that comes up, in terms of the frame that was sent and what its extensions say.\<close>

definition packet_of :: "xgl_frame \<Rightarrow> (u8 \<times> bytes) list \<Rightarrow> xgl_network_ext_metadata \<Rightarrow> xgl_packet \<Rightarrow> bool" where
  "packet_of f exts em pkt \<longleftrightarrow>
     (let h = fr_header f; class = wh_traffic_class h AND XGL_RELIABILITY_CLASS_MASK
      in pk_source_id pkt = wh_source_id h \<and> pk_target_id pkt = wh_target_id h \<and>
         pk_connection_id pkt = wh_connection_id h \<and> pk_packet_number pkt = wh_packet_number h \<and>
         pk_packet_type pkt = wh_packet_type h \<and> pk_ttl pkt = wh_ttl h \<and> pk_traffic_class pkt = wh_traffic_class h \<and>
         pk_session_id pkt = ucast (wh_connection_id h AND 0xFFFF) \<and>
         pk_data_type pkt = em_data_type em \<and> pk_session_epoch pkt = em_session_epoch em \<and>
         pk_priority pkt = wh_traffic_class h AND XGL_TRAFFIC_PRIORITY_MASK \<and>
         pk_fragment pkt = (if wh_flags h AND XGL_WIRE_FLAG_FRAGMENTED \<noteq> 0 then 1 else 0) \<and>
         pk_reliable pkt =
           (if class = XGL_RELIABILITY_ACK_ELICITING \<or> wh_flags h AND XGL_WIRE_FLAG_ACK_ELICITING \<noteq> 0
            then XGL_RELIABILITY_ACK_ELICITING
            else if class = XGL_RELIABILITY_ACK_ONLY \<or> wh_packet_type h = XGL_PACKET_TYPE_ACK
            then XGL_RELIABILITY_ACK_ONLY else 0) \<and>
         pk_compress pkt = 0 \<and> carried_exts exts (pk_extensions pkt) (pk_extensions_len pkt) \<and>
         (case pk_data pkt of None \<Rightarrow> False
          | Some e \<Rightarrow> pd_data e \<noteq> None \<and> pd_data_len e = length (frame_payload f) \<and> part_of (pd_data e) (pd_data_len e) = frame_payload f))"

lemma receive_carried_frame:
  assumes fr: "frame_carries fr f exts" and fold: "exts_fold network_ext_body exts zero_ext_metadata = Inr (XGL_ERR_NOT_FOUND, em)"
    and addr: "xgl_network_validate_address (wh_target_id (fr_header f)) (wh_source_id (fr_header f))"
      "xgl_network_is_local ctx (wh_target_id (fr_header f))" "nw_upper_layer ctx"
  shows "\<exists>pkt ctx'. xgl_network_receive ctx (Some fr) (length fr) up has_tx tx allocs = (up, [ToTransport pkt], ctx', allocs)
    \<and> packet_of f exts em pkt"
  using fr fold
proof (rule carried_metadata)
  fix md
  assume md: "xgl_network_decode_frame_metadata (Some fr) (length fr) = Inr md" and "header_carries (nm_header md) (fr_header f)"
    and rest: "nm_data_type md = em_data_type em" "nm_session_epoch md = em_session_epoch em"
    "nm_priority md = wh_traffic_class (fr_header f) AND XGL_TRAFFIC_PRIORITY_MASK"
    "nm_fragment md = (if wh_flags (fr_header f) AND XGL_WIRE_FLAG_FRAGMENTED \<noteq> 0 then 1 else 0)"
    "nm_reliable md = (if wh_traffic_class (fr_header f) AND XGL_RELIABILITY_CLASS_MASK = XGL_RELIABILITY_ACK_ELICITING \<or>
         wh_flags (fr_header f) AND XGL_WIRE_FLAG_ACK_ELICITING \<noteq> 0 then XGL_RELIABILITY_ACK_ELICITING
       else if wh_traffic_class (fr_header f) AND XGL_RELIABILITY_CLASS_MASK = XGL_RELIABILITY_ACK_ONLY \<or>
         wh_packet_type (fr_header f) = XGL_PACKET_TYPE_ACK then XGL_RELIABILITY_ACK_ONLY else 0)"
    "nm_payload_len md = length (frame_payload f)" "part_of (Some (nm_payload md)) (nm_payload_len md) = frame_payload f"
    "carried_exts exts (nm_extensions md) (nm_extensions_len md)"
  then have same: "wh_packet_type (nm_header md) = wh_packet_type (fr_header f)" "wh_ttl (nm_header md) = wh_ttl (fr_header f)"
    "wh_traffic_class (nm_header md) = wh_traffic_class (fr_header f)" "wh_source_id (nm_header md) = wh_source_id (fr_header f)"
    "wh_target_id (nm_header md) = wh_target_id (fr_header f)" "wh_connection_id (nm_header md) = wh_connection_id (fr_header f)"
    "wh_packet_number (nm_header md) = wh_packet_number (fr_header f)"
    by (simp_all add: header_carries_def)
  have "xgl_network_receive ctx (Some fr) (length fr) up has_tx tx allocs =
      (up, [ToTransport (network_rx_packet md)], nw_count (count_rx_frame (nm_payload_len md)) ctx, allocs)"
    using md addr same by (simp add: xgl_network_receive_def network_deliver_local_def)
  moreover have "packet_of f exts em (network_rx_packet md)"
    using same rest by (simp add: packet_of_def network_rx_packet_def Let_def)
  ultimately show ?thesis by blast
qed

text \<open>
  Packets the network layer can send: data and extensions of their announced lengths, extensions that decode (\<open>em\<close> is
  what they say) and agree with the data type, a packet type of the protocol. \<open>tx_exts\<close> are the extensions of the frame.
\<close>

definition packet_ok :: "xgl_packet \<Rightarrow> (u8 \<times> bytes) list \<Rightarrow> xgl_network_ext_metadata \<Rightarrow> bool" where
  "packet_ok pkt exts em \<longleftrightarrow>
     (case pk_data pkt of None \<Rightarrow> False | Some d \<Rightarrow> part_ok (pd_data d) (pd_data_len d) \<and> pd_data_len d \<le> 65535) \<and>
     part_ok (pk_extensions pkt) (pk_extensions_len pkt) \<and>
     part_of (pk_extensions pkt) (pk_extensions_len pkt) = exts_image exts \<and> pk_extensions_len pkt \<le> 213 \<and>
     exts_ok exts \<and> list_all link_ext_ok exts \<and>
     exts_fold network_ext_body exts zero_ext_metadata = Inr (XGL_ERR_NOT_FOUND, em) \<and>
     (em_data_type_found em \<longrightarrow> pk_data_type pkt = 0 \<or> pk_data_type pkt = em_data_type em) \<and>
     pk_flags pkt AND XGL_WIRE_FLAG_AUTHENTICATED = 0 \<and> pk_packet_type pkt \<le> XGL_PACKET_TYPE_CLOSE \<and> pk_target_id pkt \<noteq> 0"

definition tx_exts :: "xgl_packet \<Rightarrow> (u8 \<times> bytes) list \<Rightarrow> xgl_network_ext_metadata \<Rightarrow> (u8 \<times> bytes) list" where
  "tx_exts pkt exts em =
     (if em_data_type_found em \<or> pk_data_type pkt = 0 then exts else exts @ [(XGL_WIRE_EXT_DATA_TYPE, [pk_data_type pkt])])"

definition tx_metadata :: "xgl_packet \<Rightarrow> xgl_network_ext_metadata \<Rightarrow> xgl_network_ext_metadata" where
  "tx_metadata pkt em =
     (if em_data_type_found em \<or> pk_data_type pkt = 0 then em
      else em \<lparr> em_data_type := pk_data_type pkt, em_data_type_found := True \<rparr>)"

lemma length_exts_image_append [simp]:
  "exts_image (xs @ ys) = exts_image xs @ exts_image ys" "exts_image [(t, v)] = tlv_image t v"
  by (simp_all add: exts_image_def)

lemma tx_exts_ok:
  assumes "packet_ok pkt exts em"
  shows "exts_ok (tx_exts pkt exts em)" "list_all link_ext_ok (tx_exts pkt exts em)"
    "exts_fold network_ext_body (tx_exts pkt exts em) zero_ext_metadata = Inr (XGL_ERR_NOT_FOUND, tx_metadata pkt em)"
    "length (exts_image (tx_exts pkt exts em)) \<le> 216"
proof -
  have "length (exts_image exts) = pk_extensions_len pkt"
    using assms unfolding packet_ok_def by (metis length_part_of)
  then show "length (exts_image (tx_exts pkt exts em)) \<le> 216" using assms by (simp add: tx_exts_def packet_ok_def)
qed (use assms in \<open>auto simp: packet_ok_def tx_exts_def tx_metadata_def exts_ok_def link_ext_ok_def exts_fold_append network_ext_body_def\<close>)

lemma copy_packet_extensions_image:
  assumes ok: "packet_ok pkt exts em"
  shows "\<exists>r. network_copy_packet_extensions (replicate 231 0) 231 pkt =
    Inr (exts_image (tx_exts pkt exts em) @ r, length (exts_image (tx_exts pkt exts em)))"
proof -
  let ?n = "pk_extensions_len pkt" and ?buf = "replicate 231 (0 :: u8)"
  have e: "part_ok (pk_extensions pkt) ?n" "part_of (pk_extensions pkt) ?n = exts_image exts" "?n \<le> 213"
    and x: "exts_ok exts" "exts_fold network_ext_body exts zero_ext_metadata = Inr (XGL_ERR_NOT_FOUND, em)"
    and dt: "em_data_type_found em \<longrightarrow> pk_data_type pkt = 0 \<or> pk_data_type pkt = em_data_type em"
    using ok by (simp_all add: packet_ok_def)
  have len: "length (exts_image exts) = ?n" using e by (metis length_part_of)
  define buf where "buf = exts_image exts @ drop ?n ?buf"
  have copied: "(if pk_extensions pkt \<noteq> None \<and> ?n > 0 then mem_write ?buf 0 (take ?n (the (pk_extensions pkt))) else ?buf) = buf"
    "(if pk_extensions pkt \<noteq> None \<and> ?n > 0 then ?n else 0) = ?n"
    using e len by (auto simp: buf_def mem_write_def part_of_def part_ok_def split: option.splits)
  have em: "xgl_network_decode_ext_metadata (Some buf) ?n = Inr em"
    using ext_metadata_exts [OF x, of "drop ?n ?buf"] len by (simp add: buf_def)
  have "network_copy_packet_extensions ?buf 231 pkt =
      (if em_data_type_found em then Inr (buf, ?n) else network_append_data_type_ext buf 231 ?n (pk_data_type pkt))"
    unfolding network_copy_packet_extensions_def Let_def copied em sum.case using e(3) dt by auto
  moreover have "network_append_data_type_ext buf 231 ?n (pk_data_type pkt) =
      Inr (exts_image exts @ tlv_image XGL_WIRE_EXT_DATA_TYPE [pk_data_type pkt] @ drop (?n + 3) ?buf, ?n + 3)" if "pk_data_type pkt \<noteq> 0"
    using that e(3) len xgl_wire_encode_ext_image [of XGL_WIRE_EXT_DATA_TYPE "[pk_data_type pkt]" "231 - ?n" "drop ?n ?buf"]
    by (simp add: network_append_data_type_ext_def buf_def)
  ultimately show ?thesis
    using len by (auto simp: tx_exts_def buf_def network_append_data_type_ext_def)
qed

definition tx_bits :: "xgl_packet \<Rightarrow> u8" where
  "tx_bits pkt = (network_reliability_class pkt OR (if pk_fragment pkt \<noteq> 0 then 0x20 else 0)) OR (pk_priority pkt AND 7)"

lemma ucast_or_u8: "(ucast (x OR y :: u32) :: u8) = ucast x OR ucast y"
  by (rule bit_word_eqI) (auto simp: bit_simps)

lemma ucast_and_7: "(ucast (ucast (p :: u8) AND 7 :: u32) :: u8) = p AND 7"
proof -
  have "(ucast (ucast p AND (mask 3) :: u32) :: u8) = p AND mask 3" by (rule bit_word_eqI) (auto simp: bit_simps)
  then show ?thesis by (simp add: mask_eq_exp_minus_1)
qed

lemma frame_bits_tx: "frame_traffic_class_bits (network_tx_params pkt d e n) = tx_bits pkt"
  by (simp add: frame_traffic_class_bits_def network_tx_params_def tx_bits_def network_reliability_class_def Let_def
      xgl_frame_set_priority_def xgl_frame_set_fragmented_def xgl_frame_set_reliability_def xgl_frame_set_reliability_class_def
      ucast_or_u8 ucast_and_7)

lemma tx_bits_fields:
  "tx_bits pkt AND XGL_RELIABILITY_CLASS_MASK = network_reliability_class pkt"
  "tx_bits pkt AND XGL_TRAFFIC_FRAGMENTED_MASK \<noteq> 0 \<longleftrightarrow> pk_fragment pkt \<noteq> 0"
  "tx_bits pkt AND XGL_TRAFFIC_PRIORITY_MASK = pk_priority pkt AND 7"
  by (simp_all add: tx_bits_def network_reliability_class_def bit.conj_disj_distrib2 and.assoc)

text \<open>The frame made of a packet.\<close>

definition frame_of :: "xgl_packet \<Rightarrow> xgl_packet_data \<Rightarrow> xgl_frame \<Rightarrow> bool" where
  "frame_of pkt d f \<longleftrightarrow>
     (let h = fr_header f; class = network_reliability_class pkt
      in frame_payload f = part_of (pd_data d) (pd_data_len d) \<and> fr_payload_len f = pd_data_len d \<and>
         wh_source_id h = pk_source_id pkt \<and> wh_target_id h = pk_target_id pkt \<and>
         wh_packet_number h = pk_packet_number pkt \<and> wh_ttl h = XGL_DEFAULT_TTL \<and>
         wh_connection_id h = (if pk_connection_id pkt \<noteq> 0 then pk_connection_id pkt else ucast (pk_session_id pkt)) \<and>
         wh_traffic_class h = (if pk_traffic_class pkt \<noteq> 0 then pk_traffic_class pkt else tx_bits pkt) \<and>
         wh_packet_type h = (if class = XGL_RELIABILITY_ACK_ONLY then XGL_PACKET_TYPE_ACK
                             else if pk_packet_type pkt = 0 then XGL_PACKET_TYPE_DATA else pk_packet_type pkt) \<and>
         (wh_flags h AND XGL_WIRE_FLAG_ACK_ELICITING \<noteq> 0 \<longleftrightarrow>
            pk_flags pkt AND XGL_WIRE_FLAG_ACK_ELICITING \<noteq> 0 \<or> class = XGL_RELIABILITY_ACK_ELICITING) \<and>
         (wh_flags h AND XGL_WIRE_FLAG_FRAGMENTED \<noteq> 0 \<longleftrightarrow>
            pk_flags pkt AND XGL_WIRE_FLAG_FRAGMENTED \<noteq> 0 \<or> pk_fragment pkt \<noteq> 0))"

lemma build_tx_frame:
  assumes ok: "packet_ok pkt exts em" and d: "pk_data pkt = Some d" and src: "pk_source_id pkt \<noteq> 0"
  shows "\<exists>f. network_build_tx_frame pkt d (replicate 231 0) 231 = Inr f \<and> link_frame_ok f (tx_exts pkt exts em)
    \<and> frame_of pkt d f \<and> fr_extensions_len f = length (exts_image (tx_exts pkt exts em))"
proof -
  let ?x = "tx_exts pkt exts em" let ?n = "length (exts_image ?x)"
  obtain r where r: "network_copy_packet_extensions (replicate 231 0) 231 pkt = Inr (exts_image ?x @ r, ?n)"
    using copy_packet_extensions_image [OF ok] by blast
  let ?p = "network_tx_params pkt d (exts_image ?x @ r) ?n"
  have data: "part_ok (pd_data d) (pd_data_len d)" "pd_data_len d \<le> 65535" "pk_packet_type pkt \<le> 7" "pk_target_id pkt \<noteq> 0"
    "pk_flags pkt AND XGL_WIRE_FLAG_AUTHENTICATED = 0"
    using ok d by (simp_all add: packet_ok_def)
  define f where "f = projr (xgl_frame_build (Some ?p))"
  have "\<not> fp_payload_len ?p > 65535" using data(2) by (simp add: network_tx_params_def)
  then have "\<not> isl (xgl_frame_build (Some ?p))"
    unfolding xgl_frame_build_def option.case Let_def by (simp only: if_False sum.disc simp_thms)
  then have f: "xgl_frame_build (Some ?p) = Inr f" by (simp add: f_def)
  note b = f_def [unfolded xgl_frame_build_def Let_def option.case frame_bits_tx tx_bits_fields]
  have parts: "fr_extensions f = (if ?n > 0 then Some (exts_image ?x @ r) else None)" "fr_extensions_len f = ?n"
    "fr_payload f = pd_data d" "fr_payload_len f = pd_data_len d"
    and hdr: "wh_source_id (fr_header f) = pk_source_id pkt" "wh_target_id (fr_header f) = pk_target_id pkt"
    "wh_packet_number (fr_header f) = pk_packet_number pkt" "wh_ttl (fr_header f) = 8"
    "wh_connection_id (fr_header f) = (if pk_connection_id pkt \<noteq> 0 then pk_connection_id pkt else ucast (pk_session_id pkt))"
    "wh_traffic_class (fr_header f) = (if pk_traffic_class pkt \<noteq> 0 then pk_traffic_class pkt else tx_bits pkt)"
    "wh_packet_type (fr_header f) = (if network_reliability_class pkt = XGL_RELIABILITY_ACK_ONLY then XGL_PACKET_TYPE_ACK
       else if pk_packet_type pkt = 0 then XGL_PACKET_TYPE_DATA else pk_packet_type pkt)"
    using data(2) by (simp_all add: b network_tx_params_def)
  have fl: "wh_flags (fr_header f) AND XGL_WIRE_FLAG_ACK_ELICITING \<noteq> 0 \<longleftrightarrow>
       pk_flags pkt AND XGL_WIRE_FLAG_ACK_ELICITING \<noteq> 0 \<or> network_reliability_class pkt = XGL_RELIABILITY_ACK_ELICITING"
    "wh_flags (fr_header f) AND XGL_WIRE_FLAG_FRAGMENTED \<noteq> 0 \<longleftrightarrow>
       pk_flags pkt AND XGL_WIRE_FLAG_FRAGMENTED \<noteq> 0 \<or> pk_fragment pkt \<noteq> 0"
    "wh_flags (fr_header f) AND XGL_WIRE_FLAG_AUTHENTICATED = 0"
    using data(2,5) by (simp_all add: b network_tx_params_def bit.conj_disj_distrib2 or_eq_0_iff)
  have "wire_packet_type_valid (wh_packet_type (fr_header f))"
    using hdr(7) data(3) by (simp add: wire_packet_type_valid_def word_gt_0)
  then have "link_frame_ok f ?x"
    using parts tx_exts_ok [OF ok] data(1,2,4) src hdr(1,2) fl(3)
    by (auto simp: link_frame_ok_def frame_wf_def part_ok_def part_of_def)
  moreover have "frame_of pkt d f"
    using hdr fl(1,2) parts by (simp add: frame_of_def Let_def)
  ultimately show ?thesis
    using parts(2) f r by (intro exI [of _ f]) (simp add: network_build_tx_frame_def)
qed

lemma network_send_ok:
  assumes "packet_ok pkt exts em" "pk_data pkt = Some d" "src = (if pk_source_id pkt = 0 then nw_local_id A else pk_source_id pkt)" "src \<noteq> 0"
    and route: "network_route A (pk_target_id pkt) = Some r" "nw_lower_layer A"
    and auth: "nw_auth_required A \<Longrightarrow> provider_ok (nw_auth_provider A)"
    and tag: "tag_len = (if nw_auth_required A then (case nw_auth_provider A of None \<Rightarrow> 0 | Some p \<Rightarrow> ap_tag_len p) else 0)"
    and size: "xgl_frame_serialized_size (pd_data_len d) (length (exts_image (tx_exts pkt exts em))) tag_len \<le> unat (ri_max_frame_size r)"
    and f: "network_build_tx_frame (pkt \<lparr> pk_phy := ri_phy r, pk_source_id := src, pk_version := 2 \<rparr>) d (replicate 231 0) 231 = Inr f"
      "frame_of p'' d f" "fr_extensions_len f = length (exts_image (tx_exts pkt exts em))"
  shows "\<exists>A' p'. xgl_network_send_with_handle A (Some pkt) XGL_OK = (XGL_OK, [ToLink f (ri_phy r)], A', p')"
proof -
  have len: "fr_payload_len f = pd_data_len d" using f(2) by (simp add: frame_of_def Let_def)
  have "network_validate_auth_tx_budget (nw_count g A) f r = XGL_OK" for g
  proof (cases "nw_auth_required A")
    case True
    then obtain p where "nw_auth_provider A = Some p" "ap_sign p \<noteq> None" "0 < ap_tag_len p" "ap_tag_len p \<le> 32"
      using auth by (auto simp: provider_ok_def provider_signs_def split: option.splits)
    then show ?thesis using True size tag f(3) len by (simp add: network_validate_auth_tx_budget_def)
  qed (use size tag f(3) len in \<open>simp add: network_validate_auth_tx_budget_def\<close>)
  then show ?thesis
    using assms(2,3) route f(1)
    by (simp add: xgl_network_send_with_handle_def network_send_frame_to_lower_def Let_def)
qed

text \<open>What the receiving transport layer is given, in terms of the packet that was sent.\<close>

definition packet_arrives :: "xgl_packet \<Rightarrow> u16 \<Rightarrow> (u8 \<times> bytes) list \<Rightarrow> xgl_network_ext_metadata \<Rightarrow> xgl_packet \<Rightarrow> bool" where
  "packet_arrives pkt src exts em p \<longleftrightarrow>
     pk_source_id p = src \<and> pk_target_id p = pk_target_id pkt \<and> pk_packet_number p = pk_packet_number pkt \<and>
     pk_connection_id p = (if pk_connection_id pkt \<noteq> 0 then pk_connection_id pkt else ucast (pk_session_id pkt)) \<and>
     pk_session_id p = ucast (pk_connection_id p AND 0xFFFF) \<and>
     pk_data_type p = em_data_type (tx_metadata pkt em) \<and> pk_session_epoch p = em_session_epoch em \<and>
     pk_packet_type p = (if network_reliability_class pkt = XGL_RELIABILITY_ACK_ONLY then XGL_PACKET_TYPE_ACK
                         else if pk_packet_type pkt = 0 then XGL_PACKET_TYPE_DATA else pk_packet_type pkt) \<and>
     pk_compress p = 0 \<and> carried_exts (tx_exts pkt exts em) (pk_extensions p) (pk_extensions_len p) \<and>
     (case (pk_data pkt, pk_data p) of
        (Some d, Some e) \<Rightarrow> pd_data e \<noteq> None \<and> pd_data_len e = length (part_of (pd_data d) (pd_data_len d)) \<and>
          part_of (pd_data e) (pd_data_len e) = part_of (pd_data d) (pd_data_len d)
      | _ \<Rightarrow> False) \<and>
     (pk_traffic_class pkt = 0 \<and> pk_flags pkt AND (XGL_WIRE_FLAG_ACK_ELICITING OR XGL_WIRE_FLAG_FRAGMENTED) = 0 \<and>
      pk_packet_type pkt \<noteq> XGL_PACKET_TYPE_ACK \<longrightarrow>
        pk_reliable p = network_reliability_class pkt \<and> pk_fragment p = (if pk_fragment pkt \<noteq> 0 then 1 else 0) \<and>
        pk_priority p = pk_priority pkt AND 7)"

lemma flags_parts:
  assumes "(f :: u8) AND (XGL_WIRE_FLAG_ACK_ELICITING OR XGL_WIRE_FLAG_FRAGMENTED) = 0"
  shows "f AND XGL_WIRE_FLAG_ACK_ELICITING = 0" "f AND XGL_WIRE_FLAG_FRAGMENTED = 0"
proof -
  have "(f AND XGL_WIRE_FLAG_ACK_ELICITING) OR (f AND XGL_WIRE_FLAG_FRAGMENTED) = 0"
    using assms by (simp only: bit.conj_disj_distrib)
  then show "f AND XGL_WIRE_FLAG_ACK_ELICITING = 0" "f AND XGL_WIRE_FLAG_FRAGMENTED = 0"
    by (simp_all only: or_eq_0_iff)
qed

lemma packet_arrivesI:
  assumes f: "frame_of (pkt \<lparr> pk_phy := a, pk_source_id := src, pk_version := c \<rparr>) d f" and d: "pk_data pkt = Some d"
    and p: "packet_of f (tx_exts pkt exts em) (tx_metadata pkt em) p"
  shows "packet_arrives pkt src exts em p"
proof -
  have cls: "network_reliability_class (pkt \<lparr> pk_phy := a, pk_source_id := src, pk_version := c \<rparr>) = network_reliability_class pkt"
    "tx_bits (pkt \<lparr> pk_phy := a, pk_source_id := src, pk_version := c \<rparr>) = tx_bits pkt"
    "em_session_epoch (tx_metadata pkt em) = em_session_epoch em"
    by (simp_all add: network_reliability_class_def tx_bits_def tx_metadata_def)
  note F = f [unfolded frame_of_def Let_def cls] and P = p [unfolded packet_of_def Let_def cls]
  have "pk_reliable p = network_reliability_class pkt \<and> pk_fragment p = (if pk_fragment pkt \<noteq> 0 then 1 else 0) \<and>
      pk_priority p = pk_priority pkt AND 7"
    if "pk_traffic_class pkt = 0" "pk_flags pkt AND (XGL_WIRE_FLAG_ACK_ELICITING OR XGL_WIRE_FLAG_FRAGMENTED) = 0"
      "pk_packet_type pkt \<noteq> XGL_PACKET_TYPE_ACK"
  proof -
    have c: "network_reliability_class pkt \<in> {XGL_RELIABILITY_NONE, XGL_RELIABILITY_ACK_ELICITING, XGL_RELIABILITY_ACK_ONLY}"
      by (simp add: network_reliability_class_def)
    have "wh_traffic_class (fr_header f) = tx_bits pkt" using F that(1) by simp
    then show ?thesis
      using c F P that(3) flags_parts [OF that(2)] tx_bits_fields [of pkt] by auto
  qed
  then show ?thesis
    using F P d by (auto simp: packet_arrives_def split: option.splits)
qed

section \<open>Properties\<close>

text \<open>A router for the witnesses, with a route to the target of the sample frame.\<close>

definition sample_router :: xgl_network_ctx where
  "sample_router =
     \<lparr> nw_local_id = 50, nw_route_table = fst (snd (xgl_route_table_add sample_table 0x0102 (Some 0) 256 100 1 [True])),
       nw_upper_layer = True, nw_lower_layer = True, nw_error_callback = False, nw_stats = None,
       nw_auth_required = False, nw_auth_key_id = 0, nw_auth_provider = None \<rparr>"

lemma sample_route: "network_route sample_router 0x0102 = Some (route_to 0x0102)"
  by code_simp

lemma sample_bytes_carry: "frame_carries sample_bytes sample_frame [(8, [3])]"
  unfolding frame_carries_def
proof (intro exI conjI)
  show "wire_header_fields_valid (serialized_header sample_frame)" using sample_frame_ok by (simp add: serialized_header_valid)
  show "header_carries (serialized_header sample_frame) (fr_header sample_frame)" by (rule serialized_header_carries)
  show "unat (wh_header_len (serialized_header sample_frame)) = 24 + length (exts_image [(8, [3])])"
    using frame_header_len(1) [of sample_frame "[(8, [3])]"] sample_frame_ok by simp
  show "unat (wh_payload_len (serialized_header sample_frame)) = length (frame_payload sample_frame)"
    using frame_header_len(3) [of sample_frame] sample_frame_ok by simp
  show "sample_bytes = frame_image (serialized_header sample_frame) (exts_image [(8, [3])]) (frame_payload sample_frame @ [])"
    using sample_frame_ok(5) by simp
  show "[(8, [3])] = [(8 :: u8, [3 :: u8])] \<or> (\<exists>v. [(8, [3])] = [(8, [3])] @ [(XGL_WIRE_EXT_SECURITY, v)])" by simp
qed (rule sample_exts)

lemma length_sample_bytes: "length sample_bytes = 33"
  by (simp add: sample_exts(1) del: length_exts_image_append)

lemma sample_forward:
  "\<exists>err c as. xgl_network_receive sample_router (Some sample_bytes) (length sample_bytes) XGL_OK (\<lambda>_. True) XGL_OK [] =
     (err, [Forward 0 (hop sample_bytes)], c, as)"
proof (rule carried_metadata [OF sample_bytes_carry])
  show "exts_fold network_ext_body [(8, [3])] zero_ext_metadata =
      Inr (XGL_ERR_NOT_FOUND, zero_ext_metadata \<lparr> em_data_type := 3, em_data_type_found := True \<rparr>)"
    by (simp add: network_ext_body_def zero_ext_metadata_def)
  fix md
  assume md: "xgl_network_decode_frame_metadata (Some sample_bytes) (length sample_bytes) = Inr md"
    and "header_carries (nm_header md) (fr_header sample_frame)"
  then have h: "wh_target_id (nm_header md) = 0x0102" "wh_source_id (nm_header md) = 1" "wh_ttl (nm_header md) = 8"
    by (simp_all add: header_carries_def sample_frame_def sample_header_def)
  have rw: "network_rewrite_forward_frame c sample_bytes (length sample_bytes) (nm_header md) (replicate 512 0) =
      Inr (hop sample_bytes @ drop (length sample_bytes) (replicate 512 0))" for c
    using rewrite_forward_frame [OF decode_frame_metadata_OkD(2,1) [OF md], of "replicate 512 0" c] by (simp add: length_sample_bytes)
  show ?thesis
    using md h sample_route rw
    by (simp add: xgl_network_receive_def xgl_network_validate_address_def xgl_network_is_local_def network_forward_remote_def
        network_lookup_forward_route_def network_validate_forward_ttl_def network_validate_forward_size_def route_to_def
        sample_router_def [THEN arg_cong [where f = nw_local_id]] network_route_def length_sample_bytes)
qed



text \<open>
  C16: forwarding ends, and delivers what was sent. However the routers are connected and whatever state they are in, a
  frame is forwarded at most (its time-to-live minus one) times; all the way its length, extensions, payload
  and tag stay the same, a valid frame stays valid, and a frame that is authentic under some key and
  provider is so for every router and at its destination.
\<close>

theorem forwarding_ends_and_preserves:
  assumes "travels fr k fr'"
  shows "(k = 0 \<or> k < unat (fr ! 6)) \<and> unat (fr' ! 6) = unat (fr ! 6) - k \<and> length fr' = length fr
    \<and> (0 < k \<longrightarrow> mem_read fr' 24 (length fr - 26) = mem_read fr 24 (length fr - 26))
    \<and> (frame_valid fr \<longrightarrow> frame_valid fr')
    \<and> (\<forall>key p. authentic_frame key p fr \<longrightarrow> authentic_frame key p fr')"
  using travels_invariant(1-5) [OF assms] travels_invariant(6) [OF assms] by auto

theorem forwarding_ends_and_preserves_witness:
  "frame_valid (hop sample_bytes) \<and> unat (hop sample_bytes ! 6) = unat (sample_bytes ! 6) - 1"
proof -
  obtain err c as where r: "xgl_network_receive sample_router (Some sample_bytes) (length sample_bytes) XGL_OK (\<lambda>_. True) XGL_OK [] =
     (err, [Forward 0 (hop sample_bytes)], c, as)"
    using sample_forward by blast
  have "travels sample_bytes (Suc 0) (hop sample_bytes)"
    by (rule travels_hop [OF travels_start r]) simp
  from forwarding_ends_and_preserves [OF this] show ?thesis using sample_bytes_valid by simp
qed

end
