(* ===== verification/Xgl_Codec.thy ===== *)
theory Xgl_Codec
  imports Xgl_Prelude
begin

text \<open>
  The registry of optional codecs, \<^verbatim>\<open>src/codec/xgl_codec.c\<close>. A codec's functions are supplied by the application, so they are
  parameters: from the input and the capacity of the output buffer to an error code and the bytes
  written. A NULL function is \<open>None\<close>; the array of codecs is the list of its registered entries.
\<close>

datatype xgl_codec_kind = XGL_CODEC_KIND_COMPRESSION | XGL_CODEC_KIND_ENCRYPTION

datatype xgl_codec_direction = XGL_CODEC_DIRECTION_ENCODE | XGL_CODEC_DIRECTION_DECODE

type_synonym xgl_codec_process_fn = "bytes \<Rightarrow> nat \<Rightarrow> xgl_error \<times> bytes"

record xgl_codec =
  cd_id :: u8
  cd_kind :: xgl_codec_kind
  cd_encode :: "xgl_codec_process_fn option"
  cd_decode :: "xgl_codec_process_fn option"

text \<open>\<open>None\<close> for the codecs is a registry without storage.\<close>

record xgl_codec_registry =
  cr_codecs :: "xgl_codec list option"
  cr_codec_capacity :: nat

definition xgl_codec_registry_init :: "bool \<Rightarrow> nat \<Rightarrow> xgl_error + xgl_codec_registry" where
  "xgl_codec_registry_init has_storage capacity =
     (if \<not> has_storage \<and> capacity > 0 then Inl XGL_ERR_NULL_POINTER
      else Inr \<lparr> cr_codecs = (if has_storage then Some [] else None), cr_codec_capacity = capacity \<rparr>)"

definition xgl_codec_find :: "xgl_codec_registry option \<Rightarrow> xgl_codec_kind \<Rightarrow> u8 \<Rightarrow> xgl_codec option" where
  "xgl_codec_find registry kind cid =
     (case registry of
        None \<Rightarrow> None
      | Some r \<Rightarrow>
          (case cr_codecs r of
             None \<Rightarrow> None
           | Some codecs \<Rightarrow> List.find (\<lambda>codec. cd_kind codec = kind \<and> cd_id codec = cid) codecs))"

definition registered :: "xgl_codec_registry \<Rightarrow> xgl_codec list" where
  "registered r = (case cr_codecs r of None \<Rightarrow> [] | Some codecs \<Rightarrow> codecs)"

definition xgl_codec_register :: "xgl_codec_registry \<Rightarrow> xgl_codec option \<Rightarrow> xgl_error \<times> xgl_codec_registry" where
  "xgl_codec_register registry codec =
     (case codec of
        None \<Rightarrow> (XGL_ERR_NULL_POINTER, registry)
      | Some c \<Rightarrow>
          if cd_encode c = None \<or> cd_decode c = None then (XGL_ERR_INVALID_PARAM, registry)
          else if length (registered registry) \<ge> cr_codec_capacity registry then (XGL_ERR_QUEUE_FULL, registry)
          else if xgl_codec_find (Some registry) (cd_kind c) (cd_id c) \<noteq> None
          then (XGL_ERR_ALREADY_INITIALIZED, registry)
          else (XGL_OK, registry \<lparr> cr_codecs := Some (registered registry @ [c]) \<rparr>))"

definition xgl_codec_apply ::
  "xgl_codec_registry option \<Rightarrow> xgl_codec_kind \<Rightarrow> u8 \<Rightarrow> xgl_codec_direction \<Rightarrow> bytes option \<Rightarrow> nat \<Rightarrow> nat option
     \<Rightarrow> xgl_error \<times> bytes" where
  "xgl_codec_apply registry kind cid direction input input_len output_capacity =
     (case (input, output_capacity) of
        (Some d, Some capacity) \<Rightarrow>
          (case xgl_codec_find registry kind cid of
             None \<Rightarrow> (XGL_ERR_INVALID_PARAM, [])
           | Some codec \<Rightarrow>
               (case direction of
                  XGL_CODEC_DIRECTION_ENCODE \<Rightarrow> the (cd_encode codec) (take input_len d) capacity
                | XGL_CODEC_DIRECTION_DECODE \<Rightarrow> the (cd_decode codec) (take input_len d) capacity))
      | _ \<Rightarrow> (XGL_ERR_NULL_POINTER, []))"

section \<open>The registry is a map from kind and id to codecs\<close>

definition codec_inv :: "xgl_codec_registry \<Rightarrow> bool" where
  "codec_inv r \<longleftrightarrow> length (registered r) \<le> cr_codec_capacity r
     \<and> distinct (map (\<lambda>c. (cd_kind c, cd_id c)) (registered r))
     \<and> (\<forall>c \<in> set (registered r). cd_encode c \<noteq> None \<and> cd_decode c \<noteq> None)
     \<and> (cr_codecs r = None \<longrightarrow> cr_codec_capacity r = 0)"

lemma codec_registry_init_inv: "xgl_codec_registry_init s n = Inr r \<Longrightarrow> codec_inv r"
  by (auto simp: xgl_codec_registry_init_def codec_inv_def registered_def split: if_splits)

lemma codec_find_registered:
  "xgl_codec_find (Some r) kind cid = List.find (\<lambda>c. cd_kind c = kind \<and> cd_id c = cid) (registered r)"
  by (simp add: xgl_codec_find_def registered_def split: option.splits)

lemma find_snoc: "List.find P (xs @ [x]) = (case List.find P xs of None \<Rightarrow> if P x then Some x else None | r \<Rightarrow> r)"
  by (induction xs) simp_all

lemma codec_register_inv:
  assumes "codec_inv r" shows "codec_inv (snd (xgl_codec_register r c))"
proof (cases c)
  case (Some x)
  have "xgl_codec_find (Some r) (cd_kind x) (cd_id x) = None \<Longrightarrow>
      (cd_kind x, cd_id x) \<notin> (\<lambda>c. (cd_kind c, cd_id c)) ` set (registered r)"
    by (auto simp: codec_find_registered find_None_iff)
  moreover have "cr_codecs r \<noteq> None" if "length (registered r) < cr_codec_capacity r"
    using assms that by (auto simp: codec_inv_def)
  ultimately show ?thesis
    using assms Some by (auto simp: xgl_codec_register_def codec_inv_def registered_def split: option.splits)
qed (use assms in \<open>simp add: xgl_codec_register_def\<close>)

interpretation codec: invariant_machine xgl_codec_register codec_inv
  by unfold_locales (rule codec_register_inv)

text \<open>
  The codec registry is a partial map. For a registry reached by any registrations, a further registration
  either reports an error and leaves every lookup as it was, or succeeds and changes the lookup of the new kind and id, and
  only that; every codec found has both of its functions.
\<close>

lemma codec_registry_is_a_map:
  assumes "xgl_codec_registry_init s n = Inr r0" "r = snd (codec.run r0 cs)"
    and "xgl_codec_register r (Some c) = (err, r')"
  shows "xgl_codec_find (Some r') = (if err = XGL_OK
           then (\<lambda>kind cid. if kind = cd_kind c \<and> cid = cd_id c then Some c else xgl_codec_find (Some r) kind cid)
           else xgl_codec_find (Some r))"
    and "xgl_codec_find (Some r) kind cid = Some d \<Longrightarrow> cd_encode d \<noteq> None \<and> cd_decode d \<noteq> None"
proof -
  have inv: "codec_inv r" using assms(1,2) codec_registry_init_inv codec.run_inv by blast
  show "xgl_codec_find (Some r') = (if err = XGL_OK
           then (\<lambda>kind cid. if kind = cd_kind c \<and> cid = cd_id c then Some c else xgl_codec_find (Some r) kind cid)
           else xgl_codec_find (Some r))"
    using assms(3)
    by (auto simp: xgl_codec_register_def codec_find_registered registered_def find_snoc fun_eq_iff
        split: if_splits option.splits)
  show "xgl_codec_find (Some r) kind cid = Some d \<Longrightarrow> cd_encode d \<noteq> None \<and> cd_decode d \<noteq> None"
    using inv by (auto simp: codec_find_registered codec_inv_def find_Some_iff)
qed

end
