(* ===== verification/Xgl_Transport.thy ===== *)
theory Xgl_Transport
  imports Xgl_Network Xgl_Window Xgl_Rtt Xgl_Reliable Xgl_Fragment Xgl_Codec
begin

text \<open>
  The transport layer, \<^verbatim>\<open>src/transport/xgl_transport*.c\<close>: its context, its peers and the packets it sends. What the layer learns from its
  surroundings is in a \<open>world\<close>: whether each allocation succeeds, what each call into the network layer returns,
  what each reading of the clock shows, and a log of the layer's own calls: packets for the network layer,
  messages for the application, reported errors. A pointer to a peer is the position of the peer in the list
  of peers; no operation uses it after the list has changed.
\<close>

section \<open>The world\<close>

datatype transport_output =
    ToNetwork xgl_packet                    \<comment> \<open>\<^verbatim>\<open>lower_layer->send\<close>\<close>
  | ToApp u16 u8 "u8 option list"           \<comment> \<open>\<^verbatim>\<open>rx_callback\<close>: source, data type, data\<close>
  | TpReport xgl_error                      \<comment> \<open>\<^verbatim>\<open>error_callback\<close>\<close>

text \<open>
  \<open>w_sends\<close> holds the results of the coming calls of the network layer, each with the interface that it writes to the
  packet; a call beyond the list succeeds. A byte of application data is \<open>None\<close> where reassembly memory was never written.
\<close>

record world =
  w_allocs :: "bool list"
  w_sends :: "(xgl_error \<times> nat option) list"
  w_clock :: "u32 list"
  w_log :: "transport_output list"

definition w_alloc :: "world \<Rightarrow> bool \<times> world" where
  "w_alloc w = (case take_alloc (w_allocs w) of (ok, as) \<Rightarrow> (ok, w \<lparr> w_allocs := as \<rparr>))"

definition w_time :: "world \<Rightarrow> u32 \<times> world" where
  "w_time w = (case w_clock w of [] \<Rightarrow> (0, w) | t # ts \<Rightarrow> (t, w \<lparr> w_clock := ts \<rparr>))"

definition w_put :: "transport_output \<Rightarrow> world \<Rightarrow> world" where
  "w_put x w = w \<lparr> w_log := w_log w @ [x] \<rparr>"

section \<open>Context and peers\<close>

abbreviation (input) "XGL_SESSION_ID_MASK \<equiv> (0x3F :: u16)"
abbreviation (input) "XGL_TRANSPORT_CONTROL_HELLO \<equiv> (0x0E :: u8)"
abbreviation (input) "XGL_TRANSPORT_CONTROL_RESET \<equiv> (0x0F :: u8)"
abbreviation (input) "XGL_FRAGMENT_TIMEOUT_MS \<equiv> (5000 :: u32)"

record xgl_transport_rx_buffered_packet =
  rx_packet :: xgl_packet
  rx_data :: bytes
  rx_data_len :: nat

record xgl_transport_peer_state =
  tp_peer_id :: u16
  tp_has_connection_scope :: bool
  tp_connection_id :: u32
  tp_session_epoch :: u32
  tp_session_id :: u16
  tp_hello_sent :: bool
  tp_session_established :: bool
  tp_tx_window :: xgl_sliding_window
  tp_reliable_queue :: xgl_reliable_queue
  tp_rtt_est :: xgl_rtt_estimator
  tp_last_active_ms :: u32
  tp_rx_next_packet_number :: u32
  tp_rx_has_packet_number_state :: bool
  tp_rx_buffered :: "xgl_transport_rx_buffered_packet list"
  tp_rx_buffered_count :: u8
  tp_earliest_deadline_ms :: u32

record xgl_transport_ctx =
  tc_local_id :: u16
  tc_max_retry_count :: u8
  tc_default_timeout_ms :: u32
  tc_enable_fragmentation :: bool
  tc_max_frame_size :: u16
  tc_auth_tag_len :: u8
  tc_route_table :: "xgl_route_table option"
  tc_next_session_id :: u16
  tc_peer_idle_timeout_ms :: u32
  tc_max_reassembly_slots :: u8
  tc_rtt_est :: xgl_rtt_estimator
  tc_window :: xgl_sliding_window
  tc_reliable_queue :: xgl_reliable_queue
  tc_fragment_mgr :: "xgl_fragment_manager option"
  tc_peers :: "xgl_transport_peer_state list"
  tc_lower_layer :: bool
  tc_rx_callback :: bool
  tc_error_callback :: bool
  tc_stats :: "xgl_layer_stats option"
  tc_tx_retries :: "u64 option"
  tc_codec_registry :: "xgl_codec_registry option"

abbreviation peer_at :: "xgl_transport_ctx \<Rightarrow> nat \<Rightarrow> xgl_transport_peer_state" where
  "peer_at ctx i \<equiv> tc_peers ctx ! i"

definition peer_update ::
  "nat \<Rightarrow> (xgl_transport_peer_state \<Rightarrow> xgl_transport_peer_state) \<Rightarrow> xgl_transport_ctx \<Rightarrow> xgl_transport_ctx" where
  "peer_update i f ctx = ctx \<lparr> tc_peers := (tc_peers ctx)[i := f (peer_at ctx i)] \<rparr>"

definition tp_count :: "(xgl_layer_stats \<Rightarrow> xgl_layer_stats) \<Rightarrow> xgl_transport_ctx \<Rightarrow> xgl_transport_ctx" where
  "tp_count f ctx = ctx \<lparr> tc_stats := map_option f (tc_stats ctx) \<rparr>"

definition transport_count_send_error :: "xgl_transport_ctx \<Rightarrow> xgl_transport_ctx" where
  "transport_count_send_error ctx = tp_count count_tx_error ctx"

text \<open>\<^verbatim>\<open>xgl_layer_send\<close>: the result of the network layer and the interface it wrote to the packet.\<close>

definition xgl_layer_send :: "xgl_transport_ctx \<Rightarrow> world \<Rightarrow> xgl_packet \<Rightarrow> xgl_error \<times> nat option \<times> world" where
  "xgl_layer_send ctx w packet =
     (if \<not> tc_lower_layer ctx then (XGL_ERR_NULL_POINTER, pk_phy packet, w)
      else case w_sends w of
             [] \<Rightarrow> (XGL_OK, pk_phy packet, w_put (ToNetwork packet) w)
           | (err, phy) # rs \<Rightarrow> (err, phy, w_put (ToNetwork packet) (w \<lparr> w_sends := rs \<rparr>)))"

definition xgl_transport_report_error :: "xgl_transport_ctx \<Rightarrow> world \<Rightarrow> xgl_error \<Rightarrow> world" where
  "xgl_transport_report_error ctx w err = (if tc_error_callback ctx then w_put (TpReport err) w else w)"

subsection \<open>Initialization\<close>

text \<open>\<^verbatim>\<open>xgl_window_init_with_allocator\<close> on a cleared window; it asks for memory once the size has been accepted.\<close>

definition fresh_window :: "u8 \<Rightarrow> world \<Rightarrow> (xgl_error + xgl_sliding_window) \<times> world" where
  "fresh_window window_size w =
     (let zero = \<lparr> sw_window_size = 0, sw_send_base_packet_number = 0, sw_next_packet_number = 0, sw_ack_received = None \<rparr>
      in (case xgl_window_init_with_allocator (Some zero) window_size (\<lambda>_. fst (w_alloc w)) of
            (err, window) \<Rightarrow>
              (if err = XGL_OK then Inr (the window) else Inl err,
               if err = XGL_ERR_INVALID_PARAM then w else snd (w_alloc w))))"

record xgl_transport_config =
  tf_local_id :: u16
  tf_max_retry_count :: u8
  tf_default_timeout_ms :: u32
  tf_window_size :: u8
  tf_enable_fragmentation :: bool
  tf_max_frame_size :: u16
  tf_auth_tag_len :: u8
  tf_route_table :: "xgl_route_table option"
  tf_lower_layer :: bool
  tf_rx_callback :: bool
  tf_error_callback :: bool
  tf_stats :: "xgl_layer_stats option"
  tf_tx_retries :: "u64 option"
  tf_peer_idle_timeout_ms :: u32
  tf_max_reassembly_slots :: u8
  tf_codec_registry :: "xgl_codec_registry option"

definition xgl_transport_init ::
  "xgl_transport_config option \<Rightarrow> world \<Rightarrow> (xgl_error + xgl_transport_ctx) \<times> world" where
  "xgl_transport_init config w =
     (case config of
        None \<Rightarrow> (Inl XGL_ERR_NULL_POINTER, w)
      | Some c \<Rightarrow>
          if tf_stats c = None then (Inl XGL_ERR_NULL_POINTER, w)
          else
            let session_id = tf_local_id c AND XGL_SESSION_ID_MASK;
                slots = (if tf_max_reassembly_slots c > 0 then tf_max_reassembly_slots c else 8)
            in (case fresh_window (tf_window_size c) w of
                  (Inl err, w) \<Rightarrow> (Inl err, w)
                | (Inr window, w) \<Rightarrow>
                    let ctx = \<lparr> tc_local_id = tf_local_id c, tc_max_retry_count = tf_max_retry_count c,
                          tc_default_timeout_ms = tf_default_timeout_ms c, tc_enable_fragmentation = tf_enable_fragmentation c,
                          tc_max_frame_size = tf_max_frame_size c, tc_auth_tag_len = tf_auth_tag_len c,
                          tc_route_table = tf_route_table c, tc_next_session_id = (if session_id = 0 then 1 else session_id),
                          tc_peer_idle_timeout_ms = tf_peer_idle_timeout_ms c, tc_max_reassembly_slots = slots,
                          tc_rtt_est = xgl_rtt_init, tc_window = window,
                          tc_reliable_queue = xgl_reliable_init (tf_max_retry_count c), tc_fragment_mgr = None, tc_peers = [],
                          tc_lower_layer = tf_lower_layer c, tc_rx_callback = tf_rx_callback c,
                          tc_error_callback = tf_error_callback c, tc_stats = tf_stats c, tc_tx_retries = tf_tx_retries c,
                          tc_codec_registry = tf_codec_registry c \<rparr>
                    in if \<not> tf_enable_fragmentation c then (Inr ctx, w)
                       else (case w_alloc w of
                               (False, w) \<Rightarrow> (Inl XGL_ERR_NO_MEMORY, w)
                             | (True, w) \<Rightarrow>
                                 (Inr (ctx \<lparr> tc_fragment_mgr := Some (xgl_fragment_init (unat slots) XGL_FRAGMENT_TIMEOUT_MS) \<rparr>), w))))"

subsection \<open>Peers\<close>

definition transport_find_peer :: "xgl_transport_ctx \<Rightarrow> u16 \<Rightarrow> nat option" where
  "transport_find_peer ctx peer_id =
     List.find (\<lambda>i. tp_peer_id (peer_at ctx i) = peer_id) [0..<length (tc_peers ctx)]"

definition transport_find_peer_scope :: "xgl_transport_ctx \<Rightarrow> u16 \<Rightarrow> u32 \<Rightarrow> u32 \<Rightarrow> nat option" where
  "transport_find_peer_scope ctx peer_id connection_id session_epoch =
     List.find (\<lambda>i. let peer = peer_at ctx i
                    in tp_peer_id peer = peer_id \<and> tp_has_connection_scope peer \<and> tp_connection_id peer = connection_id
                       \<and> tp_session_epoch peer = session_epoch) [0..<length (tc_peers ctx)]"

definition transport_get_or_create_peer_internal ::
  "xgl_transport_ctx \<Rightarrow> world \<Rightarrow> u16 \<Rightarrow> u32 \<Rightarrow> u32 \<Rightarrow> bool \<Rightarrow> nat option \<times> xgl_transport_ctx \<times> world" where
  "transport_get_or_create_peer_internal ctx w peer_id connection_id session_epoch has_connection_scope =
     (case (if has_connection_scope then transport_find_peer_scope ctx peer_id connection_id session_epoch
            else transport_find_peer ctx peer_id) of
        Some i \<Rightarrow> (Some i, ctx, w)
      | None \<Rightarrow>
          (case w_alloc w of
             (False, w) \<Rightarrow> (None, ctx, w)
           | (True, w) \<Rightarrow>
               let session_id = tc_next_session_id ctx AND XGL_SESSION_ID_MASK;
                   session_id = (if session_id = 0 then 1 else session_id);
                   next_session_id = (session_id + 1) AND XGL_SESSION_ID_MASK;
                   ctx = ctx \<lparr> tc_next_session_id := (if next_session_id = 0 then 1 else next_session_id) \<rparr>
               in (case fresh_window (sw_window_size (tc_window ctx)) w of
                     (Inl err, w) \<Rightarrow> (None, ctx, w)
                   | (Inr window, w) \<Rightarrow>
                       let peer = \<lparr> tp_peer_id = peer_id, tp_has_connection_scope = has_connection_scope,
                             tp_connection_id = (if has_connection_scope then connection_id else 0),
                             tp_session_epoch = (if has_connection_scope then session_epoch else 0),
                             tp_session_id = session_id, tp_hello_sent = False, tp_session_established = False,
                             tp_tx_window = window, tp_reliable_queue = xgl_reliable_init (tc_max_retry_count ctx),
                             tp_rtt_est = xgl_rtt_init, tp_last_active_ms = 0, tp_rx_next_packet_number = 0,
                             tp_rx_has_packet_number_state = False, tp_rx_buffered = [], tp_rx_buffered_count = 0,
                             tp_earliest_deadline_ms = 0 \<rparr>
                       in (Some 0, ctx \<lparr> tc_peers := peer # tc_peers ctx \<rparr>, w))))"

definition transport_get_or_create_peer ::
  "xgl_transport_ctx \<Rightarrow> world \<Rightarrow> u16 \<Rightarrow> nat option \<times> xgl_transport_ctx \<times> world" where
  "transport_get_or_create_peer ctx w peer_id = transport_get_or_create_peer_internal ctx w peer_id 0 0 False"

definition transport_get_or_create_peer_scope ::
  "xgl_transport_ctx \<Rightarrow> world \<Rightarrow> u16 \<Rightarrow> u32 \<Rightarrow> u32 \<Rightarrow> nat option \<times> xgl_transport_ctx \<times> world" where
  "transport_get_or_create_peer_scope ctx w peer_id connection_id session_epoch =
     transport_get_or_create_peer_internal ctx w peer_id connection_id session_epoch True"

definition transport_clear_rx_buffered :: "xgl_transport_peer_state \<Rightarrow> xgl_transport_peer_state" where
  "transport_clear_rx_buffered peer = peer \<lparr> tp_rx_buffered := [], tp_rx_buffered_count := 0 \<rparr>"

definition transport_destroy_peers :: "xgl_transport_ctx \<Rightarrow> xgl_transport_ctx" where
  "transport_destroy_peers ctx = ctx \<lparr> tc_peers := [] \<rparr>"

definition transport_reclaim_idle_peers :: "xgl_transport_ctx \<Rightarrow> u32 \<Rightarrow> nat \<times> xgl_transport_ctx" where
  "transport_reclaim_idle_peers ctx current_time_ms =
     (if tc_peer_idle_timeout_ms ctx = 0 then (0, ctx)
      else
        let idle = (\<lambda>peer. \<not> (\<not> xgl_reliable_is_empty (tp_reliable_queue peer) \<or> tp_rx_buffered peer \<noteq> []) \<and>
                      current_time_ms - tp_last_active_ms peer \<ge> tc_peer_idle_timeout_ms ctx)
        in (length (filter idle (tc_peers ctx)), ctx \<lparr> tc_peers := filter (\<lambda>peer. \<not> idle peer) (tc_peers ctx) \<rparr>))"

definition transport_reset_peer_state ::
  "xgl_transport_ctx \<Rightarrow> world \<Rightarrow> nat \<Rightarrow> u16 \<Rightarrow> u32 \<Rightarrow> u32 \<Rightarrow> xgl_transport_ctx \<times> world" where
  "transport_reset_peer_state ctx w i session_id connection_id session_epoch =
     (case w_time w of
        (now, w) \<Rightarrow>
          let peer_id = tp_peer_id (peer_at ctx i);
              ctx = peer_update i (\<lambda>peer. transport_clear_rx_buffered
                (peer \<lparr> tp_session_id := session_id AND XGL_SESSION_ID_MASK, tp_hello_sent := False,
                   tp_session_established := True, tp_reliable_queue := xgl_reliable_clear (tp_reliable_queue peer),
                   tp_tx_window := xgl_window_reset (tp_tx_window peer), tp_rtt_est := xgl_rtt_init,
                   tp_rx_next_packet_number := 0, tp_rx_has_packet_number_state := False, tp_last_active_ms := now \<rparr>)) ctx
          in (ctx \<lparr> tc_window := xgl_window_reset (tc_window ctx),
                    tc_fragment_mgr := map_option
                      (\<lambda>m. snd (xgl_fragment_clear_reassembly_scope m peer_id connection_id session_epoch)) (tc_fragment_mgr ctx) \<rparr>, w))"

text \<open>The comparison of deadlines is that of the signed difference, so that it survives the wrap of the clock.\<close>

definition earliest_deadline :: "u32 \<Rightarrow> xgl_reliable_packet \<Rightarrow> u32" where
  "earliest_deadline earliest pkt =
     (if rp_send_timestamp pkt \<noteq> 0 \<and> rp_timeout_ms pkt > 0
      then let abs_deadline = rp_send_timestamp pkt + word_of_int (rp_timeout_ms pkt)
           in if earliest = 0 \<or> sint (abs_deadline - earliest) < 0 then abs_deadline else earliest
      else earliest)"

definition transport_update_peer_deadline :: "xgl_transport_peer_state \<Rightarrow> xgl_transport_peer_state" where
  "transport_update_peer_deadline peer =
     (let queue = tp_reliable_queue peer
      in peer \<lparr> tp_earliest_deadline_ms := foldl earliest_deadline 0 (map (packet_at queue) (rq_wait_ack_list queue)) \<rparr>)"

text \<open>Destruction releases every component and clears the context.\<close>

definition xgl_transport_destroy :: "xgl_transport_ctx \<Rightarrow> xgl_transport_ctx" where
  "xgl_transport_destroy ctx =
     (let ctx = transport_destroy_peers
            (ctx \<lparr> tc_fragment_mgr := None, tc_reliable_queue := xgl_reliable_clear (tc_reliable_queue ctx),
                   tc_window := xgl_window_destroy (tc_window ctx) \<rparr>)
      in ctx \<lparr> tc_local_id := 0, tc_max_retry_count := 0, tc_default_timeout_ms := 0, tc_enable_fragmentation := False,
               tc_max_frame_size := 0, tc_auth_tag_len := 0, tc_route_table := None, tc_next_session_id := 0,
               tc_peer_idle_timeout_ms := 0, tc_max_reassembly_slots := 0, tc_lower_layer := False, tc_rx_callback := False,
               tc_error_callback := False, tc_stats := None, tc_tx_retries := None, tc_codec_registry := None,
               tc_window := \<lparr> sw_window_size = 0, sw_send_base_packet_number = 0, sw_next_packet_number = 0, sw_ack_received = None \<rparr>,
               tc_rtt_est := \<lparr> rtt_srtt = 0, rtt_rttvar = 0, rtt_rto = 0, rtt_initialized = False \<rparr> \<rparr>)"

subsection \<open>Packet numbers\<close>

definition transport_commit_packet_number :: "xgl_transport_ctx \<Rightarrow> nat \<Rightarrow> xgl_transport_ctx" where
  "transport_commit_packet_number ctx i =
     (let ctx = peer_update i (\<lambda>peer. peer \<lparr> tp_tx_window := xgl_window_advance_next_packet_number (tp_tx_window peer) \<rparr>) ctx
      in if xgl_window_can_send_packet_number (Some (tc_window ctx))
         then ctx \<lparr> tc_window := xgl_window_advance_next_packet_number (tc_window ctx) \<rparr> else ctx)"

definition transport_receive_packet_number :: "xgl_packet \<Rightarrow> u32" where
  "transport_receive_packet_number packet = pk_packet_number packet"

definition xgl_transport_get_next_packet_number :: "xgl_transport_ctx \<Rightarrow> u32" where
  "xgl_transport_get_next_packet_number ctx = xgl_window_get_next_packet_number (Some (tc_window ctx))"

definition xgl_transport_can_send :: "xgl_transport_ctx \<Rightarrow> bool" where
  "xgl_transport_can_send ctx = xgl_window_can_send_packet_number (Some (tc_window ctx))"

section \<open>Packets the layer makes itself\<close>

definition zero_packet :: xgl_packet where
  "zero_packet =
     \<lparr> pk_source_id = 0, pk_target_id = 0, pk_session_id = 0, pk_connection_id = 0, pk_packet_number = 0, pk_session_epoch = 0,
       pk_version = 0, pk_packet_type = 0, pk_flags = 0, pk_data_type = 0, pk_reliable = 0, pk_fragment = 0, pk_encrypt = 0,
       pk_priority = 0, pk_ttl = 0, pk_traffic_class = 0, pk_compress = 0, pk_data = None, pk_extensions = None,
       pk_extensions_len = 0, pk_phy = None \<rparr>"

definition empty_data :: xgl_packet_data where
  "empty_data = \<lparr> pd_data = None, pd_data_len = 0 \<rparr>"

definition transport_send_control ::
  "xgl_transport_ctx \<Rightarrow> world \<Rightarrow> u16 \<Rightarrow> u8 \<Rightarrow> u32 \<Rightarrow> u16 \<Rightarrow> u32 \<Rightarrow> u32 \<Rightarrow> xgl_error \<times> world" where
  "transport_send_control ctx w target_id control_type control_packet_number session_id connection_id session_epoch =
     (case xgl_wire_encode_ext (Some (replicate 4 0)) 4 XGL_WIRE_EXT_DATA_TYPE (Some [control_type]) 1 of
        Inl err \<Rightarrow> (err, w)
      | Inr (control_ext, control_ext_len) \<Rightarrow>
          let packet = zero_packet
                \<lparr> pk_source_id := tc_local_id ctx, pk_target_id := target_id, pk_session_id := session_id,
                  pk_connection_id := connection_id, pk_packet_number := control_packet_number,
                  pk_session_epoch := session_epoch, pk_packet_type := XGL_PACKET_TYPE_CONTROL, pk_data_type := control_type,
                  pk_reliable := XGL_RELIABILITY_NONE, pk_priority := 7, pk_data := Some empty_data,
                  pk_extensions := Some control_ext, pk_extensions_len := control_ext_len \<rparr>
          in if \<not> tc_lower_layer ctx then (XGL_ERR_INVALID_PARAM, w)
             else case xgl_layer_send ctx w packet of (err, phy, w) \<Rightarrow> (err, w))"

text \<open>The packet that carries an acknowledgement extension, common to \<^verbatim>\<open>transport_send_ack\<close> and \<^verbatim>\<open>transport_send_sack\<close>.\<close>

definition ack_packet :: "u16 \<Rightarrow> u16 \<Rightarrow> u16 \<Rightarrow> u32 \<Rightarrow> u32 \<Rightarrow> u32 \<Rightarrow> bytes \<Rightarrow> nat \<Rightarrow> xgl_packet" where
  "ack_packet local_id target_id session_id connection_id packet_number session_epoch ext n = zero_packet
     \<lparr> pk_source_id := local_id, pk_target_id := target_id, pk_session_id := session_id, pk_connection_id := connection_id,
       pk_packet_number := packet_number, pk_session_epoch := session_epoch, pk_packet_type := XGL_PACKET_TYPE_ACK,
       pk_flags := XGL_WIRE_FLAG_HAS_EXTENSIONS, pk_reliable := XGL_RELIABILITY_ACK_ONLY, pk_priority := 7,
       pk_data := Some empty_data, pk_extensions := Some ext, pk_extensions_len := n \<rparr>"

definition transport_send_ack ::
  "xgl_transport_ctx \<Rightarrow> world \<Rightarrow> u32 \<Rightarrow> u16 \<Rightarrow> u16 \<Rightarrow> u32 \<Rightarrow> u32 \<Rightarrow> xgl_error \<times> world" where
  "transport_send_ack ctx w packet_number source_id session_id connection_id session_epoch =
     (case xgl_wire_encode_ack_range_ext_value (Some (replicate 16 0)) 16 packet_number 0
             (Some [\<lparr> ar_gap = 0, ar_length = 1 \<rparr>]) 1 of
        Inl err \<Rightarrow> (err, w)
      | Inr (ack_value, ack_value_len) \<Rightarrow>
          (case xgl_wire_encode_ext (Some (replicate 32 0)) 32 XGL_WIRE_EXT_ACK_RANGE (Some ack_value) ack_value_len of
             Inl err \<Rightarrow> (err, w)
           | Inr (ack_ext, ack_ext_len) \<Rightarrow>
               if \<not> tc_lower_layer ctx then (XGL_ERR_INVALID_PARAM, w)
               else case xgl_layer_send ctx w
                      (ack_packet (tc_local_id ctx) source_id session_id connection_id packet_number session_epoch ack_ext ack_ext_len) of
                      (err, phy, w) \<Rightarrow> (err, w)))"

text \<open>The bitmap of the buffered packets: bytes, highest bit, whether there is any.\<close>

definition sack_mark ::
  "u32 \<Rightarrow> bytes \<times> nat \<times> bool \<Rightarrow> xgl_transport_rx_buffered_packet \<Rightarrow> bytes \<times> nat \<times> bool" where
  "sack_mark base_packet = (\<lambda>(bitmap, highest_bit, has_received) node.
     if pk_packet_number (rx_packet node) < base_packet then (bitmap, highest_bit, has_received)
     else
       let diff = pk_packet_number (rx_packet node) - base_packet
       in if diff \<ge> 64 then (bitmap, highest_bit, has_received)
          else let d = unat diff
               in (bitmap[d div 8 := bitmap ! (d div 8) OR push_bit (d mod 8) 1],
                   if d > highest_bit then d else highest_bit, True))"

definition transport_send_sack ::
  "xgl_transport_ctx \<Rightarrow> world \<Rightarrow> nat \<Rightarrow> u16 \<Rightarrow> u32 \<Rightarrow> u16 \<Rightarrow> u32 \<Rightarrow> u32 \<Rightarrow> xgl_error \<times> world" where
  "transport_send_sack ctx w i source_id base_packet session_id connection_id session_epoch =
     (case foldl (sack_mark base_packet) (replicate 8 0, 0, False) (tp_rx_buffered (peer_at ctx i)) of
        (bitmap, highest_bit, has_received) \<Rightarrow>
          let bitmap_len = (if has_received then highest_bit div 8 + 1 else 1)
          in (case xgl_wire_encode_sack_ext_value (Some (replicate 16 0)) 16 base_packet (Some bitmap) bitmap_len of
                Inl err \<Rightarrow> (err, w)
              | Inr (sack_value, sack_value_len) \<Rightarrow>
                  (case xgl_wire_encode_ext (Some (replicate 32 0)) 32 XGL_WIRE_EXT_SACK (Some sack_value) sack_value_len of
                     Inl err \<Rightarrow> (err, w)
                   | Inr (sack_ext, sack_ext_len) \<Rightarrow>
                       if \<not> tc_lower_layer ctx then (XGL_ERR_INVALID_PARAM, w)
                       else case xgl_layer_send ctx w
                              (ack_packet (tc_local_id ctx) source_id session_id connection_id base_packet session_epoch
                                 sack_ext sack_ext_len) of
                              (err, phy, w) \<Rightarrow> (err, w))))"

section \<open>Retransmission\<close>

text \<open>The packet is known by its address in the queue of the peer.\<close>

definition queue_update ::
  "nat \<Rightarrow> (xgl_reliable_queue \<Rightarrow> xgl_reliable_queue) \<Rightarrow> xgl_transport_ctx \<Rightarrow> xgl_transport_ctx" where
  "queue_update i f ctx = peer_update i (\<lambda>peer. peer \<lparr> tp_reliable_queue := f (tp_reliable_queue peer) \<rparr>) ctx"

definition set_packet_at :: "nat \<Rightarrow> xgl_reliable_packet \<Rightarrow> xgl_reliable_queue \<Rightarrow> xgl_reliable_queue" where
  "set_packet_at a p q = q \<lparr> rq_heap := (rq_heap q)(a \<mapsto> p) \<rparr>"

definition retransmitted_packet :: "xgl_reliable_packet \<Rightarrow> xgl_packet" where
  "retransmitted_packet rel = zero_packet
     \<lparr> pk_source_id := rp_source_id rel, pk_target_id := rp_target_id rel, pk_session_id := rp_session_id rel,
       pk_connection_id := rp_connection_id rel, pk_packet_number := rp_packet_number rel,
       pk_session_epoch := rp_session_epoch rel, pk_packet_type := rp_packet_type rel, pk_flags := rp_flags rel,
       pk_data_type := rp_data_type rel, pk_reliable := 1, pk_fragment := of_bool (rp_fragment rel),
       pk_priority := rp_priority rel, pk_data := Some \<lparr> pd_data = Some (rp_data rel), pd_data_len = length (rp_data rel) \<rparr>,
       pk_extensions := rp_extensions rel,
       pk_extensions_len := (case rp_extensions rel of None \<Rightarrow> 0 | Some e \<Rightarrow> length e), pk_phy := rp_phy rel \<rparr>"

definition transport_retransmit_reliable_packet ::
  "xgl_transport_ctx \<Rightarrow> world \<Rightarrow> nat \<Rightarrow> nat \<Rightarrow> u32 \<Rightarrow> xgl_error \<times> xgl_transport_ctx \<times> world" where
  "transport_retransmit_reliable_packet ctx w i a current_time_ms =
     (if \<not> tc_lower_layer ctx then (XGL_ERR_INVALID_PARAM, ctx, w)
      else
        let rel = packet_at (tp_reliable_queue (peer_at ctx i)) a
        in (case xgl_layer_send ctx w (retransmitted_packet rel) of
              (err, phy, w) \<Rightarrow>
                if err \<noteq> XGL_OK then (err, transport_count_send_error ctx, w)
                else
                  let retry_count = rp_retry_count rel + 1;
                      rel = rel \<lparr> rp_retry_count := retry_count,
                              rp_timeout_ms := xgl_reliable_calc_backoff (rp_initial_timeout_ms rel) retry_count,
                              rp_send_timestamp := current_time_ms \<rparr>
                  in (XGL_OK, queue_update i (set_packet_at a rel) ctx, w)))"

fun transport_process_retransmission_queue ::
  "xgl_transport_ctx \<Rightarrow> world \<Rightarrow> nat \<Rightarrow> u32 \<Rightarrow> nat list \<Rightarrow> u32 \<Rightarrow> u32 \<times> xgl_transport_ctx \<times> world" where
  "transport_process_retransmission_queue ctx w i current_time_ms [] retransmit_count = (retransmit_count, ctx, w)"
| "transport_process_retransmission_queue ctx w i current_time_ms (a # as) retransmit_count =
     (let queue = tp_reliable_queue (peer_at ctx i);
          rel = packet_at queue a
      in if rp_send_timestamp rel = 0
         then transport_process_retransmission_queue ctx w i current_time_ms as retransmit_count
         else if current_time_ms - rp_send_timestamp rel < word_of_int (rp_timeout_ms rel)
         then transport_process_retransmission_queue ctx w i current_time_ms as retransmit_count
         else if rp_retry_count rel \<ge> rq_max_retry_count queue
         then transport_process_retransmission_queue
                (transport_count_send_error
                   (queue_update i (\<lambda>q. snd (xgl_reliable_remove_packet_number q (rp_packet_number rel) (rp_target_id rel))) ctx))
                (xgl_transport_report_error ctx w XGL_ERR_ACK_TIMEOUT) i current_time_ms as retransmit_count
         else (case transport_retransmit_reliable_packet ctx w i a current_time_ms of
                 (err, ctx, w) \<Rightarrow>
                   transport_process_retransmission_queue ctx w i current_time_ms as
                     (if err = XGL_OK then retransmit_count + 1 else retransmit_count)))"

fun process_retransmissions_loop ::
  "xgl_transport_ctx \<Rightarrow> world \<Rightarrow> u32 \<Rightarrow> nat list \<Rightarrow> u32 \<Rightarrow> u32 \<times> xgl_transport_ctx \<times> world" where
  "process_retransmissions_loop ctx w current_time_ms [] retransmit_count = (retransmit_count, ctx, w)"
| "process_retransmissions_loop ctx w current_time_ms (i # is) retransmit_count =
     (case transport_process_retransmission_queue ctx w i current_time_ms
             (rq_wait_ack_list (tp_reliable_queue (peer_at ctx i))) 0 of
        (n, ctx, w) \<Rightarrow>
          process_retransmissions_loop (peer_update i transport_update_peer_deadline ctx) w current_time_ms is
            (retransmit_count + n))"

definition transport_process_retransmissions ::
  "xgl_transport_ctx \<Rightarrow> world \<Rightarrow> u32 \<Rightarrow> u32 \<times> xgl_transport_ctx \<times> world" where
  "transport_process_retransmissions ctx w current_time_ms =
     process_retransmissions_loop ctx w current_time_ms [0..<length (tc_peers ctx)] 0"

definition add_rx_dropped :: "u32 \<Rightarrow> xgl_layer_stats \<Rightarrow> xgl_layer_stats" where
  "add_rx_dropped n s = s \<lparr> ls_rx_dropped := ls_rx_dropped s + ucast n \<rparr>"

definition xgl_transport_run ::
  "xgl_transport_ctx \<Rightarrow> world \<Rightarrow> u32 \<Rightarrow> xgl_error \<times> xgl_transport_ctx \<times> world" where
  "xgl_transport_run ctx w current_time_ms =
     (case transport_process_retransmissions ctx w current_time_ms of
        (retransmit_count, ctx, w) \<Rightarrow>
          let ctx = (if retransmit_count > 0
                     then ctx \<lparr> tc_tx_retries := map_option (\<lambda>n. n + ucast retransmit_count) (tc_tx_retries ctx) \<rparr> else ctx);
              (ctx, w) = (case tc_fragment_mgr ctx of
                None \<Rightarrow> (ctx, w)
              | Some m \<Rightarrow>
                  (case xgl_fragment_process_timeouts m current_time_ms of
                     (timeout_count, m) \<Rightarrow>
                       let ctx = ctx \<lparr> tc_fragment_mgr := Some m \<rparr>
                       in if timeout_count > 0
                          then (tp_count (add_rx_dropped timeout_count) ctx, xgl_transport_report_error ctx w XGL_ERR_TIMEOUT)
                          else (ctx, w)))
          in (XGL_OK, snd (transport_reclaim_idle_peers ctx current_time_ms), w))"

section \<open>Updates\<close>

lemma tc_peers_simps [simp]:
  "tc_peers (tp_count f ctx) = tc_peers ctx" "tc_rx_callback (tp_count f ctx) = tc_rx_callback ctx"
  "tc_fragment_mgr (tp_count f ctx) = tc_fragment_mgr ctx" "tc_lower_layer (tp_count f ctx) = tc_lower_layer ctx"
  "tc_peers (peer_update i g ctx) = (tc_peers ctx)[i := g (peer_at ctx i)]"
  "tc_rx_callback (peer_update i g ctx) = tc_rx_callback ctx" "tc_fragment_mgr (peer_update i g ctx) = tc_fragment_mgr ctx"
  "tc_lower_layer (peer_update i g ctx) = tc_lower_layer ctx"
  by (simp_all add: tp_count_def peer_update_def)

lemma tc_other_simps [simp]:
  "tc_local_id (tp_count f ctx) = tc_local_id ctx" "tc_local_id (peer_update i g ctx) = tc_local_id ctx"
  "tc_window (tp_count f ctx) = tc_window ctx" "tc_window (peer_update i g ctx) = tc_window ctx"
  "tc_max_frame_size (tp_count f ctx) = tc_max_frame_size ctx" "tc_max_frame_size (peer_update i g ctx) = tc_max_frame_size ctx"
  "tc_route_table (tp_count f ctx) = tc_route_table ctx" "tc_route_table (peer_update i g ctx) = tc_route_table ctx"
  "tc_auth_tag_len (tp_count f ctx) = tc_auth_tag_len ctx" "tc_auth_tag_len (peer_update i g ctx) = tc_auth_tag_len ctx"
  by (simp_all add: tp_count_def peer_update_def)

lemma w_time_log: "w_time w = (now, w') \<Longrightarrow> w_log w' = w_log w"
  by (auto simp: w_time_def split: list.splits)

lemma w_alloc_log: "w_alloc w = (ok, w') \<Longrightarrow> w_log w' = w_log w"
  by (auto simp: w_alloc_def split: prod.splits)

lemma layer_send_log:
  "tc_lower_layer ctx \<Longrightarrow> xgl_layer_send ctx w p = (err, phy, w') \<Longrightarrow> w_log w' = w_log w @ [ToNetwork p]"
  by (auto simp: xgl_layer_send_def w_put_def split: list.splits)

end
