(* ===== verification/Xgl_Transport_Rx.thy ===== *)
theory Xgl_Transport_Rx
  imports Xgl_Transport "HOL-Library.Sublist"
begin

text \<open>
  The receiving half of the transport layer: control packets, acknowledgements, the buffer of packets
  that arrive ahead of their turn, delivery to the application.
\<close>

section \<open>The code\<close>

subsection \<open>The buffer of out-of-order packets\<close>

abbreviation rx_number :: "xgl_transport_rx_buffered_packet \<Rightarrow> u32" where
  "rx_number b \<equiv> pk_packet_number (rx_packet b)"

text \<open>The walk along the list: the position found, if any, and the position before it.\<close>

fun find_rx_loop ::
  "u32 \<Rightarrow> nat option \<Rightarrow> nat \<Rightarrow> xgl_transport_rx_buffered_packet list \<Rightarrow> nat option \<times> nat option" where
  "find_rx_loop packet_number prev i [] = (None, prev)"
| "find_rx_loop packet_number prev i (node # nodes) =
     (if rx_number node = packet_number then (Some i, prev)
      else if rx_number node > packet_number then (None, prev)
      else find_rx_loop packet_number (Some i) (i + 1) nodes)"

definition transport_find_rx_buffered :: "xgl_transport_peer_state \<Rightarrow> u32 \<Rightarrow> nat option \<times> nat option" where
  "transport_find_rx_buffered peer packet_number = find_rx_loop packet_number None 0 (tp_rx_buffered peer)"

definition transport_copy_rx_buffered_packet ::
  "world \<Rightarrow> xgl_packet \<Rightarrow> xgl_packet_data \<Rightarrow> bytes \<Rightarrow> u32 \<Rightarrow> (xgl_error + xgl_transport_rx_buffered_packet) \<times> world" where
  "transport_copy_rx_buffered_packet w packet data d packet_number =
     (case w_alloc w of
        (False, w) \<Rightarrow> (Inl XGL_ERR_NO_MEMORY, w)
      | (True, w) \<Rightarrow>
          let bytes = mem_read d 0 (pd_data_len data);
              buffered = (\<lambda>extensions n.
                \<lparr> rx_packet = packet \<lparr> pk_packet_number := packet_number,
                    pk_data := Some \<lparr> pd_data = Some bytes, pd_data_len = pd_data_len data \<rparr>,
                    pk_extensions := extensions, pk_extensions_len := n \<rparr>,
                  rx_data = bytes, rx_data_len = pd_data_len data \<rparr>)
          in (case pk_extensions packet of
                None \<Rightarrow> (Inr (buffered None 0), w)
              | Some e \<Rightarrow>
                  if pk_extensions_len packet = 0 then (Inr (buffered None 0), w)
                  else (case w_alloc w of
                          (False, w) \<Rightarrow> (Inl XGL_ERR_NO_MEMORY, w)
                        | (True, w) \<Rightarrow>
                            (Inr (buffered (Some (mem_read e 0 (pk_extensions_len packet))) (pk_extensions_len packet)), w))))"

definition transport_insert_rx_buffered ::
  "xgl_transport_peer_state \<Rightarrow> xgl_transport_rx_buffered_packet \<Rightarrow> u32 \<Rightarrow> xgl_transport_peer_state" where
  "transport_insert_rx_buffered peer buffered packet_number =
     (let nodes = tp_rx_buffered peer
      in case snd (transport_find_rx_buffered peer packet_number) of
           None \<Rightarrow> peer \<lparr> tp_rx_buffered := buffered # nodes, tp_rx_buffered_count := tp_rx_buffered_count peer + 1 \<rparr>
         | Some prev \<Rightarrow> peer \<lparr> tp_rx_buffered := take (prev + 1) nodes @ buffered # drop (prev + 1) nodes,
                                tp_rx_buffered_count := tp_rx_buffered_count peer + 1 \<rparr>)"

definition transport_cache_out_of_order_packet ::
  "xgl_transport_ctx \<Rightarrow> world \<Rightarrow> nat \<Rightarrow> xgl_packet \<Rightarrow> u32 \<Rightarrow> xgl_error \<times> xgl_transport_ctx \<times> world" where
  "transport_cache_out_of_order_packet ctx w i packet packet_number =
     (case pk_data packet of
        None \<Rightarrow> (XGL_ERR_INVALID_PARAM, ctx, w)
      | Some data \<Rightarrow>
          (case pd_data data of
             None \<Rightarrow> (XGL_ERR_INVALID_PARAM, ctx, w)
           | Some d \<Rightarrow>
               if pd_data_len data = 0 then (XGL_ERR_INVALID_PARAM, ctx, w)
               else
                 let peer = peer_at ctx i;
                     window = (let n = sw_window_size (tp_tx_window peer) in if n = 0 then 1 else ucast n) :: u32
                 in if packet_number - tp_rx_next_packet_number peer \<ge> window then (XGL_ERR_WINDOW_FULL, ctx, w)
                    else if ucast (tp_rx_buffered_count peer) \<ge> window then (XGL_ERR_WINDOW_FULL, ctx, w)
                    else if fst (transport_find_rx_buffered peer packet_number) \<noteq> None then (XGL_OK, ctx, w)
                    else
                      (case w_alloc w of
                         (False, w) \<Rightarrow> (XGL_ERR_NO_MEMORY, ctx, w)
                       | (True, w) \<Rightarrow>
                           (case transport_copy_rx_buffered_packet w packet data d packet_number of
                              (Inl err, w) \<Rightarrow> (err, ctx, w)
                            | (Inr buffered, w) \<Rightarrow>
                                (XGL_OK, peer_update i (\<lambda>peer. transport_insert_rx_buffered peer buffered packet_number) ctx, w)))))"

definition transport_take_rx_buffered ::
  "xgl_transport_peer_state \<Rightarrow> u32 \<Rightarrow> xgl_transport_rx_buffered_packet option \<times> xgl_transport_peer_state" where
  "transport_take_rx_buffered peer packet_number =
     (case fst (transport_find_rx_buffered peer packet_number) of
        None \<Rightarrow> (None, peer)
      | Some i \<Rightarrow>
          let nodes = tp_rx_buffered peer
          in (Some (nodes ! i),
              peer \<lparr> tp_rx_buffered := take i nodes @ drop (i + 1) nodes,
                     tp_rx_buffered_count :=
                       (if tp_rx_buffered_count peer > 0 then tp_rx_buffered_count peer - 1 else tp_rx_buffered_count peer) \<rparr>))"

subsection \<open>Delivery\<close>

text \<open>The loop body that looks for the fragment extension: \<open>Inl\<close> leaves the loop, with an error or with the values found.\<close>

definition fragment_ext_body :: "xgl_wire_ext \<Rightarrow> unit \<Rightarrow> (xgl_error + u32 \<times> u32 \<times> u32) + unit" where
  "fragment_ext_body ext s =
     (if ext_type ext = XGL_WIRE_EXT_FRAGMENT
      then Inl (xgl_wire_decode_fragment_ext_value (Some (ext_value ext)) (ext_len ext))
      else Inr ())"

definition transport_fragment_ext :: "xgl_packet \<Rightarrow> xgl_error + u32 \<times> u32 \<times> u32" where
  "transport_fragment_ext packet =
     (if pk_extensions packet = None \<or> pk_extensions_len packet = 0 then Inl XGL_ERR_INVALID_FRAME
      else case xgl_wire_ext_cursor_init (pk_extensions packet) (pk_extensions_len packet) of
             Inl err \<Rightarrow> Inl err
           | Inr cursor \<Rightarrow>
               (case ext_while fragment_ext_body cursor () of
                  Inl found \<Rightarrow> found
                | Inr (err, _) \<Rightarrow> if err \<noteq> XGL_ERR_NOT_FOUND then Inl err else Inl XGL_ERR_INVALID_FRAME))"

definition rx_callback :: "xgl_transport_ctx \<Rightarrow> u16 \<Rightarrow> u8 \<Rightarrow> u8 option list \<Rightarrow> world \<Rightarrow> world" where
  "rx_callback ctx source_id data_type d w = (if tc_rx_callback ctx then w_put (ToApp source_id data_type d) w else w)"

text \<open>The reassembly reads the clock when the first fragment of a message is stored; the reading is the next one of the world.\<close>

definition transport_deliver_packet ::
  "xgl_transport_ctx \<Rightarrow> world \<Rightarrow> xgl_packet \<Rightarrow> bytes option \<Rightarrow> nat \<Rightarrow> xgl_error \<times> xgl_transport_ctx \<times> world" where
  "transport_deliver_packet ctx w packet data data_len =
     (case data of
        None \<Rightarrow> (XGL_ERR_NULL_POINTER, ctx, w)
      | Some d \<Rightarrow>
          let source_id = pk_source_id packet; data_type = pk_data_type packet
          in (case (if pk_fragment packet \<noteq> 0 then tc_fragment_mgr ctx else None) of
                Some m \<Rightarrow>
                  (case transport_fragment_ext packet of
                     Inl err \<Rightarrow> (err, ctx, w)
                   | Inr (message_id, fragment_offset, message_len) \<Rightarrow>
                       (case xgl_fragment_process_ext m source_id (pk_connection_id packet) (pk_session_epoch packet) data_type
                               message_id fragment_offset message_len (Some d) data_len 0 (fst (w_time w)) (w_allocs w) of
                          (err, complete, m, allocs) \<Rightarrow>
                            let ctx = ctx \<lparr> tc_fragment_mgr := Some m \<rparr>;
                                w = (snd (w_time w)) \<lparr> w_allocs := allocs \<rparr>
                            in if err = XGL_OK
                               then (case complete of
                                       None \<Rightarrow> (XGL_OK, ctx, w)
                                     | Some (complete_data, complete_len) \<Rightarrow>
                                         (XGL_OK, tp_count (count_rx_frame complete_len) ctx,
                                          rx_callback ctx source_id data_type (take complete_len complete_data) w))
                               else if err = XGL_ERR_BUSY then (XGL_OK, ctx, w)
                               else (err, ctx, w)))
              | None \<Rightarrow>
                  (XGL_OK, tp_count (count_rx_frame data_len) ctx,
                   rx_callback ctx source_id data_type (map Some (mem_read d 0 data_len)) w)))"

subsection \<open>Peers of received packets\<close>

definition scoped :: "xgl_packet \<Rightarrow> bool" where
  "scoped packet \<longleftrightarrow> pk_connection_id packet \<noteq> 0 \<or> pk_session_epoch packet \<noteq> 0"

definition transport_find_rx_peer :: "xgl_transport_ctx \<Rightarrow> xgl_packet \<Rightarrow> nat option" where
  "transport_find_rx_peer ctx packet =
     (if scoped packet
      then transport_find_peer_scope ctx (pk_source_id packet) (pk_connection_id packet) (pk_session_epoch packet)
      else transport_find_peer ctx (pk_source_id packet))"

definition transport_get_or_create_rx_peer ::
  "xgl_transport_ctx \<Rightarrow> world \<Rightarrow> xgl_packet \<Rightarrow> nat option \<times> xgl_transport_ctx \<times> world" where
  "transport_get_or_create_rx_peer ctx w packet =
     (if scoped packet
      then transport_get_or_create_peer_scope ctx w (pk_source_id packet) (pk_connection_id packet) (pk_session_epoch packet)
      else transport_get_or_create_peer ctx w (pk_source_id packet))"

definition transport_prepare_rx_peer ::
  "xgl_transport_ctx \<Rightarrow> world \<Rightarrow> xgl_packet \<Rightarrow> xgl_error \<times> nat option \<times> xgl_transport_ctx \<times> world" where
  "transport_prepare_rx_peer ctx w packet =
     (if pk_session_id packet = 0 then (XGL_OK, None, ctx, w)
      else
        (case transport_find_rx_peer ctx packet of
           None \<Rightarrow>
             (case transport_get_or_create_rx_peer ctx w packet of
                (None, ctx, w) \<Rightarrow> (XGL_ERR_NO_MEMORY, None, ctx, w)
              | (Some i, ctx, w) \<Rightarrow>
                  (case transport_reset_peer_state ctx w i (pk_session_id packet) (pk_connection_id packet)
                          (pk_session_epoch packet) of
                     (ctx, w) \<Rightarrow> (XGL_OK, Some i, ctx, w)))
         | Some i \<Rightarrow>
             if pk_session_id packet \<noteq> tp_session_id (peer_at ctx i) then (XGL_ERR_SEQUENCE_ERROR, Some i, ctx, w)
             else (XGL_OK, Some i, ctx, w)))"

definition transport_process_control_packet ::
  "xgl_transport_ctx \<Rightarrow> world \<Rightarrow> xgl_packet \<Rightarrow> xgl_error \<times> xgl_transport_ctx \<times> world" where
  "transport_process_control_packet ctx w packet =
     (let session_id = pk_session_id packet AND XGL_SESSION_ID_MASK
      in if pk_packet_type packet \<noteq> XGL_PACKET_TYPE_CONTROL \<or>
            pk_data_type packet \<noteq> XGL_TRANSPORT_CONTROL_HELLO \<and> pk_data_type packet \<noteq> XGL_TRANSPORT_CONTROL_RESET
         then (XGL_ERR_INVALID_FRAME, ctx, w)
         else if session_id = 0 then (XGL_ERR_INVALID_FRAME, ctx, w)
         else
           (case transport_get_or_create_rx_peer ctx w packet of
              (None, ctx, w) \<Rightarrow> (XGL_ERR_NO_MEMORY, ctx, w)
            | (Some i, ctx, w) \<Rightarrow>
                if pk_data_type packet = XGL_TRANSPORT_CONTROL_RESET \<or> tp_session_id (peer_at ctx i) \<noteq> session_id
                then (case transport_reset_peer_state ctx w i session_id (pk_connection_id packet) (pk_session_epoch packet) of
                        (ctx, w) \<Rightarrow> (XGL_OK, ctx, w))
                else (case w_time w of
                        (now, w) \<Rightarrow>
                          (XGL_OK, peer_update i (\<lambda>peer. peer \<lparr> tp_session_established := True, tp_last_active_ms := now \<rparr>) ctx, w))))"

subsection \<open>Acknowledgements\<close>

text \<open>Marking one packet number in the window of the peer and, where it is inside, in that of the context.\<close>

definition mark_windows :: "nat \<Rightarrow> u32 \<Rightarrow> xgl_transport_ctx \<Rightarrow> xgl_transport_ctx" where
  "mark_windows i packet_number ctx =
     (let ctx = peer_update i (\<lambda>peer. peer \<lparr> tp_tx_window :=
            snd (xgl_window_mark_ack_packet_number (tp_tx_window peer) packet_number) \<rparr>) ctx
      in if xgl_window_is_in_window_packet_number (tc_window ctx) packet_number
         then ctx \<lparr> tc_window := snd (xgl_window_mark_ack_packet_number (tc_window ctx) packet_number) \<rparr> else ctx)"

definition advance_windows :: "nat \<Rightarrow> xgl_transport_ctx \<Rightarrow> xgl_transport_ctx" where
  "advance_windows i ctx =
     (let ctx = peer_update i (\<lambda>peer. peer \<lparr> tp_tx_window := snd (xgl_window_advance_base_packet_number (tp_tx_window peer)) \<rparr>) ctx
      in ctx \<lparr> tc_window := snd (xgl_window_advance_base_packet_number (tc_window ctx)) \<rparr>)"

text \<open>The inner loop, from \<open>high\<close> down to \<open>low\<close>; the 64-bit counters stay below \<open>2 ^ 32\<close>.\<close>

definition mark_range :: "nat \<Rightarrow> nat \<Rightarrow> nat \<Rightarrow> xgl_transport_ctx \<Rightarrow> xgl_transport_ctx" where
  "mark_range i low high ctx = foldl (\<lambda>ctx n. mark_windows i (word_of_nat n) ctx) ctx (rev [low..<high + 1])"

fun mark_ranges_loop :: "nat \<Rightarrow> nat \<Rightarrow> nat \<Rightarrow> xgl_wire_ack_range list \<Rightarrow> xgl_transport_ctx \<Rightarrow> xgl_transport_ctx" where
  "mark_ranges_loop i k next_high [] ctx = ctx"
| "mark_ranges_loop i k next_high (r # rs) ctx =
     (if ar_length r = 0 then mark_ranges_loop i (k + 1) next_high rs ctx
      else
        let skip = unat (ar_gap r) + 1
        in if k > 0 \<and> next_high < skip then ctx
           else
             let high = (if k > 0 then next_high - skip else next_high);
                 low = (if high + 1 > unat (ar_length r) then high - unat (ar_length r) + 1 else 0)
             in mark_ranges_loop i (k + 1) low rs (mark_range i low high ctx))"

definition transport_mark_ack_range_windows ::
  "nat \<Rightarrow> u32 \<Rightarrow> xgl_wire_ack_range list \<Rightarrow> xgl_transport_ctx \<Rightarrow> xgl_transport_ctx" where
  "transport_mark_ack_range_windows i largest_ack ranges ctx =
     advance_windows i (mark_ranges_loop i 0 (unat largest_ack) ranges ctx)"

text \<open>The first extension of a given type: \<open>Inl\<close> of it, or the error that ended the walk.\<close>

definition ext_type_body :: "u8 \<Rightarrow> xgl_wire_ext \<Rightarrow> unit \<Rightarrow> xgl_wire_ext + unit" where
  "ext_type_body type ext s = (if ext_type ext = type then Inl ext else Inr ())"

text \<open>The result of the two \<^verbatim>\<open>try\<close> functions: an error code and whether the extension was handled.\<close>

definition transport_try_process_ack_range_ext ::
  "xgl_transport_ctx \<Rightarrow> nat \<Rightarrow> u16 \<Rightarrow> bytes option \<Rightarrow> nat \<Rightarrow> xgl_error \<times> bool \<times> xgl_transport_ctx" where
  "transport_try_process_ack_range_ext ctx i source_id data data_len =
     (if data = None \<or> data_len = 0 then (XGL_ERR_INVALID_FRAME, False, ctx)
      else
        (case xgl_wire_ext_cursor_init data data_len of
           Inl err \<Rightarrow> (err, False, ctx)
         | Inr cursor \<Rightarrow>
             (case ext_while (ext_type_body XGL_WIRE_EXT_ACK_RANGE) cursor () of
                Inr (err, _) \<Rightarrow> (if err = XGL_ERR_NOT_FOUND then XGL_OK else err, False, ctx)
              | Inl ext \<Rightarrow>
                  (case xgl_wire_decode_ack_range_ext_value (Some (ext_value ext)) (ext_len ext) True 64 of
                     Inl err \<Rightarrow> (err, False, ctx)
                   | Inr (largest_ack, ack_delay_us, ranges) \<Rightarrow>
                       (case xgl_reliable_remove_ack_ranges (tp_reliable_queue (peer_at ctx i)) source_id largest_ack
                               (Some ranges) (length ranges) of
                          (removed, queue) \<Rightarrow>
                            let ctx = queue_update i (\<lambda>_. queue) ctx
                            in if removed = 0 then (XGL_ERR_SEQUENCE_ERROR, False, ctx)
                               else (XGL_OK, True,
                                     peer_update i transport_update_peer_deadline
                                       (transport_mark_ack_range_windows i largest_ack ranges ctx)))))))"

definition transport_sack_bit_is_set :: "bytes \<Rightarrow> nat \<Rightarrow> bool" where
  "transport_sack_bit_is_set bitmap bit_index \<longleftrightarrow> (bitmap ! (bit_index div 8)) AND push_bit (bit_index mod 8) 1 \<noteq> 0"

text \<open>The loop over the bits up to the highest one set; \<open>n\<close> counts the retransmissions.\<close>

fun sack_loop ::
  "xgl_transport_ctx \<Rightarrow> world \<Rightarrow> nat \<Rightarrow> u16 \<Rightarrow> u32 \<Rightarrow> bytes \<Rightarrow> u32 \<Rightarrow> nat list \<Rightarrow> nat
     \<Rightarrow> xgl_error \<times> nat \<times> xgl_transport_ctx \<times> world" where
  "sack_loop ctx w i source_id base_packet bitmap now [] n = (XGL_OK, n, ctx, w)"
| "sack_loop ctx w i source_id base_packet bitmap now (b # bs) n =
     (let packet_number = base_packet + word_of_nat b;
          queue = tp_reliable_queue (peer_at ctx i)
      in if transport_sack_bit_is_set bitmap b
         then (case xgl_reliable_find_packet_number queue packet_number source_id of
                 None \<Rightarrow> sack_loop ctx w i source_id base_packet bitmap now bs n
               | Some a \<Rightarrow>
                   sack_loop (mark_windows i packet_number
                       (queue_update i (\<lambda>q. snd (xgl_reliable_remove_packet_number q packet_number source_id)) ctx))
                     w i source_id base_packet bitmap now bs n)
         else (case xgl_reliable_find_packet_number queue packet_number source_id of
                 None \<Rightarrow> sack_loop ctx w i source_id base_packet bitmap now bs n
               | Some a \<Rightarrow>
                   (case transport_retransmit_reliable_packet ctx w i a now of
                      (err, ctx, w) \<Rightarrow>
                        if err \<noteq> XGL_OK then (err, n, ctx, w)
                        else sack_loop ctx w i source_id base_packet bitmap now bs (n + 1))))"

definition transport_process_sack_value ::
  "xgl_transport_ctx \<Rightarrow> world \<Rightarrow> nat \<Rightarrow> u16 \<Rightarrow> bytes \<Rightarrow> nat \<Rightarrow> xgl_error \<times> nat \<times> xgl_transport_ctx \<times> world" where
  "transport_process_sack_value ctx w i source_id val val_len =
     (case xgl_wire_decode_sack_ext_value (Some val) val_len True 64 of
        Inl err \<Rightarrow> (err, 0, ctx, w)
      | Inr (base_packet, bitmap) \<Rightarrow>
          if length bitmap = 0 then (XGL_ERR_INVALID_FRAME, 0, ctx, w)
          else
            (case filter (transport_sack_bit_is_set bitmap) [0..<length bitmap * 8] of
               [] \<Rightarrow>
                 (case xgl_reliable_find_packet_number (tp_reliable_queue (peer_at ctx i)) base_packet source_id of
                    None \<Rightarrow> (XGL_ERR_SEQUENCE_ERROR, 0, ctx, w)
                  | Some a \<Rightarrow>
                      (case w_time w of
                         (now, w) \<Rightarrow>
                           (case transport_retransmit_reliable_packet ctx w i a now of
                              (err, ctx, w) \<Rightarrow> (err, if err = XGL_OK then 1 else 0, ctx, w))))
             | b # bs \<Rightarrow>
                 (case w_time w of
                    (now, w) \<Rightarrow>
                      (case sack_loop ctx w i source_id base_packet bitmap now [0..<last (b # bs) + 1] 0 of
                         (err, n, ctx, w) \<Rightarrow>
                           if err \<noteq> XGL_OK then (err, n, ctx, w)
                           else (XGL_OK, n, peer_update i transport_update_peer_deadline (advance_windows i ctx), w)))))"

definition transport_try_process_sack_ext ::
  "xgl_transport_ctx \<Rightarrow> world \<Rightarrow> nat \<Rightarrow> u16 \<Rightarrow> bytes option \<Rightarrow> nat \<Rightarrow> xgl_error \<times> bool \<times> xgl_transport_ctx \<times> world" where
  "transport_try_process_sack_ext ctx w i source_id data data_len =
     (if data = None \<or> data_len = 0 then (XGL_ERR_INVALID_FRAME, False, ctx, w)
      else
        (case xgl_wire_ext_cursor_init data data_len of
           Inl err \<Rightarrow> (err, False, ctx, w)
         | Inr cursor \<Rightarrow>
             (case ext_while (ext_type_body XGL_WIRE_EXT_SACK) cursor () of
                Inr (err, _) \<Rightarrow> (if err = XGL_ERR_NOT_FOUND then XGL_OK else err, False, ctx, w)
              | Inl ext \<Rightarrow>
                  (case transport_process_sack_value ctx w i source_id (ext_value ext) (ext_len ext) of
                     (err, retransmitted, ctx, w) \<Rightarrow>
                       if err \<noteq> XGL_OK then (err, False, ctx, w)
                       else (XGL_OK, True,
                             if retransmitted > 0
                             then ctx \<lparr> tc_tx_retries := map_option (\<lambda>n. n + word_of_nat retransmitted) (tc_tx_retries ctx) \<rparr>
                             else ctx, w)))))"

definition transport_find_ack_peer :: "xgl_transport_ctx \<Rightarrow> xgl_packet \<Rightarrow> nat option" where
  "transport_find_ack_peer ctx packet =
     (case (if scoped packet
            then transport_find_peer_scope ctx (pk_source_id packet) (pk_connection_id packet) (pk_session_epoch packet)
            else transport_find_peer ctx (pk_source_id packet)) of
        Some i \<Rightarrow> Some i
      | None \<Rightarrow> if scoped packet then transport_find_peer ctx (pk_source_id packet) else None)"

definition transport_process_ack_packet ::
  "xgl_transport_ctx \<Rightarrow> world \<Rightarrow> xgl_packet \<Rightarrow> xgl_error \<times> xgl_transport_ctx \<times> world" where
  "transport_process_ack_packet ctx w packet =
     (if pk_packet_type packet \<noteq> XGL_PACKET_TYPE_ACK then (XGL_ERR_INVALID_FRAME, ctx, w)
      else
        (case transport_find_ack_peer ctx packet of
           None \<Rightarrow> (XGL_ERR_SEQUENCE_ERROR, ctx, w)
         | Some i \<Rightarrow>
             if pk_session_id packet \<noteq> 0 \<and> pk_session_id packet \<noteq> tp_session_id (peer_at ctx i)
             then (XGL_ERR_SEQUENCE_ERROR, ctx, w)
             else if pk_flags packet AND XGL_WIRE_FLAG_HAS_EXTENSIONS = 0 \<or> pk_extensions packet = None \<or>
                     pk_extensions_len packet = 0
             then (XGL_ERR_INVALID_FRAME, ctx, w)
             else
               (case transport_try_process_ack_range_ext ctx i (pk_source_id packet) (pk_extensions packet)
                       (pk_extensions_len packet) of
                  (err, handled_ack_range, ctx) \<Rightarrow>
                    if err \<noteq> XGL_OK \<or> handled_ack_range then (err, ctx, w)
                    else
                      (case transport_try_process_sack_ext ctx w i (pk_source_id packet) (pk_extensions packet)
                              (pk_extensions_len packet) of
                         (err, handled_sack, ctx, w) \<Rightarrow>
                           if err \<noteq> XGL_OK \<or> handled_sack then (err, ctx, w)
                           else (XGL_ERR_INVALID_FRAME, ctx, w)))))"

subsection \<open>Order\<close>

definition transport_process_reliable_rx_order ::
  "xgl_transport_ctx \<Rightarrow> world \<Rightarrow> xgl_packet \<Rightarrow> nat option \<Rightarrow> xgl_error \<times> nat option \<times> xgl_transport_ctx \<times> world" where
  "transport_process_reliable_rx_order ctx w packet peer =
     (case (case peer of Some i \<Rightarrow> (Some i, ctx, w) | None \<Rightarrow> transport_get_or_create_rx_peer ctx w packet) of
        (None, ctx, w) \<Rightarrow> (XGL_ERR_NO_MEMORY, None, ctx, w)
      | (Some i, ctx, w) \<Rightarrow>
          let packet_number = transport_receive_packet_number packet;
              ctx = peer_update i (\<lambda>peer. if tp_rx_has_packet_number_state peer then peer
                      else peer \<lparr> tp_rx_next_packet_number := 0, tp_rx_has_packet_number_state := True \<rparr>) ctx;
              expected = tp_rx_next_packet_number (peer_at ctx i);
              ack = (\<lambda>w. snd (transport_send_ack ctx w packet_number (pk_source_id packet) (pk_session_id packet)
                                (pk_connection_id packet) (pk_session_epoch packet)))
          in if packet_number < expected then (XGL_OK, Some i, ctx, ack w)
             else if packet_number > expected
             then (case transport_cache_out_of_order_packet ctx w i packet packet_number of
                     (err, ctx, w) \<Rightarrow>
                       (err, Some i, if err \<noteq> XGL_OK then tp_count count_rx_dropped ctx else ctx,
                        snd (transport_send_sack ctx w i (pk_source_id packet) expected (pk_session_id packet)
                               (pk_connection_id packet) (pk_session_epoch packet))))
             else (XGL_OK, Some i, ctx, ack w))"

text \<open>
  Every round of the loop removes a packet from the buffer, so it ends. The position of the peer is always valid; the test
  makes this visible to the termination proof.
\<close>

function transport_drain_rx_buffered ::
  "xgl_transport_ctx \<Rightarrow> world \<Rightarrow> nat \<Rightarrow> xgl_error \<times> xgl_transport_ctx \<times> world" where
  "transport_drain_rx_buffered ctx w i =
     (case transport_take_rx_buffered (peer_at ctx i) (tp_rx_next_packet_number (peer_at ctx i)) of
        (None, peer) \<Rightarrow> (XGL_OK, ctx, w)
      | (Some buffered, peer) \<Rightarrow>
          if i < length (tc_peers ctx) then
            let ctx = peer_update i (\<lambda>_. peer) ctx;
                packet = rx_packet buffered
            in (case transport_deliver_packet ctx w packet (Some (rx_data buffered)) (rx_data_len buffered) of
                  (err, ctx, w) \<Rightarrow>
                    let w = snd (transport_send_ack ctx w (pk_packet_number packet) (pk_source_id packet) (pk_session_id packet)
                                   (pk_connection_id packet) (pk_session_epoch packet))
                    in if err \<noteq> XGL_OK then (err, ctx, w)
                       else transport_drain_rx_buffered
                              (peer_update i (\<lambda>peer. peer \<lparr> tp_rx_next_packet_number := pk_packet_number packet + 1 \<rparr>) ctx) w i)
          else (XGL_OK, ctx, w))"
  by pat_completeness auto

lemma deliver_peers: "transport_deliver_packet ctx w p d n = (err, ctx', w') \<Longrightarrow> tc_peers ctx' = tc_peers ctx"
  by (auto simp: transport_deliver_packet_def Let_def split: option.splits sum.splits prod.splits if_splits)

lemma find_rx_loop_bound: "find_rx_loop n prev i bs = (Some j, p) \<Longrightarrow> i \<le> j \<and> j < i + length bs"
  by (induction n prev i bs rule: find_rx_loop.induct) (auto split: if_splits)

lemma take_shorter:
  assumes "transport_take_rx_buffered peer n = (Some b, peer')"
  shows "length (tp_rx_buffered peer') < length (tp_rx_buffered peer)"
proof -
  obtain j p where j: "find_rx_loop n None 0 (tp_rx_buffered peer) = (Some j, p)" "tp_rx_buffered peer' =
      take j (tp_rx_buffered peer) @ drop (j + 1) (tp_rx_buffered peer)"
    using assms by (cases "find_rx_loop n None 0 (tp_rx_buffered peer)")
      (auto simp: transport_take_rx_buffered_def transport_find_rx_buffered_def Let_def split: option.splits)
  then show ?thesis using find_rx_loop_bound [OF j(1)] by simp
qed

termination transport_drain_rx_buffered
  by (relation "measure (\<lambda>(ctx, w, i). length (tp_rx_buffered (peer_at ctx i)))")
     (auto dest!: deliver_peers [OF sym] take_shorter [OF sym])

declare transport_drain_rx_buffered.simps [simp del]

subsection \<open>Receiving\<close>

definition transport_decompress :: "xgl_transport_ctx \<Rightarrow> xgl_packet \<Rightarrow> bytes \<Rightarrow> nat \<Rightarrow> bytes \<times> nat" where
  "transport_decompress ctx packet d data_len =
     (if pk_compress packet \<noteq> 0 \<and> tc_codec_registry ctx \<noteq> None
      then (case xgl_codec_find (tc_codec_registry ctx) XGL_CODEC_KIND_COMPRESSION (pk_compress packet) of
              None \<Rightarrow> (d, data_len)
            | Some codec \<Rightarrow>
                (case the (cd_decode codec) (mem_read d 0 data_len) XGL_DATALINK_STACK_BUFFER_SIZE of
                   (err, decoded) \<Rightarrow> if err = XGL_OK then (decoded, length decoded) else (d, data_len)))
      else (d, data_len))"

text \<open>The part of \<^verbatim>\<open>xgl_transport_receive\<close> after the peer has been prepared: order, decompression, delivery, drain.\<close>

definition transport_receive_data ::
  "xgl_transport_ctx \<Rightarrow> world \<Rightarrow> xgl_packet \<Rightarrow> bytes \<Rightarrow> nat \<Rightarrow> nat option \<Rightarrow> xgl_error \<times> xgl_transport_ctx \<times> world" where
  "transport_receive_data ctx w packet d data_len rx_peer =
     (let reliable = (pk_reliable packet = XGL_RELIABILITY_ACK_ELICITING)
      in (case (if reliable then transport_process_reliable_rx_order ctx w packet rx_peer else (XGL_OK, rx_peer, ctx, w)) of
            (err, rx_peer, ctx, w) \<Rightarrow>
              if err \<noteq> XGL_OK then (err, ctx, w)
              else if reliable \<and> (case rx_peer of None \<Rightarrow> False
                     | Some i \<Rightarrow> transport_receive_packet_number packet \<noteq> tp_rx_next_packet_number (peer_at ctx i))
              then (XGL_OK, ctx, w)
              else
                (case transport_decompress ctx packet d data_len of
                   (d, data_len) \<Rightarrow>
                     (case transport_deliver_packet ctx w packet (Some d) data_len of
                        (err, ctx, w) \<Rightarrow>
                          if err \<noteq> XGL_OK then (err, ctx, w)
                          else
                            (case rx_peer of
                               None \<Rightarrow> (XGL_OK, ctx, w)
                             | Some i \<Rightarrow>
                                 if reliable
                                 then transport_drain_rx_buffered
                                        (peer_update i (\<lambda>peer. peer \<lparr> tp_rx_next_packet_number :=
                                           transport_receive_packet_number packet + 1 \<rparr>) ctx) w i
                                 else (XGL_OK, ctx, w))))))"

definition xgl_transport_receive ::
  "xgl_transport_ctx \<Rightarrow> world \<Rightarrow> xgl_packet option \<Rightarrow> xgl_error \<times> xgl_transport_ctx \<times> world" where
  "xgl_transport_receive ctx w packet_ptr =
     (case packet_ptr of
        None \<Rightarrow> (XGL_ERR_NULL_POINTER, ctx, w)
      | Some packet \<Rightarrow>
          if pk_packet_type packet = XGL_PACKET_TYPE_CONTROL then transport_process_control_packet ctx w packet
          else if pk_packet_type packet = XGL_PACKET_TYPE_ACK \<or> pk_reliable packet = XGL_RELIABILITY_ACK_ONLY
          then transport_process_ack_packet ctx w packet
          else
            (case (case pk_data packet of None \<Rightarrow> (None, 0) | Some data \<Rightarrow> (pd_data data, pd_data_len data)) of
               (None, _) \<Rightarrow> (XGL_ERR_NULL_POINTER, ctx, w)
             | (Some d, data_len) \<Rightarrow>
                 (case transport_prepare_rx_peer ctx w packet of
                    (err, rx_peer, ctx, w) \<Rightarrow>
                      if err \<noteq> XGL_OK then (err, ctx, w)
                      else
                        (case rx_peer of
                           None \<Rightarrow> transport_receive_data ctx w packet d data_len None
                         | Some i \<Rightarrow>
                             (case w_time w of
                                (now, w) \<Rightarrow>
                                  transport_receive_data (peer_update i (\<lambda>peer. peer \<lparr> tp_last_active_ms := now \<rparr>) ctx) w
                                    packet d data_len (Some i))))))"

text \<open>The entry points of the layer interface.\<close>

definition transport_send_impl :: "xgl_transport_ctx \<Rightarrow> world \<Rightarrow> xgl_packet option \<Rightarrow> xgl_error \<times> xgl_transport_ctx \<times> world" where
  "transport_send_impl ctx w data = (XGL_ERR_INVALID_PARAM, ctx, w)"

definition transport_receive_impl :: "xgl_transport_ctx \<Rightarrow> world \<Rightarrow> xgl_packet option \<Rightarrow> xgl_error \<times> xgl_transport_ctx \<times> world" where
  "transport_receive_impl ctx w data =
     (case data of None \<Rightarrow> (XGL_ERR_NULL_POINTER, ctx, w) | Some packet \<Rightarrow> xgl_transport_receive ctx w (Some packet))"

definition transport_report_error_impl ::
  "xgl_transport_ctx \<Rightarrow> world \<Rightarrow> xgl_error option \<Rightarrow> xgl_error \<times> xgl_transport_ctx \<times> world" where
  "transport_report_error_impl ctx w error_info =
     (case error_info of
        None \<Rightarrow> (XGL_ERR_NULL_POINTER, ctx, w)
      | Some err \<Rightarrow> (XGL_OK, ctx, xgl_transport_report_error ctx w err))"

section \<open>What the operations leave alone\<close>

text \<open>What the application has been given, of everything in the log.\<close>

fun is_app :: "transport_output \<Rightarrow> bool" where
  "is_app (ToApp _ _ _) = True"
| "is_app _ = False"

definition app :: "world \<Rightarrow> transport_output list" where
  "app w = filter is_app (w_log w)"

lemma app_simps [simp]:
  "app (w \<lparr> w_allocs := as \<rparr>) = app w" "app (w \<lparr> w_sends := ss \<rparr>) = app w" "app (w \<lparr> w_clock := ts \<rparr>) = app w"
  "app (snd (w_alloc w)) = app w" "app (snd (w_time w)) = app w" "app (w_put x w) = app w @ (if is_app x then [x] else [])"
  by (simp_all add: app_def w_alloc_def w_time_def w_put_def split: list.split prod.split)

lemma w_alloc_app: "w_alloc w = (b, w') \<Longrightarrow> app w' = app w"
  by (metis app_simps(4) snd_conv)

lemma w_time_app: "w_time w = (b, w') \<Longrightarrow> app w' = app w"
  by (metis app_simps(5) snd_conv)

lemma app_layer_send [simp]: "app (snd (snd (xgl_layer_send ctx w p))) = app w"
  by (simp add: xgl_layer_send_def split: list.split prod.split)

lemma app_send_ack [simp]: "app (snd (transport_send_ack ctx w n s sid c e)) = app w"
  by (simp add: transport_send_ack_def case_prod_beta split: sum.split)

lemma app_send_sack [simp]: "app (snd (transport_send_sack ctx w i s n sid c e)) = app w"
  by (simp add: transport_send_sack_def case_prod_beta Let_def split: sum.split)

text \<open>The fields by which a peer is found.\<close>

definition peer_key :: "xgl_transport_peer_state \<Rightarrow> u16 \<times> bool \<times> u32 \<times> u32" where
  "peer_key peer = (tp_peer_id peer, tp_has_connection_scope peer, tp_connection_id peer, tp_session_epoch peer)"

lemma find_peer_keys:
  assumes "map peer_key (tc_peers ctx') = map peer_key (tc_peers ctx)"
  shows "transport_find_peer ctx' k = transport_find_peer ctx k" "transport_find_peer_scope ctx' k c e = transport_find_peer_scope ctx k c e"
proof -
  have len: "length (tc_peers ctx') = length (tc_peers ctx)" using assms by (metis length_map)
  have "peer_key (peer_at ctx' i) = peer_key (peer_at ctx i)" if "i < length (tc_peers ctx)" for i
    using assms that len by (metis nth_map)
  then show "transport_find_peer ctx' k = transport_find_peer ctx k"
      "transport_find_peer_scope ctx' k c e = transport_find_peer_scope ctx k c e"
    by (auto simp: transport_find_peer_def transport_find_peer_scope_def len peer_key_def Let_def intro!: find_cong)
qed

lemma find_peer_cong:
  "map peer_key (tc_peers ctx') = map peer_key (tc_peers ctx) \<Longrightarrow> transport_find_rx_peer ctx' p = transport_find_rx_peer ctx p"
  by (simp add: transport_find_rx_peer_def find_peer_keys [of ctx' ctx])

lemma find_rx_peer_bound: "transport_find_rx_peer ctx p = Some i \<Longrightarrow> i < length (tc_peers ctx)"
  by (auto simp: transport_find_rx_peer_def transport_find_peer_def transport_find_peer_scope_def find_Some_iff split: if_splits)

lemma peer_key_update:
  "i < length (tc_peers ctx) \<Longrightarrow> peer_key (g (peer_at ctx i)) = peer_key (peer_at ctx i) \<Longrightarrow>
   map peer_key (tc_peers (peer_update i g ctx)) = map peer_key (tc_peers ctx)"
  by (simp add: map_update) (metis list_update_id nth_map)

text \<open>A new peer: empty queues, nothing received, the window of the context.\<close>

definition fresh_peer :: "xgl_transport_ctx \<Rightarrow> xgl_transport_peer_state \<Rightarrow> bool" where
  "fresh_peer ctx peer \<longleftrightarrow> window_inv (tp_tx_window peer) \<and> sw_window_size (tp_tx_window peer) = sw_window_size (tc_window ctx)
     \<and> tp_reliable_queue peer = xgl_reliable_init (tc_max_retry_count ctx) \<and> tp_rx_buffered peer = []
     \<and> tp_rx_buffered_count peer = 0 \<and> \<not> tp_rx_has_packet_number_state peer \<and> tp_rx_next_packet_number peer = 0
     \<and> tp_session_id peer \<le> XGL_SESSION_ID_MASK"

lemma fresh_window_Inr:
  assumes "fresh_window n w = (Inr window, w')"
  shows "window_inv window" "sw_window_size window = n" "app w' = app w" "w_log w' = w_log w" "sw_next_packet_number window = 0"
proof -
  obtain zero :: xgl_sliding_window where *: "xgl_window_init_with_allocator (Some zero) n (\<lambda>_. fst (w_alloc w)) = (XGL_OK, Some window)"
      "w' = snd (w_alloc w)"
    using assms by (auto simp: fresh_window_def Let_def xgl_window_init_with_allocator_def split: prod.splits if_splits)
  show "window_inv window" by (rule window_init_inv [OF *(1)])
  show "sw_window_size window = n" "sw_next_packet_number window = 0"
    using *(1) by (auto simp: xgl_window_init_with_allocator_def split: if_splits)
  show "app w' = app w" using *(2) by simp
  show "w_log w' = w_log w" using *(2) w_alloc_log [OF prod.collapse [symmetric], of w] by simp
qed

lemma fresh_window_Inl:
  assumes "fresh_window n w = (Inl err, w')"
  shows "app w' = app w" "w_log w' = w_log w"
  using assms w_alloc_log [OF prod.collapse [symmetric], of w] by (auto simp: fresh_window_def Let_def split: prod.splits if_splits)

lemma and_63_le: "(x :: u16) AND 63 \<le> 63"
  by (simp add: word_and_le1)

abbreviation find_peer_for :: "xgl_transport_ctx \<Rightarrow> u16 \<Rightarrow> u32 \<Rightarrow> u32 \<Rightarrow> bool \<Rightarrow> nat option" where
  "find_peer_for ctx k c e sc \<equiv> (if sc then transport_find_peer_scope ctx k c e else transport_find_peer ctx k)"

lemma get_or_create_cases:
  assumes "transport_get_or_create_peer_internal ctx w k c e sc = (r, ctx', w')"
  obtains (found) i where "find_peer_for ctx k c e sc = Some i" "r = Some i" "ctx' = ctx" "w' = w"
  | (failed) n where "find_peer_for ctx k c e sc = None" "r = None" "ctx' = ctx \<lparr> tc_next_session_id := n \<rparr>" "app w' = app w"
      "w_log w' = w_log w"
  | (created) n peer where "find_peer_for ctx k c e sc = None" "r = Some 0"
      "ctx' = ctx \<lparr> tc_next_session_id := n, tc_peers := peer # tc_peers ctx \<rparr>" "app w' = app w" "fresh_peer ctx peer"
      "peer_key peer = (k, sc, if sc then c else 0, if sc then e else 0)" "w_log w' = w_log w" "sw_next_packet_number (tp_tx_window peer) = 0"
      "\<not> tp_hello_sent peer"
proof (cases "find_peer_for ctx k c e sc")
  case (Some i)
  then show thesis using assms found by (auto simp: transport_get_or_create_peer_internal_def split: if_splits)
next
  case None
  obtain ok w1 where a: "w_alloc w = (ok, w1)" by fastforce
  note app1 = w_alloc_app [OF a] w_alloc_log [OF a]
  show thesis
  proof (cases ok)
    case False
    then show thesis
      using assms None a app1 failed [of "tc_next_session_id ctx"] by (auto simp: transport_get_or_create_peer_internal_def split: if_splits)
  next
    case True
    obtain win w2 where win: "fresh_window (sw_window_size (tc_window ctx)) w1 = (win, w2)" by fastforce
    show thesis
    proof (cases win)
      case (Inl err)
      then show thesis
        using assms None a True win fresh_window_Inl [of _ w1 err w2] app1
        by (intro failed [of "tc_next_session_id ctx'"]) (auto simp: transport_get_or_create_peer_internal_def Let_def split: if_splits)
    next
      case (Inr window)
      note W = fresh_window_Inr [OF win [unfolded Inr]]
      show thesis
        using assms None a True win Inr W app1 and_63_le
        by (intro created [where n = "tc_next_session_id ctx'" and peer = "hd (tc_peers ctx')"]) (auto simp: transport_get_or_create_peer_internal_def Let_def fresh_peer_def peer_key_def split: if_splits)
    qed
  qed
qed

section \<open>The buffer is sorted and bounded\<close>

text \<open>
  The packets that wait, as the drain loop sees them: in order, numbered from the next expected one on, within the window.
\<close>

definition rx_ordered :: "u32 \<Rightarrow> nat \<Rightarrow> xgl_transport_rx_buffered_packet list \<Rightarrow> bool" where
  "rx_ordered k win bs \<longleftrightarrow> sorted_wrt (<) (map rx_number bs) \<and>
     (\<forall>b \<in> set bs. k \<le> rx_number b \<and> unat (rx_number b) < unat k + win)"

abbreviation peer_window :: "xgl_transport_peer_state \<Rightarrow> nat" where
  "peer_window peer \<equiv> unat (sw_window_size (tp_tx_window peer))"

definition rx_inv :: "xgl_transport_peer_state \<Rightarrow> bool" where
  "rx_inv peer \<longleftrightarrow> rx_ordered (tp_rx_next_packet_number peer) (peer_window peer) (tp_rx_buffered peer)
     \<and> tp_rx_next_packet_number peer \<notin> rx_number ` set (tp_rx_buffered peer)
     \<and> unat (tp_rx_buffered_count peer) = length (tp_rx_buffered peer)
     \<and> (\<not> tp_rx_has_packet_number_state peer \<longrightarrow> tp_rx_buffered peer = [])"

lemma rx_ordered_length:
  assumes "rx_ordered k win bs" "k \<notin> rx_number ` set bs"
  shows "length bs \<le> win - 1"
proof -
  have "unat ` set (map rx_number bs) \<subseteq> {unat k <..< unat k + win}"
  proof
    fix x assume "x \<in> unat ` set (map rx_number bs)"
    then obtain b where b: "b \<in> set bs" "x = unat (rx_number b)" by auto
    then have "rx_number b \<noteq> k" using assms(2) by auto
    then show "x \<in> {unat k <..< unat k + win}"
      using assms(1) b by (auto simp: rx_ordered_def word_le_nat_alt dest!: bspec intro: le_neq_implies_less)
        (metis le_neq_implies_less unsigned_word_eqI)
  qed
  then have "card (unat ` set (map rx_number bs)) \<le> card {unat k <..< unat k + win}" by (intro card_mono) simp_all
  moreover have "card (unat ` set (map rx_number bs)) = length bs"
    using assms(1) by (subst card_image) (auto simp: rx_ordered_def strict_sorted_iff distinct_card intro: inj_onI unsigned_word_eqI
        simp del: set_map)
  ultimately show ?thesis by simp
qed

lemma rx_ordered_next:
  assumes "rx_ordered k win bs" "k \<notin> rx_number ` set bs" "unat (k + 1) = unat k + 1"
  shows "rx_ordered (k + 1) win bs"
proof -
  have "unat k < unat (rx_number b)" if "b \<in> set bs" for b
  proof -
    have "k \<noteq> rx_number b" using assms(2) that by auto
    then show ?thesis using assms(1) that by (auto simp: rx_ordered_def word_le_nat_alt) (metis le_neq_implies_less unsigned_word_eqI)
  qed
  then show ?thesis using assms(1,3) by (fastforce simp: rx_ordered_def word_le_nat_alt)
qed

lemma find_rx_loop_eq:
  "sorted_wrt (<) (map rx_number bs) \<Longrightarrow> find_rx_loop n prev i bs =
     (let j = length (takeWhile (\<lambda>b. rx_number b < n) bs)
      in (if n \<in> rx_number ` set bs then Some (i + j) else None, if j = 0 then prev else Some (i + j - 1)))"
  by (induction bs arbitrary: prev i) (force simp: Let_def not_less_iff_gr_or_eq)+

lemma insert_rx_buffered_eq:
  assumes "sorted_wrt (<) (map rx_number (tp_rx_buffered peer))"
  shows "transport_insert_rx_buffered peer b n =
     peer \<lparr> tp_rx_buffered := takeWhile (\<lambda>b. rx_number b < n) (tp_rx_buffered peer) @ b # dropWhile (\<lambda>b. rx_number b < n) (tp_rx_buffered peer),
            tp_rx_buffered_count := tp_rx_buffered_count peer + 1 \<rparr>"
  using assms takeWhile_dropWhile_id [of "\<lambda>b. rx_number b < n" "tp_rx_buffered peer"]
  by (auto simp: transport_insert_rx_buffered_def transport_find_rx_buffered_def find_rx_loop_eq Let_def takeWhile_eq_take [symmetric]
      dropWhile_eq_drop [symmetric] simp del: takeWhile_dropWhile_id)

lemma dropWhile_sorted_rx:
  "sorted_wrt (<) (map rx_number bs) \<Longrightarrow> x \<in> set (dropWhile (\<lambda>b. rx_number b < n) bs) \<Longrightarrow> n \<le> rx_number x"
  by (induction bs) (auto split: if_splits simp: not_less intro: order.trans less_imp_le)

lemma sorted_insert_rx:
  assumes "sorted_wrt (<) (map rx_number bs)" "rx_number b = n" "n \<notin> rx_number ` set bs"
  shows "sorted_wrt (<) (map rx_number (takeWhile (\<lambda>b. rx_number b < n) bs @ b # dropWhile (\<lambda>b. rx_number b < n) bs))"
proof -
  have split: "sorted_wrt (<) (map rx_number (takeWhile (\<lambda>b. rx_number b < n) bs @ dropWhile (\<lambda>b. rx_number b < n) bs))"
    using assms(1) by simp
  have "n < rx_number x" if "x \<in> set (dropWhile (\<lambda>b. rx_number b < n) bs)" for x
    using dropWhile_sorted_rx [OF assms(1) that] assms(3) that by (metis imageI le_neq_trans set_dropWhileD)
  then show ?thesis
    using split assms(2) by (auto simp: sorted_wrt_append simp del: takeWhile_dropWhile_id dest: set_takeWhileD)
qed

lemma set_insert_rx: "set (takeWhile P bs @ b # dropWhile P bs) = insert b (set bs)"
  by (metis Un_insert_right list.simps(15) set_append takeWhile_dropWhile_id)

text \<open>The copy of a packet that goes into the buffer.\<close>

definition rx_copy :: "xgl_packet \<Rightarrow> xgl_transport_rx_buffered_packet \<Rightarrow> bool" where
  "rx_copy p b \<longleftrightarrow> (\<exists>d n. pk_data p = Some \<lparr> pd_data = Some d, pd_data_len = n \<rparr> \<and> rx_data b = mem_read d 0 n \<and> rx_data_len b = n
     \<and> rx_packet b = p \<lparr> pk_data := Some \<lparr> pd_data = Some (mem_read d 0 n), pd_data_len = n \<rparr>,
          pk_extensions := pk_extensions (rx_packet b), pk_extensions_len := pk_extensions_len (rx_packet b) \<rparr>)"

lemma copy_rx_spec:
  assumes "transport_copy_rx_buffered_packet w p \<lparr> pd_data = Some d, pd_data_len = m \<rparr> d (pk_packet_number p) = (r, w')"
    and "pk_data p = Some \<lparr> pd_data = Some d, pd_data_len = m \<rparr>"
  shows "app w' = app w" "r = Inr b \<Longrightarrow> rx_copy p b"
proof -
  obtain ok w1 where a: "w_alloc w = (ok, w1)" by fastforce
  obtain ok2 w2 where a2: "w_alloc w1 = (ok2, w2)" by fastforce
  show "app w' = app w"
    using assms a a2 w_alloc_app [OF a] w_alloc_app [OF a2]
    by (auto simp: transport_copy_rx_buffered_packet_def Let_def split: bool.splits option.splits if_splits)
  show "r = Inr b \<Longrightarrow> rx_copy p b"
    using assms a a2 unfolding rx_copy_def
    by (auto simp: transport_copy_rx_buffered_packet_def Let_def split: bool.splits option.splits if_splits)
qed

lemma insert_rx_inv:
  assumes inv: "rx_inv peer" "tp_rx_has_packet_number_state peer" "peer_window peer \<le> 128"
    and n: "tp_rx_next_packet_number peer < n" "unat n < unat (tp_rx_next_packet_number peer) + peer_window peer"
      "n \<notin> rx_number ` set (tp_rx_buffered peer)" "rx_number b = n"
  shows "rx_inv (transport_insert_rx_buffered peer b n)"
    and "set (tp_rx_buffered (transport_insert_rx_buffered peer b n)) = insert b (set (tp_rx_buffered peer))"
proof -
  have sorted: "sorted_wrt (<) (map rx_number (tp_rx_buffered peer))" using inv(1) by (simp add: rx_inv_def rx_ordered_def)
  note eq = insert_rx_buffered_eq [OF sorted]
  show set: "set (tp_rx_buffered (transport_insert_rx_buffered peer b n)) = insert b (set (tp_rx_buffered peer))"
    unfolding eq using set_insert_rx [of "\<lambda>b. rx_number b < n" "tp_rx_buffered peer" b] by simp
  have "length (tp_rx_buffered peer) \<le> peer_window peer - 1"
    using inv(1) by (auto simp: rx_inv_def dest: rx_ordered_length)
  then have "length (tp_rx_buffered peer) < 255" using inv(3) by linarith
  then have "unat (tp_rx_buffered_count peer + 1) = unat (tp_rx_buffered_count peer) + 1"
    using inv(1,3) unat_add_lem [of "tp_rx_buffered_count peer" 1] by (simp add: rx_inv_def)
  then show "rx_inv (transport_insert_rx_buffered peer b n)"
    using inv n set sorted_insert_rx [OF sorted n(4,3)] arg_cong [OF takeWhile_dropWhile_id, of length "\<lambda>b. rx_number b < n" "tp_rx_buffered peer"]
    unfolding eq rx_inv_def rx_ordered_def by (simp del: takeWhile_dropWhile_id) (simp add: order.strict_iff_order)
qed

lemma cache_spec:
  assumes inv: "rx_inv (peer_at ctx i)" "tp_rx_has_packet_number_state (peer_at ctx i)" "i < length (tc_peers ctx)"
      "window_inv (tp_tx_window (peer_at ctx i))"
    and n: "tp_rx_next_packet_number (peer_at ctx i) < n" "n = pk_packet_number p"
    and cache: "transport_cache_out_of_order_packet ctx w i p n = (err, ctx', w')"
  obtains (same) "app w' = app w" "ctx' = ctx"
  | (cached) b where "app w' = app w" "err = XGL_OK" "ctx' = peer_update i (\<lambda>peer. transport_insert_rx_buffered peer b n) ctx" "rx_copy p b"
      "rx_inv (transport_insert_rx_buffered (peer_at ctx i) b n)"
      "set (tp_rx_buffered (transport_insert_rx_buffered (peer_at ctx i) b n)) = insert b (set (tp_rx_buffered (peer_at ctx i)))"
proof (cases "\<exists>d m. pk_data p = Some \<lparr> pd_data = Some d, pd_data_len = m \<rparr> \<and> m \<noteq> 0")
  case False
  have "pk_data p = None \<or> (\<exists>m. pk_data p = Some \<lparr> pd_data = None, pd_data_len = m \<rparr>) \<or> (\<exists>d. pk_data p = Some \<lparr> pd_data = d, pd_data_len = 0 \<rparr>)"
  proof (cases "pk_data p")
    case (Some x)
    then show ?thesis using False by (cases x; cases "pd_data x") auto
  qed simp
  then show thesis
    using cache by (intro same) (auto simp: transport_cache_out_of_order_packet_def split: option.splits)
next
  case True
  then obtain d m where d: "pk_data p = Some \<lparr> pd_data = Some d, pd_data_len = m \<rparr>" "m \<noteq> 0" by auto
  let ?peer = "peer_at ctx i"
  let ?full = "n - tp_rx_next_packet_number ?peer \<ge> ucast (sw_window_size (tp_tx_window ?peer))
      \<or> ucast (tp_rx_buffered_count ?peer) \<ge> (ucast (sw_window_size (tp_tx_window ?peer)) :: u32)
      \<or> fst (transport_find_rx_buffered ?peer n) \<noteq> None"
  have pos: "sw_window_size (tp_tx_window ?peer) \<noteq> 0" using inv(4) by (auto simp: window_inv_def)
  show thesis
  proof (cases "?full \<or> \<not> fst (w_alloc w)")
    case True
    obtain ok w1 where a: "w_alloc w = (ok, w1)" by fastforce
    show thesis
      using cache d pos True a w_alloc_app [OF a]
      by (intro same) (auto simp: transport_cache_out_of_order_packet_def Let_def split: if_splits)
  next
    case False
    then obtain w1 where a: "w_alloc w = (True, w1)" by (cases "w_alloc w") simp
    obtain r w2 where c: "transport_copy_rx_buffered_packet w1 p \<lparr> pd_data = Some d, pd_data_len = m \<rparr> d (pk_packet_number p) = (r, w2)"
      by fastforce
    have run: "(err, ctx', w') = (case r of Inl e \<Rightarrow> (e, ctx, w2)
        | Inr b \<Rightarrow> (XGL_OK, peer_update i (\<lambda>peer. transport_insert_rx_buffered peer b n) ctx, w2))"
      using cache d a c n(2) pos False by (auto simp: transport_cache_out_of_order_packet_def Let_def split: sum.splits)
    have app: "app w2 = app w" using copy_rx_spec(1) [OF c d(1)] w_alloc_app [OF a] by simp
    show thesis
    proof (cases r)
      case (Inl e)
      then show thesis using same app run by simp
    next
      case (Inr b)
      have copy: "rx_copy p b" by (rule copy_rx_spec(2) [OF c d(1) Inr])
      then have num: "rx_number b = n" using n(2) by (auto simp: rx_copy_def dest: arg_cong [of _ _ pk_packet_number])
      have sorted: "sorted_wrt (<) (map rx_number (tp_rx_buffered ?peer))" using inv(1) by (simp add: rx_inv_def rx_ordered_def)
      have fresh: "n \<notin> rx_number ` set (tp_rx_buffered ?peer)"
        using False by (simp add: transport_find_rx_buffered_def find_rx_loop_eq [OF sorted] Let_def split: if_splits)
      have "unat (n - tp_rx_next_packet_number ?peer) = unat n - unat (tp_rx_next_packet_number ?peer)"
        using n(1) by (simp add: unat_sub word_less_nat_alt word_le_nat_alt)
      then have near: "unat n < unat (tp_rx_next_packet_number ?peer) + peer_window ?peer"
        using False by (auto simp: not_le ucast_less_nat)
      have small: "peer_window ?peer \<le> 128" using inv(4) by (simp add: window_inv_def split: option.splits)
      show thesis
        using run Inr by (intro cached [OF _ _ _ copy insert_rx_inv [OF inv(1,2) small n(1) near fresh num]]) (simp_all add: app)
    qed
  qed
qed

section \<open>In order, exactly once\<close>

text \<open>
  The packets of one reliable stream of unfragmented messages, as the network layer hands them up: \<open>st_content\<close> gives the
  data type and the payload of the packet with a given number. The last packet number is left out, after it the numbers wrap.
\<close>

record rx_stream =
  st_source :: u16
  st_connection :: u32
  st_epoch :: u32
  st_session :: u16
  st_content :: "nat \<Rightarrow> u8 \<times> bytes"

definition carries_content :: "rx_stream \<Rightarrow> xgl_packet \<Rightarrow> bool" where
  "carries_content s p \<longleftrightarrow> pk_source_id p = st_source s \<and> pk_fragment p = 0 \<and> pk_packet_number p \<noteq> - 1
     \<and> pk_data_type p = fst (st_content s (unat (pk_packet_number p)))
     \<and> (\<exists>d n. pk_data p = Some \<lparr> pd_data = Some d, pd_data_len = n \<rparr> \<and> mem_read d 0 n = snd (st_content s (unat (pk_packet_number p))))"

definition of_stream :: "rx_stream \<Rightarrow> xgl_packet \<Rightarrow> bool" where
  "of_stream s p \<longleftrightarrow> carries_content s p \<and> pk_connection_id p = st_connection s \<and> pk_session_epoch p = st_epoch s
     \<and> pk_session_id p = st_session s \<and> pk_packet_type p \<noteq> XGL_PACKET_TYPE_CONTROL \<and> pk_packet_type p \<noteq> XGL_PACKET_TYPE_ACK
     \<and> pk_reliable p = XGL_RELIABILITY_ACK_ELICITING \<and> pk_compress p = 0"

definition message_of :: "rx_stream \<Rightarrow> nat \<Rightarrow> transport_output" where
  "message_of s n = ToApp (st_source s) (fst (st_content s n)) (map Some (snd (st_content s n)))"

lemma deliver_content:
  assumes "carries_content s p" "pk_data p = Some \<lparr> pd_data = Some d, pd_data_len = n \<rparr>" "tc_rx_callback ctx"
  shows "transport_deliver_packet ctx w p (Some d) n =
     (XGL_OK, tp_count (count_rx_frame n) ctx, w_put (message_of s (unat (pk_packet_number p))) w)"
  using assms by (auto simp: transport_deliver_packet_def carries_content_def message_of_def rx_callback_def Let_def)

definition buffers_content :: "rx_stream \<Rightarrow> xgl_transport_peer_state \<Rightarrow> bool" where
  "buffers_content s peer \<longleftrightarrow> (\<forall>b \<in> set (tp_rx_buffered peer). carries_content s (rx_packet b)
     \<and> pk_data (rx_packet b) = Some \<lparr> pd_data = Some (rx_data b), pd_data_len = rx_data_len b \<rparr>)"

lemma mem_read_idem: "mem_read (mem_read d 0 n) 0 n = mem_read d 0 n"
  by (simp add: mem_read_def)

lemma rx_copy_content:
  assumes "carries_content s p" "rx_copy p b"
  shows "carries_content s (rx_packet b)" "pk_data (rx_packet b) = Some \<lparr> pd_data = Some (rx_data b), pd_data_len = rx_data_len b \<rparr>"
proof -
  obtain d n where *: "pk_data p = Some \<lparr> pd_data = Some d, pd_data_len = n \<rparr>" "rx_data b = mem_read d 0 n" "rx_data_len b = n"
    "rx_packet b = p \<lparr> pk_data := Some \<lparr> pd_data = Some (mem_read d 0 n), pd_data_len = n \<rparr>,
          pk_extensions := pk_extensions (rx_packet b), pk_extensions_len := pk_extensions_len (rx_packet b) \<rparr>"
    using assms(2) unfolding rx_copy_def by blast
  show "pk_data (rx_packet b) = Some \<lparr> pd_data = Some (rx_data b), pd_data_len = rx_data_len b \<rparr>"
    by (subst *(4)) (simp add: *(2,3))
  show "carries_content s (rx_packet b)"
    by (subst *(4)) (use assms(1) *(1) mem_read_idem [of d n] in \<open>auto simp: carries_content_def\<close>)
qed

text \<open>With nothing but packets at or after the next expected one, only the head of the buffer can be taken.\<close>

lemma take_rx_head:
  assumes "rx_ordered (tp_rx_next_packet_number peer) win (tp_rx_buffered peer)"
  shows "transport_take_rx_buffered peer (tp_rx_next_packet_number peer) =
     (case tp_rx_buffered peer of
        b # bs \<Rightarrow> if rx_number b = tp_rx_next_packet_number peer
          then (Some b, peer \<lparr> tp_rx_buffered := bs, tp_rx_buffered_count :=
                  (if tp_rx_buffered_count peer > 0 then tp_rx_buffered_count peer - 1 else tp_rx_buffered_count peer) \<rparr>)
          else (None, peer)
      | [] \<Rightarrow> (None, peer))"
  using assms
  by (cases "tp_rx_buffered peer")
     (auto simp: transport_take_rx_buffered_def transport_find_rx_buffered_def rx_ordered_def)

lemma pred_count:
  "unat (c :: u8) = Suc n \<Longrightarrow> unat (if c > 0 then c - 1 else c) = n"
  by (auto simp: word_gt_0 unat_minus_one)

lemma is_app_message [simp]: "is_app (message_of s n)"
  by (simp add: message_of_def)

lemma next_number:
  "(n :: u32) \<noteq> - 1 \<Longrightarrow> unat (n + 1) = unat n + 1"
  by (metis Suc_eq_plus1 add.commute add_eq_0_iff unatSuc)

text \<open>What receiving a data packet of a known session does not change of the peers.\<close>

definition kept_of :: "xgl_transport_peer_state \<Rightarrow> (u16 \<times> bool \<times> u32 \<times> u32) \<times> u16 \<times> xgl_sliding_window" where
  "kept_of peer = (peer_key peer, tp_session_id peer, tp_tx_window peer)"

definition kept :: "xgl_transport_ctx \<Rightarrow> xgl_transport_ctx \<Rightarrow> bool" where
  "kept ctx ctx' \<longleftrightarrow> map kept_of (tc_peers ctx') = map kept_of (tc_peers ctx) \<and> tc_rx_callback ctx' = tc_rx_callback ctx"

lemma kept_refl [simp]: "kept ctx ctx"
  by (simp add: kept_def)

lemma kept_trans: "kept a b \<Longrightarrow> kept b c \<Longrightarrow> kept a c"
  by (simp add: kept_def)

lemma kept_count [simp]: "kept ctx (tp_count f ctx)"
  by (simp add: kept_def)

lemma kept_update: "kept_of (g (peer_at ctx i)) = kept_of (peer_at ctx i) \<Longrightarrow> kept ctx (peer_update i g ctx)"
  by (cases "i < length (tc_peers ctx)") (auto simp: kept_def map_update list_update_same_conv list_update_beyond)

lemma kept_keys: "kept ctx ctx' \<Longrightarrow> map peer_key (tc_peers ctx') = map peer_key (tc_peers ctx)"
  by (drule arg_cong [where f = "map fst", OF kept_def [THEN iffD1, THEN conjunct1]]) (simp add: kept_of_def comp_def)

lemma keptD:
  assumes "kept ctx ctx'"
  shows "length (tc_peers ctx') = length (tc_peers ctx)" "transport_find_rx_peer ctx' p = transport_find_rx_peer ctx p"
    "i < length (tc_peers ctx) \<Longrightarrow> tp_session_id (peer_at ctx' i) = tp_session_id (peer_at ctx i)"
    "i < length (tc_peers ctx) \<Longrightarrow> tp_tx_window (peer_at ctx' i) = tp_tx_window (peer_at ctx i)"
    "tc_rx_callback ctx' = tc_rx_callback ctx"
proof -
  have m: "map kept_of (tc_peers ctx') = map kept_of (tc_peers ctx)" "tc_rx_callback ctx' = tc_rx_callback ctx"
    using assms by (simp_all add: kept_def)
  show len: "length (tc_peers ctx') = length (tc_peers ctx)" using m(1) by (metis length_map)
  show "transport_find_rx_peer ctx' p = transport_find_rx_peer ctx p"
    by (rule find_peer_cong [OF kept_keys [OF assms]])
  have "kept_of (peer_at ctx' i) = kept_of (peer_at ctx i)" if "i < length (tc_peers ctx)"
    using m(1) that len by (metis nth_map)
  then show "i < length (tc_peers ctx) \<Longrightarrow> tp_session_id (peer_at ctx' i) = tp_session_id (peer_at ctx i)"
    "i < length (tc_peers ctx) \<Longrightarrow> tp_tx_window (peer_at ctx' i) = tp_tx_window (peer_at ctx i)"
    by (simp_all add: kept_of_def)
qed (use assms in \<open>simp add: kept_def\<close>)

text \<open>
  The drain loop on a stream: it hands up the packets that are next in turn, one by one, until the first gap.
\<close>

lemma drain_stream:
  assumes "i < length (tc_peers ctx)" "tc_rx_callback ctx" "buffers_content s (peer_at ctx i)" "tp_rx_has_packet_number_state (peer_at ctx i)"
    and "rx_ordered (tp_rx_next_packet_number (peer_at ctx i)) (peer_window (peer_at ctx i)) (tp_rx_buffered (peer_at ctx i))"
    and "unat (tp_rx_buffered_count (peer_at ctx i)) = length (tp_rx_buffered (peer_at ctx i))"
    and "transport_drain_rx_buffered ctx w i = (err, ctx', w')"
  shows "err = XGL_OK \<and> kept ctx ctx' \<and> unat (tp_rx_next_packet_number (peer_at ctx i)) \<le> unat (tp_rx_next_packet_number (peer_at ctx' i))
     \<and> app w' = app w @ map (message_of s) [unat (tp_rx_next_packet_number (peer_at ctx i))..<unat (tp_rx_next_packet_number (peer_at ctx' i))]
     \<and> buffers_content s (peer_at ctx' i) \<and> rx_inv (peer_at ctx' i) \<and> tp_rx_has_packet_number_state (peer_at ctx' i)"
  using assms
proof (induction "tp_rx_buffered (peer_at ctx i)" arbitrary: ctx w)
  case Nil
  have "transport_drain_rx_buffered ctx w i = (XGL_OK, ctx, w)"
    using take_rx_head [OF Nil(6)] Nil(1) by (subst transport_drain_rx_buffered.simps) (simp split: list.splits)
  then show ?case using Nil by (simp add: rx_inv_def)
next
  case (Cons b bs)
  let ?p = "peer_at ctx i"
  let ?k = "tp_rx_next_packet_number ?p"
  note ord = Cons(7)
  show ?case
  proof (cases "rx_number b = ?k")
    case False
    then have "transport_drain_rx_buffered ctx w i = (XGL_OK, ctx, w)"
      using take_rx_head [OF ord] Cons(2) by (subst transport_drain_rx_buffered.simps) (simp split: list.splits)
    moreover have "?k \<notin> rx_number ` set (tp_rx_buffered ?p)"
      using ord False unfolding Cons(2) [symmetric] by (auto simp: rx_ordered_def)
    ultimately show ?thesis using Cons by (simp add: rx_inv_def)
  next
    case True
    let ?c = "(if tp_rx_buffered_count ?p > 0 then tp_rx_buffered_count ?p - 1 else tp_rx_buffered_count ?p)"
    have take: "transport_take_rx_buffered ?p ?k = (Some b, ?p \<lparr> tp_rx_buffered := bs, tp_rx_buffered_count := ?c \<rparr>)"
      using take_rx_head [OF ord] Cons(2) True by (auto split: list.splits)
    have b: "carries_content s (rx_packet b)" "pk_data (rx_packet b) = Some \<lparr> pd_data = Some (rx_data b), pd_data_len = rx_data_len b \<rparr>"
      using Cons(5) unfolding buffers_content_def Cons(2) [symmetric] by auto
    let ?ctx1 = "peer_update i (\<lambda>_. ?p \<lparr> tp_rx_buffered := bs, tp_rx_buffered_count := ?c \<rparr>) ctx"
    let ?ctx2 = "tp_count (count_rx_frame (rx_data_len b)) ?ctx1"
    define ctx3 where "ctx3 = peer_update i (\<lambda>peer. peer \<lparr> tp_rx_next_packet_number := ?k + 1 \<rparr>) ?ctx2"
    define w2 where "w2 = snd (transport_send_ack ?ctx2 (w_put (message_of s (unat ?k)) w) ?k (pk_source_id (rx_packet b))
        (pk_session_id (rx_packet b)) (pk_connection_id (rx_packet b)) (pk_session_epoch (rx_packet b)))"
    have run: "transport_drain_rx_buffered ctx3 w2 i = (err, ctx', w')"
      using Cons(3,4,9) take True unfolding w2_def ctx3_def
      by (subst (asm) transport_drain_rx_buffered.simps) (simp add: Let_def deliver_content [OF b])
    have peer3: "peer_at ctx3 i = ?p \<lparr> tp_rx_buffered := bs, tp_rx_buffered_count := ?c, tp_rx_next_packet_number := ?k + 1 \<rparr>"
      using Cons(3) by (simp add: ctx3_def)
    have k1: "unat (?k + 1) = unat ?k + 1" using b(1) True by (intro next_number) (simp add: carries_content_def)
    have later: "unat ?k < unat (rx_number x) \<and> unat (rx_number x) < unat ?k + peer_window ?p" if "x \<in> set bs" for x
      using ord that True unfolding Cons(2) [symmetric] by (auto simp: rx_ordered_def word_less_nat_alt)
    have ord': "rx_ordered (?k + 1) (peer_window ?p) bs"
      using ord later k1 unfolding Cons(2) [symmetric] by (fastforce simp: rx_ordered_def word_le_nat_alt)
    have kept3: "kept ctx ctx3"
      unfolding ctx3_def using Cons(3)
      by (intro kept_trans [OF kept_trans [OF kept_update kept_count] kept_update]) (simp_all add: kept_of_def peer_key_def)
    have "buffers_content s (peer_at ctx3 i)" using Cons(5) by (simp add: buffers_content_def peer3 Cons(2) [symmetric])
    moreover have "unat (tp_rx_buffered_count (peer_at ctx3 i)) = length bs"
      using Cons(8) pred_count [of "tp_rx_buffered_count ?p" "length bs"] by (simp add: peer3 Cons(2) [symmetric])
    ultimately have IH: "err = XGL_OK \<and> kept ctx3 ctx' \<and> unat (?k + 1) \<le> unat (tp_rx_next_packet_number (peer_at ctx' i))
     \<and> app w' = app w2 @ map (message_of s) [unat (?k + 1)..<unat (tp_rx_next_packet_number (peer_at ctx' i))]
     \<and> buffers_content s (peer_at ctx' i) \<and> rx_inv (peer_at ctx' i) \<and> tp_rx_has_packet_number_state (peer_at ctx' i)"
      using Cons(1) [of ctx3 w2, OF _ _ _ _ _ _ _ run] Cons(3,4,6) ord' keptD(1,5) [OF kept3] by (simp add: peer3)
    moreover have "app w2 = app w @ [message_of s (unat ?k)]" by (simp add: w2_def)
    ultimately show ?thesis
      using k1 kept_trans [OF kept3, of ctx'] by (simp add: upt_conv_Cons)
  qed
qed

text \<open>The peer of the stream has received \<open>k\<close> packets in order.\<close>

definition rx_state :: "rx_stream \<Rightarrow> xgl_transport_ctx \<Rightarrow> nat \<Rightarrow> nat \<Rightarrow> bool" where
  "rx_state s ctx i k \<longleftrightarrow> i < length (tc_peers ctx) \<and> tc_rx_callback ctx \<and> window_inv (tp_tx_window (peer_at ctx i))
     \<and> rx_inv (peer_at ctx i) \<and> buffers_content s (peer_at ctx i)
     \<and> (if tp_rx_has_packet_number_state (peer_at ctx i) then unat (tp_rx_next_packet_number (peer_at ctx i)) else 0) = k"

lemma rx_order_stream:
  assumes p: "of_stream s p" and st: "rx_state s ctx i k"
    and run: "transport_process_reliable_rx_order ctx w p (Some i) = (err, r, ctx', w')"
  shows "r = Some i" "app w' = app w" "kept ctx ctx'" "rx_state s ctx' i k" "tp_rx_has_packet_number_state (peer_at ctx' i)"
    "unat (pk_packet_number p) = k \<Longrightarrow> err = XGL_OK"
proof -
  let ?g = "\<lambda>peer. if tp_rx_has_packet_number_state peer then peer
      else peer \<lparr> tp_rx_next_packet_number := 0, tp_rx_has_packet_number_state := True \<rparr>"
  define ctx1 where "ctx1 = peer_update i ?g ctx"
  have i: "i < length (tc_peers ctx)" using st by (simp add: rx_state_def)
  have kept1: "kept ctx ctx1" unfolding ctx1_def by (rule kept_update) (simp add: kept_of_def peer_key_def)
  have peer1: "peer_at ctx1 i = ?g (peer_at ctx i)" using i by (simp add: ctx1_def)
  have inv1: "rx_inv (peer_at ctx1 i)" "tp_rx_has_packet_number_state (peer_at ctx1 i)" "i < length (tc_peers ctx1)"
      "window_inv (tp_tx_window (peer_at ctx1 i))" "buffers_content s (peer_at ctx1 i)" "tc_rx_callback ctx1"
      "unat (tp_rx_next_packet_number (peer_at ctx1 i)) = k"
    using st keptD(1,4,5) [OF kept1] i peer1
    by (auto simp: rx_state_def rx_inv_def rx_ordered_def buffers_content_def)
  let ?k = "tp_rx_next_packet_number (peer_at ctx1 i)" and ?n = "pk_packet_number p"
  have st1: "rx_state s ctx1 i k" using inv1 by (simp add: rx_state_def)
  show "r = Some i" using run by (auto simp: transport_process_reliable_rx_order_def Let_def split: if_splits prod.splits)
  have run': "(if ?n < ?k then (XGL_OK, Some i, ctx1, snd (transport_send_ack ctx1 w ?n (pk_source_id p) (pk_session_id p)
        (pk_connection_id p) (pk_session_epoch p)))
     else if ?k < ?n then (case transport_cache_out_of_order_packet ctx1 w i p ?n of
        (err, ctx, w) \<Rightarrow> (err, Some i, if err \<noteq> XGL_OK then tp_count count_rx_dropped ctx else ctx,
           snd (transport_send_sack ctx w i (pk_source_id p) ?k (pk_session_id p) (pk_connection_id p) (pk_session_epoch p))))
     else (XGL_OK, Some i, ctx1, snd (transport_send_ack ctx1 w ?n (pk_source_id p) (pk_session_id p)
        (pk_connection_id p) (pk_session_epoch p)))) = (err, r, ctx', w')"
    using run unfolding transport_process_reliable_rx_order_def Let_def transport_receive_packet_number_def ctx1_def
    by (simp only: option.case prod.case)
  consider (early) "?n < ?k" | (late) "?k < ?n" | (turn) "?n = ?k" by fastforce
  then have "app w' = app w \<and> kept ctx1 ctx' \<and> rx_state s ctx' i k \<and> tp_rx_has_packet_number_state (peer_at ctx' i)
      \<and> (unat ?n = k \<longrightarrow> err = XGL_OK)"
  proof cases
    case late
    obtain err2 ctx2 w2 where c: "transport_cache_out_of_order_packet ctx1 w i p ?n = (err2, ctx2, w2)" by (metis prod_cases3)
    have out: "app w' = app w2" "kept ctx2 ctx'" "peer_at ctx' i = peer_at ctx2 i"
      using run' late c by (auto simp: order_less_not_sym split: if_splits)
    have "unat ?n \<noteq> k" using late inv1(7) by (auto simp: word_less_nat_alt)
    show ?thesis
      using inv1(1-4) late refl c
    proof (cases rule: cache_spec)
      case same
      then show ?thesis using out st1 inv1 \<open>unat ?n \<noteq> k\<close> keptD(1,5) [OF out(2)] by (auto simp: rx_state_def)
    next
      case (cached b)
      have p2: "peer_at ctx2 i = transport_insert_rx_buffered (peer_at ctx1 i) b ?n" using cached(3) inv1(3) by simp
      have same: "kept_of (peer_at ctx2 i) = kept_of (peer_at ctx1 i)" "tp_rx_has_packet_number_state (peer_at ctx2 i)"
          "tp_rx_next_packet_number (peer_at ctx2 i) = ?k"
        using inv1(2) unfolding p2
        by (auto simp: kept_of_def peer_key_def transport_insert_rx_buffered_def Let_def split: option.split)
      have kept2: "kept ctx1 ctx2" using cached(3) same(1) inv1(3) by (auto intro!: kept_update)
      have "buffers_content s (peer_at ctx2 i)"
        using inv1(5) cached(6) rx_copy_content [OF _ cached(4), of s] p unfolding p2 buffers_content_def by (auto simp: of_stream_def)
      then have "rx_state s ctx2 i k"
        using cached(5) [folded p2] same inv1 keptD(1,5) [OF kept2] keptD(4) [OF kept2 inv1(3)] by (simp add: rx_state_def)
      then show ?thesis
        using out cached(1) kept_trans [OF kept2 out(2)] same(2) \<open>unat ?n \<noteq> k\<close> keptD(1,5) [OF out(2)] by (simp add: rx_state_def)
    qed
  qed (use run' st1 inv1 in \<open>auto simp: order_less_not_sym\<close>)
  then show "app w' = app w" "kept ctx ctx'" "rx_state s ctx' i k" "tp_rx_has_packet_number_state (peer_at ctx' i)"
    "unat (pk_packet_number p) = k \<Longrightarrow> err = XGL_OK"
    using kept_trans [OF kept1, of ctx'] by blast+
qed

text \<open>A packet whose turn it is goes up, and with it those behind it that had come early.\<close>

lemma in_turn_stream:
  assumes st: "rx_state s ctx i k" "tp_rx_has_packet_number_state (peer_at ctx i)" and n: "unat n = k" "n \<noteq> - 1"
    and run: "transport_drain_rx_buffered (peer_update i (\<lambda>peer. peer \<lparr> tp_rx_next_packet_number := n + 1 \<rparr>) ctx)
        (w_put (message_of s k) w) i = (err, ctx', w')"
  shows "\<exists>k'. k < k' \<and> err = XGL_OK \<and> kept ctx ctx' \<and> rx_state s ctx' i k' \<and> app w' = app w @ map (message_of s) [k..<k']"
proof -
  define ctx1 where "ctx1 = peer_update i (\<lambda>peer. peer \<lparr> tp_rx_next_packet_number := n + 1 \<rparr>) ctx"
  let ?p = "peer_at ctx i"
  have i: "i < length (tc_peers ctx)" using st(1) by (simp add: rx_state_def)
  have nx: "tp_rx_next_packet_number ?p = n" using st n(1) by (auto simp: rx_state_def intro: unsigned_word_eqI)
  have n1: "unat (n + 1) = k + 1" using next_number n by simp
  have peer1: "peer_at ctx1 i = ?p \<lparr> tp_rx_next_packet_number := n + 1 \<rparr>" using i by (simp add: ctx1_def)
  have kept1: "kept ctx ctx1" unfolding ctx1_def by (rule kept_update) (simp add: kept_of_def peer_key_def)
  have "rx_ordered (n + 1) (peer_window ?p) (tp_rx_buffered ?p)"
    using st(1) nx n1 n(1) by (simp add: rx_state_def rx_inv_def) (rule rx_ordered_next; simp)
  then have "i < length (tc_peers ctx1)" "tc_rx_callback ctx1" "buffers_content s (peer_at ctx1 i)"
      "tp_rx_has_packet_number_state (peer_at ctx1 i)"
      "rx_ordered (tp_rx_next_packet_number (peer_at ctx1 i)) (peer_window (peer_at ctx1 i)) (tp_rx_buffered (peer_at ctx1 i))"
      "unat (tp_rx_buffered_count (peer_at ctx1 i)) = length (tp_rx_buffered (peer_at ctx1 i))"
    using st keptD(1,5) [OF kept1] by (simp_all add: peer1 rx_state_def rx_inv_def buffers_content_def)
  from drain_stream [OF this run [folded ctx1_def]]
  have "err = XGL_OK" "kept ctx1 ctx'" "k + 1 \<le> unat (tp_rx_next_packet_number (peer_at ctx' i))"
      "app w' = app w @ [message_of s k] @ map (message_of s) [k + 1..<unat (tp_rx_next_packet_number (peer_at ctx' i))]"
      "buffers_content s (peer_at ctx' i)" "rx_inv (peer_at ctx' i)" "tp_rx_has_packet_number_state (peer_at ctx' i)"
    by (simp_all add: peer1 n1)
  moreover from this(2) have kept: "kept ctx ctx'" by (rule kept_trans [OF kept1])
  ultimately show ?thesis
    using st(1) keptD(1,5) [OF kept] keptD(4) [OF kept i]
    by (intro exI [of _ "unat (tp_rx_next_packet_number (peer_at ctx' i))"]) (simp add: rx_state_def upt_conv_Cons)
qed

lemma receive_data_stream:
  assumes p: "of_stream s p" "pk_data p = Some \<lparr> pd_data = Some d, pd_data_len = n \<rparr>" and st: "rx_state s ctx i k"
    and run: "transport_receive_data ctx w p d n (Some i) = (err, ctx', w')"
  shows "\<exists>k' \<ge> k. kept ctx ctx' \<and> rx_state s ctx' i k' \<and> app w' = app w @ map (message_of s) [k..<k']
     \<and> (unat (pk_packet_number p) = k \<longrightarrow> k < k')"
proof -
  obtain err1 r ctx1 w1 where order: "transport_process_reliable_rx_order ctx w p (Some i) = (err1, r, ctx1, w1)" by (metis prod_cases4)
  note O = rx_order_stream [OF p(1) st order]
  have rel: "pk_reliable p = 0x40" "pk_compress p = 0" "carries_content s p" "pk_packet_number p \<noteq> - 1"
    using p(1) by (simp_all add: of_stream_def carries_content_def)
  have cb: "tc_rx_callback ctx1" "i < length (tc_peers ctx1)" using O(4) by (simp_all add: rx_state_def)
  have next1: "unat (tp_rx_next_packet_number (peer_at ctx1 i)) = k" using O(4,5) by (simp add: rx_state_def)
  show ?thesis
  proof (cases "err1 = XGL_OK \<and> pk_packet_number p = tp_rx_next_packet_number (peer_at ctx1 i)")
    case False
    then have "ctx' = ctx1" "w' = w1"
      using run order rel(1) O(1)
      by (auto simp: transport_receive_data_def transport_receive_packet_number_def split: if_splits)
    moreover have "unat (pk_packet_number p) \<noteq> k"
      using False O(6) next1 by (metis unsigned_word_eqI)
    ultimately show ?thesis using O by auto
  next
    case True
    define ctx2 where "ctx2 = tp_count (count_rx_frame n) ctx1"
    have st2: "rx_state s ctx2 i k" "tp_rx_has_packet_number_state (peer_at ctx2 i)"
      using O(4,5) by (simp_all add: ctx2_def rx_state_def)
    have kept2: "kept ctx ctx2" using O(3) by (simp add: ctx2_def kept_def)
    have n: "unat (pk_packet_number p) = k" using True next1 by simp
    have "transport_drain_rx_buffered (peer_update i (\<lambda>peer. peer \<lparr> tp_rx_next_packet_number := pk_packet_number p + 1 \<rparr>) ctx2)
        (w_put (message_of s k) w1) i = (err, ctx', w')"
      using run order rel(1,2) O(1) True deliver_content [OF rel(3) p(2) cb(1), of w1] n
      by (simp add: transport_receive_data_def transport_receive_packet_number_def transport_decompress_def ctx2_def)
    from in_turn_stream [OF st2 n rel(4) this] obtain k' where "k < k'" "kept ctx2 ctx'" "rx_state s ctx' i k'"
        "app w' = app w1 @ map (message_of s) [k..<k']" by blast
    then show ?thesis using O(2) kept_trans [OF kept2] by (intro exI [of _ k']) auto
  qed
qed

text \<open>The state of the receiver with respect to a stream: \<open>k\<close> packets handed up in order; no peer means none.\<close>

definition find_stream :: "rx_stream \<Rightarrow> xgl_transport_ctx \<Rightarrow> nat option" where
  "find_stream s ctx = find_peer_for ctx (st_source s) (st_connection s) (st_epoch s) (st_connection s \<noteq> 0 \<or> st_epoch s \<noteq> 0)"

definition stream_at :: "rx_stream \<Rightarrow> xgl_transport_ctx \<Rightarrow> nat \<Rightarrow> bool" where
  "stream_at s ctx k \<longleftrightarrow> tc_rx_callback ctx \<and> (case find_stream s ctx of None \<Rightarrow> k = 0 | Some i \<Rightarrow> rx_state s ctx i k)"

lemma of_stream_find:
  assumes "of_stream s p"
  shows "transport_find_rx_peer ctx p = find_stream s ctx"
    "transport_get_or_create_rx_peer ctx w p =
       transport_get_or_create_peer_internal ctx w (st_source s) (st_connection s) (st_epoch s) (st_connection s \<noteq> 0 \<or> st_epoch s \<noteq> 0)"
  using assms
  by (auto simp: of_stream_def carries_content_def transport_find_rx_peer_def find_stream_def scoped_def
      transport_get_or_create_rx_peer_def transport_get_or_create_peer_scope_def transport_get_or_create_peer_def)

lemma find_stream_keys: "map peer_key (tc_peers ctx') = map peer_key (tc_peers ctx) \<Longrightarrow> find_stream s ctx' = find_stream s ctx"
  by (simp add: find_stream_def find_peer_keys [of ctx' ctx])

lemma find_stream_kept: "kept ctx ctx' \<Longrightarrow> find_stream s ctx' = find_stream s ctx"
  by (rule find_stream_keys) (rule kept_keys)

lemma find_stream_session [simp]: "find_stream s (ctx \<lparr> tc_next_session_id := n \<rparr>) = find_stream s ctx"
  by (simp add: find_stream_def transport_find_peer_scope_def transport_find_peer_def)

lemma find_upt_head: "P 0 \<Longrightarrow> List.find P [0..<Suc n] = Some 0"
  by (simp add: upt_conv_Cons del: upt_Suc)

lemma find_stream_head:
  assumes "peer_key peer = (st_source s, sc, if sc then st_connection s else 0, if sc then st_epoch s else 0)"
    and "sc = (st_connection s \<noteq> 0 \<or> st_epoch s \<noteq> 0)" "tc_peers ctx = peer # ps"
  shows "find_stream s ctx = Some 0"
  using assms
  by (auto simp: find_stream_def transport_find_peer_scope_def transport_find_peer_def peer_key_def Let_def find_upt_head
      simp del: upt_Suc)

lemma stream_at_kept: "rx_state s ctx' i k \<Longrightarrow> kept ctx ctx' \<Longrightarrow> find_stream s ctx = Some i \<Longrightarrow> stream_at s ctx' k"
  by (simp add: stream_at_def find_stream_kept rx_state_def)

lemma fresh_rx_state:
  "fresh_peer ctx peer \<Longrightarrow> tc_rx_callback ctx' \<Longrightarrow> tc_peers ctx' = peer # ps \<Longrightarrow> rx_state s ctx' 0 0"
  by (simp add: fresh_peer_def rx_state_def rx_inv_def rx_ordered_def buffers_content_def)

lemma reset_rx_state:
  assumes "rx_state s ctx i k" "transport_reset_peer_state ctx w i sid c e = (ctx', w')"
  shows "rx_state s ctx' i 0" "app w' = app w" "map peer_key (tc_peers ctx') = map peer_key (tc_peers ctx)"
proof -
  obtain now w1 where t: "w_time w = (now, w1)" by fastforce
  have i: "i < length (tc_peers ctx)" using assms(1) by (simp add: rx_state_def)
  show "rx_state s ctx' i 0" "app w' = app w"
    using assms t w_time_app [OF t] window_inv_keeps(4)
    by (auto simp: transport_reset_peer_state_def Let_def rx_state_def transport_clear_rx_buffered_def rx_inv_def rx_ordered_def
        buffers_content_def)
  show "map peer_key (tc_peers ctx') = map peer_key (tc_peers ctx)"
    using assms(2) t i by (auto simp: transport_reset_peer_state_def Let_def peer_key_def transport_clear_rx_buffered_def map_update
        list_update_same_conv)
qed

lemma receive_data_None:
  assumes "of_stream s p"
  shows "transport_receive_data ctx w p d n None =
    (case transport_get_or_create_rx_peer ctx w p of
       (None, ctx, w) \<Rightarrow> (XGL_ERR_NO_MEMORY, ctx, w)
     | (Some i, ctx, w) \<Rightarrow> transport_receive_data ctx w p d n (Some i))"
  using assms
  by (simp add: transport_receive_data_def transport_process_reliable_rx_order_def of_stream_def split: prod.split option.split)

text \<open>A peer for the stream: the one there is, or a new one.\<close>

lemma stream_peer:
  assumes "of_stream s p" "stream_at s ctx k" "transport_get_or_create_rx_peer ctx w p = (r, ctx', w')"
  shows "app w' = app w" "r = None \<Longrightarrow> stream_at s ctx' k" "r = Some i \<Longrightarrow> find_stream s ctx' = Some i \<and> rx_state s ctx' i k"
    "find_stream s ctx = Some j \<Longrightarrow> r = Some j \<and> ctx' = ctx"
proof -
  have "app w' = app w \<and> (r = None \<longrightarrow> stream_at s ctx' k) \<and> (r = Some i \<longrightarrow> find_stream s ctx' = Some i \<and> rx_state s ctx' i k)
      \<and> (find_stream s ctx = Some j \<longrightarrow> r = Some j \<and> ctx' = ctx)"
    using assms(3) [unfolded of_stream_find(2) [OF assms(1)]]
  proof (cases rule: get_or_create_cases)
    case (found l)
    then show ?thesis using assms(2) found(1) [folded find_stream_def] by (auto simp: stream_at_def)
  next
    case (failed l)
    then show ?thesis using assms(2) failed(1) [folded find_stream_def] by (simp add: stream_at_def)
  next
    case (created l peer)
    have none: "find_stream s ctx = None" using created(1) [folded find_stream_def] .
    then have "k = 0" "tc_rx_callback ctx" using assms(2) by (simp_all add: stream_at_def)
    then show ?thesis
      using created(2-4) none fresh_rx_state [OF created(5), of ctx' "tc_peers ctx" s] find_stream_head [OF created(6) refl, of ctx']
      by auto
  qed
  then show "app w' = app w" "r = None \<Longrightarrow> stream_at s ctx' k" "r = Some i \<Longrightarrow> find_stream s ctx' = Some i \<and> rx_state s ctx' i k"
    "find_stream s ctx = Some j \<Longrightarrow> r = Some j \<and> ctx' = ctx" by blast+
qed

lemma active_rx_state:
  "rx_state s ctx i k \<Longrightarrow> rx_state s (peer_update i (\<lambda>peer. peer \<lparr> tp_last_active_ms := now \<rparr>) ctx) i k"
  by (auto simp: rx_state_def rx_inv_def buffers_content_def)

lemma receive_stream:
  assumes p: "of_stream s p" and st: "stream_at s ctx k" and run: "xgl_transport_receive ctx w (Some p) = (err, ctx', w')"
  shows "\<exists>k' \<ge> k. stream_at s ctx' k' \<and> app w' = app w @ map (message_of s) [k..<k']
     \<and> (\<forall>i. find_stream s ctx = Some i \<and> (st_session s = 0 \<or> st_session s = tp_session_id (peer_at ctx i)) \<longrightarrow>
          kept ctx ctx' \<and> (unat (pk_packet_number p) = k \<longrightarrow> k < k'))"
proof -
  obtain d n where d: "pk_data p = Some \<lparr> pd_data = Some d, pd_data_len = n \<rparr>"
    using p by (auto simp: of_stream_def carries_content_def)
  have kind: "pk_packet_type p \<noteq> 3" "pk_packet_type p \<noteq> 2" "pk_reliable p = 0x40" "pk_session_id p = st_session s"
    using p by (simp_all add: of_stream_def)
  obtain err1 r ctx1 w1 where prep: "transport_prepare_rx_peer ctx w p = (err1, r, ctx1, w1)" by (metis prod_cases4)
  obtain now w2 where t: "w_time w1 = (now, w2)" by fastforce
  let ?active = "\<lambda>i. peer_update i (\<lambda>peer. peer \<lparr> tp_last_active_ms := now \<rparr>) ctx1"
  have recv: "(if err1 \<noteq> XGL_OK then (err1, ctx1, w1)
      else case r of None \<Rightarrow> transport_receive_data ctx1 w1 p d n None
           | Some i \<Rightarrow> transport_receive_data (?active i) w2 p d n (Some i)) = (err, ctx', w')"
    using run kind d prep t by (auto simp: xgl_transport_receive_def split: if_splits option.splits)
  have go: "\<exists>k' \<ge> k. stream_at s ctx' k' \<and> app w' = app w @ map (message_of s) [k..<k'] \<and> kept ctx1 ctx'
      \<and> (unat (pk_packet_number p) = k \<longrightarrow> k < k')"
    if "err1 = XGL_OK" "r = Some i" "find_stream s ctx1 = Some i" "rx_state s ctx1 i k" "app w1 = app w" for i
  proof -
    have "transport_receive_data (?active i) w2 p d n (Some i) = (err, ctx', w')" using recv that by simp
    from receive_data_stream [OF p d active_rx_state [OF that(4)] this] obtain k' where k': "k \<le> k'" "kept (?active i) ctx'" "rx_state s ctx' i k'"
        "app w' = app w2 @ map (message_of s) [k..<k']" "unat (pk_packet_number p) = k \<longrightarrow> k < k'" by blast
    have kept: "kept ctx1 ctx'" by (rule kept_trans [OF kept_update k'(2)]) (simp add: kept_of_def peer_key_def)
    then show ?thesis using k' stream_at_kept [OF k'(3) kept that(3)] w_time_app [OF t] that(5) by auto
  qed
  show ?thesis
  proof (cases "st_session s = 0")
    case True
    then have prep': "err1 = XGL_OK" "r = None" "ctx1 = ctx" "w1 = w" using prep kind by (simp_all add: transport_prepare_rx_peer_def)
    obtain r2 ctx2 w3 where c: "transport_get_or_create_rx_peer ctx w p = (r2, ctx2, w3)" by (metis prod_cases3)
    note P = stream_peer [OF p st c]
    show ?thesis
    proof (cases r2)
      case None
      then have "ctx' = ctx2" "w' = w3" using recv prep' c by (simp_all add: receive_data_None [OF p])
      then show ?thesis using None P by (intro exI [of _ k]) auto
    next
      case (Some i)
      then have "transport_receive_data ctx2 w3 p d n (Some i) = (err, ctx', w')"
        using recv prep' c by (simp add: receive_data_None [OF p])
      from receive_data_stream [OF p d _ this] obtain k' where k': "k \<le> k'" "kept ctx2 ctx'" "rx_state s ctx' i k'"
        "app w' = app w3 @ map (message_of s) [k..<k']" "unat (pk_packet_number p) = k \<longrightarrow> k < k'"
        using P(3) [OF Some] by blast
      then show ?thesis
        using stream_at_kept [OF k'(3,2)] P(1) P(3) [OF Some] P(4) by (intro exI [of _ k']) auto
    qed
  next
    case False
    show ?thesis
    proof (cases "find_stream s ctx")
      case None
      obtain r2 ctx2 w3 where c: "transport_get_or_create_rx_peer ctx w p = (r2, ctx2, w3)" by (metis prod_cases3)
      note P = stream_peer [OF p st c]
      show ?thesis
      proof (cases r2)
        case none: None
        then have "ctx' = ctx2" "w' = w3"
          using recv prep c False kind None by (auto simp: transport_prepare_rx_peer_def of_stream_find(1) [OF p])
        then show ?thesis using none P None by (intro exI [of _ k]) auto
      next
        case (Some i)
        have "k = 0" using st None by (simp add: stream_at_def)
        obtain ctx3 w4 where reset: "transport_reset_peer_state ctx2 w3 i (pk_session_id p) (pk_connection_id p) (pk_session_epoch p) = (ctx3, w4)"
          by fastforce
        have prep': "err1 = XGL_OK" "r = Some i" "ctx1 = ctx3" "w1 = w4"
          using prep False kind None c Some reset by (auto simp: transport_prepare_rx_peer_def of_stream_find(1) [OF p])
        have st2: "find_stream s ctx2 = Some i" "rx_state s ctx2 i k" using P(3) [OF Some] by simp_all
        note R = reset_rx_state [OF st2(2) reset]
        have "find_stream s ctx1 = Some i" using find_stream_keys [OF R(3)] st2(1) prep'(3) by simp
        from go [OF prep'(1,2) this] R(1,2) P(1) prep' \<open>k = 0\<close> show ?thesis using None by auto
      qed
    next
      case (Some i)
      show ?thesis
      proof (cases "st_session s = tp_session_id (peer_at ctx i)")
        case True
        then have prep': "err1 = XGL_OK" "r = Some i" "ctx1 = ctx" "w1 = w"
          using prep False kind Some by (simp_all add: transport_prepare_rx_peer_def of_stream_find(1) [OF p])
        from go [OF prep'(1,2)] prep' Some st show ?thesis by (auto simp: stream_at_def)
      next
        case mismatch: False
        then have "ctx' = ctx" "w' = w"
          using recv prep False kind Some by (auto simp: transport_prepare_rx_peer_def of_stream_find(1) [OF p])
        then show ?thesis using st mismatch False Some by (intro exI [of _ k]) auto
      qed
    qed
  qed
qed

primrec receive_all :: "xgl_transport_ctx \<Rightarrow> world \<Rightarrow> xgl_packet list \<Rightarrow> xgl_transport_ctx \<times> world" where
  "receive_all ctx w [] = (ctx, w)"
| "receive_all ctx w (p # ps) = (case xgl_transport_receive ctx w (Some p) of (err, ctx, w) \<Rightarrow> receive_all ctx w ps)"

lemma upt_join: "i \<le> j \<Longrightarrow> j \<le> k \<Longrightarrow> [i..<j] @ [j..<k] = [i..<k]"
  by (metis le_add_diff_inverse upt_add_eq_append)

lemma subseq_upt_later:
  assumes "subseq [k..<n] xs" "k \<le> k'"
  shows "subseq [k'..<n] xs"
proof (cases "k' \<le> n")
  case True
  have "subseq [k'..<n] ([k..<k'] @ [k'..<n])" by (rule subseq_drop_many) simp
  then show ?thesis using assms upt_join [OF assms(2) True] subseq_order.trans by metis
qed simp

lemma receive_all_stream:
  assumes "\<forall>p \<in> set ps. of_stream s p" "stream_at s ctx k" "receive_all ctx w ps = (ctx', w')"
  shows "\<exists>m \<ge> k. stream_at s ctx' m \<and> app w' = app w @ map (message_of s) [k..<m]"
  using assms
proof (induction ps arbitrary: ctx w k)
  case (Cons p ps)
  obtain err ctx1 w1 where r: "xgl_transport_receive ctx w (Some p) = (err, ctx1, w1)" by (metis prod_cases3)
  then obtain k' where k': "k \<le> k'" "stream_at s ctx1 k'" "app w1 = app w @ map (message_of s) [k..<k']"
    using receive_stream [OF _ Cons.prems(2) r] Cons.prems(1) by auto
  then obtain m where "k' \<le> m" "stream_at s ctx' m" "app w' = app w1 @ map (message_of s) [k'..<m]"
    using Cons.IH [OF _ k'(2), of w1] Cons.prems(1,3) r by auto
  then show ?case using k' by (intro exI [of _ m]) (simp flip: map_append add: upt_join)
qed auto

text \<open>
  C9: in order, at most once. For any sequence of packets of a reliable stream, in any order, with any repetitions and gaps, whatever the
  allocator and the network layer answer, the application is handed exactly the messages that are next in turn,
  each once: those with the numbers from \<open>k\<close> up to some \<open>m\<close>, where \<open>k\<close> had been handed up before. A stream that
  the receiver has no peer for starts at 0.
\<close>

theorem transport_in_order_at_most_once:
  assumes "\<forall>p \<in> set ps. of_stream s p" "stream_at s ctx k" "receive_all ctx w ps = (ctx', w')"
  shows "\<exists>m \<ge> k. stream_at s ctx' m \<and> app w' = app w @ map (message_of s) [k..<m]"
  using assms by (rule receive_all_stream)


text \<open>A receiver for the witnesses: window 4, no fragmentation; a stream of one-byte messages.\<close>

definition empty_world :: world where
  "empty_world = \<lparr> w_allocs = [True, True, True, True, True, True, True, True], w_sends = [], w_clock = [], w_log = [] \<rparr>"

definition sample_config :: xgl_transport_config where
  "sample_config = \<lparr> tf_local_id = 2, tf_max_retry_count = 3, tf_default_timeout_ms = 1000, tf_window_size = 4,
     tf_enable_fragmentation = False, tf_max_frame_size = 64, tf_auth_tag_len = 0, tf_route_table = None, tf_lower_layer = True,
     tf_rx_callback = True, tf_error_callback = True,
     tf_stats = Some \<lparr> ls_tx_packets = 0, ls_tx_bytes = 0, ls_tx_errors = 0, ls_rx_packets = 0, ls_rx_bytes = 0, ls_rx_errors = 0,
       ls_rx_dropped = 0 \<rparr>,
     tf_tx_retries = Some 0, tf_peer_idle_timeout_ms = 0, tf_max_reassembly_slots = 0, tf_codec_registry = None \<rparr>"

definition sample_transport :: xgl_transport_ctx where
  "sample_transport = projr (fst (xgl_transport_init (Some sample_config) empty_world))"

definition sample_stream :: rx_stream where
  "sample_stream = \<lparr> st_source = 1, st_connection = 7, st_epoch = 0, st_session = 7, st_content = (\<lambda>n. (5, [word_of_nat n])) \<rparr>"

definition stream_packet :: "nat \<Rightarrow> xgl_packet" where
  "stream_packet n = zero_packet
     \<lparr> pk_source_id := 1, pk_target_id := 2, pk_session_id := 7, pk_connection_id := 7, pk_packet_number := word_of_nat n,
       pk_packet_type := XGL_PACKET_TYPE_DATA, pk_data_type := 5, pk_reliable := XGL_RELIABILITY_ACK_ELICITING,
       pk_data := Some \<lparr> pd_data = Some [word_of_nat n], pd_data_len = 1 \<rparr> \<rparr>"

lemma stream_packet_of_stream: "n < 2 ^ 32 - 1 \<Longrightarrow> of_stream sample_stream (stream_packet n)"
proof -
  assume n: "n < 2 ^ 32 - 1"
  then have u: "unat (word_of_nat n :: u32) = n" by (intro unat_u32_of_nat) simp
  moreover have "(word_of_nat n :: u32) \<noteq> - 1"
  proof
    assume "(word_of_nat n :: u32) = - 1"
    then have "unat (word_of_nat n :: u32) = 2 ^ 32 - 1" by (simp add: unsigned_minus_1_eq_mask mask_eq_exp_minus_1)
    then show False using n u by simp
  qed
  ultimately show ?thesis
    by (simp add: of_stream_def carries_content_def stream_packet_def sample_stream_def zero_packet_def mem_read_def)
qed

lemma fresh_fragments_inv: "fragment_inv Q (xgl_fragment_init n t)"
  by (simp add: fragment_inv_def xgl_fragment_init_def)

lemma transport_init_facts:
  assumes "xgl_transport_init (Some c) w = (Inr ctx, w')"
  shows "tc_peers ctx = []" "tc_rx_callback ctx = tf_rx_callback c" "window_inv (tc_window ctx)"
    "tc_fragment_mgr ctx = Some m \<Longrightarrow> fragment_inv (\<lambda>_ _ _. True) m" "tc_stats ctx \<noteq> None"
proof -
  obtain win w1 where win: "fresh_window (tf_window_size c) w = (Inr win, w1)"
    using assms by (auto simp: xgl_transport_init_def Let_def split: if_splits prod.splits sum.splits)
  show "tc_peers ctx = []" "tc_rx_callback ctx = tf_rx_callback c" "window_inv (tc_window ctx)"
    "tc_fragment_mgr ctx = Some m \<Longrightarrow> fragment_inv (\<lambda>_ _ _. True) m" "tc_stats ctx \<noteq> None"
    using assms win fresh_window_Inr(1) [OF win]
    by (auto simp: xgl_transport_init_def Let_def fresh_fragments_inv split: if_splits prod.splits bool.splits)
qed

lemma sample_transport_init: "fst (xgl_transport_init (Some sample_config) empty_world) = Inr sample_transport"
  by (simp add: sample_transport_def xgl_transport_init_def sample_config_def fresh_window_def
      xgl_window_init_with_allocator_def w_alloc_def empty_world_def take_alloc_def Let_def)

lemma sample_transport_start: "stream_at sample_stream sample_transport 0"
  using transport_init_facts(1,2) [OF prod.collapse [symmetric, of "xgl_transport_init (Some sample_config) empty_world", unfolded sample_transport_init]]
  by (simp add: stream_at_def find_stream_def transport_find_peer_scope_def transport_find_peer_def sample_config_def)

theorem transport_in_order_at_most_once_witness:
  "\<exists>m. app (snd (receive_all sample_transport empty_world (map stream_packet [1, 0, 1, 3, 0, 2]))) = map (message_of sample_stream) [0..<m]"
proof -
  have "\<forall>p \<in> set (map stream_packet [1, 0, 1, 3, 0, 2]). of_stream sample_stream p" by (auto intro!: stream_packet_of_stream)
  from transport_in_order_at_most_once [OF this sample_transport_start prod.collapse [symmetric], of empty_world]
  show ?thesis by (auto simp: app_def empty_world_def)
qed

text \<open>The receiver after the greeting of the sender.\<close>

definition hello_packet :: xgl_packet where
  "hello_packet = zero_packet \<lparr> pk_source_id := 1, pk_target_id := 2, pk_session_id := 7, pk_connection_id := 7,
     pk_packet_type := XGL_PACKET_TYPE_CONTROL, pk_data_type := XGL_TRANSPORT_CONTROL_HELLO \<rparr>"

definition greeted_transport :: xgl_transport_ctx where
  "greeted_transport = fst (receive_all sample_transport empty_world [hello_packet])"

lemma greeted_peer:
  "length (tc_peers greeted_transport) = 1 \<and> tc_rx_callback greeted_transport \<and> window_inv (tp_tx_window (peer_at greeted_transport 0))
     \<and> length (tp_rx_buffered (peer_at greeted_transport 0)) = 0 \<and> tp_rx_buffered_count (peer_at greeted_transport 0) = 0
     \<and> \<not> tp_rx_has_packet_number_state (peer_at greeted_transport 0) \<and> find_stream sample_stream greeted_transport = Some 0
     \<and> tp_session_id (peer_at greeted_transport 0) = 7"
  by code_simp

lemma greeted_transport_start:
  "stream_at sample_stream greeted_transport 0 \<and> find_stream sample_stream greeted_transport = Some 0
     \<and> tp_session_id (peer_at greeted_transport 0) = 7"
  using greeted_peer by (simp add: stream_at_def rx_state_def rx_inv_def rx_ordered_def buffers_content_def)


section \<open>Sessions\<close>

text \<open>
  A peer that a data packet creates gets the session of the packet cut to six bits, while the packets themselves are
  compared with all sixteen.
\<close>

lemma created_session:
  assumes p: "of_stream s p" and s: "st_session s \<noteq> 0" and new: "find_stream s ctx = None" "tc_rx_callback ctx"
    and run: "xgl_transport_receive ctx w (Some p) = (XGL_OK, ctx', w')"
  obtains i where "find_stream s ctx' = Some i" "tp_session_id (peer_at ctx' i) = st_session s AND 63"
proof -
  obtain d n where d: "pk_data p = Some \<lparr> pd_data = Some d, pd_data_len = n \<rparr>"
    using p by (auto simp: of_stream_def carries_content_def)
  have kind: "pk_packet_type p \<noteq> 3" "pk_packet_type p \<noteq> 2" "pk_reliable p = 0x40" "pk_session_id p = st_session s"
    using p by (simp_all add: of_stream_def)
  have st: "stream_at s ctx 0" using new by (simp add: stream_at_def)
  obtain r ctx2 w3 where c: "transport_get_or_create_rx_peer ctx w p = (r, ctx2, w3)" by (metis prod_cases3)
  note P = stream_peer [OF p st c]
  obtain i where r: "r = Some i"
    using run kind d c new s by (cases r) (simp_all add: xgl_transport_receive_def transport_prepare_rx_peer_def of_stream_find(1) [OF p])
  obtain ctx3 w4 where reset: "transport_reset_peer_state ctx2 w3 i (st_session s) (pk_connection_id p) (pk_session_epoch p) = (ctx3, w4)"
    by fastforce
  obtain now w5 where t: "w_time w4 = (now, w5)" by fastforce
  let ?ctx4 = "peer_update i (\<lambda>peer. peer \<lparr> tp_last_active_ms := now \<rparr>) ctx3"
  have st2: "find_stream s ctx2 = Some i" "rx_state s ctx2 i 0" using P(3) [OF r] by simp_all
  note R = reset_rx_state [OF st2(2) reset]
  have "transport_receive_data ?ctx4 w5 p d n (Some i) = (XGL_OK, ctx', w')"
    using run kind d c new s r reset t by (simp add: xgl_transport_receive_def transport_prepare_rx_peer_def of_stream_find(1) [OF p])
  from receive_data_stream [OF p d active_rx_state [OF R(1)] this] have kept: "kept ?ctx4 ctx'" by blast
  have "kept ctx3 ctx'" by (rule kept_trans [OF kept_update kept]) (simp add: kept_of_def peer_key_def)
  moreover have i: "i < length (tc_peers ctx3)" using R(1) by (simp add: rx_state_def)
  moreover have "tp_session_id (peer_at ctx3 i) = st_session s AND 63"
    using reset st2(2) by (auto simp: transport_reset_peer_state_def transport_clear_rx_buffered_def rx_state_def Let_def split: prod.splits)
  ultimately show thesis
    using that [of i] find_stream_kept [of ctx3 ctx' s] find_stream_keys [OF R(3)] st2(1) keptD(3) [of ctx3 ctx' i] by simp
qed

text \<open>
  C31: a reliable stream whose session number does not fit into six bits is shut out after its first packet. The network layer takes
  the session from the low 16 bits of the connection, the peer stores the low 6: once a packet with session number above
  63 has been accepted, every further packet of the stream is refused as out of sequence and nothing of it is delivered.
\<close>

theorem wide_session_is_shut_out:
  assumes "of_stream s p" "of_stream s q" "st_session s > XGL_SESSION_ID_MASK" "find_stream s ctx = None" "tc_rx_callback ctx"
    and "xgl_transport_receive ctx w (Some p) = (XGL_OK, ctx', w')"
  shows "xgl_transport_receive ctx' v (Some q) = (XGL_ERR_SEQUENCE_ERROR, ctx', v)"
proof -
  have s: "st_session s \<noteq> 0" using assms(3) by auto
  obtain i where i: "find_stream s ctx' = Some i" "tp_session_id (peer_at ctx' i) = st_session s AND 63"
    using created_session [OF assms(1) s assms(4-6)] by blast
  have "st_session s \<noteq> st_session s AND 63" using assms(3) and_63_le [of "st_session s"] by (metis leD)
  moreover have "pk_packet_type q \<noteq> 3" "pk_packet_type q \<noteq> 2" "pk_reliable q = 0x40" "pk_session_id q = st_session s"
    using assms(2) by (simp_all add: of_stream_def)
  moreover obtain d n where "pk_data q = Some \<lparr> pd_data = Some d, pd_data_len = n \<rparr>"
    using assms(2) by (auto simp: of_stream_def carries_content_def)
  ultimately show ?thesis
    using i s by (simp add: xgl_transport_receive_def transport_prepare_rx_peer_def of_stream_find(1) [OF assms(2)])
qed

definition wide_stream :: rx_stream where
  "wide_stream = sample_stream \<lparr> st_connection := 100, st_session := 100 \<rparr>"

definition wide_packet :: "nat \<Rightarrow> xgl_packet" where
  "wide_packet n = stream_packet n \<lparr> pk_connection_id := 100, pk_session_id := 100 \<rparr>"

lemma wide_packet_of_stream: "n < 2 ^ 32 - 1 \<Longrightarrow> of_stream wide_stream (wide_packet n)"
  using stream_packet_of_stream [of n]
  by (simp add: of_stream_def carries_content_def wide_packet_def wide_stream_def)

theorem wide_session_is_shut_out_witness:
  "fst (xgl_transport_receive sample_transport empty_world (Some (wide_packet 0))) = XGL_OK
   \<and> fst (xgl_transport_receive (fst (snd (xgl_transport_receive sample_transport empty_world (Some (wide_packet 0))))) empty_world
         (Some (wide_packet 1))) = XGL_ERR_SEQUENCE_ERROR"
proof -
  have first: "fst (xgl_transport_receive sample_transport empty_world (Some (wide_packet 0))) = XGL_OK" by code_simp
  have start: "st_session wide_stream > 63" "find_stream wide_stream sample_transport = None" "tc_rx_callback sample_transport" by code_simp+
  have of: "of_stream wide_stream (wide_packet 0)" "of_stream wide_stream (wide_packet 1)" by (simp_all add: wide_packet_of_stream)
  have "xgl_transport_receive sample_transport empty_world (Some (wide_packet 0)) =
      (XGL_OK, fst (snd (xgl_transport_receive sample_transport empty_world (Some (wide_packet 0)))),
       snd (snd (xgl_transport_receive sample_transport empty_world (Some (wide_packet 0)))))"
    using first by (metis prod.collapse)
  from wide_session_is_shut_out [OF of start this, of empty_world] show ?thesis using first by (simp only: fst_conv)
qed

end
