(* ===== verification/Xgl_Transport_Tx.thy ===== *)
theory Xgl_Transport_Tx
  imports Xgl_Transport
begin

text \<open>
  The sending half of the transport layer: the plan of a message, its fragments, the
  queue of packets that wait for an acknowledgement.
\<close>

section \<open>The code\<close>


record xgl_tx_data =
  td_target_id :: u16
  td_data_type :: u8
  td_data :: "bytes option"
  td_data_len :: nat
  td_reliable :: bool
  td_priority :: u8
  td_timeout_ms :: u32
  td_connection_id :: u32
  td_session_epoch :: u32
  td_compression_id :: u8

subsection \<open>The plan\<close>

record xgl_transport_send_plan =
  sp_max_frame_size :: u16
  sp_app_extensions_len :: nat
  sp_app_payload_budget :: nat
  sp_needs_fragmentation :: bool
  sp_fragment_extensions_len :: nat
  sp_fragment_payload_budget :: nat
  sp_fragment_count :: nat

definition transport_effective_max_frame_size :: "xgl_transport_ctx \<Rightarrow> u16 \<Rightarrow> u16" where
  "transport_effective_max_frame_size ctx target_id =
     (let max_frame_size = tc_max_frame_size ctx
      in case tc_route_table ctx of
           None \<Rightarrow> max_frame_size
         | Some table \<Rightarrow>
             (case route_map table target_id of
                None \<Rightarrow> max_frame_size
              | Some route \<Rightarrow> if ri_max_frame_size route < max_frame_size then ri_max_frame_size route else max_frame_size))"

definition transport_build_send_plan ::
  "xgl_transport_ctx \<Rightarrow> xgl_tx_data \<Rightarrow> xgl_error + xgl_transport_send_plan" where
  "transport_build_send_plan ctx tx_data =
     (let max_frame_size = transport_effective_max_frame_size ctx (td_target_id tx_data);
          app_extensions_len = (if td_data_type tx_data \<noteq> 0 then XGL_DATA_TYPE_EXT_SIZE else 0)
      in (case xgl_frame_payload_budget (unat max_frame_size) 0 (unat (tc_auth_tag_len ctx)) of
            None \<Rightarrow> Inl XGL_ERR_INVALID_PARAM
          | Some base_budget \<Rightarrow>
              (case xgl_frame_payload_budget (unat max_frame_size) app_extensions_len (unat (tc_auth_tag_len ctx)) of
                 None \<Rightarrow> Inl XGL_ERR_BUFFER_TOO_SMALL
               | Some budget \<Rightarrow>
                   let plan = \<lparr> sp_max_frame_size = max_frame_size, sp_app_extensions_len = app_extensions_len,
                         sp_app_payload_budget = budget, sp_needs_fragmentation = False,
                         sp_fragment_extensions_len = app_extensions_len, sp_fragment_payload_budget = budget,
                         sp_fragment_count = 1 \<rparr>
                   in if td_data_len tx_data \<le> budget then Inr plan
                      else if \<not> tc_enable_fragmentation ctx then Inl XGL_ERR_BUFFER_TOO_SMALL
                      else if budget \<le> XGL_FRAGMENT_EXT_SIZE then Inl XGL_ERR_BUFFER_TOO_SMALL
                      else
                        let fragment_budget = budget - XGL_FRAGMENT_EXT_SIZE
                        in Inr (plan \<lparr> sp_needs_fragmentation := True,
                             sp_fragment_extensions_len := app_extensions_len + XGL_FRAGMENT_EXT_SIZE,
                             sp_fragment_payload_budget := fragment_budget,
                             sp_fragment_count := (td_data_len tx_data + fragment_budget - 1) div fragment_budget \<rparr>))))"

subsection \<open>One packet\<close>

text \<open>Timeouts are converted to signed 32-bit integers.\<close>

definition transport_send_timeout_ms :: "xgl_transport_ctx \<Rightarrow> nat option \<Rightarrow> xgl_tx_data \<Rightarrow> int" where
  "transport_send_timeout_ms ctx peer tx_data =
     (if td_timeout_ms tx_data > 0 then sint (td_timeout_ms tx_data)
      else
        let timeout_ms = (case peer of Some i \<Rightarrow> xgl_rtt_get_rto (Some (tp_rtt_est (peer_at ctx i)))
                          | None \<Rightarrow> xgl_rtt_get_rto (Some (tc_rtt_est ctx)))
        in if timeout_ms = 0 then sint (tc_default_timeout_ms ctx) else timeout_ms)"

text \<open>
  A reliable send always has a peer (it was selected before); the queued packet is returned by its address. The last part of the
  result is \<^verbatim>\<open>*rel_packet\<close>.
\<close>

definition transport_queue_reliable_tx ::
  "xgl_transport_ctx \<Rightarrow> world \<Rightarrow> nat option \<Rightarrow> xgl_tx_data \<Rightarrow> bytes option \<Rightarrow> nat \<Rightarrow> u32 \<Rightarrow> bool \<Rightarrow> bytes option \<Rightarrow> nat
     \<Rightarrow> xgl_error \<times> xgl_transport_ctx \<times> world \<times> nat option" where
  "transport_queue_reliable_tx ctx w peer tx_data data data_len packet_number fragment extensions extensions_len =
     (if \<not> td_reliable tx_data then (XGL_OK, ctx, w, None)
      else
        (case peer of
           None \<Rightarrow> (XGL_ERR_NULL_POINTER, ctx, w, None)
         | Some i \<Rightarrow>
             (case xgl_reliable_add_packet_number (tp_reliable_queue (peer_at ctx i)) data data_len (tc_local_id ctx)
                     (td_target_id tx_data) packet_number (td_data_type tx_data) (td_priority tx_data)
                     (transport_send_timeout_ms ctx peer tx_data) None (w_allocs w) of
                (err, queue, allocs) \<Rightarrow>
                  let w = w \<lparr> w_allocs := allocs \<rparr>;
                      ctx = queue_update i (\<lambda>_. queue) ctx
                  in if err \<noteq> XGL_OK then (err, ctx, w, None)
                     else
                       (case xgl_reliable_find_packet_number queue packet_number (td_target_id tx_data) of
                          None \<Rightarrow> (XGL_OK, ctx, w, None)
                        | Some a \<Rightarrow>
                            let rel = (packet_at queue a)
                                  \<lparr> rp_session_id := tp_session_id (peer_at ctx i), rp_connection_id := td_connection_id tx_data,
                                    rp_session_epoch := td_session_epoch tx_data, rp_packet_type := XGL_PACKET_TYPE_DATA,
                                    rp_fragment := fragment \<rparr>
                            in if \<not> fragment then (XGL_OK, queue_update i (set_packet_at a rel) ctx, w, Some a)
                               else
                                 let queue = set_packet_at a
                                       (rel \<lparr> rp_flags := XGL_WIRE_FLAG_FRAGMENTED OR XGL_WIRE_FLAG_HAS_EXTENSIONS \<rparr>) queue
                                 in (case xgl_reliable_set_packet_extensions queue (Some a) extensions extensions_len (w_allocs w) of
                                       (err, queue, allocs) \<Rightarrow>
                                         let w = w \<lparr> w_allocs := allocs \<rparr>
                                         in if err \<noteq> XGL_OK
                                            then (err, queue_update i (\<lambda>_. snd (xgl_reliable_remove_packet_number queue packet_number
                                                                                  (td_target_id tx_data))) ctx, w, None)
                                            else (XGL_OK, queue_update i (\<lambda>_. queue) ctx, w, Some a))))))"

definition transport_packet_view ::
  "xgl_transport_ctx \<Rightarrow> nat option \<Rightarrow> xgl_tx_data \<Rightarrow> bytes option \<Rightarrow> nat \<Rightarrow> u32 \<Rightarrow> bool \<Rightarrow> bytes option \<Rightarrow> nat \<Rightarrow> xgl_packet" where
  "transport_packet_view ctx peer tx_data data data_len packet_number fragment extensions extensions_len = zero_packet
     \<lparr> pk_source_id := tc_local_id ctx, pk_target_id := td_target_id tx_data, pk_packet_number := packet_number,
       pk_session_id := (case peer of None \<Rightarrow> 0 | Some i \<Rightarrow> tp_session_id (peer_at ctx i)),
       pk_connection_id := td_connection_id tx_data, pk_session_epoch := td_session_epoch tx_data,
       pk_data_type := td_data_type tx_data, pk_reliable := of_bool (td_reliable tx_data), pk_fragment := of_bool fragment,
       pk_priority := td_priority tx_data, pk_data := Some \<lparr> pd_data = data, pd_data_len = data_len \<rparr>,
       pk_extensions := extensions, pk_extensions_len := extensions_len \<rparr>"

definition transport_send_packet_view ::
  "xgl_transport_ctx \<Rightarrow> world \<Rightarrow> nat option \<Rightarrow> xgl_tx_data \<Rightarrow> bytes option \<Rightarrow> nat \<Rightarrow> u32 \<Rightarrow> bool \<Rightarrow> bytes option \<Rightarrow> nat
     \<Rightarrow> nat option \<Rightarrow> xgl_error \<times> xgl_transport_ctx \<times> world" where
  "transport_send_packet_view ctx w peer tx_data data data_len packet_number fragment extensions extensions_len rel_packet =
     (case xgl_layer_send ctx w
             (transport_packet_view ctx peer tx_data data data_len packet_number fragment extensions extensions_len) of
        (err, phy, w) \<Rightarrow>
          let reliable_peer = (if td_reliable tx_data then peer else None)
          in if err \<noteq> XGL_OK
             then let ctx = transport_count_send_error ctx
                  in (err, case reliable_peer of None \<Rightarrow> ctx
                           | Some i \<Rightarrow> queue_update i (\<lambda>q. snd (xgl_reliable_remove_packet_number q packet_number
                                                                   (td_target_id tx_data))) ctx, w)
             else
               (case reliable_peer of
                  None \<Rightarrow> (XGL_OK, ctx, w)
                | Some i \<Rightarrow>
                    let ctx = transport_commit_packet_number ctx i
                    in (case rel_packet of
                          None \<Rightarrow> (XGL_OK, ctx, w)
                        | Some a \<Rightarrow>
                            (case w_time w of
                               (now, w) \<Rightarrow>
                                 let stamp = (\<lambda>q. let rel = packet_at q a \<lparr> rp_send_timestamp := now \<rparr>
                                                  in set_packet_at a (if fragment then rel else rel \<lparr> rp_phy := phy \<rparr>) q)
                                 in (XGL_OK, peer_update i transport_update_peer_deadline (queue_update i stamp ctx), w)))))"

subsection \<open>Fragments\<close>

definition transport_encode_fragment_ext :: "u32 \<Rightarrow> u32 \<Rightarrow> u32 \<Rightarrow> bytes \<Rightarrow> nat \<Rightarrow> xgl_error + bytes \<times> nat" where
  "transport_encode_fragment_ext message_id fragment_offset total_len fragment_ext fragment_ext_capacity =
     (case xgl_wire_encode_fragment_ext_value (Some (replicate XGL_FRAGMENT_EXT_VALUE_SIZE 0)) XGL_FRAGMENT_EXT_VALUE_SIZE
             message_id fragment_offset total_len of
        Inl err \<Rightarrow> Inl err
      | Inr (val, val_len) \<Rightarrow>
          xgl_wire_encode_ext (Some fragment_ext) fragment_ext_capacity XGL_WIRE_EXT_FRAGMENT (Some val) val_len)"

fun send_fragments_loop ::
  "xgl_transport_ctx \<Rightarrow> world \<Rightarrow> nat option \<Rightarrow> xgl_tx_data \<Rightarrow> nat \<Rightarrow> u32 \<Rightarrow> nat list
     \<Rightarrow> xgl_error \<times> xgl_transport_ctx \<times> world" where
  "send_fragments_loop ctx w peer tx_data fragment_payload_max message_id [] = (XGL_OK, ctx, w)"
| "send_fragments_loop ctx w peer tx_data fragment_payload_max message_id (k # ks) =
     (let fragment_offset = k * fragment_payload_max;
          remaining = td_data_len tx_data - fragment_offset;
          fragment_payload_len = (if remaining < fragment_payload_max then remaining else fragment_payload_max);
          window = (case (if td_reliable tx_data then peer else None) of
                      None \<Rightarrow> None | Some i \<Rightarrow> Some (tp_tx_window (peer_at ctx i)))
      in if window \<noteq> None \<and> \<not> xgl_window_can_send_packet_number window then (XGL_ERR_WINDOW_FULL, ctx, w)
         else
           let packet_number = (if window \<noteq> None then xgl_window_get_next_packet_number window else 0)
           in (case transport_encode_fragment_ext message_id (word_of_nat fragment_offset) (word_of_nat (td_data_len tx_data))
                      (replicate XGL_FRAGMENT_EXT_SIZE 0) XGL_FRAGMENT_EXT_SIZE of
                 Inl err \<Rightarrow> (err, ctx, w)
               | Inr (fragment_ext, encoded_ext_len) \<Rightarrow>
                   let piece = map_option (drop fragment_offset) (td_data tx_data)
                   in (case transport_queue_reliable_tx ctx w peer tx_data piece fragment_payload_len packet_number True
                              (Some fragment_ext) encoded_ext_len of
                         (err, ctx, w, rel_packet) \<Rightarrow>
                           if err \<noteq> XGL_OK then (err, ctx, w)
                           else
                             (case transport_send_packet_view ctx w peer tx_data piece fragment_payload_len packet_number True
                                     (Some fragment_ext) encoded_ext_len rel_packet of
                                (err, ctx, w) \<Rightarrow>
                                  if err \<noteq> XGL_OK then (err, ctx, w)
                                  else send_fragments_loop ctx w peer tx_data fragment_payload_max message_id ks))))"

definition transport_send_fragmented ::
  "xgl_transport_ctx \<Rightarrow> world \<Rightarrow> nat option \<Rightarrow> xgl_tx_data \<Rightarrow> xgl_transport_send_plan \<Rightarrow> xgl_error \<times> xgl_transport_ctx \<times> world" where
  "transport_send_fragmented ctx w peer tx_data plan =
     (case tc_fragment_mgr ctx of
        None \<Rightarrow> (XGL_ERR_INVALID_PARAM, ctx, w)
      | Some m \<Rightarrow>
          let message_id = fm_next_message_id m;
              ctx = ctx \<lparr> tc_fragment_mgr := Some (m \<lparr> fm_next_message_id := message_id + 1 \<rparr>) \<rparr>
          in send_fragments_loop ctx w peer tx_data (sp_fragment_payload_budget plan) message_id [0..<sp_fragment_count plan])"

subsection \<open>Sending a message\<close>

definition transport_select_tx_peer ::
  "xgl_transport_ctx \<Rightarrow> world \<Rightarrow> xgl_tx_data \<Rightarrow> nat option \<times> xgl_transport_ctx \<times> world" where
  "transport_select_tx_peer ctx w tx_data =
     (if td_connection_id tx_data \<noteq> 0 \<or> td_session_epoch tx_data \<noteq> 0
      then transport_get_or_create_peer_scope ctx w (td_target_id tx_data) (td_connection_id tx_data) (td_session_epoch tx_data)
      else transport_get_or_create_peer ctx w (td_target_id tx_data))"

definition transport_prepare_reliable_send ::
  "xgl_transport_ctx \<Rightarrow> world \<Rightarrow> xgl_tx_data \<Rightarrow> xgl_error \<times> nat option \<times> xgl_transport_ctx \<times> world" where
  "transport_prepare_reliable_send ctx w tx_data =
     (if \<not> td_reliable tx_data then (XGL_OK, None, ctx, w)
      else
        (case transport_select_tx_peer ctx w tx_data of
           (None, ctx, w) \<Rightarrow> (XGL_ERR_NO_MEMORY, None, ctx, w)
         | (Some i, ctx, w) \<Rightarrow>
             let peer = peer_at ctx i
             in if \<not> xgl_window_can_send_packet_number (Some (tp_tx_window peer)) then (XGL_ERR_WINDOW_FULL, Some i, ctx, w)
                else if tp_hello_sent peer then (XGL_OK, Some i, ctx, w)
                else
                  (case transport_send_control ctx w (td_target_id tx_data) XGL_TRANSPORT_CONTROL_HELLO 0 (tp_session_id peer)
                          (tp_connection_id peer) (tp_session_epoch peer) of
                     (err, w) \<Rightarrow>
                       (err, Some i, if err = XGL_OK then peer_update i (\<lambda>peer. peer \<lparr> tp_hello_sent := True \<rparr>) ctx else ctx, w))))"

definition transport_compress :: "xgl_transport_ctx \<Rightarrow> xgl_tx_data \<Rightarrow> bytes \<Rightarrow> bytes \<times> nat" where
  "transport_compress ctx tx_data d =
     (if td_compression_id tx_data \<noteq> 0 \<and> tc_codec_registry ctx \<noteq> None
      then (case xgl_codec_find (tc_codec_registry ctx) XGL_CODEC_KIND_COMPRESSION (td_compression_id tx_data) of
              None \<Rightarrow> (d, td_data_len tx_data)
            | Some codec \<Rightarrow>
                (case the (cd_encode codec) (mem_read d 0 (td_data_len tx_data)) XGL_DATALINK_STACK_BUFFER_SIZE of
                   (err, encoded) \<Rightarrow>
                     if err = XGL_OK \<and> length encoded < td_data_len tx_data then (encoded, length encoded)
                     else (d, td_data_len tx_data)))
      else (d, td_data_len tx_data))"

definition xgl_transport_send ::
  "xgl_transport_ctx \<Rightarrow> world \<Rightarrow> xgl_tx_data option \<Rightarrow> xgl_error \<times> xgl_transport_ctx \<times> world" where
  "xgl_transport_send ctx w tx_ptr =
     (case tx_ptr of
        None \<Rightarrow> (XGL_ERR_NULL_POINTER, ctx, w)
      | Some tx_data \<Rightarrow>
          (case td_data tx_data of
             None \<Rightarrow> (XGL_ERR_NULL_POINTER, ctx, w)
           | Some d \<Rightarrow>
               if td_data_len tx_data = 0 then (XGL_ERR_INVALID_PARAM, ctx, w)
               else if \<not> tc_lower_layer ctx then (XGL_ERR_INVALID_PARAM, ctx, xgl_transport_report_error ctx w XGL_ERR_INVALID_PARAM)
               else
                 (case transport_prepare_reliable_send ctx w tx_data of
                    (err, peer, ctx, w) \<Rightarrow>
                      if err \<noteq> XGL_OK then (err, ctx, w)
                      else
                        (case transport_build_send_plan ctx tx_data of
                           Inl err \<Rightarrow>
                             (err, transport_count_send_error ctx,
                              if err = XGL_ERR_INVALID_PARAM then xgl_transport_report_error ctx w XGL_ERR_INVALID_PARAM else w)
                         | Inr plan \<Rightarrow>
                             (case transport_compress ctx tx_data d of
                                (send_data, send_data_len) \<Rightarrow>
                                  (case (if sp_needs_fragmentation plan then transport_send_fragmented ctx w peer tx_data plan
                                         else
                                           let packet_number = (case (if td_reliable tx_data then peer else None) of
                                                 None \<Rightarrow> 0
                                               | Some i \<Rightarrow> xgl_window_get_next_packet_number (Some (tp_tx_window (peer_at ctx i))))
                                           in (case transport_queue_reliable_tx ctx w peer tx_data (Some send_data) send_data_len
                                                      packet_number False None 0 of
                                                 (err, ctx, w, rel_packet) \<Rightarrow>
                                                   if err \<noteq> XGL_OK then (err, ctx, w)
                                                   else transport_send_packet_view ctx w peer tx_data (Some send_data) send_data_len
                                                          packet_number False None 0 rel_packet)) of
                                     (err, ctx, w) \<Rightarrow>
                                       if err \<noteq> XGL_OK then (err, ctx, w)
                                       else
                                         let ctx = tp_count (count_tx_frame (td_data_len tx_data)) ctx
                                         in (case peer of
                                               None \<Rightarrow> (XGL_OK, ctx, w)
                                             | Some i \<Rightarrow>
                                                 (case w_time w of
                                                    (now, w) \<Rightarrow>
                                                      (XGL_OK, peer_update i (\<lambda>peer. peer \<lparr> tp_last_active_ms := now \<rparr>) ctx, w)))))))))"

section \<open>What a send hands to the network layer\<close>

text \<open>The packets of a message depend on the context only through what the following relation keeps.\<close>

definition tx_from :: "xgl_transport_ctx \<Rightarrow> xgl_transport_ctx \<Rightarrow> bool" where
  "tx_from ctx ctx' \<longleftrightarrow> tc_local_id ctx' = tc_local_id ctx \<and> tc_lower_layer ctx' = tc_lower_layer ctx
     \<and> tc_max_frame_size ctx' = tc_max_frame_size ctx \<and> tc_route_table ctx' = tc_route_table ctx \<and> tc_auth_tag_len ctx' = tc_auth_tag_len ctx
     \<and> map (\<lambda>peer. (tp_peer_id peer, tp_session_id peer, sw_window_size (tp_tx_window peer))) (tc_peers ctx') =
       map (\<lambda>peer. (tp_peer_id peer, tp_session_id peer, sw_window_size (tp_tx_window peer))) (tc_peers ctx)"

definition tx_peer_ok :: "xgl_transport_ctx \<Rightarrow> xgl_tx_data \<Rightarrow> nat option \<Rightarrow> bool" where
  "tx_peer_ok ctx tx_data peer \<longleftrightarrow> (case peer of None \<Rightarrow> \<not> td_reliable tx_data | Some i \<Rightarrow> td_reliable tx_data \<and> i < length (tc_peers ctx))"

definition tx_next :: "xgl_transport_ctx \<Rightarrow> nat option \<Rightarrow> u32" where
  "tx_next ctx peer = (case peer of None \<Rightarrow> 0 | Some i \<Rightarrow> sw_next_packet_number (tp_tx_window (peer_at ctx i)))"

lemma tx_from_refl [simp]: "tx_from ctx ctx"
  by (simp add: tx_from_def)

lemma tx_from_trans: "tx_from a b \<Longrightarrow> tx_from b c \<Longrightarrow> tx_from a c"
  by (simp add: tx_from_def)

lemma tx_from_length: "tx_from ctx ctx' \<Longrightarrow> length (tc_peers ctx') = length (tc_peers ctx)"
  unfolding tx_from_def by (elim conjE) (rule map_eq_imp_length_eq)

lemma tx_from_peer_ok: "tx_from ctx ctx' \<Longrightarrow> tx_peer_ok ctx tx_data peer \<Longrightarrow> tx_peer_ok ctx' tx_data peer"
  using tx_from_length [of ctx ctx'] by (cases peer) (simp_all add: tx_peer_ok_def)

lemma tx_from_session:
  assumes "tx_from ctx ctx'" "i < length (tc_peers ctx)"
  shows "tp_session_id (peer_at ctx' i) = tp_session_id (peer_at ctx i)" "tp_peer_id (peer_at ctx' i) = tp_peer_id (peer_at ctx i)"
proof -
  let ?f = "\<lambda>peer. (tp_peer_id peer, tp_session_id peer, sw_window_size (tp_tx_window peer))"
  have "map ?f (tc_peers ctx') ! i = map ?f (tc_peers ctx) ! i" using assms(1) by (simp only: tx_from_def)
  then show "tp_session_id (peer_at ctx' i) = tp_session_id (peer_at ctx i)" "tp_peer_id (peer_at ctx' i) = tp_peer_id (peer_at ctx i)"
    using assms(2) tx_from_length [OF assms(1)] by simp_all
qed

lemma tx_from_find: "tx_from ctx ctx' \<Longrightarrow> transport_find_peer ctx' k = transport_find_peer ctx k"
  using tx_from_session(2) [of ctx ctx'] by (auto simp: transport_find_peer_def tx_from_length intro!: find_cong)

lemma packet_view_from:
  assumes "tx_from ctx ctx'" "tx_peer_ok ctx tx_data peer"
  shows "transport_packet_view ctx' peer tx_data d n pn fragment e en = transport_packet_view ctx peer tx_data d n pn fragment e en"
proof (cases peer)
  case (Some i)
  then have "tp_session_id (peer_at ctx' i) = tp_session_id (peer_at ctx i)"
    using assms(2) by (intro tx_from_session(1) [OF assms(1)]) (simp add: tx_peer_ok_def)
  then show ?thesis using assms(1) Some by (simp add: transport_packet_view_def tx_from_def)
qed (use assms(1) in \<open>simp add: transport_packet_view_def tx_from_def\<close>)

lemma tx_from_peer_update:
  assumes "tp_peer_id (g (peer_at ctx i)) = tp_peer_id (peer_at ctx i)" "tp_session_id (g (peer_at ctx i)) = tp_session_id (peer_at ctx i)"
    "sw_window_size (tp_tx_window (g (peer_at ctx i))) = sw_window_size (tp_tx_window (peer_at ctx i))"
  shows "tx_from ctx (peer_update i g ctx)"
proof -
  have "map f ((tc_peers ctx)[i := g (peer_at ctx i)]) = map f (tc_peers ctx)" if "f (g (peer_at ctx i)) = f (peer_at ctx i)" for f :: "_ \<Rightarrow> u16 \<times> u16 \<times> u8"
    using that by (cases "i < length (tc_peers ctx)") (simp_all add: map_update list_update_same_conv list_update_beyond)
  then show ?thesis using assms by (simp add: tx_from_def)
qed

lemma queue_update_tx [simp]:
  "tx_from a (queue_update i g ctx) = tx_from a ctx" "tx_next (queue_update i g ctx) peer = tx_next ctx peer"
proof -
  have "tx_from ctx (queue_update i g ctx)" unfolding queue_update_def by (rule tx_from_peer_update) simp_all
  then show "tx_from a (queue_update i g ctx) = tx_from a ctx" by (auto simp: tx_from_def)
  show "tx_next (queue_update i g ctx) peer = tx_next ctx peer"
    by (cases "i < length (tc_peers ctx)") (auto simp: tx_next_def queue_update_def nth_list_update list_update_beyond split: option.splits)
qed

lemma queue_reliable_tx:
  assumes "transport_queue_reliable_tx ctx w peer tx_data d n pn fragment e en = (err, ctx', w', rel)"
  shows "tx_from ctx ctx'" "tx_next ctx' peer = tx_next ctx peer" "w_log w' = w_log w"
  using assms unfolding transport_queue_reliable_tx_def Let_def
  by (auto split: if_splits option.splits prod.splits)

lemma tx_from_count [simp]: "tx_from a (tp_count f ctx) = tx_from a ctx" "tx_next (tp_count f ctx) peer = tx_next ctx peer"
  by (simp_all add: tx_from_def tx_next_def split: option.splits)

lemma tx_from_context [simp]: "tx_from a (ctx \<lparr> tc_window := x \<rparr>) = tx_from a ctx" "tx_next (ctx \<lparr> tc_window := x \<rparr>) peer = tx_next ctx peer"
  "tx_from a (ctx \<lparr> tc_fragment_mgr := m \<rparr>) = tx_from a ctx" "tx_next (ctx \<lparr> tc_fragment_mgr := m \<rparr>) peer = tx_next ctx peer"
  by (simp_all add: tx_from_def tx_next_def split: option.splits)

lemma commit_packet_number:
  assumes "i < length (tc_peers ctx)"
  shows "tx_from ctx (transport_commit_packet_number ctx i)" "tx_next (transport_commit_packet_number ctx i) (Some i) = tx_next ctx (Some i) + 1"
proof -
  let ?g = "\<lambda>peer. peer \<lparr> tp_tx_window := xgl_window_advance_next_packet_number (tp_tx_window peer) \<rparr>"
  have "tx_from ctx (peer_update i ?g ctx)" by (rule tx_from_peer_update) (simp_all add: xgl_window_advance_next_packet_number_def)
  then show "tx_from ctx (transport_commit_packet_number ctx i)" by (simp add: transport_commit_packet_number_def Let_def)
  show "tx_next (transport_commit_packet_number ctx i) (Some i) = tx_next ctx (Some i) + 1"
    using assms by (simp add: transport_commit_packet_number_def Let_def tx_next_def xgl_window_advance_next_packet_number_def)
qed

lemma deadline_tx [simp]:
  "tx_from a (peer_update i transport_update_peer_deadline ctx) = tx_from a ctx"
  "tx_next (peer_update i transport_update_peer_deadline ctx) peer = tx_next ctx peer"
proof -
  have "tx_from ctx (peer_update i transport_update_peer_deadline ctx)"
    by (rule tx_from_peer_update) (simp_all add: transport_update_peer_deadline_def Let_def)
  then show "tx_from a (peer_update i transport_update_peer_deadline ctx) = tx_from a ctx" by (auto simp: tx_from_def)
  show "tx_next (peer_update i transport_update_peer_deadline ctx) peer = tx_next ctx peer"
    by (cases "i < length (tc_peers ctx)")
       (auto simp: tx_next_def transport_update_peer_deadline_def Let_def nth_list_update list_update_beyond split: option.splits)
qed

text \<open>One packet: it goes to the network layer, and where that accepts it the packet number is used up.\<close>

lemma send_packet_view:
  assumes run: "transport_send_packet_view ctx w peer tx_data d n pn fragment e en rel = (err, ctx', w')"
    and ok: "tx_peer_ok ctx tx_data peer" "tc_lower_layer ctx"
  shows "tx_from ctx ctx'" "w_log w' = w_log w @ [ToNetwork (transport_packet_view ctx peer tx_data d n pn fragment e en)]"
    "err = XGL_OK \<Longrightarrow> tx_next ctx' peer = (if td_reliable tx_data then tx_next ctx peer + 1 else 0)"
proof -
  obtain err1 phy w1 where s: "xgl_layer_send ctx w (transport_packet_view ctx peer tx_data d n pn fragment e en) = (err1, phy, w1)"
    by (metis prod_cases3)
  note log = layer_send_log [OF ok(2) s]
  have *: "tx_from ctx ctx' \<and> w_log w' = w_log w1 \<and> (err = XGL_OK \<longrightarrow> tx_next ctx' peer = (if td_reliable tx_data then tx_next ctx peer + 1 else 0))"
  proof (cases peer)
    case None
    then show ?thesis
      using run ok s by (auto simp: transport_send_packet_view_def tx_peer_ok_def tx_next_def Let_def transport_count_send_error_def
          split: if_splits)
  next
    case (Some i)
    then have i: "td_reliable tx_data" "i < length (tc_peers ctx)" using ok(1) by (simp_all add: tx_peer_ok_def)
    show ?thesis
      using run s i Some commit_packet_number [OF i(2)] w_time_log [of w1]
      by (auto simp: transport_send_packet_view_def Let_def transport_count_send_error_def
          split: if_splits option.splits prod.splits)
  qed
  show "tx_from ctx ctx'" "w_log w' = w_log w @ [ToNetwork (transport_packet_view ctx peer tx_data d n pn fragment e en)]"
    "err = XGL_OK \<Longrightarrow> tx_next ctx' peer = (if td_reliable tx_data then tx_next ctx peer + 1 else 0)"
    using * log by simp_all
qed

text \<open>A fragment: its extension says which message, where in it, and how long the message is.\<close>

definition fragment_exts :: "u32 \<Rightarrow> nat \<Rightarrow> nat \<Rightarrow> (u8 \<times> bytes) list" where
  "fragment_exts message_id off total_len =
     [(XGL_WIRE_EXT_FRAGMENT, fragment_image (message_id, word_of_nat off, word_of_nat total_len))]"

lemma encode_fragment_ext:
  "transport_encode_fragment_ext message_id (word_of_nat off) (word_of_nat len) (replicate 14 0) 14 =
     Inr (exts_image (fragment_exts message_id off len), 14)"
proof -
  define v where "v = fragment_image (message_id, word_of_nat off, word_of_nat len)"
  have len: "length v = 12" by (simp add: v_def fragment_image_def)
  have "xgl_wire_encode_fragment_ext_value (Some (replicate 12 0)) 12 message_id (word_of_nat off) (word_of_nat len) = Inr (v, 12)"
    using fragment_codec.enc_image [of "(message_id, word_of_nat off, word_of_nat len)" 12 "replicate 12 0"] len
    unfolding v_def by (simp)
  moreover have "xgl_wire_encode_ext (Some (replicate 14 0)) 14 XGL_WIRE_EXT_FRAGMENT (Some v) 12 = Inr (tlv_image XGL_WIRE_EXT_FRAGMENT v, 14)"
    by (subst xgl_wire_encode_ext_image) (simp_all add: len)
  ultimately show ?thesis
    unfolding transport_encode_fragment_ext_def fragment_exts_def v_def [symmetric] by (simp only: sum.case prod.case length_exts_image_append)
qed

definition tx_number :: "xgl_transport_ctx \<Rightarrow> nat option \<Rightarrow> nat \<Rightarrow> u32" where
  "tx_number ctx peer j = (case peer of None \<Rightarrow> 0 | Some _ \<Rightarrow> tx_next ctx peer + word_of_nat j)"

definition fragment_packet :: "xgl_transport_ctx \<Rightarrow> nat option \<Rightarrow> xgl_tx_data \<Rightarrow> nat \<Rightarrow> u32 \<Rightarrow> nat \<Rightarrow> u32 \<Rightarrow> xgl_packet" where
  "fragment_packet ctx peer tx_data n message_id k pn =
     transport_packet_view ctx peer tx_data (map_option (drop (k * n)) (td_data tx_data)) (min (td_data_len tx_data - k * n) n) pn True
       (Some (exts_image (fragment_exts message_id (k * n) (td_data_len tx_data)))) XGL_FRAGMENT_EXT_SIZE"

lemma tx_number_0: "tx_peer_ok ctx tx_data peer \<Longrightarrow>
   (if (case (if td_reliable tx_data then peer else None) of None \<Rightarrow> None | Some i \<Rightarrow> Some (tp_tx_window (peer_at ctx i))) \<noteq> None
    then xgl_window_get_next_packet_number
           (case (if td_reliable tx_data then peer else None) of None \<Rightarrow> None | Some i \<Rightarrow> Some (tp_tx_window (peer_at ctx i)))
    else 0) = tx_number ctx peer 0"
  by (cases peer) (auto simp: tx_peer_ok_def tx_number_def tx_next_def xgl_window_get_next_packet_number_def)

lemma tx_number_Suc:
  assumes "tx_peer_ok ctx tx_data peer" "tx_next ctx' peer = (if td_reliable tx_data then tx_next ctx peer + 1 else 0)"
  shows "tx_number ctx' peer j = tx_number ctx peer (Suc j)"
  using assms by (cases peer) (auto simp: tx_peer_ok_def tx_number_def)

lemma fragment_packet_from:
  "tx_from ctx ctx' \<Longrightarrow> tx_peer_ok ctx tx_data peer \<Longrightarrow>
   fragment_packet ctx' peer tx_data n message_id k pn = fragment_packet ctx peer tx_data n message_id k pn"
  by (simp add: fragment_packet_def packet_view_from)

text \<open>
  The fragments go out in order, with consecutive packet numbers; where the loop fails, those before the failure have gone out.
\<close>

lemma send_fragments_log:
  assumes "send_fragments_loop ctx w peer tx_data n message_id ks = (err, ctx', w')" "tx_peer_ok ctx tx_data peer" "tc_lower_layer ctx"
  shows "tx_from ctx ctx' \<and> (\<exists>m \<le> length ks. (err = XGL_OK \<longrightarrow> m = length ks \<and> tx_next ctx' peer = tx_number ctx peer m) \<and>
     w_log w' = w_log w @ map (\<lambda>j. ToNetwork (fragment_packet ctx peer tx_data n message_id (ks ! j) (tx_number ctx peer j))) [0..<m])"
  using assms
proof (induction ks arbitrary: ctx w)
  case Nil
  then show ?case by (cases peer) (auto simp: tx_number_def tx_next_def)
next
  case (Cons k ks)
  let ?e = "exts_image (fragment_exts message_id (k * n) (td_data_len tx_data))"
  let ?d = "map_option (drop (k * n)) (td_data tx_data)" and ?len = "min (td_data_len tx_data - k * n) n"
  have len: "(if td_data_len tx_data - k * n < n then td_data_len tx_data - k * n else n) = ?len" by simp
  note loop = Cons.prems(1) [unfolded send_fragments_loop.simps Let_def tx_number_0 [OF Cons.prems(2)] encode_fragment_ext sum.case prod.case len]
  have stop: ?case if "ctx' = c" "tx_from ctx c" "w_log w' = w_log w" "err \<noteq> XGL_OK" for c
    using that by (auto intro!: exI [of _ 0])
  show ?case
  proof (cases "(case (if td_reliable tx_data then peer else None) of None \<Rightarrow> None | Some i \<Rightarrow> Some (tp_tx_window (peer_at ctx i))) \<noteq> None \<and>
      \<not> xgl_window_can_send_packet_number
        (case (if td_reliable tx_data then peer else None) of None \<Rightarrow> None | Some i \<Rightarrow> Some (tp_tx_window (peer_at ctx i)))")
    case True
    show ?thesis using loop unfolding if_P [OF True] by (intro stop [of ctx]) auto
  next
    case False
    obtain err1 ctx1 w1 rel where q: "transport_queue_reliable_tx ctx w peer tx_data ?d ?len (tx_number ctx peer 0) True (Some ?e) 14 =
        (err1, ctx1, w1, rel)" by (metis prod_cases4)
    note Q = queue_reliable_tx [OF q]
    note loop = loop [unfolded if_not_P [OF False] q prod.case]
    show ?thesis
    proof (cases "err1 = XGL_OK")
      case False
      then show ?thesis using loop Q by (intro stop [of ctx1]) auto
    next
      case True
      obtain err2 ctx2 w2 where v: "transport_send_packet_view ctx1 w1 peer tx_data ?d ?len (tx_number ctx peer 0) True (Some ?e) 14 rel =
        (err2, ctx2, w2)" by (metis prod_cases3)
      have ok1: "tx_peer_ok ctx1 tx_data peer" "tc_lower_layer ctx1"
        using tx_from_peer_ok [OF Q(1) Cons.prems(2)] Q(1) Cons.prems(3) by (simp_all add: tx_from_def)
      note V = send_packet_view [OF v ok1]
      have from2: "tx_from ctx ctx2" by (rule tx_from_trans [OF Q(1) V(1)])
      have log2: "w_log w2 = w_log w @ [ToNetwork (fragment_packet ctx peer tx_data n message_id k (tx_number ctx peer 0))]"
        using V(2) Q(3) packet_view_from [OF Q(1) Cons.prems(2)] by (simp add: fragment_packet_def)
      show ?thesis
      proof (cases "err2 = XGL_OK")
        case False
        then have "err = err2" "ctx' = ctx2" "w' = w2" using loop True v by auto
        then show ?thesis using from2 log2 False by (auto intro!: exI [of _ 1])
      next
        case ok: True
        have run: "send_fragments_loop ctx2 w2 peer tx_data n message_id ks = (err, ctx', w')" using loop True v ok by simp
        have ok2: "tx_peer_ok ctx2 tx_data peer" "tc_lower_layer ctx2"
          using tx_from_peer_ok [OF from2 Cons.prems(2)] from2 Cons.prems(3) by (simp_all add: tx_from_def)
        have num: "tx_number ctx2 peer j = tx_number ctx peer (Suc j)" for j
          using tx_number_Suc [OF Cons.prems(2)] V(3) [OF ok] Q(2) by simp
        obtain m where m: "m \<le> length ks" "err = XGL_OK \<longrightarrow> m = length ks \<and> tx_next ctx' peer = tx_number ctx peer (Suc m)" "tx_from ctx2 ctx'"
          "w_log w' = w_log w2 @ map (\<lambda>j. ToNetwork (fragment_packet ctx peer tx_data n message_id (ks ! j) (tx_number ctx peer (Suc j)))) [0..<m]"
          using Cons.IH [OF run ok2] by (auto simp: num fragment_packet_from [OF from2 Cons.prems(2)])
        show ?thesis
          using m log2 tx_from_trans [OF from2 m(3)]
          by (auto intro!: exI [of _ "Suc m"] simp: upt_conv_Cons map_Suc_upt [symmetric] comp_def simp del: upt_Suc)
      qed
    qed
  qed
qed

end
