(* ===== verification/Xgl_Transport_Flow.thy ===== *)
theory Xgl_Transport_Flow
  imports Xgl_Transport_Rx Xgl_Transport_Tx
begin

text \<open>
  Both halves of the transport layer together: what a send hands to the network layer, and what the packets of a message do
  at the receiver.
\<close>

section \<open>A message as packets\<close>

lemma send_plan_cases:
  assumes "transport_build_send_plan ctx tx_data = Inr plan"
    and "m = unat (transport_effective_max_frame_size ctx (td_target_id tx_data))" "tag = unat (tc_auth_tag_len ctx)"
    and "dt = (if td_data_type tx_data \<noteq> 0 then XGL_DATA_TYPE_EXT_SIZE else 0)"
  obtains (whole) "\<not> sp_needs_fragmentation plan" "xgl_frame_serialized_size (td_data_len tx_data) dt tag \<le> m"
  | (cut) "sp_needs_fragmentation plan" "0 < sp_fragment_payload_budget plan"
      "sp_fragment_payload_budget plan < td_data_len tx_data"
      "xgl_frame_serialized_size (sp_fragment_payload_budget plan) (dt + XGL_FRAGMENT_EXT_SIZE) tag \<le> m"
      "sp_fragment_count plan = (td_data_len tx_data + sp_fragment_payload_budget plan - 1) div sp_fragment_payload_budget plan"
proof -
  obtain budget where b: "xgl_frame_payload_budget m dt tag = Some budget"
    using assms unfolding transport_build_send_plan_def Let_def by (auto split: option.splits)
  have fits: "xgl_frame_serialized_size n dt tag \<le> m \<longleftrightarrow> n \<le> budget" for n using payload_budget_exact [of n dt tag m] b by simp
  show thesis
  proof (cases "td_data_len tx_data \<le> budget")
    case True
    then show thesis
      using assms b fits [of "td_data_len tx_data"] by (intro whole) (auto simp: transport_build_send_plan_def Let_def split: option.splits)
  next
    case False
    then have plan: "sp_needs_fragmentation plan" "sp_fragment_payload_budget plan = budget - 14" "14 < budget"
      "sp_fragment_count plan = (td_data_len tx_data + sp_fragment_payload_budget plan - 1) div sp_fragment_payload_budget plan"
      using assms b by (auto simp: transport_build_send_plan_def Let_def split: option.splits if_splits)
    moreover have "xgl_frame_serialized_size (budget - 14) (dt + 14) tag \<le> m"
      using fits [of budget] plan(3) by (simp add: xgl_frame_serialized_size_def)
    ultimately show thesis using False by (intro cut) simp_all
  qed
qed

definition message_packets ::
  "xgl_transport_ctx \<Rightarrow> nat option \<Rightarrow> xgl_tx_data \<Rightarrow> xgl_transport_send_plan \<Rightarrow> u32 \<Rightarrow> xgl_packet list" where
  "message_packets ctx peer tx_data plan message_id =
     (if sp_needs_fragmentation plan
      then map (\<lambda>k. fragment_packet ctx peer tx_data (sp_fragment_payload_budget plan) message_id k (tx_number ctx peer k))
             [0..<sp_fragment_count plan]
      else [transport_packet_view ctx peer tx_data (td_data tx_data) (td_data_len tx_data) (tx_number ctx peer 0) False None 0])"

definition packet_payload :: "xgl_packet \<Rightarrow> bytes" where
  "packet_payload p = (case pk_data p of None \<Rightarrow> [] | Some e \<Rightarrow> part_of (pd_data e) (pd_data_len e))"

text \<open>The pieces of a list, put one after the other.\<close>

lemma concat_pieces:
  assumes "0 < n"
  shows "concat (map (\<lambda>k. take n (drop (k * n) xs)) [0..<c]) = take (c * n) xs"
proof (induction c)
  case (Suc c)
  have "take (c * n) xs @ take n (drop (c * n) xs) = take (c * n + n) xs" by (simp add: take_add)
  then show ?case using Suc by (simp add: add.commute)
qed simp

lemma pieces_cover: "0 < (n :: nat) \<Longrightarrow> len \<le> (len + n - 1) div n * n"
  using dividend_less_div_times [of n "len + n - 1"] by arith

lemma pieces_last: "0 < (n :: nat) \<Longrightarrow> k < (len + n - 1) div n \<Longrightarrow> k * n < len"
proof -
  assume n: "0 < n" and k: "k < (len + n - 1) div n"
  have "(k + 1) * n \<le> (len + n - 1) div n * n" using k by (intro mult_right_mono) simp_all
  also have "\<dots> \<le> len + n - 1" by simp
  finally show "k * n < len" using n by simp
qed

lemma fragment_payload:
  assumes "td_data tx_data = Some d"
  shows "packet_payload (fragment_packet ctx peer tx_data n message_id k pn) = take n (drop (k * n) (take (td_data_len tx_data) d))"
  using assms by (simp add: packet_payload_def fragment_packet_def transport_packet_view_def part_of_def drop_take min.commute)

lemma message_payload:
  assumes "transport_build_send_plan ctx tx_data = Inr plan" "td_data tx_data = Some d"
  shows "concat (map packet_payload (message_packets ctx1 peer tx_data plan message_id)) = take (td_data_len tx_data) d"
  using assms(1) refl refl refl
proof (cases rule: send_plan_cases)
  case whole
  then show ?thesis
    using assms(2) by (simp add: message_packets_def packet_payload_def transport_packet_view_def part_of_def)
next
  case cut
  then show ?thesis
    using concat_pieces [OF cut(2), of "take (td_data_len tx_data) d" "sp_fragment_count plan"] pieces_cover [OF cut(2)]
    by (simp add: message_packets_def fragment_payload [OF assms(2)] comp_def)
qed

text \<open>Every packet of a message fits into the largest frame of the route, with the data type extension and the tag of the link.\<close>

lemma serialized_size_mono: "n \<le> n' \<Longrightarrow> xgl_frame_serialized_size n e t \<le> xgl_frame_serialized_size n' e t"
  by (simp add: xgl_frame_serialized_size_def)

lemma message_packets_fit:
  assumes "transport_build_send_plan ctx tx_data = Inr plan" "p \<in> set (message_packets ctx1 peer tx_data plan message_id)"
    and "td_data tx_data = Some d"
  shows "xgl_frame_serialized_size (length (packet_payload p))
      (pk_extensions_len p + (if td_data_type tx_data \<noteq> 0 then XGL_DATA_TYPE_EXT_SIZE else 0)) (unat (tc_auth_tag_len ctx))
      \<le> unat (transport_effective_max_frame_size ctx (td_target_id tx_data))"
  using assms(1) refl refl refl
proof (cases rule: send_plan_cases)
  case whole
  then show ?thesis
    using assms(2,3) order_trans [OF serialized_size_mono whole(2)]
    by (simp add: message_packets_def packet_payload_def transport_packet_view_def part_of_def)
next
  case cut
  then obtain k where p: "p = fragment_packet ctx1 peer tx_data (sp_fragment_payload_budget plan) message_id k (tx_number ctx1 peer k)"
    using assms(2) by (auto simp: message_packets_def)
  have "pk_extensions_len p = 14" by (simp add: p fragment_packet_def transport_packet_view_def)
  then show ?thesis
    using order_trans [OF serialized_size_mono cut(4)] by (simp add: p fragment_payload [OF assms(3)] add.commute)
qed

section \<open>What a send hands to the network layer\<close>

definition hello_to :: "u16 \<Rightarrow> transport_output \<Rightarrow> bool" where
  "hello_to target x \<longleftrightarrow> (\<exists>h. x = ToNetwork h \<and> pk_packet_type h = XGL_PACKET_TYPE_CONTROL \<and>
     pk_data_type h = XGL_TRANSPORT_CONTROL_HELLO \<and> pk_target_id h = target)"

lemma send_control_log:
  assumes "transport_send_control ctx w target XGL_TRANSPORT_CONTROL_HELLO n sid c e = (XGL_OK, w')" "tc_lower_layer ctx"
  shows "\<exists>x. w_log w' = w_log w @ [x] \<and> hello_to target x"
proof -
  obtain ext m where enc: "xgl_wire_encode_ext (Some (replicate 4 0)) 4 XGL_WIRE_EXT_DATA_TYPE (Some [XGL_TRANSPORT_CONTROL_HELLO]) 1 = Inr (ext, m)"
    using xgl_wire_encode_ext_image [of XGL_WIRE_EXT_DATA_TYPE "[XGL_TRANSPORT_CONTROL_HELLO]" 4 "replicate 4 0" 1] by simp
  let ?p = "zero_packet
                \<lparr> pk_source_id := tc_local_id ctx, pk_target_id := target, pk_session_id := sid,
                  pk_connection_id := c, pk_packet_number := n,
                  pk_session_epoch := e, pk_packet_type := XGL_PACKET_TYPE_CONTROL, pk_data_type := XGL_TRANSPORT_CONTROL_HELLO,
                  pk_reliable := XGL_RELIABILITY_NONE, pk_priority := 7, pk_data := Some empty_data,
                  pk_extensions := Some ext, pk_extensions_len := m \<rparr>"
  obtain err phy w1 where s: "xgl_layer_send ctx w ?p = (err, phy, w1)" by (metis prod_cases3)
  have "w' = w1" using assms s unfolding transport_send_control_def enc by (simp add: Let_def)
  then show ?thesis using layer_send_log [OF assms(2) s] by (simp add: hello_to_def)
qed

lemma prepare_send:
  assumes run: "transport_prepare_reliable_send ctx w tx_data = (XGL_OK, peer, ctx', w')" and lower: "tc_lower_layer ctx"
  obtains hello where "w_log w' = w_log w @ hello" "hello = [] \<or> td_reliable tx_data \<and> (\<exists>x. hello = [x] \<and> hello_to (td_target_id tx_data) x)"
    "tx_peer_ok ctx' tx_data peer" "tc_lower_layer ctx'" "tc_local_id ctx' = tc_local_id ctx" "tc_max_frame_size ctx' = tc_max_frame_size ctx"
    "tc_route_table ctx' = tc_route_table ctx" "tc_auth_tag_len ctx' = tc_auth_tag_len ctx" "tc_codec_registry ctx' = tc_codec_registry ctx"
    "tc_fragment_mgr ctx' = tc_fragment_mgr ctx"
proof (cases "td_reliable tx_data")
  case False
  then show thesis using run lower by (intro that [of "[]"]) (simp_all add: transport_prepare_reliable_send_def tx_peer_ok_def)
next
  case True
  let ?sc = "td_connection_id tx_data \<noteq> 0 \<or> td_session_epoch tx_data \<noteq> 0"
  obtain r ctx1 w1 where sel: "transport_select_tx_peer ctx w tx_data = (r, ctx1, w1)" by (metis prod_cases3)
  obtain c e where "transport_get_or_create_peer_internal ctx w (td_target_id tx_data) c e ?sc = (r, ctx1, w1)"
    using sel by (cases ?sc) (auto simp: transport_select_tx_peer_def transport_get_or_create_peer_scope_def transport_get_or_create_peer_def)
  then have P: "w_log w1 = w_log w" "tc_lower_layer ctx1" "tc_local_id ctx1 = tc_local_id ctx" "tc_max_frame_size ctx1 = tc_max_frame_size ctx"
    "tc_route_table ctx1 = tc_route_table ctx" "tc_auth_tag_len ctx1 = tc_auth_tag_len ctx" "tc_codec_registry ctx1 = tc_codec_registry ctx"
    "tc_fragment_mgr ctx1 = tc_fragment_mgr ctx" "r = Some i \<Longrightarrow> i < length (tc_peers ctx1)" for i
    by (cases rule: get_or_create_cases; use lower in \<open>auto simp: transport_find_peer_def transport_find_peer_scope_def find_Some_iff split: if_splits\<close>)+
  obtain i where i: "r = Some i"
    using run sel True by (cases r) (auto simp: transport_prepare_reliable_send_def)
  show thesis
  proof (cases "tp_hello_sent (peer_at ctx1 i)")
    case hello: True
    have "peer = Some i \<and> ctx' = ctx1 \<and> w' = w1"
      using run sel True i hello by (auto simp: transport_prepare_reliable_send_def Let_def split: if_splits)
    then show thesis using P i True by (intro that [of "[]"]) (simp_all add: tx_peer_ok_def)
  next
    case False
    obtain err w2 where c: "transport_send_control ctx1 w1 (td_target_id tx_data) XGL_TRANSPORT_CONTROL_HELLO 0 (tp_session_id (peer_at ctx1 i))
        (tp_connection_id (peer_at ctx1 i)) (tp_session_epoch (peer_at ctx1 i)) = (err, w2)" by fastforce
    have res: "err = XGL_OK" "peer = Some i" "ctx' = peer_update i (\<lambda>peer. peer \<lparr> tp_hello_sent := True \<rparr>) ctx1" "w' = w2"
      using run sel True i False c by (auto simp: transport_prepare_reliable_send_def Let_def split: if_splits)
    obtain x where "w_log w2 = w_log w1 @ [x]" "hello_to (td_target_id tx_data) x"
      using send_control_log [OF c [unfolded res(1)] P(2)] by blast
    moreover have "tc_codec_registry ctx' = tc_codec_registry ctx1" by (simp add: res(3) peer_update_def)
    ultimately show thesis using P i True by (intro that [of "[x]"]) (simp_all add: res tx_peer_ok_def)
  qed
qed

text \<open>A context and a later one that has the same limits.\<close>

lemma same_plan:
  "tc_max_frame_size ctx' = tc_max_frame_size ctx \<Longrightarrow> tc_route_table ctx' = tc_route_table ctx \<Longrightarrow>
   transport_effective_max_frame_size ctx' t = transport_effective_max_frame_size ctx t"
  by (simp add: transport_effective_max_frame_size_def)

lemma build_plan_error: "transport_build_send_plan ctx tx_data = Inl err \<Longrightarrow> err \<noteq> XGL_OK"
  by (auto simp: transport_build_send_plan_def Let_def split: option.splits if_splits)

text \<open>
  The end of a send that comes after the plan: the packets of the message, the counters, the time of the last activity.
\<close>

definition send_planned ::
  "xgl_transport_ctx \<Rightarrow> world \<Rightarrow> nat option \<Rightarrow> xgl_tx_data \<Rightarrow> xgl_transport_send_plan \<Rightarrow> xgl_error \<times> xgl_transport_ctx \<times> world" where
  "send_planned ctx w peer tx_data plan =
     (if sp_needs_fragmentation plan then transport_send_fragmented ctx w peer tx_data plan
      else
        (case transport_queue_reliable_tx ctx w peer tx_data (td_data tx_data) (td_data_len tx_data) (tx_number ctx peer 0) False None 0 of
           (err, ctx', w, rel_packet) \<Rightarrow>
             if err \<noteq> XGL_OK then (err, ctx', w)
             else transport_send_packet_view ctx' w peer tx_data (td_data tx_data) (td_data_len tx_data) (tx_number ctx peer 0)
                    False None 0 rel_packet))"

definition send_finished :: "nat option \<Rightarrow> xgl_tx_data \<Rightarrow> xgl_error \<times> xgl_transport_ctx \<times> world \<Rightarrow> xgl_error \<times> xgl_transport_ctx \<times> world" where
  "send_finished peer tx_data = (\<lambda>(err, ctx, w).
     if err \<noteq> XGL_OK then (err, ctx, w)
     else let ctx = tp_count (count_tx_frame (td_data_len tx_data)) ctx
          in (case peer of None \<Rightarrow> (XGL_OK, ctx, w)
              | Some i \<Rightarrow> (case w_time w of (now, w) \<Rightarrow> (XGL_OK, peer_update i (\<lambda>peer. peer \<lparr> tp_last_active_ms := now \<rparr>) ctx, w))))"

lemma send_planned_log:
  assumes run: "send_planned ctx w peer tx_data plan = (XGL_OK, ctx', w')" and ok: "tx_peer_ok ctx tx_data peer" "tc_lower_layer ctx"
  obtains message_id where "w_log w' = w_log w @ map ToNetwork (message_packets ctx peer tx_data plan message_id)" "tx_from ctx ctx'"
    "tx_next ctx' peer = tx_number ctx peer (length (message_packets ctx peer tx_data plan message_id))"
proof (cases "sp_needs_fragmentation plan")
  case True
  then have frag: "transport_send_fragmented ctx w peer tx_data plan = (XGL_OK, ctx', w')" using run by (simp add: send_planned_def)
  then obtain m where m: "tc_fragment_mgr ctx = Some m" by (cases "tc_fragment_mgr ctx") (auto simp: transport_send_fragmented_def)
  define c where "c = ctx \<lparr> tc_fragment_mgr := Some (m \<lparr> fm_next_message_id := fm_next_message_id m + 1 \<rparr>) \<rparr>"
  have c: "tx_from ctx c" "tx_number c peer = tx_number ctx peer"
    by (simp_all add: c_def tx_number_def fun_eq_iff split: option.splits)
  have okc: "tx_peer_ok c tx_data peer" "tc_lower_layer c" using tx_from_peer_ok [OF c(1)] ok by (simp_all add: c_def)
  have loop: "send_fragments_loop c w peer tx_data (sp_fragment_payload_budget plan) (fm_next_message_id m) [0..<sp_fragment_count plan] = (XGL_OK, ctx', w')"
    using frag m by (simp add: transport_send_fragmented_def c_def Let_def)
  from send_fragments_log [OF loop okc]
  have L: "tx_from c ctx'" "w_log w' = w_log w @ map (\<lambda>j. ToNetwork (fragment_packet c peer tx_data (sp_fragment_payload_budget plan)
      (fm_next_message_id m) ([0..<sp_fragment_count plan] ! j) (tx_number c peer j))) [0..<sp_fragment_count plan]"
    "tx_next ctx' peer = tx_number c peer (sp_fragment_count plan)" by auto
  show thesis
    using that [of "fm_next_message_id m"] L tx_from_trans [OF c(1) L(1)] True c(2) fragment_packet_from [OF c(1) ok(1)]
    by (simp add: message_packets_def comp_def)
next
  case False
  obtain err1 ctx1 w1 rel where q: "transport_queue_reliable_tx ctx w peer tx_data (td_data tx_data) (td_data_len tx_data) (tx_number ctx peer 0)
      False None 0 = (err1, ctx1, w1, rel)" by (metis prod_cases4)
  note Q = queue_reliable_tx [OF q]
  have v: "transport_send_packet_view ctx1 w1 peer tx_data (td_data tx_data) (td_data_len tx_data) (tx_number ctx peer 0) False None 0 rel =
      (XGL_OK, ctx', w')"
    using run False q by (auto simp: send_planned_def split: if_splits)
  have ok1: "tx_peer_ok ctx1 tx_data peer" "tc_lower_layer ctx1"
    using tx_from_peer_ok [OF Q(1) ok(1)] Q(1) ok(2) by (simp_all add: tx_from_def)
  note V = send_packet_view [OF v ok1]
  have "tx_next ctx' peer = tx_number ctx peer 1"
    using V(3) [OF refl] Q(2) ok(1) by (cases peer) (auto simp: tx_number_def tx_peer_ok_def)
  then show thesis
    using that [of 0] V Q(3) packet_view_from [OF Q(1) ok(1)] tx_from_trans [OF Q(1) V(1)] False by (simp add: message_packets_def)
qed

lemma send_finished_log:
  assumes "send_finished peer tx_data (err, ctx, w) = (XGL_OK, ctx', w')"
  shows "err = XGL_OK" "w_log w' = w_log w" "tx_from ctx ctx'" "tx_next ctx' peer = tx_next ctx peer"
proof -
  show ok: "err = XGL_OK" using assms by (auto simp: send_finished_def split: if_splits)
  have "w_log w' = w_log w \<and> tx_from ctx ctx' \<and> tx_next ctx' peer = tx_next ctx peer"
  proof (cases peer)
    case (Some i)
    obtain now w3 where t: "w_time w = (now, w3)" by fastforce
    define ctx3 where "ctx3 = tp_count (count_tx_frame (td_data_len tx_data)) ctx"
    have "tx_from ctx3 (peer_update i (\<lambda>peer. peer \<lparr> tp_last_active_ms := now \<rparr>) ctx3)" by (rule tx_from_peer_update) simp_all
    moreover have "tx_from ctx ctx3" by (simp add: ctx3_def)
    moreover have "tx_next (peer_update i (\<lambda>peer. peer \<lparr> tp_last_active_ms := now \<rparr>) ctx3) (Some i) = tx_next ctx (Some i)"
      by (cases "i < length (tc_peers ctx)") (simp_all add: tx_next_def ctx3_def list_update_beyond)
    moreover have "ctx' = peer_update i (\<lambda>peer. peer \<lparr> tp_last_active_ms := now \<rparr>) ctx3" "w' = w3"
      using assms ok Some t by (auto simp: send_finished_def Let_def ctx3_def)
    ultimately show ?thesis using w_time_log [OF t] tx_from_trans Some by blast
  qed (use assms ok in \<open>auto simp: send_finished_def Let_def\<close>)
  then show "w_log w' = w_log w" "tx_from ctx ctx'" "tx_next ctx' peer = tx_next ctx peer" by simp_all
qed

lemma send_ok_log:
  assumes run: "xgl_transport_send ctx w (Some tx_data) = (XGL_OK, ctx', w')" and plain: "td_compression_id tx_data = 0"
  obtains hello ctx1 peer plan message_id where
    "w_log w' = w_log w @ hello @ map ToNetwork (message_packets ctx1 peer tx_data plan message_id)"
    "hello = [] \<or> td_reliable tx_data \<and> (\<exists>x. hello = [x] \<and> hello_to (td_target_id tx_data) x)"
    "transport_build_send_plan ctx1 tx_data = Inr plan" "tx_peer_ok ctx1 tx_data peer" "tc_local_id ctx1 = tc_local_id ctx"
    "tc_auth_tag_len ctx1 = tc_auth_tag_len ctx"
    "transport_effective_max_frame_size ctx1 (td_target_id tx_data) = transport_effective_max_frame_size ctx (td_target_id tx_data)"
    "0 < td_data_len tx_data" "tx_from ctx1 ctx'"
    "tx_next ctx' peer = tx_number ctx1 peer (length (message_packets ctx1 peer tx_data plan message_id))"
    "\<not> td_reliable tx_data \<Longrightarrow> ctx1 = ctx" "\<exists>w1. transport_prepare_reliable_send ctx w tx_data = (XGL_OK, peer, ctx1, w1)"
proof -
  obtain d where d: "td_data tx_data = Some d" "0 < td_data_len tx_data" "tc_lower_layer ctx"
    using run by (auto simp: xgl_transport_send_def split: option.splits if_splits)
  obtain err peer ctx1 w1 where prep: "transport_prepare_reliable_send ctx w tx_data = (err, peer, ctx1, w1)" by (metis prod_cases4)
  have ok: "err = XGL_OK" using run d prep by (auto simp: xgl_transport_send_def split: if_splits)
  from prepare_send [OF prep [unfolded ok] d(3)] obtain hello where
    H: "w_log w1 = w_log w @ hello" "hello = [] \<or> td_reliable tx_data \<and> (\<exists>x. hello = [x] \<and> hello_to (td_target_id tx_data) x)"
    "tx_peer_ok ctx1 tx_data peer" "tc_lower_layer ctx1" "tc_local_id ctx1 = tc_local_id ctx" "tc_max_frame_size ctx1 = tc_max_frame_size ctx"
    "tc_route_table ctx1 = tc_route_table ctx" "tc_auth_tag_len ctx1 = tc_auth_tag_len ctx"
    by metis
  obtain plan where plan: "transport_build_send_plan ctx1 tx_data = Inr plan"
    using run d prep ok build_plan_error by (cases "transport_build_send_plan ctx1 tx_data") (auto simp: xgl_transport_send_def split: if_splits)
  have z: "transport_compress ctx1 tx_data d = (d, td_data_len tx_data)" using plain by (simp add: transport_compress_def)
  have num: "(case (if td_reliable tx_data then peer else None) of None \<Rightarrow> 0
      | Some i \<Rightarrow> xgl_window_get_next_packet_number (Some (tp_tx_window (peer_at ctx1 i)))) = tx_number ctx1 peer 0"
    using H(3) by (cases peer) (auto simp: tx_peer_ok_def tx_number_def tx_next_def xgl_window_get_next_packet_number_def)
  obtain err2 ctx2 w2 where s: "send_planned ctx1 w1 peer tx_data plan = (err2, ctx2, w2)" by (metis prod_cases3)
  have "send_finished peer tx_data (send_planned ctx1 w1 peer tx_data plan) = (XGL_OK, ctx', w')"
    using run d(2,3) unfolding xgl_transport_send_def option.case d(1) prep plan z prod.case sum.case num Let_def send_planned_def send_finished_def
    by (simp add: ok)
  note F = send_finished_log [OF this [unfolded s]]
  obtain message_id where M: "w_log w2 = w_log w1 @ map ToNetwork (message_packets ctx1 peer tx_data plan message_id)" "tx_from ctx1 ctx2"
    "tx_next ctx2 peer = tx_number ctx1 peer (length (message_packets ctx1 peer tx_data plan message_id))"
    using send_planned_log [OF s [unfolded F(1)] H(3,4)] .
  have un: "ctx1 = ctx" if "\<not> td_reliable tx_data" using prep that by (simp add: transport_prepare_reliable_send_def)
  show thesis
    using H(1,2) M F(2-4) by (intro that [OF _ H(2) plan H(3,5,8) same_plan [OF H(6,7)] d(2) tx_from_trans [OF M(2) F(3)] _ un]) (simp_all add: prep ok)
qed

text \<open>Where the packet numbers to a target stand: session and next number of its peer.\<close>

definition tx_state :: "xgl_transport_ctx \<Rightarrow> u16 \<Rightarrow> (u16 \<times> u32) option" where
  "tx_state ctx target = map_option (\<lambda>i. (tp_session_id (peer_at ctx i), sw_next_packet_number (tp_tx_window (peer_at ctx i))))
     (transport_find_peer ctx target)"

lemma find_peer_bound: "transport_find_peer ctx k = Some i \<Longrightarrow> i < length (tc_peers ctx)"
  by (auto simp: transport_find_peer_def find_Some_iff)

lemma prepare_peer:
  assumes run: "transport_prepare_reliable_send ctx w tx_data = (XGL_OK, peer, ctx', w')"
    and tx: "td_reliable tx_data" "td_connection_id tx_data = 0" "td_session_epoch tx_data = 0"
  obtains i where "peer = Some i" "transport_find_peer ctx' (td_target_id tx_data) = Some i"
    "case tx_state ctx (td_target_id tx_data) of
       None \<Rightarrow> tx_next ctx' peer = 0 \<and> tp_session_id (peer_at ctx' i) \<le> XGL_SESSION_ID_MASK
     | Some (sid, n) \<Rightarrow> tx_next ctx' peer = n \<and> tp_session_id (peer_at ctx' i) = sid"
proof -
  let ?t = "td_target_id tx_data"
  obtain r ctx1 w1 where sel: "transport_select_tx_peer ctx w tx_data = (r, ctx1, w1)" by (metis prod_cases3)
  obtain i where i: "r = Some i" using run sel tx(1) by (cases r) (auto simp: transport_prepare_reliable_send_def)
  have get: "transport_get_or_create_peer_internal ctx w ?t 0 0 False = (Some i, ctx1, w1)"
    using sel i tx(2,3) by (simp add: transport_select_tx_peer_def transport_get_or_create_peer_def)
  have P: "transport_find_peer ctx1 ?t = Some i"
    "case tx_state ctx ?t of None \<Rightarrow> tx_next ctx1 (Some i) = 0 \<and> tp_session_id (peer_at ctx1 i) \<le> XGL_SESSION_ID_MASK
     | Some (sid, n) \<Rightarrow> tx_next ctx1 (Some i) = n \<and> tp_session_id (peer_at ctx1 i) = sid"
    using get by (cases rule: get_or_create_cases; auto simp: tx_state_def tx_next_def fresh_peer_def transport_find_peer_def peer_key_def
        find_upt_head simp del: upt_Suc)+
  have c: "peer = Some i" "ctx' = ctx1 \<or> ctx' = peer_update i (\<lambda>peer. peer \<lparr> tp_hello_sent := True \<rparr>) ctx1"
    using run sel tx(1) i by (auto simp: transport_prepare_reliable_send_def Let_def split: if_splits prod.splits)
  have "tx_from ctx1 (peer_update i (\<lambda>peer. peer \<lparr> tp_hello_sent := True \<rparr>) ctx1)" by (rule tx_from_peer_update) simp_all
  then have from1: "tx_from ctx1 ctx'" using c(2) by auto
  have bound: "i < length (tc_peers ctx1)" by (rule find_peer_bound [OF P(1)])
  then have "tx_next ctx' (Some i) = tx_next ctx1 (Some i)" using c(2) by (auto simp: tx_next_def)
  then show thesis
    using that [of i] c(1) P tx_from_find [OF from1] tx_from_session(1) [OF from1 bound] by (simp split: option.splits prod.splits)
qed

section \<open>A message in fragments at the receiver\<close>

text \<open>The extension of a fragment, as the receiver reads it from the packet that arrived.\<close>

lemma fragment_ext_arrives:
  assumes "carried_exts (fragment_exts message_id off len @ rest) e n"
    and "pk_extensions q = e" "pk_extensions_len q = n"
  shows "transport_fragment_ext q = Inr (message_id, word_of_nat off, word_of_nat len)"
proof -
  let ?v = "fragment_image (message_id, word_of_nat off, word_of_nat len)"
  obtain x where x: "exts_ok (fragment_exts message_id off len @ x)" "part_of e n = exts_image (fragment_exts message_id off len @ x)" "part_ok e n"
    using assms(1) by (auto simp: carried_exts_def)
  have ne: "exts_image (fragment_exts message_id off len @ x) \<noteq> []" by (simp add: fragment_exts_def exts_image_def tlv_image_def)
  then obtain d where d: "e = Some d" "n \<le> length d" "take n d = exts_image (fragment_exts message_id off len @ x)"
    using x(2,3) by (cases e) (auto simp: part_of_def part_ok_def)
  have n: "n = length (exts_image (fragment_exts message_id off len @ x))" using d(2) arg_cong [OF d(3), of length] by simp
  have dd: "d = [] @ exts_image (fragment_exts message_id off len @ x) @ drop n d" using d(3) by (metis append_Nil append_take_drop_id)
  have "xgl_wire_decode_fragment_ext_value (Some ?v) (length ?v) = Inr (message_id, word_of_nat off, word_of_nat len)"
    using fragment_codec.dec_image [of "(message_id, word_of_nat off, word_of_nat len)" "[]"] by simp
  then have "ext_while fragment_ext_body \<lparr> cur_buffer = d, cur_len = n, cur_offset = 0 \<rparr> () = Inl (Inr (message_id, word_of_nat off, word_of_nat len))"
    using ext_while_exts [OF x(1), of n "[]" fragment_ext_body "drop n d" "()"] n dd
    by (simp add: fragment_exts_def fragment_ext_body_def)
  moreover have "0 < n" using n ne by (metis length_greater_0_conv)
  ultimately show ?thesis
    using assms(2,3) d(1) by (simp add: transport_fragment_ext_def xgl_wire_ext_cursor_init_def)
qed

text \<open>A packet of an unreliable message without a connection, as it arrives.\<close>

lemma unreliable_arrives:
  assumes q: "packet_arrives (transport_packet_view ctx None tx_data b n pn fragment e en) src exts zero_ext_metadata q"
    and tx: "\<not> td_reliable tx_data" "td_connection_id tx_data = 0"
  shows "pk_packet_type q = XGL_PACKET_TYPE_DATA" "pk_reliable q = 0" "pk_fragment q = of_bool fragment" "pk_source_id q = src"
    "pk_connection_id q = 0" "pk_session_id q = 0" "pk_session_epoch q = 0" "pk_data_type q = td_data_type tx_data" "pk_compress q = 0"
    "\<exists>d. pk_data q = Some \<lparr> pd_data = Some d, pd_data_len = length (part_of b n) \<rparr> \<and> take (length (part_of b n)) d = part_of b n"
    "carried_exts (exts @ (if td_data_type tx_data = 0 then [] else [(XGL_WIRE_EXT_DATA_TYPE, [td_data_type tx_data])]))
       (pk_extensions q) (pk_extensions_len q)"
proof -
  let ?p = "transport_packet_view ctx None tx_data b n pn fragment e en"
  have p: "network_reliability_class ?p = 0" "pk_traffic_class ?p = 0" "pk_flags ?p = 0" "pk_packet_type ?p = 0" "pk_fragment ?p = of_bool fragment"
    "pk_connection_id ?p = 0" "pk_session_id ?p = 0" "pk_data_type ?p = td_data_type tx_data" "pk_data ?p = Some \<lparr> pd_data = b, pd_data_len = n \<rparr>"
    using tx by (simp_all add: transport_packet_view_def network_reliability_class_def zero_packet_def)
  note Q = q [unfolded packet_arrives_def p tx_metadata_def tx_exts_def zero_ext_metadata_def]
  show "pk_packet_type q = XGL_PACKET_TYPE_DATA" "pk_reliable q = 0" "pk_fragment q = of_bool fragment" "pk_source_id q = src"
    "pk_connection_id q = 0" "pk_session_epoch q = 0" "pk_data_type q = td_data_type tx_data" "pk_compress q = 0"
    using Q by (auto split: if_splits)
  show "pk_session_id q = 0" using Q by simp
  show "carried_exts (exts @ (if td_data_type tx_data = 0 then [] else [(XGL_WIRE_EXT_DATA_TYPE, [td_data_type tx_data])]))
       (pk_extensions q) (pk_extensions_len q)"
    using Q by (simp split: if_splits)
  obtain x where x: "pk_data q = Some x" "pd_data x \<noteq> None" "pd_data_len x = length (part_of b n)" "part_of (pd_data x) (pd_data_len x) = part_of b n"
    using Q by (auto split: option.splits)
  then obtain d where "pd_data x = Some d" by blast
  then show "\<exists>d. pk_data q = Some \<lparr> pd_data = Some d, pd_data_len = length (part_of b n) \<rparr> \<and> take (length (part_of b n)) d = part_of b n"
    using x by (intro exI [of _ d]) (cases x, simp add: part_of_def)
qed

lemma unreliable_received:
  assumes "pk_packet_type q = XGL_PACKET_TYPE_DATA" "pk_reliable q = 0" "pk_session_id q = 0" "pk_compress q = 0"
    "pk_data q = Some \<lparr> pd_data = Some d, pd_data_len = n \<rparr>"
  shows "xgl_transport_receive R v (Some q) = transport_deliver_packet R v q (Some d) n"
  using assms by (auto simp: xgl_transport_receive_def transport_prepare_rx_peer_def transport_receive_data_def transport_decompress_def
      split: prod.splits)

lemma fragment_received:
  assumes q: "packet_arrives (fragment_packet ctx None tx_data n message_id k pn) src
      (fragment_exts message_id (k * n) (td_data_len tx_data)) zero_ext_metadata q"
    and tx: "\<not> td_reliable tx_data" "td_connection_id tx_data = 0" "td_data tx_data = Some d" "td_data_len tx_data \<le> length d"
    and R: "tc_fragment_mgr R = Some m"
    and step: "fragment_step m (Fragment (src, 0, 0, message_id) (td_data_type tx_data) (word_of_nat (k * n)) (word_of_nat (td_data_len tx_data))
       (mem_read (take (td_data_len tx_data) d) (k * n) (min (td_data_len tx_data - k * n) n)) 0 (fst (w_time v)) (w_allocs v)) = (out, m')"
  shows "\<exists>as. snd (xgl_transport_receive R v (Some q)) =
     (case snd out of
        Some (data, len) \<Rightarrow> if fst out = XGL_OK
          then (tp_count (count_rx_frame len) (R \<lparr> tc_fragment_mgr := Some m' \<rparr>),
                rx_callback R src (td_data_type tx_data) (take len data) ((snd (w_time v)) \<lparr> w_allocs := as \<rparr>))
          else (R \<lparr> tc_fragment_mgr := Some m' \<rparr>, (snd (w_time v)) \<lparr> w_allocs := as \<rparr>)
      | None \<Rightarrow> (R \<lparr> tc_fragment_mgr := Some m' \<rparr>, (snd (w_time v)) \<lparr> w_allocs := as \<rparr>))"
proof -
  let ?p = "mem_read (take (td_data_len tx_data) d) (k * n) (min (td_data_len tx_data - k * n) n)"
  have part: "part_of (map_option (drop (k * n)) (td_data tx_data)) (min (td_data_len tx_data - k * n) n) = ?p"
    by (simp add: tx(3) part_of_def mem_read_def drop_take min_def)
  note A = unreliable_arrives [OF q [unfolded fragment_packet_def] tx(1,2), unfolded part]
  obtain b where b: "pk_data q = Some \<lparr> pd_data = Some b, pd_data_len = length ?p \<rparr>" "take (length ?p) b = ?p" using A(10) by blast
  note ext = fragment_ext_arrives [OF A(11) refl refl]
  obtain err complete m1 as where run: "xgl_fragment_process_ext m src 0 0 (td_data_type tx_data) message_id (word_of_nat (k * n))
      (word_of_nat (td_data_len tx_data)) (Some ?p) (length ?p) 0 (fst (w_time v)) (w_allocs v) = (err, complete, m1, as)"
    by (metis prod_cases4)
  have out: "out = (err, complete)" "m' = m1" using step run by simp_all
  have proc: "xgl_fragment_process_ext m src 0 0 (td_data_type tx_data) message_id (word_of_nat (k * n))
      (word_of_nat (td_data_len tx_data)) (Some b) (length ?p) 0 (fst (w_time v)) (w_allocs v) = (err, complete, m1, as)"
    using run by (subst process_ext_prefix) (simp only: b(2))
  show ?thesis
    unfolding unreliable_received [OF A(1,2,6,9) b(1)]
    using R ext
    by (intro exI [of _ as])
       (simp add: transport_deliver_packet_def A(3,4,5,7,8) proc out Let_def rx_callback_def split: option.split del: of_nat_mult)
qed

lemma pieces_next:
  assumes "0 < n" "c = (len + n - 1) div n" "k < c"
  shows "k * n + min (len - k * n) n \<le> len" "0 < min (len - k * n) n"
    "k * n + min (len - k * n) n < len \<longleftrightarrow> Suc k < c" "Suc k < c \<Longrightarrow> k * n + min (len - k * n) n = Suc k * n"
proof -
  have lt: "k * n < len" using pieces_last [of n k len] assms by simp
  then show "k * n + min (len - k * n) n \<le> len" "0 < min (len - k * n) n" using assms(1) by (auto simp: min_def)
  show "Suc k < c \<Longrightarrow> k * n + min (len - k * n) n = Suc k * n"
    using pieces_last [of n "Suc k" len] assms by (simp add: min_def)
  show "k * n + min (len - k * n) n < len \<longleftrightarrow> Suc k < c"
  proof
    assume "Suc k < c"
    then show "k * n + min (len - k * n) n < len" using pieces_last [of n "Suc k" len] assms by (simp add: min_def)
  next
    assume "k * n + min (len - k * n) n < len"
    then have "Suc k * n < len" by (simp add: min_def split: if_splits)
    then have "Suc k * n < c * n" using pieces_cover [OF assms(1), of len] assms(2) by simp
    then show "Suc k < c" using mult_less_cancel2 [of "Suc k" n c] by blast
  qed
qed

lemma fragments_received:
  assumes "list_all2 (\<lambda>k q. packet_arrives (fragment_packet ctx None tx_data n message_id k (pn k)) src
      (fragment_exts message_id (k * n) (td_data_len tx_data)) zero_ext_metadata q) [k..<c] qs"
    and "k < c" "c = (td_data_len tx_data + n - 1) div n" "0 < n" "td_data_len tx_data < 2 ^ 32"
    and "\<not> td_reliable tx_data" "td_connection_id tx_data = 0" "td_data tx_data = Some d" "td_data_len tx_data \<le> length d"
    and "tc_fragment_mgr R = Some m" "tc_rx_callback R" "key = (src, 0, 0, message_id)" "msg = take (td_data_len tx_data) d"
    and "fragment_inv (only_message key msg) m"
    and "if k = 0 then key \<notin> buffer_key ` set (fm_reassembly_list m) \<and> has_room m (length msg) \<and> (\<exists>as. w_allocs v = True # True # as)
         else receiving key (td_data_type tx_data) msg (k * n) m"
  shows "app (snd (receive_all R v qs)) = app v @ [ToApp src (td_data_type tx_data) (map Some msg)]"
  using assms
proof (induction qs arbitrary: k R v m rule: list.induct)
  case Nil
  then show ?case using list_all2_lengthD [OF Nil.prems(1)] by simp
next
  case (Cons q qs)
  let ?len = "td_data_len tx_data"
  let ?l = "min (?len - k * n) n"
  note P = pieces_next [OF Cons.prems(4,3,2)]
  have len: "length msg = ?len" using Cons.prems(9,13) by simp
  have upt: "[k..<c] = k # [Suc k..<c]" using Cons.prems(2) by (simp add: upt_conv_Cons)
  have q: "packet_arrives (fragment_packet ctx None tx_data n message_id k (pn k)) src (fragment_exts message_id (k * n) ?len) zero_ext_metadata q"
    and qs: "list_all2 (\<lambda>k q. packet_arrives (fragment_packet ctx None tx_data n message_id k (pn k)) src
      (fragment_exts message_id (k * n) ?len) zero_ext_metadata q) [Suc k..<c] qs"
    using Cons.prems(1) by (simp_all add: upt)
  obtain out m' where step: "fragment_step m (Fragment key (td_data_type tx_data) (word_of_nat (k * n)) (word_of_nat (length msg))
     (mem_read msg (k * n) ?l) 0 (fst (w_time v)) (w_allocs v)) = (out, m')" by fastforce
  have state: "if k * n = 0 then key \<notin> buffer_key ` set (fm_reassembly_list m) \<and> has_room m (length msg) \<and> (\<exists>as'. w_allocs v = True # True # as')
      else receiving key (td_data_type tx_data) msg (k * n) m"
    using Cons.prems(4,15) by simp
  have lenr: "length msg < 2 ^ 32" "k * n + ?l \<le> length msg" using Cons.prems(5) P(1) len by simp_all
  note S = piece_step [OF Cons.prems(14) lenr P(2) state step]
  obtain as where r: "snd (xgl_transport_receive R v (Some q)) =
     (case snd out of
        Some (data, len) \<Rightarrow> if fst out = XGL_OK
          then (tp_count (count_rx_frame len) (R \<lparr> tc_fragment_mgr := Some m' \<rparr>),
                rx_callback R src (td_data_type tx_data) (take len data) ((snd (w_time v)) \<lparr> w_allocs := as \<rparr>))
          else (R \<lparr> tc_fragment_mgr := Some m' \<rparr>, (snd (w_time v)) \<lparr> w_allocs := as \<rparr>)
      | None \<Rightarrow> (R \<lparr> tc_fragment_mgr := Some m' \<rparr>, (snd (w_time v)) \<lparr> w_allocs := as \<rparr>))"
    using fragment_received [OF q Cons.prems(6-10) step [unfolded len Cons.prems(12), unfolded Cons.prems(13)]] by blast
  have t: "app ((snd (w_time v)) \<lparr> w_allocs := as \<rparr>) = app v"
    using w_time_app [OF prod.collapse [symmetric], of v] by (simp add: app_def)
  show ?case
  proof (cases "Suc k < c")
    case True
    define R' where "R' = R \<lparr> tc_fragment_mgr := Some m' \<rparr>"
    define v' where "v' = (snd (w_time v)) \<lparr> w_allocs := as \<rparr>"
    have out: "out = (XGL_ERR_BUSY, None)" "receiving key (td_data_type tx_data) msg (Suc k * n) m'"
      using S(2) P(3,4) True len by (simp_all add: add.commute)
    have "tc_fragment_mgr R' = Some m'" "tc_rx_callback R'" using Cons.prems(11) by (simp_all add: R'_def)
    note IH = Cons.IH [OF qs True Cons.prems(3-9) this Cons.prems(12,13) S(1), of v']
    have "receive_all R v (q # qs) = receive_all R' v' qs"
      using r by (cases "xgl_transport_receive R v (Some q)") (simp add: out R'_def v'_def)
    then show ?thesis using IH out(2) t by (simp add: v'_def)
  next
    case False
    then have out: "out = (XGL_OK, Some (map Some msg, length msg))" using S(2) P(3) len by simp
    have "qs = []" using qs False by simp
    then show ?thesis
      using r t Cons.prems(11) by (cases "xgl_transport_receive R v (Some q)") (simp add: out rx_callback_def app_def w_put_def)
  qed
qed

text \<open>The extensions a packet of a message carries.\<close>

definition message_exts :: "xgl_tx_data \<Rightarrow> xgl_transport_send_plan \<Rightarrow> u32 \<Rightarrow> nat \<Rightarrow> (u8 \<times> bytes) list" where
  "message_exts tx_data plan message_id k =
     (if sp_needs_fragmentation plan then fragment_exts message_id (k * sp_fragment_payload_budget plan) (td_data_len tx_data) else [])"

lemma message_received:
  assumes plan: "transport_build_send_plan ctx tx_data = Inr plan"
    and qs: "length qs = length (message_packets ctx None tx_data plan message_id)"
      "\<And>k. k < length qs \<Longrightarrow> packet_arrives (message_packets ctx None tx_data plan message_id ! k) src
         (message_exts tx_data plan message_id k) zero_ext_metadata (qs ! k)"
    and tx: "\<not> td_reliable tx_data" "td_connection_id tx_data = 0" "td_data tx_data = Some d" "td_data_len tx_data \<le> length d"
      "td_data_len tx_data < 2 ^ 32"
    and R: "tc_fragment_mgr R = Some m" "tc_rx_callback R" "fragment_inv (\<lambda>_ _ _. True) m" "has_room m (td_data_len tx_data)"
      "src \<notin> rb_source_id ` set (fm_reassembly_list m)" "w_allocs v = True # True # as"
  shows "app (snd (receive_all R v qs)) = app v @ [ToApp src (td_data_type tx_data) (map Some (take (td_data_len tx_data) d))]"
  using plan refl refl refl
proof (cases rule: send_plan_cases)
  case whole
  let ?p = "transport_packet_view ctx None tx_data (td_data tx_data) (td_data_len tx_data) (tx_number ctx None 0) False None 0"
  have p: "message_packets ctx None tx_data plan message_id = [?p]" using whole(1) by (simp add: message_packets_def)
  then obtain q where q: "qs = [q]" using qs(1) by (metis length_0_conv length_Suc_conv list.size(3))
  have "packet_arrives ?p src [] zero_ext_metadata q" using qs(2) [of 0] whole(1) by (simp add: p q message_exts_def)
  note A = unreliable_arrives [OF this tx(1,2)]
  have len: "length (part_of (td_data tx_data) (td_data_len tx_data)) = td_data_len tx_data" using tx(3,4) by (simp add: part_of_def)
  obtain b where b: "pk_data q = Some \<lparr> pd_data = Some b, pd_data_len = td_data_len tx_data \<rparr>" "take (td_data_len tx_data) b = take (td_data_len tx_data) d"
    using A(10) len tx(3) by (auto simp: part_of_def)
  show ?thesis
    using unreliable_received [OF A(1,2,6,9) b(1), of R v] A(3,4,8) b(2) R(2)
    by (simp add: q transport_deliver_packet_def rx_callback_def app_def w_put_def mem_read_def Let_def)
next
  case cut
  let ?n = "sp_fragment_payload_budget plan" and ?c = "sp_fragment_count plan"
  have pk: "message_packets ctx None tx_data plan message_id = map (\<lambda>k. fragment_packet ctx None tx_data ?n message_id k (tx_number ctx None k)) [0..<?c]"
    using cut(1) by (simp add: message_packets_def)
  have all: "list_all2 (\<lambda>k q. packet_arrives (fragment_packet ctx None tx_data ?n message_id k (tx_number ctx None k)) src
      (fragment_exts message_id (k * ?n) (td_data_len tx_data)) zero_ext_metadata q) [0..<?c] qs"
    using qs cut(1) by (simp add: pk list_all2_conv_all_nth message_exts_def)
  have c: "0 < ?c" using cut(2,3,5) by (simp add: div_greater_zero_iff)
  have key: "(src, 0, 0, message_id) \<notin> buffer_key ` set (fm_reassembly_list m)" using R(5) by (auto simp: buffer_key_def)
  have len: "length (take (td_data_len tx_data) d) = td_data_len tx_data" using tx(4) by simp
  show ?thesis
    by (rule fragments_received [OF all c cut(5,2) tx(5,1-4) R(1,2) refl refl fragment_inv_fresh [OF R(3) key]])
       (use key R(4,6) len in simp)
qed

text \<open>The packets of a message are such as the network layer can send.\<close>

lemma fragment_exts_facts:
  "length (exts_image (fragment_exts i off len)) = XGL_FRAGMENT_EXT_SIZE" "exts_ok (fragment_exts i off len)"
  "list_all link_ext_ok (fragment_exts i off len)"
  "exts_fold network_ext_body (fragment_exts i off len) zero_ext_metadata = Inr (XGL_ERR_NOT_FOUND, zero_ext_metadata)"
  by (simp_all add: fragment_exts_def fragment_image_def tlv_image_def exts_ok_def link_ext_ok_def network_ext_body_def)

lemma packet_view_ok:
  assumes "part_ok b n" "n \<le> 65535" "part_ok e en" "part_of e en = exts_image exts" "en \<le> 213" "exts_ok exts" "list_all link_ext_ok exts"
    "exts_fold network_ext_body exts zero_ext_metadata = Inr (XGL_ERR_NOT_FOUND, zero_ext_metadata)" "td_target_id tx_data \<noteq> 0"
  shows "packet_ok (transport_packet_view ctx peer tx_data b n pn fragment e en) exts zero_ext_metadata"
  using assms by (simp add: packet_ok_def transport_packet_view_def zero_packet_def) (simp add: zero_ext_metadata_def)

lemma message_packet_ok:
  assumes plan: "transport_build_send_plan ctx tx_data = Inr plan" and k: "k < length (message_packets ctx1 peer tx_data plan message_id)"
    and tx: "td_data tx_data = Some d" "td_data_len tx_data \<le> length d" "td_target_id tx_data \<noteq> 0"
  shows "packet_ok (message_packets ctx1 peer tx_data plan message_id ! k) (message_exts tx_data plan message_id k) zero_ext_metadata"
proof -
  have max: "unat (transport_effective_max_frame_size ctx (td_target_id tx_data)) \<le> 65535"
    using unsigned_less [where 'a = nat and 'b = 16, of "transport_effective_max_frame_size ctx (td_target_id tx_data)"] by simp
  show ?thesis
    using plan refl refl refl
  proof (cases rule: send_plan_cases)
    case whole
    then have "td_data_len tx_data \<le> 65535" using max by (simp add: xgl_frame_serialized_size_def)
    then show ?thesis
      using whole(1) k tx
      by (auto simp: message_packets_def message_exts_def part_ok_def part_of_def exts_image_def exts_ok_def intro!: packet_view_ok)
  next
    case cut
    let ?n = "sp_fragment_payload_budget plan"
    have "min (td_data_len tx_data - k * ?n) ?n \<le> 65535" using cut(4) max by (simp add: xgl_frame_serialized_size_def)
    moreover have "part_ok (map_option (drop (k * ?n)) (td_data tx_data)) (min (td_data_len tx_data - k * ?n) ?n)"
      using tx(1,2) by (simp add: part_ok_def)
    ultimately show ?thesis
      using cut(1) k tx fragment_exts_facts
      by (auto simp: message_packets_def message_exts_def fragment_packet_def part_ok_def part_of_def intro!: packet_view_ok)
  qed
qed

section \<open>Properties\<close>

lemma message_fragment_exts:
  assumes plan: "transport_build_send_plan ctx tx_data = Inr plan" and d: "td_data tx_data = Some d" "td_data_len tx_data \<le> length d"
    and j: "j < length (message_packets ctx peer tx_data plan message_id)" "pk_fragment (message_packets ctx peer tx_data plan message_id ! j) \<noteq> 0"
  shows "part_of (pk_extensions (message_packets ctx peer tx_data plan message_id ! j)) (pk_extensions_len (message_packets ctx peer tx_data plan message_id ! j)) =
    exts_image (fragment_exts message_id (length (concat (map packet_payload (take j (message_packets ctx peer tx_data plan message_id))))) (td_data_len tx_data))"
  using plan refl refl refl
proof (cases rule: send_plan_cases)
  case whole
  then show ?thesis using j by (simp add: message_packets_def transport_packet_view_def)
next
  case cut
  let ?ps = "message_packets ctx peer tx_data plan message_id" and ?n = "sp_fragment_payload_budget plan" and ?len = "td_data_len tx_data"
  have "j < sp_fragment_count plan" using j(1) cut(1) by (simp add: message_packets_def)
  then have j': "j * ?n < ?len" using pieces_last [OF cut(2)] cut(5) by simp
  have "map packet_payload (take j ?ps) = map (\<lambda>k. take ?n (drop (k * ?n) (take ?len d))) [0..<j]"
    using j(1) cut(1) by (simp add: message_packets_def take_map fragment_payload [OF d(1)] comp_def)
  then have "length (concat (map packet_payload (take j ?ps))) = j * ?n"
    using concat_pieces [OF cut(2), of "take ?len d" j] j' d(2) by (simp add: min_def)
  moreover have "length (exts_image (fragment_exts message_id (j * ?n) ?len)) = 14"
    by (simp add: fragment_exts_def fragment_image_def tlv_image_def)
  ultimately show ?thesis
    using j(1) cut(1) by (simp add: message_packets_def fragment_packet_def transport_packet_view_def part_of_def)
qed

text \<open>
  C4: what a successful send puts on the network. If \<^verbatim>\<open>xgl_transport_send\<close> returns OK, it has handed to the network layer at most
  one HELLO, only for a reliable message, and then the packets of the message: their payloads, one after the other, are
  the message; each is addressed from this node to the target with the message's data type and fits, with its extensions and
  the link's tag, into the largest frame of the route; a reliable message takes consecutive packet numbers; and a fragment says at which
  offset of the message its payload stands.
\<close>

theorem transport_send_emits_message:
  assumes run: "xgl_transport_send ctx w (Some tx_data) = (XGL_OK, ctx', w')" and plain: "td_compression_id tx_data = 0"
    and d: "td_data tx_data = Some d" "td_data_len tx_data \<le> length d"
  shows "\<exists>hello pkts. w_log w' = w_log w @ hello @ map ToNetwork pkts
    \<and> (hello = [] \<or> td_reliable tx_data \<and> (\<exists>x. hello = [x] \<and> hello_to (td_target_id tx_data) x))
    \<and> concat (map packet_payload pkts) = take (td_data_len tx_data) d
    \<and> (\<forall>p \<in> set pkts. pk_source_id p = tc_local_id ctx \<and> pk_target_id p = td_target_id tx_data \<and> pk_data_type p = td_data_type tx_data
         \<and> xgl_frame_serialized_size (length (packet_payload p))
             (pk_extensions_len p + (if td_data_type tx_data \<noteq> 0 then XGL_DATA_TYPE_EXT_SIZE else 0)) (unat (tc_auth_tag_len ctx))
           \<le> unat (transport_effective_max_frame_size ctx (td_target_id tx_data)))
    \<and> (td_reliable tx_data \<longrightarrow> (\<exists>n. map pk_packet_number pkts = map (\<lambda>j. n + word_of_nat j) [0..<length pkts]))
    \<and> (\<exists>message_id. \<forall>j < length pkts. pk_fragment (pkts ! j) \<noteq> 0 \<longrightarrow>
         part_of (pk_extensions (pkts ! j)) (pk_extensions_len (pkts ! j)) =
           exts_image (fragment_exts message_id (length (concat (map packet_payload (take j pkts)))) (td_data_len tx_data)))"
  using run plain
proof (rule send_ok_log)
  fix hello ctx1 peer plan message_id
  let ?ps = "message_packets ctx1 peer tx_data plan message_id" and ?n = "sp_fragment_payload_budget plan" and ?len = "td_data_len tx_data"
  assume log: "w_log w' = w_log w @ hello @ map ToNetwork ?ps"
    and hello: "hello = [] \<or> td_reliable tx_data \<and> (\<exists>x. hello = [x] \<and> hello_to (td_target_id tx_data) x)"
    and plan: "transport_build_send_plan ctx1 tx_data = Inr plan" and peer: "tx_peer_ok ctx1 tx_data peer"
    and same: "tc_local_id ctx1 = tc_local_id ctx" "tc_auth_tag_len ctx1 = tc_auth_tag_len ctx"
      "transport_effective_max_frame_size ctx1 (td_target_id tx_data) = transport_effective_max_frame_size ctx (td_target_id tx_data)"
  have addr: "pk_source_id p = tc_local_id ctx \<and> pk_target_id p = td_target_id tx_data \<and> pk_data_type p = td_data_type tx_data" if "p \<in> set ?ps" for p
    using that same(1) by (auto simp: message_packets_def fragment_packet_def transport_packet_view_def split: if_splits)
  have fit: "xgl_frame_serialized_size (length (packet_payload p))
      (pk_extensions_len p + (if td_data_type tx_data \<noteq> 0 then XGL_DATA_TYPE_EXT_SIZE else 0)) (unat (tc_auth_tag_len ctx))
      \<le> unat (transport_effective_max_frame_size ctx (td_target_id tx_data))" if "p \<in> set ?ps" for p
    using message_packets_fit [OF plan that d(1)] same by simp
  have num: "map pk_packet_number ?ps = map (tx_number ctx1 peer) [0..<length ?ps]"
    by (simp add: message_packets_def fragment_packet_def transport_packet_view_def comp_def)
  have reliable: "\<exists>n. map pk_packet_number ?ps = map (\<lambda>j. n + word_of_nat j) [0..<length ?ps]" if "td_reliable tx_data"
    using num peer that by (intro exI [of _ "tx_next ctx1 peer"]) (auto simp: tx_peer_ok_def tx_number_def split: option.splits)
  note frag = message_fragment_exts [OF plan d]
  show ?thesis
    using log hello message_payload [OF plan d(1)] addr fit reliable frag by (intro exI [of _ hello] exI [of _ ?ps]) auto
qed

text \<open>
  C3: an unreliable message, in one piece or in fragments, arrives whole. A successful send hands over some packets, each of which the
  network layer can send in a frame that fits the route (\<open>packet_ok\<close>, the hypothesis of \<open>packet_crosses_link\<close>). If the receiver gets each of them, in
  order, as the network layer hands them up (\<open>packet_arrives\<close>, its conclusion), has reassembly memory for the message
  and no unfinished message of this sender, then its application is handed the message, once and complete.
\<close>

theorem unreliable_message_arrives:
  assumes run: "xgl_transport_send ctx w (Some tx_data) = (XGL_OK, ctx', w')" and plain: "td_compression_id tx_data = 0"
    and tx: "\<not> td_reliable tx_data" "td_connection_id tx_data = 0" "td_data tx_data = Some d" "td_data_len tx_data \<le> length d"
      "td_data_len tx_data < 2 ^ 32" "td_target_id tx_data \<noteq> 0"
    and R: "tc_fragment_mgr R = Some m" "tc_rx_callback R" "fragment_inv (\<lambda>_ _ _. True) m" "has_room m (td_data_len tx_data)"
      "src \<notin> rb_source_id ` set (fm_reassembly_list m)" "w_allocs v = True # True # as"
  shows "\<exists>pkts exts. w_log w' = w_log w @ map ToNetwork pkts \<and>
    (\<forall>k < length pkts. packet_ok (pkts ! k) (exts k) zero_ext_metadata \<and>
       xgl_frame_serialized_size (length (packet_payload (pkts ! k))) (length (exts_image (tx_exts (pkts ! k) (exts k) zero_ext_metadata)))
         (unat (tc_auth_tag_len ctx)) \<le> unat (transport_effective_max_frame_size ctx (td_target_id tx_data))) \<and>
    (\<forall>qs. length qs = length pkts \<longrightarrow> (\<forall>k < length pkts. packet_arrives (pkts ! k) src (exts k) zero_ext_metadata (qs ! k)) \<longrightarrow>
       app (snd (receive_all R v qs)) = app v @ [ToApp src (td_data_type tx_data) (map Some (take (td_data_len tx_data) d))])"
  using run plain
proof (rule send_ok_log)
  fix hello ctx1 peer plan message_id
  let ?ps = "message_packets ctx1 None tx_data plan message_id" and ?x = "message_exts tx_data plan message_id"
  assume log: "w_log w' = w_log w @ hello @ map ToNetwork (message_packets ctx1 peer tx_data plan message_id)"
    and hello: "hello = [] \<or> td_reliable tx_data \<and> (\<exists>x. hello = [x] \<and> hello_to (td_target_id tx_data) x)"
    and plan: "transport_build_send_plan ctx1 tx_data = Inr plan" and peer: "tx_peer_ok ctx1 tx_data peer"
    and same: "\<not> td_reliable tx_data \<Longrightarrow> ctx1 = ctx"
  have none: "hello = []" "peer = None" using hello peer tx(1) by (auto simp: tx_peer_ok_def split: option.splits)
  have ok: "packet_ok (?ps ! k) (?x k) zero_ext_metadata" if "k < length ?ps" for k
    by (rule message_packet_ok [OF plan that tx(3,4,6)])
  have "length (exts_image (tx_exts (?ps ! k) (?x k) zero_ext_metadata)) =
      pk_extensions_len (?ps ! k) + (if td_data_type tx_data \<noteq> 0 then XGL_DATA_TYPE_EXT_SIZE else 0)" if "k < length ?ps" for k
    using that fragment_exts_facts(1)
    by (auto simp: tx_exts_def zero_ext_metadata_def message_exts_def message_packets_def fragment_packet_def transport_packet_view_def
        exts_image_def tlv_image_def)
  then have size: "xgl_frame_serialized_size (length (packet_payload (?ps ! k))) (length (exts_image (tx_exts (?ps ! k) (?x k) zero_ext_metadata)))
      (unat (tc_auth_tag_len ctx)) \<le> unat (transport_effective_max_frame_size ctx (td_target_id tx_data))" if "k < length ?ps" for k
    using message_packets_fit [OF plan nth_mem [OF that] tx(3)] same [OF tx(1)] that by simp
  show ?thesis
    using log ok size message_received [OF plan _ _ tx(1-5) R, of _ message_id] unfolding none
    by (intro exI [of _ ?ps] exI [of _ ?x]) simp
qed

section \<open>A stream of reliable messages\<close>

text \<open>The packet of a reliable message that fits into one frame.\<close>

definition reliable_packet :: "u16 \<Rightarrow> xgl_tx_data \<Rightarrow> u16 \<Rightarrow> u32 \<Rightarrow> xgl_packet" where
  "reliable_packet local_id tx_data session n = zero_packet
     \<lparr> pk_source_id := local_id, pk_target_id := td_target_id tx_data, pk_packet_number := n, pk_session_id := session,
       pk_data_type := td_data_type tx_data, pk_reliable := 1, pk_priority := td_priority tx_data,
       pk_data := Some \<lparr> pd_data = td_data tx_data, pd_data_len = td_data_len tx_data \<rparr> \<rparr>"

text \<open>Messages without a connection, within one frame, uncompressed.\<close>

definition plain_reliable :: "xgl_transport_ctx \<Rightarrow> u16 \<Rightarrow> xgl_tx_data \<Rightarrow> bool" where
  "plain_reliable ctx target tx_data \<longleftrightarrow> td_reliable tx_data \<and> td_connection_id tx_data = 0 \<and> td_session_epoch tx_data = 0 \<and>
     td_compression_id tx_data = 0 \<and> td_target_id tx_data = target \<and> target \<noteq> 0 \<and>
     (case td_data tx_data of None \<Rightarrow> False | Some d \<Rightarrow> td_data_len tx_data \<le> length d) \<and>
     xgl_frame_serialized_size (td_data_len tx_data) (if td_data_type tx_data \<noteq> 0 then XGL_DATA_TYPE_EXT_SIZE else 0)
       (unat (tc_auth_tag_len ctx)) \<le> unat (transport_effective_max_frame_size ctx target)"

lemma reliable_send:
  assumes run: "xgl_transport_send ctx w (Some tx_data) = (XGL_OK, ctx', w')" and tx: "plain_reliable ctx t tx_data"
  obtains hello sid n where "w_log w' = w_log w @ hello @ [ToNetwork (reliable_packet (tc_local_id ctx) tx_data sid n)]"
    "hello = [] \<or> (\<exists>x. hello = [x] \<and> hello_to t x)" "tx_state ctx' t = Some (sid, n + 1)"
    "case tx_state ctx t of None \<Rightarrow> n = 0 \<and> sid \<le> XGL_SESSION_ID_MASK | Some x \<Rightarrow> x = (sid, n)"
    "tc_local_id ctx' = tc_local_id ctx" "tc_auth_tag_len ctx' = tc_auth_tag_len ctx"
    "transport_effective_max_frame_size ctx' t = transport_effective_max_frame_size ctx t"
proof -
  have T: "td_reliable tx_data" "td_connection_id tx_data = 0" "td_session_epoch tx_data = 0" "td_compression_id tx_data = 0" "td_target_id tx_data = t"
    using tx by (simp_all add: plain_reliable_def)
  show thesis
    using run T(4)
  proof (rule send_ok_log)
    fix hello ctx1 peer plan message_id
    assume log: "w_log w' = w_log w @ hello @ map ToNetwork (message_packets ctx1 peer tx_data plan message_id)"
      and hello: "hello = [] \<or> td_reliable tx_data \<and> (\<exists>x. hello = [x] \<and> hello_to (td_target_id tx_data) x)"
      and plan: "transport_build_send_plan ctx1 tx_data = Inr plan" and same: "tc_local_id ctx1 = tc_local_id ctx"
        "tc_auth_tag_len ctx1 = tc_auth_tag_len ctx"
        "transport_effective_max_frame_size ctx1 (td_target_id tx_data) = transport_effective_max_frame_size ctx (td_target_id tx_data)"
      and later: "tx_from ctx1 ctx'" "tx_next ctx' peer = tx_number ctx1 peer (length (message_packets ctx1 peer tx_data plan message_id))"
      and prep: "\<exists>w1. transport_prepare_reliable_send ctx w tx_data = (XGL_OK, peer, ctx1, w1)"
    obtain i where i: "peer = Some i" "transport_find_peer ctx1 t = Some i"
      "case tx_state ctx t of None \<Rightarrow> tx_next ctx1 peer = 0 \<and> tp_session_id (peer_at ctx1 i) \<le> XGL_SESSION_ID_MASK
       | Some (sid, n) \<Rightarrow> tx_next ctx1 peer = n \<and> tp_session_id (peer_at ctx1 i) = sid"
      using prep prepare_peer [OF _ T(1-3)] T(5) by metis
    have one: "\<not> sp_needs_fragmentation plan"
      using plan refl refl refl
    proof (cases rule: send_plan_cases)
      case cut
      have "xgl_frame_serialized_size (td_data_len tx_data) (if td_data_type tx_data \<noteq> 0 then 3 else 0) (unat (tc_auth_tag_len ctx1))
          \<le> unat (transport_effective_max_frame_size ctx1 t)"
        using tx same T(5) by (simp add: plain_reliable_def)
      then show ?thesis using plan T(5) payload_budget_exact [of "td_data_len tx_data"]
        by (auto simp: transport_build_send_plan_def Let_def split: option.splits if_splits)
    qed
    have n: "tx_number ctx1 peer 0 = tx_next ctx1 peer" "tx_number ctx1 peer 1 = tx_next ctx1 peer + 1"
      using i(1) by (simp_all add: tx_number_def)
    have pkt: "message_packets ctx1 peer tx_data plan message_id =
        [reliable_packet (tc_local_id ctx) tx_data (tp_session_id (peer_at ctx1 i)) (tx_next ctx1 peer)]"
      using one T same(1) i(1) n(1) by (simp add: message_packets_def transport_packet_view_def reliable_packet_def zero_packet_def)
    have nx: "tx_next ctx' peer = tx_next ctx1 peer + 1" using later(2) n(2) unfolding pkt by simp
    have "tx_state ctx' t = Some (tp_session_id (peer_at ctx1 i), tx_next ctx1 peer + 1)"
      using nx tx_from_find [OF later(1)] tx_from_session(1) [OF later(1) find_peer_bound [OF i(2)]] i(1,2)
      by (simp add: tx_state_def) (simp add: tx_next_def)
    then show thesis
      using log hello i(3) T(5) later(1) same same_plan [of ctx' ctx1 t]
      by (intro that [of hello "tp_session_id (peer_at ctx1 i)" "tx_next ctx1 peer"]) (auto simp: pkt tx_from_def split: option.splits)
  qed
qed

text \<open>Several messages, one after the other.\<close>

primrec send_all :: "xgl_transport_ctx \<Rightarrow> world \<Rightarrow> xgl_tx_data list \<Rightarrow> xgl_error \<times> xgl_transport_ctx \<times> world" where
  "send_all ctx w [] = (XGL_OK, ctx, w)"
| "send_all ctx w (tx_data # txs) =
     (case xgl_transport_send ctx w (Some tx_data) of
        (err, ctx, w) \<Rightarrow> if err \<noteq> XGL_OK then (err, ctx, w) else send_all ctx w txs)"

lemma reliable_packet_not_hello: "\<not> hello_to t (ToNetwork (reliable_packet local_id tx_data sid n))"
  by (simp add: hello_to_def reliable_packet_def zero_packet_def)

lemma send_all_packets:
  assumes "send_all ctx w txs = (XGL_OK, ctx', w')" "\<forall>tx_data \<in> set txs. plain_reliable ctx t tx_data" "tx_state ctx t = Some (sid, n)"
  shows "\<exists>outs. w_log w' = w_log w @ outs \<and> filter (\<lambda>x. \<not> hello_to t x) outs =
     map (\<lambda>j. ToNetwork (reliable_packet (tc_local_id ctx) (txs ! j) sid (n + word_of_nat j))) [0..<length txs]"
  using assms
proof (induction txs arbitrary: ctx w n)
  case (Cons tx_data txs)
  obtain err ctx1 w1 where s: "xgl_transport_send ctx w (Some tx_data) = (err, ctx1, w1)" by (metis prod_cases3)
  have ok: "err = XGL_OK" and rest: "send_all ctx1 w1 txs = (XGL_OK, ctx', w')" using Cons.prems(1) s by (auto split: if_splits)
  have tx: "plain_reliable ctx t tx_data" using Cons.prems(2) by simp
  obtain hello sid1 n1 where H: "w_log w1 = w_log w @ hello @ [ToNetwork (reliable_packet (tc_local_id ctx) tx_data sid1 n1)]"
    "hello = [] \<or> (\<exists>x. hello = [x] \<and> hello_to t x)" "tx_state ctx1 t = Some (sid1, n1 + 1)"
    "case tx_state ctx t of None \<Rightarrow> n1 = 0 \<and> sid1 \<le> XGL_SESSION_ID_MASK | Some x \<Rightarrow> x = (sid1, n1)" "tc_local_id ctx1 = tc_local_id ctx"
    "tc_auth_tag_len ctx1 = tc_auth_tag_len ctx" "transport_effective_max_frame_size ctx1 t = transport_effective_max_frame_size ctx t"
    using reliable_send [OF s [unfolded ok] tx] .
  have eq: "sid1 = sid" "n1 = n" using H(4) Cons.prems(3) by simp_all
  note H = H [unfolded eq]
  have "\<forall>tx_data \<in> set txs. plain_reliable ctx1 t tx_data" using Cons.prems(2) H(6,7) by (simp add: plain_reliable_def)
  from Cons.IH [OF rest this H(3)] obtain outs where O: "w_log w' = w_log w1 @ outs"
    "filter (\<lambda>x. \<not> hello_to t x) outs = map (\<lambda>j. ToNetwork (reliable_packet (tc_local_id ctx) (txs ! j) sid (n + word_of_nat (Suc j)))) [0..<length txs]"
    unfolding H(5) by (auto simp: add.assoc)
  have "filter (\<lambda>x. \<not> hello_to t x) hello = []" using H(2) by auto
  then show ?case
    using O H(1)
    by (intro exI [of _ "hello @ [ToNetwork (reliable_packet (tc_local_id ctx) tx_data sid n)] @ outs"])
       (simp add: reliable_packet_not_hello upt_conv_Cons map_Suc_upt [symmetric] comp_def del: upt_Suc of_nat_Suc)
qed simp

lemma send_all_first:
  assumes run: "send_all ctx w txs = (XGL_OK, ctx', w')" and tx: "\<forall>tx_data \<in> set txs. plain_reliable ctx t tx_data"
    and new: "tx_state ctx t = None"
  shows "\<exists>sid outs. w_log w' = w_log w @ outs \<and> filter (\<lambda>x. \<not> hello_to t x) outs =
     map (\<lambda>j. ToNetwork (reliable_packet (tc_local_id ctx) (txs ! j) sid (word_of_nat j))) [0..<length txs]"
proof (cases txs)
  case (Cons tx_data txs')
  obtain err ctx1 w1 where s: "xgl_transport_send ctx w (Some tx_data) = (err, ctx1, w1)" by (metis prod_cases3)
  have ok: "err = XGL_OK" and rest: "send_all ctx1 w1 txs' = (XGL_OK, ctx', w')" using run s Cons by (auto split: if_splits)
  have tx1: "plain_reliable ctx t tx_data" using tx Cons by simp
  obtain hello sid n1 where H: "w_log w1 = w_log w @ hello @ [ToNetwork (reliable_packet (tc_local_id ctx) tx_data sid n1)]"
    "hello = [] \<or> (\<exists>x. hello = [x] \<and> hello_to t x)" "tx_state ctx1 t = Some (sid, n1 + 1)"
    "case tx_state ctx t of None \<Rightarrow> n1 = 0 \<and> sid \<le> XGL_SESSION_ID_MASK | Some x \<Rightarrow> x = (sid, n1)" "tc_local_id ctx1 = tc_local_id ctx"
    "tc_auth_tag_len ctx1 = tc_auth_tag_len ctx" "transport_effective_max_frame_size ctx1 t = transport_effective_max_frame_size ctx t"
    using reliable_send [OF s [unfolded ok] tx1] .
  have eq: "n1 = 0" using H(4) new by simp
  note H = H [unfolded eq add_0]
  have "\<forall>tx_data \<in> set txs'. plain_reliable ctx1 t tx_data" using tx Cons H(6,7) by (simp add: plain_reliable_def)
  from send_all_packets [OF rest this H(3)] obtain outs where O: "w_log w' = w_log w1 @ outs"
    "filter (\<lambda>x. \<not> hello_to t x) outs = map (\<lambda>j. ToNetwork (reliable_packet (tc_local_id ctx) (txs' ! j) sid (word_of_nat (Suc j)))) [0..<length txs']"
    unfolding H(5) by auto
  have "filter (\<lambda>x. \<not> hello_to t x) hello = []" using H(2) by auto
  then show ?thesis
    using O H(1) Cons
    by (intro exI [of _ sid] exI [of _ "hello @ [ToNetwork (reliable_packet (tc_local_id ctx) tx_data sid 0)] @ outs"])
       (simp add: reliable_packet_not_hello upt_conv_Cons map_Suc_upt [symmetric] comp_def del: upt_Suc of_nat_Suc)
qed (use run in simp)

text \<open>What the application is handed for a message.\<close>

definition message_bytes :: "xgl_tx_data \<Rightarrow> bytes" where
  "message_bytes tx_data = part_of (td_data tx_data) (td_data_len tx_data)"

definition delivered :: "u16 \<Rightarrow> xgl_tx_data \<Rightarrow> transport_output" where
  "delivered src tx_data = ToApp src (td_data_type tx_data) (map Some (message_bytes tx_data))"

definition sent_stream :: "u16 \<Rightarrow> u16 \<Rightarrow> xgl_tx_data list \<Rightarrow> u8 \<times> bytes \<Rightarrow> rx_stream" where
  "sent_stream src sid txs other = \<lparr> st_source = src, st_connection = ucast sid, st_epoch = 0, st_session = sid,
     st_content = (\<lambda>n. if n < length txs then (td_data_type (txs ! n), message_bytes (txs ! n)) else other) \<rparr>"

lemma session_of_connection: "(ucast ((ucast (sid :: u16) :: u32) AND 0xFFFF) :: u16) = sid"
proof -
  have "(ucast ((ucast sid :: u32) AND mask 16) :: u16) = sid" by (rule bit_word_eqI) (auto simp: bit_simps)
  then show ?thesis by (simp add: mask_eq_exp_minus_1)
qed

lemma reliable_arrives:
  assumes q: "packet_arrives (reliable_packet local_id (txs ! j) sid (word_of_nat j)) src [] zero_ext_metadata q"
    and j: "j < length txs" "length txs < 2 ^ 32 - 1"
  shows "of_stream (sent_stream src sid txs other) q"
proof -
  let ?p = "reliable_packet local_id (txs ! j) sid (word_of_nat j)"
  have p: "network_reliability_class ?p = XGL_RELIABILITY_ACK_ELICITING" "pk_traffic_class ?p = 0" "pk_flags ?p = 0" "pk_packet_type ?p = 0"
    "pk_fragment ?p = 0" "pk_connection_id ?p = 0" "pk_session_id ?p = sid" "pk_data_type ?p = td_data_type (txs ! j)"
    "pk_data ?p = Some \<lparr> pd_data = td_data (txs ! j), pd_data_len = td_data_len (txs ! j) \<rparr>" "pk_packet_number ?p = word_of_nat j"
    by (simp_all add: reliable_packet_def network_reliability_class_def zero_packet_def)
  note Q = q [unfolded packet_arrives_def p tx_metadata_def tx_exts_def zero_ext_metadata_def]
  have num: "unat (word_of_nat j :: u32) = j" using j by (intro unat_u32_of_nat) simp
  have "(word_of_nat j :: u32) \<noteq> - 1"
  proof
    assume "(word_of_nat j :: u32) = - 1"
    then have "unat (word_of_nat j :: u32) = 2 ^ 32 - 1" by (simp add: unsigned_minus_1_eq_mask mask_eq_exp_minus_1)
    then show False using j num by simp
  qed
  moreover obtain x d where x: "pk_data q = Some x" "pd_data x = Some d" "part_of (pd_data x) (pd_data_len x) = message_bytes (txs ! j)"
    using Q by (auto simp: message_bytes_def split: option.splits)
  moreover have "pk_data q = Some \<lparr> pd_data = Some d, pd_data_len = pd_data_len x \<rparr> \<and> mem_read d 0 (pd_data_len x) = message_bytes (txs ! j)"
    using x by (simp add: part_of_def mem_read_def)
  ultimately have "carries_content (sent_stream src sid txs other) q"
    using Q num j by (auto simp: carries_content_def sent_stream_def split: if_splits)
  then show ?thesis
    using Q session_of_connection [of sid] by (auto simp: of_stream_def sent_stream_def split: if_splits)
qed

lemma no_peer_no_stream:
  assumes "st_source s \<notin> tp_peer_id ` set (tc_peers ctx)"
  shows "find_stream s ctx = None"
proof -
  have "tp_peer_id (peer_at ctx i) \<noteq> st_source s" if "i < length (tc_peers ctx)" for i using assms that by (metis image_eqI nth_mem)
  then show ?thesis by (auto simp: find_stream_def transport_find_peer_scope_def transport_find_peer_def find_None_iff Let_def)
qed

lemma message_of_sent: "m \<le> length txs \<Longrightarrow> map (message_of (sent_stream src sid txs other)) [0..<m] = map (delivered src) (take m txs)"
  by (intro nth_equalityI) (simp_all add: message_of_def sent_stream_def delivered_def)

lemma reliable_packet_ok:
  assumes t: "plain_reliable ctx t tx_data"
  shows "packet_ok (reliable_packet (tc_local_id ctx) tx_data sid n) [] zero_ext_metadata"
proof -
  have "unat (transport_effective_max_frame_size ctx t) \<le> 65535"
    using unsigned_less [where 'a = nat and 'b = 16, of "transport_effective_max_frame_size ctx t"] by simp
  then have "td_data_len tx_data \<le> 65535" using t by (simp add: plain_reliable_def xgl_frame_serialized_size_def)
  then show ?thesis
    using t by (auto simp: packet_ok_def reliable_packet_def plain_reliable_def zero_packet_def part_ok_def part_of_def exts_image_def
        exts_ok_def zero_ext_metadata_def split: option.splits)
qed

text \<open>
  The messages handed up are the first ones of the stream, whatever the stream would have after those sent; so there are no more
  than those sent.
\<close>

lemma stream_messages_bound:
  assumes "map (message_of (sent_stream src sid txs (0, []))) [0..<m] = map (message_of (sent_stream src sid txs (1, []))) [0..<m']"
  shows "m \<le> length txs"
proof (rule ccontr)
  assume "\<not> m \<le> length txs"
  then have lt: "length txs < m" by simp
  have "m = m'" using assms map_eq_imp_length_eq by fastforce
  moreover have "map (message_of (sent_stream src sid txs (0, []))) [0..<m] ! length txs =
      map (message_of (sent_stream src sid txs (1, []))) [0..<m'] ! length txs" by (simp only: assms)
  ultimately have "message_of (sent_stream src sid txs (0, [])) (length txs) = message_of (sent_stream src sid txs (1, [])) (length txs)"
    using lt by simp
  then show False by (simp add: message_of_def sent_stream_def)
qed

lemma reliable_received:
  assumes qs: "\<And>q. q \<in> set qs \<Longrightarrow> \<exists>j < length txs. packet_arrives (reliable_packet l (txs ! j) sid (word_of_nat j)) src [] zero_ext_metadata q"
    and n: "length txs < 2 ^ 32 - 1" and R: "src \<notin> tp_peer_id ` set (tc_peers R)" "tc_rx_callback R"
  shows "\<exists>m \<le> length txs. app (snd (receive_all R v qs)) = app v @ map (delivered src) (take m txs)"
proof -
  have start: "stream_at (sent_stream src sid txs o') R 0" for o'
    using R no_peer_no_stream [of "sent_stream src sid txs o'" R] by (simp add: stream_at_def) (simp add: sent_stream_def)
  have all: "\<forall>q \<in> set qs. of_stream (sent_stream src sid txs o') q" for o' using qs reliable_arrives n by blast
  obtain m where m: "app (snd (receive_all R v qs)) = app v @ map (message_of (sent_stream src sid txs (0, []))) [0..<m]"
    using receive_all_stream [OF all start prod.collapse [symmetric]] by blast
  obtain m' where m': "app (snd (receive_all R v qs)) = app v @ map (message_of (sent_stream src sid txs (1, []))) [0..<m']"
    using receive_all_stream [OF all start prod.collapse [symmetric]] by blast
  have "m \<le> length txs" using m m' by (intro stream_messages_bound [of src sid txs m m']) simp
  then show ?thesis using m message_of_sent by metis
qed


section \<open>Instances\<close>

text \<open>A packet as the network layer hands it up, when no security extension was added on the way.\<close>

definition arrival :: "u16 \<Rightarrow> xgl_packet \<Rightarrow> xgl_packet" where
  "arrival src p =
     (let c = (if pk_connection_id p \<noteq> 0 then pk_connection_id p else ucast (pk_session_id p));
          e = part_of (pk_extensions p) (pk_extensions_len p) @
                (if pk_data_type p = 0 then [] else tlv_image XGL_WIRE_EXT_DATA_TYPE [pk_data_type p]);
          d = (case pk_data p of None \<Rightarrow> [] | Some d \<Rightarrow> part_of (pd_data d) (pd_data_len d))
      in p \<lparr> pk_source_id := src, pk_connection_id := c, pk_session_id := ucast (c AND 0xFFFF), pk_session_epoch := 0,
             pk_packet_type := (if network_reliability_class p = XGL_RELIABILITY_ACK_ONLY then XGL_PACKET_TYPE_ACK
                                else if pk_packet_type p = 0 then XGL_PACKET_TYPE_DATA else pk_packet_type p),
             pk_compress := 0, pk_extensions := Some e, pk_extensions_len := length e,
             pk_data := Some \<lparr> pd_data = Some d, pd_data_len = length d \<rparr>, pk_reliable := network_reliability_class p,
             pk_fragment := (if pk_fragment p \<noteq> 0 then 1 else 0), pk_priority := pk_priority p AND 7 \<rparr>)"

lemma arrival_arrives:
  assumes "packet_ok p exts zero_ext_metadata"
  shows "packet_arrives p src exts zero_ext_metadata (arrival src p)"
proof -
  let ?x = "tx_exts p exts zero_ext_metadata"
  have p: "part_of (pk_extensions p) (pk_extensions_len p) = exts_image exts" "pk_data p \<noteq> None"
    using assms by (auto simp: packet_ok_def split: option.splits)
  have "exts_ok ?x" by (rule tx_exts_ok(1) [OF assms])
  moreover have "pk_extensions (arrival src p) = Some (exts_image ?x)" "pk_extensions_len (arrival src p) = length (exts_image ?x)"
    by (simp_all add: arrival_def Let_def p(1) tx_exts_def zero_ext_metadata_def)
  ultimately have "carried_exts ?x (pk_extensions (arrival src p)) (pk_extensions_len (arrival src p))"
    by (auto simp: carried_exts_def part_ok_def part_of_def)
  then show ?thesis
    using p(2) by (auto simp: packet_arrives_def arrival_def Let_def tx_metadata_def zero_ext_metadata_def part_of_def [of "Some _"])
qed

definition sample_fragmenter :: xgl_transport_ctx where
  "sample_fragmenter = projr (fst (xgl_transport_init (Some (sample_config \<lparr> tf_enable_fragmentation := True \<rparr>)) empty_world))"

definition sample_message :: xgl_tx_data where
  "sample_message = \<lparr> td_target_id = 9, td_data_type = 5, td_data = Some (map word_of_nat [0..<50]), td_data_len = 50, td_reliable = False,
     td_priority = 1, td_timeout_ms = 0, td_connection_id = 0, td_session_epoch = 0, td_compression_id = 0 \<rparr>"

lemma sample_message_sent:
  "\<exists>ctx w. xgl_transport_send sample_fragmenter empty_world (Some sample_message) = (XGL_OK, ctx, w) \<and> length (w_log w) = 3"
proof -
  have "fst (xgl_transport_send sample_fragmenter empty_world (Some sample_message)) = XGL_OK \<and>
      length (w_log (snd (snd (xgl_transport_send sample_fragmenter empty_world (Some sample_message))))) = 3" by code_simp
  then show ?thesis by (metis prod.collapse)
qed

theorem transport_send_emits_message_witness:
  "\<exists>ctx w pkts. xgl_transport_send sample_fragmenter empty_world (Some sample_message) = (XGL_OK, ctx, w) \<and> w_log w = map ToNetwork pkts
     \<and> length pkts = 3 \<and> concat (map packet_payload pkts) = map word_of_nat [0..<50]"
proof -
  obtain ctx w where s: "xgl_transport_send sample_fragmenter empty_world (Some sample_message) = (XGL_OK, ctx, w)" "length (w_log w) = 3"
    using sample_message_sent by blast
  have d: "td_compression_id sample_message = 0" "td_data sample_message = Some (map word_of_nat [0..<50])"
    "td_data_len sample_message \<le> length (map word_of_nat [0..<50] :: bytes)"
    by (simp_all add: sample_message_def)
  from transport_send_emits_message [OF s(1) d] s show ?thesis
    by (auto simp: sample_message_def empty_world_def)
qed

lemma sample_fragmenter_facts:
  "tc_fragment_mgr sample_fragmenter = Some (xgl_fragment_init 8 5000)" "tc_rx_callback sample_fragmenter"
  by code_simp+

theorem unreliable_message_arrives_witness:
  "\<exists>ctx w pkts. xgl_transport_send sample_fragmenter empty_world (Some sample_message) = (XGL_OK, ctx, w) \<and> w_log w = map ToNetwork pkts
     \<and> length pkts = 3
     \<and> app (snd (receive_all sample_fragmenter empty_world (map (arrival 2) pkts))) = [ToApp 2 5 (map Some (map word_of_nat [0..<50]))]"
proof -
  obtain ctx w where s: "xgl_transport_send sample_fragmenter empty_world (Some sample_message) = (XGL_OK, ctx, w)" "length (w_log w) = 3"
    using sample_message_sent by blast
  have d: "td_compression_id sample_message = 0" "\<not> td_reliable sample_message" "td_connection_id sample_message = 0"
    "td_data sample_message = Some (map word_of_nat [0..<50])" "td_data_len sample_message \<le> length (map word_of_nat [0..<50] :: bytes)"
    "td_data_len sample_message < 2 ^ 32" "td_target_id sample_message \<noteq> 0"
    by (simp_all add: sample_message_def)
  have m: "fragment_inv (\<lambda>_ _ _. True) (xgl_fragment_init 8 5000)" by (rule fresh_fragments_inv)
  have room: "has_room (xgl_fragment_init 8 5000) (td_data_len sample_message)"
      "2 \<notin> rb_source_id ` set (fm_reassembly_list (xgl_fragment_init 8 5000))" "w_allocs empty_world = True # True # replicate 6 True"
    by (simp_all add: has_room_def xgl_fragment_init_def sample_message_def empty_world_def numeral_eq_Suc)
  obtain pkts exts where P: "w_log w = w_log empty_world @ map ToNetwork pkts"
    "\<forall>k < length pkts. packet_ok (pkts ! k) (exts k) zero_ext_metadata"
    "\<forall>qs. length qs = length pkts \<longrightarrow> (\<forall>k < length pkts. packet_arrives (pkts ! k) 2 (exts k) zero_ext_metadata (qs ! k)) \<longrightarrow>
       app (snd (receive_all sample_fragmenter empty_world qs)) =
         app empty_world @ [ToApp 2 (td_data_type sample_message) (map Some (take (td_data_len sample_message) (map word_of_nat [0..<50])))]"
    using unreliable_message_arrives [OF s(1) d sample_fragmenter_facts m room] by blast
  have "app (snd (receive_all sample_fragmenter empty_world (map (arrival 2) pkts))) =
      app empty_world @ [ToApp 2 (td_data_type sample_message) (map Some (take (td_data_len sample_message) (map word_of_nat [0..<50])))]"
    using P(3) [rule_format, of "map (arrival 2) pkts"] P(2) arrival_arrives by simp
  then show ?thesis
    using s P(1) by (intro exI [of _ ctx] exI [of _ w] exI [of _ pkts]) (simp add: sample_message_def empty_world_def app_def)
qed

text \<open>Three short reliable messages; the receiver gets the packets of two of them, in the wrong order and with a repetition.\<close>

definition short_message :: "u8 \<Rightarrow> xgl_tx_data" where
  "short_message b = sample_message \<lparr> td_data := Some [b, b + 1], td_data_len := 2, td_reliable := True \<rparr>"


end
