(* ===== verification/Xgl_Transport_Inv.thy ===== *)
theory Xgl_Transport_Inv
  imports Xgl_Transport_Flow
begin

text \<open>
  The invariant of the transport layer's state, kept by every operation of the layer whatever arrives, whatever the allocator, the
  clock and the network layer answer.
\<close>

section \<open>The invariant\<close>

text \<open>
  A peer: its send window has its bitmap, its queue of unacknowledged packets has list, index and store in agreement, its
  buffer of early packets is sorted, within the window and exactly counted, every buffered copy has its announced length,
  its session number has six bits. While a run of buffered packets is handed up, the first of them may be the next in turn (\<open>rx_loose\<close>).
\<close>

definition rx_loose :: "xgl_transport_peer_state \<Rightarrow> bool" where
  "rx_loose peer \<longleftrightarrow> rx_ordered (tp_rx_next_packet_number peer) (peer_window peer) (tp_rx_buffered peer)
     \<and> unat (tp_rx_buffered_count peer) = length (tp_rx_buffered peer)
     \<and> (\<not> tp_rx_has_packet_number_state peer \<longrightarrow> tp_rx_buffered peer = [])"

definition peer_loose :: "xgl_transport_peer_state \<Rightarrow> bool" where
  "peer_loose peer \<longleftrightarrow> window_inv (tp_tx_window peer) \<and> rq_inv (tp_reliable_queue peer) \<and> rx_loose peer
     \<and> tp_session_id peer \<le> XGL_SESSION_ID_MASK \<and> (\<forall>b \<in> set (tp_rx_buffered peer). rx_data_len b \<le> length (rx_data b))"

definition peer_inv :: "xgl_transport_peer_state \<Rightarrow> bool" where
  "peer_inv peer \<longleftrightarrow> peer_loose peer \<and> tp_rx_next_packet_number peer \<notin> rx_number ` set (tp_rx_buffered peer)"

definition context_ok :: "xgl_transport_ctx \<Rightarrow> bool" where
  "context_ok ctx \<longleftrightarrow> window_inv (tc_window ctx)
     \<and> (case tc_fragment_mgr ctx of None \<Rightarrow> True | Some m \<Rightarrow> fragment_inv (\<lambda>_ _ _. True) m)"

definition transport_inv :: "xgl_transport_ctx \<Rightarrow> bool" where
  "transport_inv ctx \<longleftrightarrow> context_ok ctx \<and> (\<forall>peer \<in> set (tc_peers ctx). peer_inv peer)"

lemma peer_inv_rx: "peer_inv peer \<longleftrightarrow> peer_loose peer \<and> rx_inv peer"
  by (auto simp: peer_inv_def peer_loose_def rx_inv_def rx_loose_def)

lemma context_ok_simps [simp]:
  "context_ok (tp_count f ctx) = context_ok ctx" "context_ok (peer_update i g ctx) = context_ok ctx"
  "context_ok (ctx \<lparr> tc_peers := ps \<rparr>) = context_ok ctx" "context_ok (ctx \<lparr> tc_next_session_id := n \<rparr>) = context_ok ctx"
  "context_ok (ctx \<lparr> tc_tx_retries := r \<rparr>) = context_ok ctx" "context_ok (queue_update i h ctx) = context_ok ctx"
  by (simp_all add: context_ok_def queue_update_def split: option.splits)

lemma transport_inv_simps [simp]:
  "transport_inv (tp_count f ctx) = transport_inv ctx" "transport_inv (ctx \<lparr> tc_next_session_id := n \<rparr>) = transport_inv ctx"
  "transport_inv (ctx \<lparr> tc_tx_retries := r \<rparr>) = transport_inv ctx" "transport_inv (transport_count_send_error ctx) = transport_inv ctx"
  by (simp_all add: transport_inv_def transport_count_send_error_def)

lemma transport_inv_at: "transport_inv ctx \<Longrightarrow> i < length (tc_peers ctx) \<Longrightarrow> peer_inv (peer_at ctx i)"
  by (simp add: transport_inv_def)

text \<open>Changing one peer, its queue, its window.\<close>

lemma peer_update_inv:
  assumes "transport_inv ctx" "i < length (tc_peers ctx) \<Longrightarrow> peer_inv (peer_at ctx i) \<Longrightarrow> peer_inv (g (peer_at ctx i))"
  shows "transport_inv (peer_update i g ctx)"
proof (cases "i < length (tc_peers ctx)")
  case True
  then show ?thesis
    using assms transport_inv_at [OF assms(1) True] by (auto simp: transport_inv_def dest!: set_update_subset_insert [THEN subsetD])
qed (use assms(1) in \<open>simp add: transport_inv_def list_update_beyond\<close>)

lemma queue_update_inv:
  assumes "transport_inv ctx" "i < length (tc_peers ctx) \<Longrightarrow> rq_inv (tp_reliable_queue (peer_at ctx i)) \<Longrightarrow> rq_inv (f (tp_reliable_queue (peer_at ctx i)))"
  shows "transport_inv (queue_update i f ctx)"
  unfolding queue_update_def using assms
  by (intro peer_update_inv) (auto simp: peer_inv_def peer_loose_def rx_loose_def)

lemma window_sizes [simp]:
  "sw_window_size (snd (xgl_window_mark_ack_packet_number w n)) = sw_window_size w"
  "sw_window_size (snd (xgl_window_advance_base_packet_number w)) = sw_window_size w"
  "sw_window_size (xgl_window_advance_next_packet_number w) = sw_window_size w"
  "sw_window_size (xgl_window_reset w) = sw_window_size w"
  by (cases "sw_ack_received w"; simp add: xgl_window_mark_ack_packet_number_def xgl_window_advance_base_packet_number_def
      xgl_window_advance_next_packet_number_def xgl_window_reset_def Let_def case_prod_beta)+

lemma window_update_inv:
  assumes "transport_inv ctx" "\<And>w. window_inv w \<Longrightarrow> window_inv (f w)" "\<And>w. sw_window_size (f w) = sw_window_size w"
  shows "transport_inv (peer_update i (\<lambda>peer. peer \<lparr> tp_tx_window := f (tp_tx_window peer) \<rparr>) ctx)"
  using assms by (intro peer_update_inv) (auto simp: peer_inv_def peer_loose_def rx_loose_def)

lemma context_window_inv: "transport_inv ctx \<Longrightarrow> window_inv w \<Longrightarrow> transport_inv (ctx \<lparr> tc_window := w \<rparr>)"
  by (simp add: transport_inv_def context_ok_def)

lemma active_inv [simp]:
  "peer_inv (peer \<lparr> tp_last_active_ms := t \<rparr>) = peer_inv peer" "peer_inv (peer \<lparr> tp_session_established := b \<rparr>) = peer_inv peer"
  "peer_inv (peer \<lparr> tp_hello_sent := b \<rparr>) = peer_inv peer" "peer_inv (transport_update_peer_deadline peer) = peer_inv peer"
  by (simp_all add: peer_inv_def peer_loose_def rx_loose_def transport_update_peer_deadline_def Let_def)

lemma deadline_inv: "transport_inv ctx \<Longrightarrow> transport_inv (peer_update i transport_update_peer_deadline ctx)"
  by (rule peer_update_inv) simp_all

section \<open>Peers\<close>

lemma fresh_peer_inv: "fresh_peer ctx peer \<Longrightarrow> peer_inv peer"
  by (simp add: fresh_peer_def peer_inv_def peer_loose_def rx_loose_def rx_ordered_def rq_init_inv)

lemma get_or_create_inv:
  assumes "transport_inv ctx" "transport_get_or_create_peer_internal ctx w k c e sc = (r, ctx', w')"
  shows "transport_inv ctx'"
  using assms(2)
  by (cases rule: get_or_create_cases) (use assms(1) fresh_peer_inv in \<open>auto simp: transport_inv_def\<close>)

lemma get_or_create_rx_inv:
  "transport_inv ctx \<Longrightarrow> transport_get_or_create_rx_peer ctx w p = (r, ctx', w') \<Longrightarrow> transport_inv ctx'"
  by (auto simp: transport_get_or_create_rx_peer_def transport_get_or_create_peer_scope_def transport_get_or_create_peer_def
      intro: get_or_create_inv split: if_splits)

lemma reset_peer_inv:
  assumes "transport_inv ctx" "transport_reset_peer_state ctx w i sid c e = (ctx', w')"
  shows "transport_inv ctx'"
proof -
  obtain now w1 where t: "w_time w = (now, w1)" by fastforce
  let ?g = "\<lambda>peer. transport_clear_rx_buffered
                (peer \<lparr> tp_session_id := sid AND XGL_SESSION_ID_MASK, tp_hello_sent := False,
                   tp_session_established := True, tp_reliable_queue := xgl_reliable_clear (tp_reliable_queue peer),
                   tp_tx_window := xgl_window_reset (tp_tx_window peer), tp_rtt_est := xgl_rtt_init,
                   tp_rx_next_packet_number := 0, tp_rx_has_packet_number_state := False, tp_last_active_ms := now \<rparr>)"
  have "transport_inv (peer_update i ?g ctx)"
    using assms(1) window_inv_keeps(4) clear_inv and_63_le
    by (intro peer_update_inv) (auto simp: peer_inv_def peer_loose_def rx_loose_def rx_ordered_def transport_clear_rx_buffered_def)
  moreover have "fragment_inv (\<lambda>_ _ _. True) (snd (xgl_fragment_clear_reassembly_scope m a c e))"
    if "fragment_inv (\<lambda>_ _ _. True) m" for m a
    using fragment_step_spec [OF that, of "Reset_scope a c e"] by simp
  ultimately show ?thesis
    using assms(2) window_inv_keeps(4)
    by (auto simp: t transport_reset_peer_state_def Let_def transport_inv_def context_ok_def split: option.splits)
qed

lemma reclaim_inv: "transport_inv ctx \<Longrightarrow> transport_inv (snd (transport_reclaim_idle_peers ctx now))"
  by (auto simp: transport_reclaim_idle_peers_def Let_def transport_inv_def)

section \<open>Queues and windows\<close>

lemma set_packet_inv:
  assumes "rq_inv q" "a < rq_next_addr q" "packet_bucket p = packet_bucket (packet_at q a)"
  shows "rq_inv (set_packet_at a p q)"
proof -
  have "packet_bucket (packet_at (set_packet_at a p q) x) = packet_bucket (packet_at q x)" for x
    using assms(3) by (simp add: set_packet_at_def)
  then show ?thesis using assms(1,2) by (auto simp: rq_inv_def set_packet_at_def)
qed

lemma remove_next_addr [simp]: "rq_next_addr (snd (xgl_reliable_remove_packet_number q n t)) = rq_next_addr q"
  by (simp add: xgl_reliable_remove_packet_number_def rq_unlink_defs split: option.split)

lemma found_address:
  assumes "rq_inv q" "xgl_reliable_find_packet_number q n t = Some a"
  shows "a < rq_next_addr q"
proof -
  have "a \<in> set (rq_wait_ack_list q)" using find_packet_Some [OF assms] by simp
  then show ?thesis using rq_invD(3,6) [OF assms(1)] by blast
qed

lemma waiting_address: "rq_inv q \<Longrightarrow> a \<in> set (rq_wait_ack_list q) \<Longrightarrow> a < rq_next_addr q"
  using rq_invD(3,6) by blast

lemma transport_inv_queue: "transport_inv ctx \<Longrightarrow> i < length (tc_peers ctx) \<Longrightarrow> rq_inv (tp_reliable_queue (peer_at ctx i))"
  using transport_inv_at [of ctx i] by (simp add: peer_inv_def peer_loose_def)

lemma queue_remove_inv: "transport_inv ctx \<Longrightarrow> transport_inv (queue_update i (\<lambda>q. snd (xgl_reliable_remove_packet_number q n t)) ctx)"
  by (rule queue_update_inv) (simp_all add: remove_packet_inv)

text \<open>The addresses of a queue stay below its next address, which never shrinks.\<close>

definition next_addr :: "xgl_transport_ctx \<Rightarrow> nat \<Rightarrow> nat" where
  "next_addr ctx i = rq_next_addr (tp_reliable_queue (peer_at ctx i))"

lemma next_addr_simps [simp]:
  "next_addr (tp_count f ctx) i = next_addr ctx i" "next_addr (transport_count_send_error ctx) i = next_addr ctx i"
  by (simp_all add: next_addr_def transport_count_send_error_def)

lemma length_queue_update [simp]: "length (tc_peers (queue_update i f ctx)) = length (tc_peers ctx)"
  by (simp add: queue_update_def)

lemma queue_after_update [simp]:
  "i < length (tc_peers ctx) \<Longrightarrow> tp_reliable_queue (peer_at (queue_update i f ctx) i) = f (tp_reliable_queue (peer_at ctx i))"
  by (simp add: queue_update_def)

lemma retransmit_inv:
  assumes inv: "transport_inv ctx" and i: "i < length (tc_peers ctx)" "a < next_addr ctx i"
    and run: "transport_retransmit_reliable_packet ctx w i a now = (err, ctx', w')"
  shows "transport_inv ctx'" "next_addr ctx' i = next_addr ctx i" "length (tc_peers ctx') = length (tc_peers ctx)"
proof -
  have "transport_inv ctx' \<and> next_addr ctx' i = next_addr ctx i \<and> length (tc_peers ctx') = length (tc_peers ctx)"
  proof (cases "err = XGL_OK \<and> tc_lower_layer ctx")
    case True
    let ?p = "packet_at (tp_reliable_queue (peer_at ctx i)) a"
    define rel where "rel = ?p \<lparr> rp_retry_count := rp_retry_count ?p + 1,
       rp_timeout_ms := xgl_reliable_calc_backoff (rp_initial_timeout_ms ?p) (rp_retry_count ?p + 1), rp_send_timestamp := now \<rparr>"
    have rel: "packet_bucket rel = packet_bucket ?p" "ctx' = queue_update i (set_packet_at a rel) ctx"
      using run True by (auto simp: rel_def transport_retransmit_reliable_packet_def Let_def packet_bucket_def split: if_splits prod.splits)
    have "transport_inv ctx'"
      unfolding rel(2) using inv i rel(1) by (intro queue_update_inv) (auto simp: next_addr_def intro: set_packet_inv)
    then show ?thesis using i by (simp add: rel(2) next_addr_def) (simp add: set_packet_at_def)
  next
    case False
    then have "ctx' = ctx \<or> ctx' = transport_count_send_error ctx"
      using run by (auto simp: transport_retransmit_reliable_packet_def Let_def split: if_splits prod.splits)
    then show ?thesis using inv by (auto simp: transport_count_send_error_def)
  qed
  then show "transport_inv ctx'" "next_addr ctx' i = next_addr ctx i" "length (tc_peers ctx') = length (tc_peers ctx)" by simp_all
qed

lemma retransmission_queue_inv:
  assumes "transport_inv ctx" "i < length (tc_peers ctx)" "\<forall>a \<in> set as. a < next_addr ctx i"
    and "transport_process_retransmission_queue ctx w i now as n = (n', ctx', w')"
  shows "transport_inv ctx' \<and> length (tc_peers ctx') = length (tc_peers ctx)"
  using assms
proof (induction ctx w i now as n rule: transport_process_retransmission_queue.induct)
  case (2 ctx w i now a as n)
  define rel where "rel = packet_at (tp_reliable_queue (peer_at ctx i)) a"
  have as: "\<forall>a \<in> set as. a < next_addr ctx i" "a < next_addr ctx i" using "2.prems"(3) by simp_all
  consider (fresh) "rp_send_timestamp rel = 0" | (wait) "rp_send_timestamp rel \<noteq> 0" "now - rp_send_timestamp rel < word_of_int (rp_timeout_ms rel)"
    | (drop) "rp_send_timestamp rel \<noteq> 0" "\<not> now - rp_send_timestamp rel < word_of_int (rp_timeout_ms rel)"
        "rp_retry_count rel \<ge> rq_max_retry_count (tp_reliable_queue (peer_at ctx i))"
    | (again) "rp_send_timestamp rel \<noteq> 0" "\<not> now - rp_send_timestamp rel < word_of_int (rp_timeout_ms rel)"
        "\<not> rp_retry_count rel \<ge> rq_max_retry_count (tp_reliable_queue (peer_at ctx i))" by blast
  then show ?case
  proof cases
    case fresh
    show ?thesis
      by (rule "2.IH"(1) [OF refl refl fresh [unfolded rel_def] "2.prems"(1,2) as(1)]) (use "2.prems"(4) fresh in \<open>simp add: rel_def\<close>)
  next
    case wait
    show ?thesis
      by (rule "2.IH"(2) [OF refl refl wait [unfolded rel_def] "2.prems"(1,2) as(1)]) (use "2.prems"(4) wait in \<open>simp add: rel_def\<close>)
  next
    case drop
    define ctx1 where "ctx1 = transport_count_send_error
      (queue_update i (\<lambda>q. snd (xgl_reliable_remove_packet_number q (rp_packet_number rel) (rp_target_id rel))) ctx)"
    have run: "transport_process_retransmission_queue ctx1 (xgl_transport_report_error ctx w XGL_ERR_ACK_TIMEOUT) i now as n = (n', ctx', w')"
      using "2.prems"(4) drop by (simp add: rel_def ctx1_def Let_def)
    have "transport_inv ctx1" using queue_remove_inv [OF "2.prems"(1)] by (simp add: ctx1_def)
    moreover have "next_addr ctx1 i = next_addr ctx i" "length (tc_peers ctx1) = length (tc_peers ctx)"
      using "2.prems"(2) by (simp_all add: ctx1_def next_addr_def transport_count_send_error_def)
    ultimately show ?thesis
      using "2.IH"(3) [OF refl refl drop [unfolded rel_def]] run as(1) "2.prems"(2) unfolding ctx1_def rel_def by simp
  next
    case again
    obtain err ctx1 w1 where r: "transport_retransmit_reliable_packet ctx w i a now = (err, ctx1, w1)" by (metis prod_cases3)
    note R = retransmit_inv [OF "2.prems"(1,2) as(2) r]
    have run: "transport_process_retransmission_queue ctx1 w1 i now as (if err = XGL_OK then n + 1 else n) = (n', ctx', w')"
      using "2.prems"(4) again r by (simp add: rel_def Let_def)
    show ?thesis
      using "2.IH"(4) [OF refl refl again [unfolded rel_def] r [symmetric] refl _ _ _ run] R as(1) "2.prems"(2) by simp
  qed
qed simp

lemma retransmissions_inv:
  assumes "transport_inv ctx" "\<forall>i \<in> set is. i < length (tc_peers ctx)" "process_retransmissions_loop ctx w now is n = (n', ctx', w')"
  shows "transport_inv ctx'"
  using assms
proof (induction "is" arbitrary: ctx w n)
  case (Cons i "is")
  have i: "i < length (tc_peers ctx)" using Cons.prems(2) by simp
  let ?as = "rq_wait_ack_list (tp_reliable_queue (peer_at ctx i))"
  obtain n1 ctx1 w1 where r: "transport_process_retransmission_queue ctx w i now ?as 0 = (n1, ctx1, w1)" by (metis prod_cases3)
  have "\<forall>a \<in> set ?as. a < next_addr ctx i"
    using waiting_address [OF transport_inv_queue [OF Cons.prems(1) i]] by (simp add: next_addr_def)
  note R = retransmission_queue_inv [OF Cons.prems(1) i this r]
  show ?case
    using Cons.IH [of "peer_update i transport_update_peer_deadline ctx1"] Cons.prems(2,3) deadline_inv R r by simp
qed simp

lemma transport_run_inv: "transport_inv ctx \<Longrightarrow> transport_inv (fst (snd (xgl_transport_run ctx w now)))"
proof -
  assume inv: "transport_inv ctx"
  obtain n ctx1 w1 where r: "process_retransmissions_loop ctx w now [0..<length (tc_peers ctx)] 0 = (n, ctx1, w1)" by (metis prod_cases3)
  define ctx2 where "ctx2 = (if n > 0 then ctx1 \<lparr> tc_tx_retries := map_option (\<lambda>k. k + ucast n) (tc_tx_retries ctx1) \<rparr> else ctx1)"
  have "transport_inv ctx1" using retransmissions_inv [OF inv _ r] by simp
  then have inv2: "transport_inv ctx2" by (simp add: ctx2_def)
  have mgr: "transport_inv (ctx2 \<lparr> tc_fragment_mgr := Some m' \<rparr>)" if "tc_fragment_mgr ctx2 = Some m" "xgl_fragment_process_timeouts m now = (k, m')" for m m' k
    using inv2 that fragment_step_spec [of "\<lambda>_ _ _. True" m "Expire now"] by (auto simp: transport_inv_def context_ok_def)
  show ?thesis
    using inv2 mgr unfolding ctx2_def
    by (cases "n > 0") (auto simp: xgl_transport_run_def transport_process_retransmissions_def r Let_def reclaim_inv split: option.split prod.split)
qed

section \<open>Acknowledgements\<close>

lemma mark_windows_inv: "transport_inv ctx \<Longrightarrow> transport_inv (mark_windows i n ctx)"
proof -
  assume inv: "transport_inv ctx"
  define ctx1 where "ctx1 = peer_update i (\<lambda>peer. peer \<lparr> tp_tx_window := snd (xgl_window_mark_ack_packet_number (tp_tx_window peer) n) \<rparr>) ctx"
  have inv1: "transport_inv ctx1" unfolding ctx1_def by (rule window_update_inv [OF inv]) (simp_all add: window_inv_keeps)
  then have "window_inv (snd (xgl_window_mark_ack_packet_number (tc_window ctx1) n))"
    by (intro window_inv_keeps(2)) (simp add: transport_inv_def context_ok_def)
  then show ?thesis using inv1 by (simp add: mark_windows_def Let_def ctx1_def [symmetric] context_window_inv)
qed

lemma advance_windows_inv: "transport_inv ctx \<Longrightarrow> transport_inv (advance_windows i ctx)"
proof -
  assume inv: "transport_inv ctx"
  define ctx1 where "ctx1 = peer_update i (\<lambda>peer. peer \<lparr> tp_tx_window := snd (xgl_window_advance_base_packet_number (tp_tx_window peer)) \<rparr>) ctx"
  have inv1: "transport_inv ctx1" unfolding ctx1_def by (rule window_update_inv [OF inv]) (simp_all add: window_inv_keeps)
  then have "window_inv (snd (xgl_window_advance_base_packet_number (tc_window ctx1)))"
    by (intro window_inv_keeps(3)) (simp add: transport_inv_def context_ok_def)
  then show ?thesis using inv1 by (simp add: advance_windows_def Let_def ctx1_def [symmetric] context_window_inv)
qed

lemma mark_range_inv: "transport_inv ctx \<Longrightarrow> transport_inv (mark_range i low high ctx)"
proof -
  have "transport_inv (foldl (\<lambda>ctx n. mark_windows i (word_of_nat n) ctx) ctx ns)" if "transport_inv ctx" for ctx ns
    using that by (induction ns arbitrary: ctx) (simp_all add: mark_windows_inv)
  then show "transport_inv ctx \<Longrightarrow> transport_inv (mark_range i low high ctx)" by (simp add: mark_range_def)
qed

lemma mark_ranges_inv: "transport_inv ctx \<Longrightarrow> transport_inv (mark_ranges_loop i k h rs ctx)"
  by (induction i k h rs ctx rule: mark_ranges_loop.induct) (simp_all add: Let_def mark_range_inv)

lemma ack_range_inv:
  assumes inv: "transport_inv ctx" and run: "transport_try_process_ack_range_ext ctx i src data n = (err, handled, ctx')"
  shows "transport_inv ctx'"
proof -
  have "transport_inv (queue_update i (\<lambda>_. snd (xgl_reliable_remove_ack_ranges (tp_reliable_queue (peer_at ctx i)) src l rs k)) ctx)" for l rs k
    by (rule queue_update_inv [OF inv]) (simp add: xgl_reliable_remove_ack_ranges_def remove_ack_ranges_inv split: option.split)
  then show ?thesis
    using run inv
    by (auto simp: transport_try_process_ack_range_ext_def case_prod_beta Let_def transport_mark_ack_range_windows_def
        deadline_inv advance_windows_inv mark_ranges_inv split: if_splits sum.splits)
qed

lemma length_mark_windows [simp]: "length (tc_peers (mark_windows i n ctx)) = length (tc_peers ctx)"
  by (simp add: mark_windows_def Let_def)

lemma sack_loop_inv:
  assumes "transport_inv ctx" "i < length (tc_peers ctx)" "sack_loop ctx w i src base bitmap now bs n = (err, n', ctx', w')"
  shows "transport_inv ctx'"
  using assms
proof (induction bs arbitrary: ctx w n)
  case (Cons b bs)
  let ?n = "base + word_of_nat b" and ?q = "tp_reliable_queue (peer_at ctx i)"
  show ?case
  proof (cases "xgl_reliable_find_packet_number ?q ?n src")
    case None
    then show ?thesis using Cons by (auto simp: Let_def split: if_splits)
  next
    case (Some a)
    have a: "a < next_addr ctx i"
      using found_address [OF transport_inv_queue [OF Cons.prems(1,2)] Some] by (simp add: next_addr_def)
    show ?thesis
    proof (cases "transport_sack_bit_is_set bitmap b")
      case True
      show ?thesis
        by (rule Cons.IH [OF mark_windows_inv [OF queue_remove_inv [OF Cons.prems(1)]]])
           (use Cons.prems(2,3) Some True in \<open>simp_all add: Let_def\<close>)
    next
      case False
      obtain e ctx1 w1 where r: "transport_retransmit_reliable_packet ctx w i a now = (e, ctx1, w1)" by (metis prod_cases3)
      note R = retransmit_inv [OF Cons.prems(1,2) a r]
      show ?thesis
        using Cons.IH [OF R(1), of w1 "n + 1"] Cons.prems(2,3) Some False r R by (auto simp: Let_def split: if_splits)
    qed
  qed
qed simp

lemma sack_value_inv:
  assumes inv: "transport_inv ctx" "i < length (tc_peers ctx)" and run: "transport_process_sack_value ctx w i src v n = (err, k, ctx', w')"
  shows "transport_inv ctx'"
proof (cases "xgl_wire_decode_sack_ext_value (Some v) n True 64")
  case (Inr x)
  obtain base bitmap where x: "x = (base, bitmap)" by (cases x)
  obtain now w1 where t: "w_time w = (now, w1)" by fastforce
  show ?thesis
  proof (cases "bitmap = []")
    case False
    show ?thesis
    proof (cases "filter (transport_sack_bit_is_set bitmap) [0..<length bitmap * 8]")
      case Nil
      show ?thesis
      proof (cases "xgl_reliable_find_packet_number (tp_reliable_queue (peer_at ctx i)) base src")
        case None
        then show ?thesis using run inv Inr x False Nil by (simp add: transport_process_sack_value_def)
      next
        case (Some a)
        have a: "a < next_addr ctx i" using found_address [OF transport_inv_queue [OF inv] Some] by (simp add: next_addr_def)
        obtain e ctx1 w2 where r: "transport_retransmit_reliable_packet ctx w1 i a now = (e, ctx1, w2)" by (metis prod_cases3)
        show ?thesis
          using run retransmit_inv(1) [OF inv a r] Inr x False Nil Some t r by (simp add: transport_process_sack_value_def)
      qed
    next
      case (Cons b bs)
      obtain e m ctx1 w2 where l: "sack_loop ctx w1 i src base bitmap now [0..<last (b # bs) + 1] 0 = (e, m, ctx1, w2)" by (metis prod_cases4)
      have "transport_inv ctx1" by (rule sack_loop_inv [OF inv l])
      then show ?thesis
        using run Inr x False Cons t l by (auto simp: transport_process_sack_value_def deadline_inv advance_windows_inv split: if_splits)
    qed
  qed (use run inv Inr x in \<open>simp add: transport_process_sack_value_def\<close>)
qed (use run inv in \<open>simp add: transport_process_sack_value_def\<close>)

lemma sack_ext_inv:
  assumes inv: "transport_inv ctx" "i < length (tc_peers ctx)" and run: "transport_try_process_sack_ext ctx w i src data n = (err, handled, ctx', w')"
  shows "transport_inv ctx'"
  using run inv sack_value_inv [OF inv]
  by (auto simp: transport_try_process_sack_ext_def split: if_splits sum.splits prod.splits)

lemma find_ack_bound: "transport_find_ack_peer ctx p = Some i \<Longrightarrow> i < length (tc_peers ctx)"
  by (auto simp: transport_find_ack_peer_def transport_find_peer_def transport_find_peer_scope_def find_Some_iff split: if_splits option.splits)

lemma length_advance_windows [simp]: "length (tc_peers (advance_windows i ctx)) = length (tc_peers ctx)"
  by (simp add: advance_windows_def Let_def)

lemma length_mark_ranges [simp]: "length (tc_peers (mark_ranges_loop i k h rs ctx)) = length (tc_peers ctx)"
proof (induction i k h rs ctx rule: mark_ranges_loop.induct)
  case (2 i k h r rs ctx)
  have "length (tc_peers (foldl (\<lambda>ctx n. mark_windows i (word_of_nat n) ctx) ctx ns)) = length (tc_peers ctx)" for ctx ns
    by (induction ns arbitrary: ctx) simp_all
  then show ?case using 2 by (simp add: Let_def mark_range_def)
qed simp

lemma ack_range_length:
  "transport_try_process_ack_range_ext ctx i src data n = (err, handled, ctx') \<Longrightarrow> length (tc_peers ctx') = length (tc_peers ctx)"
  by (auto simp: transport_try_process_ack_range_ext_def Let_def transport_mark_ack_range_windows_def split: if_splits sum.splits prod.splits)

lemma ack_packet_inv:
  assumes inv: "transport_inv ctx" and run: "transport_process_ack_packet ctx w p = (err, ctx', w')"
  shows "transport_inv ctx'"
proof (cases "transport_find_ack_peer ctx p")
  case (Some i)
  obtain e h ctx1 where a: "transport_try_process_ack_range_ext ctx i (pk_source_id p) (pk_extensions p) (pk_extensions_len p) = (e, h, ctx1)"
    by (metis prod_cases3)
  have inv1: "transport_inv ctx1" "i < length (tc_peers ctx1)"
    using ack_range_inv [OF inv a] ack_range_length [OF a] find_ack_bound [OF Some] by simp_all
  obtain e2 h2 ctx2 w2 where s: "transport_try_process_sack_ext ctx1 w i (pk_source_id p) (pk_extensions p) (pk_extensions_len p) = (e2, h2, ctx2, w2)"
    by (metis prod_cases4)
  have "ctx' = ctx \<or> ctx' = ctx1 \<or> ctx' = ctx2"
    using run Some a s unfolding transport_process_ack_packet_def by (auto split: if_splits)
  then show ?thesis using inv inv1(1) sack_ext_inv [OF inv1 s] by blast
qed (use run inv in \<open>auto simp: transport_process_ack_packet_def split: if_splits\<close>)

section \<open>Delivery and order\<close>

lemma deliver_ok:
  assumes ok: "context_ok ctx" and n: "n \<le> length d" and run: "transport_deliver_packet ctx w p (Some d) n = (err, ctx', w')"
  shows "context_ok ctx' \<and> tc_peers ctx' = tc_peers ctx"
proof (cases "if pk_fragment p \<noteq> 0 then tc_fragment_mgr ctx else None")
  case (Some m)
  have mgr: "fragment_inv (\<lambda>_ _ _. True) m" using ok Some by (auto simp: context_ok_def split: if_splits)
  show ?thesis
  proof (cases "transport_fragment_ext p")
    case (Inr x)
    obtain i off len where x: "x = (i, off, len)" by (cases x)
    obtain e complete m' as where r: "xgl_fragment_process_ext m (pk_source_id p) (pk_connection_id p) (pk_session_epoch p) (pk_data_type p) i off len
        (Some d) n 0 (fst (w_time w)) (w_allocs w) = (e, complete, m', as)" by (metis prod_cases4)
    have "fragment_inv (\<lambda>_ _ _. True) m'"
      using process_fragment_spec [OF mgr _ r] n by (auto simp: fragment_of_def)
    then have "context_ok (ctx \<lparr> tc_fragment_mgr := Some m' \<rparr>)" using ok by (simp add: context_ok_def)
    then show ?thesis
      using run Some Inr x r by (auto simp: transport_deliver_packet_def Let_def split: if_splits option.splits)
  qed (use run Some ok in \<open>auto simp: transport_deliver_packet_def Let_def split: if_splits\<close>)
next
  case None
  then show ?thesis using run ok by (auto simp: transport_deliver_packet_def Let_def split: if_splits)
qed

text \<open>All peers satisfy the invariant, peer \<open>i\<close> perhaps only the loose one.\<close>

definition inv_but :: "nat \<Rightarrow> xgl_transport_ctx \<Rightarrow> bool" where
  "inv_but i ctx \<longleftrightarrow> context_ok ctx \<and> i < length (tc_peers ctx) \<and> peer_loose (peer_at ctx i)
     \<and> (\<forall>j < length (tc_peers ctx). j \<noteq> i \<longrightarrow> peer_inv (peer_at ctx j))"

lemma inv_butD: "inv_but i ctx \<Longrightarrow> peer_inv (peer_at ctx i) \<Longrightarrow> transport_inv ctx"
  by (auto simp: inv_but_def transport_inv_def in_set_conv_nth)

lemma inv_but_update:
  "inv_but i ctx \<Longrightarrow> peer_loose (g (peer_at ctx i)) \<Longrightarrow> inv_but i (peer_update i g ctx)"
  by (auto simp: inv_but_def)

lemma last_number: "(k :: u32) = - 1 \<Longrightarrow> k \<le> n \<Longrightarrow> n = k"
  by (metis word_order.extremum_unique)

lemma ordered_after:
  assumes "rx_ordered k win bs" "k \<notin> rx_number ` set bs"
  shows "rx_ordered (k + 1) win bs"
proof (cases "k = - 1")
  case True
  have "bs = []" using assms last_number [OF True] by (cases bs) (auto simp: rx_ordered_def)
  then show ?thesis by (simp add: rx_ordered_def)
next
  case False
  then show ?thesis using assms by (intro rx_ordered_next) (simp_all add: next_number)
qed

lemma take_loose:
  assumes "peer_loose peer" "transport_take_rx_buffered peer (tp_rx_next_packet_number peer) = (r, peer')"
  shows "case r of None \<Rightarrow> peer' = peer \<and> tp_rx_next_packet_number peer \<notin> rx_number ` set (tp_rx_buffered peer)
     | Some b \<Rightarrow> peer_inv peer' \<and> rx_number b = tp_rx_next_packet_number peer \<and> tp_rx_next_packet_number peer' = tp_rx_next_packet_number peer
         \<and> rx_data_len b \<le> length (rx_data b)"
proof -
  let ?k = "tp_rx_next_packet_number peer"
  have ord: "rx_ordered ?k (peer_window peer) (tp_rx_buffered peer)" using assms(1) by (simp add: peer_loose_def rx_loose_def)
  note head = take_rx_head [OF ord]
  show ?thesis
  proof (cases "tp_rx_buffered peer")
    case Nil
    then show ?thesis using assms(2) head by auto
  next
    case (Cons b bs)
    show ?thesis
    proof (cases "rx_number b = ?k")
      case True
      have "?k \<notin> rx_number ` set bs" using ord True by (auto simp: Cons rx_ordered_def)
      then show ?thesis
        using assms head True ord pred_count [of "tp_rx_buffered_count peer" "length bs"]
        by (auto simp: Cons peer_inv_def peer_loose_def rx_loose_def rx_ordered_def split: if_splits)
    next
      case False
      then have "?k \<notin> rx_number ` set (tp_rx_buffered peer)" using ord by (auto simp: Cons rx_ordered_def)
      moreover have "r = None \<and> peer' = peer" using assms(2) head False by (simp add: Cons)
      ultimately show ?thesis by simp
    qed
  qed
qed

lemma drain_inv:
  assumes "inv_but i ctx" "transport_drain_rx_buffered ctx w i = (err, ctx', w')"
  shows "transport_inv ctx'"
  using assms
proof (induction ctx w i rule: transport_drain_rx_buffered.induct)
  case (1 ctx w i)
  obtain r peer' where t: "transport_take_rx_buffered (peer_at ctx i) (tp_rx_next_packet_number (peer_at ctx i)) = (r, peer')" by fastforce
  have loose: "peer_loose (peer_at ctx i)" "i < length (tc_peers ctx)" using "1.prems"(1) by (simp_all add: inv_but_def)
  note T = take_loose [OF loose(1) t]
  show ?case
  proof (cases r)
    case None
    then have "ctx' = ctx" using "1.prems"(2) t by (subst (asm) transport_drain_rx_buffered.simps) simp
    then show ?thesis using T None loose inv_butD [OF "1.prems"(1)] by (simp add: peer_inv_def)
  next
    case (Some b)
    define ctx1 where "ctx1 = peer_update i (\<lambda>_. peer') ctx"
    have P: "peer_inv peer'" "rx_number b = tp_rx_next_packet_number peer'" "rx_data_len b \<le> length (rx_data b)" using T Some by simp_all
    have but1: "inv_but i ctx1" unfolding ctx1_def using "1.prems"(1) P(1) by (intro inv_but_update) (simp_all add: peer_inv_def)
    have p1: "peer_at ctx1 i = peer'" using loose(2) by (simp add: ctx1_def)
    obtain e ctx2 w2 where d: "transport_deliver_packet ctx1 w (rx_packet b) (Some (rx_data b)) (rx_data_len b) = (e, ctx2, w2)" by (metis prod_cases3)
    have D: "context_ok ctx2" "tc_peers ctx2 = tc_peers ctx1"
      using deliver_ok [OF _ P(3) d] but1 by (simp_all add: inv_but_def)
    have but2: "inv_but i ctx2" using but1 D by (simp add: inv_but_def)
    have p2: "peer_at ctx2 i = peer'" using D(2) p1 by simp
    show ?thesis
    proof (cases "e = XGL_OK")
      case False
      then have "ctx' = ctx2"
        using "1.prems"(2) t Some loose(2) d unfolding ctx1_def
        by (subst (asm) transport_drain_rx_buffered.simps) (simp add: Let_def)
      then show ?thesis using inv_butD [OF but2] p2 P(1) by simp
    next
      case True
      define ctx3 where "ctx3 = peer_update i (\<lambda>peer. peer \<lparr> tp_rx_next_packet_number := rx_number b + 1 \<rparr>) ctx2"
      define w3 where "w3 = snd (transport_send_ack ctx2 w2 (rx_number b) (pk_source_id (rx_packet b)) (pk_session_id (rx_packet b))
          (pk_connection_id (rx_packet b)) (pk_session_epoch (rx_packet b)))"
      have run: "transport_drain_rx_buffered ctx3 w3 i = (err, ctx', w')"
        using "1.prems"(2) t Some loose(2) d True unfolding ctx1_def ctx3_def w3_def
        by (subst (asm) transport_drain_rx_buffered.simps) (simp add: Let_def)
      have "peer_loose (peer' \<lparr> tp_rx_next_packet_number := rx_number b + 1 \<rparr>)"
        using P(1,2) ordered_after [of "tp_rx_next_packet_number peer'" "peer_window peer'" "tp_rx_buffered peer'"]
        by (simp add: peer_inv_def peer_loose_def rx_loose_def)
      then have "inv_but i ctx3" unfolding ctx3_def using but2 p2 by (intro inv_but_update) simp_all
      then show ?thesis
        using "1.IH" [OF t [unfolded Some, symmetric] refl loose(2) ctx1_def refl d [symmetric] refl w3_def] True run
        by (simp add: ctx3_def)
    qed
  qed
qed

section \<open>Receiving\<close>

text \<open>The memory of a received packet is as long as the packet says.\<close>

definition packet_valid :: "xgl_packet \<Rightarrow> bool" where
  "packet_valid p \<longleftrightarrow> (\<forall>x d. pk_data p = Some x \<longrightarrow> pd_data x = Some d \<longrightarrow> pd_data_len x \<le> length d)"

lemma get_or_create_bound:
  assumes "transport_get_or_create_peer_internal ctx w k c e sc = (Some i, ctx', w')"
  shows "i < length (tc_peers ctx')"
  using assms
  by (cases rule: get_or_create_cases)
     (auto simp: transport_find_peer_def transport_find_peer_scope_def find_Some_iff split: if_splits)

lemma get_or_create_rx_bound: "transport_get_or_create_rx_peer ctx w p = (Some i, ctx', w') \<Longrightarrow> i < length (tc_peers ctx')"
  by (auto simp: transport_get_or_create_rx_peer_def transport_get_or_create_peer_scope_def transport_get_or_create_peer_def
      intro: get_or_create_bound split: if_splits)

lemma start_peer_inv:
  "peer_inv peer \<Longrightarrow> peer_inv (if tp_rx_has_packet_number_state peer then peer
     else peer \<lparr> tp_rx_next_packet_number := 0, tp_rx_has_packet_number_state := True \<rparr>)"
  by (auto simp: peer_inv_def peer_loose_def rx_loose_def rx_ordered_def)

lemma insert_peer_inv:
  assumes inv: "peer_inv peer" and copy: "rx_copy p b" and valid: "packet_valid p"
    and ins: "rx_inv (transport_insert_rx_buffered peer b n)"
      "set (tp_rx_buffered (transport_insert_rx_buffered peer b n)) = insert b (set (tp_rx_buffered peer))"
  shows "peer_inv (transport_insert_rx_buffered peer b n)"
proof -
  have b: "rx_data_len b \<le> length (rx_data b)"
    using copy valid by (auto simp: rx_copy_def packet_valid_def)
  have same: "tp_tx_window (transport_insert_rx_buffered peer b n) = tp_tx_window peer"
    "tp_reliable_queue (transport_insert_rx_buffered peer b n) = tp_reliable_queue peer"
    "tp_session_id (transport_insert_rx_buffered peer b n) = tp_session_id peer"
    by (simp_all add: transport_insert_rx_buffered_def Let_def split: option.split)
  show ?thesis
    using inv b ins by (auto simp: peer_inv_rx peer_loose_def same rx_inv_def rx_loose_def)
qed

lemma rx_order_inv:
  assumes inv: "transport_inv ctx" and i: "i < length (tc_peers ctx)" and valid: "packet_valid p"
    and run: "transport_process_reliable_rx_order ctx w p (Some i) = (err, r, ctx', w')"
  shows "transport_inv ctx'" "r = Some i" "length (tc_peers ctx') = length (tc_peers ctx)"
proof -
  define ctx1 where "ctx1 = peer_update i (\<lambda>peer. if tp_rx_has_packet_number_state peer then peer
      else peer \<lparr> tp_rx_next_packet_number := 0, tp_rx_has_packet_number_state := True \<rparr>) ctx"
  let ?k = "tp_rx_next_packet_number (peer_at ctx1 i)" and ?n = "pk_packet_number p"
  have inv1: "transport_inv ctx1" unfolding ctx1_def by (rule peer_update_inv [OF inv]) (rule start_peer_inv)
  have peer1: "peer_inv (peer_at ctx1 i)" "tp_rx_has_packet_number_state (peer_at ctx1 i)" "i < length (tc_peers ctx1)"
    using transport_inv_at [OF inv1, of i] i by (simp_all add: ctx1_def)
  obtain e ctx2 w2 where c: "transport_cache_out_of_order_packet ctx1 w i p ?n = (e, ctx2, w2)" by (metis prod_cases3)
  have win: "window_inv (tp_tx_window (peer_at ctx1 i))" using peer1(1) by (simp add: peer_inv_def peer_loose_def)
  have "transport_inv ctx2 \<and> length (tc_peers ctx2) = length (tc_peers ctx1)" if late: "?k < ?n"
    using peer1(1) [unfolded peer_inv_rx, THEN conjunct2] peer1(2,3) win late refl c
  proof (cases rule: cache_spec)
    case (cached b)
    have "peer_inv (transport_insert_rx_buffered (peer_at ctx1 i) b ?n)"
      by (rule insert_peer_inv [OF peer1(1) cached(4) valid cached(5,6)])
    then show ?thesis unfolding cached(3) by (auto intro!: peer_update_inv [OF inv1])
  qed (use inv1 in simp)
  moreover have "(?k < ?n \<and> (ctx' = ctx2 \<or> ctx' = tp_count count_rx_dropped ctx2) \<or> ctx' = ctx1) \<and> r = Some i"
    using run c unfolding transport_process_reliable_rx_order_def Let_def transport_receive_packet_number_def ctx1_def [symmetric] option.case prod.case
    by (auto split: if_splits)
  ultimately show "transport_inv ctx'" "r = Some i" "length (tc_peers ctx') = length (tc_peers ctx)"
    using inv1 by (auto simp: ctx1_def)
qed

lemma rx_order_inv_any:
  assumes inv: "transport_inv ctx" "packet_valid p" "\<And>i. peer = Some i \<Longrightarrow> i < length (tc_peers ctx)"
    and run: "transport_process_reliable_rx_order ctx w p peer = (err, r, ctx', w')"
  shows "transport_inv ctx'" "r = Some i \<Longrightarrow> i < length (tc_peers ctx')"
proof -
  have "transport_inv ctx' \<and> (\<forall>i. r = Some i \<longrightarrow> i < length (tc_peers ctx'))"
  proof (cases peer)
    case (Some i)
    then show ?thesis using rx_order_inv [OF inv(1) inv(3) [OF Some] inv(2) run [unfolded Some]] inv(3) [OF Some] by auto
  next
    case None
    obtain r1 ctx1 w1 where g: "transport_get_or_create_rx_peer ctx w p = (r1, ctx1, w1)" by (metis prod_cases3)
    note inv1 = get_or_create_rx_inv [OF inv(1) g]
    show ?thesis
    proof (cases r1)
      case (Some i)
      note bound = get_or_create_rx_bound [OF g [unfolded Some]]
      have "transport_process_reliable_rx_order ctx1 w1 p (Some i) = (err, r, ctx', w')"
        using run None g Some by (simp add: transport_process_reliable_rx_order_def)
      from rx_order_inv [OF inv1 bound inv(2) this] show ?thesis using bound by simp
    qed (use run None g inv1 in \<open>auto simp: transport_process_reliable_rx_order_def\<close>)
  qed
  then show "transport_inv ctx'" "r = Some i \<Longrightarrow> i < length (tc_peers ctx')" by simp_all
qed

lemma decompress_length: "n \<le> length d \<Longrightarrow> transport_decompress ctx p d n = (d', n') \<Longrightarrow> n' \<le> length d'"
  by (auto simp: transport_decompress_def split: if_splits option.splits prod.splits)

lemma in_turn_inv:
  assumes inv: "transport_inv ctx" and i: "i < length (tc_peers ctx)" "n = tp_rx_next_packet_number (peer_at ctx i)"
    and run: "transport_drain_rx_buffered (peer_update i (\<lambda>peer. peer \<lparr> tp_rx_next_packet_number := n + 1 \<rparr>) ctx) w i = (err, ctx', w')"
  shows "transport_inv ctx'"
proof (rule drain_inv [OF _ run])
  have peer: "peer_inv (peer_at ctx i)" by (rule transport_inv_at [OF inv i(1)])
  have "inv_but i ctx" using inv i(1) by (auto simp: inv_but_def transport_inv_def peer_inv_def)
  moreover have "peer_loose ((peer_at ctx i) \<lparr> tp_rx_next_packet_number := n + 1 \<rparr>)"
    using peer ordered_after [of n "peer_window (peer_at ctx i)" "tp_rx_buffered (peer_at ctx i)"] i(2)
    by (simp add: peer_inv_def peer_loose_def rx_loose_def)
  ultimately show "inv_but i (peer_update i (\<lambda>peer. peer \<lparr> tp_rx_next_packet_number := n + 1 \<rparr>) ctx)" by (rule inv_but_update)
qed

lemma receive_data_inv:
  assumes inv: "transport_inv ctx" "packet_valid p" "\<And>i. peer = Some i \<Longrightarrow> i < length (tc_peers ctx)" and n: "n \<le> length d"
    and run: "transport_receive_data ctx w p d n peer = (err, ctx', w')"
  shows "transport_inv ctx'"
proof -
  let ?rel = "pk_reliable p = XGL_RELIABILITY_ACK_ELICITING"
  obtain e r ctx1 w1 where o: "(if ?rel then transport_process_reliable_rx_order ctx w p peer else (XGL_OK, peer, ctx, w)) = (e, r, ctx1, w1)"
    by (metis prod_cases4)
  have I1: "transport_inv ctx1" "\<And>i. r = Some i \<Longrightarrow> i < length (tc_peers ctx1)"
    using o rx_order_inv_any [OF inv] inv by (auto split: if_splits)
  obtain d1 n1 where z: "transport_decompress ctx1 p d n = (d1, n1)" by fastforce
  obtain e2 ctx2 w2 where d: "transport_deliver_packet ctx1 w1 p (Some d1) n1 = (e2, ctx2, w2)" by (metis prod_cases3)
  have D: "context_ok ctx2" "tc_peers ctx2 = tc_peers ctx1"
    using deliver_ok [OF _ decompress_length [OF n z] d] I1(1) by (simp_all add: transport_inv_def)
  have inv2: "transport_inv ctx2" using I1(1) D by (simp add: transport_inv_def)
  note run' = run [unfolded transport_receive_data_def Let_def o prod.case z d]
  show ?thesis
  proof (cases "e = XGL_OK \<and> \<not> (?rel \<and> (case r of None \<Rightarrow> False | Some i \<Rightarrow> transport_receive_packet_number p \<noteq> tp_rx_next_packet_number (peer_at ctx1 i)))
      \<and> e2 = XGL_OK \<and> ?rel \<and> r \<noteq> None")
    case False
    then have "ctx' = ctx1 \<or> ctx' = ctx2" using run' by (auto split: if_splits option.splits)
    then show ?thesis using I1(1) inv2 by blast
  next
    case True
    then obtain i where i: "r = Some i" by blast
    then have turn: "pk_packet_number p = tp_rx_next_packet_number (peer_at ctx2 i)"
      using True D(2) by (simp add: transport_receive_packet_number_def)
    have "transport_drain_rx_buffered (peer_update i (\<lambda>peer. peer \<lparr> tp_rx_next_packet_number := pk_packet_number p + 1 \<rparr>) ctx2) w2 i = (err, ctx', w')"
      using run' True i by (auto simp: transport_receive_packet_number_def)
    then show ?thesis using in_turn_inv [OF inv2 _ turn] I1(2) [OF i] D(2) by simp
  qed
qed

lemma control_inv:
  assumes inv: "transport_inv ctx" and run: "transport_process_control_packet ctx w p = (err, ctx', w')"
  shows "transport_inv ctx'"
proof -
  obtain r ctx1 w1 where g: "transport_get_or_create_rx_peer ctx w p = (r, ctx1, w1)" by (metis prod_cases3)
  note inv1 = get_or_create_rx_inv [OF inv g]
  have "transport_inv (peer_update i (\<lambda>peer. peer \<lparr> tp_session_established := True, tp_last_active_ms := now \<rparr>) ctx1)" for i now
    by (rule peer_update_inv [OF inv1]) (simp add: peer_inv_def peer_loose_def rx_loose_def)
  then show ?thesis
    using run g inv inv1 reset_peer_inv [OF inv1]
    by (auto simp: transport_process_control_packet_def Let_def split: if_splits option.splits prod.splits)
qed

lemma prepare_rx_inv:
  assumes inv: "transport_inv ctx" and run: "transport_prepare_rx_peer ctx w p = (err, r, ctx', w')"
  shows "transport_inv ctx' \<and> (\<forall>i. r = Some i \<longrightarrow> i < length (tc_peers ctx'))"
proof (cases "pk_session_id p = 0 \<or> transport_find_rx_peer ctx p \<noteq> None")
  case True
  then show ?thesis using run inv find_rx_peer_bound [of ctx p] by (auto simp: transport_prepare_rx_peer_def split: if_splits)
next
  case False
  obtain r1 ctx1 w1 where g: "transport_get_or_create_rx_peer ctx w p = (r1, ctx1, w1)" by (metis prod_cases3)
  note inv1 = get_or_create_rx_inv [OF inv g]
  show ?thesis
  proof (cases r1)
    case (Some i)
    obtain ctx2 w2 where s: "transport_reset_peer_state ctx1 w1 i (pk_session_id p) (pk_connection_id p) (pk_session_epoch p) = (ctx2, w2)" by fastforce
    have "length (tc_peers ctx2) = length (tc_peers ctx1)"
      using s by (auto simp: transport_reset_peer_state_def Let_def split: prod.splits)
    then show ?thesis
      using run False g Some s reset_peer_inv [OF inv1 s] get_or_create_rx_bound [OF g [unfolded Some]] by (auto simp: transport_prepare_rx_peer_def)
  qed (use run False g inv1 in \<open>auto simp: transport_prepare_rx_peer_def\<close>)
qed

lemma receive_inv:
  assumes inv: "transport_inv ctx" "packet_valid p" and run: "xgl_transport_receive ctx w (Some p) = (err, ctx', w')"
  shows "transport_inv ctx'"
proof (cases "pk_packet_type p = XGL_PACKET_TYPE_CONTROL \<or> pk_packet_type p = XGL_PACKET_TYPE_ACK \<or> pk_reliable p = XGL_RELIABILITY_ACK_ONLY")
  case True
  then show ?thesis
    using run control_inv [OF inv(1)] ack_packet_inv [OF inv(1)] by (auto simp: xgl_transport_receive_def split: if_splits)
next
  case False
  obtain data n where d: "(case pk_data p of None \<Rightarrow> (None, 0) | Some data \<Rightarrow> (pd_data data, pd_data_len data)) = (data, n)" by fastforce
  obtain e r ctx1 w1 where pr: "transport_prepare_rx_peer ctx w p = (e, r, ctx1, w1)" by (metis prod_cases4)
  note P = prepare_rx_inv [OF inv(1) pr]
  note run' = run [unfolded xgl_transport_receive_def option.case d]
  show ?thesis
  proof (cases data)
    case None
    then show ?thesis using run' False inv(1) by auto
  next
    case (Some b)
    have n: "n \<le> length b" using d Some inv(2) by (auto simp: packet_valid_def split: option.splits)
    show ?thesis
    proof (cases "e = XGL_OK")
      case ok: True
      show ?thesis
      proof (cases r)
        case None
        then show ?thesis
          using run' False Some pr ok receive_data_inv [of ctx1 p None n b w1] P inv(2) n by simp
      next
        case (Some i)
        obtain now w2 where t: "w_time w1 = (now, w2)" by fastforce
        define ctx2 where "ctx2 = peer_update i (\<lambda>peer. peer \<lparr> tp_last_active_ms := now \<rparr>) ctx1"
        have "transport_inv ctx2" unfolding ctx2_def using P by (intro peer_update_inv) simp_all
        moreover have "transport_receive_data ctx2 w2 p b n (Some i) = (err, ctx', w')"
          using run' False \<open>data = Some b\<close> pr ok Some t by (auto simp: ctx2_def)
        moreover have "i < length (tc_peers ctx2)" using P Some by (simp add: ctx2_def)
        ultimately show ?thesis using receive_data_inv [OF _ inv(2) _ n] by blast
      qed
    qed (use run' False Some pr P in auto)
  qed
qed

section \<open>Sending\<close>

lemma queue_tx_inv:
  assumes inv: "transport_inv ctx" and ok: "tx_peer_ok ctx tx_data peer"
    and run: "transport_queue_reliable_tx ctx w peer tx_data d n pn fragment e en = (err, ctx', w', rel)"
  shows "transport_inv ctx' \<and> length (tc_peers ctx') = length (tc_peers ctx)
    \<and> (\<forall>i a. peer = Some i \<longrightarrow> rel = Some a \<longrightarrow> a < next_addr ctx' i)"
proof (cases peer)
  case None
  then show ?thesis using run ok inv by (simp add: transport_queue_reliable_tx_def tx_peer_ok_def)
next
  case (Some i)
  have i: "i < length (tc_peers ctx)" "td_reliable tx_data" using ok Some by (simp_all add: tx_peer_ok_def)
  obtain e1 q as where add: "xgl_reliable_add_packet_number (tp_reliable_queue (peer_at ctx i)) d n (tc_local_id ctx)
      (td_target_id tx_data) pn (td_data_type tx_data) (td_priority tx_data) (transport_send_timeout_ms ctx peer tx_data) None (w_allocs w) = (e1, q, as)"
    by (metis prod_cases3)
  have q: "rq_inv q" using add_packet_spec [OF transport_inv_queue [OF inv i(1)] add] by simp
  define ctx1 where "ctx1 = queue_update i (\<lambda>_. q) ctx"
  have inv1: "transport_inv ctx1" "next_addr ctx1 i = rq_next_addr q" "length (tc_peers ctx1) = length (tc_peers ctx)"
    using queue_update_inv [OF inv, of i "\<lambda>_. q"] q i(1) by (simp_all add: ctx1_def next_addr_def)
  note run' = run [unfolded transport_queue_reliable_tx_def Some option.case add [unfolded Some] prod.case Let_def]
  show ?thesis
  proof (cases "e1 = XGL_OK \<and> xgl_reliable_find_packet_number q pn (td_target_id tx_data) \<noteq> None")
    case False
    then have "ctx' = ctx1 \<and> rel = None" using run' i(2) by (auto simp: ctx1_def split: if_splits option.splits)
    then show ?thesis using inv1 by simp
  next
    case True
    then obtain a where a: "xgl_reliable_find_packet_number q pn (td_target_id tx_data) = Some a" by blast
    note addr = found_address [OF q a]
    have store: "rq_inv (set_packet_at a p q) \<and> rq_next_addr (set_packet_at a p q) = rq_next_addr q" if "packet_bucket p = packet_bucket (packet_at q a)" for p
      using set_packet_inv [OF q addr that] by (simp add: set_packet_at_def)
    have done_inv: "transport_inv (queue_update i (\<lambda>_. q') ctx1) \<and> next_addr (queue_update i (\<lambda>_. q') ctx1) i = rq_next_addr q'" if "rq_inv q'" for q'
      using queue_update_inv [OF inv1(1), of i "\<lambda>_. q'"] that i(1) inv1(3) by (simp add: next_addr_def)
    define rp where "rp = packet_at q a \<lparr> rp_session_id := tp_session_id (peer_at ctx1 i), rp_connection_id := td_connection_id tx_data,
        rp_session_epoch := td_session_epoch tx_data, rp_packet_type := XGL_PACKET_TYPE_DATA, rp_fragment := fragment \<rparr>"
    show ?thesis
    proof (cases fragment)
      case False
      have "ctx' = queue_update i (set_packet_at a rp) ctx1 \<and> rel = Some a"
        using run' i(2) True a False by (auto simp: rp_def ctx1_def [symmetric])
      moreover have "queue_update i (set_packet_at a rp) ctx1 = queue_update i (\<lambda>_. set_packet_at a rp q) ctx1"
        using i(1) by (simp add: queue_update_def peer_update_def ctx1_def)
      ultimately show ?thesis
        using store [of rp] done_inv [of "set_packet_at a rp q"] addr inv1(3) Some by (simp add: rp_def packet_bucket_def)
    next
      case frag: True
      define q2 where "q2 = set_packet_at a (rp \<lparr> rp_flags := XGL_WIRE_FLAG_FRAGMENTED OR XGL_WIRE_FLAG_HAS_EXTENSIONS \<rparr>) q"
      have q2: "rq_inv q2" "rq_next_addr q2 = rq_next_addr q" using store by (simp_all add: q2_def rp_def packet_bucket_def)
      obtain e3 q3 as3 where s: "xgl_reliable_set_packet_extensions q2 (Some a) e en as = (e3, q3, as3)" by (metis prod_cases3)
      have "\<exists>p. rq_heap q2 a = Some p" by (simp add: q2_def set_packet_at_def)
      then have q3: "rq_inv q3" using set_extensions_inv [OF q2(1), of a _ e en as] s by auto
      have n3: "rq_next_addr q3 = rq_next_addr q"
        using s q2(2) by (auto simp: xgl_reliable_set_packet_extensions_def Let_def split: if_splits prod.splits bool.splits)
      have "(ctx' = queue_update i (\<lambda>_. snd (xgl_reliable_remove_packet_number q3 pn (td_target_id tx_data))) ctx1 \<and> rel = None)
          \<or> (ctx' = queue_update i (\<lambda>_. q3) ctx1 \<and> rel = Some a)"
        using run' i(2) True a frag s by (auto simp: rp_def q2_def ctx1_def [symmetric] split: if_splits)
      then show ?thesis
        using done_inv [OF q3] done_inv [OF remove_packet_inv [OF q3]] addr n3 inv1(3) Some by auto
    qed
  qed
qed

lemma commit_inv: "transport_inv ctx \<Longrightarrow> transport_inv (transport_commit_packet_number ctx i)"
proof -
  assume inv: "transport_inv ctx"
  define ctx1 where "ctx1 = peer_update i (\<lambda>peer. peer \<lparr> tp_tx_window := xgl_window_advance_next_packet_number (tp_tx_window peer) \<rparr>) ctx"
  have inv1: "transport_inv ctx1" unfolding ctx1_def by (rule window_update_inv [OF inv]) (simp_all add: window_inv_keeps)
  then have "window_inv (xgl_window_advance_next_packet_number (tc_window ctx1))"
    by (intro window_inv_keeps(1)) (simp add: transport_inv_def context_ok_def)
  then show ?thesis using inv1 by (simp add: transport_commit_packet_number_def Let_def ctx1_def [symmetric] context_window_inv)
qed

lemma commit_same:
  "length (tc_peers (transport_commit_packet_number ctx i)) = length (tc_peers ctx)"
  "i < length (tc_peers ctx) \<Longrightarrow> tp_reliable_queue (peer_at (transport_commit_packet_number ctx i) i) = tp_reliable_queue (peer_at ctx i)"
  by (simp_all add: transport_commit_packet_number_def Let_def)

lemma packet_view_inv:
  assumes inv: "transport_inv ctx" and ok: "tx_peer_ok ctx tx_data peer" "\<And>i a. peer = Some i \<Longrightarrow> rel = Some a \<Longrightarrow> a < next_addr ctx i"
    and run: "transport_send_packet_view ctx w peer tx_data d n pn fragment e en rel = (err, ctx', w')"
  shows "transport_inv ctx'"
proof -
  obtain err1 phy w1 where s: "xgl_layer_send ctx w (transport_packet_view ctx peer tx_data d n pn fragment e en) = (err1, phy, w1)"
    by (metis prod_cases3)
  note run' = run [unfolded transport_send_packet_view_def s prod.case Let_def]
  show ?thesis
  proof (cases peer)
    case None
    then show ?thesis using run' inv ok(1) by (auto simp: tx_peer_ok_def split: if_splits)
  next
    case (Some i)
    have i: "i < length (tc_peers ctx)" "td_reliable tx_data" using ok(1) Some by (simp_all add: tx_peer_ok_def)
    define ctx1 where "ctx1 = transport_commit_packet_number ctx i"
    have inv1: "transport_inv ctx1" unfolding ctx1_def by (rule commit_inv [OF inv])
    show ?thesis
    proof (cases "err1 = XGL_OK \<and> rel \<noteq> None")
      case False
      then have "ctx' = ctx1 \<or> ctx' = queue_update i (\<lambda>q. snd (xgl_reliable_remove_packet_number q pn (td_target_id tx_data)))
            (transport_count_send_error ctx)"
        using run' Some i(2) by (auto simp: ctx1_def split: if_splits)
      then show ?thesis using inv1 queue_remove_inv [of "transport_count_send_error ctx"] inv by auto
    next
      case True
      then obtain a where a: "rel = Some a" by blast
      obtain now w2 where t: "w_time w1 = (now, w2)" by fastforce
      define stamp where "stamp = (\<lambda>q. let rel = packet_at q a \<lparr> rp_send_timestamp := now \<rparr> in set_packet_at a (if fragment then rel else rel \<lparr> rp_phy := phy \<rparr>) q)"
      have "a < rq_next_addr (tp_reliable_queue (peer_at ctx1 i))"
        using ok(2) [OF Some a] commit_same(2) [OF i(1)] by (simp add: next_addr_def ctx1_def)
      then have "transport_inv (queue_update i stamp ctx1)"
        by (intro queue_update_inv [OF inv1]) (auto simp: stamp_def Let_def packet_bucket_def intro!: set_packet_inv)
      moreover have "ctx' = peer_update i transport_update_peer_deadline (queue_update i stamp ctx1)"
        using run' Some i(2) True a t by (auto simp: ctx1_def stamp_def Let_def)
      ultimately show ?thesis using deadline_inv by simp
    qed
  qed
qed

lemma fragments_inv:
  assumes "transport_inv ctx" "tx_peer_ok ctx tx_data peer" "tc_lower_layer ctx"
    and "send_fragments_loop ctx w peer tx_data n message_id ks = (err, ctx', w')"
  shows "transport_inv ctx'"
  using assms
proof (induction ks arbitrary: ctx w)
  case (Cons k ks)
  let ?d = "map_option (drop (k * n)) (td_data tx_data)" and ?e = "exts_image (fragment_exts message_id (k * n) (td_data_len tx_data))"
  let ?len = "if td_data_len tx_data - k * n < n then td_data_len tx_data - k * n else n"
  note loop = Cons.prems(4) [unfolded send_fragments_loop.simps Let_def tx_number_0 [OF Cons.prems(2)] encode_fragment_ext sum.case prod.case]
  obtain e1 ctx1 w1 rel where q: "transport_queue_reliable_tx ctx w peer tx_data ?d ?len (tx_number ctx peer 0) True (Some ?e) 14 = (e1, ctx1, w1, rel)"
    by (metis prod_cases4)
  note I1 = queue_tx_inv [OF Cons.prems(1,2) q] and Q = queue_reliable_tx [OF q]
  have ok1: "tx_peer_ok ctx1 tx_data peer" "tc_lower_layer ctx1"
    using tx_from_peer_ok [OF Q(1) Cons.prems(2)] Q(1) Cons.prems(3) by (simp_all add: tx_from_def)
  obtain e2 ctx2 w2 where v: "transport_send_packet_view ctx1 w1 peer tx_data ?d ?len (tx_number ctx peer 0) True (Some ?e) 14 rel = (e2, ctx2, w2)"
    by (metis prod_cases3)
  have inv2: "transport_inv ctx2" using packet_view_inv [OF _ ok1(1) _ v] I1 by blast
  note V = send_packet_view(1) [OF v ok1]
  have ok2: "tx_peer_ok ctx2 tx_data peer" "tc_lower_layer ctx2"
    using tx_from_peer_ok [OF V ok1(1)] V ok1(2) by (simp_all add: tx_from_def)
  have "ctx' = ctx \<or> ctx' = ctx1 \<or> ctx' = ctx2 \<or> send_fragments_loop ctx2 w2 peer tx_data n message_id ks = (err, ctx', w')"
    using loop q v by (auto split: if_splits)
  then show ?case using Cons.prems(1) I1 inv2 Cons.IH [OF inv2 ok2] by blast
qed simp

lemma send_planned_inv:
  assumes inv: "transport_inv ctx" and ok: "tx_peer_ok ctx tx_data peer" "tc_lower_layer ctx"
    and run: "transport_send_fragmented ctx w peer tx_data plan = (err, ctx', w')"
  shows "transport_inv ctx'"
proof (cases "tc_fragment_mgr ctx")
  case (Some m)
  define c where "c = ctx \<lparr> tc_fragment_mgr := Some (m \<lparr> fm_next_message_id := fm_next_message_id m + 1 \<rparr>) \<rparr>"
  have "fragment_inv (\<lambda>_ _ _. True) (m \<lparr> fm_next_message_id := x \<rparr>)" if "fragment_inv (\<lambda>_ _ _. True) m" for x
    using that by (auto simp: fragment_inv_def)
  then have "transport_inv c" using inv Some by (simp add: transport_inv_def context_ok_def c_def)
  moreover have "tx_peer_ok c tx_data peer" "tc_lower_layer c" using ok by (auto simp: c_def tx_peer_ok_def split: option.splits)
  ultimately show ?thesis using fragments_inv run Some by (auto simp: transport_send_fragmented_def Let_def c_def)
qed (use inv run in \<open>auto simp: transport_send_fragmented_def\<close>)

lemma prepare_send_inv:
  assumes inv: "transport_inv ctx" and run: "transport_prepare_reliable_send ctx w tx_data = (err, peer, ctx', w')"
  shows "transport_inv ctx'"
proof -
  obtain r ctx1 w1 where sel: "transport_select_tx_peer ctx w tx_data = (r, ctx1, w1)" by (metis prod_cases3)
  have inv1: "transport_inv ctx1"
    using sel get_or_create_inv [OF inv]
    by (auto simp: transport_select_tx_peer_def transport_get_or_create_peer_scope_def transport_get_or_create_peer_def split: if_splits)
  have "transport_inv (peer_update i (\<lambda>peer. peer \<lparr> tp_hello_sent := True \<rparr>) ctx1)" for i by (rule peer_update_inv [OF inv1]) simp
  then show ?thesis
    using run sel inv inv1 by (auto simp: transport_prepare_reliable_send_def Let_def split: if_splits option.splits prod.splits)
qed

lemma send_inv:
  assumes inv: "transport_inv ctx" and run: "xgl_transport_send ctx w (Some tx_data) = (err, ctx', w')"
  shows "transport_inv ctx'"
proof (cases "td_data tx_data = None \<or> td_data_len tx_data = 0 \<or> \<not> tc_lower_layer ctx")
  case True
  then show ?thesis using run inv by (cases "td_data tx_data") (auto simp: xgl_transport_send_def split: if_splits)
next
  case False
  then obtain d where d: "td_data tx_data = Some d" "td_data_len tx_data \<noteq> 0" "tc_lower_layer ctx" by auto
  obtain e1 peer ctx1 w1 where prep: "transport_prepare_reliable_send ctx w tx_data = (e1, peer, ctx1, w1)" by (metis prod_cases4)
  note inv1 = prepare_send_inv [OF inv prep]
  note run' = run [unfolded xgl_transport_send_def option.case d(1) prep prod.case Let_def]
  show ?thesis
  proof (cases "e1 = XGL_OK \<and> (\<exists>plan. transport_build_send_plan ctx1 tx_data = Inr plan)")
    case False
    then have "ctx' = ctx1 \<or> ctx' = transport_count_send_error ctx1" using run' d(2,3) by (auto split: if_splits sum.splits)
    then show ?thesis using inv1 by auto
  next
    case True
    then obtain plan where plan: "transport_build_send_plan ctx1 tx_data = Inr plan" and e1: "e1 = XGL_OK" by blast
    have ok1: "tx_peer_ok ctx1 tx_data peer" "tc_lower_layer ctx1" using prepare_send [OF prep [unfolded e1] d(3)] by metis+
    obtain z zn where z: "transport_compress ctx1 tx_data d = (z, zn)" by fastforce
    define pn where "pn = (case (if td_reliable tx_data then peer else None) of None \<Rightarrow> 0
      | Some i \<Rightarrow> xgl_window_get_next_packet_number (Some (tp_tx_window (peer_at ctx1 i))))"
    define sent where "sent = (if sp_needs_fragmentation plan then transport_send_fragmented ctx1 w1 peer tx_data plan
        else (case transport_queue_reliable_tx ctx1 w1 peer tx_data (Some z) zn pn False None 0 of
           (err, ctx, w, rel_packet) \<Rightarrow> if err \<noteq> XGL_OK then (err, ctx, w)
             else transport_send_packet_view ctx w peer tx_data (Some z) zn pn False None 0 rel_packet))"
    obtain e2 ctx2 w2 where s: "sent = (e2, ctx2, w2)" by (metis prod_cases3)
    have inv2: "transport_inv ctx2"
    proof (cases "sp_needs_fragmentation plan")
      case True
      then show ?thesis using s send_planned_inv [OF inv1 ok1] by (simp add: sent_def)
    next
      case False
      obtain e3 ctx3 w3 rel where q: "transport_queue_reliable_tx ctx1 w1 peer tx_data (Some z) zn pn False None 0 = (e3, ctx3, w3, rel)" by (metis prod_cases4)
      note I3 = queue_tx_inv [OF inv1 ok1(1) q]
      have ok3: "tx_peer_ok ctx3 tx_data peer" by (rule tx_from_peer_ok [OF queue_reliable_tx(1) [OF q] ok1(1)])
      show ?thesis
      proof (cases "e3 = XGL_OK")
        case True
        then have "transport_send_packet_view ctx3 w3 peer tx_data (Some z) zn pn False None 0 rel = (e2, ctx2, w2)"
          using s False q by (simp add: sent_def)
        then show ?thesis using I3 packet_view_inv [OF _ ok3] by blast
      qed (use s False q I3 in \<open>simp add: sent_def\<close>)
    qed
    have "transport_inv (peer_update i (\<lambda>peer. peer \<lparr> tp_last_active_ms := now \<rparr>) (tp_count f ctx2))" for i now f
      by (rule peer_update_inv) (simp_all add: inv2)
    then show ?thesis
      using run' d(2,3) e1 plan inv2 s
      unfolding plan sum.case z prod.case pn_def [symmetric] sent_def [symmetric] s
      by (auto split: if_splits option.splits prod.splits)
  qed
qed

section \<open>Properties\<close>

text \<open>
  The operations of the layer as events, each with the world it meets: a packet from the network layer with its payload, the
  periodic run, a message of the application. What an event answers is its error code and its calls.
\<close>

datatype transport_event =
    Receive xgl_packet bytes world
  | Run u32 world
  | Send xgl_tx_data world

definition with_payload :: "xgl_packet \<Rightarrow> bytes \<Rightarrow> xgl_packet" where
  "with_payload p d = p \<lparr> pk_data := Some \<lparr> pd_data = Some d, pd_data_len = length d \<rparr> \<rparr>"

definition answer :: "xgl_error \<times> xgl_transport_ctx \<times> world \<Rightarrow> (xgl_error \<times> transport_output list) \<times> xgl_transport_ctx" where
  "answer = (\<lambda>(err, ctx, w). ((err, w_log w), ctx))"

primrec transport_step :: "xgl_transport_ctx \<Rightarrow> transport_event \<Rightarrow> (xgl_error \<times> transport_output list) \<times> xgl_transport_ctx" where
  "transport_step ctx (Receive p d w) = answer (xgl_transport_receive ctx w (Some (with_payload p d)))"
| "transport_step ctx (Run now w) = answer (xgl_transport_run ctx w now)"
| "transport_step ctx (Send tx_data w) = answer (xgl_transport_send ctx w (Some tx_data))"

lemma transport_step_inv: "transport_inv ctx \<Longrightarrow> transport_inv (snd (transport_step ctx ev))"
proof (cases ev)
  case (Receive p d w)
  assume "transport_inv ctx"
  moreover have "packet_valid (with_payload p d)" by (simp add: packet_valid_def with_payload_def)
  ultimately show ?thesis using receive_inv by (cases "xgl_transport_receive ctx w (Some (with_payload p d))") (auto simp: Receive answer_def)
next
  case (Run now w)
  assume "transport_inv ctx"
  then show ?thesis using transport_run_inv [of ctx w now] by (simp add: Run answer_def case_prod_beta)
next
  case (Send tx_data w)
  assume "transport_inv ctx"
  then show ?thesis using send_inv by (cases "xgl_transport_send ctx w (Some tx_data)") (auto simp: Send answer_def)
qed

interpretation transport: invariant_machine transport_step transport_inv
  by unfold_locales (rule transport_step_inv)

lemma transport_init_inv:
  assumes "xgl_transport_init (Some c) w = (Inr ctx, w')"
  shows "transport_inv ctx"
  using transport_init_facts(1,3) [OF assms] transport_init_facts(4) [OF assms]
  by (auto simp: transport_inv_def context_ok_def split: option.split)

lemma peer_buffer_bound: "peer_inv peer \<Longrightarrow> length (tp_rx_buffered peer) < unat (sw_window_size (tp_tx_window peer))"
  using rx_ordered_length [of "tp_rx_next_packet_number peer" "peer_window peer" "tp_rx_buffered peer"]
  by (auto simp: peer_inv_def peer_loose_def rx_loose_def window_inv_def split: option.splits)

text \<open>
  C5: the state of the transport layer is well formed at all times. Started by \<^verbatim>\<open>xgl_transport_init\<close>, after any sequence of received packets
  (of any kind and content), messages sent and periodic runs, with any answers of allocator, clock and network layer:
  for every peer the send window has between 1 and 128 entries and a bitmap of that size, list, index and store of the retransmission queue agree,
  the buffer of early packets is strictly sorted, lies ahead of the next expected number within the window, has fewer packets than the
  window and its counter is exact, and the session number fits six bits; the reassembly manager keeps its own invariant.
\<close>

theorem transport_state_well_formed:
  assumes init: "xgl_transport_init (Some c) w = (Inr ctx, w')" and run: "transport.run ctx evs = (outs, ctx')"
  shows "(\<forall>peer \<in> set (tc_peers ctx'). window_inv (tp_tx_window peer) \<and> rq_inv (tp_reliable_queue peer)
        \<and> sorted_wrt (<) (map rx_number (tp_rx_buffered peer))
        \<and> (\<forall>b \<in> set (tp_rx_buffered peer). tp_rx_next_packet_number peer < rx_number b)
        \<and> unat (tp_rx_buffered_count peer) = length (tp_rx_buffered peer)
        \<and> length (tp_rx_buffered peer) < unat (sw_window_size (tp_tx_window peer)) \<and> tp_session_id peer \<le> XGL_SESSION_ID_MASK)
    \<and> window_inv (tc_window ctx') \<and> (\<forall>m. tc_fragment_mgr ctx' = Some m \<longrightarrow> fragment_inv (\<lambda>_ _ _. True) m)"
proof -
  have inv: "transport_inv ctx'" using transport.run_inv [OF transport_init_inv [OF init], of evs] run by simp
  have "tp_rx_next_packet_number peer < rx_number b" if "peer_inv peer" "b \<in> set (tp_rx_buffered peer)" for peer b
  proof -
    have "tp_rx_next_packet_number peer \<le> rx_number b" "tp_rx_next_packet_number peer \<noteq> rx_number b"
      using that by (auto simp: peer_inv_def peer_loose_def rx_loose_def rx_ordered_def)
    then show ?thesis by simp
  qed
  then have "window_inv (tp_tx_window peer) \<and> rq_inv (tp_reliable_queue peer) \<and> sorted_wrt (<) (map rx_number (tp_rx_buffered peer))
      \<and> (\<forall>b \<in> set (tp_rx_buffered peer). tp_rx_next_packet_number peer < rx_number b)
      \<and> unat (tp_rx_buffered_count peer) = length (tp_rx_buffered peer)
      \<and> length (tp_rx_buffered peer) < unat (sw_window_size (tp_tx_window peer)) \<and> tp_session_id peer \<le> 63" if "peer_inv peer" for peer
    using that peer_buffer_bound [OF that] by (simp add: peer_inv_def peer_loose_def rx_loose_def rx_ordered_def)
  then show ?thesis using inv by (auto simp: transport_inv_def context_ok_def split: option.splits)
qed

theorem transport_state_well_formed_witness:
  "\<exists>outs ctx'. transport.run sample_transport [Receive (stream_packet 2) [7] empty_world, Send (short_message 10) empty_world, Run 5000 empty_world] =
     (outs, ctx') \<and> map (\<lambda>peer. length (tp_rx_buffered peer)) (tc_peers ctx') = [0, 1] \<and> (\<forall>peer \<in> set (tc_peers ctx'). rq_inv (tp_reliable_queue peer))"
proof -
  let ?evs = "[Receive (stream_packet 2) [7] empty_world, Send (short_message 10) empty_world, Run 5000 empty_world]"
  have init: "xgl_transport_init (Some sample_config) empty_world = (Inr sample_transport, snd (xgl_transport_init (Some sample_config) empty_world))"
    using sample_transport_init by (metis prod.collapse)
  obtain outs ctx' where run: "transport.run sample_transport ?evs = (outs, ctx')" by (rule prod.exhaust)
  have "map (\<lambda>peer. length (tp_rx_buffered peer)) (tc_peers (snd (transport.run sample_transport ?evs))) = [0, 1]"
    unfolding transport.run_def by code_simp
  then show ?thesis using transport_state_well_formed [OF init run] run by auto
qed

end
