(* ===== verification/Xgl_List.thy ===== *)
theory Xgl_List
  imports Xgl_Prelude
begin

text \<open>
  The intrusive doubly linked list of \<^verbatim>\<open>src/core/xgl_list.c\<close> (types and iteration macros in
  \<^verbatim>\<open>include/xgl/internal/xgl_list.h\<close>). The nodes live in a store: an address (a natural) has a node with
  its two link fields, NULL is \<open>None\<close>; every assignment through a pointer is an update of the store. The
  list header counts its nodes in a \<^verbatim>\<open>size_t\<close> of 64 bits that wraps like in C.

  \<open>rep xs\<close> says that the links of a list header are those of the address list \<open>xs\<close>; every operation is shown to be
  the corresponding operation on address lists, as long as it is used as intended (a node is inserted once, a
  position or a node to remove is in the list), and to leave all nodes outside the list alone.
\<close>

section \<open>Nodes, lists and operations\<close>

type_synonym node_ptr = "nat option"

record xgl_list_node =
  ln_next :: node_ptr
  ln_prev :: node_ptr

record xgl_list =
  li_head :: node_ptr
  li_tail :: node_ptr
  li_count :: u64

type_synonym node_store = "nat \<Rightarrow> xgl_list_node"

definition set_next :: "nat \<Rightarrow> node_ptr \<Rightarrow> node_store \<Rightarrow> node_store" where
  "set_next a p h = h(a := h a \<lparr> ln_next := p \<rparr>)"

definition set_prev :: "nat \<Rightarrow> node_ptr \<Rightarrow> node_store \<Rightarrow> node_store" where
  "set_prev a p h = h(a := h a \<lparr> ln_prev := p \<rparr>)"

definition xgl_list_init :: xgl_list where
  "xgl_list_init = \<lparr> li_head = None, li_tail = None, li_count = 0 \<rparr>"

definition xgl_list_node_init :: "node_store \<Rightarrow> node_ptr \<Rightarrow> node_store" where
  "xgl_list_node_init h node = (case node of None \<Rightarrow> h | Some n \<Rightarrow> set_prev n None (set_next n None h))"

definition xgl_list_is_empty :: "xgl_list \<Rightarrow> bool" where
  "xgl_list_is_empty l \<longleftrightarrow> li_head l = None"

definition xgl_list_count :: "xgl_list \<Rightarrow> u64" where
  "xgl_list_count l = li_count l"

definition xgl_list_insert_head :: "xgl_list \<Rightarrow> node_store \<Rightarrow> node_ptr \<Rightarrow> xgl_list \<times> node_store" where
  "xgl_list_insert_head l h node =
     (case node of
        None \<Rightarrow> (l, h)
      | Some n \<Rightarrow>
          let h = set_next n (li_head l) (set_prev n None h);
              (l, h) = (case li_head l of
                          Some f \<Rightarrow> (l, set_prev f (Some n) h)
                        | None \<Rightarrow> (l \<lparr> li_tail := Some n \<rparr>, h))
          in (l \<lparr> li_head := Some n, li_count := li_count l + 1 \<rparr>, h))"

definition xgl_list_insert_tail :: "xgl_list \<Rightarrow> node_store \<Rightarrow> node_ptr \<Rightarrow> xgl_list \<times> node_store" where
  "xgl_list_insert_tail l h node =
     (case node of
        None \<Rightarrow> (l, h)
      | Some n \<Rightarrow>
          let h = set_prev n (li_tail l) (set_next n None h);
              (l, h) = (case li_tail l of
                          Some t \<Rightarrow> (l, set_next t (Some n) h)
                        | None \<Rightarrow> (l \<lparr> li_head := Some n \<rparr>, h))
          in (l \<lparr> li_tail := Some n, li_count := li_count l + 1 \<rparr>, h))"

definition xgl_list_insert_after :: "xgl_list \<Rightarrow> node_store \<Rightarrow> node_ptr \<Rightarrow> node_ptr \<Rightarrow> xgl_list \<times> node_store" where
  "xgl_list_insert_after l h pos node =
     (case (pos, node) of
        (Some p, Some n) \<Rightarrow>
          let h = set_prev n (Some p) h;
              h = set_next n (ln_next (h p)) h;
              (l, h) = (case ln_next (h p) of
                          Some q \<Rightarrow> (l, set_prev q (Some n) h)
                        | None \<Rightarrow> (l \<lparr> li_tail := Some n \<rparr>, h))
          in (l \<lparr> li_count := li_count l + 1 \<rparr>, set_next p (Some n) h)
      | _ \<Rightarrow> (l, h))"

definition xgl_list_insert_before :: "xgl_list \<Rightarrow> node_store \<Rightarrow> node_ptr \<Rightarrow> node_ptr \<Rightarrow> xgl_list \<times> node_store" where
  "xgl_list_insert_before l h pos node =
     (case (pos, node) of
        (Some p, Some n) \<Rightarrow>
          let h = set_next n (Some p) h;
              h = set_prev n (ln_prev (h p)) h;
              (l, h) = (case ln_prev (h p) of
                          Some q \<Rightarrow> (l, set_next q (Some n) h)
                        | None \<Rightarrow> (l \<lparr> li_head := Some n \<rparr>, h))
          in (l \<lparr> li_count := li_count l + 1 \<rparr>, set_prev p (Some n) h)
      | _ \<Rightarrow> (l, h))"

definition xgl_list_remove :: "xgl_list \<Rightarrow> node_store \<Rightarrow> node_ptr \<Rightarrow> xgl_list \<times> node_store" where
  "xgl_list_remove l h node =
     (case node of
        None \<Rightarrow> (l, h)
      | Some n \<Rightarrow>
          let (l, h) = (case ln_prev (h n) of
                          Some p \<Rightarrow> (l, set_next p (ln_next (h n)) h)
                        | None \<Rightarrow> (l \<lparr> li_head := ln_next (h n) \<rparr>, h));
              (l, h) = (case ln_next (h n) of
                          Some q \<Rightarrow> (l, set_prev q (ln_prev (h n)) h)
                        | None \<Rightarrow> (l \<lparr> li_tail := ln_prev (h n) \<rparr>, h))
          in (l \<lparr> li_count := li_count l - 1 \<rparr>, set_prev n None (set_next n None h)))"

definition xgl_list_remove_head :: "xgl_list \<Rightarrow> node_store \<Rightarrow> node_ptr \<times> xgl_list \<times> node_store" where
  "xgl_list_remove_head l h =
     (case li_head l of None \<Rightarrow> (None, l, h) | Some n \<Rightarrow> (Some n, xgl_list_remove l h (Some n)))"

definition xgl_list_remove_tail :: "xgl_list \<Rightarrow> node_store \<Rightarrow> node_ptr \<times> xgl_list \<times> node_store" where
  "xgl_list_remove_tail l h =
     (case li_tail l of None \<Rightarrow> (None, l, h) | Some n \<Rightarrow> (Some n, xgl_list_remove l h (Some n)))"

definition xgl_list_peek_head :: "xgl_list \<Rightarrow> node_ptr" where
  "xgl_list_peek_head l = li_head l"

definition xgl_list_peek_tail :: "xgl_list \<Rightarrow> node_ptr" where
  "xgl_list_peek_tail l = li_tail l"

definition xgl_list_next :: "node_store \<Rightarrow> node_ptr \<Rightarrow> node_ptr" where
  "xgl_list_next h node = (case node of None \<Rightarrow> None | Some n \<Rightarrow> ln_next (h n))"

definition xgl_list_prev :: "node_store \<Rightarrow> node_ptr \<Rightarrow> node_ptr" where
  "xgl_list_prev h node = (case node of None \<Rightarrow> None | Some n \<Rightarrow> ln_prev (h n))"

text \<open>
  \<^verbatim>\<open>XGL_LIST_FOR_EACH\<close> visits the nodes from the head on along the next pointers. A corrupted list can have
  a cycle, so the number of steps is an argument, and running out of them is \<open>None\<close>.
\<close>

fun list_for_each :: "nat \<Rightarrow> node_store \<Rightarrow> node_ptr \<Rightarrow> nat list option" where
  "list_for_each _ h None = Some []"
| "list_for_each 0 h (Some n) = None"
| "list_for_each (Suc k) h (Some n) = map_option ((#) n) (list_for_each k h (ln_next (h n)))"

fun list_for_each_back :: "nat \<Rightarrow> node_store \<Rightarrow> node_ptr \<Rightarrow> nat list option" where
  "list_for_each_back _ h None = Some []"
| "list_for_each_back 0 h (Some n) = None"
| "list_for_each_back (Suc k) h (Some n) = map_option ((#) n) (list_for_each_back k h (ln_prev (h n)))"

section \<open>The links of an address list\<close>

definition first_of :: "nat list \<Rightarrow> node_ptr \<Rightarrow> node_ptr" where
  "first_of xs q = (case xs of [] \<Rightarrow> q | x # _ \<Rightarrow> Some x)"

definition last_of :: "node_ptr \<Rightarrow> nat list \<Rightarrow> node_ptr" where
  "last_of p xs = (if xs = [] then p else Some (last xs))"

primrec links :: "node_store \<Rightarrow> node_ptr \<Rightarrow> nat list \<Rightarrow> node_ptr \<Rightarrow> bool" where
  "links h p [] q \<longleftrightarrow> True"
| "links h p (x # xs) q \<longleftrightarrow> ln_prev (h x) = p \<and> ln_next (h x) = first_of xs q \<and> links h (Some x) xs q"

definition rep :: "nat list \<Rightarrow> xgl_list \<Rightarrow> node_store \<Rightarrow> bool" where
  "rep xs l h \<longleftrightarrow> distinct xs \<and> li_head l = first_of xs None \<and> li_tail l = last_of None xs
     \<and> li_count l = word_of_nat (length xs) \<and> links h None xs None"

named_theorems link_simps "links of address lists"

lemma first_of_simps [simp]: "first_of [] q = q" "first_of (x # xs) q = Some x" "first_of (xs @ ys) q = first_of xs (first_of ys q)"
  by (simp_all add: first_of_def split: list.split)

lemma last_of_simps [simp]: "last_of p [] = p" "last_of p (x # xs) = last_of (Some x) xs" "last_of p (xs @ ys) = last_of (last_of p xs) ys"
  by (simp_all add: last_of_def)

lemma links_append [link_simps]: "links h p (xs @ ys) q \<longleftrightarrow> links h p xs (first_of ys q) \<and> links h (last_of p xs) ys q"
  by (induction xs arbitrary: p) auto

lemma links_frame: "(\<And>x. x \<in> set xs \<Longrightarrow> h' x = h x) \<Longrightarrow> links h' p xs q = links h p xs q"
  by (induction xs arbitrary: p) auto

lemma links_upd [link_simps]: "a \<notin> set xs \<Longrightarrow> links (h(a := v)) p xs q = links h p xs q"
  by (auto intro!: links_frame)

lemmas list_op_defs = xgl_list_insert_head_def xgl_list_insert_tail_def xgl_list_insert_after_def xgl_list_insert_before_def
  xgl_list_remove_def Let_def set_next_def set_prev_def

lemma rep_init: "rep [] xgl_list_init h"
  by (simp add: rep_def xgl_list_init_def)

lemma insert_head_rep:
  assumes "rep xs l h" "n \<notin> set xs" "xgl_list_insert_head l h (Some n) = (l', h')"
  shows "rep (n # xs) l' h' \<and> (\<forall>a. a \<notin> insert n (set xs) \<longrightarrow> h' a = h a)"
  using assms by (cases xs) (auto simp: rep_def list_op_defs link_simps)

lemma insert_tail_rep:
  assumes "rep xs l h" "n \<notin> set xs" "xgl_list_insert_tail l h (Some n) = (l', h')"
  shows "rep (xs @ [n]) l' h' \<and> (\<forall>a. a \<notin> insert n (set xs) \<longrightarrow> h' a = h a)"
  using assms by (cases xs rule: rev_cases) (auto simp: rep_def list_op_defs link_simps)

lemma insert_after_rep:
  assumes "rep (xs @ p # ys) l h" "n \<notin> set (xs @ p # ys)" "xgl_list_insert_after l h (Some p) (Some n) = (l', h')"
  shows "rep (xs @ p # n # ys) l' h' \<and> (\<forall>a. a \<notin> insert n (set (xs @ p # ys)) \<longrightarrow> h' a = h a)"
  using assms by (cases ys) (auto simp: rep_def list_op_defs link_simps)

lemma insert_before_rep:
  assumes "rep (xs @ p # ys) l h" "n \<notin> set (xs @ p # ys)" "xgl_list_insert_before l h (Some p) (Some n) = (l', h')"
  shows "rep (xs @ n # p # ys) l' h' \<and> (\<forall>a. a \<notin> insert n (set (xs @ p # ys)) \<longrightarrow> h' a = h a)"
  using assms by (cases xs rule: rev_cases) (auto simp: rep_def list_op_defs link_simps)

lemma remove_rep:
  assumes "rep (xs @ n # ys) l h" "xgl_list_remove l h (Some n) = (l', h')"
  shows "rep (xs @ ys) l' h' \<and> (\<forall>a. a \<notin> set (xs @ n # ys) \<longrightarrow> h' a = h a) \<and> ln_next (h' n) = None \<and> ln_prev (h' n) = None"
  using assms by (cases xs rule: rev_cases; cases ys) (auto simp: rep_def list_op_defs link_simps)

lemma links_walk: "links h p xs None \<Longrightarrow> length xs \<le> k \<Longrightarrow> list_for_each k h (first_of xs None) = Some xs"
proof (induction xs arbitrary: p k)
  case (Cons x xs)
  then show ?case by (cases k) auto
qed simp

lemma links_walk_back: "links h None xs q \<Longrightarrow> length xs \<le> k \<Longrightarrow> list_for_each_back k h (last_of None xs) = Some (rev xs)"
proof (induction xs arbitrary: q k rule: rev_induct)
  case (snoc x xs)
  then show ?case by (cases k) (auto simp: link_simps)
qed simp

section \<open>Sequences of operations\<close>

text \<open>
  The calls a client makes, and the address list that each of them stands for. \<open>proper\<close> is the contract of the
  interface: a node is inserted only while it is not in the list, positions and nodes to remove are in it.
\<close>

datatype list_call =
    InsertHead nat
  | InsertTail nat
  | InsertAfter nat nat
  | InsertBefore nat nat
  | Remove nat
  | RemoveHead
  | RemoveTail

fun list_call_step :: "xgl_list \<times> node_store \<Rightarrow> list_call \<Rightarrow> xgl_list \<times> node_store" where
  "list_call_step (l, h) (InsertHead n) = xgl_list_insert_head l h (Some n)"
| "list_call_step (l, h) (InsertTail n) = xgl_list_insert_tail l h (Some n)"
| "list_call_step (l, h) (InsertAfter p n) = xgl_list_insert_after l h (Some p) (Some n)"
| "list_call_step (l, h) (InsertBefore p n) = xgl_list_insert_before l h (Some p) (Some n)"
| "list_call_step (l, h) (Remove n) = xgl_list_remove l h (Some n)"
| "list_call_step (l, h) RemoveHead = snd (xgl_list_remove_head l h)"
| "list_call_step (l, h) RemoveTail = snd (xgl_list_remove_tail l h)"

primrec put_after :: "nat \<Rightarrow> nat \<Rightarrow> nat list \<Rightarrow> nat list" where
  "put_after p n [] = []"
| "put_after p n (x # xs) = (if x = p then x # n # xs else x # put_after p n xs)"

primrec put_before :: "nat \<Rightarrow> nat \<Rightarrow> nat list \<Rightarrow> nat list" where
  "put_before p n [] = []"
| "put_before p n (x # xs) = (if x = p then n # x # xs else x # put_before p n xs)"

fun abs_call :: "nat list \<Rightarrow> list_call \<Rightarrow> nat list" where
  "abs_call xs (InsertHead n) = n # xs"
| "abs_call xs (InsertTail n) = xs @ [n]"
| "abs_call xs (InsertAfter p n) = put_after p n xs"
| "abs_call xs (InsertBefore p n) = put_before p n xs"
| "abs_call xs (Remove n) = remove1 n xs"
| "abs_call xs RemoveHead = tl xs"
| "abs_call xs RemoveTail = butlast xs"

fun proper_call :: "nat list \<Rightarrow> list_call \<Rightarrow> bool" where
  "proper_call xs (InsertHead n) \<longleftrightarrow> n \<notin> set xs"
| "proper_call xs (InsertTail n) \<longleftrightarrow> n \<notin> set xs"
| "proper_call xs (InsertAfter p n) \<longleftrightarrow> p \<in> set xs \<and> n \<notin> set xs"
| "proper_call xs (InsertBefore p n) \<longleftrightarrow> p \<in> set xs \<and> n \<notin> set xs"
| "proper_call xs (Remove n) \<longleftrightarrow> n \<in> set xs"
| "proper_call xs _ \<longleftrightarrow> True"

fun call_nodes :: "list_call \<Rightarrow> nat set" where
  "call_nodes (InsertHead n) = {n}"
| "call_nodes (InsertTail n) = {n}"
| "call_nodes (InsertAfter p n) = {n}"
| "call_nodes (InsertBefore p n) = {n}"
| "call_nodes _ = {}"

lemma put_split: "p \<notin> set xs \<Longrightarrow> put_after p n (xs @ p # ys) = xs @ p # n # ys" "p \<notin> set xs \<Longrightarrow> put_before p n (xs @ p # ys) = xs @ n # p # ys"
  by (induction xs) auto

lemma rep_ends: "rep xs l h \<Longrightarrow> distinct xs" "rep xs l h \<Longrightarrow> li_head l = first_of xs None" "rep xs l h \<Longrightarrow> li_tail l = last_of None xs"
  by (simp_all add: rep_def)

lemma remove_call: "rep xs l h \<Longrightarrow> n \<in> set xs \<Longrightarrow> xgl_list_remove l h (Some n) = (l', h') \<Longrightarrow>
    rep (remove1 n xs) l' h' \<and> (\<forall>a. a \<notin> set xs \<longrightarrow> h' a = h a)"
  using remove_rep split_list_first by (metis remove1_append remove1.simps(2))

lemma list_call_refines:
  assumes "rep xs l h" "proper_call xs c" "list_call_step (l, h) c = (l', h')"
  shows "rep (abs_call xs c) l' h' \<and> (\<forall>a. a \<notin> set xs \<union> call_nodes c \<longrightarrow> h' a = h a)"
proof (cases c)
  case (InsertHead n)
  then show ?thesis using insert_head_rep assms by auto
next
  case (InsertTail n)
  then show ?thesis using insert_tail_rep assms by auto
next
  case (InsertAfter p n)
  then obtain as bs where "xs = as @ p # bs" "p \<notin> set as" using split_list_first [of p xs] assms(2) by auto
  then show ?thesis using insert_after_rep [of as p bs l h n l' h'] assms InsertAfter by (auto simp: put_split)
next
  case (InsertBefore p n)
  then obtain as bs where "xs = as @ p # bs" "p \<notin> set as" using split_list_first [of p xs] assms(2) by auto
  then show ?thesis using insert_before_rep [of as p bs l h n l' h'] assms InsertBefore by (auto simp: put_split)
next
  case (Remove n)
  then show ?thesis using remove_call assms by auto
next
  case RemoveHead
  then show ?thesis using assms remove_rep [of "[]" "hd xs" "tl xs" l h l' h']
    by (cases xs) (auto simp: xgl_list_remove_head_def rep_ends)
next
  case RemoveTail
  then show ?thesis using assms remove_rep [of "butlast xs" "last xs" "[]" l h l' h']
    by (cases xs rule: rev_cases) (auto simp: xgl_list_remove_tail_def rep_ends)
qed

text \<open>The interface as a refinement: a heap list simulates the address list it stands for.\<close>

definition list_state :: "nat set \<Rightarrow> node_store \<Rightarrow> nat list \<Rightarrow> xgl_list \<times> node_store \<Rightarrow> bool" where
  "list_state N h0 xs s \<longleftrightarrow> rep xs (fst s) (snd s) \<and> set xs \<subseteq> N \<and> (\<forall>a. a \<notin> N \<longrightarrow> snd s a = h0 a)"

lemma set_abs_call: "set (abs_call xs c) \<subseteq> set xs \<union> call_nodes c"
proof (cases c)
  case (InsertAfter p n)
  then show ?thesis by (induction xs) auto
next
  case (InsertBefore p n)
  then show ?thesis by (induction xs) auto
next
  case (Remove n)
  then show ?thesis using set_remove1_subset [of n xs] by simp
next
  case RemoveHead
  then show ?thesis by (cases xs) auto
next
  case RemoveTail
  then show ?thesis by (auto dest: in_set_butlastD)
qed simp_all

interpretation heap_list: guarded_refinement list_call_step abs_call "list_state N h0"
    "\<lambda>xs c. proper_call xs c \<and> call_nodes c \<subseteq> N" for N h0
proof
  fix xs s c assume "list_state N h0 xs s" "proper_call xs c \<and> call_nodes c \<subseteq> N"
  then show "list_state N h0 (abs_call xs c) (list_call_step s c)"
    using list_call_refines [of xs "fst s" "snd s" c] set_abs_call [of xs c] unfolding list_state_def
    by (metis Un_iff prod.collapse subset_iff)
qed

text \<open>
  C32: the doubly linked list. Whatever proper sequence of insertions and removals is applied to an empty
  list, walking the next pointers from the head gives exactly the addresses of the corresponding list
  operations in order, walking the previous pointers from the tail gives them in reverse, both walks end after as many steps
  as there are nodes, the counter is their number and no node outside the inserted ones has been written.
\<close>

theorem heap_list_refines_list:
  assumes "heap_list.allowed N [] cs" "foldl list_call_step (xgl_list_init, h) cs = (l, h')" "xs = foldl abs_call [] cs"
  shows "list_for_each (length xs) h' (xgl_list_peek_head l) = Some xs
    \<and> list_for_each_back (length xs) h' (xgl_list_peek_tail l) = Some (rev xs)
    \<and> xgl_list_count l = word_of_nat (length xs) \<and> (xgl_list_is_empty l \<longleftrightarrow> xs = []) \<and> distinct xs
    \<and> (\<forall>a. a \<notin> N \<longrightarrow> h' a = h a)"
proof -
  have "list_state N h xs (l, h')"
    using heap_list.foldl_refines [of N h "[]" "(xgl_list_init, h)" cs] assms rep_init [of h] by (simp add: list_state_def)
  then have rep: "rep xs l h'" and frame: "\<forall>a. a \<notin> N \<longrightarrow> h' a = h a" by (simp_all add: list_state_def)
  then have "li_head l = first_of xs None" "li_tail l = last_of None xs" "links h' None xs None" "li_count l = word_of_nat (length xs)"
    by (simp_all add: rep_def)
  then show ?thesis using rep_ends(1) [OF rep] frame links_walk [of h' None xs] links_walk_back [of h' xs]
    by (auto simp: xgl_list_peek_head_def xgl_list_peek_tail_def xgl_list_count_def xgl_list_is_empty_def first_of_def split: list.split)
qed

theorem heap_list_refines_list_witness:
  "let (l, h') = foldl list_call_step (xgl_list_init, \<lambda>_. \<lparr> ln_next = None, ln_prev = None \<rparr>)
      [InsertTail 4, InsertHead 2, InsertAfter 2 9, InsertBefore 4 7, Remove 9]
   in list_for_each 3 h' (xgl_list_peek_head l) = Some [2, 7, 4] \<and> list_for_each_back 3 h' (xgl_list_peek_tail l) = Some [4, 7, 2]"
  using heap_list_refines_list [of "{2, 4, 7, 9}" "[InsertTail 4, InsertHead 2, InsertAfter 2 9, InsertBefore 4 7, Remove 9]"
      "\<lambda>_. \<lparr> ln_next = None, ln_prev = None \<rparr>", OF _ prod.collapse [symmetric] refl]
  by (simp add: case_prod_beta numeral_3_eq_3)

end
