(* ===== verification/Xgl_Mempool.thy ===== *)
theory Xgl_Mempool
  imports Xgl_Prelude
begin

text \<open>
  The fixed-size block pool of \<^verbatim>\<open>src/memory/xgl_mempool.c\<close>. The pool keeps its free list inside the free blocks:
  the first bytes of a free block hold the address of the next one. The model therefore has a byte memory: an address (a
  natural, 0 is NULL) has a byte, pointers take eight bytes in the order of a little-endian machine, and the
  client may write the blocks it owns. \<^verbatim>\<open>size_t\<close> and \<^verbatim>\<open>uintptr_t\<close> have 64 bits; where the code subtracts or
  adds without a check, the wrap is written out.

  \<open>pool_rep\<close> relates a pool and a memory to the list of its free blocks; every operation is shown to be a stack
  operation on that list. \<open>mempool_step\<close> is the machine of the calls and of the writes a client may do.
\<close>

section \<open>Memory and sizes\<close>

type_synonym memory = "nat \<Rightarrow> u8"

definition SIZE_RANGE :: nat where
  "SIZE_RANGE = 18446744073709551616"

definition size_sub :: "nat \<Rightarrow> nat \<Rightarrow> nat" where
  "size_sub a b = (if b \<le> a then a - b else a + SIZE_RANGE - b)"

definition PTR_SIZE :: nat where
  "PTR_SIZE = 8"

lemma size_sub_le [simp]: "b \<le> a \<Longrightarrow> size_sub a b = a - b"
  by (simp add: size_sub_def)

definition mempool_store_next :: "memory \<Rightarrow> nat \<Rightarrow> nat \<Rightarrow> memory" where
  "mempool_store_next m block nxt =
     (\<lambda>a. if block \<le> a \<and> a < block + PTR_SIZE then word_of_nat (nxt div 256 ^ (a - block)) else m a)"

definition mempool_load_next :: "memory \<Rightarrow> nat \<Rightarrow> nat" where
  "mempool_load_next m block = foldr (\<lambda>i acc. unat (m (block + i)) + 256 * acc) [0..<PTR_SIZE] 0"

section \<open>The pool\<close>

record xgl_mempool =
  mp_pool :: nat
  mp_block_size :: nat
  mp_block_count :: nat
  mp_free_count :: nat
  mp_peak_used :: nat
  mp_free_list :: nat

definition mempool_size_overflows :: "nat \<Rightarrow> nat \<Rightarrow> bool" where
  "mempool_size_overflows count block_size \<longleftrightarrow> block_size \<noteq> 0 \<and> count > (SIZE_RANGE - 1) div block_size"

definition mempool_contains_block :: "xgl_mempool \<Rightarrow> nat \<Rightarrow> bool" where
  "mempool_contains_block pool ptr =
     (if mp_pool pool = 0 \<or> ptr = 0 \<or> mp_block_size pool = 0 \<or> mp_block_count pool = 0 \<or>
         mempool_size_overflows (mp_block_count pool) (mp_block_size pool) then False
      else let start = mp_pool pool;
               end_addr = (start + mp_block_count pool * mp_block_size pool) mod SIZE_RANGE
           in if ptr < start \<or> ptr \<ge> end_addr then False else (ptr - start) mod mp_block_size pool = 0)"

fun free_list_scan :: "memory \<Rightarrow> nat \<Rightarrow> nat \<Rightarrow> nat \<Rightarrow> bool" where
  "free_list_scan m 0 current ptr \<longleftrightarrow> False"
| "free_list_scan m (Suc k) current ptr \<longleftrightarrow>
     (if current = 0 then False else if current = ptr then True else free_list_scan m k (mempool_load_next m current) ptr)"

definition mempool_free_list_contains :: "xgl_mempool \<Rightarrow> memory \<Rightarrow> nat \<Rightarrow> bool" where
  "mempool_free_list_contains pool m ptr \<longleftrightarrow>
     (if ptr = 0 then False else free_list_scan m (mp_block_count pool) (mp_free_list pool) ptr)"

fun mempool_link_blocks :: "xgl_mempool \<Rightarrow> memory \<Rightarrow> nat list \<Rightarrow> xgl_mempool \<times> memory" where
  "mempool_link_blocks pool m [] = (pool, m)"
| "mempool_link_blocks pool m (i # is) =
     (let block_ptr = mp_pool pool + i * mp_block_size pool;
          m = mempool_store_next m block_ptr (mp_free_list pool)
      in mempool_link_blocks (pool \<lparr> mp_free_list := block_ptr \<rparr>) m is)"

definition xgl_mempool_init :: "xgl_mempool \<Rightarrow> memory \<Rightarrow> nat \<Rightarrow> nat \<Rightarrow> nat \<Rightarrow> bool \<times> xgl_mempool \<times> memory" where
  "xgl_mempool_init pool m buffer buffer_size block_size =
     (if buffer = 0 \<or> buffer_size = 0 \<or> block_size = 0 then (False, pool, m)
      else if block_size < PTR_SIZE then (False, pool, m)
      else let pool = pool \<lparr> mp_block_count := buffer_size div block_size \<rparr>
           in if mp_block_count pool = 0 then (False, pool, m)
              else let pool = pool \<lparr> mp_pool := buffer, mp_block_size := block_size, mp_free_count := mp_block_count pool,
                                     mp_peak_used := 0, mp_free_list := 0 \<rparr>
                   in (True, mempool_link_blocks pool m [0..<mp_block_count pool]))"

definition xgl_mempool_destroy :: xgl_mempool where
  "xgl_mempool_destroy = \<lparr> mp_pool = 0, mp_block_size = 0, mp_block_count = 0, mp_free_count = 0, mp_peak_used = 0, mp_free_list = 0 \<rparr>"

definition xgl_mempool_alloc :: "xgl_mempool \<Rightarrow> memory \<Rightarrow> nat \<times> xgl_mempool" where
  "xgl_mempool_alloc pool m =
     (if mp_free_list pool = 0 then (0, pool)
      else let block = mp_free_list pool;
               pool = pool \<lparr> mp_free_list := mempool_load_next m block, mp_free_count := size_sub (mp_free_count pool) 1 \<rparr>;
               used_count = size_sub (mp_block_count pool) (mp_free_count pool)
           in (block, if used_count > mp_peak_used pool then pool \<lparr> mp_peak_used := used_count \<rparr> else pool))"

definition xgl_mempool_free :: "xgl_mempool \<Rightarrow> memory \<Rightarrow> nat \<Rightarrow> xgl_mempool \<times> memory" where
  "xgl_mempool_free pool m ptr =
     (if ptr = 0 then (pool, m)
      else if \<not> mempool_contains_block pool ptr \<or> mp_free_count pool \<ge> mp_block_count pool \<or>
              mempool_free_list_contains pool m ptr then (pool, m)
      else (pool \<lparr> mp_free_list := ptr, mp_free_count := (mp_free_count pool + 1) mod SIZE_RANGE \<rparr>,
            mempool_store_next m ptr (mp_free_list pool)))"

definition xgl_mempool_get_free_count :: "xgl_mempool \<Rightarrow> nat" where
  "xgl_mempool_get_free_count pool = mp_free_count pool"

definition xgl_mempool_get_used_count :: "xgl_mempool \<Rightarrow> nat" where
  "xgl_mempool_get_used_count pool = size_sub (mp_block_count pool) (mp_free_count pool)"

definition xgl_mempool_get_peak_used :: "xgl_mempool \<Rightarrow> nat" where
  "xgl_mempool_get_peak_used pool = mp_peak_used pool"

definition xgl_mempool_is_empty :: "xgl_mempool \<Rightarrow> bool" where
  "xgl_mempool_is_empty pool \<longleftrightarrow> mp_free_count pool = mp_block_count pool"

definition xgl_mempool_is_full :: "xgl_mempool \<Rightarrow> bool" where
  "xgl_mempool_is_full pool \<longleftrightarrow> mp_free_count pool = 0"

definition xgl_mempool_reset_stats :: "xgl_mempool \<Rightarrow> xgl_mempool" where
  "xgl_mempool_reset_stats pool = pool \<lparr> mp_peak_used := size_sub (mp_block_count pool) (mp_free_count pool) \<rparr>"

section \<open>Pointers in memory\<close>

lemma byte_of: "unat (word_of_nat n :: u8) = n mod 256"
  by (simp add: unsigned_of_nat take_bit_eq_mod)

lemma byte_step: "n div 256 ^ k mod 256 + 256 * (n div 256 ^ Suc k) = (n :: nat) div 256 ^ k"
  by (metis div_mult2_eq mod_mult_div_eq power_Suc2)

lemma load_store_same: 
  assumes "p < SIZE_RANGE"
  shows "mempool_load_next (mempool_store_next m b p) b = p"
proof -
  have top: "p div 256 ^ 7 mod 256 = p div 256 ^ 7" using assms by (simp add: SIZE_RANGE_def div_less_iff_less_mult)
  have upt: "[0..<8] = [0, 1, 2, 3, 4, 5, 6, 7::nat]" by (simp add: upt_rec)
  show ?thesis
    using byte_step [of p 0] byte_step [of p 1] byte_step [of p 2] byte_step [of p 3] byte_step [of p 4] byte_step [of p 5] byte_step [of p 6] top
    by (simp add: mempool_load_next_def mempool_store_next_def PTR_SIZE_def upt byte_of)
qed

lemma load_cong: "(\<And>a. b \<le> a \<Longrightarrow> a < b + PTR_SIZE \<Longrightarrow> m' a = m a) \<Longrightarrow> mempool_load_next m' b = mempool_load_next m b"
  unfolding mempool_load_next_def by (intro foldr_cong) (auto simp: PTR_SIZE_def)

lemma store_outside: "a < b \<or> b + PTR_SIZE \<le> a \<Longrightarrow> mempool_store_next m b p a = m a"
  by (auto simp: mempool_store_next_def)

primrec chain :: "memory \<Rightarrow> nat \<Rightarrow> nat list \<Rightarrow> bool" where
  "chain m p [] \<longleftrightarrow> p = 0"
| "chain m p (x # xs) \<longleftrightarrow> p = x \<and> x \<noteq> 0 \<and> chain m (mempool_load_next m x) xs"

lemma chain_cong: "(\<And>x a. x \<in> set xs \<Longrightarrow> x \<le> a \<Longrightarrow> a < x + PTR_SIZE \<Longrightarrow> m' a = m a) \<Longrightarrow> chain m' p xs = chain m p xs"
proof (induction xs arbitrary: p)
  case (Cons x xs)
  have "mempool_load_next m' x = mempool_load_next m x" using Cons.prems by (intro load_cong) auto
  moreover have "chain m' q xs = chain m q xs" for q using Cons.prems by (intro Cons.IH) auto
  ultimately show ?case by simp
qed simp

lemma chain_scan: "chain m p xs \<Longrightarrow> length xs \<le> k \<Longrightarrow> q \<noteq> 0 \<Longrightarrow> free_list_scan m k p q \<longleftrightarrow> q \<in> set xs"
proof (induction xs arbitrary: p k)
  case Nil
  then show ?case by (cases k) auto
next
  case (Cons x xs)
  then show ?case by (cases k) auto
qed

section \<open>A pool and its free blocks\<close>

definition pool_blocks :: "xgl_mempool \<Rightarrow> nat set" where
  "pool_blocks pool = (\<lambda>i. mp_pool pool + i * mp_block_size pool) ` {..<mp_block_count pool}"

definition pool_shape :: "xgl_mempool \<Rightarrow> bool" where
  "pool_shape pool \<longleftrightarrow> mp_pool pool \<noteq> 0 \<and> PTR_SIZE \<le> mp_block_size pool \<and> 0 < mp_block_count pool
     \<and> mp_pool pool + mp_block_count pool * mp_block_size pool < SIZE_RANGE"

definition same_buffer :: "xgl_mempool \<Rightarrow> xgl_mempool \<Rightarrow> bool" where
  "same_buffer p q \<longleftrightarrow> mp_pool q = mp_pool p \<and> mp_block_size q = mp_block_size p \<and> mp_block_count q = mp_block_count p"

definition pool_rep :: "xgl_mempool \<Rightarrow> memory \<Rightarrow> nat list \<Rightarrow> bool" where
  "pool_rep pool m fs \<longleftrightarrow> pool_shape pool \<and> chain m (mp_free_list pool) fs \<and> distinct fs \<and> set fs \<subseteq> pool_blocks pool
     \<and> mp_free_count pool = length fs \<and> mp_block_count pool - length fs \<le> mp_peak_used pool
     \<and> mp_peak_used pool \<le> mp_block_count pool"

lemma same_bufferD: "same_buffer p q \<Longrightarrow> pool_blocks q = pool_blocks p" "same_buffer p q \<Longrightarrow> pool_shape q = pool_shape p"
  by (simp_all add: same_buffer_def pool_blocks_def pool_shape_def)

lemma block_inside:
  assumes "b \<in> pool_blocks pool"
  shows "mp_pool pool \<le> b" "b + mp_block_size pool \<le> mp_pool pool + mp_block_count pool * mp_block_size pool"
proof -
  obtain i where i: "b = mp_pool pool + i * mp_block_size pool" "i < mp_block_count pool" using assms by (auto simp: pool_blocks_def)
  then have "Suc i * mp_block_size pool \<le> mp_block_count pool * mp_block_size pool" by (intro mult_le_mono1) simp
  then show "mp_pool pool \<le> b" "b + mp_block_size pool \<le> mp_pool pool + mp_block_count pool * mp_block_size pool"
    using i(1) by simp_all
qed

lemma blocks_apart:
  assumes "b \<in> pool_blocks pool" "c \<in> pool_blocks pool" "b \<noteq> c"
  shows "b + mp_block_size pool \<le> c \<or> c + mp_block_size pool \<le> b"
proof -
  have less: "x + mp_block_size pool \<le> y"
    if "x = mp_pool pool + i * mp_block_size pool" "y = mp_pool pool + j * mp_block_size pool" "i < j" for x y i j
    using mult_le_mono1 [of "Suc i" j "mp_block_size pool"] that by simp
  obtain i j where "b = mp_pool pool + i * mp_block_size pool" "c = mp_pool pool + j * mp_block_size pool" "i \<noteq> j"
    using assms by (auto simp: pool_blocks_def)
  then show ?thesis using less by (metis nat_neq_iff)
qed

lemma card_pool_blocks: "0 < mp_block_size pool \<Longrightarrow> card (pool_blocks pool) = mp_block_count pool"
  unfolding pool_blocks_def by (subst card_image) (auto simp: inj_on_def)

lemma pool_shapeD:
  "pool_shape pool \<Longrightarrow> 0 < mp_block_size pool" "pool_shape pool \<Longrightarrow> b \<in> pool_blocks pool \<Longrightarrow> b \<noteq> 0"
  "pool_shape pool \<Longrightarrow> b \<in> pool_blocks pool \<Longrightarrow> b < SIZE_RANGE" "pool_shape pool \<Longrightarrow> mp_block_count pool < SIZE_RANGE"
proof -
  assume shape: "pool_shape pool"
  show pos: "0 < mp_block_size pool" using shape by (simp add: pool_shape_def PTR_SIZE_def)
  have "mp_block_count pool \<le> mp_block_count pool * mp_block_size pool" using pos by simp
  then show "mp_block_count pool < SIZE_RANGE" using shape unfolding pool_shape_def by linarith
  assume b: "b \<in> pool_blocks pool"
  show "b \<noteq> 0" "b < SIZE_RANGE" using block_inside [OF b] shape by (auto simp: pool_shape_def)
qed

lemma contains_block_iff:
  assumes shape: "pool_shape pool"
  shows "mempool_contains_block pool p \<longleftrightarrow> p \<in> pool_blocks pool"
proof -
  let ?n = "mp_block_count pool" and ?s = "mp_block_size pool" and ?b = "mp_pool pool"
  have pos: "0 < ?s" and bound: "?b + ?n * ?s < SIZE_RANGE" using shape pool_shapeD(1) by (auto simp: pool_shape_def)
  have no_overflow: "\<not> mempool_size_overflows ?n ?s"
    using pos bound by (simp add: mempool_size_overflows_def not_less less_eq_div_iff_mult_less_eq)
  have eq: "mempool_contains_block pool p \<longleftrightarrow> p \<noteq> 0 \<and> ?b \<le> p \<and> p < ?b + ?n * ?s \<and> (p - ?b) mod ?s = 0"
    using shape no_overflow bound pos by (auto simp: mempool_contains_block_def pool_shape_def Let_def)
  show ?thesis
  proof
    assume "mempool_contains_block pool p"
    then have p: "?b \<le> p" "p < ?b + ?n * ?s" "(p - ?b) mod ?s = 0" using eq by auto
    then obtain i where i: "p - ?b = i * ?s" by (metis mod_0_imp_dvd dvd_def mult.commute)
    then have "i < ?n" using p pos by (metis less_diff_conv2 add.commute mult_less_cancel2)
    moreover have "p = ?b + i * ?s" using i p(1) by simp
    ultimately show "p \<in> pool_blocks pool" unfolding pool_blocks_def by blast
  next
    assume b: "p \<in> pool_blocks pool"
    then show "mempool_contains_block pool p"
      using eq pool_shapeD(2) [OF shape b] block_inside [OF b] pos by (auto simp: pool_blocks_def)
  qed
qed

lemma alloc_rep:
  assumes "pool_rep pool m fs"
  shows "fs = [] \<Longrightarrow> xgl_mempool_alloc pool m = (0, pool)"
    and "fs = x # gs \<Longrightarrow> \<exists>pool'. xgl_mempool_alloc pool m = (x, pool') \<and> pool_rep pool' m gs \<and> same_buffer pool pool'"
proof -
  assume "fs = []"
  then show "xgl_mempool_alloc pool m = (0, pool)" using assms by (simp add: pool_rep_def xgl_mempool_alloc_def)
next
  assume fs: "fs = x # gs"
  have "length fs \<le> mp_block_count pool"
    using assms card_pool_blocks [of pool] pool_shapeD(1) [of pool] card_mono [of "pool_blocks pool" "set fs"]
    by (simp add: pool_rep_def pool_blocks_def distinct_card)
  then have len: "Suc (length gs) \<le> mp_block_count pool" using fs by simp
  let ?p = "snd (xgl_mempool_alloc pool m)"
  have buffer: "same_buffer pool ?p" by (simp add: xgl_mempool_alloc_def same_buffer_def Let_def)
  have "pool_rep ?p m gs"
    using assms fs len buffer same_bufferD [OF buffer] by (auto simp: pool_rep_def same_buffer_def xgl_mempool_alloc_def Let_def)
  moreover have "fst (xgl_mempool_alloc pool m) = x" using assms fs by (simp add: pool_rep_def xgl_mempool_alloc_def Let_def)
  ultimately show "\<exists>pool'. xgl_mempool_alloc pool m = (x, pool') \<and> pool_rep pool' m gs \<and> same_buffer pool pool'"
    using buffer by (metis prod.collapse)
qed

lemma pool_rep_cong:
  assumes "pool_rep pool m fs" "\<And>x a. x \<in> set fs \<Longrightarrow> x \<le> a \<Longrightarrow> a < x + PTR_SIZE \<Longrightarrow> m' a = m a"
  shows "pool_rep pool m' fs"
  using assms(1) chain_cong [of fs m' m "mp_free_list pool", OF assms(2)] by (simp add: pool_rep_def)

lemma rep_bounds:
  assumes "pool_rep pool m fs"
  shows "length fs \<le> mp_block_count pool" "mp_free_list pool < SIZE_RANGE" "finite (pool_blocks pool)"
    "card (pool_blocks pool - set fs) = mp_block_count pool - length fs"
proof -
  have shape: "pool_shape pool" and fs: "distinct fs" "set fs \<subseteq> pool_blocks pool" and chain: "chain m (mp_free_list pool) fs"
    using assms by (simp_all add: pool_rep_def)
  show fin: "finite (pool_blocks pool)" by (simp add: pool_blocks_def)
  show "card (pool_blocks pool - set fs) = mp_block_count pool - length fs" "length fs \<le> mp_block_count pool"
    using fs fin card_pool_blocks [OF pool_shapeD(1) [OF shape]] distinct_card [of fs] card_mono [OF fin fs(2)]
    by (simp_all add: card_Diff_subset)
  show "mp_free_list pool < SIZE_RANGE"
  proof (cases fs)
    case Nil
    then show ?thesis using chain by (simp add: SIZE_RANGE_def)
  next
    case (Cons x xs)
    then show ?thesis using chain fs(2) pool_shapeD(3) [OF shape, of x] by simp
  qed
qed

lemma store_chain:
  assumes shape: "pool_shape pool" and p: "p \<in> pool_blocks pool - set fs" and fs: "set fs \<subseteq> pool_blocks pool"
    and chain: "chain m q fs" "q < SIZE_RANGE"
  shows "chain (mempool_store_next m p q) p (p # fs)"
proof -
  have apart: "mempool_store_next m p q a = m a" if "x \<in> set fs" "x \<le> a" "a < x + PTR_SIZE" for x a
  proof (rule store_outside)
    have "PTR_SIZE \<le> mp_block_size pool" using shape by (simp add: pool_shape_def)
    then show "a < p \<or> p + PTR_SIZE \<le> a" using blocks_apart [of x pool p] that fs p by fastforce
  qed
  show ?thesis
    using chain_cong [of fs "mempool_store_next m p q" m q, OF apart] chain load_store_same [of q] pool_shapeD(2) [OF shape, of p] p by simp
qed

lemma free_rep:
  assumes rep: "pool_rep pool m fs"
  shows "p \<in> pool_blocks pool - set fs \<Longrightarrow>
      \<exists>pool'. xgl_mempool_free pool m p = (pool', mempool_store_next m p (mp_free_list pool)) \<and> same_buffer pool pool'
        \<and> pool_rep pool' (mempool_store_next m p (mp_free_list pool)) (p # fs)"
    and "p \<notin> pool_blocks pool - set fs \<Longrightarrow> xgl_mempool_free pool m p = (pool, m)"
proof -
  have shape: "pool_shape pool" and chain: "chain m (mp_free_list pool) fs" and count: "mp_free_count pool = length fs"
    and fs: "distinct fs" "set fs \<subseteq> pool_blocks pool"
    using rep by (simp_all add: pool_rep_def)
  have scan: "mempool_free_list_contains pool m q \<longleftrightarrow> q \<in> set fs" if "q \<noteq> 0" for q
    using chain_scan [OF chain rep_bounds(1) [OF rep] that] that by (simp add: mempool_free_list_contains_def)
  show "p \<notin> pool_blocks pool - set fs \<Longrightarrow> xgl_mempool_free pool m p = (pool, m)"
    using scan [of p] contains_block_iff [OF shape, of p] by (auto simp: xgl_mempool_free_def)
  assume p: "p \<in> pool_blocks pool - set fs"
  then have p0: "p \<noteq> 0" using pool_shapeD(2) [OF shape] by blast
  have "card (set fs) < card (pool_blocks pool)" using p fs(2) rep_bounds(3) [OF rep] by (intro psubset_card_mono) auto
  then have len: "length fs < mp_block_count pool"
    using distinct_card [OF fs(1)] card_pool_blocks [OF pool_shapeD(1) [OF shape]] by simp
  let ?m = "mempool_store_next m p (mp_free_list pool)"
  let ?pool = "pool \<lparr> mp_free_list := p, mp_free_count := mp_free_count pool + 1 \<rparr>"
  have free: "xgl_mempool_free pool m p = (?pool, ?m)"
    using p p0 len count scan [OF p0] contains_block_iff [OF shape, of p] pool_shapeD(4) [OF shape] by (auto simp: xgl_mempool_free_def)
  have buffer: "same_buffer pool ?pool" by (simp add: same_buffer_def)
  have "chain ?m p (p # fs)" using store_chain [OF shape p fs(2) chain rep_bounds(2) [OF rep]] .
  then have "pool_rep ?pool ?m (p # fs)"
    using rep p p0 len count same_bufferD [OF buffer] by (auto simp: pool_rep_def)
  then show "\<exists>pool'. xgl_mempool_free pool m p = (pool', ?m) \<and> same_buffer pool pool' \<and> pool_rep pool' ?m (p # fs)"
    using free buffer by blast
qed

definition outside :: "xgl_mempool \<Rightarrow> nat \<Rightarrow> bool" where
  "outside pool a \<longleftrightarrow> a < mp_pool pool \<or> mp_pool pool + mp_block_count pool * mp_block_size pool \<le> a"

lemma store_block_frame:
  assumes "pool_shape pool" "p \<in> pool_blocks pool" "outside pool a"
  shows "mempool_store_next m p q a = m a"
proof (rule store_outside)
  have "PTR_SIZE \<le> mp_block_size pool" using assms(1) by (simp add: pool_shape_def)
  then show "a < p \<or> p + PTR_SIZE \<le> a" using assms(3) block_inside [OF assms(2)] unfolding outside_def by linarith
qed

lemma link_blocks:
  assumes "pool_shape pool" "chain m (mp_free_list pool) fs" "set fs \<subseteq> pool_blocks pool" "mp_free_list pool < SIZE_RANGE"
    "set is \<subseteq> {..<mp_block_count pool}" "distinct (fs @ map (\<lambda>i. mp_pool pool + i * mp_block_size pool) is)"
    "mempool_link_blocks pool m is = (pool', m')"
  shows "chain m' (mp_free_list pool') (rev (map (\<lambda>i. mp_pool pool + i * mp_block_size pool) is) @ fs)
    \<and> pool' = pool \<lparr> mp_free_list := mp_free_list pool' \<rparr> \<and> (\<forall>a. outside pool a \<longrightarrow> m' a = m a)"
  using assms
proof (induction "is" arbitrary: pool m fs)
  case (Cons i "is")
  let ?b = "mp_pool pool + i * mp_block_size pool" and ?m = "mempool_store_next m (mp_pool pool + i * mp_block_size pool) (mp_free_list pool)"
  let ?p = "pool \<lparr> mp_free_list := ?b \<rparr>"
  have b: "?b \<in> pool_blocks pool - set fs" using Cons.prems(5,6) by (auto simp: pool_blocks_def)
  have buffer: "same_buffer pool ?p" by (simp add: same_buffer_def)
  have chain: "chain ?m (mp_free_list ?p) (?b # fs)" using store_chain [OF Cons.prems(1) b Cons.prems(3,2,4)] by simp
  have "outside ?p a = outside pool a" for a by (simp add: outside_def)
  moreover have "chain m' (mp_free_list pool') (rev (map (\<lambda>i. mp_pool ?p + i * mp_block_size ?p) is) @ (?b # fs))
      \<and> pool' = ?p \<lparr> mp_free_list := mp_free_list pool' \<rparr> \<and> (\<forall>a. outside ?p a \<longrightarrow> m' a = ?m a)"
  proof (rule Cons.IH)
    show "pool_shape ?p" "set (?b # fs) \<subseteq> pool_blocks ?p" using Cons.prems(1,3) b same_bufferD [OF buffer] by auto
    show "mp_free_list ?p < SIZE_RANGE" using pool_shapeD(3) [OF Cons.prems(1)] b by simp
    show "distinct ((?b # fs) @ map (\<lambda>i. mp_pool ?p + i * mp_block_size ?p) is)" using Cons.prems(6) by auto
    show "mempool_link_blocks ?p ?m is = (pool', m')" using Cons.prems(7) by (simp add: Let_def)
  qed (use Cons.prems(5) chain in auto)
  ultimately show ?case using store_block_frame [OF Cons.prems(1)] b by auto
qed simp

lemma mempool_init_rep:
  assumes "xgl_mempool_init pool0 m buffer buffer_size block_size = (True, pool, m')" "buffer + buffer_size < SIZE_RANGE"
  shows "pool_rep pool m' (rev (map (\<lambda>i. buffer + i * block_size) [0..<buffer_size div block_size]))"
    "mp_pool pool = buffer" "mp_block_size pool = block_size" "mp_block_count pool = buffer_size div block_size"
    "\<And>a. outside pool a \<Longrightarrow> m' a = m a"
proof -
  let ?n = "buffer_size div block_size"
  let ?p = "pool0 \<lparr> mp_block_count := ?n, mp_pool := buffer, mp_block_size := block_size, mp_free_count := ?n, mp_peak_used := 0, mp_free_list := 0 \<rparr>"
  have args: "buffer \<noteq> 0" "PTR_SIZE \<le> block_size" "0 < ?n" and link: "mempool_link_blocks ?p m [0..<?n] = (pool, m')"
    using assms(1) by (auto simp: xgl_mempool_init_def Let_def split: if_splits)
  have "?n * block_size \<le> buffer_size" by simp
  then have "buffer + ?n * block_size < SIZE_RANGE" using assms(2) by linarith
  then have shape: "pool_shape ?p" using args by (simp add: pool_shape_def)
  have dist: "distinct ([] @ map (\<lambda>i. mp_pool ?p + i * mp_block_size ?p) [0..<?n])"
    using args(2) by (simp add: distinct_map inj_on_def PTR_SIZE_def)
  have res: "chain m' (mp_free_list pool) (rev (map (\<lambda>i. buffer + i * block_size) [0..<?n]))"
      "pool = ?p \<lparr> mp_free_list := mp_free_list pool \<rparr>" "\<forall>a. outside ?p a \<longrightarrow> m' a = m a"
    using link_blocks [OF shape _ _ _ _ dist link] by (simp_all add: SIZE_RANGE_def atLeast0LessThan)
  have sel: "mp_pool pool = buffer" "mp_block_size pool = block_size" "mp_block_count pool = ?n" "mp_free_count pool = ?n" "mp_peak_used pool = 0"
    by (subst res(2), simp)+
  then have buffer: "same_buffer ?p pool" by (simp add: same_buffer_def)
  show "mp_pool pool = buffer" "mp_block_size pool = block_size" "mp_block_count pool = ?n" using sel by simp_all
  show "\<And>a. outside pool a \<Longrightarrow> m' a = m a" using res(3) sel by (auto simp: outside_def)
  show "pool_rep pool m' (rev (map (\<lambda>i. buffer + i * block_size) [0..<?n]))"
    using res(1) sel shape same_bufferD [OF buffer] dist by (auto simp: pool_rep_def pool_blocks_def)
qed

section \<open>Calls and client writes\<close>

text \<open>
  The state of the machine is the pool, the memory and the blocks the client holds: those it got and has not given back.
  The client may write any byte outside the pool's buffer and in the blocks it holds; other writes are none of its own
  and are left out. Anything may be passed to \<^verbatim>\<open>xgl_mempool_free\<close>.
\<close>

datatype pool_call =
    PoolAlloc
  | PoolFree nat
  | PoolReset
  | ClientWrite nat u8

definition client_owns :: "xgl_mempool \<Rightarrow> nat set \<Rightarrow> nat \<Rightarrow> bool" where
  "client_owns pool held a \<longleftrightarrow> outside pool a \<or> (\<exists>b \<in> held. b \<le> a \<and> a < b + mp_block_size pool)"

fun mempool_step :: "xgl_mempool \<times> memory \<times> nat set \<Rightarrow> pool_call \<Rightarrow> nat \<times> xgl_mempool \<times> memory \<times> nat set" where
  "mempool_step (pool, m, held) PoolAlloc =
     (case xgl_mempool_alloc pool m of (b, pool) \<Rightarrow> (b, pool, m, if b = 0 then held else insert b held))"
| "mempool_step (pool, m, held) (PoolFree p) = (case xgl_mempool_free pool m p of (pool, m) \<Rightarrow> (0, pool, m, held - {p}))"
| "mempool_step (pool, m, held) PoolReset = (0, xgl_mempool_reset_stats pool, m, held)"
| "mempool_step (pool, m, held) (ClientWrite a v) = (0, pool, if client_owns pool held a then m(a := v) else m, held)"

definition mempool_inv :: "xgl_mempool \<Rightarrow> xgl_mempool \<times> memory \<times> nat set \<Rightarrow> bool" where
  "mempool_inv P = (\<lambda>(pool, m, held). same_buffer P pool \<and> (\<exists>fs. pool_rep pool m fs \<and> held = pool_blocks pool - set fs))"

lemma same_buffer_trans: "same_buffer p q \<Longrightarrow> same_buffer q r \<Longrightarrow> same_buffer p r"
  by (simp add: same_buffer_def)

lemma mempool_invI:
  "same_buffer P pool \<Longrightarrow> pool_rep pool m fs \<Longrightarrow> held = pool_blocks pool - set fs \<Longrightarrow> mempool_inv P (pool, m, held)"
  unfolding mempool_inv_def by blast

lemma client_write_rep:
  assumes rep: "pool_rep pool m fs" and own: "client_owns pool (pool_blocks pool - set fs) a"
  shows "pool_rep pool (m(a := v)) fs"
proof (rule pool_rep_cong [OF rep])
  fix x b assume x: "x \<in> set fs" "x \<le> b" "b < x + PTR_SIZE"
  have shape: "pool_shape pool" and fs: "set fs \<subseteq> pool_blocks pool" using rep by (simp_all add: pool_rep_def)
  then have "PTR_SIZE \<le> mp_block_size pool" by (simp add: pool_shape_def)
  moreover have "x \<in> pool_blocks pool" using x(1) fs by blast
  ultimately have "a \<noteq> b" using own x blocks_apart [of x pool] block_inside [of x pool] by (fastforce simp: client_owns_def outside_def)
  then show "(m(a := v)) b = m b" by simp
qed

lemma reset_rep: "pool_rep pool m fs \<Longrightarrow> pool_rep (xgl_mempool_reset_stats pool) m fs \<and> same_buffer pool (xgl_mempool_reset_stats pool)"
  using rep_bounds(1) [of pool m fs] same_bufferD [of pool "xgl_mempool_reset_stats pool"]
  by (simp add: pool_rep_def same_buffer_def xgl_mempool_reset_stats_def)

lemma mempool_step_inv:
  assumes "mempool_inv P s"
  shows "mempool_inv P (snd (mempool_step s c))"
proof -
  obtain pool m held where s: "s = (pool, m, held)" by (cases s)
  obtain fs where P: "same_buffer P pool" and rep: "pool_rep pool m fs" and held: "held = pool_blocks pool - set fs"
    using assms by (auto simp: mempool_inv_def s)
  have nz: "b \<noteq> 0" if "b \<in> pool_blocks pool" for b using rep that pool_shapeD(2) by (auto simp: pool_rep_def)
  show ?thesis
  proof (cases c)
    case PoolAlloc
    then show ?thesis
    proof (cases fs)
      case (Cons x gs)
      then obtain pool' where a: "xgl_mempool_alloc pool m = (x, pool')" "pool_rep pool' m gs" "same_buffer pool pool'"
        using alloc_rep(2) [OF rep Cons] by blast
      moreover have "insert x held = pool_blocks pool - set gs" "x \<noteq> 0" using rep Cons held nz by (auto simp: pool_rep_def)
      ultimately show ?thesis
        using mempool_invI [OF same_buffer_trans [OF P a(3)] a(2)] same_bufferD [OF a(3)] by (simp add: s PoolAlloc)
    qed (use assms alloc_rep(1) [OF rep] in \<open>simp add: s\<close>)
  next
    case (PoolFree p)
    then show ?thesis
    proof (cases "p \<in> held")
      case True
      then obtain pool' m' where f: "xgl_mempool_free pool m p = (pool', m')" "same_buffer pool pool'" "pool_rep pool' m' (p # fs)"
        using free_rep(1) [OF rep, of p] held by blast
      moreover have "held - {p} = pool_blocks pool - set (p # fs)" using held by auto
      ultimately show ?thesis
        using mempool_invI [OF same_buffer_trans [OF P f(2)] f(3)] same_bufferD [OF f(2)] by (simp add: s PoolFree)
    qed (use assms free_rep(2) [OF rep, of p] held in \<open>auto simp: s\<close>)
  next
    case PoolReset
    have r: "pool_rep (xgl_mempool_reset_stats pool) m fs" "same_buffer pool (xgl_mempool_reset_stats pool)" using reset_rep [OF rep] by auto
    then show ?thesis using mempool_invI [OF same_buffer_trans [OF P r(2)] r(1)] same_bufferD [OF r(2)] by (simp add: s PoolReset held)
  next
    case (ClientWrite a v)
    then show ?thesis using client_write_rep [OF rep, of a v] mempool_invI [OF P _ held] rep held by (simp add: s)
  qed
qed

interpretation mempool: invariant_machine mempool_step "mempool_inv P" for P
  by unfold_locales (rule mempool_step_inv)

text \<open>
  C33: the memory pool. A pool is set up on a buffer; then its client allocates, writes the blocks it holds as it
  likes, and passes anything to the free function, in any order. The held blocks always lie inside the buffer and do not overlap;
  the counters are exact. An allocation fails only when every block is held, and otherwise gives a block
  that is disjoint from all held ones. Freeing a pointer that is not a held block (null, foreign, inside a block, freed before)
  changes nothing; a freed block is the next one to be handed out.
\<close>

theorem mempool_hands_out_free_blocks:
  assumes init: "xgl_mempool_init pool0 m0 buffer buffer_size block_size = (True, pool, m)" "buffer + buffer_size < SIZE_RANGE"
    and run: "snd (mempool.run (pool, m, {}) calls) = (pool', m', held)"
  shows "finite held \<and> xgl_mempool_get_used_count pool' = card held
      \<and> xgl_mempool_get_free_count pool' = buffer_size div block_size - card held
    \<and> (\<forall>b \<in> held. buffer \<le> b \<and> b + block_size \<le> buffer + buffer_size)
    \<and> (\<forall>b \<in> held. \<forall>c \<in> held. b \<noteq> c \<longrightarrow> b + block_size \<le> c \<or> c + block_size \<le> b)
    \<and> (if card held = buffer_size div block_size then xgl_mempool_alloc pool' m' = (0, pool')
       else (let b = fst (xgl_mempool_alloc pool' m')
             in b \<noteq> 0 \<and> b \<notin> held \<and> buffer \<le> b \<and> b + block_size \<le> buffer + buffer_size
                \<and> (\<forall>c \<in> held. b + block_size \<le> c \<or> c + block_size \<le> b)))
    \<and> (\<forall>p. p \<notin> held \<longrightarrow> xgl_mempool_free pool' m' p = (pool', m'))
    \<and> (\<forall>p \<in> held. fst (case xgl_mempool_free pool' m' p of (pool, m) \<Rightarrow> xgl_mempool_alloc pool m) = p)"
proof -
  note i = mempool_init_rep [OF init]
  have "{} = pool_blocks pool - set (rev (map (\<lambda>i. buffer + i * block_size) [0..<buffer_size div block_size]))"
    by (auto simp: pool_blocks_def i(2-4))
  then have "mempool_inv pool (pool, m, {})" using i(1) unfolding mempool_inv_def same_buffer_def by blast
  then have "mempool_inv pool (pool', m', held)" using mempool.run_inv [of pool "(pool, m, {})" calls] run by simp
  then obtain fs where buf: "same_buffer pool pool'" and rep: "pool_rep pool' m' fs" and held: "held = pool_blocks pool' - set fs"
    by (auto simp: mempool_inv_def)
  have sel: "mp_pool pool' = buffer" "mp_block_size pool' = block_size" "mp_block_count pool' = buffer_size div block_size"
    using buf i(2-4) by (simp_all add: same_buffer_def)
  have "buffer_size div block_size * block_size \<le> buffer_size" by simp
  then have inside: "buffer \<le> b \<and> b + block_size \<le> buffer + buffer_size" if "b \<in> pool_blocks pool'" for b
    using block_inside [OF that] unfolding sel by linarith
  have apart: "b + block_size \<le> c \<or> c + block_size \<le> b" if "b \<in> pool_blocks pool'" "c \<in> pool_blocks pool'" "b \<noteq> c" for b c
    using blocks_apart [OF that] sel by simp
  have card: "card held = buffer_size div block_size - length fs" "length fs \<le> buffer_size div block_size" "finite held"
    using rep_bounds [OF rep] held sel by simp_all
  have counts: "mp_free_count pool' = length fs" using rep by (simp add: pool_rep_def)
  have alloc: "if card held = buffer_size div block_size then xgl_mempool_alloc pool' m' = (0, pool')
      else (let b = fst (xgl_mempool_alloc pool' m')
            in b \<noteq> 0 \<and> b \<notin> held \<and> buffer \<le> b \<and> b + block_size \<le> buffer + buffer_size
               \<and> (\<forall>c \<in> held. b + block_size \<le> c \<or> c + block_size \<le> b))"
  proof (cases fs)
    case Nil
    then show ?thesis using card alloc_rep(1) [OF rep] by simp
  next
    case (Cons x gs)
    have x: "x \<in> pool_blocks pool'" "x \<noteq> 0" "x \<notin> held" "fst (xgl_mempool_alloc pool' m') = x"
      using rep Cons pool_shapeD(2) held alloc_rep(2) [OF rep Cons] by (auto simp: pool_rep_def)
    then show ?thesis using card Cons inside [OF x(1)] apart [OF x(1)] held by (auto simp: Let_def)
  qed
  have free: "fst (case xgl_mempool_free pool' m' p of (pool, m) \<Rightarrow> xgl_mempool_alloc pool m) = p" if "p \<in> held" for p
    using free_rep(1) [OF rep, of p] alloc_rep(2) that held by fastforce
  show ?thesis using card counts sel inside apart alloc free free_rep(2) [OF rep] held
    by (auto simp: xgl_mempool_get_used_count_def xgl_mempool_get_free_count_def)
qed

theorem mempool_hands_out_free_blocks_witness:
  "let (pool, m) = snd (xgl_mempool_init xgl_mempool_destroy (\<lambda>_. 0) 4096 80 16);
       (pool', m', held) = snd (mempool.run (pool, m, {}) [PoolAlloc, ClientWrite 4160 7, PoolAlloc, PoolFree 4160])
   in fst (xgl_mempool_init xgl_mempool_destroy (\<lambda>_. 0) 4096 80 16) \<and> xgl_mempool_get_used_count pool' = card held
      \<and> (\<forall>b \<in> held. 4096 \<le> b \<and> b + 16 \<le> 4096 + 80) \<and> xgl_mempool_free pool' m' 0 = (pool', m')"
proof -
  let ?i = "xgl_mempool_init xgl_mempool_destroy (\<lambda>_. 0) 4096 80 16"
  obtain pool m where i: "?i = (True, pool, m)" by (cases ?i) (simp add: xgl_mempool_init_def PTR_SIZE_def Let_def)
  obtain pool' m' held where r: "snd (mempool.run (pool, m, {}) [PoolAlloc, ClientWrite 4160 7, PoolAlloc, PoolFree 4160]) = (pool', m', held)"
    by (rule prod_cases3)
  have t: "xgl_mempool_get_used_count pool' = card held" "\<forall>b \<in> held. 4096 \<le> b \<and> b + 16 \<le> 4096 + 80"
      "\<forall>p. p \<notin> held \<longrightarrow> xgl_mempool_free pool' m' p = (pool', m')"
    using mempool_hands_out_free_blocks [OF i _ r] by (simp_all add: SIZE_RANGE_def)
  have "0 \<notin> held" using t(2) by force
  then show ?thesis unfolding i Let_def snd_conv fst_conv prod.case r using t by blast
qed

end
