(* ===== verification/Xgl_Tiered_Pool.thy ===== *)
theory Xgl_Tiered_Pool
  imports Xgl_Mempool
begin

text \<open>
  The tiered pool of \<^verbatim>\<open>src/memory/xgl_tiered_pool.c\<close> and \<^verbatim>\<open>xgl_tiered_pool_stats.c\<close>: three block pools of 64, 256 and
  1024 bytes over one memory. \<^verbatim>\<open>xgl_alloc\<close> is a list of the addresses it returns (0 for NULL), the calls of
  \<^verbatim>\<open>xgl_free\<close> are an output.

  The three tiers are reached by their index in the proofs (\<open>tier\<close>, \<open>set_tier\<close>). \<open>tiers_rep\<close> relates the pool to the free
  lists of the tiers; it needs that the three buffers do not overlap.
\<close>

section \<open>The tiered pool\<close>

definition XGL_TIERED_POOL_SMALL_SIZE :: nat where "XGL_TIERED_POOL_SMALL_SIZE = 64"

definition XGL_TIERED_POOL_MEDIUM_SIZE :: nat where "XGL_TIERED_POOL_MEDIUM_SIZE = 256"

definition XGL_TIERED_POOL_LARGE_SIZE :: nat where "XGL_TIERED_POOL_LARGE_SIZE = 1024"

lemmas tier_sizes = XGL_TIERED_POOL_SMALL_SIZE_def XGL_TIERED_POOL_MEDIUM_SIZE_def XGL_TIERED_POOL_LARGE_SIZE_def

record xgl_tiered_pool =
  ti_small_pool :: xgl_mempool
  ti_medium_pool :: xgl_mempool
  ti_large_pool :: xgl_mempool
  ti_small_buffer :: nat
  ti_medium_buffer :: nat
  ti_large_buffer :: nat
  ti_small_count :: nat
  ti_medium_count :: nat
  ti_large_count :: nat
  ti_owns_buffers :: bool

definition zero_tiered_pool :: xgl_tiered_pool where
  "zero_tiered_pool = \<lparr> ti_small_pool = xgl_mempool_destroy, ti_medium_pool = xgl_mempool_destroy, ti_large_pool = xgl_mempool_destroy,
     ti_small_buffer = 0, ti_medium_buffer = 0, ti_large_buffer = 0, ti_small_count = 0, ti_medium_count = 0, ti_large_count = 0,
     ti_owns_buffers = False \<rparr>"

definition tiered_pool_size_overflows :: "nat \<Rightarrow> nat \<Rightarrow> bool" where
  "tiered_pool_size_overflows count block_size \<longleftrightarrow> count > (SIZE_RANGE - 1) div block_size"

definition tiered_pool_init_one :: "xgl_mempool \<Rightarrow> memory \<Rightarrow> nat \<Rightarrow> nat \<Rightarrow> nat \<Rightarrow> bool \<times> xgl_mempool \<times> memory" where
  "tiered_pool_init_one mempool m buffer count block_size =
     (if count = 0 then (True, mempool, m)
      else if buffer = 0 \<or> tiered_pool_size_overflows count block_size then (False, mempool, m)
      else xgl_mempool_init mempool m buffer (count * block_size) block_size)"

definition tiered_pool_contains_block :: "xgl_mempool \<Rightarrow> nat \<Rightarrow> bool" where
  "tiered_pool_contains_block mempool ptr =
     (if mp_pool mempool = 0 \<or> ptr = 0 \<or> mp_block_size mempool = 0 \<or> mp_block_count mempool = 0 \<or>
         tiered_pool_size_overflows (mp_block_count mempool) (mp_block_size mempool) then False
      else let start = mp_pool mempool;
               end_addr = (start + mp_block_count mempool * mp_block_size mempool) mod SIZE_RANGE
           in if ptr < start \<or> ptr \<ge> end_addr then False else (ptr - start) mod mp_block_size mempool = 0)"

definition xgl_tiered_pool_destroy :: "xgl_tiered_pool \<Rightarrow> nat list \<times> xgl_tiered_pool" where
  "xgl_tiered_pool_destroy pool =
     ((if ti_owns_buffers pool \<and> ti_small_buffer pool \<noteq> 0 then [ti_small_buffer pool] else []) @
      (if ti_owns_buffers pool \<and> ti_medium_buffer pool \<noteq> 0 then [ti_medium_buffer pool] else []) @
      (if ti_owns_buffers pool \<and> ti_large_buffer pool \<noteq> 0 then [ti_large_buffer pool] else []),
      zero_tiered_pool)"

text \<open>
  \<^verbatim>\<open>xgl_alloc(NULL, size)\<close>, and one of the three blocks of \<^verbatim>\<open>xgl_tiered_pool_init\<close> that allocate a buffer and
  set up a tier: the buffer's size is computed without an overflow check.
\<close>

definition heap_alloc :: "nat \<Rightarrow> nat list \<Rightarrow> nat \<times> nat list" where
  "heap_alloc n addrs = (if n = 0 then (0, addrs) else case addrs of [] \<Rightarrow> (0, []) | a # as \<Rightarrow> (a, as))"

definition tiered_alloc_tier ::
  "memory \<Rightarrow> nat list \<Rightarrow> nat \<Rightarrow> nat \<Rightarrow> bool \<times> nat \<times> xgl_mempool \<times> memory \<times> nat list" where
  "tiered_alloc_tier m addrs count block_size =
     (if count = 0 then (True, 0, xgl_mempool_destroy, m, addrs)
      else let buffer_size = (count * block_size) mod SIZE_RANGE;
               (buffer, addrs) = heap_alloc buffer_size addrs
           in if buffer = 0 then (False, 0, xgl_mempool_destroy, m, addrs)
              else case xgl_mempool_init xgl_mempool_destroy m buffer buffer_size block_size of
                     (ok, p, m) \<Rightarrow> (ok, buffer, p, m, addrs))"

definition xgl_tiered_pool_init ::
  "memory \<Rightarrow> nat list \<Rightarrow> nat \<Rightarrow> nat \<Rightarrow> nat \<Rightarrow> bool \<times> nat list \<times> xgl_tiered_pool \<times> memory" where
  "xgl_tiered_pool_init m addrs small_count medium_count large_count =
     (let pool = zero_tiered_pool \<lparr> ti_owns_buffers := True, ti_small_count := small_count, ti_medium_count := medium_count,
                                   ti_large_count := large_count \<rparr>;
          cleanup = (\<lambda>pool m. case xgl_tiered_pool_destroy pool of (freed, pool) \<Rightarrow> (False, freed, pool, m));
          (ok, b, p, m, addrs) = tiered_alloc_tier m addrs small_count XGL_TIERED_POOL_SMALL_SIZE;
          pool = pool \<lparr> ti_small_buffer := b, ti_small_pool := p \<rparr>
      in if \<not> ok then cleanup pool m
         else let (ok, b, p, m, addrs) = tiered_alloc_tier m addrs medium_count XGL_TIERED_POOL_MEDIUM_SIZE;
                  pool = pool \<lparr> ti_medium_buffer := b, ti_medium_pool := p \<rparr>
              in if \<not> ok then cleanup pool m
                 else let (ok, b, p, m, addrs) = tiered_alloc_tier m addrs large_count XGL_TIERED_POOL_LARGE_SIZE;
                          pool = pool \<lparr> ti_large_buffer := b, ti_large_pool := p \<rparr>
                      in if \<not> ok then cleanup pool m else (True, [], pool, m))"

definition xgl_tiered_pool_init_static ::
  "memory \<Rightarrow> nat \<Rightarrow> nat \<Rightarrow> nat \<Rightarrow> nat \<Rightarrow> nat \<Rightarrow> nat \<Rightarrow> bool \<times> xgl_tiered_pool \<times> memory" where
  "xgl_tiered_pool_init_static m small_buffer small_count medium_buffer medium_count large_buffer large_count =
     (let pool = zero_tiered_pool;
          (ok, p, m) = tiered_pool_init_one (ti_small_pool pool) m small_buffer small_count XGL_TIERED_POOL_SMALL_SIZE;
          pool = pool \<lparr> ti_small_pool := p \<rparr>
      in if \<not> ok then (False, zero_tiered_pool, m)
         else let (ok, p, m) = tiered_pool_init_one (ti_medium_pool pool) m medium_buffer medium_count XGL_TIERED_POOL_MEDIUM_SIZE;
                  pool = pool \<lparr> ti_medium_pool := p \<rparr>
              in if \<not> ok then (False, zero_tiered_pool, m)
                 else let (ok, p, m) = tiered_pool_init_one (ti_large_pool pool) m large_buffer large_count XGL_TIERED_POOL_LARGE_SIZE;
                          pool = pool \<lparr> ti_large_pool := p \<rparr>
                      in if \<not> ok then (False, zero_tiered_pool, m)
                         else (True, pool \<lparr> ti_small_buffer := if small_count > 0 then small_buffer else 0,
                                            ti_medium_buffer := if medium_count > 0 then medium_buffer else 0,
                                            ti_large_buffer := if large_count > 0 then large_buffer else 0,
                                            ti_small_count := small_count, ti_medium_count := medium_count,
                                            ti_large_count := large_count, ti_owns_buffers := False \<rparr>, m))"

definition tier_try :: "bool \<Rightarrow> xgl_mempool \<Rightarrow> memory \<Rightarrow> nat \<times> xgl_mempool" where
  "tier_try fits p m = (if fits then xgl_mempool_alloc p m else (0, p))"

definition xgl_tiered_pool_alloc :: "xgl_tiered_pool \<Rightarrow> memory \<Rightarrow> nat \<Rightarrow> nat \<times> xgl_tiered_pool" where
  "xgl_tiered_pool_alloc pool m n =
     (if n = 0 then (0, pool)
      else let (ptr, p) = tier_try (n \<le> XGL_TIERED_POOL_SMALL_SIZE \<and> ti_small_count pool > 0) (ti_small_pool pool) m;
               pool = pool \<lparr> ti_small_pool := p \<rparr>
           in if ptr \<noteq> 0 then (ptr, pool)
              else let (ptr, p) = tier_try (n \<le> XGL_TIERED_POOL_MEDIUM_SIZE \<and> ti_medium_count pool > 0) (ti_medium_pool pool) m;
                       pool = pool \<lparr> ti_medium_pool := p \<rparr>
                   in if ptr \<noteq> 0 then (ptr, pool)
                      else let (ptr, p) = tier_try (n \<le> XGL_TIERED_POOL_LARGE_SIZE \<and> ti_large_count pool > 0) (ti_large_pool pool) m;
                               pool = pool \<lparr> ti_large_pool := p \<rparr>
                           in if ptr \<noteq> 0 then (ptr, pool) else (0, pool))"

definition xgl_tiered_pool_free :: "xgl_tiered_pool \<Rightarrow> memory \<Rightarrow> nat \<Rightarrow> nat \<Rightarrow> xgl_tiered_pool \<times> memory" where
  "xgl_tiered_pool_free pool m ptr n =
     (if ptr = 0 \<or> n = 0 then (pool, m)
      else if tiered_pool_contains_block (ti_small_pool pool) ptr
           then (case xgl_mempool_free (ti_small_pool pool) m ptr of (p, m) \<Rightarrow> (pool \<lparr> ti_small_pool := p \<rparr>, m))
      else if tiered_pool_contains_block (ti_medium_pool pool) ptr
           then (case xgl_mempool_free (ti_medium_pool pool) m ptr of (p, m) \<Rightarrow> (pool \<lparr> ti_medium_pool := p \<rparr>, m))
      else if tiered_pool_contains_block (ti_large_pool pool) ptr
           then (case xgl_mempool_free (ti_large_pool pool) m ptr of (p, m) \<Rightarrow> (pool \<lparr> ti_large_pool := p \<rparr>, m))
      else (pool, m))"

definition tier_memory :: "nat \<Rightarrow> nat \<Rightarrow> nat \<Rightarrow> nat" where
  "tier_memory count blocks block_size = (if count > 0 then blocks * block_size else 0)"

definition xgl_tiered_pool_get_free_memory :: "xgl_tiered_pool \<Rightarrow> nat" where
  "xgl_tiered_pool_get_free_memory pool =
     (tier_memory (ti_small_count pool) (xgl_mempool_get_free_count (ti_small_pool pool)) XGL_TIERED_POOL_SMALL_SIZE +
      tier_memory (ti_medium_count pool) (xgl_mempool_get_free_count (ti_medium_pool pool)) XGL_TIERED_POOL_MEDIUM_SIZE +
      tier_memory (ti_large_count pool) (xgl_mempool_get_free_count (ti_large_pool pool)) XGL_TIERED_POOL_LARGE_SIZE) mod SIZE_RANGE"

definition xgl_tiered_pool_get_used_memory :: "xgl_tiered_pool \<Rightarrow> nat" where
  "xgl_tiered_pool_get_used_memory pool =
     (tier_memory (ti_small_count pool) (xgl_mempool_get_used_count (ti_small_pool pool)) XGL_TIERED_POOL_SMALL_SIZE +
      tier_memory (ti_medium_count pool) (xgl_mempool_get_used_count (ti_medium_pool pool)) XGL_TIERED_POOL_MEDIUM_SIZE +
      tier_memory (ti_large_count pool) (xgl_mempool_get_used_count (ti_large_pool pool)) XGL_TIERED_POOL_LARGE_SIZE) mod SIZE_RANGE"

definition xgl_tiered_pool_get_peak_memory :: "xgl_tiered_pool \<Rightarrow> nat" where
  "xgl_tiered_pool_get_peak_memory pool =
     (tier_memory (ti_small_count pool) (xgl_mempool_get_peak_used (ti_small_pool pool)) XGL_TIERED_POOL_SMALL_SIZE +
      tier_memory (ti_medium_count pool) (xgl_mempool_get_peak_used (ti_medium_pool pool)) XGL_TIERED_POOL_MEDIUM_SIZE +
      tier_memory (ti_large_count pool) (xgl_mempool_get_peak_used (ti_large_pool pool)) XGL_TIERED_POOL_LARGE_SIZE) mod SIZE_RANGE"

definition xgl_tiered_pool_reset_stats :: "xgl_tiered_pool \<Rightarrow> xgl_tiered_pool" where
  "xgl_tiered_pool_reset_stats pool =
     pool \<lparr> ti_small_pool := if ti_small_count pool > 0 then xgl_mempool_reset_stats (ti_small_pool pool) else ti_small_pool pool,
            ti_medium_pool := if ti_medium_count pool > 0 then xgl_mempool_reset_stats (ti_medium_pool pool) else ti_medium_pool pool,
            ti_large_pool := if ti_large_count pool > 0 then xgl_mempool_reset_stats (ti_large_pool pool) else ti_large_pool pool \<rparr>"

section \<open>The tiers and their free blocks\<close>

definition tier :: "nat \<Rightarrow> xgl_tiered_pool \<Rightarrow> xgl_mempool" where
  "tier i t = (if i = 0 then ti_small_pool t else if i = 1 then ti_medium_pool t else ti_large_pool t)"

definition set_tier :: "nat \<Rightarrow> xgl_mempool \<Rightarrow> xgl_tiered_pool \<Rightarrow> xgl_tiered_pool" where
  "set_tier i p t = (if i = 0 then t \<lparr> ti_small_pool := p \<rparr> else if i = 1 then t \<lparr> ti_medium_pool := p \<rparr> else t \<lparr> ti_large_pool := p \<rparr>)"

definition tier_count :: "nat \<Rightarrow> xgl_tiered_pool \<Rightarrow> nat" where
  "tier_count i t = (if i = 0 then ti_small_count t else if i = 1 then ti_medium_count t else ti_large_count t)"

definition tier_size :: "nat \<Rightarrow> nat" where
  "tier_size i = (if i = 0 then 64 else if i = 1 then 256 else 1024)"

definition pools_apart :: "xgl_mempool \<Rightarrow> xgl_mempool \<Rightarrow> bool" where
  "pools_apart p q \<longleftrightarrow> mp_pool p + mp_block_count p * mp_block_size p \<le> mp_pool q \<or> mp_pool q + mp_block_count q * mp_block_size q \<le> mp_pool p"

definition tier_rep :: "nat \<Rightarrow> xgl_tiered_pool \<Rightarrow> memory \<Rightarrow> nat list \<Rightarrow> bool" where
  "tier_rep i t m f \<longleftrightarrow> (if tier_count i t = 0 then f = [] \<and> mp_pool (tier i t) = 0 \<and> mp_block_count (tier i t) = 0
      else pool_rep (tier i t) m f \<and> mp_block_size (tier i t) = tier_size i)"

definition tiers_rep :: "xgl_tiered_pool \<Rightarrow> memory \<Rightarrow> (nat \<Rightarrow> nat list) \<Rightarrow> bool" where
  "tiers_rep t m fs \<longleftrightarrow> (\<forall>i<3. tier_rep i t m (fs i)) \<and> (\<forall>i<3. \<forall>j<3. i \<noteq> j \<longrightarrow> pools_apart (tier i t) (tier j t))"

definition held_blocks :: "xgl_tiered_pool \<Rightarrow> (nat \<Rightarrow> nat list) \<Rightarrow> nat set" where
  "held_blocks t fs = (\<Union>i<3. pool_blocks (tier i t) - set (fs i))"

lemma tier_simps [simp]:
  "tier i (set_tier i p t) = p" "i < 3 \<Longrightarrow> j < 3 \<Longrightarrow> i \<noteq> j \<Longrightarrow> tier j (set_tier i p t) = tier j t" "tier_count j (set_tier i p t) = tier_count j t"
  by (auto simp: tier_def set_tier_def tier_count_def)

lemma all_tiers: "(\<forall>i<3. P i) \<longleftrightarrow> P 0 \<and> P 1 \<and> P (2::nat)"
  by (metis One_nat_def Suc_1 less_2_cases_iff less_Suc_eq numeral_3_eq_3 zero_less_Suc lessI)

lemma tier_try_rep:
  assumes "tier_rep i t m f" "fits \<longleftrightarrow> n \<le> tier_size i \<and> tier_count i t > 0"
  shows "if n \<le> tier_size i \<and> f \<noteq> []
    then \<exists>p. tier_try fits (tier i t) m = (hd f, p) \<and> hd f \<noteq> 0 \<and> pool_rep p m (tl f) \<and> same_buffer (tier i t) p
    else tier_try fits (tier i t) m = (0, tier i t)"
proof (cases "n \<le> tier_size i \<and> f \<noteq> []")
  case True
  then have c: "tier_count i t > 0" and rep: "pool_rep (tier i t) m f" using assms by (auto simp: tier_rep_def split: if_splits)
  then obtain x gs where f: "f = x # gs" using True by (cases f) auto
  then have "x \<noteq> 0" using rep by (simp add: pool_rep_def)
  then show ?thesis using alloc_rep(2) [OF rep f] f c True assms(2) by (auto simp: tier_try_def)
next
  case False
  then show ?thesis using assms alloc_rep(1) [of "tier i t" m f] by (auto simp: tier_try_def tier_rep_def split: if_splits)
qed

lemma set_same_tier [simp]: "set_tier i (tier i t) t = t"
  by (simp add: set_tier_def tier_def)

lemma tiered_alloc_eq:
  "xgl_tiered_pool_alloc t m n =
     (if n = 0 then (0, t)
      else case tier_try (n \<le> tier_size 0 \<and> tier_count 0 t > 0) (tier 0 t) m of (a, p) \<Rightarrow>
        if a \<noteq> 0 then (a, set_tier 0 p t)
        else let t = set_tier 0 p t in case tier_try (n \<le> tier_size 1 \<and> tier_count 1 t > 0) (tier 1 t) m of (a, p) \<Rightarrow>
          if a \<noteq> 0 then (a, set_tier 1 p t)
          else let t = set_tier 1 p t in case tier_try (n \<le> tier_size 2 \<and> tier_count 2 t > 0) (tier 2 t) m of (a, p) \<Rightarrow>
            if a \<noteq> 0 then (a, set_tier 2 p t) else (0, set_tier 2 p t))"
  by (simp add: xgl_tiered_pool_alloc_def tier_sizes tier_size_def tier_def set_tier_def tier_count_def Let_def case_prod_beta)

lemma tiered_alloc_cases:
  assumes rep: "\<forall>i<3. tier_rep i t m (fs i)" and n: "n \<noteq> 0"
  obtains (found) i p where "i < 3" "n \<le> tier_size i" "fs i \<noteq> []" "xgl_tiered_pool_alloc t m n = (hd (fs i), set_tier i p t)"
      "hd (fs i) \<noteq> 0" "pool_rep p m (tl (fs i))" "same_buffer (tier i t) p"
  | (full) "\<And>i. i < 3 \<Longrightarrow> n \<le> tier_size i \<Longrightarrow> fs i = []" "xgl_tiered_pool_alloc t m n = (0, t)"
proof -
  have reps: "tier_rep 0 t m (fs 0)" "tier_rep 1 t m (fs 1)" "tier_rep 2 t m (fs 2)" using rep by (simp_all add: all_tiers)
  note tries = reps [THEN tier_try_rep, OF refl, of n]
  consider "n \<le> tier_size 0 \<and> fs 0 \<noteq> []" | "\<not> (n \<le> tier_size 0 \<and> fs 0 \<noteq> [])" "n \<le> tier_size 1 \<and> fs 1 \<noteq> []"
    | "\<not> (n \<le> tier_size 0 \<and> fs 0 \<noteq> [])" "\<not> (n \<le> tier_size 1 \<and> fs 1 \<noteq> [])" "n \<le> tier_size 2 \<and> fs 2 \<noteq> []"
    | "\<forall>i<3. \<not> (n \<le> tier_size i \<and> fs i \<noteq> [])" by (auto simp: all_tiers)
  then show ?thesis
  proof cases
    case 1
    then show ?thesis using tries(1) n by (auto simp: tiered_alloc_eq intro!: found [of 0])
  next
    case 2
    then show ?thesis using tries(1,2) n by (auto simp: tiered_alloc_eq intro!: found [of 1])
  next
    case 3
    then show ?thesis using tries n by (auto simp: tiered_alloc_eq intro!: found [of 2])
  next
    case 4
    then have "tier_try (n \<le> tier_size i \<and> 0 < tier_count i t) (tier i t) m = (0, tier i t)" if "i < 3" for i
      using tier_try_rep [OF rep [rule_format, OF that] refl, of n] that by auto
    then have "xgl_tiered_pool_alloc t m n = (0, t)" using n by (simp add: tiered_alloc_eq Let_def)
    then show ?thesis using 4 full by blast
  qed
qed

lemma tiered_contains: "tiered_pool_contains_block p a = mempool_contains_block p a"
  by (auto simp: tiered_pool_contains_block_def mempool_contains_block_def tiered_pool_size_overflows_def mempool_size_overflows_def Let_def)

lemma tier_contains:
  assumes "tier_rep i t m f"
  shows "mempool_contains_block (tier i t) a \<longleftrightarrow> a \<in> pool_blocks (tier i t)"
proof (cases "tier_count i t = 0")
  case True
  then show ?thesis using assms by (simp add: tier_rep_def mempool_contains_block_def pool_blocks_def)
next
  case False
  then show ?thesis using assms contains_block_iff by (simp add: tier_rep_def pool_rep_def)
qed

lemma tiered_free_cases:
  assumes rep: "\<forall>i<3. tier_rep i t m (fs i)" and a: "a \<noteq> 0" "n \<noteq> 0"
  obtains (found) i p m' where "i < 3" "a \<in> pool_blocks (tier i t)" "xgl_mempool_free (tier i t) m a = (p, m')"
      "xgl_tiered_pool_free t m a n = (set_tier i p t, m')"
  | (none) "\<And>i. i < 3 \<Longrightarrow> a \<notin> pool_blocks (tier i t)" "xgl_tiered_pool_free t m a n = (t, m)"
proof -
  have c: "mempool_contains_block (tier i t) a \<longleftrightarrow> a \<in> pool_blocks (tier i t)" if "i < 3" for i
    using tier_contains rep that by blast
  have eq: "xgl_tiered_pool_free t m a n =
      (if a \<in> pool_blocks (tier 0 t) then case xgl_mempool_free (tier 0 t) m a of (p, m) \<Rightarrow> (set_tier 0 p t, m)
       else if a \<in> pool_blocks (tier 1 t) then case xgl_mempool_free (tier 1 t) m a of (p, m) \<Rightarrow> (set_tier 1 p t, m)
       else if a \<in> pool_blocks (tier 2 t) then case xgl_mempool_free (tier 2 t) m a of (p, m) \<Rightarrow> (set_tier 2 p t, m)
       else (t, m))"
    using a c [of 0] c [of 1] c [of 2] by (simp add: xgl_tiered_pool_free_def tiered_contains tier_def set_tier_def)
  consider i where "i < 3" "a \<in> pool_blocks (tier i t)" "\<forall>j<i. a \<notin> pool_blocks (tier j t)" | "\<forall>i<3. a \<notin> pool_blocks (tier i t)"
    using exists_least_iff [of "\<lambda>i. i < 3 \<and> a \<in> pool_blocks (tier i t)"] by (metis order.strict_trans)
  then show ?thesis
  proof cases
    case (1 i)
    obtain p m' where f: "xgl_mempool_free (tier i t) m a = (p, m')" by (rule prod.exhaust)
    then have "xgl_tiered_pool_free t m a n = (set_tier i p t, m')"
      using 1 less_Suc_eq [of i 2] less_2_cases [of i] by (auto simp: eq numeral_3_eq_3 numeral_2_eq_2)
    then show ?thesis using found 1 f by blast
  next
    case 2
    then have "xgl_tiered_pool_free t m a n = (t, m)" by (simp add: eq)
    then show ?thesis using none 2 by blast
  qed
qed

lemma apart_outside: "pools_apart p q \<Longrightarrow> b \<in> pool_blocks q \<Longrightarrow> b \<le> a \<Longrightarrow> a < b + mp_block_size q \<Longrightarrow> outside p a"
  using block_inside [of b q] by (auto simp: pools_apart_def outside_def)

lemma same_buffer_apart: "same_buffer p q \<Longrightarrow> pools_apart q r = pools_apart p r" "same_buffer p q \<Longrightarrow> pools_apart r q = pools_apart r p"
  by (simp_all add: same_buffer_def pools_apart_def)

lemma tier_rep_blocks: "tier_rep i t m f \<Longrightarrow> b \<in> pool_blocks (tier i t) \<Longrightarrow>
    tier_count i t \<noteq> 0 \<and> pool_rep (tier i t) m f \<and> mp_block_size (tier i t) = tier_size i"
  by (auto simp: tier_rep_def pool_blocks_def split: if_splits)

lemma tier_rep_cong:
  assumes "tier_rep j t m f" "\<And>b a. b \<in> set f \<Longrightarrow> b \<in> pool_blocks (tier j t) \<Longrightarrow> b \<le> a \<Longrightarrow> a < b + mp_block_size (tier j t) \<Longrightarrow> m' a = m a"
  shows "tier_rep j t m' f"
proof (cases "tier_count j t = 0")
  case False
  then have rep: "pool_rep (tier j t) m f" and sz: "mp_block_size (tier j t) = tier_size j" using assms(1) by (simp_all add: tier_rep_def)
  then have "PTR_SIZE \<le> mp_block_size (tier j t)" "set f \<subseteq> pool_blocks (tier j t)" by (simp_all add: pool_rep_def pool_shape_def)
  then have "pool_rep (tier j t) m' f" by (intro pool_rep_cong [OF rep] assms(2)) auto
  then show ?thesis using False sz by (simp add: tier_rep_def)
qed (use assms in \<open>simp add: tier_rep_def\<close>)

lemma set_tier_rep:
  assumes rep: "tiers_rep t m fs" and i: "i < 3" "tier_count i t \<noteq> 0" "pool_rep p m' f" "same_buffer (tier i t) p"
    and frame: "\<And>a. outside (tier i t) a \<Longrightarrow> m' a = m a"
  shows "tiers_rep (set_tier i p t) m' (fs(i := f))"
proof -
  have apart: "pools_apart (tier j t) (tier k t)" if "j < 3" "k < 3" "j \<noteq> k" for j k using rep that by (simp add: tiers_rep_def)
  have same: "same_buffer (tier j t) (tier j (set_tier i p t))" if "j < 3" for j
    using i(1,4) that by (cases "j = i") (auto simp: same_buffer_def)
  have "tier_rep j (set_tier i p t) m' ((fs(i := f)) j)" if j: "j < 3" for j
  proof (cases "j = i")
    case True
    have "mp_block_size (tier i t) = tier_size i" using rep i(1,2) by (simp add: tiers_rep_def tier_rep_def)
    then show ?thesis using True i by (simp add: tier_rep_def same_buffer_def)
  next
    case False
    have "tier_rep j t m (fs j)" using rep j by (simp add: tiers_rep_def)
    then have "tier_rep j t m' (fs j)"
      by (rule tier_rep_cong) (use frame apart_outside [OF apart [OF i(1) j]] False in auto)
    then show ?thesis using False i(1) j by (simp add: tier_rep_def)
  qed
  moreover have "pools_apart (tier j (set_tier i p t)) (tier k (set_tier i p t))" if "j < 3" "k < 3" "j \<noteq> k" for j k
    using apart [OF that] same_buffer_apart(1) [OF same [OF that(1)]] same_buffer_apart(2) [OF same [OF that(2)]] by simp
  ultimately show ?thesis unfolding tiers_rep_def by blast
qed

lemma tier_blocks_disjoint:
  assumes "tiers_rep t m fs" "i < 3" "j < 3" "i \<noteq> j" "b \<in> pool_blocks (tier i t)" "c \<in> pool_blocks (tier j t)"
  shows "b + tier_size i \<le> c \<or> c + tier_size j \<le> b"
proof -
  have "mp_block_size (tier i t) = tier_size i" "mp_block_size (tier j t) = tier_size j"
    using assms tier_rep_blocks unfolding tiers_rep_def by blast+
  moreover have "pools_apart (tier i t) (tier j t)" using assms by (simp add: tiers_rep_def)
  ultimately show ?thesis using block_inside [OF assms(5)] block_inside [OF assms(6)] by (auto simp: pools_apart_def)
qed

lemma tier_size_pos: "0 < tier_size i" "PTR_SIZE \<le> tier_size i"
  by (simp_all add: tier_size_def PTR_SIZE_def)

lemma tier_unique: "tiers_rep t m fs \<Longrightarrow> i < 3 \<Longrightarrow> j < 3 \<Longrightarrow> a \<in> pool_blocks (tier i t) \<Longrightarrow> a \<in> pool_blocks (tier j t) \<Longrightarrow> i = j"
  using tier_blocks_disjoint [of t m fs i j a a] tier_size_pos [of i] tier_size_pos [of j] by force

lemma held_in_tier:
  assumes "tiers_rep t m fs" "i < 3" "a \<in> pool_blocks (tier i t)"
  shows "a \<in> held_blocks t fs \<longleftrightarrow> a \<notin> set (fs i)"
  using assms tier_unique [OF assms(1,2) _ assms(3)] unfolding held_blocks_def by blast

lemma held_set_tier:
  assumes rep: "tiers_rep t m fs" and i: "i < 3" "same_buffer (tier i t) p"
  shows "a \<in> pool_blocks (tier i t) \<Longrightarrow> fs i = a # gs \<Longrightarrow> a \<notin> set gs \<Longrightarrow> held_blocks (set_tier i p t) (fs(i := gs)) = insert a (held_blocks t fs)"
    and "a \<in> pool_blocks (tier i t) \<Longrightarrow> held_blocks (set_tier i p t) (fs(i := a # fs i)) = held_blocks t fs - {a}"
proof -
  have blocks: "pool_blocks (tier j (set_tier i p t)) = pool_blocks (tier j t)" if "j < 3" for j
    using same_bufferD(1) [OF i(2)] i(1) that by (cases "j = i") auto
  have other: "a \<notin> pool_blocks (tier j t)" if "j < 3" "j \<noteq> i" "a \<in> pool_blocks (tier i t)" for j
    using tier_unique [OF rep i(1) that(1,3)] that(2) by blast
  show "a \<in> pool_blocks (tier i t) \<Longrightarrow> fs i = a # gs \<Longrightarrow> a \<notin> set gs \<Longrightarrow> held_blocks (set_tier i p t) (fs(i := gs)) = insert a (held_blocks t fs)"
    using i(1) blocks by (auto simp: held_blocks_def split: if_splits)
  show "a \<in> pool_blocks (tier i t) \<Longrightarrow> held_blocks (set_tier i p t) (fs(i := a # fs i)) = held_blocks t fs - {a}"
    using i(1) blocks other by (auto simp: held_blocks_def split: if_splits)
qed

section \<open>Calls and client writes\<close>

datatype tiered_call =
    TierAlloc nat
  | TierFree nat nat
  | TierReset
  | TierWrite nat u8

definition tiered_owns :: "xgl_tiered_pool \<Rightarrow> nat set \<Rightarrow> nat \<Rightarrow> bool" where
  "tiered_owns t held a \<longleftrightarrow> (\<forall>i \<in> {..<3}. outside (tier i t) a)
     \<or> (\<exists>i \<in> {..<3}. \<exists>b \<in> held. b \<in> pool_blocks (tier i t) \<and> b \<le> a \<and> a < b + tier_size i)"

fun tiered_step :: "xgl_tiered_pool \<times> memory \<times> nat set \<Rightarrow> tiered_call \<Rightarrow> nat \<times> xgl_tiered_pool \<times> memory \<times> nat set" where
  "tiered_step (t, m, held) (TierAlloc n) =
     (case xgl_tiered_pool_alloc t m n of (b, t) \<Rightarrow> (b, t, m, if b = 0 then held else insert b held))"
| "tiered_step (t, m, held) (TierFree p n) =
     (case xgl_tiered_pool_free t m p n of (t, m) \<Rightarrow> (0, t, m, if n = 0 then held else held - {p}))"
| "tiered_step (t, m, held) TierReset = (0, xgl_tiered_pool_reset_stats t, m, held)"
| "tiered_step (t, m, held) (TierWrite a v) = (0, t, if tiered_owns t held a then m(a := v) else m, held)"

definition same_tiers :: "xgl_tiered_pool \<Rightarrow> xgl_tiered_pool \<Rightarrow> bool" where
  "same_tiers t t' \<longleftrightarrow> (\<forall>i<3. same_buffer (tier i t) (tier i t') \<and> tier_count i t' = tier_count i t)"

definition tiered_inv :: "xgl_tiered_pool \<Rightarrow> xgl_tiered_pool \<times> memory \<times> nat set \<Rightarrow> bool" where
  "tiered_inv T = (\<lambda>(t, m, held). same_tiers T t \<and> (\<exists>fs. tiers_rep t m fs \<and> held = held_blocks t fs))"

lemma tiered_invI: "same_tiers T t \<Longrightarrow> tiers_rep t m fs \<Longrightarrow> held = held_blocks t fs \<Longrightarrow> tiered_inv T (t, m, held)"
  unfolding tiered_inv_def by blast

lemma same_tiers_set: "same_tiers T t \<Longrightarrow> i < 3 \<Longrightarrow> same_buffer (tier i t) p \<Longrightarrow> same_tiers T (set_tier i p t)"
  unfolding same_tiers_def by (metis same_buffer_trans tier_simps)

lemma tiered_write_rep:
  assumes rep: "tiers_rep t m fs" and own: "tiered_owns t (held_blocks t fs) a"
  shows "tiers_rep t (m(a := v)) fs"
proof -
  have "tier_rep i t (m(a := v)) (fs i)" if i: "i < 3" for i
  proof (rule tier_rep_cong)
    show r: "tier_rep i t m (fs i)" using rep i by (simp add: tiers_rep_def)
    fix b c assume b: "b \<in> set (fs i)" "b \<in> pool_blocks (tier i t)" "b \<le> c" "c < b + mp_block_size (tier i t)"
    have sz: "mp_block_size (tier i t) = tier_size i" using tier_rep_blocks [OF r b(2)] by simp
    have "\<not> outside (tier i t) c" using block_inside [OF b(2)] b(3,4) by (simp add: outside_def)
    moreover have "c \<noteq> a" if j: "j < 3" "d \<in> held_blocks t fs" "d \<in> pool_blocks (tier j t)" "d \<le> a" "a < d + tier_size j" for j d
    proof (cases "j = i")
      case True
      then have "d \<noteq> b" using held_in_tier [OF rep j(1,3)] j(2) b(1) by blast
      then show ?thesis using blocks_apart [OF b(2), of d] j b sz True by auto
    next
      case False
      then show ?thesis using tier_blocks_disjoint [OF rep i j(1) _ b(2) j(3)] j(4,5) b(3,4) sz by auto
    qed
    ultimately show "(m(a := v)) c = m c" using own i unfolding tiered_owns_def by auto
  qed
  then show ?thesis using rep by (simp add: tiers_rep_def)
qed

lemma tiered_reset_rep:
  assumes rep: "tiers_rep t m fs"
  shows "tiers_rep (xgl_tiered_pool_reset_stats t) m fs \<and> same_tiers t (xgl_tiered_pool_reset_stats t)"
proof -
  let ?t = "xgl_tiered_pool_reset_stats t"
  have tier: "tier i ?t = (if tier_count i t > 0 then xgl_mempool_reset_stats (tier i t) else tier i t)" "tier_count i ?t = tier_count i t" for i
    by (simp_all add: xgl_tiered_pool_reset_stats_def tier_def tier_count_def)
  have same: "same_buffer (tier i t) (tier i ?t)" for i by (simp add: tier(1) same_buffer_def xgl_mempool_reset_stats_def)
  have "tier_rep i ?t m (fs i)" if "i < 3" for i
    using rep that reset_rep [of "tier i t" m "fs i"] by (auto simp: tiers_rep_def tier_rep_def tier same_buffer_def)
  then show ?thesis using rep same same_buffer_apart tier(2) unfolding tiers_rep_def same_tiers_def by (metis (no_types))
qed

lemma tiered_alloc_inv:
  assumes T: "same_tiers T t" and rep: "tiers_rep t m fs"
  shows "tiered_inv T (snd (tiered_step (t, m, held_blocks t fs) (TierAlloc n)))"
proof (cases "n = 0")
  case True
  then show ?thesis using tiered_invI [OF T rep refl] by (simp add: xgl_tiered_pool_alloc_def)
next
  case False
  have reps: "\<forall>i<3. tier_rep i t m (fs i)" using rep by (simp add: tiers_rep_def)
  show ?thesis
  proof (cases rule: tiered_alloc_cases [OF reps False])
    case (1 i p)
    then obtain x gs where f: "fs i = x # gs" by (cases "fs i") auto
    have pr: "tier_count i t \<noteq> 0" "pool_rep (tier i t) m (fs i)" using reps 1(1,3) by (auto simp: tier_rep_def split: if_splits)
    then have x: "x \<in> pool_blocks (tier i t)" "x \<notin> set gs" using f by (auto simp: pool_rep_def)
    have "tiers_rep (set_tier i p t) m (fs(i := gs))" using set_tier_rep [OF rep 1(1) pr(1) 1(6,7)] f by simp
    from tiered_invI [OF same_tiers_set [OF T 1(1,7)] this held_set_tier(1) [OF rep 1(1,7) x(1) f x(2), symmetric]]
    show ?thesis using 1(4,5) f by simp
  next
    case 2
    then show ?thesis using tiered_invI [OF T rep refl] by simp
  qed
qed

lemma tiered_free_held:
  assumes T: "same_tiers T t" and rep: "tiers_rep t m fs" and i: "i < 3" "a \<in> pool_blocks (tier i t)"
    and free: "xgl_mempool_free (tier i t) m a = (p, m')"
  shows "tiered_inv T (set_tier i p t, m', held_blocks t fs - {a})"
    and "a \<in> set (fs i) \<Longrightarrow> set_tier i p t = t \<and> m' = m" and "a \<notin> set (fs i) \<Longrightarrow> tiers_rep (set_tier i p t) m' (fs(i := a # fs i))"
proof -
  have "tier_rep i t m (fs i)" using rep i by (simp add: tiers_rep_def)
  then have pr: "tier_count i t \<noteq> 0" "pool_rep (tier i t) m (fs i)" using tier_rep_blocks i(2) by blast+
  show same: "a \<in> set (fs i) \<Longrightarrow> set_tier i p t = t \<and> m' = m" using free_rep(2) [OF pr(2), of a] free by auto
  have f: "same_buffer (tier i t) p" "pool_rep p m' (a # fs i)" "\<And>b. outside (tier i t) b \<Longrightarrow> m' b = m b" if "a \<notin> set (fs i)"
    using that free_rep(1) [OF pr(2), of a] i(2) free store_block_frame [OF _ i(2), of _ m] pr(2) by (auto simp: pool_rep_def)
  show new: "a \<notin> set (fs i) \<Longrightarrow> tiers_rep (set_tier i p t) m' (fs(i := a # fs i))"
    using set_tier_rep [OF rep i(1) pr(1) f(2,1,3)] by blast
  show "tiered_inv T (set_tier i p t, m', held_blocks t fs - {a})"
  proof (cases "a \<in> set (fs i)")
    case True
    then have "held_blocks t fs - {a} = held_blocks t fs" using held_in_tier [OF rep i] by blast
    then show ?thesis using same [OF True] tiered_invI [OF T rep refl] by simp
  next
    case False
    from tiered_invI [OF same_tiers_set [OF T i(1) f(1) [OF False]] new [OF False] held_set_tier(2) [OF rep i(1) f(1) [OF False] i(2), symmetric]]
    show ?thesis .
  qed
qed

lemma held_nonzero:
  assumes "tiers_rep t m fs"
  shows "0 \<notin> held_blocks t fs"
proof
  assume "0 \<in> held_blocks t fs"
  then obtain i where "i < 3" "0 \<in> pool_blocks (tier i t)" by (auto simp: held_blocks_def)
  then show False using assms tier_rep_blocks [of i t m "fs i" 0] pool_shapeD(2) [of "tier i t" 0] by (auto simp: tiers_rep_def pool_rep_def)
qed

lemma tiered_free_inv:
  assumes T: "same_tiers T t" and rep: "tiers_rep t m fs"
  shows "tiered_inv T (snd (tiered_step (t, m, held_blocks t fs) (TierFree a n)))"
proof (cases "a = 0 \<or> n = 0")
  case True
  then show ?thesis using held_nonzero [OF rep] tiered_invI [OF T rep refl] by (auto simp: xgl_tiered_pool_free_def)
next
  case False
  have reps: "\<forall>i<3. tier_rep i t m (fs i)" using rep by (simp add: tiers_rep_def)
  show ?thesis
  proof (cases rule: tiered_free_cases [OF reps, of a n])
    case (3 i p m')
    then show ?thesis using tiered_free_held(1) [OF T rep 3(1-3)] False by simp
  next
    case 4
    then have "held_blocks t fs - {a} = held_blocks t fs" by (auto simp: held_blocks_def)
    then show ?thesis using 4(2) False tiered_invI [OF T rep refl] by simp
  qed (use False in auto)
qed

lemma tiered_reset_inv:
  assumes T: "same_tiers T t" and rep: "tiers_rep t m fs"
  shows "tiered_inv T (xgl_tiered_pool_reset_stats t, m, held_blocks t fs)"
proof -
  have r: "tiers_rep (xgl_tiered_pool_reset_stats t) m fs" "same_tiers t (xgl_tiered_pool_reset_stats t)"
    using tiered_reset_rep [OF rep] by auto
  have "held_blocks t fs = held_blocks (xgl_tiered_pool_reset_stats t) fs" unfolding held_blocks_def
    by (intro SUP_cong refl) (use r(2) same_bufferD(1) in \<open>auto simp: same_tiers_def\<close>)
  moreover have "same_tiers T (xgl_tiered_pool_reset_stats t)"
    using T r(2) same_buffer_trans unfolding same_tiers_def by (metis (no_types, lifting))
  ultimately show ?thesis using tiered_invI [OF _ r(1)] by simp
qed

lemma tiered_step_inv:
  assumes "tiered_inv T s"
  shows "tiered_inv T (snd (tiered_step s c))"
proof -
  obtain t m held where s: "s = (t, m, held)" by (cases s)
  obtain fs where T: "same_tiers T t" and rep: "tiers_rep t m fs" and held: "held = held_blocks t fs"
    using assms by (auto simp: tiered_inv_def s)
  show ?thesis
  proof (cases c)
    case (TierAlloc n)
    then show ?thesis unfolding s held TierAlloc by (intro tiered_alloc_inv T rep)
  next
    case (TierFree a n)
    then show ?thesis unfolding s held TierFree by (intro tiered_free_inv T rep)
  next
    case TierReset
    then show ?thesis using tiered_reset_inv [OF T rep] by (simp add: s held)
  next
    case (TierWrite a v)
    then show ?thesis using tiered_write_rep [OF rep, of a v] tiered_invI [OF T _ held] rep held by (simp add: s)
  qed
qed

interpretation tiered: invariant_machine tiered_step "tiered_inv T" for T
  by unfold_locales (rule tiered_step_inv)

section \<open>Setting up\<close>

lemma init_one_rep:
  assumes "tiered_pool_init_one xgl_mempool_destroy m b c sz = (True, p, m')" "b + c * sz < SIZE_RANGE" "0 < sz"
  shows "if c = 0 then p = xgl_mempool_destroy \<and> m' = m
    else pool_rep p m' (rev (map (\<lambda>i. b + i * sz) [0..<c])) \<and> mp_pool p = b \<and> mp_block_size p = sz \<and> mp_block_count p = c"
    and "outside p a \<Longrightarrow> m' a = m a" and "mp_pool p + mp_block_count p * mp_block_size p \<le> b + c * sz"
proof -
  have c: "xgl_mempool_init xgl_mempool_destroy m b (c * sz) sz = (True, p, m')" if "c \<noteq> 0"
    using assms(1) that by (auto simp: tiered_pool_init_one_def split: if_splits)
  have z: "p = xgl_mempool_destroy" "m' = m" if "c = 0" using assms(1) that by (auto simp: tiered_pool_init_one_def)
  show "if c = 0 then p = xgl_mempool_destroy \<and> m' = m
    else pool_rep p m' (rev (map (\<lambda>i. b + i * sz) [0..<c])) \<and> mp_pool p = b \<and> mp_block_size p = sz \<and> mp_block_count p = c"
    using z mempool_init_rep [OF c assms(2)] assms(3) by auto
  show "outside p a \<Longrightarrow> m' a = m a" using z(2) mempool_init_rep(5) [OF c assms(2)] by (cases "c = 0") auto
  show "mp_pool p + mp_block_count p * mp_block_size p \<le> b + c * sz"
    using z mempool_init_rep(2-4) [OF c assms(2)] assms(3) by (cases "c = 0") (auto simp: xgl_mempool_destroy_def)
qed

lemma tiers_start:
  assumes init: "tiered_pool_init_one xgl_mempool_destroy m0 b0 c0 64 = (True, p0, m1)"
      "tiered_pool_init_one xgl_mempool_destroy m1 b1 c1 256 = (True, p1, m2)"
      "tiered_pool_init_one xgl_mempool_destroy m2 b2 c2 1024 = (True, p2, m3)"
    and ranges: "b0 + c0 * 64 < SIZE_RANGE" "b1 + c1 * 256 < SIZE_RANGE" "b2 + c2 * 1024 < SIZE_RANGE"
    and apart: "pools_apart p0 p1" "pools_apart p0 p2" "pools_apart p1 p2"
    and t: "ti_small_pool t = p0" "ti_medium_pool t = p1" "ti_large_pool t = p2"
      "ti_small_count t = c0" "ti_medium_count t = c1" "ti_large_count t = c2"
  shows "tiered_inv t (t, m3, {})"
proof -
  define fs where "fs i = rev (map (\<lambda>k. mp_pool (tier i t) + k * tier_size i) [0..<tier_count i t])" for i
  note i0 = init_one_rep [OF init(1) ranges(1)] and i1 = init_one_rep [OF init(2) ranges(2)] and i2 = init_one_rep [OF init(3) ranges(3)]
  have keep: "tier_rep i t m' f" if "tier_rep i t m f" "pools_apart p (tier i t) \<or> pools_apart (tier i t) p" "\<And>a. outside p a \<Longrightarrow> m' a = m a" for i m m' f p
    by (rule tier_rep_cong [OF that(1)]) (use that(2,3) apart_outside [of p "tier i t"] in \<open>auto simp: pools_apart_def\<close>)
  have r0: "tier_rep 0 t m1 (fs 0)" using i0(1) t by (auto simp: tier_rep_def fs_def tier_def tier_count_def tier_size_def xgl_mempool_destroy_def split: if_splits)
  have r1: "tier_rep 1 t m2 (fs 1)" using i1(1) t by (auto simp: tier_rep_def fs_def tier_def tier_count_def tier_size_def xgl_mempool_destroy_def split: if_splits)
  have r2: "tier_rep 2 t m3 (fs 2)" using i2(1) t by (auto simp: tier_rep_def fs_def tier_def tier_count_def tier_size_def xgl_mempool_destroy_def split: if_splits)
  have "tier_rep 0 t m3 (fs 0)" using keep [OF keep [OF r0, of p1 m2], of p2 m3] i1(2) i2(2) apart t by (simp add: tier_def)
  moreover have "tier_rep 1 t m3 (fs 1)" using keep [OF r1, of p2 m3] i2(2) apart t by (simp add: tier_def)
  moreover have "\<forall>i<3. \<forall>j<3. i \<noteq> j \<longrightarrow> pools_apart (tier i t) (tier j t)"
    using apart t by (auto simp: all_tiers tier_def pools_apart_def)
  ultimately have rep: "tiers_rep t m3 fs" using r2 by (simp add: tiers_rep_def all_tiers)
  have "\<forall>i<3. mp_block_count (tier i t) = tier_count i t \<and> (tier_count i t \<noteq> 0 \<longrightarrow> mp_block_size (tier i t) = tier_size i)"
    using i0(1) i1(1) i2(1) t by (auto simp: all_tiers tier_def tier_count_def tier_size_def xgl_mempool_destroy_def split: if_splits)
  then have "pool_blocks (tier i t) \<subseteq> set (fs i)" if "i < 3" for i
    using that by (auto simp: fs_def pool_blocks_def)
  then have "held_blocks t fs = {}" by (auto simp: held_blocks_def)
  then show ?thesis using tiered_invI [OF _ rep, of t] by (simp add: same_tiers_def same_buffer_def)
qed

lemma alloc_tier_init_one:
  assumes "tiered_alloc_tier m addrs c sz = (True, b, p, m', addrs')" "c * sz < SIZE_RANGE"
  shows "tiered_pool_init_one xgl_mempool_destroy m b c sz = (True, p, m')"
proof -
  have "\<not> tiered_pool_size_overflows c sz" if "sz \<noteq> 0"
    using assms(2) that by (simp add: tiered_pool_size_overflows_def not_less less_eq_div_iff_mult_less_eq)
  then show ?thesis using assms
    by (auto simp: tiered_alloc_tier_def tiered_pool_init_one_def xgl_mempool_init_def Let_def split: if_splits prod.splits)
qed

lemma tiered_init_inv:
  assumes init: "xgl_tiered_pool_init m0 addrs c0 c1 c2 = (True, freed, t, m)"
    and ranges: "ti_small_buffer t + c0 * 64 < SIZE_RANGE" "ti_medium_buffer t + c1 * 256 < SIZE_RANGE" "ti_large_buffer t + c2 * 1024 < SIZE_RANGE"
    and apart: "pools_apart (ti_small_pool t) (ti_medium_pool t)" "pools_apart (ti_small_pool t) (ti_large_pool t)"
      "pools_apart (ti_medium_pool t) (ti_large_pool t)"
  shows "tiered_inv t (t, m, {})"
proof -
  obtain ok0 b0 p0 m1 as0 where t0: "tiered_alloc_tier m0 addrs c0 64 = (ok0, b0, p0, m1, as0)" by (rule prod_cases5)
  obtain ok1 b1 p1 m2 as1 where t1: "tiered_alloc_tier m1 as0 c1 256 = (ok1, b1, p1, m2, as1)" by (rule prod_cases5)
  obtain ok2 b2 p2 m3 as2 where t2: "tiered_alloc_tier m2 as1 c2 1024 = (ok2, b2, p2, m3, as2)" by (rule prod_cases5)
  have ok: "ok0" "ok1" "ok2" "m = m3"
      "t = zero_tiered_pool \<lparr> ti_owns_buffers := True, ti_small_count := c0, ti_medium_count := c1, ti_large_count := c2,
          ti_small_buffer := b0, ti_small_pool := p0, ti_medium_buffer := b1, ti_medium_pool := p1, ti_large_buffer := b2, ti_large_pool := p2 \<rparr>"
    using init t0 t1 t2 by (auto simp: xgl_tiered_pool_init_def tier_sizes Let_def xgl_tiered_pool_destroy_def split: if_splits)
  show ?thesis unfolding ok(4)
    by (rule tiers_start [OF alloc_tier_init_one [of m0 addrs c0 64 b0 p0 m1 as0] alloc_tier_init_one [of m1 as0 c1 256 b1 p1 m2 as1]
        alloc_tier_init_one [of m2 as1 c2 1024 b2 p2 m3 as2]]) (use t0 t1 t2 ok ranges apart in simp_all)
qed

lemma tiered_alloc_spec:
  assumes "tiered_inv T (t, m, held)" "n \<noteq> 0"
  shows "if \<forall>i<3. n \<le> tier_size i \<longrightarrow> pool_blocks (tier i T) \<subseteq> held then xgl_tiered_pool_alloc t m n = (0, t)
    else \<exists>i<3. n \<le> tier_size i \<and> fst (xgl_tiered_pool_alloc t m n) \<in> pool_blocks (tier i T) - held"
proof -
  obtain fs where T: "same_tiers T t" and rep: "tiers_rep t m fs" and held: "held = held_blocks t fs"
    using assms(1) by (auto simp: tiered_inv_def)
  have blocks: "pool_blocks (tier i t) = pool_blocks (tier i T)" if "i < 3" for i using T that same_bufferD(1) by (simp add: same_tiers_def)
  have reps: "\<forall>i<3. tier_rep i t m (fs i)" using rep by (simp add: tiers_rep_def)
  have sub: "set (fs i) \<subseteq> pool_blocks (tier i t)" if "i < 3" for i using reps that by (auto simp: tier_rep_def pool_rep_def split: if_splits)
  have free: "x \<in> pool_blocks (tier i t) - held" if "i < 3" "x \<in> set (fs i)" for i x
    using held_in_tier [OF rep that(1)] sub [OF that(1)] that held by auto
  show ?thesis
  proof (cases rule: tiered_alloc_cases [OF reps assms(2)])
    case (1 i p)
    then have "hd (fs i) \<in> pool_blocks (tier i T) - held" using free [of i "hd (fs i)"] blocks by simp
    then show ?thesis using 1 by auto
  next
    case 2
    have "pool_blocks (tier i T) \<subseteq> held" if "i < 3" "n \<le> tier_size i" for i
      using held_in_tier [OF rep that(1)] 2(1) [OF that] held blocks [OF that(1)] by auto
    then show ?thesis using 2(2) by auto
  qed
qed

lemma tiered_held_apart:
  assumes "tiered_inv T (t, m, held)" "i < 3" "j < 3" "b \<in> pool_blocks (tier i T)" "c \<in> pool_blocks (tier j T)" "b \<noteq> c"
  shows "b + tier_size i \<le> c \<or> c + tier_size j \<le> b"
proof -
  obtain fs where T: "same_tiers T t" and rep: "tiers_rep t m fs" using assms(1) by (auto simp: tiered_inv_def)
  have in_t: "b \<in> pool_blocks (tier i t)" "c \<in> pool_blocks (tier j t)" using T assms(2-5) same_bufferD(1) by (auto simp: same_tiers_def)
  have "tier_rep i t m (fs i)" using rep assms(2) by (simp add: tiers_rep_def)
  then have "mp_block_size (tier i t) = tier_size i" using tier_rep_blocks in_t(1) by blast
  then show ?thesis
    using blocks_apart [of b "tier i t" c] tier_blocks_disjoint [OF rep assms(2,3) _ in_t] in_t assms(6) by (cases "i = j") auto
qed

lemma tiered_free_spec:
  assumes "tiered_inv T (t, m, held)" "p \<notin> held"
  shows "xgl_tiered_pool_free t m p n = (t, m)"
proof (cases "p = 0 \<or> n = 0")
  case False
  obtain fs where T: "same_tiers T t" and rep: "tiers_rep t m fs" and held: "held = held_blocks t fs"
    using assms(1) by (auto simp: tiered_inv_def)
  have reps: "\<forall>i<3. tier_rep i t m (fs i)" using rep by (simp add: tiers_rep_def)
  have nz: "p \<noteq> 0" "n \<noteq> 0" using False by auto
  show ?thesis
  proof (cases rule: tiered_free_cases [OF reps nz])
    case (1 i q m')
    then show ?thesis using tiered_free_held(2) [OF T rep 1(1-3)] held_in_tier [OF rep 1(1,2)] assms(2) held by simp
  qed simp
qed (auto simp: xgl_tiered_pool_free_def)

text \<open>
  C34: the tiered pool. The pool is set up by \<^verbatim>\<open>xgl_tiered_pool_init\<close> with the buffers that the heap returned, which
  do not overlap; then its client allocates, writes what it holds and frees anything, in any order. A request for up to 1024
  bytes fails only when every block of every tier it fits into is held. Otherwise it gets a block of such a tier that nobody
  holds; held blocks, the new one included, do not overlap, whatever tiers they are from. Freeing anything that is not
  held changes nothing, and freeing a held block makes exactly that block available again.
\<close>

theorem tiered_pool_hands_out_fitting_blocks:
  assumes init: "xgl_tiered_pool_init m0 addrs c0 c1 c2 = (True, freed, T, m)"
    and ranges: "ti_small_buffer T + c0 * 64 < SIZE_RANGE" "ti_medium_buffer T + c1 * 256 < SIZE_RANGE" "ti_large_buffer T + c2 * 1024 < SIZE_RANGE"
    and apart: "pools_apart (ti_small_pool T) (ti_medium_pool T)" "pools_apart (ti_small_pool T) (ti_large_pool T)"
      "pools_apart (ti_medium_pool T) (ti_large_pool T)"
    and run: "snd (tiered.run (T, m, {}) calls) = (t, m', held)"
  shows "(\<forall>n. n \<noteq> 0 \<longrightarrow>
      (if \<forall>i<3. n \<le> tier_size i \<longrightarrow> pool_blocks (tier i T) \<subseteq> held then xgl_tiered_pool_alloc t m' n = (0, t)
       else \<exists>i<3. n \<le> tier_size i \<and> fst (xgl_tiered_pool_alloc t m' n) \<in> pool_blocks (tier i T) - held))
    \<and> (\<forall>b \<in> held. \<exists>i<3. b \<in> pool_blocks (tier i T))
    \<and> (\<forall>i<3. \<forall>j<3. \<forall>b \<in> pool_blocks (tier i T). \<forall>c \<in> pool_blocks (tier j T). b \<noteq> c \<longrightarrow> b + tier_size i \<le> c \<or> c + tier_size j \<le> b)
    \<and> (\<forall>p n. p \<notin> held \<longrightarrow> xgl_tiered_pool_free t m' p n = (t, m'))"
proof -
  have inv: "tiered_inv T (t, m', held)"
    using tiered.run_inv [OF tiered_init_inv [OF init ranges apart], of calls] run by simp
  then obtain fs where T: "same_tiers T t" and held: "held = held_blocks t fs" by (auto simp: tiered_inv_def)
  have "\<forall>b \<in> held. \<exists>i<3. b \<in> pool_blocks (tier i T)" using T same_bufferD(1) by (fastforce simp: held held_blocks_def same_tiers_def)
  then show ?thesis
    by (intro conjI allI impI ballI tiered_alloc_spec [OF inv] tiered_held_apart [OF inv] tiered_free_spec [OF inv]) auto
qed

lemma link_blocks_buffer: "same_buffer pool (fst (mempool_link_blocks pool m is))"
proof (induction "is" arbitrary: pool m)
  case (Cons i "is")
  then show ?case using same_buffer_trans [of pool "pool \<lparr> mp_free_list := mp_pool pool + i * mp_block_size pool \<rparr>"]
    by (simp add: Let_def same_buffer_def)
qed (simp add: same_buffer_def)

lemma alloc_tier_ok:
  assumes "a \<noteq> 0" "0 < c" "c * sz < SIZE_RANGE" "PTR_SIZE \<le> sz"
  shows "\<exists>p m'. tiered_alloc_tier m (a # as) c sz = (True, a, p, m', as) \<and> mp_pool p = a \<and> mp_block_size p = sz \<and> mp_block_count p = c"
proof -
  let ?p = "xgl_mempool_destroy \<lparr> mp_block_count := c, mp_pool := a, mp_block_size := sz, mp_free_count := c, mp_peak_used := 0, mp_free_list := 0 \<rparr>"
  have "sz \<noteq> 0" using assms(4) by (simp add: PTR_SIZE_def)
  then have "tiered_alloc_tier m (a # as) c sz = (True, a, fst (mempool_link_blocks ?p m [0..<c]), snd (mempool_link_blocks ?p m [0..<c]), as)"
    using assms by (simp add: tiered_alloc_tier_def heap_alloc_def xgl_mempool_init_def Let_def case_prod_beta)
  then show ?thesis using link_blocks_buffer [of ?p m "[0..<c]"] by (simp add: same_buffer_def)
qed

lemma tiered_init_ok:
  assumes "a \<noteq> 0" "b \<noteq> 0" "c \<noteq> 0" "0 < n0" "0 < n1" "0 < n2" "n0 * 64 < SIZE_RANGE" "n1 * 256 < SIZE_RANGE" "n2 * 1024 < SIZE_RANGE"
  shows "\<exists>T m. xgl_tiered_pool_init m0 [a, b, c] n0 n1 n2 = (True, [], T, m)
    \<and> ti_small_buffer T = a \<and> ti_medium_buffer T = b \<and> ti_large_buffer T = c
    \<and> (\<forall>i<3. mp_pool (tier i T) = [a, b, c] ! i \<and> mp_block_size (tier i T) = tier_size i \<and> mp_block_count (tier i T) = [n0, n1, n2] ! i)"
proof -
  obtain p0 m1 where t0: "tiered_alloc_tier m0 [a, b, c] n0 64 = (True, a, p0, m1, [b, c])" "mp_pool p0 = a" "mp_block_size p0 = 64" "mp_block_count p0 = n0"
    using alloc_tier_ok [OF assms(1,4,7), of m0 "[b, c]"] by (auto simp: PTR_SIZE_def)
  obtain p1 m2 where t1: "tiered_alloc_tier m1 [b, c] n1 256 = (True, b, p1, m2, [c])" "mp_pool p1 = b" "mp_block_size p1 = 256" "mp_block_count p1 = n1"
    using alloc_tier_ok [OF assms(2,5,8), of m1 "[c]"] by (auto simp: PTR_SIZE_def)
  obtain p2 m3 where t2: "tiered_alloc_tier m2 [c] n2 1024 = (True, c, p2, m3, [])" "mp_pool p2 = c" "mp_block_size p2 = 1024" "mp_block_count p2 = n2"
    using alloc_tier_ok [OF assms(3,6,9), of m2 "[]"] by (auto simp: PTR_SIZE_def)
  show ?thesis using t0 t1 t2
    by (simp add: xgl_tiered_pool_init_def tier_sizes Let_def all_tiers tier_def tier_size_def numeral_2_eq_2)
qed

theorem tiered_pool_hands_out_fitting_blocks_witness:
  "\<exists>T m t m' held. xgl_tiered_pool_init (\<lambda>_. 0) [65536, 131072, 262144] 8 4 2 = (True, [], T, m)
     \<and> snd (tiered.run (T, m, {}) [TierAlloc 100, TierAlloc 20, TierFree 65536 20]) = (t, m', held)
     \<and> xgl_tiered_pool_alloc t m' 2000 = (0, t) \<and> (\<forall>b \<in> held. \<exists>i<3. b \<in> pool_blocks (tier i T))"
proof -
  obtain T m where i: "xgl_tiered_pool_init (\<lambda>_. 0) [65536, 131072, 262144] 8 4 2 = (True, [], T, m)"
      and T: "ti_small_buffer T = 65536" "ti_medium_buffer T = 131072" "ti_large_buffer T = 262144"
      "\<forall>i<3. mp_pool (tier i T) = [65536, 131072, 262144] ! i \<and> mp_block_size (tier i T) = tier_size i \<and> mp_block_count (tier i T) = [8, 4, 2] ! i"
    using tiered_init_ok [of 65536 131072 262144 8 4 2 "\<lambda>_. 0"] by (auto simp: SIZE_RANGE_def)
  obtain t m' held where r: "snd (tiered.run (T, m, {}) [TierAlloc 100, TierAlloc 20, TierFree 65536 20]) = (t, m', held)"
    by (rule prod_cases3)
  have "pools_apart (ti_small_pool T) (ti_medium_pool T)" "pools_apart (ti_small_pool T) (ti_large_pool T)" "pools_apart (ti_medium_pool T) (ti_large_pool T)"
    using T(4) by (simp_all add: all_tiers tier_def tier_size_def pools_apart_def numeral_2_eq_2)
  moreover have "ti_small_buffer T + 8 * 64 < SIZE_RANGE" "ti_medium_buffer T + 4 * 256 < SIZE_RANGE" "ti_large_buffer T + 2 * 1024 < SIZE_RANGE"
    using T by (simp_all add: SIZE_RANGE_def)
  ultimately have t: "\<forall>n. n \<noteq> 0 \<longrightarrow>
      (if \<forall>i<3. n \<le> tier_size i \<longrightarrow> pool_blocks (tier i T) \<subseteq> held then xgl_tiered_pool_alloc t m' n = (0, t)
       else \<exists>i<3. n \<le> tier_size i \<and> fst (xgl_tiered_pool_alloc t m' n) \<in> pool_blocks (tier i T) - held)"
    "\<forall>b \<in> held. \<exists>i<3. b \<in> pool_blocks (tier i T)"
    using tiered_pool_hands_out_fitting_blocks [OF i _ _ _ _ _ _ r] by blast+
  then have "xgl_tiered_pool_alloc t m' 2000 = (0, t)" "\<forall>b \<in> held. \<exists>i<3. b \<in> pool_blocks (tier i T)"
    by (auto simp: tier_size_def dest: spec [of _ 2000] split: if_splits)
  then show ?thesis using i r by blast
qed

end
