(* ===== verification/Xgl_Allocator.thy ===== *)
theory Xgl_Allocator
  imports Xgl_Mempool
begin

text \<open>
  Allocator dispatch (\<^verbatim>\<open>src/memory/xgl_allocator.c\<close>) and the tracking allocator
  (\<^verbatim>\<open>src/memory/xgl_tracking_allocator.c\<close>), which puts a header before every block and keeps statistics in total and per phase.

  An allocator is either supplied by the application (its two functions may be missing) or the interface of a
  tracker over another allocator; trackers can be stacked. What the application's \<^verbatim>\<open>malloc\<close> returns is a list of
  addresses (0 for NULL), its \<^verbatim>\<open>free\<close> calls are logged, and the headers are a store by address. The statistics are
  64-bit words that wrap.
\<close>

section \<open>Statistics\<close>

record xgl_allocator_stats =
  as_total_allocated :: u64
  as_total_freed :: u64
  as_current_allocated :: u64
  as_peak_allocated :: u64
  as_alloc_count :: u64
  as_free_count :: u64

definition zero_stats :: xgl_allocator_stats where
  "zero_stats = \<lparr> as_total_allocated = 0, as_total_freed = 0, as_current_allocated = 0, as_peak_allocated = 0, as_alloc_count = 0, as_free_count = 0 \<rparr>"

definition update_alloc_stats :: "xgl_allocator_stats \<Rightarrow> u64 \<Rightarrow> xgl_allocator_stats" where
  "update_alloc_stats s n =
     (let s = s \<lparr> as_total_allocated := as_total_allocated s + n, as_current_allocated := as_current_allocated s + n,
                  as_alloc_count := as_alloc_count s + 1 \<rparr>
      in if as_current_allocated s > as_peak_allocated s then s \<lparr> as_peak_allocated := as_current_allocated s \<rparr> else s)"

definition update_free_stats :: "xgl_allocator_stats \<Rightarrow> u64 \<Rightarrow> xgl_allocator_stats" where
  "update_free_stats s n =
     s \<lparr> as_total_freed := as_total_freed s + n,
         as_current_allocated := if as_current_allocated s \<ge> n then as_current_allocated s - n else 0,
         as_free_count := as_free_count s + 1 \<rparr>"

section \<open>Allocators\<close>

definition XGL_ALLOCATOR_PHASE_COUNT :: nat where "XGL_ALLOCATOR_PHASE_COUNT = 5"

definition XGL_ALLOC_MAGIC :: u32 where "XGL_ALLOC_MAGIC = 0xA110CA7E"

definition ALLOC_HEADER_SIZE :: nat where "ALLOC_HEADER_SIZE = 16"

record xgl_alloc_header =
  ah_size :: u64
  ah_magic :: u32
  ah_phase :: nat

record xgl_tracking =
  tr_stats :: xgl_allocator_stats
  tr_phase_stats :: "xgl_allocator_stats list"
  tr_current_phase :: nat

datatype xgl_allocator =
    UserAllocator bool bool                      \<comment> \<open>whether \<^verbatim>\<open>malloc\<close> and \<^verbatim>\<open>free\<close> are set\<close>
  | TrackingAllocator xgl_allocator xgl_tracking

record alloc_mem =
  am_headers :: "nat \<Rightarrow> xgl_alloc_header"
  am_addrs :: "nat list"
  am_freed :: "nat list"

definition user_malloc :: "alloc_mem \<Rightarrow> nat \<times> alloc_mem" where
  "user_malloc mem = (case am_addrs mem of [] \<Rightarrow> (0, mem) | a # as \<Rightarrow> (a, mem \<lparr> am_addrs := as \<rparr>))"

definition tracking_commit :: "xgl_tracking \<Rightarrow> alloc_mem \<Rightarrow> nat \<Rightarrow> nat \<Rightarrow> nat \<times> xgl_tracking \<times> alloc_mem" where
  "tracking_commit t mem ptr n =
     (let header = \<lparr> ah_size = word_of_nat n, ah_magic = XGL_ALLOC_MAGIC, ah_phase = tr_current_phase t \<rparr>;
          k = tr_current_phase t
      in (ptr + ALLOC_HEADER_SIZE,
          t \<lparr> tr_stats := update_alloc_stats (tr_stats t) (word_of_nat n),
              tr_phase_stats := (tr_phase_stats t)[k := update_alloc_stats (tr_phase_stats t ! k) (word_of_nat n)] \<rparr>,
          mem \<lparr> am_headers := (am_headers mem)(ptr := header) \<rparr>))"

fun alloc_from :: "xgl_allocator \<Rightarrow> alloc_mem \<Rightarrow> nat \<Rightarrow> nat \<times> xgl_allocator \<times> alloc_mem" where
  "alloc_from (UserAllocator has_malloc has_free) mem n =
     (if n = 0 \<or> \<not> has_malloc then (0, UserAllocator has_malloc has_free, mem)
      else case user_malloc mem of (a, mem) \<Rightarrow> (a, UserAllocator has_malloc has_free, mem))"
| "alloc_from (TrackingAllocator u t) mem n =
     (if n = 0 then (0, TrackingAllocator u t, mem)
      else let total_size = (n + ALLOC_HEADER_SIZE) mod SIZE_RANGE
           in case alloc_from u mem total_size of
                (ptr, u, mem) \<Rightarrow>
                  if ptr = 0 then (0, TrackingAllocator u t, mem)
                  else case tracking_commit t mem ptr n of (p, t, mem) \<Rightarrow> (p, TrackingAllocator u t, mem))"

fun free_to :: "xgl_allocator \<Rightarrow> alloc_mem \<Rightarrow> nat \<Rightarrow> xgl_allocator \<times> alloc_mem" where
  "free_to (UserAllocator has_malloc has_free) mem ptr =
     (UserAllocator has_malloc has_free, if ptr = 0 \<or> \<not> has_free then mem else mem \<lparr> am_freed := am_freed mem @ [ptr] \<rparr>)"
| "free_to (TrackingAllocator u t) mem ptr =
     (if ptr = 0 then (TrackingAllocator u t, mem)
      else let actual_ptr = size_sub ptr ALLOC_HEADER_SIZE;
               header = am_headers mem actual_ptr
           in if ah_magic header \<noteq> XGL_ALLOC_MAGIC then (TrackingAllocator u t, mem)
              else let t = t \<lparr> tr_stats := update_free_stats (tr_stats t) (ah_size header) \<rparr>;
                       k = ah_phase header;
                       t = (if k < XGL_ALLOCATOR_PHASE_COUNT
                            then t \<lparr> tr_phase_stats := (tr_phase_stats t)[k := update_free_stats (tr_phase_stats t ! k) (ah_size header)] \<rparr>
                            else t);
                       mem = mem \<lparr> am_headers := (am_headers mem)(actual_ptr := header \<lparr> ah_magic := 0 \<rparr>) \<rparr>
                   in case free_to u mem actual_ptr of (u, mem) \<Rightarrow> (TrackingAllocator u t, mem))"

text \<open>The default allocator exists only in builds that allow the fallback to the heap (\<open>fallback\<close>).\<close>

definition xgl_allocator_get_default :: "bool \<Rightarrow> xgl_allocator option" where
  "xgl_allocator_get_default fallback = (if fallback then Some (UserAllocator True True) else None)"

definition xgl_alloc :: "bool \<Rightarrow> xgl_allocator option \<Rightarrow> alloc_mem \<Rightarrow> nat \<Rightarrow> nat \<times> xgl_allocator option \<times> alloc_mem" where
  "xgl_alloc fallback allocator mem n =
     (if n = 0 then (0, allocator, mem)
      else case allocator of
             Some a \<Rightarrow> (case alloc_from a mem n of (p, a, mem) \<Rightarrow> (p, Some a, mem))
           | None \<Rightarrow> (case xgl_allocator_get_default fallback of
                       None \<Rightarrow> (0, None, mem)
                     | Some a \<Rightarrow> (case alloc_from a mem n of (p, a, mem) \<Rightarrow> (p, None, mem))))"

definition xgl_free :: "bool \<Rightarrow> xgl_allocator option \<Rightarrow> alloc_mem \<Rightarrow> nat \<Rightarrow> xgl_allocator option \<times> alloc_mem" where
  "xgl_free fallback allocator mem ptr =
     (if ptr = 0 then (allocator, mem)
      else case allocator of
             Some a \<Rightarrow> (case free_to a mem ptr of (a, mem) \<Rightarrow> (Some a, mem))
           | None \<Rightarrow> (case xgl_allocator_get_default fallback of
                       None \<Rightarrow> (None, mem)
                     | Some a \<Rightarrow> (case free_to a mem ptr of (a, mem) \<Rightarrow> (None, mem))))"

definition xgl_tracking_allocator_init :: "bool \<Rightarrow> xgl_allocator option \<Rightarrow> xgl_allocator option" where
  "xgl_tracking_allocator_init fallback underlying =
     map_option (\<lambda>u. TrackingAllocator u \<lparr> tr_stats = zero_stats, tr_phase_stats = replicate XGL_ALLOCATOR_PHASE_COUNT zero_stats,
                                           tr_current_phase = 0 \<rparr>)
       (case underlying of None \<Rightarrow> xgl_allocator_get_default fallback | Some u \<Rightarrow> Some u)"

definition reset_one_stats :: "xgl_allocator_stats \<Rightarrow> xgl_allocator_stats" where
  "reset_one_stats s = s \<lparr> as_total_allocated := as_current_allocated s, as_total_freed := 0, as_peak_allocated := as_current_allocated s,
                           as_alloc_count := 0, as_free_count := 0 \<rparr>"

definition xgl_tracking_allocator_reset_stats :: "xgl_tracking \<Rightarrow> xgl_tracking" where
  "xgl_tracking_allocator_reset_stats t =
     t \<lparr> tr_stats := reset_one_stats (tr_stats t), tr_phase_stats := map reset_one_stats (tr_phase_stats t) \<rparr>"

definition xgl_tracking_allocator_set_phase :: "xgl_tracking \<Rightarrow> nat \<Rightarrow> xgl_tracking" where
  "xgl_tracking_allocator_set_phase t phase = (if phase \<ge> XGL_ALLOCATOR_PHASE_COUNT then t else t \<lparr> tr_current_phase := phase \<rparr>)"

definition xgl_tracking_allocator_get_stats :: "xgl_tracking \<Rightarrow> xgl_allocator_stats" where
  "xgl_tracking_allocator_get_stats t = tr_stats t"

definition xgl_tracking_allocator_get_phase_stats :: "xgl_tracking \<Rightarrow> xgl_allocator_stats list" where
  "xgl_tracking_allocator_get_phase_stats t = tr_phase_stats t"

section \<open>A tracked client\<close>

text \<open>
  The blocks a client holds, with their sizes and the phase in which they were allocated. The client passes
  blocks it holds (or NULL) to \<^verbatim>\<open>xgl_free\<close>. The allocator below returns addresses of blocks that are not
  in use, and memory is finite: what is held, headers included, fits into the address space.
\<close>

type_synonym holdings = "nat \<rightharpoonup> nat \<times> nat"

datatype track_call =
    TrackAlloc nat
  | TrackFree nat
  | TrackPhase nat
  | TrackReset

type_synonym track_state = "xgl_tracking \<times> alloc_mem \<times> holdings"

fun track_step :: "track_state \<Rightarrow> track_call \<Rightarrow> track_state" where
  "track_step (t, mem, held) (TrackAlloc n) =
     (case xgl_alloc False (Some (TrackingAllocator (UserAllocator True True) t)) mem n of
        (p, Some (TrackingAllocator u t'), mem) \<Rightarrow> (t', mem, if p = 0 then held else held(p \<mapsto> (n, tr_current_phase t)))
      | (p, _, mem) \<Rightarrow> (t, mem, held))"
| "track_step (t, mem, held) (TrackFree p) =
     (case xgl_free False (Some (TrackingAllocator (UserAllocator True True) t)) mem p of
        (Some (TrackingAllocator u t), mem) \<Rightarrow> (t, mem, held(p := None))
      | (_, mem) \<Rightarrow> (t, mem, held))"
| "track_step (t, mem, held) (TrackPhase k) = (xgl_tracking_allocator_set_phase t k, mem, held)"
| "track_step (t, mem, held) TrackReset = (xgl_tracking_allocator_reset_stats t, mem, held)"

definition held_bytes :: "(nat \<Rightarrow> bool) \<Rightarrow> holdings \<Rightarrow> nat" where
  "held_bytes Q held = (\<Sum>p | p \<in> dom held \<and> Q (snd (the (held p))). fst (the (held p)))"

definition any_phase :: "nat \<Rightarrow> bool" where
  "any_phase k \<longleftrightarrow> True"

definition fresh_block :: "alloc_mem \<Rightarrow> holdings \<Rightarrow> nat \<Rightarrow> bool" where
  "fresh_block mem held n \<longleftrightarrow> n + ALLOC_HEADER_SIZE < SIZE_RANGE \<and> held_bytes any_phase held + n < SIZE_RANGE
     \<and> (\<forall>a. fst (user_malloc mem) = a \<longrightarrow> a + ALLOC_HEADER_SIZE \<notin> dom held)"

inductive tracked :: "track_state \<Rightarrow> bool" where
  start: "xgl_tracking_allocator_init fallback (Some (UserAllocator True True)) = Some (TrackingAllocator u t) \<Longrightarrow> tracked (t, mem, Map.empty)"
| alloc: "tracked (t, mem, held) \<Longrightarrow> fresh_block mem held n \<Longrightarrow> tracked (track_step (t, mem, held) (TrackAlloc n))"
| free: "tracked (t, mem, held) \<Longrightarrow> p = 0 \<or> p \<in> dom held \<Longrightarrow> tracked (track_step (t, mem, held) (TrackFree p))"
| phase: "tracked (t, mem, held) \<Longrightarrow> tracked (track_step (t, mem, held) (TrackPhase k))"
| reset: "tracked (t, mem, held) \<Longrightarrow> tracked (track_step (t, mem, held) TrackReset)"
| environment: "tracked (t, mem, held) \<Longrightarrow> (\<And>p. p \<in> dom held \<Longrightarrow> am_headers mem' (p - ALLOC_HEADER_SIZE) = am_headers mem (p - ALLOC_HEADER_SIZE)) \<Longrightarrow>
    tracked (t, mem', held)"

section \<open>The statistics balance\<close>

definition account :: "xgl_allocator_stats \<Rightarrow> nat \<Rightarrow> bool" where
  "account s T \<longleftrightarrow> T < SIZE_RANGE \<and> as_current_allocated s = word_of_nat T
     \<and> as_total_allocated s - as_total_freed s = as_current_allocated s \<and> as_current_allocated s \<le> as_peak_allocated s"

lemma unat_size: "n < SIZE_RANGE \<Longrightarrow> unat (word_of_nat n :: u64) = n"
  by (simp add: SIZE_RANGE_def unsigned_of_nat take_bit_nat_eq_self)

lemma account_alloc: "account s T \<Longrightarrow> T + n < SIZE_RANGE \<Longrightarrow> account (update_alloc_stats s (word_of_nat n)) (T + n)"
  by (auto simp: account_def update_alloc_stats_def Let_def algebra_simps not_less)

lemma account_free:
  assumes "account s T" "n \<le> T"
  shows "account (update_free_stats s (word_of_nat n)) (T - n)"
proof -
  have T: "T < SIZE_RANGE" "as_current_allocated s = word_of_nat T" using assms by (simp_all add: account_def)
  then have le: "(word_of_nat n :: u64) \<le> word_of_nat T" using assms(2) unat_size [of n] unat_size [of T] by (simp add: word_le_nat_alt)
  have "(word_of_nat (T - n) :: u64) = word_of_nat T - word_of_nat n" using assms(2) by (simp add: of_nat_diff)
  moreover have "(word_of_nat T :: u64) - word_of_nat n \<le> word_of_nat T"
    using unat_size [of n] unat_size [of T] T(1) assms(2) calculation unat_size [of "T - n"] by (simp add: word_le_nat_alt)
  ultimately show ?thesis using assms T le by (auto simp: account_def update_free_stats_def algebra_simps)
qed

lemma account_reset: "account s T \<Longrightarrow> account (reset_one_stats s) T"
  by (simp add: account_def reset_one_stats_def)

lemma held_bytes_add:
  assumes "finite (dom held)" "p \<notin> dom held"
  shows "held_bytes Q (held(p \<mapsto> (n, k))) = held_bytes Q held + (if Q k then n else 0)"
proof -
  let ?S = "{q \<in> dom held. Q (snd (the (held q)))}"
  have "{q \<in> dom (held(p \<mapsto> (n, k))). Q (snd (the ((held(p \<mapsto> (n, k))) q)))} = (if Q k then insert p ?S else ?S)"
    using assms(2) by auto
  moreover have "(\<Sum>q\<in>?S. fst (the ((held(p \<mapsto> (n, k))) q))) = held_bytes Q held"
    unfolding held_bytes_def by (rule sum.cong) (use assms(2) in auto)
  ultimately show ?thesis using assms by (simp add: held_bytes_def)
qed

lemma held_bytes_del:
  assumes "finite (dom held)" "held p = Some (n, k)"
  shows "held_bytes Q held = held_bytes Q (held(p := None)) + (if Q k then n else 0)"
  using held_bytes_add [of "held(p := None)" p Q n k] assms by (simp add: fun_upd_idem)

lemma held_bytes_mono: "finite (dom held) \<Longrightarrow> held_bytes Q held \<le> held_bytes any_phase held"
  unfolding held_bytes_def any_phase_def by (rule sum_mono2) auto

definition header_of :: "nat \<Rightarrow> nat \<Rightarrow> xgl_alloc_header" where
  "header_of n k = \<lparr> ah_size = word_of_nat n, ah_magic = XGL_ALLOC_MAGIC, ah_phase = k \<rparr>"

definition track_inv :: "track_state \<Rightarrow> bool" where
  "track_inv = (\<lambda>(t, mem, held). finite (dom held) \<and> length (tr_phase_stats t) = XGL_ALLOCATOR_PHASE_COUNT
     \<and> tr_current_phase t < XGL_ALLOCATOR_PHASE_COUNT
     \<and> (\<forall>p n k. held p = Some (n, k) \<longrightarrow> ALLOC_HEADER_SIZE < p \<and> 0 < n \<and> k < XGL_ALLOCATOR_PHASE_COUNT
          \<and> am_headers mem (p - ALLOC_HEADER_SIZE) = header_of n k)
     \<and> account (tr_stats t) (held_bytes any_phase held)
     \<and> (\<forall>k < XGL_ALLOCATOR_PHASE_COUNT. account (tr_phase_stats t ! k) (held_bytes ((=) k) held)))"

lemma track_invD:
  assumes "track_inv (t, mem, held)" "held p = Some (n, k)"
  shows "ALLOC_HEADER_SIZE < p" "0 < n" "k < XGL_ALLOCATOR_PHASE_COUNT" "am_headers mem (p - ALLOC_HEADER_SIZE) = header_of n k"
  using assms by (auto simp: track_inv_def)

lemma user_malloc_headers: "am_headers (snd (user_malloc mem)) = am_headers mem"
  by (simp add: user_malloc_def split: list.split)

lemma track_alloc_cases:
  assumes "n + ALLOC_HEADER_SIZE < SIZE_RANGE"
  shows "track_step (t, mem, held) (TrackAlloc n) =
    (if n = 0 then (t, mem, held)
     else case user_malloc mem of (a, mem') \<Rightarrow>
       if a = 0 then (t, mem', held)
       else case tracking_commit t mem' a n of (p, t', mem'') \<Rightarrow> (t', mem'', held(p \<mapsto> (n, tr_current_phase t))))"
  using assms by (simp add: xgl_alloc_def ALLOC_HEADER_SIZE_def tracking_commit_def Let_def case_prod_beta)

lemma track_alloc_inv:
  assumes inv: "track_inv (t, mem, held)" and fresh: "fresh_block mem held n"
  shows "track_inv (track_step (t, mem, held) (TrackAlloc n))"
proof -
  obtain a mem' where u: "user_malloc mem = (a, mem')" by (rule prod.exhaust)
  have hdr: "am_headers mem' = am_headers mem" using user_malloc_headers [of mem] u by simp
  show ?thesis
  proof (cases "n = 0 \<or> a = 0")
    case True
    have "n + ALLOC_HEADER_SIZE < SIZE_RANGE" using fresh by (simp add: fresh_block_def)
    then have step: "track_step (t, mem, held) (TrackAlloc n) = (t, if n = 0 then mem else mem', held)"
      using track_alloc_cases [of n t mem held] True u by auto
    show ?thesis unfolding step using inv hdr by (auto simp: track_inv_def)
  next
    case False
    let ?k = "tr_current_phase t" and ?p = "a + ALLOC_HEADER_SIZE"
    let ?held = "held(?p \<mapsto> (n, ?k))"
    let ?t = "t \<lparr> tr_stats := update_alloc_stats (tr_stats t) (word_of_nat n),
        tr_phase_stats := (tr_phase_stats t)[?k := update_alloc_stats (tr_phase_stats t ! ?k) (word_of_nat n)] \<rparr>"
    let ?mem = "mem' \<lparr> am_headers := (am_headers mem')(a := header_of n ?k) \<rparr>"
    have fin: "finite (dom held)" and len: "length (tr_phase_stats t) = XGL_ALLOCATOR_PHASE_COUNT" and k: "?k < XGL_ALLOCATOR_PHASE_COUNT"
      and all: "account (tr_stats t) (held_bytes any_phase held)"
      and per: "\<And>j. j < XGL_ALLOCATOR_PHASE_COUNT \<Longrightarrow> account (tr_phase_stats t ! j) (held_bytes ((=) j) held)"
      using inv by (simp_all add: track_inv_def)
    have new: "?p \<notin> dom held" and room: "held_bytes any_phase held + n < SIZE_RANGE" using fresh u by (simp_all add: fresh_block_def)
    have step: "track_step (t, mem, held) (TrackAlloc n) = (?t, ?mem, ?held)"
      using False fresh u track_alloc_cases [of n t mem held] by (simp add: fresh_block_def tracking_commit_def header_of_def Let_def)
    have bytes: "held_bytes Q ?held = held_bytes Q held + (if Q ?k then n else 0)" for Q using held_bytes_add [OF fin new] .
    have room_k: "held_bytes ((=) ?k) held + n < SIZE_RANGE" using held_bytes_mono [OF fin, of "(=) ?k"] room by linarith
    have "ALLOC_HEADER_SIZE < q \<and> 0 < m \<and> j < XGL_ALLOCATOR_PHASE_COUNT \<and> am_headers ?mem (q - ALLOC_HEADER_SIZE) = header_of m j"
      if "?held q = Some (m, j)" for q m j
    proof (cases "q = ?p")
      case True
      then show ?thesis using that False k by (simp add: ALLOC_HEADER_SIZE_def)
    next
      case neq: False
      then have q: "held q = Some (m, j)" using that by simp
      then have "q - ALLOC_HEADER_SIZE \<noteq> a" using track_invD(1) [OF inv q] neq by auto
      then show ?thesis using track_invD [OF inv q] hdr by simp
    qed
    moreover have "account (tr_stats ?t) (held_bytes any_phase ?held)" using account_alloc [OF all room] by (simp add: bytes any_phase_def)
    moreover have "account (tr_phase_stats ?t ! j) (held_bytes ((=) j) ?held)" if "j < XGL_ALLOCATOR_PHASE_COUNT" for j
      using per [OF that] account_alloc [OF per [OF k] room_k] len k that by (cases "j = ?k") (simp_all add: bytes)
    ultimately show ?thesis using fin len k unfolding step track_inv_def by auto
  qed
qed

lemma track_free_inv:
  assumes inv: "track_inv (t, mem, held)" and p: "p = 0 \<or> p \<in> dom held"
  shows "track_inv (track_step (t, mem, held) (TrackFree p))"
proof (cases "p = 0")
  case True
  have "0 \<notin> dom held" using track_invD(1) [OF inv, of 0] by fastforce
  then have "held(0 := None) = held" by (auto simp: fun_upd_idem domIff)
  then show ?thesis using inv True by (simp add: xgl_free_def)
next
  case False
  then obtain n k where h: "held p = Some (n, k)" using p by fastforce
  note d = track_invD [OF inv h]
  let ?held = "held(p := None)" and ?a = "p - ALLOC_HEADER_SIZE"
  let ?t = "t \<lparr> tr_stats := update_free_stats (tr_stats t) (word_of_nat n),
      tr_phase_stats := (tr_phase_stats t)[k := update_free_stats (tr_phase_stats t ! k) (word_of_nat n)] \<rparr>"
  let ?mem = "mem \<lparr> am_headers := (am_headers mem)(?a := header_of n k \<lparr> ah_magic := 0 \<rparr>), am_freed := am_freed mem @ [?a] \<rparr>"
  have fin: "finite (dom held)" and len: "length (tr_phase_stats t) = XGL_ALLOCATOR_PHASE_COUNT" and cur: "tr_current_phase t < XGL_ALLOCATOR_PHASE_COUNT"
    and all: "account (tr_stats t) (held_bytes any_phase held)"
    and per: "\<And>j. j < XGL_ALLOCATOR_PHASE_COUNT \<Longrightarrow> account (tr_phase_stats t ! j) (held_bytes ((=) j) held)"
    using inv by (simp_all add: track_inv_def)
  have "track_step (t, mem, held) (TrackFree p) = (?t, ?mem, ?held)"
    using False d by (simp add: xgl_free_def header_of_def Let_def)
  moreover have bytes: "held_bytes Q held = held_bytes Q ?held + (if Q k then n else 0)" for Q using held_bytes_del [OF fin h] .
  have "account (tr_stats ?t) (held_bytes any_phase ?held)"
    using account_free [OF all, of n] bytes [of any_phase] by (simp add: any_phase_def)
  moreover have "account (tr_phase_stats ?t ! j) (held_bytes ((=) j) ?held)" if "j < XGL_ALLOCATOR_PHASE_COUNT" for j
    using per [OF that] account_free [OF per [OF d(3)], of n] bytes [of "(=) j"] len d(3) that by (cases "j = k") simp_all
  moreover have "am_headers ?mem (q - ALLOC_HEADER_SIZE) = header_of m j" if "?held q = Some (m, j)" for q m j
  proof -
    have q: "held q = Some (m, j)" "q \<noteq> p" using that by (auto split: if_splits)
    then have "q - ALLOC_HEADER_SIZE \<noteq> ?a" using track_invD(1) [OF inv q(1)] d(1) by auto
    then show ?thesis using track_invD(4) [OF inv q(1)] by simp
  qed
  ultimately show ?thesis using inv fin len cur unfolding track_inv_def by (auto split: if_splits)
qed

lemma tracked_inv: "tracked s \<Longrightarrow> track_inv s"
proof (induction rule: tracked.induct)
  case (start fallback u t mem)
  then have "t = \<lparr> tr_stats = zero_stats, tr_phase_stats = replicate XGL_ALLOCATOR_PHASE_COUNT zero_stats, tr_current_phase = 0 \<rparr>"
    by (simp add: xgl_tracking_allocator_init_def)
  then show ?case
    by (simp add: track_inv_def held_bytes_def account_def zero_stats_def XGL_ALLOCATOR_PHASE_COUNT_def SIZE_RANGE_def)
next
  case (alloc t mem held n)
  then show ?case by (intro track_alloc_inv)
next
  case (free t mem held p)
  then show ?case by (intro track_free_inv)
next
  case (phase t mem held k)
  then show ?case by (simp add: track_inv_def xgl_tracking_allocator_set_phase_def)
next
  case (reset t mem held)
  then show ?case by (simp add: track_inv_def xgl_tracking_allocator_reset_stats_def account_reset)
next
  case (environment t mem held mem')
  have "am_headers mem' (p - ALLOC_HEADER_SIZE) = am_headers mem (p - ALLOC_HEADER_SIZE)" if "held p = Some x" for p x
    using environment(2) [of p] that by blast
  then show ?case using environment(3) by (auto simp: track_inv_def)
qed

lemma held_bytes_zero:
  assumes "finite (dom held)" "\<And>p n k. held p = Some (n, k) \<Longrightarrow> 0 < n"
  shows "held_bytes any_phase held = 0 \<longleftrightarrow> held = Map.empty"
proof
  assume "held_bytes any_phase held = 0"
  then have "\<forall>p \<in> dom held. fst (the (held p)) = 0" using assms(1) by (simp add: held_bytes_def any_phase_def)
  then have "held p = None" for p using assms(2) [of p] by (cases "held p") force+
  then show "held = Map.empty" by blast
qed (simp add: held_bytes_def)

text \<open>
  C35: the tracking allocator. Whatever a client allocates and frees, in whatever phases, and whenever the statistics are reset,
  the number of currently allocated bytes is exactly the sum of the sizes of the blocks the client
  holds, in total and for the phase in which they were allocated; total allocated minus total freed is the current number and the
  peak is at least that. The current number is zero exactly when nothing is held: a balance of zero means that there is no leak.
\<close>

theorem tracking_statistics_exact:
  assumes "tracked (t, mem, held)"
  shows "unat (as_current_allocated (xgl_tracking_allocator_get_stats t)) = held_bytes any_phase held
    \<and> (\<forall>k < XGL_ALLOCATOR_PHASE_COUNT.
         unat (as_current_allocated (xgl_tracking_allocator_get_phase_stats t ! k)) = held_bytes ((=) k) held)
    \<and> as_total_allocated (tr_stats t) - as_total_freed (tr_stats t) = as_current_allocated (tr_stats t)
    \<and> as_current_allocated (tr_stats t) \<le> as_peak_allocated (tr_stats t)
    \<and> (as_current_allocated (tr_stats t) = 0 \<longleftrightarrow> held = Map.empty)"
proof -
  have inv: "track_inv (t, mem, held)" using tracked_inv [OF assms] .
  have bytes: "unat (as_current_allocated s) = T" if "account s T" for s T using that unat_size by (simp add: account_def)
  have all: "account (tr_stats t) (held_bytes any_phase held)" and fin: "finite (dom held)" using inv by (simp_all add: track_inv_def)
  have "as_current_allocated (tr_stats t) = 0 \<longleftrightarrow> held = Map.empty"
    using bytes [OF all] held_bytes_zero [OF fin] track_invD(2) [OF inv] by (metis unat_eq_zero)
  moreover have "\<forall>k < XGL_ALLOCATOR_PHASE_COUNT. unat (as_current_allocated (tr_phase_stats t ! k)) = held_bytes ((=) k) held"
    using inv bytes by (simp add: track_inv_def)
  ultimately show ?thesis using all bytes [OF all]
    by (auto simp: account_def xgl_tracking_allocator_get_stats_def xgl_tracking_allocator_get_phase_stats_def)
qed

definition sample_tracker :: xgl_tracking where
  "sample_tracker = \<lparr> tr_stats = zero_stats, tr_phase_stats = replicate XGL_ALLOCATOR_PHASE_COUNT zero_stats, tr_current_phase = 0 \<rparr>"

definition sample_heap :: alloc_mem where
  "sample_heap = \<lparr> am_headers = (\<lambda>_. header_of 0 0), am_addrs = [4096, 8192], am_freed = [] \<rparr>"

theorem tracking_statistics_exact_witness:
  "case track_step (sample_tracker, sample_heap, Map.empty) (TrackAlloc 100) of
     (t, mem, held) \<Rightarrow> unat (as_current_allocated (xgl_tracking_allocator_get_stats t)) = 100 \<and> held 4112 = Some (100, 0)"
proof -
  have "tracked (sample_tracker, sample_heap, Map.empty)"
    by (rule tracked.start [of False "UserAllocator True True"]) (simp add: xgl_tracking_allocator_init_def sample_tracker_def)
  moreover have "fresh_block sample_heap Map.empty 100"
    by (simp add: fresh_block_def held_bytes_def ALLOC_HEADER_SIZE_def SIZE_RANGE_def)
  ultimately have "tracked (track_step (sample_tracker, sample_heap, Map.empty) (TrackAlloc 100))" by (rule tracked.alloc)
  moreover obtain t mem held where s: "track_step (sample_tracker, sample_heap, Map.empty) (TrackAlloc 100) = (t, mem, held)"
    by (rule prod_cases3)
  ultimately have "unat (as_current_allocated (xgl_tracking_allocator_get_stats t)) = held_bytes any_phase held"
    using tracking_statistics_exact [of t mem held] by simp
  moreover have held: "held = [4112 \<mapsto> (100, 0)]"
    using s by (simp add: xgl_alloc_def sample_heap_def sample_tracker_def user_malloc_def tracking_commit_def Let_def ALLOC_HEADER_SIZE_def SIZE_RANGE_def)
  moreover have "held_bytes any_phase held = 100" unfolding held by (simp add: held_bytes_def any_phase_def)
  ultimately show ?thesis unfolding s by simp
qed

text \<open>
  The size of the header is added to the request without an overflow check: a request close to the maximal size makes the
  tracker ask for a block that is smaller than its own header.
\<close>

lemma tracking_alloc_wraps:
  assumes "SIZE_RANGE - ALLOC_HEADER_SIZE < n" "n < SIZE_RANGE"
  shows "(n + ALLOC_HEADER_SIZE) mod SIZE_RANGE < ALLOC_HEADER_SIZE"
proof -
  have "(n + ALLOC_HEADER_SIZE) mod SIZE_RANGE = n + ALLOC_HEADER_SIZE - SIZE_RANGE"
    using assms by (subst le_mod_geq) (simp_all add: SIZE_RANGE_def ALLOC_HEADER_SIZE_def)
  then show ?thesis using assms by (simp add: ALLOC_HEADER_SIZE_def)
qed

end
