(* ===== verification/Xgl_Packet_Pool.thy ===== *)
theory Xgl_Packet_Pool
  imports Xgl_List Xgl_Mempool Xgl_Transport
begin

text \<open>
  The packet object pool of \<^verbatim>\<open>src/memory/xgl_packet_pool.c\<close>: an array of packets whose free ones are linked in the
  intrusive list of \<open>Xgl_List\<close> (a packet's address is its index, its list node has the same address), and the
  reference-counted packet data. A data object has an address; \<open>None\<close> in the store means that it is not
  allocated. Which addresses the allocator returns is an argument, the frees are an output.

  The pool is shown to hand out every packet to one user at a time and cleared, for users that give back
  only packets they hold; a data object is freed exactly when its last reference is dropped.
\<close>

section \<open>Packet data\<close>

record data_object =
  do_ref_count :: u32
  do_data_len :: nat
  do_data :: bytes
  do_owned_data :: "nat option"

type_synonym data_store = "nat \<rightharpoonup> data_object"

definition xgl_packet_data_ref :: "data_store \<Rightarrow> nat option \<Rightarrow> data_store" where
  "xgl_packet_data_ref ds data =
     (case data of None \<Rightarrow> ds | Some d \<Rightarrow>
        (case ds d of None \<Rightarrow> ds | Some obj \<Rightarrow> ds(d \<mapsto> obj \<lparr> do_ref_count := do_ref_count obj + 1 \<rparr>)))"

definition xgl_packet_data_unref :: "data_store \<Rightarrow> nat option \<Rightarrow> nat list \<times> data_store" where
  "xgl_packet_data_unref ds data =
     (case data of None \<Rightarrow> ([], ds) | Some d \<Rightarrow>
        (case ds d of None \<Rightarrow> ([], ds) | Some obj \<Rightarrow>
           let obj = (if do_ref_count obj > 0 then obj \<lparr> do_ref_count := do_ref_count obj - 1 \<rparr> else obj)
           in if do_ref_count obj = 0
              then ((case do_owned_data obj of None \<Rightarrow> [] | Some b \<Rightarrow> [b]) @ [d], ds(d := None))
              else ([], ds(d \<mapsto> obj))))"

definition xgl_packet_data_create ::
  "data_store \<Rightarrow> bytes option \<Rightarrow> nat \<Rightarrow> nat option \<Rightarrow> nat option \<Rightarrow> nat option \<times> nat list \<times> data_store" where
  "xgl_packet_data_create ds data len object_addr buffer_addr =
     (case data of
        None \<Rightarrow> (None, [], ds)
      | Some bs \<Rightarrow>
          if len = 0 then (None, [], ds)
          else case object_addr of
                 None \<Rightarrow> (None, [], ds)
               | Some d \<Rightarrow>
                   (case buffer_addr of
                      None \<Rightarrow> (None, [d], ds)
                    | Some b \<Rightarrow>
                        (Some d, [], ds(d \<mapsto> \<lparr> do_ref_count = 1, do_data_len = len, do_data = mem_read bs 0 len, do_owned_data = Some b \<rparr>))))"

section \<open>The pool\<close>

record pool_packet =
  pp_fields :: xgl_packet            \<comment> \<open>all fields but the data pointer and the list node\<close>
  pp_data :: "nat option"

record xgl_packet_pool =
  pq_packets :: "pool_packet list option"
  pq_free_list :: xgl_list
  pq_total_count :: nat
  pq_free_count :: nat
  pq_peak_used :: nat

definition zero_pool_packet :: pool_packet where
  "zero_pool_packet = \<lparr> pp_fields = zero_packet, pp_data = None \<rparr>"

definition set_packet :: "nat \<Rightarrow> pool_packet \<Rightarrow> xgl_packet_pool \<Rightarrow> xgl_packet_pool" where
  "set_packet i p pool = pool \<lparr> pq_packets := map_option (\<lambda>ps. ps[i := p]) (pq_packets pool) \<rparr>"

fun pool_link_packets :: "xgl_packet_pool \<Rightarrow> node_store \<Rightarrow> nat list \<Rightarrow> xgl_packet_pool \<times> node_store" where
  "pool_link_packets pool h [] = (pool, h)"
| "pool_link_packets pool h (i # is) =
     (let pool = set_packet i zero_pool_packet pool;
          h = xgl_list_node_init h (Some i);
          (l, h) = xgl_list_insert_tail (pq_free_list pool) h (Some i)
      in pool_link_packets (pool \<lparr> pq_free_list := l \<rparr>) h is)"

text \<open>\<open>array\<close> is the allocated array with whatever it contains, or \<open>None\<close> when the allocation fails.\<close>

definition xgl_packet_pool_init :: "nat \<Rightarrow> pool_packet list option \<Rightarrow> node_store \<Rightarrow> (xgl_packet_pool \<times> node_store) option" where
  "xgl_packet_pool_init count array h =
     (if count = 0 then None
      else case array of
             None \<Rightarrow> None
           | Some ps \<Rightarrow>
               Some (pool_link_packets \<lparr> pq_packets = Some ps, pq_free_list = xgl_list_init, pq_total_count = count,
                                         pq_free_count = count, pq_peak_used = 0 \<rparr> h [0..<count]))"

definition xgl_packet_pool_destroy :: xgl_packet_pool where
  "xgl_packet_pool_destroy = \<lparr> pq_packets = None, pq_free_list = xgl_list_init, pq_total_count = 0, pq_free_count = 0, pq_peak_used = 0 \<rparr>"

definition xgl_packet_alloc :: "xgl_packet_pool \<Rightarrow> node_store \<Rightarrow> nat option \<times> xgl_packet_pool \<times> node_store" where
  "xgl_packet_alloc pool h =
     (if xgl_list_is_empty (pq_free_list pool) then (None, pool, h)
      else case xgl_list_remove_head (pq_free_list pool) h of
             (None, l, h) \<Rightarrow> (None, pool \<lparr> pq_free_list := l \<rparr>, h)
           | (Some i, l, h) \<Rightarrow>
               let pool = pool \<lparr> pq_free_list := l, pq_free_count := size_sub (pq_free_count pool) 1 \<rparr>;
                   used_count = size_sub (pq_total_count pool) (pq_free_count pool);
                   pool = (if used_count > pq_peak_used pool then pool \<lparr> pq_peak_used := used_count \<rparr> else pool)
               in (Some i, set_packet i zero_pool_packet pool, xgl_list_node_init h (Some i)))"

definition xgl_packet_free ::
  "xgl_packet_pool \<Rightarrow> node_store \<Rightarrow> data_store \<Rightarrow> nat option \<Rightarrow> nat list \<times> xgl_packet_pool \<times> node_store \<times> data_store" where
  "xgl_packet_free pool h ds packet =
     (case packet of
        None \<Rightarrow> ([], pool, h, ds)
      | Some i \<Rightarrow>
          let (freed, ds) = xgl_packet_data_unref ds (pp_data (the (pq_packets pool) ! i));
              pool = set_packet i zero_pool_packet pool;
              h = xgl_list_node_init h (Some i);
              (l, h) = xgl_list_insert_tail (pq_free_list pool) h (Some i)
          in (freed, pool \<lparr> pq_free_list := l, pq_free_count := (pq_free_count pool + 1) mod SIZE_RANGE \<rparr>, h, ds))"

definition xgl_packet_pool_get_free_count :: "xgl_packet_pool \<Rightarrow> nat" where
  "xgl_packet_pool_get_free_count pool = pq_free_count pool"

definition xgl_packet_pool_get_used_count :: "xgl_packet_pool \<Rightarrow> nat" where
  "xgl_packet_pool_get_used_count pool = size_sub (pq_total_count pool) (pq_free_count pool)"

definition xgl_packet_pool_get_peak_used :: "xgl_packet_pool \<Rightarrow> nat" where
  "xgl_packet_pool_get_peak_used pool = pq_peak_used pool"

definition xgl_packet_pool_is_empty :: "xgl_packet_pool \<Rightarrow> bool" where
  "xgl_packet_pool_is_empty pool \<longleftrightarrow> pq_free_count pool = pq_total_count pool"

definition xgl_packet_pool_is_full :: "xgl_packet_pool \<Rightarrow> bool" where
  "xgl_packet_pool_is_full pool \<longleftrightarrow> pq_free_count pool = 0"

definition xgl_packet_pool_reset_stats :: "xgl_packet_pool \<Rightarrow> xgl_packet_pool" where
  "xgl_packet_pool_reset_stats pool = pool \<lparr> pq_peak_used := size_sub (pq_total_count pool) (pq_free_count pool) \<rparr>"

section \<open>The pool and its free packets\<close>

definition packets_rep :: "nat \<Rightarrow> xgl_packet_pool \<Rightarrow> node_store \<Rightarrow> nat list \<Rightarrow> bool" where
  "packets_rep count pool h fs \<longleftrightarrow> rep fs (pq_free_list pool) h \<and> set fs \<subseteq> {..<count} \<and> pq_total_count pool = count
     \<and> pq_free_count pool = length fs \<and> count - length fs \<le> pq_peak_used pool \<and> pq_peak_used pool \<le> count
     \<and> (\<exists>ps. pq_packets pool = Some ps \<and> length ps = count)"

lemma node_init_frame: "a \<noteq> n \<Longrightarrow> xgl_list_node_init h (Some n) a = h a"
  by (simp add: xgl_list_node_init_def set_next_def set_prev_def)

lemma rep_node_init: "rep xs l h \<Longrightarrow> n \<notin> set xs \<Longrightarrow> rep xs l (xgl_list_node_init h (Some n))"
proof -
  assume r: "rep xs l h" and n: "n \<notin> set xs"
  have "links (xgl_list_node_init h (Some n)) None xs None = links h None xs None"
  proof (rule links_frame)
    fix x assume "x \<in> set xs"
    then have "x \<noteq> n" using n by blast
    then show "xgl_list_node_init h (Some n) x = h x" by (rule node_init_frame)
  qed
  then show ?thesis using r by (simp add: rep_def)
qed

lemma set_packet_sel [simp]:
  "pq_free_list (set_packet i p pool) = pq_free_list pool" "pq_total_count (set_packet i p pool) = pq_total_count pool"
  "pq_free_count (set_packet i p pool) = pq_free_count pool" "pq_peak_used (set_packet i p pool) = pq_peak_used pool"
  "pq_packets (set_packet i p pool) = map_option (\<lambda>ps. ps[i := p]) (pq_packets pool)"
  by (simp_all add: set_packet_def)

lemma packets_repD: "packets_rep count pool h fs \<Longrightarrow> distinct fs" "packets_rep count pool h fs \<Longrightarrow> li_head (pq_free_list pool) = first_of fs None"
  unfolding packets_rep_def using rep_ends by blast+

lemma packets_rep_length: "packets_rep count pool h fs \<Longrightarrow> length fs \<le> count"
  using card_mono [of "{..<count}" "set fs"] distinct_card [OF packets_repD(1)] by (simp add: packets_rep_def)

lemma packet_alloc_rep:
  assumes rep: "packets_rep count pool h fs"
  shows "fs = [] \<Longrightarrow> xgl_packet_alloc pool h = (None, pool, h)"
    and "fs = i # gs \<Longrightarrow> \<exists>pool' h'. xgl_packet_alloc pool h = (Some i, pool', h') \<and> packets_rep count pool' h' gs
      \<and> the (pq_packets pool') = (the (pq_packets pool))[i := zero_pool_packet]"
proof -
  have head: "li_head (pq_free_list pool) = first_of fs None" using packets_repD(2) [OF rep] .
  show "fs = [] \<Longrightarrow> xgl_packet_alloc pool h = (None, pool, h)" using head by (simp add: xgl_packet_alloc_def xgl_list_is_empty_def)
  assume fs: "fs = i # gs"
  obtain l' h' where rm: "xgl_list_remove (pq_free_list pool) h (Some i) = (l', h')" by (rule prod.exhaust)
  have rep': "rep gs l' h'" using remove_rep [of "[]" i gs, OF _ rm] rep fs by (simp add: packets_rep_def)
  have i: "i \<notin> set gs" using packets_repD(1) [OF rep] fs by simp
  have len: "Suc (length gs) \<le> count" using packets_rep_length [OF rep] fs by simp
  let ?p = "pool \<lparr> pq_free_list := l', pq_free_count := pq_free_count pool - 1 \<rparr>"
  let ?q = "if count - length gs > pq_peak_used pool then ?p \<lparr> pq_peak_used := count - length gs \<rparr> else ?p"
  have "xgl_packet_alloc pool h = (Some i, set_packet i zero_pool_packet ?q, xgl_list_node_init h' (Some i))"
    using head fs rm rep len by (simp add: xgl_packet_alloc_def xgl_list_is_empty_def xgl_list_remove_head_def packets_rep_def Let_def)
  moreover have "packets_rep count (set_packet i zero_pool_packet ?q) (xgl_list_node_init h' (Some i)) gs"
    using rep rep_node_init [OF rep' i] fs len by (auto simp: packets_rep_def)
  moreover have "the (pq_packets (set_packet i zero_pool_packet ?q)) = (the (pq_packets pool))[i := zero_pool_packet]"
    using rep by (auto simp: packets_rep_def)
  ultimately show "\<exists>pool' h'. xgl_packet_alloc pool h = (Some i, pool', h') \<and> packets_rep count pool' h' gs
      \<and> the (pq_packets pool') = (the (pq_packets pool))[i := zero_pool_packet]" by blast
qed

lemma packet_free_rep:
  assumes rep: "packets_rep count pool h fs" and i: "i < count" "i \<notin> set fs" and count: "count < SIZE_RANGE"
  shows "\<exists>freed pool' h' ds'. xgl_packet_free pool h ds (Some i) = (freed, pool', h', ds') \<and> packets_rep count pool' h' (fs @ [i])
    \<and> (freed, ds') = xgl_packet_data_unref ds (pp_data (the (pq_packets pool) ! i))
    \<and> the (pq_packets pool') = (the (pq_packets pool))[i := zero_pool_packet]"
proof -
  have r: "rep fs (pq_free_list pool) (xgl_list_node_init h (Some i))" using rep rep_node_init i(2) by (simp add: packets_rep_def)
  obtain l h' where ins: "xgl_list_insert_tail (pq_free_list pool) (xgl_list_node_init h (Some i)) (Some i) = (l, h')" by (rule prod.exhaust)
  have new: "rep (fs @ [i]) l h'" using insert_tail_rep [OF r i(2) ins] by simp
  have len: "length fs < count" using card_mono [of "{..<count}" "insert i (set fs)"] rep i distinct_card [OF packets_repD(1) [OF rep]]
    by (auto simp: packets_rep_def)
  obtain freed ds' where u: "xgl_packet_data_unref ds (pp_data (the (pq_packets pool) ! i)) = (freed, ds')" by (rule prod.exhaust)
  let ?pool = "set_packet i zero_pool_packet pool \<lparr> pq_free_list := l, pq_free_count := pq_free_count pool + 1 \<rparr>"
  have "xgl_packet_free pool h ds (Some i) = (freed, ?pool, h', ds')"
    using u ins len rep count by (simp add: xgl_packet_free_def packets_rep_def)
  moreover have "packets_rep count ?pool h' (fs @ [i])" using new rep i len by (auto simp: packets_rep_def)
  moreover have "the (pq_packets ?pool) = (the (pq_packets pool))[i := zero_pool_packet]" using rep by (auto simp: packets_rep_def)
  ultimately show ?thesis using u by metis
qed

lemma link_packets_rep:
  assumes "rep fs (pq_free_list pool) h" "distinct (fs @ is)" "pq_packets pool = Some ps" "set is \<subseteq> {..<length ps}"
    "pool_link_packets pool h is = (pool', h')"
  shows "rep (fs @ is) (pq_free_list pool') h' \<and> pq_total_count pool' = pq_total_count pool \<and> pq_free_count pool' = pq_free_count pool
    \<and> pq_peak_used pool' = pq_peak_used pool
    \<and> (\<exists>ps'. pq_packets pool' = Some ps' \<and> length ps' = length ps \<and> (\<forall>i < length ps. ps' ! i = (if i \<in> set is then zero_pool_packet else ps ! i)))"
  using assms
proof (induction "is" arbitrary: fs pool h ps)
  case (Cons i "is")
  have i: "i \<notin> set fs" using Cons.prems(2) by simp
  obtain l g where ins: "xgl_list_insert_tail (pq_free_list pool) (xgl_list_node_init h (Some i)) (Some i) = (l, g)" by (rule prod.exhaust)
  let ?pool = "set_packet i zero_pool_packet pool \<lparr> pq_free_list := l \<rparr>"
  have r: "rep (fs @ [i]) l g" using insert_tail_rep [OF rep_node_init [OF Cons.prems(1) i] i ins] by simp
  have p: "pq_packets ?pool = Some (ps[i := zero_pool_packet])" using Cons.prems(3) by simp
  have lk: "pool_link_packets ?pool g is = (pool', h')" using Cons.prems(5) ins by (simp add: Let_def)
  obtain ps' where IH: "rep ((fs @ [i]) @ is) (pq_free_list pool') h'" "pq_total_count pool' = pq_total_count pool" "pq_free_count pool' = pq_free_count pool"
      "pq_peak_used pool' = pq_peak_used pool" "pq_packets pool' = Some ps'" "length ps' = length ps"
      "\<forall>j < length ps. ps' ! j = (if j \<in> set is then zero_pool_packet else ps[i := zero_pool_packet] ! j)"
    using Cons.IH [OF _ _ p _ lk, of "fs @ [i]"] r Cons.prems(2,4) by auto
  then have "\<forall>j < length ps. ps' ! j = (if j \<in> set (i # is) then zero_pool_packet else ps ! j)" by (auto simp: nth_list_update)
  then show ?case using IH by auto
qed auto

lemma packet_pool_init_rep:
  assumes "xgl_packet_pool_init count (Some ps) h = Some (pool, h')" "length ps = count"
  shows "packets_rep count pool h' [0..<count] \<and> the (pq_packets pool) = replicate count zero_pool_packet"
proof -
  let ?p = "\<lparr> pq_packets = Some ps, pq_free_list = xgl_list_init, pq_total_count = count, pq_free_count = count, pq_peak_used = 0 \<rparr>"
  have l: "pool_link_packets ?p h [0..<count] = (pool, h')" using assms(1) by (auto simp: xgl_packet_pool_init_def split: if_splits)
  obtain ps' where r: "rep [0..<count] (pq_free_list pool) h'" "pq_total_count pool = count" "pq_free_count pool = count" "pq_peak_used pool = 0"
      "pq_packets pool = Some ps'" "length ps' = count" "\<forall>i < count. ps' ! i = zero_pool_packet"
    using link_packets_rep [of "[]" ?p h "[0..<count]" ps, OF _ _ _ _ l] assms(2) rep_init [of h] by (auto simp: atLeast0LessThan)
  have "ps' = replicate count zero_pool_packet" using r(6,7) by (intro nth_equalityI) auto
  then show ?thesis using r by (auto simp: packets_rep_def)
qed

section \<open>References to packet data\<close>

definition refs_ok :: "data_store \<Rightarrow> (nat \<Rightarrow> nat) \<Rightarrow> bool" where
  "refs_ok ds T \<longleftrightarrow> (\<forall>d. case ds d of None \<Rightarrow> T d = 0 | Some obj \<Rightarrow> 0 < T d \<and> T d < 4294967296 \<and> do_ref_count obj = word_of_nat (T d))"

lemma refs_okD: "refs_ok ds T \<Longrightarrow> 0 < T d \<Longrightarrow> \<exists>obj. ds d = Some obj \<and> T d < 4294967296 \<and> do_ref_count obj = word_of_nat (T d)"
  by (auto simp: refs_ok_def split: option.splits dest: spec [of _ d])

lemma refs_ok_upd:
  assumes "refs_ok ds T" "case x of None \<Rightarrow> n = 0 | Some obj \<Rightarrow> 0 < n \<and> n < 4294967296 \<and> do_ref_count obj = word_of_nat n"
  shows "refs_ok (ds(d := x)) (T(d := n))"
  unfolding refs_ok_def
proof
  fix e
  show "case (ds(d := x)) e of None \<Rightarrow> (T(d := n)) e = 0
    | Some obj \<Rightarrow> 0 < (T(d := n)) e \<and> (T(d := n)) e < 4294967296 \<and> do_ref_count obj = word_of_nat ((T(d := n)) e)"
    using assms(2) assms(1) [unfolded refs_ok_def, rule_format, of e] by (auto split: option.splits)
qed

lemma data_ref_ok:
  assumes ok: "refs_ok ds T" and d: "0 < T d" "T d + 1 < 4294967296"
  shows "refs_ok (xgl_packet_data_ref ds (Some d)) (T(d := T d + 1))"
proof -
  obtain obj where o: "ds d = Some obj" "do_ref_count obj = word_of_nat (T d)" using refs_okD [OF ok d(1)] by blast
  have "xgl_packet_data_ref ds (Some d) = ds(d := Some (obj \<lparr> do_ref_count := do_ref_count obj + 1 \<rparr>))"
    using o(1) by (simp add: xgl_packet_data_ref_def)
  then show ?thesis using refs_ok_upd [OF ok, where x = "Some (obj \<lparr> do_ref_count := do_ref_count obj + 1 \<rparr>)" and n = "T d + 1" and d = d] o d(2) by (simp add: add.commute)
qed

lemma data_unref_ok:
  assumes ok: "refs_ok ds T" and d: "0 < T d"
  shows "refs_ok (snd (xgl_packet_data_unref ds (Some d))) (T(d := T d - 1))"
    and "d \<in> set (fst (xgl_packet_data_unref ds (Some d))) \<longleftrightarrow> T d = 1"
proof -
  obtain obj where o: "ds d = Some obj" "do_ref_count obj = word_of_nat (T d)" "T d < 4294967296" using refs_okD [OF ok d] by blast
  have u: "unat (word_of_nat n :: u32) = n" if "n \<le> T d" for n using o(3) that by (simp add: unsigned_of_nat take_bit_nat_eq_self)
  have pos: "(word_of_nat (T d) :: u32) > 0" using u [of "T d"] d by (simp add: word_gt_0_no word_less_nat_alt)
  define r where "r = (word_of_nat (T d - 1) :: u32)"
  have one: "(word_of_nat (T d) :: u32) - 1 = r" using d by (simp add: of_nat_diff r_def)
  have "w = 0 \<longleftrightarrow> unat w = 0" for w :: u32 by (simp add: unsigned_eq_0_iff)
  then have zero: "r = 0 \<longleftrightarrow> T d = 1" using u [of "T d - 1"] d unfolding r_def by (metis diff_le_self One_nat_def Suc_pred diff_Suc_1)
  let ?obj = "obj \<lparr> do_ref_count := r \<rparr>"
  have eq: "xgl_packet_data_unref ds (Some d) =
      (if T d = 1 then ((case do_owned_data obj of None \<Rightarrow> [] | Some b \<Rightarrow> [b]) @ [d], ds(d := None)) else ([], ds(d := Some ?obj)))"
    using o(1,2) pos one zero by (simp add: xgl_packet_data_unref_def Let_def)
  show "refs_ok (snd (xgl_packet_data_unref ds (Some d))) (T(d := T d - 1))"
    using refs_ok_upd [OF ok, where x = None and n = 0 and d = d] refs_ok_upd [OF ok, where x = "Some ?obj" and n = "T d - 1" and d = d] d o(3) by (auto simp: eq r_def)
  show "d \<in> set (fst (xgl_packet_data_unref ds (Some d))) \<longleftrightarrow> T d = 1" by (simp add: eq)
qed

section \<open>Users of packets and packet data\<close>

text \<open>
  What users of the pool do: they take packets, fill in the packets they hold, attach packet data they have a reference
  to (the reference goes to the packet), and give packets back; they create packet data, share it and drop references they
  have. \<open>used\<close> are the packets handed out, \<open>refs\<close> the references held outside of packets. The allocator
  returns addresses that are not in use, and there are less than \<open>2^32\<close> references to an object.
\<close>

record pool_state =
  ps_pool :: xgl_packet_pool
  ps_nodes :: node_store
  ps_data :: data_store
  ps_used :: "nat set"
  ps_refs :: "nat \<Rightarrow> nat"

definition data_of :: "xgl_packet_pool \<Rightarrow> nat \<Rightarrow> nat option" where
  "data_of pool i = pp_data (the (pq_packets pool) ! i)"

definition carried_refs :: "xgl_packet_pool \<Rightarrow> nat set \<Rightarrow> nat \<Rightarrow> nat" where
  "carried_refs pool used d = card {i \<in> used. data_of pool i = Some d}"

definition all_refs :: "pool_state \<Rightarrow> nat \<Rightarrow> nat" where
  "all_refs s = (\<lambda>d. ps_refs s d + carried_refs (ps_pool s) (ps_used s) d)"

inductive pool_reachable :: "nat \<Rightarrow> pool_state \<Rightarrow> bool" for count where
  start: "pool_reachable count \<lparr> ps_pool = pool, ps_nodes = h', ps_data = Map.empty, ps_used = {}, ps_refs = (\<lambda>_. 0) \<rparr>"
    if "xgl_packet_pool_init count (Some array) h = Some (pool, h')" "length array = count" "count < SIZE_RANGE"
| take_packet: "pool_reachable count (s \<lparr> ps_pool := pool, ps_nodes := h, ps_used := insert i (ps_used s) \<rparr>)"
    if "pool_reachable count s" "xgl_packet_alloc (ps_pool s) (ps_nodes s) = (Some i, pool, h)"
| give_back: "pool_reachable count (s \<lparr> ps_pool := pool, ps_nodes := h, ps_data := ds, ps_used := ps_used s - {i} \<rparr>)"
    if "pool_reachable count s" "i \<in> ps_used s" "xgl_packet_free (ps_pool s) (ps_nodes s) (ps_data s) (Some i) = (freed, pool, h, ds)"
| fill_in: "pool_reachable count (s \<lparr> ps_pool := set_packet i \<lparr> pp_fields = f, pp_data = data_of (ps_pool s) i \<rparr> (ps_pool s) \<rparr>)"
    if "pool_reachable count s" "i \<in> ps_used s"
| attach: "pool_reachable count (s \<lparr> ps_pool := set_packet i \<lparr> pp_fields = f, pp_data = Some d \<rparr> (ps_pool s), ps_refs := (ps_refs s)(d := ps_refs s d - 1) \<rparr>)"
    if "pool_reachable count s" "i \<in> ps_used s" "data_of (ps_pool s) i = None" "0 < ps_refs s d"
| create: "pool_reachable count (s \<lparr> ps_data := ds, ps_refs := (ps_refs s)(d := 1) \<rparr>)"
    if "pool_reachable count s" "xgl_packet_data_create (ps_data s) data len (Some d) buffer = (Some d, freed, ds)" "d \<notin> dom (ps_data s)"
| share: "pool_reachable count (s \<lparr> ps_data := xgl_packet_data_ref (ps_data s) (Some d), ps_refs := (ps_refs s)(d := ps_refs s d + 1) \<rparr>)"
    if "pool_reachable count s" "0 < ps_refs s d" "all_refs s d + 1 < 4294967296"
| drop_ref: "pool_reachable count (s \<lparr> ps_data := ds, ps_refs := (ps_refs s)(d := ps_refs s d - 1) \<rparr>)"
    if "pool_reachable count s" "0 < ps_refs s d" "xgl_packet_data_unref (ps_data s) (Some d) = (freed, ds)"

definition pool_state_ok :: "nat \<Rightarrow> pool_state \<Rightarrow> bool" where
  "pool_state_ok count s \<longleftrightarrow> count < SIZE_RANGE \<and> refs_ok (ps_data s) (all_refs s)
     \<and> (\<forall>i < count. i \<notin> ps_used s \<longrightarrow> data_of (ps_pool s) i = None)
     \<and> (\<exists>fs. packets_rep count (ps_pool s) (ps_nodes s) fs \<and> ps_used s = {..<count} - set fs)"

lemma carried_same: "(\<And>i. i \<in> used \<Longrightarrow> data_of pool' i = data_of pool i) \<Longrightarrow> carried_refs pool' used = carried_refs pool used"
  unfolding carried_refs_def by (intro ext arg_cong [of _ _ card]) auto

lemma carried_insert:
  assumes "finite used" "i \<notin> used" "\<And>j. j \<in> used \<Longrightarrow> data_of pool' j = data_of pool j"
  shows "carried_refs pool' (insert i used) = (case data_of pool' i of None \<Rightarrow> carried_refs pool used | Some d \<Rightarrow> (carried_refs pool used)(d := carried_refs pool used d + 1))"
proof
  fix e
  have "{j \<in> insert i used. data_of pool' j = Some e} = (if data_of pool' i = Some e then insert i {j \<in> used. data_of pool j = Some e} else {j \<in> used. data_of pool j = Some e})"
    using assms(2,3) by auto
  then show "carried_refs pool' (insert i used) e =
      (case data_of pool' i of None \<Rightarrow> carried_refs pool used | Some d \<Rightarrow> (carried_refs pool used)(d := carried_refs pool used d + 1)) e"
    using assms(1,2) by (auto simp: carried_refs_def split: option.split)
qed

lemma data_of_update:
  "the (pq_packets pool') = (the (pq_packets pool))[i := p] \<Longrightarrow> j < length (the (pq_packets pool)) \<Longrightarrow>
   data_of pool' j = (if j = i then pp_data p else data_of pool j)"
  by (auto simp: data_of_def nth_list_update)

lemma packets_rep_fields: "packets_rep count pool h fs \<Longrightarrow> packets_rep count (set_packet i p pool) h fs"
  "packets_rep count pool h fs \<Longrightarrow> the (pq_packets (set_packet i p pool)) = (the (pq_packets pool))[i := p]"
  "packets_rep count pool h fs \<Longrightarrow> length (the (pq_packets pool)) = count"
  by (auto simp: packets_rep_def)

lemma pool_state_okI:
  "count < SIZE_RANGE \<Longrightarrow> refs_ok (ps_data s) (all_refs s) \<Longrightarrow> (\<And>i. i < count \<Longrightarrow> i \<notin> ps_used s \<Longrightarrow> data_of (ps_pool s) i = None) \<Longrightarrow>
   packets_rep count (ps_pool s) (ps_nodes s) fs \<Longrightarrow> ps_used s = {..<count} - set fs \<Longrightarrow> pool_state_ok count s"
  unfolding pool_state_ok_def by blast

lemma take_packet_ok:
  assumes ok: "pool_state_ok count s" and a: "xgl_packet_alloc (ps_pool s) (ps_nodes s) = (Some i, pool, h)"
  shows "pool_state_ok count (s \<lparr> ps_pool := pool, ps_nodes := h, ps_used := insert i (ps_used s) \<rparr>)"
    "i \<in> {..<count} - ps_used s" "the (pq_packets pool) ! i = zero_pool_packet"
proof -
  obtain fs where s: "count < SIZE_RANGE" "refs_ok (ps_data s) (all_refs s)" "\<forall>i < count. i \<notin> ps_used s \<longrightarrow> data_of (ps_pool s) i = None"
      "packets_rep count (ps_pool s) (ps_nodes s) fs" "ps_used s = {..<count} - set fs" using ok unfolding pool_state_ok_def by blast
  have "fs \<noteq> []" using packet_alloc_rep(1) [OF s(4)] a by auto
  then obtain gs where fs: "fs = i # gs" and r: "packets_rep count pool h gs" "the (pq_packets pool) = (the (pq_packets (ps_pool s)))[i := zero_pool_packet]"
    using packet_alloc_rep(2) [OF s(4)] a by (cases fs) auto
  have i: "i < count" "i \<notin> set gs" using s(4) fs packets_repD(1) [OF s(4)] by (auto simp: packets_rep_def)
  then show "i \<in> {..<count} - ps_used s" using s(5) fs by simp
  have len: "length (the (pq_packets (ps_pool s))) = count" using packets_rep_fields(3) [OF s(4)] .
  then show "the (pq_packets pool) ! i = zero_pool_packet" using r(2) i(1) by simp
  have data: "data_of pool j = (if j = i then None else data_of (ps_pool s) j)" if "j < count" for j
    using data_of_update [OF r(2)] len that by (simp add: zero_pool_packet_def)
  have "carried_refs pool (insert i (ps_used s)) = carried_refs (ps_pool s) (ps_used s)"
    using carried_insert [of "ps_used s" i pool "ps_pool s"] data i(1) s(5) fs by simp
  then have "all_refs (s \<lparr> ps_pool := pool, ps_nodes := h, ps_used := insert i (ps_used s) \<rparr>) = all_refs s" by (simp add: all_refs_def)
  then show "pool_state_ok count (s \<lparr> ps_pool := pool, ps_nodes := h, ps_used := insert i (ps_used s) \<rparr>)"
    using s(1,2,3,5) r(1) data i fs by (intro pool_state_okI [where fs = gs]) auto
qed

lemma give_back_ok:
  assumes ok: "pool_state_ok count s" and i: "i \<in> ps_used s"
    and f: "xgl_packet_free (ps_pool s) (ps_nodes s) (ps_data s) (Some i) = (freed, pool, h, ds)"
  shows "pool_state_ok count (s \<lparr> ps_pool := pool, ps_nodes := h, ps_data := ds, ps_used := ps_used s - {i} \<rparr>)"
proof -
  let ?s = "s \<lparr> ps_pool := pool, ps_nodes := h, ps_data := ds, ps_used := ps_used s - {i} \<rparr>" and ?U = "ps_used s - {i}"
  obtain fs where s: "count < SIZE_RANGE" "refs_ok (ps_data s) (all_refs s)" "\<forall>i < count. i \<notin> ps_used s \<longrightarrow> data_of (ps_pool s) i = None"
      "packets_rep count (ps_pool s) (ps_nodes s) fs" "ps_used s = {..<count} - set fs" using ok unfolding pool_state_ok_def by blast
  have i': "i < count" "i \<notin> set fs" using i s(5) by auto
  have r: "packets_rep count pool h (fs @ [i])" "(freed, ds) = xgl_packet_data_unref (ps_data s) (data_of (ps_pool s) i)"
      "the (pq_packets pool) = (the (pq_packets (ps_pool s)))[i := zero_pool_packet]"
    using packet_free_rep [OF s(4) i' s(1), of "ps_data s"] f by (auto simp: data_of_def)
  have data: "data_of pool j = (if j = i then None else data_of (ps_pool s) j)" if "j < count" for j
    using data_of_update [OF r(3)] packets_rep_fields(3) [OF s(4)] that by (simp add: zero_pool_packet_def)
  have new: "carried_refs pool ?U = carried_refs (ps_pool s) ?U" by (rule carried_same) (use data s(5) in auto)
  have old: "carried_refs (ps_pool s) (ps_used s) = (case data_of (ps_pool s) i of None \<Rightarrow> carried_refs (ps_pool s) ?U
      | Some d \<Rightarrow> (carried_refs (ps_pool s) ?U)(d := carried_refs (ps_pool s) ?U d + 1))"
    using carried_insert [of ?U i "ps_pool s" "ps_pool s"] s(5) i by (simp add: insert_absorb)
  have "refs_ok ds (all_refs ?s)"
  proof (cases "data_of (ps_pool s) i")
    case None
    then have "ds = ps_data s" using r(2) by (simp add: xgl_packet_data_unref_def)
    moreover have "all_refs ?s = all_refs s" using old None new by (simp add: all_refs_def)
    ultimately show ?thesis using s(2) by simp
  next
    case (Some d)
    have "all_refs ?s = (all_refs s)(d := all_refs s d - 1)" using old Some new by (auto simp: all_refs_def)
    moreover have "0 < all_refs s d" using old Some by (simp add: all_refs_def)
    moreover have "ds = snd (xgl_packet_data_unref (ps_data s) (Some d))" using r(2) Some by (metis snd_conv)
    ultimately show ?thesis using data_unref_ok(1) [OF s(2)] by simp
  qed
  then show ?thesis using s(1,3,5) r(1) data by (intro pool_state_okI [where fs = "fs @ [i]"]) auto
qed

lemma packet_write_ok:
  assumes ok: "pool_state_ok count s" and i: "i \<in> ps_used s"
    and T: "all_refs (s \<lparr> ps_pool := set_packet i p (ps_pool s), ps_refs := refs \<rparr>) = all_refs s"
  shows "pool_state_ok count (s \<lparr> ps_pool := set_packet i p (ps_pool s), ps_refs := refs \<rparr>)"
proof -
  obtain fs where s: "count < SIZE_RANGE" "refs_ok (ps_data s) (all_refs s)" "\<forall>i < count. i \<notin> ps_used s \<longrightarrow> data_of (ps_pool s) i = None"
      "packets_rep count (ps_pool s) (ps_nodes s) fs" "ps_used s = {..<count} - set fs" using ok unfolding pool_state_ok_def by blast
  have "data_of (set_packet i p (ps_pool s)) j = data_of (ps_pool s) j" if "j < count" "j \<notin> ps_used s" for j
    using data_of_update [OF packets_rep_fields(2) [OF s(4)]] packets_rep_fields(3) [OF s(4)] that i by auto
  then show ?thesis using s packets_rep_fields(1) [OF s(4)] T by (intro pool_state_okI [where fs = fs]) auto
qed

lemma write_refs:
  assumes ok: "pool_state_ok count s" and i: "i \<in> ps_used s" and none: "data_of (ps_pool s) i = None"
  shows "carried_refs (set_packet i p (ps_pool s)) (ps_used s) = (case pp_data p of None \<Rightarrow> carried_refs (ps_pool s) (ps_used s)
    | Some d \<Rightarrow> (carried_refs (ps_pool s) (ps_used s))(d := carried_refs (ps_pool s) (ps_used s) d + 1))"
proof -
  let ?U = "ps_used s - {i}"
  obtain fs where s: "packets_rep count (ps_pool s) (ps_nodes s) fs" "ps_used s = {..<count} - set fs" using ok unfolding pool_state_ok_def by blast
  have data: "data_of (set_packet i p (ps_pool s)) j = (if j = i then pp_data p else data_of (ps_pool s) j)" if "j < count" for j
    using data_of_update [OF packets_rep_fields(2) [OF s(1)]] packets_rep_fields(3) [OF s(1)] that by simp
  have "carried_refs (ps_pool s) (ps_used s) = carried_refs (ps_pool s) ?U"
    using carried_insert [of ?U i "ps_pool s" "ps_pool s"] s(2) i none by (simp add: insert_absorb)
  moreover have "carried_refs (set_packet i p (ps_pool s)) (insert i ?U) = (case pp_data p of None \<Rightarrow> carried_refs (ps_pool s) ?U
      | Some d \<Rightarrow> (carried_refs (ps_pool s) ?U)(d := carried_refs (ps_pool s) ?U d + 1))"
    using carried_insert [of ?U i "set_packet i p (ps_pool s)" "ps_pool s"] s(2) i data by auto
  ultimately show ?thesis using i by (metis insert_Diff)
qed

lemma pool_reachable_ok: "pool_reachable count s \<Longrightarrow> pool_state_ok count s"
proof (induction rule: pool_reachable.induct)
  case (start array h pool h')
  note r = packet_pool_init_rep [OF start(1,2)]
  have "carried_refs pool {} = (\<lambda>_. 0)" by (auto simp: carried_refs_def)
  then show ?case using r start(3)
    by (intro pool_state_okI [where fs = "[0..<count]"]) (auto simp: all_refs_def refs_ok_def data_of_def zero_pool_packet_def)
next
  case (take_packet s i pool h)
  then show ?case by (intro take_packet_ok(1))
next
  case (give_back s i freed pool h ds)
  then show ?case by (intro give_back_ok)
next
  case (fill_in s i f)
  let ?p = "\<lparr> pp_fields = f, pp_data = data_of (ps_pool s) i \<rparr>"
  obtain fs where r: "packets_rep count (ps_pool s) (ps_nodes s) fs" "ps_used s = {..<count} - set fs" using fill_in(3) unfolding pool_state_ok_def by blast
  have "carried_refs (set_packet i ?p (ps_pool s)) (ps_used s) = carried_refs (ps_pool s) (ps_used s)"
    by (rule carried_same) (use data_of_update [OF packets_rep_fields(2) [OF r(1)]] packets_rep_fields(3) [OF r(1)] r(2) in auto)
  then show ?case using packet_write_ok [OF fill_in(3,2), where p = ?p and refs = "ps_refs s"] by (simp add: all_refs_def)
next
  case (attach s i d f)
  have "carried_refs (set_packet i \<lparr> pp_fields = f, pp_data = Some d \<rparr> (ps_pool s)) (ps_used s)
      = (carried_refs (ps_pool s) (ps_used s))(d := carried_refs (ps_pool s) (ps_used s) d + 1)"
    using write_refs [OF attach(5,2,3)] by simp
  then show ?case using attach by (intro packet_write_ok) (auto simp: all_refs_def)
next
  case (create s data len d buffer freed ds)
  obtain fs where s: "count < SIZE_RANGE" "refs_ok (ps_data s) (all_refs s)" "\<forall>i < count. i \<notin> ps_used s \<longrightarrow> data_of (ps_pool s) i = None"
      "packets_rep count (ps_pool s) (ps_nodes s) fs" "ps_used s = {..<count} - set fs" using create(4) unfolding pool_state_ok_def by blast
  have zero: "all_refs s d = 0" using s(2) create(3) by (auto simp: refs_ok_def domIff split: option.splits dest: spec [of _ d])
  obtain obj where o: "ds = (ps_data s)(d := Some obj)" "do_ref_count obj = 1"
    using create(2) by (auto simp: xgl_packet_data_create_def split: option.splits if_splits)
  have "all_refs (s \<lparr> ps_data := ds, ps_refs := (ps_refs s)(d := 1) \<rparr>) = (all_refs s)(d := 1)" using zero by (auto simp: all_refs_def)
  then show ?case using s o refs_ok_upd [OF s(2), where x = "Some obj" and n = 1 and d = d] by (intro pool_state_okI [where fs = fs]) auto
next
  case (share s d)
  obtain fs where s: "count < SIZE_RANGE" "refs_ok (ps_data s) (all_refs s)" "\<forall>i < count. i \<notin> ps_used s \<longrightarrow> data_of (ps_pool s) i = None"
      "packets_rep count (ps_pool s) (ps_nodes s) fs" "ps_used s = {..<count} - set fs" using share(4) unfolding pool_state_ok_def by blast
  have "all_refs (s \<lparr> ps_data := xgl_packet_data_ref (ps_data s) (Some d), ps_refs := (ps_refs s)(d := ps_refs s d + 1) \<rparr>)
      = (all_refs s)(d := all_refs s d + 1)" by (auto simp: all_refs_def)
  moreover have "0 < all_refs s d" using share(2) by (simp add: all_refs_def)
  ultimately show ?case using s data_ref_ok [OF s(2), of d] share(3) by (intro pool_state_okI [where fs = fs]) auto
next
  case (drop_ref s d freed ds)
  obtain fs where s: "count < SIZE_RANGE" "refs_ok (ps_data s) (all_refs s)" "\<forall>i < count. i \<notin> ps_used s \<longrightarrow> data_of (ps_pool s) i = None"
      "packets_rep count (ps_pool s) (ps_nodes s) fs" "ps_used s = {..<count} - set fs" using drop_ref(4) unfolding pool_state_ok_def by blast
  have "all_refs (s \<lparr> ps_data := ds, ps_refs := (ps_refs s)(d := ps_refs s d - 1) \<rparr>) = (all_refs s)(d := all_refs s d - 1)"
    using drop_ref(2) by (auto simp: all_refs_def)
  moreover have "0 < all_refs s d" using drop_ref(2) by (simp add: all_refs_def)
  ultimately show ?case using s data_unref_ok(1) [OF s(2), of d] drop_ref(3) by (intro pool_state_okI [where fs = fs]) auto
qed

text \<open>
  C36: the packet pool. Whatever its users do within the contract (give back what they hold, drop references they have), a
  packet is taken from the pool exactly while some are free, it is one that nobody holds, and all its fields are
  cleared; the counter of used packets is exact. A packet data object is allocated exactly as long as there is a
  reference to it, in a packet or elsewhere, its counter is the number of these references, and dropping a reference frees
  it exactly when it was the last one.
\<close>

theorem packet_pool_exclusive_and_counted:
  assumes "pool_reachable count s"
  shows "ps_used s \<subseteq> {..<count} \<and> xgl_packet_pool_get_used_count (ps_pool s) = card (ps_used s)
    \<and> (case xgl_packet_alloc (ps_pool s) (ps_nodes s) of
         (None, _) \<Rightarrow> ps_used s = {..<count}
       | (Some i, pool, _) \<Rightarrow> i \<in> {..<count} - ps_used s \<and> the (pq_packets pool) ! i = zero_pool_packet)
    \<and> (\<forall>d. (ps_data s d \<noteq> None \<longleftrightarrow> 0 < all_refs s d)
        \<and> (\<forall>obj. ps_data s d = Some obj \<longrightarrow> unat (do_ref_count obj) = all_refs s d))
    \<and> (\<forall>d. 0 < all_refs s d \<longrightarrow> (d \<in> set (fst (xgl_packet_data_unref (ps_data s) (Some d))) \<longleftrightarrow> all_refs s d = 1))"
proof -
  have ok: "pool_state_ok count s" using pool_reachable_ok [OF assms] .
  obtain fs where s: "refs_ok (ps_data s) (all_refs s)" "packets_rep count (ps_pool s) (ps_nodes s) fs" "ps_used s = {..<count} - set fs"
    using ok unfolding pool_state_ok_def by blast
  have "set fs \<subseteq> {..<count}" "length fs \<le> count" using s(2) packets_rep_length [OF s(2)] by (simp_all add: packets_rep_def)
  then have "card (ps_used s) = count - length fs"
    using s(3) card_Diff_subset [of "set fs" "{..<count}"] distinct_card [OF packets_repD(1) [OF s(2)]] by simp
  then have "xgl_packet_pool_get_used_count (ps_pool s) = card (ps_used s)"
    using s(2) packets_rep_length [OF s(2)] by (simp add: xgl_packet_pool_get_used_count_def packets_rep_def)
  moreover have "case xgl_packet_alloc (ps_pool s) (ps_nodes s) of (None, _) \<Rightarrow> ps_used s = {..<count}
       | (Some i, pool, _) \<Rightarrow> i \<in> {..<count} - ps_used s \<and> the (pq_packets pool) ! i = zero_pool_packet"
  proof (cases fs)
    case Nil
    then show ?thesis using packet_alloc_rep(1) [OF s(2)] s(3) by simp
  next
    case (Cons i gs)
    then show ?thesis using packet_alloc_rep(2) [OF s(2)] take_packet_ok(2,3) [OF ok] by fastforce
  qed
  moreover have "(ps_data s d \<noteq> None \<longleftrightarrow> 0 < all_refs s d) \<and> (\<forall>obj. ps_data s d = Some obj \<longrightarrow> unat (do_ref_count obj) = all_refs s d)" for d
    using s(1) [unfolded refs_ok_def, rule_format, of d] by (auto simp: unsigned_of_nat take_bit_nat_eq_self split: option.splits)
  ultimately show ?thesis using s(3) data_unref_ok(2) [OF s(1)] by auto
qed

theorem packet_pool_exclusive_and_counted_witness:
  "\<exists>pool h pool' h'. xgl_packet_pool_init 4 (Some (replicate 4 zero_pool_packet)) (\<lambda>_. \<lparr> ln_next = None, ln_prev = None \<rparr>) = Some (pool, h)
     \<and> xgl_packet_alloc pool h = (Some 0, pool', h') \<and> xgl_packet_pool_get_used_count pool' = 1"
proof -
  let ?h0 = "\<lambda>_. \<lparr> ln_next = None, ln_prev = None \<rparr>"
  obtain pool h where i: "xgl_packet_pool_init 4 (Some (replicate 4 zero_pool_packet)) ?h0 = Some (pool, h)"
    by (metis prod.collapse xgl_packet_pool_init_def option.simps(5) zero_neq_numeral)
  let ?s = "\<lparr> ps_pool = pool, ps_nodes = h, ps_data = Map.empty, ps_used = {}, ps_refs = (\<lambda>_. 0) \<rparr>"
  have s: "pool_reachable 4 ?s" by (rule pool_reachable.start [OF i]) (simp_all add: SIZE_RANGE_def)
  have "packets_rep 4 pool h (0 # [1..<4])" using packet_pool_init_rep [OF i] by (simp add: upt_conv_Cons)
  then obtain pool' h' where a: "xgl_packet_alloc pool h = (Some 0, pool', h')" using packet_alloc_rep(2) by blast
  have "pool_reachable 4 (?s \<lparr> ps_pool := pool', ps_nodes := h', ps_used := insert 0 (ps_used ?s) \<rparr>)"
    by (rule pool_reachable.take_packet [OF s]) (simp add: a)
  from packet_pool_exclusive_and_counted [OF this] have "xgl_packet_pool_get_used_count pool' = 1" by simp
  then show ?thesis using i a by blast
qed

end
