(* ===== verification/Xgl_Config.thy ===== *)
theory Xgl_Config
  imports Xgl_Network Xgl_Codec Xgl_Allocator
begin

text \<open>
  The configuration of an instance (\<^verbatim>\<open>xgl_config_t\<close> and the presets of \<^verbatim>\<open>include/xgl/xgl_types.h\<close>) and its validation,
  \<^verbatim>\<open>src/api/xgl_config.c\<close>. Callbacks are whether they are set. A physical interface is a number; which of its functions
  are set is given by \<open>phys\<close>. Whether the library is built with \<^verbatim>\<open>XGL_THREAD_SAFE\<close> is a parameter.
\<close>

section \<open>Configuration\<close>

record xgl_phy_ops =
  ph_tx :: bool
  ph_rx :: bool

record xgl_memory_config =
  mc_tx_pool_size :: nat
  mc_rx_buffer_size :: nat
  mc_allocator :: "xgl_allocator option"

record xgl_protocol_config =
  pc_ack_timeout_ms :: u32
  pc_max_retry_count :: u8
  pc_window_size :: u8
  pc_max_frame_size :: u16

record xgl_feature_config =
  fc_enable_fragmentation :: bool
  fc_enable_compression :: bool
  fc_enable_encryption :: bool
  fc_thread_safe :: bool
  fc_peer_idle_timeout_ms :: u32
  fc_max_reassembly_slots :: u8

record xgl_config =
  cf_name :: string
  cf_source_id :: u16
  cf_memory :: xgl_memory_config
  cf_protocol :: xgl_protocol_config
  cf_features :: xgl_feature_config
  cf_auth_required :: bool
  cf_auth_key_id :: u32
  cf_auth_provider :: "xgl_auth_provider option"
  cf_route_table :: "xgl_route_item list option"
  cf_route_table_len :: nat
  cf_rx_callback :: bool
  cf_error_callback :: bool
  cf_codecs :: "xgl_codec list"

section \<open>Presets\<close>

definition XGL_CONFIG_PRESET_TINY :: xgl_config where
  "XGL_CONFIG_PRESET_TINY =
     \<lparr> cf_name = ''tiny'', cf_source_id = 1,
       cf_memory = \<lparr> mc_tx_pool_size = 1024, mc_rx_buffer_size = 160, mc_allocator = None \<rparr>,
       cf_protocol = \<lparr> pc_ack_timeout_ms = 1000, pc_max_retry_count = 3, pc_window_size = 2, pc_max_frame_size = 128 \<rparr>,
       cf_features = \<lparr> fc_enable_fragmentation = False, fc_enable_compression = False, fc_enable_encryption = False,
                       fc_thread_safe = False, fc_peer_idle_timeout_ms = 60000, fc_max_reassembly_slots = 2 \<rparr>,
       cf_auth_required = False, cf_auth_key_id = 0, cf_auth_provider = None, cf_route_table = None, cf_route_table_len = 0,
       cf_rx_callback = False, cf_error_callback = False, cf_codecs = [] \<rparr>"

definition XGL_CONFIG_PRESET_SMALL :: xgl_config where
  "XGL_CONFIG_PRESET_SMALL =
     \<lparr> cf_name = ''small'', cf_source_id = 1,
       cf_memory = \<lparr> mc_tx_pool_size = 2048, mc_rx_buffer_size = 288, mc_allocator = None \<rparr>,
       cf_protocol = \<lparr> pc_ack_timeout_ms = 1000, pc_max_retry_count = 5, pc_window_size = 4, pc_max_frame_size = 256 \<rparr>,
       cf_features = \<lparr> fc_enable_fragmentation = True, fc_enable_compression = False, fc_enable_encryption = False,
                       fc_thread_safe = False, fc_peer_idle_timeout_ms = 60000, fc_max_reassembly_slots = 4 \<rparr>,
       cf_auth_required = False, cf_auth_key_id = 0, cf_auth_provider = None, cf_route_table = None, cf_route_table_len = 0,
       cf_rx_callback = False, cf_error_callback = False, cf_codecs = [] \<rparr>"

definition XGL_CONFIG_PRESET_MEDIUM :: xgl_config where
  "XGL_CONFIG_PRESET_MEDIUM =
     \<lparr> cf_name = ''medium'', cf_source_id = 1,
       cf_memory = \<lparr> mc_tx_pool_size = 4096, mc_rx_buffer_size = 544, mc_allocator = None \<rparr>,
       cf_protocol = \<lparr> pc_ack_timeout_ms = 1000, pc_max_retry_count = 5, pc_window_size = 8, pc_max_frame_size = 512 \<rparr>,
       cf_features = \<lparr> fc_enable_fragmentation = True, fc_enable_compression = False, fc_enable_encryption = False,
                       fc_thread_safe = False, fc_peer_idle_timeout_ms = 60000, fc_max_reassembly_slots = 8 \<rparr>,
       cf_auth_required = False, cf_auth_key_id = 0, cf_auth_provider = None, cf_route_table = None, cf_route_table_len = 0,
       cf_rx_callback = False, cf_error_callback = False, cf_codecs = [] \<rparr>"

definition XGL_CONFIG_PRESET_LARGE :: xgl_config where
  "XGL_CONFIG_PRESET_LARGE =
     \<lparr> cf_name = ''large'', cf_source_id = 1,
       cf_memory = \<lparr> mc_tx_pool_size = 8192, mc_rx_buffer_size = 1056, mc_allocator = None \<rparr>,
       cf_protocol = \<lparr> pc_ack_timeout_ms = 1000, pc_max_retry_count = 7, pc_window_size = 16, pc_max_frame_size = 1024 \<rparr>,
       cf_features = \<lparr> fc_enable_fragmentation = True, fc_enable_compression = False, fc_enable_encryption = False,
                       fc_thread_safe = False, fc_peer_idle_timeout_ms = 60000, fc_max_reassembly_slots = 16 \<rparr>,
       cf_auth_required = False, cf_auth_key_id = 0, cf_auth_provider = None, cf_route_table = None, cf_route_table_len = 0,
       cf_rx_callback = False, cf_error_callback = False, cf_codecs = [] \<rparr>"

definition XGL_CONFIG_PRESET_PRODUCTION :: xgl_config where
  "XGL_CONFIG_PRESET_PRODUCTION =
     \<lparr> cf_name = ''production'', cf_source_id = 1,
       cf_memory = \<lparr> mc_tx_pool_size = 8192, mc_rx_buffer_size = 1056, mc_allocator = None \<rparr>,
       cf_protocol = \<lparr> pc_ack_timeout_ms = 1000, pc_max_retry_count = 7, pc_window_size = 16, pc_max_frame_size = 1024 \<rparr>,
       cf_features = \<lparr> fc_enable_fragmentation = True, fc_enable_compression = False, fc_enable_encryption = False,
                       fc_thread_safe = False, fc_peer_idle_timeout_ms = 60000, fc_max_reassembly_slots = 16 \<rparr>,
       cf_auth_required = True, cf_auth_key_id = 1, cf_auth_provider = None, cf_route_table = None, cf_route_table_len = 0,
       cf_rx_callback = False, cf_error_callback = False, cf_codecs = [] \<rparr>"

definition xgl_config_get_default :: xgl_config where
  "xgl_config_get_default = XGL_CONFIG_PRESET_MEDIUM"

definition xgl_config_get_preset_tiny :: xgl_config where
  "xgl_config_get_preset_tiny = XGL_CONFIG_PRESET_TINY"

definition xgl_config_get_preset_small :: xgl_config where
  "xgl_config_get_preset_small = XGL_CONFIG_PRESET_SMALL"

definition xgl_config_get_preset_medium :: xgl_config where
  "xgl_config_get_preset_medium = XGL_CONFIG_PRESET_MEDIUM"

definition xgl_config_get_preset_large :: xgl_config where
  "xgl_config_get_preset_large = XGL_CONFIG_PRESET_LARGE"

definition xgl_config_get_preset_production :: xgl_config where
  "xgl_config_get_preset_production = XGL_CONFIG_PRESET_PRODUCTION"

lemmas preset_defs = XGL_CONFIG_PRESET_TINY_def XGL_CONFIG_PRESET_SMALL_def XGL_CONFIG_PRESET_MEDIUM_def XGL_CONFIG_PRESET_LARGE_def
  XGL_CONFIG_PRESET_PRODUCTION_def xgl_config_get_default_def xgl_config_get_preset_tiny_def xgl_config_get_preset_small_def
  xgl_config_get_preset_medium_def xgl_config_get_preset_large_def xgl_config_get_preset_production_def

section \<open>Validation\<close>

fun allocator_functions :: "xgl_allocator \<Rightarrow> bool \<times> bool" where
  "allocator_functions (UserAllocator has_malloc has_free) = (has_malloc, has_free)"
| "allocator_functions (TrackingAllocator u t) = (True, True)"

fun validate_routes :: "(nat \<Rightarrow> xgl_phy_ops) \<Rightarrow> xgl_route_item list \<Rightarrow> xgl_error" where
  "validate_routes phys [] = XGL_OK"
| "validate_routes phys (route # rs) =
     (case ri_phy route of
        None \<Rightarrow> XGL_ERR_INVALID_PARAM
      | Some phy \<Rightarrow>
          if \<not> ph_tx (phys phy) \<or> \<not> ph_rx (phys phy) then XGL_ERR_INVALID_PARAM
          else if ri_max_frame_size route < 64 \<or> ri_max_frame_size route > 2048 then XGL_ERR_INVALID_PARAM
          else if ri_read_freq_hz route = 0 then XGL_ERR_INVALID_PARAM
          else validate_routes phys rs)"

definition xgl_config_validate :: "bool \<Rightarrow> (nat \<Rightarrow> xgl_phy_ops) \<Rightarrow> xgl_config option \<Rightarrow> xgl_error" where
  "xgl_config_validate thread_safe_build phys config =
     (case config of
        None \<Rightarrow> XGL_ERR_NULL_POINTER
      | Some c \<Rightarrow>
          if cf_source_id c = 0 \<or> cf_source_id c = XGL_BROADCAST_ID then XGL_ERR_INVALID_PARAM
          else if mc_tx_pool_size (cf_memory c) < 512 \<or> mc_tx_pool_size (cf_memory c) > 65536 then XGL_ERR_INVALID_PARAM
          else if mc_rx_buffer_size (cf_memory c) < 64 \<or> mc_rx_buffer_size (cf_memory c) > 4096 then XGL_ERR_INVALID_PARAM
          else if pc_ack_timeout_ms (cf_protocol c) < 100 \<or> pc_ack_timeout_ms (cf_protocol c) > 10000 then XGL_ERR_INVALID_PARAM
          else if pc_max_retry_count (cf_protocol c) < 1 \<or> pc_max_retry_count (cf_protocol c) > 10 then XGL_ERR_INVALID_PARAM
          else if pc_window_size (cf_protocol c) < 1 \<or> pc_window_size (cf_protocol c) > 32 then XGL_ERR_INVALID_PARAM
          else if pc_max_frame_size (cf_protocol c) < 64 \<or> pc_max_frame_size (cf_protocol c) > 2048 then XGL_ERR_INVALID_PARAM
          else if unat (pc_max_frame_size (cf_protocol c)) < XGL_FRAME_HEADER_SIZE + XGL_CRC16_SIZE then XGL_ERR_INVALID_PARAM
          else if fc_enable_compression (cf_features c) \<or> fc_enable_encryption (cf_features c) then XGL_ERR_INVALID_PARAM
          else if cf_auth_required c \<and>
                  (case mc_allocator (cf_memory c) of None \<Rightarrow> True | Some a \<Rightarrow> allocator_functions a \<noteq> (True, True))
               then XGL_ERR_INVALID_PARAM
          else if cf_auth_required c \<and>
                  (case cf_auth_provider c of
                     None \<Rightarrow> True
                   | Some p \<Rightarrow> ap_sign p = None \<or> ap_verify p = None \<or> ap_tag_len p = 0 \<or> ap_tag_len p > XGL_AUTH_TAG_MAX_LEN)
               then XGL_ERR_INVALID_PARAM
          else if \<not> thread_safe_build \<and> fc_thread_safe (cf_features c) then XGL_ERR_INVALID_PARAM
          else if mc_rx_buffer_size (cf_memory c) < unat (pc_max_frame_size (cf_protocol c)) then XGL_ERR_BUFFER_TOO_SMALL
          else if cf_route_table_len c > 0 \<and> cf_route_table c = None then XGL_ERR_INVALID_PARAM
          else validate_routes phys (case cf_route_table c of None \<Rightarrow> [] | Some rs \<Rightarrow> take (cf_route_table_len c) rs))"

text \<open>What an accepted configuration guarantees to the layers.\<close>

definition route_ok :: "(nat \<Rightarrow> xgl_phy_ops) \<Rightarrow> xgl_route_item \<Rightarrow> bool" where
  "route_ok phys route \<longleftrightarrow> (\<exists>phy. ri_phy route = Some phy \<and> ph_tx (phys phy) \<and> ph_rx (phys phy))
     \<and> 64 \<le> ri_max_frame_size route \<and> ri_max_frame_size route \<le> 2048 \<and> ri_read_freq_hz route \<noteq> 0"

definition config_ok :: "bool \<Rightarrow> (nat \<Rightarrow> xgl_phy_ops) \<Rightarrow> xgl_config \<Rightarrow> bool" where
  "config_ok thread_safe_build phys c \<longleftrightarrow>
     cf_source_id c \<noteq> 0 \<and> cf_source_id c \<noteq> 0xFFFF
     \<and> mc_tx_pool_size (cf_memory c) \<in> {512..65536}
     \<and> pc_ack_timeout_ms (cf_protocol c) \<in> {100..10000} \<and> pc_max_retry_count (cf_protocol c) \<in> {1..10}
     \<and> pc_window_size (cf_protocol c) \<in> {1..32} \<and> pc_max_frame_size (cf_protocol c) \<in> {64..2048}
     \<and> unat (pc_max_frame_size (cf_protocol c)) \<le> mc_rx_buffer_size (cf_memory c) \<and> mc_rx_buffer_size (cf_memory c) \<le> 4096
     \<and> \<not> fc_enable_compression (cf_features c) \<and> \<not> fc_enable_encryption (cf_features c)
     \<and> (thread_safe_build \<or> \<not> fc_thread_safe (cf_features c))
     \<and> (cf_auth_required c \<longrightarrow> (\<exists>a. mc_allocator (cf_memory c) = Some a \<and> allocator_functions a = (True, True))
          \<and> (\<exists>p. cf_auth_provider c = Some p \<and> ap_sign p \<noteq> None \<and> ap_verify p \<noteq> None \<and> ap_tag_len p \<in> {1..32}))
     \<and> (cf_route_table_len c > 0 \<longrightarrow> cf_route_table c \<noteq> None)
     \<and> (\<forall>rs. cf_route_table c = Some rs \<longrightarrow> list_all (route_ok phys) (take (cf_route_table_len c) rs))"

lemma validate_routes_ok: "validate_routes phys rs = XGL_OK \<longleftrightarrow> list_all (route_ok phys) rs"
proof (induction rs)
  case (Cons r rs)
  then show ?case by (cases "ri_phy r") (auto simp: route_ok_def not_less word_less_nat_alt word_le_nat_alt)
qed simp

lemma auth_iff:
  "(cf_auth_required c \<and> (case mc_allocator (cf_memory c) of None \<Rightarrow> True | Some a \<Rightarrow> allocator_functions a \<noteq> (True, True)))
     \<longleftrightarrow> cf_auth_required c \<and> \<not> (\<exists>a. mc_allocator (cf_memory c) = Some a \<and> allocator_functions a = (True, True))"
  "(cf_auth_required c \<and> (case cf_auth_provider c of None \<Rightarrow> True
        | Some p \<Rightarrow> ap_sign p = None \<or> ap_verify p = None \<or> ap_tag_len p = 0 \<or> ap_tag_len p > 32))
     \<longleftrightarrow> cf_auth_required c \<and> \<not> (\<exists>p. cf_auth_provider c = Some p \<and> ap_sign p \<noteq> None \<and> ap_verify p \<noteq> None \<and> ap_tag_len p \<in> {1..32})"
  by (auto split: option.splits)

lemma routes_iff:
  "validate_routes phys (case cf_route_table c of None \<Rightarrow> [] | Some rs \<Rightarrow> take (cf_route_table_len c) rs) = XGL_OK
     \<longleftrightarrow> (\<forall>rs. cf_route_table c = Some rs \<longrightarrow> list_all (route_ok phys) (take (cf_route_table_len c) rs))"
  by (cases "cf_route_table c") (simp_all add: validate_routes_ok)

lemma ok_unless:
  "(if b then XGL_ERR_INVALID_PARAM else x) = XGL_OK \<longleftrightarrow> \<not> b \<and> x = XGL_OK"
  "(if b then XGL_ERR_BUFFER_TOO_SMALL else x) = XGL_OK \<longleftrightarrow> \<not> b \<and> x = XGL_OK"
  by simp_all

lemma in_range: "(x :: 'a :: linorder) \<in> {a..b} \<longleftrightarrow> \<not> (x < a \<or> b < x)"
  by auto

lemma buffer_iff:
  fixes mf :: u16
  shows "\<not> (rx < 64 \<or> 4096 < rx) \<and> \<not> (mf < 64 \<or> 2048 < mf) \<and> \<not> unat mf < XGL_FRAME_HEADER_SIZE + XGL_CRC16_SIZE \<and> \<not> rx < unat mf
     \<longleftrightarrow> \<not> (mf < 64 \<or> 2048 < mf) \<and> unat mf \<le> rx \<and> rx \<le> 4096"
proof -
  have "\<not> mf < 64 \<Longrightarrow> 64 \<le> unat mf" by (simp add: word_less_nat_alt)
  then show ?thesis by auto
qed

lemma guards_iff:
  "(\<not> s \<and> \<not> tx \<and> \<not> rx \<and> \<not> at \<and> \<not> rc \<and> \<not> w \<and> \<not> mf \<and> \<not> hs \<and> \<not> f \<and> \<not> (au \<and> \<not> A) \<and> \<not> (au \<and> \<not> P) \<and> \<not> t \<and> \<not> sm \<and> \<not> r \<and> R)
     \<longleftrightarrow> (\<not> s \<and> \<not> tx \<and> \<not> at \<and> \<not> rc \<and> \<not> w \<and> (\<not> rx \<and> \<not> mf \<and> \<not> hs \<and> \<not> sm) \<and> \<not> f \<and> \<not> t \<and> (au \<longrightarrow> A \<and> P) \<and> \<not> r \<and> R)"
  by blast

lemma ranges_iff:
  "config_ok ts phys c \<longleftrightarrow>
     \<not> (cf_source_id c = 0 \<or> cf_source_id c = 0xFFFF)
     \<and> \<not> (mc_tx_pool_size (cf_memory c) < 512 \<or> 65536 < mc_tx_pool_size (cf_memory c))
     \<and> \<not> (pc_ack_timeout_ms (cf_protocol c) < 100 \<or> 10000 < pc_ack_timeout_ms (cf_protocol c))
     \<and> \<not> (pc_max_retry_count (cf_protocol c) < 1 \<or> 10 < pc_max_retry_count (cf_protocol c))
     \<and> \<not> (pc_window_size (cf_protocol c) < 1 \<or> 32 < pc_window_size (cf_protocol c))
     \<and> (\<not> (pc_max_frame_size (cf_protocol c) < 64 \<or> 2048 < pc_max_frame_size (cf_protocol c))
        \<and> unat (pc_max_frame_size (cf_protocol c)) \<le> mc_rx_buffer_size (cf_memory c) \<and> mc_rx_buffer_size (cf_memory c) \<le> 4096)
     \<and> \<not> (fc_enable_compression (cf_features c) \<or> fc_enable_encryption (cf_features c))
     \<and> \<not> (\<not> ts \<and> fc_thread_safe (cf_features c))
     \<and> (cf_auth_required c \<longrightarrow> (\<exists>a. mc_allocator (cf_memory c) = Some a \<and> allocator_functions a = (True, True))
          \<and> (\<exists>p. cf_auth_provider c = Some p \<and> ap_sign p \<noteq> None \<and> ap_verify p \<noteq> None \<and> ap_tag_len p \<in> {1..32}))
     \<and> \<not> (0 < cf_route_table_len c \<and> cf_route_table c = None)
     \<and> (\<forall>rs. cf_route_table c = Some rs \<longrightarrow> list_all (route_ok phys) (take (cf_route_table_len c) rs))"
  by (simp only: config_ok_def in_range de_Morgan_disj de_Morgan_conj not_not imp_conv_disj conj_assoc)

lemma validate_iff: "xgl_config_validate ts phys (Some c) = XGL_OK \<longleftrightarrow> config_ok ts phys c"
  unfolding xgl_config_validate_def option.case(2) auth_iff ok_unless routes_iff ranges_iff
  by (rule trans [OF guards_iff]) (simp only: buffer_iff)


end
