(* ===== verification/Xgl_Instance.thy ===== *)
theory Xgl_Instance
  imports Xgl_Config Xgl_Packet_Pool Xgl_Tiered_Pool Xgl_Transport_Inv
begin

text \<open>
  Protocol instances, \<^verbatim>\<open>src/api/xgl_instance*.c\<close>, \<^verbatim>\<open>xgl_send.c\<close>, \<^verbatim>\<open>xgl_send_zerocopy.c\<close> and \<^verbatim>\<open>xgl_stats.c\<close>: creation, initialization with its ladder of
  clean-up labels, destruction, sending and statistics. A layer context that is cleared (all zero) is \<open>None\<close>. The counters that the
  layers update through pointers into \<^verbatim>\<open>handle->stats\<close> live in the contexts of the layers; \<open>instance_stats\<close> reads
  them together. Whether the library is built with \<^verbatim>\<open>XGL_THREAD_SAFE\<close> is the parameter \<open>ts\<close>.

  What initialization gets from its surroundings is in an \<open>init_env\<close>: the memory and the addresses that the heap returns for the
  tiered pool, the array for the packets, the receive buffer, the result of \<^verbatim>\<open>xgl_mutex_init\<close>, and a world for the
  other allocations and the error callback.
\<close>

section \<open>The instance\<close>

record xgl_statistics =
  st_datalink :: xgl_layer_stats
  st_network :: xgl_layer_stats
  st_transport :: xgl_layer_stats
  st_tx_retries :: u64
  st_rx_header_crc_errors :: u64
  st_rx_crc16_errors :: u64
  st_avg_rtt_ms :: u32
  st_max_rtt_ms :: u32
  st_min_rtt_ms :: u32
  st_memory_used :: nat
  st_memory_peak :: nat

record xgl_instance =
  xi_config :: xgl_config
  xi_initialized :: bool
  xi_tx_pool :: xgl_tiered_pool
  xi_packet_pool :: xgl_packet_pool
  xi_route_table :: xgl_route_table
  xi_route_last_read_ms :: "u32 list option"
  xi_route_last_read_count :: nat
  xi_datalink_ctx :: "xgl_datalink_ctx option"
  xi_network_ctx :: "xgl_network_ctx option"
  xi_transport_ctx :: "xgl_transport_ctx option"
  xi_stats :: xgl_statistics
  xi_codec_registry :: "xgl_codec_registry option"
  xi_mutex :: bool

record init_env =
  ie_memory :: memory
  ie_heap :: "nat list"
  ie_packets :: "pool_packet list option"
  ie_nodes :: node_store
  ie_rx_buffer :: "bytes option"
  ie_mutex_init :: xgl_error
  ie_world :: world

definition zero_layer_stats :: xgl_layer_stats where
  "zero_layer_stats = \<lparr> ls_tx_packets = 0, ls_tx_bytes = 0, ls_tx_errors = 0, ls_rx_packets = 0, ls_rx_bytes = 0, ls_rx_errors = 0,
     ls_rx_dropped = 0 \<rparr>"

definition zero_statistics :: xgl_statistics where
  "zero_statistics = \<lparr> st_datalink = zero_layer_stats, st_network = zero_layer_stats, st_transport = zero_layer_stats, st_tx_retries = 0,
     st_rx_header_crc_errors = 0, st_rx_crc16_errors = 0, st_avg_rtt_ms = 0, st_max_rtt_ms = 0, st_min_rtt_ms = 0,
     st_memory_used = 0, st_memory_peak = 0 \<rparr>"

definition zero_route_table :: xgl_route_table where
  "zero_route_table = \<lparr> rt_hashtable = \<lparr> ht_buckets = None, ht_size = 0, ht_count = 0 \<rparr>, rt_routes = [], rt_generation = 0,
     rt_route_count = 0, rt_route_capacity = 0 \<rparr>"

definition zero_codec_registry :: xgl_codec_registry where
  "zero_codec_registry = \<lparr> cr_codecs = None, cr_codec_capacity = 0 \<rparr>"

section \<open>Creation\<close>

text \<open>\<open>instance_size\<close> is \<^verbatim>\<open>sizeof(struct xgl_instance)\<close>. The instance is returned with its address and its allocator.\<close>

definition xgl_create ::
  "bool \<Rightarrow> (nat \<Rightarrow> xgl_phy_ops) \<Rightarrow> bool \<Rightarrow> nat \<Rightarrow> xgl_config option \<Rightarrow> alloc_mem
     \<Rightarrow> (nat \<times> xgl_allocator option \<times> xgl_instance) option \<times> alloc_mem" where
  "xgl_create ts phys fallback instance_size config mem =
     (if xgl_config_validate ts phys config \<noteq> XGL_OK then (None, mem)
      else let c = the config;
               allocator = (case mc_allocator (cf_memory c) of None \<Rightarrow> xgl_allocator_get_default fallback | Some a \<Rightarrow> Some a)
           in case xgl_alloc fallback allocator mem instance_size of
                (handle, allocator, mem) \<Rightarrow>
                  if handle = 0 then (None, mem)
                  else (Some (handle, allocator,
                          \<lparr> xi_config = c, xi_initialized = False, xi_tx_pool = zero_tiered_pool,
                            xi_packet_pool = xgl_packet_pool_destroy, xi_route_table = zero_route_table,
                            xi_route_last_read_ms = None, xi_route_last_read_count = 0, xi_datalink_ctx = None,
                            xi_network_ctx = None, xi_transport_ctx = None, xi_stats = zero_statistics,
                            xi_codec_registry = None, xi_mutex = False \<rparr>), mem))"

section \<open>Clean-up labels\<close>

definition mutex_destroy :: "bool \<Rightarrow> xgl_instance \<Rightarrow> xgl_instance" where
  "mutex_destroy ts inst = (if ts \<and> fc_thread_safe (cf_features (xi_config inst)) then inst \<lparr> xi_mutex := False \<rparr> else inst)"

definition cleanup_tx_pool :: "bool \<Rightarrow> xgl_instance \<Rightarrow> xgl_instance" where
  "cleanup_tx_pool ts inst = mutex_destroy ts (inst \<lparr> xi_tx_pool := snd (xgl_tiered_pool_destroy (xi_tx_pool inst)) \<rparr>)"

definition cleanup_packet_pool :: "bool \<Rightarrow> xgl_instance \<Rightarrow> xgl_instance" where
  "cleanup_packet_pool ts inst = cleanup_tx_pool ts (inst \<lparr> xi_packet_pool := xgl_packet_pool_destroy \<rparr>)"

definition cleanup_route_table :: "bool \<Rightarrow> xgl_instance \<Rightarrow> xgl_instance" where
  "cleanup_route_table ts inst =
     cleanup_packet_pool ts (inst \<lparr> xi_route_table := xgl_route_table_destroy (xi_route_table inst) \<rparr>)"

definition cleanup_route_read_times :: "bool \<Rightarrow> xgl_instance \<Rightarrow> xgl_instance" where
  "cleanup_route_read_times ts inst =
     cleanup_route_table ts (inst \<lparr> xi_route_last_read_ms := None, xi_route_last_read_count := 0 \<rparr>)"

text \<open>The labels below \<^verbatim>\<open>cleanup_transport\<close> clear one context each; the receive buffer goes with the data link context.\<close>

definition cleanup_datalink :: "bool \<Rightarrow> xgl_instance \<Rightarrow> xgl_instance" where
  "cleanup_datalink ts inst = cleanup_route_read_times ts (inst \<lparr> xi_datalink_ctx := None \<rparr>)"

definition cleanup_network :: "bool \<Rightarrow> xgl_instance \<Rightarrow> xgl_instance" where
  "cleanup_network ts inst = cleanup_datalink ts (inst \<lparr> xi_network_ctx := None \<rparr>)"

section \<open>Initialization\<close>

definition tier_counts :: "nat \<Rightarrow> nat \<times> nat \<times> nat" where
  "tier_counts tx_pool_size =
     (let small_count = tx_pool_size div XGL_TIERED_POOL_SMALL_SIZE * 4 div 10;
          medium_count = tx_pool_size div XGL_TIERED_POOL_MEDIUM_SIZE * 4 div 10;
          large_count = tx_pool_size div XGL_TIERED_POOL_LARGE_SIZE * 2 div 10
      in (if small_count = 0 then 1 else small_count, if medium_count = 0 then 1 else medium_count,
          if large_count = 0 then 1 else large_count))"

definition packet_pool_count :: "nat \<Rightarrow> nat" where
  "packet_pool_count tx_pool_size =
     (let packet_count = tx_pool_size div 256;
          packet_count = (if packet_count < 4 then 4 else packet_count)
      in if packet_count > 64 then 64 else packet_count)"

fun register_codecs :: "xgl_codec_registry \<Rightarrow> xgl_codec list \<Rightarrow> bool \<Rightarrow> world \<Rightarrow> xgl_codec_registry \<times> world" where
  "register_codecs registry [] error_callback w = (registry, w)"
| "register_codecs registry (c # cs) error_callback w =
     (case xgl_codec_register registry (Some c) of
        (err, registry) \<Rightarrow>
          register_codecs registry cs error_callback
            (if err \<noteq> XGL_OK \<and> error_callback then w_put (TpReport err) w else w))"

definition instance_transport_config :: "xgl_instance \<Rightarrow> xgl_transport_config" where
  "instance_transport_config inst =
     (let c = xi_config inst
      in \<lparr> tf_local_id = cf_source_id c, tf_max_retry_count = pc_max_retry_count (cf_protocol c),
           tf_default_timeout_ms = pc_ack_timeout_ms (cf_protocol c), tf_window_size = pc_window_size (cf_protocol c),
           tf_enable_fragmentation = fc_enable_fragmentation (cf_features c), tf_max_frame_size = pc_max_frame_size (cf_protocol c),
           tf_auth_tag_len = (case cf_auth_provider c of
                                Some p \<Rightarrow> if cf_auth_required c then word_of_nat (ap_tag_len p) else 0 | None \<Rightarrow> 0),
           tf_route_table = Some (xi_route_table inst), tf_lower_layer = False, tf_rx_callback = cf_rx_callback c,
           tf_error_callback = cf_error_callback c, tf_stats = Some (st_transport (xi_stats inst)),
           tf_tx_retries = Some (st_tx_retries (xi_stats inst)), tf_peer_idle_timeout_ms = fc_peer_idle_timeout_ms (cf_features c),
           tf_max_reassembly_slots = fc_max_reassembly_slots (cf_features c), tf_codec_registry = xi_codec_registry inst \<rparr>)"

text \<open>
  From the transport layer on: the layers are wired, the codecs registered. The interfaces of the layers cannot fail, their arguments
  are fields of the instance; the context of the transport layer sees the registry through its pointer.
\<close>

definition init_transport :: "bool \<Rightarrow> xgl_instance \<Rightarrow> init_env \<Rightarrow> xgl_error \<times> xgl_instance \<times> init_env" where
  "init_transport ts inst env =
     (case xgl_transport_init (Some (instance_transport_config inst)) (ie_world env) of
        (Inl err, w) \<Rightarrow> (err, cleanup_network ts inst, env \<lparr> ie_world := w \<rparr>)
      | (Inr tp, w) \<Rightarrow>
          let registry = (case xgl_codec_registry_init True 4 of Inl _ \<Rightarrow> zero_codec_registry | Inr registry \<Rightarrow> registry);
              (registry, w) = register_codecs registry (cf_codecs (xi_config inst)) (cf_error_callback (xi_config inst)) w
          in (XGL_OK,
              inst \<lparr> xi_datalink_ctx := map_option (\<lambda>dl. dl \<lparr> dl_upper_layer := True \<rparr>) (xi_datalink_ctx inst),
                     xi_network_ctx := map_option (\<lambda>nw. nw \<lparr> nw_lower_layer := True, nw_upper_layer := True \<rparr>) (xi_network_ctx inst),
                     xi_transport_ctx := Some (tp \<lparr> tc_lower_layer := True, tc_codec_registry := Some registry \<rparr>),
                     xi_codec_registry := Some registry, xi_initialized := True \<rparr>,
              env \<lparr> ie_world := w \<rparr>))"

definition init_network :: "bool \<Rightarrow> xgl_instance \<Rightarrow> init_env \<Rightarrow> xgl_error \<times> xgl_instance \<times> init_env" where
  "init_network ts inst env =
     (let c = xi_config inst
      in case xgl_network_init (Some \<lparr> nc_local_id = cf_source_id c, nc_route_table = Some (xi_route_table inst), nc_upper_layer = False,
                nc_lower_layer = False, nc_error_callback = cf_error_callback c, nc_stats = Some (st_network (xi_stats inst)),
                nc_auth_required = cf_auth_required c, nc_auth_key_id = cf_auth_key_id c, nc_auth_provider = cf_auth_provider c \<rparr>) of
           Inl err \<Rightarrow> (err, cleanup_datalink ts inst, env)
         | Inr nw \<Rightarrow> init_transport ts (inst \<lparr> xi_network_ctx := Some nw \<rparr>) env)"

definition init_datalink :: "bool \<Rightarrow> xgl_instance \<Rightarrow> init_env \<Rightarrow> xgl_error \<times> xgl_instance \<times> init_env" where
  "init_datalink ts inst env =
     (let c = xi_config inst
      in case ie_rx_buffer env of
           None \<Rightarrow> (XGL_ERR_NO_MEMORY, cleanup_route_read_times ts inst, env)
         | Some rx_buffer \<Rightarrow>
             (case xgl_datalink_init (Some \<lparr> dc_rx_cache = Some rx_buffer, dc_rx_cache_size = mc_rx_buffer_size (cf_memory c),
                     dc_source_id = cf_source_id c, dc_stats = Some (st_datalink (xi_stats inst)),
                     dc_rx_header_crc_errors = Some (st_rx_header_crc_errors (xi_stats inst)),
                     dc_rx_crc16_errors = Some (st_rx_crc16_errors (xi_stats inst)), dc_upper_layer = False,
                     dc_error_callback = cf_error_callback c, dc_auth_required = cf_auth_required c,
                     dc_auth_key_id = cf_auth_key_id c, dc_auth_provider = cf_auth_provider c \<rparr>) of
                Inl err \<Rightarrow> (err, cleanup_route_read_times ts inst, env)
              | Inr dl \<Rightarrow> init_network ts (inst \<lparr> xi_datalink_ctx := Some dl \<rparr>) env))"

definition init_routes :: "bool \<Rightarrow> xgl_instance \<Rightarrow> init_env \<Rightarrow> xgl_error \<times> xgl_instance \<times> init_env" where
  "init_routes ts inst env =
     (case xgl_route_table_init XGL_ROUTE_TABLE_DEFAULT_SIZE (w_allocs (ie_world env)) of
        (err, table, allocs) \<Rightarrow>
          let inst = inst \<lparr> xi_route_table := table \<rparr>;
              env = env \<lparr> ie_world := (ie_world env) \<lparr> w_allocs := allocs \<rparr> \<rparr>;
              c = xi_config inst
          in if err \<noteq> XGL_OK then (err, cleanup_packet_pool ts inst, env)
             else if cf_route_table_len c = 0 then init_datalink ts inst env
             else case xgl_route_table_load table (cf_route_table c) (cf_route_table_len c) allocs of
                    (err, table, allocs) \<Rightarrow>
                      let inst = inst \<lparr> xi_route_table := table \<rparr>;
                          env = env \<lparr> ie_world := (ie_world env) \<lparr> w_allocs := allocs \<rparr> \<rparr>
                      in if err \<noteq> XGL_OK then (err, cleanup_route_table ts inst, env)
                         else (case w_alloc (ie_world env) of
                                 (ok, w) \<Rightarrow>
                                   let inst = inst \<lparr> xi_route_last_read_count := cf_route_table_len c \<rparr>;
                                       env = env \<lparr> ie_world := w \<rparr>
                                   in if \<not> ok then (XGL_ERR_NO_MEMORY, cleanup_route_table ts inst, env)
                                      else init_datalink ts
                                             (inst \<lparr> xi_route_last_read_ms := Some (replicate (cf_route_table_len c) 0) \<rparr>) env))"

definition init_pools :: "bool \<Rightarrow> xgl_instance \<Rightarrow> init_env \<Rightarrow> xgl_error \<times> xgl_instance \<times> init_env" where
  "init_pools ts inst env =
     (let inst = inst \<lparr> xi_stats := zero_statistics \<lparr> st_min_rtt_ms := 0xFFFFFFFF \<rparr> \<rparr>;
          tx_pool_size = mc_tx_pool_size (cf_memory (xi_config inst));
          (small_count, medium_count, large_count) = tier_counts tx_pool_size
      in case xgl_tiered_pool_init (ie_memory env) (ie_heap env) small_count medium_count large_count of
           (ok, freed, pool, m) \<Rightarrow>
             let inst = inst \<lparr> xi_tx_pool := pool \<rparr>;
                 env = env \<lparr> ie_memory := m \<rparr>
             in if \<not> ok then (XGL_ERR_NO_MEMORY, mutex_destroy ts inst, env)
                else (case xgl_packet_pool_init (packet_pool_count tx_pool_size) (ie_packets env) (ie_nodes env) of
                        None \<Rightarrow> (XGL_ERR_NO_MEMORY, cleanup_tx_pool ts (inst \<lparr> xi_packet_pool := xgl_packet_pool_destroy
                            \<lparr> pq_total_count := packet_pool_count tx_pool_size, pq_free_count := packet_pool_count tx_pool_size \<rparr> \<rparr>), env)
                      | Some (pool, h) \<Rightarrow>
                          init_routes ts (inst \<lparr> xi_packet_pool := pool \<rparr>) (env \<lparr> ie_nodes := h \<rparr>)))"

definition xgl_init :: "bool \<Rightarrow> xgl_instance option \<Rightarrow> init_env \<Rightarrow> xgl_error \<times> xgl_instance option \<times> init_env" where
  "xgl_init ts handle env =
     (case handle of
        None \<Rightarrow> (XGL_ERR_NULL_POINTER, None, env)
      | Some inst \<Rightarrow>
          if xi_initialized inst then (XGL_ERR_ALREADY_INITIALIZED, handle, env)
          else (case
                  (if ts \<and> fc_thread_safe (cf_features (xi_config inst))
                   then if ie_mutex_init env \<noteq> XGL_OK then (ie_mutex_init env, mutex_destroy ts inst, env)
                        else init_pools ts (inst \<lparr> xi_mutex := True \<rparr>) env
                   else init_pools ts inst env) of
                  (err, inst, env) \<Rightarrow> (err, Some inst, env)))"

section \<open>Destruction\<close>

text \<open>The instance as it is when its own memory is freed; the receive buffer goes with the data link context.\<close>

definition xgl_destroy :: "bool \<Rightarrow> xgl_instance option \<Rightarrow> xgl_instance option" where
  "xgl_destroy ts handle =
     map_option (\<lambda>inst.
       let inst = inst \<lparr> xi_transport_ctx := None \<rparr>;
           inst = inst \<lparr> xi_datalink_ctx := None \<rparr>;
           inst = (if xi_route_last_read_ms inst \<noteq> None then inst \<lparr> xi_route_last_read_ms := None, xi_route_last_read_count := 0 \<rparr> else inst);
           inst = inst \<lparr> xi_route_table := xgl_route_table_destroy (xi_route_table inst) \<rparr>;
           inst = inst \<lparr> xi_packet_pool := xgl_packet_pool_destroy \<rparr>;
           inst = inst \<lparr> xi_tx_pool := snd (xgl_tiered_pool_destroy (xi_tx_pool inst)) \<rparr>
       in mutex_destroy ts inst) handle"

section \<open>Sending and statistics\<close>

definition validate_tx_data :: "xgl_tx_data option \<Rightarrow> xgl_error" where
  "validate_tx_data tx_data =
     (case tx_data of
        None \<Rightarrow> XGL_ERR_NULL_POINTER
      | Some tx \<Rightarrow>
          if td_data tx = None \<and> td_data_len tx > 0 then XGL_ERR_NULL_POINTER
          else if td_data_len tx = 0 then XGL_ERR_INVALID_PARAM
          else if td_priority tx > 7 then XGL_ERR_INVALID_PARAM
          else XGL_OK)"

text \<open>\<open>lock\<close> is the result of \<^verbatim>\<open>xgl_mutex_lock\<close>; the instance lock is free where the feature is off.\<close>

definition xgl_instance_lock :: "bool \<Rightarrow> xgl_instance \<Rightarrow> xgl_error \<Rightarrow> xgl_error" where
  "xgl_instance_lock ts inst lock = (if ts \<and> fc_thread_safe (cf_features (xi_config inst)) then lock else XGL_OK)"

definition xgl_send ::
  "bool \<Rightarrow> xgl_instance option \<Rightarrow> xgl_tx_data option \<Rightarrow> xgl_error \<Rightarrow> world \<Rightarrow> xgl_error \<times> xgl_instance option \<times> world" where
  "xgl_send ts handle tx_data lock w =
     (case handle of
        None \<Rightarrow> (XGL_ERR_NULL_POINTER, handle, w)
      | Some inst \<Rightarrow>
          if \<not> xi_initialized inst then (XGL_ERR_NOT_INITIALIZED, handle, w)
          else if validate_tx_data tx_data \<noteq> XGL_OK then (validate_tx_data tx_data, handle, w)
          else if xgl_instance_lock ts inst lock \<noteq> XGL_OK then (xgl_instance_lock ts inst lock, handle, w)
          else case xgl_transport_send (the (xi_transport_ctx inst)) w tx_data of
                 (err, tp, w) \<Rightarrow> (err, Some (inst \<lparr> xi_transport_ctx := Some tp \<rparr>), w))"

subsection \<open>Zero-copy sending\<close>

record xgl_tx_data_zerocopy =
  tz_buffer :: "bytes option"
  tz_buffer_size :: nat
  tz_data_offset :: nat
  tz_data_len :: nat
  tz_target_id :: u16
  tz_data_type :: u8
  tz_reliable :: bool
  tz_priority :: u8

definition validate_tx_data_zerocopy :: "xgl_tx_data_zerocopy option \<Rightarrow> xgl_error" where
  "validate_tx_data_zerocopy tx_data =
     (case tx_data of
        None \<Rightarrow> XGL_ERR_NULL_POINTER
      | Some tx \<Rightarrow>
          if tz_buffer tx = None then XGL_ERR_NULL_POINTER
          else if tz_data_len tx = 0 then XGL_ERR_INVALID_PARAM
          else if tz_data_offset tx < XGL_FRAME_HEADER_SIZE then XGL_ERR_INVALID_PARAM
          else if tz_buffer_size tx < (tz_data_offset tx + tz_data_len tx + XGL_CRC16_SIZE) mod SIZE_RANGE then XGL_ERR_BUFFER_TOO_SMALL
          else if tz_priority tx > 7 then XGL_ERR_INVALID_PARAM
          else XGL_OK)"

text \<open>The parameters of the authenticated frame; the payload is the memory behind the header space of the caller's buffer.\<close>

definition zerocopy_auth_params :: "xgl_config \<Rightarrow> xgl_tx_data_zerocopy \<Rightarrow> bytes option \<Rightarrow> nat \<Rightarrow> xgl_frame_params" where
  "zerocopy_auth_params c tx ext ext_n =
     \<lparr> fp_source_id = cf_source_id c, fp_target_id = tz_target_id tx, fp_data_type = tz_data_type tx,
       fp_packet_type = XGL_PACKET_TYPE_DATA, fp_flags = 0, fp_traffic_class = 0, fp_connection_id = 0, fp_packet_number = 0,
       fp_session_epoch = 0, fp_extensions = ext, fp_extensions_len = ext_n,
       fp_payload = map_option (drop (tz_data_offset tx)) (tz_buffer tx), fp_payload_len = tz_data_len tx, fp_reliable = False,
       fp_reliability_class = 0, fp_fragment = False, fp_priority = tz_priority tx, fp_session_id = 0, fp_ttl = 8 \<rparr>"

definition zerocopy_authenticated :: "xgl_config \<Rightarrow> xgl_tx_data_zerocopy \<Rightarrow> xgl_error + bytes \<times> nat" where
  "zerocopy_authenticated c tx =
     (if tz_data_offset tx \<noteq> XGL_WIRE_BASE_HEADER_SIZE + (if tz_data_type tx \<noteq> 0 then XGL_DATA_TYPE_EXT_SIZE else 0) + XGL_SECURITY_EXT_SIZE
      then Inl XGL_ERR_INVALID_PARAM
      else
        case (if tz_data_type tx \<noteq> 0
              then (case xgl_wire_encode_ext (Some (replicate XGL_DATA_TYPE_EXT_SIZE 0)) XGL_DATA_TYPE_EXT_SIZE XGL_WIRE_EXT_DATA_TYPE
                           (Some [tz_data_type tx]) 1 of
                      Inl err \<Rightarrow> Inl err | Inr (ext, n) \<Rightarrow> Inr (Some ext, n))
              else Inr (None, 0)) of
          Inl err \<Rightarrow> Inl err
        | Inr (ext, ext_n) \<Rightarrow>
            (case xgl_frame_build (Some (zerocopy_auth_params c tx ext ext_n)) of
               Inl err \<Rightarrow> Inl err
             | Inr frame \<Rightarrow>
                 xgl_frame_serialize_authenticated (tz_buffer tx) (tz_buffer_size tx) (Some frame) (cf_auth_key_id c) (cf_auth_provider c)))"

text \<open>
  The route lookup, the checks of the route, the provider and the size, and the frame in the caller's buffer: the interface, the buffer
  and the length.
\<close>

definition zerocopy_frame :: "(nat \<Rightarrow> xgl_phy_ops) \<Rightarrow> xgl_instance \<Rightarrow> xgl_tx_data_zerocopy \<Rightarrow> xgl_error + nat \<times> bytes \<times> nat" where
  "zerocopy_frame phys inst tx =
     (let c = xi_config inst
      in if tz_reliable tx then Inl XGL_ERR_INVALID_PARAM
         else case route_map (xi_route_table inst) (tz_target_id tx) of
                None \<Rightarrow> Inl XGL_ERR_ROUTE_NOT_FOUND
              | Some route \<Rightarrow>
                  if \<not> (case ri_phy route of None \<Rightarrow> False | Some phy \<Rightarrow> ph_tx (phys phy)) then Inl XGL_ERR_INVALID_PARAM
                  else if cf_auth_required c \<and> (case cf_auth_provider c of None \<Rightarrow> True
                            | Some p \<Rightarrow> ap_sign p = None \<or> ap_tag_len p = 0 \<or> ap_tag_len p > XGL_AUTH_TAG_MAX_LEN)
                  then Inl XGL_ERR_INVALID_PARAM
                  else
                    let app_type_ext_len = (if tz_data_type tx \<noteq> 0 then XGL_DATA_TYPE_EXT_SIZE else 0);
                        auth_tag_len = (if cf_auth_required c then ap_tag_len (the (cf_auth_provider c)) else 0)
                    in if xgl_frame_serialized_size (tz_data_len tx) app_type_ext_len auth_tag_len > unat (ri_max_frame_size route)
                       then Inl XGL_ERR_BUFFER_TOO_SMALL
                       else case (if cf_auth_required c then zerocopy_authenticated c tx
                                  else xgl_frame_build_zerocopy (tz_buffer tx) (tz_buffer_size tx) (tz_data_offset tx) (tz_data_len tx)
                                         (cf_source_id c) (tz_target_id tx) (tz_data_type tx) 0 False (tz_priority tx)) of
                              Inl err \<Rightarrow> Inl err
                            | Inr (buffer, frame_len) \<Rightarrow> Inr (the (ri_phy route), buffer, frame_len))"

definition xgl_send_zerocopy ::
  "bool \<Rightarrow> (nat \<Rightarrow> xgl_phy_ops) \<Rightarrow> xgl_instance option \<Rightarrow> xgl_tx_data_zerocopy option \<Rightarrow> xgl_error \<Rightarrow> xgl_error
     \<Rightarrow> xgl_error \<times> layer_output list \<times> xgl_instance option" where
  "xgl_send_zerocopy ts phys handle tx_data lock tx_result =
     (case handle of
        None \<Rightarrow> (XGL_ERR_NULL_POINTER, [], handle)
      | Some inst \<Rightarrow>
          if \<not> xi_initialized inst then (XGL_ERR_NOT_INITIALIZED, [], handle)
          else if validate_tx_data_zerocopy tx_data \<noteq> XGL_OK then (validate_tx_data_zerocopy tx_data, [], handle)
          else if xgl_instance_lock ts inst lock \<noteq> XGL_OK then (xgl_instance_lock ts inst lock, [], handle)
          else
            let tx = the tx_data
            in case zerocopy_frame phys inst tx of
                 Inl err \<Rightarrow> (err, [], handle)
               | Inr (phy, buffer, frame_len) \<Rightarrow>
                   (case xgl_datalink_send_raw (the (xi_datalink_ctx inst)) (Some phy) (ph_tx (phys phy)) (Some buffer) frame_len tx_result of
                      (err, out, dl) \<Rightarrow>
                        let inst = inst \<lparr> xi_datalink_ctx := Some dl \<rparr>
                        in (err, out,
                            Some (if err \<noteq> XGL_OK then inst
                                  else inst \<lparr> xi_transport_ctx := map_option (tp_count (count_tx_frame (tz_data_len tx))) (xi_transport_ctx inst),
                                              xi_network_ctx := map_option (nw_count (count_tx_frame (tz_data_len tx))) (xi_network_ctx inst) \<rparr>))))"

definition instance_stats :: "xgl_instance \<Rightarrow> xgl_statistics" where
  "instance_stats inst =
     (let dl = the (xi_datalink_ctx inst); nw = the (xi_network_ctx inst); tp = the (xi_transport_ctx inst)
      in (xi_stats inst) \<lparr> st_datalink := the (dl_stats dl), st_network := the (nw_stats nw), st_transport := the (tc_stats tp),
           st_tx_retries := the (tc_tx_retries tp), st_rx_header_crc_errors := the (dl_rx_header_crc_errors dl),
           st_rx_crc16_errors := the (dl_rx_crc16_errors dl) \<rparr>)"

definition xgl_stats_get :: "bool \<Rightarrow> xgl_instance option \<Rightarrow> bool \<Rightarrow> xgl_error \<Rightarrow> xgl_error + xgl_statistics" where
  "xgl_stats_get ts handle has_stats lock =
     (case handle of
        None \<Rightarrow> Inl XGL_ERR_NULL_POINTER
      | Some inst \<Rightarrow>
          if \<not> has_stats then Inl XGL_ERR_NULL_POINTER
          else if \<not> xi_initialized inst then Inl XGL_ERR_NOT_INITIALIZED
          else if xgl_instance_lock ts inst lock \<noteq> XGL_OK then Inl (xgl_instance_lock ts inst lock)
          else Inr (instance_stats inst))"

definition xgl_stats_reset :: "bool \<Rightarrow> xgl_instance option \<Rightarrow> xgl_error \<Rightarrow> xgl_error \<times> xgl_instance option" where
  "xgl_stats_reset ts handle lock =
     (case handle of
        None \<Rightarrow> (XGL_ERR_NULL_POINTER, handle)
      | Some inst \<Rightarrow>
          if \<not> xi_initialized inst then (XGL_ERR_NOT_INITIALIZED, handle)
          else if xgl_instance_lock ts inst lock \<noteq> XGL_OK then (xgl_instance_lock ts inst lock, handle)
          else (XGL_OK, Some (inst \<lparr> xi_stats := zero_statistics,
                  xi_datalink_ctx := map_option (\<lambda>dl. dl \<lparr> dl_stats := Some zero_layer_stats, dl_rx_header_crc_errors := Some 0,
                                                          dl_rx_crc16_errors := Some 0 \<rparr>) (xi_datalink_ctx inst),
                  xi_network_ctx := map_option (\<lambda>nw. nw \<lparr> nw_stats := Some zero_layer_stats \<rparr>) (xi_network_ctx inst),
                  xi_transport_ctx := map_option (\<lambda>tp. tp \<lparr> tc_stats := Some zero_layer_stats, tc_tx_retries := Some 0 \<rparr>)
                                        (xi_transport_ctx inst) \<rparr>)))"

section \<open>What initialization guarantees\<close>

text \<open>A ready instance: every layer is set up from the configuration and wired, in the invariants of the components.\<close>

definition layers_ready :: "xgl_config \<Rightarrow> xgl_instance \<Rightarrow> xgl_datalink_ctx \<Rightarrow> xgl_network_ctx \<Rightarrow> xgl_transport_ctx \<Rightarrow> bool" where
  "layers_ready c inst dl nw tp \<longleftrightarrow>
     xi_datalink_ctx inst = Some dl \<and> xi_network_ctx inst = Some nw \<and> xi_transport_ctx inst = Some tp
     \<and> dl_upper_layer dl \<and> nw_lower_layer nw \<and> nw_upper_layer nw \<and> tc_lower_layer tp
     \<and> parser_tracks (dl_parser dl) [] \<and> ps_cache_size (dl_parser dl) = mc_rx_buffer_size (cf_memory c)
     \<and> dl_auth_required dl = cf_auth_required c \<and> nw_auth_required nw = cf_auth_required c
     \<and> dl_auth_provider dl = cf_auth_provider c \<and> nw_auth_provider nw = cf_auth_provider c
     \<and> nw_local_id nw = cf_source_id c \<and> tc_local_id tp = cf_source_id c
     \<and> nw_route_table nw = xi_route_table inst \<and> tc_route_table tp = Some (xi_route_table inst)
     \<and> transport_inv tp \<and> tc_peers tp = [] \<and> tc_codec_registry tp = xi_codec_registry inst
     \<and> instance_stats inst = zero_statistics \<lparr> st_min_rtt_ms := 0xFFFFFFFF \<rparr>"

definition configured_routes :: "xgl_config \<Rightarrow> xgl_route_item list" where
  "configured_routes c = take (cf_route_table_len c) (case cf_route_table c of None \<Rightarrow> [] | Some rs \<Rightarrow> rs)"

definition routes_ready :: "xgl_config \<Rightarrow> xgl_instance \<Rightarrow> bool" where
  "routes_ready c inst \<longleftrightarrow> route_inv (xi_route_table inst)
     \<and> route_map (xi_route_table inst) = map_of (rev (map (\<lambda>r. (ri_target_id r, r)) (configured_routes c)))
     \<and> xi_route_last_read_ms inst = (if cf_route_table_len c = 0 then None else Some (replicate (cf_route_table_len c) 0))"

definition instance_ready :: "bool \<Rightarrow> xgl_config \<Rightarrow> xgl_instance \<Rightarrow> init_env \<Rightarrow> bool" where
  "instance_ready ts c inst env \<longleftrightarrow> xi_initialized inst \<and> xi_config inst = c \<and> (xi_mutex inst \<longleftrightarrow> ts \<and> fc_thread_safe (cf_features c))
     \<and> (\<exists>dl nw tp. layers_ready c inst dl nw tp)
     \<and> (\<exists>r. xi_codec_registry inst = Some r \<and> codec_inv r) \<and> routes_ready c inst
     \<and> (let n = packet_pool_count (mc_tx_pool_size (cf_memory c)) in \<exists>h. packets_rep n (xi_packet_pool inst) h [0..<n])
     \<and> (case tier_counts (mc_tx_pool_size (cf_memory c)) of
          (n0, n1, n2) \<Rightarrow> \<exists>freed m. xgl_tiered_pool_init (ie_memory env) (ie_heap env) n0 n1 n2 = (True, freed, xi_tx_pool inst, m))"

text \<open>A released instance holds no memory and no mutex.\<close>

definition released :: "xgl_instance \<Rightarrow> bool" where
  "released inst \<longleftrightarrow> xi_tx_pool inst = zero_tiered_pool \<and> pq_packets (xi_packet_pool inst) = None
     \<and> ht_buckets (rt_hashtable (xi_route_table inst)) = None \<and> rt_routes (xi_route_table inst) = []
     \<and> xi_route_last_read_ms inst = None \<and> xi_datalink_ctx inst = None \<and> xi_transport_ctx inst = None \<and> \<not> xi_mutex inst"

definition mutex_ok :: "bool \<Rightarrow> xgl_instance \<Rightarrow> bool" where
  "mutex_ok ts inst \<longleftrightarrow> (xi_mutex inst \<longrightarrow> ts \<and> fc_thread_safe (cf_features (xi_config inst)))"

definition layers_clear :: "xgl_instance \<Rightarrow> bool" where
  "layers_clear inst \<longleftrightarrow> xi_datalink_ctx inst = None \<and> xi_network_ctx inst = None \<and> xi_transport_ctx inst = None \<and> \<not> xi_initialized inst"

definition no_routes :: "xgl_route_table \<Rightarrow> bool" where
  "no_routes T \<longleftrightarrow> ht_buckets (rt_hashtable T) = None \<and> rt_routes T = []"

text \<open>A failed initialization: not initialized, everything given back.\<close>

definition failed :: "xgl_error \<Rightarrow> xgl_error \<times> xgl_instance \<times> init_env \<Rightarrow> bool" where
  "failed e = (\<lambda>(err, inst, env). err = e \<and> \<not> xi_initialized inst \<and> released inst)"

lemma route_destroy_empty: "no_routes (xgl_route_table_destroy T)"
  by (simp add: no_routes_def xgl_route_table_destroy_def xgl_hashtable_destroy_def split: option.split)

lemma tiered_destroy_zero [simp]: "snd (xgl_tiered_pool_destroy pool) = zero_tiered_pool"
  by (simp add: xgl_tiered_pool_destroy_def)

lemma packet_destroy_none [simp]: "pq_packets xgl_packet_pool_destroy = None"
  by (simp add: xgl_packet_pool_destroy_def)

lemma tiered_init_failed:
  assumes "xgl_tiered_pool_init m addrs a b c = (False, freed, pool, m')"
  shows "pool = zero_tiered_pool"
  using assms by (auto simp: xgl_tiered_pool_init_def Let_def xgl_tiered_pool_destroy_def split: prod.splits if_splits)

lemmas cleanup_defs = mutex_destroy_def cleanup_tx_pool_def cleanup_packet_pool_def cleanup_route_table_def cleanup_route_read_times_def
  cleanup_datalink_def cleanup_network_def

text \<open>What each label releases, given that nothing behind it was acquired.\<close>

lemma mutex_destroy_releases:
  assumes "mutex_ok ts inst" "layers_clear inst" "xi_tx_pool inst = zero_tiered_pool" "pq_packets (xi_packet_pool inst) = None"
    "no_routes (xi_route_table inst)" "xi_route_last_read_ms inst = None"
  shows "failed e (e, mutex_destroy ts inst, env)"
  using assms by (auto simp: failed_def released_def mutex_destroy_def mutex_ok_def layers_clear_def no_routes_def)

lemma cleanup_tx_pool_releases:
  assumes "mutex_ok ts inst" "layers_clear inst" "pq_packets (xi_packet_pool inst) = None"
    "no_routes (xi_route_table inst)" "xi_route_last_read_ms inst = None"
  shows "failed e (e, cleanup_tx_pool ts inst, env)"
  unfolding cleanup_tx_pool_def using assms by (intro mutex_destroy_releases) (simp_all add: mutex_ok_def layers_clear_def)

lemma cleanup_packet_pool_releases:
  assumes "mutex_ok ts inst" "layers_clear inst" "no_routes (xi_route_table inst)" "xi_route_last_read_ms inst = None"
  shows "failed e (e, cleanup_packet_pool ts inst, env)"
  unfolding cleanup_packet_pool_def using assms by (intro cleanup_tx_pool_releases) (simp_all add: mutex_ok_def layers_clear_def)

lemma cleanup_route_table_releases:
  assumes "mutex_ok ts inst" "layers_clear inst" "xi_route_last_read_ms inst = None"
  shows "failed e (e, cleanup_route_table ts inst, env)"
  unfolding cleanup_route_table_def using assms
  by (intro cleanup_packet_pool_releases) (simp_all add: mutex_ok_def layers_clear_def route_destroy_empty)

lemma cleanup_read_times_releases:
  assumes "mutex_ok ts inst" "layers_clear inst"
  shows "failed e (e, cleanup_route_read_times ts inst, env)"
  unfolding cleanup_route_read_times_def using assms by (intro cleanup_route_table_releases) (simp_all add: mutex_ok_def layers_clear_def)

lemma cleanup_network_releases:
  assumes "mutex_ok ts inst" "xi_transport_ctx inst = None" "\<not> xi_initialized inst"
  shows "failed e (e, cleanup_network ts inst, env)"
  unfolding cleanup_network_def cleanup_datalink_def using assms by (intro cleanup_read_times_releases) (simp_all add: mutex_ok_def layers_clear_def)

lemma register_codecs_inv: "codec_inv r \<Longrightarrow> codec_inv (fst (register_codecs r cs cb w))"
proof (induction cs arbitrary: r w)
  case (Cons c cs)
  obtain e r' where reg: "xgl_codec_register r (Some c) = (e, r')" by (rule prod.exhaust)
  have "codec_inv r'" using codec_register_inv [OF Cons.prems, of "Some c"] by (simp add: reg)
  then show ?case using Cons.IH by (simp add: reg)
qed simp

lemma transport_init_error:
  assumes "xgl_transport_init (Some c) w = (Inl err, w')" "tf_stats c \<noteq> None" "tf_window_size c \<in> {1..32}"
  shows "err = XGL_ERR_NO_MEMORY"
proof -
  have "\<not> (tf_window_size c = 0 \<or> tf_window_size c > 128)" using assms(3) by (auto simp: word_le_nat_alt word_less_nat_alt)
  then show ?thesis using assms(1,2)
    by (auto simp: xgl_transport_init_def Let_def fresh_window_def xgl_window_init_with_allocator_def
        split: if_splits prod.splits sum.splits bool.splits)
qed

lemma transport_init_settings:
  assumes "xgl_transport_init (Some c) w = (Inr ctx, w')"
  shows "tc_local_id ctx = tf_local_id c \<and> tc_route_table ctx = tf_route_table c \<and> tc_stats ctx = tf_stats c \<and> tc_tx_retries ctx = tf_tx_retries c"
  using assms by (auto simp: xgl_transport_init_def Let_def split: if_splits prod.splits sum.splits bool.splits)

text \<open>
  The stages in reverse order. \<open>succeeded\<close> is the outcome that the later stages add to the parts set up before: either they end with a ready
  instance or they fail for want of memory with nothing left allocated.
\<close>

definition kept_parts :: "xgl_instance \<Rightarrow> xgl_packet_pool \<times> xgl_tiered_pool \<times> bool \<times> xgl_config" where
  "kept_parts inst = (xi_packet_pool inst, xi_tx_pool inst, xi_mutex inst, xi_config inst)"

definition succeeded :: "xgl_config \<Rightarrow> xgl_instance \<Rightarrow> xgl_error \<times> xgl_instance \<times> init_env \<Rightarrow> bool" where
  "succeeded c inst0 = (\<lambda>(err, inst, env). err = XGL_OK \<and> xi_initialized inst \<and> (\<exists>dl nw tp. layers_ready c inst dl nw tp)
     \<and> (\<exists>r. xi_codec_registry inst = Some r \<and> codec_inv r) \<and> xi_route_table inst = xi_route_table inst0
     \<and> xi_route_last_read_ms inst = xi_route_last_read_ms inst0 \<and> kept_parts inst = kept_parts inst0)"

definition outcome :: "xgl_config \<Rightarrow> xgl_instance \<Rightarrow> xgl_error \<times> xgl_instance \<times> init_env \<Rightarrow> bool" where
  "outcome c inst0 r \<longleftrightarrow> (succeeded c inst0 r \<or> failed XGL_ERR_NO_MEMORY r)"

definition pending :: "bool \<Rightarrow> xgl_config \<Rightarrow> xgl_instance \<Rightarrow> bool" where
  "pending ts c inst \<longleftrightarrow> xi_config inst = c \<and> mutex_ok ts inst \<and> layers_clear inst
     \<and> xi_stats inst = zero_statistics \<lparr> st_min_rtt_ms := 0xFFFFFFFF \<rparr>"

lemma init_transport_outcome:
  assumes conf: "xi_config inst = c" "pc_window_size (cf_protocol c) \<in> {1..32}" and inst: "mutex_ok ts inst"
    "xi_transport_ctx inst = None" "\<not> xi_initialized inst" "xi_stats inst = zero_statistics \<lparr> st_min_rtt_ms := 0xFFFFFFFF \<rparr>"
    and dl: "xi_datalink_ctx inst = Some dl" "parser_tracks (dl_parser dl) []" "ps_cache_size (dl_parser dl) = mc_rx_buffer_size (cf_memory c)"
      "dl_auth_required dl = cf_auth_required c" "dl_auth_provider dl = cf_auth_provider c" "dl_stats dl = Some zero_layer_stats"
      "dl_rx_header_crc_errors dl = Some 0" "dl_rx_crc16_errors dl = Some 0"
    and nw: "xi_network_ctx inst = Some nw" "nw_auth_required nw = cf_auth_required c" "nw_auth_provider nw = cf_auth_provider c"
      "nw_local_id nw = cf_source_id c" "nw_route_table nw = xi_route_table inst" "nw_stats nw = Some zero_layer_stats"
  shows "outcome c inst (init_transport ts inst env)"
proof -
  let ?c = "instance_transport_config inst"
  have cfg: "tf_stats ?c = Some zero_layer_stats" "tf_tx_retries ?c = Some 0" "tf_window_size ?c = pc_window_size (cf_protocol c)"
    "tf_local_id ?c = cf_source_id c" "tf_route_table ?c = Some (xi_route_table inst)"
    by (simp_all add: instance_transport_config_def conf inst zero_statistics_def)
  obtain r w where tr: "xgl_transport_init (Some ?c) (ie_world env) = (r, w)" by (rule prod.exhaust)
  show ?thesis
  proof (cases r)
    case (Inl err)
    have "err = XGL_ERR_NO_MEMORY" by (rule transport_init_error [OF tr [unfolded Inl]]) (use conf(2) in \<open>simp_all add: cfg\<close>)
    then have "init_transport ts inst env = (XGL_ERR_NO_MEMORY, cleanup_network ts inst, env \<lparr> ie_world := w \<rparr>)"
      by (simp add: init_transport_def tr Inl)
    then show ?thesis using cleanup_network_releases [OF inst(1,2,3)] by (simp add: outcome_def)
  next
    case (Inr tp)
    have tp: "transport_inv tp" "tc_peers tp = []" "tc_local_id tp = cf_source_id c" "tc_route_table tp = Some (xi_route_table inst)"
        "tc_stats tp = Some zero_layer_stats" "tc_tx_retries tp = Some 0"
      using transport_init_inv [OF tr [unfolded Inr]] transport_init_facts(1) [OF tr [unfolded Inr]]
        transport_init_settings [OF tr [unfolded Inr]] by (simp_all add: cfg)
    obtain reg where reg: "xgl_codec_registry_init True 4 = Inr reg" "codec_inv reg"
      using codec_registry_init_inv [of True 4] by (simp add: xgl_codec_registry_init_def)
    obtain reg' w' where codecs: "register_codecs reg (cf_codecs c) (cf_error_callback c) w = (reg', w')" by (rule prod.exhaust)
    have "codec_inv reg'" using register_codecs_inv [OF reg(2), of "cf_codecs c" "cf_error_callback c" w] by (simp add: codecs)
    moreover have "transport_inv (tp \<lparr> tc_lower_layer := True, tc_codec_registry := Some reg' \<rparr>)"
      using tp(1) by (simp add: transport_inv_def context_ok_def)
    ultimately have "succeeded c inst (init_transport ts inst env)" using dl nw tp inst(4)
      by (simp add: init_transport_def tr Inr reg(1) codecs conf succeeded_def kept_parts_def layers_ready_def instance_stats_def zero_statistics_def)
    then show ?thesis by (simp add: outcome_def)
  qed
qed

lemma init_network_outcome:
  assumes inst: "pending ts c inst" and win: "pc_window_size (cf_protocol c) \<in> {1..32}"
    and dl: "parser_tracks (dl_parser dl) []" "ps_cache_size (dl_parser dl) = mc_rx_buffer_size (cf_memory c)"
      "dl_auth_required dl = cf_auth_required c" "dl_auth_provider dl = cf_auth_provider c" "dl_stats dl = Some zero_layer_stats"
      "dl_rx_header_crc_errors dl = Some 0" "dl_rx_crc16_errors dl = Some 0"
  shows "outcome c inst (init_network ts (inst \<lparr> xi_datalink_ctx := Some dl \<rparr>) env)"
proof -
  define nw where "nw = \<lparr> nw_local_id = cf_source_id c, nw_route_table = xi_route_table inst, nw_upper_layer = False, nw_lower_layer = False,
    nw_error_callback = cf_error_callback c, nw_stats = Some zero_layer_stats, nw_auth_required = cf_auth_required c,
    nw_auth_key_id = cf_auth_key_id c, nw_auth_provider = cf_auth_provider c \<rparr>"
  let ?i = "inst \<lparr> xi_datalink_ctx := Some dl, xi_network_ctx := Some nw \<rparr>"
  have "init_network ts (inst \<lparr> xi_datalink_ctx := Some dl \<rparr>) env = init_transport ts ?i env"
    using inst by (simp add: init_network_def xgl_network_init_def nw_def pending_def zero_statistics_def)
  moreover have "outcome c ?i (init_transport ts ?i env)"
    by (rule init_transport_outcome [OF _ win, where dl = dl and nw = nw])
       (use inst dl in \<open>auto simp: pending_def layers_clear_def mutex_ok_def nw_def\<close>)
  ultimately show ?thesis by (simp add: outcome_def succeeded_def kept_parts_def)
qed

lemma init_datalink_outcome:
  assumes c: "config_ok ts phys c" and inst: "pending ts c inst"
    and rx: "\<And>b. ie_rx_buffer env = Some b \<Longrightarrow> mc_rx_buffer_size (cf_memory c) \<le> length b"
  shows "outcome c inst (init_datalink ts inst env)"
proof -
  have inst': "xi_config inst = c" "mutex_ok ts inst" "layers_clear inst" "xi_stats inst = zero_statistics \<lparr> st_min_rtt_ms := 0xFFFFFFFF \<rparr>"
    using inst by (simp_all add: pending_def)
  have "\<not> pc_max_frame_size (cf_protocol c) < 64" using c by (auto simp: config_ok_def)
  then have "64 \<le> unat (pc_max_frame_size (cf_protocol c))" by (simp add: word_less_nat_alt)
  then have size: "26 \<le> mc_rx_buffer_size (cf_memory c)" using c unfolding config_ok_def by linarith
  show ?thesis
  proof (cases "ie_rx_buffer env")
    case None
    then show ?thesis using cleanup_read_times_releases [OF inst'(2,3)] by (simp add: init_datalink_def outcome_def)
  next
    case (Some b)
    define dc where "dc = \<lparr> dc_rx_cache = Some b, dc_rx_cache_size = mc_rx_buffer_size (cf_memory c), dc_source_id = cf_source_id c,
      dc_stats = Some zero_layer_stats, dc_rx_header_crc_errors = Some 0, dc_rx_crc16_errors = Some 0, dc_upper_layer = False,
      dc_error_callback = cf_error_callback c, dc_auth_required = cf_auth_required c, dc_auth_key_id = cf_auth_key_id c,
      dc_auth_provider = cf_auth_provider c \<rparr>"
    obtain dl where dl: "xgl_datalink_init (Some dc) = Inr dl"
      using size by (simp add: xgl_datalink_init_def xgl_parser_init_def dc_def)
    have "dc_rx_cache dc = Some b" "dc_rx_cache_size dc \<le> length b" using rx [OF Some] by (simp_all add: dc_def)
    note facts = datalink_init_parser [OF dl this]
    have stats: "dl_stats dl = Some zero_layer_stats" "dl_rx_header_crc_errors dl = Some 0" "dl_rx_crc16_errors dl = Some 0"
      using dl by (auto simp: xgl_datalink_init_def dc_def split: sum.splits)
    have "init_datalink ts inst env = init_network ts (inst \<lparr> xi_datalink_ctx := Some dl \<rparr>) env"
      using dl by (simp add: init_datalink_def Some inst' zero_statistics_def dc_def)
    moreover have "outcome c inst (init_network ts (inst \<lparr> xi_datalink_ctx := Some dl \<rparr>) env)"
      by (rule init_network_outcome [OF inst]) (use c facts stats in \<open>simp_all add: dc_def config_ok_def\<close>)
    ultimately show ?thesis by simp
  qed
qed

lemma pending_update:
  assumes "pending ts c inst"
  shows "pending ts c (inst \<lparr> xi_route_table := T \<rparr>)" "pending ts c (inst \<lparr> xi_route_last_read_count := n \<rparr>)"
    "pending ts c (inst \<lparr> xi_route_last_read_ms := l \<rparr>)" "pending ts c (inst \<lparr> xi_packet_pool := p \<rparr>)"
    "pending ts c (inst \<lparr> xi_tx_pool := q \<rparr>)"
  using assms by (auto simp: pending_def mutex_ok_def layers_clear_def)

lemma configured_routes_phy: "config_ok ts phys c \<Longrightarrow> r \<in> set (configured_routes c) \<Longrightarrow> ri_phy r \<noteq> None"
  by (auto simp: config_ok_def configured_routes_def list_all_iff route_ok_def split: option.splits)

lemma route_init_failed:
  assumes "xgl_route_table_init 16 as = (e, T, as')" "e \<noteq> XGL_OK"
  shows "e = XGL_ERR_NO_MEMORY" "no_routes T"
  using assms by (auto simp: xgl_route_table_init_def xgl_hashtable_init_def xgl_is_power_of_2_def Let_def no_routes_def
      xgl_hashtable_destroy_def split: if_splits prod.splits bool.splits)

lemma init_datalink_routes:
  assumes c: "config_ok ts phys c" and inst: "pending ts c inst" "routes_ready c inst" "kept_parts inst = p"
    and rx: "\<And>b. ie_rx_buffer env = Some b \<Longrightarrow> mc_rx_buffer_size (cf_memory c) \<le> length b"
    and r: "r = init_datalink ts inst env"
  shows "(\<exists>inst0. succeeded c inst0 r) \<and> routes_ready c (fst (snd r)) \<and> kept_parts (fst (snd r)) = p \<or> failed XGL_ERR_NO_MEMORY r"
proof -
  have "outcome c inst r" unfolding r by (rule init_datalink_outcome [OF c inst(1) rx])
  then show ?thesis using inst(2,3) by (auto simp: outcome_def succeeded_def routes_ready_def)
qed

lemma route_load_configured:
  assumes c: "config_ok ts phys c" and T: "xgl_route_table_init 16 as0 = (XGL_OK, T, as)" and len: "cf_route_table_len c \<noteq> 0"
    and load: "xgl_route_table_load T (cf_route_table c) (cf_route_table_len c) as = (e, T', as')"
  shows "route_inv T' \<and> (e = XGL_OK \<and> route_map T' = map_of (rev (map (\<lambda>r. (ri_target_id r, r)) (configured_routes c))) \<or> e = XGL_ERR_NO_MEMORY)"
proof -
  have loop: "route_table_load_loop (xgl_route_table_clear T) (configured_routes c) as = (e, T', as')"
    using load c len by (auto simp: xgl_route_table_load_def configured_routes_def config_ok_def Let_def split: option.splits if_splits)
  have "route_inv (xgl_route_table_clear T)" "route_map (xgl_route_table_clear T) = (\<lambda>_. None)"
    using route_clear_inv route_init_inv [OF T] by blast+
  then show ?thesis using route_load_loop_spec [OF _ _ loop] configured_routes_phy [OF c] by auto
qed

lemma init_routes_loaded:
  assumes c: "config_ok ts phys c" and inst: "pending ts c inst" "xi_route_last_read_ms inst = None"
    and rx: "\<And>b. ie_rx_buffer env = Some b \<Longrightarrow> mc_rx_buffer_size (cf_memory c) \<le> length b"
    and T: "xgl_route_table_init 16 (w_allocs (ie_world env)) = (XGL_OK, T, as)" and len: "cf_route_table_len c \<noteq> 0"
    and r: "r = init_routes ts inst env"
  shows "(\<exists>inst0. succeeded c inst0 r) \<and> routes_ready c (fst (snd r)) \<and> kept_parts (fst (snd r)) = kept_parts inst
     \<or> failed XGL_ERR_NO_MEMORY r"
proof -
  obtain e2 T2 as2 where T2: "xgl_route_table_load T (cf_route_table c) (cf_route_table_len c) as = (e2, T2, as2)" by (rule prod_cases3)
  note spec = route_load_configured [OF c T len T2]
  let ?env2 = "env \<lparr> ie_world := (ie_world env) \<lparr> w_allocs := as2 \<rparr> \<rparr>" and ?inst2 = "inst \<lparr> xi_route_table := T2 \<rparr>"
  obtain ok w where al: "w_alloc (ie_world ?env2) = (ok, w)" by (rule prod.exhaust)
  let ?inst3 = "?inst2 \<lparr> xi_route_last_read_count := cf_route_table_len c \<rparr>" and ?env3 = "env \<lparr> ie_world := w \<rparr>"
  let ?inst4 = "?inst3 \<lparr> xi_route_last_read_ms := Some (replicate (cf_route_table_len c) 0) \<rparr>"
  have r': "r = (if e2 \<noteq> XGL_OK then (e2, cleanup_route_table ts ?inst2, ?env2)
      else if \<not> ok then (XGL_ERR_NO_MEMORY, cleanup_route_table ts ?inst3, ?env3) else init_datalink ts ?inst4 ?env3)"
    using len inst(1) T2 al by (simp add: r init_routes_def T Let_def pending_def)
  have clean: "failed XGL_ERR_NO_MEMORY (XGL_ERR_NO_MEMORY, cleanup_route_table ts i, x)" if "i = ?inst2 \<or> i = ?inst3" for i x
    by (rule cleanup_route_table_releases) (use that inst in \<open>auto simp: pending_def mutex_ok_def layers_clear_def\<close>)
  show ?thesis
  proof (cases "e2 = XGL_OK \<and> ok")
    case True
    have "routes_ready c ?inst4" using spec True len by (simp add: routes_ready_def)
    moreover have "pending ts c ?inst4" by (intro pending_update inst(1))
    moreover have "r = init_datalink ts ?inst4 ?env3" using True r' by simp
    ultimately show ?thesis using init_datalink_routes [OF c, of ?inst4 "kept_parts inst" ?env3 r] rx by (simp add: kept_parts_def)
  next
    case False
    then show ?thesis using clean spec by (auto simp: r')
  qed
qed

lemma init_routes_outcome:
  assumes c: "config_ok ts phys c" and inst: "pending ts c inst" "xi_route_last_read_ms inst = None"
    and rx: "\<And>b. ie_rx_buffer env = Some b \<Longrightarrow> mc_rx_buffer_size (cf_memory c) \<le> length b"
    and r: "r = init_routes ts inst env"
  shows "(\<exists>inst0. succeeded c inst0 r) \<and> routes_ready c (fst (snd r)) \<and> kept_parts (fst (snd r)) = kept_parts inst
     \<or> failed XGL_ERR_NO_MEMORY r"
proof -
  obtain e T as where T: "xgl_route_table_init 16 (w_allocs (ie_world env)) = (e, T, as)" by (rule prod_cases3)
  let ?env = "env \<lparr> ie_world := (ie_world env) \<lparr> w_allocs := as \<rparr> \<rparr>" and ?inst = "inst \<lparr> xi_route_table := T \<rparr>"
  consider (init) "e \<noteq> XGL_OK" | (none) "e = XGL_OK" "cf_route_table_len c = 0" | (load) "e = XGL_OK" "cf_route_table_len c \<noteq> 0" by blast
  then show ?thesis
  proof cases
    case init
    have "r = (XGL_ERR_NO_MEMORY, cleanup_packet_pool ts ?inst, ?env)"
      using route_init_failed(1) [OF T init] init by (simp add: r init_routes_def T Let_def)
    moreover have "failed XGL_ERR_NO_MEMORY (XGL_ERR_NO_MEMORY, cleanup_packet_pool ts ?inst, ?env)"
      by (rule cleanup_packet_pool_releases)
         (use route_init_failed(2) [OF T init] inst in \<open>auto simp: pending_def mutex_ok_def layers_clear_def\<close>)
    ultimately show ?thesis by simp
  next
    case none
    have "r = init_datalink ts ?inst ?env" using none inst(1) by (simp add: r init_routes_def T Let_def pending_def)
    moreover have "routes_ready c ?inst"
      using route_init_inv [of 16] T none inst(2) by (auto simp: routes_ready_def configured_routes_def)
    ultimately show ?thesis
      using init_datalink_routes [OF c pending_update(1) [OF inst(1)], of T "kept_parts inst" ?env r] rx by (simp add: kept_parts_def)
  next
    case load
    then show ?thesis using init_routes_loaded [OF c inst rx _ load(2) r] T by simp
  qed
qed

lemma init_pools_outcome:
  assumes c: "config_ok ts phys c" and inst: "xi_config inst = c" "xi_mutex inst \<longleftrightarrow> ts \<and> fc_thread_safe (cf_features c)" "layers_clear inst" "xi_route_last_read_ms inst = None"
      "no_routes (xi_route_table inst)" "pq_packets (xi_packet_pool inst) = None"
    and rx: "\<And>b. ie_rx_buffer env = Some b \<Longrightarrow> mc_rx_buffer_size (cf_memory c) \<le> length b"
    and ps: "\<And>a. ie_packets env = Some a \<Longrightarrow> length a = packet_pool_count (mc_tx_pool_size (cf_memory c))"
    and r: "r = init_pools ts inst env"
  shows "(fst r = XGL_OK \<and> instance_ready ts c (fst (snd r)) env) \<or> failed XGL_ERR_NO_MEMORY r"
proof -
  let ?i = "inst \<lparr> xi_stats := zero_statistics \<lparr> st_min_rtt_ms := 0xFFFFFFFF \<rparr> \<rparr>" and ?n = "packet_pool_count (mc_tx_pool_size (cf_memory c))"
  obtain n0 n1 n2 where n: "tier_counts (mc_tx_pool_size (cf_memory c)) = (n0, n1, n2)" by (rule prod_cases3)
  obtain ok freed pool m where t: "xgl_tiered_pool_init (ie_memory env) (ie_heap env) n0 n1 n2 = (ok, freed, pool, m)" by (rule prod_cases4)
  let ?i1 = "?i \<lparr> xi_tx_pool := pool \<rparr>" and ?env = "env \<lparr> ie_memory := m \<rparr>"
  let ?i2 = "?i1 \<lparr> xi_packet_pool := xgl_packet_pool_destroy \<lparr> pq_total_count := ?n, pq_free_count := ?n \<rparr> \<rparr>"
  consider (tiers) "\<not> ok" | (packets) "ok" "xgl_packet_pool_init ?n (ie_packets env) (ie_nodes env) = None"
    | (ok) q h where "ok" "xgl_packet_pool_init ?n (ie_packets env) (ie_nodes env) = Some (q, h)" by fastforce
  then show ?thesis
  proof cases
    case tiers
    have "failed XGL_ERR_NO_MEMORY (XGL_ERR_NO_MEMORY, mutex_destroy ts ?i1, ?env)"
      by (rule mutex_destroy_releases)
         (use inst tiers t tiered_init_failed in \<open>auto simp: mutex_ok_def layers_clear_def\<close>)
    then show ?thesis using tiers by (simp add: r init_pools_def inst n t Let_def)
  next
    case packets
    have "failed XGL_ERR_NO_MEMORY (XGL_ERR_NO_MEMORY, cleanup_tx_pool ts ?i2, ?env)"
      by (rule cleanup_tx_pool_releases) (use inst in \<open>auto simp: mutex_ok_def layers_clear_def xgl_packet_pool_destroy_def\<close>)
    then show ?thesis using packets by (simp add: r init_pools_def inst n t Let_def)
  next
    case ok
    let ?i3 = "?i1 \<lparr> xi_packet_pool := q \<rparr>" and ?env3 = "?env \<lparr> ie_nodes := h \<rparr>"
    have r': "r = init_routes ts ?i3 ?env3" using ok by (simp add: r init_pools_def inst n t Let_def)
    obtain a where a: "ie_packets env = Some a" "xgl_packet_pool_init ?n (Some a) (ie_nodes env) = Some (q, h)"
      using ok(2) by (cases "ie_packets env") (auto simp: xgl_packet_pool_init_def split: if_splits)
    have "packets_rep ?n q h [0..<?n]" using packet_pool_init_rep [OF a(2) ps [OF a(1)]] by simp
    moreover have "pending ts c ?i3" using inst by (auto simp: pending_def mutex_ok_def layers_clear_def)
    then have "(\<exists>inst0. succeeded c inst0 r) \<and> routes_ready c (fst (snd r)) \<and> kept_parts (fst (snd r)) = kept_parts ?i3 \<or> failed XGL_ERR_NO_MEMORY r"
      using init_routes_outcome [OF c _ _ _ r'] inst(4) rx by simp
    ultimately show ?thesis using ok(1) t n by (auto simp: instance_ready_def succeeded_def kept_parts_def Let_def inst(1,2); blast)
  qed
qed

lemma xgl_create_fresh:
  assumes "xgl_create ts phys fallback n (Some c) mem = (Some (h, al, inst), mem')"
  shows "config_ok ts phys c" "xi_config inst = c" "\<not> xi_mutex inst" "layers_clear inst" "xi_route_last_read_ms inst = None"
    "no_routes (xi_route_table inst)" "pq_packets (xi_packet_pool inst) = None" "xi_tx_pool inst = zero_tiered_pool"
  using assms validate_iff [of ts phys c]
  by (auto simp: xgl_create_def layers_clear_def no_routes_def zero_route_table_def Let_def split: if_splits prod.splits)

lemma xgl_destroy_releases: "mutex_ok ts inst \<Longrightarrow> \<exists>inst'. xgl_destroy ts (Some inst) = Some inst' \<and> released inst'"
  using route_destroy_empty [of "xi_route_table inst"]
  by (auto simp: xgl_destroy_def released_def mutex_destroy_def mutex_ok_def no_routes_def Let_def)


definition sample_packets :: "pool_packet list" where
  "sample_packets = replicate 16 zero_pool_packet"

definition sample_env :: "bool list \<Rightarrow> init_env" where
  "sample_env allocs = \<lparr> ie_memory = (\<lambda>_. 0), ie_heap = [65536, 131072, 262144], ie_packets = Some sample_packets,
     ie_nodes = (\<lambda>_. \<lparr> ln_next = None, ln_prev = None \<rparr>), ie_rx_buffer = Some (replicate 544 0), ie_mutex_init = XGL_OK,
     ie_world = \<lparr> w_allocs = allocs, w_sends = [], w_clock = [], w_log = [] \<rparr> \<rparr>"

definition sample_mem :: alloc_mem where
  "sample_mem = \<lparr> am_headers = (\<lambda>_. \<lparr> ah_size = 0, ah_magic = 0, ah_phase = 0 \<rparr>), am_addrs = [4096], am_freed = [] \<rparr>"

lemma sample_create:
  "\<exists>al inst mem. xgl_create False (\<lambda>_. \<lparr> ph_tx = True, ph_rx = True \<rparr>) True 800 (Some xgl_config_get_default) sample_mem = (Some (4096, al, inst), mem)"
  by (simp add: xgl_create_def xgl_config_validate_def preset_defs xgl_alloc_def xgl_allocator_get_default_def user_malloc_def sample_mem_def)

lemma sample_init_ok:
  assumes create: "xgl_create ts phys fallback n (Some xgl_config_get_default) mem = (Some (h, al, inst), mem')"
  shows "fst (xgl_init False (Some inst) (sample_env [True, True, True, True])) = XGL_OK"
proof -
  note fresh = xgl_create_fresh [OF create]
  have n: "tier_counts 4096 = (25, 6, 1)" "packet_pool_count 4096 = 16" by (simp_all add: tier_counts_def packet_pool_count_def tier_sizes)
  obtain T m where t: "xgl_tiered_pool_init (\<lambda>_. 0) [65536, 131072, 262144] 25 6 1 = (True, [], T, m)"
    using tiered_init_ok [of 65536 131072 262144 25 6 1 "\<lambda>_. 0"] by (auto simp: SIZE_RANGE_def)
  obtain q h where q: "xgl_packet_pool_init 16 (Some sample_packets) (ie_nodes (sample_env [True, True, True, True])) = Some (q, h)"
    by (cases "pool_link_packets \<lparr> pq_packets = Some sample_packets, pq_free_list = xgl_list_init, pq_total_count = 16,
        pq_free_count = 16, pq_peak_used = 0 \<rparr> (ie_nodes (sample_env [True, True, True, True])) [0..<16]")
       (simp add: xgl_packet_pool_init_def)
  let ?i = "inst \<lparr> xi_stats := zero_statistics \<lparr> st_min_rtt_ms := 0xFFFFFFFF \<rparr>, xi_tx_pool := T, xi_packet_pool := q \<rparr>"
  let ?e = "sample_env [True, True, True, True] \<lparr> ie_memory := m, ie_nodes := h \<rparr>"
  have "init_pools False inst (sample_env [True, True, True, True]) = init_routes False ?i ?e"
    using fresh(2) q by (simp add: init_pools_def sample_env_def n t [unfolded One_nat_def] preset_defs Let_def)
  moreover have "fst (init_routes False ?i ?e) = XGL_OK"
    using fresh(2)
    by (simp add: init_routes_def sample_env_def preset_defs xgl_route_table_init_def xgl_hashtable_init_def xgl_is_power_of_2_def take_alloc_def
        init_datalink_def xgl_datalink_init_def xgl_parser_init_def init_network_def xgl_network_init_def init_transport_def
        instance_transport_config_def xgl_transport_init_def fresh_window_def xgl_window_init_with_allocator_def w_alloc_def
        xgl_codec_registry_init_def Let_def)
  ultimately show ?thesis using fresh(4) by (auto simp: xgl_init_def layers_clear_def split: prod.splits)
qed


section \<open>Zero-copy frames\<close>

lemma build_zerocopy_success:
  assumes "xgl_frame_build_zerocopy (Some b) n off len src dst t pn r p = Inr x"
  shows "len \<le> 65535" "off = 24 + length (zerocopy_ext t)" "off + len + 2 \<le> n"
  using assms by (auto simp: xgl_frame_build_zerocopy_def length_zerocopy_ext Let_def split: if_splits)

lemma build_zerocopy_error:
  assumes "xgl_frame_build_zerocopy (Some b) n off len src dst t pn r p = Inl e" "src \<noteq> 0" "dst \<noteq> 0" "n \<le> length b"
  shows "e \<noteq> XGL_OK"
proof (cases "len \<le> 65535 \<and> off = 24 + length (zerocopy_ext t) \<and> off + len + 2 \<le> n")
  case True
  then show ?thesis using assms xgl_frame_build_zerocopy_image [of src dst len off t n b pn r p] by simp
next
  case False
  then show ?thesis using assms(1) by (auto simp: xgl_frame_build_zerocopy_def length_zerocopy_ext Let_def split: if_splits)
qed

lemma zerocopy_frame_error:
  assumes "zerocopy_frame phys inst tx = Inl e" "\<not> cf_auth_required (xi_config inst)" "tz_buffer tx = Some b" "tz_buffer_size tx \<le> length b"
    "cf_source_id (xi_config inst) \<noteq> 0" "tz_target_id tx \<noteq> 0"
  shows "e \<noteq> XGL_OK"
  using assms build_zerocopy_error [OF _ assms(5,6,4)]
  by (auto simp: zerocopy_frame_def Let_def split: if_splits option.splits sum.splits)

lemma zerocopy_frame_plain:
  assumes frame: "zerocopy_frame phys inst tx = Inr (phy, b', k)" and plain: "\<not> cf_auth_required (xi_config inst)"
    and b: "tz_buffer tx = Some b" "tz_buffer_size tx \<le> length b"
    and ids: "cf_source_id (xi_config inst) \<noteq> 0" "tz_target_id tx \<noteq> 0"
  shows "\<exists>route. route_map (xi_route_table inst) (tz_target_id tx) = Some route \<and> ri_phy route = Some phy \<and> ph_tx (phys phy)
      \<and> k \<le> unat (ri_max_frame_size route)"
    and "tz_data_len tx \<le> 65535" "tz_data_offset tx = 24 + length (zerocopy_ext (tz_data_type tx))"
    and "k = tz_data_offset tx + tz_data_len tx + 2" "k \<le> tz_buffer_size tx"
    and "take k b' = frame_image (zerocopy_header (tz_data_len tx) (cf_source_id (xi_config inst)) (tz_target_id tx) (tz_data_type tx) 0 False (tz_priority tx))
        (zerocopy_ext (tz_data_type tx)) (mem_read b (tz_data_offset tx) (tz_data_len tx))"
proof -
  have z: "xgl_frame_build_zerocopy (Some b) (tz_buffer_size tx) (tz_data_offset tx) (tz_data_len tx) (cf_source_id (xi_config inst))
      (tz_target_id tx) (tz_data_type tx) 0 False (tz_priority tx) = Inr (b', k)"
    and route: "\<exists>route. route_map (xi_route_table inst) (tz_target_id tx) = Some route \<and> ri_phy route = Some phy \<and> ph_tx (phys phy)
      \<and> xgl_frame_serialized_size (tz_data_len tx) (length (zerocopy_ext (tz_data_type tx))) 0 \<le> unat (ri_max_frame_size route)"
    using frame plain b(1) by (auto simp: zerocopy_frame_def length_zerocopy_ext Let_def split: if_splits option.splits sum.splits)
  note ok = build_zerocopy_success [OF z]
  show "tz_data_len tx \<le> 65535" "tz_data_offset tx = 24 + length (zerocopy_ext (tz_data_type tx))" using ok by simp_all
  from z xgl_frame_build_zerocopy_image [OF ids ok b(2), of 0 False "tz_priority tx"]
  have k: "k = tz_data_offset tx + tz_data_len tx + 2" and img: "b' = frame_image (zerocopy_header (tz_data_len tx) (cf_source_id (xi_config inst))
      (tz_target_id tx) (tz_data_type tx) 0 False (tz_priority tx)) (zerocopy_ext (tz_data_type tx)) (mem_read b (tz_data_offset tx) (tz_data_len tx))
        @ drop (tz_data_offset tx + tz_data_len tx + 2) b"
    by auto
  show "k = tz_data_offset tx + tz_data_len tx + 2" "k \<le> tz_buffer_size tx" using k ok(3) by simp_all
  show "\<exists>route. route_map (xi_route_table inst) (tz_target_id tx) = Some route \<and> ri_phy route = Some phy \<and> ph_tx (phys phy)
      \<and> k \<le> unat (ri_max_frame_size route)"
    using route k ok(2) by (auto simp: xgl_frame_serialized_size_def xgl_frame_auth_overhead_def)
  have "length (mem_read b (tz_data_offset tx) (tz_data_len tx)) = tz_data_len tx" using ok(3) b(2) by (simp add: mem_read_def)
  then show "take k b' = frame_image (zerocopy_header (tz_data_len tx) (cf_source_id (xi_config inst)) (tz_target_id tx) (tz_data_type tx) 0 False (tz_priority tx))
        (zerocopy_ext (tz_data_type tx)) (mem_read b (tz_data_offset tx) (tz_data_len tx))"
    using img k ok(2) by (simp add: frame_image_def sealed_def)
qed

text \<open>
  C38: zero-copy sending is equivalent to the ordinary path. Whenever \<^verbatim>\<open>xgl_send_zerocopy\<close> succeeds on an instance without
  authentication, it has transmitted exactly one frame, through the interface of the route to the target and within the
  route's frame size, and that frame is byte for byte the one that building from parameters and serializing into any other buffer
  emits for the payload that was in the caller's buffer. On every error nothing but the counters of the data link layer has changed.
\<close>

theorem zerocopy_send_equals_build:
  assumes send: "xgl_send_zerocopy ts phys (Some inst) (Some tx) lock res = (err, out, Some inst')"
    and plain: "\<not> cf_auth_required (xi_config inst)" and b: "tz_buffer tx = Some b" "tz_buffer_size tx \<le> length b"
    and ids: "cf_source_id (xi_config inst) \<noteq> 0" "tz_target_id tx \<noteq> 0"
  shows "if err = XGL_OK
    then \<exists>route phy f k. route_map (xi_route_table inst) (tz_target_id tx) = Some route \<and> ri_phy route = Some phy
      \<and> k \<le> unat (ri_max_frame_size route)
      \<and> xgl_frame_build (Some (zerocopy_params (mem_read b (tz_data_offset tx) (tz_data_len tx)) (cf_source_id (xi_config inst)) (tz_target_id tx)
          (tz_data_type tx) 0 False (tz_priority tx))) = Inr f
      \<and> (\<forall>c m. k \<le> m \<and> m \<le> length c \<longrightarrow> (\<exists>c'. xgl_frame_serialize (Some c) m (Some f) = Inr (c', k) \<and> out = [Transmit phy (take k c')]))
    else inst' \<lparr> xi_datalink_ctx := xi_datalink_ctx inst \<rparr> = inst"
proof -
  let ?pl = "mem_read b (tz_data_offset tx) (tz_data_len tx)"
  show ?thesis
  proof (cases "err = XGL_OK")
    case False
    then show ?thesis using send
      by (auto simp: xgl_send_zerocopy_def Let_def split: if_splits sum.splits prod.splits)
  next
    case True
    then obtain phy b' k where frame: "zerocopy_frame phys inst tx = Inr (phy, b', k)" and out: "out = [Transmit phy (take k b')]"
      using send zerocopy_frame_error [OF _ plain b ids]
      by (auto simp: xgl_send_zerocopy_def xgl_datalink_send_raw_def Let_def split: if_splits sum.splits prod.splits)
    note z = zerocopy_frame_plain [OF frame plain b ids]
    have pl: "length ?pl = tz_data_len tx" using z(4,5) b(2) by (simp add: mem_read_def)
    obtain f where f: "xgl_frame_build (Some (zerocopy_params ?pl (cf_source_id (xi_config inst)) (tz_target_id tx) (tz_data_type tx) 0 False (tz_priority tx))) = Inr f"
      "frame_wf f" "fr_extensions_len f = length (zerocopy_ext (tz_data_type tx))" "fr_payload_len f = tz_data_len tx"
      "frame_ext f = zerocopy_ext (tz_data_type tx)" "frame_payload f = ?pl"
      "serialized_header f = zerocopy_header (tz_data_len tx) (cf_source_id (xi_config inst)) (tz_target_id tx) (tz_data_type tx) 0 False (tz_priority tx)"
      using zerocopy_params_build [of ?pl] z(2) pl by metis
    have "\<exists>c'. xgl_frame_serialize (Some c) m (Some f) = Inr (c', k) \<and> out = [Transmit phy (take k c')]" if "k \<le> m" "m \<le> length c" for c m
      using xgl_frame_serialize_image [of f k m c] f z(3,4,6) that ids pl out
      by (simp add: zerocopy_header_valid length_zerocopy_ext frame_image_def sealed_def)
    then show ?thesis using True z(1) f(1) by (simp, blast)
  qed
qed

definition zerocopy_instance :: xgl_instance where
  "zerocopy_instance =
     \<lparr> xi_config = XGL_CONFIG_PRESET_MEDIUM, xi_initialized = True, xi_tx_pool = zero_tiered_pool, xi_packet_pool = xgl_packet_pool_destroy,
       xi_route_table = nw_route_table sample_router, xi_route_last_read_ms = None, xi_route_last_read_count = 0,
       xi_datalink_ctx = Some sample_link, xi_network_ctx = Some sample_router, xi_transport_ctx = Some sample_transport,
       xi_stats = zero_statistics, xi_codec_registry = None, xi_mutex = False \<rparr>"

definition zerocopy_data :: xgl_tx_data_zerocopy where
  "zerocopy_data = \<lparr> tz_buffer = Some (replicate 27 0 @ [1, 2, 3] @ replicate 2 0), tz_buffer_size = 32, tz_data_offset = 27, tz_data_len = 3,
     tz_target_id = 0x0102, tz_data_type = 9, tz_reliable = False, tz_priority = 4 \<rparr>"

lemma zerocopy_sample_ok:
  "fst (xgl_send_zerocopy False (\<lambda>_. \<lparr> ph_tx = True, ph_rx = True \<rparr>) (Some zerocopy_instance) (Some zerocopy_data) XGL_OK XGL_OK) = XGL_OK"
proof -
  have route: "route_map (nw_route_table sample_router) 0x0102 = Some (route_to 0x0102)"
    using sample_route by (simp add: network_route_def)
  have "\<exists>b'. xgl_frame_build_zerocopy (tz_buffer zerocopy_data) 32 27 3 1 0x0102 9 0 False 4 = Inr (b', 32)"
    using xgl_frame_build_zerocopy_image [of 1 "0x0102" 3 27 9 32 "replicate 27 0 @ [1, 2, 3] @ replicate 2 0" 0 False 4]
    by (simp add: zerocopy_data_def length_zerocopy_ext)
  then obtain b' where "xgl_frame_build_zerocopy (tz_buffer zerocopy_data) 32 27 3 1 0x0102 9 0 False 4 = Inr (b', 32)" ..
  then have "zerocopy_frame (\<lambda>_. \<lparr> ph_tx = True, ph_rx = True \<rparr>) zerocopy_instance zerocopy_data = Inr (0, b', 32)"
    using route
    by (simp add: zerocopy_frame_def zerocopy_instance_def zerocopy_data_def preset_defs route_to_def
        xgl_frame_serialized_size_def xgl_frame_auth_overhead_def Let_def)
  then show ?thesis
    by (simp add: xgl_send_zerocopy_def xgl_instance_lock_def validate_tx_data_zerocopy_def SIZE_RANGE_def xgl_datalink_send_raw_def Let_def)
       (simp add: zerocopy_instance_def zerocopy_data_def)
qed

theorem zerocopy_send_equals_build_witness:
  "\<exists>f k c' out inst. xgl_frame_build (Some (zerocopy_params [1, 2, 3] 1 0x0102 9 0 False 4)) = Inr f
     \<and> xgl_frame_serialize (Some (replicate 256 0)) 256 (Some f) = Inr (c', k)
     \<and> xgl_send_zerocopy False (\<lambda>_. \<lparr> ph_tx = True, ph_rx = True \<rparr>) (Some zerocopy_instance) (Some zerocopy_data) XGL_OK XGL_OK =
         (XGL_OK, [Transmit 0 (take k c')], Some inst)"
proof -
  obtain err out h where s: "xgl_send_zerocopy False (\<lambda>_. \<lparr> ph_tx = True, ph_rx = True \<rparr>) (Some zerocopy_instance) (Some zerocopy_data) XGL_OK XGL_OK = (err, out, h)"
    by (rule prod_cases3)
  have err: "err = XGL_OK" using s zerocopy_sample_ok by simp
  obtain inst where h: "h = Some inst" using s by (auto simp: xgl_send_zerocopy_def Let_def split: if_splits sum.splits prod.splits)
  have conf: "xi_config zerocopy_instance = XGL_CONFIG_PRESET_MEDIUM" "cf_source_id XGL_CONFIG_PRESET_MEDIUM = 1"
    "\<not> cf_auth_required XGL_CONFIG_PRESET_MEDIUM" by (simp_all add: zerocopy_instance_def preset_defs)
  have route: "route_map (xi_route_table zerocopy_instance) 0x0102 = Some (route_to 0x0102)"
    using sample_route by (simp add: network_route_def zerocopy_instance_def)
  have b: "tz_buffer zerocopy_data = Some (replicate 27 0 @ [1, 2, 3] @ replicate 2 0)" "tz_buffer_size zerocopy_data \<le> length (replicate 27 0 @ [1, 2, 3] @ replicate 2 (0 :: u8))"
    by (simp_all add: zerocopy_data_def)
  have "mem_read (replicate 27 0 @ [1, 2, 3] @ replicate 2 0) (tz_data_offset zerocopy_data) (tz_data_len zerocopy_data) = [1, 2, 3 :: u8]"
    by (simp add: zerocopy_data_def mem_read_def)
  with zerocopy_send_equals_build [OF s [unfolded err h] _ b] conf route err
  obtain f k where f: "xgl_frame_build (Some (zerocopy_params [1, 2, 3] 1 0x0102 9 0 False 4)) = Inr f" "k \<le> 256"
      "\<And>c m. k \<le> m \<Longrightarrow> m \<le> length c \<Longrightarrow> \<exists>c'. xgl_frame_serialize (Some c) m (Some f) = Inr (c', k) \<and> out = [Transmit 0 (take k c')]"
    by (auto simp: zerocopy_data_def route_to_def)
  have "\<exists>c'. xgl_frame_serialize (Some (replicate 256 0)) 256 (Some f) = Inr (c', k) \<and> out = [Transmit 0 (take k c')]"
    by (rule f(3)) (use f(2) in simp_all)
  then show ?thesis using s err h f(1) by blast
qed

end
