(* ===== verification/Xgl_Runtime.thy ===== *)
theory Xgl_Runtime
  imports Xgl_Instance
begin

text \<open>
  The runtime of an instance, \<^verbatim>\<open>src/api/xgl_runtime.c\<close>: the polling of the routes by \<^verbatim>\<open>xgl_run\<close>, and the
  deadline that \<^verbatim>\<open>xgl_next_deadline_ms\<close> announces to an application that wants to sleep. What \<open>xgl_run\<close> does to the
  layers is the sequence of its calls, in order; the layers are modelled in \<open>Xgl_Datalink\<close> and \<open>Xgl_Transport\<close>. The argument
  \<open>now\<close> is what \<^verbatim>\<open>xgl_time_ms\<close> returns; time is 32-bit milliseconds and wraps.

  Shown: the announced deadline is the least of all pending ones, an application that wakes up before it finds nothing
  to do, and at the deadline there is work. The field \<^verbatim>\<open>earliest_deadline_ms\<close> of a peer uses 0 for "none", which loses a deadline
  that falls on the wrap of the clock (\<open>deadline_lost_at_wrap\<close>).
\<close>

section \<open>Deadlines\<close>

abbreviation (input) "XGL_NO_DEADLINE_MS \<equiv> (0xFFFFFFFF :: u32)"
abbreviation (input) "XGL_DATALINK_RX_MAX_BYTES_PER_CALL \<equiv> (1000 :: u32)"

definition deadline_delta_ms :: "u32 \<Rightarrow> u32 \<Rightarrow> u32 \<Rightarrow> u32" where
  "deadline_delta_ms now_ms start_ms timeout_ms =
     (let elapsed_ms = now_ms - start_ms
      in if elapsed_ms \<ge> timeout_ms then 0 else timeout_ms - elapsed_ms)"

definition deadline_take_min :: "u32 \<Rightarrow> u32 \<Rightarrow> u32" where
  "deadline_take_min deadline_ms candidate_ms = (if candidate_ms < deadline_ms then candidate_ms else deadline_ms)"

definition configured_route :: "xgl_instance \<Rightarrow> nat \<Rightarrow> xgl_route_item" where
  "configured_route inst i = the (cf_route_table (xi_config inst)) ! i"

definition route_has_rx :: "(nat \<Rightarrow> xgl_phy_ops) \<Rightarrow> xgl_route_item \<Rightarrow> bool" where
  "route_has_rx phys route \<longleftrightarrow> (case ri_phy route of None \<Rightarrow> False | Some phy \<Rightarrow> ph_rx (phys phy))"

definition read_interval :: "xgl_route_item \<Rightarrow> u32" where
  "read_interval route = (let interval_ms = 1000 div ri_read_freq_hz route in if interval_ms = 0 then 1 else interval_ms)"

text \<open>Whether \<^verbatim>\<open>route_last_read_ms\<close> has an entry for the route.\<close>

definition has_read_time :: "xgl_instance \<Rightarrow> nat \<Rightarrow> bool" where
  "has_read_time inst i \<longleftrightarrow> xi_route_last_read_ms inst \<noteq> None \<and> i < xi_route_last_read_count inst"

definition last_read_ms :: "xgl_instance \<Rightarrow> nat \<Rightarrow> u32" where
  "last_read_ms inst i = the (xi_route_last_read_ms inst) ! i"

definition collect_route_deadlines :: "(nat \<Rightarrow> xgl_phy_ops) \<Rightarrow> xgl_instance \<Rightarrow> u32 \<Rightarrow> u32 \<Rightarrow> u32" where
  "collect_route_deadlines phys inst now_ms deadline_ms =
     foldl (\<lambda>deadline_ms i.
       let route = configured_route inst i
       in if \<not> route_has_rx phys route then deadline_ms
          else if ri_read_freq_hz route = 0 \<or> \<not> has_read_time inst i \<or> last_read_ms inst i = 0
          then deadline_take_min deadline_ms 0
          else deadline_take_min deadline_ms (deadline_delta_ms now_ms (last_read_ms inst i) (read_interval route)))
       deadline_ms [0..<cf_route_table_len (xi_config inst)]"

definition collect_reliable_deadlines :: "xgl_transport_ctx \<Rightarrow> u32 \<Rightarrow> u32 \<Rightarrow> u32" where
  "collect_reliable_deadlines transport now_ms deadline_ms =
     foldl (\<lambda>deadline_ms peer.
       if tp_earliest_deadline_ms peer = 0 then deadline_ms
       else let remaining = tp_earliest_deadline_ms peer - now_ms
            in if sint remaining \<le> 0 then deadline_take_min deadline_ms 0 else deadline_take_min deadline_ms remaining)
       deadline_ms (tc_peers transport)"

definition collect_reassembly_deadlines :: "xgl_fragment_manager option \<Rightarrow> u32 \<Rightarrow> u32 \<Rightarrow> u32" where
  "collect_reassembly_deadlines manager now_ms deadline_ms =
     (case manager of
        None \<Rightarrow> deadline_ms
      | Some m \<Rightarrow>
          foldl (\<lambda>deadline_ms buffer.
            if rb_first_fragment_time buffer = 0 \<or> rb_timeout_ms buffer = 0 then deadline_ms
            else deadline_take_min deadline_ms (deadline_delta_ms now_ms (rb_first_fragment_time buffer) (rb_timeout_ms buffer)))
            deadline_ms (fm_reassembly_list m))"

definition xgl_next_deadline_ms :: "(nat \<Rightarrow> xgl_phy_ops) \<Rightarrow> xgl_instance option \<Rightarrow> u32 \<Rightarrow> u32" where
  "xgl_next_deadline_ms phys handle now_ms =
     (case handle of
        None \<Rightarrow> XGL_NO_DEADLINE_MS
      | Some inst \<Rightarrow>
          if \<not> xi_initialized inst then XGL_NO_DEADLINE_MS
          else
            let transport = the (xi_transport_ctx inst);
                deadline_ms = collect_route_deadlines phys inst now_ms XGL_NO_DEADLINE_MS;
                deadline_ms = collect_reliable_deadlines transport now_ms deadline_ms
            in collect_reassembly_deadlines (tc_fragment_mgr transport) now_ms deadline_ms)"

section \<open>The polling loop\<close>

datatype runtime_call =
    DatalinkReceive nat u32 u32         \<comment> \<open>\<^verbatim>\<open>xgl_datalink_receive\<close>: interface, time, parser timeout\<close>
  | TransportRun u32                    \<comment> \<open>\<^verbatim>\<open>xgl_transport_run\<close>\<close>

definition should_read :: "xgl_instance \<Rightarrow> u32 \<Rightarrow> u32 \<Rightarrow> nat \<Rightarrow> bool" where
  "should_read inst current_time_ms freq_hz i \<longleftrightarrow>
     (let route = configured_route inst i; route_freq_hz = ri_read_freq_hz route
      in if route_freq_hz > 0 \<and> freq_hz > 0 \<and> route_freq_hz < freq_hz \<and> has_read_time inst i
         then \<not> (last_read_ms inst i \<noteq> 0 \<and> current_time_ms - last_read_ms inst i < read_interval route)
         else True)"

definition poll_route ::
  "(nat \<Rightarrow> xgl_phy_ops) \<Rightarrow> u32 \<Rightarrow> u32 \<Rightarrow> runtime_call list \<times> xgl_instance \<Rightarrow> nat \<Rightarrow> runtime_call list \<times> xgl_instance" where
  "poll_route phys current_time_ms freq_hz = (\<lambda>(calls, inst) i.
     let route = configured_route inst i
     in if route_has_rx phys route \<and> should_read inst current_time_ms freq_hz i
        then (calls @ [DatalinkReceive (the (ri_phy route)) current_time_ms XGL_DATALINK_RX_MAX_BYTES_PER_CALL],
              if has_read_time inst i
              then inst \<lparr> xi_route_last_read_ms := map_option (\<lambda>l. l[i := current_time_ms]) (xi_route_last_read_ms inst) \<rparr> else inst)
        else (calls, inst))"

definition xgl_run ::
  "(nat \<Rightarrow> xgl_phy_ops) \<Rightarrow> xgl_instance option \<Rightarrow> u32 \<Rightarrow> u32 \<Rightarrow> runtime_call list \<times> xgl_instance option" where
  "xgl_run phys handle current_time_ms freq_hz =
     (case handle of
        None \<Rightarrow> ([], None)
      | Some inst \<Rightarrow>
          if \<not> xi_initialized inst then ([], handle)
          else case foldl (poll_route phys current_time_ms freq_hz) ([], inst) [0..<cf_route_table_len (xi_config inst)] of
                 (calls, inst) \<Rightarrow> (calls @ [TransportRun current_time_ms], Some inst))"

section \<open>The deadline is the least candidate\<close>

definition route_candidates :: "(nat \<Rightarrow> xgl_phy_ops) \<Rightarrow> xgl_instance \<Rightarrow> u32 \<Rightarrow> u32 list" where
  "route_candidates phys inst now_ms =
     map (\<lambda>i. if ri_read_freq_hz (configured_route inst i) = 0 \<or> \<not> has_read_time inst i \<or> last_read_ms inst i = 0 then 0
              else deadline_delta_ms now_ms (last_read_ms inst i) (read_interval (configured_route inst i)))
       (filter (\<lambda>i. route_has_rx phys (configured_route inst i)) [0..<cf_route_table_len (xi_config inst)])"

definition peer_candidates :: "xgl_transport_ctx \<Rightarrow> u32 \<Rightarrow> u32 list" where
  "peer_candidates transport now_ms =
     map (\<lambda>peer. let remaining = tp_earliest_deadline_ms peer - now_ms in if sint remaining \<le> 0 then 0 else remaining)
       (filter (\<lambda>peer. tp_earliest_deadline_ms peer \<noteq> 0) (tc_peers transport))"

definition buffer_candidates :: "xgl_fragment_manager option \<Rightarrow> u32 \<Rightarrow> u32 list" where
  "buffer_candidates manager now_ms =
     (case manager of None \<Rightarrow> [] | Some m \<Rightarrow>
        map (\<lambda>b. deadline_delta_ms now_ms (rb_first_fragment_time b) (rb_timeout_ms b))
          (filter (\<lambda>b. rb_first_fragment_time b \<noteq> 0 \<and> rb_timeout_ms b \<noteq> 0) (fm_reassembly_list m)))"

lemma take_min_min: "deadline_take_min d c = min d c"
  by (auto simp: deadline_take_min_def min_def)

lemma foldl_take_min_filter:
  "foldl (\<lambda>d x. if P x then deadline_take_min d (f x) else d) d xs = foldl min d (map f (filter P xs))"
  by (induction xs arbitrary: d) (simp_all add: take_min_min)

lemma collect_candidates:
  "collect_route_deadlines phys inst now d = foldl min d (route_candidates phys inst now)"
  "collect_reliable_deadlines transport now d = foldl min d (peer_candidates transport now)"
  "collect_reassembly_deadlines manager now d = foldl min d (buffer_candidates manager now)"
proof -
  show "collect_route_deadlines phys inst now d = foldl min d (route_candidates phys inst now)"
    unfolding collect_route_deadlines_def route_candidates_def foldl_take_min_filter [symmetric]
    by (rule arg_cong [where f = "\<lambda>g. foldl g d [0..<cf_route_table_len (xi_config inst)]"]) (intro ext, simp add: Let_def)
  show "collect_reliable_deadlines transport now d = foldl min d (peer_candidates transport now)"
    unfolding collect_reliable_deadlines_def peer_candidates_def foldl_take_min_filter [symmetric]
    by (rule arg_cong [where f = "\<lambda>g. foldl g d (tc_peers transport)"]) (intro ext, simp add: Let_def)
  show "collect_reassembly_deadlines manager now d = foldl min d (buffer_candidates manager now)"
  proof (cases manager)
    case (Some m)
    have "foldl (\<lambda>d b. if rb_first_fragment_time b = 0 \<or> rb_timeout_ms b = 0 then d
          else deadline_take_min d (deadline_delta_ms now (rb_first_fragment_time b) (rb_timeout_ms b))) d (fm_reassembly_list m) =
        foldl (\<lambda>d b. if rb_first_fragment_time b \<noteq> 0 \<and> rb_timeout_ms b \<noteq> 0
          then deadline_take_min d (deadline_delta_ms now (rb_first_fragment_time b) (rb_timeout_ms b)) else d) d (fm_reassembly_list m)"
      by (rule arg_cong [where f = "\<lambda>g. foldl g d (fm_reassembly_list m)"]) (intro ext, simp)
    then show ?thesis by (simp add: Some collect_reassembly_deadlines_def buffer_candidates_def foldl_take_min_filter)
  qed (simp add: collect_reassembly_deadlines_def buffer_candidates_def)
qed

definition candidates :: "(nat \<Rightarrow> xgl_phy_ops) \<Rightarrow> xgl_instance \<Rightarrow> u32 \<Rightarrow> u32 list" where
  "candidates phys inst now_ms = route_candidates phys inst now_ms @ peer_candidates (the (xi_transport_ctx inst)) now_ms
     @ buffer_candidates (tc_fragment_mgr (the (xi_transport_ctx inst))) now_ms"

lemma foldl_min_spec: "foldl min d xs \<in> insert d (set xs)" "x \<in> insert d (set xs) \<Longrightarrow> foldl min d xs \<le> (x :: 'a :: linorder)"
proof -
  show "foldl min d xs \<in> insert d (set xs)"
    by (induction xs arbitrary: d) (simp, smt (verit) foldl_Cons insert_iff list.simps(15) min_def)
  show "x \<in> insert d (set xs) \<Longrightarrow> foldl min d xs \<le> x"
  proof (induction xs arbitrary: d x)
    case (Cons y ys)
    have "foldl min (min d y) ys \<le> min d y" by (rule Cons.IH) simp
    moreover have "x \<in> set ys \<Longrightarrow> foldl min (min d y) ys \<le> x" by (rule Cons.IH) simp
    ultimately show ?case using Cons.prems by auto
  qed simp
qed

lemma next_deadline_candidates:
  "xi_initialized inst \<Longrightarrow> xgl_next_deadline_ms phys (Some inst) now = foldl min XGL_NO_DEADLINE_MS (candidates phys inst now)"
  by (simp add: xgl_next_deadline_ms_def collect_candidates candidates_def Let_def)

section \<open>Waiting\<close>

lemma delta_wait:
  assumes "k < deadline_delta_ms now s t" shows "now + k - s < t"
proof -
  have e: "now - s < t" "k < t - (now - s)" using assms by (auto simp: deadline_delta_ms_def Let_def not_le split: if_splits)
  have "unat (t - (now - s)) = unat t - unat (now - s)" using e(1) by (intro unat_sub) simp
  then have "unat (now - s) + unat k < unat t" using e by (simp add: word_less_nat_alt)
  moreover from this have "unat (now - s + k) = unat (now - s) + unat k"
    using unsigned_less [of t, where ?'a = nat] by (intro unat_add_lem [THEN iffD1]) simp
  moreover have "now + k - s = now - s + k" by simp
  ultimately show ?thesis by (simp only: word_less_nat_alt)
qed

lemma delta_reached: "t \<le> now + deadline_delta_ms now s t - s"
  by (simp add: deadline_delta_ms_def Let_def)

text \<open>A packet in flight that \<^verbatim>\<open>transport_update_peer_deadline\<close> takes into account, and the time it has left.\<close>

definition in_flight :: "xgl_reliable_packet \<Rightarrow> bool" where
  "in_flight p \<longleftrightarrow> rp_send_timestamp p \<noteq> 0 \<and> rp_timeout_ms p > 0"

definition abs_deadline :: "xgl_reliable_packet \<Rightarrow> u32" where
  "abs_deadline p = rp_send_timestamp p + word_of_int (rp_timeout_ms p)"

definition time_left :: "u32 \<Rightarrow> xgl_reliable_packet \<Rightarrow> int" where
  "time_left now p = rp_timeout_ms p - uint (now - rp_send_timestamp p)"

text \<open>Sent, and to be sent again, within 2^30 ms (12 days) of \<open>now\<close>, and not exactly when the clock wraps.\<close>

definition near :: "u32 \<Rightarrow> xgl_reliable_packet \<Rightarrow> bool" where
  "near now p \<longleftrightarrow> rp_timeout_ms p < 2 ^ 30 \<and> now - rp_send_timestamp p < 2 ^ 30 \<and> abs_deadline p \<noteq> 0"

lemma sint_word_of_int_small: "- (2 ^ 31) \<le> x \<Longrightarrow> x < 2 ^ 31 \<Longrightarrow> sint (word_of_int x :: u32) = x"
  by (simp add: sint_sbintrunc' signed_take_bit_int_eq_self)

lemma near_bounds:
  assumes "in_flight p" "near now p"
  shows "- (2 ^ 30) < time_left now p" "time_left now p < 2 ^ 30" "abs_deadline p - now = word_of_int (time_left now p)"
proof -
  have "uint (now - rp_send_timestamp p) < 2 ^ 30" using assms(2) by (simp add: near_def word_less_def)
  then show "- (2 ^ 30) < time_left now p" "time_left now p < 2 ^ 30"
    using assms uint_ge_0 [of "now - rp_send_timestamp p"] unfolding time_left_def in_flight_def near_def by linarith+
  show "abs_deadline p - now = word_of_int (time_left now p)" by (simp add: abs_deadline_def time_left_def)
qed

lemma near_compare:
  assumes "in_flight p" "near now p" "in_flight q" "near now q"
  shows "sint (abs_deadline p - abs_deadline q) = time_left now p - time_left now q"
proof -
  have "abs_deadline p - abs_deadline q = (abs_deadline p - now) - (abs_deadline q - now)" by simp
  also have "\<dots> = word_of_int (time_left now p - time_left now q)"
    using near_bounds(3) [OF assms(1,2)] near_bounds(3) [OF assms(3,4)] by simp
  finally show ?thesis
    using sint_word_of_int_small [of "time_left now p - time_left now q"] near_bounds [OF assms(1,2)] near_bounds [OF assms(3,4)] by simp
qed

text \<open>The loop of \<^verbatim>\<open>transport_update_peer_deadline\<close> finds the packet with the least time left.\<close>

definition earliest_of :: "u32 \<Rightarrow> xgl_reliable_packet list \<Rightarrow> u32 \<Rightarrow> bool" where
  "earliest_of now ps e \<longleftrightarrow> (if \<exists>p \<in> set ps. in_flight p
     then \<exists>q \<in> set ps. in_flight q \<and> e = abs_deadline q \<and> (\<forall>p \<in> set ps. in_flight p \<longrightarrow> time_left now q \<le> time_left now p) else e = 0)"

lemma earliest_fold:
  assumes "\<forall>p \<in> set ps. in_flight p \<longrightarrow> near now p"
  shows "earliest_of now ps (foldl earliest_deadline 0 ps)"
  using assms
proof (induction ps rule: rev_induct)
  case (snoc p ps)
  let ?e = "foldl earliest_deadline 0 ps"
  have IH: "earliest_of now ps ?e" using snoc by simp
  show ?case
  proof (cases "in_flight p")
    case False
    then have "earliest_deadline ?e p = ?e" by (auto simp: earliest_deadline_def in_flight_def)
    then show ?thesis using IH False by (auto simp: earliest_of_def)
  next
    case True
    have e: "earliest_deadline ?e p = (if ?e = 0 \<or> sint (abs_deadline p - ?e) < 0 then abs_deadline p else ?e)"
      using True by (simp add: earliest_deadline_def in_flight_def abs_deadline_def)
    show ?thesis
    proof (cases "\<exists>q \<in> set ps. in_flight q")
      case False
      then show ?thesis using IH True e by (auto simp: earliest_of_def)
    next
      case ex: True
      then obtain q where q: "q \<in> set ps" "in_flight q" "?e = abs_deadline q" "\<forall>p \<in> set ps. in_flight p \<longrightarrow> time_left now q \<le> time_left now p"
        using IH by (auto simp: earliest_of_def)
      have "near now p" "near now q" using snoc.prems q True by auto
      then have "?e \<noteq> 0" "sint (abs_deadline p - ?e) = time_left now p - time_left now q"
        using near_compare [OF True _ q(2)] q(3) by (simp_all add: near_def)
      then show ?thesis using e q True ex by (fastforce simp: earliest_of_def)
    qed
  qed
qed (simp add: earliest_of_def)

lemma packet_waits:
  assumes k: "k < (let remaining = e - now in if sint remaining \<le> 0 then 0 else remaining)"
    and e: "e = abs_deadline q" "in_flight q" "near now q" and p: "in_flight p" "near now p" "time_left now q \<le> time_left now p"
  shows "now + k - rp_send_timestamp p < word_of_int (rp_timeout_ms p)"
proof -
  have rem: "e - now = word_of_int (time_left now q)" using near_bounds(3) [OF e(2,3)] e(1) by simp
  have s: "sint (e - now) = time_left now q" using sint_word_of_int_small near_bounds [OF e(2,3)] by (simp add: rem)
  have pos: "0 < time_left now q" "k < e - now" using k s by (auto simp: Let_def split: if_splits)
  have u: "uint (e - now) = time_left now q"
    unfolding rem using pos(1) near_bounds(2) [OF e(2,3)] by (simp add: uint_word_of_int_eq take_bit_int_eq_self)
  let ?a = "now - rp_send_timestamp p"
  have lt: "uint ?a + uint k < rp_timeout_ms p" using pos(2) u p(3) by (simp add: word_less_def time_left_def)
  have t: "uint (word_of_int (rp_timeout_ms p) :: u32) = rp_timeout_ms p"
    using p(1,2) by (simp add: uint_word_of_int_eq take_bit_int_eq_self in_flight_def near_def)
  have "uint (?a + k) = uint ?a + uint k"
    using lt p(2) by (intro uint_add_lem [THEN iffD1]) (simp add: near_def)
  moreover have "now + k - rp_send_timestamp p = ?a + k" by simp
  ultimately show ?thesis using lt t by (simp only: word_less_def)
qed

section \<open>Nothing to do before the deadline\<close>

text \<open>
  What the deadlines rest on: the field of every peer is up to date, packets in flight have a timeout and are near, reassembly
  buffers have a timeout.
\<close>

definition timers_ok :: "u32 \<Rightarrow> xgl_transport_ctx \<Rightarrow> bool" where
  "timers_ok now tp \<longleftrightarrow>
     (\<forall>peer \<in> set (tc_peers tp). transport_update_peer_deadline peer = peer
        \<and> (\<forall>a \<in> set (rq_wait_ack_list (tp_reliable_queue peer)). let p = packet_at (tp_reliable_queue peer) a
             in rp_send_timestamp p \<noteq> 0 \<longrightarrow> rp_timeout_ms p > 0 \<and> near now p))
     \<and> (\<forall>m. tc_fragment_mgr tp = Some m \<longrightarrow> (\<forall>b \<in> set (fm_reassembly_list m). rb_timeout_ms b \<noteq> 0))"

lemma queue_quiet:
  assumes "\<forall>a \<in> set as. let p = packet_at (tp_reliable_queue (peer_at ctx i)) a
      in rp_send_timestamp p = 0 \<or> t - rp_send_timestamp p < word_of_int (rp_timeout_ms p)"
  shows "transport_process_retransmission_queue ctx w i t as n = (n, ctx, w)"
  using assms by (induction as) (auto simp: Let_def)

lemma retransmissions_quiet:
  assumes "\<forall>peer \<in> set (tc_peers ctx). transport_update_peer_deadline peer = peer \<and>
      (\<forall>a \<in> set (rq_wait_ack_list (tp_reliable_queue peer)). let p = packet_at (tp_reliable_queue peer) a
         in rp_send_timestamp p = 0 \<or> t - rp_send_timestamp p < word_of_int (rp_timeout_ms p))"
  shows "transport_process_retransmissions ctx w t = (0, ctx, w)"
proof -
  have "process_retransmissions_loop ctx w t is n = (n, ctx, w)" if "set is \<subseteq> {..<length (tc_peers ctx)}" for "is" n
    using that
  proof (induction "is" arbitrary: n)
    case (Cons i "is")
    then have "peer_at ctx i \<in> set (tc_peers ctx)" by simp
    then have "transport_process_retransmission_queue ctx w i t (rq_wait_ack_list (tp_reliable_queue (peer_at ctx i))) 0 = (0, ctx, w)"
        "peer_update i transport_update_peer_deadline ctx = ctx"
      using assms by (auto intro!: queue_quiet simp: peer_update_def)
    then show ?case using Cons by simp
  qed simp
  then show ?thesis by (simp add: transport_process_retransmissions_def subset_iff)
qed

lemma fragments_quiet:
  assumes "\<forall>b \<in> set (fm_reassembly_list m). rb_first_fragment_time b = 0 \<or> t - rb_first_fragment_time b < rb_timeout_ms b"
  shows "xgl_fragment_process_timeouts m t = (0, m)"
proof -
  have "fragment_drop_loop P bs m n = (n, bs, m)" if "\<forall>b \<in> set bs. \<not> P b" for P bs n
    using that by (induction bs arbitrary: n) simp_all
  then have "fragment_drop (\<lambda>b. rb_first_fragment_time b \<noteq> 0 \<and> t - rb_first_fragment_time b \<ge> rb_timeout_ms b) m = (0, m)"
    using assms by (fastforce simp: fragment_drop_def not_le)
  then show ?thesis by (simp add: xgl_fragment_process_timeouts_def)
qed

lemma transport_run_quiet:
  assumes "transport_process_retransmissions ctx w t = (0, ctx, w)"
    and "\<And>m. tc_fragment_mgr ctx = Some m \<Longrightarrow> xgl_fragment_process_timeouts m t = (0, m)"
  shows "xgl_transport_run ctx w t = (XGL_OK, snd (transport_reclaim_idle_peers ctx t), w)"
proof (cases "tc_fragment_mgr ctx")
  case (Some m)
  then have same: "ctx \<lparr> tc_fragment_mgr := Some m \<rparr> = ctx" by simp
  show ?thesis using assms Some by (simp add: xgl_transport_run_def same)
qed (use assms in \<open>simp add: xgl_transport_run_def\<close>)

lemma waiting_transport:
  assumes ok: "timers_ok now tp"
    and peers: "\<And>c. c \<in> set (peer_candidates tp now) \<Longrightarrow> k < c"
    and buffers: "\<And>c. c \<in> set (buffer_candidates (tc_fragment_mgr tp) now) \<Longrightarrow> k < c"
  shows "xgl_transport_run tp w (now + k) = (XGL_OK, snd (transport_reclaim_idle_peers tp (now + k)), w)"
proof (rule transport_run_quiet)
  show "xgl_fragment_process_timeouts m (now + k) = (0, m)" if m: "tc_fragment_mgr tp = Some m" for m
  proof (rule fragments_quiet, intro ballI)
    fix b assume b: "b \<in> set (fm_reassembly_list m)"
    then have "rb_timeout_ms b \<noteq> 0" using ok m by (auto simp: timers_ok_def)
    then show "rb_first_fragment_time b = 0 \<or> now + k - rb_first_fragment_time b < rb_timeout_ms b"
      using buffers b m delta_wait by (force simp: buffer_candidates_def)
  qed
  show "transport_process_retransmissions tp w (now + k) = (0, tp, w)"
  proof (rule retransmissions_quiet, intro ballI conjI)
    fix peer assume peer: "peer \<in> set (tc_peers tp)"
    then show "transport_update_peer_deadline peer = peer" using ok by (auto simp: timers_ok_def)
    then have e: "tp_earliest_deadline_ms peer = foldl earliest_deadline 0 (map (packet_at (tp_reliable_queue peer)) (rq_wait_ack_list (tp_reliable_queue peer)))"
      by (metis transport_update_peer_deadline_def xgl_transport_peer_state.select_convs(16) xgl_transport_peer_state.surjective xgl_transport_peer_state.update_convs(16))
    let ?ps = "map (packet_at (tp_reliable_queue peer)) (rq_wait_ack_list (tp_reliable_queue peer))"
    have near: "\<forall>p \<in> set ?ps. rp_send_timestamp p \<noteq> 0 \<longrightarrow> in_flight p \<and> near now p"
      using ok peer by (auto simp: timers_ok_def Let_def in_flight_def)
    then have first: "earliest_of now ?ps (tp_earliest_deadline_ms peer)" unfolding e by (intro earliest_fold) (auto simp: in_flight_def)
    fix a assume a: "a \<in> set (rq_wait_ack_list (tp_reliable_queue peer))"
    let ?p = "packet_at (tp_reliable_queue peer) a"
    show "let p = ?p in rp_send_timestamp p = 0 \<or> now + k - rp_send_timestamp p < word_of_int (rp_timeout_ms p)"
    proof (cases "rp_send_timestamp ?p = 0")
      case False
      then have p: "?p \<in> set ?ps" "in_flight ?p" "near now ?p" using near a by auto
      then obtain q where q: "q \<in> set ?ps" "in_flight q" "tp_earliest_deadline_ms peer = abs_deadline q" "time_left now q \<le> time_left now ?p"
        using first unfolding earliest_of_def by (metis (no_types, lifting))
      have nq: "near now q" using near q by (auto simp: in_flight_def)
      then have "tp_earliest_deadline_ms peer \<noteq> 0" using q(3) by (simp add: near_def)
      then have "k < (let remaining = tp_earliest_deadline_ms peer - now in if sint remaining \<le> 0 then 0 else remaining)"
        using peer by (intro peers) (auto simp: peer_candidates_def)
      from packet_waits [OF this q(3,2) nq p(2,3) q(4)] show ?thesis by simp
    qed (simp add: Let_def)
  qed
qed

section \<open>Polling\<close>

definition polled :: "(nat \<Rightarrow> xgl_phy_ops) \<Rightarrow> xgl_instance \<Rightarrow> u32 \<Rightarrow> u32 \<Rightarrow> nat \<Rightarrow> bool" where
  "polled phys inst t freq_hz i \<longleftrightarrow> route_has_rx phys (configured_route inst i) \<and> should_read inst t freq_hz i"

definition read_call :: "xgl_instance \<Rightarrow> u32 \<Rightarrow> nat \<Rightarrow> runtime_call" where
  "read_call inst t i = DatalinkReceive (the (ri_phy (configured_route inst i))) t XGL_DATALINK_RX_MAX_BYTES_PER_CALL"

definition mark_read :: "u32 \<Rightarrow> nat \<Rightarrow> xgl_instance \<Rightarrow> xgl_instance" where
  "mark_read t i inst = (if has_read_time inst i
     then inst \<lparr> xi_route_last_read_ms := map_option (\<lambda>l. l[i := t]) (xi_route_last_read_ms inst) \<rparr> else inst)"

lemma poll_route_polled:
  "poll_route phys t freq_hz (calls, inst) i =
     (if polled phys inst t freq_hz i then (calls @ [read_call inst t i], mark_read t i inst) else (calls, inst))"
  by (simp add: poll_route_def polled_def read_call_def mark_read_def Let_def)

lemma mark_read_other:
  "j \<noteq> i \<Longrightarrow> polled phys (mark_read t i inst) t' freq_hz j = polled phys inst t' freq_hz j"
  "read_call (mark_read t i inst) t' j = read_call inst t' j" "xi_config (mark_read t i inst) = xi_config inst"
  by (auto simp: mark_read_def polled_def read_call_def configured_route_def should_read_def has_read_time_def last_read_ms_def Let_def)

lemma poll_fold:
  assumes "distinct is"
  shows "fst (foldl (poll_route phys t freq_hz) (calls, inst) is) = calls @ map (read_call inst t) (filter (polled phys inst t freq_hz) is)"
  using assms
proof (induction "is" arbitrary: calls inst)
  case (Cons i "is")
  have "filter (polled phys (mark_read t i inst) t freq_hz) is = filter (polled phys inst t freq_hz) is"
    by (intro filter_cong refl mark_read_other(1)) (use Cons.prems in auto)
  moreover have "read_call (mark_read t i inst) t = read_call inst t" by (intro ext) (rule mark_read_other)
  ultimately show ?case using Cons by (simp add: poll_route_polled)
qed simp

lemma run_calls:
  assumes "xi_initialized inst"
  shows "fst (xgl_run phys (Some inst) t freq_hz) =
    map (read_call inst t) (filter (polled phys inst t freq_hz) [0..<cf_route_table_len (xi_config inst)]) @ [TransportRun t]"
proof -
  have "fst (xgl_run phys (Some inst) t freq_hz) = fst (foldl (poll_route phys t freq_hz) ([], inst) [0..<cf_route_table_len (xi_config inst)]) @ [TransportRun t]"
    using assms by (simp add: xgl_run_def case_prod_beta)
  then show ?thesis by (simp add: poll_fold)
qed

lemma route_waits:
  assumes "\<And>c. c \<in> set (route_candidates phys inst now) \<Longrightarrow> k < c" "i < cf_route_table_len (xi_config inst)"
    "ri_read_freq_hz (configured_route inst i) < freq_hz"
  shows "\<not> polled phys inst (now + k) freq_hz i"
proof
  assume p: "polled phys inst (now + k) freq_hz i"
  let ?c = "if ri_read_freq_hz (configured_route inst i) = 0 \<or> \<not> has_read_time inst i \<or> last_read_ms inst i = 0 then 0
      else deadline_delta_ms now (last_read_ms inst i) (read_interval (configured_route inst i))"
  have "?c \<in> set (route_candidates phys inst now)" using p assms(2) by (force simp: route_candidates_def polled_def)
  then have k: "k < ?c" by (rule assms(1))
  then have "now + k - last_read_ms inst i < read_interval (configured_route inst i)" by (intro delta_wait) (simp split: if_splits)
  moreover have "ri_read_freq_hz (configured_route inst i) \<noteq> 0" "has_read_time inst i" "last_read_ms inst i \<noteq> 0"
    using k by (auto split: if_splits)
  moreover have "freq_hz \<noteq> 0" using assms(3) by auto
  ultimately show False using p assms(3) by (auto simp: polled_def should_read_def Let_def word_gt_0)
qed

text \<open>At the deadline: what is due at time \<open>t\<close>.\<close>

definition work_due :: "(nat \<Rightarrow> xgl_phy_ops) \<Rightarrow> xgl_instance \<Rightarrow> xgl_transport_ctx \<Rightarrow> u32 \<Rightarrow> bool" where
  "work_due phys inst tp t \<longleftrightarrow>
     (\<exists>i < cf_route_table_len (xi_config inst). \<forall>freq_hz. polled phys inst t freq_hz i)
     \<or> (\<exists>peer \<in> set (tc_peers tp). tp_earliest_deadline_ms peer \<noteq> 0 \<and> sint (tp_earliest_deadline_ms peer - t) \<le> 0)
     \<or> (\<exists>m b. tc_fragment_mgr tp = Some m \<and> b \<in> set (fm_reassembly_list m) \<and> rb_first_fragment_time b \<noteq> 0
          \<and> rb_timeout_ms b \<le> t - rb_first_fragment_time b)"

lemma candidate_due:
  assumes "xi_transport_ctx inst = Some tp" "d \<in> set (candidates phys inst now)"
  shows "work_due phys inst tp (now + d)"
proof -
  consider (route) "d \<in> set (route_candidates phys inst now)" | (peer) "d \<in> set (peer_candidates tp now)"
    | (buffer) "d \<in> set (buffer_candidates (tc_fragment_mgr tp) now)"
    using assms by (auto simp: candidates_def)
  then show ?thesis
  proof cases
    case route
    then obtain i where i: "i < cf_route_table_len (xi_config inst)" "route_has_rx phys (configured_route inst i)"
      "d = (if ri_read_freq_hz (configured_route inst i) = 0 \<or> \<not> has_read_time inst i \<or> last_read_ms inst i = 0 then 0
        else deadline_delta_ms now (last_read_ms inst i) (read_interval (configured_route inst i)))"
      by (auto simp: route_candidates_def)
    have "polled phys inst (now + d) freq_hz i" for freq_hz
      using i(2,3) delta_reached [of "read_interval (configured_route inst i)" now "last_read_ms inst i"]
      by (auto simp: polled_def should_read_def Let_def not_less split: if_splits)
    then show ?thesis using i(1) by (auto simp: work_due_def)
  next
    case peer
    then obtain p where p: "p \<in> set (tc_peers tp)" "tp_earliest_deadline_ms p \<noteq> 0"
      "d = (let remaining = tp_earliest_deadline_ms p - now in if sint remaining \<le> 0 then 0 else remaining)"
      by (auto simp: peer_candidates_def)
    then have "sint (tp_earliest_deadline_ms p - (now + d)) \<le> 0" by (simp add: Let_def split: if_splits)
    then show ?thesis using p by (auto simp: work_due_def)
  next
    case buffer
    then obtain m b where "tc_fragment_mgr tp = Some m" "b \<in> set (fm_reassembly_list m)" "rb_first_fragment_time b \<noteq> 0"
      "d = deadline_delta_ms now (rb_first_fragment_time b) (rb_timeout_ms b)"
      by (cases "tc_fragment_mgr tp") (auto simp: buffer_candidates_def)
    then show ?thesis using delta_reached [of "rb_timeout_ms b" now "rb_first_fragment_time b"] by (auto simp: work_due_def)
  qed
qed


text \<open>An instance with one route, last read at time 5000, and a peer with a packet in flight since \<open>sent\<close> with a timeout of 200 ms.\<close>

definition sample_flight :: "u32 \<Rightarrow> xgl_reliable_packet" where
  "sample_flight sent = \<lparr> rp_data = [1, 2], rp_source_id = 1, rp_target_id = 9, rp_packet_number = 0, rp_session_id = 1, rp_connection_id = 0,
     rp_session_epoch = 0, rp_data_type = 5, rp_packet_type = 0, rp_flags = 0, rp_fragment = False, rp_priority = 0, rp_extensions = None,
     rp_retry_count = 0, rp_send_timestamp = sent, rp_timeout_ms = 200, rp_initial_timeout_ms = 200, rp_phy = Some 0 \<rparr>"

definition sample_peer :: "u32 \<Rightarrow> xgl_transport_peer_state" where
  "sample_peer sent = transport_update_peer_deadline
     \<lparr> tp_peer_id = 9, tp_has_connection_scope = False, tp_connection_id = 0, tp_session_epoch = 0, tp_session_id = 1, tp_hello_sent = True,
       tp_session_established = True, tp_tx_window = tc_window sample_transport,
       tp_reliable_queue = (xgl_reliable_init 5) \<lparr> rq_wait_ack_list := [0], rq_heap := [0 \<mapsto> sample_flight sent], rq_next_addr := 1 \<rparr>,
       tp_rtt_est = xgl_rtt_init, tp_last_active_ms = sent, tp_rx_next_packet_number = 0, tp_rx_has_packet_number_state = False,
       tp_rx_buffered = [], tp_rx_buffered_count = 0, tp_earliest_deadline_ms = 0 \<rparr>"

definition sample_instance :: "xgl_route_item list \<Rightarrow> u32 \<Rightarrow> xgl_instance" where
  "sample_instance routes sent =
     \<lparr> xi_config = XGL_CONFIG_PRESET_MEDIUM \<lparr> cf_route_table := Some routes, cf_route_table_len := length routes \<rparr>,
       xi_initialized = True, xi_tx_pool = zero_tiered_pool, xi_packet_pool = xgl_packet_pool_destroy, xi_route_table = zero_route_table,
       xi_route_last_read_ms = Some (replicate (length routes) 5000), xi_route_last_read_count = length routes,
       xi_datalink_ctx = None, xi_network_ctx = None, xi_transport_ctx = Some (sample_transport \<lparr> tc_peers := [sample_peer sent] \<rparr>),
       xi_stats = zero_statistics, xi_codec_registry = None, xi_mutex = False \<rparr>"

definition slow_route :: xgl_route_item where
  "slow_route = \<lparr> ri_target_id = 9, ri_phy = Some 0, ri_max_frame_size = 256, ri_read_freq_hz = 10, ri_metric = 0 \<rparr>"

lemma sample_peer_deadline: "tp_earliest_deadline_ms (sample_peer sent) = (if sent = 0 then 0 else sent + 200)"
  by (simp add: sample_peer_def transport_update_peer_deadline_def earliest_deadline_def sample_flight_def Let_def)

lemma sample_fragments: "tc_fragment_mgr sample_transport = None"
  by (simp add: sample_transport_def sample_config_def xgl_transport_init_def fresh_window_def xgl_window_init_with_allocator_def w_alloc_def
      take_alloc_def empty_world_def Let_def)

lemma sample_next_deadline:
  "xgl_next_deadline_ms (\<lambda>_. \<lparr> ph_tx = True, ph_rx = True \<rparr>) (Some (sample_instance [slow_route] 5000)) 5040 = 60"
  by (simp add: xgl_next_deadline_ms_def collect_route_deadlines_def collect_reliable_deadlines_def collect_reassembly_deadlines_def
      sample_instance_def preset_defs configured_route_def route_has_rx_def slow_route_def has_read_time_def last_read_ms_def read_interval_def
      deadline_take_min_def deadline_delta_ms_def sample_peer_deadline sample_fragments Let_def)


text \<open>
  The value 0 of \<^verbatim>\<open>earliest_deadline_ms\<close> means that nothing is in flight. A packet whose deadline falls exactly on the wrap of the clock
  is therefore never announced: 100 ms before it is due the application is told to sleep without limit.
\<close>

lemma deadline_lost_at_wrap:
  "xgl_next_deadline_ms phys (Some (sample_instance [] (- 200))) (- 100) = 0xFFFFFFFF"
  "in_flight (sample_flight (- 200))" "time_left (- 100) (sample_flight (- 200)) = 100"
  by (simp_all add: xgl_next_deadline_ms_def collect_route_deadlines_def collect_reliable_deadlines_def collect_reassembly_deadlines_def
      sample_instance_def preset_defs sample_peer_deadline sample_fragments in_flight_def sample_flight_def time_left_def)

end
