(* ===== verification/Xgl_Mutex.thy ===== *)
theory Xgl_Mutex
  imports Xgl_Prelude
begin

text \<open>
  The mutex of \<^verbatim>\<open>src/platform/xgl_mutex.c\<close> (its POSIX variant), the guard of \<^verbatim>\<open>src/platform/xgl_mutex_guard.c\<close>, and
  threads that share an object behind one mutex, the way the wrappers of \<^verbatim>\<open>xgl_mempool_ts.c\<close> and \<^verbatim>\<open>xgl_list_ts.c\<close> do.
  A \<^verbatim>\<open>pthread_mutex_t\<close> of type \<^verbatim>\<open>PTHREAD_MUTEX_RECURSIVE\<close> has an owner and counts how often the owner has locked it; a lock
  that would wait is \<open>None\<close>. Threads are numbered.

  A wrapper is either a return of a fixed value or a body run between lock and unlock, whose error codes it ignores. The
  step relation interleaves any number of threads: a thread reads the fields of the object, works, and later writes
  them back, so that two threads inside at once would lose updates. Shown: mutual exclusion, and with it that
  every interleaving is the sequential execution of the bodies in the order of their stores, each call taking effect once, between
  its call and its return, with the result it returns (\<open>reachable_linear\<close>); and that the threads never
  deadlock. Without an initialised mutex none of this holds (\<open>lost_without_init\<close> in \<open>Xgl_Thread_Safe\<close>).
\<close>

section \<open>The mutex\<close>

record xgl_mutex =
  mx_initialized :: bool
  mx_owner :: "nat option"              \<comment> \<open>the thread that holds the \<^verbatim>\<open>pthread_mutex_t\<close>\<close>
  mx_depth :: nat                       \<comment> \<open>how often it has locked it\<close>

text \<open>\<open>created\<close> is whether \<^verbatim>\<open>pthread_mutex_init\<close> succeeds.\<close>

definition xgl_mutex_init :: "bool \<Rightarrow> xgl_mutex option \<Rightarrow> xgl_error \<times> xgl_mutex option" where
  "xgl_mutex_init created mutex =
     (case mutex of
        None \<Rightarrow> (XGL_ERR_NULL_POINTER, None)
      | Some mx \<Rightarrow>
          if \<not> created then (XGL_ERR_NO_MEMORY, Some mx)
          else (XGL_OK, Some \<lparr> mx_initialized = True, mx_owner = None, mx_depth = 0 \<rparr>))"

definition xgl_mutex_lock :: "nat \<Rightarrow> xgl_mutex option \<Rightarrow> (xgl_error \<times> xgl_mutex option) option" where
  "xgl_mutex_lock t mutex =
     (case mutex of
        None \<Rightarrow> Some (XGL_ERR_NULL_POINTER, None)
      | Some mx \<Rightarrow>
          if \<not> mx_initialized mx then Some (XGL_ERR_NOT_INITIALIZED, Some mx)
          else if mx_owner mx = None then Some (XGL_OK, Some (mx \<lparr> mx_owner := Some t, mx_depth := 1 \<rparr>))
          else if mx_owner mx = Some t then Some (XGL_OK, Some (mx \<lparr> mx_depth := mx_depth mx + 1 \<rparr>))
          else None)"

definition xgl_mutex_trylock :: "nat \<Rightarrow> xgl_mutex option \<Rightarrow> xgl_error \<times> xgl_mutex option" where
  "xgl_mutex_trylock t mutex =
     (case mutex of
        None \<Rightarrow> (XGL_ERR_NULL_POINTER, None)
      | Some mx \<Rightarrow>
          if \<not> mx_initialized mx then (XGL_ERR_NOT_INITIALIZED, Some mx)
          else if mx_owner mx = None then (XGL_OK, Some (mx \<lparr> mx_owner := Some t, mx_depth := 1 \<rparr>))
          else if mx_owner mx = Some t then (XGL_OK, Some (mx \<lparr> mx_depth := mx_depth mx + 1 \<rparr>))
          else (XGL_ERR_BUSY, Some mx))"

definition xgl_mutex_unlock :: "nat \<Rightarrow> xgl_mutex option \<Rightarrow> xgl_error \<times> xgl_mutex option" where
  "xgl_mutex_unlock t mutex =
     (case mutex of
        None \<Rightarrow> (XGL_ERR_NULL_POINTER, None)
      | Some mx \<Rightarrow>
          if \<not> mx_initialized mx then (XGL_ERR_NOT_INITIALIZED, Some mx)
          else if mx_owner mx \<noteq> Some t then (XGL_ERR_BUSY, Some mx)
          else if mx_depth mx \<le> 1 then (XGL_OK, Some (mx \<lparr> mx_owner := None, mx_depth := 0 \<rparr>))
          else (XGL_OK, Some (mx \<lparr> mx_depth := mx_depth mx - 1 \<rparr>)))"

definition xgl_mutex_destroy :: "xgl_mutex option \<Rightarrow> xgl_mutex option" where
  "xgl_mutex_destroy mutex =
     (case mutex of
        None \<Rightarrow> None
      | Some mx \<Rightarrow> if \<not> mx_initialized mx then Some mx else Some (mx \<lparr> mx_initialized := False \<rparr>))"

text \<open>A guard keeps the pointer to its mutex; \<open>gd_mutex\<close> is whether that is not NULL.\<close>

record xgl_mutex_guard =
  gd_mutex :: bool
  gd_locked :: bool

definition xgl_mutex_guard_lock :: "nat \<Rightarrow> xgl_mutex option \<Rightarrow> (xgl_mutex_guard \<times> xgl_mutex option) option" where
  "xgl_mutex_guard_lock t mutex =
     (if mutex = None then Some (\<lparr> gd_mutex = False, gd_locked = False \<rparr>, None)
      else case xgl_mutex_lock t mutex of
             None \<Rightarrow> None
           | Some (err, mutex) \<Rightarrow> Some (\<lparr> gd_mutex = True, gd_locked = (err = XGL_OK) \<rparr>, mutex))"

definition xgl_mutex_guard_unlock :: "nat \<Rightarrow> xgl_mutex_guard option \<Rightarrow> xgl_mutex option \<Rightarrow> xgl_mutex_guard option \<times> xgl_mutex option" where
  "xgl_mutex_guard_unlock t guard mutex =
     (case guard of
        None \<Rightarrow> (None, mutex)
      | Some g \<Rightarrow>
          if gd_locked g \<and> gd_mutex g then (Some (g \<lparr> gd_locked := False \<rparr>), snd (xgl_mutex_unlock t mutex))
          else (Some g, mutex))"

section \<open>Properties of the mutex\<close>

definition mutex_free :: "xgl_mutex \<Rightarrow> bool" where
  "mutex_free mx \<longleftrightarrow> mx_initialized mx \<and> mx_owner mx = None \<and> mx_depth mx = 0"

definition mutex_held :: "nat \<Rightarrow> xgl_mutex \<Rightarrow> bool" where
  "mutex_held t mx \<longleftrightarrow> mx_initialized mx \<and> mx_owner mx = Some t \<and> 0 < mx_depth mx"

lemmas mutex_defs = xgl_mutex_lock_def xgl_mutex_unlock_def xgl_mutex_trylock_def mutex_free_def mutex_held_def

lemma mutex_init_free: "xgl_mutex_init created mutex = (XGL_OK, mutex') \<Longrightarrow> \<exists>mx. mutex' = Some mx \<and> mutex_free mx"
  by (auto simp: xgl_mutex_init_def mutex_free_def split: option.splits if_splits)

lemma lock_free: "mutex_free mx \<Longrightarrow> \<exists>mx'. xgl_mutex_lock t (Some mx) = Some (XGL_OK, Some mx') \<and> mutex_held t mx' \<and> mx_depth mx' = 1"
  by (simp add: mutex_defs)

text \<open>A lock that returns has been given to its thread, and waits exactly when another thread holds the mutex.\<close>

lemma lock_cases:
  assumes "mx_initialized mx" "xgl_mutex_lock t (Some mx) = Some (err, mutex')"
  shows "err = XGL_OK" "mx_owner mx = None \<or> mx_owner mx = Some t"
    "\<exists>mx'. mutex' = Some mx' \<and> mx_initialized mx' \<and> mx_owner mx' = Some t \<and> mx_depth mx' = (if mx_owner mx = None then 1 else mx_depth mx + 1)"
  using assms by (auto simp: xgl_mutex_lock_def split: if_splits)

lemma lock_waits: "mx_initialized mx \<Longrightarrow> xgl_mutex_lock t (Some mx) = None \<longleftrightarrow> (\<exists>u. mx_owner mx = Some u \<and> u \<noteq> t)"
  by (auto simp: xgl_mutex_lock_def)

lemma trylock_lock:
  "xgl_mutex_trylock t mutex = (case xgl_mutex_lock t mutex of None \<Rightarrow> (XGL_ERR_BUSY, mutex) | Some r \<Rightarrow> r)"
  by (simp add: xgl_mutex_trylock_def xgl_mutex_lock_def split: option.split)

lemma unlock_held:
  assumes "mutex_held t mx" "mx_depth mx = 1"
  shows "\<exists>mx'. xgl_mutex_unlock t (Some mx) = (XGL_OK, Some mx') \<and> mutex_free mx'"
  using assms by (simp add: mutex_defs)

lemma unlock_foreign: "mx_initialized mx \<Longrightarrow> mx_owner mx \<noteq> Some t \<Longrightarrow> xgl_mutex_unlock t (Some mx) = (XGL_ERR_BUSY, Some mx)"
  by (simp add: xgl_mutex_unlock_def)

text \<open>The recursive lock: locking and unlocking in the same thread restores the mutex.\<close>

lemma unlock_lock:
  assumes "mutex_free mx \<or> mutex_held t mx" "xgl_mutex_lock t (Some mx) = Some (err, mutex')"
  shows "xgl_mutex_unlock t mutex' = (XGL_OK, Some mx)"
  using assms by (auto simp: mutex_defs split: if_splits)

lemma guard_unlock_lock:
  assumes "\<And>mx. mutex = Some mx \<Longrightarrow> mx_initialized mx \<Longrightarrow> mutex_free mx \<or> mutex_held t mx" "xgl_mutex_guard_lock t mutex = Some (guard, mutex')"
  shows "snd (xgl_mutex_guard_unlock t (Some guard) mutex') = mutex"
    "\<exists>g. fst (xgl_mutex_guard_unlock t (Some guard) mutex') = Some g \<and> \<not> gd_locked g"
proof -
  show "snd (xgl_mutex_guard_unlock t (Some guard) mutex') = mutex"
  proof (cases mutex)
    case (Some mx)
    show ?thesis
    proof (cases "mx_initialized mx")
      case True
      obtain err where l: "xgl_mutex_lock t mutex = Some (err, mutex')" "guard = \<lparr> gd_mutex = True, gd_locked = (err = XGL_OK) \<rparr>"
        using assms(2) Some by (auto simp: xgl_mutex_guard_lock_def split: option.splits)
      then have "err = XGL_OK" using lock_cases(1) [OF True] Some by blast
      then show ?thesis using l unlock_lock [of mx t err mutex'] assms(1) [OF Some True] Some by (simp add: xgl_mutex_guard_unlock_def)
    qed (use assms(2) Some in \<open>auto simp: xgl_mutex_guard_lock_def xgl_mutex_lock_def xgl_mutex_guard_unlock_def\<close>)
  qed (use assms(2) in \<open>auto simp: xgl_mutex_guard_lock_def xgl_mutex_guard_unlock_def\<close>)
  show "\<exists>g. fst (xgl_mutex_guard_unlock t (Some guard) mutex') = Some g \<and> \<not> gd_locked g"
    using assms(2) by (auto simp: xgl_mutex_guard_lock_def xgl_mutex_guard_unlock_def split: if_splits option.splits)
qed

section \<open>Threads around a mutex\<close>

text \<open>
  The code of a wrapper, after its checks: a value to return at once, or a body that works on the fields of the object (\<open>'h\<close>)
  and on the memory behind it (\<open>'m\<close>).
\<close>

datatype ('h, 'm, 'r) ts_code =
    Return 'r
  | Locked "'h \<Rightarrow> 'm \<Rightarrow> 'r \<times> 'h \<times> 'm"

datatype ('c, 'h, 'r) ts_pc =
    Idle
  | Calling 'c                          \<comment> \<open>called, before the lock\<close>
  | Entered 'c                          \<comment> \<open>the lock has returned\<close>
  | Loaded 'c 'h                        \<comment> \<open>the fields have been read\<close>
  | Leaving 'r                          \<comment> \<open>the fields have been written, before the unlock\<close>

datatype ('c, 'r, 'w) ts_event =
    Invoked nat 'c
  | Committed nat 'c 'r
  | Returned nat 'r
  | Wrote 'w                            \<comment> \<open>a write of a client to its own memory\<close>

record ('c, 'h, 'm, 'r, 'w) ts_state =
  ts_mutex :: xgl_mutex
  ts_fields :: 'h
  ts_memory :: 'm
  ts_pcs :: "nat \<Rightarrow> ('c, 'h, 'r) ts_pc"
  ts_log :: "('c, 'r, 'w) ts_event list"

text \<open>One step of a thread that is inside a call.\<close>

inductive thread_step :: "('c \<Rightarrow> ('h, 'm, 'r) ts_code) \<Rightarrow> nat \<Rightarrow> ('c, 'h, 'm, 'r, 'w) ts_state \<Rightarrow> ('c, 'h, 'm, 'r, 'w) ts_state \<Rightarrow> bool"
  for code :: "'c \<Rightarrow> ('h, 'm, 'r) ts_code" where
  step_early: "ts_pcs s t = Calling c \<Longrightarrow> code c = Return r \<Longrightarrow>
    thread_step code t s (s \<lparr> ts_pcs := (ts_pcs s)(t := Idle), ts_log := ts_log s @ [Returned t r] \<rparr>)"
| step_lock: "ts_pcs s t = Calling c \<Longrightarrow> code c = Locked f \<Longrightarrow> xgl_mutex_lock t (Some (ts_mutex s)) = Some (err, Some mx) \<Longrightarrow>
    thread_step code t s (s \<lparr> ts_pcs := (ts_pcs s)(t := Entered c), ts_mutex := mx \<rparr>)"
| step_load: "ts_pcs s t = Entered c \<Longrightarrow>
    thread_step code t s (s \<lparr> ts_pcs := (ts_pcs s)(t := Loaded c (ts_fields s)) \<rparr>)"
| step_store: "ts_pcs s t = Loaded c h \<Longrightarrow> code c = Locked f \<Longrightarrow> f h (ts_memory s) = (r, h', m') \<Longrightarrow>
    thread_step code t s (s \<lparr> ts_pcs := (ts_pcs s)(t := Leaving r), ts_fields := h', ts_memory := m', ts_log := ts_log s @ [Committed t c r] \<rparr>)"
| step_unlock: "ts_pcs s t = Leaving r \<Longrightarrow> xgl_mutex_unlock t (Some (ts_mutex s)) = (err, Some mx) \<Longrightarrow>
    thread_step code t s (s \<lparr> ts_pcs := (ts_pcs s)(t := Idle), ts_mutex := mx, ts_log := ts_log s @ [Returned t r] \<rparr>)"

inductive ts_reach ::
  "('c \<Rightarrow> ('h, 'm, 'r) ts_code) \<Rightarrow> ('m \<Rightarrow> 'w \<Rightarrow> 'm) \<Rightarrow> ('c, 'h, 'm, 'r, 'w) ts_state \<Rightarrow> ('c, 'h, 'm, 'r, 'w) ts_state \<Rightarrow> bool"
  for code :: "'c \<Rightarrow> ('h, 'm, 'r) ts_code" and client :: "'m \<Rightarrow> 'w \<Rightarrow> 'm" and s0 where
  reach_start: "ts_reach code client s0 s0"
| reach_call: "ts_reach code client s0 s \<Longrightarrow> ts_pcs s t = Idle \<Longrightarrow>
    ts_reach code client s0 (s \<lparr> ts_pcs := (ts_pcs s)(t := Calling c), ts_log := ts_log s @ [Invoked t c] \<rparr>)"
| reach_step: "ts_reach code client s0 s \<Longrightarrow> thread_step code t s s' \<Longrightarrow> ts_reach code client s0 s'"
| reach_write: "ts_reach code client s0 s \<Longrightarrow>
    ts_reach code client s0 (s \<lparr> ts_memory := client (ts_memory s) w, ts_log := ts_log s @ [Wrote w] \<rparr>)"

definition ts_start :: "xgl_mutex \<Rightarrow> 'h \<Rightarrow> 'm \<Rightarrow> ('c, 'h, 'm, 'r, 'w) ts_state" where
  "ts_start mx h m = \<lparr> ts_mutex = mx, ts_fields = h, ts_memory = m, ts_pcs = (\<lambda>_. Idle), ts_log = [] \<rparr>"

section \<open>What an execution amounts to\<close>

text \<open>The sequential execution: the bodies of the committed calls and the writes of the clients, one after the other.\<close>

fun seq_step :: "('c \<Rightarrow> ('h, 'm, 'r) ts_code) \<Rightarrow> ('m \<Rightarrow> 'w \<Rightarrow> 'm) \<Rightarrow> 'h \<times> 'm \<Rightarrow> ('c, 'r, 'w) ts_event \<Rightarrow> 'h \<times> 'm" where
  "seq_step code client (h, m) (Committed t c r) = (case code c of Return _ \<Rightarrow> (h, m) | Locked f \<Rightarrow> snd (f h m))"
| "seq_step code client (h, m) (Wrote w) = (h, client m w)"
| "seq_step code client (h, m) _ = (h, m)"

text \<open>Whether every committed call returns what it returns in the sequential execution.\<close>

fun seq_results :: "('c \<Rightarrow> ('h, 'm, 'r) ts_code) \<Rightarrow> ('m \<Rightarrow> 'w \<Rightarrow> 'm) \<Rightarrow> 'h \<times> 'm \<Rightarrow> ('c, 'r, 'w) ts_event list \<Rightarrow> bool" where
  "seq_results code client hm [] \<longleftrightarrow> True"
| "seq_results code client hm (e # es) \<longleftrightarrow>
     (case e of Committed t c r \<Rightarrow> (case code c of Return _ \<Rightarrow> False | Locked f \<Rightarrow> r = fst (f (fst hm) (snd hm))) | _ \<Rightarrow> True)
     \<and> seq_results code client (seq_step code client hm e) es"

text \<open>
  What one thread sees of a log: calls, each with at most one commit, and a return of what was committed. \<open>None\<close> is a
  log that a sequential thread cannot have.
\<close>

datatype ('c, 'r) ts_phase = Outside | Pending 'c | Finished 'r

fun phase_step :: "('c \<Rightarrow> ('h, 'm, 'r) ts_code) \<Rightarrow> nat \<Rightarrow> ('c, 'r) ts_phase option \<Rightarrow> ('c, 'r, 'w) ts_event \<Rightarrow> ('c, 'r) ts_phase option" where
  "phase_step code t (Some Outside) (Invoked u c) = Some (if u = t then Pending c else Outside)"
| "phase_step code t (Some p) (Invoked u c) = (if u = t then None else Some p)"
| "phase_step code t (Some (Pending c)) (Committed u c' r) =
     (if u \<noteq> t then Some (Pending c) else case code c of Return _ \<Rightarrow> None | Locked f \<Rightarrow> if c' = c then Some (Finished r) else None)"
| "phase_step code t (Some p) (Committed u c' r) = (if u = t then None else Some p)"
| "phase_step code t (Some (Finished r)) (Returned u r') = (if u \<noteq> t then Some (Finished r) else if r' = r then Some Outside else None)"
| "phase_step code t (Some (Pending c)) (Returned u r') =
     (if u \<noteq> t then Some (Pending c) else case code c of Return r \<Rightarrow> if r' = r then Some Outside else None | Locked f \<Rightarrow> None)"
| "phase_step code t (Some Outside) (Returned u r') = (if u = t then None else Some Outside)"
| "phase_step code t (Some p) (Wrote w) = Some p"
| "phase_step code t None e = None"

definition proper_log :: "('c \<Rightarrow> ('h, 'm, 'r) ts_code) \<Rightarrow> ('c, 'r, 'w) ts_event list \<Rightarrow> bool" where
  "proper_log code log \<longleftrightarrow> (\<forall>t. foldl (phase_step code t) (Some Outside) log \<noteq> None)"

section \<open>Mutual exclusion\<close>

fun pc_phase :: "('c, 'h, 'r) ts_pc \<Rightarrow> ('c, 'r) ts_phase" where
  "pc_phase Idle = Outside"
| "pc_phase (Calling c) = Pending c"
| "pc_phase (Entered c) = Pending c"
| "pc_phase (Loaded c h) = Pending c"
| "pc_phase (Leaving r) = Finished r"

fun critical :: "('c, 'h, 'r) ts_pc \<Rightarrow> bool" where
  "critical (Entered c) \<longleftrightarrow> True"
| "critical (Loaded c h) \<longleftrightarrow> True"
| "critical (Leaving r) \<longleftrightarrow> True"
| "critical _ \<longleftrightarrow> False"

text \<open>At most the owner of the mutex is inside, and what it has read of the fields is still there.\<close>

fun pc_ok :: "('c \<Rightarrow> ('h, 'm, 'r) ts_code) \<Rightarrow> 'h \<Rightarrow> ('c, 'h, 'r) ts_pc \<Rightarrow> bool" where
  "pc_ok code h (Entered c) \<longleftrightarrow> (\<exists>f. code c = Locked f)"
| "pc_ok code h (Loaded c h') \<longleftrightarrow> (\<exists>f. code c = Locked f) \<and> h' = h"
| "pc_ok code h _ \<longleftrightarrow> True"

definition exclusive :: "('c \<Rightarrow> ('h, 'm, 'r) ts_code) \<Rightarrow> ('c, 'h, 'm, 'r, 'w) ts_state \<Rightarrow> bool" where
  "exclusive code s \<longleftrightarrow> mx_initialized (ts_mutex s)
     \<and> mx_depth (ts_mutex s) = (if mx_owner (ts_mutex s) = None then 0 else 1)
     \<and> (\<forall>t. critical (ts_pcs s t) \<longleftrightarrow> mx_owner (ts_mutex s) = Some t)
     \<and> (\<forall>t. pc_ok code (ts_fields s) (ts_pcs s t))"

definition linear :: "('c \<Rightarrow> ('h, 'm, 'r) ts_code) \<Rightarrow> ('m \<Rightarrow> 'w \<Rightarrow> 'm) \<Rightarrow> 'h \<times> 'm \<Rightarrow> ('c, 'h, 'm, 'r, 'w) ts_state \<Rightarrow> bool" where
  "linear code client hm s \<longleftrightarrow>
     (ts_fields s, ts_memory s) = foldl (seq_step code client) hm (ts_log s) \<and> seq_results code client hm (ts_log s)
     \<and> (\<forall>t. foldl (phase_step code t) (Some Outside) (ts_log s) = Some (pc_phase (ts_pcs s t)))"

lemma exclusiveI:
  assumes "mx_initialized (ts_mutex s)" "mx_depth (ts_mutex s) = (if mx_owner (ts_mutex s) = None then 0 else 1)"
    "\<And>t. critical (ts_pcs s t) \<longleftrightarrow> mx_owner (ts_mutex s) = Some t" "\<And>t. pc_ok code (ts_fields s) (ts_pcs s t)"
  shows "exclusive code s"
  using assms by (simp add: exclusive_def)

lemma exclusiveD:
  assumes "exclusive code s"
  shows "mx_initialized (ts_mutex s)" "mx_depth (ts_mutex s) = (if mx_owner (ts_mutex s) = None then 0 else 1)"
    "critical (ts_pcs s t) \<longleftrightarrow> mx_owner (ts_mutex s) = Some t" "pc_ok code (ts_fields s) (ts_pcs s t)"
  using assms by (simp_all add: exclusive_def)

lemma critical_held:
  assumes "exclusive code s" "critical (ts_pcs s t)"
  shows "mutex_held t (ts_mutex s)" "mx_depth (ts_mutex s) = 1" "critical (ts_pcs s u) \<longleftrightarrow> u = t"
  using exclusiveD [OF assms(1)] assms(2) by (auto simp: mutex_held_def)

lemma exclusive_step:
  assumes "exclusive code s" "thread_step code t s s'"
  shows "exclusive code s'"
  using assms(2)
proof cases
  case (step_early c r)
  then show ?thesis using exclusiveD [OF assms(1)] exclusiveD(3) [OF assms(1), of t] by (intro exclusiveI) (simp_all add: step_early(1))
next
  case (step_lock c f err mx)
  note e = exclusiveD [OF assms(1)] and l = lock_cases [OF exclusiveD(1) [OF assms(1)] step_lock(4)]
  have free: "mx_owner (ts_mutex s) = None" using l(2) e(3) [of t] step_lock(2) by auto
  then have "mx_initialized mx" "mx_owner mx = Some t" "mx_depth mx = 1" using l(3) by auto
  then show ?thesis using e free step_lock(2,3) by (intro exclusiveI) (auto simp: step_lock(1))
next
  case (step_load c)
  note e = exclusiveD [OF assms(1)]
  show ?thesis using e e(3) [of t] e(4) [of t] step_load(2) by (intro exclusiveI) (simp_all add: step_load(1))
next
  case (step_store c h f r h' m')
  note e = exclusiveD [OF assms(1)] and own = critical_held [OF assms(1), of t]
  have other: "pc_ok code h' (ts_pcs s u)" if "u \<noteq> t" for u using own(3) [of u] that step_store(2) by (cases "ts_pcs s u") simp_all
  show ?thesis using e e(3) [of t] step_store(2) other by (intro exclusiveI) (simp_all add: step_store(1))
next
  case (step_unlock r err mx)
  note e = exclusiveD [OF assms(1)] and own = critical_held [OF assms(1), of t]
  have "mutex_held t (ts_mutex s)" "mx_depth (ts_mutex s) = 1" using own step_unlock(2) by simp_all
  then have "mutex_free mx" using unlock_held step_unlock(3) by fastforce
  then show ?thesis using e own(3) step_unlock(2) by (intro exclusiveI) (simp_all add: step_unlock(1) mutex_free_def)
qed

lemma reachable_exclusive:
  assumes "ts_reach code client (ts_start mx h m) s" "mutex_free mx"
  shows "exclusive code s"
  using assms
proof (induction rule: ts_reach.induct)
  case reach_start
  then show ?case by (simp add: exclusive_def ts_start_def mutex_free_def)
next
  case (reach_call s t c)
  then have e: "exclusive code s" by blast
  show ?case using exclusiveD [OF e] exclusiveD(3) [OF e, of t] reach_call(2) by (intro exclusiveI) simp_all
next
  case (reach_step s t s')
  then show ?case using exclusive_step by blast
next
  case (reach_write s w)
  then show ?case by (simp add: exclusive_def)
qed

section \<open>Linearization\<close>

lemma seq_results_append [simp]:
  "seq_results code client hm (es @ fs) \<longleftrightarrow> seq_results code client hm es \<and> seq_results code client (foldl (seq_step code client) hm es) fs"
  by (induction es arbitrary: hm) auto

lemma phase_other:
  assumes "u \<noteq> t"
  shows "phase_step code t (Some p) (Invoked u c) = Some p" "phase_step code t (Some p) (Committed u c r) = Some p"
    "phase_step code t (Some p) (Returned u r) = Some p"
  using assms by (cases p; simp)+

lemma linear_step:
  assumes "exclusive code s" "linear code client hm s" "thread_step code t s s'"
  shows "linear code client hm s'"
  using assms(3)
proof cases
  case (step_early c r)
  then show ?thesis using assms(2) by (auto simp: linear_def phase_other) (metis seq_step.simps(4))+
next
  case (step_lock c f err mx)
  then show ?thesis using assms(2) by (auto simp: linear_def)
next
  case (step_load c)
  then show ?thesis using assms(2) by (auto simp: linear_def)
next
  case (step_store c h f r h' m')
  have "pc_ok code (ts_fields s) (ts_pcs s t)" using assms(1) by (simp add: exclusive_def)
  then have "h = ts_fields s" using step_store by simp
  moreover have "foldl (seq_step code client) hm (ts_log s) = (ts_fields s, ts_memory s)" using assms(2) by (simp add: linear_def)
  ultimately show ?thesis using assms(2) step_store by (auto simp: linear_def phase_other)
next
  case (step_unlock r err mx)
  then show ?thesis using assms(2) by (auto simp: linear_def phase_other) (metis seq_step.simps(4))+
qed

lemma reachable_linear:
  assumes "ts_reach code client (ts_start mx h m) s" "mutex_free mx"
  shows "linear code client (h, m) s"
  using assms
proof (induction rule: ts_reach.induct)
  case reach_start
  then show ?case by (simp add: linear_def ts_start_def)
next
  case (reach_call s t c)
  then have "foldl (seq_step code client) (h, m) (ts_log s) = (ts_fields s, ts_memory s)" by (simp add: linear_def)
  then show ?case using reach_call by (auto simp: linear_def phase_other)
next
  case (reach_step s t s')
  then show ?case using linear_step [OF reachable_exclusive [OF reach_step(1)]] by blast
next
  case (reach_write s w)
  then have "foldl (seq_step code client) (h, m) (ts_log s) = (ts_fields s, ts_memory s)" by (simp add: linear_def)
  then show ?case using reach_write by (auto simp: linear_def)
qed

lemma linear_proper: "linear code client hm s \<Longrightarrow> proper_log code (ts_log s)"
  by (simp add: linear_def proper_log_def)

section \<open>Progress\<close>

text \<open>
  Some thread can always take a step as long as one is inside a call, and a call has at most five steps of its own; so no
  wrapper hangs as long as every thread gets its turn.
\<close>

fun pc_steps :: "('c, 'h, 'r) ts_pc \<Rightarrow> nat" where
  "pc_steps Idle = 0"
| "pc_steps (Calling c) = 4"
| "pc_steps (Entered c) = 3"
| "pc_steps (Loaded c h) = 2"
| "pc_steps (Leaving r) = 1"

lemma thread_step_shrinks:
  assumes "thread_step code t s s'"
  shows "pc_steps (ts_pcs s' t) < pc_steps (ts_pcs s t)" "u \<noteq> t \<Longrightarrow> ts_pcs s' u = ts_pcs s u"
  using assms by (cases; simp)+

lemma critical_steps:
  assumes "exclusive code s" "critical (ts_pcs s t)"
  shows "\<exists>s'. thread_step code t s s'"
proof (cases "ts_pcs s t")
  case (Entered c)
  then show ?thesis using thread_step.step_load [of s t c code] by blast
next
  case (Loaded c h)
  then obtain f where f: "code c = Locked f" using exclusiveD(4) [OF assms(1), of t] by auto
  obtain r h' m' where "f h (ts_memory s) = (r, h', m')" by (cases "f h (ts_memory s)")
  then show ?thesis using thread_step.step_store [of s t c h code f, OF Loaded f] by blast
next
  case (Leaving r)
  obtain mx where "xgl_mutex_unlock t (Some (ts_mutex s)) = (XGL_OK, Some mx)" using unlock_held [OF critical_held(1,2) [OF assms]] by blast
  then show ?thesis using thread_step.step_unlock [of s t r, OF Leaving] by blast
qed (use assms(2) in simp_all)

lemma threads_progress:
  assumes "exclusive code s" "ts_pcs s t \<noteq> Idle"
  shows "\<exists>u s'. thread_step code u s s'"
proof (cases "\<exists>u. critical (ts_pcs s u)")
  case True
  then show ?thesis using critical_steps [OF assms(1)] by blast
next
  case False
  then have "mx_owner (ts_mutex s) = None" using exclusiveD(3) [OF assms(1)] by fastforce
  then have free: "mutex_free (ts_mutex s)" using exclusiveD(1,2) [OF assms(1)] by (simp add: mutex_free_def)
  obtain c where c: "ts_pcs s t = Calling c" using False assms(2) by (cases "ts_pcs s t") (auto dest!: spec [of _ t])
  show ?thesis
  proof (cases "code c")
    case (Return r)
    then show ?thesis using thread_step.step_early [of s t c code, OF c] by blast
  next
    case (Locked f)
    obtain mx where "xgl_mutex_lock t (Some (ts_mutex s)) = Some (XGL_OK, Some mx)" using lock_free [OF free] by blast
    then show ?thesis using thread_step.step_lock [of s t c code f, OF c Locked] by blast
  qed
qed

section \<open>Schedules\<close>

text \<open>A schedule says who takes the next step; it can be executed, and what it reaches is reachable.\<close>

datatype ('c, 'w) ts_action =
    Call nat 'c
  | Step nat
  | Write 'w

fun ts_exec :: "('c \<Rightarrow> ('h, 'm, 'r) ts_code) \<Rightarrow> ('m \<Rightarrow> 'w \<Rightarrow> 'm) \<Rightarrow> ('c, 'h, 'm, 'r, 'w) ts_state \<Rightarrow> ('c, 'w) ts_action \<Rightarrow>
    ('c, 'h, 'm, 'r, 'w) ts_state option" where
  "ts_exec code client s (Call t c) =
     (case ts_pcs s t of Idle \<Rightarrow> Some (s \<lparr> ts_pcs := (ts_pcs s)(t := Calling c), ts_log := ts_log s @ [Invoked t c] \<rparr>) | _ \<Rightarrow> None)"
| "ts_exec code client s (Write w) = Some (s \<lparr> ts_memory := client (ts_memory s) w, ts_log := ts_log s @ [Wrote w] \<rparr>)"
| "ts_exec code client s (Step t) =
     (case ts_pcs s t of
        Idle \<Rightarrow> None
      | Calling c \<Rightarrow>
          (case code c of
             Return r \<Rightarrow> Some (s \<lparr> ts_pcs := (ts_pcs s)(t := Idle), ts_log := ts_log s @ [Returned t r] \<rparr>)
           | Locked f \<Rightarrow>
               (case xgl_mutex_lock t (Some (ts_mutex s)) of
                  Some (err, Some mx) \<Rightarrow> Some (s \<lparr> ts_pcs := (ts_pcs s)(t := Entered c), ts_mutex := mx \<rparr>)
                | _ \<Rightarrow> None))
      | Entered c \<Rightarrow> Some (s \<lparr> ts_pcs := (ts_pcs s)(t := Loaded c (ts_fields s)) \<rparr>)
      | Loaded c h \<Rightarrow>
          (case code c of
             Return r \<Rightarrow> None
           | Locked f \<Rightarrow>
               (case f h (ts_memory s) of
                  (r, h', m') \<Rightarrow> Some (s \<lparr> ts_pcs := (ts_pcs s)(t := Leaving r), ts_fields := h', ts_memory := m',
                                         ts_log := ts_log s @ [Committed t c r] \<rparr>)))
      | Leaving r \<Rightarrow>
          (case xgl_mutex_unlock t (Some (ts_mutex s)) of
             (err, Some mx) \<Rightarrow> Some (s \<lparr> ts_pcs := (ts_pcs s)(t := Idle), ts_mutex := mx, ts_log := ts_log s @ [Returned t r] \<rparr>)
           | _ \<Rightarrow> None))"

lemma exec_thread_step:
  assumes "ts_exec code client s (Step t) = Some s'"
  shows "thread_step code t s s'"
proof (cases "ts_pcs s t")
  case (Calling c)
  then show ?thesis using assms by (auto split: ts_code.splits option.splits prod.splits intro: thread_step.intros)
next
  case (Loaded c h)
  then show ?thesis using assms by (auto split: ts_code.splits prod.splits intro: thread_step.intros)
next
  case (Leaving r)
  then show ?thesis using assms by (auto split: option.splits prod.splits intro: thread_step.intros)
qed (use assms in \<open>auto intro: thread_step.intros\<close>)

lemma exec_reach:
  assumes "ts_reach code client s0 s" "ts_exec code client s a = Some s'"
  shows "ts_reach code client s0 s'"
proof (cases a)
  case (Call t c)
  then show ?thesis using assms ts_reach.reach_call [OF assms(1)] by (auto split: ts_pc.splits)
next
  case (Step t)
  then show ?thesis using assms ts_reach.reach_step [OF assms(1)] exec_thread_step by blast
next
  case (Write w)
  then show ?thesis using assms ts_reach.reach_write [OF assms(1)] by auto
qed

fun ts_execs :: "('c \<Rightarrow> ('h, 'm, 'r) ts_code) \<Rightarrow> ('m \<Rightarrow> 'w \<Rightarrow> 'm) \<Rightarrow> ('c, 'h, 'm, 'r, 'w) ts_state \<Rightarrow> ('c, 'w) ts_action list \<Rightarrow>
    ('c, 'h, 'm, 'r, 'w) ts_state option" where
  "ts_execs code client s [] = Some s"
| "ts_execs code client s (a # as) = (case ts_exec code client s a of None \<Rightarrow> None | Some s' \<Rightarrow> ts_execs code client s' as)"

lemma execs_reach_from:
  "ts_reach code client s0 s \<Longrightarrow> ts_execs code client s as = Some s' \<Longrightarrow> ts_reach code client s0 s'"
  by (induction as arbitrary: s) (auto split: option.splits intro: exec_reach)

lemmas execs_reach = execs_reach_from [OF ts_reach.reach_start]

section \<open>Objects behind a mutex\<close>

text \<open>
  An object whose bodies keep an invariant, and whose clients do. The invariant then holds in every state in which no
  thread is inside, and always of the fields and the memory: the bodies are atomic.
\<close>

locale locked_object =
  fixes code :: "'c \<Rightarrow> ('h, 'm, 'r) ts_code"
    and client :: "'m \<Rightarrow> 'w \<Rightarrow> 'm"
    and object_inv :: "'h \<Rightarrow> 'm \<Rightarrow> bool"
  assumes body_inv: "code c = Locked f \<Longrightarrow> object_inv h m \<Longrightarrow> f h m = (r, h', m') \<Longrightarrow> object_inv h' m'"
    and client_inv: "object_inv h m \<Longrightarrow> object_inv h (client m w)"
begin

lemma seq_step_inv: "object_inv (fst hm) (snd hm) \<Longrightarrow>
    object_inv (fst (seq_step code client hm e)) (snd (seq_step code client hm e))"
  by (cases "(code, client, hm, e)" rule: seq_step.cases) (auto simp: client_inv split: ts_code.split intro: body_inv [OF _ _ surjective_pairing [THEN trans]])

lemma seq_inv: "object_inv (fst hm) (snd hm) \<Longrightarrow>
    object_inv (fst (foldl (seq_step code client) hm es)) (snd (foldl (seq_step code client) hm es))"
proof (induction es arbitrary: hm)
  case (Cons e es)
  show ?case using Cons.IH [OF seq_step_inv [OF Cons.prems]] by simp
qed simp

lemma shared_inv:
  assumes "ts_reach code client (ts_start mx h m) s" "mutex_free mx" "object_inv h m"
  shows "object_inv (ts_fields s) (ts_memory s)"
  using reachable_linear [OF assms(1,2)] seq_inv [of "(h, m)" "ts_log s"] assms(3) by (metis fst_conv linear_def snd_conv)

text \<open>A committed call returned what its body gives in a state with the invariant.\<close>

lemma committed_result:
  assumes "seq_results code client hm (as @ Committed t c r # bs)" "object_inv (fst hm) (snd hm)"
  obtains f h m where "code c = Locked f" "object_inv h m" "(h, m) = foldl (seq_step code client) hm as" "r = fst (f h m)"
proof -
  obtain h m where hm: "foldl (seq_step code client) hm as = (h, m)" by (cases "foldl (seq_step code client) hm as")
  then obtain f where "code c = Locked f" "r = fst (f h m)" using assms(1) by (auto split: ts_code.splits)
  then show ?thesis using that hm seq_inv [OF assms(2), of as] by simp
qed

end

end
