(* ===== verification/Xgl_Thread_Safe.thy ===== *)
theory Xgl_Thread_Safe
  imports Xgl_Mempool Xgl_List Xgl_Mutex
begin

text \<open>
  The thread-safe wrappers of the memory pool (\<^verbatim>\<open>src/memory/xgl_mempool_ts.c\<close>) and of the list
  (\<^verbatim>\<open>src/core/xgl_list_ts.c\<close>). Each is written as the code of \<open>Xgl_Mutex\<close>: what it returns without locking, or the body it runs
  between lock and unlock. The argument \<open>present\<close> is whether the pointer to the pool or list is not NULL.

  Shown, for any number of threads and any interleaving of their steps: the calls take effect one after the other; no block
  is given to two threads, no node is removed by two threads, and the wrappers do not deadlock.
\<close>

section \<open>The memory pool\<close>

record xgl_mempool_ts =
  mt_pool :: xgl_mempool
  mt_mutex :: xgl_mutex

datatype pool_value =
    BlockPtr nat
  | PoolCount nat
  | PoolFlag bool
  | PoolVoid

text \<open>The first result is whether 0 is returned.\<close>

definition xgl_mempool_ts_init ::
  "bool \<Rightarrow> xgl_mempool_ts option \<Rightarrow> memory \<Rightarrow> nat \<Rightarrow> nat \<Rightarrow> nat \<Rightarrow> bool \<times> xgl_mempool_ts option \<times> memory" where
  "xgl_mempool_ts_init created pool m buffer buffer_size block_size =
     (case pool of
        None \<Rightarrow> (False, None, m)
      | Some p \<Rightarrow>
          case xgl_mempool_init (mt_pool p) m buffer buffer_size block_size of
            (ok, inner, m) \<Rightarrow>
              if \<not> ok then (False, Some (p \<lparr> mt_pool := inner \<rparr>), m)
              else case xgl_mutex_init created (Some (mt_mutex p)) of
                     (err, mutex) \<Rightarrow> (err = XGL_OK, Some (p \<lparr> mt_pool := inner, mt_mutex := the mutex \<rparr>), m))"

definition xgl_mempool_ts_destroy :: "xgl_mempool_ts option \<Rightarrow> xgl_mempool_ts option" where
  "xgl_mempool_ts_destroy pool =
     (case pool of
        None \<Rightarrow> None
      | Some p \<Rightarrow> Some \<lparr> mt_pool = xgl_mempool_destroy, mt_mutex = the (xgl_mutex_destroy (Some (mt_mutex p))) \<rparr>)"

definition xgl_mempool_ts_alloc :: "bool \<Rightarrow> (xgl_mempool, memory, pool_value) ts_code" where
  "xgl_mempool_ts_alloc present =
     (if \<not> present then Return (BlockPtr 0)
      else Locked (\<lambda>pool m. case xgl_mempool_alloc pool m of (block, pool) \<Rightarrow> (BlockPtr block, pool, m)))"

definition xgl_mempool_ts_free :: "bool \<Rightarrow> nat \<Rightarrow> (xgl_mempool, memory, pool_value) ts_code" where
  "xgl_mempool_ts_free present ptr =
     (if \<not> present \<or> ptr = 0 then Return PoolVoid
      else Locked (\<lambda>pool m. case xgl_mempool_free pool m ptr of (pool, m) \<Rightarrow> (PoolVoid, pool, m)))"

definition xgl_mempool_ts_get_free_count :: "bool \<Rightarrow> (xgl_mempool, memory, pool_value) ts_code" where
  "xgl_mempool_ts_get_free_count present =
     (if \<not> present then Return (PoolCount 0) else Locked (\<lambda>pool m. (PoolCount (xgl_mempool_get_free_count pool), pool, m)))"

definition xgl_mempool_ts_get_used_count :: "bool \<Rightarrow> (xgl_mempool, memory, pool_value) ts_code" where
  "xgl_mempool_ts_get_used_count present =
     (if \<not> present then Return (PoolCount 0) else Locked (\<lambda>pool m. (PoolCount (xgl_mempool_get_used_count pool), pool, m)))"

definition xgl_mempool_ts_get_peak_used :: "bool \<Rightarrow> (xgl_mempool, memory, pool_value) ts_code" where
  "xgl_mempool_ts_get_peak_used present =
     (if \<not> present then Return (PoolCount 0) else Locked (\<lambda>pool m. (PoolCount (xgl_mempool_get_peak_used pool), pool, m)))"

definition xgl_mempool_ts_is_empty :: "bool \<Rightarrow> (xgl_mempool, memory, pool_value) ts_code" where
  "xgl_mempool_ts_is_empty present =
     (if \<not> present then Return (PoolFlag True) else Locked (\<lambda>pool m. (PoolFlag (xgl_mempool_is_empty pool), pool, m)))"

definition xgl_mempool_ts_is_full :: "bool \<Rightarrow> (xgl_mempool, memory, pool_value) ts_code" where
  "xgl_mempool_ts_is_full present =
     (if \<not> present then Return (PoolFlag True) else Locked (\<lambda>pool m. (PoolFlag (xgl_mempool_is_full pool), pool, m)))"

definition xgl_mempool_ts_reset_stats :: "bool \<Rightarrow> (xgl_mempool, memory, pool_value) ts_code" where
  "xgl_mempool_ts_reset_stats present =
     (if \<not> present then Return PoolVoid else Locked (\<lambda>pool m. (PoolVoid, xgl_mempool_reset_stats pool, m)))"

datatype pool_op = TsAlloc | TsFree nat | TsFreeCount | TsUsedCount | TsPeakUsed | TsIsEmpty | TsIsFull | TsReset

fun pool_wrapper :: "bool \<times> pool_op \<Rightarrow> (xgl_mempool, memory, pool_value) ts_code" where
  "pool_wrapper (present, TsAlloc) = xgl_mempool_ts_alloc present"
| "pool_wrapper (present, TsFree ptr) = xgl_mempool_ts_free present ptr"
| "pool_wrapper (present, TsFreeCount) = xgl_mempool_ts_get_free_count present"
| "pool_wrapper (present, TsUsedCount) = xgl_mempool_ts_get_used_count present"
| "pool_wrapper (present, TsPeakUsed) = xgl_mempool_ts_get_peak_used present"
| "pool_wrapper (present, TsIsEmpty) = xgl_mempool_ts_is_empty present"
| "pool_wrapper (present, TsIsFull) = xgl_mempool_ts_is_full present"
| "pool_wrapper (present, TsReset) = xgl_mempool_ts_reset_stats present"

section \<open>The list\<close>

record xgl_list_ts =
  lt_list :: xgl_list
  lt_mutex :: xgl_mutex

datatype list_value =
    NodePtr node_ptr
  | NodeCount u64
  | ListFlag bool
  | ListVoid

definition xgl_list_ts_init :: "bool \<Rightarrow> xgl_list_ts option \<Rightarrow> bool \<times> xgl_list_ts option" where
  "xgl_list_ts_init created l =
     (case l of
        None \<Rightarrow> (False, None)
      | Some p \<Rightarrow>
          case xgl_mutex_init created (Some (lt_mutex p)) of
            (err, mutex) \<Rightarrow> (err = XGL_OK, Some (p \<lparr> lt_list := xgl_list_init, lt_mutex := the mutex \<rparr>)))"

definition xgl_list_ts_destroy :: "xgl_list_ts option \<Rightarrow> xgl_list_ts option" where
  "xgl_list_ts_destroy l =
     (case l of None \<Rightarrow> None | Some p \<Rightarrow> Some (p \<lparr> lt_mutex := the (xgl_mutex_destroy (Some (lt_mutex p))) \<rparr>))"

definition xgl_list_ts_is_empty :: "bool \<Rightarrow> (xgl_list, node_store, list_value) ts_code" where
  "xgl_list_ts_is_empty present =
     (if \<not> present then Return (ListFlag True) else Locked (\<lambda>l h. (ListFlag (xgl_list_is_empty l), l, h)))"

definition xgl_list_ts_count :: "bool \<Rightarrow> (xgl_list, node_store, list_value) ts_code" where
  "xgl_list_ts_count present =
     (if \<not> present then Return (NodeCount 0) else Locked (\<lambda>l h. (NodeCount (xgl_list_count l), l, h)))"

definition xgl_list_ts_insert_head :: "bool \<Rightarrow> node_ptr \<Rightarrow> (xgl_list, node_store, list_value) ts_code" where
  "xgl_list_ts_insert_head present node =
     (if \<not> present \<or> node = None then Return ListVoid else Locked (\<lambda>l h. (ListVoid, xgl_list_insert_head l h node)))"

definition xgl_list_ts_insert_tail :: "bool \<Rightarrow> node_ptr \<Rightarrow> (xgl_list, node_store, list_value) ts_code" where
  "xgl_list_ts_insert_tail present node =
     (if \<not> present \<or> node = None then Return ListVoid else Locked (\<lambda>l h. (ListVoid, xgl_list_insert_tail l h node)))"

definition xgl_list_ts_remove :: "bool \<Rightarrow> node_ptr \<Rightarrow> (xgl_list, node_store, list_value) ts_code" where
  "xgl_list_ts_remove present node =
     (if \<not> present \<or> node = None then Return ListVoid else Locked (\<lambda>l h. (ListVoid, xgl_list_remove l h node)))"

definition xgl_list_ts_remove_head :: "bool \<Rightarrow> (xgl_list, node_store, list_value) ts_code" where
  "xgl_list_ts_remove_head present =
     (if \<not> present then Return (NodePtr None)
      else Locked (\<lambda>l h. case xgl_list_remove_head l h of (node, l, h) \<Rightarrow> (NodePtr node, l, h)))"

definition xgl_list_ts_remove_tail :: "bool \<Rightarrow> (xgl_list, node_store, list_value) ts_code" where
  "xgl_list_ts_remove_tail present =
     (if \<not> present then Return (NodePtr None)
      else Locked (\<lambda>l h. case xgl_list_remove_tail l h of (node, l, h) \<Rightarrow> (NodePtr node, l, h)))"

definition xgl_list_ts_peek_head :: "bool \<Rightarrow> (xgl_list, node_store, list_value) ts_code" where
  "xgl_list_ts_peek_head present =
     (if \<not> present then Return (NodePtr None) else Locked (\<lambda>l h. (NodePtr (xgl_list_peek_head l), l, h)))"

definition xgl_list_ts_peek_tail :: "bool \<Rightarrow> (xgl_list, node_store, list_value) ts_code" where
  "xgl_list_ts_peek_tail present =
     (if \<not> present then Return (NodePtr None) else Locked (\<lambda>l h. (NodePtr (xgl_list_peek_tail l), l, h)))"

datatype list_op =
    LtIsEmpty | LtCount | LtInsertHead node_ptr | LtInsertTail node_ptr | LtRemove node_ptr
  | LtRemoveHead | LtRemoveTail | LtPeekHead | LtPeekTail

fun list_wrapper :: "bool \<times> list_op \<Rightarrow> (xgl_list, node_store, list_value) ts_code" where
  "list_wrapper (present, LtIsEmpty) = xgl_list_ts_is_empty present"
| "list_wrapper (present, LtCount) = xgl_list_ts_count present"
| "list_wrapper (present, LtInsertHead node) = xgl_list_ts_insert_head present node"
| "list_wrapper (present, LtInsertTail node) = xgl_list_ts_insert_tail present node"
| "list_wrapper (present, LtRemove node) = xgl_list_ts_remove present node"
| "list_wrapper (present, LtRemoveHead) = xgl_list_ts_remove_head present"
| "list_wrapper (present, LtRemoveTail) = xgl_list_ts_remove_tail present"
| "list_wrapper (present, LtPeekHead) = xgl_list_ts_peek_head present"
| "list_wrapper (present, LtPeekTail) = xgl_list_ts_peek_tail present"

section \<open>The pool under concurrent use\<close>

text \<open>
  Beside the memory goes the set of blocks that are handed out. A client may write to the blocks that are handed out and outside the
  buffer, at any time, also while another thread is inside the pool.
\<close>

fun held_after :: "pool_op \<Rightarrow> pool_value \<Rightarrow> nat set \<Rightarrow> nat set" where
  "held_after TsAlloc (BlockPtr b) held = (if b = 0 then held else insert b held)"
| "held_after (TsFree p) _ held = held - {p}"
| "held_after _ _ held = held"

definition pool_ts_code :: "bool \<times> pool_op \<Rightarrow> (xgl_mempool, memory \<times> nat set, pool_value) ts_code" where
  "pool_ts_code c =
     (case pool_wrapper c of
        Return r \<Rightarrow> Return r
      | Locked f \<Rightarrow> Locked (\<lambda>pool mh. case f pool (fst mh) of (r, pool, m) \<Rightarrow> (r, pool, m, held_after (snd c) r (snd mh))))"

definition client_write :: "xgl_mempool \<Rightarrow> memory \<times> nat set \<Rightarrow> nat \<times> u8 \<Rightarrow> memory \<times> nat set" where
  "client_write P mh w = (if client_owns P (snd mh) (fst w) then (fst mh)(fst w := snd w) else fst mh, snd mh)"

lemmas pool_wrapper_defs = xgl_mempool_ts_alloc_def xgl_mempool_ts_free_def xgl_mempool_ts_get_free_count_def xgl_mempool_ts_get_used_count_def
  xgl_mempool_ts_get_peak_used_def xgl_mempool_ts_is_empty_def xgl_mempool_ts_is_full_def xgl_mempool_ts_reset_stats_def

text \<open>The calls of the sequential pool that a wrapper makes.\<close>

fun pool_call_of :: "pool_op \<Rightarrow> pool_call option" where
  "pool_call_of TsAlloc = Some PoolAlloc"
| "pool_call_of (TsFree p) = Some (PoolFree p)"
| "pool_call_of TsReset = Some PoolReset"
| "pool_call_of _ = None"

lemma pool_body:
  assumes "pool_ts_code (present, c) = Locked f"
  shows "snd (f pool (m, held)) = (case pool_call_of c of None \<Rightarrow> (pool, m, held) | Some q \<Rightarrow> snd (mempool_step (pool, m, held) q))"
  using assms
  by (cases c) (auto simp: pool_ts_code_def pool_wrapper_defs split: if_splits prod.splits)

lemma client_owns_same: "same_buffer P pool \<Longrightarrow> client_owns P held a = client_owns pool held a"
  by (simp add: client_owns_def same_buffer_def outside_def)

interpretation shared_pool: locked_object pool_ts_code "client_write P" "\<lambda>pool mh. mempool_inv P (pool, fst mh, snd mh)" for P
proof
  fix c f pool r pool' and mh mh' :: "memory \<times> nat set"
  assume f: "pool_ts_code c = Locked f" and inv: "mempool_inv P (pool, fst mh, snd mh)" and r: "f pool mh = (r, pool', mh')"
  have "(pool', fst mh', snd mh') = (case pool_call_of (snd c) of None \<Rightarrow> (pool, fst mh, snd mh)
      | Some q \<Rightarrow> snd (mempool_step (pool, fst mh, snd mh) q))"
    using pool_body [of "fst c" "snd c" f pool "fst mh" "snd mh"] f r by simp
  then show "mempool_inv P (pool', fst mh', snd mh')" using inv mempool_step_inv [OF inv] by (cases "pool_call_of (snd c)") auto
next
  fix pool and mh :: "memory \<times> nat set" and w :: "nat \<times> u8"
  assume inv: "mempool_inv P (pool, fst mh, snd mh)"
  then have "same_buffer P pool" by (simp add: mempool_inv_def)
  then show "mempool_inv P (pool, fst (client_write P mh w), snd (client_write P mh w))"
    using mempool_step_inv [OF inv, of "ClientWrite (fst w) (snd w)"] by (cases mh) (auto simp: client_write_def client_owns_same split: if_splits)
qed

lemma shared_alloc:
  assumes inv: "mempool_inv P (pool, m, held)" and P: "mp_pool P = buffer" "mp_block_size P = block_size" "mp_block_count P = n"
    and b: "b = fst (xgl_mempool_alloc pool m)"
  shows "finite held" "card held \<le> n" "xgl_mempool_get_used_count pool = card held"
    "c \<in> held \<Longrightarrow> buffer \<le> c \<and> c + block_size \<le> buffer + n * block_size"
    "b = 0 \<longleftrightarrow> card held = n"
    "b \<noteq> 0 \<Longrightarrow> b \<notin> held \<and> buffer \<le> b \<and> b + block_size \<le> buffer + n * block_size
      \<and> (\<forall>c \<in> held. b + block_size \<le> c \<or> c + block_size \<le> b)"
proof -
  obtain fs where buf: "same_buffer P pool" and rep: "pool_rep pool m fs" and held: "held = pool_blocks pool - set fs"
    using inv by (auto simp: mempool_inv_def)
  have sel: "mp_pool pool = buffer" "mp_block_size pool = block_size" "mp_block_count pool = n" using buf P by (simp_all add: same_buffer_def)
  have card: "card held = n - length fs" "length fs \<le> n" "finite held" using rep_bounds [OF rep] held sel by simp_all
  then show "finite held" "card held \<le> n" by simp_all
  show "xgl_mempool_get_used_count pool = card held" using rep card sel by (simp add: pool_rep_def xgl_mempool_get_used_count_def)
  show "c \<in> held \<Longrightarrow> buffer \<le> c \<and> c + block_size \<le> buffer + n * block_size" using block_inside [of c pool] held sel by simp
  have x: "b = (case fs of [] \<Rightarrow> 0 | x # _ \<Rightarrow> x)" using alloc_rep [OF rep] b by (cases fs) fastforce+
  have nz: "y \<noteq> 0" "y \<in> pool_blocks pool" if "y \<in> set fs" for y using rep that pool_shapeD(2) by (auto simp: pool_rep_def)
  show "b = 0 \<longleftrightarrow> card held = n" using x nz card by (cases fs) auto
  show "b \<noteq> 0 \<Longrightarrow> b \<notin> held \<and> buffer \<le> b \<and> b + block_size \<le> buffer + n * block_size
      \<and> (\<forall>c \<in> held. b + block_size \<le> c \<or> c + block_size \<le> b)"
    using x nz(2) [of b] held sel block_inside [of b pool] blocks_apart [of b pool] by (cases fs) auto
qed

lemma mempool_ts_init_start:
  assumes "xgl_mempool_ts_init created (Some p0) m0 buffer buffer_size block_size = (True, Some p, m)" "buffer + buffer_size < SIZE_RANGE"
  shows "mutex_free (mt_mutex p)" "mempool_inv (mt_pool p) (mt_pool p, m, {})"
    "mp_pool (mt_pool p) = buffer" "mp_block_size (mt_pool p) = block_size" "mp_block_count (mt_pool p) = buffer_size div block_size"
proof -
  obtain inner mutex where i: "xgl_mempool_init (mt_pool p0) m0 buffer buffer_size block_size = (True, inner, m)" "mt_pool p = inner"
      and mx: "xgl_mutex_init created (Some (mt_mutex p0)) = (XGL_OK, mutex)" "mt_mutex p = the mutex"
    using assms(1) by (auto simp: xgl_mempool_ts_init_def split: prod.splits if_splits)
  show "mutex_free (mt_mutex p)" using mutex_init_free [OF mx(1)] mx(2) by auto
  note r = mempool_init_rep [OF i(1) assms(2)]
  have "{} = pool_blocks inner - set (rev (map (\<lambda>i. buffer + i * block_size) [0..<buffer_size div block_size]))"
    by (auto simp: pool_blocks_def r(2-4))
  then show "mempool_inv (mt_pool p) (mt_pool p, m, {})" using r(1) i(2) unfolding mempool_inv_def same_buffer_def by blast
  show "mp_pool (mt_pool p) = buffer" "mp_block_size (mt_pool p) = block_size" "mp_block_count (mt_pool p) = buffer_size div block_size"
    using r(2-4) i(2) by simp_all
qed

text \<open>
  C13: the thread-safe memory pool. Any number of threads call its functions, and write to blocks that are handed out, in any
  interleaving of their steps. The fields and the memory of the pool are then those of executing the calls one after
  the other in the order of their commits; every thread sees its calls return, once each, what that sequential execution
  returns, between call and return. Every block that an allocation returns is one that nobody holds at that time, and it
  does not overlap those that are held; an allocation returns NULL exactly when all blocks are held. The used count is exact. Whenever
  a thread is inside a function, some thread can take a step.
\<close>

theorem mempool_ts_linearizable:
  assumes init: "xgl_mempool_ts_init created (Some p0) m0 buffer buffer_size block_size = (True, Some p, m)" "buffer + buffer_size < SIZE_RANGE"
    and reach: "ts_reach pool_ts_code (client_write (mt_pool p)) (ts_start (mt_mutex p) (mt_pool p) (m, {})) s"
    and held: "\<And>log. held log = snd (snd (foldl (seq_step pool_ts_code (client_write (mt_pool p))) (mt_pool p, m, {}) log))"
  shows "(ts_fields s, ts_memory s) = foldl (seq_step pool_ts_code (client_write (mt_pool p))) (mt_pool p, m, {}) (ts_log s)
    \<and> seq_results pool_ts_code (client_write (mt_pool p)) (mt_pool p, m, {}) (ts_log s)
    \<and> proper_log pool_ts_code (ts_log s)
    \<and> (\<forall>as t b bs. ts_log s = as @ Committed t (True, TsAlloc) (BlockPtr b) # bs \<longrightarrow>
        (b = 0 \<longleftrightarrow> card (held as) = buffer_size div block_size)
        \<and> (b \<noteq> 0 \<longrightarrow> b \<notin> held as \<and> buffer \<le> b \<and> b + block_size \<le> buffer + buffer_size
             \<and> (\<forall>c \<in> held as. b + block_size \<le> c \<or> c + block_size \<le> b)))
    \<and> xgl_mempool_get_used_count (ts_fields s) = card (held (ts_log s))
    \<and> (\<forall>t. ts_pcs s t \<noteq> Idle \<longrightarrow> (\<exists>u s'. thread_step pool_ts_code u s s'))"
proof -
  note i = mempool_ts_init_start [OF init]
  let ?hm = "(mt_pool p, m, {} :: nat set)" and ?client = "client_write (mt_pool p)"
  have lin: "linear pool_ts_code ?client ?hm s" by (rule reachable_linear [OF reach i(1)])
  have "buffer_size div block_size * block_size \<le> buffer_size" by simp
  then have size: "x \<le> buffer + buffer_size" if "x \<le> buffer + buffer_size div block_size * block_size" for x using that by linarith
  have alloc: "(b = 0 \<longleftrightarrow> card (held as) = buffer_size div block_size)
      \<and> (b \<noteq> 0 \<longrightarrow> b \<notin> held as \<and> buffer \<le> b \<and> b + block_size \<le> buffer + buffer_size
           \<and> (\<forall>c \<in> held as. b + block_size \<le> c \<or> c + block_size \<le> b))"
    if log: "ts_log s = as @ Committed t (True, TsAlloc) (BlockPtr b) # bs" for as t b bs
  proof -
    have res: "seq_results pool_ts_code ?client ?hm (as @ Committed t (True, TsAlloc) (BlockPtr b) # bs)" using lin log by (simp add: linear_def)
    obtain f pool mh where f: "pool_ts_code (True, TsAlloc) = Locked f" and inv: "mempool_inv (mt_pool p) (pool, fst mh, snd mh)"
        and st: "(pool, mh) = foldl (seq_step pool_ts_code ?client) ?hm as" and r: "BlockPtr b = fst (f pool mh)"
      by (rule shared_pool.committed_result [OF res]) (simp add: i(2))
    have "b = fst (xgl_mempool_alloc pool (fst mh))" using r f by (auto simp: pool_ts_code_def xgl_mempool_ts_alloc_def split: prod.splits)
    then show ?thesis using shared_alloc(5,6) [OF inv i(3-5), of b] held [of as] st [symmetric] size by auto
  qed
  have "mempool_inv (mt_pool p) (ts_fields s, fst (ts_memory s), snd (ts_memory s))" using shared_pool.shared_inv [OF reach i(1)] i(2) by simp
  then have "xgl_mempool_get_used_count (ts_fields s) = card (snd (ts_memory s))" using shared_alloc(3) i(3-5) by blast
  then show ?thesis using lin linear_proper [OF lin] held [of "ts_log s"] alloc threads_progress [OF reachable_exclusive [OF reach i(1)]]
    unfolding linear_def by (metis snd_conv)
qed

text \<open>Two threads allocate at the same time; the first writes to its block while the second is about to enter.\<close>

definition sample_schedule :: "(bool \<times> pool_op, nat \<times> u8) ts_action list" where
  "sample_schedule = [Call 1 (True, TsAlloc), Call 2 (True, TsAlloc), Step 1, Step 1, Step 1, Write (4160, 7), Step 1, Step 2, Step 2, Step 2]"

definition sample_pool :: xgl_mempool_ts where
  "sample_pool = \<lparr> mt_pool = xgl_mempool_destroy, mt_mutex = \<lparr> mx_initialized = False, mx_owner = None, mx_depth = 0 \<rparr> \<rparr>"

lemma sample_pool_allocs:
  obtains p m pool1 pool2 where "xgl_mempool_ts_init True (Some sample_pool) (\<lambda>_. 0) 4096 80 16 = (True, Some p, m)"
    "mt_mutex p = \<lparr> mx_initialized = True, mx_owner = None, mx_depth = 0 \<rparr>"
    "xgl_mempool_alloc (mt_pool p) m = (4160, pool1)" "xgl_mempool_alloc pool1 (m(4160 := 7)) = (4144, pool2)"
    "client_owns (mt_pool p) {4160} 4160"
proof -
  let ?i = "xgl_mempool_init xgl_mempool_destroy (\<lambda>_. 0) 4096 80 16"
  obtain pool m where i: "?i = (True, pool, m)" by (cases ?i) (simp add: xgl_mempool_init_def PTR_SIZE_def Let_def)
  note r = mempool_init_rep [OF i, unfolded SIZE_RANGE_def, simplified]
  have fs: "pool_rep pool m [4160, 4144, 4128, 4112, 4096]" using r(1) by (simp add: upt_rec)
  obtain pool1 where a1: "xgl_mempool_alloc pool m = (4160, pool1)" "pool_rep pool1 m [4144, 4128, 4112, 4096]" "same_buffer pool pool1"
    using alloc_rep(2) [OF fs] by blast
  have sel: "mp_pool pool1 = 4096" "mp_block_size pool1 = 16" "mp_block_count pool1 = 5" using a1(3) r(2-4) by (simp_all add: same_buffer_def)
  have own: "client_owns pool1 (pool_blocks pool1 - set [4144, 4128, 4112, 4096]) 4160"
    by (auto simp: client_owns_def pool_blocks_def sel intro!: bexI [of _ 4160] rev_image_eqI [of 4])
  obtain pool2 where "xgl_mempool_alloc pool1 (m(4160 := 7)) = (4144, pool2)"
    using alloc_rep(2) [OF client_write_rep [OF a1(2) own]] by blast
  then show ?thesis
    using that [of "\<lparr> mt_pool = pool, mt_mutex = \<lparr> mx_initialized = True, mx_owner = None, mx_depth = 0 \<rparr> \<rparr>" m pool1 pool2] i a1(1) r(3)
    by (simp add: xgl_mempool_ts_init_def sample_pool_def xgl_mutex_init_def client_owns_def)
qed

theorem mempool_ts_linearizable_witness:
  "\<exists>p m s. xgl_mempool_ts_init True (Some sample_pool) (\<lambda>_. 0) 4096 80 16 = (True, Some p, m)
     \<and> ts_execs pool_ts_code (client_write (mt_pool p)) (ts_start (mt_mutex p) (mt_pool p) (m, {})) sample_schedule = Some s
     \<and> ts_log s = [Invoked 1 (True, TsAlloc), Invoked 2 (True, TsAlloc), Committed 1 (True, TsAlloc) (BlockPtr 4160), Wrote (4160, 7),
          Returned 1 (BlockPtr 4160), Committed 2 (True, TsAlloc) (BlockPtr 4144)]
     \<and> proper_log pool_ts_code (ts_log s) \<and> xgl_mempool_get_used_count (ts_fields s) = 2
     \<and> (\<exists>u s'. thread_step pool_ts_code u s s')"
proof -
  obtain p m pool1 pool2 where init: "xgl_mempool_ts_init True (Some sample_pool) (\<lambda>_. 0) 4096 80 16 = (True, Some p, m)"
      and facts: "mt_mutex p = \<lparr> mx_initialized = True, mx_owner = None, mx_depth = 0 \<rparr>"
        "xgl_mempool_alloc (mt_pool p) m = (4160, pool1)" "xgl_mempool_alloc pool1 (m(4160 := 7)) = (4144, pool2)"
        "client_owns (mt_pool p) {4160} 4160"
    by (rule sample_pool_allocs)
  let ?client = "client_write (mt_pool p)"
  let ?s0 = "ts_start (mt_mutex p) (mt_pool p) (m, {})"
  obtain s where s: "ts_execs pool_ts_code ?client ?s0 sample_schedule = Some s"
      and log: "ts_log s = [Invoked 1 (True, TsAlloc), Invoked 2 (True, TsAlloc), Committed 1 (True, TsAlloc) (BlockPtr 4160), Wrote (4160, 7),
          Returned 1 (BlockPtr 4160), Committed 2 (True, TsAlloc) (BlockPtr 4144)]" and pc: "ts_pcs s 2 \<noteq> Idle"
    using facts by (simp add: sample_schedule_def ts_start_def pool_ts_code_def xgl_mempool_ts_alloc_def xgl_mutex_lock_def xgl_mutex_unlock_def
        client_write_def)
  have small: "4096 + 80 < SIZE_RANGE" by (simp add: SIZE_RANGE_def)
  note t = mempool_ts_linearizable [OF init small execs_reach [OF s] refl]
  have "snd (snd (foldl (seq_step pool_ts_code ?client) (mt_pool p, m, {}) (ts_log s))) = {4160, 4144}"
    using facts by (auto simp: log pool_ts_code_def xgl_mempool_ts_alloc_def client_write_def)
  then have "xgl_mempool_get_used_count (ts_fields s) = 2" using t by simp
  moreover have "proper_log pool_ts_code (ts_log s)" "\<forall>t. ts_pcs s t \<noteq> Idle \<longrightarrow> (\<exists>u s'. thread_step pool_ts_code u s s')"
    using t by blast+
  ultimately show ?thesis using init s log pc by blast
qed

text \<open>
  The wrappers ignore what \<^verbatim>\<open>xgl_mutex_lock\<close> returns. On a pool whose mutex is not initialised (destroyed, or with a failed
  initialisation) they run unprotected, and two threads can get the same block.
\<close>

lemma lost_without_init:
  assumes "xgl_mempool_alloc pool m = (b, pool')" "b \<noteq> 0"
  shows "\<exists>s. ts_reach pool_ts_code (client_write P) (ts_start \<lparr> mx_initialized = False, mx_owner = None, mx_depth = 0 \<rparr> pool (m, {})) s
    \<and> ts_pcs s 1 = Leaving (BlockPtr b) \<and> ts_pcs s 2 = Leaving (BlockPtr b)"
proof -
  let ?s0 = "ts_start \<lparr> mx_initialized = False, mx_owner = None, mx_depth = 0 \<rparr> pool (m, {})"
  let ?as = "[Call 1 (True, TsAlloc), Call 2 (True, TsAlloc), Step 1, Step 1, Step 2, Step 2, Step 1, Step 2]"
  obtain s where "ts_execs pool_ts_code (client_write P) ?s0 ?as = Some s" "ts_pcs s 1 = Leaving (BlockPtr b)" "ts_pcs s 2 = Leaving (BlockPtr b)"
    using assms by (simp add: ts_start_def pool_ts_code_def xgl_mempool_ts_alloc_def xgl_mutex_lock_def)
  then show ?thesis using execs_reach by blast
qed

section \<open>The list under concurrent use\<close>

text \<open>The calls of the sequential list that a log of commits makes.\<close>

fun list_calls_of :: "bool \<times> list_op \<Rightarrow> list_call list" where
  "list_calls_of (True, LtInsertHead (Some n)) = [InsertHead n]"
| "list_calls_of (True, LtInsertTail (Some n)) = [InsertTail n]"
| "list_calls_of (True, LtRemove (Some n)) = [Remove n]"
| "list_calls_of (True, LtRemoveHead) = [RemoveHead]"
| "list_calls_of (True, LtRemoveTail) = [RemoveTail]"
| "list_calls_of _ = []"

fun list_calls :: "(bool \<times> list_op, list_value, unit) ts_event list \<Rightarrow> list_call list" where
  "list_calls [] = []"
| "list_calls (Committed t c r # es) = list_calls_of c @ list_calls es"
| "list_calls (_ # es) = list_calls es"

text \<open>The clients of a list write the data around the nodes, not the nodes.\<close>

definition no_write :: "node_store \<Rightarrow> unit \<Rightarrow> node_store" where
  "no_write h w = h"

lemmas list_wrapper_defs = xgl_list_ts_is_empty_def xgl_list_ts_count_def xgl_list_ts_insert_head_def xgl_list_ts_insert_tail_def
  xgl_list_ts_remove_def xgl_list_ts_remove_head_def xgl_list_ts_remove_tail_def xgl_list_ts_peek_head_def xgl_list_ts_peek_tail_def

lemma list_body:
  "(case list_wrapper c of Return _ \<Rightarrow> (l, h) | Locked f \<Rightarrow> snd (f l h)) = foldl list_call_step (l, h) (list_calls_of c)"
proof (cases "fst c")
  case True
  then show ?thesis by (cases c rule: list_calls_of.cases) (auto simp: list_wrapper_defs split: prod.splits)
next
  case False
  then obtain v where "c = (False, v)" by (cases c) auto
  then show ?thesis by (cases v) (simp_all add: list_wrapper_defs)
qed

lemma list_seq: "foldl (seq_step list_wrapper no_write) (l, h) es = foldl list_call_step (l, h) (list_calls es)"
proof (induction es arbitrary: l h rule: list_calls.induct)
  case (2 t c r es)
  obtain l' h' where "foldl list_call_step (l, h) (list_calls_of c) = (l', h')" by (cases "foldl list_call_step (l, h) (list_calls_of c)")
  then show ?case using 2 list_body [of l h c] by simp
qed (simp_all add: no_write_def)

lemma list_calls_append: "list_calls (es @ fs) = list_calls es @ list_calls fs"
  by (induction es rule: list_calls.induct) simp_all

lemma end_results:
  assumes "rep xs l h"
  shows "list_wrapper (True, LtRemoveHead) = Locked f \<Longrightarrow> fst (f l h) = NodePtr (first_of xs None)"
    "list_wrapper (True, LtRemoveTail) = Locked f \<Longrightarrow> fst (f l h) = NodePtr (last_of None xs)"
    "list_wrapper (True, LtCount) = Locked f \<Longrightarrow> fst (f l h) = NodeCount (word_of_nat (length xs))"
  using assms by (auto simp: rep_def list_wrapper_defs xgl_list_remove_head_def xgl_list_remove_tail_def xgl_list_count_def
      split: option.splits prod.splits)

text \<open>What the calls that look at the ends of the list return.\<close>

definition ends_result :: "nat list \<Rightarrow> list_op \<Rightarrow> list_value \<Rightarrow> bool" where
  "ends_result xs c r \<longleftrightarrow> (c = LtRemoveHead \<longrightarrow> r = NodePtr (first_of xs None)) \<and> (c = LtRemoveTail \<longrightarrow> r = NodePtr (last_of None xs))
     \<and> (c = LtCount \<longrightarrow> r = NodeCount (word_of_nat (length xs)))"

lemma list_results:
  assumes "seq_results list_wrapper no_write (l0, h0) (as @ Committed t (True, c) r # bs)"
    and "rep xs (fst (foldl list_call_step (l0, h0) (list_calls as))) (snd (foldl list_call_step (l0, h0) (list_calls as)))"
  shows "ends_result xs c r"
proof -
  let ?l = "fst (foldl list_call_step (l0, h0) (list_calls as))" and ?h = "snd (foldl list_call_step (l0, h0) (list_calls as))"
  obtain f where "list_wrapper (True, c) = Locked f" "r = fst (f ?l ?h)" using assms(1) by (auto simp: list_seq split: ts_code.splits)
  then show ?thesis using end_results [OF assms(2), of f] unfolding ends_result_def by blast
qed

lemma heap_list_prefix: "heap_list.allowed N xs (as @ bs) \<Longrightarrow> heap_list.allowed N xs as"
  by (induction as arbitrary: xs) auto

text \<open>
  C39: the thread-safe list. Any number of threads insert and remove nodes, in any interleaving. As long as the committed calls are proper in
  the order of their commits (a node is inserted once, a node to remove is in the list), the list in memory is at every moment the
  list of the committed calls: both walks give it and end. A thread that removes the head or the tail gets the first or
  last node of the list at that moment, so no two threads get the same node; each call returns once, after its commit. Whenever a thread
  is inside a function, some thread can take a step.
\<close>

theorem list_ts_linearizable:
  assumes init: "xgl_list_ts_init created (Some p0) = (True, Some p)"
    and reach: "ts_reach list_wrapper no_write (ts_start (lt_mutex p) (lt_list p) h) s"
    and proper: "heap_list.allowed N [] (list_calls (ts_log s))"
    and xs: "\<And>log. xs log = foldl abs_call [] (list_calls log)"
  shows "list_for_each (length (xs (ts_log s))) (ts_memory s) (xgl_list_peek_head (ts_fields s)) = Some (xs (ts_log s))
    \<and> list_for_each_back (length (xs (ts_log s))) (ts_memory s) (xgl_list_peek_tail (ts_fields s)) = Some (rev (xs (ts_log s)))
    \<and> (\<forall>as t c r bs. ts_log s = as @ Committed t (True, c) r # bs \<longrightarrow> ends_result (xs as) c r)
    \<and> proper_log list_wrapper (ts_log s) \<and> (\<forall>a. a \<notin> N \<longrightarrow> ts_memory s a = h a)
    \<and> (\<forall>t. ts_pcs s t \<noteq> Idle \<longrightarrow> (\<exists>u s'. thread_step list_wrapper u s s'))"
proof -
  obtain mutex where "xgl_mutex_init created (Some (lt_mutex p0)) = (XGL_OK, mutex)" "lt_mutex p = the mutex" and l0: "lt_list p = xgl_list_init"
    using init by (auto simp: xgl_list_ts_init_def split: prod.splits)
  then have free: "mutex_free (lt_mutex p)" using mutex_init_free by fastforce
  have lin: "linear list_wrapper no_write (xgl_list_init, h) s" using reachable_linear [OF reach free] l0 by simp
  have start: "list_state N h [] (xgl_list_init, h)" by (simp add: list_state_def rep_init)
  have st: "list_state N h (xs as) (foldl list_call_step (xgl_list_init, h) (list_calls as))" if "ts_log s = as @ bs" for as bs
  proof -
    have "heap_list.allowed N [] (list_calls as)" using proper heap_list_prefix that by (simp add: list_calls_append)
    then show ?thesis using heap_list.foldl_refines [OF start] xs by simp
  qed
  have rep: "rep (xs as) (fst (foldl list_call_step (xgl_list_init, h) (list_calls as))) (snd (foldl list_call_step (xgl_list_init, h) (list_calls as)))"
    if "ts_log s = as @ bs" for as bs using st [OF that] by (simp add: list_state_def)
  have ends: "ends_result (xs as) c r" if "ts_log s = as @ Committed t (True, c) r # bs" for as t c r bs
    using list_results [OF _ rep [OF that], of t c r bs] lin that by (simp add: linear_def)
  have cur: "foldl list_call_step (xgl_list_init, h) (list_calls (ts_log s)) = (ts_fields s, ts_memory s)"
    using lin by (simp add: linear_def list_seq)
  have now: "rep (xs (ts_log s)) (ts_fields s) (ts_memory s)" and frame: "\<forall>a. a \<notin> N \<longrightarrow> ts_memory s a = h a"
    using st [of "ts_log s" "[]"] cur by (simp_all add: list_state_def)
  then have walks: "list_for_each (length (xs (ts_log s))) (ts_memory s) (xgl_list_peek_head (ts_fields s)) = Some (xs (ts_log s))"
    "list_for_each_back (length (xs (ts_log s))) (ts_memory s) (xgl_list_peek_tail (ts_fields s)) = Some (rev (xs (ts_log s)))"
    using links_walk [of "ts_memory s" None "xs (ts_log s)"] links_walk_back [of "ts_memory s" "xs (ts_log s)"]
    by (auto simp: rep_def xgl_list_peek_head_def xgl_list_peek_tail_def)
  show ?thesis using walks ends frame linear_proper [OF lin] threads_progress [OF reachable_exclusive [OF reach free]] by blast
qed

text \<open>Two threads insert nodes and a third removes the head while the second waits.\<close>

definition list_schedule :: "(bool \<times> list_op, unit) ts_action list" where
  "list_schedule = [Call 1 (True, LtInsertTail (Some 4)), Call 2 (True, LtInsertHead (Some 2)), Step 1, Step 1, Step 1, Step 1,
     Call 3 (True, LtRemoveHead), Step 3, Step 3, Step 3, Step 3, Step 2, Step 2, Step 2]"

definition sample_list :: xgl_list_ts where
  "sample_list = \<lparr> lt_list = xgl_list_init, lt_mutex = \<lparr> mx_initialized = True, mx_owner = None, mx_depth = 0 \<rparr> \<rparr>"

definition blank_nodes :: node_store where
  "blank_nodes = (\<lambda>_. \<lparr> ln_next = None, ln_prev = None \<rparr>)"

theorem list_ts_linearizable_witness:
  "\<exists>s. xgl_list_ts_init True (Some sample_list) = (True, Some sample_list)
     \<and> ts_execs list_wrapper no_write (ts_start (lt_mutex sample_list) (lt_list sample_list) blank_nodes) list_schedule = Some s
     \<and> list_for_each 1 (ts_memory s) (xgl_list_peek_head (ts_fields s)) = Some [2]
     \<and> ts_log s = [Invoked 1 (True, LtInsertTail (Some 4)), Invoked 2 (True, LtInsertHead (Some 2)), Committed 1 (True, LtInsertTail (Some 4)) ListVoid,
          Returned 1 ListVoid, Invoked 3 (True, LtRemoveHead), Committed 3 (True, LtRemoveHead) (NodePtr (Some 4)), Returned 3 (NodePtr (Some 4)),
          Committed 2 (True, LtInsertHead (Some 2)) ListVoid]
     \<and> proper_log list_wrapper (ts_log s)"
proof -
  have init: "xgl_list_ts_init True (Some sample_list) = (True, Some sample_list)"
    by (simp add: xgl_list_ts_init_def sample_list_def xgl_mutex_init_def)
  obtain s where s: "ts_execs list_wrapper no_write (ts_start (lt_mutex sample_list) (lt_list sample_list) blank_nodes) list_schedule = Some s"
      and log: "ts_log s = [Invoked 1 (True, LtInsertTail (Some 4)), Invoked 2 (True, LtInsertHead (Some 2)), Committed 1 (True, LtInsertTail (Some 4)) ListVoid,
          Returned 1 ListVoid, Invoked 3 (True, LtRemoveHead), Committed 3 (True, LtRemoveHead) (NodePtr (Some 4)), Returned 3 (NodePtr (Some 4)),
          Committed 2 (True, LtInsertHead (Some 2)) ListVoid]"
    by (simp add: list_schedule_def ts_start_def list_wrapper_defs xgl_mutex_lock_def xgl_mutex_unlock_def sample_list_def
        xgl_list_init_def xgl_list_remove_head_def list_op_defs blank_nodes_def)
  note t = list_ts_linearizable [OF init execs_reach [OF s], of "{2, 4}", OF _ refl]
  have "list_for_each 1 (ts_memory s) (xgl_list_peek_head (ts_fields s)) = Some [2]" "proper_log list_wrapper (ts_log s)"
    using t by (simp_all add: log)
  then show ?thesis using init s log by blast
qed

end
