(* ===== verification/Xgl_Platform.thy ===== *)
theory Xgl_Platform
  imports Xgl_Prelude
begin

text \<open>
  The services around the protocol: the messages of the error codes (\<^verbatim>\<open>src/core/xgl_error.c\<close>), the time functions of
  \<^verbatim>\<open>src/platform/xgl_time.c\<close> (POSIX variant) and \<^verbatim>\<open>include/xgl/internal/xgl_time.h\<close>, the time provider of
  \<^verbatim>\<open>src/platform/xgl_time_provider.c\<close>, the timer stubs of \<^verbatim>\<open>src/platform/xgl_timer.c\<close> and the version
  (\<^verbatim>\<open>src/api/xgl_version.c\<close>). What \<^verbatim>\<open>clock_gettime\<close> and a custom time source return are arguments.

  Shown: an interval measured with the 32-bit clocks is exact as long as it is shorter than the range of the clock, across any number of
  wraps before it; the delays ask for exactly the time they are given; every error code has its own message.
\<close>

section \<open>Error codes and messages\<close>

fun xgl_error_code :: "xgl_error \<Rightarrow> int" where
  "xgl_error_code XGL_OK = 0"
| "xgl_error_code XGL_ERR_INVALID_PARAM = 1"
| "xgl_error_code XGL_ERR_NULL_POINTER = 2"
| "xgl_error_code XGL_ERR_NOT_INITIALIZED = 3"
| "xgl_error_code XGL_ERR_ALREADY_INITIALIZED = 4"
| "xgl_error_code XGL_ERR_NOT_FOUND = 5"
| "xgl_error_code XGL_ERR_NO_MEMORY = 100"
| "xgl_error_code XGL_ERR_POOL_EXHAUSTED = 101"
| "xgl_error_code XGL_ERR_BUFFER_TOO_SMALL = 102"
| "xgl_error_code XGL_ERR_ROUTE_NOT_FOUND = 200"
| "xgl_error_code XGL_ERR_TX_FAILED = 201"
| "xgl_error_code XGL_ERR_TIMEOUT = 202"
| "xgl_error_code XGL_ERR_ACK_TIMEOUT = 203"
| "xgl_error_code XGL_ERR_TTL_EXPIRED = 204"
| "xgl_error_code XGL_ERR_INVALID_FRAME = 300"
| "xgl_error_code XGL_ERR_CRC_FAILED = 301"
| "xgl_error_code XGL_ERR_INVALID_VERSION = 302"
| "xgl_error_code XGL_ERR_INVALID_DATA_TYPE = 303"
| "xgl_error_code XGL_ERR_SEQUENCE_ERROR = 304"
| "xgl_error_code XGL_ERR_BUSY = 400"
| "xgl_error_code XGL_ERR_QUEUE_FULL = 401"
| "xgl_error_code XGL_ERR_WINDOW_FULL = 402"

definition error_strings :: "(xgl_error \<times> string) list" where
  "error_strings =
    [(XGL_OK, ''Success''),
     (XGL_ERR_INVALID_PARAM, ''Invalid parameter''),
     (XGL_ERR_NULL_POINTER, ''Null pointer''),
     (XGL_ERR_NOT_INITIALIZED, ''Not initialized''),
     (XGL_ERR_ALREADY_INITIALIZED, ''Already initialized''),
     (XGL_ERR_NOT_FOUND, ''Not found''),
     (XGL_ERR_NO_MEMORY, ''Out of memory''),
     (XGL_ERR_POOL_EXHAUSTED, ''Memory pool exhausted''),
     (XGL_ERR_BUFFER_TOO_SMALL, ''Buffer too small''),
     (XGL_ERR_ROUTE_NOT_FOUND, ''Route not found''),
     (XGL_ERR_TX_FAILED, ''Transmission failed''),
     (XGL_ERR_TIMEOUT, ''Operation timeout''),
     (XGL_ERR_ACK_TIMEOUT, ''ACK timeout''),
     (XGL_ERR_TTL_EXPIRED, ''TTL expired''),
     (XGL_ERR_INVALID_FRAME, ''Invalid frame''),
     (XGL_ERR_CRC_FAILED, ''CRC check failed''),
     (XGL_ERR_INVALID_VERSION, ''Invalid version''),
     (XGL_ERR_INVALID_DATA_TYPE, ''Invalid data type''),
     (XGL_ERR_SEQUENCE_ERROR, ''Packet number/window error''),
     (XGL_ERR_BUSY, ''Resource busy''),
     (XGL_ERR_QUEUE_FULL, ''Queue full''),
     (XGL_ERR_WINDOW_FULL, ''Sliding window full'')]"

definition xgl_error_string :: "int \<Rightarrow> string" where
  "xgl_error_string error =
     (case List.find (\<lambda>e. xgl_error_code (fst e) = error) error_strings of Some e \<Rightarrow> snd e | None \<Rightarrow> ''Unknown error'')"

lemma error_code_inj: "xgl_error_code a = xgl_error_code b \<longleftrightarrow> a = b"
  by (cases a; cases b) simp_all

text \<open>The codes are ordered like their numbers, and the table is in that order.\<close>

instantiation xgl_error :: linorder
begin

definition less_eq_xgl_error :: "xgl_error \<Rightarrow> xgl_error \<Rightarrow> bool" where
  "less_eq_xgl_error a b \<longleftrightarrow> xgl_error_code a \<le> xgl_error_code b"

definition less_xgl_error :: "xgl_error \<Rightarrow> xgl_error \<Rightarrow> bool" where
  "less_xgl_error a b \<longleftrightarrow> xgl_error_code a < xgl_error_code b"

instance
  by standard (auto simp: less_eq_xgl_error_def less_xgl_error_def error_code_inj)

end

lemma error_strings_sorted: "sorted_wrt (<) (map fst error_strings)"
  by (simp add: error_strings_def less_xgl_error_def)

text \<open>Every code has an entry of its own, and the messages differ from each other and from that of an unknown code.\<close>

lemma error_strings_complete:
  "set (map fst error_strings) = UNIV" "distinct (map fst error_strings)" "distinct (''Unknown error'' # map snd error_strings)"
proof -
  have "e \<in> set (map fst error_strings)" for e by (cases e) (simp_all add: error_strings_def)
  then show "set (map fst error_strings) = UNIV" by auto
  show "distinct (map fst error_strings)" using error_strings_sorted strict_sorted_iff by blast
  show "distinct (''Unknown error'' # map snd error_strings)" by (simp add: error_strings_def)
qed

lemma find_entry:
  "distinct (map fst es) \<Longrightarrow> (e, v) \<in> set es \<Longrightarrow> List.find (\<lambda>x. xgl_error_code (fst x) = xgl_error_code e) es = Some (e, v)"
proof (induction es)
  case (Cons x es)
  show ?case
  proof (cases "fst x = e")
    case True
    then have "(e, v) \<notin> set es" using Cons.prems(1) by (metis distinct.simps(2) fst_conv image_eqI list.set_map list.simps(9))
    then show ?thesis using Cons.prems(2) True by auto
  next
    case False
    then show ?thesis using Cons by (auto simp: error_code_inj)
  qed
qed simp

lemma error_entry: "\<exists>v. (e, v) \<in> set error_strings"
proof -
  have "e \<in> fst ` set error_strings" using error_strings_complete(1) by simp
  then show ?thesis by (auto elim!: imageE)
qed

lemma error_string_inj: "xgl_error_string (xgl_error_code a) = xgl_error_string (xgl_error_code b) \<longleftrightarrow> a = b"
proof -
  obtain v w where e: "(a, v) \<in> set error_strings" "(b, w) \<in> set error_strings" using error_entry by blast
  then have "xgl_error_string (xgl_error_code a) = v" "xgl_error_string (xgl_error_code b) = w"
    by (simp_all add: xgl_error_string_def find_entry error_strings_complete(2))
  moreover have "inj_on snd (set error_strings)" using error_strings_complete(3) by (simp add: distinct_map)
  ultimately show ?thesis using e inj_onD [of snd "set error_strings" "(a, v)" "(b, w)"] by auto
qed

lemma error_string_unknown: "xgl_error_string c = ''Unknown error'' \<longleftrightarrow> c \<notin> range xgl_error_code"
proof (cases "List.find (\<lambda>e. xgl_error_code (fst e) = c) error_strings")
  case None
  then have "xgl_error_code e \<noteq> c" for e using error_entry [of e] by (auto simp: find_None_iff)
  then show ?thesis using None by (auto simp: xgl_error_string_def)
next
  case (Some e)
  then have e: "e \<in> set error_strings" "xgl_error_code (fst e) = c" by (auto simp: find_Some_iff)
  then have "snd e \<noteq> ''Unknown error''" using error_strings_complete(3) by force
  then show ?thesis using Some e(2) by (auto simp: xgl_error_string_def)
qed

section \<open>Time\<close>

record timespec =
  tv_sec :: int
  tv_nsec :: int

text \<open>\<open>custom\<close> is the value of the custom time source, if one is set.\<close>

definition xgl_time_ms :: "u32 option \<Rightarrow> timespec \<Rightarrow> u32" where
  "xgl_time_ms custom ts = (case custom of Some t \<Rightarrow> t | None \<Rightarrow> word_of_int (tv_sec ts * 1000 + tv_nsec ts div 1000000))"

definition xgl_time_us :: "timespec \<Rightarrow> u32" where
  "xgl_time_us ts = word_of_int (tv_sec ts * 1000000 + tv_nsec ts div 1000)"

text \<open>What the delays ask \<^verbatim>\<open>nanosleep\<close> for; the arithmetic is that of 32-bit words.\<close>

definition xgl_delay_ms :: "u32 \<Rightarrow> timespec" where
  "xgl_delay_ms ms = \<lparr> tv_sec = uint (ms div 1000), tv_nsec = uint ((ms mod 1000) * 1000000) \<rparr>"

definition xgl_delay_us :: "u32 \<Rightarrow> timespec" where
  "xgl_delay_us us = \<lparr> tv_sec = uint (us div 1000000), tv_nsec = uint ((us mod 1000000) * 1000) \<rparr>"

text \<open>The first argument is what \<^verbatim>\<open>xgl_time_ms()\<close> returns inside.\<close>

definition xgl_time_elapsed_ms :: "u32 \<Rightarrow> u32 \<Rightarrow> u32" where
  "xgl_time_elapsed_ms now start_time_ms = now - start_time_ms"

definition xgl_time_is_timeout :: "u32 \<Rightarrow> u32 \<Rightarrow> u32 \<Rightarrow> bool" where
  "xgl_time_is_timeout now start_time_ms timeout_ms \<longleftrightarrow> now - start_time_ms \<ge> timeout_ms"

section \<open>The time provider\<close>

record xgl_mock_time =
  current_time_ms :: u32

text \<open>A provider is a function and the pointer it is called with: the default one calls \<^verbatim>\<open>xgl_time_ms\<close>, the other one reads a mock.\<close>

datatype xgl_time_provider = DefaultProvider | MockProvider "xgl_mock_time option"

definition xgl_time_provider_default :: xgl_time_provider where
  "xgl_time_provider_default = DefaultProvider"

definition xgl_time_provider_mock :: "xgl_mock_time option \<Rightarrow> xgl_time_provider" where
  "xgl_time_provider_mock mock = MockProvider mock"

fun get_time_ms :: "u32 \<Rightarrow> xgl_time_provider \<Rightarrow> u32" where
  "get_time_ms now DefaultProvider = now"
| "get_time_ms now (MockProvider mock) = (case mock of None \<Rightarrow> 0 | Some m \<Rightarrow> current_time_ms m)"

definition xgl_mock_time_init :: "xgl_mock_time option \<Rightarrow> u32 \<Rightarrow> xgl_mock_time option" where
  "xgl_mock_time_init mock initial_time_ms = map_option (\<lambda>m. m \<lparr> current_time_ms := initial_time_ms \<rparr>) mock"

definition xgl_mock_time_advance :: "xgl_mock_time option \<Rightarrow> u32 \<Rightarrow> xgl_mock_time option" where
  "xgl_mock_time_advance mock delta_ms = map_option (\<lambda>m. m \<lparr> current_time_ms := current_time_ms m + delta_ms \<rparr>) mock"

definition xgl_mock_time_set :: "xgl_mock_time option \<Rightarrow> u32 \<Rightarrow> xgl_mock_time option" where
  "xgl_mock_time_set mock time_ms = map_option (\<lambda>m. m \<lparr> current_time_ms := time_ms \<rparr>) mock"

section \<open>Timers without hardware and the version\<close>

text \<open>A handle is whether the pointer is not NULL; on platforms other than FreeRTOS no timer is ever created.\<close>

definition xgl_timer_create :: bool where
  "xgl_timer_create = False"

definition xgl_timer_start :: "bool \<Rightarrow> xgl_error" where
  "xgl_timer_start handle = (if \<not> handle then XGL_ERR_NULL_POINTER else XGL_ERR_NOT_INITIALIZED)"

definition xgl_timer_stop :: "bool \<Rightarrow> xgl_error" where
  "xgl_timer_stop handle = (if \<not> handle then XGL_ERR_NULL_POINTER else XGL_ERR_NOT_INITIALIZED)"

definition xgl_version_string :: string where
  "xgl_version_string = ''2.0.0''"

definition xgl_version_int :: u32 where
  "xgl_version_int = 2 * 10000 + 0 * 100 + 0"

section \<open>Intervals\<close>

lemma timers_unavailable: "xgl_timer_start xgl_timer_create \<noteq> XGL_OK" "xgl_timer_stop xgl_timer_create \<noteq> XGL_OK"
  by (simp_all add: xgl_timer_start_def xgl_timer_stop_def)

text \<open>The instant a clock stands for, in milliseconds; only the clock itself wraps.\<close>

definition stamp_ms :: "timespec \<Rightarrow> int" where
  "stamp_ms ts = tv_sec ts * 1000 + tv_nsec ts div 1000000"

definition stamp_us :: "timespec \<Rightarrow> int" where
  "stamp_us ts = tv_sec ts * 1000000 + tv_nsec ts div 1000"

lemma wrapped_difference: "0 \<le> y - x \<Longrightarrow> y - x < 2 ^ 32 \<Longrightarrow> uint (word_of_int y - word_of_int x :: u32) = y - x"
  by (simp add: of_int_diff [symmetric] uint_word_of_int del: of_int_diff)

lemma mock_time_sum:
  "get_time_ms now (xgl_time_provider_mock (foldl xgl_mock_time_advance (xgl_mock_time_init (Some m) t) ds)) = t + sum_list ds"
proof -
  have "foldl xgl_mock_time_advance (Some m) ds = Some (m \<lparr> current_time_ms := current_time_ms m + sum_list ds \<rparr>)" for m
    by (induction ds arbitrary: m) (simp_all add: xgl_mock_time_advance_def add.assoc)
  then show ?thesis by (simp add: xgl_mock_time_init_def xgl_time_provider_mock_def)
qed

text \<open>
  C40: time. With \<open>a\<close> the reading of the system clock at the start and \<open>b\<close> a later one, less than \<open>2^32\<close> milliseconds (49 days)
  apart, the elapsed time is exact, and a timeout is reported exactly when it has passed, however often the 32-bit
  counter has wrapped since the system started; likewise the microsecond counter for intervals of up to 71 minutes. The delays hand
  \<^verbatim>\<open>nanosleep\<close> a valid argument of exactly the given length.
\<close>

theorem time_intervals_exact:
  "(0 \<le> stamp_ms b - stamp_ms a \<and> stamp_ms b - stamp_ms a < 2 ^ 32 \<longrightarrow>
      uint (xgl_time_elapsed_ms (xgl_time_ms None b) (xgl_time_ms None a)) = stamp_ms b - stamp_ms a
      \<and> (xgl_time_is_timeout (xgl_time_ms None b) (xgl_time_ms None a) timeout_ms \<longleftrightarrow> stamp_ms b - stamp_ms a \<ge> uint timeout_ms))
    \<and> (0 \<le> stamp_us b - stamp_us a \<and> stamp_us b - stamp_us a < 2 ^ 32 \<longrightarrow> uint (xgl_time_us b - xgl_time_us a) = stamp_us b - stamp_us a)
    \<and> (let ts = xgl_delay_ms d in tv_sec ts * 1000000000 + tv_nsec ts = uint d * 1000000 \<and> 0 \<le> tv_nsec ts \<and> tv_nsec ts < 1000000000)
    \<and> (let ts = xgl_delay_us d in tv_sec ts * 1000000000 + tv_nsec ts = uint d * 1000 \<and> 0 \<le> tv_nsec ts \<and> tv_nsec ts < 1000000000)"
proof -
  have ms: "xgl_time_ms None x = word_of_int (stamp_ms x)" and us: "xgl_time_us x = word_of_int (stamp_us x)" for x
    by (simp_all add: xgl_time_ms_def xgl_time_us_def stamp_ms_def stamp_us_def)
  have nsec: "uint ((d mod k) * n) = uint d mod uint k * uint n" if "uint k * uint n < 2 ^ 32" "0 < uint k" for k n :: u32
  proof -
    have "uint d mod uint k * uint n \<le> uint k * uint n" using that(2) by (intro mult_right_mono) (simp_all add: pos_mod_bound less_imp_le)
    then have "uint d mod uint k * uint n < 2 ^ 32" using that(1) by linarith
    then show ?thesis using that(2) by (simp add: uint_word_ariths uint_mod mod_pos_pos_trivial)
  qed
  have split: "uint d div 1000 * 1000 + uint d mod 1000 = uint d" "uint d div 1000000 * 1000000 + uint d mod 1000000 = uint d"
    by (rule div_mult_mod_eq)+
  have len: "uint d div 1000 * 1000000000 + uint d mod 1000 * 1000000 = uint d * 1000000"
    "uint d div 1000000 * 1000000000 + uint d mod 1000000 * 1000 = uint d * 1000" using split by linarith+
  show ?thesis
    using wrapped_difference [of "stamp_ms b" "stamp_ms a"] wrapped_difference [of "stamp_us b" "stamp_us a"] nsec [of 1000 1000000] nsec [of 1000000 1000]
    unfolding ms us xgl_time_elapsed_ms_def xgl_time_is_timeout_def xgl_delay_ms_def xgl_delay_us_def Let_def
    by (auto simp: word_le_def uint_div len)
qed

theorem time_intervals_exact_witness:
  "let a = \<lparr> tv_sec = 4294967, tv_nsec = 290000000 \<rparr>; b = \<lparr> tv_sec = 4294967, tv_nsec = 310000000 \<rparr>
   in xgl_time_ms None b < xgl_time_ms None a \<and> xgl_time_elapsed_ms (xgl_time_ms None b) (xgl_time_ms None a) = 20
      \<and> xgl_time_is_timeout (xgl_time_ms None b) (xgl_time_ms None a) 20 \<and> \<not> xgl_time_is_timeout (xgl_time_ms None b) (xgl_time_ms None a) 21"
proof -
  let ?a = "\<lparr> tv_sec = 4294967, tv_nsec = 290000000 \<rparr>" and ?b = "\<lparr> tv_sec = 4294967, tv_nsec = 310000000 \<rparr>"
  have "uint (xgl_time_elapsed_ms (xgl_time_ms None ?b) (xgl_time_ms None ?a)) = 20"
    "xgl_time_is_timeout (xgl_time_ms None ?b) (xgl_time_ms None ?a) 20" "\<not> xgl_time_is_timeout (xgl_time_ms None ?b) (xgl_time_ms None ?a) 21"
    using time_intervals_exact [of ?b ?a 20] time_intervals_exact [of ?b ?a 21] by (simp_all add: stamp_ms_def)
  then show ?thesis unfolding Let_def by (simp add: word_uint_eq_iff xgl_time_ms_def)
qed

end
