(* ===== verification/Spec2Isabelle.thy ===== *)
theory Spec2Isabelle
  imports Xgl_Parser Xgl_Window Xgl_Rtt Xgl_Security Xgl_Route Xgl_Reliable Xgl_Fragment Xgl_Datalink Xgl_Network Xgl_Codec Xgl_Transport_Inv
    Xgl_List Xgl_Mempool Xgl_Tiered_Pool Xgl_Allocator Xgl_Packet_Pool Xgl_Config Xgl_Instance Xgl_Runtime Xgl_Mutex Xgl_Thread_Safe Xgl_Platform
begin

text \<open>
  A verification development of xgen-link, a reliable multi-node protocol stack in C for small devices. Paths below are relative to the
  repository's \<^verbatim>\<open>src/\<close> and \<^verbatim>\<open>include/xgl/\<close>.

  \<^bold>\<open>The program.\<close> An application creates an instance from a configuration, sends messages and calls \<^verbatim>\<open>xgl_run\<close>
  periodically. Below it are four layers, each with its own context, that call each other through interfaces: the transport layer (reliable and
  unreliable messages, acknowledgements, fragments) hands packets to the network layer (routes, forwarding), which makes
  frames for the data link layer (authentication, replay protection, byte streams of the physical interfaces), which uses the wire
  format (header, extensions, checksums, the byte-fed parser). Received bytes travel the other way. Around the layers are data
  structures (lists, hash tables, memory pools), services of the platform (time, mutex) and the statistics.

  \<^bold>\<open>The theories\<close>, bottom up; each opens with what it models and how.
  \<^item> \<open>Xgl_Prelude\<close>: machine types, error codes, buffers, and the locales that several components interpret:
    \<open>invariant_machine\<close> (a step function with an invariant, run over a list of events), \<open>guarded_refinement\<close>
    (a component that implements an abstract one as long as its calls are proper), \<open>byte_checksum\<close>, \<open>pair_checksum\<close>.
  \<^item> \<open>Xgl_Serialize\<close>, \<open>Xgl_Crc\<close>, \<open>Xgl_Wire\<close>, \<open>Xgl_Frame\<close>, \<open>Xgl_Parser\<close> model \<^verbatim>\<open>wire/\<close>: the checksum tables are those of the bit-serial
    polynomials and detect bursts of two bytes; header, extensions and frames survive encoding and decoding; the
    authentication tag survives what a router changes; the parser, on any bytes, stays inside its cache and completes on
    valid frames only, and on every valid frame.
  \<^item> \<open>Xgl_Window\<close>, \<open>Xgl_Rtt\<close>, \<open>Xgl_Reliable\<close>, \<open>Xgl_Fragment\<close> model the parts of \<^verbatim>\<open>transport/\<close>: the sliding window and the timeout estimator
    keep their bounds; the queue of unacknowledged packets keeps list, index and store consistent, and acknowledgements and timeouts
    do to it exactly what they should; reassembly hands up only what was sent, within its memory budget.
  \<^item> \<open>Xgl_Security\<close>, \<open>Xgl_Hashtable\<close>, \<open>Xgl_Route\<close>, \<open>Xgl_Codec\<close> model \<^verbatim>\<open>security/\<close>, \<^verbatim>\<open>core/xgl_hashtable.c\<close>, \<^verbatim>\<open>network/xgl_route*.c\<close> and \<^verbatim>\<open>codec/\<close>: the
    replay bitmap refines the set of accepted numbers; hash table and route table are maps, without dangling pointers.
  \<^item> \<open>Xgl_Datalink\<close> and \<open>Xgl_Network\<close> model \<^verbatim>\<open>datalink/\<close> and \<^verbatim>\<open>network/xgl_network*.c\<close>: on any bytes an authenticated link delivers only frames that
    verify, and none twice; what is sent is delivered, in whatever chunks it arrives; a router forwards exactly the frames it should,
    unchanged but for time-to-live and header checksum, and forwarding ends.
  \<^item> \<open>Xgl_Transport\<close>, \<open>Xgl_Transport_Rx\<close>, \<open>Xgl_Transport_Tx\<close> model \<^verbatim>\<open>transport/xgl_transport*.c\<close>; \<open>Xgl_Transport_Inv\<close> has the invariant of the
    layer's state under any events, \<open>Xgl_Transport_Flow\<close> both halves together: what a send emits, that a message arrives whole, and that
    reliable messages reach the application in order and at most once, whatever happens to the packets.
  \<^item> \<open>Xgl_List\<close>, \<open>Xgl_Mempool\<close>, \<open>Xgl_Tiered_Pool\<close>, \<open>Xgl_Allocator\<close>, \<open>Xgl_Packet_Pool\<close> model \<^verbatim>\<open>core/xgl_list.c\<close> and \<^verbatim>\<open>memory/\<close>: the
    linked list over a store of nodes refines lists; the pools, over a byte memory that clients write to, never hand out overlapping blocks and
    survive invalid frees; the tracking allocator's statistics are exact; packet data is freed with its last reference.
  \<^item> \<open>Xgl_Mutex\<close> and \<open>Xgl_Thread_Safe\<close> model \<^verbatim>\<open>platform/xgl_mutex.c\<close>, \<^verbatim>\<open>platform/xgl_mutex_guard.c\<close>, \<^verbatim>\<open>memory/xgl_mempool_ts.c\<close> and \<^verbatim>\<open>core/xgl_list_ts.c\<close>: under every
    interleaving of any number of threads the wrapped pool and list behave as if the calls were made one after the other.
  \<^item> \<open>Xgl_Config\<close>, \<open>Xgl_Instance\<close>, \<open>Xgl_Runtime\<close> model \<^verbatim>\<open>api/\<close>: validation accepts exactly the sensible configurations; initialization gives a complete,
    wired instance or leaves nothing behind; the zero-copy send transmits what a copying one would; an application that sleeps
    until the announced deadline misses nothing.
  \<^item> \<open>Xgl_Platform\<close> models \<^verbatim>\<open>core/xgl_error.c\<close>, \<^verbatim>\<open>platform/xgl_time.c\<close>, \<^verbatim>\<open>platform/xgl_time_provider.c\<close>, \<^verbatim>\<open>platform/xgl_timer.c\<close> and \<^verbatim>\<open>api/xgl_version.c\<close>: intervals of the
    wrapping clocks are exact.
  \<^item> This theory has what spans the layers: a packet crosses network layer, data link and wire unchanged, and unreliable messages over an
    authenticated link. \<open>packet_ok\<close> and \<open>packet_arrives\<close> are the contract between the layers: the transport layer's theorems
    conclude the one and assume the other, which \<open>packet_crosses_link\<close> connects.

  \<^bold>\<open>How the code corresponds to the definitions.\<close> A C function is a definition of the same name; a loop or a part of a long function has a name of
  its own, and the order of tests, early returns and state changes is that of the code. A context or structure is a record; its
  pointer argument is passed and returned by value. NULL is \<open>None\<close>. An \<^verbatim>\<open>xgl_error_t\<close> with out-parameters is a sum, \<open>Inl\<close> the
  error. Fixed-width integers are words; \<^verbatim>\<open>size_t\<close> is a natural, and where the code adds or multiplies sizes without a
  check that could fail, the wrap at 64 bits is written out. Uninitialised bytes are \<open>None\<close>. Linked structures that are shared
  (the wait list and index of reliable packets, the intrusive list, routes behind pointers, free lists inside blocks, packet data) are addresses
  into a store; elsewhere a linked list is a list.

  What the code learns from outside is an argument: the answers of the allocator, the clock, the layers above and below and the
  physical interface are lists that are consumed (\<open>world\<close>, \<open>init_env\<close>, the arguments of the datalink and network functions), so
  every theorem holds for all of them. Calls to the outside are outputs, in order. The authentication provider and the codecs are
  functions of the application; where a property relies on a provider, its hypotheses are the documented ones (a tag that is signed
  verifies, the length is as announced), and a witness instantiates them.

  \<^bold>\<open>Termination and bounds.\<close> Every loop is a total function: structural, or with a termination proof (extension cursor,
  window advance, draining of buffered packets, removal of ranges, clearing of the queue, reinsertion of routes). Only the iteration over
  an intrusive list, which can be cyclic when it is misused, takes the number of steps as an argument; the refinement theorem gives it the length of the
  list, which is exactly enough. The scan of a pool's free list is bounded by the block count in the code itself.
  Threads take steps of a relation, with progress shown; schedules can be executed.

  \<^bold>\<open>Not modelled.\<close> Logging and platform detection (\<^verbatim>\<open>api/xgl_log.c\<close>, \<^verbatim>\<open>platform/xgl_platform.c\<close>, \<^verbatim>\<open>xgl_platform.h\<close>, \<^verbatim>\<open>xgl_atomic.h\<close>) only
  format text or select primitives at compile time. Of the platform variants of mutex, time and timers, the POSIX one is
  modelled; the others call other system functions in the same places. \<^verbatim>\<open>xgl_run\<close> is modelled as the sequence of its calls into the layers, which are
  modelled in full; the physical drivers, the examples, tests and tools are outside. Concurrency is modelled for the wrappers; in the other
  theories an operation is atomic, as it is under the mutex of a thread-safe instance. Counters that only the statistics
  report are modelled where the code updates them.
\<close>

section \<open>A packet across network layer, data link and wire\<close>

lemma packet_ok_routed:
  "packet_ok (pkt \<lparr> pk_phy := a, pk_source_id := b, pk_version := c \<rparr>) exts em = packet_ok pkt exts em"
  "tx_exts (pkt \<lparr> pk_phy := a, pk_source_id := b, pk_version := c \<rparr>) exts em = tx_exts pkt exts em"
  by (simp_all add: packet_ok_def tx_exts_def)

text \<open>
  C1: from transport layer to transport layer. A packet handed to the network layer of one node becomes a frame for the
  route's interface, the data link transmits it as bytes (authenticated or not), and at a node with the same
  link settings that is the packet's target, whatever chunks the bytes arrive in, the link delivers one frame and
  the network layer hands up one packet: with the same addresses, connection, packet number, data
  type, session epoch, extensions, payload and, where the sender left it to the network layer, the same reliability
  class, fragment mark and priority.
\<close>

theorem packet_crosses_link:
  assumes pkt: "packet_ok pkt exts em" "pk_data pkt = Some d"
      "src = (if pk_source_id pkt = 0 then nw_local_id A else pk_source_id pkt)" "xgl_network_validate_address (pk_target_id pkt) src"
    and A: "network_route A (pk_target_id pkt) = Some r" "ri_phy r = Some phy" "nw_lower_layer A"
      "nw_auth_required A = dl_auth_required S" "nw_auth_provider A = dl_auth_provider S"
    and S: "dl_auth_required S \<Longrightarrow> provider_ok (dl_auth_provider S)"
    and k: "k = xgl_frame_serialized_size (pd_data_len d) (length (exts_image (tx_exts pkt exts em))) (link_tag_len S)"
      "k \<le> unat (ri_max_frame_size r)" "k \<le> 2048" "k \<le> 512 \<or> (\<exists>as. allocs = True # as)"
    and R: "xgl_datalink_init (Some config) = Inr R" "dc_rx_cache config = Some cache" "dc_rx_cache_size config \<le> length cache"
      "k \<le> dc_rx_cache_size config" "dc_upper_layer config" "dc_auth_required config = dl_auth_required S"
      "dc_auth_key_id config = dl_auth_key_id S" "dc_auth_provider config = dl_auth_provider S"
    and B: "xgl_network_is_local B (pk_target_id pkt)" "nw_upper_layer B"
  shows "\<exists>f fr p. fst (network_send_impl A (Some pkt) XGL_OK) = XGL_OK
    \<and> fst (snd (network_send_impl A (Some pkt) XGL_OK)) = [ToLink f (Some phy)]
    \<and> fst (snd (datalink_send_impl S (Some (Some f, Some phy)) True XGL_OK allocs)) = [Transmit phy fr] \<and> length fr = k
    \<and> (\<forall>c t cs timeout. concat (map fst ((c, t) # cs)) = fr \<longrightarrow> c \<noteq> [] \<longrightarrow> timely timeout t ((c, t) # cs) \<longrightarrow>
         concat (fst (link.run R (polls timeout ((c, t) # cs)))) = [Deliver fr])
    \<and> fst (snd (network_receive_impl B (Some (Some fr, length fr)) up has_tx tx as)) = [ToTransport p]
    \<and> packet_arrives pkt src exts em p"
proof -
  let ?p = "pkt \<lparr> pk_phy := ri_phy r, pk_source_id := src, pk_version := 2 \<rparr>"
  let ?x = "tx_exts pkt exts em"
  have src: "src \<noteq> 0" using pkt(4) by (simp add: xgl_network_validate_address_def)
  have ok: "packet_ok ?p exts em" using pkt(1) by (simp only: packet_ok_routed)
  obtain f where f: "network_build_tx_frame ?p d (replicate 231 0) 231 = Inr f" "link_frame_ok f ?x" "frame_of ?p d f"
    "fr_extensions_len f = length (exts_image ?x)"
    using build_tx_frame [OF ok, of d] pkt(2) src by (auto simp: packet_ok_routed)
  have hdr: "fr_payload_len f = pd_data_len d" "wh_target_id (fr_header f) = pk_target_id pkt" "wh_source_id (fr_header f) = src"
    using f(3) by (simp_all add: frame_of_def Let_def)
  have size: "xgl_frame_serialized_size (pd_data_len d) (length (exts_image ?x))
      (if nw_auth_required A then (case nw_auth_provider A of None \<Rightarrow> 0 | Some p \<Rightarrow> ap_tag_len p) else 0) \<le> unat (ri_max_frame_size r)"
    using k(1,2) unfolding link_tag_len_def A(4,5) by blast
  obtain A' q where send: "network_send_impl A (Some pkt) XGL_OK = (XGL_OK, [ToLink f (Some phy)], A', q)"
    using network_send_ok [OF pkt(1-3) src A(1,3) _ refl size f(1,3,4)] S A(2,4,5) by (auto simp: network_send_impl_def)
  have k': "k = xgl_frame_serialized_size (fr_payload_len f) (fr_extensions_len f) (link_tag_len S)" using k(1) f(4) hdr(1) by simp
  obtain fr where fr: "fst (snd (xgl_datalink_send S (Some phy) True (Some f) XGL_OK allocs)) = [Transmit phy fr]" "length fr = k"
    "frame_carries fr f ?x"
    "\<And>c t cs timeout. concat (map fst ((c, t) # cs)) = fr \<Longrightarrow> c \<noteq> [] \<Longrightarrow> timely timeout t ((c, t) # cs) \<Longrightarrow>
       concat (fst (link.run R (polls timeout ((c, t) # cs)))) = [Deliver fr]"
    using roundtrip_through_link [OF f(2) k' k(3,4) S R, of phy] by metis
  obtain p B' where p: "xgl_network_receive B (Some fr) (length fr) up has_tx tx as = (up, [ToTransport p], B', as)"
    "packet_of f ?x (tx_metadata pkt em) p"
    using receive_carried_frame [OF fr(3) tx_exts_ok(3) [OF pkt(1)], of B up has_tx tx as] pkt(4) B hdr by auto
  show ?thesis
  proof (intro exI conjI)
    show "fst (network_send_impl A (Some pkt) XGL_OK) = XGL_OK" "fst (snd (network_send_impl A (Some pkt) XGL_OK)) = [ToLink f (Some phy)]"
      by (simp_all add: send)
    show "fst (snd (datalink_send_impl S (Some (Some f, Some phy)) True XGL_OK allocs)) = [Transmit phy fr]"
      by (simp add: datalink_send_impl_def fr(1))
    show "\<forall>c t cs timeout. concat (map fst ((c, t) # cs)) = fr \<longrightarrow> c \<noteq> [] \<longrightarrow> timely timeout t ((c, t) # cs) \<longrightarrow>
         concat (fst (link.run R (polls timeout ((c, t) # cs)))) = [Deliver fr]"
      using fr(4) by blast
    show "fst (snd (network_receive_impl B (Some (Some fr, length fr)) up has_tx tx as)) = [ToTransport p]"
      by (simp add: network_receive_impl_def p(1))
  qed (rule fr(2) packet_arrivesI [OF f(3) pkt(2) p(2)])+
qed

text \<open>Two nodes for the witness: the packet and its sender, the receiver, the authenticated link between them.\<close>

definition sample_packet :: xgl_packet where
  "sample_packet =
     \<lparr> pk_source_id = 0, pk_target_id = 0x0102, pk_session_id = 7, pk_connection_id = 0, pk_packet_number = 9, pk_session_epoch = 0,
       pk_version = 0, pk_packet_type = 0, pk_flags = 0, pk_data_type = 3, pk_reliable = 0x40, pk_fragment = 0, pk_encrypt = 0,
       pk_priority = 2, pk_ttl = 0, pk_traffic_class = 0, pk_compress = 0,
       pk_data = Some \<lparr> pd_data = Some [1, 2, 3, 4], pd_data_len = 4 \<rparr>, pk_extensions = None, pk_extensions_len = 0, pk_phy = None \<rparr>"

definition sample_sender :: xgl_network_ctx where
  "sample_sender = sample_router \<lparr> nw_auth_required := True, nw_auth_key_id := 5, nw_auth_provider := Some demo_provider \<rparr>"

definition sample_receiver :: xgl_network_ctx where
  "sample_receiver = sample_router \<lparr> nw_local_id := 0x0102 \<rparr>"

lemma sample_packet_ok: "packet_ok sample_packet [] zero_ext_metadata"
  by (simp add: packet_ok_def sample_packet_def part_ok_def part_of_def exts_image_def exts_ok_def zero_ext_metadata_def)

theorem packet_crosses_link_witness:
  "\<exists>f fr p. fst (snd (network_send_impl sample_sender (Some sample_packet) XGL_OK)) = [ToLink f (Some 0)]
    \<and> fst (snd (datalink_send_impl sample_link (Some (Some f, Some 0)) True XGL_OK [])) = [Transmit 0 fr]
    \<and> fst (snd (network_receive_impl sample_receiver (Some (Some fr, length fr)) XGL_OK (\<lambda>_. True) XGL_OK [])) = [ToTransport p]
    \<and> packet_arrives sample_packet 50 [] zero_ext_metadata p"
proof -
  have k: "50 = xgl_frame_serialized_size (pd_data_len \<lparr> pd_data = Some [1, 2, 3, 4], pd_data_len = 4 \<rparr>)
      (length (exts_image (tx_exts sample_packet [] zero_ext_metadata))) (link_tag_len sample_link)"
    using sample_link_ok(3) by (simp add: sample_frame_def tx_exts_def sample_packet_def zero_ext_metadata_def)
  have node: "pk_data sample_packet = Some \<lparr> pd_data = Some [1, 2, 3, 4], pd_data_len = 4 \<rparr>"
    "50 = (if pk_source_id sample_packet = 0 then nw_local_id sample_sender else pk_source_id sample_packet)"
    "xgl_network_validate_address (pk_target_id sample_packet) 50" "nw_lower_layer sample_sender"
    "xgl_network_is_local sample_receiver (pk_target_id sample_packet)" "nw_upper_layer sample_receiver"
    by (simp_all add: sample_packet_def sample_sender_def sample_receiver_def sample_router_def
        xgl_network_validate_address_def xgl_network_is_local_def)
  have route: "network_route sample_sender (pk_target_id sample_packet) = Some (route_to 0x0102)" "ri_phy (route_to 0x0102) = Some 0"
    "50 \<le> unat (ri_max_frame_size (route_to 0x0102))"
    using sample_route by (simp_all add: sample_packet_def sample_sender_def network_route_def route_to_def)
  have auth: "nw_auth_required sample_sender = dl_auth_required sample_link" "nw_auth_provider sample_sender = dl_auth_provider sample_link"
    using sample_link_settings by (simp_all add: sample_sender_def dl_settings_def)
  from packet_crosses_link [OF sample_packet_ok node(1-3) route(1,2) node(4) auth sample_link_facts(5) k route(3) sample_link_facts(1,2)
      sample_link_init sample_link_facts(9,10,3,4,6-8) node(5,6), of XGL_OK "\<lambda>_. True" XGL_OK "[]"]
  show ?thesis by blast
qed

section \<open>Unreliable messages over an authenticated link\<close>

text \<open>
  Unreliable messages, and every fragment of one, go out with packet number 0. An authenticated receiver takes packet numbers as
  the identity of a frame: of all frames of one source, connection and session epoch with one number that do not ask for an acknowledgement, it
  delivers at most one. So after the first unreliable frame of a sender has been delivered, all its later ones
  on the same connection are dropped as replays.
\<close>

lemma unreliable_packet_numbers:
  assumes "xgl_transport_send ctx w (Some tx_data) = (XGL_OK, ctx', w')" "td_compression_id tx_data = 0" "\<not> td_reliable tx_data"
  shows "\<exists>pkts. w_log w' = w_log w @ map ToNetwork pkts \<and>
    (\<forall>p \<in> set pkts. pk_packet_number p = 0 \<and> pk_session_id p = 0 \<and> pk_connection_id p = td_connection_id tx_data \<and> pk_source_id p = tc_local_id ctx)"
  using assms(1,2)
proof (rule send_ok_log)
  fix hello ctx1 peer plan message_id
  assume "w_log w' = w_log w @ hello @ map ToNetwork (message_packets ctx1 peer tx_data plan message_id)"
    and "hello = [] \<or> td_reliable tx_data \<and> (\<exists>x. hello = [x] \<and> hello_to (td_target_id tx_data) x)"
    and "tx_peer_ok ctx1 tx_data peer" and same: "tc_local_id ctx1 = tc_local_id ctx"
  moreover from this have "peer = None" "hello = []" using assms(3) by (auto simp: tx_peer_ok_def split: option.splits)
  ultimately show ?thesis
    by (intro exI [of _ "message_packets ctx1 peer tx_data plan message_id"])
       (auto simp: message_packets_def fragment_packet_def transport_packet_view_def tx_number_def split: if_splits)
qed

lemma authenticated_link_one_per_number:
  assumes "xgl_datalink_init (Some config) = Inr ctx" "dc_rx_cache config = Some cache" "dc_rx_cache_size config \<le> length cache"
    and "dc_auth_required config"
  shows "length (filter (\<lambda>f. frame_id (dc_auth_key_id config) f = x \<and> \<not> frame_eliciting (dc_auth_key_id config) f)
           (deliveries (concat (fst (link.run ctx es))))) \<le> 1"
proof -
  let ?key = "dc_auth_key_id config"
  note init = datalink_init_parser [OF assms(1-3)]
  have "parser_bounds (dl_parser ctx)" using init(1) by (simp add: parser_tracks_def)
  from link_run_guarantee [OF this, of es] datalink_init_bank [OF assms(1)]
  have "no_replay ?key (deliveries (concat (fst (link.run ctx es))))"
    using assms(4) init(3,4) unfolding link_guarantee_def admits_def by auto
  then have sorted: "sorted_wrt (\<lambda>f g. frame_id ?key f = frame_id ?key g \<longrightarrow> frame_eliciting ?key g)
      (filter (\<lambda>f. frame_id ?key f = x \<and> \<not> frame_eliciting ?key f) (deliveries (concat (fst (link.run ctx es)))))" (is "sorted_wrt _ ?fs")
    by (auto simp: no_replay_def sorted_wrt_filter)
  show "length ?fs \<le> 1"
  proof (cases ?fs rule: remdups_adj.cases)
    case (3 f g fs)
    have "\<forall>h \<in> set ?fs. frame_id ?key h = x \<and> \<not> frame_eliciting ?key h" by simp
    then show ?thesis using sorted unfolding 3 by simp
  qed simp_all
qed

end
